(* ===== verification/Prelude.thy ===== *)
theory Prelude
  imports Main "HOL-Library.Word"
begin

text \<open>
  Shared vocabulary of the development: the machine integer types, the kernel's panic codes
  (\<^verbatim>\<open>exos/kernel/panic.h\<close>), results of code that can stop in a panic, and the generic
  facts on lists that the components use.  All components are modelled in the DEBUG
  configuration of the sources, in which \<^verbatim>\<open>ASSERT\<close> calls \<^verbatim>\<open>kernel_panic\<close>.
\<close>

unbundle bit_operations_syntax

section \<open>Machine integers\<close>

type_synonym u8 = "8 word"
type_synonym u16 = "16 word"
type_synonym u32 = "32 word"

section \<open>Faults\<close>

datatype kernel_error =
    KERNEL_ERROR_UNKNOWN
  | KERNEL_ERROR_NULL_POINTER
  | KERNEL_ERROR_STACK_OVERFLOW
  | KERNEL_ERROR_STACK_CORRUPTED
  | KERNEL_ERROR_STACK_INSUFFICIENT
  | KERNEL_ERROR_WRONG_NODE
  | KERNEL_ERROR_LIST_CORRUPTED
  | KERNEL_ERROR_LIST_ALREADY_CONTAINS_NODE
  | KERNEL_ERROR_THREAD_NOT_READY
  | KERNEL_ERROR_THREAD_NOT_WAITING
  | KERNEL_ERROR_CROSS_THREAD_OPERATION
  | KERNEL_ERROR_NO_SIGNALS_AVAILABLE
  | KERNEL_ERROR_MUTEX_IN_USE
  | KERNEL_ERROR_TIMER_NOT_FOUND
  | KERNEL_ERROR_TIMER_ALREADY_IN_USE
  | KERNEL_ERROR_EVENT_NOT_FOUND
  | KERNEL_ERROR_EVENT_WRONG_STATE
  | KERNEL_ERROR_IO_TYPE_MISMATCH
  | KERNEL_ERROR_NOT_ENOUGH_MEMORY
  | KERNEL_ERROR_MEMORY_CORRUPT
  | KERNEL_ERROR_THREAD_POOL_CORRUPTED
  | KERNEL_ERROR_ALREADY_IN_USE
  | KERNEL_ERROR_NO_HARDWARE_RESOURCES
  | KERNEL_ERROR_NOT_SUPPORTED
  | KERNEL_ERROR_NOT_IMPLEMENTED
  | KERNEL_ERROR_KERNEL_PANIC

text \<open>
  A computation stops in \<open>Panic e\<close> (\<^verbatim>\<open>kernel_panic(e)\<close>), in \<open>Halt\<close>
  (\<^verbatim>\<open>__kernel_panic()\<close>) or, for a loop whose model carries fuel, in \<open>OutOfFuel\<close>.
\<close>

datatype fault = Panic kernel_error | Halt | OutOfFuel

type_synonym 'a res = "fault + 'a"

definition rbind :: "'a res \<Rightarrow> ('a \<Rightarrow> 'b res) \<Rightarrow> 'b res" where
  "rbind m f = (case m of Inl e \<Rightarrow> Inl e | Inr a \<Rightarrow> f a)"

definition ASSERT :: "bool \<Rightarrow> kernel_error \<Rightarrow> 'a res \<Rightarrow> 'a res" where
  "ASSERT c e k = (if c then k else Inl (Panic e))"

named_theorems res_simps "rules that run a computation that can panic"

lemma rbind_Inr [simp, res_simps]: "rbind (Inr a) f = f a"
  by (simp add: rbind_def)

lemma rbind_Inl [simp, res_simps]: "rbind (Inl e) f = Inl e"
  by (simp add: rbind_def)

lemma rbind_assoc: "rbind (rbind m f) g = rbind m (\<lambda>x. rbind (f x) g)"
  by (cases m) (simp_all add: rbind_def)

lemma rbind_cong: "(\<And>x. m = Inr x \<Longrightarrow> f x = g x) \<Longrightarrow> rbind m f = rbind m g"
  by (cases m) (simp_all add: rbind_def)

lemma ASSERT_True [simp, res_simps]: "c \<Longrightarrow> ASSERT c e k = k"
  by (simp add: ASSERT_def)

lemma ASSERT_False [simp, res_simps]: "\<not> c \<Longrightarrow> ASSERT c e k = Inl (Panic e)"
  by (simp add: ASSERT_def)

lemma rbind_eq_Inr: "rbind m f = Inr b \<longleftrightarrow> (\<exists>a. m = Inr a \<and> f a = Inr b)"
  by (cases m) auto

lemma ASSERT_eq_Inr: "ASSERT c e k = Inr b \<longleftrightarrow> c \<and> k = Inr b"
  by (simp add: ASSERT_def)

lemmas res_elims = rbind_eq_Inr ASSERT_eq_Inr

text \<open>What holds of the result of a computation, if it has one; the rules follow the computation.\<close>

definition yields :: "('a \<Rightarrow> bool) \<Rightarrow> 'a res \<Rightarrow> bool" where
  "yields P m \<longleftrightarrow> (\<forall>x. m = Inr x \<longrightarrow> P x)"

lemma yields_Inr [simp]: "yields P (Inr x) \<longleftrightarrow> P x" "yields P (Inl e)"
  by (simp_all add: yields_def)

lemma yields_rbind: "yields Q m \<Longrightarrow> (\<And>x. Q x \<Longrightarrow> yields P (f x)) \<Longrightarrow> yields P (rbind m f)"
  by (cases m) (simp_all add: yields_def)

lemma yields_pure: "(\<And>x. yields P (f x)) \<Longrightarrow> yields P (rbind m f)"
  by (cases m) simp_all

lemma yields_ASSERT: "yields P m \<Longrightarrow> yields P (ASSERT c e m)"
  by (simp add: ASSERT_def)

lemma yields_mono: "yields Q m \<Longrightarrow> (\<And>x. Q x \<Longrightarrow> P x) \<Longrightarrow> yields P m"
  by (simp add: yields_def)

lemma yieldsD: "yields P m \<Longrightarrow> m = Inr x \<Longrightarrow> P x"
  by (simp add: yields_def)

section \<open>Lists\<close>

lemma distinct_filter_remove [simp]: "distinct xs \<Longrightarrow> distinct (filter P xs)"
  by simp

lemma filter_neq_notin [simp]: "x \<notin> set xs \<Longrightarrow> filter (\<lambda>y. y \<noteq> x) xs = xs"
  by (induction xs) auto

lemma filter_neq_append_Cons:
  "distinct (xs @ x # ys) \<Longrightarrow> filter (\<lambda>y. y \<noteq> x) (xs @ x # ys) = xs @ ys"
  by auto

text \<open>\<^verbatim>\<open>list_insert(pred, node)\<close> and the predecessor of a node, \<open>None\<close> being the list head.\<close>

fun insert_after :: "'a \<Rightarrow> 'a \<Rightarrow> 'a list \<Rightarrow> 'a list" where
  "insert_after p t [] = []"
| "insert_after p t (x # xs) = (if x = p then x # t # xs else x # insert_after p t xs)"

definition insert_at :: "'a option \<Rightarrow> 'a \<Rightarrow> 'a list \<Rightarrow> 'a list" where
  "insert_at p t xs = (case p of None \<Rightarrow> t # xs | Some q \<Rightarrow> insert_after q t xs)"

fun list_pred :: "'a \<Rightarrow> 'a list \<Rightarrow> 'a option" where
  "list_pred n [] = None"
| "list_pred n [x] = None"
| "list_pred n (x # y # xs) = (if x = n then None else if y = n then Some x else list_pred n (y # xs))"

lemma set_insert_after [simp]: "p \<in> set xs \<Longrightarrow> set (insert_after p t xs) = insert t (set xs)"
  by (induction xs) auto

lemma distinct_insert_after: "distinct xs \<Longrightarrow> t \<notin> set xs \<Longrightarrow> distinct (insert_after p t xs)"
proof (induction xs)
  case (Cons x xs)
  have "set (insert_after p t xs) \<subseteq> insert t (set xs)" by (induction xs) auto
  then show ?case using Cons by auto
qed simp

lemma insert_at_set:
  "(\<forall>q. p = Some q \<longrightarrow> q \<in> set xs) \<Longrightarrow> set (insert_at p t xs) = insert t (set xs)"
  by (cases p) (simp_all add: insert_at_def)

lemma insert_at_distinct: "distinct xs \<Longrightarrow> t \<notin> set xs \<Longrightarrow> distinct (insert_at p t xs)"
  by (cases p) (simp_all add: insert_at_def distinct_insert_after)

lemma list_pred_in: "distinct xs \<Longrightarrow> list_pred n xs = Some q \<Longrightarrow> q \<in> set xs \<and> q \<noteq> n"
  by (induction n xs rule: list_pred.induct) (auto split: if_splits)

section \<open>Words\<close>

lemma word_eq_iff_bits: "x = y \<longleftrightarrow> (\<forall>n<LENGTH('a). bit x n = bit y n)"
  for x y :: "'a::len word"
  by (auto intro: bit_word_eqI)

lemma of_nat_u32_eq_0: "n < 2 ^ 32 \<Longrightarrow> of_nat n = (0 :: u32) \<longleftrightarrow> n = 0"
proof -
  assume "n < 2 ^ 32"
  then have "2 ^ 32 dvd n \<longleftrightarrow> n = 0" by (meson dvd_0_right nat_dvd_not_less not_gr_zero)
  then show ?thesis by (simp add: word_of_nat_eq_0_iff)
qed

lemma ucast_of_nat: "ucast w = of_nat (unat w)"
  by simp

lemma unat_u32_less: "unat (x :: u32) < 4294967296"
  using unsigned_less[of x, where 'a = nat] by simp

lemma unat_u32_minus_1: "unat (- 1 :: u32) = 4294967295"
  using unat_minus_one[of "0 :: u32"] by (simp add: unsigned_minus_1_eq_mask mask_eq_exp_minus_1)

end
