(* ===== verification/KList.thy ===== *)
theory KList
  imports Prelude
begin

text \<open>
  The intrusive doubly linked lists of \<^verbatim>\<open>exos/kernel/list.c\<close>, at the level of memory
  words.  A node at address \<open>n\<close> keeps \<^verbatim>\<open>Succ\<close>, \<^verbatim>\<open>Pred\<close>,
  \<^verbatim>\<open>Type\<close> and \<^verbatim>\<open>Priority\<close> at \<open>n\<close>, \<open>n + 1\<close>, \<open>n + 2\<close>
  and \<open>n + 3\<close>; a list header at \<open>l\<close> keeps \<^verbatim>\<open>Head\<close>, \<^verbatim>\<open>Tail\<close> and
  \<^verbatim>\<open>TailPred\<close> at \<open>l\<close>, \<open>l + 1\<close> and \<open>l + 2\<close>, and both of its ends are
  read as nodes that overlap in the word \<^verbatim>\<open>Tail\<close>.  The abstraction \<open>is_list\<close>
  relates such a memory to the list of the node addresses, and every operation of the file is
  shown to implement the corresponding operation on that list.
\<close>

section \<open>Memory, nodes and list headers\<close>

type_synonym addr = nat
type_synonym mem = "addr \<Rightarrow> nat"

definition NULL :: addr where
  "NULL = 0"

definition Succ :: "mem \<Rightarrow> addr \<Rightarrow> addr" where
  "Succ m n = m n"

definition Pred :: "mem \<Rightarrow> addr \<Rightarrow> addr" where
  "Pred m n = m (n + 1)"

definition set_Succ :: "addr \<Rightarrow> addr \<Rightarrow> mem \<Rightarrow> mem" where
  "set_Succ n v m = m(n := v)"

definition set_Pred :: "addr \<Rightarrow> addr \<Rightarrow> mem \<Rightarrow> mem" where
  "set_Pred n v m = m(n + 1 := v)"

text \<open>\<^verbatim>\<open>Priority\<close> is a signed char.\<close>

definition Priority :: "mem \<Rightarrow> addr \<Rightarrow> int" where
  "Priority m n = sint (word_of_nat (m (n + 3)) :: 8 word)"

definition LIST_HEAD :: "addr \<Rightarrow> addr" where
  "LIST_HEAD l = l"

definition LIST_TAIL :: "addr \<Rightarrow> addr" where
  "LIST_TAIL l = l + 1"

definition LIST_ISEMPTY :: "mem \<Rightarrow> addr \<Rightarrow> bool" where
  "LIST_ISEMPTY m l \<longleftrightarrow> Succ m (LIST_HEAD l) = LIST_TAIL l"

definition LIST_FIRST :: "mem \<Rightarrow> addr \<Rightarrow> addr" where
  "LIST_FIRST m l = (if LIST_ISEMPTY m l then NULL else Succ m (LIST_HEAD l))"

section \<open>The operations of list.c\<close>

definition list_initialize :: "addr \<Rightarrow> mem \<Rightarrow> mem" where
  "list_initialize l m =
     (let m1 = set_Succ (LIST_HEAD l) (LIST_TAIL l) m;
          m2 = set_Pred (LIST_TAIL l) (LIST_HEAD l) m1
      in m2(l + 1 := NULL))"

definition list_insert :: "addr \<Rightarrow> addr \<Rightarrow> mem \<Rightarrow> mem" where
  "list_insert pred node m =
     (let m1 = set_Pred node pred m;
          m2 = set_Succ node (Succ m1 pred) m1;
          m3 = set_Pred (Succ m2 node) node m2
      in set_Succ (Pred m3 node) node m3)"

definition list_add_head :: "addr \<Rightarrow> addr \<Rightarrow> mem \<Rightarrow> mem" where
  "list_add_head l node m = list_insert (LIST_HEAD l) node m"

definition list_add_tail :: "addr \<Rightarrow> addr \<Rightarrow> mem \<Rightarrow> mem" where
  "list_add_tail l node m = list_insert (Pred m (LIST_TAIL l)) node m"

text \<open>The \<^verbatim>\<open>FOREACH\<close> loop of \<^verbatim>\<open>list_enqueue\<close>; fuel bounds the walk.\<close>

fun enqueue_scan :: "nat \<Rightarrow> mem \<Rightarrow> addr \<Rightarrow> addr \<Rightarrow> addr \<Rightarrow> addr \<Rightarrow> addr res" where
  "enqueue_scan 0 m l node pred node_i = Inl OutOfFuel"
| "enqueue_scan (Suc fuel) m l node pred node_i =
     (if node_i = LIST_TAIL l then Inr pred
      else if Priority m node_i < Priority m node then Inr (Pred m node_i)
      else enqueue_scan fuel m l node pred (Succ m node_i))"

definition list_enqueue :: "nat \<Rightarrow> addr \<Rightarrow> addr \<Rightarrow> mem \<Rightarrow> mem res" where
  "list_enqueue fuel l node m =
     rbind (enqueue_scan fuel m l node (Pred m (LIST_TAIL l)) (Succ m (LIST_HEAD l)))
       (\<lambda>pred. Inr (list_insert pred node m))"

definition list_remove :: "addr \<Rightarrow> mem \<Rightarrow> mem res" where
  "list_remove node m =
     ASSERT (node \<noteq> NULL \<and> Pred m node \<noteq> NULL \<and> Succ m node \<noteq> NULL) KERNEL_ERROR_LIST_CORRUPTED
       (let m1 = set_Succ (Pred m node) (Succ m node) m
        in Inr (set_Pred (Succ m1 node) (Pred m1 node) m1))"

fun find_scan :: "nat \<Rightarrow> mem \<Rightarrow> addr \<Rightarrow> addr \<Rightarrow> addr \<Rightarrow> addr res" where
  "find_scan 0 m l node node_i = Inl OutOfFuel"
| "find_scan (Suc fuel) m l node node_i =
     (if node_i = LIST_TAIL l then Inr NULL
      else ASSERT (node_i \<noteq> NULL) KERNEL_ERROR_NULL_POINTER
        (if node_i = node then Inr node_i else find_scan fuel m l node (Succ m node_i)))"

definition list_find_node :: "nat \<Rightarrow> addr \<Rightarrow> addr \<Rightarrow> mem \<Rightarrow> addr res" where
  "list_find_node fuel l node m = find_scan fuel m l node (Succ m (LIST_HEAD l))"

fun count_scan :: "nat \<Rightarrow> mem \<Rightarrow> addr \<Rightarrow> addr \<Rightarrow> nat \<Rightarrow> nat res" where
  "count_scan 0 m l node_i count = Inl OutOfFuel"
| "count_scan (Suc fuel) m l node_i count =
     (if node_i = LIST_TAIL l then Inr count
      else count_scan fuel m l (Succ m node_i) (count + 1))"

definition list_get_count :: "nat \<Rightarrow> addr \<Rightarrow> mem \<Rightarrow> nat res" where
  "list_get_count fuel l m = count_scan fuel m l (Succ m (LIST_HEAD l)) 0"

definition list_rem_head :: "addr \<Rightarrow> mem \<Rightarrow> (addr \<times> mem) res" where
  "list_rem_head l m =
     (if LIST_ISEMPTY m l then Inr (NULL, m)
      else (let node = Succ m (LIST_HEAD l)
            in rbind (list_remove node m) (\<lambda>m'. Inr (node, m'))))"

section \<open>The abstraction\<close>

text \<open>\<open>dll m a ns b\<close>: the nodes \<open>ns\<close> are linked, both ways, between \<open>a\<close> and \<open>b\<close>.\<close>

fun dll :: "mem \<Rightarrow> addr \<Rightarrow> addr list \<Rightarrow> addr \<Rightarrow> bool" where
  "dll m a [] b \<longleftrightarrow> Succ m a = b \<and> Pred m b = a"
| "dll m a (n # ns) b \<longleftrightarrow> Succ m a = n \<and> Pred m n = a \<and> dll m n ns b"

text \<open>Storage: nodes are four words, a header is three words, and nothing overlaps.\<close>

definition apart :: "addr \<Rightarrow> addr \<Rightarrow> bool" where
  "apart x y \<longleftrightarrow> x + 4 \<le> y \<or> y + 4 \<le> x"

definition clear_of :: "addr \<Rightarrow> addr \<Rightarrow> bool" where
  "clear_of l x \<longleftrightarrow> 0 < x \<and> (x + 4 \<le> l \<or> l + 3 \<le> x)"

definition storage_ok :: "addr \<Rightarrow> addr list \<Rightarrow> bool" where
  "storage_ok l ns \<longleftrightarrow> 0 < l \<and> (\<forall>x\<in>set ns. clear_of l x) \<and> sorted_wrt apart ns"

definition is_list :: "mem \<Rightarrow> addr \<Rightarrow> addr list \<Rightarrow> bool" where
  "is_list m l ns \<longleftrightarrow> dll m (LIST_HEAD l) ns (LIST_TAIL l) \<and> m (l + 1) = NULL \<and> storage_ok l ns"

text \<open>The abstract operation behind \<^verbatim>\<open>list_enqueue\<close>: behind all nodes of at least the
  same priority that precede the first node of a lower one.\<close>

fun prio_insert :: "('n \<Rightarrow> int) \<Rightarrow> 'n \<Rightarrow> 'n list \<Rightarrow> 'n list" where
  "prio_insert p x [] = [x]"
| "prio_insert p x (y # ys) = (if p y < p x then x # y # ys else y # prio_insert p x ys)"


section \<open>Links between nodes\<close>

lemmas field_defs = Succ_def Pred_def set_Succ_def set_Pred_def LIST_HEAD_def LIST_TAIL_def NULL_def

lemma dll_split: "dll m a (xs @ n # ys) b \<longleftrightarrow> dll m a xs n \<and> dll m n ys b"
  by (induction xs arbitrary: a) auto

lemma dll_last: "dll m a ns b \<Longrightarrow> Pred m b = last (a # ns)"
  by (induction ns arbitrary: a) auto

lemma dll_first: "dll m a ns b \<Longrightarrow> Succ m a = hd (ns @ [b])"
  by (cases ns) auto

text \<open>A segment depends only on the links of its own nodes.\<close>

lemma dll_cong:
  assumes "\<forall>x\<in>set (a # ns). m' x = m x"
    and "\<forall>x\<in>set (ns @ [b]). m' (x + 1) = m (x + 1)"
  shows "dll m' a ns b = dll m a ns b"
  using assms by (induction ns arbitrary: a) (auto simp: field_defs)

lemma storage_ok_Cons:
  "storage_ok l (n # ns) \<longleftrightarrow> clear_of l n \<and> (\<forall>x\<in>set ns. apart n x) \<and> storage_ok l ns"
  by (auto simp: storage_ok_def)

lemma apart_sym: "apart x y \<longleftrightarrow> apart y x"
  by (auto simp: apart_def)

lemma storage_ok_append:
  "storage_ok l (xs @ ys) \<longleftrightarrow> storage_ok l xs \<and> storage_ok l ys \<and> (\<forall>x\<in>set xs. \<forall>y\<in>set ys. apart x y)"
  by (auto simp: storage_ok_def sorted_wrt_append)

lemma storage_ok_distinct: "storage_ok l ns \<Longrightarrow> distinct ns"
  by (induction ns) (auto simp: storage_ok_def apart_def)

lemma storage_clear: "storage_ok l ns \<Longrightarrow> x \<in> set ns \<Longrightarrow> clear_of l x"
  by (simp add: storage_ok_def)

lemma storage_apart: "storage_ok l (xs @ ys) \<Longrightarrow> x \<in> set xs \<Longrightarrow> y \<in> set ys \<Longrightarrow> apart x y"
  by (simp add: storage_ok_append)

lemma storage_ok_insert:
  "storage_ok l (xs @ ys) \<Longrightarrow> clear_of l n \<Longrightarrow> \<forall>x\<in>set (xs @ ys). apart n x \<Longrightarrow> storage_ok l (xs @ n # ys)"
  by (auto simp: storage_ok_append storage_ok_Cons apart_sym)

lemma list_insert_apply:
  assumes "pred \<noteq> n" and "pred \<noteq> n + 1" and "m pred \<noteq> n" and "m pred + 1 \<noteq> n"
  shows "list_insert pred n m = m(n + 1 := pred, n := m pred, m pred + 1 := n, pred := n)"
  using assms by (auto simp: list_insert_def field_defs Let_def fun_eq_iff)


lemma dll_relink:
  assumes "dll m a ns b" and "m' = m(n + 1 := p, n := q, q + 1 := n, p := n)"
    and "\<forall>x\<in>set (a # ns). x \<noteq> n + 1 \<and> x \<noteq> n \<and> x \<noteq> q + 1 \<and> x \<noteq> p"
    and "\<forall>x\<in>set (ns @ [b]). x + 1 \<noteq> n + 1 \<and> x + 1 \<noteq> n \<and> x + 1 \<noteq> q + 1 \<and> x + 1 \<noteq> p"
  shows "dll m' a ns b"
  using assms(1) dll_cong[of a ns m' m b] assms(2-4) by simp

lemma dll_unlink:
  assumes "dll m a ns b" and "m' = m(p := q, q + 1 := p)"
    and "\<forall>x\<in>set (a # ns). x \<noteq> p \<and> x \<noteq> q + 1"
    and "\<forall>x\<in>set (ns @ [b]). x + 1 \<noteq> p \<and> x + 1 \<noteq> q + 1"
  shows "dll m' a ns b"
  using assms(1) dll_cong[of a ns m' m b] assms(2-4) by simp

text \<open>Distinct nodes, and nodes and the header, have no link word in common.\<close>

lemma apart_cells: "apart x y \<Longrightarrow> x \<noteq> y \<and> x \<noteq> Suc y \<and> Suc x \<noteq> y \<and> y \<noteq> x \<and> y \<noteq> Suc x \<and> Suc y \<noteq> x"
  by (auto simp: apart_def)

lemma clear_cells:
  "clear_of l x \<Longrightarrow> x \<noteq> l \<and> x \<noteq> Suc l \<and> x \<noteq> Suc (Suc l) \<and> Suc x \<noteq> l \<and> l \<noteq> x \<and> Suc l \<noteq> x \<and> l \<noteq> Suc x"
  by (auto simp: clear_of_def)

lemmas storage_simps = storage_ok_append storage_ok_Cons apart_def clear_of_def

lemma dll_link:
  assumes "dll m l (xs @ ys) b"
  shows "m (last (l # xs)) = hd (ys @ [b])"
proof (cases xs rule: rev_cases)
  case Nil
  then show ?thesis using assms by (cases ys) (auto simp: Succ_def)
next
  case (snoc zs z)
  then have "dll m z ys b" using assms by (simp add: dll_split)
  then show ?thesis using snoc by (cases ys) (auto simp: Succ_def)
qed

lemma list_insert_effect:
  assumes d: "dll m l (xs @ ys) (l + 1)"
    and n: "clear_of l n" "\<forall>x\<in>set (xs @ ys). apart n x"
    and p: "p = last (l # xs)" and q: "q = hd (ys @ [l + 1])"
  shows "list_insert p n m = m(n + 1 := p, n := q, q + 1 := n, p := n)"
    and "p = l \<or> p \<in> set xs \<and> apart n p" and "q = l + 1 \<or> q \<in> set ys \<and> apart n q"
proof -
  show pn: "p = l \<or> p \<in> set xs \<and> apart n p"
    using n p by (cases xs rule: rev_cases) auto
  show qn: "q = l + 1 \<or> q \<in> set ys \<and> apart n q"
    using n q by (cases ys) auto
  have "m p = q" using dll_link[OF d] p q by simp
  then show "list_insert p n m = m(n + 1 := p, n := q, q + 1 := n, p := n)"
    using list_insert_apply[of p n m] pn qn n(1) by (auto simp: storage_simps)
qed

lemma dll_join:
  assumes "p = a \<and> xs = [] \<or> (\<exists>zs. xs = zs @ [p] \<and> dll m a zs p)"
    and "Succ m p = q" "Pred m q = p"
    and "q = b \<and> ys = [] \<or> (\<exists>zs. ys = q # zs \<and> dll m q zs b)"
  shows "dll m a (xs @ ys) b"
proof -
  have "dll m p ys b" using assms(2-4) by auto
  then show ?thesis using assms(1) by (auto simp: dll_split)
qed

lemma dll_insert:
  assumes d: "dll m l (xs @ ys) (l + 1)" and st: "storage_ok l (xs @ ys)"
    and n: "clear_of l n" "\<forall>x\<in>set (xs @ ys). apart n x"
  shows "dll (list_insert (last (l # xs)) n m) l (xs @ n # ys) (l + 1)"
proof -
  define p where "p = last (l # xs)"
  define q where "q = hd (ys @ [l + 1])"
  note eff = list_insert_effect[OF d n p_def q_def]
  let ?m = "list_insert p n m"
  have pq: "p = l \<or> clear_of l p \<and> apart n p" "q = l + 1 \<or> clear_of l q \<and> apart n q"
    using eff(2,3) storage_clear[OF st] by auto
  have pq': "p = l \<or> q = l + 1 \<or> apart p q"
    using eff(2,3) storage_apart[OF st] by auto
  have np: "p \<noteq> n" "p \<noteq> Suc n" "Suc p \<noteq> n" and nq: "q \<noteq> n" "q \<noteq> Suc n" "Suc q \<noteq> n"
    using pq n(1) by (auto dest: apart_cells clear_cells)
  have npq: "p \<noteq> Suc q"
    using pq pq' by (auto dest: apart_cells clear_cells)
  have mid: "Succ ?m p = n" "Pred ?m n = p" "Succ ?m n = q" "Pred ?m q = n"
    using np nq npq by (simp_all add: eff(1) field_defs)
  have left: "dll ?m l zs p" if xs: "xs = zs @ [p]" for zs
  proof (rule dll_relink[OF _ eff(1)])
    show "dll m l zs p" using d xs by (simp add: dll_split)
    have p: "clear_of l p" using xs storage_clear[OF st, of p] by simp
    have x: "clear_of l x" "apart n x" "apart x p" "q = l + 1 \<or> apart x q" if "x \<in> set zs" for x
      using that xs st n storage_clear[OF st, of x] storage_apart[OF st, of x q] eff(3)
      by (auto simp: storage_ok_append)
    have x': "x \<notin> {n, Suc n, Suc q, p} \<and> Suc x \<notin> {n, Suc n, Suc q, p}" if "x \<in> set zs" for x
      using x[OF that] by (auto dest: apart_cells clear_cells)
    have l': "l \<notin> {n, Suc n, Suc q, p}" and p': "Suc p \<notin> {n, Suc n, Suc q, p}"
      using n(1) p pq pq' by (auto dest: apart_cells clear_cells)
    show "\<forall>x\<in>set (l # zs). x \<noteq> n + 1 \<and> x \<noteq> n \<and> x \<noteq> q + 1 \<and> x \<noteq> p"
      using x' l' by auto
    show "\<forall>x\<in>set (zs @ [p]). x + 1 \<noteq> n + 1 \<and> x + 1 \<noteq> n \<and> x + 1 \<noteq> q + 1 \<and> x + 1 \<noteq> p"
      using x' p' by auto
  qed
  have right: "dll ?m q zs (l + 1)" if ys: "ys = q # zs" for zs
  proof (rule dll_relink[OF _ eff(1)])
    show "dll m q zs (l + 1)" using d ys by (simp add: dll_split)
    have q: "clear_of l q" using ys storage_clear[OF st, of q] by simp
    have x: "clear_of l x" "apart n x" "apart q x" "p = l \<or> apart p x" if "x \<in> set zs" for x
      using that ys st n storage_clear[OF st, of x] storage_apart[OF st, of p x] eff(2)
      by (auto simp: storage_ok_append storage_ok_Cons)
    have x': "x \<notin> {n, Suc n, Suc q, p} \<and> Suc x \<notin> {n, Suc n, Suc q, p}" if "x \<in> set zs" for x
      using x[OF that] by (auto dest: apart_cells clear_cells)
    have q': "q \<notin> {n, Suc n, Suc q, p}" and l': "Suc (Suc l) \<notin> {n, Suc n, Suc q, p}"
      using n(1) q pq pq' by (auto dest: apart_cells clear_cells)
    show "\<forall>x\<in>set (q # zs). x \<noteq> n + 1 \<and> x \<noteq> n \<and> x \<noteq> q + 1 \<and> x \<noteq> p"
      using x' q' by auto
    show "\<forall>x\<in>set (zs @ [l + 1]). x + 1 \<noteq> n + 1 \<and> x + 1 \<noteq> n \<and> x + 1 \<noteq> q + 1 \<and> x + 1 \<noteq> p"
      using x' l' by auto
  qed
  have tail: "dll ?m n ys (l + 1)"
    using mid right by (cases ys) (auto simp: q_def)
  have "dll ?m l (xs @ n # ys) (l + 1)"
  proof (cases xs rule: rev_cases)
    case Nil
    then show ?thesis using mid tail by (simp add: p_def)
  next
    case (snoc zs z)
    then show ?thesis using mid tail left[of zs] by (simp add: p_def dll_split)
  qed
  then show ?thesis by (simp add: p_def)
qed

lemma dll_remove:
  assumes d: "dll m l (xs @ n # ys) (l + 1)" and st: "storage_ok l (xs @ n # ys)"
    and p: "p = last (l # xs)" and q: "q = hd (ys @ [l + 1])"
  shows "dll (m(p := q, q + 1 := p)) l (xs @ ys) (l + 1)" (is "dll ?m _ _ _")
proof -
  have st': "storage_ok l (xs @ ys)" using st by (auto simp: storage_ok_append storage_ok_Cons)
  have ends: "p = l \<and> xs = [] \<or> (\<exists>zs. xs = zs @ [p])" "q = l + 1 \<and> ys = [] \<or> (\<exists>zs. ys = q # zs)"
    using p q by (cases xs rule: rev_cases; cases ys; auto)+
  have pq: "p = l \<or> clear_of l p" "q = l + 1 \<or> clear_of l q" "p = l \<or> q = l + 1 \<or> apart p q"
    using ends storage_clear[OF st'] storage_apart[OF st', of p q] by auto
  have npq: "p \<noteq> Suc q"
    using pq by (auto dest: apart_cells clear_cells)
  have left: "dll ?m l zs p" if xs: "xs = zs @ [p]" for zs
  proof (rule dll_unlink[OF _ refl])
    show "dll m l zs p" using d xs by (simp add: dll_split)
    have p: "clear_of l p" using xs storage_clear[OF st', of p] by simp
    have x: "clear_of l x" "apart x p" "q = l + 1 \<or> apart x q" if "x \<in> set zs" for x
      using that xs st' storage_clear[OF st', of x] storage_apart[OF st', of x q] ends
      by (auto simp: storage_ok_append)
    have x': "x \<notin> {p, Suc q} \<and> Suc x \<notin> {p, Suc q}" if "x \<in> set zs" for x
      using x[OF that] by (auto dest: apart_cells clear_cells)
    have "l \<notin> {p, Suc q}" and "Suc p \<notin> {p, Suc q}"
      using p pq by (auto dest: apart_cells clear_cells)
    then show "\<forall>x\<in>set (l # zs). x \<noteq> p \<and> x \<noteq> q + 1" "\<forall>x\<in>set (zs @ [p]). x + 1 \<noteq> p \<and> x + 1 \<noteq> q + 1"
      using x' by auto
  qed
  have right: "dll ?m q zs (l + 1)" if ys: "ys = q # zs" for zs
  proof (rule dll_unlink[OF _ refl])
    show "dll m q zs (l + 1)" using d ys by (simp add: dll_split)
    have q: "clear_of l q" using ys storage_clear[OF st', of q] by simp
    have x: "clear_of l x" "apart q x" "p = l \<or> apart p x" if "x \<in> set zs" for x
      using that ys st' storage_clear[OF st', of x] storage_apart[OF st', of p x] ends
      by (auto simp: storage_ok_append storage_ok_Cons)
    have x': "x \<notin> {p, Suc q} \<and> Suc x \<notin> {p, Suc q}" if "x \<in> set zs" for x
      using x[OF that] by (auto dest: apart_cells clear_cells)
    have "q \<notin> {p, Suc q}" and "Suc (Suc l) \<notin> {p, Suc q}"
      using q pq by (auto dest: apart_cells clear_cells)
    then show "\<forall>x\<in>set (q # zs). x \<noteq> p \<and> x \<noteq> q + 1"
      "\<forall>x\<in>set (zs @ [l + 1]). x + 1 \<noteq> p \<and> x + 1 \<noteq> q + 1"
      using x' by auto
  qed
  have mid: "Succ ?m p = q" "Pred ?m q = p"
    using npq by (simp_all add: field_defs)
  show ?thesis
    by (rule dll_join[OF _ mid]) (use ends left right in auto)
qed

section \<open>Each operation implements its list operation\<close>

lemma is_list_initialize: "0 < l \<Longrightarrow> is_list (list_initialize l m) l []"
  by (simp add: is_list_def list_initialize_def field_defs storage_ok_def Let_def)

lemma is_list_insert:
  assumes "is_list m l (xs @ ys)" and n: "clear_of l n" "\<forall>x\<in>set (xs @ ys). apart n x"
  shows "is_list (list_insert (last (l # xs)) n m) l (xs @ n # ys)"
proof -
  have d: "dll m l (xs @ ys) (l + 1)" and st: "storage_ok l (xs @ ys)" and nul: "m (l + 1) = 0"
    using assms(1) by (simp_all add: is_list_def field_defs)
  note eff = list_insert_effect[OF d n refl refl]
  have pl: "last (l # xs) = l \<or> clear_of l (last (l # xs))"
    and ql: "hd (ys @ [l + 1]) = l + 1 \<or> clear_of l (hd (ys @ [l + 1]))"
    using eff(2,3) storage_clear[OF st] by auto
  have "list_insert (last (l # xs)) n m (l + 1) = 0"
    using nul n(1) pl ql unfolding eff(1) by (auto dest: clear_cells)
  then show ?thesis
    using dll_insert[OF d st n] storage_ok_insert[OF st n] by (simp add: is_list_def field_defs)
qed

lemma is_list_add_head:
  "is_list m l ns \<Longrightarrow> clear_of l n \<Longrightarrow> \<forall>x\<in>set ns. apart n x \<Longrightarrow> is_list (list_add_head l n m) l (n # ns)"
  using is_list_insert[of m l "[]" ns n] by (simp add: list_add_head_def LIST_HEAD_def)

lemma is_list_add_tail:
  assumes "is_list m l ns" and "clear_of l n" "\<forall>x\<in>set ns. apart n x"
  shows "is_list (list_add_tail l n m) l (ns @ [n])"
proof -
  have "Pred m (LIST_TAIL l) = last (l # ns)"
    using assms(1) dll_last by (simp add: is_list_def LIST_HEAD_def)
  then show ?thesis
    using is_list_insert[of m l ns "[]" n] assms by (simp add: list_add_tail_def)
qed

lemma is_list_node:
  assumes "is_list m l (xs @ n # ys)"
  shows "n \<noteq> NULL" and "Pred m n = last (l # xs)" and "Succ m n = hd (ys @ [l + 1])"
    and "Pred m n \<noteq> NULL" and "Succ m n \<noteq> NULL"
proof -
  have d: "dll m l xs n" "dll m n ys (l + 1)" and st: "storage_ok l (xs @ n # ys)"
    using assms by (simp_all add: is_list_def field_defs dll_split)
  show p: "Pred m n = last (l # xs)" and q: "Succ m n = hd (ys @ [l + 1])"
    using dll_last[OF d(1)] dll_first[OF d(2)] by simp_all
  have pos: "0 < l" "\<forall>x\<in>set (xs @ n # ys). 0 < x"
    using st by (auto simp: storage_ok_def clear_of_def)
  then show "n \<noteq> NULL" "Pred m n \<noteq> NULL" "Succ m n \<noteq> NULL"
    unfolding p q by (cases xs rule: rev_cases; cases ys; auto simp: NULL_def)+
qed

lemma list_remove_eval:
  assumes "is_list m l (xs @ n # ys)" and "p = last (l # xs)" and "q = hd (ys @ [l + 1])"
  shows "list_remove n m = Inr (m(p := q, q + 1 := p))"
proof -
  note nd = is_list_node[OF assms(1)]
  have st: "storage_ok l (xs @ n # ys)" using assms(1) by (simp add: is_list_def)
  have "p = l \<or> p \<in> set xs" using assms(2) by auto
  moreover have "apart x n" if "x \<in> set xs" for x
    using that st by (simp add: storage_ok_append)
  moreover have "clear_of l n" using storage_clear[OF st, of n] by simp
  ultimately have "p \<noteq> n" "p \<noteq> Suc n"
    by (auto dest: apart_cells clear_cells)
  with nd assms(2,3) show ?thesis
    by (simp add: list_remove_def set_Succ_def set_Pred_def Succ_def Pred_def Let_def NULL_def)
qed

lemma is_list_remove:
  assumes "is_list m l (xs @ n # ys)"
  shows "\<exists>m'. list_remove n m = Inr m' \<and> is_list m' l (xs @ ys)"
proof -
  define p where "p = last (l # xs)"
  define q where "q = hd (ys @ [l + 1])"
  have d: "dll m l (xs @ n # ys) (l + 1)" and st: "storage_ok l (xs @ n # ys)" and nul: "m (l + 1) = 0"
    using assms by (simp_all add: is_list_def field_defs)
  have st': "storage_ok l (xs @ ys)"
    using st by (auto simp: storage_ok_append storage_ok_Cons)
  have "p = l \<or> clear_of l p" "q = l + 1 \<or> clear_of l q"
    using storage_clear[OF st'] by (auto simp: p_def q_def; cases ys; auto)+
  then have "(m(p := q, q + 1 := p)) (l + 1) = 0"
    using nul by (auto dest: clear_cells)
  then show ?thesis
    using list_remove_eval[OF assms p_def q_def] dll_remove[OF d st p_def q_def] st'
    by (simp add: is_list_def field_defs)
qed

lemma is_list_isempty: "is_list m l ns \<Longrightarrow> LIST_ISEMPTY m l \<longleftrightarrow> ns = []"
  by (cases ns) (auto simp: is_list_def LIST_ISEMPTY_def storage_ok_def clear_of_def field_defs)

lemma is_list_rem_head:
  assumes "is_list m l ns"
  shows "case ns of [] \<Rightarrow> list_rem_head l m = Inr (NULL, m)
         | n # ns' \<Rightarrow> \<exists>m'. list_rem_head l m = Inr (n, m') \<and> is_list m' l ns'"
proof (cases ns)
  case Nil
  then show ?thesis using is_list_isempty[OF assms] by (simp add: list_rem_head_def)
next
  case (Cons n ns')
  then have "Succ m (LIST_HEAD l) = n" using assms by (simp add: is_list_def)
  with Cons show ?thesis
    using is_list_isempty[OF assms] is_list_remove[of m l "[]" n ns'] assms
    by (auto simp: list_rem_head_def)
qed

section \<open>The FOREACH walks\<close>

lemma tail_not_node: "storage_ok l ns \<Longrightarrow> x \<in> set ns \<Longrightarrow> x \<noteq> Suc l \<and> 0 < x"
  using storage_clear[of l ns x] by (auto simp: clear_of_def)

lemma find_scan_list:
  assumes "dll m a ns (l + 1)" and "storage_ok l ns" and "length ns < fuel"
  shows "find_scan fuel m l node (Succ m a) = Inr (if node \<in> set ns then node else NULL)"
  using assms
proof (induction ns arbitrary: a fuel)
  case Nil
  then show ?case by (cases fuel) (auto simp: LIST_TAIL_def)
next
  case (Cons n ns)
  then obtain f where f: "fuel = Suc f" by (cases fuel) auto
  have "find_scan f m l node (Succ m n) = Inr (if node \<in> set ns then node else NULL)"
    using Cons.prems f by (intro Cons.IH) (auto simp: storage_ok_Cons)
  then show ?case
    using Cons.prems tail_not_node[OF Cons.prems(2), of n] f by (auto simp: field_defs)
qed

lemma count_scan_list:
  assumes "dll m a ns (l + 1)" and "storage_ok l ns" and "length ns < fuel"
  shows "count_scan fuel m l (Succ m a) c = Inr (c + length ns)"
  using assms
proof (induction ns arbitrary: a fuel c)
  case Nil
  then show ?case by (cases fuel) (auto simp: LIST_TAIL_def)
next
  case (Cons n ns)
  then obtain f where f: "fuel = Suc f" by (cases fuel) auto
  have "count_scan f m l (Succ m n) (c + 1) = Inr (c + 1 + length ns)"
    using Cons.prems f by (intro Cons.IH) (auto simp: storage_ok_Cons)
  then show ?case
    using Cons.prems tail_not_node[OF Cons.prems(2), of n] f by (auto simp: field_defs)
qed

lemma enqueue_scan_list:
  assumes "dll m a ns (l + 1)" and "storage_ok l ns" and "length ns < fuel"
    and "pred = last (a # ns)"
  shows "\<exists>xs ys. ns = xs @ ys \<and> prio_insert (Priority m) node ns = xs @ node # ys \<and>
    enqueue_scan fuel m l node pred (Succ m a) = Inr (last (a # xs))"
  using assms
proof (induction ns arbitrary: a fuel)
  case Nil
  then show ?case by (cases fuel) (auto simp: LIST_TAIL_def)
next
  case (Cons n ns)
  then obtain f where f: "fuel = Suc f" by (cases fuel) auto
  have n: "n \<noteq> l + 1" "Succ m a = n" "Pred m n = a"
    using Cons.prems tail_not_node[OF Cons.prems(2), of n] by auto
  show ?case
  proof (cases "Priority m n < Priority m node")
    case True
    then show ?thesis
      by (intro exI[of _ "[]"] exI[of _ "n # ns"]) (use n f in \<open>auto simp: LIST_TAIL_def\<close>)
  next
    case False
    obtain xs ys where IH: "ns = xs @ ys" "prio_insert (Priority m) node ns = xs @ node # ys"
      "enqueue_scan f m l node pred (Succ m n) = Inr (last (n # xs))"
      using Cons.IH[of n f] Cons.prems f by (auto simp: storage_ok_Cons)
    with False show ?thesis
      by (intro exI[of _ "n # xs"] exI[of _ ys]) (use n f in \<open>auto simp: LIST_TAIL_def\<close>)
  qed
qed

lemma is_list_enqueue:
  assumes "is_list m l ns" and "clear_of l n" "\<forall>x\<in>set ns. apart n x" and "length ns < fuel"
  shows "\<exists>m'. list_enqueue fuel l n m = Inr m' \<and> is_list m' l (prio_insert (Priority m) n ns)"
proof -
  have d: "dll m l ns (l + 1)" and st: "storage_ok l ns"
    using assms(1) by (simp_all add: is_list_def field_defs)
  obtain xs ys where "ns = xs @ ys" "prio_insert (Priority m) n ns = xs @ n # ys"
    "enqueue_scan fuel m l n (Pred m (l + 1)) (Succ m l) = Inr (last (l # xs))"
    using enqueue_scan_list[OF d st assms(4) dll_last[OF d]] by blast
  then show ?thesis
    using is_list_insert[of m l xs ys n] assms(1-3)
    by (simp add: list_enqueue_def LIST_HEAD_def LIST_TAIL_def)
qed

lemma is_list_find_node:
  "is_list m l ns \<Longrightarrow> length ns < fuel \<Longrightarrow>
   list_find_node fuel l node m = Inr (if node \<in> set ns then node else NULL)"
  using find_scan_list[of m l ns l fuel node] by (simp add: list_find_node_def is_list_def LIST_HEAD_def LIST_TAIL_def)

lemma is_list_get_count:
  "is_list m l ns \<Longrightarrow> length ns < fuel \<Longrightarrow> list_get_count fuel l m = Inr (length ns)"
  using count_scan_list[of m l ns l fuel 0] by (simp add: list_get_count_def is_list_def LIST_HEAD_def LIST_TAIL_def)

section \<open>Frame: what an operation leaves alone\<close>

text \<open>The words a list's links occupy: the header and the first two words of each node.\<close>

definition link_words :: "addr \<Rightarrow> addr list \<Rightarrow> addr set" where
  "link_words l ns = {l, l + 2} \<union> set ns \<union> Suc ` set ns"

lemma list_insert_frame:
  assumes "is_list m l (xs @ ys)" and n: "clear_of l n" "\<forall>x\<in>set (xs @ ys). apart n x"
    and "a \<notin> link_words l (xs @ n # ys)"
  shows "list_insert (last (l # xs)) n m a = m a"
proof -
  have "dll m l (xs @ ys) (l + 1)" using assms(1) by (simp add: is_list_def field_defs)
  note eff = list_insert_effect[OF this n refl refl]
  show ?thesis using assms(4) eff(2,3) unfolding eff(1) by (auto simp: link_words_def)
qed

lemma list_remove_frame:
  assumes "is_list m l (xs @ n # ys)" and "list_remove n m = Inr m'" and "a \<notin> link_words l (xs @ n # ys)"
  shows "m' a = m a"
proof -
  have "last (l # xs) = l \<or> last (l # xs) \<in> set xs" "hd (ys @ [l + 1]) = l + 1 \<or> hd (ys @ [l + 1]) \<in> set ys"
    by (simp, cases ys, simp_all)
  then show ?thesis
    using list_remove_eval[OF assms(1) refl refl] assms(2,3) by (auto simp: link_words_def)
qed

section \<open>Priority order\<close>

definition prio_sorted :: "('n \<Rightarrow> int) \<Rightarrow> 'n list \<Rightarrow> bool" where
  "prio_sorted p xs \<longleftrightarrow> sorted_wrt (\<lambda>x y. p y \<le> p x) xs"

lemma set_prio_insert [simp]: "set (prio_insert p x xs) = insert x (set xs)"
  by (induction xs) auto

lemma distinct_prio_insert [simp]: "distinct (prio_insert p x xs) \<longleftrightarrow> x \<notin> set xs \<and> distinct xs"
  by (induction xs) auto

lemma prio_insert_not_Nil [simp]: "prio_insert p x xs \<noteq> []"
  by (cases xs) auto

lemma length_prio_insert [simp]: "length (prio_insert p x xs) = Suc (length xs)"
  by (induction xs) auto

lemma prio_sorted_insert: "prio_sorted p xs \<Longrightarrow> prio_sorted p (prio_insert p x xs)"
  by (induction xs) (auto simp: prio_sorted_def)

lemma prio_sorted_filter: "prio_sorted p xs \<Longrightarrow> prio_sorted p (filter P xs)"
  by (auto simp: prio_sorted_def sorted_wrt_filter)

lemma prio_sorted_Cons: "prio_sorted p (x # xs) \<longleftrightarrow> (\<forall>y\<in>set xs. p y \<le> p x) \<and> prio_sorted p xs"
  by (simp add: prio_sorted_def)

text \<open>Nodes of the same priority keep their order of arrival.\<close>

lemma prio_insert_stable:
  "prio_sorted p xs \<Longrightarrow> filter (\<lambda>y. p y = k) (prio_insert p x xs) =
     filter (\<lambda>y. p y = k) xs @ (if p x = k then [x] else [])"
proof (induction xs)
  case Nil
  then show ?case by simp
next
  case (Cons y ys)
  have "p x = k \<Longrightarrow> p y < p x \<Longrightarrow> filter (\<lambda>y. p y = k) (y # ys) = []"
    using Cons.prems by (auto simp: prio_sorted_Cons filter_empty_conv)
  with Cons show ?case by (auto simp: prio_sorted_Cons)
qed

lemma prio_insert_cong: "(\<And>y. y \<in> insert x (set xs) \<Longrightarrow> p y = q y) \<Longrightarrow> prio_insert p x xs = prio_insert q x xs"
  by (induction xs) auto

section \<open>Properties\<close>

text \<open>On a well-formed list that contains a node, \<^verbatim>\<open>list_remove\<close> does not panic, unlinks
  exactly that node and keeps the order of the others, and writes no word outside the links
  of the list.\<close>

theorem list_remove_refines:
  assumes "is_list m l ns" and "n \<in> set ns"
  shows "\<exists>m'. list_remove n m = Inr m' \<and> is_list m' l (remove1 n ns) \<and>
    (\<forall>a. a \<notin> link_words l ns \<longrightarrow> m' a = m a)"
proof -
  obtain xs ys where ns: "ns = xs @ n # ys" "n \<notin> set xs"
    using assms(2) by (meson split_list_first)
  obtain m' where m': "list_remove n m = Inr m'" "is_list m' l (xs @ ys)"
    using is_list_remove assms(1) ns(1) by blast
  moreover have "\<forall>a. a \<notin> link_words l ns \<longrightarrow> m' a = m a"
    using list_remove_frame m'(1) assms(1) ns(1) by blast
  ultimately show ?thesis using ns by (simp add: remove1_append)
qed

text \<open>C3: \<^verbatim>\<open>list_enqueue\<close> terminates (fuel beyond the list's length suffices), links the
  node behind every node of at least its priority, keeps a list that is in descending priority
  order so, keeps the order of arrival among equal priorities and writes no other word.\<close>

theorem list_enqueue_refines:
  assumes "is_list m l ns" and "clear_of l n" and "\<forall>x\<in>set ns. apart n x" and "length ns < fuel"
    and "prio_sorted (Priority m) ns"
  shows "\<exists>m' ns'. list_enqueue fuel l n m = Inr m' \<and> is_list m' l ns' \<and> set ns' = insert n (set ns) \<and>
    prio_sorted (Priority m) ns' \<and>
    (\<forall>k. filter (\<lambda>x. Priority m x = k) ns' =
         filter (\<lambda>x. Priority m x = k) ns @ (if Priority m n = k then [n] else [])) \<and>
    (\<forall>a. a \<notin> link_words l ns' \<longrightarrow> m' a = m a)"
proof -
  have d: "dll m l ns (l + 1)" and st: "storage_ok l ns"
    using assms(1) by (simp_all add: is_list_def field_defs)
  obtain xs ys where x: "ns = xs @ ys" "prio_insert (Priority m) n ns = xs @ n # ys"
    "enqueue_scan fuel m l n (Pred m (l + 1)) (Succ m l) = Inr (last (l # xs))"
    using enqueue_scan_list[OF d st assms(4) dll_last[OF d]] by blast
  have "list_enqueue fuel l n m = Inr (list_insert (last (l # xs)) n m)"
    using x(3) by (simp add: list_enqueue_def LIST_HEAD_def LIST_TAIL_def)
  moreover have "is_list (list_insert (last (l # xs)) n m) l (xs @ n # ys)"
    using is_list_insert assms(1-3) x(1) by blast
  moreover have "\<forall>a. a \<notin> link_words l (xs @ n # ys) \<longrightarrow> list_insert (last (l # xs)) n m a = m a"
    using list_insert_frame assms(1-3) x(1) by blast
  ultimately show ?thesis
    using x(2) prio_sorted_insert[OF assms(5), of n] prio_insert_stable[OF assms(5), of _ n]
      set_prio_insert[of "Priority m" n ns]
    by (intro exI conjI) (assumption | simp)+
qed

text \<open>A memory with a header at 10 and, for the second witness, two linked nodes.\<close>

definition sample_mem :: mem where
  "sample_mem = list_add_tail 10 30 (list_add_tail 10 20 (list_initialize 10 ((\<lambda>_. 0)(23 := 5, 33 := 255))))"

lemma sample_mem_list: "is_list sample_mem 10 [20, 30]"
  by (simp add: sample_mem_def is_list_def list_add_tail_def list_insert_def list_initialize_def
      field_defs Let_def storage_ok_def clear_of_def apart_def)

theorem list_remove_refines_witness:
  "is_list sample_mem 10 [20, 30] \<and> (\<exists>m'. list_remove 20 sample_mem = Inr m' \<and> is_list m' 10 [30])"
  using list_remove_refines[OF sample_mem_list, of 20] sample_mem_list by auto

theorem list_enqueue_refines_witness:
  "\<exists>m'. list_enqueue 3 10 40 sample_mem = Inr m' \<and> (\<exists>ns'. is_list m' 10 ns' \<and> set ns' = {20, 30, 40})"
proof -
  have "prio_sorted (Priority sample_mem) [20, 30]"
    by (simp add: prio_sorted_def Priority_def sample_mem_def list_add_tail_def list_insert_def
        list_initialize_def field_defs Let_def)
  then show ?thesis
    using list_enqueue_refines[OF sample_mem_list, of 40 3] by (auto simp: clear_of_def apart_def insert_commute)
qed

end
