(* ===== verification/Threads.thy ===== *)
theory Threads
  imports KList
begin

text \<open>
  The scheduler core of \<^verbatim>\<open>exos/kernel/thread.c\<close>: threads, wait handles, the ready
  and wait lists, and the operations that run inside a kernel section
  (\<^verbatim>\<open>__kernel_do\<close>), each of which is atomic.  Lists are modelled by the sequences of
  their nodes, which the theory KList relates to the linked memory; threads and
  handles are named by their addresses.  The synchronisation objects of
  \<^verbatim>\<open>event.c\<close> and \<^verbatim>\<open>mutex.c\<close> live in the same kernel state and are
  handled by the theories Events and Mutexes.
\<close>

unbundle bit_operations_syntax

section \<open>State\<close>

type_synonym tid = nat
type_synonym hid = nat
type_synonym tmid = nat
type_synonym mid = nat

text \<open>An event is an object of its own or the member \<^verbatim>\<open>Event\<close> of a timer.\<close>

datatype eid = Ev nat | TimerEvent tmid

datatype exos_thread_state = EXOS_THREAD_DETACHED | EXOS_THREAD_READY | EXOS_THREAD_WAIT

datatype wait_handle_state = WAIT_HANDLE_DETACHED | WAIT_HANDLE_WAITING | WAIT_HANDLE_DONE

text \<open>Every list a wait handle's node can be linked in.\<close>

datatype wait_list =
    EventHandles eid   \<comment> \<open>\<^verbatim>\<open>event_t.Handles\<close>\<close>
  | MutexHandles mid   \<comment> \<open>\<^verbatim>\<open>mutex_t.Handles\<close>\<close>
  | Joining tid        \<comment> \<open>\<^verbatim>\<open>exos_thread_t.Joining\<close>\<close>
  | Pending tid        \<comment> \<open>\<^verbatim>\<open>exos_thread_t.Pending\<close>\<close>

record exos_thread_t =
  Pri :: int
  State :: exos_thread_state
  SP :: u32
  StackStart :: u32
  StackSize :: u32
  TP :: u32
  MaskUsed :: u32
  MaskWait :: u32
  Result :: u32

record exos_wait_handle_t =
  HState :: wait_handle_state
  Owner :: "tid option"
  Mask :: u32

record event_t =
  EvState :: bool
  AutoReset :: bool   \<comment> \<open>\<^verbatim>\<open>Flags & EXOS_EVENTF_AUTORESET\<close>\<close>

record mutex_t =
  MOwner :: "tid option"
  Count :: u32

datatype exos_timer_state = EXOS_TIMER_DETACHED | EXOS_TIMER_RUNNING | EXOS_TIMER_FINISHED

record exos_timer_t =
  TState :: exos_timer_state
  Period :: u32
  Time :: u32

record kernel =
  threads :: "tid \<Rightarrow> exos_thread_t"
  handles :: "hid \<Rightarrow> exos_wait_handle_t"
  events :: "eid \<Rightarrow> event_t"
  mutexes :: "mid \<Rightarrow> mutex_t"
  ready :: "tid list"                   \<comment> \<open>\<^verbatim>\<open>_ready\<close>\<close>
  waiting :: "tid list"                 \<comment> \<open>\<^verbatim>\<open>_wait\<close>\<close>
  wlists :: "wait_list \<Rightarrow> hid list"
  running :: tid                        \<comment> \<open>\<^verbatim>\<open>__running_thread\<close>\<close>
  timers :: "tmid \<Rightarrow> exos_timer_t"
  timer_list :: "tmid list"             \<comment> \<open>\<^verbatim>\<open>_timers\<close>\<close>
  ticks :: u32                          \<comment> \<open>\<^verbatim>\<open>_ticks\<close>\<close>
  switch_req :: bool                    \<comment> \<open>set by \<^verbatim>\<open>__machine_req_switch()\<close>\<close>

definition upd_thread :: "tid \<Rightarrow> (exos_thread_t \<Rightarrow> exos_thread_t) \<Rightarrow> kernel \<Rightarrow> kernel" where
  "upd_thread t f s = s\<lparr>threads := (threads s)(t := f (threads s t))\<rparr>"

definition upd_handle :: "hid \<Rightarrow> (exos_wait_handle_t \<Rightarrow> exos_wait_handle_t) \<Rightarrow> kernel \<Rightarrow> kernel" where
  "upd_handle h f s = s\<lparr>handles := (handles s)(h := f (handles s h))\<rparr>"

definition upd_list :: "wait_list \<Rightarrow> (hid list \<Rightarrow> hid list) \<Rightarrow> kernel \<Rightarrow> kernel" where
  "upd_list l f s = s\<lparr>wlists := (wlists s)(l := f (wlists s l))\<rparr>"

text \<open>\<^verbatim>\<open>list_remove\<close> unlinks a node from the list it is in.\<close>

definition unlink_handle :: "hid \<Rightarrow> kernel \<Rightarrow> kernel" where
  "unlink_handle h s = s\<lparr>wlists := (\<lambda>l. filter (\<lambda>x. x \<noteq> h) (wlists s l))\<rparr>"

definition unlink_thread :: "tid \<Rightarrow> kernel \<Rightarrow> kernel" where
  "unlink_thread t s =
     s\<lparr>ready := filter (\<lambda>x. x \<noteq> t) (ready s), waiting := filter (\<lambda>x. x \<noteq> t) (waiting s)\<rparr>"

definition pri :: "kernel \<Rightarrow> tid \<Rightarrow> int" where
  "pri s t = Pri (threads s t)"

definition enqueue_ready :: "tid \<Rightarrow> kernel \<Rightarrow> kernel" where
  "enqueue_ready t s = s\<lparr>ready := prio_insert (pri s) t (ready s)\<rparr>"

definition enqueue_wait :: "tid \<Rightarrow> kernel \<Rightarrow> kernel" where
  "enqueue_wait t s = s\<lparr>waiting := prio_insert (pri s) t (waiting s)\<rparr>"

definition req_switch :: "kernel \<Rightarrow> kernel" where
  "req_switch s = s\<lparr>switch_req := True\<rparr>"

section \<open>Scheduling and wait handles\<close>

definition kernel_schedule :: "kernel \<Rightarrow> tid res" where
  "kernel_schedule s = (case ready s of [] \<Rightarrow> Inl Halt | t # _ \<Rightarrow> Inr t)"

definition exos_thread_create_wait_handle :: "hid \<Rightarrow> kernel \<Rightarrow> kernel" where
  "exos_thread_create_wait_handle h s =
     upd_handle h (\<lambda>_. \<lparr>HState = WAIT_HANDLE_DETACHED, Owner = None, Mask = 0\<rparr>) s"

text \<open>\<^verbatim>\<open>_alloc_mask\<close>: the loop runs until the shifted mask becomes zero, at most 32 times.\<close>

fun alloc_scan :: "nat \<Rightarrow> u32 \<Rightarrow> u32 \<Rightarrow> u32 res" where
  "alloc_scan 0 free msk = Inl OutOfFuel"
| "alloc_scan (Suc fuel) free msk =
     (if msk AND free \<noteq> 0 then Inr msk
      else let msk' = push_bit 1 msk
           in if msk' \<noteq> 0 then alloc_scan fuel free msk' else Inl Halt)"

definition alloc_mask :: "kernel \<Rightarrow> (u32 \<times> kernel) res" where
  "alloc_mask s =
     rbind (alloc_scan 32 (NOT (MaskUsed (threads s (running s)))) 1)
       (\<lambda>msk. Inr (msk, upd_thread (running s) (\<lambda>t. t\<lparr>MaskUsed := MaskUsed t OR msk\<rparr>) s))"

text \<open>A wait condition decides, and may change, its object: the list to wait in or \<open>None\<close>.\<close>

type_synonym wait_cond = "kernel \<Rightarrow> (wait_list option \<times> kernel) res"

definition k_add_handle :: "hid \<Rightarrow> wait_cond \<Rightarrow> kernel \<Rightarrow> kernel res" where
  "k_add_handle h cond s =
     rbind (cond s) (\<lambda>(l, s1). case l of
       None \<Rightarrow> Inr s1
     | Some lst \<Rightarrow>
         ASSERT (h \<notin> set (wlists s1 lst)) KERNEL_ERROR_LIST_ALREADY_CONTAINS_NODE
           (rbind (alloc_mask s1) (\<lambda>(msk, s2).
              Inr (upd_list lst (\<lambda>xs. xs @ [h])
                    (upd_handle h (\<lambda>x. x\<lparr>Mask := msk, HState := WAIT_HANDLE_WAITING,
                                         Owner := Some (running s2)\<rparr>) s2)))))"

definition exos_thread_add_wait_handle :: "hid \<Rightarrow> wait_cond \<Rightarrow> kernel \<Rightarrow> (u32 \<times> kernel) res" where
  "exos_thread_add_wait_handle h cond s =
     (if HState (handles s h) = WAIT_HANDLE_DETACHED
      then rbind (k_add_handle h cond s) (\<lambda>s1.
             ASSERT (Mask (handles s1 h) \<noteq> 0 \<or> HState (handles s1 h) = WAIT_HANDLE_DETACHED)
               KERNEL_ERROR_KERNEL_PANIC (Inr (Mask (handles s1 h), s1)))
      else Inr (Mask (handles s h), s))"

definition rem_handle :: "hid \<Rightarrow> kernel \<Rightarrow> kernel" where
  "rem_handle h s =
     (if HState (handles s h) \<noteq> WAIT_HANDLE_DETACHED
      then upd_handle h (\<lambda>x. x\<lparr>HState := WAIT_HANDLE_DETACHED\<rparr>) (unlink_handle h s)
      else s)"

definition k_dispose_handle :: "hid \<Rightarrow> kernel \<Rightarrow> kernel res" where
  "k_dispose_handle h s =
     (let s1 = rem_handle h s; hd1 = handles s1 h
      in rbind (case Owner hd1 of
                  None \<Rightarrow> Inr s1
                | Some t \<Rightarrow>
                    ASSERT (0 \<noteq> MaskUsed (threads s1 t) AND Mask hd1) KERNEL_ERROR_KERNEL_PANIC
                      (Inr (upd_thread t (\<lambda>x. x\<lparr>MaskUsed := MaskUsed x XOR Mask hd1\<rparr>) s1)))
           (\<lambda>s2. Inr (upd_handle h (\<lambda>x. x\<lparr>Owner := None, Mask := 0\<rparr>) s2)))"

definition exos_thread_dispose_wait_handle :: "hid \<Rightarrow> kernel \<Rightarrow> kernel res" where
  "exos_thread_dispose_wait_handle h s =
     (if HState (handles s h) \<noteq> WAIT_HANDLE_DETACHED then k_dispose_handle h s else Inr s)"

text \<open>\<^verbatim>\<open>_resume\<close>; the nodes of wait handles all have priority zero.\<close>

definition resume_handle :: "hid \<Rightarrow> kernel \<Rightarrow> kernel res" where
  "resume_handle h s =
     (case Owner (handles s h) of
        None \<Rightarrow> Inl (Panic KERNEL_ERROR_NULL_POINTER)
      | Some t \<Rightarrow>
          ASSERT (State (threads s t) \<noteq> EXOS_THREAD_DETACHED) KERNEL_ERROR_KERNEL_PANIC
            (let s1 = rem_handle h s;
                 s2 = upd_list (Pending t) (prio_insert (\<lambda>_. 0) h) s1;
                 s3 = upd_handle h (\<lambda>x. x\<lparr>HState := WAIT_HANDLE_DONE\<rparr>) s2
             in if State (threads s3 t) = EXOS_THREAD_WAIT
                then ASSERT (MaskWait (threads s3 t) \<noteq> 0) KERNEL_ERROR_KERNEL_PANIC
                       (if MaskWait (threads s3 t) AND Mask (handles s3 h) \<noteq> 0
                        then Inr (req_switch (upd_thread t (\<lambda>x. x\<lparr>State := EXOS_THREAD_READY\<rparr>)
                                    (enqueue_ready t (unlink_thread t s3))))
                        else Inr s3)
                else Inr s3))"

definition exos_thread_resume :: "hid \<Rightarrow> kernel \<Rightarrow> kernel res" where
  "exos_thread_resume h s = resume_handle h s"

text \<open>\<^verbatim>\<open>___resume_all\<close>: resume the first handle until the list is empty.\<close>

fun resume_loop :: "nat \<Rightarrow> wait_list \<Rightarrow> u32 \<Rightarrow> kernel \<Rightarrow> (u32 \<times> kernel) res" where
  "resume_loop 0 l count s = Inl OutOfFuel"
| "resume_loop (Suc fuel) l count s =
     (case wlists s l of
        [] \<Rightarrow> Inr (count, s)
      | h # _ \<Rightarrow> rbind (resume_handle h s) (\<lambda>s1. resume_loop fuel l (count + 1) s1))"

definition exos_thread_resume_all :: "wait_list \<Rightarrow> kernel \<Rightarrow> (u32 \<times> kernel) res" where
  "exos_thread_resume_all l s =
     rbind (resume_loop (Suc (length (wlists s l))) l 0 s) (\<lambda>(count, s1).
       ASSERT (wlists s1 l = []) KERNEL_ERROR_KERNEL_PANIC (Inr (count, s1)))"

definition k_wait :: "u32 \<Rightarrow> kernel \<Rightarrow> kernel res" where
  "k_wait msk s =
     (let t = running s in
      ASSERT (State (threads s t) = EXOS_THREAD_READY) KERNEL_ERROR_KERNEL_PANIC
        (ASSERT (msk \<noteq> 0) KERNEL_ERROR_KERNEL_PANIC
          (case find (\<lambda>h. Mask (handles s h) AND msk \<noteq> 0) (wlists s (Pending t)) of
             Some _ \<Rightarrow> Inr s
           | None \<Rightarrow>
               Inr (req_switch (upd_thread t (\<lambda>x. x\<lparr>State := EXOS_THREAD_WAIT, MaskWait := msk\<rparr>)
                      (enqueue_wait t (unlink_thread t s)))))))"

definition exos_thread_wait :: "u32 \<Rightarrow> kernel \<Rightarrow> kernel res" where
  "exos_thread_wait msk s = k_wait msk s"

section \<open>Threads\<close>

definition k_rem_thread :: "tid \<Rightarrow> kernel \<Rightarrow> kernel res" where
  "k_rem_thread t s =
     ASSERT (State (threads s t) = EXOS_THREAD_READY) KERNEL_ERROR_KERNEL_PANIC
       (ASSERT (t \<in> set (ready s)) KERNEL_ERROR_LIST_CORRUPTED
         (let s1 = upd_thread t (\<lambda>x. x\<lparr>State := EXOS_THREAD_DETACHED\<rparr>) (unlink_thread t s)
          in rbind (exos_thread_resume_all (Joining t) s1) (\<lambda>(_, s2). Inr (req_switch s2))))"

definition thread_exit :: "u32 \<Rightarrow> kernel \<Rightarrow> kernel res" where
  "thread_exit result s =
     k_rem_thread (running s) (upd_thread (running s) (\<lambda>x. x\<lparr>Result := result\<rparr>) s)"

definition exos_thread_exit :: "u32 \<Rightarrow> kernel \<Rightarrow> kernel res" where
  "exos_thread_exit result s = thread_exit result s"

definition k_add_thread :: "tid \<Rightarrow> kernel \<Rightarrow> kernel res" where
  "k_add_thread t s =
     ASSERT (State (threads s t) = EXOS_THREAD_DETACHED) KERNEL_ERROR_KERNEL_PANIC
       (let s1 = enqueue_ready t s;
            s2 = upd_thread t (\<lambda>x. x\<lparr>State := EXOS_THREAD_READY\<rparr>) s1;
            s3 = upd_list (Pending t) (\<lambda>_. []) s2;
            s4 = upd_list (Joining t) (\<lambda>_. []) s3
        in Inr (req_switch s4))"

text \<open>
  \<^verbatim>\<open>exos_thread_create\<close>.  The machine layer prepares the stack:
  \<open>tls e\<close> is the stack end after \<^verbatim>\<open>__machine_init_thread_local_storage\<close>,
  \<open>frame e\<close> after \<^verbatim>\<open>__machine_init_thread_stack\<close>, and \<open>canary\<close> is the word
  then found at the bottom of the stack.
\<close>

definition exos_thread_create ::
  "(u32 \<Rightarrow> u32) \<Rightarrow> (u32 \<Rightarrow> u32) \<Rightarrow> u32 \<Rightarrow> tid \<Rightarrow> int \<Rightarrow> u32 \<Rightarrow> u32 \<Rightarrow> kernel \<Rightarrow> kernel res" where
  "exos_thread_create tls frame canary t p stack stack_size s =
     (let size = stack_size AND NOT 7;
          stack_end = tls (stack + size);
          tp = stack_end - 8;
          stack_end' = frame stack_end
      in if stack_end' \<le> stack \<or> canary \<noteq> 0xcccccccc
         then Inl (Panic KERNEL_ERROR_STACK_INSUFFICIENT)
         else k_add_thread t
           (upd_thread t (\<lambda>_. \<lparr>Pri = sint (word_of_int p :: 8 word), State = EXOS_THREAD_DETACHED,
               SP = stack_end', StackStart = stack, StackSize = size, TP = tp,
               MaskUsed = 0, MaskWait = 0, Result = 0\<rparr>) s))"

definition join_cond :: "tid \<Rightarrow> wait_cond" where
  "join_cond t s =
     Inr ((if State (threads s t) = EXOS_THREAD_READY \<or> State (threads s t) = EXOS_THREAD_WAIT
           then Some (Joining t) else None), s)"

text \<open>
  \<^verbatim>\<open>__thread_init\<close>: the main thread is built from the running context, the idle thread
  with the lowest priority; \<open>stack_start\<close>, \<open>stack_end\<close> and \<open>tbss\<close> are linker symbols and
  \<open>idle_stack\<close> the static stack of \<^verbatim>\<open>IDLE_THREAD_STACK\<close> bytes.
\<close>

definition thread_init ::
  "(u32 \<Rightarrow> u32) \<Rightarrow> (u32 \<Rightarrow> u32) \<Rightarrow> u32 \<Rightarrow> u32 \<Rightarrow> u32 \<Rightarrow> u32 \<Rightarrow> tid \<Rightarrow> tid \<Rightarrow> u32 \<Rightarrow> kernel \<Rightarrow> kernel res" where
  "thread_init tls frame canary stack_start stack_end tbss main_thread idle_thread idle_stack s =
     (let s0 = s\<lparr>ready := [], waiting := []\<rparr>;
          s1 = upd_thread main_thread (\<lambda>x. x\<lparr>Pri := 0, State := EXOS_THREAD_DETACHED, StackStart := stack_start,
                 StackSize := stack_end - stack_start, SP := 0, TP := tbss\<rparr>) s0
      in rbind (k_add_thread main_thread (s1\<lparr>running := main_thread\<rparr>))
           (exos_thread_create tls frame canary idle_thread (- 128) idle_stack 256))"

text \<open>
  A call that blocks is split at the wait: \<open>exos_thread_join_begin\<close> is the code up to and
  including \<^verbatim>\<open>exos_thread_wait\<close>, \<open>exos_thread_join_end\<close> the code that runs when the
  thread is scheduled again; \<open>msk\<close> is the local variable they share.  \<open>add_and_wait\<close> is
  the pair of calls that all of them make: queue the handle and, when it was queued, wait for it.
\<close>

definition add_and_wait :: "hid \<Rightarrow> wait_cond \<Rightarrow> kernel \<Rightarrow> (u32 \<times> kernel) res" where
  "add_and_wait h cond s =
     rbind (exos_thread_add_wait_handle h cond s)
       (\<lambda>(msk, s1). if msk \<noteq> 0 then rbind (exos_thread_wait msk s1) (\<lambda>s2. Inr (msk, s2))
                     else Inr (msk, s1))"

text \<open>After the wait: the handle must be done, and is disposed of.\<close>

definition finish_wait :: "hid \<Rightarrow> kernel \<Rightarrow> kernel res" where
  "finish_wait h s =
     ASSERT (HState (handles s h) = WAIT_HANDLE_DONE) KERNEL_ERROR_KERNEL_PANIC
       (exos_thread_dispose_wait_handle h s)"

definition exos_thread_join_begin :: "hid \<Rightarrow> tid \<Rightarrow> kernel \<Rightarrow> (u32 \<times> kernel) res" where
  "exos_thread_join_begin h t s =
     ASSERT (t \<noteq> running s) KERNEL_ERROR_KERNEL_PANIC
       (add_and_wait h (join_cond t) (exos_thread_create_wait_handle h s))"

definition exos_thread_join_end :: "hid \<Rightarrow> tid \<Rightarrow> u32 \<Rightarrow> kernel \<Rightarrow> (u32 \<times> kernel) res" where
  "exos_thread_join_end h t msk s =
     rbind (if msk \<noteq> 0 then finish_wait h s else Inr s)
       (\<lambda>s1. ASSERT (State (threads s1 t) = EXOS_THREAD_DETACHED) KERNEL_ERROR_KERNEL_PANIC
               (Inr (Result (threads s1 t), s1)))"

end
