(* ===== verification/Threads_Inv.thy ===== *)
theory Threads_Inv
  imports Threads
begin

text \<open>
  The invariant of the scheduler state and its preservation by every kernel operation of
  \<^verbatim>\<open>thread.c\<close>, together with the facts that make the operations useful: the
  scheduler picks a ready thread of maximal priority, resuming a list empties it, and no wake-up
  is lost.
\<close>

unbundle bit_operations_syntax

section \<open>Masks\<close>

definition sub_mask :: "u32 \<Rightarrow> u32 \<Rightarrow> bool" where
  "sub_mask a b \<longleftrightarrow> a AND NOT b = 0"

definition disjoint_mask :: "u32 \<Rightarrow> u32 \<Rightarrow> bool" where
  "disjoint_mask a b \<longleftrightarrow> a AND b = 0"

lemma sub_mask_bits: "sub_mask a b \<longleftrightarrow> (\<forall>n<32. bit a n \<longrightarrow> bit b n)"
  unfolding sub_mask_def by (auto simp: word_eq_iff_bits bit_simps)

lemma disjoint_mask_bits: "disjoint_mask a b \<longleftrightarrow> (\<forall>n<32. bit a n \<longrightarrow> \<not> bit b n)"
  unfolding disjoint_mask_def by (auto simp: word_eq_iff_bits bit_simps)

lemma disjoint_mask_sym: "disjoint_mask a b \<Longrightarrow> disjoint_mask b a"
  by (auto simp: disjoint_mask_bits)

lemma sub_mask_or: "sub_mask a b \<Longrightarrow> sub_mask a (b OR c)"
  by (auto simp: sub_mask_bits bit_simps)

lemma sub_mask_or2: "sub_mask c (b OR c)"
  by (auto simp: sub_mask_bits bit_simps)

lemma sub_mask_xor: "sub_mask a b \<Longrightarrow> disjoint_mask a c \<Longrightarrow> sub_mask a (b XOR c)"
  by (auto simp: sub_mask_bits disjoint_mask_bits bit_simps)

lemma sub_mask_nonzero: "sub_mask a b \<Longrightarrow> a \<noteq> 0 \<Longrightarrow> b AND a \<noteq> 0"
  by (auto simp: sub_mask_bits word_eq_iff_bits bit_simps)

lemma sub_mask_disjoint: "sub_mask a b \<Longrightarrow> disjoint_mask b c \<Longrightarrow> disjoint_mask a c"
  by (auto simp: sub_mask_bits disjoint_mask_bits)

lemma xor_mask_cancel: "disjoint_mask b c \<Longrightarrow> (b OR c) XOR c = b"
  by (auto simp: disjoint_mask_bits word_eq_iff_bits bit_simps)

text \<open>The allocator returns a single free bit, and halts only when none is left.\<close>

lemma single_bit_and: "i < 32 \<Longrightarrow> (2 ^ i AND free \<noteq> (0 :: u32)) \<longleftrightarrow> bit free i"
  by (auto simp: word_eq_iff_bits bit_simps)

lemma single_bit_neq_0: "(2 :: u32) ^ i \<noteq> 0 \<longleftrightarrow> i < 32"
  by (auto simp: word_eq_iff_bits bit_simps)

lemma alloc_scan_step:
  assumes "i < 32" and "\<not> bit free i"
  shows "alloc_scan (Suc fuel) free (2 ^ i) = (if Suc i < 32 then alloc_scan fuel free (2 ^ Suc i) else Inl Halt)"
proof -
  have "push_bit 1 (2 ^ i :: u32) = 2 ^ Suc i" by (simp add: push_bit_eq_mult)
  then show ?thesis
    using assms single_bit_and[of i free] single_bit_neq_0[of "Suc i"]
    by (simp add: Let_def del: power_Suc)
qed

lemma alloc_scan_spec:
  "i + fuel = 32 \<Longrightarrow> 0 < fuel \<Longrightarrow>
   (\<exists>j. i \<le> j \<and> j < 32 \<and> bit free j \<and> alloc_scan fuel free (2 ^ i) = Inr (2 ^ j)) \<or>
   ((\<forall>j. i \<le> j \<and> j < 32 \<longrightarrow> \<not> bit free j) \<and> alloc_scan fuel free (2 ^ i) = Inl Halt)"
proof (induction fuel arbitrary: i)
  case 0
  then show ?case by simp
next
  case (Suc fuel)
  have i: "i < 32" using Suc.prems by simp
  show ?case
  proof (cases "bit free i")
    case True
    then show ?thesis using i single_bit_and[OF i, of free] by auto
  next
    case nb: False
    note step = alloc_scan_step[OF i nb, of fuel]
    have "i = j \<or> Suc i \<le> j" if "i \<le> j" for j using that by auto
    then have ge: "(\<forall>j. i \<le> j \<and> j < 32 \<longrightarrow> \<not> bit free j) \<longleftrightarrow> (\<forall>j. Suc i \<le> j \<and> j < 32 \<longrightarrow> \<not> bit free j)"
      using nb by (auto dest: Suc_leD)
    show ?thesis
    proof (cases "Suc i < 32")
      case True
      then show ?thesis
        unfolding step ge using Suc.IH[of "Suc i"] Suc.prems by (auto dest: Suc_leD simp del: power_Suc)
    next
      case False
      then show ?thesis unfolding step ge by auto
    qed
  qed
qed

lemma alloc_scan_cases:
  "(\<exists>msk. alloc_scan 32 free 1 = Inr msk \<and> msk \<noteq> 0 \<and> sub_mask msk free) \<or>
   (free = 0 \<and> alloc_scan 32 free 1 = Inl Halt)"
proof -
  have "sub_mask (2 ^ j) free" if "j < 32" "bit free j" for j
    using that by (auto simp: sub_mask_bits bit_simps)
  moreover have "free = 0" if "\<forall>j. j < 32 \<longrightarrow> \<not> bit free j"
    using that by (auto simp: word_eq_iff_bits)
  ultimately show ?thesis
    using alloc_scan_spec[of 0 32 free] single_bit_neq_0 by fastforce
qed

section \<open>The invariant\<close>

definition threads_ok :: "kernel \<Rightarrow> bool" where
  "threads_ok s \<longleftrightarrow>
     distinct (ready s) \<and> distinct (waiting s) \<and>
     (\<forall>t. t \<in> set (ready s) \<longleftrightarrow> State (threads s t) = EXOS_THREAD_READY) \<and>
     (\<forall>t. t \<in> set (waiting s) \<longleftrightarrow> State (threads s t) = EXOS_THREAD_WAIT) \<and>
     prio_sorted (pri s) (ready s) \<and> prio_sorted (pri s) (waiting s)"

definition lists_ok :: "kernel \<Rightarrow> bool" where
  "lists_ok s \<longleftrightarrow>
     (\<forall>l. distinct (wlists s l)) \<and>
     (\<forall>l l' h. h \<in> set (wlists s l) \<longrightarrow> h \<in> set (wlists s l') \<longrightarrow> l = l') \<and>
     (\<forall>h. HState (handles s h) = WAIT_HANDLE_DETACHED \<longleftrightarrow> (\<forall>l. h \<notin> set (wlists s l))) \<and>
     (\<forall>t h. h \<in> set (wlists s (Pending t)) \<longleftrightarrow>
        HState (handles s h) = WAIT_HANDLE_DONE \<and> Owner (handles s h) = Some t)"

definition handle_ok :: "kernel \<Rightarrow> hid \<Rightarrow> bool" where
  "handle_ok s h \<longleftrightarrow>
     (\<exists>t. Owner (handles s h) = Some t \<and> State (threads s t) \<noteq> EXOS_THREAD_DETACHED \<and>
        Mask (handles s h) \<noteq> 0 \<and> sub_mask (Mask (handles s h)) (MaskUsed (threads s t)))"

definition handles_ok :: "kernel \<Rightarrow> bool" where
  "handles_ok s \<longleftrightarrow>
     (\<forall>h. HState (handles s h) \<noteq> WAIT_HANDLE_DETACHED \<longrightarrow> handle_ok s h) \<and>
     (\<forall>h h'. h \<noteq> h' \<longrightarrow> HState (handles s h) \<noteq> WAIT_HANDLE_DETACHED \<longrightarrow>
        HState (handles s h') \<noteq> WAIT_HANDLE_DETACHED \<longrightarrow> Owner (handles s h) = Owner (handles s h') \<longrightarrow>
        disjoint_mask (Mask (handles s h)) (Mask (handles s h')))"

text \<open>No lost wake-up: a thread waits only while none of its completed handles matches.\<close>

definition wake_ok :: "kernel \<Rightarrow> bool" where
  "wake_ok s \<longleftrightarrow>
     (\<forall>t. State (threads s t) = EXOS_THREAD_WAIT \<longrightarrow>
        MaskWait (threads s t) \<noteq> 0 \<and>
        (\<forall>h\<in>set (wlists s (Pending t)). MaskWait (threads s t) AND Mask (handles s h) = 0))"

definition kernel_core :: "kernel \<Rightarrow> bool" where
  "kernel_core s \<longleftrightarrow> threads_ok s \<and> lists_ok s \<and> handles_ok s \<and> wake_ok s"

text \<open>Nobody waits for a thread that has ended.\<close>

definition join_ok :: "kernel \<Rightarrow> bool" where
  "join_ok s \<longleftrightarrow> (\<forall>t. State (threads s t) = EXOS_THREAD_DETACHED \<longrightarrow> wlists s (Joining t) = [])"

definition kernel_wf :: "kernel \<Rightarrow> bool" where
  "kernel_wf s \<longleftrightarrow> kernel_core s \<and> join_ok s"

text \<open>The threads differ at most in being ready or waiting.\<close>

definition same_threads :: "kernel \<Rightarrow> kernel \<Rightarrow> bool" where
  "same_threads s s' \<longleftrightarrow>
     (\<forall>t. (threads s' t)\<lparr>State := State (threads s t)\<rparr> = threads s t \<and>
          (State (threads s' t) = EXOS_THREAD_DETACHED \<longleftrightarrow> State (threads s t) = EXOS_THREAD_DETACHED))"

lemma same_threads_refl [simp]: "same_threads s s"
  by (simp add: same_threads_def)

lemma same_threads_trans: "same_threads s s' \<Longrightarrow> same_threads s' s'' \<Longrightarrow> same_threads s s''"
  unfolding same_threads_def by (metis exos_thread_t.surjective exos_thread_t.update_convs(2))

lemmas kupd_defs = upd_thread_def upd_handle_def upd_list_def unlink_handle_def unlink_thread_def
  enqueue_ready_def enqueue_wait_def req_switch_def

lemma prio_insert_const [simp]: "prio_insert (\<lambda>_. c) x xs = xs @ [x]"
  by (induction xs) auto

lemma threads_ok_disjoint: "threads_ok s \<Longrightarrow> t \<in> set (ready s) \<Longrightarrow> t \<notin> set (waiting s)"
  by (auto simp: threads_ok_def)

lemma pri_fun: "pri s = (\<lambda>t. Pri (threads s t))"
  by (simp add: fun_eq_iff pri_def)

section \<open>Resuming a handle\<close>

text \<open>The handle leaves its list and joins its owner's completed handles.\<close>

definition complete_handle :: "hid \<Rightarrow> tid \<Rightarrow> kernel \<Rightarrow> kernel" where
  "complete_handle h t s =
     s\<lparr>wlists := (\<lambda>l. filter (\<lambda>x. x \<noteq> h) (wlists s l) @ (if l = Pending t then [h] else [])),
       handles := (handles s)(h := (handles s h)\<lparr>HState := WAIT_HANDLE_DONE\<rparr>)\<rparr>"

definition wake_thread :: "tid \<Rightarrow> kernel \<Rightarrow> kernel" where
  "wake_thread t s =
     s\<lparr>ready := prio_insert (pri s) t (ready s), waiting := filter (\<lambda>x. x \<noteq> t) (waiting s),
       threads := (threads s)(t := (threads s t)\<lparr>State := EXOS_THREAD_READY\<rparr>), switch_req := True\<rparr>"

lemma move_to_list:
  "(\<lambda>l. filter P (f l))(k := filter P (f k) @ [h]) = (\<lambda>l. filter P (f l) @ (if l = k then [h] else []))"
  by (simp add: fun_eq_iff)

lemma resume_handle_eval:
  assumes "kernel_core s" and "HState (handles s h) \<noteq> WAIT_HANDLE_DETACHED"
    and "Owner (handles s h) = Some t"
  shows "resume_handle h s =
    Inr (if State (threads s t) = EXOS_THREAD_WAIT \<and> MaskWait (threads s t) AND Mask (handles s h) \<noteq> 0
         then wake_thread t (complete_handle h t s) else complete_handle h t s)"
proof -
  have "State (threads s t) \<noteq> EXOS_THREAD_DETACHED"
    using assms by (auto simp: kernel_core_def handles_ok_def handle_ok_def)
  moreover have "State (threads s t) = EXOS_THREAD_WAIT \<Longrightarrow> MaskWait (threads s t) \<noteq> 0 \<and> t \<notin> set (ready s)"
    using assms by (auto simp: kernel_core_def wake_ok_def threads_ok_def)
  ultimately show ?thesis
    using assms(2,3)
    by (auto simp: resume_handle_def rem_handle_def kupd_defs complete_handle_def wake_thread_def
        Let_def pri_fun move_to_list)
qed

lemma complete_handle_lists:
  assumes "lists_ok s" and "Owner (handles s h) = Some t"
  shows "lists_ok (complete_handle h t s)"
  unfolding lists_ok_def
proof (intro conjI allI impI iffI; (elim conjE)?)
  have old: "\<And>l. distinct (wlists s l)"
    "\<And>l l' h. h \<in> set (wlists s l) \<Longrightarrow> h \<in> set (wlists s l') \<Longrightarrow> l = l'"
    "\<And>h. HState (handles s h) = WAIT_HANDLE_DETACHED \<longleftrightarrow> (\<forall>l. h \<notin> set (wlists s l))"
    "\<And>t h. h \<in> set (wlists s (Pending t)) \<longleftrightarrow>
        HState (handles s h) = WAIT_HANDLE_DONE \<and> Owner (handles s h) = Some t"
    using assms(1) by (auto simp: lists_ok_def)
  fix l l' k u
  show "distinct (wlists (complete_handle h t s) l)"
    using old(1) by (simp add: complete_handle_def)
  show "l = l'" if "k \<in> set (wlists (complete_handle h t s) l)" "k \<in> set (wlists (complete_handle h t s) l')"
    using that old(2) by (auto simp: complete_handle_def split: if_splits)
  show "k \<notin> set (wlists (complete_handle h t s) l)"
    if "HState (handles (complete_handle h t s) k) = WAIT_HANDLE_DETACHED"
    using that old(3) by (auto simp: complete_handle_def split: if_splits)
  show "HState (handles (complete_handle h t s) k) = WAIT_HANDLE_DETACHED"
    if "\<forall>l. k \<notin> set (wlists (complete_handle h t s) l)"
    using that[rule_format, of "Pending t"] that old(3)[of k] by (auto simp: complete_handle_def split: if_splits)
  show "HState (handles (complete_handle h t s) k) = WAIT_HANDLE_DONE"
    "Owner (handles (complete_handle h t s) k) = Some u"
    if "k \<in> set (wlists (complete_handle h t s) (Pending u))"
    using that old(4)[of k] assms(2) by (auto simp: complete_handle_def split: if_splits)
  show "k \<in> set (wlists (complete_handle h t s) (Pending u))"
    if "HState (handles (complete_handle h t s) k) = WAIT_HANDLE_DONE"
      "Owner (handles (complete_handle h t s) k) = Some u"
    using that old(4)[of k] assms(2) by (auto simp: complete_handle_def split: if_splits)
qed

lemma complete_handle_handles:
  assumes "handles_ok s" and "HState (handles s h) \<noteq> WAIT_HANDLE_DETACHED"
  shows "handles_ok (complete_handle h t s)"
proof -
  have *: "handle_ok (complete_handle h t s) k = handle_ok s k" for k
    by (simp add: handle_ok_def complete_handle_def)
  show ?thesis
    using assms unfolding handles_ok_def * by (simp add: complete_handle_def split: if_splits)
qed

lemma complete_handle_threads: "threads_ok s \<Longrightarrow> threads_ok (complete_handle h t s)"
  by (simp add: threads_ok_def complete_handle_def pri_fun)

lemma wake_thread_threads:
  assumes "threads_ok s" and "State (threads s t) = EXOS_THREAD_WAIT"
  shows "threads_ok (wake_thread t s)"
proof -
  have pri: "pri (wake_thread t s) = pri s" by (simp add: wake_thread_def pri_fun fun_eq_iff)
  have "t \<notin> set (ready s)" using assms by (auto simp: threads_ok_def)
  then show ?thesis
    using assms unfolding threads_ok_def pri
    by (auto simp: wake_thread_def prio_sorted_insert prio_sorted_filter)
qed

lemma wake_thread_lists:
  "lists_ok s \<Longrightarrow> State (threads s t) = EXOS_THREAD_WAIT \<Longrightarrow> lists_ok (wake_thread t s)"
  by (simp add: lists_ok_def wake_thread_def)

lemma wake_thread_handles:
  assumes "handles_ok s" and "State (threads s t) = EXOS_THREAD_WAIT"
  shows "handles_ok (wake_thread t s)"
proof -
  have "handle_ok (wake_thread t s) k" if "handle_ok s k" for k
    using that by (auto simp: handle_ok_def wake_thread_def)
  then show ?thesis
    using assms(1) unfolding handles_ok_def by (simp add: wake_thread_def)
qed

lemma complete_handle_wake:
  assumes "wake_ok s" and "State (threads s t) = EXOS_THREAD_WAIT \<Longrightarrow> MaskWait (threads s t) AND Mask (handles s h) = 0"
  shows "wake_ok (complete_handle h t s)"
  using assms by (auto simp: wake_ok_def complete_handle_def split: if_splits)

lemma complete_wake_wake:
  assumes "wake_ok s"
  shows "wake_ok (wake_thread t (complete_handle h t s))"
  using assms by (auto simp: wake_ok_def complete_handle_def wake_thread_def split: if_splits)

lemma resume_handle_wf:
  assumes wf: "kernel_core s" and h: "HState (handles s h) \<noteq> WAIT_HANDLE_DETACHED"
  shows "\<exists>s' t. Owner (handles s h) = Some t \<and> resume_handle h s = Inr s' \<and> kernel_core s' \<and>
    wlists s' = wlists (complete_handle h t s) \<and> handles s' = handles (complete_handle h t s) \<and>
    running s' = running s \<and> events s' = events s \<and> mutexes s' = mutexes s \<and>
    set (ready s) \<subseteq> set (ready s') \<and> same_threads s s'"
proof -
  obtain t where t: "Owner (handles s h) = Some t"
    using assms by (auto simp: kernel_core_def handles_ok_def handle_ok_def)
  note parts = wf[unfolded kernel_core_def]
  let ?c = "complete_handle h t s"
  have st: "State (threads ?c t) = State (threads s t)" by (simp add: complete_handle_def)
  have c: "threads_ok ?c" "lists_ok ?c" "handles_ok ?c"
    using parts h t complete_handle_threads complete_handle_lists complete_handle_handles by blast+
  show ?thesis
  proof (cases "State (threads s t) = EXOS_THREAD_WAIT \<and> MaskWait (threads s t) AND Mask (handles s h) \<noteq> 0")
    case True
    then have "kernel_core (wake_thread t ?c)"
      unfolding kernel_core_def using c parts st wake_thread_threads wake_thread_lists wake_thread_handles
        complete_wake_wake by metis
    with True show ?thesis
      using resume_handle_eval[OF wf h t] t by (auto simp: wake_thread_def complete_handle_def same_threads_def)
  next
    case False
    then have "kernel_core ?c"
      unfolding kernel_core_def using c parts complete_handle_wake by blast
    with False show ?thesis
      using resume_handle_eval[OF wf h t] t by (auto simp: complete_handle_def same_threads_def)
  qed
qed

text \<open>Resuming a list: it never panics, it empties the list, and the handles complete.\<close>

lemma wlists_complete_head:
  assumes "lists_ok s" and "wlists s l = h # hs" and "\<nexists>u. l = Pending u"
  shows "wlists (complete_handle h t s) l = hs"
  using assms by (auto simp: complete_handle_def lists_ok_def) (metis distinct.simps(2) filter_neq_notin)

lemma wlists_complete_other:
  assumes "lists_ok s" and "h \<in> set (wlists s l)" and "l' \<noteq> l" and "\<nexists>u. l' = Pending u"
  shows "wlists (complete_handle h t s) l' = wlists s l'"
proof -
  have "h \<notin> set (wlists s l')" using assms(1-3) by (auto simp: lists_ok_def)
  then show ?thesis using assms(4) by (auto simp: complete_handle_def)
qed

lemma linked_not_detached: "kernel_core s \<Longrightarrow> h \<in> set (wlists s l) \<Longrightarrow> HState (handles s h) \<noteq> WAIT_HANDLE_DETACHED"
  by (auto simp: kernel_core_def lists_ok_def)

definition done_handles :: "hid set \<Rightarrow> kernel \<Rightarrow> hid \<Rightarrow> exos_wait_handle_t" where
  "done_handles H s = (\<lambda>h. if h \<in> H then (handles s h)\<lparr>HState := WAIT_HANDLE_DONE\<rparr> else handles s h)"

lemma resume_loop_wf:
  assumes "kernel_core s" and "\<nexists>u. l = Pending u" and "length (wlists s l) < fuel"
  shows "\<exists>s'. resume_loop fuel l c s = Inr (c + of_nat (length (wlists s l)), s') \<and> kernel_core s' \<and>
    wlists s' l = [] \<and> (\<forall>l'. l' \<noteq> l \<longrightarrow> (\<nexists>u. l' = Pending u) \<longrightarrow> wlists s' l' = wlists s l') \<and>
    handles s' = done_handles (set (wlists s l)) s \<and>
    running s' = running s \<and> events s' = events s \<and> mutexes s' = mutexes s \<and>
    set (ready s) \<subseteq> set (ready s') \<and> same_threads s s'"
  using assms
proof (induction fuel arbitrary: s c)
  case 0
  then show ?case by simp
next
  case (Suc fuel)
  show ?case
  proof (cases "wlists s l")
    case Nil
    then show ?thesis using Suc.prems by (simp add: done_handles_def)
  next
    case (Cons h hs)
    obtain s1 t where s1: "resume_handle h s = Inr s1" "kernel_core s1"
      "wlists s1 = wlists (complete_handle h t s)" "handles s1 = handles (complete_handle h t s)"
      "running s1 = running s" "events s1 = events s" "mutexes s1 = mutexes s" "set (ready s) \<subseteq> set (ready s1)"
      "same_threads s s1"
      using resume_handle_wf[OF Suc.prems(1), of h] linked_not_detached[OF Suc.prems(1), of h l] Cons by auto
    have lok: "lists_ok s" using Suc.prems(1) by (simp add: kernel_core_def)
    have l1: "wlists s1 l = hs"
      using s1(3) wlists_complete_head[OF lok Cons] Suc.prems(2) by simp
    have o1: "wlists s1 l' = wlists s l'" if "l' \<noteq> l" "\<nexists>u. l' = Pending u" for l'
      using s1(3) wlists_complete_other[OF lok, of h l l'] Cons that by simp
    have h1: "done_handles (set hs) s1 = done_handles (set (h # hs)) s"
      by (auto simp: done_handles_def s1(4) complete_handle_def fun_eq_iff)
    obtain s' where s': "resume_loop fuel l (c + 1) s1 = Inr (c + 1 + of_nat (length hs), s')" "kernel_core s'"
      "wlists s' l = []" "\<forall>l'. l' \<noteq> l \<longrightarrow> (\<nexists>u. l' = Pending u) \<longrightarrow> wlists s' l' = wlists s1 l'"
      "handles s' = done_handles (set hs) s1"
      "running s' = running s1" "events s' = events s1" "mutexes s' = mutexes s1" "set (ready s1) \<subseteq> set (ready s')"
      "same_threads s1 s'"
      using Suc.IH[OF s1(2) Suc.prems(2), of "c + 1"] Suc.prems(3) Cons l1 by auto
    show ?thesis
      using s' s1 o1 h1 Cons by (intro exI[of _ s']) (auto simp: add.assoc intro: same_threads_trans)
  qed
qed

lemma resume_all_wf:
  assumes "kernel_core s" and "\<nexists>u. l = Pending u"
  shows "\<exists>s'. exos_thread_resume_all l s = Inr (of_nat (length (wlists s l)), s') \<and> kernel_core s' \<and>
    wlists s' l = [] \<and> (\<forall>l'. l' \<noteq> l \<longrightarrow> (\<nexists>u. l' = Pending u) \<longrightarrow> wlists s' l' = wlists s l') \<and>
    handles s' = done_handles (set (wlists s l)) s \<and>
    running s' = running s \<and> events s' = events s \<and> mutexes s' = mutexes s \<and>
    set (ready s) \<subseteq> set (ready s') \<and> same_threads s s'"
  using resume_loop_wf[OF assms, of "Suc (length (wlists s l))" 0] by (auto simp: exos_thread_resume_all_def)

lemma resume_all_kernel_wf:
  assumes "kernel_wf s" and "\<nexists>u. l = Pending u" and "exos_thread_resume_all l s = Inr (n, s')"
  shows "kernel_wf s'"
proof -
  have core: "kernel_core s" and j: "join_ok s" using assms(1) by (simp_all add: kernel_wf_def)
  have *: "kernel_core s'" "wlists s' l = []" "same_threads s s'"
    "\<forall>l'. l' \<noteq> l \<longrightarrow> (\<nexists>u. l' = Pending u) \<longrightarrow> wlists s' l' = wlists s l'"
    using resume_all_wf[OF core assms(2)] assms(3) by auto
  have "wlists s' (Joining t) = []" if "State (threads s' t) = EXOS_THREAD_DETACHED" for t
  proof (cases "Joining t = l")
    case True
    then show ?thesis using *(2) by simp
  next
    case False
    then show ?thesis using *(3,4) j that by (auto simp: join_ok_def same_threads_def)
  qed
  then show ?thesis using *(1) by (simp add: kernel_wf_def join_ok_def)
qed

section \<open>Waiting\<close>

lemma k_wait_wf:
  assumes wf: "kernel_wf s" and rd: "State (threads s (running s)) = EXOS_THREAD_READY" and m: "msk \<noteq> 0"
  shows "\<exists>s'. k_wait msk s = Inr s' \<and> kernel_wf s' \<and> wlists s' = wlists s \<and> handles s' = handles s \<and>
    running s' = running s \<and> events s' = events s \<and> mutexes s' = mutexes s"
proof (cases "find (\<lambda>h. Mask (handles s h) AND msk \<noteq> 0) (wlists s (Pending (running s)))")
  case (Some h)
  then show ?thesis using assms by (simp add: k_wait_def)
next
  case None
  let ?t = "running s"
  let ?s = "req_switch (upd_thread ?t (\<lambda>x. x\<lparr>State := EXOS_THREAD_WAIT, MaskWait := msk\<rparr>)
              (enqueue_wait ?t (unlink_thread ?t s)))"
  have parts: "threads_ok s" "lists_ok s" "handles_ok s" "wake_ok s" "join_ok s"
    using wf by (simp_all add: kernel_wf_def kernel_core_def)
  have tin: "?t \<in> set (ready s)" "?t \<notin> set (waiting s)"
    using parts(1) rd by (auto simp: threads_ok_def)
  have pri: "pri ?s = pri s" by (auto simp: kupd_defs pri_fun fun_eq_iff)
  have "threads_ok ?s"
    unfolding threads_ok_def pri using parts(1) tin
    by (auto simp: kupd_defs threads_ok_def prio_sorted_filter pri_fun intro!: prio_sorted_insert)
  moreover have "lists_ok ?s" "join_ok ?s"
    using parts(2,5) rd by (auto simp: kupd_defs lists_ok_def join_ok_def)
  moreover have "handle_ok ?s k" if "handle_ok s k" for k
    using that by (auto simp: handle_ok_def kupd_defs)
  then have "handles_ok ?s"
    using parts(3) unfolding handles_ok_def by (simp add: kupd_defs)
  moreover have "wake_ok ?s"
    using parts(4) None m by (auto simp: wake_ok_def kupd_defs find_None_iff and.commute)
  ultimately have "kernel_wf ?s" by (simp add: kernel_wf_def kernel_core_def)
  moreover have "k_wait msk s = Inr ?s"
    using None rd m by (simp add: k_wait_def Let_def)
  ultimately show ?thesis by (auto simp: kupd_defs)
qed

section \<open>Creating, adding and disposing of handles\<close>

lemma create_wait_handle_wf:
  assumes "kernel_wf s" and "HState (handles s h) = WAIT_HANDLE_DETACHED"
  shows "kernel_wf (exos_thread_create_wait_handle h s)"
proof -
  let ?s = "exos_thread_create_wait_handle h s"
  note d = exos_thread_create_wait_handle_def upd_handle_def
  have parts: "threads_ok s" "lists_ok s" "handles_ok s" "wake_ok s" "join_ok s"
    using assms(1) by (simp_all add: kernel_wf_def kernel_core_def)
  have "\<forall>l. h \<notin> set (wlists s l)" using parts(2) assms(2) by (auto simp: lists_ok_def)
  moreover have "HState (handles s h) \<noteq> WAIT_HANDLE_DONE" using assms(2) by simp
  ultimately have "lists_ok ?s" "wake_ok ?s"
    using parts(2,4) by (auto simp: d lists_ok_def wake_ok_def)
  moreover have "threads_ok ?s" "join_ok ?s"
    using parts(1,5) by (simp_all add: d threads_ok_def join_ok_def pri_fun)
  moreover have "handles_ok ?s"
    using parts(3) assms(2) by (auto simp: d handles_ok_def handle_ok_def)
  ultimately show ?thesis by (simp add: kernel_wf_def kernel_core_def)
qed

text \<open>The state after a handle was added to a wait list.\<close>

definition added_handle :: "hid \<Rightarrow> u32 \<Rightarrow> wait_list \<Rightarrow> kernel \<Rightarrow> kernel" where
  "added_handle h msk l s =
     s\<lparr>threads := (threads s)(running s := (threads s (running s))\<lparr>MaskUsed := MaskUsed (threads s (running s)) OR msk\<rparr>),
       handles := (handles s)(h := \<lparr>HState = WAIT_HANDLE_WAITING, Owner = Some (running s), Mask = msk\<rparr>),
       wlists := (wlists s)(l := wlists s l @ [h])\<rparr>"

lemma added_handle_wf:
  assumes wf: "kernel_wf s" and h: "HState (handles s h) = WAIT_HANDLE_DETACHED"
    and l: "\<nexists>u. l = Pending u" "\<And>t. l = Joining t \<Longrightarrow> State (threads s t) \<noteq> EXOS_THREAD_DETACHED"
    and run: "State (threads s (running s)) \<noteq> EXOS_THREAD_DETACHED"
    and msk: "msk \<noteq> 0" "sub_mask msk (NOT (MaskUsed (threads s (running s))))"
  shows "kernel_wf (added_handle h msk l s)"
proof -
  let ?s = "added_handle h msk l s" and ?r = "running s"
  note d = added_handle_def
  have parts: "threads_ok s" "lists_ok s" "handles_ok s" "wake_ok s" "join_ok s"
    using wf by (simp_all add: kernel_wf_def kernel_core_def)
  have un: "\<forall>l. h \<notin> set (wlists s l)" using parts(2) h by (auto simp: lists_ok_def)
  have nd: "HState (handles s h) \<noteq> WAIT_HANDLE_DONE" using h by simp
  have "pri ?s = pri s" by (auto simp: d pri_fun fun_eq_iff)
  then have "threads_ok ?s" using parts(1) by (auto simp: d threads_ok_def)
  moreover have "lists_ok ?s"
    using parts(2) un l(1) nd unfolding lists_ok_def by (auto simp: d split: if_splits)
  moreover have "join_ok ?s" using parts(5) l(2) by (auto simp: d join_ok_def split: if_splits)
  moreover have "wake_ok ?s" using parts(4) un l(1) by (auto simp: d wake_ok_def)
  moreover have hk: "handle_ok ?s k" if "HState (handles ?s k) \<noteq> WAIT_HANDLE_DETACHED" for k
    using that parts(3) run msk(1) sub_mask_or sub_mask_or2
    by (cases "k = h") (fastforce simp: d handles_ok_def handle_ok_def)+
  moreover have new: "disjoint_mask (Mask (handles s k)) msk"
    if "HState (handles s k) \<noteq> WAIT_HANDLE_DETACHED" "Owner (handles s k) = Some ?r" for k
  proof -
    have "sub_mask (Mask (handles s k)) (MaskUsed (threads s ?r))"
      using that parts(3) by (auto simp: handles_ok_def handle_ok_def)
    then show ?thesis
      using msk(2) by (auto simp: sub_mask_bits disjoint_mask_bits bit_simps)
  qed
  have "disjoint_mask (Mask (handles ?s k)) (Mask (handles ?s k'))"
    if "k \<noteq> k'" "HState (handles ?s k) \<noteq> WAIT_HANDLE_DETACHED" "HState (handles ?s k') \<noteq> WAIT_HANDLE_DETACHED"
      "Owner (handles ?s k) = Owner (handles ?s k')" for k k'
    using that new[of k] new[of k'] parts(3)
    by (auto simp: d handles_ok_def split: if_splits intro: disjoint_mask_sym)
  ultimately show ?thesis by (auto simp: kernel_wf_def kernel_core_def handles_ok_def)
qed

lemma handle_full [simp]:
  "(x :: exos_wait_handle_t)\<lparr>HState := a, Owner := b, Mask := c\<rparr> = \<lparr>HState = a, Owner = b, Mask = c\<rparr>"
  "(x :: exos_wait_handle_t)\<lparr>Mask := c, HState := a, Owner := b\<rparr> = \<lparr>HState = a, Owner = b, Mask = c\<rparr>"
  by (cases x; simp)+

text \<open>What a wait condition must guarantee for the handle to be queued safely.\<close>

definition cond_ok :: "wait_cond \<Rightarrow> kernel \<Rightarrow> bool" where
  "cond_ok cond s \<longleftrightarrow>
     (\<exists>l s1. cond s = Inr (l, s1) \<and> kernel_wf s1 \<and> handles s1 = handles s \<and> threads s1 = threads s \<and>
        running s1 = running s \<and>
        (\<forall>lst. l = Some lst \<longrightarrow> (\<nexists>u. lst = Pending u) \<and>
           (\<forall>t. lst = Joining t \<longrightarrow> State (threads s t) \<noteq> EXOS_THREAD_DETACHED)))"

lemma k_add_handle_wf:
  assumes c: "cond_ok cond s" and h: "HState (handles s h) = WAIT_HANDLE_DETACHED"
    and run: "State (threads s (running s)) \<noteq> EXOS_THREAD_DETACHED"
  shows "(\<exists>s1. cond s = Inr (None, s1) \<and> k_add_handle h cond s = Inr s1 \<and> kernel_wf s1 \<and> handles s1 = handles s) \<or>
    (\<exists>l s1 msk. cond s = Inr (Some l, s1) \<and> k_add_handle h cond s = Inr (added_handle h msk l s1) \<and> msk \<noteq> 0 \<and>
       sub_mask msk (NOT (MaskUsed (threads s (running s)))) \<and> kernel_wf (added_handle h msk l s1)) \<or>
    (MaskUsed (threads s (running s)) = - 1 \<and> k_add_handle h cond s = Inl Halt)"
proof -
  obtain lo s1 where s1: "cond s = Inr (lo, s1)" "kernel_wf s1" "handles s1 = handles s"
    "threads s1 = threads s" "running s1 = running s"
    "\<And>lst. lo = Some lst \<Longrightarrow> (\<nexists>u. lst = Pending u) \<and>
       (\<forall>t. lst = Joining t \<longrightarrow> State (threads s t) \<noteq> EXOS_THREAD_DETACHED)"
    using c by (auto simp: cond_ok_def)
  show ?thesis
  proof (cases lo)
    case None
    then show ?thesis using s1 by (simp add: k_add_handle_def)
  next
    case (Some l)
    have un: "h \<notin> set (wlists s1 l)"
      using s1(2,3) h by (auto simp: kernel_wf_def kernel_core_def lists_ok_def)
    let ?free = "NOT (MaskUsed (threads s (running s)))"
    consider msk where "alloc_scan 32 ?free 1 = Inr msk" "msk \<noteq> 0" "sub_mask msk ?free"
      | "?free = 0" "alloc_scan 32 ?free 1 = Inl Halt"
      using alloc_scan_cases[of ?free] by blast
    then show ?thesis
    proof cases
      case (1 msk)
      have "k_add_handle h cond s = Inr (added_handle h msk l s1)"
        using Some s1 un 1 by (simp add: k_add_handle_def alloc_mask_def upd_thread_def upd_handle_def
            upd_list_def added_handle_def)
      moreover have "kernel_wf (added_handle h msk l s1)"
        using added_handle_wf[OF s1(2), of h l msk] s1 Some h run 1 by auto
      ultimately show ?thesis using Some s1 1 by auto
    next
      case 2
      have "MaskUsed (threads s (running s)) = NOT ?free" by simp
      then have "MaskUsed (threads s (running s)) = - 1" using 2(1) by simp
      then show ?thesis
        using Some s1 un 2 by (simp add: k_add_handle_def alloc_mask_def)
    qed
  qed
qed

definition disposed_handle :: "hid \<Rightarrow> tid \<Rightarrow> kernel \<Rightarrow> kernel" where
  "disposed_handle h t s =
     s\<lparr>wlists := (\<lambda>l. filter (\<lambda>x. x \<noteq> h) (wlists s l)),
       handles := (handles s)(h := \<lparr>HState = WAIT_HANDLE_DETACHED, Owner = None, Mask = 0\<rparr>),
       threads := (threads s)(t := (threads s t)\<lparr>MaskUsed := MaskUsed (threads s t) XOR Mask (handles s h)\<rparr>)\<rparr>"

lemma disposed_handle_wf:
  assumes wf: "kernel_wf s" and h: "HState (handles s h) \<noteq> WAIT_HANDLE_DETACHED" and t: "Owner (handles s h) = Some t"
  shows "kernel_wf (disposed_handle h t s)"
proof -
  let ?s = "disposed_handle h t s"
  note d = disposed_handle_def
  have parts: "threads_ok s" "lists_ok s" "handles_ok s" "wake_ok s" "join_ok s"
    using wf by (simp_all add: kernel_wf_def kernel_core_def)
  have "pri ?s = pri s" by (auto simp: d pri_fun fun_eq_iff)
  then have "threads_ok ?s" using parts(1) by (auto simp: d threads_ok_def)
  moreover have "lists_ok ?s" using parts(2) unfolding lists_ok_def by (auto simp: d)
  moreover have "join_ok ?s" using parts(5) by (auto simp: d join_ok_def)
  moreover have "wake_ok ?s" using parts(4) by (auto simp: d wake_ok_def)
  moreover have "handle_ok ?s k" if "HState (handles ?s k) \<noteq> WAIT_HANDLE_DETACHED" for k
  proof -
    have k: "k \<noteq> h" "HState (handles s k) \<noteq> WAIT_HANDLE_DETACHED" using that by (auto simp: d split: if_splits)
    then obtain u where u: "Owner (handles s k) = Some u" "State (threads s u) \<noteq> EXOS_THREAD_DETACHED"
      "Mask (handles s k) \<noteq> 0" "sub_mask (Mask (handles s k)) (MaskUsed (threads s u))"
      using parts(3) by (auto simp: handles_ok_def handle_ok_def)
    have "u = t \<Longrightarrow> disjoint_mask (Mask (handles s k)) (Mask (handles s h))"
      using parts(3) k u(1) h t by (auto simp: handles_ok_def)
    then show ?thesis
      using u k by (auto simp: handle_ok_def d sub_mask_xor)
  qed
  moreover have "disjoint_mask (Mask (handles ?s k)) (Mask (handles ?s k'))"
    if "k \<noteq> k'" "HState (handles ?s k) \<noteq> WAIT_HANDLE_DETACHED" "HState (handles ?s k') \<noteq> WAIT_HANDLE_DETACHED"
      "Owner (handles ?s k) = Owner (handles ?s k')" for k k'
    using that parts(3) by (auto simp: d handles_ok_def split: if_splits)
  ultimately show ?thesis by (auto simp: kernel_wf_def kernel_core_def handles_ok_def)
qed

lemma dispose_handle_wf:
  assumes wf: "kernel_wf s" and h: "HState (handles s h) \<noteq> WAIT_HANDLE_DETACHED"
  shows "\<exists>t. Owner (handles s h) = Some t \<and> k_dispose_handle h s = Inr (disposed_handle h t s) \<and>
    kernel_wf (disposed_handle h t s)"
proof -
  obtain t where t: "Owner (handles s h) = Some t" "Mask (handles s h) \<noteq> 0"
    "sub_mask (Mask (handles s h)) (MaskUsed (threads s t))"
    using assms by (auto simp: kernel_wf_def kernel_core_def handles_ok_def handle_ok_def)
  have "MaskUsed (threads s t) AND Mask (handles s h) \<noteq> 0"
    using sub_mask_nonzero t by blast
  then have "k_dispose_handle h s = Inr (disposed_handle h t s)"
    using h t by (simp add: k_dispose_handle_def rem_handle_def kupd_defs disposed_handle_def Let_def)
  then show ?thesis using disposed_handle_wf[OF wf h t(1)] t(1) by simp
qed

lemma exos_dispose_wf:
  assumes "kernel_wf s"
  shows "\<exists>s'. exos_thread_dispose_wait_handle h s = Inr s' \<and> kernel_wf s' \<and>
    HState (handles s' h) = WAIT_HANDLE_DETACHED \<and> running s' = running s \<and>
    (\<forall>t. State (threads s' t) = State (threads s t)) \<and> mutexes s' = mutexes s \<and> events s' = events s"
proof (cases "HState (handles s h) = WAIT_HANDLE_DETACHED")
  case True
  then show ?thesis using assms by (simp add: exos_thread_dispose_wait_handle_def)
next
  case False
  then show ?thesis
    using dispose_handle_wf[OF assms False]
    by (auto simp: exos_thread_dispose_wait_handle_def disposed_handle_def)
qed

section \<open>Starting and ending threads\<close>

lemma no_handles_of_detached:
  assumes "kernel_wf s" and "State (threads s t) = EXOS_THREAD_DETACHED"
  shows "wlists s (Pending t) = []" "wlists s (Joining t) = []"
proof -
  have lo: "lists_ok s" and ho: "handles_ok s" using assms(1) by (simp_all add: kernel_wf_def kernel_core_def)
  have "h \<notin> set (wlists s (Pending t))" for h
  proof
    assume "h \<in> set (wlists s (Pending t))"
    then have "HState (handles s h) = WAIT_HANDLE_DONE" "Owner (handles s h) = Some t"
      using lo by (auto simp: lists_ok_def)
    moreover from this(1) have "handle_ok s h" using ho by (simp add: handles_ok_def)
    ultimately show False using assms(2) by (simp add: handle_ok_def)
  qed
  then show "wlists s (Pending t) = []" by (cases "wlists s (Pending t)") auto
  show "wlists s (Joining t) = []" using assms by (auto simp: kernel_wf_def join_ok_def)
qed

lemma k_add_thread_wf:
  assumes wf: "kernel_wf s" and t: "State (threads s t) = EXOS_THREAD_DETACHED"
  shows "\<exists>s'. k_add_thread t s = Inr s' \<and> kernel_wf s' \<and> ready s' = prio_insert (pri s) t (ready s) \<and>
    handles s' = handles s \<and> wlists s' = wlists s \<and> mutexes s' = mutexes s \<and> events s' = events s"
proof -
  let ?s = "s\<lparr>ready := prio_insert (pri s) t (ready s),
              threads := (threads s)(t := (threads s t)\<lparr>State := EXOS_THREAD_READY\<rparr>), switch_req := True\<rparr>"
  have parts: "threads_ok s" "lists_ok s" "handles_ok s" "wake_ok s" "join_ok s"
    using wf by (simp_all add: kernel_wf_def kernel_core_def)
  have lists: "(wlists s)(Pending t := [], Joining t := []) = wlists s"
    using no_handles_of_detached[OF wf t] by (auto simp: fun_eq_iff)
  have "k_add_thread t s = Inr ?s"
    using t lists by (simp add: k_add_thread_def kupd_defs Let_def)
  moreover have "pri ?s = pri s" by (auto simp: pri_fun fun_eq_iff)
  then have "threads_ok ?s"
    using parts(1) t unfolding threads_ok_def by (auto intro!: prio_sorted_insert)
  moreover have "lists_ok ?s" "join_ok ?s" "wake_ok ?s"
    using parts(2,4,5) by (auto simp: lists_ok_def join_ok_def wake_ok_def)
  moreover have "handle_ok ?s k" if "handle_ok s k" for k
    using that by (auto simp: handle_ok_def)
  then have "handles_ok ?s" using parts(3) unfolding handles_ok_def by simp
  ultimately show ?thesis by (auto simp: kernel_wf_def kernel_core_def)
qed

lemma replace_detached_wf:
  assumes wf: "kernel_wf s" and t: "State (threads s t) = EXOS_THREAD_DETACHED" and x: "State x = EXOS_THREAD_DETACHED"
  shows "kernel_wf (upd_thread t (\<lambda>_. x) s)"
proof -
  let ?s = "upd_thread t (\<lambda>_. x) s"
  have parts: "threads_ok s" "lists_ok s" "handles_ok s" "wake_ok s" "join_ok s"
    using wf by (simp_all add: kernel_wf_def kernel_core_def)
  have out: "t \<notin> set (ready s)" "t \<notin> set (waiting s)" using parts(1) t by (auto simp: threads_ok_def)
  have "prio_sorted (pri ?s) xs = prio_sorted (pri s) xs" if "t \<notin> set xs" for xs
    using that
  proof (induction xs)
    case (Cons y ys)
    have "pri ?s z = pri s z" if "z \<in> set (y # ys)" for z
      using that Cons.prems by (auto simp: pri_def upd_thread_def)
    then show ?case using Cons by (simp add: prio_sorted_Cons)
  qed (simp add: prio_sorted_def)
  then have "threads_ok ?s"
    using parts(1) out t x unfolding threads_ok_def by (auto simp: upd_thread_def)
  moreover have "lists_ok ?s" "wake_ok ?s" "join_ok ?s"
    using parts(2,4,5) t x by (auto simp: upd_thread_def lists_ok_def wake_ok_def join_ok_def)
  moreover have "handle_ok ?s k" if "handle_ok s k" for k
    using that t by (auto simp: handle_ok_def upd_thread_def)
  then have "handles_ok ?s" using parts(3) unfolding handles_ok_def by (simp add: upd_thread_def)
  ultimately show ?thesis by (auto simp: kernel_wf_def kernel_core_def)
qed

lemma rem_thread_core:
  assumes wf: "kernel_wf s" and t: "State (threads s t) = EXOS_THREAD_READY" and quiet: "\<And>h. HState (handles s h) \<noteq> WAIT_HANDLE_DETACHED \<Longrightarrow> Owner (handles s h) \<noteq> Some t"
  shows "kernel_core (upd_thread t (\<lambda>x. x\<lparr>State := EXOS_THREAD_DETACHED\<rparr>) (unlink_thread t s))"
proof -
  let ?s = "upd_thread t (\<lambda>x. x\<lparr>State := EXOS_THREAD_DETACHED\<rparr>) (unlink_thread t s)"
  have parts: "threads_ok s" "lists_ok s" "handles_ok s" "wake_ok s"
    using wf by (simp_all add: kernel_wf_def kernel_core_def)
  have rd: "t \<in> set (ready s)" "t \<notin> set (waiting s)" using parts(1) t by (auto simp: threads_ok_def)
  have "pri ?s = pri s" by (auto simp: kupd_defs pri_fun fun_eq_iff)
  then have "threads_ok ?s"
    using parts(1) rd unfolding threads_ok_def by (auto simp: kupd_defs intro!: prio_sorted_filter)
  moreover have "lists_ok ?s" "wake_ok ?s"
    using parts(2,4) by (auto simp: kupd_defs lists_ok_def wake_ok_def)
  moreover have "handle_ok ?s k" if "handle_ok s k" "Owner (handles s k) \<noteq> Some t" for k
    using that by (auto simp: handle_ok_def kupd_defs)
  then have "handles_ok ?s"
    using parts(3) quiet unfolding handles_ok_def by (simp add: kupd_defs)
  ultimately show ?thesis by (simp add: kernel_core_def)
qed

lemma k_rem_thread_wf:
  assumes wf: "kernel_wf s" and t: "State (threads s t) = EXOS_THREAD_READY"
    and quiet: "\<And>h. HState (handles s h) \<noteq> WAIT_HANDLE_DETACHED \<Longrightarrow> Owner (handles s h) \<noteq> Some t"
  shows "\<exists>s'. k_rem_thread t s = Inr s' \<and> kernel_wf s' \<and> State (threads s' t) = EXOS_THREAD_DETACHED \<and>
    Result (threads s' t) = Result (threads s t) \<and>
    (\<forall>h\<in>set (wlists s (Joining t)). HState (handles s' h) = WAIT_HANDLE_DONE) \<and>
    mutexes s' = mutexes s \<and> events s' = events s \<and>
    (\<forall>l. l \<noteq> Joining t \<longrightarrow> (\<nexists>u. l = Pending u) \<longrightarrow> wlists s' l = wlists s l)"
proof -
  let ?s = "upd_thread t (\<lambda>x. x\<lparr>State := EXOS_THREAD_DETACHED\<rparr>) (unlink_thread t s)"
  have j: "join_ok s" and rd: "t \<in> set (ready s)"
    using wf t by (auto simp: kernel_wf_def kernel_core_def threads_ok_def)
  note core = rem_thread_core[OF wf t quiet]
  have ws: "wlists ?s = wlists s" "handles ?s = handles s" by (simp_all add: kupd_defs)
  obtain s1 n where s1: "exos_thread_resume_all (Joining t) ?s = Inr (n, s1)" "kernel_core s1"
    "wlists s1 (Joining t) = []" "\<forall>l'. l' \<noteq> Joining t \<longrightarrow> (\<nexists>u. l' = Pending u) \<longrightarrow> wlists s1 l' = wlists s l'"
    "handles s1 = done_handles (set (wlists s (Joining t))) ?s" "same_threads ?s s1"
    "mutexes s1 = mutexes s" "events s1 = events s"
    using resume_all_wf[OF core, of "Joining t"] ws by (auto simp: kupd_defs)
  have st: "State (threads s1 u) = EXOS_THREAD_DETACHED \<longleftrightarrow> u = t \<or> State (threads s u) = EXOS_THREAD_DETACHED" for u
    using s1(6) by (auto simp: same_threads_def kupd_defs)
  have res: "Result (threads s1 t) = Result (threads s t)"
  proof -
    have "Result ((threads s1 t)\<lparr>State := State (threads ?s t)\<rparr>) = Result (threads ?s t)"
      using s1(6) by (simp add: same_threads_def)
    then show ?thesis by (simp add: kupd_defs)
  qed
  have "join_ok s1"
    unfolding join_ok_def st using s1(3,4) j by (auto simp: join_ok_def)
  then have "kernel_wf s1" using s1(2) by (simp add: kernel_wf_def)
  moreover have "kernel_wf (req_switch x) = kernel_wf x" for x
    by (simp add: req_switch_def kernel_wf_def kernel_core_def threads_ok_def lists_ok_def handles_ok_def handle_ok_def
        wake_ok_def join_ok_def pri_fun)
  moreover have "k_rem_thread t s = Inr (req_switch s1)"
    using t rd s1(1) by (simp add: k_rem_thread_def Let_def)
  ultimately show ?thesis
    using st[of t] res s1(4,5,7,8) by (auto simp: done_handles_def req_switch_def)
qed

section \<open>A sample state\<close>

text \<open>
  Thread 1 runs and owns mutex 0; thread 2 waits, with handle 7, for the event of timer 4.  Two
  one-shot timers are running.
\<close>

definition sample_thread :: "int \<Rightarrow> exos_thread_state \<Rightarrow> u32 \<Rightarrow> exos_thread_t" where
  "sample_thread p st m = \<lparr>Pri = p, State = st, SP = 0, StackStart = 0, StackSize = 0, TP = 0,
     MaskUsed = m, MaskWait = m, Result = 0\<rparr>"

definition sample_kernel :: kernel where
  "sample_kernel =
     \<lparr>threads = (\<lambda>t. if t = 1 then sample_thread 0 EXOS_THREAD_READY 0
                    else if t = 2 then sample_thread 5 EXOS_THREAD_WAIT 1
                    else if t = 3 then sample_thread (- 128) EXOS_THREAD_READY 0
                    else sample_thread 0 EXOS_THREAD_DETACHED 0),
      handles = (\<lambda>h. if h = 7 then \<lparr>HState = WAIT_HANDLE_WAITING, Owner = Some 2, Mask = 1\<rparr>
                    else \<lparr>HState = WAIT_HANDLE_DETACHED, Owner = None, Mask = 0\<rparr>),
      events = (\<lambda>_. \<lparr>EvState = False, AutoReset = False\<rparr>),
      mutexes = (\<lambda>m. if m = 0 then \<lparr>MOwner = Some 1, Count = 1\<rparr> else \<lparr>MOwner = None, Count = 0\<rparr>),
      ready = [1, 3], waiting = [2],
      wlists = (\<lambda>l. if l = EventHandles (TimerEvent 4) then [7] else []),
      running = 1,
      timers = (\<lambda>t. \<lparr>TState = EXOS_TIMER_RUNNING, Period = 0, Time = if t = 4 then 3 else 9\<rparr>),
      timer_list = [4, 5], ticks = 100, switch_req = False\<rparr>"

lemma sample_kernel_wf: "kernel_wf sample_kernel"
proof -
  have "threads_ok sample_kernel"
    by (auto simp: threads_ok_def sample_kernel_def sample_thread_def prio_sorted_def pri_def split: if_splits)
  moreover have "lists_ok sample_kernel" by (auto simp: lists_ok_def sample_kernel_def)
  moreover have "handle_ok sample_kernel 7"
    by (simp add: handle_ok_def sample_kernel_def sample_thread_def sub_mask_def)
  moreover have "HState (handles sample_kernel h) = WAIT_HANDLE_DETACHED" if "h \<noteq> 7" for h
    using that by (simp add: sample_kernel_def)
  ultimately have "handles_ok sample_kernel" by (metis handles_ok_def)
  moreover have "wake_ok sample_kernel" "join_ok sample_kernel"
    by (auto simp: wake_ok_def join_ok_def sample_kernel_def sample_thread_def)
  ultimately show ?thesis
    using \<open>threads_ok sample_kernel\<close> \<open>lists_ok sample_kernel\<close> by (simp add: kernel_wf_def kernel_core_def)
qed

section \<open>Scheduling\<close>

text \<open>C4: the scheduler picks a ready thread of the highest priority among the ready ones, and it halts only
  when no thread is ready.
\<close>

theorem schedule_highest:
  assumes "kernel_wf s"
  shows "case kernel_schedule s of
      Inr t \<Rightarrow> State (threads s t) = EXOS_THREAD_READY \<and>
        (\<forall>u. State (threads s u) = EXOS_THREAD_READY \<longrightarrow> Pri (threads s u) \<le> Pri (threads s t))
    | Inl f \<Rightarrow> f = Halt \<and> (\<forall>u. State (threads s u) \<noteq> EXOS_THREAD_READY)"
proof -
  have rd: "\<And>u. State (threads s u) = EXOS_THREAD_READY \<longleftrightarrow> u \<in> set (ready s)" and so: "prio_sorted (pri s) (ready s)"
    using assms by (auto simp: kernel_wf_def kernel_core_def threads_ok_def)
  show ?thesis
    using so by (cases "ready s") (auto simp: kernel_schedule_def rd prio_sorted_Cons pri_def)
qed

theorem schedule_highest_witness:
  "kernel_schedule sample_kernel = Inr 1 \<and> State (threads sample_kernel 1) = EXOS_THREAD_READY \<and>
   Pri (threads sample_kernel 3) \<le> Pri (threads sample_kernel 1)"
proof -
  have "kernel_schedule sample_kernel = Inr 1" "State (threads sample_kernel 3) = EXOS_THREAD_READY"
    by (simp_all add: kernel_schedule_def sample_kernel_def sample_thread_def)
  then show ?thesis using schedule_highest[OF sample_kernel_wf] by simp
qed

text \<open>Resuming a list of wait handles never panics, whatever the list: it completes exactly the
  handles of the list, returns their number, empties the list and leaves the other wait lists alone.
\<close>

theorem resume_all_completes:
  assumes "kernel_wf s" and "\<nexists>u. l = Pending u"
  shows "\<exists>s'. exos_thread_resume_all l s = Inr (of_nat (length (wlists s l)), s') \<and> kernel_wf s' \<and> wlists s' l = [] \<and>
    (\<forall>l'. l' \<noteq> l \<longrightarrow> (\<nexists>u. l' = Pending u) \<longrightarrow> wlists s' l' = wlists s l') \<and>
    (\<forall>h. handles s' h = (if h \<in> set (wlists s l) then (handles s h)\<lparr>HState := WAIT_HANDLE_DONE\<rparr> else handles s h)) \<and>
    set (ready s) \<subseteq> set (ready s')"
proof -
  have core: "kernel_core s" using assms(1) by (simp add: kernel_wf_def)
  from resume_all_wf[OF core assms(2)] resume_all_kernel_wf[OF assms] show ?thesis
    by (auto simp: done_handles_def)
qed

theorem resume_all_completes_witness:
  "\<exists>s'. exos_thread_resume_all (EventHandles (TimerEvent 4)) sample_kernel = Inr (1, s') \<and>
     wlists s' (EventHandles (TimerEvent 4)) = [] \<and> HState (handles s' 7) = WAIT_HANDLE_DONE"
  using resume_all_completes[OF sample_kernel_wf, of "EventHandles (TimerEvent 4)"]
  by (auto simp: sample_kernel_def)

text \<open>A wait handle takes one unused bit of its thread's mask, and disposing of the handle gives exactly
  that bit back.
\<close>

theorem handle_mask_roundtrip:
  assumes "kernel_wf s" and "HState (handles s h) = WAIT_HANDLE_DETACHED"
    and "State (threads s (running s)) = EXOS_THREAD_READY" and "State (threads s t) = EXOS_THREAD_WAIT"
    and "MaskUsed (threads s (running s)) \<noteq> - 1"
  shows "\<exists>s1 s2. k_add_handle h (join_cond t) s = Inr s1 \<and> kernel_wf s1 \<and> h \<in> set (wlists s1 (Joining t)) \<and>
    Mask (handles s1 h) \<noteq> 0 \<and> MaskUsed (threads s (running s)) AND Mask (handles s1 h) = 0 \<and>
    MaskUsed (threads s1 (running s)) = (MaskUsed (threads s (running s)) OR Mask (handles s1 h)) \<and>
    exos_thread_dispose_wait_handle h s1 = Inr s2 \<and> kernel_wf s2 \<and>
    MaskUsed (threads s2 (running s)) = MaskUsed (threads s (running s)) \<and> wlists s2 (Joining t) = wlists s (Joining t)"
proof -
  have jc: "join_cond t s = Inr (Some (Joining t), s)" using assms(4) by (simp add: join_cond_def)
  have "cond_ok (join_cond t) s" using assms(1,4) jc by (simp add: cond_ok_def)
  then obtain msk where msk: "k_add_handle h (join_cond t) s = Inr (added_handle h msk (Joining t) s)" "msk \<noteq> 0"
    "sub_mask msk (NOT (MaskUsed (threads s (running s))))" "kernel_wf (added_handle h msk (Joining t) s)"
    using k_add_handle_wf[of "join_cond t" s h] assms(2,3,5) jc by auto
  let ?s1 = "added_handle h msk (Joining t) s"
  have h1: "handles ?s1 h = \<lparr>HState = WAIT_HANDLE_WAITING, Owner = Some (running s), Mask = msk\<rparr>" by (simp add: added_handle_def)
  have d: "disjoint_mask (MaskUsed (threads s (running s))) msk"
    using msk(3) by (auto simp: sub_mask_bits disjoint_mask_bits bit_simps)
  have s2: "exos_thread_dispose_wait_handle h ?s1 = Inr (disposed_handle h (running s) ?s1)"
    "kernel_wf (disposed_handle h (running s) ?s1)"
    using dispose_handle_wf[OF msk(4), of h] h1 by (auto simp: exos_thread_dispose_wait_handle_def)
  have "h \<notin> set (wlists s (Joining t))" using assms(1,2) by (auto simp: kernel_wf_def kernel_core_def lists_ok_def)
  then have "MaskUsed (threads (disposed_handle h (running s) ?s1) (running s)) = MaskUsed (threads s (running s))"
    "wlists (disposed_handle h (running s) ?s1) (Joining t) = wlists s (Joining t)"
    using xor_mask_cancel[OF d] by (simp_all add: disposed_handle_def added_handle_def)
  then show ?thesis
    using msk s2 d by (intro exI[of _ ?s1] exI[of _ "disposed_handle h (running s) ?s1"])
      (simp add: disjoint_mask_def added_handle_def)
qed

theorem handle_mask_roundtrip_witness:
  "\<exists>s1 s2. k_add_handle 8 (join_cond 2) sample_kernel = Inr s1 \<and> 8 \<in> set (wlists s1 (Joining 2)) \<and>
     exos_thread_dispose_wait_handle 8 s1 = Inr s2 \<and> MaskUsed (threads s2 1) = 0"
  using handle_mask_roundtrip[OF sample_kernel_wf, of 8 2]
  by (auto simp: sample_kernel_def sample_thread_def)

end
