(* ===== verification/Waits.thy ===== *)
theory Waits
  imports Threads_Inv
begin

text \<open>
  The contract between the scheduler and the objects a thread can wait for.  An object is a wait
  condition: evaluated in the kernel section of \<^verbatim>\<open>___add_handle\<close>, it either grants
  the wait at once or names the list to queue the handle in.  The locale states what a condition
  has to promise and derives, once, what the blocking calls of \<^verbatim>\<open>thread.c\<close>,
  \<^verbatim>\<open>event.c\<close> and \<^verbatim>\<open>mutex.c\<close> rely on.
\<close>

unbundle bit_operations_syntax

text \<open>A freshly queued handle cannot be satisfied by an older one, so its thread does block.\<close>

definition blocked_on :: "hid \<Rightarrow> u32 \<Rightarrow> wait_list \<Rightarrow> kernel \<Rightarrow> bool" where
  "blocked_on h msk l s \<longleftrightarrow>
     h \<in> set (wlists s l) \<and> handles s h = \<lparr>HState = WAIT_HANDLE_WAITING, Owner = Some (running s), Mask = msk\<rparr> \<and>
     State (threads s (running s)) = EXOS_THREAD_WAIT \<and> MaskWait (threads s (running s)) = msk \<and>
     running s \<in> set (waiting s) \<and> running s \<notin> set (ready s) \<and> switch_req s"

lemma wait_for_added:
  assumes wf: "kernel_wf (added_handle h msk l s)" and m: "msk \<noteq> 0"
    and rd: "State (threads s (running s)) = EXOS_THREAD_READY"
  shows "\<exists>s2. exos_thread_wait msk (added_handle h msk l s) = Inr s2 \<and> kernel_wf s2 \<and>
    blocked_on h msk l s2 \<and> running s2 = running s \<and> events s2 = events s \<and> mutexes s2 = mutexes s \<and>
    wlists s2 = (wlists s)(l := wlists s l @ [h])"
proof -
  let ?a = "added_handle h msk l s" and ?r = "running s"
  have rd': "State (threads ?a (running ?a)) = EXOS_THREAD_READY" using rd by (simp add: added_handle_def)
  have lo: "lists_ok ?a" and ho: "handles_ok ?a" and th: "threads_ok ?a"
    using wf by (simp_all add: kernel_wf_def kernel_core_def)
  have "Mask (handles ?a k) AND msk = 0" if "k \<in> set (wlists ?a (Pending ?r))" for k
  proof -
    have k: "HState (handles ?a k) = WAIT_HANDLE_DONE" "Owner (handles ?a k) = Some ?r"
      using that lo by (auto simp: lists_ok_def)
    have hh: "HState (handles ?a h) = WAIT_HANDLE_WAITING" "Owner (handles ?a h) = Some ?r"
      by (simp_all add: added_handle_def)
    have "k \<noteq> h" using k hh by auto
    then have "disjoint_mask (Mask (handles ?a k)) (Mask (handles ?a h))"
      using ho k hh unfolding handles_ok_def by simp
    then show ?thesis by (simp add: disjoint_mask_def added_handle_def)
  qed
  then have none: "find (\<lambda>k. Mask (handles ?a k) AND msk \<noteq> 0) (wlists ?a (Pending (running ?a))) = None"
    by (auto simp: find_None_iff added_handle_def)
  obtain s2 where s2: "k_wait msk ?a = Inr s2" "kernel_wf s2" "wlists s2 = wlists ?a" "handles s2 = handles ?a"
    "running s2 = running ?a" "events s2 = events ?a" "mutexes s2 = mutexes ?a"
    using k_wait_wf[OF wf rd' m] by auto
  have st: "State (threads s2 ?r) = EXOS_THREAD_WAIT" "MaskWait (threads s2 ?r) = msk" "switch_req s2"
    using s2(1) none rd' m by (auto simp: k_wait_def Let_def kupd_defs added_handle_def)
  then have "?r \<in> set (waiting s2)" "?r \<notin> set (ready s2)"
    using s2(2) by (auto simp: kernel_wf_def kernel_core_def threads_ok_def)
  then show ?thesis using s2 st by (auto simp: exos_thread_wait_def blocked_on_def added_handle_def)
qed

locale wait_source =
  fixes cond :: wait_cond and usable :: "kernel \<Rightarrow> bool"
  assumes cond_law: "kernel_wf s \<Longrightarrow> usable s \<Longrightarrow> cond_ok cond s"
begin

lemma add_handle_cases:
  assumes "kernel_wf s" "usable s" "handles s h = \<lparr>HState = WAIT_HANDLE_DETACHED, Owner = None, Mask = 0\<rparr>"
    "State (threads s (running s)) = EXOS_THREAD_READY"
  shows "(\<exists>s1. cond s = Inr (None, s1) \<and> exos_thread_add_wait_handle h cond s = Inr (0, s1) \<and> kernel_wf s1) \<or>
    (\<exists>l s1 msk. cond s = Inr (Some l, s1) \<and> exos_thread_add_wait_handle h cond s = Inr (msk, added_handle h msk l s1) \<and>
       msk \<noteq> 0 \<and> sub_mask msk (NOT (MaskUsed (threads s (running s)))) \<and> kernel_wf (added_handle h msk l s1)) \<or>
    (MaskUsed (threads s (running s)) = - 1 \<and> exos_thread_add_wait_handle h cond s = Inl Halt)"
  using k_add_handle_wf[OF cond_law[OF assms(1,2)], of h] assms(3,4)
  by (auto simp: exos_thread_add_wait_handle_def added_handle_def)

lemma add_and_wait_cases:
  assumes "kernel_wf s" "usable s" "handles s h = \<lparr>HState = WAIT_HANDLE_DETACHED, Owner = None, Mask = 0\<rparr>"
    "State (threads s (running s)) = EXOS_THREAD_READY"
  shows "(\<exists>s1. cond s = Inr (None, s1) \<and> add_and_wait h cond s = Inr (0, s1) \<and> kernel_wf s1) \<or>
    (\<exists>l s1 msk s2. cond s = Inr (Some l, s1) \<and> add_and_wait h cond s = Inr (msk, s2) \<and> kernel_wf s2 \<and>
       blocked_on h msk l s2 \<and> running s2 = running s \<and> events s2 = events s1 \<and> mutexes s2 = mutexes s1 \<and>
       wlists s2 = (wlists s1)(l := wlists s1 l @ [h])) \<or>
    (MaskUsed (threads s (running s)) = - 1 \<and> add_and_wait h cond s = Inl Halt)"
proof -
  have same: "running s1 = running s \<and> threads s1 = threads s" if "cond s = Inr (lo, s1)" for lo s1
    using cond_law[OF assms(1,2)] that by (auto simp: cond_ok_def)
  from add_handle_cases[OF assms] show ?thesis
  proof (elim disjE exE conjE)
    fix l s1 msk
    assume a: "cond s = Inr (Some l, s1)"
      "exos_thread_add_wait_handle h cond s = Inr (msk, added_handle h msk l s1)"
      "msk \<noteq> 0" "kernel_wf (added_handle h msk l s1)"
    have "State (threads s1 (running s1)) = EXOS_THREAD_READY" using same[OF a(1)] assms(4) by simp
    from wait_for_added[OF a(4,3) this] show ?thesis
      using a same[OF a(1)] by (auto simp: add_and_wait_def)
  qed (auto simp: add_and_wait_def)
qed

end

section \<open>Joining a thread\<close>

interpretation join: wait_source "join_cond t" "\<lambda>_. True"
  by unfold_locales (auto simp: cond_ok_def join_cond_def)

lemma create_wait_handle_fresh [simp]:
  "handles (exos_thread_create_wait_handle h s) h = \<lparr>HState = WAIT_HANDLE_DETACHED, Owner = None, Mask = 0\<rparr>"
  "threads (exos_thread_create_wait_handle h s) = threads s"
  "running (exos_thread_create_wait_handle h s) = running s"
  "events (exos_thread_create_wait_handle h s) = events s"
  "mutexes (exos_thread_create_wait_handle h s) = mutexes s"
  "wlists (exos_thread_create_wait_handle h s) = wlists s"
  by (simp_all add: exos_thread_create_wait_handle_def upd_handle_def)

end
