(* ===== verification/Events.thy ===== *)
theory Events
  imports Waits
begin

text \<open>
  Events (\<^verbatim>\<open>exos/kernel/event.c\<close>).  An event is set, reset and waited for; an
  auto-reset event is consumed by the first waiter.  The wait with a time-out is in the
  theory Timers.
\<close>

section \<open>Operations\<close>

definition upd_event :: "eid \<Rightarrow> (event_t \<Rightarrow> event_t) \<Rightarrow> kernel \<Rightarrow> kernel" where
  "upd_event e f s = s\<lparr>events := (events s)(e := f (events s e))\<rparr>"

definition exos_event_create :: "eid \<Rightarrow> bool \<Rightarrow> kernel \<Rightarrow> kernel" where
  "exos_event_create e autoreset s =
     upd_event e (\<lambda>_. \<lparr>EvState = False, AutoReset = autoreset\<rparr>) (upd_list (EventHandles e) (\<lambda>_. []) s)"

definition event_cond :: "eid \<Rightarrow> wait_cond" where
  "event_cond e s =
     (if EvState (events s e)
      then Inr (None, if AutoReset (events s e) then upd_event e (\<lambda>x. x\<lparr>EvState := False\<rparr>) s else s)
      else Inr (Some (EventHandles e), s))"

definition exos_event_add_handle :: "eid \<Rightarrow> hid \<Rightarrow> kernel \<Rightarrow> (u32 \<times> kernel) res" where
  "exos_event_add_handle e h s = exos_thread_add_wait_handle h (event_cond e) s"

definition k_event_set :: "eid \<Rightarrow> kernel \<Rightarrow> kernel res" where
  "k_event_set e s =
     rbind (exos_thread_resume_all (EventHandles e) s)
       (\<lambda>(count, s1). Inr (upd_event e (\<lambda>x. x\<lparr>EvState := (count = 0)\<rparr>) s1))"

definition exos_event_set :: "eid \<Rightarrow> kernel \<Rightarrow> kernel res" where
  "exos_event_set e s =
     (if AutoReset (events s e) then k_event_set e s
      else rbind (exos_thread_resume_all (EventHandles e) (upd_event e (\<lambda>x. x\<lparr>EvState := True\<rparr>) s))
             (\<lambda>(_, s1). Inr s1))"

definition exos_event_reset :: "eid \<Rightarrow> kernel \<Rightarrow> kernel res" where
  "exos_event_reset e s =
     rbind (exos_thread_resume_all (EventHandles e) (upd_event e (\<lambda>x. x\<lparr>EvState := False\<rparr>) s))
       (\<lambda>(_, s1). Inr s1)"

section \<open>The scheduler invariant\<close>

lemma upd_event_sel [simp]:
  "threads (upd_event e f s) = threads s" "handles (upd_event e f s) = handles s"
  "mutexes (upd_event e f s) = mutexes s" "ready (upd_event e f s) = ready s"
  "waiting (upd_event e f s) = waiting s" "wlists (upd_event e f s) = wlists s"
  "running (upd_event e f s) = running s" "events (upd_event e f s) e = f (events s e)"
  "e' \<noteq> e \<Longrightarrow> events (upd_event e f s) e' = events s e'"
  "timers (upd_event e f s) = timers s" "timer_list (upd_event e f s) = timer_list s"
  "ticks (upd_event e f s) = ticks s"
  by (simp_all add: upd_event_def)

lemma kernel_wf_cong:
  assumes "threads s' = threads s" "handles s' = handles s" "ready s' = ready s" "waiting s' = waiting s"
    "wlists s' = wlists s"
  shows "kernel_wf s' = kernel_wf s" "kernel_core s' = kernel_core s"
proof -
  have "pri s' = pri s" using assms(1) by (auto simp: pri_fun)
  then show "kernel_wf s' = kernel_wf s" "kernel_core s' = kernel_core s"
    using assms by (simp_all add: kernel_wf_def kernel_core_def threads_ok_def lists_ok_def handles_ok_def
        handle_ok_def wake_ok_def join_ok_def)
qed

lemma upd_event_wf [simp]: "kernel_wf (upd_event e f s) = kernel_wf s" "kernel_core (upd_event e f s) = kernel_core s"
  by (rule kernel_wf_cong; simp)+

lemma event_cond_ok: "kernel_wf s \<Longrightarrow> cond_ok (event_cond e) s"
proof -
  assume "kernel_wf s"
  moreover obtain l s1 where "event_cond e s = Inr (l, s1)" "l = None \<or> l = Some (EventHandles e)"
    "s1 = s \<or> s1 = upd_event e (\<lambda>x. x\<lparr>EvState := False\<rparr>) s"
    by (cases "EvState (events s e)") (auto simp: event_cond_def)
  ultimately show ?thesis unfolding cond_ok_def by (intro exI[of _ l] exI[of _ s1]) auto
qed

interpretation event: wait_source "event_cond e" "\<lambda>_. True"
  by unfold_locales (rule event_cond_ok)

text \<open>No event with auto-reset is both set and waited for.\<close>

definition events_ok :: "kernel \<Rightarrow> bool" where
  "events_ok s \<longleftrightarrow> (\<forall>e. AutoReset (events s e) \<longrightarrow> EvState (events s e) \<longrightarrow> wlists s (EventHandles e) = [])"

lemma event_create_wf:
  assumes "kernel_wf s" and "wlists s (EventHandles e) = []"
  shows "kernel_wf (exos_event_create e a s)"
proof -
  have "(wlists s)(EventHandles e := []) = wlists s" using assms(2) by (auto simp: fun_eq_iff)
  then show ?thesis using assms(1) by (simp add: exos_event_create_def upd_list_def)
qed

section \<open>Waking the waiters\<close>

text \<open>
  What resuming a whole list does for its waiters: every handle completes, and a thread that
  waits for one of them becomes ready.
\<close>

definition woken :: "wait_list \<Rightarrow> kernel \<Rightarrow> kernel \<Rightarrow> bool" where
  "woken l s s' \<longleftrightarrow>
     wlists s' l = [] \<and>
     (\<forall>h\<in>set (wlists s l). HState (handles s' h) = WAIT_HANDLE_DONE \<and>
        (\<forall>t. Owner (handles s h) = Some t \<longrightarrow> MaskWait (threads s t) AND Mask (handles s h) \<noteq> 0 \<longrightarrow>
           t \<in> set (ready s')))"

lemma pending_thread_ready:
  assumes "kernel_core s" "HState (handles s h) = WAIT_HANDLE_DONE" "Owner (handles s h) = Some t"
    "MaskWait (threads s t) AND Mask (handles s h) \<noteq> 0"
  shows "t \<in> set (ready s)"
proof -
  have "h \<in> set (wlists s (Pending t))" using assms(1-3) by (auto simp: kernel_core_def lists_ok_def)
  then have "State (threads s t) \<noteq> EXOS_THREAD_WAIT"
    using assms(1,4) by (auto simp: kernel_core_def wake_ok_def)
  moreover have "handle_ok s h" using assms(1,2) by (simp add: kernel_core_def handles_ok_def)
  then have "State (threads s t) \<noteq> EXOS_THREAD_DETACHED" using assms(3) by (simp add: handle_ok_def)
  ultimately show ?thesis
    using assms(1) by (cases "State (threads s t)") (auto simp: kernel_core_def threads_ok_def)
qed

text \<open>Resuming touches threads, handles and lists, but no object.\<close>

definition same_objects :: "kernel \<Rightarrow> kernel \<Rightarrow> bool" where
  "same_objects s s' \<longleftrightarrow> running s' = running s \<and> events s' = events s \<and> mutexes s' = mutexes s \<and>
     timers s' = timers s \<and> timer_list s' = timer_list s \<and> ticks s' = ticks s"

lemma resume_handle_objects: "resume_handle h s = Inr s' \<Longrightarrow> same_objects s s'"
  by (auto simp: resume_handle_def rem_handle_def kupd_defs same_objects_def Let_def res_elims
      split: option.splits if_splits)

lemma resume_loop_objects: "resume_loop fuel l c s = Inr (n, s') \<Longrightarrow> same_objects s s'"
proof (induction fuel arbitrary: c s)
  case (Suc fuel)
  show ?case
  proof (cases "wlists s l")
    case Nil
    then show ?thesis using Suc.prems by (simp add: same_objects_def)
  next
    case (Cons h hs)
    then obtain s1 where "resume_handle h s = Inr s1" "resume_loop fuel l (c + 1) s1 = Inr (n, s')"
      using Suc.prems by (auto simp: rbind_eq_Inr)
    then show ?thesis using resume_handle_objects Suc.IH by (fastforce simp: same_objects_def)
  qed
qed simp

lemma resume_all_objects: "exos_thread_resume_all l s = Inr (n, s') \<Longrightarrow> same_objects s s'"
  unfolding exos_thread_resume_all_def rbind_eq_Inr using resume_loop_objects
  by (auto simp: ASSERT_eq_Inr simp del: resume_loop.simps)

text \<open>The effect of resuming the lists \<open>L\<close>, in a form that composes.\<close>

definition resumed :: "wait_list set \<Rightarrow> kernel \<Rightarrow> kernel \<Rightarrow> bool" where
  "resumed L s s' \<longleftrightarrow>
     kernel_wf s' \<and> (\<forall>l\<in>L. (\<nexists>u. l = Pending u) \<and> wlists s' l = []) \<and>
     (\<forall>l. l \<notin> L \<longrightarrow> (\<nexists>u. l = Pending u) \<longrightarrow> wlists s' l = wlists s l) \<and>
     handles s' = done_handles (\<Union>l\<in>L. set (wlists s l)) s \<and> same_threads s s' \<and>
     running s' = running s \<and> mutexes s' = mutexes s"

lemma resumed_refl: "kernel_wf s \<Longrightarrow> resumed {} s s"
  by (simp add: resumed_def done_handles_def)

lemma resumed_trans:
  assumes "resumed L s s1" "resumed K s1 s2" "\<forall>l\<in>K. \<nexists>u. l = Pending u"
  shows "resumed (L \<union> K) s s2"
proof -
  have w: "wlists s1 l = (if l \<in> L then [] else wlists s l)" if "\<nexists>u. l = Pending u" for l
    using assms(1) that by (auto simp: resumed_def)
  have "(\<Union>l\<in>K. set (wlists s1 l)) = (\<Union>l\<in>K - L. set (wlists s l))"
    using w assms(3) by (auto split: if_splits)
  moreover have "done_handles (\<Union>l\<in>K - L. set (wlists s l)) s1 = done_handles (\<Union>l\<in>L \<union> K. set (wlists s l)) s"
    using assms(1) by (auto simp: resumed_def done_handles_def fun_eq_iff)
  ultimately have h: "handles s2 = done_handles (\<Union>l\<in>L \<union> K. set (wlists s l)) s"
    using assms(2) by (simp add: resumed_def)
  have "wlists s2 l = []" if "l \<in> L \<union> K" for l
  proof (cases "l \<in> K")
    case False
    moreover from this have "l \<in> L" "\<nexists>u. l = Pending u" using that assms(1) by (auto simp: resumed_def)
    ultimately show ?thesis using assms(2) w[of l] by (auto simp: resumed_def)
  qed (use assms(2) in \<open>auto simp: resumed_def\<close>)
  then show ?thesis
    using assms h same_threads_trans unfolding resumed_def by auto
qed

lemma same_threads_MaskWait: "same_threads s s' \<Longrightarrow> MaskWait (threads s' t) = MaskWait (threads s t)"
proof -
  assume "same_threads s s'"
  then have "MaskWait ((threads s' t)\<lparr>State := State (threads s t)\<rparr>) = MaskWait (threads s t)"
    by (simp add: same_threads_def)
  then show ?thesis by simp
qed

lemma resumed_woken:
  assumes "resumed L s s'" and "l \<in> L"
  shows "woken l s s'"
proof -
  have core: "kernel_core s'" using assms(1) by (simp add: resumed_def kernel_wf_def)
  have mw: "MaskWait (threads s' t) = MaskWait (threads s t)" for t
    using assms(1) same_threads_MaskWait by (auto simp: resumed_def)
  have "HState (handles s' h) = WAIT_HANDLE_DONE" "Owner (handles s' h) = Owner (handles s h)"
    "Mask (handles s' h) = Mask (handles s h)" if "h \<in> set (wlists s l)" for h
    using that assms by (auto simp: resumed_def done_handles_def)
  moreover have "wlists s' l = []" using assms by (simp add: resumed_def)
  ultimately show ?thesis
    unfolding woken_def using pending_thread_ready[OF core] mw by metis
qed

lemma resume_all_resumed:
  assumes "kernel_wf s" and "\<nexists>u. l = Pending u"
  shows "\<exists>s'. exos_thread_resume_all l s = Inr (of_nat (length (wlists s l)), s') \<and> resumed {l} s s' \<and>
    same_objects s s'"
proof -
  have core: "kernel_core s" using assms by (simp add: kernel_wf_def)
  obtain s' where "exos_thread_resume_all l s = Inr (of_nat (length (wlists s l)), s')" "kernel_core s'"
    "wlists s' l = []" "\<forall>l'. l' \<noteq> l \<longrightarrow> (\<nexists>u. l' = Pending u) \<longrightarrow> wlists s' l' = wlists s l'"
    "handles s' = done_handles (set (wlists s l)) s" "same_threads s s'"
    using resume_all_wf[OF core assms(2)] by blast
  then show ?thesis
    using resume_all_objects resume_all_kernel_wf[OF assms] assms(2)
    by (auto simp: resumed_def same_objects_def)
qed

lemma resumed_cong:
  "threads s = threads s0 \<Longrightarrow> handles s = handles s0 \<Longrightarrow> wlists s = wlists s0 \<Longrightarrow> running s = running s0 \<Longrightarrow>
   mutexes s = mutexes s0 \<Longrightarrow> resumed L s s' = resumed L s0 s'"
  by (simp add: resumed_def same_threads_def done_handles_def cong: if_cong)

lemma resumed_cong2:
  "threads s' = threads s0 \<Longrightarrow> handles s' = handles s0 \<Longrightarrow> wlists s' = wlists s0 \<Longrightarrow> running s' = running s0 \<Longrightarrow>
   mutexes s' = mutexes s0 \<Longrightarrow> ready s' = ready s0 \<Longrightarrow> waiting s' = waiting s0 \<Longrightarrow> resumed L s s' = resumed L s s0"
  by (simp add: resumed_def same_threads_def kernel_wf_cong(1)[of s' s0])

section \<open>Setting and resetting\<close>

definition same_timers :: "kernel \<Rightarrow> kernel \<Rightarrow> bool" where
  "same_timers s s' \<longleftrightarrow> timers s' = timers s \<and> timer_list s' = timer_list s \<and> ticks s' = ticks s"

lemma event_set_spec:
  assumes "kernel_wf s"
  shows "\<exists>s'. exos_event_set e s = Inr s' \<and> resumed {EventHandles e} s s' \<and> same_timers s s' \<and>
    AutoReset (events s' e) = AutoReset (events s e) \<and>
    EvState (events s' e) = (AutoReset (events s e) \<longrightarrow> of_nat (length (wlists s (EventHandles e))) = (0 :: u32)) \<and>
    (\<forall>e'. e' \<noteq> e \<longrightarrow> events s' e' = events s e')"
proof (cases "AutoReset (events s e)")
  case True
  obtain s' where s': "exos_thread_resume_all (EventHandles e) s = Inr (of_nat (length (wlists s (EventHandles e))), s')"
    "resumed {EventHandles e} s s'" "same_objects s s'"
    using resume_all_resumed[OF assms, of "EventHandles e"] by blast
  moreover have "resumed {EventHandles e} s (upd_event e f s')" for f
    using s'(2) by (subst resumed_cong2[of _ s']) auto
  ultimately show ?thesis
    using True by (simp add: exos_event_set_def k_event_set_def same_objects_def same_timers_def)
next
  case False
  let ?s = "upd_event e (\<lambda>x. x\<lparr>EvState := True\<rparr>) s"
  have wf: "kernel_wf ?s" using assms by simp
  have "resumed L ?s s' = resumed L s s'" for L s' by (rule resumed_cong) simp_all
  then show ?thesis
    using False resume_all_resumed[OF wf, of "EventHandles e"]
    by (auto simp: exos_event_set_def same_objects_def same_timers_def)
qed

lemma event_reset_spec:
  assumes "kernel_wf s"
  shows "\<exists>s'. exos_event_reset e s = Inr s' \<and> resumed {EventHandles e} s s' \<and> same_timers s s' \<and>
    AutoReset (events s' e) = AutoReset (events s e) \<and> \<not> EvState (events s' e) \<and>
    (\<forall>e'. e' \<noteq> e \<longrightarrow> events s' e' = events s e')"
proof -
  let ?s = "upd_event e (\<lambda>x. x\<lparr>EvState := False\<rparr>) s"
  have wf: "kernel_wf ?s" using assms by simp
  have "resumed L ?s s' = resumed L s s'" for L s' by (rule resumed_cong) simp_all
  then show ?thesis
    using resume_all_resumed[OF wf, of "EventHandles e"]
    by (auto simp: exos_event_reset_def same_objects_def same_timers_def)
qed

section \<open>Optional events\<close>

text \<open>Several components signal through an event that may be absent.\<close>

definition when_event :: "(eid \<Rightarrow> kernel \<Rightarrow> kernel res) \<Rightarrow> eid option \<Rightarrow> kernel \<Rightarrow> kernel res" where
  "when_event f ev k = (case ev of None \<Rightarrow> Inr k | Some e \<Rightarrow> f e k)"

lemma when_event_set:
  assumes "kernel_wf k"
  shows "\<exists>k'. when_event exos_event_set ev k = Inr k' \<and> kernel_wf k' \<and>
    (\<forall>e. ev = Some e \<longrightarrow> \<not> AutoReset (events k e) \<longrightarrow> EvState (events k' e)) \<and> (\<forall>e. ev \<noteq> Some e \<longrightarrow> events k' e = events k e)"
proof (cases ev)
  case (Some e)
  then show ?thesis using event_set_spec[OF assms, of e] by (auto simp: when_event_def resumed_def)
qed (use assms in \<open>simp add: when_event_def\<close>)

lemma when_event_reset:
  assumes "kernel_wf k"
  shows "\<exists>k'. when_event exos_event_reset ev k = Inr k' \<and> kernel_wf k' \<and>
    (\<forall>e. ev = Some e \<longrightarrow> \<not> EvState (events k' e)) \<and> (\<forall>e. AutoReset (events k' e) = AutoReset (events k e)) \<and>
    (\<forall>e. ev \<noteq> Some e \<longrightarrow> events k' e = events k e)"
proof (cases ev)
  case (Some e)
  then obtain k' where "exos_event_reset e k = Inr k'" "resumed {EventHandles e} k k'"
    "AutoReset (events k' e) = AutoReset (events k e)" "\<not> EvState (events k' e)"
    "\<forall>e'. e' \<noteq> e \<longrightarrow> events k' e' = events k e'"
    using event_reset_spec[OF assms, of e] by blast
  moreover from this have "AutoReset (events k' d) = AutoReset (events k d)" for d by (cases "d = e") auto
  ultimately show ?thesis using Some by (auto simp: when_event_def resumed_def)
qed (use assms in \<open>simp add: when_event_def\<close>)

end
