(* ===== verification/Mutexes.thy ===== *)
theory Mutexes
  imports Events
begin

text \<open>
  Recursive mutexes (\<^verbatim>\<open>exos/kernel/mutex.c\<close>).  \<^verbatim>\<open>exos_mutex_lock\<close> is a loop
  around a wait: \<open>mutex_lock_iter\<close> is one round up to the wait, \<open>mutex_lock_resume\<close> the rest
  of the round with the test of the loop, whose value tells whether the call returns.
\<close>

section \<open>Operations\<close>

definition upd_mutex :: "mid \<Rightarrow> (mutex_t \<Rightarrow> mutex_t) \<Rightarrow> kernel \<Rightarrow> kernel" where
  "upd_mutex m f s = s\<lparr>mutexes := (mutexes s)(m := f (mutexes s m))\<rparr>"

definition exos_mutex_create :: "mid \<Rightarrow> kernel \<Rightarrow> kernel" where
  "exos_mutex_create m s = upd_mutex m (\<lambda>x. x\<lparr>MOwner := None, Count := 0\<rparr>) s"

definition mutex_cond :: "mid \<Rightarrow> wait_cond" where
  "mutex_cond m s =
     (case MOwner (mutexes s m) of
        None \<Rightarrow>
          ASSERT (Count (mutexes s m) = 0) KERNEL_ERROR_KERNEL_PANIC
            (Inr (None, upd_mutex m (\<lambda>x. x\<lparr>Count := 1, MOwner := Some (running s)\<rparr>)
                          (upd_list (MutexHandles m) (\<lambda>_. []) s)))
      | Some t \<Rightarrow>
          if t = running s
          then ASSERT (Count (mutexes s m) \<noteq> 0) KERNEL_ERROR_KERNEL_PANIC
                 (Inr (None, upd_mutex m (\<lambda>x. x\<lparr>Count := Count x + 1\<rparr>) s))
          else Inr (Some (MutexHandles m), s))"

definition mutex_lock_iter :: "hid \<Rightarrow> mid \<Rightarrow> kernel \<Rightarrow> (u32 \<times> kernel) res" where
  "mutex_lock_iter h m s = add_and_wait h (mutex_cond m) s"

definition mutex_lock_resume :: "hid \<Rightarrow> mid \<Rightarrow> u32 \<Rightarrow> kernel \<Rightarrow> (bool \<times> kernel) res" where
  "mutex_lock_resume h m msk s =
     rbind (if msk \<noteq> 0 then finish_wait h s else Inr s)
       (\<lambda>s1. Inr (MOwner (mutexes s1 m) = Some (running s1), s1))"

definition exos_mutex_lock_begin :: "hid \<Rightarrow> mid \<Rightarrow> kernel \<Rightarrow> (u32 \<times> kernel) res" where
  "exos_mutex_lock_begin h m s = mutex_lock_iter h m (exos_thread_create_wait_handle h s)"

definition k_unlock :: "mid \<Rightarrow> kernel \<Rightarrow> kernel res" where
  "k_unlock m s =
     (if MOwner (mutexes s m) \<noteq> Some (running s) then Inl (Panic KERNEL_ERROR_CROSS_THREAD_OPERATION)
      else ASSERT (Count (mutexes s m) \<noteq> 0) KERNEL_ERROR_KERNEL_PANIC
        (let s1 = upd_mutex m (\<lambda>x. x\<lparr>Count := Count x - 1\<rparr>) s
         in if Count (mutexes s1 m) = 0
            then rbind (exos_thread_resume_all (MutexHandles m) (upd_mutex m (\<lambda>x. x\<lparr>MOwner := None\<rparr>) s1))
                   (\<lambda>(_, s2). Inr s2)
            else Inr s1))"

definition exos_mutex_unlock :: "mid \<Rightarrow> kernel \<Rightarrow> kernel res" where
  "exos_mutex_unlock m s =
     ASSERT (MOwner (mutexes s m) = Some (running s)) KERNEL_ERROR_CROSS_THREAD_OPERATION (k_unlock m s)"

definition exos_mutex_try :: "mid \<Rightarrow> kernel \<Rightarrow> (int \<times> kernel) res" where
  "exos_mutex_try m s =
     rbind (mutex_cond m s) (\<lambda>(l, s1). Inr (case l of None \<Rightarrow> 0 | Some _ \<Rightarrow> - 1, s1))"

section \<open>Invariant\<close>

text \<open>
  A free mutex has count zero and an empty list, so that the first locker may initialise the
  list; an owned mutex has a positive count.
\<close>

definition mutex_ok :: "mid \<Rightarrow> kernel \<Rightarrow> bool" where
  "mutex_ok m s \<longleftrightarrow>
     (case MOwner (mutexes s m) of
        None \<Rightarrow> Count (mutexes s m) = 0 \<and> wlists s (MutexHandles m) = []
      | Some _ \<Rightarrow> Count (mutexes s m) \<noteq> 0)"

lemma mutex_ok_iff:
  "mutex_ok m s \<longleftrightarrow> (MOwner (mutexes s m) = None \<longrightarrow> Count (mutexes s m) = 0 \<and> wlists s (MutexHandles m) = []) \<and>
     (MOwner (mutexes s m) \<noteq> None \<longrightarrow> Count (mutexes s m) \<noteq> 0)"
  by (auto simp: mutex_ok_def split: option.splits)

lemma upd_mutex_sel [simp]:
  "threads (upd_mutex m f s) = threads s" "handles (upd_mutex m f s) = handles s"
  "events (upd_mutex m f s) = events s" "ready (upd_mutex m f s) = ready s"
  "waiting (upd_mutex m f s) = waiting s" "wlists (upd_mutex m f s) = wlists s"
  "running (upd_mutex m f s) = running s" "mutexes (upd_mutex m f s) m = f (mutexes s m)"
  "m' \<noteq> m \<Longrightarrow> mutexes (upd_mutex m f s) m' = mutexes s m'"
  by (simp_all add: upd_mutex_def)

lemma upd_mutex_wf [simp]: "kernel_wf (upd_mutex m f s) = kernel_wf s" "kernel_core (upd_mutex m f s) = kernel_core s"
  by (rule kernel_wf_cong; simp)+

definition acquired :: "mid \<Rightarrow> kernel \<Rightarrow> kernel" where
  "acquired m s = upd_mutex m (\<lambda>x. \<lparr>MOwner = Some (running s), Count = Count x + 1\<rparr>) s"

lemma mutex_full [simp]:
  "(x :: mutex_t)\<lparr>Count := c, MOwner := a\<rparr> = \<lparr>MOwner = a, Count = c\<rparr>"
  by (cases x) simp

lemma mutex_cond_cases:
  assumes "mutex_ok m s"
  shows "(MOwner (mutexes s m) = None \<or> MOwner (mutexes s m) = Some (running s)) \<and>
       mutex_cond m s = Inr (None, acquired m s) \<or>
     (\<exists>t. MOwner (mutexes s m) = Some t \<and> t \<noteq> running s \<and> mutex_cond m s = Inr (Some (MutexHandles m), s))"
proof (cases "MOwner (mutexes s m)")
  case None
  have "(wlists s)(MutexHandles m := []) = wlists s" using assms None by (auto simp: mutex_ok_def fun_eq_iff)
  then have "upd_list (MutexHandles m) (\<lambda>_. []) s = s" by (simp add: upd_list_def)
  moreover have "Count (mutexes s m) = 0" using assms None by (simp add: mutex_ok_def)
  ultimately show ?thesis
    using None by (simp add: mutex_cond_def acquired_def upd_mutex_def)
next
  case (Some t)
  have full: "(x\<lparr>Count := c\<rparr> :: mutex_t) = \<lparr>MOwner = MOwner x, Count = c\<rparr>" for x c by (cases x) simp
  show ?thesis
    using assms Some by (auto simp: full mutex_cond_def acquired_def mutex_ok_def upd_mutex_def)
qed

lemma mutex_cond_ok: "kernel_wf s \<Longrightarrow> mutex_ok m s \<Longrightarrow> cond_ok (mutex_cond m) s"
  using mutex_cond_cases[of m s] by (auto simp: cond_ok_def acquired_def)

interpretation mutex: wait_source "mutex_cond m" "mutex_ok m"
  by unfold_locales (rule mutex_cond_ok)

text \<open>Acquiring keeps the invariant below the 32-bit limit of the recursion count.\<close>

lemma acquired_ok:
  assumes "mutex_ok k s" "Count (mutexes s m) \<noteq> - 1"
  shows "mutex_ok k (acquired m s)"
proof (cases "k = m")
  case True
  have "Count (mutexes s m) + 1 \<noteq> 0" using assms(2) by (metis eq_neg_iff_add_eq_0)
  then show ?thesis using True by (simp add: acquired_def mutex_ok_def)
next
  case False
  then show ?thesis using assms(1) by (simp add: acquired_def mutex_ok_def split: option.splits)
qed

lemma unlock_last_spec:
  assumes wf: "kernel_wf s" and own: "MOwner (mutexes s m) = Some (running s)" and c: "Count (mutexes s m) = 1"
  shows "\<exists>s'. exos_mutex_unlock m s = Inr s' \<and> kernel_wf s' \<and> woken (MutexHandles m) s s' \<and>
    mutexes s' = (mutexes s)(m := \<lparr>MOwner = None, Count = 0\<rparr>) \<and> running s' = running s \<and> events s' = events s \<and>
    (\<forall>l. l \<noteq> MutexHandles m \<longrightarrow> (\<nexists>u. l = Pending u) \<longrightarrow> wlists s' l = wlists s l)"
proof -
  let ?s = "upd_mutex m (\<lambda>x. x\<lparr>MOwner := None\<rparr>) (upd_mutex m (\<lambda>x. x\<lparr>Count := Count x - 1\<rparr>) s)"
  have wf': "kernel_wf ?s" using wf by simp
  obtain n s' where s': "exos_thread_resume_all (MutexHandles m) ?s = Inr (n, s')" "resumed {MutexHandles m} ?s s'"
    "same_objects ?s s'"
    using resume_all_resumed[OF wf', of "MutexHandles m"] by blast
  have mu: "mutexes ?s = (mutexes s)(m := \<lparr>MOwner = None, Count = 0\<rparr>)"
    using c by (simp add: upd_mutex_def)
  have "woken (MutexHandles m) s s'" using resumed_woken[OF s'(2)] by (simp add: woken_def)
  moreover have "exos_mutex_unlock m s = Inr s'"
    using s'(1) own c by (simp add: exos_mutex_unlock_def k_unlock_def)
  ultimately show ?thesis
    using s'(2,3) mu by (intro exI[of _ s']) (simp add: resumed_def same_objects_def)
qed

lemma unlock_inner_spec:
  assumes own: "MOwner (mutexes s m) = Some (running s)" and c: "Count (mutexes s m) \<noteq> 0" "Count (mutexes s m) \<noteq> 1"
  shows "exos_mutex_unlock m s = Inr (upd_mutex m (\<lambda>x. x\<lparr>Count := Count x - 1\<rparr>) s)"
proof -
  have "Count (mutexes s m) - 1 \<noteq> 0" using c(2) by simp
  then show ?thesis using own c by (simp add: exos_mutex_unlock_def k_unlock_def Let_def)
qed

end
