(* ===== verification/Timers.thy ===== *)
theory Timers
  imports Mutexes
begin

text \<open>
  Timers (\<^verbatim>\<open>exos/kernel/timer.c\<close>) and the calls that wait with a time-out or for a
  delay.  Running timers are kept in \<^verbatim>\<open>_timers\<close>, ordered by the time left.  The
  machine layer supplies the ticks elapsed since the last tick and is told how long to sleep; both
  are an argument and a result here.
\<close>

section \<open>Operations\<close>

definition upd_timer :: "tmid \<Rightarrow> (exos_timer_t \<Rightarrow> exos_timer_t) \<Rightarrow> kernel \<Rightarrow> kernel" where
  "upd_timer t f s = s\<lparr>timers := (timers s)(t := f (timers s t))\<rparr>"

definition timer_init :: "kernel \<Rightarrow> kernel" where
  "timer_init s = s\<lparr>timer_list := []\<rparr>"

text \<open>
  \<^verbatim>\<open>_enqueue\<close>: the scan remembers in \<open>pred\<close> the last timer that is not later than the
  new one; a timer with no such predecessor goes to the head.
\<close>

fun timer_pred_scan :: "(tmid \<Rightarrow> u32) \<Rightarrow> u32 \<Rightarrow> tmid list \<Rightarrow> tmid option \<Rightarrow> tmid option" where
  "timer_pred_scan time new [] prd = prd"
| "timer_pred_scan time new (x # xs) prd =
     (if new < time x then prd else timer_pred_scan time new xs (Some x))"

definition timer_enqueue :: "tmid \<Rightarrow> kernel \<Rightarrow> bool \<times> kernel" where
  "timer_enqueue t s =
     (case timer_pred_scan (\<lambda>x. Time (timers s x)) (Time (timers s t)) (timer_list s) None of
        None \<Rightarrow> (True, s\<lparr>timer_list := t # timer_list s\<rparr>)
      | Some p \<Rightarrow> (False, s\<lparr>timer_list := insert_after p t (timer_list s)\<rparr>))"

text \<open>The successor of a node in the list: \<open>None\<close> is the tail.\<close>

fun succ_in :: "tmid \<Rightarrow> tmid list \<Rightarrow> tmid option" where
  "succ_in n [] = None"
| "succ_in n (x # xs) = (if x = n then (case xs of [] \<Rightarrow> None | y # _ \<Rightarrow> Some y) else succ_in n xs)"

definition first_of :: "tmid list \<Rightarrow> tmid option" where
  "first_of xs = (case xs of [] \<Rightarrow> None | x # _ \<Rightarrow> Some x)"

text \<open>
  The loop of \<^verbatim>\<open>_tick_handler\<close>.  \<^verbatim>\<open>FOREACH\<close> follows the link of the visited
  node after the body ran: a removed node keeps its old link, a node that was queued again
  has its new successor.
\<close>

fun tick_scan :: "nat \<Rightarrow> u32 \<Rightarrow> tmid option \<Rightarrow> kernel \<Rightarrow> kernel res" where
  "tick_scan fuel elapsed None s = Inr s"
| "tick_scan 0 elapsed (Some n) s = Inl OutOfFuel"
| "tick_scan (Suc fuel) elapsed (Some n) s =
     (if Time (timers s n) \<le> elapsed
      then let succ = succ_in n (timer_list s);
               s1 = s\<lparr>timer_list := filter (\<lambda>x. x \<noteq> n) (timer_list s)\<rparr>
           in if Period (timers s1 n) \<noteq> 0
              then rbind (exos_event_reset (TimerEvent n) (upd_timer n (\<lambda>x. x\<lparr>Time := Period x\<rparr>) s1))
                     (\<lambda>s2. let s3 = snd (timer_enqueue n s2)
                            in tick_scan fuel elapsed (succ_in n (timer_list s3)) s3)
              else rbind (exos_event_set (TimerEvent n) (upd_timer n (\<lambda>x. x\<lparr>TState := EXOS_TIMER_FINISHED\<rparr>) s1))
                     (\<lambda>s2. tick_scan fuel elapsed succ s2)
      else let s1 = upd_timer n (\<lambda>x. x\<lparr>Time := Time x - elapsed\<rparr>) s
           in tick_scan fuel elapsed (succ_in n (timer_list s1)) s1)"

definition tick_handler :: "nat \<Rightarrow> u32 \<Rightarrow> kernel \<Rightarrow> (u32 \<times> kernel) res" where
  "tick_handler fuel elapsed s =
     rbind (tick_scan fuel elapsed (first_of (timer_list s)) s) (\<lambda>s1.
       rbind (case timer_list s1 of
                [] \<Rightarrow> Inr 0
              | t # _ \<Rightarrow> ASSERT (Time (timers s1 t) \<noteq> 0) KERNEL_ERROR_KERNEL_PANIC (Inr (Time (timers s1 t))))
         (\<lambda>wait. Inr (wait, s1\<lparr>ticks := ticks s1 + elapsed\<rparr>)))"

definition k_add_timer :: "nat \<Rightarrow> u32 \<Rightarrow> tmid \<Rightarrow> kernel \<Rightarrow> kernel res" where
  "k_add_timer fuel elapsed t s =
     (let s1 = upd_timer t (\<lambda>x. x\<lparr>TState := EXOS_TIMER_RUNNING, Time := Time x + elapsed\<rparr>) s;
          (head, s2) = timer_enqueue t s1
      in if head then rbind (tick_handler fuel elapsed s2) (\<lambda>(_, s3). Inr s3) else Inr s2)"

definition exos_timer_create :: "nat \<Rightarrow> u32 \<Rightarrow> tmid \<Rightarrow> u32 \<Rightarrow> u32 \<Rightarrow> kernel \<Rightarrow> kernel res" where
  "exos_timer_create fuel elapsed t time period s =
     ASSERT (time \<noteq> 0) KERNEL_ERROR_KERNEL_PANIC
       (k_add_timer fuel elapsed t
         (exos_event_create (TimerEvent t) False
           (upd_timer t (\<lambda>x. x\<lparr>Time := time, Period := period\<rparr>) s)))"

definition exos_timer_dispose :: "nat \<Rightarrow> u32 \<Rightarrow> tmid \<Rightarrow> kernel \<Rightarrow> kernel res" where
  "exos_timer_dispose fuel elapsed t s =
     (if t \<in> set (timer_list s)
      then rbind (tick_handler fuel elapsed (s\<lparr>timer_list := filter (\<lambda>x. x \<noteq> t) (timer_list s)\<rparr>))
             (\<lambda>(_, s1). Inr s1)
      else Inr s)"

definition exos_timer_ticks :: "u32 \<Rightarrow> kernel \<Rightarrow> u32" where
  "exos_timer_ticks elapsed s = elapsed + ticks s"

definition exos_timer_elapsed_ticks :: "u32 \<Rightarrow> u32 \<Rightarrow> kernel \<Rightarrow> u32" where
  "exos_timer_elapsed_ticks elapsed time s = exos_timer_ticks elapsed s - time"

text \<open>\<^verbatim>\<open>___uptime\<close> keeps static variables; \<^verbatim>\<open>EXOS_TICK_FREQ\<close> is 1000.\<close>

record uptime_t =
  last_time :: u32
  seconds :: u32
  fraction_ticks :: u32

definition k_uptime :: "u32 \<Rightarrow> uptime_t \<Rightarrow> u32 \<times> uptime_t" where
  "k_uptime time u =
     (let add_ticks = time - last_time u;
          fraction = fraction_ticks u + add_ticks;
          secs = seconds u + fraction div 1000
      in (secs, \<lparr>last_time = time, seconds = secs, fraction_ticks = fraction mod 1000\<rparr>))"

definition exos_timer_time :: "u32 \<Rightarrow> kernel \<Rightarrow> uptime_t \<Rightarrow> u32 \<times> uptime_t" where
  "exos_timer_time elapsed s u = k_uptime (exos_timer_ticks elapsed s) u"

definition exos_timer_elapsed :: "u32 \<Rightarrow> u32 \<Rightarrow> kernel \<Rightarrow> uptime_t \<Rightarrow> u32 \<times> uptime_t" where
  "exos_timer_elapsed elapsed time s u = (case exos_timer_time elapsed s u of (up, u') \<Rightarrow> (up - time, u'))"

section \<open>Waiting with a time-out\<close>

text \<open>
  \<^verbatim>\<open>exos_event_wait\<close>, up to the wait and after it.  With a time-out the thread waits for
  the event and for a private timer; the result tells whether the event came.
\<close>

datatype wait_kind = NoWait | WaitEvent u32 | WaitTimed u32 u32

definition exos_event_wait_begin ::
  "nat \<Rightarrow> u32 \<Rightarrow> hid \<Rightarrow> hid \<Rightarrow> tmid \<Rightarrow> eid \<Rightarrow> u32 \<Rightarrow> kernel \<Rightarrow> (wait_kind \<times> kernel) res" where
  "exos_event_wait_begin fuel elapsed h th tm e timeout s =
     rbind (exos_event_add_handle e h (exos_thread_create_wait_handle h s)) (\<lambda>(event_mask, s1).
       if event_mask = 0 then Inr (NoWait, s1)
       else if timeout \<noteq> 0
       then rbind (exos_timer_create fuel elapsed tm timeout 0 (exos_thread_create_wait_handle th s1)) (\<lambda>s2.
              rbind (exos_event_add_handle (TimerEvent tm) th s2) (\<lambda>(timer_mask, s3).
                if timer_mask \<noteq> 0
                then rbind (exos_thread_wait (event_mask OR timer_mask) s3)
                       (\<lambda>s4. Inr (WaitTimed event_mask timer_mask, s4))
                else Inr (WaitTimed event_mask 0, s3)))
       else rbind (exos_thread_wait event_mask s1) (\<lambda>s2. Inr (WaitEvent event_mask, s2)))"

definition exos_event_wait_end ::
  "nat \<Rightarrow> u32 \<Rightarrow> hid \<Rightarrow> hid \<Rightarrow> tmid \<Rightarrow> wait_kind \<Rightarrow> kernel \<Rightarrow> (bool \<times> kernel) res" where
  "exos_event_wait_end fuel elapsed h th tm k s =
     (case k of
        NoWait \<Rightarrow> Inr (True, s)
      | WaitEvent _ \<Rightarrow> rbind (finish_wait h s) (\<lambda>s1. Inr (True, s1))
      | WaitTimed _ timer_mask \<Rightarrow>
          rbind (if timer_mask \<noteq> 0
                 then ASSERT (HState (handles s h) = WAIT_HANDLE_DONE \<or> HState (handles s th) = WAIT_HANDLE_DONE)
                        KERNEL_ERROR_KERNEL_PANIC
                        (rbind (exos_thread_dispose_wait_handle th s)
                          (\<lambda>s1. Inr (HState (handles s h) = WAIT_HANDLE_DONE, s1)))
                 else Inr (True, s))
            (\<lambda>(done, s1). rbind (exos_timer_dispose fuel elapsed tm s1)
              (\<lambda>s2. rbind (exos_thread_dispose_wait_handle h s2) (\<lambda>s3. Inr (done, s3)))))"

definition exos_timer_wait_begin :: "nat \<Rightarrow> u32 \<Rightarrow> hid \<Rightarrow> hid \<Rightarrow> tmid \<Rightarrow> tmid \<Rightarrow> kernel \<Rightarrow> (wait_kind \<times> kernel) res" where
  "exos_timer_wait_begin fuel elapsed h th tm t s =
     exos_event_wait_begin fuel elapsed h th tm (TimerEvent t) 0 s"

definition exos_thread_sleep_begin :: "nat \<Rightarrow> u32 \<Rightarrow> hid \<Rightarrow> tmid \<Rightarrow> u32 \<Rightarrow> kernel \<Rightarrow> (u32 \<times> kernel) res" where
  "exos_thread_sleep_begin fuel elapsed h tm n s =
     (if n \<noteq> 0
      then rbind (exos_timer_create fuel elapsed tm n 0 (exos_thread_create_wait_handle h s))
             (\<lambda>s1. rbind (exos_event_add_handle (TimerEvent tm) h s1) (\<lambda>(msk, s2).
                if msk \<noteq> 0 then rbind (exos_thread_wait msk s2) (\<lambda>s3. Inr (msk, s3)) else Inr (msk, s2)))
      else Inr (0, s))"

definition exos_thread_sleep_end :: "nat \<Rightarrow> u32 \<Rightarrow> hid \<Rightarrow> tmid \<Rightarrow> u32 \<Rightarrow> u32 \<Rightarrow> kernel \<Rightarrow> kernel res" where
  "exos_thread_sleep_end fuel elapsed h tm n msk s =
     (if n \<noteq> 0
      then rbind (if msk \<noteq> 0 then finish_wait h s else Inr s)
             (\<lambda>s1. ASSERT (TState (timers s1 tm) = EXOS_TIMER_FINISHED) KERNEL_ERROR_KERNEL_PANIC
                     (exos_timer_dispose fuel elapsed tm s1))
      else Inr s)"

end
