(* ===== verification/Timers_Inv.thy ===== *)
theory Timers_Inv
  imports Timers
begin

text \<open>
  Correctness of the timer queue: a new timer is inserted in order, and a tick over one-shot
  timers finishes the expired ones and shortens the others (the theory Kernel_Steps adds which threads
  it wakes).  A later section shows where the handler departs from this for periodic timers.
\<close>

section \<open>The queue\<close>

abbreviation time_of :: "kernel \<Rightarrow> tmid \<Rightarrow> u32" where
  "time_of s t \<equiv> Time (timers s t)"

definition timers_sorted :: "kernel \<Rightarrow> bool" where
  "timers_sorted s \<longleftrightarrow> distinct (timer_list s) \<and> sorted (map (time_of s) (timer_list s))"

lemma timer_pred_scan_takeWhile:
  "timer_pred_scan time new xs prd =
     (case takeWhile (\<lambda>x. \<not> new < time x) xs of [] \<Rightarrow> prd | y # ys \<Rightarrow> Some (last (y # ys)))"
  by (induction xs arbitrary: prd) (auto split: list.splits)

lemma insert_after_last:
  "distinct (ys @ zs) \<Longrightarrow> ys \<noteq> [] \<Longrightarrow> insert_after (last ys) t (ys @ zs) = ys @ t # zs"
proof (induction ys)
  case (Cons y ys)
  then show ?case by (cases ys) auto
qed simp

lemma timer_enqueue_eq:
  assumes "distinct (timer_list s)"
  shows "timer_enqueue t s =
    (takeWhile (\<lambda>x. time_of s x \<le> time_of s t) (timer_list s) = [],
     s\<lparr>timer_list := takeWhile (\<lambda>x. time_of s x \<le> time_of s t) (timer_list s) @
                     t # dropWhile (\<lambda>x. time_of s x \<le> time_of s t) (timer_list s)\<rparr>)"
proof -
  let ?P = "\<lambda>x. time_of s x \<le> time_of s t"
  have P: "(\<lambda>x. \<not> time_of s t < time_of s x) = ?P" by (auto simp: not_less)
  show ?thesis
  proof (cases "takeWhile ?P (timer_list s)")
    case Nil
    then have "dropWhile ?P (timer_list s) = timer_list s"
      using takeWhile_dropWhile_id[of ?P "timer_list s"] by simp
    then show ?thesis using Nil by (simp add: timer_enqueue_def timer_pred_scan_takeWhile P)
  next
    case (Cons y ys)
    have ne: "takeWhile ?P (timer_list s) \<noteq> []" using Cons by simp
    have "insert_after (last (takeWhile ?P (timer_list s))) t (timer_list s) =
      takeWhile ?P (timer_list s) @ t # dropWhile ?P (timer_list s)"
      using assms ne insert_after_last[of "takeWhile ?P (timer_list s)" "dropWhile ?P (timer_list s)" t]
      by (simp only: takeWhile_dropWhile_id not_False_eq_True simp_thms)
    then show ?thesis
      using Cons by (simp add: timer_enqueue_def timer_pred_scan_takeWhile P del: last.simps)
  qed
qed

lemma sorted_insert_takeWhile:
  assumes "sorted (map f xs)"
  shows "sorted (map f (takeWhile (\<lambda>x. f x \<le> f t) xs @ t # dropWhile (\<lambda>x. f x \<le> f t) xs))"
  using assms
proof (induction xs)
  case (Cons x xs)
  then show ?case
  proof (cases "f x \<le> f t")
    case True
    have "set xs = set (takeWhile (\<lambda>x. f x \<le> f t) xs) \<union> set (dropWhile (\<lambda>x. f x \<le> f t) xs)"
      by (metis set_append takeWhile_dropWhile_id)
    then show ?thesis using Cons True by auto
  next
    case False
    then show ?thesis using Cons.prems by (auto intro: order_trans)
  qed
qed simp

lemma timer_enqueue_sorted:
  assumes "timers_sorted s" and "t \<notin> set (timer_list s)" and "timer_enqueue t s = (b, s')"
  shows "timers_sorted s'" "set (timer_list s') = insert t (set (timer_list s))" "timers s' = timers s"
    "b \<longleftrightarrow> first_of (timer_list s') = Some t"
    "kernel_wf s' = kernel_wf s"
proof -
  let ?P = "\<lambda>x. time_of s x \<le> time_of s t"
  have d: "distinct (timer_list s)" and so: "sorted (map (time_of s) (timer_list s))"
    using assms(1) by (auto simp: timers_sorted_def)
  define ys zs where yz12: "ys = takeWhile ?P (timer_list s)" "zs = dropWhile ?P (timer_list s)"
  have "timer_list s = ys @ zs" unfolding yz12 by simp
  note yz = yz12 this
  have r: "b \<longleftrightarrow> ys = []" "s' = s\<lparr>timer_list := ys @ t # zs\<rparr>"
    using assms(3) timer_enqueue_eq[OF d, of t] yz(1,2) by simp_all
  have "sorted (map (time_of s) (ys @ t # zs))" using sorted_insert_takeWhile[OF so, of t] yz(1,2) by simp
  moreover have "distinct (ys @ t # zs)" using d assms(2) yz(3) by auto
  ultimately show "timers_sorted s'" using r by (simp add: timers_sorted_def)
  show "set (timer_list s') = insert t (set (timer_list s))" using r yz(3) by simp
  show "timers s' = timers s" using r by simp
  show "b \<longleftrightarrow> first_of (timer_list s') = Some t"
    using r assms(2) yz(3) by (cases ys) (auto simp: first_of_def)
  show "kernel_wf s' = kernel_wf s" using r(2) by (intro kernel_wf_cong) simp_all
qed

section \<open>Ticks over one-shot timers\<close>

text \<open>What a tick of \<open>elapsed\<close> does to one-shot timers: the expired ones finish, the others advance.\<close>

definition expired :: "u32 \<Rightarrow> kernel \<Rightarrow> tmid list \<Rightarrow> tmid list" where
  "expired elapsed s xs = filter (\<lambda>t. time_of s t \<le> elapsed) xs"

definition ticked_timer :: "u32 \<Rightarrow> exos_timer_t \<Rightarrow> exos_timer_t" where
  "ticked_timer elapsed x =
     (if Time x \<le> elapsed then x\<lparr>TState := EXOS_TIMER_FINISHED\<rparr> else x\<lparr>Time := Time x - elapsed\<rparr>)"

definition ticked :: "u32 \<Rightarrow> tmid list \<Rightarrow> kernel \<Rightarrow> kernel \<Rightarrow> bool" where
  "ticked elapsed xs s s' \<longleftrightarrow>
     timers s' = (\<lambda>t. if t \<in> set xs then ticked_timer elapsed (timers s t) else timers s t) \<and>
     resumed ((\<lambda>t. EventHandles (TimerEvent t)) ` set (expired elapsed s xs)) s s' \<and>
     (\<forall>t\<in>set (expired elapsed s xs). events s' (TimerEvent t) = (events s (TimerEvent t))\<lparr>EvState := True\<rparr>) \<and>
     (\<forall>e. e \<notin> TimerEvent ` set (expired elapsed s xs) \<longrightarrow> events s' e = events s e)"

definition one_shot :: "tmid list \<Rightarrow> kernel \<Rightarrow> bool" where
  "one_shot xs s \<longleftrightarrow> (\<forall>t\<in>set xs. Period (timers s t) = 0 \<and> \<not> AutoReset (events s (TimerEvent t)))"

lemma succ_in_mid: "n \<notin> set pre \<Longrightarrow> succ_in n (pre @ n # xs) = first_of xs"
  by (induction pre) (auto simp: first_of_def)

lemma upd_timer_sel [simp]:
  "threads (upd_timer t f s) = threads s" "handles (upd_timer t f s) = handles s"
  "events (upd_timer t f s) = events s" "mutexes (upd_timer t f s) = mutexes s" "ready (upd_timer t f s) = ready s"
  "waiting (upd_timer t f s) = waiting s" "wlists (upd_timer t f s) = wlists s"
  "running (upd_timer t f s) = running s" "timer_list (upd_timer t f s) = timer_list s"
  "ticks (upd_timer t f s) = ticks s" "timers (upd_timer t f s) = (timers s)(t := f (timers s t))"
  by (simp_all add: upd_timer_def)

lemma tick_keep_step:
  assumes "elapsed < time_of s n" and "n \<notin> set xs" and "kernel_wf s"
    and "ticked elapsed xs (upd_timer n (\<lambda>x. x\<lparr>Time := Time x - elapsed\<rparr>) s) s'"
  shows "ticked elapsed (n # xs) s s'"
proof -
  let ?s1 = "upd_timer n (\<lambda>x. x\<lparr>Time := Time x - elapsed\<rparr>) s"
  have e: "expired elapsed ?s1 xs = expired elapsed s (n # xs)"
    using assms(1,2) by (auto simp: expired_def intro!: filter_cong)
  have "resumed L ?s1 s' = resumed L s s'" for L by (rule resumed_cong) simp_all
  then show ?thesis
    using assms(1,2,4) unfolding ticked_def e by (auto simp: ticked_timer_def fun_eq_iff)
qed

lemma tick_fire_step:
  assumes le: "time_of s n \<le> elapsed" and n: "n \<notin> set xs"
    and ss: "same_timers (upd_timer n (\<lambda>x. x\<lparr>TState := EXOS_TIMER_FINISHED\<rparr>) s0) s2"
    and s0: "s0 = s\<lparr>timer_list := l\<rparr>"
    and r: "resumed {EventHandles (TimerEvent n)} (upd_timer n (\<lambda>x. x\<lparr>TState := EXOS_TIMER_FINISHED\<rparr>) s0) s2"
    and ev: "events s2 (TimerEvent n) = (events s (TimerEvent n))\<lparr>EvState := True\<rparr>" "\<forall>e. e \<noteq> TimerEvent n \<longrightarrow> events s2 e = events s e"
    and t: "ticked elapsed xs s2 s'"
  shows "ticked elapsed (n # xs) s s'"
proof -
  have tm: "timers s2 = (timers s)(n := (timers s n)\<lparr>TState := EXOS_TIMER_FINISHED\<rparr>)"
    using ss s0 by (simp add: same_timers_def)
  have e: "expired elapsed s (n # xs) = n # expired elapsed s2 xs"
    using le n tm by (auto simp: expired_def intro!: filter_cong)
  have nx: "n \<notin> set (expired elapsed s2 xs)" using n by (simp add: expired_def)
  have "resumed {EventHandles (TimerEvent n)} s s2"
    using r s0 by (subst (asm) resumed_cong[of _ s]) simp_all
  then have "resumed ({EventHandles (TimerEvent n)} \<union> (\<lambda>t. EventHandles (TimerEvent t)) ` set (expired elapsed s2 xs)) s s'"
    using t by (intro resumed_trans[of _ s s2]) (auto simp: ticked_def)
  moreover have "events s' (TimerEvent n) = (events s (TimerEvent n))\<lparr>EvState := True\<rparr>"
    using t ev(1) nx by (auto simp: ticked_def)
  moreover have "events s' (TimerEvent t) = (events s (TimerEvent t))\<lparr>EvState := True\<rparr>" if "t \<in> set (expired elapsed s2 xs)" for t
    using that t nx ev(2) by (auto simp: ticked_def)
  ultimately show ?thesis
    using t le n tm ev(2) unfolding ticked_def e by (auto simp: ticked_timer_def fun_eq_iff)
qed

lemma tick_scan_one_shot:
  assumes "kernel_wf s" and "timer_list s = pre @ xs" and "distinct (pre @ xs)" and "one_shot xs s"
    and "length xs \<le> fuel"
  shows "\<exists>s'. tick_scan fuel elapsed (first_of xs) s = Inr s' \<and> ticked elapsed xs s s' \<and>
    timer_list s' = pre @ filter (\<lambda>t. elapsed < time_of s t) xs \<and> ticks s' = ticks s"
  using assms
proof (induction fuel arbitrary: s pre xs)
  case 0
  then show ?case by (simp add: first_of_def ticked_def expired_def resumed_refl)
next
  case (Suc fuel)
  show ?case
  proof (cases xs)
    case Nil
    then show ?thesis using Suc.prems by (simp add: first_of_def ticked_def expired_def resumed_refl)
  next
    case (Cons n ys)
    have n: "n \<notin> set pre" "n \<notin> set ys" using Suc.prems(3) Cons by auto
    show ?thesis
    proof (cases "time_of s n \<le> elapsed")
      case False
      let ?s1 = "upd_timer n (\<lambda>x. x\<lparr>Time := Time x - elapsed\<rparr>) s"
      have wf1: "kernel_wf ?s1 = kernel_wf s" by (rule kernel_wf_cong) simp_all
      have f: "filter (\<lambda>t. elapsed < time_of ?s1 t) ys = filter (\<lambda>t. elapsed < time_of s t) ys"
        using n by (auto intro!: filter_cong)
      have os: "one_shot ys ?s1" using Suc.prems(4) Cons by (auto simp: one_shot_def)
      obtain s' where "tick_scan fuel elapsed (first_of ys) ?s1 = Inr s'" "ticked elapsed ys ?s1 s'"
        "timer_list s' = (pre @ [n]) @ filter (\<lambda>t. elapsed < time_of s t) ys" "ticks s' = ticks s"
        using Suc.IH[of ?s1 "pre @ [n]" ys] Suc.prems(1,2,3,5) Cons wf1 f os by auto
      then show ?thesis
        using tick_keep_step[of elapsed s n ys s'] False n Suc.prems(1,2) Cons succ_in_mid[OF n(1), of ys]
        by (auto simp: first_of_def[of "n # ys"])
    next
      case True
      let ?s0 = "s\<lparr>timer_list := pre @ ys\<rparr>"
      let ?s1 = "upd_timer n (\<lambda>x. x\<lparr>TState := EXOS_TIMER_FINISHED\<rparr>) ?s0"
      have wf1: "kernel_wf ?s1 = kernel_wf s" by (rule kernel_wf_cong) simp_all
      have os: "Period (timers s n) = 0" "\<not> AutoReset (events s (TimerEvent n))"
        using Suc.prems(4) Cons by (auto simp: one_shot_def)
      obtain s2 where s2: "exos_event_set (TimerEvent n) ?s1 = Inr s2" "resumed {EventHandles (TimerEvent n)} ?s1 s2"
        "same_timers ?s1 s2" "EvState (events s2 (TimerEvent n))"
        "\<forall>e. e \<noteq> TimerEvent n \<longrightarrow> events s2 e = events s e" "AutoReset (events s2 (TimerEvent n)) = AutoReset (events s (TimerEvent n))"
        using event_set_spec[of ?s1 "TimerEvent n"] wf1 Suc.prems(1) os by auto
      have ev: "events s2 (TimerEvent n) = (events s (TimerEvent n))\<lparr>EvState := True\<rparr>"
        using s2(4,6) by (cases "events s2 (TimerEvent n)"; cases "events s (TimerEvent n)") simp
      have tm: "timers s2 = (timers s)(n := (timers s n)\<lparr>TState := EXOS_TIMER_FINISHED\<rparr>)" "timer_list s2 = pre @ ys"
        "ticks s2 = ticks s" using s2(3) by (auto simp: same_timers_def)
      have f: "filter (\<lambda>t. elapsed < time_of s2 t) ys = filter (\<lambda>t. elapsed < time_of s t) ys"
        using n tm by (auto intro!: filter_cong)
      have "one_shot ys s2" using Suc.prems(4) Cons n tm s2(5) by (auto simp: one_shot_def)
      then obtain s' where s': "tick_scan fuel elapsed (first_of ys) s2 = Inr s'" "ticked elapsed ys s2 s'"
        "timer_list s' = pre @ filter (\<lambda>t. elapsed < time_of s t) ys" "ticks s' = ticks s"
        using Suc.IH[of s2 pre ys] Suc.prems Cons s2(2) tm f by (auto simp: resumed_def)
      have rem: "filter (\<lambda>x. x \<noteq> n) (timer_list s) = pre @ ys"
        using Suc.prems(2,3) Cons by (simp add: filter_neq_append_Cons)
      have "tick_scan (Suc fuel) elapsed (first_of xs) s = Inr s'"
        using True os(1) s2(1) s'(1) Cons Suc.prems(2) rem succ_in_mid[OF n(1), of ys] by (simp add: first_of_def[of "n # ys"] Let_def)
      moreover have "ticked elapsed (n # ys) s s'"
        using tick_fire_step[OF True n(2) s2(3) refl s2(2) ev s2(5) s'(2)] .
      ultimately show ?thesis using s'(3,4) Cons True by auto
    qed
  qed
qed

lemma sub_mono_u32: "c \<le> a \<Longrightarrow> a \<le> b \<Longrightarrow> a - c \<le> b - (c :: u32)"
  by (simp add: word_le_nat_alt unat_sub)

lemma sorted_map_filter_sub:
  assumes "sorted (map f xs)"
  shows "sorted (map (\<lambda>t. f t - c) (filter (\<lambda>t. c < (f t :: u32)) xs))"
  using assms by (induction xs) (auto intro!: sub_mono_u32)

lemma tick_handler_ticked:
  assumes wf: "kernel_wf s" and so: "timers_sorted s" and os: "one_shot (timer_list s) s"
    and fuel: "length (timer_list s) \<le> fuel"
  shows "\<exists>wait s'. tick_handler fuel elapsed s = Inr (wait, s') \<and> timers_sorted s' \<and> ticked elapsed (timer_list s) s s' \<and>
    timer_list s' = filter (\<lambda>t. elapsed < time_of s t) (timer_list s) \<and>
    wait = (case timer_list s' of [] \<Rightarrow> 0 | t # _ \<Rightarrow> Time (timers s' t)) \<and> ticks s' = ticks s + elapsed"
proof -
  let ?l = "filter (\<lambda>t. elapsed < time_of s t) (timer_list s)"
  obtain s1 where s1: "tick_scan fuel elapsed (first_of (timer_list s)) s = Inr s1" "ticked elapsed (timer_list s) s s1"
    "timer_list s1 = ?l" "ticks s1 = ticks s"
    using tick_scan_one_shot[of s "[]" "timer_list s" fuel] assms by (auto simp: timers_sorted_def)
  let ?s' = "s1\<lparr>ticks := ticks s1 + elapsed\<rparr>"
  let ?w = "case ?l of [] \<Rightarrow> 0 | t # _ \<Rightarrow> Time (timers ?s' t)"
  have tm: "Time (timers s1 t) = time_of s t - elapsed" "0 < Time (timers s1 t)" if "t \<in> set ?l" for t
    using that s1(2) by (auto simp: ticked_def ticked_timer_def word_gt_0)
  have "tick_handler fuel elapsed s = Inr (?w, ?s')"
  proof (cases ?l)
    case (Cons t ts)
    then show ?thesis using s1(1,3) tm(2)[of t] by (simp add: tick_handler_def)
  qed (use s1(1,3) in \<open>simp add: tick_handler_def\<close>)
  moreover have "resumed L s ?s' = resumed L s s1" for L by (rule resumed_cong2) simp_all
  then have "ticked elapsed (timer_list s) s ?s'" using s1(2) by (simp add: ticked_def)
  moreover have "map (time_of ?s') (timer_list ?s') = map (\<lambda>t. time_of s t - elapsed) ?l"
    using tm(1) s1(3) by simp
  then have "sorted (map (time_of ?s') (timer_list ?s'))"
    using so by (simp only: sorted_map_filter_sub timers_sorted_def)
  then have "timers_sorted ?s'" using so s1(3) by (simp add: timers_sorted_def)
  ultimately show ?thesis using s1(3,4) by (intro exI[of _ ?w] exI[of _ ?s']) simp
qed

section \<open>Periodic timers\<close>

text \<open>
  Two timers: timer 4 is periodic and expires at this tick, timer 5 is one-shot with five ticks left.
  The handler queues timer 4 again behind timer 5 and then follows its new link to the end of the list.
\<close>

definition periodic_kernel :: kernel where
  "periodic_kernel = sample_kernel\<lparr>
     timers := (\<lambda>t. if t = 4 then \<lparr>TState = EXOS_TIMER_RUNNING, Period = 10, Time = 1\<rparr>
                   else \<lparr>TState = EXOS_TIMER_RUNNING, Period = 0, Time = 5\<rparr>)\<rparr>"

lemma periodic_kernel_wf: "kernel_wf periodic_kernel"
  using sample_kernel_wf kernel_wf_cong(1)[of periodic_kernel sample_kernel] by (simp add: periodic_kernel_def)

text \<open>A periodic timer makes the timers it is queued behind lose the tick.\<close>

theorem tick_handler_periodic_skips:
  "\<exists>s'. tick_handler 2 1 periodic_kernel = Inr (5, s') \<and> timer_list s' = [5, 4] \<and>
     Time (timers s' 4) = 10 \<and> Time (timers s' 5) = Time (timers periodic_kernel 5)"
proof -
  let ?s1 = "upd_timer 4 (\<lambda>x. x\<lparr>Time := Period x\<rparr>) (periodic_kernel\<lparr>timer_list := [5]\<rparr>)"
  have "kernel_wf ?s1 = kernel_wf periodic_kernel" by (rule kernel_wf_cong) simp_all
  then obtain s2 where s2: "exos_event_reset (TimerEvent 4) ?s1 = Inr s2" "same_timers ?s1 s2"
    using event_reset_spec[of ?s1 "TimerEvent 4"] periodic_kernel_wf by auto
  have tl: "timer_list s2 = [5]" "Time (timers s2 4) = 10" "Time (timers s2 5) = 5"
    using s2(2) by (simp_all add: same_timers_def periodic_kernel_def)
  have enq: "snd (timer_enqueue 4 s2) = s2\<lparr>timer_list := [5, 4]\<rparr>"
    using tl by (simp add: timer_enqueue_def)
  have "timer_list periodic_kernel = [4, 5]" "Time (timers periodic_kernel 4) = 1" "Period (timers periodic_kernel 4) = 10"
    "Time (timers periodic_kernel 5) = 5"
    by (simp_all add: periodic_kernel_def sample_kernel_def)
  then have "tick_scan (Suc (Suc 0)) 1 (Some 4) periodic_kernel = Inr (s2\<lparr>timer_list := [5, 4]\<rparr>)"
    using s2(1) tl enq by (simp add: Let_def)
  then have "tick_scan 2 1 (first_of (timer_list periodic_kernel)) periodic_kernel = Inr (s2\<lparr>timer_list := [5, 4]\<rparr>)"
    by (simp add: first_of_def periodic_kernel_def sample_kernel_def eval_nat_numeral del: tick_scan.simps)
  then show ?thesis
    using tl by (simp add: tick_handler_def periodic_kernel_def)
qed

section \<open>Uptime\<close>

text \<open>
  The seconds counter and the fraction together count the ticks: as long as less than
  \<open>2 ^ 32\<close> ticks pass between two calls, no tick is lost and none is counted twice.
\<close>

lemma k_uptime_ticks:
  assumes "k_uptime time u = (up, u')" and "unat (fraction_ticks u) < 1000"
    and "unat (time - last_time u) + 1000 < 2 ^ 32" and "unat (seconds u) + 4294968 < 2 ^ 32"
  shows "unat (fraction_ticks u') < 1000" "up = seconds u'" "last_time u' = time"
    "1000 * unat (seconds u') + unat (fraction_ticks u') =
     1000 * unat (seconds u) + unat (fraction_ticks u) + unat (time - last_time u)"
proof -
  let ?f = "fraction_ticks u + (time - last_time u)"
  have f: "unat ?f = unat (fraction_ticks u) + unat (time - last_time u)"
    using assms(2,3) by (subst unat_add_lem[THEN iffD1]) simp_all
  have u: "u' = \<lparr>last_time = time, seconds = seconds u + ?f div 1000, fraction_ticks = ?f mod 1000\<rparr>" "up = seconds u'"
    using assms(1) by (auto simp: k_uptime_def Let_def)
  have "unat (?f div 1000) = unat ?f div 1000" "unat (?f mod 1000) = unat ?f mod 1000"
    by (simp_all add: unat_div unat_mod)
  moreover have "unat (?f div 1000) < 4294968"
    using f assms(2,3) by (simp add: unat_div less_mult_imp_div_less)
  then have "unat (seconds u + ?f div 1000) = unat (seconds u) + unat (?f div 1000)"
    using assms(4) by (subst unat_add_lem[THEN iffD1]) simp_all
  ultimately show "unat (fraction_ticks u') < 1000" "up = seconds u'" "last_time u' = time"
    "1000 * unat (seconds u') + unat (fraction_ticks u') =
     1000 * unat (seconds u) + unat (fraction_ticks u) + unat (time - last_time u)"
    using u f by simp_all
qed

section \<open>Waiting for an event\<close>

lemma event_wait_begin_cases:
  assumes "kernel_wf s" and "State (threads s (running s)) = EXOS_THREAD_READY"
    and "HState (handles s h) = WAIT_HANDLE_DETACHED" and "MaskUsed (threads s (running s)) \<noteq> - 1"
  shows "\<exists>k s'. exos_event_wait_begin fuel elapsed h th tm e 0 s = Inr (k, s') \<and> kernel_wf s' \<and>
    (if EvState (events s e) then k = NoWait \<and> EvState (events s' e) = (\<not> AutoReset (events s e))
     else \<exists>msk. k = WaitEvent msk \<and> blocked_on h msk (EventHandles e) s')"
proof -
  let ?s = "exos_thread_create_wait_handle h s"
  have wf: "kernel_wf ?s" using create_wait_handle_wf[OF assms(1,3)] .
  have rd: "State (threads ?s (running ?s)) = EXOS_THREAD_READY" using assms(2) by simp
  note cs = event.add_handle_cases[OF wf TrueI create_wait_handle_fresh(1) rd, of e]
  show ?thesis
  proof (cases "EvState (events s e)")
    case True
    then obtain s1 where s1: "event_cond e ?s = Inr (None, s1)" "EvState (events s1 e) = (\<not> AutoReset (events s e))"
      by (auto simp: event_cond_def)
    then show ?thesis
      using cs assms(4) True by (auto simp: exos_event_wait_begin_def exos_event_add_handle_def)
  next
    case False
    then have c: "event_cond e ?s = Inr (Some (EventHandles e), ?s)" by (simp add: event_cond_def)
    then obtain msk where msk: "exos_thread_add_wait_handle h (event_cond e) ?s = Inr (msk, added_handle h msk (EventHandles e) ?s)"
      "msk \<noteq> 0" "kernel_wf (added_handle h msk (EventHandles e) ?s)"
      using cs assms(4) by auto
    from wait_for_added[OF msk(3,2) rd] False msk show ?thesis
      by (auto simp: exos_event_wait_begin_def exos_event_add_handle_def)
  qed
qed

text \<open>A wait without time-out returns at once when the event is set, consuming it when it is auto-reset, and otherwise
  blocks the caller in the list of the event, so that a later set wakes it.
\<close>

theorem event_wait_blocks:
  assumes "kernel_wf s" and "State (threads s (running s)) = EXOS_THREAD_READY"
    and "HState (handles s h) = WAIT_HANDLE_DETACHED" and "MaskUsed (threads s (running s)) \<noteq> - 1"
  shows "\<exists>k s'. exos_event_wait_begin fuel elapsed h th tm e 0 s = Inr (k, s') \<and> kernel_wf s' \<and>
    (if EvState (events s e) then k = NoWait \<and> EvState (events s' e) = (\<not> AutoReset (events s e))
     else \<exists>msk. k = WaitEvent msk \<and> blocked_on h msk (EventHandles e) s')"
  using event_wait_begin_cases[OF assms] .

theorem event_wait_blocks_witness:
  "\<exists>msk s'. exos_event_wait_begin 0 0 8 9 6 (Ev 0) 0 sample_kernel = Inr (WaitEvent msk, s') \<and>
     blocked_on 8 msk (EventHandles (Ev 0)) s'"
  using event_wait_blocks[OF sample_kernel_wf, of 8 0 0 9 6 "Ev 0"]
  by (auto simp: sample_kernel_def sample_thread_def)

text \<open>C7: setting an event wakes every thread that waits for it, whatever its kind; the event stays set unless it is auto-reset
  and had waiters.
\<close>

theorem event_set_wakes:
  assumes "kernel_wf s" and "length (wlists s (EventHandles e)) < 2 ^ 32"
  shows "\<exists>s'. exos_event_set e s = Inr s' \<and> kernel_wf s' \<and> woken (EventHandles e) s s' \<and>
    EvState (events s' e) = (AutoReset (events s e) \<longrightarrow> wlists s (EventHandles e) = []) \<and>
    (\<forall>e'. e' \<noteq> e \<longrightarrow> events s' e' = events s e')"
proof -
  have "of_nat (length (wlists s (EventHandles e))) = (0 :: u32) \<longleftrightarrow> wlists s (EventHandles e) = []"
    using of_nat_u32_eq_0[OF assms(2)] by simp
  then show ?thesis
    using event_set_spec[OF assms(1), of e] resumed_woken[of "{EventHandles e}" s] by (auto simp: resumed_def)
qed

theorem event_set_wakes_witness:
  "\<exists>s'. exos_event_set (TimerEvent 4) sample_kernel = Inr s' \<and> 2 \<in> set (ready s') \<and> EvState (events s' (TimerEvent 4))"
  using event_set_wakes[OF sample_kernel_wf, of "TimerEvent 4"]
  by (auto simp: sample_kernel_def sample_thread_def woken_def)

text \<open>
  When the private timer of a timed wait is over before its handle could be queued, the wait
  reports success whether or not the event came.
\<close>

lemma event_wait_late_timer:
  "exos_event_wait_end fuel elapsed h th tm (WaitTimed event_mask 0) s = Inr (b, s') \<Longrightarrow> b"
  by (auto simp: exos_event_wait_end_def rbind_eq_Inr)

end
