(* ===== verification/Kernel_Steps.thy ===== *)
theory Kernel_Steps
  imports Timers_Inv
begin

text \<open>
  The kernel as a transition system.  A step is one kernel section (\<^verbatim>\<open>__kernel_do\<close> of
  \<^verbatim>\<open>thread.c\<close>, \<^verbatim>\<open>event.c\<close>, \<^verbatim>\<open>mutex.c\<close> and \<^verbatim>\<open>timer.c\<close>), one write of these
  files to a shared object outside of a section (the state of an event, a new object), a context switch,
  or a timer tick.  The calls of the components, blocking or not, are sequences of such steps, so that
  every interleaving at sections and writes is a path: a timed wait, for example, is the path
  \<open>new_handle\<close>, \<open>add_event\<close>, \<open>new_handle\<close>, \<open>timer_setup\<close>, \<open>event_create\<close>, \<open>add_timer\<close>, \<open>add_event\<close>,
  \<open>wait\<close>, \<open>schedule\<close>, \<open>dispose\<close>, \<open>rem_timer\<close>, \<open>dispose\<close>, with steps of others in between.  The
  sections of \<^verbatim>\<open>fifo.c\<close> reach the kernel state only through event calls, which are paths too;
  \<^verbatim>\<open>___ticks\<close>, \<^verbatim>\<open>___uptime\<close> and the section of \<^verbatim>\<open>thread_pool.c\<close> do not change it.

  The guards say that objects are used as their interface requires: a handle, thread, event, mutex or timer is
  not created again while it is in use, only a handle that was queued is resumed, and a thread that ends has
  disposed of its handles.  Steps that take or release a mutex carry a label, from which the number of times a
  thread holds a mutex is computed.
\<close>

section \<open>Steps\<close>

datatype klabel = Acquire tid mid | Release tid mid | Tau

definition fresh_handle :: "hid \<Rightarrow> kernel \<Rightarrow> bool" where
  "fresh_handle h s \<longleftrightarrow> handles s h = \<lparr>HState = WAIT_HANDLE_DETACHED, Owner = None, Mask = 0\<rparr>"

definition runnable :: "kernel \<Rightarrow> bool" where
  "runnable s \<longleftrightarrow> State (threads s (running s)) = EXOS_THREAD_READY"

text \<open>A thread that ends must not own a linked wait handle: they live on its stack.\<close>

definition no_handles :: "tid \<Rightarrow> kernel \<Rightarrow> bool" where
  "no_handles t s \<longleftrightarrow> (\<forall>h. HState (handles s h) \<noteq> WAIT_HANDLE_DETACHED \<longrightarrow> Owner (handles s h) \<noteq> Some t)"

inductive kstep :: "kernel \<Rightarrow> klabel \<Rightarrow> kernel \<Rightarrow> bool" where
  schedule: "kernel_schedule s = Inr t \<Longrightarrow> kstep s Tau (s\<lparr>running := t, switch_req := False\<rparr>)"
| new_handle: "runnable s \<Longrightarrow> HState (handles s h) = WAIT_HANDLE_DETACHED \<Longrightarrow>
    kstep s Tau (exos_thread_create_wait_handle h s)"
| add_join: "runnable s \<Longrightarrow> fresh_handle h s \<Longrightarrow>
    exos_thread_add_wait_handle h (join_cond t) s = Inr (msk, s') \<Longrightarrow> kstep s Tau s'"
| add_event: "runnable s \<Longrightarrow> fresh_handle h s \<Longrightarrow> exos_event_add_handle e h s = Inr (msk, s') \<Longrightarrow> kstep s Tau s'"
| lock_granted: "runnable s \<Longrightarrow> fresh_handle h s \<Longrightarrow>
    exos_thread_add_wait_handle h (mutex_cond m) s = Inr (0, s') \<Longrightarrow> kstep s (Acquire (running s) m) s'"
| lock_queued: "runnable s \<Longrightarrow> fresh_handle h s \<Longrightarrow> msk \<noteq> 0 \<Longrightarrow>
    exos_thread_add_wait_handle h (mutex_cond m) s = Inr (msk, s') \<Longrightarrow> kstep s Tau s'"
| try_granted: "runnable s \<Longrightarrow> exos_mutex_try m s = Inr (0, s') \<Longrightarrow> kstep s (Acquire (running s) m) s'"
| try_failed: "runnable s \<Longrightarrow> exos_mutex_try m s = Inr (- 1, s') \<Longrightarrow> kstep s Tau s'"
| unlock: "runnable s \<Longrightarrow> exos_mutex_unlock m s = Inr s' \<Longrightarrow> kstep s (Release (running s) m) s'"
| wait: "runnable s \<Longrightarrow> msk \<noteq> 0 \<Longrightarrow> exos_thread_wait msk s = Inr s' \<Longrightarrow> kstep s Tau s'"
| dispose: "runnable s \<Longrightarrow> exos_thread_dispose_wait_handle h s = Inr s' \<Longrightarrow> kstep s Tau s'"
| resume: "HState (handles s h) \<noteq> WAIT_HANDLE_DETACHED \<Longrightarrow> exos_thread_resume h s = Inr s' \<Longrightarrow> kstep s Tau s'"
| event_write: "\<not> AutoReset (events s e) \<or> \<not> b \<Longrightarrow> kstep s Tau (upd_event e (\<lambda>x. x\<lparr>EvState := b\<rparr>) s)"
| event_resume: "exos_thread_resume_all (EventHandles e) s = Inr (n, s') \<Longrightarrow> kstep s Tau s'"
| event_set: "AutoReset (events s e) \<Longrightarrow> k_event_set e s = Inr s' \<Longrightarrow> kstep s Tau s'"
| event_create: "wlists s (EventHandles e) = [] \<Longrightarrow> kstep s Tau (exos_event_create e a s)"
| mutex_create: "MOwner (mutexes s m) = None \<Longrightarrow> kstep s Tau (exos_mutex_create m s)"
| timer_setup: "t \<notin> set (timer_list s) \<Longrightarrow> kstep s Tau (upd_timer t (\<lambda>x. x\<lparr>Time := time, Period := period\<rparr>) s)"
| add_timer: "t \<notin> set (timer_list s) \<Longrightarrow> k_add_timer fuel elapsed t s = Inr s' \<Longrightarrow> kstep s Tau s'"
| rem_timer: "exos_timer_dispose fuel elapsed t s = Inr s' \<Longrightarrow> kstep s Tau s'"
| tick: "tick_handler fuel elapsed s = Inr (w, s') \<Longrightarrow> kstep s Tau s'"
| thread_setup: "State (threads s t) = EXOS_THREAD_DETACHED \<Longrightarrow> State x = EXOS_THREAD_DETACHED \<Longrightarrow>
    kstep s Tau (upd_thread t (\<lambda>_. x) s)"
| thread_add: "State (threads s t) = EXOS_THREAD_DETACHED \<Longrightarrow> k_add_thread t s = Inr s' \<Longrightarrow> kstep s Tau s'"
| thread_exit: "runnable s \<Longrightarrow> no_handles (running s) s \<Longrightarrow> exos_thread_exit r s = Inr s' \<Longrightarrow> kstep s Tau s'"

inductive_cases kstep_AcquireE: "kstep s (Acquire t m) s'"

section \<open>Invariant\<close>

definition kernel_inv :: "kernel \<Rightarrow> bool" where
  "kernel_inv s \<longleftrightarrow> kernel_wf s \<and> (\<forall>m. mutex_ok m s) \<and> events_ok s"

definition object_frame :: "kernel \<Rightarrow> kernel \<Rightarrow> bool" where
  "object_frame s s' \<longleftrightarrow> mutexes s' = mutexes s \<and>
     (\<forall>m. wlists s (MutexHandles m) = [] \<longrightarrow> wlists s' (MutexHandles m) = []) \<and>
     (\<forall>e. wlists s' (EventHandles e) = [] \<or>
        events s' e = events s e \<and> (wlists s (EventHandles e) = [] \<longrightarrow> wlists s' (EventHandles e) = []))"

lemma object_frame_refl: "object_frame s s"
  by (simp add: object_frame_def)

lemma object_frame_trans: "object_frame s s1 \<Longrightarrow> object_frame s1 s2 \<Longrightarrow> object_frame s s2"
  unfolding object_frame_def by metis

lemma object_frame_inv:
  assumes "kernel_inv s" "object_frame s s'" "kernel_wf s'"
  shows "kernel_inv s'"
proof -
  have "mutex_ok m s'" for m
  proof -
    have "mutex_ok m s" using assms(1) by (simp add: kernel_inv_def)
    then show ?thesis using assms(2) by (auto simp: mutex_ok_def object_frame_def split: option.splits)
  qed
  moreover have "events_ok s'"
    using assms(1,2) unfolding kernel_inv_def events_ok_def object_frame_def by metis
  ultimately show ?thesis using assms(3) by (simp add: kernel_inv_def)
qed

lemma resumed_event_frame:
  assumes "resumed {EventHandles e} s s'" "\<forall>e'. e' \<noteq> e \<longrightarrow> events s' e' = events s e'"
  shows "object_frame s s'"
  unfolding object_frame_def
proof (intro conjI allI)
  fix e'
  show "wlists s' (EventHandles e') = [] \<or>
    events s' e' = events s e' \<and> (wlists s (EventHandles e') = [] \<longrightarrow> wlists s' (EventHandles e') = [])"
    using assms by (cases "e' = e") (auto simp: resumed_def)
qed (use assms(1) in \<open>auto simp: resumed_def\<close>)

lemma event_set_inv: "kernel_wf s \<Longrightarrow> exos_event_set e s = Inr s' \<Longrightarrow> kernel_wf s' \<and> object_frame s s'"
  using event_set_spec[of s e] resumed_event_frame[of e s s'] by (auto simp: resumed_def)

lemma event_reset_inv: "kernel_wf s \<Longrightarrow> exos_event_reset e s = Inr s' \<Longrightarrow> kernel_wf s' \<and> object_frame s s'"
  using event_reset_spec[of s e] resumed_event_frame[of e s s'] by (auto simp: resumed_def)

text \<open>Changes of the timers alone are invisible to the invariant.\<close>

lemma timer_change_frame:
  assumes "threads s' = threads s" "handles s' = handles s" "ready s' = ready s" "waiting s' = waiting s"
    "wlists s' = wlists s" "events s' = events s" "mutexes s' = mutexes s"
  shows "kernel_wf s' = kernel_wf s" "object_frame s s'" "object_frame s' s''= object_frame s s''"
  using assms kernel_wf_cong(1)[of s' s] by (simp_all add: object_frame_def)

lemma timer_change_simps [simp]:
  "kernel_wf (upd_timer t f s) = kernel_wf s" "object_frame (upd_timer t f s) s' = object_frame s s'"
  "kernel_wf (s\<lparr>timer_list := l\<rparr>) = kernel_wf s" "object_frame (s\<lparr>timer_list := l\<rparr>) s' = object_frame s s'"
  "kernel_wf (s\<lparr>ticks := n\<rparr>) = kernel_wf s" "object_frame s (s\<lparr>ticks := n\<rparr>)"
  by (rule timer_change_frame; simp)+

lemma tick_scan_frame:
  "tick_scan fuel elapsed n s = Inr s' \<Longrightarrow> kernel_wf s \<Longrightarrow> kernel_wf s' \<and> object_frame s s'"
proof (induction fuel elapsed n s rule: tick_scan.induct)
  case (1 fuel elapsed s)
  then show ?case by (simp add: object_frame_refl)
next
  case (2 elapsed n s)
  then show ?case by simp
next
  case (3 fuel elapsed n s)
  let ?s1 = "s\<lparr>timer_list := filter (\<lambda>x. x \<noteq> n) (timer_list s)\<rparr>"
  let ?wf = "\<lambda>s0. kernel_wf s0 = kernel_wf s \<and> (\<forall>s''. object_frame s0 s'' = object_frame s s'')"
  consider "\<not> Time (timers s n) \<le> elapsed"
    | "Time (timers s n) \<le> elapsed" "Period (timers s n) \<noteq> 0"
    | "Time (timers s n) \<le> elapsed" "Period (timers s n) = 0" by blast
  then show ?case
  proof cases
    case a: 1
    let ?s2 = "upd_timer n (\<lambda>x. x\<lparr>Time := Time x - elapsed\<rparr>) s"
    have "?wf ?s2" by simp
    then show ?thesis using 3(3)[OF a refl] "3.prems" a by (simp add: Let_def)
  next
    case a: 2
    let ?s2 = "upd_timer n (\<lambda>x. x\<lparr>Time := Period x\<rparr>) ?s1"
    obtain s3 where s3: "exos_event_reset (TimerEvent n) ?s2 = Inr s3"
      "tick_scan fuel elapsed (succ_in n (timer_list (snd (timer_enqueue n s3)))) (snd (timer_enqueue n s3)) = Inr s'"
      using "3.prems"(1) a by (auto simp: Let_def rbind_eq_Inr)
    have "?wf ?s2" by simp
    then have f3: "kernel_wf s3" "object_frame s s3" using event_reset_inv[OF _ s3(1)] "3.prems"(2) by auto
    let ?s4 = "snd (timer_enqueue n s3)"
    have f4: "kernel_wf ?s4 = kernel_wf s3" "object_frame ?s4 s' = object_frame s3 s'"
      by (auto intro!: timer_change_frame simp: timer_enqueue_def split: option.splits)
    have "kernel_wf s' \<and> object_frame ?s4 s'"
      using 3(1)[OF a(1) refl refl _ refl s3(2)] a f4 f3 by simp
    then show ?thesis using f3 f4 object_frame_trans by blast
  next
    case a: 3
    let ?s2 = "upd_timer n (\<lambda>x. x\<lparr>TState := EXOS_TIMER_FINISHED\<rparr>) ?s1"
    obtain s3 where s3: "exos_event_set (TimerEvent n) ?s2 = Inr s3"
      "tick_scan fuel elapsed (succ_in n (timer_list s)) s3 = Inr s'"
      using "3.prems"(1) a by (auto simp: Let_def rbind_eq_Inr)
    have "?wf ?s2" by simp
    then have f3: "kernel_wf s3" "object_frame s s3" using event_set_inv[OF _ s3(1)] "3.prems"(2) by auto
    have "kernel_wf s' \<and> object_frame s3 s'"
      using 3(2)[OF a(1) refl refl _ s3(2) f3(1)] a by simp
    then show ?thesis using f3 object_frame_trans by blast
  qed
qed

lemma tick_handler_frame:
  assumes "tick_handler fuel elapsed s = Inr (w, s')" "kernel_wf s"
  shows "kernel_wf s' \<and> object_frame s s'"
proof -
  obtain s1 where s1: "tick_scan fuel elapsed (first_of (timer_list s)) s = Inr s1"
    "s' = s1\<lparr>ticks := ticks s1 + elapsed\<rparr>"
    using assms(1) unfolding tick_handler_def rbind_eq_Inr by auto
  have "kernel_wf s' = kernel_wf s1" "object_frame s1 s'"
    using s1(2) by simp_all
  then show ?thesis using tick_scan_frame[OF s1(1) assms(2)] object_frame_trans by blast
qed

text \<open>The sections of the timers: a change of the timers alone, then perhaps a tick.\<close>

definition timers_only :: "kernel \<Rightarrow> kernel \<Rightarrow> bool" where
  "timers_only s s' \<longleftrightarrow> threads s' = threads s \<and> handles s' = handles s \<and> ready s' = ready s \<and> waiting s' = waiting s \<and>
     wlists s' = wlists s \<and> events s' = events s \<and> mutexes s' = mutexes s"

lemma add_timer_cases:
  assumes "k_add_timer fuel elapsed t s = Inr s'"
  obtains s2 where "timers_only s s2" "s' = s2 \<or> (\<exists>w. tick_handler fuel elapsed s2 = Inr (w, s'))"
proof -
  obtain head s2 where e: "timer_enqueue t (upd_timer t (\<lambda>x. x\<lparr>TState := EXOS_TIMER_RUNNING, Time := Time x + elapsed\<rparr>) s) = (head, s2)"
    by fastforce
  then have "timers_only s s2" by (auto simp: timers_only_def timer_enqueue_def split: option.splits)
  moreover have "s' = s2 \<or> (\<exists>w. tick_handler fuel elapsed s2 = Inr (w, s'))"
    using assms e by (auto simp: k_add_timer_def Let_def rbind_eq_Inr split: if_splits)
  ultimately show thesis using that by blast
qed

lemma rem_timer_cases:
  assumes "exos_timer_dispose fuel elapsed t s = Inr s'"
  obtains s2 where "timers_only s s2" "s' = s2 \<or> (\<exists>w. tick_handler fuel elapsed s2 = Inr (w, s'))"
proof -
  have "timers_only s s" "timers_only s (s\<lparr>timer_list := filter (\<lambda>x. x \<noteq> t) (timer_list s)\<rparr>)" by (simp_all add: timers_only_def)
  then show thesis using that assms by (auto simp: exos_timer_dispose_def rbind_eq_Inr split: if_splits)
qed

lemma timer_section_frame:
  assumes "timers_only s s2" "s' = s2 \<or> (\<exists>w. tick_handler fuel elapsed s2 = Inr (w, s'))" "kernel_wf s"
  shows "kernel_wf s' \<and> object_frame s s'"
proof -
  have "kernel_wf s2" "object_frame s s2"
    using assms(1,3) timer_change_frame(1,2)[of s2 s] by (auto simp: timers_only_def)
  then show ?thesis using assms(2) tick_handler_frame object_frame_trans by blast
qed

lemma add_timer_frame: "kernel_wf s \<Longrightarrow> k_add_timer fuel elapsed t s = Inr s' \<Longrightarrow> kernel_wf s' \<and> object_frame s s'"
  by (erule add_timer_cases) (rule timer_section_frame)

lemma rem_timer_frame: "kernel_wf s \<Longrightarrow> exos_timer_dispose fuel elapsed t s = Inr s' \<Longrightarrow> kernel_wf s' \<and> object_frame s s'"
  by (erule rem_timer_cases) (rule timer_section_frame)

lemma event_resume_frame:
  assumes "kernel_wf s" "exos_thread_resume_all (EventHandles e) s = Inr (n, s')"
  shows "kernel_wf s' \<and> object_frame s s'"
  using resume_all_resumed[OF assms(1), of "EventHandles e"] assms(2) resumed_event_frame[of e s s']
  by (auto simp: resumed_def same_objects_def)

lemma resume_frame:
  assumes "kernel_wf s" "HState (handles s h) \<noteq> WAIT_HANDLE_DETACHED" "exos_thread_resume h s = Inr s'"
  shows "kernel_wf s' \<and> object_frame s s'"
proof -
  have core: "kernel_core s" and j: "join_ok s" using assms(1) by (simp_all add: kernel_wf_def)
  obtain t where t: "kernel_core s'" "wlists s' = wlists (complete_handle h t s)" "events s' = events s"
    "mutexes s' = mutexes s" "same_threads s s'"
    using resume_handle_wf[OF core assms(2)] assms(3) by (auto simp: exos_thread_resume_def)
  have sub: "wlists s' l = []" if "wlists s l = []" "\<nexists>u. l = Pending u" for l
    using that t(2) by (auto simp: complete_handle_def)
  then have "join_ok s'" using j t(5) by (auto simp: join_ok_def same_threads_def)
  then show ?thesis using t sub by (auto simp: kernel_wf_def object_frame_def)
qed

lemma thread_setup_frame:
  assumes "kernel_wf s" "State (threads s t) = EXOS_THREAD_DETACHED" "State x = EXOS_THREAD_DETACHED"
  shows "kernel_wf (upd_thread t (\<lambda>_. x) s) \<and> object_frame s (upd_thread t (\<lambda>_. x) s)"
  using replace_detached_wf[OF assms] by (simp add: object_frame_def upd_thread_def)

lemma event_write_inv:
  assumes "kernel_inv s" "\<not> AutoReset (events s e) \<or> \<not> b"
  shows "kernel_inv (upd_event e (\<lambda>x. x\<lparr>EvState := b\<rparr>) s)"
  using assms by (auto simp: kernel_inv_def mutex_ok_iff events_ok_def upd_event_def split: if_splits
      intro: upd_event_wf(1)[THEN iffD2, unfolded upd_event_def])

lemma event_create_inv:
  assumes "kernel_inv s" "wlists s (EventHandles e) = []"
  shows "kernel_inv (exos_event_create e a s)" "mutexes (exos_event_create e a s) = mutexes s"
    "threads (exos_event_create e a s) = threads s"
proof -
  have "kernel_wf (exos_event_create e a s)" using event_create_wf assms by (simp add: kernel_inv_def)
  then show "kernel_inv (exos_event_create e a s)"
    using assms by (auto simp: kernel_inv_def mutex_ok_iff events_ok_def exos_event_create_def upd_event_def upd_list_def)
qed (simp_all add: exos_event_create_def upd_event_def upd_list_def)

text \<open>A free mutex has the values that its creation gives it.\<close>

lemma mutex_create_same:
  assumes "kernel_inv s" "MOwner (mutexes s m) = None"
  shows "exos_mutex_create m s = s"
proof -
  have "mutex_ok m s" using assms(1) by (simp add: kernel_inv_def)
  then have "(mutexes s m)\<lparr>MOwner := None, Count := 0\<rparr> = mutexes s m"
    using assms(2) by (cases "mutexes s m") (simp add: mutex_ok_iff)
  then show ?thesis by (simp add: exos_mutex_create_def upd_mutex_def)
qed

lemma dispose_frame:
  assumes "kernel_wf s" "exos_thread_dispose_wait_handle h s = Inr s'"
  shows "kernel_wf s' \<and> object_frame s s'"
proof (cases "HState (handles s h) = WAIT_HANDLE_DETACHED")
  case True
  then show ?thesis using assms by (simp add: exos_thread_dispose_wait_handle_def object_frame_refl)
next
  case False
  then obtain t where "s' = disposed_handle h t s" "kernel_wf s'"
    using dispose_handle_wf[OF assms(1) False] assms(2) by (auto simp: exos_thread_dispose_wait_handle_def)
  then show ?thesis by (simp add: object_frame_def disposed_handle_def)
qed

lemma wait_frame:
  assumes "kernel_wf s" "runnable s" "msk \<noteq> 0" "exos_thread_wait msk s = Inr s'"
  shows "kernel_wf s' \<and> object_frame s s'"
  using k_wait_wf[OF assms(1) _ assms(3)] assms(2,4) by (auto simp: runnable_def exos_thread_wait_def object_frame_def)

lemma set_result_wf:
  assumes "kernel_wf s"
  shows "kernel_wf (upd_thread t (\<lambda>x. x\<lparr>Result := r\<rparr>) s)"
proof -
  let ?s = "upd_thread t (\<lambda>x. x\<lparr>Result := r\<rparr>) s"
  have "pri ?s = pri s" by (auto simp: pri_fun upd_thread_def)
  moreover have sel: "State (threads ?s u) = State (threads s u)" "MaskWait (threads ?s u) = MaskWait (threads s u)"
    "handles ?s = handles s" "wlists ?s = wlists s" "ready ?s = ready s" "waiting ?s = waiting s" for u
    by (simp_all add: upd_thread_def)
  ultimately have "threads_ok ?s = threads_ok s" "lists_ok ?s = lists_ok s" "wake_ok ?s = wake_ok s" "join_ok ?s = join_ok s"
    unfolding threads_ok_def lists_ok_def wake_ok_def join_ok_def by (simp_all only: sel)
  moreover have "handle_ok ?s h = handle_ok s h" for h by (auto simp: handle_ok_def upd_thread_def)
  then have "handles_ok ?s = handles_ok s" by (simp add: handles_ok_def upd_thread_def)
  ultimately show ?thesis using assms by (simp add: kernel_wf_def kernel_core_def)
qed

text \<open>The running thread, its result stored, is ready to be removed.\<close>

lemma exit_ready:
  assumes "runnable s" "no_handles (running s) s"
  shows "State (threads (upd_thread (running s) (\<lambda>x. x\<lparr>Result := r\<rparr>) s) (running s)) = EXOS_THREAD_READY"
    "\<And>h. HState (handles (upd_thread (running s) (\<lambda>x. x\<lparr>Result := r\<rparr>) s) h) \<noteq> WAIT_HANDLE_DETACHED \<Longrightarrow>
       Owner (handles (upd_thread (running s) (\<lambda>x. x\<lparr>Result := r\<rparr>) s) h) \<noteq> Some (running s)"
  using assms by (simp_all add: runnable_def no_handles_def upd_thread_def)

lemma exit_frame:
  assumes "kernel_wf s" "runnable s" "no_handles (running s) s" "exos_thread_exit r s = Inr s'"
  shows "kernel_wf s' \<and> object_frame s s'"
  using k_rem_thread_wf[OF set_result_wf[OF assms(1)] exit_ready[OF assms(2,3)], of r] assms(4)
  by (fastforce simp: exos_thread_exit_def thread_exit_def object_frame_def upd_thread_def)

lemma added_frame:
  assumes "kernel_wf (added_handle h msk l s)" "\<And>k. l = MutexHandles k \<Longrightarrow> MOwner (mutexes s k) \<noteq> None"
    "\<And>e. l = EventHandles e \<Longrightarrow> \<not> EvState (events s e)" "kernel_inv s"
  shows "kernel_inv (added_handle h msk l s)"
proof -
  have "mutex_ok k (added_handle h msk l s)" for k
  proof -
    have "mutex_ok k s" using assms(4) by (simp add: kernel_inv_def)
    moreover have "MutexHandles k \<noteq> l" if "MOwner (mutexes s k) = None" using assms(2)[of k] that by blast
    ultimately show ?thesis by (simp add: mutex_ok_iff added_handle_def)
  qed
  moreover have "events_ok (added_handle h msk l s)"
    using assms(3,4) by (auto simp: kernel_inv_def events_ok_def added_handle_def)
  ultimately show ?thesis using assms(1) by (simp add: kernel_inv_def)
qed

lemma acquired_inv:
  assumes "kernel_inv s" "Count (mutexes s m) \<noteq> - 1"
  shows "kernel_inv (acquired m s)"
proof -
  have "kernel_wf (acquired m s)" "events_ok (acquired m s)"
    using assms(1) by (simp_all add: kernel_inv_def events_ok_def acquired_def)
  then show ?thesis using assms acquired_ok by (simp add: kernel_inv_def)
qed

lemma lock_result:
  assumes "kernel_inv s" "runnable s" "fresh_handle h s"
    "exos_thread_add_wait_handle h (mutex_cond m) s = Inr (msk, s')"
  shows "(msk = 0 \<and> s' = acquired m s \<and> MOwner (mutexes s m) \<in> {None, Some (running s)}) \<or>
    (msk \<noteq> 0 \<and> kernel_inv s' \<and> mutexes s' = mutexes s)"
proof -
  have wf: "kernel_wf s" and ok: "mutex_ok m s" using assms(1) by (simp_all add: kernel_inv_def)
  have fr: "handles s h = \<lparr>HState = WAIT_HANDLE_DETACHED, Owner = None, Mask = 0\<rparr>"
    "State (threads s (running s)) = EXOS_THREAD_READY"
    using assms(2,3) by (simp_all add: fresh_handle_def runnable_def)
  from mutex_cond_cases[OF ok] mutex.add_handle_cases[OF wf ok fr] show ?thesis
  proof (elim disjE exE conjE)
    fix t l s1 n
    assume a: "MOwner (mutexes s m) = Some t" "mutex_cond m s = Inr (Some (MutexHandles m), s)"
      "mutex_cond m s = Inr (Some l, s1)" "n \<noteq> 0" "kernel_wf (added_handle h n l s1)"
      "exos_thread_add_wait_handle h (mutex_cond m) s = Inr (n, added_handle h n l s1)"
    have "kernel_inv (added_handle h n l s1)"
      using a assms(1) by (intro added_frame) auto
    then show ?thesis using a assms(4) by (auto simp: added_handle_def)
  qed (use assms(4) in auto)
qed

lemma event_add_inv:
  assumes "kernel_inv s" "runnable s" "fresh_handle h s" "exos_event_add_handle e h s = Inr (msk, s')"
  shows "kernel_inv s' \<and> mutexes s' = mutexes s"
proof -
  have wf: "kernel_wf s" using assms(1) by (simp add: kernel_inv_def)
  have fr: "handles s h = \<lparr>HState = WAIT_HANDLE_DETACHED, Owner = None, Mask = 0\<rparr>"
    "State (threads s (running s)) = EXOS_THREAD_READY"
    using assms(2,3) by (simp_all add: fresh_handle_def runnable_def)
  note ad = assms(4)[unfolded exos_event_add_handle_def]
  show ?thesis
  proof (cases "EvState (events s e)")
    case True
    obtain s1 where "event_cond e s = Inr (None, s1)" "s1 = s \<or> s1 = upd_event e (\<lambda>x. x\<lparr>EvState := False\<rparr>) s"
      using True by (auto simp: event_cond_def)
    moreover have "s' = s1" using event.add_handle_cases[OF wf TrueI fr, of e] ad calculation(1) by auto
    moreover have "kernel_inv (upd_event e (\<lambda>x. x\<lparr>EvState := False\<rparr>) s)"
      using assms(1) upd_event_wf[of e "\<lambda>x. x\<lparr>EvState := False\<rparr>" s]
      by (auto simp: kernel_inv_def mutex_ok_iff events_ok_def upd_event_def)
    ultimately show ?thesis using assms(1) by auto
  next
    case False
    then have "event_cond e s = Inr (Some (EventHandles e), s)" by (simp add: event_cond_def)
    then have "s' = added_handle h msk (EventHandles e) s" "kernel_wf s'"
      using event.add_handle_cases[OF wf TrueI fr, of e] ad by auto
    then show ?thesis using added_frame[of h msk "EventHandles e" s] False assms(1)
      by (auto simp: added_handle_def)
  qed
qed

lemma join_add_inv:
  assumes "kernel_inv s" "runnable s" "fresh_handle h s"
    "exos_thread_add_wait_handle h (join_cond t) s = Inr (msk, s')"
  shows "kernel_inv s' \<and> mutexes s' = mutexes s"
proof -
  have wf: "kernel_wf s" using assms(1) by (simp add: kernel_inv_def)
  have fr: "handles s h = \<lparr>HState = WAIT_HANDLE_DETACHED, Owner = None, Mask = 0\<rparr>"
    "State (threads s (running s)) = EXOS_THREAD_READY"
    using assms(2,3) by (simp_all add: fresh_handle_def runnable_def)
  have c: "join_cond t s = Inr (None, s) \<or> join_cond t s = Inr (Some (Joining t), s)" by (simp add: join_cond_def)
  then have "s' = s \<or> (s' = added_handle h msk (Joining t) s \<and> kernel_wf s')"
    using join.add_handle_cases[OF wf TrueI fr, of t] assms(4) by auto
  then show ?thesis using added_frame[of h msk "Joining t" s] assms(1) by (auto simp: added_handle_def)
qed

lemma try_result:
  assumes "kernel_inv s" "exos_mutex_try m s = Inr (r, s')"
  shows "(r = 0 \<and> s' = acquired m s \<and> MOwner (mutexes s m) \<in> {None, Some (running s)}) \<or> (r = - 1 \<and> s' = s)"
  using assms mutex_cond_cases[of m s] by (auto simp: kernel_inv_def exos_mutex_try_def)

lemma unlock_result:
  assumes "kernel_inv s" "exos_mutex_unlock m s = Inr s'"
  shows "MOwner (mutexes s m) = Some (running s)" "kernel_inv s'"
    "mutexes s' = (mutexes s)(m := (if Count (mutexes s m) = 1 then \<lparr>MOwner = None, Count = 0\<rparr>
                                     else \<lparr>MOwner = Some (running s), Count = Count (mutexes s m) - 1\<rparr>))"
proof -
  show own: "MOwner (mutexes s m) = Some (running s)"
    using assms(2) by (simp add: exos_mutex_unlock_def ASSERT_eq_Inr)
  have wf: "kernel_wf s" and ok: "mutex_ok m s" and oks: "\<And>k. mutex_ok k s" and ev: "events_ok s"
    using assms(1) by (auto simp: kernel_inv_def)
  have c0: "Count (mutexes s m) \<noteq> 0" using ok own by (simp add: mutex_ok_def)
  have "kernel_inv s' \<and> mutexes s' = (mutexes s)(m := (if Count (mutexes s m) = 1 then \<lparr>MOwner = None, Count = 0\<rparr>
                                     else \<lparr>MOwner = Some (running s), Count = Count (mutexes s m) - 1\<rparr>))"
  proof (cases "Count (mutexes s m) = 1")
    case True
    have s': "kernel_wf s'" "wlists s' (MutexHandles m) = []" "mutexes s' = (mutexes s)(m := \<lparr>MOwner = None, Count = 0\<rparr>)"
      "events s' = events s" "\<forall>l. l \<noteq> MutexHandles m \<longrightarrow> (\<nexists>u. l = Pending u) \<longrightarrow> wlists s' l = wlists s l"
      using unlock_last_spec[OF wf own True] assms(2) by (auto simp: woken_def)
    have "mutex_ok k s'" for k using s'(2,3,5) oks[of k] by (cases "k = m") (auto simp: mutex_ok_iff)
    moreover have "events_ok s'" using ev s'(4,5) by (auto simp: events_ok_def)
    ultimately show ?thesis using s' True by (simp add: kernel_inv_def)
  next
    case False
    have s': "s' = upd_mutex m (\<lambda>x. x\<lparr>Count := Count x - 1\<rparr>) s"
      using unlock_inner_spec[OF own c0 False] assms(2) by simp
    have "Count (mutexes s m) - 1 \<noteq> 0" using False by simp
    then have "mutex_ok k s'" for k using s' oks[of k] own by (cases "k = m") (auto simp: mutex_ok_iff)
    moreover have "kernel_wf s'" "events_ok s'" using wf ev s' by (simp_all add: events_ok_def)
    moreover have "(mutexes s m)\<lparr>Count := c\<rparr> = \<lparr>MOwner = Some (running s), Count = c\<rparr>" for c
      using own by (cases "mutexes s m") simp
    ultimately show ?thesis using s' False by (simp add: kernel_inv_def upd_mutex_def)
  qed
  then show "kernel_inv s'" "mutexes s' = (mutexes s)(m := (if Count (mutexes s m) = 1 then \<lparr>MOwner = None, Count = 0\<rparr>
      else \<lparr>MOwner = Some (running s), Count = Count (mutexes s m) - 1\<rparr>))" by simp_all
qed

lemma switch_frame:
  "kernel_wf (s\<lparr>running := t, switch_req := b\<rparr>) = kernel_wf s" "object_frame s (s\<lparr>running := t, switch_req := b\<rparr>)"
  by (rule timer_change_frame; simp)+

lemma frame_step: "kernel_inv s \<Longrightarrow> (kernel_wf s \<Longrightarrow> kernel_wf s' \<and> object_frame s s') \<Longrightarrow> kernel_inv s'"
  using object_frame_inv kernel_inv_def by blast

lemma kstep_inv:
  "kstep s l s' \<Longrightarrow> kernel_inv s \<Longrightarrow> (\<And>t m. l = Acquire t m \<Longrightarrow> Count (mutexes s m) \<noteq> - 1) \<Longrightarrow> kernel_inv s'"
proof (induction rule: kstep.induct)
  case (schedule s t)
  then show ?case using switch_frame by (auto intro: frame_step)
next
  case (new_handle s h)
  then have "kernel_wf s \<Longrightarrow> kernel_wf (exos_thread_create_wait_handle h s) \<and>
      object_frame s (exos_thread_create_wait_handle h s)"
    using create_wait_handle_wf by (simp add: object_frame_def)
  then show ?case using new_handle.prems(1) by (rule frame_step[rotated])
next
  case (thread_add s t s')
  then have "kernel_wf s \<Longrightarrow> kernel_wf s' \<and> object_frame s s'"
    using k_add_thread_wf[of s t] by (auto simp: object_frame_def)
  then show ?case using thread_add.prems(1) by (rule frame_step[rotated])
next
  case (add_join s h t msk s')
  then show ?case using join_add_inv by blast
next
  case (add_event s h e msk s')
  then show ?case using event_add_inv by blast
next
  case (lock_granted s h m s')
  then show ?case using lock_result[of s h m 0 s'] acquired_inv by auto
next
  case (lock_queued s h msk m s')
  then show ?case using lock_result by blast
next
  case (try_granted s m s')
  then show ?case using try_result[of s m 0 s'] acquired_inv by auto
next
  case (try_failed s m s')
  then show ?case using try_result[of s m "- 1" s'] by auto
next
  case (unlock s m s')
  then show ?case using unlock_result(2) by blast
next
  case (wait s msk s')
  then show ?case using wait_frame frame_step by blast
next
  case (dispose s h s')
  then show ?case using dispose_frame frame_step by blast
next
  case (resume s h s')
  then show ?case using resume_frame frame_step by blast
next
  case (event_write s e b)
  then show ?case using event_write_inv by blast
next
  case (event_resume e s n s')
  then show ?case using event_resume_frame frame_step by blast
next
  case (event_set s e s')
  then show ?case using event_set_inv[of s e s'] frame_step by (fastforce simp: exos_event_set_def)
next
  case (event_create s e a)
  then show ?case using event_create_inv by blast
next
  case (mutex_create s m)
  then show ?case using mutex_create_same by simp
next
  case (timer_setup t s time period)
  then show ?case by (auto simp: kernel_inv_def mutex_ok_iff events_ok_def)
next
  case (add_timer t s fuel elapsed s')
  then show ?case using add_timer_frame frame_step by blast
next
  case (rem_timer fuel elapsed t s s')
  then show ?case using rem_timer_frame frame_step by blast
next
  case (thread_setup s t x)
  then show ?case using thread_setup_frame frame_step by blast
next
  case (thread_exit s r s')
  then show ?case using exit_frame frame_step by blast
next
  case (tick fuel elapsed s w s')
  then show ?case using tick_handler_frame frame_step by blast
qed

section \<open>Runs and mutual exclusion\<close>

text \<open>A run records its labels, the latest first.\<close>

inductive krun :: "kernel \<Rightarrow> klabel list \<Rightarrow> kernel \<Rightarrow> bool" where
  start: "krun s [] s"
| step: "krun s tr s1 \<Longrightarrow> kstep s1 l s2 \<Longrightarrow> krun s (l # tr) s2"

text \<open>How often \<open>t\<close> has taken \<open>m\<close> without giving it back.\<close>

fun held :: "mid \<Rightarrow> tid \<Rightarrow> klabel list \<Rightarrow> nat" where
  "held m t [] = 0"
| "held m t (Acquire u k # tr) = (if u = t \<and> k = m then Suc (held m t tr) else held m t tr)"
| "held m t (Release u k # tr) = (if u = t \<and> k = m then held m t tr - 1 else held m t tr)"
| "held m t (Tau # tr) = held m t tr"

definition lock_inv :: "kernel \<Rightarrow> klabel list \<Rightarrow> bool" where
  "lock_inv s tr \<longleftrightarrow>
     (\<forall>m t. held m t tr = (if MOwner (mutexes s m) = Some t then unat (Count (mutexes s m)) else 0))"

lemma unat_inc: "c \<noteq> - 1 \<Longrightarrow> unat (c + 1) = Suc (unat c)" for c :: u32
proof -
  assume "c \<noteq> - 1"
  then have "1 + c \<noteq> 0" by (metis add.commute eq_neg_iff_add_eq_0)
  then show ?thesis by (simp add: unatSuc add.commute)
qed

lemma unat_dec: "c \<noteq> 0 \<Longrightarrow> unat (c - 1) = unat c - 1" for c :: u32
  by (simp add: unat_minus_one)

lemma lock_inv_acquire:
  assumes "kernel_inv s" "lock_inv s tr" "MOwner (mutexes s m) \<in> {None, Some (running s)}" "Count (mutexes s m) \<noteq> - 1"
  shows "lock_inv (acquired m s) (Acquire (running s) m # tr)"
proof -
  have "mutex_ok m s" using assms(1) by (simp add: kernel_inv_def)
  then have "MOwner (mutexes s m) = None \<Longrightarrow> Count (mutexes s m) = 0" by (simp add: mutex_ok_iff)
  then show ?thesis
    using assms(2,3) unat_inc[OF assms(4)] unfolding lock_inv_def by (auto simp: acquired_def upd_mutex_def)
qed

lemma lock_inv_release:
  assumes "kernel_inv s" "lock_inv s tr" "exos_mutex_unlock m s = Inr s'"
  shows "lock_inv s' (Release (running s) m # tr)"
proof -
  note u = unlock_result[OF assms(1,3)]
  have "mutex_ok m s" using assms(1) by (simp add: kernel_inv_def)
  then have "Count (mutexes s m) \<noteq> 0" using u(1) by (simp add: mutex_ok_iff)
  then show ?thesis
    using assms(2) u(1,3) unat_dec unfolding lock_inv_def by auto
qed

lemma lock_inv_tau: "lock_inv s tr \<Longrightarrow> mutexes s' = mutexes s \<Longrightarrow> lock_inv s' (Tau # tr)"
  by (simp add: lock_inv_def)

lemma frame_mutexes: "object_frame s s' \<Longrightarrow> mutexes s' = mutexes s"
  by (simp add: object_frame_def)

lemma kstep_lock_inv:
  "kstep s l s' \<Longrightarrow> kernel_inv s \<Longrightarrow> (\<And>t m. l = Acquire t m \<Longrightarrow> Count (mutexes s m) \<noteq> - 1) \<Longrightarrow> lock_inv s tr \<Longrightarrow>
   lock_inv s' (l # tr)"
proof (induction rule: kstep.induct)
  case (schedule s t)
  then show ?case using lock_inv_tau switch_frame(2) frame_mutexes by blast
next
  case (new_handle s h)
  then show ?case using lock_inv_tau by simp
next
  case (add_join s h t msk s')
  then show ?case using join_add_inv lock_inv_tau by blast
next
  case (add_event s h e msk s')
  then show ?case using event_add_inv lock_inv_tau by blast
next
  case (lock_granted s h m s')
  then show ?case using lock_result[of s h m 0 s'] lock_inv_acquire[of s tr m] by auto
next
  case (lock_queued s h msk m s')
  then show ?case using lock_result lock_inv_tau by blast
next
  case (try_granted s m s')
  then show ?case using try_result[of s m 0 s'] lock_inv_acquire[of s tr m] by auto
next
  case (try_failed s m s')
  then show ?case using try_result[of s m "- 1" s'] lock_inv_tau by auto
next
  case (unlock s m s')
  then show ?case using lock_inv_release by blast
next
  case (wait s msk s')
  then show ?case using wait_frame frame_mutexes lock_inv_tau kernel_inv_def by blast
next
  case (dispose s h s')
  then show ?case using dispose_frame frame_mutexes lock_inv_tau kernel_inv_def by blast
next
  case (resume s h s')
  then show ?case using resume_frame frame_mutexes lock_inv_tau kernel_inv_def by blast
next
  case (event_write s e b)
  then show ?case using lock_inv_tau by simp
next
  case (event_resume e s n s')
  then show ?case using event_resume_frame frame_mutexes lock_inv_tau kernel_inv_def by blast
next
  case (event_set s e s')
  then show ?case using event_set_inv[of s e s'] frame_mutexes lock_inv_tau by (fastforce simp: exos_event_set_def kernel_inv_def)
next
  case (event_create s e a)
  then show ?case using event_create_inv lock_inv_tau by blast
next
  case (mutex_create s m)
  then show ?case using mutex_create_same lock_inv_tau by simp
next
  case (timer_setup t s time period)
  then show ?case using lock_inv_tau by simp
next
  case (add_timer t s fuel elapsed s')
  then show ?case using add_timer_frame frame_mutexes lock_inv_tau kernel_inv_def by blast
next
  case (rem_timer fuel elapsed t s s')
  then show ?case using rem_timer_frame frame_mutexes lock_inv_tau kernel_inv_def by blast
next
  case (thread_setup s t x)
  then show ?case using thread_setup_frame frame_mutexes lock_inv_tau kernel_inv_def by blast
next
  case (thread_add s t s')
  then show ?case using k_add_thread_wf[of s t] lock_inv_tau by (auto simp: kernel_inv_def)
next
  case (thread_exit s r s')
  then show ?case using exit_frame frame_mutexes lock_inv_tau kernel_inv_def by blast
next
  case (tick fuel elapsed s w s')
  then show ?case using tick_handler_frame frame_mutexes lock_inv_tau kernel_inv_def by blast
qed

text \<open>The counter of a mutex has 32 bits: no thread takes a mutex \<open>2 ^ 32\<close> times without giving it back.\<close>

fun nesting_ok :: "klabel list \<Rightarrow> bool" where
  "nesting_ok [] = True"
| "nesting_ok (Acquire t m # tr) = (Suc (held m t tr) < 2 ^ 32 \<and> nesting_ok tr)"
| "nesting_ok (Release t m # tr) = nesting_ok tr"
| "nesting_ok (Tau # tr) = nesting_ok tr"

lemma nesting_ok_tl: "nesting_ok (l # tr) \<Longrightarrow> nesting_ok tr"
  by (cases l) auto

lemma acquire_count:
  assumes "kstep s (Acquire t m) s'" "kernel_inv s" "lock_inv s tr" "nesting_ok (Acquire t m # tr)"
  shows "Count (mutexes s m) \<noteq> - 1"
proof
  assume c: "Count (mutexes s m) = - 1"
  have own: "t = running s \<and> MOwner (mutexes s m) \<in> {None, Some (running s)}"
    using assms(1) lock_result[of s _ m 0 s', OF assms(2)] try_result[of s m 0 s', OF assms(2)] by (elim kstep_AcquireE) auto
  have "mutex_ok m s" using assms(2) by (simp add: kernel_inv_def)
  then have "MOwner (mutexes s m) = Some t" using own c by (auto simp: mutex_ok_iff)
  then have "held m t tr = unat (- 1 :: u32)" using assms(3) c by (simp add: lock_inv_def)
  then show False using assms(4) by (simp add: unsigned_minus_1_eq_mask mask_eq_exp_minus_1)
qed

lemma kstep_run:
  assumes "kstep s l s'" "kernel_inv s" "lock_inv s tr" "nesting_ok (l # tr)"
  shows "kernel_inv s' \<and> lock_inv s' (l # tr)"
proof -
  have "Count (mutexes s m) \<noteq> - 1" if "l = Acquire t m" for t m
    using acquire_count[OF _ assms(2,3)] assms(1,4) that by blast
  then show ?thesis using kstep_inv[OF assms(1,2)] kstep_lock_inv[OF assms(1,2) _ assms(3)] by blast
qed

lemma krun_inv:
  "krun s0 tr s \<Longrightarrow> nesting_ok tr \<Longrightarrow> kernel_inv s0 \<Longrightarrow> lock_inv s0 [] \<Longrightarrow> kernel_inv s \<and> lock_inv s tr"
  by (induction rule: krun.induct) (use kstep_run nesting_ok_tl in \<open>blast+\<close>)

text \<open>C1: on every run of the kernel from a state with free mutexes, on which no thread takes a mutex \<open>2 ^ 32\<close> times without
  giving it back, two threads never hold a mutex, and its owner and counter tell who holds it and how often.
\<close>

theorem mutex_exclusion:
  assumes "krun s0 tr s" and "nesting_ok tr" and "kernel_inv s0" and "\<forall>m. MOwner (mutexes s0 m) = None"
  shows "kernel_inv s \<and>
    (0 < held m t tr \<longrightarrow> MOwner (mutexes s m) = Some t \<and> unat (Count (mutexes s m)) = held m t tr) \<and>
    (0 < held m t tr \<longrightarrow> 0 < held m u tr \<longrightarrow> t = u)"
proof -
  have "lock_inv s0 []" using assms(4) by (simp add: lock_inv_def)
  then have "kernel_inv s \<and> lock_inv s tr" using krun_inv[OF assms(1-3)] by blast
  then show ?thesis unfolding lock_inv_def by (metis less_irrefl option.inject)
qed

definition free_kernel :: kernel where
  "free_kernel = sample_kernel\<lparr>mutexes := (\<lambda>_. \<lparr>MOwner = None, Count = 0\<rparr>)\<rparr>"

lemma free_kernel_inv: "kernel_inv free_kernel"
proof -
  have "kernel_wf free_kernel = kernel_wf sample_kernel"
    unfolding free_kernel_def by (rule kernel_wf_cong) simp_all
  moreover have "mutex_ok m free_kernel" for m by (simp add: mutex_ok_def free_kernel_def sample_kernel_def)
  moreover have "events_ok free_kernel" by (simp add: events_ok_def free_kernel_def sample_kernel_def)
  ultimately show ?thesis using sample_kernel_wf by (simp add: kernel_inv_def)
qed

theorem mutex_exclusion_witness:
  "\<exists>s. krun free_kernel [Acquire 1 3, Acquire 1 3] s \<and> kernel_inv s \<and> MOwner (mutexes s 3) = Some 1 \<and>
     unat (Count (mutexes s 3)) = 2"
proof -
  let ?s1 = "acquired 3 free_kernel"
  have k0: "exos_mutex_try 3 free_kernel = Inr (0, ?s1)" "runnable free_kernel" "running free_kernel = 1"
    using mutex_cond_cases[of 3 free_kernel] free_kernel_inv
    by (auto simp: exos_mutex_try_def kernel_inv_def free_kernel_def sample_kernel_def runnable_def sample_thread_def)
  have "kernel_inv ?s1" by (rule acquired_inv[OF free_kernel_inv]) (simp add: free_kernel_def)
  then have k1: "exos_mutex_try 3 ?s1 = Inr (0, acquired 3 ?s1)" "runnable ?s1" "running ?s1 = 1"
    using mutex_cond_cases[of 3 ?s1] k0(2,3)
    by (auto simp: exos_mutex_try_def kernel_inv_def acquired_def runnable_def)
  have "kstep free_kernel (Acquire (running free_kernel) 3) ?s1"
    by (rule try_granted[OF k0(2,1)])
  moreover have "kstep ?s1 (Acquire (running ?s1) 3) (acquired 3 ?s1)"
    by (rule try_granted[OF k1(2,1)])
  ultimately have run: "krun free_kernel [Acquire 1 3, Acquire 1 3] (acquired 3 ?s1)"
    using krun.intros k0(3) k1(3) by metis
  have "\<forall>m. MOwner (mutexes free_kernel m) = None" by (simp add: free_kernel_def)
  from mutex_exclusion[OF run _ free_kernel_inv this, of 3 1 1] run show ?thesis by auto
qed

section \<open>Wake-ups\<close>

text \<open>
  Resuming changes a handle only by completing it, and a thread leaves the wait state only
  when a completed handle of its own matches the mask it waits for.
\<close>

definition wake_justified :: "kernel \<Rightarrow> kernel \<Rightarrow> bool" where
  "wake_justified s s' \<longleftrightarrow>
     (\<forall>t. State (threads s t) = EXOS_THREAD_WAIT \<longrightarrow> State (threads s' t) \<noteq> EXOS_THREAD_WAIT \<longrightarrow>
        (\<exists>h. HState (handles s' h) = WAIT_HANDLE_DONE \<and> Owner (handles s' h) = Some t \<and>
             MaskWait (threads s t) AND Mask (handles s' h) \<noteq> 0))"

definition resume_mono :: "kernel \<Rightarrow> kernel \<Rightarrow> bool" where
  "resume_mono s s' \<longleftrightarrow>
     (\<forall>h. Owner (handles s' h) = Owner (handles s h) \<and> Mask (handles s' h) = Mask (handles s h) \<and>
        (HState (handles s h) = WAIT_HANDLE_DONE \<longrightarrow> HState (handles s' h) = WAIT_HANDLE_DONE)) \<and>
     (\<forall>t. MaskWait (threads s' t) = MaskWait (threads s t) \<and>
        (State (threads s t) \<noteq> EXOS_THREAD_WAIT \<longrightarrow> State (threads s' t) = State (threads s t))) \<and> wake_justified s s'"

lemma resume_mono_same: "threads s' = threads s \<Longrightarrow> handles s' = handles s \<Longrightarrow> resume_mono s s'"
  by (simp add: resume_mono_def wake_justified_def)

lemma resume_mono_trans: "resume_mono s s1 \<Longrightarrow> resume_mono s1 s2 \<Longrightarrow> resume_mono s s2"
  unfolding resume_mono_def wake_justified_def by metis

lemma resume_handle_mono:
  assumes "kernel_core s" "HState (handles s h) \<noteq> WAIT_HANDLE_DETACHED" "resume_handle h s = Inr s'"
  shows "resume_mono s s'"
proof -
  obtain t where t: "Owner (handles s h) = Some t"
    using assms(1,2) by (auto simp: kernel_core_def handles_ok_def handle_ok_def)
  show ?thesis
    using assms(3) resume_handle_eval[OF assms(1,2) t] t
    by (auto simp: resume_mono_def wake_justified_def wake_thread_def complete_handle_def split: if_splits)
qed

lemma resume_loop_mono:
  "resume_loop fuel l c s = Inr (n, s') \<Longrightarrow> kernel_core s \<Longrightarrow> resume_mono s s'"
proof (induction fuel arbitrary: c s)
  case (Suc fuel)
  show ?case
  proof (cases "wlists s l")
    case Nil
    then show ?thesis using Suc.prems by (auto intro: resume_mono_same)
  next
    case (Cons h hs)
    then obtain s1 where s1: "resume_handle h s = Inr s1" "resume_loop fuel l (c + 1) s1 = Inr (n, s')"
      using Suc.prems by (auto simp: rbind_eq_Inr)
    have h: "HState (handles s h) \<noteq> WAIT_HANDLE_DETACHED"
      using linked_not_detached[OF Suc.prems(2), of h l] Cons by simp
    have "kernel_core s1" using resume_handle_wf[OF Suc.prems(2) h] s1(1) by auto
    then show ?thesis
      using resume_handle_mono[OF Suc.prems(2) h s1(1)] Suc.IH[OF s1(2)] resume_mono_trans by blast
  qed
qed simp

lemma resume_all_mono: "exos_thread_resume_all l s = Inr (n, s') \<Longrightarrow> kernel_core s \<Longrightarrow> resume_mono s s'"
  unfolding exos_thread_resume_all_def rbind_eq_Inr using resume_loop_mono
  by (auto simp: ASSERT_eq_Inr simp del: resume_loop.simps)

lemma resume_mono_pre: "threads s0 = threads s \<Longrightarrow> handles s0 = handles s \<Longrightarrow> resume_mono s0 s' = resume_mono s s'"
  by (simp add: resume_mono_def wake_justified_def)

lemma resume_mono_pre_simps [simp]:
  "resume_mono (upd_event e f s) s' = resume_mono s s'" "resume_mono (upd_timer n g s) s' = resume_mono s s'"
  "resume_mono (s\<lparr>timer_list := l\<rparr>) s' = resume_mono s s'" "resume_mono (upd_mutex m k s) s' = resume_mono s s'"
  by (rule resume_mono_pre; simp)+

lemma event_set_mono:
  assumes "exos_event_set e s = Inr s'" "kernel_core s"
  shows "resume_mono s s'"
proof (cases "AutoReset (events s e)")
  case True
  then obtain n s1 where "exos_thread_resume_all (EventHandles e) s = Inr (n, s1)" "s' = upd_event e (\<lambda>x. x\<lparr>EvState := (n = 0)\<rparr>) s1"
    using assms(1) by (auto simp: exos_event_set_def k_event_set_def rbind_eq_Inr)
  then show ?thesis
    using resume_all_mono[OF _ assms(2)] resume_mono_trans[of s s1 s'] resume_mono_same[of s' s1] by simp
next
  case False
  then obtain n where "exos_thread_resume_all (EventHandles e) (upd_event e (\<lambda>x. x\<lparr>EvState := True\<rparr>) s) = Inr (n, s')"
    using assms(1) by (auto simp: exos_event_set_def rbind_eq_Inr)
  from resume_all_mono[OF this] show ?thesis using assms(2) by simp
qed

lemma event_reset_mono:
  assumes "exos_event_reset e s = Inr s'" "kernel_core s"
  shows "resume_mono s s'"
proof -
  obtain n where "exos_thread_resume_all (EventHandles e) (upd_event e (\<lambda>x. x\<lparr>EvState := False\<rparr>) s) = Inr (n, s')"
    using assms(1) by (auto simp: exos_event_reset_def rbind_eq_Inr)
  from resume_all_mono[OF this] show ?thesis using assms(2) by simp
qed

lemma tick_scan_mono:
  "tick_scan fuel elapsed n s = Inr s' \<Longrightarrow> kernel_wf s \<Longrightarrow> resume_mono s s'"
proof (induction fuel elapsed n s rule: tick_scan.induct)
  case (1 fuel elapsed s)
  then show ?case by (simp add: resume_mono_same)
next
  case (2 elapsed n s)
  then show ?case by simp
next
  case (3 fuel elapsed n s)
  let ?s1 = "s\<lparr>timer_list := filter (\<lambda>x. x \<noteq> n) (timer_list s)\<rparr>"
  have pre: "resume_mono (upd_timer n f ?s1) s'' = resume_mono s s''" "resume_mono (upd_timer n f s) s'' = resume_mono s s''"
    for f s'' by simp_all
  consider "\<not> Time (timers s n) \<le> elapsed"
    | "Time (timers s n) \<le> elapsed" "Period (timers s n) \<noteq> 0"
    | "Time (timers s n) \<le> elapsed" "Period (timers s n) = 0" by blast
  then show ?case
  proof cases
    case a: 1
    show ?thesis using 3(3)[OF a refl] "3.prems" a pre(2) by (simp add: Let_def)
  next
    case a: 2
    let ?s2 = "upd_timer n (\<lambda>x. x\<lparr>Time := Period x\<rparr>) ?s1"
    obtain s3 where s3: "exos_event_reset (TimerEvent n) ?s2 = Inr s3"
      "tick_scan fuel elapsed (succ_in n (timer_list (snd (timer_enqueue n s3)))) (snd (timer_enqueue n s3)) = Inr s'"
      using "3.prems"(1) a by (auto simp: Let_def rbind_eq_Inr)
    let ?s4 = "snd (timer_enqueue n s3)"
    have wf2: "kernel_wf ?s2" using "3.prems"(2) by simp
    have same: "kernel_wf ?s4 = kernel_wf s3" "threads ?s4 = threads s3" "handles ?s4 = handles s3"
      by (auto simp: timer_enqueue_def split: option.splits)
    have "kernel_wf ?s4" using event_reset_inv[OF wf2 s3(1)] same(1) by simp
    then have "resume_mono ?s4 s'" using 3(1)[OF a(1) refl refl _ refl s3(2)] a by simp
    moreover have "resume_mono s s3" using event_reset_mono[OF s3(1)] wf2 pre(1) by (simp add: kernel_wf_def)
    ultimately show ?thesis using resume_mono_trans resume_mono_pre[OF same(2,3)] by blast
  next
    case a: 3
    let ?s2 = "upd_timer n (\<lambda>x. x\<lparr>TState := EXOS_TIMER_FINISHED\<rparr>) ?s1"
    obtain s3 where s3: "exos_event_set (TimerEvent n) ?s2 = Inr s3"
      "tick_scan fuel elapsed (succ_in n (timer_list s)) s3 = Inr s'"
      using "3.prems"(1) a by (auto simp: Let_def rbind_eq_Inr)
    have wf2: "kernel_wf ?s2" using "3.prems"(2) by simp
    have "resume_mono s s3" using event_set_mono[OF s3(1)] wf2 pre(1) by (simp add: kernel_wf_def)
    moreover have "resume_mono s3 s'"
      using 3(2)[OF a(1) refl refl _ s3(2)] a event_set_inv[OF wf2 s3(1)] by simp
    ultimately show ?thesis using resume_mono_trans by blast
  qed
qed

lemma tick_handler_mono:
  assumes "tick_handler fuel elapsed s = Inr (w, s')" "kernel_wf s"
  shows "resume_mono s s'"
proof -
  obtain s1 where s1: "tick_scan fuel elapsed (first_of (timer_list s)) s = Inr s1"
    "s' = s1\<lparr>ticks := ticks s1 + elapsed\<rparr>"
    using assms(1) unfolding tick_handler_def rbind_eq_Inr by auto
  then show ?thesis
    using tick_scan_mono[OF s1(1) assms(2)] resume_mono_same[of s' s1] resume_mono_trans by auto
qed

lemma wake_same:
  "(\<And>t. State (threads s t) = EXOS_THREAD_WAIT \<Longrightarrow> State (threads s' t) = EXOS_THREAD_WAIT) \<Longrightarrow> wake_justified s s'"
  by (simp add: wake_justified_def)

lemma unlock_wake:
  assumes "exos_mutex_unlock m s = Inr s'" "kernel_core s"
  shows "wake_justified s s'"
proof -
  have "resume_mono s s1" if "exos_thread_resume_all l s0 = Inr (n, s1)" "kernel_core s0" "threads s0 = threads s"
    "handles s0 = handles s" for l s0 n s1
    using resume_all_mono[OF that(1,2)] resume_mono_pre[OF that(3,4)] by simp
  then show ?thesis
    using assms by (auto simp: exos_mutex_unlock_def k_unlock_def res_elims Let_def resume_mono_def
        split: if_splits intro: wake_same)
qed

lemma exit_wake:
  assumes "kernel_wf s" "runnable s" "no_handles (running s) s" "exos_thread_exit r s = Inr s'"
  shows "wake_justified s s'"
proof -
  let ?r = "running s" and ?s0 = "upd_thread (running s) (\<lambda>x. x\<lparr>Result := r\<rparr>) s"
  let ?s1 = "upd_thread ?r (\<lambda>x. x\<lparr>State := EXOS_THREAD_DETACHED\<rparr>) (unlink_thread ?r ?s0)"
  obtain n s2 where s2: "exos_thread_resume_all (Joining ?r) ?s1 = Inr (n, s2)" "s' = req_switch s2"
    using assms(4) by (auto simp: exos_thread_exit_def thread_exit_def k_rem_thread_def res_elims Let_def)
  have "resume_mono ?s1 s2"
    using resume_all_mono[OF s2(1)] rem_thread_core[OF set_result_wf[OF assms(1)] exit_ready[OF assms(2,3)], of r] by blast
  then have "wake_justified ?s1 s2" by (simp add: resume_mono_def)
  moreover have "State (threads ?s1 t) = EXOS_THREAD_WAIT \<and> MaskWait (threads ?s1 t) = MaskWait (threads s t)"
    if "State (threads s t) = EXOS_THREAD_WAIT" for t
    using that assms(2) by (auto simp: runnable_def kupd_defs)
  moreover have "threads s' = threads s2" "handles s' = handles s2" using s2(2) by (simp_all add: req_switch_def)
  ultimately show ?thesis unfolding wake_justified_def by metis
qed

lemma timer_section_mono:
  assumes "timers_only s s2" "s' = s2 \<or> (\<exists>w. tick_handler fuel elapsed s2 = Inr (w, s'))" "kernel_wf s"
  shows "resume_mono s s'"
proof -
  have "kernel_wf s2" "resume_mono s s2"
    using assms(1,3) timer_change_frame(1)[of s2 s] resume_mono_same[of s2 s] by (auto simp: timers_only_def)
  then show ?thesis using assms(2) tick_handler_mono resume_mono_trans by blast
qed

lemma add_timer_mono: "kernel_wf s \<Longrightarrow> k_add_timer fuel elapsed t s = Inr s' \<Longrightarrow> resume_mono s s'"
  by (erule add_timer_cases) (rule timer_section_mono)

lemma rem_timer_mono: "kernel_wf s \<Longrightarrow> exos_timer_dispose fuel elapsed t s = Inr s' \<Longrightarrow> resume_mono s s'"
  by (erule rem_timer_cases) (rule timer_section_mono)

lemma kstep_wake: "kstep s l s' \<Longrightarrow> kernel_inv s \<Longrightarrow> wake_justified s s'"
proof (induction rule: kstep.induct)
  case (add_join s h t msk s')
  then show ?case
    by (auto simp: exos_thread_add_wait_handle_def k_add_handle_def join_cond_def alloc_mask_def kupd_defs res_elims
        intro!: wake_same split: if_splits)
next
  case (add_event s h e msk s')
  then show ?case
    by (auto simp: exos_event_add_handle_def exos_thread_add_wait_handle_def k_add_handle_def event_cond_def upd_event_def
        alloc_mask_def kupd_defs res_elims intro!: wake_same split: if_splits)
next
  case (lock_granted s h m s')
  then show ?case using lock_result[of s h m 0 s'] by (auto simp: acquired_def intro!: wake_same)
next
  case (lock_queued s h msk m s')
  then show ?case
    using mutex_cond_cases[of m s]
    by (auto simp: kernel_inv_def exos_thread_add_wait_handle_def k_add_handle_def acquired_def
        alloc_mask_def kupd_defs res_elims intro!: wake_same split: if_splits)
next
  case (try_granted s m s')
  then show ?case using try_result[of s m 0 s'] by (auto simp: acquired_def intro!: wake_same)
next
  case (try_failed s m s')
  then show ?case using try_result[of s m "- 1" s'] by (auto intro!: wake_same)
next
  case (unlock s m s')
  then show ?case using unlock_wake by (simp add: kernel_inv_def kernel_wf_def)
next
  case (wait s msk s')
  then show ?case
    by (auto simp: exos_thread_wait_def k_wait_def Let_def kupd_defs res_elims intro!: wake_same split: option.splits)
next
  case (dispose s h s')
  then show ?case using exos_dispose_wf[of s h] by (auto simp: kernel_inv_def intro!: wake_same)
next
  case (resume s h s')
  then show ?case using resume_handle_mono[of s h s'] by (auto simp: kernel_inv_def kernel_wf_def resume_mono_def exos_thread_resume_def)
next
  case (event_resume e s n s')
  then show ?case using resume_all_mono by (auto simp: kernel_inv_def kernel_wf_def resume_mono_def)
next
  case (event_set s e s')
  then show ?case using event_set_mono[of e s s'] by (auto simp: kernel_inv_def kernel_wf_def resume_mono_def exos_event_set_def)
next
  case (add_timer t s fuel elapsed s')
  then show ?case using add_timer_mono by (auto simp: kernel_inv_def resume_mono_def)
next
  case (rem_timer fuel elapsed t s s')
  then show ?case using rem_timer_mono by (auto simp: kernel_inv_def resume_mono_def)
next
  case (thread_setup s t x)
  then show ?case by (auto simp: upd_thread_def intro!: wake_same)
next
  case (thread_add s t s')
  then show ?case by (auto simp: k_add_thread_def kupd_defs res_elims intro!: wake_same)
next
  case (tick fuel elapsed s w s')
  then show ?case using tick_handler_mono by (auto simp: kernel_inv_def resume_mono_def)
next
  case (thread_exit s r s')
  then show ?case using exit_wake by (simp add: kernel_inv_def)
qed (auto simp: event_create_inv(3) exos_mutex_create_def intro!: wake_same)

text \<open>C2: on every run of the kernel (from a state with free mutexes and without \<open>2 ^ 32\<close> nested locks, as for the exclusion), no step takes
  a thread out of its wait without a completed handle that it waits for.
\<close>

theorem no_spurious_wakeup:
  assumes "krun s0 tr s" and "kstep s l s'" and "nesting_ok (l # tr)" and "kernel_inv s0" and "\<forall>m. MOwner (mutexes s0 m) = None"
    and "State (threads s t) = EXOS_THREAD_WAIT" and "State (threads s' t) \<noteq> EXOS_THREAD_WAIT"
  shows "\<exists>h\<in>set (wlists s' (Pending t)). MaskWait (threads s t) AND Mask (handles s' h) \<noteq> 0"
proof -
  have inv: "kernel_inv s" "lock_inv s tr"
    using krun_inv[OF assms(1) nesting_ok_tl[OF assms(3)] assms(4)] assms(5) by (simp_all add: lock_inv_def)
  have "lists_ok s'" using kstep_run[OF assms(2) inv assms(3)] by (simp add: kernel_inv_def kernel_wf_def kernel_core_def)
  then have "h \<in> set (wlists s' (Pending t))"
    if "HState (handles s' h) = WAIT_HANDLE_DONE" "Owner (handles s' h) = Some t" for h
    using that by (simp add: lists_ok_def)
  moreover obtain h where "HState (handles s' h) = WAIT_HANDLE_DONE" "Owner (handles s' h) = Some t"
    "MaskWait (threads s t) AND Mask (handles s' h) \<noteq> 0"
    using kstep_wake[OF assms(2) inv(1)] assms(6,7) unfolding wake_justified_def by blast
  ultimately show ?thesis by blast
qed

theorem no_spurious_wakeup_witness:
  "\<exists>s'. kstep free_kernel Tau s' \<and> State (threads free_kernel 2) = EXOS_THREAD_WAIT \<and>
     State (threads s' 2) = EXOS_THREAD_READY \<and>
     (\<exists>h\<in>set (wlists s' (Pending 2)). MaskWait (threads free_kernel 2) AND Mask (handles s' h) \<noteq> 0)"
proof -
  have wf: "kernel_wf free_kernel" using free_kernel_inv by (simp add: kernel_inv_def)
  obtain n s' where s': "exos_thread_resume_all (EventHandles (TimerEvent 4)) free_kernel = Inr (n, s')"
    "resumed {EventHandles (TimerEvent 4)} free_kernel s'"
    using resume_all_resumed[OF wf, of "EventHandles (TimerEvent 4)"] by blast
  have "woken (EventHandles (TimerEvent 4)) free_kernel s'" using resumed_woken[OF s'(2)] by simp
  then have "2 \<in> set (ready s')"
    by (auto simp: woken_def free_kernel_def sample_kernel_def sample_thread_def)
  then have rd: "State (threads s' 2) = EXOS_THREAD_READY"
    using s'(2) by (auto simp: resumed_def kernel_wf_def kernel_core_def threads_ok_def)
  have w: "State (threads free_kernel 2) = EXOS_THREAD_WAIT" by (simp add: free_kernel_def sample_kernel_def sample_thread_def)
  have free: "\<forall>m. MOwner (mutexes free_kernel m) = None" by (simp add: free_kernel_def)
  have st: "kstep free_kernel Tau s'" by (rule kstep.event_resume[OF s'(1)])
  show ?thesis
    using no_spurious_wakeup[OF krun.start st _ free_kernel_inv free w] rd w st by auto
qed

section \<open>Ticks\<close>

text \<open>The threads that a tick makes ready: those waiting with a handle in the list of an expired timer.\<close>

definition tick_wakes :: "u32 \<Rightarrow> kernel \<Rightarrow> tid \<Rightarrow> bool" where
  "tick_wakes elapsed s u \<longleftrightarrow> State (threads s u) = EXOS_THREAD_WAIT \<and>
     (\<exists>t\<in>set (timer_list s). Time (timers s t) \<le> elapsed \<and>
        (\<exists>h\<in>set (wlists s (EventHandles (TimerEvent t))).
           Owner (handles s h) = Some u \<and> MaskWait (threads s u) AND Mask (handles s h) \<noteq> 0))"

text \<open>The state of every thread after its handles in \<open>D\<close> completed.\<close>

lemma resumed_threads:
  assumes wf: "kernel_wf s" and r: "resumed L s s'" and m: "resume_mono s s'"
  shows "threads s' u =
    (if State (threads s u) = EXOS_THREAD_WAIT \<and>
        (\<exists>l\<in>L. \<exists>h\<in>set (wlists s l). Owner (handles s h) = Some u \<and> MaskWait (threads s u) AND Mask (handles s h) \<noteq> 0)
     then (threads s u)\<lparr>State := EXOS_THREAD_READY\<rparr> else threads s u)"
proof -
  let ?W = "\<exists>l\<in>L. \<exists>h\<in>set (wlists s l). Owner (handles s h) = Some u \<and> MaskWait (threads s u) AND Mask (handles s h) \<noteq> 0"
  have hs: "handles s' = done_handles (\<Union>l\<in>L. set (wlists s l)) s" and st: "same_threads s s'" and wf': "kernel_wf s'"
    using r by (simp_all add: resumed_def)
  have keep: "threads s' u = (threads s u)\<lparr>State := State (threads s' u)\<rparr>"
  proof -
    have "((threads s' u)\<lparr>State := State (threads s u)\<rparr>)\<lparr>State := State (threads s' u)\<rparr> = (threads s u)\<lparr>State := State (threads s' u)\<rparr>"
      using st by (simp add: same_threads_def)
    then show ?thesis by simp
  qed
  have "State (threads s' u) = EXOS_THREAD_READY" if w: "State (threads s u) = EXOS_THREAD_WAIT" and W: "?W"
  proof -
    obtain l h where l: "l \<in> L" "h \<in> set (wlists s l)" "Owner (handles s h) = Some u" "MaskWait (threads s u) AND Mask (handles s h) \<noteq> 0"
      using W by blast
    then have "u \<in> set (ready s')" using resumed_woken[OF r l(1)] by (auto simp: woken_def)
    then show ?thesis using wf' by (simp add: kernel_wf_def kernel_core_def threads_ok_def)
  qed
  moreover have "State (threads s' u) = EXOS_THREAD_WAIT" if w: "State (threads s u) = EXOS_THREAD_WAIT" and W: "\<not> ?W"
  proof (rule ccontr)
    assume "State (threads s' u) \<noteq> EXOS_THREAD_WAIT"
    then obtain h where h: "HState (handles s' h) = WAIT_HANDLE_DONE" "Owner (handles s' h) = Some u"
      "MaskWait (threads s u) AND Mask (handles s' h) \<noteq> 0"
      using m w unfolding resume_mono_def wake_justified_def by blast
    have own: "Owner (handles s h) = Some u" "Mask (handles s' h) = Mask (handles s h)"
      using h(2) m by (simp_all add: resume_mono_def)
    have "h \<notin> (\<Union>l\<in>L. set (wlists s l))" using W h(3) own by auto
    then have "HState (handles s h) = WAIT_HANDLE_DONE" using h(1) by (simp add: hs done_handles_def)
    then have "h \<in> set (wlists s (Pending u))" using wf own by (simp add: kernel_wf_def kernel_core_def lists_ok_def)
    then show False using wf w h(3) own(2) by (auto simp: kernel_wf_def kernel_core_def wake_ok_def)
  qed
  moreover have "State (threads s' u) = State (threads s u)" if "State (threads s u) \<noteq> EXOS_THREAD_WAIT"
    using m that by (simp add: resume_mono_def)
  ultimately have "State (threads s' u) =
      (if State (threads s u) = EXOS_THREAD_WAIT \<and> ?W then EXOS_THREAD_READY else State (threads s u))"
    by (cases "State (threads s u) = EXOS_THREAD_WAIT"; cases ?W; simp)
  then show ?thesis by (subst keep) simp
qed

text \<open>C5: a tick over one-shot timers is exact: the timers with at most the elapsed time left, and no others, leave the queue as
  finished, set their events and complete the handles queued there; the threads waiting for such a handle, and no
  others, become ready; every other timer keeps its state with the elapsed time taken off, and the other events, handles,
  lists, threads and mutexes do not change.  The result is the time left of the first timer.
\<close>

theorem tick_handler_fires:
  assumes wf: "kernel_wf s" and so: "timers_sorted s" and os: "one_shot (timer_list s) s"
    and fuel: "length (timer_list s) \<le> fuel"
  shows "\<exists>wait s'. tick_handler fuel elapsed s = Inr (wait, s') \<and> kernel_wf s' \<and> timers_sorted s' \<and>
    timer_list s' = filter (\<lambda>t. elapsed < Time (timers s t)) (timer_list s) \<and>
    (\<forall>t. timers s' t =
       (if t \<notin> set (timer_list s) then timers s t
        else if elapsed < Time (timers s t) then (timers s t)\<lparr>Time := Time (timers s t) - elapsed\<rparr>
        else (timers s t)\<lparr>TState := EXOS_TIMER_FINISHED\<rparr>)) \<and>
    (\<forall>e. let fired = \<exists>t\<in>set (timer_list s). Time (timers s t) \<le> elapsed \<and> e = TimerEvent t in
       events s' e = (if fired then (events s e)\<lparr>EvState := True\<rparr> else events s e) \<and>
       wlists s' (EventHandles e) = (if fired then [] else wlists s (EventHandles e))) \<and>
    (\<forall>h. handles s' h =
       (if \<exists>t\<in>set (timer_list s). Time (timers s t) \<le> elapsed \<and> h \<in> set (wlists s (EventHandles (TimerEvent t)))
        then (handles s h)\<lparr>HState := WAIT_HANDLE_DONE\<rparr> else handles s h)) \<and>
    (\<forall>u. threads s' u = (if tick_wakes elapsed s u then (threads s u)\<lparr>State := EXOS_THREAD_READY\<rparr> else threads s u)) \<and>
    (\<forall>m. wlists s' (MutexHandles m) = wlists s (MutexHandles m)) \<and> (\<forall>u. wlists s' (Joining u) = wlists s (Joining u)) \<and>
    mutexes s' = mutexes s \<and> running s' = running s \<and>
    wait = (case timer_list s' of [] \<Rightarrow> 0 | t # _ \<Rightarrow> Time (timers s' t)) \<and> ticks s' = ticks s + elapsed"
proof -
  let ?E = "set (expired elapsed s (timer_list s))"
  let ?L = "(\<lambda>t. EventHandles (TimerEvent t)) ` ?E"
  obtain wait s' where s': "tick_handler fuel elapsed s = Inr (wait, s')" "timers_sorted s'" "ticked elapsed (timer_list s) s s'"
    "timer_list s' = filter (\<lambda>t. elapsed < Time (timers s t)) (timer_list s)"
    "wait = (case timer_list s' of [] \<Rightarrow> 0 | t # _ \<Rightarrow> Time (timers s' t))" "ticks s' = ticks s + elapsed"
    using tick_handler_ticked[OF assms] by blast
  have r: "resumed ?L s s'" using s'(3) by (simp add: ticked_def)
  have E: "t \<in> ?E \<longleftrightarrow> t \<in> set (timer_list s) \<and> Time (timers s t) \<le> elapsed" for t by (auto simp: expired_def)
  have "timers s' t = (if t \<notin> set (timer_list s) then timers s t
        else if elapsed < Time (timers s t) then (timers s t)\<lparr>Time := Time (timers s t) - elapsed\<rparr>
        else (timers s t)\<lparr>TState := EXOS_TIMER_FINISHED\<rparr>)" for t
    using s'(3) by (auto simp: ticked_def ticked_timer_def)
  moreover have "events s' e = (if \<exists>t\<in>set (timer_list s). Time (timers s t) \<le> elapsed \<and> e = TimerEvent t
       then (events s e)\<lparr>EvState := True\<rparr> else events s e) \<and>
    wlists s' (EventHandles e) = (if \<exists>t\<in>set (timer_list s). Time (timers s t) \<le> elapsed \<and> e = TimerEvent t
       then [] else wlists s (EventHandles e))" for e
  proof -
    have "(\<exists>t\<in>set (timer_list s). Time (timers s t) \<le> elapsed \<and> e = TimerEvent t) \<longleftrightarrow> e \<in> TimerEvent ` ?E"
      "EventHandles e \<in> ?L \<longleftrightarrow> e \<in> TimerEvent ` ?E" using E by auto
    then show ?thesis using s'(3) r by (cases "e \<in> TimerEvent ` ?E") (auto simp: ticked_def resumed_def)
  qed
  moreover have "handles s' h = (if \<exists>t\<in>set (timer_list s). Time (timers s t) \<le> elapsed \<and> h \<in> set (wlists s (EventHandles (TimerEvent t)))
        then (handles s h)\<lparr>HState := WAIT_HANDLE_DONE\<rparr> else handles s h)" for h
    using r E by (auto simp: resumed_def done_handles_def)
  moreover have "threads s' u = (if tick_wakes elapsed s u then (threads s u)\<lparr>State := EXOS_THREAD_READY\<rparr> else threads s u)" for u
    using resumed_threads[OF wf r tick_handler_mono[OF s'(1) wf], of u] E by (simp add: tick_wakes_def Bex_def conj_ac)
  moreover have "wlists s' (MutexHandles m) = wlists s (MutexHandles m)" "wlists s' (Joining u) = wlists s (Joining u)" for m u
    using r by (auto simp: resumed_def)
  ultimately show ?thesis
    using s' r by (intro exI[of _ wait] exI[of _ s']) (simp add: resumed_def Let_def)
qed

theorem tick_handler_fires_witness:
  "\<exists>wait s'. tick_handler 2 5 sample_kernel = Inr (wait, s') \<and> timer_list s' = [5] \<and> wait = 4 \<and>
     State (threads s' 2) = EXOS_THREAD_READY \<and> threads s' 3 = threads sample_kernel 3 \<and>
     EvState (events s' (TimerEvent 4)) \<and> \<not> EvState (events s' (TimerEvent 5)) \<and> TState (timers s' 5) = EXOS_TIMER_RUNNING"
proof -
  have pre: "timers_sorted sample_kernel" "one_shot (timer_list sample_kernel) sample_kernel" "length (timer_list sample_kernel) \<le> 2"
    by (simp_all add: timers_sorted_def one_shot_def sample_kernel_def)
  have "tick_wakes 5 sample_kernel 2" "\<not> tick_wakes 5 sample_kernel 3"
    by (simp_all add: tick_wakes_def sample_kernel_def sample_thread_def)
  then show ?thesis
    using tick_handler_fires[OF sample_kernel_wf pre, of 5] by (auto simp: sample_kernel_def Let_def)
qed

section \<open>Ending and joining threads\<close>

text \<open>C6: a thread that ends completes the handles of all threads joining it, and the rest of each join then returns
  the result the thread ended with.
\<close>

theorem join_returns_result:
  assumes "kernel_wf s" and "runnable s" and "no_handles (running s) s"
  shows "\<exists>s'. exos_thread_exit r s = Inr s' \<and> kernel_wf s' \<and> State (threads s' (running s)) = EXOS_THREAD_DETACHED \<and>
    (\<forall>h\<in>set (wlists s (Joining (running s))). \<forall>u msk. msk \<noteq> 0 \<longrightarrow>
       (\<exists>s''. exos_thread_join_end h (running s) msk (s'\<lparr>running := u\<rparr>) = Inr (r, s'') \<and> kernel_wf s''))"
proof -
  let ?r = "running s"
  obtain s' where s': "exos_thread_exit r s = Inr s'" "kernel_wf s'" "State (threads s' ?r) = EXOS_THREAD_DETACHED"
    "Result (threads s' ?r) = r" "\<forall>h\<in>set (wlists s (Joining ?r)). HState (handles s' h) = WAIT_HANDLE_DONE"
    using k_rem_thread_wf[OF set_result_wf[OF assms(1)] exit_ready[OF assms(2,3)], of r]
    by (fastforce simp: exos_thread_exit_def thread_exit_def upd_thread_def)
  have "\<exists>s''. exos_thread_join_end h ?r msk (s'\<lparr>running := u\<rparr>) = Inr (r, s'') \<and> kernel_wf s''"
    if h: "h \<in> set (wlists s (Joining ?r))" and m: "msk \<noteq> 0" for h u msk
  proof -
    let ?s = "s'\<lparr>running := u\<rparr>"
    have wf: "kernel_wf ?s" using s'(2) kernel_wf_cong(1)[of ?s s'] by simp
    have dn: "HState (handles ?s h) = WAIT_HANDLE_DONE" using s'(5) h by simp
    then obtain t where "k_dispose_handle h ?s = Inr (disposed_handle h t ?s)" "kernel_wf (disposed_handle h t ?s)"
      using dispose_handle_wf[OF wf, of h] by auto
    moreover have "State (threads (disposed_handle h t ?s) ?r) = EXOS_THREAD_DETACHED"
      "Result (threads (disposed_handle h t ?s) ?r) = r"
      using s'(3,4) by (auto simp: disposed_handle_def)
    ultimately show ?thesis
      using dn m by (simp add: exos_thread_join_end_def finish_wait_def exos_thread_dispose_wait_handle_def)
  qed
  then show ?thesis using s' by blast
qed

definition join_kernel :: kernel where
  "join_kernel = sample_kernel\<lparr>wlists := (\<lambda>l. if l = Joining 1 then [7] else [])\<rparr>"

theorem join_returns_result_witness:
  "\<exists>s' s''. exos_thread_exit 42 join_kernel = Inr s' \<and> exos_thread_join_end 7 1 1 (s'\<lparr>running := 2\<rparr>) = Inr (42, s'')"
proof -
  have "kernel_wf join_kernel"
    using sample_kernel_wf by (auto simp: kernel_wf_def kernel_core_def join_kernel_def threads_ok_def lists_ok_def
        handles_ok_def handle_ok_def wake_ok_def join_ok_def sample_kernel_def sample_thread_def pri_fun split: if_splits)
  moreover have "runnable join_kernel" "no_handles (running join_kernel) join_kernel"
    by (simp_all add: runnable_def no_handles_def join_kernel_def sample_kernel_def sample_thread_def)
  moreover have "7 \<in> set (wlists join_kernel (Joining (running join_kernel)))" "running join_kernel = 1"
    by (simp_all add: join_kernel_def sample_kernel_def)
  ultimately show ?thesis using join_returns_result[of join_kernel 42] by (metis zero_neq_one)
qed

end
