(* ===== verification/Queues.thy ===== *)
theory Queues
  imports Prelude
begin

text \<open>
  Contracts of the kernel's buffers, independent of their representation: a byte stream with
  bounded room, which the ring buffer of \<^verbatim>\<open>iobuffer.c\<close> implements, and a queue of
  nodes, each in the queue at most once at a time, which \<^verbatim>\<open>fifo.c\<close> implements.
\<close>

section \<open>Bounded streams\<close>

datatype 'a stream_op = Put "'a list" | Get nat

text \<open>Run a sequence of writes and reads; collect what was accepted and what was delivered.\<close>

fun stream_run :: "('a list \<Rightarrow> 's \<Rightarrow> nat \<times> 's) \<Rightarrow> (nat \<Rightarrow> 's \<Rightarrow> 'a list \<times> 's) \<Rightarrow> 'a stream_op list \<Rightarrow> 's \<Rightarrow>
    'a list \<times> 'a list \<times> 's" where
  "stream_run put get [] s = ([], [], s)"
| "stream_run put get (Put xs # ops) s =
     (let (n, s1) = put xs s; (ins, outs, s2) = stream_run put get ops s1 in (take n xs @ ins, outs, s2))"
| "stream_run put get (Get n # ops) s =
     (let (ys, s1) = get n s; (ins, outs, s2) = stream_run put get ops s1 in (ins, ys @ outs, s2))"

locale stream =
  fixes ok :: "'s \<Rightarrow> bool" and buffered :: "'s \<Rightarrow> 'a list" and space :: "'s \<Rightarrow> nat"
    and put :: "'a list \<Rightarrow> 's \<Rightarrow> nat \<times> 's" and get :: "nat \<Rightarrow> 's \<Rightarrow> 'a list \<times> 's"
  assumes put_law: "ok s \<Longrightarrow> put xs s = (n, s') \<Longrightarrow>
      ok s' \<and> n = min (length xs) (space s) \<and> buffered s' = buffered s @ take n xs \<and> space s' = space s - n"
    and get_law: "ok s \<Longrightarrow> get n s = (ys, s') \<Longrightarrow>
      ok s' \<and> ys = take n (buffered s) \<and> buffered s' = drop n (buffered s) \<and> space s' = space s + length ys"
begin

text \<open>Nothing is lost, duplicated or reordered.\<close>

lemma run_in_order:
  "ok s \<Longrightarrow> stream_run put get ops s = (ins, outs, s') \<Longrightarrow>
     ok s' \<and> buffered s @ ins = outs @ buffered s' \<and> space s' + length (buffered s') = space s + length (buffered s)"
proof (induction ops arbitrary: s ins outs)
  case (Cons op ops)
  show ?case
  proof (cases op)
    case (Put xs)
    obtain n s1 where p: "put xs s = (n, s1)" by fastforce
    obtain ins1 outs1 s2 where r: "stream_run put get ops s1 = (ins1, outs1, s2)" by (metis prod_cases3)
    note law = put_law[OF Cons.prems(1) p]
    from law show ?thesis using Cons.IH[of s1 ins1 outs1] r Cons.prems(2) Put p by auto
  next
    case (Get n)
    obtain ys s1 where g: "get n s = (ys, s1)" by fastforce
    obtain ins1 outs1 s2 where r: "stream_run put get ops s1 = (ins1, outs1, s2)" by (metis prod_cases3)
    note law = get_law[OF Cons.prems(1) g]
    have split: "buffered s = ys @ buffered s1" using law by (metis append_take_drop_id)
    have eqs: "ins = ins1" "outs = ys @ outs1" "s' = s2" using r Cons.prems(2) Get g by auto
    have ih: "ok s2 \<and> buffered s1 @ ins1 = outs1 @ buffered s2 \<and>
        space s2 + length (buffered s2) = space s1 + length (buffered s1)"
      using Cons.IH[of s1 ins1 outs1] law r eqs by simp
    have "space s1 + length (buffered s1) = space s + length (buffered s)" using law unfolding split by simp
    then show ?thesis using ih unfolding eqs split by simp
  qed
qed simp

text \<open>What fits is read back unchanged.\<close>

lemma put_get:
  assumes "ok s" "buffered s = []" "length xs \<le> space s" "put xs s = (n, s1)"
  shows "n = length xs \<and> fst (get (length xs) s1) = xs"
proof -
  note law = put_law[OF assms(1,4)]
  obtain ys s2 where g: "get (length xs) s1 = (ys, s2)" by fastforce
  show ?thesis using law get_law[OF _ g] g assms(2,3) by simp
qed

end

section \<open>Node queues\<close>

datatype 'a queue_op = Enq 'a | Deq

text \<open>Run a sequence of calls; collect what the dequeue calls return.\<close>

fun queue_run :: "('a \<Rightarrow> 's \<Rightarrow> 's res) \<Rightarrow> ('s \<Rightarrow> ('a option \<times> 's) res) \<Rightarrow> 'a queue_op list \<Rightarrow> 's \<Rightarrow> ('a option list \<times> 's) res" where
  "queue_run enq deq [] s = Inr ([], s)"
| "queue_run enq deq (Enq x # ops) s = rbind (enq x s) (queue_run enq deq ops)"
| "queue_run enq deq (Deq # ops) s =
     rbind (deq s) (\<lambda>(x, s1). rbind (queue_run enq deq ops s1) (\<lambda>(outs, s2). Inr (x # outs, s2)))"

text \<open>The same on a list of nodes.  A sequence is legal when no node is queued while it is in the queue; a node that
  was dequeued may be queued again.\<close>

fun list_run :: "'a queue_op list \<Rightarrow> 'a list \<Rightarrow> 'a option list \<times> 'a list" where
  "list_run [] xs = ([], xs)"
| "list_run (Enq x # ops) xs = list_run ops (xs @ [x])"
| "list_run (Deq # ops) xs =
     (case xs of
        [] \<Rightarrow> (case list_run ops [] of (outs, ys) \<Rightarrow> (None # outs, ys))
      | x # r \<Rightarrow> (case list_run ops r of (outs, ys) \<Rightarrow> (Some x # outs, ys)))"

fun legal :: "'a list \<Rightarrow> 'a queue_op list \<Rightarrow> bool" where
  "legal xs [] = True"
| "legal xs (Enq x # ops) = (x \<notin> set xs \<and> legal (xs @ [x]) ops)"
| "legal xs (Deq # ops) = legal (tl xs) ops"

fun enqueued :: "'a queue_op list \<Rightarrow> 'a list" where
  "enqueued [] = []"
| "enqueued (Enq x # ops) = x # enqueued ops"
| "enqueued (Deq # ops) = enqueued ops"

definition delivered :: "'a option list \<Rightarrow> 'a list" where
  "delivered outs = concat (map (\<lambda>r. case r of None \<Rightarrow> [] | Some x \<Rightarrow> [x]) outs)"

lemma list_run_in_order: "list_run ops xs = (outs, ys) \<Longrightarrow> xs @ enqueued ops = delivered outs @ ys"
proof (induction ops xs arbitrary: outs rule: list_run.induct)
  case (3 ops xs)
  then show ?case by (cases xs) (auto simp: delivered_def split: prod.splits)
qed (auto simp: delivered_def)

locale queue =
  fixes ok :: "'s \<Rightarrow> bool" and node :: "'a \<Rightarrow> bool" and items :: "'s \<Rightarrow> 'a list" and err :: fault
    and enq :: "'a \<Rightarrow> 's \<Rightarrow> 's res" and deq :: "'s \<Rightarrow> ('a option \<times> 's) res"
  assumes enq_law: "ok s \<Longrightarrow> node x \<Longrightarrow> x \<notin> set (items s) \<Longrightarrow> \<exists>s'. enq x s = Inr s' \<and> ok s' \<and> items s' = items s @ [x]"
    and enq_twice: "ok s \<Longrightarrow> x \<in> set (items s) \<Longrightarrow> enq x s = Inl err"
    and deq_law: "ok s \<Longrightarrow> \<exists>s'. deq s = Inr (case items s of [] \<Rightarrow> None | x # _ \<Rightarrow> Some x, s') \<and> ok s' \<and> items s' = tl (items s)"
begin

text \<open>A legal sequence returns, and does to the queue what it does to the list.\<close>

lemma run_refines:
  "ok s \<Longrightarrow> \<forall>x\<in>set (enqueued ops). node x \<Longrightarrow> legal (items s) ops \<Longrightarrow>
     \<exists>outs s'. queue_run enq deq ops s = Inr (outs, s') \<and> ok s' \<and> list_run ops (items s) = (outs, items s')"
proof (induction ops arbitrary: s)
  case (Cons op ops)
  show ?case
  proof (cases op)
    case (Enq x)
    then obtain s1 where s1: "enq x s = Inr s1" "ok s1" "items s1 = items s @ [x]"
      using enq_law[OF Cons.prems(1), of x] Cons.prems(2,3) by auto
    from Cons.IH[OF s1(2)] show ?thesis using s1 Cons.prems(2,3) Enq by simp
  next
    case Deq
    obtain s1 where s1: "deq s = Inr (case items s of [] \<Rightarrow> None | x # _ \<Rightarrow> Some x, s1)" "ok s1" "items s1 = tl (items s)"
      using deq_law[OF Cons.prems(1)] by blast
    from Cons.IH[OF s1(2)] obtain outs s' where "queue_run enq deq ops s1 = Inr (outs, s')" "ok s'" "list_run ops (items s1) = (outs, items s')"
      using s1(3) Cons.prems(2,3) Deq by auto
    then show ?thesis using s1 Deq by (cases "items s") auto
  qed
qed simp

text \<open>Any other sequence stops at the first node that is queued while it is in the queue.\<close>

lemma run_illegal:
  "ok s \<Longrightarrow> \<forall>x\<in>set (enqueued ops). node x \<Longrightarrow> \<not> legal (items s) ops \<Longrightarrow> queue_run enq deq ops s = Inl err"
proof (induction ops arbitrary: s)
  case (Cons op ops)
  show ?case
  proof (cases op)
    case (Enq x)
    show ?thesis
    proof (cases "x \<in> set (items s)")
      case True
      then show ?thesis using enq_twice[OF Cons.prems(1)] Enq by simp
    next
      case False
      then obtain s1 where s1: "enq x s = Inr s1" "ok s1" "items s1 = items s @ [x]"
        using enq_law[OF Cons.prems(1), of x] Cons.prems(2) Enq by auto
      from Cons.IH[OF s1(2)] show ?thesis using s1 False Cons.prems(2,3) Enq by simp
    qed
  next
    case Deq
    obtain y s1 where s1: "deq s = Inr (y, s1)" "ok s1" "items s1 = tl (items s)"
      using deq_law[OF Cons.prems(1)] by blast
    from Cons.IH[OF s1(2)] show ?thesis using s1 Cons.prems(2,3) Deq by simp
  qed
qed simp

end

end
