(* ===== verification/IoBuffer.thy ===== *)
theory IoBuffer
  imports Kernel_Steps Queues
begin

text \<open>
  Byte ring buffers (\<^verbatim>\<open>exos/kernel/iobuffer.c\<close>).  Indices are 16-bit and one cell
  stays free; the buffer signals its readers and writers through two optional events of the
  kernel.  The abstract value of a buffer is the sequence of its unread bytes.
\<close>

section \<open>Operations\<close>

record io_buffer_t =
  Buffer :: "u8 list"
  Size :: u16
  ProduceIndex :: u16
  ConsumeIndex :: u16
  NotEmptyEvent :: "eid option"
  NotFullEvent :: "eid option"

definition exos_io_buffer_create :: "u8 list \<Rightarrow> u16 \<Rightarrow> eid option \<Rightarrow> eid option \<Rightarrow> io_buffer_t res" where
  "exos_io_buffer_create buffer sz not_empty not_full =
     ASSERT (sz \<noteq> 0) KERNEL_ERROR_KERNEL_PANIC
       (Inr \<lparr>Buffer = buffer, Size = sz, ProduceIndex = 0, ConsumeIndex = 0,
             NotEmptyEvent = not_empty, NotFullEvent = not_full\<rparr>)"

text \<open>The \<^verbatim>\<open>int\<close> index behind the producer, before it is stored back in 16 bits.\<close>

definition next_index :: "io_buffer_t \<Rightarrow> u16 \<Rightarrow> nat" where
  "next_index b i = (if unat i + 1 = unat (Size b) then 0 else unat i + 1)"

fun write_loop :: "u8 list \<Rightarrow> nat \<Rightarrow> io_buffer_t \<Rightarrow> kernel \<Rightarrow> (nat \<times> io_buffer_t \<times> kernel) res" where
  "write_loop [] n b k = Inr (n, b, k)"
| "write_loop (x # xs) n b k =
     (let index = next_index b (ProduceIndex b)
      in if index = unat (ConsumeIndex b)
         then rbind (when_event exos_event_reset (NotFullEvent b) k) (\<lambda>k1. Inr (n, b, k1))
         else write_loop xs (n + 1)
                (b\<lparr>Buffer := (Buffer b)[unat (ProduceIndex b) := x], ProduceIndex := of_nat index\<rparr>) k)"

definition exos_io_buffer_write :: "u8 list \<Rightarrow> io_buffer_t \<Rightarrow> kernel \<Rightarrow> (nat \<times> io_buffer_t \<times> kernel) res" where
  "exos_io_buffer_write xs b k =
     rbind (write_loop xs 0 b k) (\<lambda>(n, b1, k1).
       rbind (if n = length xs \<and> next_index b1 (ProduceIndex b1) = unat (ConsumeIndex b1)
              then when_event exos_event_reset (NotFullEvent b1) k1 else Inr k1) (\<lambda>k2.
         rbind (if n \<noteq> 0 then when_event exos_event_set (NotEmptyEvent b1) k2 else Inr k2)
           (\<lambda>k3. Inr (n, b1, k3))))"

fun read_loop :: "nat \<Rightarrow> u8 list \<Rightarrow> io_buffer_t \<Rightarrow> kernel \<Rightarrow> (u8 list \<times> io_buffer_t \<times> kernel) res" where
  "read_loop 0 out b k = Inr (out, b, k)"
| "read_loop (Suc n) out b k =
     (if ConsumeIndex b = ProduceIndex b
      then rbind (when_event exos_event_reset (NotEmptyEvent b) k) (\<lambda>k1. Inr (out, b, k1))
      else read_loop n (out @ [Buffer b ! unat (ConsumeIndex b)])
             (b\<lparr>ConsumeIndex := of_nat (next_index b (ConsumeIndex b))\<rparr>) k)"

definition exos_io_buffer_read :: "nat \<Rightarrow> io_buffer_t \<Rightarrow> kernel \<Rightarrow> (u8 list \<times> io_buffer_t \<times> kernel) res" where
  "exos_io_buffer_read n b k =
     rbind (read_loop n [] b k) (\<lambda>(out, b1, k1).
       rbind (if out \<noteq> [] then when_event exos_event_set (NotFullEvent b1) k1 else Inr k1)
         (\<lambda>k2. Inr (out, b1, k2)))"

definition exos_io_buffer_avail :: "io_buffer_t \<Rightarrow> nat" where
  "exos_io_buffer_avail b =
     (let avail = int (unat (ProduceIndex b)) - int (unat (ConsumeIndex b))
      in nat (if avail < 0 then avail + int (unat (Size b)) else avail))"

definition exos_io_buffer_discard :: "nat \<Rightarrow> io_buffer_t \<Rightarrow> kernel \<Rightarrow> (nat \<times> io_buffer_t \<times> kernel) res" where
  "exos_io_buffer_discard len b k =
     (if len = 0 then Inr (0, b, k)
      else let n = min len (exos_io_buffer_avail b);
               index = unat (ConsumeIndex b) + n;
               index' = if unat (Size b) \<le> index then index - unat (Size b) else index;
               b1 = b\<lparr>ConsumeIndex := of_nat index'\<rparr>
           in rbind (when_event exos_event_set (NotFullEvent b1) k) (\<lambda>k1. Inr (n, b1, k1)))"

text \<open>\<^verbatim>\<open>exos_io_buffer_peek\<close> returns the length of the contiguous run at \<open>offset\<close> and its index.\<close>

definition exos_io_buffer_peek :: "nat \<Rightarrow> io_buffer_t \<Rightarrow> nat \<times> nat option" where
  "exos_io_buffer_peek offset b =
     (let avail = exos_io_buffer_avail b
      in if avail \<le> offset then (0, None)
         else let index = unat (ConsumeIndex b) + offset
              in if index < unat (Size b)
                 then (if index + avail - offset < unat (Size b) then avail - offset else unat (Size b) - index, Some index)
                 else (avail - offset, Some (index - unat (Size b))))"

section \<open>Contents\<close>

definition iob_ok :: "io_buffer_t \<Rightarrow> bool" where
  "iob_ok b \<longleftrightarrow> Size b \<noteq> 0 \<and> length (Buffer b) = unat (Size b) \<and>
     ProduceIndex b < Size b \<and> ConsumeIndex b < Size b"

definition contents :: "io_buffer_t \<Rightarrow> u8 list" where
  "contents b = map (\<lambda>i. Buffer b ! ((unat (ConsumeIndex b) + i) mod unat (Size b))) [0..<exos_io_buffer_avail b]"

lemma length_contents [simp]: "length (contents b) = exos_io_buffer_avail b"
  by (simp add: contents_def)

lemma unat_lt2p_u16: "unat (x :: u16) < 65536"
  using unsigned_less[of x] by simp

lemma iob_okD:
  assumes "iob_ok b"
  shows "unat (ProduceIndex b) < unat (Size b)" "unat (ConsumeIndex b) < unat (Size b)" "unat (Size b) < 65536"
    "length (Buffer b) = unat (Size b)"
  using assms unat_lt2p_u16[of "Size b"] by (auto simp: iob_ok_def word_less_nat_alt)

lemma avail_arith:
  "c \<le> p + s \<Longrightarrow> nat (if int p - int c < 0 then int p - int c + int s else int p - int c) =
     (if c \<le> p then p - c else p + s - c)" for c p s :: nat
  by auto

lemma avail_nat:
  assumes "iob_ok b"
  shows "exos_io_buffer_avail b =
    (if unat (ConsumeIndex b) \<le> unat (ProduceIndex b) then unat (ProduceIndex b) - unat (ConsumeIndex b)
     else unat (ProduceIndex b) + unat (Size b) - unat (ConsumeIndex b))"
  unfolding exos_io_buffer_avail_def Let_def using iob_okD(2)[OF assms] by (intro avail_arith) linarith

lemma avail_less: "iob_ok b \<Longrightarrow> exos_io_buffer_avail b < unat (Size b)"
  using iob_okD[of b] by (auto simp: avail_nat)

lemma mod_twice: "a < 2 * s \<Longrightarrow> a mod s = (if a < s then a else a - s)" for a s :: nat
  by (simp add: mod_if)

lemma unat_of_index: "n < unat (Size b) \<Longrightarrow> unat (of_nat n :: u16) = n"
  using unat_lt2p_u16[of "Size b"] by (simp add: unat_of_nat)

lemma next_index_less: "iob_ok b \<Longrightarrow> unat i < unat (Size b) \<Longrightarrow> next_index b i < unat (Size b)"
  by (auto simp: next_index_def)

lemma next_index_mod: "unat i < unat (Size b) \<Longrightarrow> next_index b i = (unat i + 1) mod unat (Size b)"
  by (auto simp: next_index_def)

text \<open>Storing a byte appends it, taking one removes the first.\<close>

definition push :: "u8 \<Rightarrow> io_buffer_t \<Rightarrow> io_buffer_t" where
  "push x b = b\<lparr>Buffer := (Buffer b)[unat (ProduceIndex b) := x], ProduceIndex := of_nat (next_index b (ProduceIndex b))\<rparr>"

definition pull :: "io_buffer_t \<Rightarrow> io_buffer_t" where
  "pull b = b\<lparr>ConsumeIndex := of_nat (next_index b (ConsumeIndex b))\<rparr>"

lemma full_iff: "iob_ok b \<Longrightarrow> next_index b (ProduceIndex b) = unat (ConsumeIndex b) \<longleftrightarrow> exos_io_buffer_avail b = unat (Size b) - 1"
  using iob_okD[of b] by (auto simp: avail_nat next_index_def)

lemma empty_iff: "iob_ok b \<Longrightarrow> ConsumeIndex b = ProduceIndex b \<longleftrightarrow> exos_io_buffer_avail b = 0"
  using iob_okD[of b] by (auto simp: avail_nat word_unat_eq_iff)

lemma push_ok:
  assumes "iob_ok b"
  shows "iob_ok (push x b)"
proof -
  have "next_index b (ProduceIndex b) < unat (Size b)" using next_index_less iob_okD(1) assms by blast
  then show ?thesis using assms by (simp add: push_def iob_ok_def word_less_nat_alt unat_of_index)
qed

lemma pull_ok:
  assumes "iob_ok b"
  shows "iob_ok (pull b)"
proof -
  have "next_index b (ConsumeIndex b) < unat (Size b)" using next_index_less iob_okD(2) assms by blast
  then show ?thesis using assms by (simp add: pull_def iob_ok_def word_less_nat_alt unat_of_index)
qed

lemma push_avail:
  assumes "iob_ok b" "exos_io_buffer_avail b \<noteq> unat (Size b) - 1"
  shows "exos_io_buffer_avail (push x b) = Suc (exos_io_buffer_avail b)"
proof -
  have n: "unat (ProduceIndex (push x b)) = next_index b (ProduceIndex b)"
    using next_index_less[OF assms(1) iob_okD(1)[OF assms(1)]] by (simp add: push_def unat_of_index)
  have "ConsumeIndex (push x b) = ConsumeIndex b" "Size (push x b) = Size b" by (simp_all add: push_def)
  then show ?thesis
    using n assms iob_okD[OF assms(1)] by (auto simp: avail_nat push_ok next_index_def split: if_splits)
qed

lemma pull_avail:
  assumes "iob_ok b" "exos_io_buffer_avail b \<noteq> 0"
  shows "exos_io_buffer_avail (pull b) = exos_io_buffer_avail b - 1"
proof -
  have n: "unat (ConsumeIndex (pull b)) = next_index b (ConsumeIndex b)"
    using next_index_less[OF assms(1) iob_okD(2)[OF assms(1)]] by (simp add: pull_def unat_of_index)
  have "ProduceIndex (pull b) = ProduceIndex b" "Size (pull b) = Size b" by (simp_all add: pull_def)
  then show ?thesis
    using n assms iob_okD[OF assms(1)] by (auto simp: avail_nat pull_ok next_index_def split: if_splits)
qed

lemma produce_index_mod:
  assumes "iob_ok b"
  shows "unat (ProduceIndex b) = (unat (ConsumeIndex b) + exos_io_buffer_avail b) mod unat (Size b)"
proof -
  have "unat (ConsumeIndex b) + exos_io_buffer_avail b < 2 * unat (Size b)"
    using iob_okD(2)[OF assms] avail_less[OF assms] by linarith
  then show ?thesis using iob_okD[OF assms] by (simp add: mod_twice avail_nat[OF assms])
qed

lemma ring_index_neq:
  assumes "iob_ok b" "i < exos_io_buffer_avail b"
  shows "(unat (ConsumeIndex b) + i) mod unat (Size b) \<noteq> unat (ProduceIndex b)"
proof -
  have "unat (ConsumeIndex b) + i < 2 * unat (Size b)"
    using iob_okD(2)[OF assms(1)] avail_less[OF assms(1)] assms(2) by linarith
  then have "(unat (ConsumeIndex b) + i) mod unat (Size b) =
    (if unat (ConsumeIndex b) + i < unat (Size b) then unat (ConsumeIndex b) + i else unat (ConsumeIndex b) + i - unat (Size b))"
    by (rule mod_twice)
  then show ?thesis
    using assms(2) iob_okD[OF assms(1)] unfolding avail_nat[OF assms(1)] by (auto split: if_splits)
qed

lemma push_contents:
  assumes "iob_ok b" "exos_io_buffer_avail b \<noteq> unat (Size b) - 1"
  shows "contents (push x b) = contents b @ [x]"
proof -
  have "Buffer (push x b) ! ((unat (ConsumeIndex b) + i) mod unat (Size b)) =
      Buffer b ! ((unat (ConsumeIndex b) + i) mod unat (Size b))" if "i < exos_io_buffer_avail b" for i
    using ring_index_neq[OF assms(1) that] by (simp add: push_def)
  moreover have "Buffer (push x b) ! ((unat (ConsumeIndex b) + exos_io_buffer_avail b) mod unat (Size b)) = x"
    using produce_index_mod[OF assms(1)] iob_okD[OF assms(1)] by (simp add: push_def)
  moreover have "ConsumeIndex (push x b) = ConsumeIndex b" "Size (push x b) = Size b" by (simp_all add: push_def)
  ultimately show ?thesis by (simp add: contents_def push_avail[OF assms])
qed

lemma pull_contents:
  assumes "iob_ok b" "exos_io_buffer_avail b \<noteq> 0"
  shows "contents b = Buffer b ! unat (ConsumeIndex b) # contents (pull b)"
proof -
  obtain n where n: "exos_io_buffer_avail b = Suc n" using assms(2) by (cases "exos_io_buffer_avail b") auto
  have c: "unat (ConsumeIndex (pull b)) = (unat (ConsumeIndex b) + 1) mod unat (Size b)"
    using next_index_mod[OF iob_okD(2)[OF assms(1)]] next_index_less[OF assms(1) iob_okD(2)[OF assms(1)]]
    by (simp add: pull_def unat_of_index)
  have "[0..<Suc n] = 0 # map Suc [0..<n]" by (simp add: upt_conv_Cons map_Suc_upt del: upt_Suc)
  then have "contents b = Buffer b ! unat (ConsumeIndex b) #
      map (\<lambda>i. Buffer b ! ((unat (ConsumeIndex b) + Suc i) mod unat (Size b))) [0..<n]"
    using iob_okD[OF assms(1)] by (simp add: contents_def n o_def)
  moreover have "Buffer (pull b) = Buffer b" "Size (pull b) = Size b" by (simp_all add: pull_def)
  ultimately show ?thesis
    using pull_avail[OF assms] n c by (simp add: contents_def mod_add_left_eq)
qed

section \<open>Writing and reading\<close>

definition room :: "io_buffer_t \<Rightarrow> nat" where
  "room b = unat (Size b) - 1 - exos_io_buffer_avail b"

lemma push_sel [simp]:
  "Size (push x b) = Size b" "NotEmptyEvent (push x b) = NotEmptyEvent b" "NotFullEvent (push x b) = NotFullEvent b"
  "ConsumeIndex (push x b) = ConsumeIndex b"
  by (simp_all add: push_def)

lemma pull_sel [simp]:
  "Size (pull b) = Size b" "NotEmptyEvent (pull b) = NotEmptyEvent b" "NotFullEvent (pull b) = NotFullEvent b"
  by (simp_all add: pull_def)

lemma pull_index: "ConsumeIndex (pull b) = of_nat (next_index b (ConsumeIndex b))"
  by (simp add: pull_def)

lemma pull_n_eq: "(pull ^^ n) b = b\<lparr>ConsumeIndex := ConsumeIndex ((pull ^^ n) b)\<rparr>"
proof -
  have "\<exists>c. (pull ^^ n) b = b\<lparr>ConsumeIndex := c\<rparr>"
  proof (induction n)
    case (Suc n)
    then obtain c where "(pull ^^ n) b = b\<lparr>ConsumeIndex := c\<rparr>" by blast
    then have "(pull ^^ Suc n) b = pull (b\<lparr>ConsumeIndex := c\<rparr>)" by simp
    then show ?case by (auto simp: pull_def[of "b\<lparr>ConsumeIndex := c\<rparr>"])
  qed (auto intro: exI[of _ "ConsumeIndex b"])
  then show ?thesis by fastforce
qed

lemma room_push: "iob_ok b \<Longrightarrow> room b \<noteq> 0 \<Longrightarrow> room (push x b) = room b - 1"
  using push_avail[of b x] by (auto simp: room_def)

lemma room_0_iff: "iob_ok b \<Longrightarrow> room b = 0 \<longleftrightarrow> exos_io_buffer_avail b = unat (Size b) - 1"
  using avail_less[of b] by (auto simp: room_def)

lemma fold_push:
  "iob_ok b \<Longrightarrow> length xs \<le> room b \<Longrightarrow>
     iob_ok (fold push xs b) \<and> contents (fold push xs b) = contents b @ xs \<and> room (fold push xs b) = room b - length xs \<and>
     Size (fold push xs b) = Size b \<and> NotEmptyEvent (fold push xs b) = NotEmptyEvent b \<and>
     NotFullEvent (fold push xs b) = NotFullEvent b"
proof (induction xs arbitrary: b)
  case (Cons x xs)
  have r: "room b \<noteq> 0" using Cons.prems by auto
  then have "contents (push x b) = contents b @ [x]" using push_contents[OF Cons.prems(1)] room_0_iff[OF Cons.prems(1)] by simp
  then show ?case
    using Cons.IH[of "push x b"] Cons.prems push_ok[of b x] room_push[of b x] r by auto
qed simp

lemma write_loop_eq:
  "iob_ok b \<Longrightarrow> write_loop xs n b k =
     (if length xs \<le> room b then Inr (n + length xs, fold push xs b, k)
      else rbind (when_event exos_event_reset (NotFullEvent b) k)
             (\<lambda>k1. Inr (n + room b, fold push (take (room b) xs) b, k1)))"
proof (induction xs arbitrary: n b)
  case (Cons x xs)
  show ?case
  proof (cases "room b = 0")
    case True
    then have "next_index b (ProduceIndex b) = unat (ConsumeIndex b)"
      using full_iff[OF Cons.prems] room_0_iff[OF Cons.prems] by simp
    then show ?thesis using True by simp
  next
    case False
    then have "next_index b (ProduceIndex b) \<noteq> unat (ConsumeIndex b)"
      using full_iff[OF Cons.prems] room_0_iff[OF Cons.prems] by simp
    then have "write_loop (x # xs) n b k = write_loop xs (n + 1) (push x b) k" by (simp add: push_def)
    moreover obtain r where "room b = Suc r" using False by (cases "room b") auto
    ultimately show ?thesis
      using Cons.IH[of "push x b" "n + 1"] push_ok[OF Cons.prems] room_push[OF Cons.prems False] by simp
  qed
qed simp

lemma read_loop_eq:
  "iob_ok b \<Longrightarrow> read_loop n out b k =
     (if n \<le> exos_io_buffer_avail b then Inr (out @ take n (contents b), (pull ^^ n) b, k)
      else rbind (when_event exos_event_reset (NotEmptyEvent b) k)
             (\<lambda>k1. Inr (out @ contents b, (pull ^^ exos_io_buffer_avail b) b, k1)))"
proof (induction n arbitrary: out b)
  case (Suc n)
  show ?case
  proof (cases "exos_io_buffer_avail b = 0")
    case True
    then have "contents b = []" using length_contents[of b] by (metis length_0_conv)
    then show ?thesis using True empty_iff[OF Suc.prems] by simp
  next
    case False
    then have "read_loop (Suc n) out b k = read_loop n (out @ [Buffer b ! unat (ConsumeIndex b)]) (pull b) k"
      using empty_iff[OF Suc.prems] by (simp add: pull_def)
    moreover obtain a where "exos_io_buffer_avail b = Suc a" using False by (cases "exos_io_buffer_avail b") auto
    ultimately show ?thesis
      using Suc.IH[of "pull b"] pull_ok[OF Suc.prems] pull_avail[OF Suc.prems False] pull_contents[OF Suc.prems False]
      by (simp add: funpow_swap1)
  qed
qed simp

lemma pull_n:
  "iob_ok b \<Longrightarrow> n \<le> exos_io_buffer_avail b \<Longrightarrow>
     iob_ok ((pull ^^ n) b) \<and> contents ((pull ^^ n) b) = drop n (contents b) \<and>
     NotEmptyEvent ((pull ^^ n) b) = NotEmptyEvent b \<and> NotFullEvent ((pull ^^ n) b) = NotFullEvent b"
proof (induction n arbitrary: b)
  case (Suc n)
  then have a: "exos_io_buffer_avail b \<noteq> 0" by simp
  show ?case
    using Suc.IH[of "pull b"] Suc.prems pull_ok[OF Suc.prems(1)] pull_avail[OF Suc.prems(1) a] pull_contents[OF Suc.prems(1) a]
    by (simp add: funpow_swap1)
qed simp

lemma take_min_length: "take (min (length xs) n) xs = take n xs"
  by (auto simp: min_def)

lemma io_buffer_write_spec:
  assumes wf: "kernel_wf k" and ok: "iob_ok b"
  shows "\<exists>b' k'. exos_io_buffer_write xs b k = Inr (min (length xs) (room b), b', k') \<and> kernel_wf k' \<and>
    b' = fold push (take (room b) xs) b \<and>
    (\<forall>e. NotEmptyEvent b = Some e \<longrightarrow> min (length xs) (room b) \<noteq> 0 \<longrightarrow> \<not> AutoReset (events k e) \<longrightarrow> EvState (events k' e)) \<and>
    (\<forall>e. NotFullEvent b = Some e \<longrightarrow> NotEmptyEvent b \<noteq> Some e \<longrightarrow> room b' = 0 \<longrightarrow> \<not> EvState (events k' e)) \<and>
    (\<forall>e. NotEmptyEvent b \<noteq> Some e \<longrightarrow> room b' \<noteq> 0 \<or> NotFullEvent b \<noteq> Some e \<longrightarrow> events k' e = events k e)"
proof -
  let ?n = "min (length xs) (room b)" and ?b' = "fold push (take (room b) xs) b"
  have fp: "iob_ok ?b'" "room ?b' = room b - ?n" "NotEmptyEvent ?b' = NotEmptyEvent b" "NotFullEvent ?b' = NotFullEvent b"
    using fold_push[OF ok, of "take (room b) xs"] by (simp_all add: min.commute)
  obtain k1 where k1: "when_event exos_event_reset (NotFullEvent b) k = Inr k1" "kernel_wf k1"
    "\<forall>e. NotFullEvent b = Some e \<longrightarrow> \<not> EvState (events k1 e)" "\<forall>e. AutoReset (events k1 e) = AutoReset (events k e)"
    "\<forall>e. NotFullEvent b \<noteq> Some e \<longrightarrow> events k1 e = events k e"
    using when_event_reset[OF wf] by blast
  let ?k2 = "if room ?b' = 0 then k1 else k"
  have full: "next_index ?b' (ProduceIndex ?b') = unat (ConsumeIndex ?b') \<longleftrightarrow> room ?b' = 0"
    using full_iff[OF fp(1)] room_0_iff[OF fp(1)] by simp
  have wf2: "kernel_wf ?k2" using wf k1(2) by simp
  obtain k3 where k3: "when_event exos_event_set (NotEmptyEvent b) ?k2 = Inr k3" "kernel_wf k3"
    "\<forall>e. NotEmptyEvent b = Some e \<longrightarrow> \<not> AutoReset (events ?k2 e) \<longrightarrow> EvState (events k3 e)"
    "\<forall>e. NotEmptyEvent b \<noteq> Some e \<longrightarrow> events k3 e = events ?k2 e"
    using when_event_set[OF wf2] by blast
  have "exos_io_buffer_write xs b k =
      rbind (if ?n \<noteq> 0 then when_event exos_event_set (NotEmptyEvent b) ?k2 else Inr ?k2) (\<lambda>k3. Inr (?n, ?b', k3))"
  proof (cases "length xs \<le> room b")
    case True
    then show ?thesis
      using k1(1) fp full unfolding exos_io_buffer_write_def write_loop_eq[OF ok] by simp
  next
    case False
    then show ?thesis
      using k1(1) fp full unfolding exos_io_buffer_write_def write_loop_eq[OF ok] by simp
  qed
  then show ?thesis
    using k1 k3 wf2 by (cases "?n = 0"; cases "room ?b' = 0") simp_all
qed

lemma io_buffer_read_spec:
  assumes wf: "kernel_wf k" and ok: "iob_ok b"
  shows "\<exists>b' k'. exos_io_buffer_read n b k = Inr (take n (contents b), b', k') \<and> kernel_wf k' \<and>
    b' = (pull ^^ min n (exos_io_buffer_avail b)) b \<and>
    (\<forall>e. NotFullEvent b = Some e \<longrightarrow> take n (contents b) \<noteq> [] \<longrightarrow> \<not> AutoReset (events k e) \<longrightarrow> EvState (events k' e)) \<and>
    (\<forall>e. NotEmptyEvent b = Some e \<longrightarrow> NotFullEvent b \<noteq> Some e \<longrightarrow> exos_io_buffer_avail b < n \<longrightarrow> \<not> EvState (events k' e))"
proof -
  let ?a = "exos_io_buffer_avail b" and ?b' = "(pull ^^ min n (exos_io_buffer_avail b)) b"
  have ev: "NotFullEvent ?b' = NotFullEvent b" using pull_n[OF ok, of "min n ?a"] by simp
  obtain k1 where k1: "when_event exos_event_reset (NotEmptyEvent b) k = Inr k1" "kernel_wf k1"
    "\<forall>e. NotEmptyEvent b = Some e \<longrightarrow> \<not> EvState (events k1 e)" "\<forall>e. AutoReset (events k1 e) = AutoReset (events k e)"
    using when_event_reset[OF wf] by blast
  let ?k1 = "if n \<le> ?a then k else k1"
  have wf1: "kernel_wf ?k1" using wf k1(2) by simp
  obtain k2 where k2: "when_event exos_event_set (NotFullEvent b) ?k1 = Inr k2" "kernel_wf k2"
    "\<forall>e. NotFullEvent b = Some e \<longrightarrow> \<not> AutoReset (events ?k1 e) \<longrightarrow> EvState (events k2 e)"
    "\<forall>e. NotFullEvent b \<noteq> Some e \<longrightarrow> events k2 e = events ?k1 e"
    using when_event_set[OF wf1] by blast
  have "read_loop n [] b k = Inr (take n (contents b), ?b', ?k1)"
    using k1(1) unfolding read_loop_eq[OF ok] by (simp add: min_absorb1 min_absorb2)
  then have "exos_io_buffer_read n b k =
      rbind (if take n (contents b) \<noteq> [] then when_event exos_event_set (NotFullEvent b) ?k1 else Inr ?k1)
        (\<lambda>k2. Inr (take n (contents b), ?b', k2))"
    using ev by (simp add: exos_io_buffer_read_def)
  then show ?thesis
    using k1 k2 wf1 by (cases "take n (contents b) = []"; cases "n \<le> ?a") (simp_all del: take_eq_Nil)
qed

section \<open>The stream contract\<close>

text \<open>The buffer and the kernel its events live in, as one state.\<close>

definition iob_put :: "u8 list \<Rightarrow> io_buffer_t \<times> kernel \<Rightarrow> nat \<times> io_buffer_t \<times> kernel" where
  "iob_put xs s = (case exos_io_buffer_write xs (fst s) (snd s) of Inr r \<Rightarrow> r | Inl _ \<Rightarrow> (0, s))"

definition iob_get :: "nat \<Rightarrow> io_buffer_t \<times> kernel \<Rightarrow> u8 list \<times> io_buffer_t \<times> kernel" where
  "iob_get n s = (case exos_io_buffer_read n (fst s) (snd s) of Inr r \<Rightarrow> r | Inl _ \<Rightarrow> ([], s))"

definition iob_state_ok :: "io_buffer_t \<times> kernel \<Rightarrow> bool" where
  "iob_state_ok s \<longleftrightarrow> iob_ok (fst s) \<and> kernel_wf (snd s)"

lemma pull_room:
  assumes "iob_ok b" "n \<le> exos_io_buffer_avail b"
  shows "room ((pull ^^ n) b) = room b + n"
proof -
  have "Size ((pull ^^ n) b) = Size b" by (induction n) auto
  moreover have "exos_io_buffer_avail ((pull ^^ n) b) = exos_io_buffer_avail b - n"
    using pull_n[OF assms] length_contents by (metis length_drop)
  ultimately show ?thesis using assms avail_less[OF assms(1)] by (simp add: room_def)
qed

interpretation iob: stream iob_state_ok "contents \<circ> fst" "room \<circ> fst" iob_put iob_get
proof
  fix s xs n s'
  assume a: "iob_state_ok s" "iob_put xs s = (n, s')"
  obtain k' where "exos_io_buffer_write xs (fst s) (snd s) =
      Inr (min (length xs) (room (fst s)), fold push (take (room (fst s)) xs) (fst s), k')" "kernel_wf k'"
    using io_buffer_write_spec[of "snd s" "fst s" xs] a(1) by (auto simp: iob_state_ok_def)
  then show "iob_state_ok s' \<and> n = min (length xs) ((room \<circ> fst) s) \<and>
      (contents \<circ> fst) s' = (contents \<circ> fst) s @ take n xs \<and> (room \<circ> fst) s' = (room \<circ> fst) s - n"
    using fold_push[of "fst s" "take (room (fst s)) xs"] a
    by (auto simp: iob_put_def iob_state_ok_def take_min_length)
next
  fix s n ys s'
  assume a: "iob_state_ok s" "iob_get n s = (ys, s')"
  let ?m = "min n (exos_io_buffer_avail (fst s))"
  obtain k' where r: "exos_io_buffer_read n (fst s) (snd s) = Inr (take n (contents (fst s)), (pull ^^ ?m) (fst s), k')"
    "kernel_wf k'"
    using io_buffer_read_spec[of "snd s" "fst s" n] a(1) by (auto simp: iob_state_ok_def)
  have "drop ?m (contents (fst s)) = drop n (contents (fst s))" by (simp add: min_def)
  moreover have "?m \<le> exos_io_buffer_avail (fst s)" by simp
  ultimately show "iob_state_ok s' \<and> ys = take n ((contents \<circ> fst) s) \<and> (contents \<circ> fst) s' = drop n ((contents \<circ> fst) s) \<and>
      (room \<circ> fst) s' = (room \<circ> fst) s + length ys"
    using pull_n[of "fst s" ?m] pull_room[of "fst s" ?m] a r by (auto simp: iob_get_def iob_state_ok_def min.commute)
qed

text \<open>C11: over any sequence of writes and reads, and through any number of wrap-arounds of the ring, the bytes delivered
  followed by the bytes still buffered are the bytes buffered at first followed by the bytes accepted.
\<close>

theorem io_buffer_in_order:
  assumes "iob_ok b" and "kernel_wf k" and "stream_run iob_put iob_get ops (b, k) = (ins, outs, (b', k'))"
  shows "iob_ok b' \<and> kernel_wf k' \<and> contents b @ ins = outs @ contents b' \<and> length (contents b') \<le> unat (Size b') - 1"
  using iob.run_in_order[OF _ assms(3)] assms(1,2) avail_less[of b'] by (auto simp: iob_state_ok_def)

definition sample_buffer :: io_buffer_t where
  "sample_buffer = \<lparr>Buffer = [1, 2, 3, 4], Size = 4, ProduceIndex = 1, ConsumeIndex = 3,
     NotEmptyEvent = None, NotFullEvent = None\<rparr>"

theorem io_buffer_in_order_witness:
  "\<exists>ins outs b' k'. stream_run iob_put iob_get [Put [7, 8], Get 2, Put [9]] (sample_buffer, sample_kernel) =
     (ins, outs, (b', k')) \<and> [4, 1] @ ins = outs @ contents b'"
proof -
  have "iob_ok sample_buffer" by (simp add: iob_ok_def sample_buffer_def)
  moreover have "contents sample_buffer = [4, 1]"
    by (simp add: contents_def exos_io_buffer_avail_def sample_buffer_def upt_rec)
  moreover obtain ins outs b' k' where
    "stream_run iob_put iob_get [Put [7, 8], Get 2, Put [9]] (sample_buffer, sample_kernel) = (ins, outs, (b', k'))"
    by (metis prod_cases4)
  ultimately show ?thesis using io_buffer_in_order[OF _ sample_kernel_wf] by metis
qed

text \<open>A write signals its readers when it stored anything, and it leaves the not-full event reset exactly when it
  filled the buffer or found it full.
\<close>

theorem io_buffer_write_signals:
  assumes "iob_ok b" and "kernel_wf k" and "NotEmptyEvent b = Some e" and "NotFullEvent b = Some f" and "e \<noteq> f"
    and "\<not> AutoReset (events k e)"
  shows "\<exists>n b' k'. exos_io_buffer_write xs b k = Inr (n, b', k') \<and> contents b' = contents b @ take n xs \<and>
    (n \<noteq> 0 \<longrightarrow> EvState (events k' e)) \<and>
    EvState (events k' f) = (EvState (events k f) \<and> length (contents b') < unat (Size b) - 1)"
proof -
  let ?n = "min (length xs) (room b)" and ?b' = "fold push (take (room b) xs) b"
  have fp: "iob_ok ?b'" "contents ?b' = contents b @ take ?n xs" "Size ?b' = Size b"
    using fold_push[OF assms(1), of "take (room b) xs"] by (simp_all add: take_min_length)
  have full: "length (contents ?b') < unat (Size b) - 1 \<longleftrightarrow> room ?b' \<noteq> 0"
    unfolding length_contents using room_0_iff[OF fp(1)] avail_less[OF fp(1)] fp(3) by auto
  obtain k' where k': "exos_io_buffer_write xs b k = Inr (?n, ?b', k')"
    "?n \<noteq> 0 \<longrightarrow> EvState (events k' e)" "room ?b' = 0 \<longrightarrow> \<not> EvState (events k' f)"
    "room ?b' \<noteq> 0 \<longrightarrow> events k' f = events k f"
    using io_buffer_write_spec[OF assms(2,1), of xs] assms(3-6) by (metis option.inject)
  show ?thesis
    using k' fp(2) full by (intro exI[of _ ?n] exI[of _ ?b'] exI[of _ k']) auto
qed

theorem io_buffer_write_signals_witness:
  "\<exists>n b' k'. exos_io_buffer_write [7, 8] (sample_buffer\<lparr>NotEmptyEvent := Some (Ev 0), NotFullEvent := Some (Ev 1)\<rparr>) sample_kernel =
     Inr (n, b', k') \<and> EvState (events k' (Ev 1)) = (EvState (events sample_kernel (Ev 1)) \<and> length (contents b') < 3)"
proof -
  let ?b = "sample_buffer\<lparr>NotEmptyEvent := Some (Ev 0), NotFullEvent := Some (Ev 1)\<rparr>"
  have "iob_ok ?b" by (simp add: iob_ok_def sample_buffer_def)
  from io_buffer_write_signals[OF this sample_kernel_wf, of "Ev 0" "Ev 1" "[7, 8]"] show ?thesis
    by (auto simp: sample_buffer_def sample_kernel_def)
qed

text \<open>A peek returns a contiguous run of the array that holds the unread bytes from the offset on; the run is not empty
  unless the offset is past the end.
\<close>

theorem io_buffer_peek_run:
  assumes ok: "iob_ok b"
  shows "case exos_io_buffer_peek off b of
      (n, None) \<Rightarrow> n = 0 \<and> length (contents b) \<le> off
    | (n, Some i) \<Rightarrow> 0 < n \<and> i + n \<le> length (Buffer b) \<and> off + n \<le> length (contents b) \<and>
        take n (drop i (Buffer b)) = take n (drop off (contents b))"
proof (cases "exos_io_buffer_avail b \<le> off")
  case True
  then show ?thesis by (simp add: exos_io_buffer_peek_def)
next
  case False
  let ?c = "unat (ConsumeIndex b)" and ?s = "unat (Size b)" and ?a = "exos_io_buffer_avail b"
  define i where "i = (if ?c + off < ?s then ?c + off else ?c + off - ?s)"
  define n where "n = (if ?c + off < ?s \<and> \<not> ?c + ?a < ?s then ?s - (?c + off) else ?a - off)"
  have b: "?c < ?s" "?a < ?s" "length (Buffer b) = ?s" using iob_okD[OF ok] avail_less[OF ok] by auto
  have pk: "exos_io_buffer_peek off b = (n, Some i)"
    using False by (auto simp: exos_io_buffer_peek_def n_def i_def Let_def)
  have bounds: "0 < n" "i + n \<le> ?s" "off + n \<le> ?a" using False b by (auto simp: n_def i_def)
  have "Buffer b ! (i + j) = contents b ! (off + j)" if "j < n" for j
  proof -
    have "?c + (off + j) < 2 * ?s" using b that bounds(3) by linarith
    then have "(?c + (off + j)) mod ?s = i + j"
      using that b False by (simp add: mod_twice) (auto simp: i_def n_def split: if_splits)
    then show ?thesis using that bounds(3) by (simp add: contents_def)
  qed
  then have "take n (drop i (Buffer b)) = take n (drop off (contents b))"
    using bounds b(3) by (intro nth_equalityI) auto
  then show ?thesis using pk bounds b(3) by simp
qed

theorem io_buffer_peek_run_witness:
  "exos_io_buffer_peek 0 sample_buffer = (1, Some 3) \<and>
   take 1 (drop 3 (Buffer sample_buffer)) = take 1 (drop 0 (contents sample_buffer))"
proof -
  have "iob_ok sample_buffer" by (simp add: iob_ok_def sample_buffer_def)
  moreover have "exos_io_buffer_peek 0 sample_buffer = (1, Some 3)"
    by (simp add: exos_io_buffer_peek_def exos_io_buffer_avail_def sample_buffer_def)
  ultimately show ?thesis using io_buffer_peek_run[of sample_buffer 0] by simp
qed

text \<open>Discarding drops the bytes a read of the same length would deliver.\<close>

lemma io_buffer_discard_spec:
  assumes ok: "iob_ok b" and wf: "kernel_wf k"
  shows "\<exists>b' k'. exos_io_buffer_discard len b k = Inr (min len (length (contents b)), b', k') \<and> iob_ok b' \<and>
    kernel_wf k' \<and> contents b' = drop len (contents b)"
proof (cases "len = 0")
  case True
  then show ?thesis using assms by (simp add: exos_io_buffer_discard_def)
next
  case False
  let ?n = "min len (exos_io_buffer_avail b)" and ?c = "unat (ConsumeIndex b)" and ?s = "unat (Size b)"
  let ?i = "if ?s \<le> ?c + ?n then ?c + ?n - ?s else ?c + ?n"
  have b: "?c < ?s" "exos_io_buffer_avail b < ?s" using iob_okD[OF ok] avail_less[OF ok] by auto
  have c: "unat (ConsumeIndex ((pull ^^ m) b)) = (?c + m) mod ?s" if "m \<le> exos_io_buffer_avail b" for m
    using that
  proof (induction m)
    case (Suc m)
    have okm: "iob_ok ((pull ^^ m) b)" using pull_n[OF ok, of m] Suc.prems by simp
    have sz: "Size ((pull ^^ m) b) = Size b" by (induction m) auto
    show ?case
      using Suc next_index_mod[OF iob_okD(2)[OF okm]] next_index_less[OF okm iob_okD(2)[OF okm]] sz
      by (simp add: pull_index unat_of_index[of _ b] mod_Suc_eq)
  qed (use b in simp)
  have "?c + ?n < 2 * ?s" using b by linarith
  then have "(?c + ?n) mod ?s = ?i" by (auto simp: mod_twice)
  then have "?i = unat (ConsumeIndex ((pull ^^ ?n) b))" using c[of ?n] by simp
  moreover have "of_nat (unat w) = w" for w :: u16 by simp
  ultimately have "of_nat ?i = ConsumeIndex ((pull ^^ ?n) b)" by (simp only:)
  moreover have "(pull ^^ ?n) b = b\<lparr>ConsumeIndex := ConsumeIndex ((pull ^^ ?n) b)\<rparr>" by (rule pull_n_eq)
  moreover obtain k' where "when_event exos_event_set (NotFullEvent b) k = Inr k'" "kernel_wf k'"
    using when_event_set[OF wf] by blast
  ultimately have "exos_io_buffer_discard len b k = Inr (?n, (pull ^^ ?n) b, k')"
    using False by (simp add: exos_io_buffer_discard_def Let_def)
  moreover have "drop ?n (contents b) = drop len (contents b)" by (simp add: min_def)
  ultimately show ?thesis using pull_n[OF ok, of ?n] \<open>kernel_wf k'\<close> by simp
qed

end
