(* ===== verification/Hal.thy ===== *)
theory Hal
  imports Prelude
begin

text \<open>
  The portable part of the hardware abstraction layer (\<^verbatim>\<open>exos/kernel/machine/hal.c\<close>):
  memory blocks, C strings, and the conversions between numbers and text.  A character is a byte;
  on the ARM targets \<^verbatim>\<open>char\<close> is unsigned.  A C string is the list of its characters without
  the terminator, which reads as zero at the end of the list.
\<close>

unbundle bit_operations_syntax

type_synonym cstring = "u8 list"
type_synonym bytes_mem = "u32 \<Rightarrow> u8"

definition char_at :: "cstring \<Rightarrow> nat \<Rightarrow> u8" where
  "char_at s i = (if i < length s then s ! i else 0)"

definition c_string :: "cstring \<Rightarrow> bool" where
  "c_string s \<longleftrightarrow> 0 \<notin> set s"

section \<open>Memory blocks\<close>

text \<open>The pointers run up to \<^verbatim>\<open>stop\<close>, which they meet after \<open>unat (stop - start)\<close> rounds.\<close>

fun mem_copy_loop :: "nat \<Rightarrow> u32 \<Rightarrow> u32 \<Rightarrow> bytes_mem \<Rightarrow> bytes_mem" where
  "mem_copy_loop 0 start source m = m"
| "mem_copy_loop (Suc n) start source m = mem_copy_loop n (start + 1) (source + 1) (m(start := m source))"

definition mem_copy :: "u32 \<Rightarrow> u32 \<Rightarrow> u32 \<Rightarrow> bytes_mem \<Rightarrow> bytes_mem res" where
  "mem_copy start stop source m =
     ASSERT (start \<noteq> 0 \<and> stop \<noteq> 0 \<and> source \<noteq> 0) KERNEL_ERROR_NULL_POINTER
       (Inr (if source \<noteq> start then mem_copy_loop (unat (stop - start)) start source m else m))"

fun mem_set_loop :: "nat \<Rightarrow> u32 \<Rightarrow> u8 \<Rightarrow> bytes_mem \<Rightarrow> bytes_mem" where
  "mem_set_loop 0 start stuff m = m"
| "mem_set_loop (Suc n) start stuff m = mem_set_loop n (start + 1) stuff (m(start := stuff))"

definition mem_set :: "u32 \<Rightarrow> u32 \<Rightarrow> u8 \<Rightarrow> bytes_mem \<Rightarrow> bytes_mem res" where
  "mem_set start stop stuff m =
     ASSERT (start \<noteq> 0 \<and> stop \<noteq> 0) KERNEL_ERROR_NULL_POINTER
       (Inr (mem_set_loop (unat (stop - start)) start stuff m))"

definition memset :: "u32 \<Rightarrow> u32 \<Rightarrow> u32 \<Rightarrow> bytes_mem \<Rightarrow> (u32 \<times> bytes_mem) res" where
  "memset s c n m = rbind (mem_set s (s + n) (ucast c) m) (\<lambda>m1. Inr (s, m1))"

definition memcpy :: "u32 \<Rightarrow> u32 \<Rightarrow> u32 \<Rightarrow> bytes_mem \<Rightarrow> (u32 \<times> bytes_mem) res" where
  "memcpy s1 s2 n m = rbind (mem_copy s1 (s1 + n) s2 m) (\<lambda>m1. Inr (s1, m1))"

section \<open>Strings\<close>

text \<open>
  \<^verbatim>\<open>__str_copy\<close>: the characters copied, at most \<open>max_length\<close>, and whether a terminator was
  stored behind them.
\<close>

fun str_copy_loop :: "cstring \<Rightarrow> nat \<Rightarrow> nat \<Rightarrow> nat \<Rightarrow> u8 list \<Rightarrow> nat \<times> u8 list" where
  "str_copy_loop src 0 max_length done dst = (done, dst)"
| "str_copy_loop src (Suc fuel) max_length done dst =
     (if done < max_length
      then let c = char_at src done
           in if c = 0 then (done, dst) else str_copy_loop src fuel max_length (done + 1) (dst[done := c])
      else (done, dst))"

definition str_copy :: "u8 list \<Rightarrow> cstring \<Rightarrow> nat \<Rightarrow> nat \<times> u8 list" where
  "str_copy dst src max_length =
     (let (done, dst1) = str_copy_loop src max_length max_length 0 dst
      in (done, if done < max_length then dst1[done := 0] else dst1))"

fun str_comp :: "cstring \<Rightarrow> cstring \<Rightarrow> int" where
  "str_comp [] [] = 0"
| "str_comp [] (b # bs) = (if b = 0 then 0 else - 1)"
| "str_comp (a # as) [] = (if a = 0 then 0 else 1)"
| "str_comp (a # as) (b # bs) =
     (if a = b then (if a = 0 then 0 else str_comp as bs) else if a < b then - 1 else 1)"

section \<open>Numbers to text\<close>

text \<open>\<^verbatim>\<open>_reverse_str\<close>: swap from both ends towards the middle.\<close>

function reverse_loop :: "int \<Rightarrow> int \<Rightarrow> u8 list \<Rightarrow> u8 list" where
  "reverse_loop p q str =
     (if p < q
      then let c = str ! nat p in reverse_loop (p + 1) (q - 1) ((str[nat p := str ! nat q])[nat q := c])
      else str)"
  by pat_completeness auto
termination by (relation "measure (\<lambda>(p, q, _). nat (q - p))") auto

declare reverse_loop.simps [simp del]

definition reverse_str :: "u8 list \<Rightarrow> u8 list" where
  "reverse_str str = reverse_loop 0 (int (length str) - 1) str"

definition hex_digit :: "u32 \<Rightarrow> u8" where
  "hex_digit v = (let digit = v AND 0xF in if digit \<ge> 10 then ucast digit + 97 - 10 else ucast digit + 48)"

function hex_loop :: "u32 \<Rightarrow> u8 list \<Rightarrow> u8 list" where
  "hex_loop v dst =
     (let dst1 = dst @ [hex_digit v]; v1 = drop_bit 4 v
      in if v1 \<noteq> 0 then hex_loop v1 dst1 else dst1)"
  by pat_completeness auto
termination
proof (relation "measure (\<lambda>(v, _). unat v)")
  fix v :: u32 and x y dst
  assume "y = drop_bit 4 v" "y \<noteq> 0"
  then show "((y, x), (v, dst)) \<in> measure (\<lambda>(v, _). unat v)"
    by (cases "v = 0") (auto simp: drop_bit_eq_div unat_div word_gt_0 unat_gt_0 intro!: div_less_dividend)
qed simp

declare hex_loop.simps [simp del]

text \<open>\<^verbatim>\<open>while(length < tz)\<close> compares as unsigned: a negative width counts as a huge one.\<close>

definition pad :: "int \<Rightarrow> u8 \<Rightarrow> u8 list \<Rightarrow> u8 list" where
  "pad tz tc dst = dst @ replicate (nat (tz mod 2 ^ 32) - length dst) tc"

text \<open>The functions return what they stored at \<^verbatim>\<open>dst\<close>; the value of the call is its length.\<close>

definition uint_hexlz :: "u32 \<Rightarrow> int \<Rightarrow> u8 \<Rightarrow> nat \<times> u8 list" where
  "uint_hexlz v tz tc = (let dst = pad tz tc (hex_loop v []) in (length dst, reverse_str dst))"

definition uint_hexl :: "u32 \<Rightarrow> nat \<times> u8 list" where
  "uint_hexl v = uint_hexlz v 0 0"

function udec_loop :: "u32 \<Rightarrow> u8 list \<Rightarrow> u8 list" where
  "udec_loop v dst =
     (let digit = v mod 10; v1 = v div 10; dst1 = dst @ [ucast digit + 48]
      in if v1 \<noteq> 0 then udec_loop v1 dst1 else dst1)"
  by pat_completeness auto
termination
proof (relation "measure (\<lambda>(v, _). unat v)")
  fix v :: u32 and x y z dst
  assume "y = v div 10" "y \<noteq> 0"
  then show "((y, z), (v, dst)) \<in> measure (\<lambda>(v, _). unat v)"
    by (cases "v = 0") (auto simp: unat_div word_gt_0 unat_gt_0 intro!: div_less_dividend)
qed simp

declare udec_loop.simps [simp del]

definition uint_declz :: "u32 \<Rightarrow> int \<Rightarrow> u8 \<Rightarrow> nat \<times> u8 list" where
  "uint_declz v tz tc = (let dst = pad tz tc (udec_loop v []) in (length dst, reverse_str dst))"

definition uint_decl :: "u32 \<Rightarrow> nat \<times> u8 list" where
  "uint_decl v = uint_declz v 0 0"

text \<open>Signed division of C, which truncates towards zero.\<close>

definition cdiv :: "int \<Rightarrow> int \<Rightarrow> int" where
  "cdiv a b = sgn a * sgn b * (\<bar>a\<bar> div \<bar>b\<bar>)"

definition crem :: "int \<Rightarrow> int \<Rightarrow> int" where
  "crem a b = sgn a * (\<bar>a\<bar> mod \<bar>b\<bar>)"

function sdec_loop :: "int \<Rightarrow> u8 list \<Rightarrow> u8 list" where
  "sdec_loop v dst =
     (let digit = crem v 10; v1 = cdiv v 10; dst1 = dst @ [word_of_int (digit + 48)]
      in if v1 \<noteq> 0 then sdec_loop v1 dst1 else dst1)"
  by pat_completeness auto
termination
proof (relation "measure (\<lambda>(v, _). nat \<bar>v\<bar>)")
  fix v x y z :: int and dst dst1 :: "u8 list"
  assume "y = cdiv v 10" "y \<noteq> 0"
  then have "v \<noteq> 0" "\<bar>y\<bar> = \<bar>v\<bar> div 10" by (auto simp: cdiv_def abs_mult abs_sgn_eq)
  then show "((y, dst1), (v, dst)) \<in> measure (\<lambda>(v, _). nat \<bar>v\<bar>)" by simp
qed simp

declare sdec_loop.simps [simp del]

text \<open>
  \<^verbatim>\<open>__int_declz\<close>: the sign is stored first and \<^verbatim>\<open>dst\<close> advanced, so the length returned
  does not count it.  The negation of an \<^verbatim>\<open>int\<close> wraps.
\<close>

definition int_declz :: "u32 \<Rightarrow> int \<Rightarrow> u8 \<Rightarrow> nat \<times> u8 list" where
  "int_declz v tz tc =
     (let neg = sint v < 0;
          w = if neg then - v else v;
          dst = pad tz tc (sdec_loop (sint w) [])
      in (length dst, (if neg then [45] else []) @ reverse_str dst))"

definition int_decl :: "u32 \<Rightarrow> nat \<times> u8 list" where
  "int_decl v = int_declz v 0 0"

section \<open>Text to numbers\<close>

definition is_digit :: "u8 \<Rightarrow> bool" where
  "is_digit c \<longleftrightarrow> 48 \<le> c \<and> c \<le> 57"

fun skip_spaces :: "cstring \<Rightarrow> nat" where
  "skip_spaces [] = 0"
| "skip_spaces (c # cs) = (if c = 32 then Suc (skip_spaces cs) else 0)"

fun digits_loop :: "cstring \<Rightarrow> u32 \<Rightarrow> nat \<Rightarrow> u32 \<times> nat" where
  "digits_loop [] v k = (v, k)"
| "digits_loop (c # cs) v k = (if is_digit c then digits_loop cs (v * 10 + (ucast c - 48)) (k + 1) else (v, k))"

definition decl_uint :: "cstring \<Rightarrow> nat \<times> u32" where
  "decl_uint src =
     (let k = skip_spaces src; (v, n) = digits_loop (drop k src) 0 k in (n, v))"

definition decl_int :: "cstring \<Rightarrow> nat \<times> u32" where
  "decl_int src =
     (let k = skip_spaces src;
          neg = (char_at src k = 45);
          k1 = if neg then k + 1 else k;
          (v, n) = digits_loop (drop k1 src) 0 k1
      in (n, if neg then - v else v))"

section \<open>Reversal\<close>

lemma reverse_loop_nth:
  "0 \<le> p \<Longrightarrow> q < int (length str) \<Longrightarrow>
     length (reverse_loop p q str) = length str \<and>
     (\<forall>i<length str. reverse_loop p q str ! i = (if p \<le> int i \<and> int i \<le> q then str ! nat (p + q - int i) else str ! i))"
proof (induction p q str rule: reverse_loop.induct)
  case (1 p q str)
  show ?case
  proof (cases "p < q")
    case True
    let ?str = "(str[nat p := str ! nat q])[nat q := str ! nat p]"
    have ih: "length (reverse_loop (p + 1) (q - 1) ?str) = length str \<and>
      (\<forall>i<length str. reverse_loop (p + 1) (q - 1) ?str ! i =
        (if p + 1 \<le> int i \<and> int i \<le> q - 1 then ?str ! nat (p + 1 + (q - 1) - int i) else ?str ! i))"
      using 1(1)[OF True refl] "1.prems" by simp
    have rl: "reverse_loop p q str = reverse_loop (p + 1) (q - 1) ?str"
      using True by (simp add: reverse_loop.simps[of p q str] Let_def)
    have "(if p + 1 \<le> int i \<and> int i \<le> q - 1 then ?str ! nat (p + 1 + (q - 1) - int i) else ?str ! i) =
        (if p \<le> int i \<and> int i \<le> q then str ! nat (p + q - int i) else str ! i)" if "i < length str" for i
    proof -
      consider "int i < p \<or> q < int i" | "int i = p" | "int i = q" | "p < int i" "int i < q" by linarith
      then show ?thesis
        using True "1.prems" that by cases (auto simp: nth_list_update nat_eq_iff2)
    qed
    then show ?thesis using ih unfolding rl by simp
  next
    case False
    then have "nat (p + q - int i) = i" if "p \<le> int i" "int i \<le> q" for i using that by linarith
    then show ?thesis using False by (simp add: reverse_loop.simps[of p q str])
  qed
qed

lemma reverse_str_rev [simp]: "reverse_str str = rev str"
proof (rule nth_equalityI)
  have *: "length (reverse_str str) = length str"
    "\<forall>i<length str. reverse_str str ! i = (if int i \<le> int (length str) - 1 then str ! nat (int (length str) - 1 - int i) else str ! i)"
    using reverse_loop_nth[of 0 "int (length str) - 1" str] by (simp_all add: reverse_str_def)
  show "length (reverse_str str) = length (rev str)" using * by simp
  fix i assume "i < length (reverse_str str)"
  then have "i < length str" using * by simp
  moreover have "nat (int (length str) - 1 - int i) = length str - Suc i" using calculation by simp
  ultimately show "reverse_str str ! i = rev str ! i" using * by (simp add: rev_nth)
qed

section \<open>Decimal round trips\<close>

lemma mod_pos_shift: "m \<le> a \<Longrightarrow> a < 2 * m \<Longrightarrow> a mod m = a - m" for a m :: int
  by (metis (no_types, opaque_lifting) add.commute diff_ge_0_iff_ge diff_less_eq minus_mod_self2 mod_pos_pos_trivial
      mult_2)

lemma sint_u32: "sint v = (if uint v < 2 ^ 31 then uint v else uint v - 2 ^ 32)" for v :: u32
proof -
  have "0 \<le> uint v" "uint v < 2 ^ 32" using uint_lt2p[of v] by simp_all
  then have "(uint v + 2 ^ 31) mod 2 ^ 32 = (if uint v < 2 ^ 31 then uint v + 2 ^ 31 else uint v - 2 ^ 31)"
    by (cases "uint v < 2 ^ 31") (simp_all add: mod_pos_shift)
  then show ?thesis by (simp add: sint_uint signed_take_bit_eq_take_bit_shift take_bit_eq_mod)
qed

lemma sint_eq_uint_u32: "0 \<le> sint v \<Longrightarrow> nat (sint v) = unat v" for v :: u32
  using uint_lt2p[of v] by (auto simp: sint_u32 split: if_splits)

lemma signed_neg_u32: "sint v < 0 \<Longrightarrow> v \<noteq> 0x80000000 \<Longrightarrow> 0 \<le> sint (- v)" for v :: u32
proof -
  assume a: "sint v < 0" "v \<noteq> 0x80000000"
  then have ge: "2 ^ 31 \<le> uint v" using uint_ge_0 by (auto simp: sint_u32 split: if_splits)
  have "uint v \<noteq> 2 ^ 31" using a(2) by (auto simp: word_uint_eq_iff)
  moreover have "uint (- v) = 2 ^ 32 - uint v"
  proof -
    have "uint (- v) = (- uint v + 2 ^ 32) mod 2 ^ 32" by (simp add: uint_word_ariths)
    also have "\<dots> = - uint v + 2 ^ 32"
      using ge uint_lt2p[of v] by (intro mod_pos_pos_trivial) simp_all
    finally show ?thesis by simp
  qed
  ultimately show ?thesis using ge uint_lt2p[of v] by (simp add: sint_u32)
qed

text \<open>The decimal digits of a number, the lowest first.\<close>

fun ndig :: "nat \<Rightarrow> u8 list" where
  "ndig n = (if n < 10 then [of_nat (n + 48)] else of_nat (n mod 10 + 48) # ndig (n div 10))"

declare ndig.simps [simp del]

lemma udec_loop_ndig: "udec_loop v dst = dst @ ndig (unat v)"
proof (induction v dst rule: udec_loop.induct)
  case (1 v dst)
  have z: "v div 10 = 0 \<longleftrightarrow> unat v < 10" by (simp add: word_unat_eq_iff unat_div div_eq_0_iff)
  have d: "ucast (v mod 10) + 48 = (of_nat (unat v mod 10 + 48) :: u8)"
    unfolding ucast_of_nat[of "v mod 10"] unat_mod by simp
  show ?case
  proof (cases "unat v < 10")
    case True
    then show ?thesis using z d by (simp add: udec_loop.simps[of v] ndig.simps[of "unat v"] Let_def)
  next
    case False
    then show ?thesis
      using z d 1[OF refl refl refl] by (simp add: udec_loop.simps[of v] ndig.simps[of "unat v"] Let_def unat_div)
  qed
qed

lemma sdec_loop_ndig: "0 \<le> v \<Longrightarrow> sdec_loop v dst = dst @ ndig (nat v)"
proof (induction v dst rule: sdec_loop.induct)
  case (1 v dst)
  have c: "crem v 10 = v mod 10" "cdiv v 10 = v div 10"
    using "1.prems" by (auto simp: crem_def cdiv_def sgn_if)
  have z: "v div 10 = 0 \<longleftrightarrow> nat v < 10" using "1.prems" by (auto simp: nat_less_iff zdiv_eq_0_iff)
  have d: "word_of_int (v mod 10 + 48) = (of_nat (nat v mod 10 + 48) :: u8)"
  proof -
    have "int (nat v mod 10 + 48) = v mod 10 + 48" using "1.prems" by (simp add: zmod_int)
    then show ?thesis by (metis of_int_of_nat_eq)
  qed
  have q: "nat (v div 10) = nat v div 10" using "1.prems" by (simp add: nat_div_distrib)
  show ?case
  proof (cases "nat v < 10")
    case True
    then show ?thesis using z d c by (simp add: sdec_loop.simps[of v] ndig.simps[of "nat v"] Let_def)
  next
    case False
    then show ?thesis
      using z d c q 1(1)[OF refl refl refl] "1.prems"
      by (simp add: sdec_loop.simps[of v] ndig.simps[of "nat v"] Let_def pos_imp_zdiv_nonneg_iff)
  qed
qed

lemma ndig_digit: "c \<in> set (ndig n) \<Longrightarrow> is_digit c"
proof (induction n rule: ndig.induct)
  case (1 n)
  have d: "is_digit (of_nat (k + 48))" if "k < 10" for k
    using that by (simp add: is_digit_def word_le_nat_alt unat_of_nat del: of_nat_add)
  show ?case
  proof (cases "n < 10")
    case True
    then show ?thesis using "1.prems" d by (simp add: ndig.simps[of n] del: of_nat_add)
  next
    case False
    then show ?thesis using "1.prems" "1.IH" d by (auto simp: ndig.simps[of n] simp del: of_nat_add)
  qed
qed

lemma ndig_not_Nil [simp]: "ndig n \<noteq> []"
  by (simp add: ndig.simps[of n])

lemma digits_loop_append:
  "\<forall>c\<in>set xs. is_digit c \<Longrightarrow> digits_loop (xs @ ys) v k = (case digits_loop xs v k of (v1, k1) \<Rightarrow> digits_loop ys v1 k1)"
  by (induction xs arbitrary: v k) auto

lemma digit_value: "n < 10 \<Longrightarrow> (ucast (of_nat (n + 48) :: u8) - 48 :: u32) = of_nat n"
proof -
  assume "n < 10"
  then have "unat (of_nat (n + 48) :: u8) = n + 48" by (simp add: unat_of_nat del: of_nat_add)
  then have "(ucast (of_nat (n + 48) :: u8) :: u32) = of_nat (n + 48)" by (metis ucast_of_nat)
  then show ?thesis by simp
qed

text \<open>Reading the digits of \<open>n\<close> after a value appends them to it.\<close>

lemma digits_loop_ndig:
  "digits_loop (rev (ndig n)) v k = (v * 10 ^ length (ndig n) + of_nat n, k + length (ndig n))"
proof (induction n arbitrary: v k rule: ndig.induct)
  case (1 n)
  show ?case
  proof (cases "n < 10")
    case True
    have "is_digit (of_nat (n + 48))" using ndig_digit[of _ n] True by (simp add: ndig.simps[of n])
    then show ?thesis using True digit_value[OF True] by (simp add: ndig.simps[of n] del: of_nat_add)
  next
    case False
    let ?c = "of_nat (n mod 10 + 48) :: u8"
    have c: "is_digit ?c" using ndig_digit[of ?c n] False by (simp add: ndig.simps[of n] del: of_nat_add)
    have all: "\<forall>c\<in>set (rev (ndig (n div 10))). is_digit c" using ndig_digit by auto
    have nn: "of_nat (n div 10) * 10 + of_nat (n mod 10) = (of_nat n :: u32)"
      by (metis div_mult_mod_eq of_nat_add of_nat_mult of_nat_numeral)
    show ?thesis
      using False c 1[OF False] digit_value[of "n mod 10"] nn
      by (simp add: ndig.simps[of n] digits_loop_append[OF all] distrib_right algebra_simps del: of_nat_add)
  qed
qed

lemma digits_loop_zeros: "digits_loop (replicate n 48 @ xs) 0 k = digits_loop xs 0 (n + k)"
  by (induction n arbitrary: k) (auto simp: is_digit_def)

lemma skip_spaces_digit: "is_digit c \<Longrightarrow> skip_spaces (c # cs) = 0"
  by (auto simp: is_digit_def)

lemma skip_spaces_blanks: "is_digit c \<Longrightarrow> skip_spaces (replicate n 32 @ c # cs) = n"
  by (induction n) (auto simp: skip_spaces_digit simp del: skip_spaces.simps(2), auto)

lemma rev_ndig_Cons: "\<exists>c cs. rev (ndig n) = c # cs \<and> is_digit c"
proof -
  obtain c cs where "rev (ndig n) = c # cs" by (cases "rev (ndig n)") auto
  moreover from this have "c \<in> set (ndig n)" by (metis list.set_intros(1) set_rev)
  ultimately show ?thesis using ndig_digit by blast
qed

text \<open>A number printed in decimal, with any padding of zeros or blanks, is read back unchanged and to the last
  character.
\<close>

theorem decimal_roundtrip:
  assumes "tc = 48 \<or> tc = 32"
  shows "decl_uint (snd (uint_declz v tz tc)) = (fst (uint_declz v tz tc), v)"
proof -
  let ?d = "ndig (unat v)"
  obtain n where out: "uint_declz v tz tc = (length ?d + n, replicate n tc @ rev ?d)"
    by (simp add: uint_declz_def pad_def udec_loop_ndig Let_def)
  obtain c cs where c: "rev ?d = c # cs" "is_digit c" using rev_ndig_Cons by blast
  have "digits_loop (rev ?d) 0 k = (v, k + length ?d)" for k by (simp add: digits_loop_ndig)
  moreover have "skip_spaces (replicate n tc @ rev ?d) = (if tc = 32 then n else 0)"
  proof (cases "tc = 32")
    case False
    then have "tc = 48" using assms by blast
    then show ?thesis using c by (cases n) (auto simp: skip_spaces_digit is_digit_def)
  qed (use c skip_spaces_blanks in auto)
  ultimately show ?thesis
    using assms digits_loop_zeros[of n "rev ?d" 0] by (auto simp: out decl_uint_def Let_def split: if_splits)
qed

theorem decimal_roundtrip_witness:
  "decl_uint (snd (uint_declz 4294967295 12 48)) = (fst (uint_declz 4294967295 12 48), 4294967295)"
  using decimal_roundtrip[of 48 4294967295 12] by simp

lemma int_decl_text:
  assumes "v \<noteq> 0x80000000"
  shows "int_declz v 0 tc = (length (ndig (unat (if sint v < 0 then - v else v))),
    (if sint v < 0 then [45] else []) @ rev (ndig (unat (if sint v < 0 then - v else v))))"
proof -
  let ?w = "if sint v < 0 then - v else v"
  have nonneg: "0 \<le> sint ?w"
    using assms signed_neg_u32[of v] by auto
  then have "nat (sint ?w) = unat ?w" by (simp add: sint_eq_uint_u32)
  then show ?thesis using nonneg by (simp add: int_declz_def pad_def sdec_loop_ndig Let_def)
qed

text \<open>The signed conversions are inverse to each other, but for the most negative number, and the length returned for a
  negative number is one less than the number of characters stored.
\<close>

theorem signed_roundtrip:
  assumes "v \<noteq> 0x80000000"
  shows "decl_int (snd (int_decl v)) = (length (snd (int_decl v)), v) \<and>
    fst (int_decl v) = length (snd (int_decl v)) - (if sint v < 0 then 1 else 0)"
proof -
  let ?w = "if sint v < 0 then - v else v"
  let ?d = "ndig (unat ?w)"
  have out: "int_decl v = (length ?d, (if sint v < 0 then [45] else []) @ rev ?d)"
    using int_decl_text[OF assms] by (simp add: int_decl_def)
  obtain c cs where c: "rev ?d = c # cs" "is_digit c" using rev_ndig_Cons by blast
  have cn: "c \<noteq> 32" "c \<noteq> 45" using c(2) by (auto simp: is_digit_def)
  have "digits_loop (rev ?d) 0 k = (?w, k + length ?d)" for k by (simp add: digits_loop_ndig)
  then show ?thesis
    using c cn by (auto simp: out decl_int_def Let_def char_at_def)
qed

theorem signed_roundtrip_witness:
  "decl_int (snd (int_decl (- 42))) = (length (snd (int_decl (- 42))), - 42) \<and>
   fst (int_decl (- 42)) = length (snd (int_decl (- 42))) - 1"
  using signed_roundtrip[of "- 42"] by simp

section \<open>Strings and memory\<close>

lemma str_comp_eq_0: "c_string a \<Longrightarrow> c_string b \<Longrightarrow> str_comp a b = 0 \<longleftrightarrow> a = b"
  by (induction a b rule: str_comp.induct) (auto simp: c_string_def)

text \<open>The comparison of two strings is zero exactly for equal strings, changes sign when they are swapped, and is negative
  exactly when the first comes before the second in the lexicographic order of the unsigned characters.
\<close>

theorem str_comp_order:
  assumes "c_string a" and "c_string b"
  shows "(str_comp a b = 0) = (a = b) \<and> str_comp b a = - str_comp a b \<and>
    (str_comp a b < 0) = ord_class.lexordp a b"
  using assms
proof (induction a b rule: str_comp.induct)
  case (4 a as b bs)
  then show ?case by (auto simp: c_string_def)
qed (auto simp: c_string_def)

theorem str_comp_order_witness: "str_comp [97, 98] [97, 99] = - 1 \<and> ord_class.lexordp [97, 98 :: u8] [97, 99]"
  using str_comp_order[of "[97, 98]" "[97, 99]"] by (simp add: c_string_def)

lemma str_copy_loop_spec:
  "n + fuel = mx \<Longrightarrow> n \<le> length src \<Longrightarrow> c_string src \<Longrightarrow> min mx (length src) \<le> length dst \<Longrightarrow>
     str_copy_loop src fuel mx n dst =
       (min mx (length src), take n dst @ take (min mx (length src) - n) (drop n src) @ drop (min mx (length src)) dst)"
proof (induction fuel arbitrary: n dst)
  case 0
  then show ?case by (simp add: min_absorb1)
next
  case (Suc fuel)
  show ?case
  proof (cases "n < length src")
    case False
    then have "n = length src" using Suc.prems(2) by simp
    then show ?thesis using Suc.prems by (simp add: char_at_def min_absorb2)
  next
    case True
    have "src ! n \<noteq> 0" using Suc.prems(3) True by (metis c_string_def nth_mem)
    moreover have "take (Suc n) (dst[n := src ! n]) = take n dst @ [src ! n]"
      using Suc.prems(1,4) True by (simp add: take_Suc_conv_app_nth)
    moreover have "take (min mx (length src) - n) (drop n src) =
        src ! n # take (min mx (length src) - Suc n) (drop (Suc n) src)"
      using True Suc.prems(1) by (simp add: Cons_nth_drop_Suc[symmetric] take_Cons' min_def)
    moreover have "drop (min mx (length src)) (dst[n := src ! n]) = drop (min mx (length src)) dst"
      using True Suc.prems(1) by (simp add: min_def)
    ultimately show ?thesis
      using Suc.IH[of "Suc n" "dst[n := src ! n]"] Suc.prems True by (simp add: char_at_def)
  qed
qed

text \<open>The copy holds the string cut to the room given, with a terminator when there is room for it.\<close>

lemma str_copy_spec:
  assumes "c_string src" "max_length \<le> length dst"
  shows "str_copy dst src max_length =
    (min max_length (length src),
     if length src < max_length then src @ 0 # drop (Suc (length src)) dst
     else take max_length src @ drop max_length dst)"
proof -
  note sp = str_copy_loop_spec[of 0 max_length max_length src dst]
  show ?thesis
  proof (cases "length src < max_length")
    case True
    then have "(src @ drop (length src) dst)[length src := 0] = src @ 0 # drop (Suc (length src)) dst"
      using assms(2) by (simp add: list_update_append Cons_nth_drop_Suc[symmetric])
    then show ?thesis using sp assms True by (simp add: str_copy_def min_absorb2)
  qed (use sp assms in \<open>simp add: str_copy_def min_absorb1\<close>)
qed

lemma str_copy_fits:
  assumes "c_string src" "min mx (length src) \<le> length dst"
  obtains d where "str_copy dst src mx = (min mx (length src), d)" "length d = length dst"
    "take (min mx (length src)) d = take (min mx (length src)) src"
proof -
  let ?k = "min mx (length src)" let ?d = "take ?k src @ drop ?k dst"
  have l: "str_copy_loop src mx mx 0 dst = (?k, ?d)" using str_copy_loop_spec[of 0 mx mx src dst] assms by simp
  have "length ?d = length dst" "take ?k ?d = take ?k src" using assms(2) by auto
  then show thesis by (intro that[of "if ?k < mx then ?d[?k := 0] else ?d"]) (simp_all add: str_copy_def l)
qed

lemma unat_shift:
  fixes a start :: u32
  assumes "a \<noteq> start"
  shows "unat (a - start) = Suc (unat (a - (start + 1)))"
proof -
  have "a - start = 1 + (a - (start + 1))" by simp
  moreover have "1 + (a - (start + 1)) \<noteq> 0" using assms by simp
  ultimately show ?thesis by (metis unatSuc)
qed

lemma mem_copy_loop_spec:
  "n \<le> unat (start - source) \<Longrightarrow> n < 2 ^ 32 \<Longrightarrow>
     mem_copy_loop n start source m a = (if unat (a - start) < n then m (source + (a - start)) else m a)"
proof (induction n arbitrary: start source m)
  case (Suc n)
  let ?m = "m(start := m source)"
  have ih: "mem_copy_loop n (start + 1) (source + 1) ?m a =
      (if unat (a - (start + 1)) < n then ?m (source + 1 + (a - (start + 1))) else ?m a)"
    using Suc by simp
  show ?case
  proof (cases "a = start")
    case True
    have "a - (start + 1) = - 1" using True by simp
    then have "unat (a - (start + 1)) = 2 ^ 32 - 1" by (simp add: unat_u32_minus_1)
    then show ?thesis using ih True Suc.prems(2) by simp
  next
    case False
    have "source + (a - start) \<noteq> start" if "unat (a - start) < Suc n"
    proof
      assume "source + (a - start) = start"
      then have "unat (start - source) = unat (a - start)" by (metis add_diff_cancel_left')
      then show False using that Suc.prems(1) by linarith
    qed
    then show ?thesis using ih False unat_shift[OF False] by (simp add: algebra_simps)
  qed
qed simp

text \<open>A block is copied unchanged whenever the destination does not begin inside the source, and no other byte changes;
  a block of zeros or any filler is set exactly.
\<close>

theorem mem_copy_exact:
  assumes "start \<noteq> 0" "stop \<noteq> 0" "source \<noteq> 0" and "unat (stop - start) \<le> unat (start - source)"
  shows "\<exists>m'. mem_copy start stop source m = Inr m' \<and>
    (\<forall>a. m' a = (if unat (a - start) < unat (stop - start) then m (source + (a - start)) else m a))"
proof -
  have lt: "unat (stop - start) < 2 ^ 32" using unsigned_less[of "stop - start"] by simp
  show ?thesis
  proof (cases "source = start")
    case True
    then show ?thesis using assms by (simp add: mem_copy_def)
  next
    case False
    then show ?thesis using assms mem_copy_loop_spec[OF assms(4) lt, of m] by (simp add: mem_copy_def)
  qed
qed

theorem mem_copy_exact_witness:
  "\<exists>m'. mem_copy 100 110 50 (\<lambda>a. ucast a) = Inr m' \<and> m' 103 = 53 \<and> m' 110 = 110"
proof -
  obtain m' where m': "mem_copy 100 110 50 (\<lambda>a. ucast a) = Inr m'"
    "\<forall>a. m' a = (if unat (a - 100) < unat (110 - 100 :: u32) then ucast (50 + (a - 100)) else ucast a)"
    using mem_copy_exact[of 100 110 50 "\<lambda>a. ucast a"] by auto
  then show ?thesis by auto
qed

lemma mem_set_loop_spec:
  "n < 2 ^ 32 \<Longrightarrow> mem_set_loop n start x m a = (if unat (a - start) < n then x else m a)"
proof (induction n arbitrary: start m)
  case (Suc n)
  have ih: "mem_set_loop n (start + 1) x (m(start := x)) a =
      (if unat (a - (start + 1)) < n then x else (m(start := x)) a)"
    using Suc by simp
  show ?case
  proof (cases "a = start")
    case False
    then show ?thesis using ih unat_shift[OF False] by simp
  qed (use ih in simp)
qed simp

lemma memset_spec:
  assumes "s \<noteq> 0" "s + n \<noteq> 0"
  shows "\<exists>m'. memset s c n m = Inr (s, m') \<and> (\<forall>a. m' a = (if unat (a - s) < unat n then ucast c else m a))"
  using assms mem_set_loop_spec[of "unat n" s "ucast c" m] unat_u32_less[of n] by (simp add: memset_def mem_set_def)

end
