(* ===== verification/Fifo.thy ===== *)
theory Fifo
  imports Timers_Inv Hal Queues
begin

text \<open>
  Node queues (\<^verbatim>\<open>exos/kernel/fifo.c\<close>) and message ports (\<^verbatim>\<open>port.c\<close>) built
  on them.  A queue is the list of its nodes with the debug counter and the optional event that
  tells whether it holds nodes; a port is a named queue with an auto-reset event.
\<close>

section \<open>Queues\<close>

type_synonym nid = nat

record fifo_t =
  FCount :: u32
  Items :: "nid list"
  FEvent :: "eid option"

definition exos_fifo_create :: "eid option \<Rightarrow> fifo_t" where
  "exos_fifo_create ev = \<lparr>FCount = 0, Items = [], FEvent = ev\<rparr>"

definition exos_fifo_dequeue :: "fifo_t \<Rightarrow> kernel \<Rightarrow> (nid option \<times> fifo_t \<times> kernel) res" where
  "exos_fifo_dequeue f k =
     (let node = (case Items f of [] \<Rightarrow> None | x # _ \<Rightarrow> Some x); f1 = f\<lparr>Items := tl (Items f)\<rparr>
      in rbind (if node \<noteq> None
                then if FCount f1 = 0 then Inl (Panic KERNEL_ERROR_LIST_CORRUPTED)
                     else Inr (f1\<lparr>FCount := FCount f1 - 1\<rparr>)
                else if FCount f1 \<noteq> 0 then Inl (Panic KERNEL_ERROR_LIST_CORRUPTED) else Inr f1)
           (\<lambda>f2. rbind (if Items f2 = [] then when_event exos_event_reset (FEvent f2) k else Inr k)
              (\<lambda>k1. Inr (node, f2, k1))))"

definition exos_fifo_queue :: "nid \<Rightarrow> fifo_t \<Rightarrow> kernel \<Rightarrow> (fifo_t \<times> kernel) res" where
  "exos_fifo_queue n f k =
     (if n \<in> set (Items f) then Inl (Panic KERNEL_ERROR_LIST_ALREADY_CONTAINS_NODE)
      else let f1 = f\<lparr>FCount := FCount f + 1, Items := Items f @ [n]\<rparr>
           in rbind (when_event exos_event_set (FEvent f1) k) (\<lambda>k1. Inr (f1, k1)))"

text \<open>\<^verbatim>\<open>exos_fifo_wait\<close> up to the wait for the event, and after it.\<close>

definition exos_fifo_wait_begin ::
  "nat \<Rightarrow> u32 \<Rightarrow> hid \<Rightarrow> hid \<Rightarrow> tmid \<Rightarrow> u32 \<Rightarrow> fifo_t \<Rightarrow> kernel \<Rightarrow> (wait_kind \<times> kernel) res" where
  "exos_fifo_wait_begin fuel elapsed h th tm timeout f k =
     (case FEvent f of
        None \<Rightarrow> Inr (NoWait, k)
      | Some e \<Rightarrow> exos_event_wait_begin fuel elapsed h th tm e timeout k)"

definition exos_fifo_wait_end ::
  "nat \<Rightarrow> u32 \<Rightarrow> hid \<Rightarrow> hid \<Rightarrow> tmid \<Rightarrow> wait_kind \<Rightarrow> fifo_t \<Rightarrow> kernel \<Rightarrow> (nid option \<times> fifo_t \<times> kernel) res" where
  "exos_fifo_wait_end fuel elapsed h th tm kind f k =
     rbind (case FEvent f of
              None \<Rightarrow> Inr (True, k)
            | Some _ \<Rightarrow> exos_event_wait_end fuel elapsed h th tm kind k)
       (\<lambda>(got, k1). if \<not> got then Inr (None, f, k1)
          else rbind (exos_fifo_dequeue f k1) (\<lambda>(node, f1, k2).
                 if node = None then Inl (Panic KERNEL_ERROR_UNKNOWN) else Inr (node, f1, k2)))"

section \<open>Ports\<close>

type_synonym pid = nat

record exos_port =
  PFifo :: fifo_t
  PName :: "cstring option"

text \<open>
  The port list with the ports by address, and the messages: type of node and reply port.  The
  lists are only touched under \<^verbatim>\<open>_port_mutex\<close>, so each operation is one step.
\<close>

record port_table =
  port_list :: "pid list"
  ports :: "pid \<Rightarrow> exos_port"
  is_message :: "nid \<Rightarrow> bool"
  ReplyPort :: "nid \<Rightarrow> pid"

definition port_init :: "port_table \<Rightarrow> port_table" where
  "port_init p = p\<lparr>port_list := []\<rparr>"

fun find_port_loop :: "port_table \<Rightarrow> cstring \<Rightarrow> pid list \<Rightarrow> pid option" where
  "find_port_loop p name [] = None"
| "find_port_loop p name (x # xs) =
     (if str_comp name (case PName (ports p x) of None \<Rightarrow> [] | Some n \<Rightarrow> n) = 0 then Some x
      else find_port_loop p name xs)"

definition find_port :: "cstring \<Rightarrow> port_table \<Rightarrow> pid option" where
  "find_port name p = find_port_loop p name (port_list p)"

definition exos_port_create :: "pid \<Rightarrow> eid \<Rightarrow> cstring option \<Rightarrow> port_table \<Rightarrow> kernel \<Rightarrow> int \<times> port_table \<times> kernel" where
  "exos_port_create x e name p k =
     (let k1 = exos_event_create e True k;
          p1 = p\<lparr>ports := (ports p)(x := \<lparr>PFifo = exos_fifo_create (Some e), PName = name\<rparr>)\<rparr>
      in case name of
           None \<Rightarrow> (1, p1, k1)
         | Some n \<Rightarrow>
             if find_port n p1 = None then (1, p1\<lparr>port_list := port_list p1 @ [x]\<rparr>, k1)
             else (0, p1, k1))"

text \<open>\<^verbatim>\<open>exos_port_find\<close> looks the port up and returns zero.\<close>

definition exos_port_find :: "cstring \<Rightarrow> port_table \<Rightarrow> pid option" where
  "exos_port_find name p = (let port = find_port name p in None)"

definition exos_port_remove :: "cstring \<Rightarrow> port_table \<Rightarrow> port_table" where
  "exos_port_remove name p =
     (case find_port name p of
        None \<Rightarrow> p
      | Some x \<Rightarrow> p\<lparr>port_list := filter (\<lambda>y. y \<noteq> x) (port_list p)\<rparr>)"

definition upd_fifo :: "pid \<Rightarrow> fifo_t \<Rightarrow> port_table \<Rightarrow> port_table" where
  "upd_fifo x f p = p\<lparr>ports := (ports p)(x := (ports p x)\<lparr>PFifo := f\<rparr>)\<rparr>"

definition exos_port_get_message :: "pid \<Rightarrow> port_table \<Rightarrow> kernel \<Rightarrow> (nid option \<times> port_table \<times> kernel) res" where
  "exos_port_get_message x p k =
     rbind (exos_fifo_dequeue (PFifo (ports p x)) k) (\<lambda>(node, f, k1).
       case node of
         None \<Rightarrow> Inr (None, upd_fifo x f p, k1)
       | Some n \<Rightarrow> ASSERT (is_message p n) KERNEL_ERROR_WRONG_NODE (Inr (Some n, upd_fifo x f p, k1)))"

definition exos_port_wait_message_end ::
  "nat \<Rightarrow> u32 \<Rightarrow> hid \<Rightarrow> hid \<Rightarrow> tmid \<Rightarrow> wait_kind \<Rightarrow> pid \<Rightarrow> port_table \<Rightarrow> kernel \<Rightarrow> (nid option \<times> port_table \<times> kernel) res" where
  "exos_port_wait_message_end fuel elapsed h th tm kind x p k =
     rbind (exos_fifo_wait_end fuel elapsed h th tm kind (PFifo (ports p x)) k) (\<lambda>(node, f, k1).
       case node of
         None \<Rightarrow> Inr (None, upd_fifo x f p, k1)
       | Some n \<Rightarrow> ASSERT (is_message p n) KERNEL_ERROR_WRONG_NODE (Inr (Some n, upd_fifo x f p, k1)))"

text \<open>\<^verbatim>\<open>exos_port_send_message\<close>: pointers may be null here, because the code asserts that one is.\<close>

definition exos_port_send_message :: "pid option \<Rightarrow> nid option \<Rightarrow> port_table \<Rightarrow> kernel \<Rightarrow> (port_table \<times> kernel) res" where
  "exos_port_send_message port msg p k =
     ASSERT (port \<noteq> None \<and> msg = None) KERNEL_ERROR_NULL_POINTER
       (let p1 = p\<lparr>is_message := (is_message p)(the msg := True)\<rparr>
        in rbind (exos_fifo_queue (the msg) (PFifo (ports p1 (the port))) k)
             (\<lambda>(f, k1). Inr (upd_fifo (the port) f p1, k1)))"

definition exos_port_reply_message :: "nid \<Rightarrow> port_table \<Rightarrow> kernel \<Rightarrow> (port_table \<times> kernel) res" where
  "exos_port_reply_message n p k =
     ASSERT (is_message p n) KERNEL_ERROR_WRONG_NODE
       (exos_port_send_message (Some (ReplyPort p n)) (Some n) p k)"

section \<open>The queue contract\<close>

text \<open>Nodes have distinct non-null 32-bit addresses, so the counter never wraps.\<close>

definition is_node :: "nid \<Rightarrow> bool" where
  "is_node n \<longleftrightarrow> 0 < n \<and> n < 2 ^ 32"

definition fifo_ok :: "fifo_t \<Rightarrow> bool" where
  "fifo_ok f \<longleftrightarrow> FCount f = of_nat (length (Items f)) \<and> distinct (Items f) \<and> (\<forall>n\<in>set (Items f). is_node n)"

lemma fifo_length: "distinct xs \<Longrightarrow> \<forall>n\<in>set xs. is_node n \<Longrightarrow> length xs < 2 ^ 32"
proof -
  assume a: "distinct xs" "\<forall>n\<in>set xs. is_node n"
  have "card (set xs) \<le> card {1..<2 ^ 32 :: nat}"
    using a(2) by (intro card_mono) (auto simp: is_node_def)
  then show ?thesis using a(1) by (simp add: distinct_card)
qed

lemma fifo_queue_spec:
  assumes "fifo_ok f" "kernel_wf k" "is_node n" "n \<notin> set (Items f)"
  shows "\<exists>f' k'. exos_fifo_queue n f k = Inr (f', k') \<and> fifo_ok f' \<and> kernel_wf k' \<and> Items f' = Items f @ [n] \<and>
    FEvent f' = FEvent f \<and> (\<forall>e. FEvent f = Some e \<longrightarrow> \<not> AutoReset (events k e) \<longrightarrow> EvState (events k' e))"
proof -
  obtain k' where "when_event exos_event_set (FEvent f) k = Inr k'" "kernel_wf k'"
    "\<forall>e. FEvent f = Some e \<longrightarrow> \<not> AutoReset (events k e) \<longrightarrow> EvState (events k' e)"
    using when_event_set[OF assms(2)] by blast
  then show ?thesis using assms by (auto simp: exos_fifo_queue_def fifo_ok_def)
qed

lemma fifo_dequeue_spec:
  assumes "fifo_ok f" "kernel_wf k"
  shows "\<exists>f' k'. exos_fifo_dequeue f k = Inr (case Items f of [] \<Rightarrow> None | x # _ \<Rightarrow> Some x, f', k') \<and> fifo_ok f' \<and>
    kernel_wf k' \<and> Items f' = tl (Items f) \<and> FEvent f' = FEvent f \<and>
    (\<forall>e. FEvent f = Some e \<longrightarrow> tl (Items f) = [] \<longrightarrow> \<not> EvState (events k' e)) \<and> (tl (Items f) \<noteq> [] \<longrightarrow> k' = k)"
proof -
  obtain k1 where k1: "when_event exos_event_reset (FEvent f) k = Inr k1" "kernel_wf k1"
    "\<forall>e. FEvent f = Some e \<longrightarrow> \<not> EvState (events k1 e)"
    using when_event_reset[OF assms(2)] by blast
  show ?thesis
  proof (cases "Items f")
    case Nil
    then show ?thesis using assms k1 by (simp add: exos_fifo_dequeue_def fifo_ok_def)
  next
    case (Cons x xs)
    have "length (Items f) < 2 ^ 32" using assms(1) fifo_length by (simp add: fifo_ok_def)
    then have "FCount f \<noteq> 0" using of_nat_u32_eq_0[of "length (Items f)"] assms(1) Cons by (simp add: fifo_ok_def)
    then show ?thesis
      using Cons assms k1 by (cases "xs = []") (simp_all add: exos_fifo_dequeue_def fifo_ok_def)
  qed
qed

definition fifo_enq :: "nid \<Rightarrow> fifo_t \<times> kernel \<Rightarrow> (fifo_t \<times> kernel) res" where
  "fifo_enq n s = exos_fifo_queue n (fst s) (snd s)"

definition fifo_deq :: "fifo_t \<times> kernel \<Rightarrow> (nid option \<times> fifo_t \<times> kernel) res" where
  "fifo_deq s = exos_fifo_dequeue (fst s) (snd s)"

definition fifo_state_ok :: "fifo_t \<times> kernel \<Rightarrow> bool" where
  "fifo_state_ok s \<longleftrightarrow> fifo_ok (fst s) \<and> kernel_wf (snd s)"

interpretation fifo: queue fifo_state_ok is_node "Items \<circ> fst" "Panic KERNEL_ERROR_LIST_ALREADY_CONTAINS_NODE" fifo_enq fifo_deq
proof
  fix s :: "fifo_t \<times> kernel" and x
  assume "fifo_state_ok s" "is_node x" "x \<notin> set ((Items \<circ> fst) s)"
  then show "\<exists>s'. fifo_enq x s = Inr s' \<and> fifo_state_ok s' \<and> (Items \<circ> fst) s' = (Items \<circ> fst) s @ [x]"
    using fifo_queue_spec[of "fst s" "snd s" x] by (auto simp: fifo_enq_def fifo_state_ok_def)
next
  fix s :: "fifo_t \<times> kernel" and x
  assume "x \<in> set ((Items \<circ> fst) s)"
  then show "fifo_enq x s = Inl (Panic KERNEL_ERROR_LIST_ALREADY_CONTAINS_NODE)"
    by (simp add: fifo_enq_def exos_fifo_queue_def)
next
  fix s :: "fifo_t \<times> kernel"
  assume "fifo_state_ok s"
  then show "\<exists>s'. fifo_deq s = Inr (case (Items \<circ> fst) s of [] \<Rightarrow> None | x # _ \<Rightarrow> Some x, s') \<and> fifo_state_ok s' \<and>
      (Items \<circ> fst) s' = tl ((Items \<circ> fst) s)"
    using fifo_dequeue_spec[of "fst s" "snd s"] by (auto simp: fifo_deq_def fifo_state_ok_def)
qed

text \<open>C12: over any sequence of queue and dequeue calls that never queues a node while it is in the queue (a node that was
  dequeued may be queued again), no call panics, every dequeue returns what it returns on the list of the nodes (nothing
  exactly when the queue is empty), and the nodes leave in the order they came: those queued before, then those of
  the sequence, are the delivered ones followed by the queued ones.  A sequence that does queue such a node
  stops in the panic of the debug build.
\<close>

theorem fifo_in_order:
  assumes "fifo_ok f" and "kernel_wf k" and "\<forall>x\<in>set (enqueued ops). is_node x"
  shows "if legal (Items f) ops
    then \<exists>outs f' k'. queue_run fifo_enq fifo_deq ops (f, k) = Inr (outs, (f', k')) \<and> fifo_ok f' \<and> kernel_wf k' \<and>
      list_run ops (Items f) = (outs, Items f') \<and> Items f @ enqueued ops = delivered outs @ Items f'
    else queue_run fifo_enq fifo_deq ops (f, k) = Inl (Panic KERNEL_ERROR_LIST_ALREADY_CONTAINS_NODE)"
proof (cases "legal (Items f) ops")
  case True
  then obtain outs s' where "queue_run fifo_enq fifo_deq ops (f, k) = Inr (outs, s')" "fifo_state_ok s'" "list_run ops (Items f) = (outs, Items (fst s'))"
    using fifo.run_refines[of "(f, k)" ops] assms by (auto simp: fifo_state_ok_def)
  then show ?thesis using True list_run_in_order[of ops "Items f"] by (cases s') (auto simp: fifo_state_ok_def)
next
  case False
  then show ?thesis using fifo.run_illegal[of "(f, k)" ops] assms by (simp add: fifo_state_ok_def)
qed

text \<open>Node 8 is queued, dequeued and queued again.\<close>

theorem fifo_in_order_witness:
  "(\<exists>f' k'. queue_run fifo_enq fifo_deq [Enq 8, Enq 16, Deq, Enq 8, Deq, Deq, Deq] (exos_fifo_create None, sample_kernel) =
     Inr ([Some 8, Some 16, Some 8, None], (f', k')) \<and> Items f' = []) \<and>
   queue_run fifo_enq fifo_deq [Enq 8, Enq 8] (exos_fifo_create None, sample_kernel) = Inl (Panic KERNEL_ERROR_LIST_ALREADY_CONTAINS_NODE)"
proof -
  have "fifo_ok (exos_fifo_create None)" by (simp add: fifo_ok_def exos_fifo_create_def)
  note run = fifo_in_order[OF this sample_kernel_wf]
  show ?thesis
    using run[of "[Enq 8, Enq 16, Deq, Enq 8, Deq, Deq, Deq]"] run[of "[Enq 8, Enq 8]"]
    by (auto simp: is_node_def exos_fifo_create_def)
qed

section \<open>Ports\<close>

text \<open>In the debug build every message sent to a port stops the kernel in a null-pointer panic.
\<close>

theorem port_send_panics:
  "exos_port_send_message (Some x) (Some n) p k = Inl (Panic KERNEL_ERROR_NULL_POINTER)"
  by (simp add: exos_port_send_message_def)

text \<open>Named ports are unique, and removing one makes its name free again.\<close>

definition names_ok :: "port_table \<Rightarrow> bool" where
  "names_ok p \<longleftrightarrow> distinct (port_list p) \<and>
     (\<forall>x\<in>set (port_list p). \<exists>n. PName (ports p x) = Some n \<and> c_string n) \<and>
     inj_on (\<lambda>x. PName (ports p x)) (set (port_list p))"

lemma find_port_loop_spec:
  "\<forall>x\<in>set xs. \<exists>m. PName (ports p x) = Some m \<and> c_string m \<Longrightarrow> c_string n \<Longrightarrow>
     (case find_port_loop p n xs of
        None \<Rightarrow> \<forall>x\<in>set xs. PName (ports p x) \<noteq> Some n
      | Some x \<Rightarrow> x \<in> set xs \<and> PName (ports p x) = Some n)"
proof (induction xs)
  case (Cons x xs)
  then obtain m where "PName (ports p x) = Some m" "c_string m" by auto
  then show ?case using Cons str_comp_eq_0[of n m] by (auto split: option.splits)
qed simp

lemma find_port_spec:
  assumes "names_ok p" "c_string n"
  shows "case find_port n p of
      None \<Rightarrow> \<forall>x\<in>set (port_list p). PName (ports p x) \<noteq> Some n
    | Some x \<Rightarrow> x \<in> set (port_list p) \<and> PName (ports p x) = Some n"
  using find_port_loop_spec[of "port_list p" p n] assms by (simp add: names_ok_def find_port_def)

lemma find_port_loop_other:
  "x \<notin> set xs \<Longrightarrow> find_port_loop (p\<lparr>ports := (ports p)(x := y)\<rparr>) n xs = find_port_loop p n xs"
  by (induction xs) auto

text \<open>A port is created under a name exactly when no port has the name yet; it can then be looked up, names stay
  unique, and after its removal the name is free.
\<close>

theorem port_names_unique:
  assumes ok: "names_ok p" and n: "c_string n" and x: "x \<notin> set (port_list p)"
    and c: "exos_port_create x e (Some n) p k = (r, p', k')"
  shows "names_ok p' \<and> r = (if find_port n p = None then 1 else 0) \<and>
    (r = 1 \<longrightarrow> find_port n p' = Some x \<and> find_port n (exos_port_remove n p') = None) \<and>
    (r = 0 \<longrightarrow> port_list p' = port_list p)"
proof -
  let ?p1 = "p\<lparr>ports := (ports p)(x := \<lparr>PFifo = exos_fifo_create (Some e), PName = Some n\<rparr>)\<rparr>"
  have f1: "find_port m ?p1 = find_port m p" for m using x by (simp add: find_port_def find_port_loop_other)
  have ok1: "names_ok ?p1" using ok x by (auto simp: names_ok_def inj_on_def)
  show ?thesis
  proof (cases "find_port n p")
    case None
    let ?p2 = "?p1\<lparr>port_list := port_list p @ [x]\<rparr>"
    have no: "\<forall>y\<in>set (port_list p). PName (ports p y) \<noteq> Some n" using find_port_spec[OF ok n] None by simp
    have "find_port n ?p1 = None" using None f1 by simp
    then have res: "r = 1" "p' = ?p2" using c by (simp_all add: exos_port_create_def Let_def)
    have nm: "PName (ports ?p2 y) = (if y = x then Some n else PName (ports p y))" for y by simp
    have ip: "inj_on (\<lambda>y. PName (ports p y)) (set (port_list p))" using ok by (simp add: names_ok_def)
    have "inj_on (\<lambda>y. PName (ports ?p2 y)) (set (port_list ?p2))"
    proof (rule inj_onI)
      fix a b
      assume "a \<in> set (port_list ?p2)" "b \<in> set (port_list ?p2)" "PName (ports ?p2 a) = PName (ports ?p2 b)"
      then show "a = b" using no inj_onD[OF ip, of a b] unfolding nm by (cases "a = x"; cases "b = x") auto
    qed
    moreover have "distinct (port_list ?p2)" using ok x by (simp add: names_ok_def)
    moreover have "\<exists>m. PName (ports ?p2 y) = Some m \<and> c_string m" if "y \<in> set (port_list ?p2)" for y
      using that ok n unfolding nm names_ok_def by (cases "y = x") auto
    ultimately have ok2: "names_ok ?p2" unfolding names_ok_def by blast
    have names: "PName (ports ?p2 y) = Some n \<longleftrightarrow> y = x" if "y \<in> set (port_list ?p2)" for y
      using that no x by auto
    have fs: "find_port n ?p2 = Some x"
    proof (cases "find_port n ?p2")
      case None
      then show ?thesis using find_port_spec[OF ok2 n] by simp
    next
      case (Some y)
      then show ?thesis using find_port_spec[OF ok2 n] names[of y] by simp
    qed
    let ?p3 = "exos_port_remove n ?p2"
    have "port_list ?p3 = port_list p" "ports ?p3 = ports ?p2" using fs x by (simp_all add: exos_port_remove_def)
    moreover from this have "names_ok ?p3" using ok1 unfolding names_ok_def by auto
    moreover have "PName (ports ?p2 y) \<noteq> Some n" if "y \<in> set (port_list p)" for y using that no x by auto
    ultimately have "find_port n ?p3 = None"
      using find_port_spec[of ?p3 n] n by (cases "find_port n ?p3") auto
    then show ?thesis using res ok2 fs None by simp
  next
    case (Some y)
    then have "find_port n ?p1 = Some y" using f1 by simp
    then have "r = 0" "p' = ?p1" using c by (simp_all add: exos_port_create_def Let_def)
    then show ?thesis using ok1 Some by simp
  qed
qed

definition sample_ports :: port_table where
  "sample_ports = \<lparr>port_list = [], ports = (\<lambda>_. \<lparr>PFifo = exos_fifo_create None, PName = None\<rparr>),
     is_message = (\<lambda>_. False), ReplyPort = (\<lambda>_. 0)\<rparr>"

theorem port_names_unique_witness:
  "find_port [97] (fst (snd (exos_port_create 5 (Ev 3) (Some [97]) sample_ports sample_kernel))) = Some 5"
proof -
  obtain r p' k' where c: "exos_port_create 5 (Ev 3) (Some [97]) sample_ports sample_kernel = (r, p', k')" by (metis prod_cases3)
  have "find_port [97] sample_ports = None" by (simp add: find_port_def sample_ports_def)
  moreover have "names_ok sample_ports" by (simp add: names_ok_def sample_ports_def)
  ultimately show ?thesis
    using port_names_unique[OF _ _ _ c] c by (simp add: c_string_def sample_ports_def)
qed

text \<open>The public look-up does not find a port even when it exists.
\<close>

theorem port_find_fails:
  assumes "names_ok p" and "c_string n" and "find_port n p = Some x"
  shows "exos_port_find n p = None \<and> x \<in> set (port_list p) \<and> PName (ports p x) = Some n"
  using find_port_spec[OF assms(1,2)] assms(3) by (simp add: exos_port_find_def)

theorem port_find_fails_witness:
  "exos_port_find [97] (sample_ports\<lparr>port_list := [5], ports := (\<lambda>_. \<lparr>PFifo = exos_fifo_create None, PName = Some [97]\<rparr>)\<rparr>) = None \<and>
   find_port [97] (sample_ports\<lparr>port_list := [5], ports := (\<lambda>_. \<lparr>PFifo = exos_fifo_create None, PName = Some [97]\<rparr>)\<rparr>) = Some 5"
  using port_find_fails[of "sample_ports\<lparr>port_list := [5], ports := (\<lambda>_. \<lparr>PFifo = exos_fifo_create None, PName = Some [97]\<rparr>)\<rparr>" "[97]" 5]
  by (simp add: names_ok_def c_string_def find_port_def)

text \<open>A wait for an auto-reset event that is set consumes it without blocking.\<close>

lemma event_wait_consumes:
  assumes "EvState (events k e)" "AutoReset (events k e)"
  shows "exos_event_wait_begin fuel elapsed h th tm e 0 k =
    Inr (NoWait, upd_event e (\<lambda>x. x\<lparr>EvState := False\<rparr>) (exos_thread_create_wait_handle h k))"
  using assms by (simp add: exos_event_wait_begin_def exos_event_add_handle_def exos_thread_add_wait_handle_def
      k_add_handle_def event_cond_def)

text \<open>When two nodes are waiting in a queue with an auto-reset event, one wait takes the first node and leaves the event
  reset, so the next wait blocks although the queue is not empty.
\<close>

theorem fifo_autoreset_misses:
  assumes ok: "fifo_ok f" and wf: "kernel_wf k" and ev: "FEvent f = Some e" "AutoReset (events k e)" "EvState (events k e)"
    and rd: "State (threads k (running k)) = EXOS_THREAD_READY" and h: "HState (handles k h) = WAIT_HANDLE_DETACHED"
    and m: "MaskUsed (threads k (running k)) \<noteq> - 1" and it: "Items f = a # b # r"
  shows "\<exists>k1 f' k2 msk k3. exos_fifo_wait_begin fuel elapsed h th tm 0 f k = Inr (NoWait, k1) \<and>
    exos_fifo_wait_end fuel elapsed h th tm NoWait f k1 = Inr (Some a, f', k2) \<and> Items f' = b # r \<and>
    exos_fifo_wait_begin fuel elapsed h th tm 0 f' k2 = Inr (WaitEvent msk, k3) \<and> blocked_on h msk (EventHandles e) k3"
proof -
  let ?k1 = "upd_event e (\<lambda>x. x\<lparr>EvState := False\<rparr>) (exos_thread_create_wait_handle h k)"
  have wf1: "kernel_wf ?k1" using create_wait_handle_wf[OF wf h] by simp
  obtain f' where f': "exos_fifo_dequeue f ?k1 = Inr (Some a, f', ?k1)" "Items f' = b # r" "FEvent f' = Some e"
    using fifo_dequeue_spec[OF ok wf1] it ev(1) by auto
  have "State (threads ?k1 (running ?k1)) = EXOS_THREAD_READY" "HState (handles ?k1 h) = WAIT_HANDLE_DETACHED"
    "MaskUsed (threads ?k1 (running ?k1)) \<noteq> - 1" "\<not> EvState (events ?k1 e)"
    using rd m by simp_all
  then obtain msk k3 where "exos_event_wait_begin fuel elapsed h th tm e 0 ?k1 = Inr (WaitEvent msk, k3)"
    "blocked_on h msk (EventHandles e) k3"
    using event_wait_begin_cases[OF wf1, of h fuel elapsed th tm e] by auto
  then show ?thesis
    using f' ev event_wait_consumes[OF ev(3,2)]
    by (auto simp: exos_fifo_wait_begin_def exos_fifo_wait_end_def exos_event_wait_end_def)
qed

theorem fifo_autoreset_misses_witness:
  "\<exists>f' k1 k2 msk k3.
     exos_fifo_wait_begin 0 0 8 9 6 0 \<lparr>FCount = 2, Items = [16, 24], FEvent = Some (Ev 0)\<rparr>
       (sample_kernel\<lparr>events := (\<lambda>_. \<lparr>EvState = True, AutoReset = True\<rparr>)\<rparr>) = Inr (NoWait, k1) \<and>
     exos_fifo_wait_end 0 0 8 9 6 NoWait \<lparr>FCount = 2, Items = [16, 24], FEvent = Some (Ev 0)\<rparr> k1 = Inr (Some 16, f', k2) \<and>
     exos_fifo_wait_begin 0 0 8 9 6 0 f' k2 = Inr (WaitEvent msk, k3) \<and> blocked_on 8 msk (EventHandles (Ev 0)) k3"
proof -
  let ?f = "\<lparr>FCount = 2, Items = [16, 24], FEvent = Some (Ev 0)\<rparr>"
  let ?k = "sample_kernel\<lparr>events := (\<lambda>_. \<lparr>EvState = True, AutoReset = True\<rparr>)\<rparr>"
  have "fifo_ok ?f" by (simp add: fifo_ok_def is_node_def)
  moreover have "kernel_wf ?k" using sample_kernel_wf kernel_wf_cong(1)[of ?k sample_kernel] by simp
  ultimately show ?thesis
    using fifo_autoreset_misses[of ?f ?k "Ev 0" 8 16 24 "[]" 0 0 9 6]
    by (auto simp: sample_kernel_def sample_thread_def)
qed

end
