(* ===== verification/Memory.thy ===== *)
theory Memory
  imports KList
begin

text \<open>
  The memory allocator (\<^verbatim>\<open>exos/kernel/memory.c\<close>): a first-fit allocator with
  boundary tags.  The words of the block headers and footers, the type fields of free nodes and the
  payload bytes are separate stores indexed by address, as they occupy disjoint cells of a well-formed
  heap; a free list is the sequence of the headers of its nodes.  Layout on the 32-bit targets: a
  header takes 8 bytes, a footer 4 and a list node 16.  The lists are only used under their
  mutexes, so every call is one step.
\<close>

unbundle bit_operations_syntax

section \<open>State\<close>

type_synonym rid = nat

abbreviation HDR :: nat where "HDR \<equiv> 8"
abbreviation FTR :: nat where "FTR \<equiv> 4"
abbreviation NODE :: nat where "NODE \<equiv> 16"

record mem_region =
  RFlags :: u32
  StartAddress :: nat
  RSize :: nat
  FreeList :: "nat list"
  RPri :: int
  is_region :: bool      \<comment> \<open>\<^verbatim>\<open>Node.Type == EXOS_NODE_MEM_REGION\<close>\<close>

record heap =
  hsize :: "nat \<Rightarrow> nat"          \<comment> \<open>\<^verbatim>\<open>Size\<close> of the header at an address\<close>
  hregion :: "nat \<Rightarrow> rid"        \<comment> \<open>\<^verbatim>\<open>Region\<close> of the header at an address\<close>
  ffree :: "nat \<Rightarrow> nat"          \<comment> \<open>\<^verbatim>\<open>FreeSize\<close> of the footer at an address\<close>
  mem_node :: "nat \<Rightarrow> bool"      \<comment> \<open>the contents of the block at an address have type \<^verbatim>\<open>EXOS_NODE_MEM_NODE\<close>\<close>
  bytes :: "nat \<Rightarrow> u8"
  regions :: "rid \<Rightarrow> mem_region"
  mem_list :: "rid list"

definition EXOS_MEMF_REGION :: u32 where "EXOS_MEMF_REGION = 3"
definition EXOS_MEMF_CLEAR :: u32 where "EXOS_MEMF_CLEAR = 16"

definition upd_region :: "rid \<Rightarrow> (mem_region \<Rightarrow> mem_region) \<Rightarrow> heap \<Rightarrow> heap" where
  "upd_region r f h = h\<lparr>regions := (regions h)(r := f (regions h r))\<rparr>"

section \<open>Regions\<close>

text \<open>Sizes are 32-bit: \<^verbatim>\<open>size - (sizeof(EXOS_MEM_HEADER) + sizeof(EXOS_MEM_FOOTER))\<close> wraps below zero.\<close>

definition block_size :: "nat \<Rightarrow> nat \<Rightarrow> nat" where
  "block_size start stop = nat ((int stop - int start - int (HDR + FTR)) mod 2 ^ 32)"

definition init_block :: "rid \<Rightarrow> nat \<Rightarrow> nat \<Rightarrow> heap \<Rightarrow> heap" where
  "init_block r start stop h =
     h\<lparr>hsize := (hsize h)(start := block_size start stop), hregion := (hregion h)(start := r),
       mem_node := (mem_node h)(start := True),
       ffree := (ffree h)(stop - FTR := block_size start stop)\<rparr>"

definition ptr_diff :: "nat \<Rightarrow> nat \<Rightarrow> nat" where
  "ptr_diff stop start = nat ((int stop - int start) mod 2 ^ 32)"

definition exos_mem_add_region :: "rid \<Rightarrow> nat \<Rightarrow> nat \<Rightarrow> int \<Rightarrow> u32 \<Rightarrow> heap \<Rightarrow> bool \<times> heap" where
  "exos_mem_add_region r start stop p flags h =
     (if ptr_diff stop start > FTR + HDR + HDR
      then let h1 = h\<lparr>ffree := (ffree h)(start := 0)\<rparr>;
               tail = stop - HDR;
               h2 = h1\<lparr>hregion := (hregion h1)(tail := r), hsize := (hsize h1)(tail := 0)\<rparr>;
               h3 = init_block r (start + FTR) tail h2;
               h4 = upd_region r (\<lambda>_. \<lparr>RFlags = flags, StartAddress = start, RSize = ptr_diff stop start,
                      FreeList = [start + FTR], RPri = sint (word_of_int p :: u8), is_region = True\<rparr>) h3
           in (True, h4\<lparr>mem_list := prio_insert (\<lambda>x. RPri (regions h4 x)) r (mem_list h4)\<rparr>)
      else (False, h))"

text \<open>\<^verbatim>\<open>__mem_init\<close>: the heap between the linker symbols is the first region.\<close>

definition mem_init :: "rid \<Rightarrow> nat \<Rightarrow> nat \<Rightarrow> heap \<Rightarrow> heap" where
  "mem_init heap_region heap_start heap_end h =
     snd (exos_mem_add_region heap_region heap_start heap_end (- 1) 0 (h\<lparr>mem_list := []\<rparr>))"

section \<open>Allocation\<close>

fun find_room :: "rid \<Rightarrow> nat \<Rightarrow> nat list \<Rightarrow> heap \<Rightarrow> nat option res" where
  "find_room r sz [] h = Inr None"
| "find_room r sz (a # as) h =
     (if \<not> mem_node h a then Inl (Panic KERNEL_ERROR_MEMORY_CORRUPT)
      else if ffree h (a + HDR + hsize h a) \<noteq> hsize h a then Inl (Panic KERNEL_ERROR_MEMORY_CORRUPT)
      else if a < StartAddress (regions h r) \<or> StartAddress (regions h r) + RSize (regions h r) \<le> a \<or> a mod 4 \<noteq> 0
      then Inl (Panic KERNEL_ERROR_MEMORY_CORRUPT)
      else if sz \<le> hsize h a then Inr (Some a)
      else find_room r sz as h)"

text \<open>The part of \<^verbatim>\<open>exos_mem_alloc\<close> that takes the block found.\<close>

definition take_block :: "rid \<Rightarrow> nat \<Rightarrow> u32 \<Rightarrow> nat \<Rightarrow> heap \<Rightarrow> nat \<times> heap" where
  "take_block r sz flags a h =
     (let h1 = (if hsize h a - sz \<ge> HDR + NODE + FTR
                then let stop = a + (HDR + hsize h a + FTR);
                         split = a + (HDR + sz + FTR);
                         h2 = h\<lparr>hsize := (hsize h)(a := sz), ffree := (ffree h)(split - FTR := 0)\<rparr>;
                         h3 = init_block r split stop h2
                     in upd_region r (\<lambda>g. g\<lparr>FreeList := insert_after a split (FreeList g)\<rparr>) h3
                else h\<lparr>ffree := (ffree h)(a + HDR + hsize h a := 0)\<rparr>);
          h4 = upd_region r (\<lambda>g. g\<lparr>FreeList := filter (\<lambda>x. x \<noteq> a) (FreeList g)\<rparr>) h1;
          h5 = (if flags AND EXOS_MEMF_CLEAR \<noteq> 0
                then h4\<lparr>bytes := (\<lambda>x. if a + HDR \<le> x \<and> x < a + HDR + sz then 0 else bytes h4 x)\<rparr> else h4)
      in (a + HDR, h5))"

fun alloc_loop :: "nat \<Rightarrow> u32 \<Rightarrow> rid list \<Rightarrow> heap \<Rightarrow> (nat option \<times> heap) res" where
  "alloc_loop sz flags [] h = Inr (None, h)"
| "alloc_loop sz flags (r # rs) h =
     (if RFlags (regions h r) AND flags = flags AND EXOS_MEMF_REGION
      then rbind (find_room r sz (FreeList (regions h r)) h) (\<lambda>found.
             case found of
               None \<Rightarrow> alloc_loop sz flags rs h
             | Some a \<Rightarrow> (case take_block r sz flags a h of (p, h1) \<Rightarrow> Inr (Some p, h1)))
      else alloc_loop sz flags rs h)"

definition align16 :: "u32 \<Rightarrow> u32" where
  "align16 sz = (sz + 15) AND NOT 15"

definition exos_mem_alloc :: "u32 \<Rightarrow> u32 \<Rightarrow> heap \<Rightarrow> (nat option \<times> heap) res" where
  "exos_mem_alloc sz flags h =
     (if sz = 0 then Inr (None, h) else alloc_loop (unat (align16 sz)) flags (mem_list h) h)"

section \<open>Release\<close>

text \<open>
  \<^verbatim>\<open>exos_mem_free\<close>: the block is merged with a free successor, then with a free
  predecessor.  \<open>prd\<close> is \<^verbatim>\<open>pred_node\<close>: unset, or the node before the block last removed from
  the free list, where \<open>Some None\<close> is the head of the list.
\<close>

definition merge_next :: "rid \<Rightarrow> nat \<Rightarrow> heap \<Rightarrow> (nat \<times> nat option option \<times> heap) res" where
  "merge_next r footer h =
     (let nxt = footer + FTR in
      if hsize h nxt \<noteq> 0
      then if hregion h nxt \<noteq> r then Inl (Panic KERNEL_ERROR_MEMORY_CORRUPT)
           else let next_footer = nxt + HDR + hsize h nxt in
             if ffree h next_footer = hsize h nxt
             then if \<not> mem_node h nxt then Inl (Panic KERNEL_ERROR_MEMORY_CORRUPT)
                  else Inr (next_footer, Some (list_pred nxt (FreeList (regions h r))),
                            upd_region r (\<lambda>g. g\<lparr>FreeList := filter (\<lambda>x. x \<noteq> nxt) (FreeList g)\<rparr>) h)
             else Inr (footer, None, h)
      else Inr (footer, None, h))"

definition merge_prev :: "rid \<Rightarrow> nat \<Rightarrow> nat option option \<Rightarrow> heap \<Rightarrow> (nat \<times> nat option option \<times> heap) res" where
  "merge_prev r header prd h =
     (let prev_footer = header - FTR in
      if ffree h prev_footer \<noteq> 0
      then let prv = prev_footer - (ffree h prev_footer + HDR) in
        if hregion h prv \<noteq> r \<or> \<not> mem_node h prv \<or> hsize h prv \<noteq> ffree h prev_footer
        then Inl (Panic KERNEL_ERROR_MEMORY_CORRUPT)
        else Inr (prv, Some (list_pred prv (FreeList (regions h r))),
                  upd_region r (\<lambda>g. g\<lparr>FreeList := filter (\<lambda>x. x \<noteq> prv) (FreeList g)\<rparr>) h)
      else Inr (header, prd, h))"

definition exos_mem_free :: "nat \<Rightarrow> heap \<Rightarrow> heap res" where
  "exos_mem_free addr h =
     (let header = addr - HDR; r = hregion h header in
      if \<not> is_region (regions h r) then Inl (Panic KERNEL_ERROR_MEMORY_CORRUPT)
      else if hsize h header < NODE then Inl (Panic KERNEL_ERROR_MEMORY_CORRUPT)
      else let footer = header + HDR + hsize h header in
        if ffree h footer \<noteq> 0 then Inl (Panic KERNEL_ERROR_MEMORY_CORRUPT)
        else rbind (merge_next r footer h) (\<lambda>(footer1, prd1, h1).
          rbind (merge_prev r header prd1 h1) (\<lambda>(header2, prd2, h2).
            let h3 = init_block r header2 (footer1 + FTR) h2
            in Inr (upd_region r (\<lambda>g. g\<lparr>FreeList := insert_at (case prd2 of None \<Rightarrow> None | Some q \<Rightarrow> q)
                                                       header2 (FreeList g)\<rparr>) h3))))"

section \<open>Statistics\<close>

record mem_stats =
  Free :: u32
  Fragments :: u32
  Largest :: u32

fun stats_loop :: "rid \<Rightarrow> nat list \<Rightarrow> heap \<Rightarrow> mem_stats \<Rightarrow> mem_stats res" where
  "stats_loop r [] h st = Inr st"
| "stats_loop r (a # as) h st =
     (if hregion h a \<noteq> r \<or> \<not> mem_node h a \<or> a < StartAddress (regions h r) then Inl (Panic KERNEL_ERROR_MEMORY_CORRUPT)
      else if hsize h a \<noteq> ffree h (a + HDR + hsize h a) \<or>
              StartAddress (regions h r) + RSize (regions h r) \<le> a + HDR + hsize h a + FTR
      then Inl (Panic KERNEL_ERROR_MEMORY_CORRUPT)
      else stats_loop r as h
             (st\<lparr>Largest := if Largest st < of_nat (hsize h a) then of_nat (hsize h a) else Largest st,
                 Free := Free st + of_nat (hsize h a), Fragments := Fragments st + 1\<rparr>))"

definition exos_mem_stats :: "rid \<Rightarrow> heap \<Rightarrow> mem_stats res" where
  "exos_mem_stats r h =
     (if \<not> is_region (regions h r) then Inl (Panic KERNEL_ERROR_MEMORY_CORRUPT)
      else stats_loop r (FreeList (regions h r)) h \<lparr>Free = 0, Fragments = 0, Largest = 0\<rparr>)"

fun get_region_loop :: "u32 \<Rightarrow> int \<Rightarrow> int \<Rightarrow> rid list \<Rightarrow> heap \<Rightarrow> rid option" where
  "get_region_loop flags index i [] h = None"
| "get_region_loop flags index i (r # rs) h =
     (if RFlags (regions h r) AND flags = flags AND EXOS_MEMF_REGION
      then if i = index then Some r else get_region_loop flags index (i + 1) rs h
      else get_region_loop flags index i rs h)"

definition exos_mem_get_region :: "u32 \<Rightarrow> int \<Rightarrow> heap \<Rightarrow> rid option" where
  "exos_mem_get_region flags index h = get_region_loop flags index 0 (mem_list h) h"

definition exos_mem_heap_stats :: "rid \<Rightarrow> heap \<Rightarrow> mem_stats res" where
  "exos_mem_heap_stats heap_region h = exos_mem_stats heap_region h"

definition exos_mem_heap_avail :: "rid \<Rightarrow> heap \<Rightarrow> u32 res" where
  "exos_mem_heap_avail heap_region h = rbind (exos_mem_stats heap_region h) (\<lambda>st. Inr (Free st))"

end
