(* ===== verification/Memory_Inv.thy ===== *)
theory Memory_Inv
  imports Memory
begin

text \<open>
  Correctness of the allocator.  The abstract value of a region is the sequence of its blocks, each
  with its size and whether it is free; a well-formed heap tiles every region with such blocks,
  keeps exactly the free ones in the free list and never leaves two free blocks side by side.
\<close>

section \<open>Tilings\<close>

type_synonym block = "nat \<times> bool"

definition total :: "block list \<Rightarrow> nat" where
  "total bs = sum_list (map (\<lambda>(sz, _). HDR + sz + FTR) bs)"

fun tiled :: "heap \<Rightarrow> rid \<Rightarrow> nat \<Rightarrow> block list \<Rightarrow> bool" where
  "tiled h r a [] = True"
| "tiled h r a ((sz, fr) # bs) =
     (hsize h a = sz \<and> hregion h a = r \<and> NODE \<le> sz \<and> sz mod 4 = 0 \<and> sz < 2 ^ 32 \<and>
      ffree h (a + HDR + sz) = (if fr then sz else 0) \<and> (fr \<longrightarrow> mem_node h a) \<and>
      tiled h r (a + HDR + sz + FTR) bs)"

fun free_addrs :: "nat \<Rightarrow> block list \<Rightarrow> nat set" where
  "free_addrs a [] = {}"
| "free_addrs a ((sz, fr) # bs) = (if fr then {a} else {}) \<union> free_addrs (a + HDR + sz + FTR) bs"

fun no_adjacent :: "block list \<Rightarrow> bool" where
  "no_adjacent [] = True"
| "no_adjacent [b] = True"
| "no_adjacent (b # c # bs) = (\<not> (snd b \<and> snd c) \<and> no_adjacent (c # bs))"

lemma total_simps [simp]:
  "total [] = 0" "total ((sz, fr) # bs) = HDR + sz + FTR + total bs" "total (xs @ ys) = total xs + total ys"
  by (simp_all add: total_def)

lemma tiled_append [simp]: "tiled h r a (xs @ ys) \<longleftrightarrow> tiled h r a xs \<and> tiled h r (a + total xs) ys"
  by (induction xs arbitrary: a) (auto simp: add.assoc)

lemma free_addrs_append [simp]: "free_addrs a (xs @ ys) = free_addrs a xs \<union> free_addrs (a + total xs) ys"
  by (induction xs arbitrary: a) (auto simp: add.assoc)

lemma free_addrs_range: "x \<in> free_addrs a bs \<Longrightarrow> a \<le> x \<and> x + HDR + FTR \<le> a + total bs"
  by (induction a bs rule: free_addrs.induct) (auto split: if_splits)

lemma free_addrs_mod: "tiled h r a bs \<Longrightarrow> a mod 4 = 0 \<Longrightarrow> x \<in> free_addrs a bs \<Longrightarrow> x mod 4 = 0"
proof (induction a bs rule: free_addrs.induct)
  case (2 a sz fr bs)
  have "sz mod 4 = 0" using 2(2) by simp
  then have "(a + HDR + sz + FTR) mod 4 = 0" using 2(3) by presburger
  then show ?case using 2 by (auto split: if_splits)
qed simp

text \<open>A tiling only depends on the cells it covers.\<close>

definition same_tags :: "nat \<Rightarrow> nat \<Rightarrow> heap \<Rightarrow> heap \<Rightarrow> bool" where
  "same_tags a b h h' \<longleftrightarrow> (\<forall>x. a \<le> x \<longrightarrow> x < b \<longrightarrow>
     hsize h' x = hsize h x \<and> hregion h' x = hregion h x \<and> ffree h' x = ffree h x \<and> mem_node h' x = mem_node h x)"

lemma same_tags_sub: "same_tags a b h h' \<Longrightarrow> a \<le> c \<Longrightarrow> d \<le> b \<Longrightarrow> same_tags c d h h'"
  by (auto simp: same_tags_def)

lemma tiled_frame: "same_tags a (a + total bs) h h' \<Longrightarrow> tiled h r a bs \<Longrightarrow> tiled h' r a bs"
proof (induction bs arbitrary: a)
  case (Cons b bs)
  obtain sz fr where b: "b = (sz, fr)" by (cases b)
  let ?a = "a + HDR + sz + FTR"
  have "same_tags ?a (?a + total bs) h h'"
    by (rule same_tags_sub[OF Cons.prems(1)]) (simp_all add: b)
  moreover have "hsize h' a = hsize h a" "hregion h' a = hregion h a" "mem_node h' a = mem_node h a"
    "ffree h' (a + HDR + sz) = ffree h (a + HDR + sz)"
    using Cons.prems(1) by (auto simp: same_tags_def b)
  ultimately show ?case using Cons by (simp add: b)
qed simp

text \<open>A free address splits the tiling at its block.\<close>

lemma free_block_split:
  "tiled h r a bs \<Longrightarrow> x \<in> free_addrs a bs \<Longrightarrow>
     \<exists>xs ys. bs = xs @ (hsize h x, True) # ys \<and> x = a + total xs"
proof (induction bs arbitrary: a)
  case (Cons b bs)
  obtain sz fr where b: "b = (sz, fr)" by (cases b)
  show ?case
  proof (cases "fr \<and> x = a")
    case True
    then show ?thesis using Cons.prems by (intro exI[of _ "[]"] exI[of _ bs]) (simp add: b)
  next
    case False
    then obtain xs ys where "bs = xs @ (hsize h x, True) # ys" "x = a + HDR + sz + FTR + total xs"
      using Cons.IH[of "a + HDR + sz + FTR"] Cons.prems by (auto simp: b split: if_splits)
    then show ?thesis by (intro exI[of _ "b # xs"] exI[of _ ys]) (simp add: b)
  qed
qed simp

section \<open>Well-formed regions\<close>

definition region_ok :: "heap \<Rightarrow> rid \<Rightarrow> block list \<Rightarrow> bool" where
  "region_ok h r bs \<longleftrightarrow>
     (let g = regions h r; a = StartAddress g + FTR in
        is_region g \<and> tiled h r a bs \<and> no_adjacent bs \<and> a mod 4 = 0 \<and>
        StartAddress g + RSize g = a + total bs + HDR \<and> StartAddress g + RSize g \<le> 2 ^ 32 \<and>
        distinct (FreeList g) \<and> set (FreeList g) = free_addrs a bs \<and>
        hsize h (a + total bs) = 0 \<and> ffree h (StartAddress g) = 0)"

lemma no_adjacent_append:
  "no_adjacent (xs @ ys) \<longleftrightarrow> no_adjacent xs \<and> no_adjacent ys \<and> (xs = [] \<or> ys = [] \<or> \<not> (snd (last xs) \<and> snd (hd ys)))"
proof (induction xs rule: no_adjacent.induct)
  case (2 b)
  then show ?case by (cases ys) auto
qed auto

lemma region_okD:
  assumes "region_ok h r bs"
  shows "is_region (regions h r)" "tiled h r (StartAddress (regions h r) + FTR) bs" "no_adjacent bs"
    "(StartAddress (regions h r) + FTR) mod 4 = 0"
    "StartAddress (regions h r) + RSize (regions h r) = StartAddress (regions h r) + FTR + total bs + HDR"
    "distinct (FreeList (regions h r))" "set (FreeList (regions h r)) = free_addrs (StartAddress (regions h r) + FTR) bs"
    "hsize h (StartAddress (regions h r) + FTR + total bs) = 0" "ffree h (StartAddress (regions h r)) = 0"
    "StartAddress (regions h r) + RSize (regions h r) \<le> 2 ^ 32"
  using assms unfolding region_ok_def Let_def by blast+

lemma region_okI:
  assumes "StartAddress (regions h r) = a" "FreeList (regions h r) = fl" "is_region (regions h r)" "tiled h r (a + FTR) bs"
    "no_adjacent bs" "(a + FTR) mod 4 = 0" "a + RSize (regions h r) = a + FTR + total bs + HDR"
    "a + RSize (regions h r) \<le> 2 ^ 32" "distinct fl" "set fl = free_addrs (a + FTR) bs"
    "hsize h (a + FTR + total bs) = 0" "ffree h a = 0"
  shows "region_ok h r bs"
  unfolding region_ok_def Let_def assms(1,2) using assms by blast

lemma free_block_ok:
  assumes "region_ok h r bs" "a \<in> set (FreeList (regions h r))"
  shows "mem_node h a" "ffree h (a + HDR + hsize h a) = hsize h a" "hregion h a = r"
    "StartAddress (regions h r) \<le> a" "a + HDR + hsize h a + FTR < StartAddress (regions h r) + RSize (regions h r)" "a mod 4 = 0"
proof -
  let ?a = "StartAddress (regions h r) + FTR"
  note ok = region_okD[OF assms(1)]
  have fa: "a \<in> free_addrs ?a bs" using assms(2) ok(7) by simp
  obtain xs ys where b: "bs = xs @ (hsize h a, True) # ys" "a = ?a + total xs"
    using free_block_split[OF ok(2) fa] by blast
  show "mem_node h a" "ffree h (a + HDR + hsize h a) = hsize h a" "hregion h a = r" using ok(2) b by simp_all
  show "StartAddress (regions h r) \<le> a" "a + HDR + hsize h a + FTR < StartAddress (regions h r) + RSize (regions h r)"
    using ok(5) b by simp_all
  show "a mod 4 = 0" using free_addrs_mod[OF ok(2,4) fa] .
qed

lemma find_room_spec:
  assumes "region_ok h r bs" "set as \<subseteq> set (FreeList (regions h r))"
  shows "find_room r sz as h = Inr (find (\<lambda>a. sz \<le> hsize h a) as)"
  using assms(2)
proof (induction as)
  case (Cons a as)
  then have "a \<in> set (FreeList (regions h r))" by simp
  note fb = free_block_ok[OF assms(1) this]
  have "a < StartAddress (regions h r) + RSize (regions h r)" using fb(5) by linarith
  then show ?case using Cons fb by simp
qed simp

section \<open>Allocation\<close>

definition carve :: "nat \<Rightarrow> nat \<Rightarrow> block list" where
  "carve S sz = (if S - sz \<ge> HDR + NODE + FTR then [(sz, False), (S - sz - (HDR + FTR), True)] else [(S, False)])"

lemma carve_total: "sz \<le> S \<Longrightarrow> total (carve S sz) = HDR + S + FTR"
  by (auto simp: carve_def)

lemma block_size_exact: "start + HDR + FTR \<le> stop \<Longrightarrow> stop \<le> 2 ^ 32 \<Longrightarrow> block_size start stop = stop - start - (HDR + FTR)"
proof -
  assume a: "start + HDR + FTR \<le> stop" "stop \<le> 2 ^ 32"
  then have "(int stop - int start - int (HDR + FTR)) mod 2 ^ 32 = int (stop - start - (HDR + FTR))"
    by (subst mod_pos_pos_trivial) auto
  then show ?thesis by (simp add: block_size_def)
qed

text \<open>The tags after taking the block at \<open>a\<close>: nothing outside the block changes.\<close>

lemma take_block_frame:
  assumes "take_block r sz flags a h = (p, h')" "sz \<le> hsize h a"
  shows "p = a + HDR" "same_tags 0 a h h'" "same_tags (a + HDR + hsize h a + FTR) b h h'" "mem_list h' = mem_list h"
    "\<And>q. q \<noteq> r \<Longrightarrow> regions h' q = regions h q"
    "StartAddress (regions h' r) = StartAddress (regions h r)" "RSize (regions h' r) = RSize (regions h r)"
    "is_region (regions h' r) = is_region (regions h r)" "RFlags (regions h' r) = RFlags (regions h r)"
  using assms by (auto simp: take_block_def Let_def upd_region_def init_block_def same_tags_def split: if_splits)

lemma take_block_tiled:
  assumes "take_block r sz flags a h = (p, h')" "sz \<le> hsize h a" "NODE \<le> sz" "sz mod 4 = 0"
    "hsize h a mod 4 = 0" "hregion h a = r" "a + HDR + hsize h a + FTR \<le> 2 ^ 32"
  shows "tiled h' r a (carve (hsize h a) sz)"
proof (cases "hsize h a - sz \<ge> HDR + NODE + FTR")
  case True
  have bs: "block_size (a + (HDR + sz + FTR)) (a + (HDR + hsize h a + FTR)) = hsize h a - sz - (HDR + FTR)"
    using block_size_exact[of "a + (HDR + sz + FTR)" "a + (HDR + hsize h a + FTR)"] True assms(7) by simp
  have h': "hsize h' = (hsize h)(a := sz, a + (HDR + sz + FTR) := hsize h a - sz - (HDR + FTR))"
    "ffree h' = (ffree h)(a + HDR + sz := 0, a + HDR + hsize h a := hsize h a - sz - (HDR + FTR))"
    "hregion h' = (hregion h)(a + (HDR + sz + FTR) := r)" "mem_node h' (a + (HDR + sz + FTR))"
    using assms(1) True bs by (auto simp: take_block_def Let_def upd_region_def init_block_def algebra_simps)
  have "(hsize h a - sz - (HDR + FTR)) mod 4 = 0" using assms(4,5) True by presburger
  moreover have "sz < 2 ^ 32" "hsize h a - sz - (HDR + FTR) < 2 ^ 32" using assms(2,7) by linarith+
  ultimately show ?thesis
    using True assms(3,4,6) h' by (auto simp: carve_def algebra_simps)
next
  case False
  then have "hsize h' = hsize h" "hregion h' = hregion h" "ffree h' = (ffree h)(a + HDR + hsize h a := 0)"
    using assms(1) by (auto simp: take_block_def Let_def upd_region_def)
  then show ?thesis using False assms by (auto simp: carve_def)
qed

lemma free_addrs_inside:
  assumes "a < x" "x < a + HDR + S + FTR" "a = a0 + total xs"
  shows "x \<notin> free_addrs a0 (xs @ (S, fr) # ys)"
  using assms free_addrs_range[of x a0 xs] free_addrs_range[of x "a + HDR + S + FTR" ys] by (auto simp: add.assoc)

lemma free_addrs_carve:
  "sz \<le> S \<Longrightarrow> free_addrs a (carve S sz) = (if S - sz \<ge> HDR + NODE + FTR then {a + HDR + sz + FTR} else {})"
  by (simp add: carve_def)

lemma take_block_free_list:
  assumes tb: "take_block r sz flags a h = (p, h')" and a: "a \<in> set (FreeList (regions h r))"
    and d: "distinct (FreeList (regions h r))" and n: "HDR + NODE + FTR \<le> hsize h a - sz \<Longrightarrow> a + HDR + sz + FTR \<notin> set (FreeList (regions h r))"
  shows "distinct (FreeList (regions h' r))"
    "set (FreeList (regions h' r)) = (set (FreeList (regions h r)) - {a}) \<union>
       (if hsize h a - sz \<ge> HDR + NODE + FTR then {a + HDR + sz + FTR} else {})"
proof -
  have "FreeList (regions h' r) = filter (\<lambda>x. x \<noteq> a)
      (if hsize h a - sz \<ge> HDR + NODE + FTR then insert_after a (a + HDR + sz + FTR) (FreeList (regions h r))
       else FreeList (regions h r))"
    using tb by (auto simp: take_block_def Let_def upd_region_def init_block_def algebra_simps split: if_splits)
  then show "distinct (FreeList (regions h' r))"
    "set (FreeList (regions h' r)) = (set (FreeList (regions h r)) - {a}) \<union>
       (if hsize h a - sz \<ge> HDR + NODE + FTR then {a + HDR + sz + FTR} else {})"
    using a d n by (auto simp: distinct_insert_after)
qed

lemma take_block_ok:
  assumes ok: "region_ok h r bs" and bs: "bs = xs @ (hsize h a, True) # ys"
    and a: "a = StartAddress (regions h r) + FTR + total xs"
    and tb: "take_block r sz flags a h = (p, h')" and sz: "sz \<le> hsize h a" "NODE \<le> sz" "sz mod 4 = 0"
  shows "region_ok h' r (xs @ carve (hsize h a) sz @ ys)"
proof -
  let ?S = "hsize h a" and ?a0 = "StartAddress (regions h r) + FTR"
  let ?bs = "xs @ carve ?S sz @ ys" and ?y = "a + HDR + ?S + FTR"
  note ok' = region_okD[OF ok] and fr = take_block_frame[OF tb sz(1)]
  have tl: "tiled h r ?a0 xs" "?S mod 4 = 0" "hregion h a = r" "tiled h r ?y ys"
    using ok'(2) bs a by (simp_all add: add.assoc)
  have tot: "total bs = total xs + (HDR + ?S + FTR) + total ys" "total ?bs = total bs"
    using carve_total[OF sz(1)] by (simp_all add: bs)
  have "?y \<le> 2 ^ 32" using ok'(5,10) tot(1) a by linarith
  then have mid: "tiled h' r a (carve ?S sz)"
    using take_block_tiled[OF tb sz tl(2,3)] by blast
  have "tiled h' r ?a0 xs" using tiled_frame[OF same_tags_sub[OF fr(2)] tl(1)] a by simp
  moreover have "tiled h' r ?y ys" using tiled_frame[OF fr(3) tl(4)] by blast
  ultimately have tile: "tiled h' r ?a0 ?bs"
    using mid a carve_total[OF sz(1)] by (simp add: add.assoc)
  have adj: "no_adjacent ?bs"
    using ok'(3) unfolding bs by (auto simp: no_adjacent_append carve_def) (cases ys; simp)+
  have aF: "a \<in> set (FreeList (regions h r))" unfolding ok'(7) bs using a by simp
  have nF: "a + HDR + sz + FTR \<notin> set (FreeList (regions h r))" if "HDR + NODE + FTR \<le> ?S - sz"
    unfolding ok'(7) bs by (rule free_addrs_inside[of a]) (use a that in simp_all)
  note fl = take_block_free_list[OF tb aF ok'(6) nF]
  have "a \<notin> free_addrs ?a0 xs" "a \<notin> free_addrs ?y ys"
    using free_addrs_range[of a ?a0 xs] free_addrs_range[of a ?y ys] a by auto
  then have "set (FreeList (regions h r)) - {a} = free_addrs ?a0 xs \<union> free_addrs ?y ys"
    unfolding ok'(7) bs using a by (auto simp: add.assoc)
  then have set: "set (FreeList (regions h' r)) = free_addrs ?a0 ?bs"
    using fl(2) free_addrs_carve[OF sz(1), of a] carve_total[OF sz(1)] a by (auto simp: add.assoc)
  have "?a0 + total bs = ?y + total ys" using a tot(1) by simp
  then have "hsize h' (?a0 + total bs) = 0" using ok'(8) fr(3)[of "?a0 + total bs + 1"] by (simp add: same_tags_def)
  moreover have "ffree h' (StartAddress (regions h r)) = 0" using ok'(9) fr(2) a by (simp add: same_tags_def)
  ultimately show ?thesis
    unfolding region_ok_def Let_def fr(6,7,8) tot(2) using ok' tile adj fl(1) set by simp
qed

section \<open>Release\<close>

text \<open>What a free neighbour adds to a released block: its size and its tags, and the blocks that remain.\<close>

definition next_part :: "block list \<Rightarrow> nat \<times> block list" where
  "next_part ys = (case ys of (S, True) # zs \<Rightarrow> (S + HDR + FTR, zs) | _ \<Rightarrow> (0, ys))"

definition prev_part :: "block list \<Rightarrow> nat \<times> block list" where
  "prev_part xs = (if xs \<noteq> [] \<and> snd (last xs) then (fst (last xs) + HDR + FTR, butlast xs) else (0, xs))"

definition release :: "block list \<Rightarrow> nat \<Rightarrow> block list \<Rightarrow> block list" where
  "release xs S ys = snd (prev_part xs) @ (fst (prev_part xs) + S + fst (next_part ys), True) # snd (next_part ys)"

definition set_free_list :: "rid \<Rightarrow> nat list \<Rightarrow> heap \<Rightarrow> heap" where
  "set_free_list r fl h = upd_region r (\<lambda>g. g\<lparr>FreeList := fl\<rparr>) h"

lemma set_free_list_id [simp]: "set_free_list r (FreeList (regions h r)) h = h"
  by (simp add: set_free_list_def upd_region_def)

lemma set_free_list_sel [simp]:
  "hsize (set_free_list r fl h) = hsize h" "hregion (set_free_list r fl h) = hregion h"
  "ffree (set_free_list r fl h) = ffree h" "mem_node (set_free_list r fl h) = mem_node h"
  "mem_list (set_free_list r fl h) = mem_list h" "bytes (set_free_list r fl h) = bytes h"
  "FreeList (regions (set_free_list r fl h) r) = fl" "q \<noteq> r \<Longrightarrow> regions (set_free_list r fl h) q = regions h q"
  "StartAddress (regions (set_free_list r fl h) q) = StartAddress (regions h q)"
  "RSize (regions (set_free_list r fl h) q) = RSize (regions h q)" "RFlags (regions (set_free_list r fl h) q) = RFlags (regions h q)"
  "is_region (regions (set_free_list r fl h) q) = is_region (regions h q)"
  "set_free_list r fl' (set_free_list r fl h) = set_free_list r fl' h"
  by (simp_all add: set_free_list_def upd_region_def)

lemma same_tags_set_free_list [simp]: "same_tags a b h (set_free_list r fl h') = same_tags a b h h'"
  by (simp add: same_tags_def)

lemma filter_pred_in:
  assumes "distinct fl" "list_pred n fl = Some q"
  shows "q \<in> set (filter (\<lambda>x. x \<noteq> n) fl)"
  using list_pred_in[OF assms] by simp

lemma merge_next_spec:
  assumes t: "tiled h r (m + HDR + S + FTR) ys" and e: "hsize h (m + HDR + S + FTR + total ys) = 0"
    and d: "distinct (FreeList (regions h r))"
  shows "\<exists>prd. merge_next r (m + HDR + S) h =
      Inr (m + HDR + S + fst (next_part ys), prd,
           set_free_list r (filter (\<lambda>x. fst (next_part ys) = 0 \<or> x \<noteq> m + HDR + S + FTR) (FreeList (regions h r))) h) \<and>
    (\<forall>q. prd = Some (Some q) \<longrightarrow> fst (next_part ys) \<noteq> 0 \<and> q \<in> set (FreeList (regions h r)) \<and> q \<noteq> m + HDR + S + FTR)"
proof -
  let ?n = "m + HDR + S + FTR"
  consider "ys = []" | S2 zs where "ys = (S2, False) # zs" | S2 zs where "ys = (S2, True) # zs"
    by (metis (full_types) list.exhaust prod.exhaust)
  then show ?thesis
  proof cases
    case 1
    then show ?thesis using e by (simp add: merge_next_def next_part_def)
  next
    case (2 S2 zs)
    then show ?thesis using t by (simp add: merge_next_def next_part_def)
  next
    case (3 S2 zs)
    have "merge_next r (m + HDR + S) h = Inr (?n + HDR + S2, Some (list_pred ?n (FreeList (regions h r))),
        set_free_list r (filter (\<lambda>x. x \<noteq> ?n) (FreeList (regions h r))) h)"
      using t 3 by (simp add: merge_next_def Let_def set_free_list_def upd_region_def)
    then show ?thesis using 3 list_pred_in[OF d, of ?n] by (auto simp: next_part_def)
  qed
qed

lemma merge_prev_spec:
  assumes t: "tiled h r (a + FTR) xs" and e: "ffree h a = 0" and d: "distinct (FreeList (regions h r))"
    and p: "\<forall>q. prd = Some (Some q) \<longrightarrow> q \<in> set (FreeList (regions h r))"
  shows "\<exists>prd'. merge_prev r (a + FTR + total xs) prd h =
      Inr (a + FTR + total (snd (prev_part xs)), prd',
           set_free_list r (filter (\<lambda>x. fst (prev_part xs) = 0 \<or> x \<noteq> a + FTR + total (snd (prev_part xs))) (FreeList (regions h r))) h) \<and>
    (\<forall>q. prd' = Some (Some q) \<longrightarrow> q \<in> set (FreeList (regions h r)) \<and>
        (fst (prev_part xs) \<noteq> 0 \<longrightarrow> q \<noteq> a + FTR + total (snd (prev_part xs))))"
proof -
  consider "xs = []" | ws S1 where "xs = ws @ [(S1, False)]" | ws S1 where "xs = ws @ [(S1, True)]"
    by (metis (full_types) rev_exhaust prod.exhaust)
  then show ?thesis
  proof cases
    case 1
    then show ?thesis using e p by (simp add: merge_prev_def prev_part_def)
  next
    case (2 ws S1)
    have f: "a + FTR + total xs - FTR = a + FTR + total ws + HDR + S1" using 2 by simp
    have "ffree h (a + FTR + total ws + HDR + S1) = 0" using t 2 by simp
    then have "merge_prev r (a + FTR + total xs) prd h = Inr (a + FTR + total xs, prd, h)"
      unfolding merge_prev_def f Let_def by simp
    then show ?thesis using 2 p by (simp add: prev_part_def)
  next
    case (3 ws S1)
    let ?w = "a + FTR + total ws"
    have f: "a + FTR + total xs - FTR = ?w + HDR + S1" "?w + HDR + S1 - (S1 + HDR) = ?w" using 3 by simp_all
    have w: "ffree h (?w + HDR + S1) = S1" "S1 \<noteq> 0" "hregion h ?w = r" "mem_node h ?w" "hsize h ?w = S1"
      using t 3 by simp_all
    have "merge_prev r (a + FTR + total xs) prd h = Inr (?w, Some (list_pred ?w (FreeList (regions h r))),
        set_free_list r (filter (\<lambda>x. x \<noteq> ?w) (FreeList (regions h r))) h)"
      unfolding merge_prev_def f(1) Let_def w(1) f(2) w(3,5) using w(2,4) by (simp add: set_free_list_def upd_region_def)
    then show ?thesis using 3 list_pred_in[OF d, of ?w] by (auto simp: prev_part_def)
  qed
qed

lemma prev_part_cases:
  obtains "prev_part xs = (0, xs)" "xs = [] \<or> \<not> snd (last xs)"
  | ws S1 where "xs = ws @ [(S1, True)]" "prev_part xs = (S1 + HDR + FTR, ws)"
  by (cases xs rule: rev_cases) (auto simp: prev_part_def, blast)

lemma next_part_cases:
  obtains "next_part ys = (0, ys)" "ys = [] \<or> \<not> snd (hd ys)"
  | zs S2 where "ys = (S2, True) # zs" "next_part ys = (S2 + HDR + FTR, zs)"
  by (cases ys) (auto simp: next_part_def split: bool.splits, blast)

lemma total_release: "total (release xs S ys) = total (xs @ (S, False) # ys)"
  by (cases rule: prev_part_cases[of xs]; cases rule: next_part_cases[of ys]) (simp_all add: release_def)

lemma release_no_adjacent:
  assumes "no_adjacent (xs @ (S, False) # ys)"
  shows "no_adjacent (release xs S ys)"
proof -
  have adj: "no_adjacent xs" "no_adjacent ys" using assms by (cases ys; auto simp: no_adjacent_append)+
  let ?ws = "snd (prev_part xs)" and ?zs = "snd (next_part ys)"
  have ws: "no_adjacent ?ws" "?ws = [] \<or> \<not> snd (last ?ws)"
    using adj(1) by (cases rule: prev_part_cases[of xs]; auto simp: no_adjacent_append)+
  have zs: "no_adjacent ?zs" "?zs = [] \<or> \<not> snd (hd ?zs)"
    using adj(2) by (cases rule: next_part_cases[of ys]; cases ?zs; auto)+
  have "no_adjacent ((x, True) # ?zs)" for x using zs by (cases ?zs) auto
  then show ?thesis using ws by (auto simp: release_def no_adjacent_append)
qed

text \<open>The free list after a release: the merged neighbours leave it and the merged block enters.\<close>

lemma release_free_addrs:
  assumes "m = a + total xs"
  shows "free_addrs a (release xs S ys) =
    insert (a + total (snd (prev_part xs)))
      (free_addrs a (xs @ (S, False) # ys)
        - (if fst (next_part ys) = 0 then {} else {m + HDR + S + FTR})
        - (if fst (prev_part xs) = 0 then {} else {a + total (snd (prev_part xs))}))"
    (is "_ = insert ?h (?F - ?N - ?P)")
proof -
  let ?ws = "snd (prev_part xs)" and ?zs = "snd (next_part ys)"
  let ?z = "m + HDR + S + FTR + fst (next_part ys)"
  have F: "?F = free_addrs a ?ws \<union> ?P \<union> ?N \<union> free_addrs ?z ?zs"
    using assms
    by (cases rule: prev_part_cases[of xs]; cases rule: next_part_cases[of ys]) (auto simp: add.assoc)
  have R: "free_addrs a (release xs S ys) = free_addrs a ?ws \<union> {?h} \<union> free_addrs ?z ?zs"
    using assms
    by (cases rule: prev_part_cases[of xs]; cases rule: next_part_cases[of ys]) (auto simp: release_def add.assoc)
  have hm: "?h \<le> m" using assms by (cases rule: prev_part_cases[of xs]) auto
  have "?h \<notin> free_addrs a ?ws" "m + HDR + S + FTR \<notin> free_addrs a ?ws"
    using free_addrs_range[of _ a ?ws] hm by fastforce+
  moreover have "?h \<notin> free_addrs ?z ?zs" using free_addrs_range[of ?h ?z ?zs] hm by auto
  moreover have "m + HDR + S + FTR \<notin> free_addrs ?z ?zs" if "fst (next_part ys) \<noteq> 0"
    using free_addrs_range[of "m + HDR + S + FTR" ?z ?zs] that by auto
  ultimately show ?thesis unfolding F R by (auto split: if_splits)
qed

lemma init_block_tags:
  assumes "start + HDR + FTR \<le> stop"
  shows "same_tags 0 start h (init_block r start stop h)" "same_tags stop b h (init_block r start stop h)"
  using assms by (auto simp: same_tags_def init_block_def)

text \<open>
  The tags of the merged block: everything below and above it is unchanged, so its neighbours stay
  tiled.
\<close>

lemma release_tiled:
  assumes t: "tiled h r a (xs @ (S, False) # ys)" and top: "a + total (xs @ (S, False) # ys) \<le> 2 ^ 32"
  shows "tiled (init_block r (a + total (snd (prev_part xs))) (a + total xs + HDR + S + fst (next_part ys) + FTR) h) r a
    (release xs S ys)"
proof -
  let ?ws = "snd (prev_part xs)" and ?zs = "snd (next_part ys)" and ?l = "fst (prev_part xs)" and ?t = "fst (next_part ys)"
  let ?s = "a + total ?ws" and ?e = "a + total xs + HDR + S + ?t + FTR"
  let ?h = "init_block r ?s ?e h"
  have xs: "total xs = total ?ws + ?l" "tiled h r a ?ws" "?l mod 4 = 0"
    using t by (cases rule: prev_part_cases[of xs]; auto; presburger)+
  have ys: "total ys = ?t + total ?zs" "tiled h r ?e ?zs" "?t mod 4 = 0" "NODE \<le> S" "S mod 4 = 0"
    using t by (cases rule: next_part_cases[of ys]; auto simp: add.assoc add.left_commute; presburger)+
  have e: "?e = ?s + HDR + (?l + S + ?t) + FTR" using xs(1) by simp
  have bsz: "block_size ?s ?e = ?l + S + ?t"
    using block_size_exact[of ?s ?e] top e xs(1) ys(1) by simp
  note tags = init_block_tags[where start = ?s and stop = ?e and h = h and r = r]
  have "tiled ?h r a ?ws" using tiled_frame[OF same_tags_sub[OF tags(1)] xs(2)] e by simp
  moreover have "tiled ?h r ?e ?zs" using tiled_frame[OF tags(2) ys(2)] e by simp
  moreover have "(?l + S + ?t) mod 4 = 0" using xs(3) ys(3,5) by presburger
  moreover have "?l + S + ?t < 2 ^ 32" using top xs(1) ys(1) by simp
  ultimately show ?thesis
    using bsz ys(4) e by (simp add: release_def init_block_def)
qed

lemma release_end:
  assumes "total (release xs S ys) = T"
  shows "total xs + HDR + S + fst (next_part ys) + FTR + total (snd (next_part ys)) = T"
    "total (snd (prev_part xs)) + HDR + FTR \<le> T" "total (snd (prev_part xs)) \<le> total xs"
  using assms unfolding release_def
  by (cases rule: prev_part_cases[of xs]; cases rule: next_part_cases[of ys]; simp)+

text \<open>
  Releasing a used block succeeds, merges it with its free neighbours and keeps the region well
  formed; nothing outside the region changes.
\<close>

definition only_region :: "rid \<Rightarrow> nat \<Rightarrow> nat \<Rightarrow> heap \<Rightarrow> heap \<Rightarrow> bool" where
  "only_region r a b h h' \<longleftrightarrow> mem_list h' = mem_list h \<and> (\<forall>q. q \<noteq> r \<longrightarrow> regions h' q = regions h q) \<and>
     RFlags (regions h' r) = RFlags (regions h r) \<and> StartAddress (regions h' r) = StartAddress (regions h r) \<and>
     RSize (regions h' r) = RSize (regions h r) \<and> (\<forall>x. same_tags 0 a h h' \<and> same_tags b x h h')"

lemma insert_released:
  "upd_region r (\<lambda>g. g\<lparr>FreeList := insert_at q n (FreeList g)\<rparr>) (init_block r s e (set_free_list r fl h)) =
     set_free_list r (insert_at q n fl) (init_block r s e h)"
  by (simp add: upd_region_def init_block_def set_free_list_def)

lemma mem_free_used:
  assumes "hregion h m = r" "is_region (regions h r)" "hsize h m = S" "NODE \<le> S" "ffree h (m + HDR + S) = 0"
  shows "exos_mem_free (m + HDR) h =
     rbind (merge_next r (m + HDR + S) h) (\<lambda>(footer1, prd1, h1).
          rbind (merge_prev r m prd1 h1) (\<lambda>(header2, prd2, h2).
            let h3 = init_block r header2 (footer1 + FTR) h2
            in Inr (upd_region r (\<lambda>g. g\<lparr>FreeList := insert_at (case prd2 of None \<Rightarrow> None | Some q \<Rightarrow> q)
                                                       header2 (FreeList g)\<rparr>) h3)))"
proof -
  have m: "m + HDR - HDR = m" by simp
  show ?thesis unfolding exos_mem_free_def m assms(1) Let_def using assms(2-5) by (simp only: m simp_thms if_False) simp
qed

lemma mem_free_calls:
  assumes ok: "region_ok h r (xs @ (S, False) # ys)" and m: "m = StartAddress (regions h r) + FTR + total xs"
  shows "\<exists>fl q. exos_mem_free (m + HDR) h =
      Inr (set_free_list r (insert_at q (StartAddress (regions h r) + FTR + total (snd (prev_part xs))) fl)
        (init_block r (StartAddress (regions h r) + FTR + total (snd (prev_part xs)))
           (m + HDR + S + fst (next_part ys) + FTR) h)) \<and>
    distinct fl \<and> (\<forall>x. q = Some x \<longrightarrow> x \<in> set fl) \<and>
    set fl = free_addrs (StartAddress (regions h r) + FTR) (xs @ (S, False) # ys)
        - (if fst (next_part ys) = 0 then {} else {m + HDR + S + FTR})
        - (if fst (prev_part xs) = 0 then {} else {StartAddress (regions h r) + FTR + total (snd (prev_part xs))})"
proof -
  let ?a = "StartAddress (regions h r)" and ?F = "FreeList (regions h r)"
  let ?n = "m + HDR + S + FTR" and ?p = "?a + FTR + total (snd (prev_part xs))"
  let ?F1 = "filter (\<lambda>x. fst (next_part ys) = 0 \<or> x \<noteq> ?n) ?F" and ?h1 = "\<lambda>fl. set_free_list r fl h"
  let ?F2 = "filter (\<lambda>x. fst (prev_part xs) = 0 \<or> x \<noteq> ?p) ?F1"
  note ok' = region_okD[OF ok]
  have t: "tiled h r (?a + FTR) xs" "tiled h r ?n ys" "hsize h m = S" "hregion h m = r" "NODE \<le> S" "ffree h (m + HDR + S) = 0"
    using ok'(2) m by (simp_all add: add.assoc)
  have e: "hsize h (?n + total ys) = 0" using ok'(8) m by (simp add: add.assoc)
  obtain prd where mn: "merge_next r (m + HDR + S) h = Inr (m + HDR + S + fst (next_part ys), prd, ?h1 ?F1)"
    and prd: "\<forall>q. prd = Some (Some q) \<longrightarrow> fst (next_part ys) \<noteq> 0 \<and> q \<in> set ?F \<and> q \<noteq> ?n"
    using merge_next_spec[OF t(2) e ok'(6)] by blast
  have t1: "tiled (?h1 ?F1) r (?a + FTR) xs" by (rule tiled_frame[OF _ t(1)]) (simp add: same_tags_def)
  have "\<forall>q. prd = Some (Some q) \<longrightarrow> q \<in> set (FreeList (regions (?h1 ?F1) r))" using prd by auto
  then obtain prd' where mp: "merge_prev r m prd (?h1 ?F1) = Inr (?p, prd', ?h1 ?F2)"
    and prd': "\<forall>q. prd' = Some (Some q) \<longrightarrow> q \<in> set ?F1 \<and> (fst (prev_part xs) \<noteq> 0 \<longrightarrow> q \<noteq> ?p)"
    using merge_prev_spec[OF t1, of prd] ok'(6,9) unfolding m by auto
  let ?q = "case prd' of None \<Rightarrow> None | Some q \<Rightarrow> q"
  have "exos_mem_free (m + HDR) h =
      Inr (set_free_list r (insert_at ?q ?p ?F2) (init_block r ?p (m + HDR + S + fst (next_part ys) + FTR) h))"
    unfolding mem_free_used[where m = m, OF t(4) ok'(1) t(3,5,6)] mn rbind_Inr prod.case mp Let_def insert_released ..
  moreover have "distinct ?F2" using ok'(6) by simp
  moreover have "\<forall>x. ?q = Some x \<longrightarrow> x \<in> set ?F2" using prd' by (auto split: option.splits)
  moreover have "set ?F2 = free_addrs (?a + FTR) (xs @ (S, False) # ys)
        - (if fst (next_part ys) = 0 then {} else {?n}) - (if fst (prev_part xs) = 0 then {} else {?p})"
    using ok'(7) by auto
  ultimately show ?thesis by blast
qed

lemma init_block_keeps: "mem_list (init_block r s e h) = mem_list h" "regions (init_block r s e h) = regions h"
  by (simp_all add: init_block_def)

lemma mem_free_region:
  assumes ok: "region_ok h r (xs @ (S, False) # ys)" and m: "m = StartAddress (regions h r) + FTR + total xs"
  shows "\<exists>h'. exos_mem_free (m + HDR) h = Inr h' \<and> region_ok h' r (release xs S ys) \<and>
    only_region r (StartAddress (regions h r) + FTR) (StartAddress (regions h r) + RSize (regions h r) - HDR) h h'"
proof -
  let ?a = "StartAddress (regions h r)" and ?bs = "xs @ (S, False) # ys" and ?rs = "release xs S ys"
  let ?p = "?a + FTR + total (snd (prev_part xs))" and ?e = "m + HDR + S + fst (next_part ys) + FTR"
  let ?F = "free_addrs (?a + FTR) ?bs - (if fst (next_part ys) = 0 then {} else {m + HDR + S + FTR})
      - (if fst (prev_part xs) = 0 then {} else {?p})"
  note ok' = region_okD[OF ok] and rel = release_end[OF total_release[of xs S ys]]
  obtain fl q where c: "exos_mem_free (m + HDR) h = Inr (set_free_list r (insert_at q ?p fl) (init_block r ?p ?e h))"
    and fl: "distinct fl" "\<forall>x. q = Some x \<longrightarrow> x \<in> set fl" "set fl = ?F"
    using mem_free_calls[OF ok m] by blast
  let ?h1 = "init_block r ?p ?e h" let ?h' = "set_free_list r (insert_at q ?p fl) ?h1"
  have reg: "regions ?h1 = regions h" by (simp add: init_block_def)
  have e: "?e + total (snd (next_part ys)) = ?a + FTR + total ?bs" "?p + HDR + FTR \<le> ?e"
    using rel m by linarith+
  have top: "?a + FTR + total ?bs \<le> 2 ^ 32" using ok'(5,10) by linarith
  have "?e = ?a + FTR + total xs + HDR + S + fst (next_part ys) + FTR" using m by simp
  then have "tiled ?h1 r (?a + FTR) ?rs" using release_tiled[OF ok'(2) top] by simp
  then have tile: "tiled ?h' r (?a + FTR) ?rs" by (rule tiled_frame[rotated]) (simp add: same_tags_def)
  have rf: "free_addrs (?a + FTR) ?rs = insert ?p ?F" using release_free_addrs[of m "?a + FTR" xs S ys] m by simp
  have pF: "?p \<notin> set fl"
  proof (cases rule: prev_part_cases[of xs])
    case 1
    then have "?p = m" "fst (prev_part xs) = 0" using m by simp_all
    moreover have "m \<notin> free_addrs (?a + FTR) xs" "m \<notin> free_addrs (m + HDR + S + FTR) ys"
      using free_addrs_range[of m "?a + FTR" xs] free_addrs_range[of m "m + HDR + S + FTR" ys] m by auto
    ultimately show ?thesis using fl(3) m by (auto simp: add.assoc)
  qed (use fl(3) in auto)
  note tags = init_block_tags[where start = ?p and stop = ?e and h = h and r = r, OF e(2)]
  have "hsize ?h1 (?a + FTR + total ?bs) = hsize h (?a + FTR + total ?bs)"
    using tags(2)[of "?a + FTR + total ?bs + 1"] e(1) by (simp add: same_tags_def)
  moreover have "ffree ?h1 ?a = ffree h ?a" using tags(1) by (simp add: same_tags_def)
  ultimately have ends: "hsize ?h' (?a + FTR + total ?rs) = 0" "ffree ?h' ?a = 0"
    unfolding total_release set_free_list_sel using ok'(8,9) by simp_all
  have lst: "distinct (insert_at q ?p fl)" "set (insert_at q ?p fl) = free_addrs (?a + FTR) ?rs"
    using fl pF unfolding rf by (simp_all only: insert_at_set insert_at_distinct simp_thms)
  have "region_ok ?h' r ?rs"
    by (rule region_okI[OF _ _ _ tile release_no_adjacent[OF ok'(3)] ok'(4) _ _ lst ends])
      (unfold set_free_list_sel reg total_release, use ok' in simp_all)
  moreover have "?e \<le> ?a + RSize (regions h r) - HDR" using e(1) ok'(5) by simp
  then have "only_region r (?a + FTR) (?a + RSize (regions h r) - HDR) h ?h'"
    using same_tags_sub[OF tags(1), of 0 "?a + FTR"] same_tags_sub[OF tags(2) _ order_refl, of "?a + RSize (regions h r) - HDR"]
    unfolding only_region_def same_tags_set_free_list set_free_list_sel reg by (simp add: init_block_keeps)
  ultimately show ?thesis using c by blast
qed

section \<open>The whole heap\<close>

definition heap_ok :: "heap \<Rightarrow> (rid \<Rightarrow> block list) \<Rightarrow> bool" where
  "heap_ok h Bs \<longleftrightarrow> distinct (mem_list h) \<and> (\<forall>r\<in>set (mem_list h). region_ok h r (Bs r)) \<and>
     (\<forall>r\<in>set (mem_list h). \<forall>q\<in>set (mem_list h). r \<noteq> q \<longrightarrow>
        StartAddress (regions h r) + RSize (regions h r) \<le> StartAddress (regions h q) \<or>
        StartAddress (regions h q) + RSize (regions h q) \<le> StartAddress (regions h r))"

lemma region_ok_frame:
  assumes ok: "region_ok h q bs" and reg: "regions h' q = regions h q"
    and tags: "same_tags (StartAddress (regions h q)) (StartAddress (regions h q) + RSize (regions h q)) h h'"
  shows "region_ok h' q bs"
proof -
  let ?a = "StartAddress (regions h q)"
  note ok' = region_okD[OF ok]
  have "same_tags (?a + FTR) (?a + FTR + total bs) h h'"
    using tags ok'(5) by (auto intro: same_tags_sub)
  then have "tiled h' q (?a + FTR) bs" using tiled_frame ok'(2) by blast
  moreover have "hsize h' (?a + FTR + total bs) = 0" "ffree h' ?a = 0"
    using tags ok'(5,8,9) by (auto simp: same_tags_def)
  ultimately show ?thesis unfolding region_ok_def Let_def reg using ok' by blast
qed

lemma heap_ok_update:
  assumes h: "heap_ok h Bs" and r: "r \<in> set (mem_list h)" and ok: "region_ok h' r bs"
    and o: "only_region r (StartAddress (regions h r) + FTR) (StartAddress (regions h r) + RSize (regions h r) - HDR) h h'"
  shows "heap_ok h' (Bs(r := bs))"
proof -
  have reg: "regions h' q = regions h q" if "q \<noteq> r" for q using o that by (simp add: only_region_def)
  have range: "StartAddress (regions h' q) = StartAddress (regions h q)" "RSize (regions h' q) = RSize (regions h q)" for q
    using o reg by (cases "q = r"; simp add: only_region_def)+
  have "region_ok h' q (Bs q)" if q: "q \<in> set (mem_list h)" "q \<noteq> r" for q
  proof (rule region_ok_frame[OF _ reg[OF q(2)]])
    show "region_ok h q (Bs q)" using h q(1) by (simp add: heap_ok_def)
    have "StartAddress (regions h r) + RSize (regions h r) \<le> StartAddress (regions h q) \<or>
        StartAddress (regions h q) + RSize (regions h q) \<le> StartAddress (regions h r)"
      using h r q by (auto simp: heap_ok_def)
    moreover have "same_tags 0 (StartAddress (regions h r) + FTR) h h'"
      "same_tags (StartAddress (regions h r) + RSize (regions h r) - HDR) x h h'" for x
      using o by (auto simp: only_region_def)
    ultimately show "same_tags (StartAddress (regions h q)) (StartAddress (regions h q) + RSize (regions h q)) h h'"
      by (meson le_trans same_tags_sub le0 le_add1 diff_le_self)
  qed
  then show ?thesis using h ok o unfolding heap_ok_def range by (auto simp: only_region_def)
qed

lemma heap_okD: "heap_ok h Bs \<Longrightarrow> r \<in> set (mem_list h) \<Longrightarrow> region_ok h r (Bs r)"
  by (simp add: heap_ok_def)

section \<open>Correctness of the calls\<close>

lemma mem_free_ok:
  assumes "heap_ok h Bs" "r \<in> set (mem_list h)" "Bs r = xs @ (S, False) # ys"
  shows "\<exists>h'. exos_mem_free (StartAddress (regions h r) + FTR + total xs + HDR) h = Inr h' \<and>
    heap_ok h' (Bs(r := release xs S ys)) \<and> mem_list h' = mem_list h \<and>
    StartAddress (regions h' r) = StartAddress (regions h r)"
proof -
  obtain h' where "exos_mem_free (StartAddress (regions h r) + FTR + total xs + HDR) h = Inr h'"
    "region_ok h' r (release xs S ys)"
    "only_region r (StartAddress (regions h r) + FTR) (StartAddress (regions h r) + RSize (regions h r) - HDR) h h'"
    using mem_free_region[OF heap_okD[OF assms(1,2), unfolded assms(3)] refl] by blast
  then show ?thesis using heap_ok_update[OF assms(1,2)] by (auto simp: only_region_def)
qed

definition flags_match :: "u32 \<Rightarrow> rid \<Rightarrow> heap \<Rightarrow> bool" where
  "flags_match flags r h \<longleftrightarrow> RFlags (regions h r) AND flags = flags AND EXOS_MEMF_REGION"

lemma free_has_block:
  assumes "region_ok h r bs" "a \<in> set (FreeList (regions h r))"
  shows "\<exists>xs ys. bs = xs @ (hsize h a, True) # ys \<and> a = StartAddress (regions h r) + FTR + total xs"
  using free_block_split region_okD(2,7)[OF assms(1)] assms(2) by blast

lemma block_is_free:
  assumes "region_ok h r (xs @ (S, True) # ys)"
  shows "\<exists>a\<in>set (FreeList (regions h r)). hsize h a = S"
  unfolding region_okD(7)[OF assms]
  by (rule bexI[of _ "StartAddress (regions h r) + FTR + total xs"]) (use region_okD(2)[OF assms] in simp_all)

text \<open>The search over the regions: the first region in the list with the right flags and room.\<close>

lemma alloc_loop_spec:
  assumes "heap_ok h Bs" "set rs \<subseteq> set (mem_list h)"
  shows "(alloc_loop sz flags rs h = Inr (None, h) \<and>
      (\<forall>r\<in>set rs. flags_match flags r h \<longrightarrow> (\<forall>S. (S, True) \<in> set (Bs r) \<longrightarrow> S < sz))) \<or>
    (\<exists>r\<in>set rs. \<exists>a xs ys p h'. flags_match flags r h \<and> Bs r = xs @ (hsize h a, True) # ys \<and> sz \<le> hsize h a \<and>
      a = StartAddress (regions h r) + FTR + total xs \<and> take_block r sz flags a h = (p, h') \<and>
      alloc_loop sz flags rs h = Inr (Some p, h'))"
  using assms(2)
proof (induction rs)
  case (Cons r rs)
  have ok: "region_ok h r (Bs r)" using heap_okD[OF assms(1)] Cons.prems by simp
  note fr = find_room_spec[OF ok order_refl, of sz]
  show ?case
  proof (cases "flags_match flags r h \<and> find (\<lambda>a. sz \<le> hsize h a) (FreeList (regions h r)) \<noteq> None")
    case True
    then obtain a where a: "find (\<lambda>a. sz \<le> hsize h a) (FreeList (regions h r)) = Some a" by auto
    then have "a \<in> set (FreeList (regions h r))" "sz \<le> hsize h a" by (auto simp: find_Some_iff)
    then obtain xs ys where "Bs r = xs @ (hsize h a, True) # ys" "a = StartAddress (regions h r) + FTR + total xs"
      using free_has_block[OF ok] by blast
    moreover obtain p h' where "take_block r sz flags a h = (p, h')" by fastforce
    moreover have "alloc_loop sz flags (r # rs) h = Inr (Some p, h')"
      using True a fr \<open>take_block r sz flags a h = (p, h')\<close> by (simp add: flags_match_def)
    ultimately show ?thesis using True \<open>sz \<le> hsize h a\<close> by auto
  next
    case False
    then have skip: "alloc_loop sz flags (r # rs) h = alloc_loop sz flags rs h" using fr by (auto simp: flags_match_def)
    have "S < sz" if f: "flags_match flags r h" and S: "(S, True) \<in> set (Bs r)" for S
    proof -
      obtain xs ys where "Bs r = xs @ (S, True) # ys" using split_list[OF S] by blast
      then obtain a where "a \<in> set (FreeList (regions h r))" "hsize h a = S" using block_is_free ok by metis
      then show ?thesis using False f by (auto simp: find_None_iff)
    qed
    then show ?thesis using Cons unfolding skip by auto
  qed
qed simp

text \<open>The rounding of the size to a multiple of 16.\<close>

lemma mask4: "(15 :: u32) = mask 4"
  by (simp add: mask_eq_exp_minus_1)

lemma and_not_15: "(w :: u32) AND NOT 15 = push_bit 4 (drop_bit 4 w)"
  unfolding mask4 by (rule bit_word_eqI) (auto simp: bit_simps)

lemma unat_and_not_15: "unat ((w :: u32) AND NOT 15) = 16 * (unat w div 16)"
proof -
  have "unat w < 2 ^ 32" using unsigned_less[of w] by simp
  then have "16 * (unat w div 16) < 2 ^ 32" by linarith
  then show ?thesis unfolding and_not_15
    by (simp only: unsigned_push_bit_eq unsigned_drop_bit_eq) (simp add: push_bit_eq_mult drop_bit_eq_div take_bit_eq_mod)
qed

lemma align16_exact:
  assumes "unat sz \<le> 0xFFFFFFF0"
  shows "unat (align16 sz) = 16 * ((unat sz + 15) div 16)"
proof -
  have "unat (sz + 15) = unat sz + 15" using assms by (subst unat_add_lem[THEN iffD1]) simp_all
  then show ?thesis unfolding align16_def unat_and_not_15 by simp
qed

lemma align16_wraps:
  assumes "unat sz > 0xFFFFFFF0"
  shows "align16 sz = 0"
proof -
  have l: "unat sz < 2 ^ 32" using unsigned_less[of sz] by simp
  have "unat (sz + 15) = (unat sz + 15) mod 2 ^ 32" by (simp add: unat_word_ariths)
  also have "\<dots> = unat sz + 15 - 2 ^ 32" using assms l by (simp add: mod_if)
  finally have "unat (sz + 15) < 16" using assms l by linarith
  then have "unat (align16 sz) = 0" unfolding align16_def unat_and_not_15 by simp
  then show ?thesis by (simp only: unsigned_eq_0_iff)
qed

lemma align16_room:
  assumes "sz \<noteq> 0" "unat sz \<le> 0xFFFFFFF0" "n = unat (align16 sz)"
  shows "NODE \<le> n" "n mod 4 = 0" "unat sz \<le> n" "n < unat sz + 16"
proof -
  have n: "n = 16 * ((unat sz + 15) div 16)" using align16_exact[OF assms(2)] assms(3) by simp
  have "0 < unat sz" using assms(1) by (simp add: unat_gt_0)
  then show "NODE \<le> n" "n mod 4 = 0" "unat sz \<le> n" "n < unat sz + 16" unfolding n by presburger+
qed

lemma take_block_clear:
  assumes "take_block r sz flags a h = (p, h')"
  shows "bytes h' x = (if flags AND EXOS_MEMF_CLEAR \<noteq> 0 \<and> p \<le> x \<and> x < p + sz then 0 else bytes h x)"
  using assms by (auto simp: take_block_def Let_def upd_region_def init_block_def split: if_splits)

lemma take_block_only:
  assumes ok: "region_ok h r (xs @ (hsize h a, True) # ys)" and a: "a = StartAddress (regions h r) + FTR + total xs"
    and tb: "take_block r sz flags a h = (p, h')" "sz \<le> hsize h a"
  shows "only_region r (StartAddress (regions h r) + FTR) (StartAddress (regions h r) + RSize (regions h r) - HDR) h h'"
proof -
  note fr = take_block_frame[OF tb]
  have "StartAddress (regions h r) + FTR \<le> a" "a + HDR + hsize h a + FTR \<le> StartAddress (regions h r) + RSize (regions h r) - HDR"
    using a region_okD(5)[OF ok] by simp_all
  then have "same_tags 0 (StartAddress (regions h r) + FTR) h h'"
    "same_tags (StartAddress (regions h r) + RSize (regions h r) - HDR) x h h'" for x
    using same_tags_sub[OF fr(2)] same_tags_sub[OF fr(3) _ order_refl] by blast+
  then show ?thesis unfolding only_region_def using fr by simp
qed

lemma mem_alloc_found:
  assumes h: "heap_ok h Bs" and sz: "sz \<noteq> 0" "unat sz \<le> 0xFFFFFFF0" and n: "n = unat (align16 sz)"
    and r: "r \<in> set (mem_list h)" "Bs r = xs @ (hsize h a, True) # ys" "a = StartAddress (regions h r) + FTR + total xs"
    and tb: "take_block r n flags a h = (p, h')" "n \<le> hsize h a"
  shows "p = a + HDR" "heap_ok h' (Bs(r := xs @ carve (hsize h a) n @ ys))" "mem_list h' = mem_list h"
    "StartAddress (regions h' r) = StartAddress (regions h r)"
proof -
  have ok: "region_ok h r (xs @ (hsize h a, True) # ys)" using heap_okD[OF h r(1)] r(2) by simp
  note only = take_block_only[OF ok r(3) tb]
  show "p = a + HDR" by (rule take_block_frame[OF tb])
  show "heap_ok h' (Bs(r := xs @ carve (hsize h a) n @ ys))"
    by (rule heap_ok_update[OF h r(1) take_block_ok[OF ok refl r(3) tb align16_room(1,2)[OF sz n]] only])
  show "mem_list h' = mem_list h" "StartAddress (regions h' r) = StartAddress (regions h r)"
    using only by (simp_all add: only_region_def)
qed

text \<open>
  What an allocation promises: either no matching region has a large enough free block and nothing
  changes, or the first fit is split and its address returned.
\<close>

lemma mem_alloc_cases:
  assumes h: "heap_ok h Bs" and sz: "sz \<noteq> 0" "unat sz \<le> 0xFFFFFFF0" and n: "n = unat (align16 sz)"
  obtains (none) "exos_mem_alloc sz flags h = Inr (None, h)"
      "\<And>r S. r \<in> set (mem_list h) \<Longrightarrow> flags_match flags r h \<Longrightarrow> (S, True) \<in> set (Bs r) \<Longrightarrow> S < n"
  | (some) r xs S ys h' where "r \<in> set (mem_list h)" "flags_match flags r h" "Bs r = xs @ (S, True) # ys" "n \<le> S"
      "exos_mem_alloc sz flags h = Inr (Some (StartAddress (regions h r) + FTR + total xs + HDR), h')"
      "heap_ok h' (Bs(r := xs @ carve S n @ ys))" "mem_list h' = mem_list h"
      "StartAddress (regions h' r) = StartAddress (regions h r)"
      "\<And>x. bytes h' x = (if flags AND EXOS_MEMF_CLEAR \<noteq> 0 \<and> StartAddress (regions h r) + FTR + total xs + HDR \<le> x
          \<and> x < StartAddress (regions h r) + FTR + total xs + HDR + n then 0 else bytes h x)"
proof (cases rule: disjE[OF alloc_loop_spec[OF h order_refl, of n flags]])
  case 1
  then show ?thesis using none sz(1) n by (auto simp: exos_mem_alloc_def)
next
  case 2
  then obtain r a xs ys p h' where r: "r \<in> set (mem_list h)" "flags_match flags r h" "Bs r = xs @ (hsize h a, True) # ys"
    "n \<le> hsize h a" "a = StartAddress (regions h r) + FTR + total xs" "take_block r n flags a h = (p, h')"
    "alloc_loop n flags (mem_list h) h = Inr (Some p, h')" by blast
  note f = mem_alloc_found[OF h sz n r(1,3,5,6,4)]
  show ?thesis
    using some[OF r(1-4) _ f(2-4)] r(5,7) f(1) sz(1) n take_block_clear[OF r(6)] by (simp add: exos_mem_alloc_def)
qed

lemma carve_release:
  assumes "no_adjacent (xs @ (S, True) # ys)" "n \<le> S"
  shows "\<exists>m rest. carve S n @ ys = (m, False) # rest \<and> release xs m rest = xs @ (S, True) # ys"
proof -
  have p: "prev_part xs = (0, xs)" using assms(1) by (cases rule: prev_part_cases[of xs]) (auto simp: no_adjacent_append)
  have y: "next_part ys = (0, ys)" using assms(1) by (cases rule: next_part_cases[of ys]) (auto simp: no_adjacent_append)
  show ?thesis using assms(2) p y by (auto simp: carve_def release_def next_part_def)
qed

section \<open>Adding a region\<close>

definition add_pre :: "rid \<Rightarrow> nat \<Rightarrow> nat \<Rightarrow> heap \<Rightarrow> bool" where
  "add_pre r start stop h \<longleftrightarrow> r \<notin> set (mem_list h) \<and> start mod 4 = 0 \<and> stop mod 4 = 0 \<and> stop < 2 ^ 32 \<and>
     start + (FTR + HDR + NODE + FTR + HDR) \<le> stop \<and>
     list_all (\<lambda>q. stop \<le> StartAddress (regions h q) \<or> StartAddress (regions h q) + RSize (regions h q) \<le> start) (mem_list h)"

lemma add_region_effect:
  assumes "add_pre r start stop h"
  obtains h' where "exos_mem_add_region r start stop p flags h = (True, h')"
    "ffree h' = (ffree h)(start := 0, stop - HDR - FTR := stop - start - 24)"
    "hsize h' = (hsize h)(stop - HDR := 0, start + FTR := stop - start - 24)"
    "hregion h' = (hregion h)(stop - HDR := r, start + FTR := r)"
    "mem_node h' = (mem_node h)(start + FTR := True)"
    "regions h' = (regions h)(r := \<lparr>RFlags = flags, StartAddress = start, RSize = stop - start, FreeList = [start + FTR],
       RPri = sint (word_of_int p :: u8), is_region = True\<rparr>)"
    "set (mem_list h') = insert r (set (mem_list h))" "distinct (mem_list h') \<longleftrightarrow> distinct (mem_list h)"
proof -
  have "start + FTR + HDR + FTR \<le> stop - HDR" "stop - HDR \<le> 2 ^ 32" using assms by (auto simp: add_pre_def)
  then have "block_size (start + FTR) (stop - HDR) = stop - start - 24" using block_size_exact by simp
  moreover have "ptr_diff stop start = stop - start" using assms by (auto simp: ptr_diff_def add_pre_def mod_pos_pos_trivial nat_diff_distrib)
  moreover have "stop - start > FTR + HDR + HDR" "r \<notin> set (mem_list h)" using assms by (auto simp: add_pre_def)
  ultimately show ?thesis
    by (intro that[of "snd (exos_mem_add_region r start stop p flags h)"])
      (simp_all add: exos_mem_add_region_def Let_def init_block_def upd_region_def set_prio_insert distinct_prio_insert)
qed

lemma add_region_ok:
  assumes h: "heap_ok h Bs" and pre: "add_pre r start stop h"
  shows "\<exists>h'. exos_mem_add_region r start stop p flags h = (True, h') \<and>
    heap_ok h' (Bs(r := [(stop - start - 24, True)])) \<and> set (mem_list h') = insert r (set (mem_list h))"
proof -
  obtain h' where c: "exos_mem_add_region r start stop p flags h = (True, h')"
    and e: "ffree h' = (ffree h)(start := 0, stop - HDR - FTR := stop - start - 24)"
    "hsize h' = (hsize h)(stop - HDR := 0, start + FTR := stop - start - 24)"
    "hregion h' = (hregion h)(stop - HDR := r, start + FTR := r)" "mem_node h' = (mem_node h)(start + FTR := True)"
    "regions h' = (regions h)(r := \<lparr>RFlags = flags, StartAddress = start, RSize = stop - start, FreeList = [start + FTR],
       RPri = sint (word_of_int p :: u8), is_region = True\<rparr>)"
    and l: "set (mem_list h') = insert r (set (mem_list h))" "distinct (mem_list h') \<longleftrightarrow> distinct (mem_list h)"
    using add_region_effect[OF pre] by metis
  have pre': "r \<notin> set (mem_list h)" "start mod 4 = 0" "stop mod 4 = 0" "stop < 2 ^ 32" "start + 40 \<le> stop"
    "\<And>q. q \<in> set (mem_list h) \<Longrightarrow> stop \<le> StartAddress (regions h q) \<or> StartAddress (regions h q) + RSize (regions h q) \<le> start"
    using pre by (auto simp: add_pre_def list_all_iff)
  let ?n = "stop - start - 24"
  have n: "NODE \<le> ?n" "?n mod 4 = 0" "?n < 2 ^ 32" using pre'(2-5) by presburger+
  have ends: "start + FTR + HDR + ?n = stop - HDR - FTR" "start + FTR + total [(?n, True)] = stop - HDR"
    using pre'(5) by simp_all
  have "tiled h' r (start + FTR) [(?n, True)]" using n unfolding tiled.simps ends(1) by (simp add: e)
  moreover have "hsize h' (start + FTR + total [(?n, True)]) = 0" unfolding ends(2) using pre'(5) by (simp add: e(2))
  moreover have "ffree h' start = 0" using pre'(5) by (simp add: e(1))
  moreover have "(start + FTR) mod 4 = 0" using pre'(2) by presburger
  ultimately have "region_ok h' r [(?n, True)]"
    using pre'(4,5) by (intro region_okI[where a = start and fl = "[start + FTR]"]) (simp_all add: e(5))
  moreover have "region_ok h' q (Bs q)" if q: "q \<in> set (mem_list h)" for q
  proof (rule region_ok_frame[OF heap_okD[OF h q]])
    show "regions h' q = regions h q" using q pre'(1) by (auto simp: e(5))
    show "same_tags (StartAddress (regions h q)) (StartAddress (regions h q) + RSize (regions h q)) h h'"
      using pre'(5) pre'(6)[OF q] by (auto simp: same_tags_def e)
  qed
  ultimately have "heap_ok h' (Bs(r := [(?n, True)]))"
    using h pre'(1,5,6) unfolding heap_ok_def l by (fastforce simp: e(5) l)
  then show ?thesis using c l by blast
qed

section \<open>Statistics\<close>

lemma stats_loop_spec:
  assumes ok: "region_ok h r bs" and sub: "set as \<subseteq> set (FreeList (regions h r))"
  shows "\<exists>st'. stats_loop r as h st = Inr st' \<and>
     Free st' = Free st + of_nat (sum_list (map (hsize h) as)) \<and> Fragments st' = Fragments st + of_nat (length as) \<and>
     unat (Largest st') = Max (insert (unat (Largest st)) (hsize h ` set as))"
  using sub
proof (induction as arbitrary: st)
  case (Cons a as)
  then have "a \<in> set (FreeList (regions h r))" by simp
  note fb = free_block_ok[OF ok this]
  have "hsize h a < 2 ^ 32" using fb(5) region_okD(10)[OF ok] by linarith
  then have u: "unat (of_nat (hsize h a) :: u32) = hsize h a" by (simp add: unat_of_nat)
  let ?st = "st\<lparr>Largest := if Largest st < of_nat (hsize h a) then of_nat (hsize h a) else Largest st,
      Free := Free st + of_nat (hsize h a), Fragments := Fragments st + 1\<rparr>"
  have step: "stats_loop r (a # as) h st = stats_loop r as h ?st" using fb by simp
  have "unat (Largest ?st) = max (hsize h a) (unat (Largest st))"
    using u by (simp add: word_less_nat_alt max_def)
  then have "Max (insert (unat (Largest ?st)) (hsize h ` set as)) = Max (insert (unat (Largest st)) (hsize h ` set (a # as)))"
    by (cases "as = []") (simp_all add: ac_simps)
  then show ?case
    using Cons.IH[of ?st] Cons.prems unfolding step by (auto simp: algebra_simps)
qed simp

lemma finite_free_addrs [simp]: "finite (free_addrs a bs)"
  by (induction a bs rule: free_addrs.induct) auto

lemma free_addrs_all:
  "tiled h r a bs \<Longrightarrow> sum (hsize h) (free_addrs a bs) = sum_list (map fst (filter snd bs)) \<and>
    card (free_addrs a bs) = length (filter snd bs) \<and> hsize h ` free_addrs a bs = fst ` set (filter snd bs)"
proof (induction a bs rule: free_addrs.induct)
  case (2 a sz fr bs)
  moreover have "a \<notin> free_addrs (a + HDR + sz + FTR) bs" using free_addrs_range[of a "a + HDR + sz + FTR" bs] by auto
  ultimately show ?case by (simp add: add.assoc)
qed simp

lemmas free_addrs_sum = free_addrs_all[THEN conjunct1] free_addrs_all[THEN conjunct2, THEN conjunct1]
  free_addrs_all[THEN conjunct2, THEN conjunct2]

lemma free_total: "sum_list (map fst (filter snd bs)) \<le> total bs"
  by (induction bs) auto

section \<open>Theorems\<close>

definition blank_heap :: heap where
  "blank_heap = \<lparr>hsize = \<lambda>_. 0, hregion = \<lambda>_. 0, ffree = \<lambda>_. 0, mem_node = \<lambda>_. False, bytes = \<lambda>_. 0,
     regions = \<lambda>_. \<lparr>RFlags = 0, StartAddress = 0, RSize = 0, FreeList = [], RPri = 0, is_region = False\<rparr>, mem_list = []\<rparr>"

definition sample_heap :: heap where
  "sample_heap = mem_init 0 0x1000 0x1100 blank_heap"

abbreviation sample_blocks :: "rid \<Rightarrow> block list" where
  "sample_blocks \<equiv> (\<lambda>_. [])(0 := [(232, True)])"

lemma blank_heap_ok: "heap_ok blank_heap (\<lambda>_. [])"
  by (simp add: heap_ok_def blank_heap_def)

lemma sample_add_pre: "add_pre 0 0x1000 0x1100 blank_heap"
  by (simp add: add_pre_def blank_heap_def)

lemma distinct_singleton_set: "set xs = {a} \<Longrightarrow> distinct xs \<Longrightarrow> xs = [a]"
  by (cases xs) (auto simp: insert_eq_iff set_eq_iff, metis list.set_intros(1) neq_Nil_conv)

lemma sample_heap_eq: "exos_mem_add_region 0 0x1000 0x1100 (- 1) 0 blank_heap = (True, sample_heap)"
proof -
  have "blank_heap\<lparr>mem_list := []\<rparr> = blank_heap" by (simp add: blank_heap_def)
  moreover obtain h' where "exos_mem_add_region 0 0x1000 0x1100 (- 1) 0 blank_heap = (True, h')"
    by (rule add_region_effect[OF sample_add_pre])
  ultimately show ?thesis by (simp add: sample_heap_def mem_init_def)
qed

lemma sample_heap_ok: "heap_ok sample_heap sample_blocks" "mem_list sample_heap = [0]" "StartAddress (regions sample_heap 0) = 0x1000"
  "RFlags (regions sample_heap 0) = 0"
proof -
  show "heap_ok sample_heap sample_blocks" using add_region_ok[OF blank_heap_ok sample_add_pre, of "- 1" 0] sample_heap_eq by simp
  obtain h' where "h' = sample_heap" "set (mem_list h') = {0}" "distinct (mem_list h')"
    "regions h' 0 = \<lparr>RFlags = 0, StartAddress = 0x1000, RSize = 0x1100 - 0x1000, FreeList = [0x1000 + FTR],
       RPri = sint (word_of_int (- 1) :: u8), is_region = True\<rparr>"
    by (rule add_region_effect[OF sample_add_pre, of "- 1" 0]) (use sample_heap_eq in \<open>auto simp: blank_heap_def\<close>)
  then show "mem_list sample_heap = [0]" "StartAddress (regions sample_heap 0) = 0x1000" "RFlags (regions sample_heap 0) = 0"
    by (auto simp: distinct_singleton_set)
qed

lemma singleton_split: "[(a, True)] = xs @ (S, True) # ys \<longleftrightarrow> xs = [] \<and> S = a \<and> ys = []"
  by (cases xs) auto

text \<open>\<^verbatim>\<open>exos_mem_add_region\<close> on a word-aligned range that is disjoint from the
  regions known so far and holds at least one node: the call succeeds, the new region consists of one free
  block and the other regions keep their blocks.
\<close>

theorem mem_add_region_ok:
  assumes "heap_ok h Bs" "add_pre r start stop h"
  shows "\<exists>h'. exos_mem_add_region r start stop p flags h = (True, h') \<and>
    heap_ok h' (Bs(r := [(stop - start - 24, True)])) \<and> set (mem_list h') = insert r (set (mem_list h))"
  by (rule add_region_ok[OF assms])

theorem mem_add_region_ok_witness:
  "\<exists>h'. exos_mem_add_region 0 0x1000 0x1100 (- 1) 0 blank_heap = (True, h') \<and>
    heap_ok h' sample_blocks \<and> set (mem_list h') = {0}"
  using mem_add_region_ok[OF blank_heap_ok sample_add_pre, of "- 1" 0] by (simp add: blank_heap_def)

text \<open>C9: \<^verbatim>\<open>exos_mem_alloc\<close> on a well-formed heap never panics.  Either it returns
  NULL, changes nothing, and no region with the requested flags has a free block of the rounded size;
  or it splits a free block of a region with the requested flags, returns the
  address of a used block at least as large as the request, keeps the heap well formed, and clears exactly the
  rounded size when asked to.
\<close>

theorem mem_alloc_ok:
  assumes "heap_ok h Bs" "sz \<noteq> 0" "unat sz \<le> 0xFFFFFFF0"
  shows "(exos_mem_alloc sz flags h = Inr (None, h) \<and>
      (\<forall>r\<in>set (mem_list h). flags_match flags r h \<longrightarrow> (\<forall>S. (S, True) \<in> set (Bs r) \<longrightarrow> S < unat (align16 sz)))) \<or>
    (\<exists>r\<in>set (mem_list h). \<exists>xs S ys h'. flags_match flags r h \<and> Bs r = xs @ (S, True) # ys \<and>
      unat sz \<le> unat (align16 sz) \<and> unat (align16 sz) \<le> S \<and>
      exos_mem_alloc sz flags h = Inr (Some (StartAddress (regions h r) + FTR + total xs + HDR), h') \<and>
      heap_ok h' (Bs(r := xs @ carve S (unat (align16 sz)) @ ys)) \<and>
      (flags AND EXOS_MEMF_CLEAR \<noteq> 0 \<longrightarrow>
         (\<forall>i < unat sz. bytes h' (StartAddress (regions h r) + FTR + total xs + HDR + i) = 0)))"
proof (cases rule: mem_alloc_cases[OF assms refl, of flags])
  case (2 r xs S ys h')
  moreover have "unat sz \<le> unat (align16 sz)" by (rule align16_room(3)[OF assms(2,3) refl])
  ultimately show ?thesis
    by (intro disjI2 bexI[of _ r] exI[of _ xs] exI[of _ S] exI[of _ ys] exI[of _ h']) simp_all
qed blast

theorem mem_alloc_ok_witness:
  "\<exists>h'. exos_mem_alloc 20 EXOS_MEMF_CLEAR sample_heap = Inr (Some 0x100C, h') \<and>
    heap_ok h' ((\<lambda>_. [])(0 := [(32, False), (188, True)]))"
proof -
  have "align16 20 = 32" by (simp add: align16_def)
  then show ?thesis
    using mem_alloc_ok[OF sample_heap_ok(1), of 20 EXOS_MEMF_CLEAR] sample_heap_ok(2-4)
    by (auto simp: singleton_split flags_match_def EXOS_MEMF_CLEAR_def EXOS_MEMF_REGION_def carve_def)
qed

text \<open>Releasing the block that an allocation returned never panics and restores the
  blocks of the heap: the remainder that the allocation split off is merged back and nothing
  leaks.
\<close>

theorem mem_alloc_free:
  assumes "heap_ok h Bs" "sz \<noteq> 0" "unat sz \<le> 0xFFFFFFF0" "exos_mem_alloc sz flags h = Inr (Some p, h')"
  shows "\<exists>h''. exos_mem_free p h' = Inr h'' \<and> heap_ok h'' Bs"
proof (cases rule: mem_alloc_cases[OF assms(1-3) refl, of flags])
  case 1
  then show ?thesis using assms(4) by simp
next
  case some: (2 r xs S ys k)
  let ?Bs = "Bs(r := xs @ carve S (unat (align16 sz)) @ ys)"
  have k: "k = h'" "p = StartAddress (regions h r) + FTR + total xs + HDR" using assms(4) some(5) by simp_all
  have "no_adjacent (xs @ (S, True) # ys)" using region_okD(3)[OF heap_okD[OF assms(1) some(1)]] some(3) by simp
  then obtain m rest where c: "carve S (unat (align16 sz)) @ ys = (m, False) # rest" "release xs m rest = Bs r"
    using carve_release[OF _ some(4)] some(3) by metis
  have "?Bs r = xs @ (m, False) # rest" using c(1) by simp
  moreover have "?Bs(r := Bs r) = Bs" by simp
  ultimately show ?thesis
    using mem_free_ok[OF some(6), of r xs m rest] some(1,7,8) c(2) k by fastforce
qed

theorem mem_alloc_free_witness:
  "case exos_mem_alloc 20 0 sample_heap of Inr (Some p, h') \<Rightarrow> (\<exists>h''. exos_mem_free p h' = Inr h'' \<and> heap_ok h'' sample_blocks) | _ \<Rightarrow> False"
proof -
  have a: "align16 20 = 32" by (simp add: align16_def)
  obtain p h' where r: "exos_mem_alloc 20 0 sample_heap = Inr (Some p, h')"
    by (rule mem_alloc_cases[OF sample_heap_ok(1), of 20 32 0])
      (use sample_heap_ok(2-4) a in \<open>auto simp: singleton_split flags_match_def\<close>)
  then show ?thesis using mem_alloc_free[OF sample_heap_ok(1) _ _ r] by simp
qed

text \<open>C10: \<^verbatim>\<open>exos_mem_free\<close> on any used block of a well-formed heap never panics, merges the
  block with the free blocks on either side and keeps the heap well formed: no two free blocks are
  adjacent and the free list holds exactly the free blocks.
\<close>

theorem mem_free_coalesces:
  assumes "heap_ok h Bs" "r \<in> set (mem_list h)" "Bs r = xs @ (S, False) # ys"
  shows "\<exists>h'. exos_mem_free (StartAddress (regions h r) + FTR + total xs + HDR) h = Inr h' \<and>
    heap_ok h' (Bs(r := release xs S ys)) \<and> total (release xs S ys) = total (Bs r)"
  using mem_free_ok[OF assms] total_release assms(3) by metis

theorem mem_free_coalesces_witness:
  "case exos_mem_alloc 20 0 sample_heap of Inr (Some p, h') \<Rightarrow>
     (\<exists>h''. exos_mem_free 0x100C h' = Inr h'' \<and> heap_ok h'' ((\<lambda>_. [])(0 := [(232, True)]))) | _ \<Rightarrow> False"
proof -
  have a: "align16 20 = 32" by (simp add: align16_def)
  obtain p h' where r: "exos_mem_alloc 20 0 sample_heap = Inr (Some p, h')" "mem_list h' = [0]"
    "heap_ok h' ((\<lambda>_. [])(0 := [(32, False), (188, True)]))" "StartAddress (regions h' 0) = 0x1000"
    by (rule mem_alloc_cases[OF sample_heap_ok(1), of 20 32 0])
      (use sample_heap_ok(2-4) a in \<open>auto simp: singleton_split flags_match_def carve_def\<close>)
  then show ?thesis using mem_free_coalesces[OF r(3), of 0 "[]" 32 "[(188, True)]"]
    by (simp add: release_def prev_part_def next_part_def)
qed

text \<open>The rounding of the request wraps: a request of more than \<^verbatim>\<open>0xFFFFFFF0\<close> bytes
  is rounded to zero, so on a heap with any free block of a matching region the call
  returns a block instead of NULL, and it may be far smaller than the request.
\<close>

theorem mem_alloc_wraps:
  assumes "heap_ok h Bs" "unat sz > 0xFFFFFFF0" "r \<in> set (mem_list h)" "flags_match flags r h" "(S, True) \<in> set (Bs r)"
  shows "\<exists>p h'. exos_mem_alloc sz flags h = Inr (Some p, h')"
proof -
  have "sz \<noteq> 0" using assms(2) by auto
  then show ?thesis
    using alloc_loop_spec[OF assms(1) order_refl, of 0 flags] align16_wraps[OF assms(2)] assms(3-5)
    by (fastforce simp: exos_mem_alloc_def)
qed

theorem mem_alloc_wraps_witness: "\<exists>p h'. exos_mem_alloc 0xFFFFFFF8 0 sample_heap = Inr (Some p, h')"
  using mem_alloc_wraps[OF sample_heap_ok(1), of "0xFFFFFFF8" 0 0 232] sample_heap_ok(2,4) by (simp add: flags_match_def)

text \<open>\<^verbatim>\<open>exos_mem_stats\<close> on a well-formed region never panics and reports
  the number of free blocks, the exact sum of their sizes and the largest one.
\<close>

theorem mem_stats_exact:
  assumes "region_ok h r bs"
  shows "\<exists>st. exos_mem_stats r h = Inr st \<and> unat (Free st) = sum_list (map fst (filter snd bs)) \<and>
    Fragments st = of_nat (length (filter snd bs)) \<and> unat (Largest st) = Max (insert 0 (fst ` set (filter snd bs)))"
proof -
  let ?F = "FreeList (regions h r)"
  note ok = region_okD[OF assms] and fa = free_addrs_sum[OF region_okD(2)[OF assms]]
  obtain st where st: "exos_mem_stats r h = Inr st" "Free st = of_nat (sum_list (map (hsize h) ?F))"
    "Fragments st = of_nat (length ?F)" "unat (Largest st) = Max (insert 0 (hsize h ` set ?F))"
    using stats_loop_spec[OF assms order_refl, of "\<lparr>Free = 0, Fragments = 0, Largest = 0\<rparr>"] ok(1)
    by (auto simp: exos_mem_stats_def)
  have s: "sum_list (map (hsize h) ?F) = sum_list (map fst (filter snd bs))" "length ?F = length (filter snd bs)"
    using fa(1,2) sum_list_distinct_conv_sum_set[OF ok(6), of "hsize h"] distinct_card[OF ok(6)] unfolding ok(7) by simp_all
  have "sum_list (map fst (filter snd bs)) < 2 ^ 32" using free_total[of bs] ok(5,10) by linarith
  then have "unat (Free st) = sum_list (map fst (filter snd bs))" unfolding st(2) s by (simp add: unat_of_nat)
  then show ?thesis using st s fa(3) ok(7) by simp
qed

theorem mem_stats_exact_witness:
  "\<exists>st. exos_mem_stats 0 sample_heap = Inr st \<and> unat (Free st) = 232 \<and> Fragments st = 1 \<and> unat (Largest st) = 232"
  using mem_stats_exact[of sample_heap 0 "[(232, True)]"] heap_okD[OF sample_heap_ok(1), of 0] sample_heap_ok(2) by simp

end
