(* ===== verification/DevTree.thy ===== *)
theory DevTree
  imports Hal
begin

text \<open>
  The device tree (\<^verbatim>\<open>exos/kernel/tree.c\<close>), on which the input and output calls of the
  theory DeviceIo are built.  Nodes are numbered; a group keeps the list of its children.
  The children of a group are only used under the mutex of the group, so every search and every
  insertion is one step.
\<close>

section \<open>Nodes\<close>

datatype exos_tree_node_type = EXOS_TREE_NODE_GROUP | EXOS_TREE_NODE_DEVICE | EXOS_TREE_NODE_VOLUME

record tree_node =
  TreeNode :: bool             \<comment> \<open>\<^verbatim>\<open>Node.Type == EXOS_NODE_TREE_NODE\<close>\<close>
  Parent :: "nat option"
  NType :: exos_tree_node_type
  Name :: "cstring option"     \<comment> \<open>\<^verbatim>\<open>None\<close> is a null pointer\<close>
  Children :: "nat list"

type_synonym tree = "nat \<Rightarrow> tree_node"

definition ROOT :: nat where "ROOT = 0"
definition DEV :: nat where "DEV = 1"
definition MNT :: nat where "MNT = 2"

definition slash :: u8 where "slash = 47"

section \<open>Operations\<close>

definition exos_tree_add_child :: "nat \<Rightarrow> nat \<Rightarrow> tree \<Rightarrow> tree res" where
  "exos_tree_add_child g child t =
     ASSERT (NType (t g) = EXOS_TREE_NODE_GROUP) KERNEL_ERROR_WRONG_NODE
      (ASSERT (Name (t child) \<noteq> None) KERNEL_ERROR_NULL_POINTER
        (if child \<in> set (Children (t g)) then Inl (Panic KERNEL_ERROR_LIST_ALREADY_CONTAINS_NODE)
         else let t1 = t(child := (t child)\<lparr>TreeNode := True\<rparr>);
                  t2 = t1(g := (t1 g)\<lparr>Children := Children (t1 g) @ [child]\<rparr>)
              in Inr (t2(child := (t2 child)\<lparr>Parent := Some g\<rparr>))))"

text \<open>\<^verbatim>\<open>__tree_initialize\<close>: the root and its two groups are static.\<close>

definition static_group :: "cstring \<Rightarrow> tree_node" where
  "static_group name = \<lparr>TreeNode = True, Parent = None, NType = EXOS_TREE_NODE_GROUP, Name = Some name, Children = []\<rparr>"

definition tree_initialize :: "tree \<Rightarrow> tree res" where
  "tree_initialize t =
     rbind (exos_tree_add_child ROOT DEV
             (t(ROOT := static_group [114, 111, 111, 116], DEV := static_group [100, 101, 118], MNT := static_group [109, 110, 116])))
       (\<lambda>t1. exos_tree_add_child ROOT MNT t1)"

text \<open>\<^verbatim>\<open>_name_eq\<close>: the rest of the path behind the name and its separator, if the name matches.\<close>

definition name_end :: "cstring \<Rightarrow> cstring option" where
  "name_end path = (if char_at path 0 = 0 then Some path else if char_at path 0 = slash then Some (tl path) else None)"

fun name_eq :: "cstring \<Rightarrow> cstring \<Rightarrow> cstring option" where
  "name_eq path [] = name_end path"
| "name_eq path (c # name) =
     (if c = 0 then name_end path
      else case path of [] \<Rightarrow> None | p # ps \<Rightarrow> if c = p then name_eq ps name else None)"

fun find_child :: "tree \<Rightarrow> cstring \<Rightarrow> nat list \<Rightarrow> (nat \<times> cstring) option" where
  "find_child t path [] = None"
| "find_child t path (c # cs) =
     (case Name (t c) of
        None \<Rightarrow> find_child t path cs
      | Some name \<Rightarrow> (case name_eq path name of Some rest \<Rightarrow> Some (c, rest) | None \<Rightarrow> find_child t path cs))"

lemma name_end_length: "name_end path = Some rest \<Longrightarrow> length rest \<le> length path"
  by (auto simp: name_end_def split: if_splits)

lemma name_eq_length: "name_eq path name = Some rest \<Longrightarrow> char_at path 0 \<noteq> 0 \<Longrightarrow> length rest < length path"
proof (cases "name = [] \<or> hd name = 0")
  case True
  assume "name_eq path name = Some rest" and c: "char_at path 0 \<noteq> 0"
  then have "name_end path = Some rest" using True by (cases name) auto
  then show ?thesis using c by (auto simp: name_end_def char_at_def split: if_splits)
next
  case False
  have le: "name_eq ps ns = Some r \<Longrightarrow> length r \<le> length ps" for ps ns r
    by (induction ns arbitrary: ps) (fastforce simp: name_end_length split: if_splits list.splits)+
  assume "name_eq path name = Some rest"
  then show ?thesis using False by (cases name; cases path) (auto dest!: le split: if_splits)
qed

lemma find_child_length: "find_child t path cs = Some (c, rest) \<Longrightarrow> char_at path 0 \<noteq> 0 \<Longrightarrow> length rest < length path"
  by (induction cs) (auto simp: name_eq_length split: option.splits)

text \<open>The descent of \<^verbatim>\<open>exos_tree_parse_path\<close> ends because every step consumes a part of the path.\<close>

function tree_descend :: "nat \<Rightarrow> cstring \<Rightarrow> tree \<Rightarrow> (nat \<times> cstring) res" where
  "tree_descend found path t =
     (if \<not> TreeNode (t found) then Inl (Panic KERNEL_ERROR_LIST_CORRUPTED)
      else if char_at path 0 \<noteq> 0 \<and> NType (t found) = EXOS_TREE_NODE_GROUP
      then case find_child t path (Children (t found)) of
             Some (c, rest) \<Rightarrow> tree_descend c rest t
           | None \<Rightarrow> Inr (found, path)
      else Inr (found, path))"
  by pat_completeness auto
termination
  by (relation "measure (\<lambda>(_, path, _). length path)") (auto simp: find_child_length)

declare tree_descend.simps [simp del]

definition exos_tree_parse_path :: "nat option \<Rightarrow> cstring \<Rightarrow> tree \<Rightarrow> (nat \<times> cstring) res" where
  "exos_tree_parse_path parent path t =
     (if char_at path 0 = slash then tree_descend ROOT (tl path) t
      else tree_descend (case parent of None \<Rightarrow> ROOT | Some p \<Rightarrow> p) path t)"

definition exos_tree_find_group :: "nat option \<Rightarrow> cstring option \<Rightarrow> tree \<Rightarrow> nat option res" where
  "exos_tree_find_group parent path t =
     (case path of
        None \<Rightarrow> Inr parent
      | Some p \<Rightarrow> rbind (exos_tree_parse_path parent p t) (\<lambda>(node, _).
          Inr (if NType (t node) = EXOS_TREE_NODE_GROUP then Some node else None)))"

definition exos_tree_find_path :: "nat option \<Rightarrow> cstring \<Rightarrow> tree \<Rightarrow> nat option res" where
  "exos_tree_find_path parent path t =
     rbind (exos_tree_parse_path parent path t) (\<lambda>(node, _).
       Inr (if NType (t node) \<noteq> EXOS_TREE_NODE_GROUP then Some node else None))"

definition exos_tree_add_child_path :: "nat \<Rightarrow> cstring option \<Rightarrow> tree \<Rightarrow> (bool \<times> tree) res" where
  "exos_tree_add_child_path child path t =
     rbind (exos_tree_find_group None path t) (\<lambda>parent.
       case parent of
         None \<Rightarrow> Inr (False, t)
       | Some p \<Rightarrow> if NType (t p) = EXOS_TREE_NODE_GROUP
                   then rbind (exos_tree_add_child p child t) (\<lambda>t1. Inr (True, t1)) else Inr (False, t))"

definition exos_tree_add_group :: "nat \<Rightarrow> cstring option \<Rightarrow> tree \<Rightarrow> tree res" where
  "exos_tree_add_group g path t =
     rbind (exos_tree_add_child_path g path
       (t(g := (t g)\<lparr>NType := EXOS_TREE_NODE_GROUP, Children := []\<rparr>)))
       (\<lambda>(_, t1). Inr t1)"

definition name_char :: "u8 \<Rightarrow> bool" where
  "name_char c \<longleftrightarrow> (48 \<le> c \<and> c \<le> 57) \<or> (65 \<le> c \<and> c \<le> 90) \<or> (97 \<le> c \<and> c \<le> 122) \<or> c = 95"

fun valid_name_loop :: "cstring \<Rightarrow> nat \<Rightarrow> nat" where
  "valid_name_loop [] n = n"
| "valid_name_loop (c # cs) n = (if c = 0 then n else if name_char c then valid_name_loop cs (n + 1) else 0)"

definition exos_tree_valid_name :: "cstring \<Rightarrow> nat" where
  "exos_tree_valid_name name = valid_name_loop name 0"

section \<open>Paths as lists of names\<close>

definition good_name :: "cstring \<Rightarrow> bool" where
  "good_name n \<longleftrightarrow> n \<noteq> [] \<and> 0 \<notin> set n \<and> slash \<notin> set n"

fun join :: "cstring list \<Rightarrow> cstring" where
  "join [] = []"
| "join [n] = n"
| "join (n # m # ns) = n @ slash # join (m # ns)"

lemma join_Cons: "join (n # ns) = n @ (if ns = [] then [] else slash # join ns)"
  by (cases ns) auto

lemma join_head: "list_all good_name ns \<Longrightarrow> char_at (join ns) 0 = 0 \<longleftrightarrow> ns = []"
  "list_all good_name ns \<Longrightarrow> char_at (join ns) 0 \<noteq> slash"
  by (cases ns; cases "hd ns"; auto simp: join_Cons good_name_def char_at_def slash_def)+

text \<open>The reference: follow the names as long as there is a child of that name.\<close>

fun walk :: "tree \<Rightarrow> nat \<Rightarrow> cstring list \<Rightarrow> nat \<times> cstring list" where
  "walk t g [] = (g, [])"
| "walk t g (n # ns) =
     (if NType (t g) = EXOS_TREE_NODE_GROUP
      then case find (\<lambda>c. Name (t c) = Some n) (Children (t g)) of Some c \<Rightarrow> walk t c ns | None \<Rightarrow> (g, n # ns)
      else (g, n # ns))"

definition child_ok :: "tree \<Rightarrow> nat \<Rightarrow> bool" where
  "child_ok t c \<longleftrightarrow> TreeNode (t c) \<and> (case Name (t c) of None \<Rightarrow> False | Some n \<Rightarrow> good_name n)"

definition tree_ok :: "tree \<Rightarrow> bool" where
  "tree_ok t \<longleftrightarrow> TreeNode (t ROOT) \<and> (\<forall>g. \<forall>c\<in>set (Children (t g)). child_ok t c)"

lemma name_eq_append:
  "0 \<notin> set m \<Longrightarrow> slash \<notin> set m \<Longrightarrow> slash \<notin> set n \<Longrightarrow> 0 \<notin> set n \<Longrightarrow> r = [] \<or> hd r = slash \<Longrightarrow>
     name_eq (n @ r) m = (if m = n then name_end r else None)"
proof (induction m arbitrary: n)
  case Nil
  then show ?case by (cases n) (auto simp: name_end_def char_at_def)
next
  case (Cons c m)
  then show ?case by (cases n; cases r) auto
qed

lemma name_eq_join:
  "good_name n \<Longrightarrow> good_name m \<Longrightarrow> name_eq (join (n # ns)) m = (if m = n then Some (join ns) else None)"
  using name_eq_append[of m n "if ns = [] then [] else slash # join ns"]
  by (auto simp: good_name_def join_Cons name_end_def char_at_def slash_def)

lemma find_child_join:
  assumes "good_name n" "\<And>c. c \<in> set cs \<Longrightarrow> child_ok t c"
  shows "find_child t (join (n # ns)) cs = map_option (\<lambda>c. (c, join ns)) (find (\<lambda>c. Name (t c) = Some n) cs)"
  using assms(2)
proof (induction cs)
  case (Cons c cs)
  then have "child_ok t c" by simp
  then obtain m where "Name (t c) = Some m" "good_name m" by (auto simp: child_ok_def split: option.splits)
  then show ?case using Cons name_eq_join[OF assms(1)] by simp
qed simp

lemma find_in: "find P xs = Some x \<Longrightarrow> x \<in> set xs"
  by (auto simp: find_Some_iff)

lemma descend_walk:
  assumes "tree_ok t"
  shows "list_all good_name ns \<Longrightarrow> TreeNode (t g) \<Longrightarrow> tree_descend g (join ns) t = Inr (map_prod id join (walk t g ns))"
proof (induction ns arbitrary: g)
  case Nil
  then show ?case by (simp add: tree_descend.simps[of g] char_at_def)
next
  case (Cons n ns)
  have ok: "c \<in> set (Children (t g)) \<Longrightarrow> child_ok t c" for c using assms by (auto simp: tree_ok_def)
  have "find_child t (join (n # ns)) (Children (t g)) =
      map_option (\<lambda>c. (c, join ns)) (find (\<lambda>c. Name (t c) = Some n) (Children (t g)))"
    using find_child_join[OF _ ok] Cons.prems(1) by simp
  moreover have "char_at (join (n # ns)) 0 \<noteq> 0" using join_head(1)[OF Cons.prems(1)] by simp
  ultimately show ?case
    using Cons ok by (auto simp: tree_descend.simps[of g] child_ok_def split: option.splits dest!: find_in)
qed

lemma parse_path_walk:
  assumes "tree_ok t" "list_all good_name ns"
  shows "exos_tree_parse_path p (slash # join ns) t = Inr (map_prod id join (walk t ROOT ns))"
    "TreeNode (t g) \<Longrightarrow> exos_tree_parse_path (Some g) (join ns) t = Inr (map_prod id join (walk t g ns))"
  using assms descend_walk[OF assms] join_head(2)[OF assms(2)]
  by (simp_all add: exos_tree_parse_path_def char_at_def tree_ok_def)

text \<open>A child appended to a group does not change the walks that lead to the group.\<close>

lemma find_append_tail: "find P xs = Some x \<Longrightarrow> find P (xs @ ys) = Some x"
  by (induction xs) (auto split: if_splits)

lemma find_append_None: "find P xs = None \<Longrightarrow> find P (xs @ ys) = find P ys"
  by (induction xs) (auto split: if_splits)

lemma walk_extended:
  assumes "\<And>x. Name (t' x) = Name (t x)" "\<And>x. NType (t' x) = NType (t x)"
    "\<And>x. \<exists>ys. Children (t' x) = Children (t x) @ ys"
  shows "walk t a ns = (g, []) \<Longrightarrow> walk t' a (ns @ ms) = walk t' g ms"
proof (induction ns arbitrary: a)
  case (Cons n ns)
  then obtain c where c: "NType (t a) = EXOS_TREE_NODE_GROUP" "find (\<lambda>c. Name (t c) = Some n) (Children (t a)) = Some c"
    "walk t c ns = (g, [])" by (auto split: if_splits option.splits)
  obtain ys where "Children (t' a) = Children (t a) @ ys" using assms(3) by blast
  then have "find (\<lambda>c. Name (t' c) = Some n) (Children (t' a)) = Some c"
    using find_append_tail[OF c(2)] assms(1) by simp
  then show ?case using c Cons.IH assms(2) by simp
qed simp

definition with_child :: "nat \<Rightarrow> nat \<Rightarrow> tree \<Rightarrow> tree" where
  "with_child g c t =
     (let t1 = t(c := (t c)\<lparr>TreeNode := True\<rparr>); t2 = t1(g := (t1 g)\<lparr>Children := Children (t1 g) @ [c]\<rparr>)
      in t2(c := (t2 c)\<lparr>Parent := Some g\<rparr>))"

lemma with_child_sel [simp]:
  "Name (with_child g c t x) = Name (t x)" "NType (with_child g c t x) = NType (t x)"
  "Children (with_child g c t x) = Children (t x) @ (if x = g then [c] else [])"
  "TreeNode (with_child g c t x) \<longleftrightarrow> TreeNode (t x) \<or> x = c"
  by (auto simp: with_child_def Let_def)

lemma with_child_ok: "tree_ok t \<Longrightarrow> Name (t c) = Some n \<Longrightarrow> good_name n \<Longrightarrow> tree_ok (with_child g c t)"
  by (auto simp: tree_ok_def child_ok_def split: if_splits)

lemma add_child_path_spec:
  assumes "tree_ok t" "list_all good_name ns" "walk t ROOT ns = (g, rest)" "NType (t g) = EXOS_TREE_NODE_GROUP"
    "Name (t c) = Some n" "c \<notin> set (Children (t g))"
  shows "exos_tree_add_child_path c (Some (slash # join ns)) t = Inr (True, with_child g c t)"
  using assms(3-6) parse_path_walk(1)[OF assms(1,2)]
  by (simp add: exos_tree_add_child_path_def exos_tree_find_group_def exos_tree_add_child_def with_child_def Let_def)

section \<open>Theorems\<close>

definition sample_tree :: tree where
  "sample_tree = (\<lambda>_. static_group [120])(ROOT := (static_group [114])\<lparr>Children := [DEV]\<rparr>, DEV := static_group [100, 101, 118])"

lemma sample_tree_ok: "tree_ok sample_tree"
  by (auto simp: tree_ok_def child_ok_def sample_tree_def ROOT_def DEV_def static_group_def good_name_def slash_def)

text \<open>C21: on a well-formed tree \<^verbatim>\<open>exos_tree_parse_path\<close> never panics and
  refines the walk over names: it returns the deepest node that the names lead to and leaves the
  names that have no node as the rest of the path.\<close>

theorem tree_parse_walks:
  assumes "tree_ok t" "list_all good_name ns"
  shows "exos_tree_parse_path p (slash # join ns) t = Inr (fst (walk t ROOT ns), join (snd (walk t ROOT ns)))"
  using parse_path_walk(1)[OF assms] by (simp add: map_prod_def case_prod_beta)

theorem tree_parse_walks_witness:
  "exos_tree_parse_path None [47, 100, 101, 118, 47, 121] sample_tree = Inr (DEV, [121])"
proof -
  have "walk sample_tree ROOT [[100, 101, 118], [121]] = (DEV, [[121]])"
    by (simp add: sample_tree_def static_group_def ROOT_def DEV_def)
  then show ?thesis
    using tree_parse_walks[OF sample_tree_ok, of "[[100, 101, 118], [121]]" None] by (simp add: good_name_def slash_def)
qed

text \<open>A node added under the path of an existing group that has no child of that name is
  found at the path extended by its name, and the tree stays well formed.\<close>

theorem tree_add_lookup:
  assumes ok: "tree_ok t" and ns: "list_all good_name ns" and w: "walk t ROOT ns = (g, [])"
    and g: "NType (t g) = EXOS_TREE_NODE_GROUP" and c: "Name (t c) = Some n" "good_name n"
    and new: "\<forall>d\<in>set (Children (t g)). Name (t d) \<noteq> Some n"
  shows "\<exists>t'. exos_tree_add_child_path c (Some (slash # join ns)) t = Inr (True, t') \<and> tree_ok t' \<and>
    exos_tree_parse_path None (slash # join (ns @ [n])) t' = Inr (c, [])"
proof -
  let ?t = "with_child g c t"
  have "find (\<lambda>d. Name (t d) = Some n) (Children (t g)) = None" using new by (auto simp: find_None_iff)
  then have "find (\<lambda>d. Name (t d) = Some n) (Children (t g) @ [c]) = Some c"
    using c(1) by (subst find_append_None) simp_all
  then have "walk ?t g [n] = (c, [])" using g by simp
  then have "walk ?t ROOT (ns @ [n]) = (c, [])"
    using walk_extended[OF _ _ _ w, of ?t "[n]"] by auto
  moreover have "tree_ok ?t" using with_child_ok[OF ok c] .
  ultimately have "exos_tree_parse_path None (slash # join (ns @ [n])) ?t = Inr (c, [])"
    using parse_path_walk(1)[of ?t "ns @ [n]" None] ns c(2) by simp
  moreover have "c \<notin> set (Children (t g))" using new c(1) by auto
  ultimately show ?thesis
    using add_child_path_spec[OF ok ns w g c(1)] \<open>tree_ok ?t\<close> by blast
qed

theorem tree_add_lookup_witness:
  "\<exists>t'. exos_tree_add_child_path 5 (Some [47, 100, 101, 118]) sample_tree = Inr (True, t') \<and> tree_ok t' \<and>
    exos_tree_parse_path None [47, 100, 101, 118, 47, 120] t' = Inr (5, [])"
proof -
  have "walk sample_tree ROOT [[100, 101, 118]] = (DEV, [])" "NType (sample_tree DEV) = EXOS_TREE_NODE_GROUP"
    "Name (sample_tree 5) = Some [120]" "Children (sample_tree DEV) = []"
    by (simp_all add: sample_tree_def static_group_def ROOT_def DEV_def)
  then show ?thesis
    using tree_add_lookup[OF sample_tree_ok, of "[[100, 101, 118]]" DEV 5 "[120]"] by (simp add: good_name_def slash_def)
qed

end
