(* ===== verification/DeviceIo.thy ===== *)
theory DeviceIo
  imports DevTree Timers_Inv IoBuffer
begin

text \<open>
  Device input and output (\<^verbatim>\<open>exos/kernel/io.c\<close>).  A driver is a table of functions, some
  of which may be missing; they work on a device state of their own and on the kernel.  The
  read and write calls that wait are split at the wait: \<open>IoWait d\<close> is a call that has
  transferred \<open>d\<close> bytes and waits for the event of the entry.
\<close>

section \<open>Entries and drivers\<close>

datatype io_error =
    IO_OK | IO_ERROR_UNKNOWN | IO_ERROR_NOT_IMPLEMENTED | IO_ERROR_NOT_ENOUGH_MEMORY | IO_ERROR_TIMEOUT
  | IO_ERROR_SEEK_MISALIGNMENT | IO_ERROR_DEVICE_NOT_FOUND | IO_ERROR_DEVICE_NOT_MOUNTED
  | IO_ERROR_VOLUME_ALREADY_MOUNTED | IO_ERROR_VOLUME_IN_USE | IO_ERROR_NOT_FORMATTED | IO_ERROR_INVALID_LOCK
  | IO_ERROR_VOLUME_NOT_FOUND | IO_ERROR_DIRECTORY_NOT_FOUND | IO_ERROR_FILE_NOT_FOUND | IO_ERROR_ALREADY_LOCKED
  | IO_ERROR_NOT_A_DIRECTORY | IO_ERROR_NOT_A_FILE | IO_ERROR_VOLUME_IS_FULL | IO_ERROR_READ_ERROR
  | IO_ERROR_WRITE_ERROR | IO_ERROR_SEEK_ERROR | IO_ERROR_IO_ERROR | IO_ERROR_NO_MORE_ENTRIES

type_synonym did = nat

record io_entry =
  IoEntry :: bool              \<comment> \<open>\<^verbatim>\<open>Node.Type == EXOS_NODE_IO_ENTRY\<close>\<close>
  Driver :: "did option"
  DriverContext :: nat
  Port :: u32
  InputEvent :: eid
  OutputEvent :: eid
  Timeout :: u32

record 'w io_driver =
  Open :: "(io_entry \<Rightarrow> cstring option \<Rightarrow> u32 \<Rightarrow> 'w \<Rightarrow> kernel \<Rightarrow> (io_error \<times> io_entry \<times> 'w \<times> kernel) res) option"
  Close :: "(io_entry \<Rightarrow> 'w \<Rightarrow> kernel \<Rightarrow> (io_entry \<times> 'w \<times> kernel) res) option"
  Read :: "(io_entry \<Rightarrow> nat \<Rightarrow> 'w \<Rightarrow> kernel \<Rightarrow> (int \<times> u8 list \<times> 'w \<times> kernel) res) option"
  Write :: "(io_entry \<Rightarrow> u8 list \<Rightarrow> 'w \<Rightarrow> kernel \<Rightarrow> (int \<times> 'w \<times> kernel) res) option"
  Sync :: "(io_entry \<Rightarrow> 'w \<Rightarrow> kernel \<Rightarrow> (int \<times> 'w \<times> kernel) res) option"

text \<open>The device part of a tree node (\<^verbatim>\<open>io_tree_device_t\<close>).\<close>

record io_tree_device =
  TDriver :: "did option"
  TContext :: nat
  TPort :: u32

type_synonym devices = "nat \<Rightarrow> io_tree_device"

definition driver_fun :: "(did \<Rightarrow> 'w io_driver) \<Rightarrow> ('w io_driver \<Rightarrow> 'f option) \<Rightarrow> io_entry \<Rightarrow> ('f \<Rightarrow> 'b res) \<Rightarrow> 'b res" where
  "driver_fun drv sel io k =
     (case Driver io of
        None \<Rightarrow> Inl (Panic KERNEL_ERROR_NULL_POINTER)
      | Some d \<Rightarrow> (case sel (drv d) of None \<Rightarrow> Inl (Panic KERNEL_ERROR_NULL_POINTER) | Some f \<Rightarrow> k f))"

section \<open>Opening and closing\<close>

definition io_initialize :: "tree \<Rightarrow> tree res" where
  "io_initialize t = tree_initialize t"

definition exos_io_add_device ::
  "nat \<Rightarrow> cstring option \<Rightarrow> did \<Rightarrow> nat \<Rightarrow> tree \<Rightarrow> devices \<Rightarrow> (tree \<times> devices) res" where
  "exos_io_add_device device name driver ctx t ds =
     (let t1 = t(device := (t device)\<lparr>NType := EXOS_TREE_NODE_DEVICE, Name := name\<rparr>);
          ds1 = ds(device := \<lparr>TDriver = Some driver, TContext = ctx, TPort = 0\<rparr>)
      in rbind (exos_tree_add_child_path device (Some [47, 100, 101, 118]) t1) (\<lambda>(_, t2). Inr (t2, ds1)))"

definition io_create :: "eid \<Rightarrow> eid \<Rightarrow> did option \<Rightarrow> nat \<Rightarrow> u32 \<Rightarrow> kernel \<Rightarrow> io_entry \<times> kernel" where
  "io_create ie oe driver ctx port k =
     (\<lparr>IoEntry = True, Driver = driver, DriverContext = ctx, Port = port, InputEvent = ie, OutputEvent = oe, Timeout = 0\<rparr>,
      exos_event_create oe True (exos_event_create ie True k))"

definition exos_io_open_path ::
  "(did \<Rightarrow> 'w io_driver) \<Rightarrow> eid \<Rightarrow> eid \<Rightarrow> io_entry \<Rightarrow> cstring \<Rightarrow> u32 \<Rightarrow> tree \<Rightarrow> devices \<Rightarrow> 'w \<Rightarrow> kernel \<Rightarrow>
     (io_error \<times> io_entry \<times> 'w \<times> kernel) res" where
  "exos_io_open_path drv ie oe io0 path flags t ds w k =
     rbind (exos_tree_parse_path None path t) (\<lambda>(node, rest).
       if NType (t node) = EXOS_TREE_NODE_DEVICE
       then case io_create ie oe (TDriver (ds node)) (TContext (ds node)) (TPort (ds node)) k of
              (io, k1) \<Rightarrow> driver_fun drv Open io (\<lambda>f. f io (Some rest) flags w k1)
       else Inr (IO_ERROR_DEVICE_NOT_FOUND, io0, w, k))"

definition exos_io_create :: "eid \<Rightarrow> eid \<Rightarrow> did option \<Rightarrow> nat \<Rightarrow> u32 \<Rightarrow> kernel \<Rightarrow> io_entry \<times> kernel" where
  "exos_io_create ie oe driver ctx port k = io_create ie oe driver ctx port k"

definition exos_io_open ::
  "(did \<Rightarrow> 'w io_driver) \<Rightarrow> u32 \<Rightarrow> io_entry \<Rightarrow> 'w \<Rightarrow> kernel \<Rightarrow> (io_error \<times> io_entry \<times> 'w \<times> kernel) res" where
  "exos_io_open drv flags io w k = driver_fun drv Open io (\<lambda>f. f io None flags w k)"

definition exos_io_close :: "(did \<Rightarrow> 'w io_driver) \<Rightarrow> io_entry \<Rightarrow> 'w \<Rightarrow> kernel \<Rightarrow> (io_entry \<times> 'w \<times> kernel) res" where
  "exos_io_close drv io w k = driver_fun drv Close io (\<lambda>f. f io w k)"

definition exos_io_set_timeout :: "u32 \<Rightarrow> io_entry \<Rightarrow> io_entry" where
  "exos_io_set_timeout timeout io = io\<lparr>Timeout := timeout\<rparr>"

definition exos_io_sync :: "(did \<Rightarrow> 'w io_driver) \<Rightarrow> io_entry \<Rightarrow> 'w \<Rightarrow> kernel \<Rightarrow> (int \<times> 'w \<times> kernel) res" where
  "exos_io_sync drv io w k =
     (case Driver io of
        None \<Rightarrow> Inl (Panic KERNEL_ERROR_NULL_POINTER)
      | Some d \<Rightarrow> (case Sync (drv d) of Some f \<Rightarrow> f io w k | None \<Rightarrow> Inr (- 1, w, k)))"

section \<open>Reading and writing\<close>

datatype io_call = IoDone int | IoWait nat wait_kind

text \<open>
  The head of the loop: the call waits when it may wait and is not complete.  \<open>fuel\<close>, \<open>elapsed\<close> and the
  numbers of the handles and of the timer are those of \<^verbatim>\<open>exos_event_wait\<close>.
\<close>

definition io_next ::
  "nat \<Rightarrow> u32 \<Rightarrow> hid \<Rightarrow> hid \<Rightarrow> tmid \<Rightarrow> eid \<Rightarrow> u32 \<Rightarrow> nat \<Rightarrow> nat \<Rightarrow> kernel \<Rightarrow> (io_call \<times> kernel) res" where
  "io_next fuel elapsed h th tm e timeout len d k =
     (if d < len
      then rbind (exos_event_wait_begin fuel elapsed h th tm e timeout k) (\<lambda>(kind, k1). Inr (IoWait d kind, k1))
      else Inr (IoDone (int d), k))"

definition exos_io_read_begin ::
  "(did \<Rightarrow> 'w io_driver) \<Rightarrow> nat \<Rightarrow> u32 \<Rightarrow> hid \<Rightarrow> hid \<Rightarrow> tmid \<Rightarrow> io_entry \<Rightarrow> nat \<Rightarrow> 'w \<Rightarrow> kernel \<Rightarrow>
     (io_call \<times> u8 list \<times> 'w \<times> kernel) res" where
  "exos_io_read_begin drv fuel elapsed h th tm io len w k =
     driver_fun drv Read io (\<lambda>rd.
       rbind (rd io len w k) (\<lambda>(res, bs, w1, k1).
         if res \<ge> 0 \<and> Timeout io \<noteq> 0
         then rbind (io_next fuel elapsed h th tm (InputEvent io) (Timeout io) len (nat res) k1)
                (\<lambda>(c, k2). Inr (c, bs, w1, k2))
         else Inr (IoDone res, bs, w1, k1)))"

definition exos_io_read_resume ::
  "(did \<Rightarrow> 'w io_driver) \<Rightarrow> nat \<Rightarrow> u32 \<Rightarrow> hid \<Rightarrow> hid \<Rightarrow> tmid \<Rightarrow> io_entry \<Rightarrow> nat \<Rightarrow> nat \<Rightarrow> wait_kind \<Rightarrow> u8 list \<Rightarrow> 'w \<Rightarrow> kernel \<Rightarrow>
     (io_call \<times> u8 list \<times> 'w \<times> kernel) res" where
  "exos_io_read_resume drv fuel elapsed h th tm io len d kind bs w k =
     rbind (exos_event_wait_end fuel elapsed h th tm kind k) (\<lambda>(got, k1).
       if \<not> got then Inr (IoDone (int d), bs, w, k1)
       else driver_fun drv Read io (\<lambda>rd.
         rbind (rd io (len - d) w k1) (\<lambda>(res, more, w2, k2).
           if res < 0 then Inr (IoDone res, bs @ more, w2, k2)
           else rbind (io_next fuel elapsed h th tm (InputEvent io) (Timeout io) len (d + nat res) k2)
                  (\<lambda>(c, k3). Inr (c, bs @ more, w2, k3)))))"

definition exos_io_write_begin ::
  "(did \<Rightarrow> 'w io_driver) \<Rightarrow> nat \<Rightarrow> u32 \<Rightarrow> hid \<Rightarrow> hid \<Rightarrow> tmid \<Rightarrow> io_entry \<Rightarrow> u8 list \<Rightarrow> 'w \<Rightarrow> kernel \<Rightarrow>
     (io_call \<times> 'w \<times> kernel) res" where
  "exos_io_write_begin drv fuel elapsed h th tm io buf w k =
     driver_fun drv Write io (\<lambda>wr.
       rbind (wr io buf w k) (\<lambda>(res, w1, k1).
         if res \<ge> 0 \<and> Timeout io \<noteq> 0
         then rbind (io_next fuel elapsed h th tm (OutputEvent io) (Timeout io) (length buf) (nat res) k1)
                (\<lambda>(c, k2). Inr (c, w1, k2))
         else Inr (IoDone res, w1, k1)))"

definition exos_io_write_resume ::
  "(did \<Rightarrow> 'w io_driver) \<Rightarrow> nat \<Rightarrow> u32 \<Rightarrow> hid \<Rightarrow> hid \<Rightarrow> tmid \<Rightarrow> io_entry \<Rightarrow> u8 list \<Rightarrow> nat \<Rightarrow> wait_kind \<Rightarrow> 'w \<Rightarrow> kernel \<Rightarrow>
     (io_call \<times> 'w \<times> kernel) res" where
  "exos_io_write_resume drv fuel elapsed h th tm io buf d kind w k =
     rbind (exos_event_wait_end fuel elapsed h th tm kind k) (\<lambda>(got, k1).
       if \<not> got then Inr (IoDone (int d), w, k1)
       else driver_fun drv Write io (\<lambda>wr.
         rbind (wr io (drop d buf) w k1) (\<lambda>(res, w2, k2).
           if res < 0 then Inr (IoDone res, w2, k2)
           else rbind (io_next fuel elapsed h th tm (OutputEvent io) (Timeout io) (length buf) (d + nat res) k2)
                  (\<lambda>(c, k3). Inr (c, w2, k3)))))"

section \<open>What a write transfers\<close>

text \<open>
  The contract of a driver's write function: it accepts a prefix of what it is offered, and the
  result is the length of that prefix or a negative error.  \<open>sent\<close> reads the bytes accepted so far
  off the device state.
\<close>

definition write_law ::
  "(io_entry \<Rightarrow> u8 list \<Rightarrow> 'w \<Rightarrow> kernel \<Rightarrow> (int \<times> 'w \<times> kernel) res) \<Rightarrow> ('w \<Rightarrow> u8 list) \<Rightarrow> bool" where
  "write_law wr sent \<longleftrightarrow> (\<forall>io buf w k n w' k'. wr io buf w k = Inr (n, w', k') \<longrightarrow>
     n \<le> int (length buf) \<and> sent w' = sent w @ take (nat n) buf)"

definition call_ok :: "('w \<Rightarrow> u8 list) \<Rightarrow> u8 list \<Rightarrow> u8 list \<Rightarrow> io_call \<Rightarrow> 'w \<Rightarrow> bool" where
  "call_ok sent before buf c w \<longleftrightarrow>
     (case c of
        IoDone n \<Rightarrow> n < 0 \<or> (n \<le> int (length buf) \<and> sent w = before @ take (nat n) buf)
      | IoWait d _ \<Rightarrow> d < length buf \<and> sent w = before @ take d buf)"

text \<open>
  A write call from its start: every time it is resumed, the kernel may be in any state that the
  other threads left and the device may have gone on working on the bytes it accepted.
\<close>

inductive io_write_run ::
  "(did \<Rightarrow> 'w io_driver) \<Rightarrow> ('w \<Rightarrow> u8 list) \<Rightarrow> io_entry \<Rightarrow> u8 list \<Rightarrow> 'w \<Rightarrow> io_call \<Rightarrow> 'w \<Rightarrow> bool"
  for drv sent io buf w0 where
  start: "exos_io_write_begin drv fuel elapsed h th tm io buf w0 k = Inr (c, w, k') \<Longrightarrow> io_write_run drv sent io buf w0 c w"
| resume: "io_write_run drv sent io buf w0 (IoWait d kind) w \<Longrightarrow> sent w1 = sent w \<Longrightarrow>
     exos_io_write_resume drv fuel elapsed h th tm io buf d kind w1 k = Inr (c, w2, k') \<Longrightarrow>
     io_write_run drv sent io buf w0 c w2"

lemma driver_fun_eq: "Driver io = Some d \<Longrightarrow> sel (drv d) = Some f \<Longrightarrow> driver_fun drv sel io k = k f"
  by (simp add: driver_fun_def)

lemma io_next_ok:
  assumes "io_next fuel elapsed h th tm e timeout (length buf) d k = Inr (c, k')"
    "d \<le> length buf" "sent w = before @ take d buf"
  shows "call_ok sent before buf c w"
  using assms by (auto simp: io_next_def call_ok_def res_elims split: if_splits)

lemma write_begin_ok:
  assumes "write_law wr sent" "Driver io = Some d" "Write (drv d) = Some wr"
    "exos_io_write_begin drv fuel elapsed h th tm io buf w k = Inr (c, w', k')"
  shows "call_ok sent (sent w) buf c w'"
proof -
  obtain res w1 k1 where r: "wr io buf w k = Inr (res, w1, k1)" and
    n: "(if res \<ge> 0 \<and> Timeout io \<noteq> 0
         then rbind (io_next fuel elapsed h th tm (OutputEvent io) (Timeout io) (length buf) (nat res) k1) (\<lambda>(c, k2). Inr (c, w1, k2))
         else Inr (IoDone res, w1, k1)) = Inr (c, w', k')"
    using assms(4) unfolding exos_io_write_begin_def driver_fun_eq[of io d "Write" drv, OF assms(2,3)]
    by (auto simp: res_elims)
  have "res \<le> int (length buf)" "sent w1 = sent w @ take (nat res) buf"
    using assms(1) r unfolding write_law_def by blast+
  then show ?thesis using n io_next_ok[of fuel elapsed h th tm _ _ buf "nat res" k1 c _ sent w1]
    by (auto simp: res_elims call_ok_def split: if_splits)
qed

lemma write_resume_ok:
  assumes "write_law wr sent" "Driver io = Some d" "Write (drv d) = Some wr" "call_ok sent before buf (IoWait n kind) w"
    "exos_io_write_resume drv fuel elapsed h th tm io buf n kind w k = Inr (c, w', k')"
  shows "call_ok sent before buf c w'"
proof -
  have w: "n < length buf" "sent w = before @ take n buf" using assms(4) by (simp_all add: call_ok_def)
  obtain got k1 where e: "exos_event_wait_end fuel elapsed h th tm kind k = Inr (got, k1)"
    using assms(5) by (auto simp: exos_io_write_resume_def res_elims)
  show ?thesis
  proof (cases got)
    case False
    then show ?thesis using assms(5) e w by (auto simp: exos_io_write_resume_def call_ok_def)
  next
    case True
    then obtain res w2 k2 where r: "wr io (drop n buf) w k1 = Inr (res, w2, k2)" and
      n: "(if res < 0 then Inr (IoDone res, w2, k2)
           else rbind (io_next fuel elapsed h th tm (OutputEvent io) (Timeout io) (length buf) (n + nat res) k2)
                  (\<lambda>(c, k3). Inr (c, w2, k3))) = Inr (c, w', k')"
      using assms(5) e unfolding exos_io_write_resume_def driver_fun_eq[of io d "Write" drv, OF assms(2,3)]
      by (auto simp: res_elims)
    have l: "res \<le> int (length (drop n buf))" "sent w2 = sent w @ take (nat res) (drop n buf)"
      using assms(1) r unfolding write_law_def by blast+
    then have "n + nat res \<le> length buf" "sent w2 = before @ take (n + nat res) buf"
      using w by (auto simp: take_add)
    then show ?thesis using n io_next_ok[of fuel elapsed h th tm _ _ buf "n + nat res" k2 c _ sent w2]
      by (auto simp: res_elims call_ok_def split: if_splits)
  qed
qed

text \<open>A driver that queues the bytes in an io buffer, with the bytes accepted so far as a record of its own.\<close>

definition buffer_write ::
  "io_entry \<Rightarrow> u8 list \<Rightarrow> io_buffer_t \<times> u8 list \<Rightarrow> kernel \<Rightarrow> (int \<times> (io_buffer_t \<times> u8 list) \<times> kernel) res" where
  "buffer_write io buf w k =
     rbind (exos_io_buffer_write buf (fst w) k) (\<lambda>(n, b, k1).
       Inr (int (min n (length buf)), (b, snd w @ take n buf), k1))"

definition buffer_driver :: "(io_buffer_t \<times> u8 list) io_driver" where
  "buffer_driver = \<lparr>Open = None, Close = None, Read = None, Write = Some buffer_write, Sync = None\<rparr>"

lemma buffer_write_law: "write_law buffer_write snd"
  by (auto simp: write_law_def buffer_write_def res_elims min_def)

definition sample_entry :: io_entry where
  "sample_entry = fst (io_create (Ev 0) (Ev 1) (Some 0) 0 0 sample_kernel)"

text \<open>C22: an \<^verbatim>\<open>exos_io_write\<close> call that returns a count has handed exactly that many bytes
  of the buffer to the driver, in order and without repetition, however often it waited; the count
  never exceeds the length of the buffer.\<close>

theorem io_write_transfers:
  assumes "io_write_run drv sent io buf w0 (IoDone n) w" "0 \<le> n"
    and "write_law wr sent" "Driver io = Some d" "Write (drv d) = Some wr"
  shows "n \<le> int (length buf) \<and> sent w = sent w0 @ take (nat n) buf"
proof -
  have "call_ok sent (sent w0) buf c w" if "io_write_run drv sent io buf w0 c w" for c w
    using that
  proof (induction rule: io_write_run.induct)
    case start
    then show ?case using write_begin_ok[where drv = drv, OF assms(3-5)] by blast
  next
    case (resume d kind w w1)
    then have "call_ok sent (sent w0) buf (IoWait d kind) w1" by (simp add: call_ok_def)
    then show ?case using write_resume_ok[where drv = drv, OF assms(3-5)] resume.hyps(3) by blast
  qed
  from this[OF assms(1)] show ?thesis using assms(2) by (simp add: call_ok_def)
qed

theorem io_write_transfers_witness:
  "\<exists>n w. io_write_run (\<lambda>_. buffer_driver) snd sample_entry [1, 2] (sample_buffer, []) (IoDone n) w \<and>
     n \<le> 2 \<and> snd w = take (nat n) [1, 2]"
proof -
  obtain n b k' where r: "exos_io_buffer_write [1, 2] sample_buffer sample_kernel = Inr (n, b, k')"
    using io_buffer_write_spec[OF sample_kernel_wf, of sample_buffer "[1, 2]"] by (auto simp: iob_ok_def sample_buffer_def)
  have "exos_io_write_begin (\<lambda>_. buffer_driver) 0 0 0 0 0 sample_entry [1, 2] (sample_buffer, []) sample_kernel =
      Inr (IoDone (int (min n 2)), (b, take n [1, 2]), k')"
    using r by (simp add: exos_io_write_begin_def driver_fun_def sample_entry_def io_create_def buffer_driver_def buffer_write_def)
  from io_write_run.start[OF this, of snd]
  show ?thesis
    using io_write_transfers[OF _ _ buffer_write_law, of "\<lambda>_. buffer_driver" sample_entry "[1, 2]" "(sample_buffer, [])"
        "int (min n 2)" "(b, take n [1, 2])" 0]
    by (intro exI[of _ "int (min n 2)"] exI[of _ "(b, take n [1, 2])"])
      (simp add: sample_entry_def io_create_def buffer_driver_def)
qed

end
