(* ===== verification/Datetime.thy ===== *)
theory Datetime
  imports Hal
begin

text \<open>
  Dates (\<^verbatim>\<open>exos/kernel/datetime.c\<close>).  Intermediate results are C integers, modelled as
  mathematical integers with C's truncating division; the fields of a date are bytes and a
  half-word, so an assignment keeps the low bits.
\<close>

unbundle bit_operations_syntax

record EXOS_DATETIME =
  Seconds :: u8
  Minutes :: u8
  Hours :: u8
  DayOfWeek :: u8
  Day :: u8
  Month :: u8
  Year :: u16

record EXOS_TIMESPAN =
  TDays :: int
  Milliseconds :: int

section \<open>Names\<close>

definition lit :: "string \<Rightarrow> cstring" where
  "lit s = map of_char s"

definition exos_datetime_day_name :: "nat \<Rightarrow> cstring" where
  "exos_datetime_day_name d =
     (if d < 7 then map lit [''Sunday'', ''Monday'', ''Tuesday'', ''Wednesday'', ''Thursday'', ''Friday'', ''Saturday''] ! d
      else lit ''Undefined'')"

definition exos_datetime_month_name :: "int \<Rightarrow> cstring" where
  "exos_datetime_month_name m =
     (if m > 0 \<and> m \<le> 12
      then map lit [''January'', ''February'', ''March'', ''April'', ''May'', ''June'', ''July'', ''August'',
                    ''September'', ''October'', ''November'', ''December''] ! nat (m - 1)
      else lit ''Undefined'')"

section \<open>Days and dates\<close>

definition biy :: "int \<Rightarrow> bool" where
  "biy year = (if year AND 3 \<noteq> 0 then True else if crem year 100 \<noteq> 0 then True else crem year 400 = 0)"

text \<open>The cases of the switch fall through: month \<open>m\<close> adds the months before it.\<close>

definition exos_datetime_day_of_year :: "EXOS_DATETIME \<Rightarrow> int" where
  "exos_datetime_day_of_year dt =
     (let m = uint (Month dt); upto = (\<lambda>n. n \<le> m \<and> m \<le> 12);
          d0 = (if upto 12 then 30 else 0);
          d1 = d0 + (if upto 11 then 31 else 0);
          d2 = d1 + (if upto 10 then 30 else 0);
          d3 = d2 + (if upto 9 then 31 else 0);
          d4 = d3 + (if upto 8 then 31 else 0);
          d5 = d4 + (if upto 7 then 30 else 0);
          d6 = d5 + (if upto 6 then 31 else 0);
          d7 = d6 + (if upto 5 then 30 else 0);
          d8 = d7 + (if upto 4 then 31 else 0);
          d9 = d8 + (if upto 3 then (if biy (uint (Year dt)) then 29 else 28) else 0);
          d10 = d9 + (if upto 2 then 31 else 0)
      in d10 + (uint (Day dt) - 1))"

definition date2days :: "EXOS_DATETIME \<Rightarrow> int" where
  "date2days dt =
     (let years = uint (Year dt) - 1; ry = years;
          qc = cdiv ry 400; ry = crem ry 400;
          c = cdiv ry 100; ry = crem ry 100;
          by' = cdiv ry 4;
          days = (97 * qc + 24 * c + by') + years * 365
      in days + exos_datetime_day_of_year dt)"

text \<open>
  \<^verbatim>\<open>_days2date\<close>: the nested conditionals test a bound and subtract a length; the chain stops
  at the first test that fails.
\<close>

fun month_chain :: "(int \<times> int) list \<Rightarrow> int \<Rightarrow> int \<Rightarrow> int \<times> int" where
  "month_chain [] month days = (month, days)"
| "month_chain ((bound, len) # rest) month days =
     (if days \<ge> bound then month_chain rest (month + 1) (days - len) else (month, days))"

definition month_table :: "int \<Rightarrow> (int \<times> int) list" where
  "month_table feb_days =
     [(31, 31), (feb_days, feb_days), (31, 31), (30, 30), (31, 31), (30, 30), (31, 31), (30, 31), (30, 30), (30, 31), (30, 30)]"

definition days2date :: "int \<Rightarrow> EXOS_DATETIME \<Rightarrow> EXOS_DATETIME" where
  "days2date days0 dt =
     (let dow = word_of_int (crem (days0 + 1) 7);
          y0 = (1 :: u16);
          y1 = y0 + word_of_int (cdiv days0 146097 * 400); days1 = crem days0 146097;
          y2 = y1 + word_of_int (cdiv days1 36524 * 100); days2 = crem days1 36524;
          y3 = y2 + word_of_int (cdiv days2 1461 * 4); days3 = crem days2 1461;
          y4 = y3 + word_of_int (cdiv days3 365); days4 = crem days3 365;
          feb_days = (if biy (uint y4) then 29 else 28);
          (month, days) = month_chain (month_table feb_days) 1 days4
      in dt\<lparr>DayOfWeek := dow, Year := y4, Month := word_of_int month, Day := word_of_int (days + 1)\<rparr>)"

section \<open>Moving a date\<close>

definition divrem :: "int \<Rightarrow> int \<Rightarrow> int \<times> int" where
  "divrem d m =
     (if d < 0
      then let q = cdiv d m; rem = crem d m in if rem \<noteq> 0 then (q - 1, rem + m) else (q, rem)
      else if d \<ge> m then (cdiv d m, crem d m)
      else (0, d))"

definition seek :: "EXOS_DATETIME \<Rightarrow> int \<Rightarrow> EXOS_DATETIME \<Rightarrow> EXOS_DATETIME" where
  "seek date1 secs date2 =
     (let (delta, s) = divrem (uint (Seconds date1) + secs) 60;
          date2 = date2\<lparr>Seconds := word_of_int s\<rparr>;
          (delta, m) = divrem (delta + uint (Minutes date1)) 60;
          date2 = date2\<lparr>Minutes := word_of_int m\<rparr>;
          (delta, h) = divrem (delta + uint (Hours date1)) 24;
          date2 = date2\<lparr>Hours := word_of_int h\<rparr>
      in days2date (delta + date2days date1) date2)"

definition exos_datetime_seek :: "EXOS_DATETIME \<Rightarrow> EXOS_TIMESPAN \<Rightarrow> EXOS_DATETIME \<Rightarrow> EXOS_DATETIME" where
  "exos_datetime_seek base elapsed target =
     seek base (cdiv (Milliseconds elapsed) 1000 + TDays elapsed * (24 * 60 * 60)) target"

text \<open>The static variables: the date of the start of the system and the seconds since.\<close>

record clock =
  boot :: EXOS_DATETIME
  secs_up :: int

definition exos_datetime_boot_setup :: "EXOS_DATETIME \<Rightarrow> clock \<Rightarrow> clock" where
  "exos_datetime_boot_setup dt c = c\<lparr>boot := seek dt (- secs_up c) (boot c)\<rparr>"

definition exos_datetime_now :: "EXOS_DATETIME \<Rightarrow> clock \<Rightarrow> EXOS_DATETIME" where
  "exos_datetime_now dt c = seek (boot c) (secs_up c) dt"

definition timer_second_tick :: "clock \<Rightarrow> clock" where
  "timer_second_tick c = c\<lparr>secs_up := secs_up c + 1\<rparr>"

section \<open>Floor division\<close>

lemma cdiv_nonneg: "0 \<le> a \<Longrightarrow> 0 < b \<Longrightarrow> cdiv a b = a div b" "0 \<le> a \<Longrightarrow> 0 < b \<Longrightarrow> crem a b = a mod b"
  by (cases "a = 0"; simp add: cdiv_def crem_def)+

lemma cdiv_crem_neg:
  assumes "d < 0" "0 < m"
  shows "d = cdiv d m * m + crem d m" "- m < crem d m" "crem d m \<le> 0"
proof -
  have "cdiv d m * m = - ((- d) div m * m)" "crem d m = - ((- d) mod m)" using assms by (simp_all add: cdiv_def crem_def)
  then show "d = cdiv d m * m + crem d m" using div_mult_mod_eq[of "- d" m] by linarith
  have "0 \<le> (- d) mod m" "(- d) mod m < m" using assms by simp_all
  then show "- m < crem d m" "crem d m \<le> 0" using assms by (simp_all add: crem_def)
qed

lemma div_mod_unique: "(d :: int) = q * m + r \<Longrightarrow> 0 \<le> r \<Longrightarrow> r < m \<Longrightarrow> d div m = q \<and> d mod m = r"
  by (metis div_pos_pos_trivial mod_div_trivial mod_mult_self3 mod_pos_pos_trivial div_mult_self3 add.commute add_0 not_le order_trans less_le_not_le)

lemma divrem_floor: "0 < m \<Longrightarrow> divrem d m = (d div m, d mod m)"
proof -
  assume m: "0 < m"
  consider "d < 0" "crem d m = 0" | "d < 0" "crem d m \<noteq> 0" | "0 \<le> d" "d < m" | "m \<le> d" by linarith
  then show ?thesis
  proof cases
    case 1
    then show ?thesis using div_mod_unique[of d "cdiv d m" m 0] cdiv_crem_neg[OF 1(1) m] m by (simp add: divrem_def)
  next
    case 2
    have "d = (cdiv d m - 1) * m + (crem d m + m)" using cdiv_crem_neg(1)[OF 2(1) m] by (simp add: algebra_simps)
    then show ?thesis using div_mod_unique[of d "cdiv d m - 1" m "crem d m + m"] cdiv_crem_neg(2,3)[OF 2(1) m] 2
      by (simp add: divrem_def)
  next
    case 3
    then show ?thesis by (simp add: divrem_def)
  next
    case 4
    then show ?thesis using m by (simp add: divrem_def cdiv_nonneg)
  qed
qed

section \<open>The time of day\<close>

definition tod :: "EXOS_DATETIME \<Rightarrow> int" where
  "tod dt = uint (Hours dt) * 3600 + uint (Minutes dt) * 60 + uint (Seconds dt)"

lemma days2date_keeps [simp]:
  "Seconds (days2date n dt) = Seconds dt" "Minutes (days2date n dt) = Minutes dt" "Hours (days2date n dt) = Hours dt"
  by (simp_all add: days2date_def Let_def case_prod_beta)

lemma hms_split:
  fixes t :: int
  shows "(t div 60 mod 60) * 60 + t mod 60 = t mod 3600" "(t div 3600 mod 24) * 3600 + t mod 3600 = t mod 86400"
proof -
  have "t mod (60 * 60) = 60 * (t div 60 mod 60) + t mod 60" by (rule zmod_zmult2_eq) simp
  then show "(t div 60 mod 60) * 60 + t mod 60 = t mod 3600" by simp
  have "t mod (3600 * 24) = 3600 * (t div 3600 mod 24) + t mod 3600" by (rule zmod_zmult2_eq) simp
  then show "(t div 3600 mod 24) * 3600 + t mod 3600 = t mod 86400" by simp
qed

lemma u8_exact: "0 \<le> n \<Longrightarrow> n < 256 \<Longrightarrow> uint (word_of_int n :: u8) = n"
  by (simp add: uint_word_of_int_eq take_bit_eq_mod)

lemma seek_eq:
  fixes d :: EXOS_DATETIME and secs :: int
  defines "t \<equiv> tod d + secs"
  shows "seek d secs d2 = days2date (t div 86400 + date2days d)
    (d2\<lparr>Seconds := word_of_int (t mod 60), Minutes := word_of_int (t div 60 mod 60), Hours := word_of_int (t div 3600 mod 24)\<rparr>)"
proof -
  let ?S = "uint (Seconds d)" and ?M = "uint (Minutes d)" and ?H = "uint (Hours d)"
  have t: "t = (?S + secs) + (?M + ?H * 60) * 60" by (simp add: t_def tod_def)
  have t1: "t mod 60 = (?S + secs) mod 60" "t div 60 = (?S + secs) div 60 + ?M + ?H * 60" 
    unfolding t using div_mult_self1[of 60 "?S + secs" "?M + ?H * 60"] by (simp_all only: mod_mult_self1)
  have q: "t div 3600 = t div 60 div 60" by (simp add: zdiv_zmult2_eq[of 60 t 60, simplified, symmetric])
  have t2: "t div 60 mod 60 = ((?S + secs) div 60 + ?M) mod 60" "t div 3600 = ((?S + secs) div 60 + ?M) div 60 + ?H"
    unfolding q t1(2) by simp_all
  have "t div 86400 = t div 3600 div 24" by (simp add: zdiv_zmult2_eq[of 24 t 3600, simplified, symmetric])
  then have t3: "t div 86400 = (((?S + secs) div 60 + ?M) div 60 + ?H) div 24" unfolding t2(2) .
  have fl: "divrem x 60 = (x div 60, x mod 60)" "divrem x 24 = (x div 24, x mod 24)" for x by (simp_all add: divrem_floor)
  show ?thesis
    unfolding seek_def Let_def fl prod.case t3 t2 t1(1) ..
qed

lemma tod_seek: "tod (seek d secs d2) = (tod d + secs) mod 86400"
proof -
  let ?t = "tod d + secs"
  have "0 \<le> ?t mod 60" "?t mod 60 < 60" "0 \<le> ?t div 60 mod 60" "?t div 60 mod 60 < 60" "0 \<le> ?t div 3600 mod 24" "?t div 3600 mod 24 < 24"
    by simp_all
  then have "tod (seek d secs d2) = ?t div 3600 mod 24 * 3600 + ?t div 60 mod 60 * 60 + ?t mod 60"
    unfolding seek_eq tod_def days2date_keeps by (simp add: u8_exact)
  then show ?thesis using hms_split[of ?t] by linarith
qed

section \<open>Theorems\<close>

definition leap :: "int \<Rightarrow> bool" where
  "leap y \<longleftrightarrow> 4 dvd y \<and> (\<not> 100 dvd y \<or> 400 dvd y)"

definition month_lengths :: "int \<Rightarrow> int list" where
  "month_lengths y = [31, if leap y then 29 else 28, 31, 30, 31, 30, 31, 31, 30, 31, 30, 31]"

definition day_of_year :: "EXOS_DATETIME \<Rightarrow> int" where
  "day_of_year dt = sum_list (take (unat (Month dt) - 1) (month_lengths (uint (Year dt)))) + (uint (Day dt) - 1)"

lemma and_3: "(y :: int) AND 3 = y mod 4"
proof -
  have m: "(3 :: int) = mask 2" by (simp add: mask_eq_exp_minus_1)
  show ?thesis unfolding m take_bit_eq_mask[symmetric] take_bit_eq_mod by simp
qed

lemma biy_iff: "0 \<le> y \<Longrightarrow> biy y \<longleftrightarrow> \<not> (100 dvd y \<and> \<not> 400 dvd y)"
proof -
  assume "0 \<le> y"
  then have "biy y \<longleftrightarrow> \<not> 4 dvd y \<or> \<not> 100 dvd y \<or> 400 dvd y"
    by (simp add: biy_def and_3 cdiv_nonneg dvd_eq_mod_eq_0)
  moreover have "100 dvd y \<Longrightarrow> 4 dvd y" by (rule dvd_trans[of 4 100]) simp_all
  ultimately show ?thesis by blast
qed

lemma month_cases:
  assumes "1 \<le> m" "m \<le> (12 :: u8)"
  shows "m \<in> set [1, 2, 3, 4, 5, 6, 7, 8, 9, 10, 11, 12]"
proof -
  have "unat m \<in> {1..12}" using assms by (simp add: word_le_nat_alt)
  then have "unat m \<in> set [1..<13]" by auto
  then have "of_nat (unat m) \<in> set (map of_nat [1..<13] :: u8 list)" unfolding set_map by (rule imageI)
  then show ?thesis by (simp add: upt_rec)
qed

text \<open>The division used to carry from seconds to minutes, hours and days is the floor division,
  for negative differences as well.\<close>

theorem divrem_is_floor:
  assumes "0 < m"
  shows "divrem d m = (d div m, d mod m)"
  using divrem_floor[OF assms] .

theorem divrem_is_floor_witness: "divrem (- 61) 60 = (- 2, 59)"
  using divrem_is_floor[of 60 "- 61"] by simp

text \<open>Moving a date by any number of seconds, forwards or backwards, moves the time of day by that
  number modulo one day.\<close>

theorem seek_time_of_day: "tod (seek d secs d2) = (tod d + secs) mod 86400"
  by (rule tod_seek)

text \<open>After the clock was set to a date, reading it gives the time of day of that date moved by the
  seconds that have passed since, whatever the clock showed before.\<close>

theorem clock_setup_now:
  assumes "0 \<le> n"
  shows "tod (exos_datetime_now dt ((timer_second_tick ^^ nat n) (exos_datetime_boot_setup d c))) = (tod d + n) mod 86400"
proof -
  have "(timer_second_tick ^^ k) c = c\<lparr>secs_up := secs_up c + int k\<rparr>" for k c
    by (induction k arbitrary: c) (simp_all add: timer_second_tick_def)
  then show ?thesis
    using assms mod_add_left_eq[of "tod d - secs_up c" 86400 "secs_up c + n"]
    by (simp add: exos_datetime_now_def exos_datetime_boot_setup_def tod_seek)
qed

theorem clock_setup_now_witness:
  "\<exists>d c. tod d = 86399 \<and> tod (exos_datetime_now d ((timer_second_tick ^^ nat 2) (exos_datetime_boot_setup d c))) = 1"
proof -
  let ?d = "\<lparr>Seconds = 59, Minutes = 59, Hours = 23, DayOfWeek = 0, Day = 1, Month = 1, Year = 2000\<rparr>"
  have "tod ?d = 86399" by (simp add: tod_def)
  then show ?thesis using clock_setup_now[of 2 ?d ?d] by (intro exI[of _ ?d]) auto
qed

text \<open>\<^verbatim>\<open>exos_datetime_day_of_year\<close> counts one day too many after February in every year that is
  not a leap year, except in the years divisible by 100: the leap year test \<^verbatim>\<open>_biy\<close> is true
  for all years but those.\<close>

theorem day_of_year_off_by_one:
  assumes "1 \<le> Month dt" "Month dt \<le> 12"
  shows "exos_datetime_day_of_year dt = day_of_year dt +
    (if Month dt > 2 \<and> \<not> leap (uint (Year dt)) \<and> \<not> 100 dvd uint (Year dt) then 1 else 0)"
proof -
  have b: "biy (uint (Year dt)) \<longleftrightarrow> leap (uint (Year dt)) \<or> \<not> 100 dvd uint (Year dt)"
    using biy_iff[of "uint (Year dt)"] dvd_trans[of 4 100 "uint (Year dt)"] by (auto simp: leap_def)
  show ?thesis
    using month_cases[OF assms] unfolding set_simps insert_iff empty_iff
    by (elim disjE) (simp_all add: exos_datetime_day_of_year_def day_of_year_def month_lengths_def b)
qed

theorem day_of_year_off_by_one_witness:
  "\<exists>dt. Month dt = 3 \<and> Day dt = 1 \<and> Year dt = 2023 \<and> day_of_year dt = 59 \<and> exos_datetime_day_of_year dt = 60"
proof -
  let ?d = "\<lparr>Seconds = 0, Minutes = 0, Hours = 0, DayOfWeek = 0, Day = 1, Month = 3, Year = 2023\<rparr>"
  have "day_of_year ?d = 59" by (simp add: day_of_year_def month_lengths_def leap_def)
  then show ?thesis using day_of_year_off_by_one[of ?d] by (intro exI[of _ ?d]) (simp add: leap_def)
qed

text \<open>Moving a date by no time at all is not the identity: the 31st of August comes back as day 0 of
  September, because the bound tested for August is 30 and its length 31.\<close>

theorem august_31_lost:
  "seek \<lparr>Seconds = 1, Minutes = 2, Hours = 3, DayOfWeek = 0, Day = 31, Month = 8, Year = 2021\<rparr> 0 d2 =
     d2\<lparr>Seconds := 1, Minutes := 2, Hours := 3, DayOfWeek := 3, Day := 0, Month := 9, Year := 2021\<rparr>"
proof -
  let ?d = "\<lparr>Seconds = 1, Minutes = 2, Hours = 3, DayOfWeek = 0, Day = 31, Month = 8, Year = 2021\<rparr> :: EXOS_DATETIME"
  have "biy 2021" by (simp add: biy_def and_3)
  then have "date2days ?d = 738033" by (simp add: date2days_def exos_datetime_day_of_year_def cdiv_def crem_def)
  moreover have "month_chain (month_table 29) 1 243 = (9, - 1)" by (simp add: month_table_def)
  then have "days2date 738033 x = x\<lparr>DayOfWeek := 3, Year := 2021, Month := 9, Day := 0\<rparr>" for x
    using \<open>biy 2021\<close> by (simp add: days2date_def cdiv_def crem_def)
  moreover have "tod ?d = 10921" by (simp add: tod_def)
  ultimately show ?thesis by (simp add: seek_eq)
qed

end
