(* ===== verification/Posix.thy ===== *)
theory Posix
  imports Hal
begin

text \<open>
  The string, number and address functions of the C library layer
  (\<^verbatim>\<open>exos/kernel/posix/string.c\<close>, \<^verbatim>\<open>stdlib.c\<close>, \<^verbatim>\<open>arpa_inet.c\<close>) and the
  checksums of \<^verbatim>\<open>support/misc/crc16.c\<close>.  The targets are little-endian.
\<close>

unbundle bit_operations_syntax

section \<open>Strings\<close>

fun strlen :: "cstring \<Rightarrow> nat" where
  "strlen [] = 0"
| "strlen (c # cs) = (if c = 0 then 0 else Suc (strlen cs))"

definition strcmp :: "cstring \<Rightarrow> cstring \<Rightarrow> int" where
  "strcmp s1 s2 = str_comp s1 s2"

definition strcpy :: "u8 list \<Rightarrow> cstring \<Rightarrow> u8 list" where
  "strcpy dest src = snd (str_copy dest src (2 ^ 32 - 1))"

fun strncmp_loop :: "cstring \<Rightarrow> cstring \<Rightarrow> nat \<Rightarrow> nat \<Rightarrow> int" where
  "strncmp_loop str1 str2 index 0 = 0"
| "strncmp_loop str1 str2 index (Suc n) =
     (let c1 = char_at str1 index; c2 = char_at str2 index
      in if c1 = c2 then (if c1 = 0 then 0 else strncmp_loop str1 str2 (index + 1) n)
         else if c1 < c2 then - 1 else 1)"

definition strncmp :: "cstring \<Rightarrow> cstring \<Rightarrow> nat \<Rightarrow> int" where
  "strncmp str1 str2 num = strncmp_loop str1 str2 0 num"

text \<open>\<^verbatim>\<open>strncpy\<close>: copy up to the terminator, then fill with zeros; no terminator when the source is longer.\<close>

fun strncpy_loop :: "u8 list \<Rightarrow> cstring \<Rightarrow> nat \<Rightarrow> nat \<Rightarrow> u8 list" where
  "strncpy_loop dest src len 0 = dest"
| "strncpy_loop dest src len (Suc n) =
     (let c = char_at src len; dest1 = dest[len := c]
      in if c = 0 then fold (\<lambda>i d. d[i := 0]) [len + 1..<len + 1 + n] dest1
         else strncpy_loop dest1 src (len + 1) n)"

definition strncpy :: "u8 list \<Rightarrow> cstring \<Rightarrow> nat \<Rightarrow> u8 list" where
  "strncpy dest src num = strncpy_loop dest src 0 num"

section \<open>Numbers\<close>

text \<open>\<^verbatim>\<open>strtol\<close>: the value and how far the end pointer moves; only base 10 is there.\<close>

definition strtol :: "cstring \<Rightarrow> int \<Rightarrow> (u32 \<times> nat) res" where
  "strtol nptr base =
     (if base = 10 then case decl_int nptr of (off, v) \<Rightarrow> Inr (v, off) else Inl (Panic KERNEL_ERROR_NOT_IMPLEMENTED))"

definition atoi :: "cstring \<Rightarrow> u32 res" where
  "atoi str = rbind (strtol str 10) (\<lambda>(v, _). Inr v)"

section \<open>Addresses\<close>

definition octets32 :: "u32 \<Rightarrow> u8 list" where
  "octets32 v = [ucast (drop_bit 24 v), ucast (drop_bit 16 v), ucast (drop_bit 8 v), ucast v]"

text \<open>Reading an array of bytes through a pointer to a word: the first byte is the lowest.\<close>

definition le32 :: "u8 list \<Rightarrow> u32" where
  "le32 bs = ucast (bs ! 0) OR push_bit 8 (ucast (bs ! 1)) OR push_bit 16 (ucast (bs ! 2)) OR push_bit 24 (ucast (bs ! 3))"

definition le_bytes32 :: "u32 \<Rightarrow> u8 list" where
  "le_bytes32 v = [ucast v, ucast (drop_bit 8 v), ucast (drop_bit 16 v), ucast (drop_bit 24 v)]"

definition htonl :: "u32 \<Rightarrow> u32" where
  "htonl v = le32 (octets32 v)"

definition htons :: "u16 \<Rightarrow> u16" where
  "htons v = (let octets = [ucast (drop_bit 8 v), ucast v] :: u8 list
              in ucast (octets ! 0) OR push_bit 8 (ucast (octets ! 1)))"

definition ntohl :: "u32 \<Rightarrow> u32" where
  "ntohl v = (let b = le_bytes32 v
              in push_bit 24 (ucast (b ! 0)) OR push_bit 16 (ucast (b ! 1)) OR push_bit 8 (ucast (b ! 2)) OR ucast (b ! 3))"

definition ntohs :: "u16 \<Rightarrow> u16" where
  "ntohs v = (let b = [ucast v, ucast (drop_bit 8 v)] :: u8 list in push_bit 8 (ucast (b ! 0)) OR ucast (b ! 1))"

definition dot :: u8 where "dot = 46"

text \<open>One component: its value and the rest of the string behind the expected separator.\<close>

definition inet_part :: "u8 \<Rightarrow> cstring \<Rightarrow> (u32 \<times> cstring) option" where
  "inet_part sep s =
     (case decl_uint s of (k, v) \<Rightarrow>
        if k \<noteq> 0 \<and> v < 256 \<and> char_at s k = sep then Some (v, drop (k + 1) s) else None)"

definition inet_addr :: "cstring \<Rightarrow> u32" where
  "inet_addr s =
     (case inet_part dot s of None \<Rightarrow> 0 | Some (a, s1) \<Rightarrow>
       (case inet_part dot s1 of None \<Rightarrow> 0 | Some (b, s2) \<Rightarrow>
         (case inet_part dot s2 of None \<Rightarrow> 0 | Some (c, s3) \<Rightarrow>
           (case inet_part 0 s3 of None \<Rightarrow> 0 | Some (d, _) \<Rightarrow>
             a OR push_bit 8 b OR push_bit 16 c OR push_bit 24 d))))"

section \<open>Checksums\<close>

definition crc16_shift :: "u16 \<Rightarrow> u16 \<Rightarrow> u16" where
  "crc16_shift poly acc = (if acc AND 0x8000 \<noteq> 0 then push_bit 1 acc XOR poly else push_bit 1 acc)"

definition crc16_initialize :: "u16 \<Rightarrow> u16 list" where
  "crc16_initialize poly = map (\<lambda>b. (crc16_shift poly ^^ 8) (push_bit 8 (of_nat b))) [0..<256]"

definition CRC16 :: "u16 list \<Rightarrow> u16 \<Rightarrow> u8 \<Rightarrow> u16" where
  "CRC16 table r data = push_bit 8 r XOR table ! unat (drop_bit 8 r XOR ucast data)"

definition crc16_do :: "u8 list \<Rightarrow> u16 list \<Rightarrow> u16" where
  "crc16_do data table = fold (\<lambda>d crc. CRC16 table crc d) data 0"

fun crc7_encode :: "nat \<Rightarrow> u8 \<Rightarrow> u8 \<Rightarrow> u8" where
  "crc7_encode 0 regval cc = regval AND 0x7f"
| "crc7_encode (Suc count) regval cc =
     (let r1 = push_bit 1 regval OR (if cc AND 0x80 \<noteq> 0 then 1 else 0);
          r2 = (if r1 AND 0x80 \<noteq> 0 then r1 XOR 0x9 else r1)
      in crc7_encode count r2 (push_bit 1 cc))"

definition crc7_do :: "u8 list \<Rightarrow> u8" where
  "crc7_do data =
     (let crc = fold (\<lambda>d crc. crc7_encode 8 crc d) data 0;
          crc = crc7_encode 7 crc 0
      in push_bit 1 crc OR 1)"

section \<open>Theorems\<close>

lemma strlen_c_string: "c_string s \<Longrightarrow> strlen s = length s"
  by (induction s) (auto simp: c_string_def)

lemma char_at_Suc: "char_at (c # s) (Suc i) = char_at s i"
  by (simp add: char_at_def)

lemma strncmp_loop_shift: "strncmp_loop (a # s) (b # t) (Suc i) n = strncmp_loop s t i n"
  by (induction n arbitrary: i) (simp_all add: char_at_Suc Let_def)

text \<open>\<^verbatim>\<open>strncmp\<close> compares the strings cut to the given length.\<close>

lemma strncmp_take: "strncmp s t n = str_comp (take n s) (take n t)"
proof (induction n arbitrary: s t)
  case 0
  then show ?case by (simp add: strncmp_def)
next
  case (Suc n)
  then show ?case
    by (cases s; cases t) (auto simp: strncmp_def char_at_def strncmp_loop_shift[of _ _ _ _ 0, simplified] word_gt_0)
qed

lemma le_bytes32_le32: "length bs = 4 \<Longrightarrow> le_bytes32 (le32 bs) = bs"
proof -
  assume "length bs = 4"
  then obtain a b c d where bs: "bs = [a, b, c, d]" by (auto simp: numeral_eq_Suc length_Suc_conv)
  have "ucast (le32 bs) = a" "ucast (drop_bit 8 (le32 bs)) = b" "ucast (drop_bit 16 (le32 bs)) = c"
    "ucast (drop_bit 24 (le32 bs)) = d"
    by (rule bit_word_eqI; auto simp: bs le32_def bit_simps dest: bit_imp_le_length)+
  then show ?thesis by (simp add: bs le_bytes32_def)
qed

lemma octets32_join:
  fixes v :: u32
  shows "push_bit 24 (ucast (ucast (drop_bit 24 v) :: u8)) OR push_bit 16 (ucast (ucast (drop_bit 16 v) :: u8)) OR
   push_bit 8 (ucast (ucast (drop_bit 8 v) :: u8)) OR ucast (ucast v :: u8) = v" (is "?l = v")
proof (rule bit_word_eqI)
  fix n :: nat
  consider "n < 8" | "8 \<le> n" "n < 16" | "16 \<le> n" "n < 24" | "24 \<le> n" by linarith
  then show "bit ?l n = bit v n" by cases (auto simp: bit_simps dest: bit_imp_le_length)
qed

lemma decl_uint_ndig:
  assumes "ys = [] \<or> \<not> is_digit (hd ys)"
  shows "decl_uint (rev (ndig n) @ ys) = (length (ndig n), of_nat n)"
proof -
  obtain c cs where c: "rev (ndig n) = c # cs" "is_digit c" using rev_ndig_Cons by blast
  then have sk: "skip_spaces (rev (ndig n) @ ys) = 0" by (auto simp: is_digit_def)
  have all: "\<forall>c\<in>set (rev (ndig n)). is_digit c" using ndig_digit by auto
  have "digits_loop (rev (ndig n) @ ys) 0 0 = (of_nat n, length (ndig n))"
    unfolding digits_loop_append[OF all] digits_loop_ndig using assms by (cases ys) simp_all
  then show ?thesis by (simp add: decl_uint_def sk)
qed

lemma inet_part_ndig:
  assumes "n < 256" "ys = [] \<and> sep = 0 \<or> ys = sep # zs \<and> \<not> is_digit sep"
  shows "inet_part sep (rev (ndig n) @ ys) = Some (of_nat n, if ys = [] then [] else zs)"
proof -
  have "decl_uint (rev (ndig n) @ ys) = (length (ndig n), of_nat n)" using assms(2) by (intro decl_uint_ndig) auto
  moreover have "(of_nat n :: u32) < 256" using assms(1) by (simp add: word_less_nat_alt unat_of_nat)
  moreover have "char_at (rev (ndig n) @ ys) (length (ndig n)) = sep"
    using assms(2) by (auto simp: char_at_def nth_append)
  moreover have "drop (length (ndig n) + 1) (rev (ndig n) @ ys) = (if ys = [] then [] else zs)" using assms(2) by auto
  ultimately show ?thesis unfolding inet_part_def by simp
qed

definition dotted :: "nat \<Rightarrow> nat \<Rightarrow> nat \<Rightarrow> nat \<Rightarrow> cstring" where
  "dotted a b c d = rev (ndig a) @ dot # rev (ndig b) @ dot # rev (ndig c) @ dot # rev (ndig d)"

text \<open>Linearity of the shift register over exclusive or.\<close>

lemma crc16_shift_alt: "crc16_shift poly a = push_bit 1 a XOR (if bit a 15 then poly else 0)"
proof -
  have "(0x8000 :: u16) = push_bit 15 1" by simp
  then have "a AND 0x8000 \<noteq> 0 \<longleftrightarrow> bit a 15" by (metis and_exp_eq_0_iff_not_bit push_bit_of_1)
  then show ?thesis by (simp add: crc16_shift_def)
qed

lemma crc16_shift_xor: "crc16_shift poly (a XOR b) = crc16_shift poly a XOR crc16_shift poly b"
  by (rule bit_word_eqI) (auto simp: crc16_shift_alt bit_simps)

lemma crc16_shifts_xor: "(crc16_shift poly ^^ n) (a XOR b) = (crc16_shift poly ^^ n) a XOR (crc16_shift poly ^^ n) b"
  by (induction n) (simp_all add: crc16_shift_xor)

lemma crc16_shifts_low: "n \<le> 8 \<Longrightarrow> (crc16_shift poly ^^ n) (take_bit 8 a) = push_bit n (take_bit 8 a)"
proof (induction n)
  case (Suc n)
  then have "\<not> bit (push_bit n (take_bit 8 a)) 15" by (auto simp: bit_simps)
  then have "crc16_shift poly (push_bit n (take_bit 8 a)) = push_bit (Suc n) (take_bit 8 a)"
    by (simp add: crc16_shift_alt push_bit_push_bit del: push_bit_Suc)
  then show ?case using Suc by simp
qed simp

lemma crc16_high_low:
  fixes crc :: u16
  shows "crc XOR push_bit 8 (ucast d) = push_bit 8 (drop_bit 8 crc XOR ucast d) XOR take_bit 8 crc"
  by (rule bit_word_eqI) (auto simp: bit_simps)

lemma CRC16_step: "CRC16 (crc16_initialize poly) crc d = (crc16_shift poly ^^ 8) (crc XOR push_bit 8 (ucast d))"
proof -
  let ?h = "drop_bit 8 crc XOR ucast d"
  have h8: "?h = take_bit 8 ?h" by (rule bit_word_eqI) (auto simp: bit_simps dest: bit_imp_le_length)
  have "unat ?h = take_bit 8 (unat ?h)" using arg_cong[OF h8, of unat] unfolding unsigned_take_bit_eq .
  then have "unat ?h < 2 ^ 8" by (metis take_bit_nat_less_exp)
  then have "crc16_initialize poly ! unat ?h = (crc16_shift poly ^^ 8) (push_bit 8 ?h)"
    by (simp add: crc16_initialize_def)
  moreover have "(crc16_shift poly ^^ 8) (take_bit 8 crc) = push_bit 8 crc"
    unfolding crc16_shifts_low[OF order_refl] by (rule bit_word_eqI) (auto simp: bit_simps)
  ultimately show ?thesis
    unfolding CRC16_def crc16_high_low crc16_shifts_xor by (simp add: xor.commute)
qed

text \<open>\<^verbatim>\<open>inet_addr\<close> reads every address written as four decimal numbers below 256
  with dots between them, and returns the four bytes in network order in memory.\<close>

theorem inet_addr_dotted:
  assumes "a < 256" "b < 256" "c < 256" "d < 256"
  shows "inet_addr (dotted a b c d) = le32 [of_nat a, of_nat b, of_nat c, of_nat d]"
proof -
  have nd: "\<not> is_digit dot" "\<not> is_digit 0" by (simp_all add: is_digit_def dot_def)
  have u: "n < 256 \<Longrightarrow> (of_nat n :: u32) = ucast (of_nat n :: u8)" for n
    by (simp add: ucast_of_nat unat_of_nat)
  show ?thesis
    unfolding inet_addr_def dotted_def
    using inet_part_ndig[OF assms(1), of "dot # rev (ndig b) @ dot # rev (ndig c) @ dot # rev (ndig d)" dot]
      inet_part_ndig[OF assms(2), of "dot # rev (ndig c) @ dot # rev (ndig d)" dot]
      inet_part_ndig[OF assms(3), of "dot # rev (ndig d)" dot] inet_part_ndig[OF assms(4), of "[]" 0]
      nd u[OF assms(1)] u[OF assms(2)] u[OF assms(3)] u[OF assms(4)]
    by (simp add: le32_def)
qed

theorem inet_addr_dotted_witness: "inet_addr [49, 46, 50, 46, 51, 46, 52] = 0x04030201"
proof -
  have "dotted 1 2 3 4 = [49, 46, 50, 46, 51, 46, 52]" by (simp add: dotted_def dot_def ndig.simps)
  then show ?thesis using inet_addr_dotted[of 1 2 3 4] by (simp add: le32_def)
qed

text \<open>\<^verbatim>\<open>ntohl\<close> undoes \<^verbatim>\<open>htonl\<close> and \<^verbatim>\<open>ntohs\<close> undoes \<^verbatim>\<open>htons\<close>.\<close>

theorem byte_order_roundtrip: "ntohl (htonl v) = v \<and> ntohs (htons w) = w"
proof
  have "le_bytes32 (htonl v) = octets32 v" by (simp add: htonl_def le_bytes32_le32 octets32_def)
  then show "ntohl (htonl v) = v" by (simp add: ntohl_def octets32_def octets32_join)
  show "ntohs (htons w) = w" by (rule bit_word_eqI) (auto simp: ntohs_def htons_def bit_simps)
qed

section \<open>Checksums as remainders\<close>

text \<open>
  Polynomials over the field of two elements as numbers whose bits are the coefficients: the sum is the exclusive or, the
  product adds a shifted copy of one factor for every bit of the other.  \<open>is_remainder m g r\<close>: dividing
  \<open>m\<close> by \<open>g\<close>, of degree 16, leaves \<open>r\<close>.
\<close>

fun poly_mult :: "nat \<Rightarrow> nat \<Rightarrow> nat" where
  "poly_mult q g = (if q = 0 then 0 else (if odd q then g else 0) XOR push_bit 1 (poly_mult (q div 2) g))"

declare poly_mult.simps [simp del]

definition is_remainder :: "nat \<Rightarrow> nat \<Rightarrow> nat \<Rightarrow> bool" where
  "is_remainder m g r \<longleftrightarrow> r < 2 ^ 16 \<and> (\<exists>q. m = poly_mult q g XOR r)"

text \<open>A message is the polynomial of its bits, the high bit of the first byte first.\<close>

definition message_poly :: "u8 list \<Rightarrow> nat" where
  "message_poly data = fold (\<lambda>d m. 256 * m + unat d) data 0"

lemma poly_mult_0 [simp]: "poly_mult 0 g = 0"
  by (simp add: poly_mult.simps)

lemma poly_mult_1: "poly_mult 1 g = g"
  by (simp add: poly_mult.simps)

lemma poly_mult_rec: "poly_mult q g = (if odd q then g else 0) XOR push_bit 1 (poly_mult (q div 2) g)"
  by (cases "q = 0") (simp_all add: poly_mult.simps[of q])

lemma poly_mult_xor: "poly_mult (a XOR b) g = poly_mult a g XOR poly_mult b g"
proof (induction a arbitrary: b rule: less_induct)
  case (less a)
  show ?case
  proof (cases "a = 0")
    case False
    have "(a XOR b) div 2 ^ 1 = (a div 2 ^ 1) XOR (b div 2 ^ 1)" unfolding drop_bit_eq_div[symmetric] by (rule drop_bit_xor)
    then have h: "(a XOR b) div 2 = (a div 2) XOR (b div 2)" by simp
    have o: "odd (a XOR b) \<longleftrightarrow> odd a \<noteq> odd b" by (simp add: even_xor_iff)
    have ih: "poly_mult ((a div 2) XOR (b div 2)) g = poly_mult (a div 2) g XOR poly_mult (b div 2) g"
      using less.IH[of "a div 2"] False by simp
    show ?thesis
      unfolding poly_mult_rec[of "a XOR b"] poly_mult_rec[of a] poly_mult_rec[of b] h ih push_bit_xor
      using o by (intro bit_eqI) (auto simp: bit_xor_iff)
  qed simp
qed

lemma poly_mult_push: "poly_mult (push_bit n q) g = push_bit n (poly_mult q g)"
proof (induction n)
  case (Suc n)
  have "push_bit (Suc n) q = 2 * push_bit n q" by (simp add: push_bit_eq_mult)
  then show ?case unfolding poly_mult_rec[of "push_bit (Suc n) q"] using Suc by (simp add: push_bit_double)
qed simp

lemma xor_high: "2 ^ n \<le> a \<Longrightarrow> b < 2 ^ n \<Longrightarrow> 2 ^ n \<le> a XOR b" for a b :: nat
proof -
  assume a: "2 ^ n \<le> a" "b < 2 ^ n"
  then have "drop_bit n a \<noteq> 0" "drop_bit n b = 0" by (simp_all add: drop_bit_eq_div div_eq_0_iff)
  then have "drop_bit n (a XOR b) \<noteq> 0" unfolding drop_bit_xor by simp
  then have "(a XOR b) div 2 ^ n \<noteq> 0" by (simp add: drop_bit_eq_div)
  then show ?thesis by (simp add: div_eq_0_iff)
qed

text \<open>A multiple of the generator has degree 16 or more, so that a remainder is unique.\<close>

lemma poly_mult_high:
  assumes "2 ^ 16 \<le> g" "g < 2 ^ 17"
  shows "q \<noteq> 0 \<Longrightarrow> 2 ^ 16 \<le> poly_mult q g"
proof (induction q rule: less_induct)
  case (less q)
  show ?case
  proof (cases "q = 1")
    case True
    then show ?thesis using assms(1) poly_mult_1[of g] by simp
  next
    case False
    have "2 ^ 16 \<le> poly_mult (q div 2) g" using less.IH[of "q div 2"] less.prems False by simp
    then have "2 ^ 17 \<le> push_bit 1 (poly_mult (q div 2) g)" by (simp add: push_bit_eq_mult)
    moreover have "(if odd q then g else 0) < 2 ^ 17" using assms(2) by simp
    ultimately have "2 ^ 17 \<le> push_bit 1 (poly_mult (q div 2) g) XOR (if odd q then g else 0)" by (rule xor_high)
    then show ?thesis by (subst poly_mult_rec) (simp add: xor.commute)
  qed
qed

lemma is_remainder_unique:
  assumes "2 ^ 16 \<le> g" "g < 2 ^ 17" "is_remainder m g r" "is_remainder m g r'"
  shows "r = r'"
proof -
  obtain q q' where q: "m = poly_mult q g XOR r" "m = poly_mult q' g XOR r'" "r < 2 ^ 16" "r' < 2 ^ 16"
    using assms(3,4) unfolding is_remainder_def by blast
  have "poly_mult (q XOR q') g XOR (r XOR r') = (poly_mult q g XOR r) XOR (poly_mult q' g XOR r')"
    by (simp add: poly_mult_xor ac_simps)
  also have "\<dots> = 0" using q(1,2) by simp
  finally have eq: "poly_mult (q XOR q') g = r XOR r'"
    by (metis xor.assoc xor.left_neutral xor.right_neutral xor_self_eq)
  have "r XOR r' < 2 ^ 16" using q(3,4) by (metis take_bit_xor take_bit_nat_eq_self take_bit_nat_less_exp)
  then have "q XOR q' = 0" using poly_mult_high[OF assms(1,2), of "q XOR q'"] eq by linarith
  then show ?thesis using eq by (metis poly_mult_0 xor.assoc xor.left_neutral xor.right_neutral xor_self_eq)
qed

text \<open>One step of the register multiplies it by \<open>x\<close> modulo the generator.\<close>

abbreviation (input) generator :: "u16 \<Rightarrow> nat" where
  "generator poly \<equiv> 2 ^ 16 + unat poly"

lemma generator_range: "2 ^ 16 \<le> generator poly" "generator poly < 2 ^ 17"
  using unsigned_less[of poly, where 'a = nat] by simp_all

lemma bit_x16: "bit (2 ^ 16 :: nat) n \<longleftrightarrow> n = 16"
  unfolding bit_exp_iff by auto

lemma generator_xor: "generator poly = 2 ^ 16 XOR unat poly"
proof -
  have "(2 :: nat) ^ 16 AND unat poly = 0"
    by (rule bit_eqI) (auto simp: bit_and_iff bit_x16 bit_unsigned_iff simp del: power_numeral dest: bit_imp_le_length)
  then show ?thesis by (metis disjunctive_xor_eq_or disjunctive_add_eq_or)
qed

lemma crc16_shift_poly: "push_bit 1 (unat a) = (if bit a 15 then generator poly else 0) XOR unat (crc16_shift poly a)"
proof (rule bit_eqI)
  fix n
  show "bit (push_bit 1 (unat a)) n = bit ((if bit a 15 then generator poly else 0) XOR unat (crc16_shift poly a)) n"
    unfolding generator_xor
    by (cases "n = 16"; cases "n = 0") (auto simp: crc16_shift_alt bit_xor_iff bit_push_bit_iff bit_x16 bit_unsigned_iff
        simp del: power_numeral push_bit_Suc dest: bit_imp_le_length)
qed

lemma crc16_shifts_poly: "\<exists>q. push_bit n (unat a) = poly_mult q (generator poly) XOR unat ((crc16_shift poly ^^ n) a)"
proof (induction n)
  case 0
  have "push_bit 0 (unat a) = poly_mult 0 (generator poly) XOR unat ((crc16_shift poly ^^ 0) a)" by simp
  then show ?case by blast
next
  case (Suc n)
  let ?b = "(crc16_shift poly ^^ n) a" and ?g = "generator poly"
  obtain q where q: "push_bit n (unat a) = poly_mult q ?g XOR unat ?b" using Suc by blast
  let ?t = "if bit ?b 15 then 1 else 0"
  have t: "poly_mult ?t ?g = (if bit ?b 15 then ?g else 0)" by (simp add: poly_mult_1[unfolded One_nat_def])
  have "push_bit (Suc n) (unat a) = push_bit 1 (push_bit n (unat a))" by (simp add: push_bit_push_bit)
  also have "\<dots> = poly_mult (push_bit 1 q) ?g XOR push_bit 1 (unat ?b)" unfolding q push_bit_xor poly_mult_push ..
  also have "\<dots> = poly_mult (push_bit 1 q XOR ?t) ?g XOR unat ((crc16_shift poly ^^ Suc n) a)"
    unfolding crc16_shift_poly[of ?b poly] poly_mult_xor t by (simp add: ac_simps)
  finally show ?case by blast
qed

lemma message_poly_snoc: "message_poly (data @ [d]) = push_bit 8 (message_poly data) XOR unat d"
proof -
  have "push_bit 8 (message_poly data) AND unat d = 0"
    by (rule bit_eqI) (auto simp: bit_simps dest: bit_imp_le_length)
  then have "push_bit 8 (message_poly data) XOR unat d = push_bit 8 (message_poly data) + unat d"
    by (metis disjunctive_xor_eq_or disjunctive_add_eq_or)
  then show ?thesis by (simp add: message_poly_def push_bit_eq_mult mult.commute)
qed

lemma crc16_do_remainder: "is_remainder (push_bit 16 (message_poly data)) (generator poly) (unat (crc16_do data (crc16_initialize poly)))"
proof (induction data rule: rev_induct)
  case Nil
  have "push_bit 16 (message_poly []) = poly_mult 0 (generator poly) XOR unat (crc16_do [] (crc16_initialize poly))"
    by (simp add: message_poly_def crc16_do_def)
  then show ?case unfolding is_remainder_def by (intro conjI exI[of _ 0]) (simp_all add: crc16_do_def)
next
  case (snoc d data)
  let ?g = "generator poly" and ?c = "crc16_do data (crc16_initialize poly)"
  let ?a = "?c XOR push_bit 8 (ucast d)" and ?c' = "crc16_do (data @ [d]) (crc16_initialize poly)"
  obtain q where q: "push_bit 16 (message_poly data) = poly_mult q ?g XOR unat ?c" using snoc unfolding is_remainder_def by blast
  obtain p where p: "push_bit 8 (unat ?a) = poly_mult p ?g XOR unat ?c'"
    using crc16_shifts_poly[of 8 ?a poly] by (auto simp: crc16_do_def CRC16_step)
  have d: "unat ?a = unat ?c XOR push_bit 8 (unat d)"
    by (rule bit_eqI) (auto simp: bit_simps dest: bit_imp_le_length)
  have "push_bit 16 (message_poly (data @ [d])) = push_bit 8 (push_bit 16 (message_poly data)) XOR push_bit 8 (push_bit 8 (unat d))"
    unfolding message_poly_snoc push_bit_xor by (simp add: push_bit_push_bit)
  also have "\<dots> = poly_mult (push_bit 8 q) ?g XOR push_bit 8 (unat ?a)"
    unfolding q push_bit_xor poly_mult_push d by (simp add: ac_simps)
  also have "\<dots> = poly_mult (push_bit 8 q XOR p) ?g XOR unat ?c'" unfolding p poly_mult_xor by (simp add: ac_simps)
  finally show ?case unfolding is_remainder_def using unsigned_less[of ?c', where 'a = nat] by auto
qed

text \<open>C23: the table-driven checksum is the remainder of the division of the message, followed by 16 zero bits, by the generator
  polynomial \<open>x ^ 16 + poly\<close> over the field of two elements: it is one, and there is no other.
\<close>

theorem crc16_table_correct:
  "is_remainder (2 ^ 16 * message_poly data) (2 ^ 16 + unat poly) r \<longleftrightarrow> r = unat (crc16_do data (crc16_initialize poly))"
proof -
  have m: "2 ^ 16 * message_poly data = push_bit 16 (message_poly data)" by (simp add: push_bit_eq_mult)
  show ?thesis
    unfolding m using crc16_do_remainder[of data poly] is_remainder_unique[OF generator_range, of "push_bit 16 (message_poly data)" poly] by blast
qed

end
