(* ===== verification/Format.thy ===== *)
theory Format
  imports Posix Datetime
begin

text \<open>
  Formatted output (\<^verbatim>\<open>exos/kernel/posix/stdio.c\<close>): the interpreter of format strings, with
  \<^verbatim>\<open>sprintf\<close> as the sink, and the printing of dates.  The arguments are a list; an argument
  that is missing or of the wrong kind is undefined in C and reads as zero or as the empty string.
\<close>

section \<open>The interpreter\<close>

datatype fmt_arg = ArgInt u32 | ArgStr cstring

definition va_int :: "fmt_arg list \<Rightarrow> u32 \<times> fmt_arg list" where
  "va_int args = (case args of ArgInt v # rest \<Rightarrow> (v, rest) | _ \<Rightarrow> (0, tl args))"

definition va_str :: "fmt_arg list \<Rightarrow> cstring \<times> fmt_arg list" where
  "va_str args = (case args of ArgStr s # rest \<Rightarrow> (s, rest) | _ \<Rightarrow> ([], tl args))"

text \<open>\<^verbatim>\<open>vputs(state, s, length)\<close>: at most \<open>length\<close> characters of \<open>s\<close>.\<close>

type_synonym 's vputs = "cstring \<Rightarrow> nat \<Rightarrow> 's \<Rightarrow> int \<times> 's"

text \<open>
  A directive behind the percent sign: the padding character, the width, the long flag, the
  conversion and the rest of the format; \<open>None\<close> at the end of the string.
\<close>

definition fmt_parse :: "cstring \<Rightarrow> u8 \<Rightarrow> (u8 \<times> u32 \<times> bool \<times> u8 \<times> cstring) option" where
  "fmt_parse fmt padc =
     (let (padc1, f1) = (if char_at fmt 0 = 48 then (48, tl fmt) else (padc, fmt));
          (k, fmt_size) = decl_uint f1;
          f2 = drop k f1;
          c = char_at f2 0
      in if c = 0 then None
         else if c = 108 \<or> c = 76
         then let c2 = char_at (tl f2) 0
              in if c2 = 0 then None else Some (padc1, fmt_size, True, c2, tl (tl f2))
         else Some (padc1, fmt_size, False, c, tl f2))"

text \<open>The text of a conversion and how many characters of it are put out; the buffer has 64 characters.\<close>

definition fmt_number :: "nat \<times> u8 list \<Rightarrow> fmt_arg list \<Rightarrow> (cstring \<times> nat \<times> fmt_arg list) res" where
  "fmt_number r args = (case r of (buf_length, buf) \<Rightarrow>
     ASSERT (buf_length < 64) KERNEL_ERROR_KERNEL_PANIC (Inr (buf, buf_length, args)))"

definition fmt_convert :: "u8 \<Rightarrow> bool \<Rightarrow> u32 \<Rightarrow> u8 \<Rightarrow> fmt_arg list \<Rightarrow> (cstring \<times> nat \<times> fmt_arg list) res" where
  "fmt_convert c long fmt_size padc args =
     (if c = 115 then case va_str args of (s, rest) \<Rightarrow> Inr (s, 2 ^ 32 - 1, rest)
      else if c = 100 then case va_int args of (v, rest) \<Rightarrow> fmt_number (int_declz v (uint fmt_size) padc) rest
      else if c = 117 then case va_int args of (v, rest) \<Rightarrow>
             fmt_number (if long then int_declz v (uint fmt_size) padc else uint_declz v (uint fmt_size) padc) rest
      else if c = 88 \<or> c = 120 then case va_int args of (v, rest) \<Rightarrow> fmt_number (uint_hexlz v (uint fmt_size) padc) rest
      else if c = 99 then case va_int args of (v, rest) \<Rightarrow> Inr ([ucast v], 1, rest)
      else Inr ([c], 1, args))"

lemma fmt_parse_length: "fmt_parse fmt padc = Some (p, sz, l, c, rest) \<Longrightarrow> length rest < length fmt"
  by (auto simp: fmt_parse_def Let_def char_at_def case_prod_beta split: if_splits)

text \<open>
  The loop: \<open>run\<close> holds the literal characters not put out yet and \<open>len\<close> the characters put out so
  far.  A negative result of the sink ends the loop and is the result.
\<close>

definition put_run :: "'s vputs \<Rightarrow> u8 list \<Rightarrow> int \<Rightarrow> 's \<Rightarrow> int \<times> 's" where
  "put_run vputs run len s =
     (if run \<noteq> [] then case vputs run (length run) s of (n, s1) \<Rightarrow> (if n < 0 then n else len + n, s1) else (len, s))"

function vformat_loop :: "'s vputs \<Rightarrow> cstring \<Rightarrow> u8 list \<Rightarrow> u8 \<Rightarrow> fmt_arg list \<Rightarrow> int \<Rightarrow> 's \<Rightarrow> (int \<times> 's) res" where
  "vformat_loop vputs fmt run padc args len s =
     (if char_at fmt 0 = 0 then Inr (put_run vputs run len s)
      else if hd fmt = 37
      then case put_run vputs run len s of (len1, s1) \<Rightarrow>
             if len1 < 0 then Inr (len1, s1)
             else case fmt_parse (tl fmt) padc of
                    None \<Rightarrow> Inr (len1, s1)
                  | Some (padc1, fmt_size, long, c, rest) \<Rightarrow>
                      rbind (fmt_convert c long fmt_size padc1 args) (\<lambda>(src, n, args1).
                        case vputs src n s1 of (d, s2) \<Rightarrow>
                          if d < 0 then Inr (d, s2) else vformat_loop vputs rest [] padc1 args1 (len1 + d) s2)
      else vformat_loop vputs (tl fmt) (run @ [hd fmt]) padc args len s)"
  by pat_completeness auto
termination
  by (relation "measure (\<lambda>(_, fmt, _). length fmt)")
    (auto simp: char_at_def dest!: fmt_parse_length split: if_splits)

declare vformat_loop.simps [simp del]

definition vformat :: "'s vputs \<Rightarrow> cstring \<Rightarrow> fmt_arg list \<Rightarrow> 's \<Rightarrow> (int \<times> 's) res" where
  "vformat vputs fmt args s = vformat_loop vputs fmt [] 32 args 0 s"

section \<open>Printing to memory\<close>

text \<open>The memory behind the pointer and how far it has moved.\<close>

definition mem_puts :: "(u8 list \<times> nat) vputs" where
  "mem_puts src n s = (case s of (dst, pos) \<Rightarrow>
     case str_copy (drop pos dst) src n of (actual, d) \<Rightarrow> (int actual, (take pos dst @ d, pos + actual)))"

definition vsprintf :: "u8 list \<Rightarrow> cstring \<Rightarrow> fmt_arg list \<Rightarrow> (int \<times> u8 list) res" where
  "vsprintf dst fmt args =
     rbind (vformat mem_puts fmt args (dst, 0)) (\<lambda>(len, (d, pos)). Inr (len, d[pos := 0]))"

definition sprintf :: "u8 list \<Rightarrow> cstring \<Rightarrow> fmt_arg list \<Rightarrow> (int \<times> u8 list) res" where
  "sprintf dst fmt args = vsprintf dst fmt args"

definition exos_datetime_print :: "u8 list \<Rightarrow> EXOS_DATETIME \<Rightarrow> (int \<times> u8 list) res" where
  "exos_datetime_print s dt =
     sprintf s (lit ''%s, %s %d, %d %02d:%02d:%02d'')
       [ArgStr (exos_datetime_day_name (unat (DayOfWeek dt))), ArgStr (exos_datetime_month_name (uint (Month dt))),
        ArgInt (ucast (Day dt)), ArgInt (ucast (Year dt)), ArgInt (ucast (Hours dt)), ArgInt (ucast (Minutes dt)),
        ArgInt (ucast (Seconds dt))]"

section \<open>What a format prints\<close>

datatype piece = Lit cstring | Str cstring | Uns u32 | Sgn u32

fun piece_fmt :: "piece \<Rightarrow> cstring" where
  "piece_fmt (Lit s) = s"
| "piece_fmt (Str s) = [37, 115]"
| "piece_fmt (Uns v) = [37, 117]"
| "piece_fmt (Sgn v) = [37, 100]"

fun piece_args :: "piece \<Rightarrow> fmt_arg list" where
  "piece_args (Lit s) = []"
| "piece_args (Str s) = [ArgStr s]"
| "piece_args (Uns v) = [ArgInt v]"
| "piece_args (Sgn v) = [ArgInt v]"

text \<open>A negative number loses its last digit: the length of its text does not count the sign.\<close>

fun piece_text :: "piece \<Rightarrow> cstring" where
  "piece_text (Lit s) = s"
| "piece_text (Str s) = s"
| "piece_text (Uns v) = snd (uint_decl v)"
| "piece_text (Sgn v) = (if sint v < 0 then butlast (snd (int_decl v)) else snd (int_decl v))"

fun piece_ok :: "piece \<Rightarrow> bool" where
  "piece_ok (Lit s) \<longleftrightarrow> 0 \<notin> set s \<and> 37 \<notin> set s"
| "piece_ok (Str s) \<longleftrightarrow> c_string s \<and> length s < 2 ^ 32"
| "piece_ok (Uns v) \<longleftrightarrow> True"
| "piece_ok (Sgn v) \<longleftrightarrow> v \<noteq> 0x80000000"

abbreviation fmt_of :: "piece list \<Rightarrow> cstring" where "fmt_of ps \<equiv> concat (map piece_fmt ps)"
abbreviation args_of :: "piece list \<Rightarrow> fmt_arg list" where "args_of ps \<equiv> concat (map piece_args ps)"
abbreviation text_of :: "piece list \<Rightarrow> cstring" where "text_of ps \<equiv> concat (map piece_text ps)"

lemma ndig_length: "n < 10 ^ k \<Longrightarrow> 0 < k \<Longrightarrow> length (ndig n) \<le> k"
proof (induction n arbitrary: k rule: ndig.induct)
  case (1 n)
  show ?case
  proof (cases "n < 10")
    case True
    then show ?thesis using 1 by (simp add: ndig.simps[of n])
  next
    case False
    then have "k \<noteq> 1" using 1(2) by auto
    then obtain j where k: "k = Suc j" "0 < j" using 1(3) by (cases k) auto
    then have "n div 10 < 10 ^ j" using 1(2) by (simp add: less_mult_imp_div_less mult.commute)
    then show ?thesis using 1(1)[OF False _ k(2)] k False by (simp add: ndig.simps[of n])
  qed
qed

lemma ndig_c_string: "c_string (rev (ndig n))"
  using ndig_digit[of 0 n] by (auto simp: c_string_def is_digit_def)

lemma u32_digits: "length (ndig (unat (v :: u32))) < 64"
  using ndig_length[of "unat v" 10] unat_u32_less[of v] by simp

lemma uint_decl_text: "uint_declz v 0 tc = (length (ndig (unat v)), rev (ndig (unat v)))"
  by (simp add: uint_declz_def pad_def udec_loop_ndig Let_def)

lemma sgn_text:
  assumes "v \<noteq> 0x80000000"
  obtains n where "int_declz v 0 tc = (length (ndig n), (if sint v < 0 then [45] else []) @ rev (ndig n))"
    "piece_text (Sgn v) = take (length (ndig n)) ((if sint v < 0 then [45] else []) @ rev (ndig n))" "length (ndig n) < 64"
proof -
  let ?n = "unat (if sint v < 0 then - v else v)"
  have "piece_text (Sgn v) = take (length (ndig ?n)) ((if sint v < 0 then [45] else []) @ rev (ndig ?n))"
    using int_decl_text[OF assms, of 0] by (auto simp: int_decl_def butlast_conv_take min_def take_Cons' butlast_append)
  then show thesis using that int_decl_text[OF assms, of tc] u32_digits by blast
qed

lemma mem_puts_append:
  assumes "c_string src" "pos + min n (length src) \<le> length dst"
  obtains d where "mem_puts src n (dst, pos) = (int (min n (length src)), (d, pos + min n (length src)))" "length d = length dst"
    "take (pos + min n (length src)) d = take pos dst @ take n src"
proof -
  let ?k = "min n (length src)"
  have "?k \<le> length (drop pos dst)" using assms(2) by simp
  then obtain d where d: "str_copy (drop pos dst) src n = (?k, d)" "length d = length (drop pos dst)" "take ?k d = take ?k src"
    using str_copy_fits[OF assms(1)] by blast
  have p: "length (take pos dst) = pos" using assms(2) by simp
  then have "take (pos + ?k) (take pos dst @ d) = take pos dst @ take ?k d" by (simp add: take_append)
  moreover have "take ?k src = take n src" by (cases "n \<le> length src") (simp_all add: min_def)
  ultimately show thesis using that[of "take pos dst @ d"] d p assms(2) by (simp add: mem_puts_def)
qed

lemma vformat_char:
  "c \<noteq> 0 \<Longrightarrow> c \<noteq> 37 \<Longrightarrow> vformat_loop vputs (c # fmt) run padc args len s = vformat_loop vputs fmt (run @ [c]) padc args len s"
  by (subst vformat_loop.simps) (simp add: char_at_def)

lemma vformat_percent:
  "vformat_loop vputs (37 # fmt) run padc args len s =
     (case put_run vputs run len s of (len1, s1) \<Rightarrow>
        if len1 < 0 then Inr (len1, s1)
        else case fmt_parse fmt padc of
               None \<Rightarrow> Inr (len1, s1)
             | Some (padc1, fmt_size, long, c, rest) \<Rightarrow>
                 rbind (fmt_convert c long fmt_size padc1 args) (\<lambda>(src, n, args1).
                   case vputs src n s1 of (d, s2) \<Rightarrow>
                     if d < 0 then Inr (d, s2) else vformat_loop vputs rest [] padc1 args1 (len1 + d) s2))"
  by (subst vformat_loop.simps, unfold list.sel) (simp add: char_at_def)

lemma vformat_nil: "vformat_loop vputs [] run padc args len s = Inr (put_run vputs run len s)"
  by (subst vformat_loop.simps) (simp add: char_at_def)

lemma vformat_lit:
  "0 \<notin> set s \<Longrightarrow> 37 \<notin> set s \<Longrightarrow>
     vformat_loop vputs (s @ fmt) run padc args len st = vformat_loop vputs fmt (run @ s) padc args len st"
  by (induction s arbitrary: run) (simp_all add: vformat_char)

lemma put_run_mem:
  assumes "0 \<notin> set run" "pos + length run \<le> length dst" "0 \<le> len"
  obtains d where "put_run mem_puts run len (dst, pos) = (len + int (length run), (d, pos + length run))" "length d = length dst"
    "take (pos + length run) d = take pos dst @ run"
proof (cases "run = []")
  case False
  have "c_string run" "pos + min (length run) (length run) \<le> length dst" using assms by (simp_all add: c_string_def)
  then obtain d where "mem_puts run (length run) (dst, pos) = (int (length run), (d, pos + length run))" "length d = length dst"
    "take (pos + length run) d = take pos dst @ run" by (rule mem_puts_append) simp
  then show thesis using that[of d] False by (simp add: put_run_def)
qed (use that[of dst] in \<open>simp add: put_run_def\<close>)

lemma fmt_parse_plain: "c \<in> {115, 117, 100} \<Longrightarrow> fmt_parse (c # fmt) padc = Some (padc, 0, False, c, fmt)"
  by (auto simp: fmt_parse_def char_at_def decl_uint_def is_digit_def Let_def)

text \<open>What one conversion hands to the sink.\<close>

lemma convert_piece:
  assumes "piece_ok p" "piece_fmt p = [37, c]" "p \<noteq> Lit [37, c]"
  obtains src n where "fmt_convert c False 0 padc (piece_args p @ args) = Inr (src, n, args)" "c_string src"
    "take n src = piece_text p" "min n (length src) = length (piece_text p)"
proof (cases p)
  case (Str s)
  then show thesis using assms that[of s "2 ^ 32 - 1"] by (simp add: fmt_convert_def va_str_def)
next
  case (Uns v)
  then show thesis using assms that[of "rev (ndig (unat v))" "length (ndig (unat v))"] u32_digits[of v] ndig_c_string
    by (simp add: fmt_convert_def va_int_def uint_decl_text fmt_number_def uint_decl_def)
next
  case (Sgn v)
  then obtain n where n: "int_declz v 0 padc = (length (ndig n), (if sint v < 0 then [45] else []) @ rev (ndig n))"
    "piece_text p = take (length (ndig n)) ((if sint v < 0 then [45] else []) @ rev (ndig n))" "length (ndig n) < 64"
    using sgn_text[of v padc] assms(1) by auto
  moreover have "c_string ((if sint v < 0 then [45] else []) @ rev (ndig n))" using ndig_c_string[of n] by (auto simp: c_string_def)
  ultimately show thesis
    using assms Sgn that[of "(if sint v < 0 then [45] else []) @ rev (ndig n)" "length (ndig n)"]
    by (simp add: fmt_convert_def va_int_def fmt_number_def)
qed (use assms in auto)

lemma vformat_pieces:
  assumes "list_all piece_ok ps" "0 \<notin> set run" "0 \<le> len" "pos + length run + length (text_of ps) \<le> length dst"
  shows "\<exists>d. vformat_loop mem_puts (fmt_of ps) run 32 (args_of ps) len (dst, pos) =
      Inr (len + int (length run + length (text_of ps)), (d, pos + length run + length (text_of ps))) \<and>
    length d = length dst \<and> take (pos + length run + length (text_of ps)) d = take pos dst @ run @ text_of ps"
  using assms
proof (induction ps arbitrary: run len dst pos)
  case Nil
  then show ?case using put_run_mem[of run pos dst len] by (auto simp: vformat_nil)
next
  case (Cons p ps)
  show ?case
  proof (cases "\<exists>s. p = Lit s")
    case True
    then obtain s where p: "p = Lit s" by blast
    then show ?thesis
      using Cons.IH[of "run @ s" len pos dst] Cons.prems vformat_lit[of s mem_puts "fmt_of ps" run 32 "args_of ps" len "(dst, pos)"]
      by (simp add: add.assoc)
  next
    case False
    then obtain c where c: "piece_fmt p = [37, c]" "c \<in> {115, 117, 100}" by (cases p) auto
    obtain d where d: "put_run mem_puts run len (dst, pos) = (len + int (length run), (d, pos + length run))" "length d = length dst"
      "take (pos + length run) d = take pos dst @ run"
      using put_run_mem[of run pos dst len] Cons.prems by auto
    obtain src n where s: "fmt_convert c False 0 32 (piece_args p @ args_of ps) = Inr (src, n, args_of ps)" "c_string src"
      "take n src = piece_text p" "min n (length src) = length (piece_text p)"
      using convert_piece[of p c 32 "args_of ps"] Cons.prems(1) c False by auto
    obtain e where e: "mem_puts src n (d, pos + length run) = (int (length (piece_text p)), (e, pos + length run + length (piece_text p)))"
      "length e = length d" "take (pos + length run + length (piece_text p)) e = take (pos + length run) d @ piece_text p"
      using mem_puts_append[OF s(2), of "pos + length run" n d] s(3,4) Cons.prems(4) d(2) by auto
    have "vformat_loop mem_puts (fmt_of (p # ps)) run 32 (args_of (p # ps)) len (dst, pos) =
        vformat_loop mem_puts (fmt_of ps) [] 32 (args_of ps) (len + int (length run) + int (length (piece_text p)))
          (e, pos + length run + length (piece_text p))"
      using d(1) s(1) e(1) c fmt_parse_plain[OF c(2)] Cons.prems(3)
      by (simp add: vformat_percent)
    then show ?thesis
      using Cons.IH[of "[]" "len + int (length run) + int (length (piece_text p))" "pos + length run + length (piece_text p)" e]
        Cons.prems d e by (simp add: add.assoc)
  qed
qed

text \<open>C24: \<^verbatim>\<open>sprintf\<close> with a format of literal text and plain \<^verbatim>\<open>%s\<close>, \<^verbatim>\<open>%u\<close> and
  \<^verbatim>\<open>%d\<close> conversions prints the pieces in order, terminated by a zero, and returns their length;
  the text of a negative number lacks its last digit.\<close>

theorem sprintf_pieces:
  assumes "list_all piece_ok ps" "length (text_of ps) < length dst"
  shows "\<exists>d. sprintf dst (fmt_of ps) (args_of ps) = Inr (int (length (text_of ps)), d) \<and>
    take (Suc (length (text_of ps))) d = text_of ps @ [0]"
proof -
  obtain d where "vformat_loop mem_puts (fmt_of ps) [] 32 (args_of ps) 0 (dst, 0) =
      Inr (int (length (text_of ps)), (d, length (text_of ps)))" "length d = length dst"
    "take (length (text_of ps)) d = text_of ps"
    using vformat_pieces[of ps "[]" 0 0 dst] assms by auto
  then show ?thesis
    using assms(2) by (simp add: sprintf_def vsprintf_def vformat_def take_Suc_conv_app_nth)
qed

theorem sprintf_pieces_witness:
  "\<exists>d. sprintf (replicate 8 0) [120, 61, 37, 100, 33] [ArgInt (- 12)] = Inr (5, d) \<and> take 6 d = [120, 61, 45, 49, 33, 0]"
proof -
  have "sint (- 12 :: u32) < 0" by simp
  then have "piece_text (Sgn (- 12)) = [45, 49]"
    using int_decl_text[of "- 12" 0] by (simp add: int_decl_def ndig.simps)
  then have t: "text_of [Lit [120, 61], Sgn (- 12), Lit [33]] = [120, 61, 45, 49, 33]" by (simp del: piece_text.simps(4))
  have l: "length [120, 61, 45, 49, 33 :: u8] = 5" "Suc 5 = 6" by simp_all
  show ?thesis using sprintf_pieces[of "[Lit [120, 61], Sgn (- 12), Lit [33]]" "replicate 8 0"] unfolding t l by simp
qed

end
