(* ===== verification/Ram.thy ===== *)
theory Ram
  imports Prelude
begin

text \<open>
  Byte memories, shared by the network and the USB stack: frames and descriptors are bytes at an address, and the
  fields of packed structures are read and written at their offsets.
\<close>

unbundle bit_operations_syntax

type_synonym ram = "nat \<Rightarrow> u8"

definition store :: "nat \<Rightarrow> u8 list \<Rightarrow> ram \<Rightarrow> ram" where
  "store a bs m = (\<lambda>x. if a \<le> x \<and> x < a + length bs then bs ! (x - a) else m x)"

definition load :: "nat \<Rightarrow> nat \<Rightarrow> ram \<Rightarrow> u8 list" where
  "load a n m = map (\<lambda>i. m (a + i)) [0..<n]"

section \<open>Reading back what was written\<close>

lemma store_other: "x < a \<or> a + length bs \<le> x \<Longrightarrow> store a bs m x = m x"
  by (auto simp: store_def)

lemma length_load [simp]: "length (load a n m) = n"
  by (simp add: load_def)

lemma nth_load [simp]: "i < n \<Longrightarrow> load a n m ! i = m (a + i)"
  by (simp add: load_def)

lemma load_store_same: "length bs = n \<Longrightarrow> load a n (store a bs m) = bs"
  by (rule nth_equalityI) (simp_all add: store_def)

lemma load_store_other: "b + n \<le> a \<or> a + length bs \<le> b \<Longrightarrow> load b n (store a bs m) = load b n m"
  by (rule nth_equalityI) (auto simp: store_def)

lemma load_add: "load a (i + j) m = load a i m @ load (a + i) j m"
  by (rule nth_equalityI) (auto simp: nth_append add.assoc)

lemma load_Suc: "load a (Suc n) m = m a # load (a + 1) n m"
  using load_add [of a 1 n m] by (simp add: load_def)

lemma load_0 [simp]: "load a 0 m = []"
  by (simp add: load_def)

lemma load_upd_other: "x < a \<or> a + n \<le> x \<Longrightarrow> load a n (m(x := v)) = load a n m"
  by (rule nth_equalityI) auto

section \<open>Writing runs of bytes\<close>

lemma store_Nil [simp]: "store a [] m = m"
  by (auto simp: store_def fun_eq_iff)

lemma store_append: "store (a + length bs) cs (store a bs m) = store a (bs @ cs) m"
  by (auto simp: store_def nth_append fun_eq_iff)

lemma store_store: "length bs = length cs \<Longrightarrow> store a cs (store a bs m) = store a cs m"
  by (auto simp: store_def fun_eq_iff)

lemma store_prefix: "length cs = length bs \<Longrightarrow> store a cs (store a (bs @ ds) m) = store a (cs @ ds) m"
  by (auto simp: store_def nth_append fun_eq_iff)

lemma store_front: "store a bs (store (a + length bs) cs m) = store a (bs @ cs) m"
  by (auto simp: store_def nth_append fun_eq_iff)

lemma store_nth: "i < length bs \<Longrightarrow> store a bs m (a + i) = bs ! i"
  by (simp add: store_def)

lemma store_first: "bs \<noteq> [] \<Longrightarrow> store a bs m a = bs ! 0"
  using store_nth [of 0 bs a m] by simp

lemma store_load: "load a (length bs) m = bs \<Longrightarrow> i < length bs \<Longrightarrow> m (a + i) = bs ! i"
  by (metis nth_load)

lemma store_loaded: "store a (load a k m) m = m"
  by (auto simp: store_def fun_eq_iff)

lemma store_behind: "store (a + k) bs m = store a (load a k m @ bs) m"
  using store_append [of a "load a k m" bs m] by (simp add: store_loaded)

end
