(* ===== verification/Pools.thy ===== *)
theory Pools
  imports Prelude
begin

text \<open>
  Pools of items (\<^verbatim>\<open>exos/support/misc/pools.c\<close>), which the network stack takes its buffers from and the
  drivers of the USB host their handlers.
\<close>

section \<open>Operations\<close>

text \<open>\<^verbatim>\<open>pool_create\<close> cuts an array into items; the free items are a list. A node has two links, a type and a
  priority, 16 bytes with 32-bit pointers and enumerations.\<close>

definition sizeof_node :: nat where
  "sizeof_node = 16"

definition pool_create :: "nat \<Rightarrow> nat \<Rightarrow> nat \<Rightarrow> nat list res" where
  "pool_create arr item_size item_count =
     (if arr \<noteq> 0 \<and> item_count \<noteq> 0
      then ASSERT (item_size \<ge> sizeof_node) KERNEL_ERROR_KERNEL_PANIC (Inr (map (\<lambda>i. arr + i * item_size) [0..<item_count]))
      else Inr [])"

definition pool_allocate :: "nat list \<Rightarrow> nat option \<times> nat list" where
  "pool_allocate free = (case free of [] \<Rightarrow> (None, []) | n # rest \<Rightarrow> (Some n, rest))"

definition pool_free :: "nat \<Rightarrow> nat list \<Rightarrow> nat list res" where
  "pool_free node free = ASSERT (node \<notin> set free) KERNEL_ERROR_KERNEL_PANIC (Inr (node # free))"

section \<open>Use of a pool\<close>

text \<open>A pool and the items its clients hold: items are taken, and items that are held are given back.\<close>

inductive pool_use :: "nat list \<Rightarrow> nat list \<Rightarrow> nat list \<Rightarrow> bool" for items where
  created: "pool_use items [] items"
| taken: "pool_use items held free \<Longrightarrow> pool_allocate free = (Some n, free') \<Longrightarrow> pool_use items (n # held) free'"
| given: "pool_use items held free \<Longrightarrow> n \<in> set held \<Longrightarrow> pool_free n free = Inr free' \<Longrightarrow> pool_use items (remove1 n held) free'"

lemma pool_use_partition:
  "pool_use items held free \<Longrightarrow> distinct items \<Longrightarrow> distinct (held @ free) \<and> set (held @ free) = set items"
proof (induction rule: pool_use.induct)
  case (taken held free n free')
  then show ?case by (auto simp: pool_allocate_def split: list.splits)
next
  case (given held free n free')
  then have "free' = n # free" "n \<in> set held" by (auto simp: pool_free_def ASSERT_def split: if_splits)
  with given show ?case by (auto simp: distinct_remove1)
qed simp

lemma pool_items_distinct: "0 < sz \<Longrightarrow> distinct (map (\<lambda>i. arr + i * sz) [0..<n])"
  by (simp add: distinct_map inj_on_def)

text \<open>However its items are taken and given back, a pool never hands out an item that is still held, no
  item gets lost, an allocation fails only when all items are held, and giving an item back never panics.
\<close>

theorem pool_partitions:
  assumes "pool_create arr item_size item_count = Inr items" and "pool_use items held free"
  shows "distinct (held @ free) \<and> set (held @ free) = set items
    \<and> (fst (pool_allocate free) = None \<longleftrightarrow> set held = set items)
    \<and> (\<forall>n\<in>set held. pool_free n free = Inr (n # free))"
proof -
  have "distinct items"
    using assms(1) pool_items_distinct [of item_size arr item_count]
    by (auto simp: pool_create_def ASSERT_def sizeof_node_def simp del: distinct_map split: if_splits)
  with pool_use_partition [OF assms(2)] have p: "distinct (held @ free)" "set (held @ free) = set items" by auto
  then have "fst (pool_allocate free) = None \<longleftrightarrow> set held = set items"
    by (cases free) (auto simp: pool_allocate_def)
  with p show ?thesis by (auto simp: pool_free_def ASSERT_def)
qed

theorem pool_partitions_witness:
  "pool_create 4096 64 3 = Inr [4096, 4160, 4224] \<and> fst (pool_allocate [4160, 4224]) \<noteq> None
   \<and> pool_free 4096 [4160, 4224] = Inr [4096, 4160, 4224]"
proof -
  have c: "pool_create 4096 64 3 = Inr [4096, 4160, 4224]"
    by (simp add: pool_create_def ASSERT_def sizeof_node_def upt_rec)
  have "pool_use [4096, 4160, 4224] [4096] [4160, 4224]"
    by (rule taken [OF created]) (simp add: pool_allocate_def)
  from pool_partitions [OF c this] c show ?thesis by auto
qed

end
