(* ===== verification/NetBase.thy ===== *)
theory NetBase
  imports Fifo Posix Ram Pools
begin

text \<open>
  The base of the network stack: hardware addresses (\<^verbatim>\<open>exos/kernel/driver/net/net.c\<close>),
  message buffer chains (\<^verbatim>\<open>mbuf.c\<close>) and the table of resolved addresses
  (\<^verbatim>\<open>arp_tables.c\<close>).
\<close>

unbundle bit_operations_syntax

section \<open>Hardware addresses\<close>

type_synonym hw_addr = "u8 list"   \<comment> \<open>six bytes\<close>

fun equal_bytes :: "nat \<Rightarrow> nat \<Rightarrow> hw_addr \<Rightarrow> hw_addr \<Rightarrow> bool" where
  "equal_bytes i 0 a b = True"
| "equal_bytes i (Suc n) a b = (if a ! i \<noteq> b ! i then False else equal_bytes (i + 1) n a b)"

definition net_equal_hw_addr :: "hw_addr \<Rightarrow> hw_addr \<Rightarrow> bool" where
  "net_equal_hw_addr a b = equal_bytes 0 6 a b"

definition parse_hex :: "u8 \<Rightarrow> u8 option" where
  "parse_hex c = (if 65 \<le> c \<and> c \<le> 70 then Some (10 + (c - 65)) else if 48 \<le> c \<and> c \<le> 57 then Some (c - 48) else None)"

text \<open>The loop for byte \<open>6 - n\<close>: two digits and an optional colon; it gives up at the first character that is no digit.\<close>

fun hw_parse_loop :: "nat \<Rightarrow> cstring \<Rightarrow> hw_addr \<Rightarrow> bool \<times> hw_addr" where
  "hw_parse_loop 0 mac addr = (False, addr)"
| "hw_parse_loop (Suc n) mac addr =
     (case parse_hex (char_at mac 0) of
        None \<Rightarrow> (False, addr)
      | Some d1 \<Rightarrow> (case parse_hex (char_at mac 1) of
          None \<Rightarrow> (False, addr)
        | Some d2 \<Rightarrow>
            let addr1 = list_update addr (5 - n) (push_bit 4 d1 + d2)
            in if n = 0 then (True, addr1)
               else let m1 = drop 2 mac; m2 = (if char_at m1 0 = 58 then tl m1 else m1) in hw_parse_loop n m2 addr1))"

definition net_hw_addr_parse :: "hw_addr \<Rightarrow> cstring \<Rightarrow> bool \<times> hw_addr" where
  "net_hw_addr_parse addr mac = hw_parse_loop 6 mac addr"

section \<open>Message buffers\<close>

text \<open>
  A chain is the list of its buffers from the first one on, each with its identity; data lives in
  memory, and offsets and lengths are C integers.
\<close>

record mbuf =
  mb_id :: nat
  mb_Buffer :: nat
  mb_Offset :: int
  mb_Length :: int

definition net_mbuf_init :: "nat \<Rightarrow> nat \<Rightarrow> int \<Rightarrow> int \<Rightarrow> mbuf list" where
  "net_mbuf_init i data offset len = [\<lparr>mb_id = i, mb_Buffer = data, mb_Offset = offset, mb_Length = len\<rparr>]"

fun net_mbuf_append :: "mbuf list \<Rightarrow> mbuf list \<Rightarrow> bool \<times> mbuf list" where
  "net_mbuf_append [] app = (True, app)"
| "net_mbuf_append (b # bs) app =
     (if app \<noteq> [] \<and> mb_id b = mb_id (hd app) then (False, b # bs)
      else case net_mbuf_append bs app of (r, c) \<Rightarrow> (r, b # c))"

fun net_mbuf_length :: "mbuf list \<Rightarrow> int" where
  "net_mbuf_length [] = 0"
| "net_mbuf_length (b # bs) = mb_Length b + net_mbuf_length bs"

fun net_mbuf_seek :: "mbuf list \<Rightarrow> int \<Rightarrow> mbuf list option" where
  "net_mbuf_seek [] seek = None"
| "net_mbuf_seek (b # bs) seek =
     (if mb_Offset b + seek < mb_Length b then Some (b\<lparr>mb_Offset := mb_Offset b + seek\<rparr> # bs)
      else net_mbuf_seek bs (seek - (mb_Length b - mb_Offset b)))"

text \<open>\<^verbatim>\<open>net_mbuf_copy_mem\<close>: half-words first, then an odd byte.\<close>

fun net_mbuf_copy_mem :: "nat \<Rightarrow> nat \<Rightarrow> nat \<Rightarrow> ram \<Rightarrow> ram" where
  "net_mbuf_copy_mem src dst n m =
     (if n \<ge> 2 then net_mbuf_copy_mem (src + 2) (dst + 2) (n - 2) (m(dst := m src, dst + 1 := m (src + 1)))
      else if n \<noteq> 0 then m(dst := m src) else m)"

declare net_mbuf_copy_mem.simps [simp del]

definition mb_ptr :: "mbuf \<Rightarrow> nat" where
  "mb_ptr b = nat (int (mb_Buffer b) + mb_Offset b)"

text \<open>
  The copy loop: remaining length and pointer of the current target and source, and the buffers behind
  them.
\<close>

function mbuf_copy_loop ::
  "int \<Rightarrow> nat \<Rightarrow> mbuf list \<Rightarrow> int \<Rightarrow> nat \<Rightarrow> mbuf list \<Rightarrow> int \<Rightarrow> ram \<Rightarrow> int \<times> ram" where
  "mbuf_copy_loop tlen tptr ts slen sptr ss copied m =
     (let len = (if tlen < slen then tlen else slen);
          m1 = net_mbuf_copy_mem sptr tptr (nat (len mod 2 ^ 32)) m;
          sptr1 = nat (int sptr + len); tptr1 = nat (int tptr + len);
          tlen1 = tlen - len; slen1 = slen - len; copied1 = copied + len
      in if tlen1 \<le> 0
         then case ts of
                [] \<Rightarrow> (copied1, m1)
              | t # ts' \<Rightarrow>
                  if slen1 \<le> 0
                  then case ss of
                         [] \<Rightarrow> (copied1, m1)
                       | s # ss' \<Rightarrow> mbuf_copy_loop (mb_Length t) (mb_ptr t) ts' (mb_Length s) (mb_ptr s) ss' copied1 m1
                  else mbuf_copy_loop (mb_Length t) (mb_ptr t) ts' slen1 sptr1 ss copied1 m1
         else if slen1 \<le> 0
              then case ss of
                     [] \<Rightarrow> (copied1, m1)
                   | s # ss' \<Rightarrow> mbuf_copy_loop tlen1 tptr1 ts (mb_Length s) (mb_ptr s) ss' copied1 m1
              else mbuf_copy_loop tlen1 tptr1 ts slen1 sptr1 ss copied1 m1)"
  by pat_completeness auto
termination
  by (relation "measure (\<lambda>(_, _, ts, _, _, ss, _). length ts + length ss)") (auto split: if_splits)

declare mbuf_copy_loop.simps [simp del]

definition net_mbuf_copy_contents :: "mbuf list \<Rightarrow> mbuf list \<Rightarrow> ram \<Rightarrow> int \<times> ram" where
  "net_mbuf_copy_contents target source m =
     (case target of
        [] \<Rightarrow> (0, m)
      | t # ts \<Rightarrow> (case source of
          [] \<Rightarrow> (0, m)
        | s # ss \<Rightarrow> mbuf_copy_loop (mb_Length t) (mb_ptr t) ts (mb_Length s) (mb_ptr s) ss 0 m))"

section \<open>The table of resolved addresses\<close>

datatype ARP_ENTRY_STATE = ARP_ENTRY_INVALID | ARP_ENTRY_PENDING | ARP_ENTRY_VALID

record ARP_ENTRY =
  AMac :: hw_addr
  AState :: ARP_ENTRY_STATE
  ATime :: u32
  AIp :: u32
  AEvent :: "eid option"

abbreviation (input) NET_ARP_TABLE_SIZE :: nat where "NET_ARP_TABLE_SIZE \<equiv> 16"

record arp_tables =
  table :: "ARP_ENTRY list"
  arp_time :: u32

definition net_arp_tables_initialize :: "arp_tables \<Rightarrow> arp_tables" where
  "net_arp_tables_initialize a = a\<lparr>table := map (\<lambda>e. e\<lparr>AState := ARP_ENTRY_INVALID, AIp := 0\<rparr>) (table a)\<rparr>"

text \<open>The search for the entry to use: the index of the best candidate so far and its age.\<close>

fun arp_target :: "u32 \<Rightarrow> u32 \<Rightarrow> nat \<Rightarrow> ARP_ENTRY list \<Rightarrow> nat option \<Rightarrow> u32 \<Rightarrow> nat option" where
  "arp_target ip time i [] target best = target"
| "arp_target ip time i (e # es) target best =
     (if AState e = ARP_ENTRY_INVALID \<or> ip = AIp e then Some i
      else let age = time - ATime e
           in if age < best then arp_target ip time (i + 1) es (Some i) age
              else arp_target ip time (i + 1) es target best)"

definition net_arp_tables_set_entry ::
  "u32 \<Rightarrow> hw_addr \<Rightarrow> ARP_ENTRY_STATE \<Rightarrow> eid option \<Rightarrow> arp_tables \<Rightarrow> kernel \<Rightarrow> (nat option \<times> arp_tables \<times> kernel) res" where
  "net_arp_tables_set_entry ip mac state event a k =
     (let time = arp_time a + 1; a1 = a\<lparr>arp_time := time\<rparr> in
      case arp_target ip time 0 (table a1) None (- 1) of
        None \<Rightarrow> Inr (None, a1, k)
      | Some i \<Rightarrow>
          let target = table a1 ! i;
              pending_event = (if AState target = ARP_ENTRY_PENDING then AEvent target else None);
              a2 = a1\<lparr>table := (table a1)[i := \<lparr>AMac = mac, AState = state, ATime = time, AIp = ip, AEvent = event\<rparr>]\<rparr>
          in rbind (if state = ARP_ENTRY_VALID then when_event exos_event_set pending_event k else Inr k)
               (\<lambda>k1. Inr (Some i, a2, k1)))"

fun arp_lookup :: "u32 \<Rightarrow> ARP_ENTRY list \<Rightarrow> hw_addr option" where
  "arp_lookup ip [] = None"
| "arp_lookup ip (e # es) = (if AState e = ARP_ENTRY_VALID \<and> AIp e = ip then Some (AMac e) else arp_lookup ip es)"

definition net_arp_tables_get_hw_addr :: "u32 \<Rightarrow> arp_tables \<Rightarrow> hw_addr option" where
  "net_arp_tables_get_hw_addr ip a = arp_lookup ip (table a)"

section \<open>Parsing an address\<close>

text \<open>The text of an address: two upper-case digits per byte, a colon between bytes.\<close>

definition hex_char :: "u8 \<Rightarrow> u8" where
  "hex_char d = (if d < 10 then 48 + d else 55 + d)"

fun hw_text :: "hw_addr \<Rightarrow> cstring" where
  "hw_text [] = []"
| "hw_text [b] = [hex_char (drop_bit 4 b), hex_char (take_bit 4 b)]"
| "hw_text (b # bs) = [hex_char (drop_bit 4 b), hex_char (take_bit 4 b), 58] @ hw_text bs"

lemma parse_hex_char: "d < 16 \<Longrightarrow> parse_hex (hex_char d) = Some d"
  by (auto simp: parse_hex_def hex_char_def word_less_nat_alt word_le_nat_alt unat_word_ariths unat_sub_if' word_unat_eq_iff split: if_splits)

lemma nibble_less:
  fixes b :: u8
  shows "take_bit 4 b < 16" "drop_bit 4 b < 16"
  using unsigned_less[of b, where 'a = nat] by (auto simp: word_less_nat_alt unsigned_take_bit_eq unat_drop_bit_eq take_bit_eq_mod drop_bit_eq_div unat_mod unat_div)

lemma nibbles_join:
  fixes b :: u8
  shows "push_bit 4 (drop_bit 4 b) + take_bit 4 b = b"
  using bits_ident [of 4 b] by simp

lemma hw_parse_step:
  assumes "parse_hex x = Some d1" "parse_hex y = Some d2"
  shows "hw_parse_loop (Suc (Suc n)) (x # y # 58 # s) addr = hw_parse_loop (Suc n) s (addr[4 - n := push_bit 4 d1 + d2])"
  using assms by (subst hw_parse_loop.simps) (simp add: char_at_def del: hw_parse_loop.simps)

lemma hw_parse_text:
  "length bs = Suc n \<Longrightarrow> n < 6 \<Longrightarrow> length addr = 6 \<Longrightarrow>
   hw_parse_loop (Suc n) (hw_text bs @ rest) addr = (True, take (5 - n) addr @ bs)"
proof (induction n arbitrary: bs addr)
  case 0
  then obtain b where "bs = [b]" by (cases bs) auto
  moreover have "addr[5 := b] = take 5 addr @ [b]"
    using 0 by (simp add: list_eq_iff_nth_eq nth_append nth_list_update less_Suc_eq)
  ultimately show ?case by (simp add: char_at_def parse_hex_char nibble_less nibbles_join)
next
  case (Suc n)
  then obtain b bs' where bs: "bs = b # bs'" "length bs' = Suc n" by (cases bs) auto
  then obtain c cs where "bs' = c # cs" by (cases bs') auto
  with bs have text_eq: "hw_text bs = [hex_char (drop_bit 4 b), hex_char (take_bit 4 b), 58] @ hw_text bs'" by simp
  have "take (5 - n) (addr[5 - Suc n := b]) = take (5 - Suc n) addr @ [b]"
    using Suc.prems by (simp add: list_eq_iff_nth_eq nth_append nth_list_update less_Suc_eq) arith
  with Suc.IH [OF bs(2), of "addr[5 - Suc n := b]"] Suc.prems bs(2) show ?case
    by (simp add: text_eq hw_parse_step parse_hex_char nibble_less nibbles_join bs(1) [symmetric] del: hw_text.simps hw_parse_loop.simps)
qed

text \<open>\<^verbatim>\<open>net_hw_addr_parse\<close> reads the text of every address (upper-case digits, colons) back to that address.\<close>

theorem hw_addr_roundtrip:
  assumes "length a = 6" and "length addr = 6"
  shows "net_hw_addr_parse addr (hw_text a @ rest) = (True, a)"
  using hw_parse_text [of a 5 addr rest] assms by (simp add: net_hw_addr_parse_def)


theorem hw_addr_roundtrip_witness:
  "net_hw_addr_parse (replicate 6 0) (hw_text [0x00, 0x1A, 0xF0, 9, 0xFF, 0xC4] @ [0]) = (True, [0x00, 0x1A, 0xF0, 9, 0xFF, 0xC4])"
  by (rule hw_addr_roundtrip) simp_all

section \<open>Copying message buffers\<close>

text \<open>The addresses of the data of a chain, and the copy of one address list to another, byte by byte.\<close>

definition mb_addrs :: "mbuf \<Rightarrow> nat list" where
  "mb_addrs b = [mb_ptr b..<mb_ptr b + nat (mb_Length b)]"

definition chain_addrs :: "mbuf list \<Rightarrow> nat list" where
  "chain_addrs bs = concat (map mb_addrs bs)"

fun byte_copy :: "nat list \<Rightarrow> nat list \<Rightarrow> ram \<Rightarrow> ram" where
  "byte_copy (d # ds) (s # ss) m = byte_copy ds ss (m(d := m s))"
| "byte_copy _ _ m = m"

lemma byte_copy_Nil [simp]: "byte_copy ds [] m = m"
  by (cases ds) auto

lemma byte_copy_append:
  "length d1 = length s1 \<Longrightarrow> byte_copy (d1 @ d2) (s1 @ s2) m = byte_copy d2 s2 (byte_copy d1 s1 m)"
  by (induction d1 s1 arbitrary: m rule: list_induct2) auto

lemma byte_copy_other: "x \<notin> set (take (length s) d) \<Longrightarrow> byte_copy d s m x = m x"
  by (induction d s m rule: byte_copy.induct) auto

lemma byte_copy_reads:
  "distinct d \<Longrightarrow> set d \<inter> set s = {} \<Longrightarrow> map (byte_copy d s m) (take (length s) d) = map m (take (length d) s)"
proof (induction d s m rule: byte_copy.induct)
  case (1 d ds s ss m)
  have "byte_copy ds ss (m(d := m s)) d = m s"
    using 1 byte_copy_other [of d ss ds "m(d := m s)"] by (auto dest: in_set_takeD)
  moreover have "map (byte_copy ds ss (m(d := m s))) (take (length ss) ds) = map (m(d := m s)) (take (length ds) ss)"
    by (rule "1.IH") (use 1 in auto)
  moreover have "map (m(d := m s)) (take (length ds) ss) = map m (take (length ds) ss)"
    using 1 by (auto dest: in_set_takeD)
  ultimately show ?case by (simp only: byte_copy.simps list.size list.map add_Suc_right add_0_right take_Suc_Cons)
qed auto

lemma copy_mem_bytes:
  "{dst..<dst + n} \<inter> {src..<src + n} = {} \<Longrightarrow>
   net_mbuf_copy_mem src dst n m = byte_copy [dst..<dst + n] [src..<src + n] m"
proof (induction src dst n m rule: net_mbuf_copy_mem.induct)
  case (1 src dst n m)
  show ?case
  proof (cases "n \<ge> 2")
    case True
    then obtain k where n: "n = Suc (Suc k)" by (metis add_2_eq_Suc le_Suc_ex)
    have ne: "src + 1 \<noteq> dst" using 1(2) n by auto
    have rest: "n - 2 = k" using n by simp
    have apart: "{dst + 2..<dst + 2 + k} \<inter> {src + 2..<src + 2 + k} = {}" using 1(2) n by auto
    have "net_mbuf_copy_mem src dst n m = net_mbuf_copy_mem (src + 2) (dst + 2) k (m(dst := m src, dst + 1 := m (src + 1)))"
      using n by (subst net_mbuf_copy_mem.simps) simp
    also have "\<dots> = byte_copy [dst + 2..<dst + 2 + k] [src + 2..<src + 2 + k] (m(dst := m src, dst + 1 := m (src + 1)))"
      by (rule 1(1) [OF True, unfolded rest, OF apart])
    finally show ?thesis using n ne by (simp add: upt_conv_Cons del: upt_Suc)
  next
    case False
    then have "n = 0 \<or> n = 1" by auto
    then show ?thesis by (subst net_mbuf_copy_mem.simps) auto
  qed
qed

lemma copy_mem_take:
  "set T \<inter> set S = {} \<Longrightarrow> take n T = [dst..<dst + n] \<Longrightarrow> take n S = [src..<src + n] \<Longrightarrow>
   net_mbuf_copy_mem src dst n m = byte_copy (take n T) (take n S) m"
  using copy_mem_bytes [of dst n src m] set_take_subset [of n T] set_take_subset [of n S]
  by (metis disjoint_iff set_upt subsetD)

text \<open>The addresses still to be visited: the rest of the current buffer and the buffers behind it.\<close>

definition run :: "nat \<Rightarrow> int \<Rightarrow> mbuf list \<Rightarrow> nat list" where
  "run p len bs = [p..<p + nat len] @ chain_addrs bs"

definition mbufs_ok :: "mbuf list \<Rightarrow> bool" where
  "mbufs_ok bs = list_all (\<lambda>b. 0 \<le> mb_Length b \<and> mb_Length b < 2 ^ 31) bs"

lemma chain_addrs_Cons: "chain_addrs (b # bs) = run (mb_ptr b) (mb_Length b) bs"
  by (simp add: chain_addrs_def run_def mb_addrs_def)

lemma chain_addrs_Nil [simp]: "chain_addrs [] = []"
  by (simp add: chain_addrs_def)

lemma mbufs_ok_Cons [simp]: "mbufs_ok (b # bs) = (0 \<le> mb_Length b \<and> mb_Length b < 2 ^ 31 \<and> mbufs_ok bs)"
  by (simp add: mbufs_ok_def)

lemma run_split: "0 \<le> n \<Longrightarrow> n \<le> len \<Longrightarrow> run p len bs = [p..<p + nat n] @ run (nat (int p + n)) (len - n) bs"
  using upt_add_eq_append [of p "p + nat n" "nat (len - n)"]
  by (simp add: run_def nat_add_distrib nat_diff_distrib nat_mono)

lemma run_empty: "len \<le> 0 \<Longrightarrow> run p len bs = chain_addrs bs"
  by (simp add: run_def)

lemma copy_loop_bytes:
  "\<lbrakk>0 \<le> tlen; tlen < 2 ^ 31; 0 \<le> slen; slen < 2 ^ 31; mbufs_ok ts; mbufs_ok ss;
    set (run tptr tlen ts) \<inter> set (run sptr slen ss) = {}\<rbrakk> \<Longrightarrow>
   mbuf_copy_loop tlen tptr ts slen sptr ss copied m =
     (copied + int (min (length (run tptr tlen ts)) (length (run sptr slen ss))),
      byte_copy (run tptr tlen ts) (run sptr slen ss) m)"
proof (induction "length ts + length ss" arbitrary: tlen tptr ts slen sptr ss copied m rule: less_induct)
  case (less ts ss tlen tptr slen sptr copied m)
  define n where "n = (if tlen < slen then tlen else slen)"
  define m1 where "m1 = net_mbuf_copy_mem sptr tptr (nat n) m"
  define T where "T = run (nat (int tptr + n)) (tlen - n) ts"
  define S where "S = run (nat (int sptr + n)) (slen - n) ss"
  have n: "0 \<le> n" "n \<le> tlen" "n \<le> slen" "n mod 4294967296 = n"
    using less.prems by (auto simp: n_def)
  have sp: "run tptr tlen ts = [tptr..<tptr + nat n] @ T" "run sptr slen ss = [sptr..<sptr + nat n] @ S"
    using n by (auto simp: T_def S_def run_split)
  have m1: "m1 = byte_copy [tptr..<tptr + nat n] [sptr..<sptr + nat n] m"
    unfolding m1_def by (rule copy_mem_bytes) (use less.prems(7) sp in \<open>simp add: Int_Un_distrib Int_Un_distrib2\<close>)
  have ap: "set T \<inter> set S = {}" using less.prems(7) sp by auto
  have "mbuf_copy_loop tlen tptr ts slen sptr ss copied m = (copied + n + int (min (length T) (length S)), byte_copy T S m1)"
  proof (cases "tlen - n \<le> 0")
    case True
    then have T: "T = chain_addrs ts" by (simp add: T_def run_empty)
    show ?thesis
    proof (cases ts)
      case Nil
      with True T show ?thesis
        by (subst mbuf_copy_loop.simps) (simp add: Let_def n m1_def flip: n_def)
    next
      case (Cons t ts')
      note T' = T [unfolded Cons chain_addrs_Cons]
      show ?thesis
      proof (cases "slen - n \<le> 0")
        case False
        then show ?thesis
          using True Cons less.hyps [of ts' ss "mb_Length t" "slen - n" "mb_ptr t" "nat (int sptr + n)" "copied + n" m1] less.prems n ap T'
          by (subst mbuf_copy_loop.simps) (simp add: Let_def m1_def S_def flip: n_def)
      next
        case sTrue: True
        then have S: "S = chain_addrs ss" by (simp add: S_def run_empty)
        show ?thesis
        proof (cases ss)
          case Nil
          with True sTrue Cons S show ?thesis
            by (subst mbuf_copy_loop.simps) (simp add: Let_def n m1_def flip: n_def)
        next
          case sCons: (Cons s ss')
          then show ?thesis
            using True sTrue Cons less.hyps [of ts' ss' "mb_Length t" "mb_Length s" "mb_ptr t" "mb_ptr s" "copied + n" m1] less.prems n ap T'
              S [unfolded sCons chain_addrs_Cons]
            by (subst mbuf_copy_loop.simps) (simp add: Let_def m1_def flip: n_def)
        qed
      qed
    qed
  next
    case False
    then have sle: "slen - n \<le> 0" "n = slen" by (auto simp: n_def split: if_splits)
    then have S: "S = chain_addrs ss" by (simp add: S_def run_empty)
    show ?thesis
    proof (cases ss)
      case Nil
      with False sle S n show ?thesis
        by (subst mbuf_copy_loop.simps) (simp add: Let_def m1_def)
    next
      case (Cons s ss')
      then show ?thesis
        using False sle less.hyps [of ts ss' "tlen - n" "mb_Length s" "nat (int tptr + n)" "mb_ptr s" "copied + n" m1] less.prems n ap
          S [unfolded Cons chain_addrs_Cons]
        by (subst mbuf_copy_loop.simps) (simp add: Let_def m1_def T_def flip: n_def)
    qed
  qed
  then show ?case using n by (simp add: sp m1 byte_copy_append min_def)
qed

text \<open>C20: Copying one buffer chain to another moves as many bytes as both chains hold, whatever the cut of
  either chain into buffers: the target chain then starts with the bytes of the source chain, and no
  other byte of the memory changes.
\<close>

theorem mbuf_copy_transfers:
  assumes "mbufs_ok target" and "mbufs_ok source" and "distinct (chain_addrs target)"
    and "set (chain_addrs target) \<inter> set (chain_addrs source) = {}"
    and "net_mbuf_copy_contents target source m = (copied, m')"
  shows "let n = min (length (chain_addrs target)) (length (chain_addrs source))
         in copied = int n
          \<and> map m' (take n (chain_addrs target)) = map m (take n (chain_addrs source))
          \<and> (\<forall>x. x \<notin> set (take n (chain_addrs target)) \<longrightarrow> m' x = m x)"
proof -
  let ?T = "chain_addrs target" and ?S = "chain_addrs source"
  have "(copied, m') = (int (min (length ?T) (length ?S)), byte_copy ?T ?S m)"
    using assms by (cases target; cases source)
      (auto simp: net_mbuf_copy_contents_def chain_addrs_Cons copy_loop_bytes)
  moreover have "take (length ?S) ?T = take (min (length ?T) (length ?S)) ?T"
    and "take (length ?T) ?S = take (min (length ?T) (length ?S)) ?S"
    by (simp_all add: min_def)
  ultimately show ?thesis
    using byte_copy_reads [OF assms(3,4), of m] byte_copy_other [of _ ?S ?T m] by (simp add: Let_def)
qed

theorem mbuf_copy_transfers_witness:
  "let target = net_mbuf_init 5 100 0 3 @ net_mbuf_init 2 200 4 4; source = net_mbuf_init 3 300 1 2 @ net_mbuf_init 4 400 0 4
   in map (snd (net_mbuf_copy_contents target source (\<lambda>a. of_nat a))) [100, 101, 102, 204, 205, 206, 207]
      = [45, 46, 144, 145, 146, 147, 207]"
proof -
  let ?t = "net_mbuf_init 5 100 0 3 @ net_mbuf_init 2 200 4 4" and ?s = "net_mbuf_init 3 300 1 2 @ net_mbuf_init 4 400 0 4"
  let ?m = "\<lambda>a. of_nat a :: u8"
  have at: "chain_addrs ?t = [100, 101, 102, 204, 205, 206, 207]" "chain_addrs ?s = [301, 302, 400, 401, 402, 403]"
    by (simp_all add: chain_addrs_def mb_addrs_def mb_ptr_def net_mbuf_init_def upt_rec)
  have "mbufs_ok ?t" "mbufs_ok ?s" by (simp_all add: mbufs_ok_def net_mbuf_init_def)
  from mbuf_copy_transfers [OF this, of ?m "fst (net_mbuf_copy_contents ?t ?s ?m)" "snd (net_mbuf_copy_contents ?t ?s ?m)"]
  show ?thesis by (simp add: at Let_def)
qed

section \<open>Resolved addresses\<close>

text \<open>
  The table: used entries with distinct addresses in front, invalid entries behind them.
\<close>

definition arp_entries_ok :: "ARP_ENTRY list \<Rightarrow> bool" where
  "arp_entries_ok es = (\<exists>used free. es = used @ free \<and> distinct (map AIp used)
     \<and> list_all (\<lambda>e. AState e \<noteq> ARP_ENTRY_INVALID) used \<and> list_all (\<lambda>e. AState e = ARP_ENTRY_INVALID) free)"

lemma arp_target_hit:
  assumes "list_all (\<lambda>e. AState e \<noteq> ARP_ENTRY_INVALID \<and> AIp e \<noteq> ip) pre"
    and "AState e = ARP_ENTRY_INVALID \<or> AIp e = ip"
  shows "arp_target ip time i (pre @ e # post) t best = Some (i + length pre)"
  using assms by (induction pre arbitrary: i t best) (auto simp: Let_def)

text \<open>Without a free or equal entry the search returns the entry with the smallest age.\<close>

lemma arp_target_youngest:
  assumes "list_all (\<lambda>e. AState e \<noteq> ARP_ENTRY_INVALID \<and> AIp e \<noteq> ip) es"
    and "arp_target ip time i es t best = Some j"
  shows "t = Some j \<and> list_all (\<lambda>e. best \<le> time - ATime e) es
       \<or> (i \<le> j \<and> j < i + length es \<and> time - ATime (es ! (j - i)) < best
          \<and> list_all (\<lambda>e. time - ATime (es ! (j - i)) \<le> time - ATime e) es)"
  using assms
proof (induction es arbitrary: i t best)
  case Nil
  then show ?case by simp
next
  case (Cons e es)
  then have busy: "AState e \<noteq> ARP_ENTRY_INVALID" "AIp e \<noteq> ip" and es: "list_all (\<lambda>e. AState e \<noteq> ARP_ENTRY_INVALID \<and> AIp e \<noteq> ip) es"
    by auto
  show ?case
  proof (cases "time - ATime e < best")
    case True
    with Cons.prems busy have "arp_target ip time (i + 1) es (Some i) (time - ATime e) = Some j" by (auto simp: Let_def)
    from Cons.IH [OF es this] True show ?thesis
      by (auto simp: nth_Cons' list_all_iff intro: less_imp_le le_less_trans less_le_trans)
  next
    case False
    with Cons.prems busy have "arp_target ip time (i + 1) es t best = Some j" by (auto simp: Let_def)
    from Cons.IH [OF es this] False show ?thesis
      by (auto simp: nth_Cons' list_all_iff intro: less_imp_le le_less_trans less_le_trans)
  qed
qed

lemma arp_lookup_append: "arp_lookup ip (xs @ ys) = (case arp_lookup ip xs of None \<Rightarrow> arp_lookup ip ys | r \<Rightarrow> r)"
  by (induction xs) auto

lemma arp_lookup_none: "list_all (\<lambda>e. AState e = ARP_ENTRY_INVALID \<or> AIp e \<noteq> ip) es \<Longrightarrow> arp_lookup ip es = None"
  by (induction es) auto

definition busy_entry :: "u32 \<Rightarrow> ARP_ENTRY \<Rightarrow> bool" where
  "busy_entry ip e = (AState e \<noteq> ARP_ENTRY_INVALID \<and> AIp e \<noteq> ip)"

lemma arp_entries_okI:
  "distinct (map AIp used) \<Longrightarrow> list_all (\<lambda>e. AState e \<noteq> ARP_ENTRY_INVALID) used \<Longrightarrow>
   list_all (\<lambda>e. AState e = ARP_ENTRY_INVALID) free \<Longrightarrow> arp_entries_ok (used @ free)"
  by (auto simp: arp_entries_ok_def)

text \<open>The entry the search returns, and the entries around it.\<close>

lemma arp_pick:
  assumes "arp_entries_ok es" and "arp_target ip time 0 es None best = Some i"
  obtains pre e post where "es = pre @ e # post" "i = length pre"
    "list_all (\<lambda>x. AState x = ARP_ENTRY_INVALID \<or> AIp x \<noteq> ip) (pre @ post)"
    "\<forall>n. AIp n = ip \<longrightarrow> AState n \<noteq> ARP_ENTRY_INVALID \<longrightarrow> arp_entries_ok (pre @ n # post)"
    "AState e = ARP_ENTRY_INVALID \<or> AIp e = ip \<or> list_all (busy_entry ip) es"
    "AState e = ARP_ENTRY_INVALID \<or> list_all (\<lambda>x. AState x = ARP_ENTRY_INVALID \<or> AIp x \<noteq> AIp e) (pre @ post)"
proof -
  obtain used free where es: "es = used @ free" and d: "distinct (map AIp used)"
    and u: "list_all (\<lambda>e. AState e \<noteq> ARP_ENTRY_INVALID) used" and f: "list_all (\<lambda>e. AState e = ARP_ENTRY_INVALID) free"
    using assms(1) by (auto simp: arp_entries_ok_def)
  show ?thesis
  proof (cases "ip \<in> AIp ` set used")
    case True
    then obtain u1 e u2 where used: "used = u1 @ e # u2" "AIp e = ip" by (auto dest!: split_list)
    have "list_all (\<lambda>e. AState e \<noteq> ARP_ENTRY_INVALID \<and> AIp e \<noteq> ip) u1" using d u used by (fastforce simp: list_all_iff image_iff)
    then have i: "i = length u1" using arp_target_hit [of ip u1 e time 0 "u2 @ free"] assms(2) used es by simp
    have ok: "arp_entries_ok (u1 @ n # u2 @ free)" if "AIp n = ip" "AState n \<noteq> ARP_ENTRY_INVALID" for n
      using arp_entries_okI [of "u1 @ n # u2" free] d u f used that by simp
    show ?thesis
      by (rule that [of u1 e "u2 @ free"]) (use d u f used es i ok in \<open>auto simp: list_all_iff image_iff\<close>)
  next
    case False
    then have busy: "list_all (\<lambda>e. AState e \<noteq> ARP_ENTRY_INVALID \<and> AIp e \<noteq> ip) used" using u by (auto simp: list_all_iff)
    show ?thesis
    proof (cases free)
      case (Cons e fs)
      have i: "i = length used" using arp_target_hit [OF busy, of e time 0 fs] assms(2) es f Cons by simp
      have ok: "arp_entries_ok (used @ n # fs)" if "AIp n = ip" "AState n \<noteq> ARP_ENTRY_INVALID" for n
        using arp_entries_okI [of "used @ [n]" fs] d u f Cons that False by simp
      show ?thesis
        by (rule that [of used e fs]) (use d busy f Cons es i ok in \<open>auto simp: list_all_iff image_iff\<close>)
    next
      case Nil
      with es have es: "es = used" by simp
      have lt: "i < length used" using arp_target_youngest [OF busy, of time 0 None best i] assms(2) es by auto
      obtain pre e post where sp: "used = pre @ e # post" and i: "i = length pre"
        using id_take_nth_drop [OF lt] lt by (metis length_take less_imp_le min_absorb2)
      note facts = d [unfolded sp] busy [unfolded sp] False [unfolded sp]
      have ok: "arp_entries_ok (pre @ n # post)" if "AIp n = ip" "AState n \<noteq> ARP_ENTRY_INVALID" for n
        using arp_entries_okI [of "pre @ n # post" "[]"] facts that by (auto simp: list_all_iff)
      show ?thesis
        by (rule that [of pre e post]) (use facts ok es sp i in \<open>auto simp: list_all_iff busy_entry_def image_iff\<close>)
    qed
  qed
qed

lemma arp_lookup_busy: "list_all (\<lambda>e. AState e = ARP_ENTRY_INVALID \<or> AIp e \<noteq> ip) es \<Longrightarrow> arp_lookup ip (es @ fs) = arp_lookup ip fs"
  by (simp add: arp_lookup_append arp_lookup_none)

text \<open>The new entry, and the one it replaces: lookups in the two tables.\<close>

lemma arp_lookup_new:
  assumes "list_all (\<lambda>x. AState x = ARP_ENTRY_INVALID \<or> AIp x \<noteq> ip) (pre @ post)" and "AIp n = ip"
  shows "arp_lookup ip (pre @ n # post) = (if AState n = ARP_ENTRY_VALID then Some (AMac n) else None)"
  using assms by (simp add: arp_lookup_busy arp_lookup_none)

lemma arp_lookup_others:
  assumes "AIp n \<noteq> ip'" and "AState e = ARP_ENTRY_INVALID \<or> AIp e \<noteq> ip'"
  shows "arp_lookup ip' (pre @ n # post) = arp_lookup ip' (pre @ e # post)"
  using assms by (auto simp: arp_lookup_append split: option.splits)

lemma arp_lookup_evicted:
  assumes "AIp n \<noteq> AIp e" "list_all (\<lambda>x. AState x = ARP_ENTRY_INVALID \<or> AIp x \<noteq> AIp e) (pre @ post)"
  shows "arp_lookup (AIp e) (pre @ n # post) = None"
  using assms by (simp add: arp_lookup_busy arp_lookup_none)

lemma arp_set_entry_lookup:
  assumes "kernel_wf k" and "arp_entries_ok (table a)" and "state \<noteq> ARP_ENTRY_INVALID"
    and "net_arp_tables_set_entry ip mac state ev a k = Inr (Some i, a', k')"
  shows "kernel_wf k' \<and> arp_entries_ok (table a') \<and> length (table a') = length (table a)
    \<and> net_arp_tables_get_hw_addr ip a' = (if state = ARP_ENTRY_VALID then Some mac else None)
    \<and> (\<forall>ip'. ip' \<noteq> ip \<longrightarrow> net_arp_tables_get_hw_addr ip' a' = net_arp_tables_get_hw_addr ip' a
         \<or> list_all (busy_entry ip) (table a) \<and> ip' = AIp (table a ! i) \<and> net_arp_tables_get_hw_addr ip' a' = None)
    \<and> (\<forall>e. state = ARP_ENTRY_VALID \<longrightarrow> AState (table a ! i) = ARP_ENTRY_PENDING \<longrightarrow> AEvent (table a ! i) = Some e
         \<longrightarrow> \<not> AutoReset (events k e) \<longrightarrow> EvState (events k' e))"
proof -
  let ?n = "\<lparr>AMac = mac, AState = state, ATime = arp_time a + 1, AIp = ip, AEvent = ev\<rparr>"
  let ?pe = "if AState (table a ! i) = ARP_ENTRY_PENDING then AEvent (table a ! i) else None"
  have t: "arp_target ip (arp_time a + 1) 0 (table a) None (- 1) = Some i"
    and a': "table a' = (table a)[i := ?n]"
    and k': "(if state = ARP_ENTRY_VALID then when_event exos_event_set ?pe k else Inr k) = Inr k'"
    using assms(4) by (auto simp: net_arp_tables_set_entry_def Let_def rbind_def split: option.splits sum.splits)
  obtain pre e post where p: "table a = pre @ e # post" "i = length pre"
    "list_all (\<lambda>x. AState x = ARP_ENTRY_INVALID \<or> AIp x \<noteq> ip) (pre @ post)"
    "\<forall>n. AIp n = ip \<longrightarrow> AState n \<noteq> ARP_ENTRY_INVALID \<longrightarrow> arp_entries_ok (pre @ n # post)"
    "AState e = ARP_ENTRY_INVALID \<or> AIp e = ip \<or> list_all (busy_entry ip) (table a)"
    "AState e = ARP_ENTRY_INVALID \<or> list_all (\<lambda>x. AState x = ARP_ENTRY_INVALID \<or> AIp x \<noteq> AIp e) (pre @ post)"
    by (rule arp_pick [OF assms(2) t])
  have tab: "table a' = pre @ ?n # post" using a' p(1,2) by simp
  have "arp_lookup ip' (pre @ ?n # post) = arp_lookup ip' (pre @ e # post)
      \<or> list_all (busy_entry ip) (table a) \<and> ip' = AIp e \<and> arp_lookup ip' (pre @ ?n # post) = None" if "ip' \<noteq> ip" for ip'
    using arp_lookup_others [of ?n ip' e pre post] arp_lookup_evicted [of ?n e pre post] p(5,6) that by (cases "ip' = AIp e") auto
  moreover have "kernel_wf k' \<and> (\<forall>d. state = ARP_ENTRY_VALID \<longrightarrow> ?pe = Some d \<longrightarrow> \<not> AutoReset (events k d) \<longrightarrow> EvState (events k' d))"
    using when_event_set [OF assms(1), of ?pe] k' assms(1) by (auto split: if_splits)
  ultimately show ?thesis
    using arp_lookup_new [OF p(3), of ?n] p(4) assms(3)
    by (auto simp: net_arp_tables_get_hw_addr_def tab p(1,2))
qed

text \<open>Recording an address keeps the table well formed; a valid entry is what a lookup of its address
  then returns, every other address keeps its answer unless the table was full of other addresses and
  its entry was the one replaced, and a thread waiting for the pending entry gets its event set.
\<close>

theorem arp_set_get:
  assumes "kernel_wf k" and "arp_entries_ok (table a)" and "state \<noteq> ARP_ENTRY_INVALID"
    and "net_arp_tables_set_entry ip mac state ev a k = Inr (Some i, a', k')"
  shows "kernel_wf k' \<and> arp_entries_ok (table a') \<and> length (table a') = length (table a)
    \<and> net_arp_tables_get_hw_addr ip a' = (if state = ARP_ENTRY_VALID then Some mac else None)
    \<and> (\<forall>ip'. ip' \<noteq> ip \<longrightarrow> net_arp_tables_get_hw_addr ip' a' = net_arp_tables_get_hw_addr ip' a
         \<or> list_all (busy_entry ip) (table a) \<and> ip' = AIp (table a ! i) \<and> net_arp_tables_get_hw_addr ip' a' = None)
    \<and> (\<forall>e. state = ARP_ENTRY_VALID \<longrightarrow> AState (table a ! i) = ARP_ENTRY_PENDING \<longrightarrow> AEvent (table a ! i) = Some e
         \<longrightarrow> \<not> AutoReset (events k e) \<longrightarrow> EvState (events k' e))"
  using arp_set_entry_lookup [OF assms] .

definition sample_arp_entry :: "nat \<Rightarrow> ARP_ENTRY" where
  "sample_arp_entry i = \<lparr>AMac = replicate 6 (of_nat i), AState = ARP_ENTRY_VALID, ATime = of_nat (10 + i), AIp = of_nat i, AEvent = None\<rparr>"

definition sample_arp :: arp_tables where
  "sample_arp = \<lparr>table = [sample_arp_entry 1, (sample_arp_entry 2)\<lparr>AState := ARP_ENTRY_PENDING\<rparr>, (sample_arp_entry 3)\<lparr>AState := ARP_ENTRY_INVALID\<rparr>], arp_time = 20\<rparr>"

lemma sample_arp_ok: "arp_entries_ok (table sample_arp)"
  using arp_entries_okI [of "[sample_arp_entry 1, (sample_arp_entry 2)\<lparr>AState := ARP_ENTRY_PENDING\<rparr>]" "[(sample_arp_entry 3)\<lparr>AState := ARP_ENTRY_INVALID\<rparr>]"]
  by (simp add: sample_arp_def sample_arp_entry_def)

theorem arp_set_get_witness:
  "\<exists>a' k'. net_arp_tables_set_entry 2 [1, 2, 3, 4, 5, 6] ARP_ENTRY_VALID None sample_arp sample_kernel = Inr (Some 1, a', k')
     \<and> arp_entries_ok (table a') \<and> net_arp_tables_get_hw_addr 2 a' = Some [1, 2, 3, 4, 5, 6]"
proof -
  obtain a' k' where "net_arp_tables_set_entry 2 [1, 2, 3, 4, 5, 6] ARP_ENTRY_VALID None sample_arp sample_kernel = Inr (Some 1, a', k')"
    by (simp add: net_arp_tables_set_entry_def sample_arp_def sample_arp_entry_def rbind_def when_event_def)
  with arp_set_get [OF sample_kernel_wf sample_arp_ok _ this] show ?thesis by simp
qed

text \<open>When the table is full of other addresses, the entry that is replaced is the one that was set last
  (the comparison keeps the smallest age), so the oldest entries stay forever.
\<close>

theorem arp_evicts_youngest:
  assumes "list_all (busy_entry ip) (table a)"
    and "net_arp_tables_set_entry ip mac state ev a k = Inr (Some i, a', k')"
  shows "i < length (table a) \<and> list_all (\<lambda>e. arp_time a' - ATime (table a ! i) \<le> arp_time a' - ATime e) (table a)"
proof -
  have "arp_target ip (arp_time a + 1) 0 (table a) None (- 1) = Some i" "arp_time a' = arp_time a + 1"
    using assms(2) by (auto simp: net_arp_tables_set_entry_def Let_def rbind_def split: option.splits sum.splits)
  with arp_target_youngest [folded busy_entry_def, of ip "table a" "arp_time a + 1" 0 None "- 1" i] assms(1) show ?thesis
    by (auto simp: list_all_iff)
qed

theorem arp_evicts_youngest_witness:
  "let a = \<lparr>table = map sample_arp_entry [1, 2, 3], arp_time = 20\<rparr>
   in \<exists>a' k'. net_arp_tables_set_entry 9 [1, 2, 3, 4, 5, 6] ARP_ENTRY_VALID None a sample_kernel = Inr (Some 2, a', k')
      \<and> arp_time a' - ATime (table a ! 2) \<le> arp_time a' - ATime (sample_arp_entry 1)"
proof -
  let ?a = "\<lparr>table = map sample_arp_entry [1, 2, 3], arp_time = 20\<rparr>"
  have busy: "list_all (busy_entry 9) (table ?a)" by (simp add: busy_entry_def sample_arp_entry_def)
  obtain a' k' where "net_arp_tables_set_entry 9 [1, 2, 3, 4, 5, 6] ARP_ENTRY_VALID None ?a sample_kernel = Inr (Some 2, a', k')"
    by (simp add: net_arp_tables_set_entry_def sample_arp_entry_def rbind_def when_event_def)
  with arp_evicts_youngest [OF busy this] show ?thesis by auto
qed

end
