(* ===== verification/NetStack.thy ===== *)
theory NetStack
  imports NetBase Timers_Inv
begin

text \<open>
  The network stack over the adapters: buffers and adapters
  (\<^verbatim>\<open>exos/kernel/driver/net/adapter.c\<close>), protocol configuration, input and output of
  frames (\<^verbatim>\<open>net_service.c\<close>), address resolution (\<^verbatim>\<open>arp.c\<close>), datagrams
  (\<^verbatim>\<open>ip.c\<close>) and echo requests (\<^verbatim>\<open>icmp.c\<close>).  Frames are bytes of a memory, headers
  are read and written field by field at the offsets of the packed structures.  The functions of a
  driver (\<^verbatim>\<open>net_driver_t\<close>) are arguments.
\<close>

unbundle bit_operations_syntax

section \<open>Bytes of a header\<close>

definition NTOH16 :: "u8 \<Rightarrow> u8 \<Rightarrow> u16" where
  "NTOH16 msb lsb = ucast lsb OR push_bit 8 (ucast msb)"

definition HTON16 :: "u16 \<Rightarrow> u8 list" where
  "HTON16 v = [ucast (drop_bit 8 v), ucast v]"

definition net16 :: "nat \<Rightarrow> ram \<Rightarrow> u16" where
  "net16 a m = NTOH16 (m a) (m (a + 1))"

definition ip_value :: "nat \<Rightarrow> ram \<Rightarrow> u32" where
  "ip_value a m = le32 (load a 4 m)"

section \<open>State\<close>

record net_ip_config =
  Protocol :: u16
  IP :: u32
  IpMask :: u32

record net_adapter =
  AdMAC :: hw_addr
  Speed :: u16
  MaxFrameSize :: u16
  Driver :: nat
  NetData :: "net_ip_config list option"   \<comment> \<open>the wrapper with its \<^verbatim>\<open>ConfigList\<close>\<close>

record net_buffer =
  BAdapter :: "nat option"
  Root :: mbuf

record 'd net =
  adapters :: "nat \<Rightarrow> net_adapter"
  adapter_list :: "nat list"       \<comment> \<open>\<^verbatim>\<open>_adapters\<close>\<close>
  buffer_pool :: "nat list"        \<comment> \<open>\<^verbatim>\<open>_buffer_pool\<close>\<close>
  buffers :: "nat \<Rightarrow> net_buffer"   \<comment> \<open>the \<^verbatim>\<open>net_buffer_t\<close> at the start of a pool item\<close>
  ram :: ram
  arp :: arp_tables
  packet_id :: u32
  flush_event :: eid
  net_kernel :: kernel
  driver_data :: 'd

record 'd net_driver =
  Initialize :: "nat \<Rightarrow> nat \<Rightarrow> 'd net \<Rightarrow> (bool \<times> 'd net) res"
  Start :: "(nat \<Rightarrow> 'd net \<Rightarrow> 'd net res) option"
  GetInputBuffer :: "nat \<Rightarrow> 'd net \<Rightarrow> (nat option \<times> 'd net) res"
  SendOutputBuffer :: "nat \<Rightarrow> nat \<Rightarrow> 'd net \<Rightarrow> (bool \<times> 'd net) res"
  FreeBuffer :: "(nat \<Rightarrow> nat \<Rightarrow> 'd net \<Rightarrow> (bool \<times> 'd net) res) option"
  Flush :: "(nat \<Rightarrow> 'd net \<Rightarrow> 'd net res) option"

type_synonym 'd drivers = "nat \<Rightarrow> 'd net_driver"

abbreviation (input) ETH_TYPE_ARP :: u16 where "ETH_TYPE_ARP \<equiv> 0x0806"
abbreviation (input) ETH_TYPE_IP :: u16 where "ETH_TYPE_IP \<equiv> 0x0800"
abbreviation (input) IP_PROTOCOL_ICMP :: u8 where "IP_PROTOCOL_ICMP \<equiv> 1"
abbreviation (input) BUFFER_MAX_FRAME_SIZE :: u16 where "BUFFER_MAX_FRAME_SIZE \<equiv> 1536"

text \<open>\<^verbatim>\<open>sizeof(net_buffer_t)\<close>: a node, a pointer and a message buffer of four words.\<close>

definition sizeof_net_buffer :: nat where
  "sizeof_net_buffer = sizeof_node + 4 + 16"

section \<open>Adapters\<close>

definition net_adapter_initialize :: "nat \<Rightarrow> nat \<Rightarrow> 'd net \<Rightarrow> 'd net res" where
  "net_adapter_initialize pool_buffer count n =
     rbind (pool_create pool_buffer (sizeof_net_buffer + 1536) count)
       (\<lambda>items. Inr (n\<lparr>adapter_list := [], buffer_pool := items\<rparr>))"

text \<open>The driver fills in the frame size; the name it also sets is not modelled.\<close>

definition net_adapter_create :: "'d drivers \<Rightarrow> nat \<Rightarrow> nat \<Rightarrow> nat \<Rightarrow> 'd net \<Rightarrow> (bool \<times> 'd net) res" where
  "net_adapter_create drv adapter driver phy_unit n =
     rbind (Initialize (drv driver) adapter phy_unit
       (n\<lparr>adapters := (adapters n)(adapter := \<lparr>AdMAC = replicate 6 0, Speed = 0, MaxFrameSize = 0, Driver = driver, NetData = None\<rparr>)\<rparr>))
       (\<lambda>(ok, n1). if ok then ASSERT (MaxFrameSize (adapters n1 adapter) \<noteq> 0) KERNEL_ERROR_NULL_POINTER (Inr (True, n1))
                    else Inr (False, n1))"

definition net_adapter_enum :: "nat option \<Rightarrow> 'd net \<Rightarrow> nat option" where
  "net_adapter_enum cur n =
     (case cur of
        None \<Rightarrow> (case adapter_list n of [] \<Rightarrow> None | a # _ \<Rightarrow> Some a)
      | Some a \<Rightarrow> if a \<notin> set (adapter_list n) then None else succ_in a (adapter_list n))"

definition net_adapter_alloc_buffer :: "nat \<Rightarrow> 'd net \<Rightarrow> (nat option \<times> 'd net) res" where
  "net_adapter_alloc_buffer adapter n =
     (let maxframesize = MaxFrameSize (adapters n adapter) in
      ASSERT (maxframesize \<noteq> 0 \<and> maxframesize \<le> BUFFER_MAX_FRAME_SIZE) KERNEL_ERROR_KERNEL_PANIC
        (case pool_allocate (buffer_pool n) of
           (Some buf, pool) \<Rightarrow>
             Inr (Some buf, n\<lparr>buffer_pool := pool, buffers := (buffers n)(buf :=
               \<lparr>BAdapter = Some adapter, Root = hd (net_mbuf_init buf (buf + sizeof_net_buffer) 0 (uint maxframesize))\<rparr>)\<rparr>)
         | (None, pool) \<Rightarrow>
             rbind (exos_event_set (flush_event n) (net_kernel n)) (\<lambda>k. Inr (None, n\<lparr>net_kernel := k\<rparr>))))"

definition net_adapter_free_buffer :: "'d drivers \<Rightarrow> nat \<Rightarrow> 'd net \<Rightarrow> 'd net res" where
  "net_adapter_free_buffer drv buf n =
     rbind (case BAdapter (buffers n buf) of
              None \<Rightarrow> Inr (False, n)
            | Some adapter \<Rightarrow> (case FreeBuffer (drv (Driver (adapters n adapter))) of
                None \<Rightarrow> Inr (False, n)
              | Some f \<Rightarrow> f adapter buf n))
       (\<lambda>(ok, n1). if ok then Inr n1
                    else rbind (pool_free buf (buffer_pool n1)) (\<lambda>pool. Inr (n1\<lparr>buffer_pool := pool\<rparr>)))"

definition flush_one :: "'d drivers \<Rightarrow> nat \<Rightarrow> 'd net \<Rightarrow> 'd net res" where
  "flush_one drv adapter n = (case Flush (drv (Driver (adapters n adapter))) of None \<Rightarrow> Inr n | Some f \<Rightarrow> f adapter n)"

text \<open>The enumeration of all adapters, each flushed in turn.\<close>

fun flush_all :: "nat \<Rightarrow> 'd drivers \<Rightarrow> nat option \<Rightarrow> 'd net \<Rightarrow> 'd net res" where
  "flush_all 0 drv cur n = Inl OutOfFuel"
| "flush_all (Suc fuel) drv cur n =
     (case net_adapter_enum cur n of
        None \<Rightarrow> Inr n
      | Some adi \<Rightarrow> rbind (flush_one drv adi n) (\<lambda>n1. flush_all fuel drv (Some adi) n1))"

definition net_adapter_flush :: "nat \<Rightarrow> 'd drivers \<Rightarrow> nat option \<Rightarrow> 'd net \<Rightarrow> 'd net res" where
  "net_adapter_flush fuel drv adapter n =
     (case adapter of Some a \<Rightarrow> flush_one drv a n | None \<Rightarrow> flush_all fuel drv None n)"

definition net_adapter_get_input :: "'d drivers \<Rightarrow> nat \<Rightarrow> 'd net \<Rightarrow> (nat option \<times> 'd net) res" where
  "net_adapter_get_input drv adapter n = GetInputBuffer (drv (Driver (adapters n adapter))) adapter n"

definition net_adapter_send_output :: "'d drivers \<Rightarrow> nat \<Rightarrow> nat \<Rightarrow> 'd net \<Rightarrow> (bool \<times> 'd net) res" where
  "net_adapter_send_output drv adapter buf n = SendOutputBuffer (drv (Driver (adapters n adapter))) adapter buf n"

section \<open>Configuration and frames\<close>

fun config_find :: "u16 \<Rightarrow> net_ip_config list \<Rightarrow> net_ip_config option" where
  "config_find protocol [] = None"
| "config_find protocol (c # cs) = (if Protocol c = protocol then Some c else config_find protocol cs)"

definition net_service_get_config :: "nat \<Rightarrow> u16 \<Rightarrow> 'd net \<Rightarrow> net_ip_config option" where
  "net_service_get_config adapter protocol n =
     (case NetData (adapters n adapter) of None \<Rightarrow> None | Some cs \<Rightarrow> config_find protocol cs)"

definition net_service_set_config :: "nat \<Rightarrow> net_ip_config \<Rightarrow> 'd net \<Rightarrow> 'd net res" where
  "net_service_set_config adapter config n =
     (case NetData (adapters n adapter) of
        None \<Rightarrow> Inl (Panic KERNEL_ERROR_KERNEL_PANIC)
      | Some cs \<Rightarrow> Inr (n\<lparr>adapters := (adapters n)(adapter := (adapters n adapter)\<lparr>NetData := Some (cs @ [config])\<rparr>)\<rparr>))"

text \<open>\<^verbatim>\<open>net_ip_init_config\<close>: \<open>ok\<close> tells whether the allocation of the cleared configuration succeeded.\<close>

definition net_ip_init_config :: "bool \<Rightarrow> nat \<Rightarrow> 'd net \<Rightarrow> 'd net res" where
  "net_ip_init_config ok adapter n =
     ASSERT ok KERNEL_ERROR_NOT_ENOUGH_MEMORY
       (net_service_set_config adapter \<lparr>Protocol = ETH_TYPE_IP, IP = 0, IpMask = 0\<rparr> n)"

definition net_ip_get_config :: "nat \<Rightarrow> 'd net \<Rightarrow> net_ip_config option" where
  "net_ip_get_config adapter n = net_service_get_config adapter ETH_TYPE_IP n"

text \<open>
  \<^verbatim>\<open>net_output\<close>.  The cast binds before the addition, so the offset counts headers of
  14 bytes, not bytes.
\<close>

definition net_output :: "nat \<Rightarrow> nat \<Rightarrow> u32 \<Rightarrow> hw_addr \<Rightarrow> u16 \<Rightarrow> 'd net \<Rightarrow> (nat \<times> 'd net) res" where
  "net_output adapter output len destination type n =
     (let len1 = len + 14 in
      ASSERT (len1 \<le> ucast (MaxFrameSize (adapters n adapter))) KERNEL_ERROR_KERNEL_PANIC
        (let root = Root (buffers n output);
             eth = nat (int (mb_Buffer root) + 14 * mb_Offset root);
             m1 = store (eth + 6) (AdMAC (adapters n adapter)) (ram n);
             m2 = store eth destination m1;
             m3 = store (eth + 12) (HTON16 type) m2
         in Inr (eth + 14, n\<lparr>ram := m3, buffers := (buffers n)(output := (buffers n output)\<lparr>Root := root\<lparr>mb_Length := sint len1\<rparr>\<rparr>)\<rparr>)))"

section \<open>Address resolution\<close>

definition net_arp_set_hw_addr :: "u32 \<Rightarrow> hw_addr \<Rightarrow> 'd net \<Rightarrow> (bool \<times> 'd net) res" where
  "net_arp_set_hw_addr ip mac n =
     rbind (net_arp_tables_set_entry ip mac ARP_ENTRY_VALID None (arp n) (net_kernel n))
       (\<lambda>(e, a, k). Inr (e \<noteq> None, n\<lparr>arp := a, net_kernel := k\<rparr>))"

definition net_arp_output :: "nat \<Rightarrow> nat \<Rightarrow> hw_addr \<Rightarrow> 'd net \<Rightarrow> (nat option \<times> 'd net) res" where
  "net_arp_output adapter output destination n =
     (case net_ip_get_config adapter n of
        None \<Rightarrow> Inr (None, n)
      | Some config \<Rightarrow>
          rbind (net_output adapter output 28 destination ETH_TYPE_ARP n) (\<lambda>(a, n1).
            let m1 = store (a + 8) (AdMAC (adapters n1 adapter)) (ram n1);
                m2 = store (a + 14) (le_bytes32 (IP config)) m1;
                m3 = store a (HTON16 1) m2;
                m4 = store (a + 4) [6] m3;
                m5 = store (a + 2) (HTON16 0x0800) m4;
                m6 = store (a + 5) [4] m5
            in Inr (Some a, n1\<lparr>ram := m6\<rparr>)))"

definition arp_reply :: "'d drivers \<Rightarrow> nat \<Rightarrow> nat \<Rightarrow> net_ip_config \<Rightarrow> nat \<Rightarrow> 'd net \<Rightarrow> 'd net res" where
  "arp_reply drv adapter a config resp n =
     rbind (net_arp_output adapter resp (load (a + 8) 6 (ram n)) n) (\<lambda>(arp_resp, n1).
       case arp_resp of
         None \<Rightarrow> net_adapter_free_buffer drv resp n1
       | Some r \<Rightarrow>
           let m1 = store (r + 6) (HTON16 2) (ram n1);
               m2 = store (r + 14) (le_bytes32 (IP config)) m1;
               m3 = store (r + 18) (load (a + 8) 6 m2) m2;
               m4 = store (r + 24) (load (a + 14) 4 m3) m3
           in rbind (net_adapter_send_output drv adapter resp (n1\<lparr>ram := m4\<rparr>)) (\<lambda>(sent, n2).
                if sent then Inr n2 else net_adapter_free_buffer drv resp n2))"

definition net_arp_input :: "'d drivers \<Rightarrow> nat \<Rightarrow> nat \<Rightarrow> 'd net \<Rightarrow> (bool \<times> 'd net) res" where
  "net_arp_input drv adapter a n =
     (case net_ip_get_config adapter n of
        None \<Rightarrow> Inr (False, n)
      | Some config \<Rightarrow>
          let m = ram n; tha = load (a + 18) 6 m; oper = net16 (a + 6) m in
          if m (a + 4) = 6 \<and> net16 (a + 2) m = 0x0800 \<and> m (a + 5) = 4
          then rbind
            (if oper = 1
             then if (net_equal_hw_addr tha (replicate 6 0) \<or> net_equal_hw_addr tha (AdMAC (adapters n adapter)))
                     \<and> ip_value (a + 24) m = IP config
                  then rbind (net_adapter_alloc_buffer adapter n) (\<lambda>(resp, n1).
                         case resp of None \<Rightarrow> Inr n1 | Some buf \<Rightarrow> arp_reply drv adapter a config buf n1)
                  else Inr n
             else if oper = 2
             then if net_equal_hw_addr tha (AdMAC (adapters n adapter))
                  then rbind (net_arp_set_hw_addr (ip_value (a + 14) m) (load (a + 8) 6 m) n) (\<lambda>(_, n1). Inr n1)
                  else Inr n
             else Inr n)
            (\<lambda>n1. Inr (False, n1))
          else Inr (False, n))"

section \<open>Datagrams\<close>

fun sum16 :: "nat \<Rightarrow> nat \<Rightarrow> ram \<Rightarrow> u32 \<Rightarrow> u32" where
  "sum16 0 a m acc = acc"
| "sum16 (Suc c) a m acc = sum16 c (a + 2) m (acc + ucast (net16 a m))"

text \<open>\<^verbatim>\<open>net_ip_checksum\<close>: an odd count is padded by a zero byte written behind the data.\<close>

definition net_ip_checksum :: "nat \<Rightarrow> nat \<Rightarrow> ram \<Rightarrow> u16 \<times> ram" where
  "net_ip_checksum data byte_count m =
     (let m1 = (if odd byte_count then m(data + byte_count := 0) else m);
          word_count = (if odd byte_count then byte_count div 2 + 1 else byte_count div 2);
          sum = sum16 word_count data m1 0;
          sum1 = sum + drop_bit 16 sum
      in (ucast (NOT sum1), m1))"

definition header_length :: "nat \<Rightarrow> ram \<Rightarrow> nat" where
  "header_length ip m = 4 * unat (take_bit 4 (m ip))"

definition net_ip_get_payload :: "nat \<Rightarrow> ram \<Rightarrow> nat \<times> u16" where
  "net_ip_get_payload ip m = (ip + header_length ip m, net16 (ip + 2) m - of_nat (header_length ip m))"

record IP_ENDPOINT =
  EpMAC :: hw_addr
  DiffServ :: u8
  EpIP :: u32

definition net_ip_output :: "nat \<Rightarrow> nat \<Rightarrow> u32 \<Rightarrow> IP_ENDPOINT \<Rightarrow> u8 \<Rightarrow> 'd net \<Rightarrow> (nat option \<times> 'd net) res" where
  "net_ip_output adapter output len destination protocol n =
     (case net_ip_get_config adapter n of
        None \<Rightarrow> Inr (None, n)
      | Some config \<Rightarrow>
          rbind (net_output adapter output (len + 20) (EpMAC destination) ETH_TYPE_IP n) (\<lambda>(ip, n1).
            let m1 = store ip [(ram n1 ip AND 0xF0) OR 5] (ram n1);
                m2 = store ip [(m1 ip AND 0x0F) OR 0x40] m1;
                m3 = store (ip + 1) [DiffServ destination] m2;
                m4 = store (ip + 4) (HTON16 (ucast (packet_id n1))) m3;
                m5 = store (ip + 6) (HTON16 0) m4;
                m6 = store (ip + 8) [64] m5;
                m7 = store (ip + 9) [protocol] m6;
                m8 = store (ip + 10) (HTON16 0) m7;
                m9 = store (ip + 12) (le_bytes32 (IP config)) m8;
                m10 = store (ip + 16) (le_bytes32 (EpIP destination)) m9
            in Inr (Some (ip + 20), n1\<lparr>ram := m10, packet_id := packet_id n1 + 1\<rparr>)))"

definition net_ip_send_output :: "'d drivers \<Rightarrow> nat \<Rightarrow> nat \<Rightarrow> u32 \<Rightarrow> 'd net \<Rightarrow> (bool \<times> 'd net) res" where
  "net_ip_send_output drv adapter output payload n =
     (let root = Root (buffers n output);
          ip = nat (int (mb_Buffer root) + mb_Offset root) + 14;
          m1 = store (ip + 2) (HTON16 (ucast (payload + 20))) (ram n);
          (header_checksum, m2) = net_ip_checksum ip (header_length ip m1) m1;
          m3 = store (ip + 10) (HTON16 header_checksum) m2
      in net_adapter_send_output drv adapter output (n\<lparr>ram := m3\<rparr>))"

section \<open>Echo requests\<close>

fun copy_bytes :: "nat \<Rightarrow> nat \<Rightarrow> nat \<Rightarrow> ram \<Rightarrow> ram" where
  "copy_bytes dst src 0 m = m"
| "copy_bytes dst src (Suc c) m = copy_bytes (dst + 1) (src + 1) c (m(dst := m src))"

text \<open>Writing the reply message at \<open>r\<close>, from the request at \<open>icmp\<close>.\<close>

definition write_reply :: "nat \<Rightarrow> nat \<Rightarrow> u16 \<Rightarrow> ram \<Rightarrow> ram" where
  "write_reply r icmp msg_length m =
     (let m1 = store r [0] m;
          m2 = store (r + 1) [0] m1;
          m3 = store (r + 2) (HTON16 0) m2;
          m4 = store (r + 4) (load (icmp + 4) 2 m3) m3;
          m5 = store (r + 6) (load (icmp + 6) 2 m4) m4;
          m6 = copy_bytes (r + 8) (icmp + 8) (unat msg_length - 8) m5;
          (checksum, m7) = net_ip_checksum r (unat msg_length) m6
      in store (r + 2) (HTON16 checksum) m7)"

definition icmp_reply :: "'d drivers \<Rightarrow> nat \<Rightarrow> nat \<Rightarrow> nat \<Rightarrow> nat \<Rightarrow> u16 \<Rightarrow> nat \<Rightarrow> 'd net \<Rightarrow> (bool \<times> 'd net) res" where
  "icmp_reply drv adapter eth ip icmp msg_length resp n =
     (let sender_ep = \<lparr>EpMAC = load (eth + 6) 6 (ram n), DiffServ = 0, EpIP = ip_value (ip + 12) (ram n)\<rparr>
      in if ram n icmp = 8
         then rbind (net_ip_output adapter resp (ucast msg_length) sender_ep IP_PROTOCOL_ICMP n) (\<lambda>(out, n1).
                case out of
                  None \<Rightarrow> Inr (False, n1)
                | Some r \<Rightarrow>
                    net_ip_send_output drv adapter resp (ucast msg_length) (n1\<lparr>ram := write_reply r icmp msg_length (ram n1)\<rparr>))
         else Inr (False, n))"

definition net_icmp_input :: "'d drivers \<Rightarrow> nat \<Rightarrow> nat \<Rightarrow> nat \<Rightarrow> 'd net \<Rightarrow> (bool \<times> 'd net) res" where
  "net_icmp_input drv adapter eth ip n =
     (let (icmp, msg_length) = net_ip_get_payload ip (ram n);
          (checksum, m1) = net_ip_checksum icmp (unat msg_length) (ram n);
          n1 = n\<lparr>ram := m1\<rparr>
      in if checksum = 0
         then rbind (net_adapter_alloc_buffer adapter n1) (\<lambda>(resp, n2).
                case resp of
                  None \<Rightarrow> Inr (False, n2)
                | Some buf \<Rightarrow>
                    rbind (icmp_reply drv adapter eth ip icmp msg_length buf n2) (\<lambda>(sent, n3).
                      if sent then Inr (False, n3)
                      else rbind (net_adapter_free_buffer drv buf n3) (\<lambda>n4. Inr (False, n4))))
         else Inr (False, n1))"

definition net_ip_input :: "'d drivers \<Rightarrow> nat \<Rightarrow> nat \<Rightarrow> nat \<Rightarrow> 'd net \<Rightarrow> (bool \<times> 'd net) res" where
  "net_ip_input drv adapter eth ip n =
     (case net_ip_get_config adapter n of
        None \<Rightarrow> Inr (False, n)
      | Some config \<Rightarrow>
          let (checksum, m1) = net_ip_checksum ip (header_length ip (ram n)) (ram n);
              n1 = n\<lparr>ram := m1\<rparr>; dst = ip_value (ip + 16) m1
          in if checksum = 0 \<and> (dst = IP config \<or> dst = IP config OR NOT (IpMask config) \<or> dst = 0xffffffff)
                \<and> m1 (ip + 9) = IP_PROTOCOL_ICMP
             then rbind (net_arp_set_hw_addr (ip_value (ip + 12) m1) (load (eth + 6) 6 m1) n1) (\<lambda>(_, n2).
                    net_icmp_input drv adapter eth ip n2)
             else Inr (False, n1))"

section \<open>The input loop\<close>

fun net_input :: "nat \<Rightarrow> 'd drivers \<Rightarrow> nat \<Rightarrow> 'd net \<Rightarrow> 'd net res" where
  "net_input 0 drv adapter n = Inl OutOfFuel"
| "net_input (Suc fuel) drv adapter n =
     rbind (net_adapter_get_input drv adapter n) (\<lambda>(buf, n1).
       case buf of
         None \<Rightarrow> Inr n1
       | Some b \<Rightarrow>
           let root = Root (buffers n1 b);
               eth = nat (int (mb_Buffer root) + mb_Offset root);
               packet_type = net16 (eth + 12) (ram n1);
               payload = eth + 14
           in rbind (if packet_type = ETH_TYPE_ARP then net_arp_input drv adapter payload n1
                     else if packet_type = ETH_TYPE_IP then net_ip_input drv adapter eth payload n1
                     else Inr (False, n1))
                (\<lambda>(queued, n2). rbind (if queued then Inr n2 else net_adapter_free_buffer drv b n2)
                  (\<lambda>n3. net_input fuel drv adapter n3)))"

section \<open>Reading back what was written\<close>

lemma length_HTON16 [simp]: "length (HTON16 v) = 2"
  by (simp add: HTON16_def)

lemma length_le_bytes32 [simp]: "length (le_bytes32 v) = 4"
  by (simp add: le_bytes32_def)

lemma NTOH16_HTON16: "NTOH16 (HTON16 v ! 0) (HTON16 v ! 1) = v"
  by (rule bit_word_eqI) (auto simp: NTOH16_def HTON16_def bit_simps dest: bit_imp_le_length)

lemma unat_NTOH16: "unat (NTOH16 x y) = 256 * unat x + unat y"
proof -
  have "push_bit 8 (ucast x) AND ucast y = (0 :: u16)"
    by (rule bit_word_eqI) (auto simp: bit_simps dest: bit_imp_le_length)
  then have "NTOH16 x y = push_bit 8 (ucast x) + ucast y"
    by (simp add: NTOH16_def or.commute disjunctive_add_eq_or)
  moreover have "unat (ucast y :: u16) = unat y" "unat (ucast x :: u16) = unat x"
    using unsigned_less[of x, where 'a = nat] unsigned_less[of y, where 'a = nat]
    by (simp_all add: unsigned_ucast_eq take_bit_nat_eq_self)
  ultimately show ?thesis
    using unsigned_less[of x, where 'a = nat] unsigned_less[of y, where 'a = nat]
    by (simp add: unat_word_ariths push_bit_eq_mult)
qed

section \<open>The checksum\<close>

text \<open>The sum of the 16-bit words of a message, an odd last byte being the upper half of a word.\<close>

fun wsum :: "u8 list \<Rightarrow> nat" where
  "wsum [] = 0"
| "wsum [x] = 256 * unat x"
| "wsum (x # y # bs) = 256 * unat x + unat y + wsum bs"

lemma wsum_append: "even (length xs) \<Longrightarrow> wsum (xs @ ys) = wsum xs + wsum ys"
  by (induction xs rule: wsum.induct) auto

lemma wsum_pad: "odd (length xs) \<Longrightarrow> wsum (xs @ [0]) = wsum xs"
  by (induction xs rule: wsum.induct) auto

lemma wsum_bound: "wsum bs \<le> 65535 * ((length bs + 1) div 2)"
proof (induction bs rule: wsum.induct)
  case (2 x)
  then show ?case using unsigned_less[of x, where 'a = nat] by simp
next
  case (3 x y bs)
  then show ?case using unsigned_less[of x, where 'a = nat] unsigned_less[of y, where 'a = nat] by simp
qed simp

lemma sum16_wsum: "sum16 c a m acc = acc + of_nat (wsum (load a (2 * c) m))"
proof (induction c arbitrary: a acc)
  case (Suc c)
  have "load a (2 * Suc c) m = m a # m (a + 1) # load (a + 2) (2 * c) m"
    by (simp add: load_Suc)
  moreover have "(ucast (net16 a m) :: u32) = of_nat (256 * unat (m a) + unat (m (a + 1)))"
    by (simp only: ucast_of_nat net16_def unat_NTOH16)
  ultimately show ?case using Suc by (simp add: add.assoc)
qed simp

definition fold_once :: "nat \<Rightarrow> u16" where
  "fold_once s = of_nat (65535 - (s + s div 65536) mod 65536)"

lemma of_nat_mod16: "(of_nat (k mod 65536) :: u16) = of_nat k"
  by (simp add: word_of_nat_eq_iff take_bit_eq_mod)

lemma ucast_not_of_nat:
  assumes "s < 2 ^ 32"
  shows "(ucast (NOT (of_nat s + drop_bit 16 (of_nat s) :: u32)) :: u16) = fold_once s"
proof -
  have d: "drop_bit 16 (of_nat s :: u32) = of_nat (s div 65536)"
    using assms by (simp add: word_unat_eq_iff unat_drop_bit_eq unsigned_of_nat take_bit_nat_eq_self drop_bit_eq_div unat_div)
  have "(ucast (NOT (of_nat s + of_nat (s div 65536)) :: u32) :: u16) = NOT (of_nat (s + s div 65536))"
    by (rule bit_word_eqI) (simp add: bit_simps flip: of_nat_add)
  also have "\<dots> = of_nat 65535 - of_nat ((s + s div 65536) mod 65536)"
    unfolding of_nat_mod16 by (simp add: not_eq_complement)
  also have "\<dots> = fold_once s"
    unfolding fold_once_def by (rule of_nat_diff [symmetric]) (simp add: less_Suc_eq_le [symmetric])
  finally show ?thesis by (simp add: d)
qed

lemma ip_checksum_fold:
  assumes "byte_count \<le> 65536"
  shows "net_ip_checksum a byte_count m =
     (fold_once (wsum (load a byte_count m)), if odd byte_count then m(a + byte_count := 0) else m)"
proof -
  let ?m = "if odd byte_count then m(a + byte_count := 0) else m"
  let ?c = "if odd byte_count then byte_count div 2 + 1 else byte_count div 2"
  have w: "wsum (load a (2 * ?c) ?m) = wsum (load a byte_count m)"
  proof (cases "odd byte_count")
    case True
    then have "2 * ?c = byte_count + 1" by (auto elim: oddE)
    then have "load a (2 * ?c) ?m = load a byte_count m @ [0]"
      using True by (simp only: load_add) (simp add: load_upd_other load_Suc)
    with True show ?thesis by (simp add: wsum_pad)
  next
    case False
    then have "2 * ?c = byte_count" by auto
    with False show ?thesis by simp
  qed
  have "wsum (load a byte_count m) < 2 ^ 32"
    using wsum_bound [of "load a byte_count m"] assms by simp
  from ucast_not_of_nat [OF this] show ?thesis
    by (simp add: net_ip_checksum_def Let_def sum16_wsum w del: wsum.simps)
qed

lemma wsum_HTON16: "wsum (HTON16 v @ bs) = unat v + wsum bs"
proof -
  have "256 * unat (HTON16 v ! 0) + unat (HTON16 v ! 1) = unat v"
    using unat_NTOH16 [of "HTON16 v ! 0" "HTON16 v ! 1"] by (simp only: NTOH16_HTON16)
  then show ?thesis by (simp add: HTON16_def)
qed

text \<open>The one's complement sum of RFC 1071: all carries are added back.\<close>

definition ones_sum :: "nat \<Rightarrow> nat" where
  "ones_sum s = (if s = 0 then 0 else (s - 1) mod 65535 + 1)"

definition one_carry :: "nat \<Rightarrow> bool" where
  "one_carry s = (s mod 65536 + s div 65536 < 65536)"

lemma unat_of_nat16: "k < 65536 \<Longrightarrow> unat (of_nat k :: u16) = k"
  by (simp add: unsigned_of_nat take_bit_nat_eq_self)

lemma unat_fold_once: "unat (fold_once s) = 65535 - (s + s div 65536) mod 65536"
  unfolding fold_once_def by (rule unat_of_nat16) simp

lemma fold_once_eq_0: "fold_once s = 0 \<longleftrightarrow> (s + s div 65536) mod 65536 = 65535"
proof -
  have "fold_once s = 0 \<longleftrightarrow> 65535 - (s + s div 65536) mod 65536 = 0"
    by (simp add: word_unat_eq_iff unat_fold_once)
  also have "\<dots> \<longleftrightarrow> (s + s div 65536) mod 65536 = 65535"
    using mod_less_divisor [of 65536 "s + s div 65536"] by linarith
  finally show ?thesis .
qed

lemma div_mod_halves:
  fixes h l :: nat
  assumes "l < 65536"
  shows "(65536 * h + l) div 65536 = h" "(65536 * h + l) mod 65536 = l"
  using assms by simp_all

text \<open>The checksum of \<open>65536 * h + l\<close>: one carry is added back, a second one is lost.\<close>

lemma fold_once_halves:
  assumes "l < 65536" "h < 65536"
  shows "unat (fold_once (65536 * h + l)) = (if l + h < 65536 then 65535 - (l + h) else 131071 - (l + h))"
proof -
  have "(65536 * h + l + h) mod 65536 = (l + h) mod 65536"
    by (metis add.assoc mod_mult_self4)
  also have "\<dots> = (if l + h < 65536 then l + h else l + h - 65536)"
    using assms by (simp add: le_mod_geq)
  finally show ?thesis using assms by (simp add: unat_fold_once div_mod_halves)
qed

lemma fold_once_verifies:
  assumes "l < 65536" "h < 65536"
  shows "fold_once (65536 * h + l + unat (fold_once (65536 * h + l))) = 0 \<longleftrightarrow> l + h < 65536"
proof -
  obtain k where k: "h + k = 65535" "k < 65536" using assms(2) by (intro that [of "65535 - h"]) simp_all
  show ?thesis
  proof (cases "l + h < 65536")
    case True
    then have s: "65536 * h + l + unat (fold_once (65536 * h + l)) = 65536 * h + k"
      using assms k by (simp add: fold_once_halves)
    have "65536 * h + k + h = 65536 * h + 65535" using k by simp
    then show ?thesis
      using True div_mod_halves [OF k(2), of h] div_mod_halves [of 65535 h] by (simp only: s fold_once_eq_0) simp
  next
    case False
    then have s: "65536 * h + l + unat (fold_once (65536 * h + l)) = 65536 * (h + 1) + k"
      using assms k by (simp add: fold_once_halves)
    have "65536 * (h + 1) + k + (h + 1) = 65536 * (h + 2) + 0" using k by simp
    then show ?thesis
      using False div_mod_halves [OF k(2), of "h + 1"] div_mod_halves [of 0 "h + 2"] by (simp only: s fold_once_eq_0) simp
  qed
qed

lemma fold_once_rfc:
  assumes "l < 65536" "h < 65536"
  shows "unat (fold_once (65536 * h + l)) = 65535 - ones_sum (65536 * h + l) \<longleftrightarrow> l + h < 65536"
proof (cases "65536 * h + l = 0")
  case True
  then show ?thesis by (simp add: ones_sum_def fold_once_def)
next
  case False
  then have e: "65536 * h + l - 1 = (l + h - 1) + 65535 * h" by simp
  have "(65536 * h + l - 1) mod 65535 = (l + h - 1) mod 65535"
    unfolding e by (rule mod_mult_self2)
  also have "\<dots> = (if l + h < 65536 then l + h - 1 else l + h - 1 - 65535)"
    using assms False by (auto simp: le_mod_geq)
  finally have "ones_sum (65536 * h + l) = (if l + h < 65536 then l + h else l + h - 65535)"
    using False by (auto simp: ones_sum_def)
  then show ?thesis using assms by (auto simp: fold_once_halves)
qed

lemma checksum_field:
  assumes "even off" "off + 2 \<le> n" "load (a + off) 2 m = [0, 0]"
  shows "wsum (load a n (store (a + off) (HTON16 c) m)) = wsum (load a n m) + unat c"
proof -
  have e: "n = off + (2 + (n - off - 2))" using assms(2) by simp
  have sp: "load a n x = load a off x @ load (a + off) 2 x @ load (a + off + 2) (n - off - 2) x" for x
    by (subst e) (simp only: load_add)
  have "wsum (0 # 0 # bs) = wsum bs" for bs by simp
  then show ?thesis
    using assms unfolding sp [of m] sp [of "store (a + off) (HTON16 c) m"]
    by (simp add: wsum_append load_store_same load_store_other wsum_HTON16 del: wsum.simps)
qed

text \<open>C18: Let \<open>s\<close> be the sum of the words of a header whose checksum field is zero.  The value
  \<^verbatim>\<open>net_ip_checksum\<close> computes is the checksum of RFC 1071, and a header that carries it passes
  the check of the receiver, exactly when adding the carries back once produces no further carry.
\<close>

theorem ip_checksum_correct:
  assumes "even off" "off + 2 \<le> byte_count" "byte_count \<le> 65536" "load (data + off) 2 m = [0, 0]"
  defines "s \<equiv> wsum (load data byte_count m)"
  defines "c \<equiv> fst (net_ip_checksum data byte_count m)"
  shows "(unat c = 65535 - ones_sum s \<longleftrightarrow> s mod 65536 + s div 65536 < 65536)
    \<and> (fst (net_ip_checksum data byte_count (store (data + off) (HTON16 c) m)) = 0 \<longleftrightarrow> s mod 65536 + s div 65536 < 65536)"
proof -
  define h l where "h = s div 65536" and "l = s mod 65536"
  have "s < 2 ^ 32" using wsum_bound [of "load data byte_count m"] assms(3) by (simp add: s_def)
  then have hl: "l < 65536" "h < 65536" by (simp_all add: h_def l_def)
  have s: "s = 65536 * h + l" by (simp add: h_def l_def)
  have c: "c = fold_once s" by (simp add: c_def s_def ip_checksum_fold assms(3))
  have "fst (net_ip_checksum data byte_count (store (data + off) (HTON16 c) m)) = fold_once (s + unat c)"
    using checksum_field [OF assms(1,2,4), of c] by (simp add: ip_checksum_fold assms(3) s_def)
  then show ?thesis
    using fold_once_rfc [OF hl] fold_once_verifies [OF hl]
    by (simp only: c s div_mod_halves [OF hl(1)])
qed

definition sample_header :: ram where
  "sample_header = store 100 [0xFF, 0xFF, 0xFF, 0xFF, 0, 0, 0, 0] (\<lambda>_. 0)"

theorem ip_checksum_correct_witness:
  "fst (net_ip_checksum 100 8 (store 106 (HTON16 (fst (net_ip_checksum 100 8 sample_header))) sample_header)) = 0
   \<and> fst (net_ip_checksum 100 8 (store 106 (HTON16 (fst (net_ip_checksum 100 8 (store 104 [0, 1] sample_header)))) (store 104 [0, 1] sample_header))) \<noteq> 0"
proof -
  let ?m = "store 104 [0, 1] sample_header"
  have w: "wsum (load 100 8 sample_header) = 131070" "wsum (load 100 8 ?m) = 131071"
    by (simp_all add: sample_header_def load_def store_def upt_rec)
  have z: "load (100 + 6) 2 sample_header = [0, 0]" "load (100 + 6) 2 ?m = [0, 0]"
    by (simp_all add: sample_header_def load_def store_def upt_rec)
  show ?thesis
    using ip_checksum_correct [of 6 8 100 sample_header, OF _ _ _ z(1)] ip_checksum_correct [of 6 8 100 ?m, OF _ _ _ z(2)]
    by (simp add: w)
qed

section \<open>Headers that are written\<close>

lemma le32_le_bytes32: "le32 (le_bytes32 v) = v"
  using octets32_join [of v] by (simp add: le32_def le_bytes32_def or.commute or.left_commute or.assoc)

lemma ip_value_bytes [simp]: "le_bytes32 (ip_value a m) = load a 4 m"
  by (simp add: ip_value_def le_bytes32_le32)

lemma version_nibbles: "((x AND 0xF0 OR 5) AND 0x0F) OR 0x40 = (0x45 :: u8)"
  by (simp add: bit.conj_disj_distrib2 and.assoc)

definition eth_bytes :: "hw_addr \<Rightarrow> hw_addr \<Rightarrow> u16 \<Rightarrow> u8 list" where
  "eth_bytes dst src type = dst @ src @ HTON16 type"

definition ip_bytes :: "u8 \<Rightarrow> u8 list \<Rightarrow> u16 \<Rightarrow> u8 \<Rightarrow> u16 \<Rightarrow> u8 list \<Rightarrow> u8 list \<Rightarrow> u8 list" where
  "ip_bytes ds len ident proto cks src dst = [0x45, ds] @ len @ HTON16 ident @ HTON16 0 @ [64, proto] @ HTON16 cks @ src @ dst"

lemma load_14: "load a 14 m = load a 6 m @ load (a + 6) 6 m @ load (a + 12) 2 m"
  using load_add [of a 6 8 m] load_add [of "a + 6" 6 2 m] by (simp add: add.assoc)

lemma load_20: "load a 20 m = load a 1 m @ load (a + 1) 1 m @ load (a + 2) 2 m @ load (a + 4) 2 m @ load (a + 6) 2 m
    @ load (a + 8) 1 m @ load (a + 9) 1 m @ load (a + 10) 2 m @ load (a + 12) 4 m @ load (a + 16) 4 m"
  by (simp add: load_def upt_rec numeral_eq_Suc)

lemmas load_store = load_store_same load_store_other

lemma net_output_frame:
  assumes "Root (buffers n output) = root" "mb_Offset root = 0" "mb_Buffer root = f"
    and "len + 14 \<le> ucast (MaxFrameSize (adapters n adapter))"
    and "length (AdMAC (adapters n adapter)) = 6" "length dst = 6"
  obtains m where "net_output adapter output len dst type n = Inr (f + 14, n\<lparr>ram := m, buffers := (buffers n)(output :=
      (buffers n output)\<lparr>Root := root\<lparr>mb_Length := sint (len + 14)\<rparr>\<rparr>)\<rparr>)"
    "load f 14 m = eth_bytes dst (AdMAC (adapters n adapter)) type" "\<And>x. x < f \<or> f + 14 \<le> x \<Longrightarrow> m x = ram n x"
  using assms
  by (intro that [of "store (f + 12) (HTON16 type) (store f dst (store (f + 6) (AdMAC (adapters n adapter)) (ram n)))"])
     (auto simp: net_output_def Let_def load_14 load_store eth_bytes_def store_other)

lemma net_ip_output_frame:
  assumes "Root (buffers n output) = root" "mb_Offset root = 0" "mb_Buffer root = f"
    and cfg: "net_ip_get_config adapter n = Some config"
    and "len + 20 + 14 \<le> ucast (MaxFrameSize (adapters n adapter))"
    and "length (AdMAC (adapters n adapter)) = 6" "length (EpMAC dst) = 6"
  obtains m where "net_ip_output adapter output len dst proto n = Inr (Some (f + 34), n\<lparr>ram := m, packet_id := packet_id n + 1,
      buffers := (buffers n)(output := (buffers n output)\<lparr>Root := root\<lparr>mb_Length := sint (len + 20 + 14)\<rparr>\<rparr>)\<rparr>)"
    "load f 14 m = eth_bytes (EpMAC dst) (AdMAC (adapters n adapter)) ETH_TYPE_IP"
    "load (f + 14) 20 m = ip_bytes (DiffServ dst) (load (f + 16) 2 (ram n)) (ucast (packet_id n)) proto 0 (le_bytes32 (IP config)) (le_bytes32 (EpIP dst))"
    "\<And>x. x < f \<or> f + 34 \<le> x \<Longrightarrow> m x = ram n x"
proof -
  obtain m where m: "net_output adapter output (len + 20) (EpMAC dst) ETH_TYPE_IP n = Inr (f + 14, n\<lparr>ram := m, buffers := (buffers n)(output :=
      (buffers n output)\<lparr>Root := root\<lparr>mb_Length := sint (len + 20 + 14)\<rparr>\<rparr>)\<rparr>)"
    "load f 14 m = eth_bytes (EpMAC dst) (AdMAC (adapters n adapter)) ETH_TYPE_IP" "\<And>x. x < f \<or> f + 14 \<le> x \<Longrightarrow> m x = ram n x"
    by (rule net_output_frame [OF assms(1-3), of "len + 20" adapter "EpMAC dst" ETH_TYPE_IP]) (use assms in auto)
  let ?ip = "f + 14"
  let ?m1 = "store ?ip [(m ?ip AND 0xF0) OR 5] m"
  let ?m' = "store (?ip + 16) (le_bytes32 (EpIP dst)) (store (?ip + 12) (le_bytes32 (IP config)) (store (?ip + 10) (HTON16 0)
    (store (?ip + 9) [proto] (store (?ip + 8) [64] (store (?ip + 6) (HTON16 0) (store (?ip + 4) (HTON16 (ucast (packet_id n)))
    (store (?ip + 1) [DiffServ dst] (store ?ip [(?m1 ?ip AND 0x0F) OR 0x40] ?m1))))))))"
  have v: "?m1 ?ip AND 0x0F OR 0x40 = 0x45" by (simp add: store_def version_nibbles)
  have out: "load (16 + f) 2 m = load (f + 16) 2 (ram n)" by (rule nth_equalityI) (simp_all add: m(3) add.commute)
  show thesis
  proof (rule that [of ?m'])
    show "net_ip_output adapter output len dst proto n = Inr (Some (f + 34), n\<lparr>ram := ?m', packet_id := packet_id n + 1,
      buffers := (buffers n)(output := (buffers n output)\<lparr>Root := root\<lparr>mb_Length := sint (len + 20 + 14)\<rparr>\<rparr>)\<rparr>)"
      by (simp add: net_ip_output_def cfg m(1) Let_def)
    show "load f 14 ?m' = eth_bytes (EpMAC dst) (AdMAC (adapters n adapter)) ETH_TYPE_IP"
      using m(2) by (simp add: load_store)
    show "load (f + 14) 20 ?m' = ip_bytes (DiffServ dst) (load (f + 16) 2 (ram n)) (ucast (packet_id n)) proto 0 (le_bytes32 (IP config)) (le_bytes32 (EpIP dst))"
      unfolding v by (simp add: load_20 load_store ip_bytes_def out)
    show "?m' x = ram n x" if "x < f \<or> f + 34 \<le> x" for x
      using that m(3) [of x] by (auto simp: store_other)
  qed
qed

lemma load_1: "load a 1 m = [m a]"
  by (simp add: load_def)

lemma ip_bytes_iff:
  assumes "length len = 2" "length src = 4" "length dst = 4"
  shows "load a 20 m = ip_bytes ds len ident proto cks src dst \<longleftrightarrow>
     m a = 0x45 \<and> m (a + 1) = ds \<and> load (a + 2) 2 m = len \<and> load (a + 4) 2 m = HTON16 ident \<and> load (a + 6) 2 m = HTON16 0
     \<and> m (a + 8) = 64 \<and> m (a + 9) = proto \<and> load (a + 10) 2 m = HTON16 cks \<and> load (a + 12) 4 m = src \<and> load (a + 16) 4 m = dst"
proof -
  have "ip_bytes ds len ident proto cks src dst =
     [0x45] @ [ds] @ len @ HTON16 ident @ HTON16 0 @ [64] @ [proto] @ HTON16 cks @ src @ dst"
    by (simp add: ip_bytes_def)
  then show ?thesis
    unfolding load_20 load_1 using assms by (simp add: append_eq_append_conv)
qed

lemma net_ip_send_output_frame:
  assumes root: "Root (buffers n output) = root" "mb_Offset root = 0" "mb_Buffer root = f"
    and h: "load (f + 14) 20 (ram n) = ip_bytes ds len ident proto 0 src dst"
    and l: "length len = 2" "length src = 4" "length dst = 4"
  obtains m where "net_ip_send_output drv adapter output payload n =
      SendOutputBuffer (drv (Driver (adapters n adapter))) adapter output (n\<lparr>ram := m\<rparr>)"
    "load (f + 14) 20 m = ip_bytes ds (HTON16 (ucast (payload + 20))) ident proto
       (fold_once (wsum (ip_bytes ds (HTON16 (ucast (payload + 20))) ident proto 0 src dst))) src dst"
    "\<And>x. x < f + 14 \<or> f + 34 \<le> x \<Longrightarrow> m x = ram n x"
proof -
  let ?len = "HTON16 (ucast (payload + 20))"
  let ?m1 = "store (f + 14 + 2) ?len (ram n)"
  let ?cks = "fold_once (wsum (ip_bytes ds ?len ident proto 0 src dst))"
  let ?m' = "store (f + 14 + 10) (HTON16 ?cks) ?m1"
  note h = h [unfolded ip_bytes_iff [OF l]]
  have m1: "load (f + 14) 20 ?m1 = ip_bytes ds ?len ident proto 0 src dst"
    using h l by (simp add: ip_bytes_iff load_store store_other)
  have "header_length (f + 14) ?m1 = 20"
    using h by (simp add: header_length_def store_other take_bit_eq_mod)
  then have "net_ip_checksum (f + 14) (header_length (f + 14) ?m1) ?m1 = (?cks, ?m1)"
    by (simp only: ip_checksum_fold m1) simp
  then have "net_ip_send_output drv adapter output payload n =
      SendOutputBuffer (drv (Driver (adapters n adapter))) adapter output (n\<lparr>ram := ?m'\<rparr>)"
    using root by (simp add: net_ip_send_output_def net_adapter_send_output_def Let_def)
  moreover have "load (f + 14) 20 ?m' = ip_bytes ds ?len ident proto ?cks src dst"
    using h l by (simp add: ip_bytes_iff load_store store_other)
  moreover have "?m' x = ram n x" if "x < f + 14 \<or> f + 34 \<le> x" for x
    using that by (auto simp: store_other)
  ultimately show thesis by (rule that)
qed

lemma load_copy_bytes:
  "dst + c \<le> src \<or> src + c \<le> dst \<Longrightarrow> load dst c (copy_bytes dst src c m) = load src c m
     \<and> (\<forall>x. x < dst \<or> dst + c \<le> x \<longrightarrow> copy_bytes dst src c m x = m x)"
proof (induction c arbitrary: dst src m)
  case (Suc c)
  let ?m = "m(dst := m src)"
  have IH: "load (dst + 1) c (copy_bytes (dst + 1) (src + 1) c ?m) = load (src + 1) c ?m"
    "\<And>x. x < dst + 1 \<or> dst + 1 + c \<le> x \<Longrightarrow> copy_bytes (dst + 1) (src + 1) c ?m x = ?m x"
    using Suc.IH [of "dst + 1" "src + 1" ?m] Suc.prems by (auto simp: fun_upd_def)
  have "load (src + 1) c ?m = load (src + 1) c m" by (rule load_upd_other) (use Suc.prems in auto)
  with IH(1) IH(2) [of dst] IH(2) show ?case by (simp add: load_Suc)
qed simp

lemma load_cong: "(\<And>x. a \<le> x \<Longrightarrow> x < a + n \<Longrightarrow> m x = m' x) \<Longrightarrow> load a n m = load a n m'"
  by (simp add: load_def)

lemma ucast_total: "(ucast (ucast (v :: u16) + 20 :: u32) :: u16) = v + 20"
  by transfer (simp add: take_bit_eq_mod mod_simps)

lemma sint_small: "unat (x :: u32) < 2 ^ 31 \<Longrightarrow> sint x = int (unat x)"
proof -
  assume "unat x < 2 ^ 31"
  then have "int (unat x) < int (2 ^ 31)" by (subst of_nat_less_iff)
  then show ?thesis using signed_take_bit_int_eq_self [of 31 "int (unat x)"] by (simp add: sint_uint order_trans [of _ 0])
qed

definition icmp_bytes :: "u8 \<Rightarrow> u16 \<Rightarrow> u8 list \<Rightarrow> u8 list" where
  "icmp_bytes type cks rest = [type, 0] @ HTON16 cks @ rest"

lemma load_message:
  assumes "8 \<le> n"
  shows "load a n m = load a 1 m @ load (a + 1) 1 m @ load (a + 2) 2 m @ load (a + 4) 2 m @ load (a + 6) 2 m @ load (a + 8) (n - 8) m"
proof -
  have "n = 8 + (n - 8)" using assms by simp
  moreover have "load a 8 m = load a 1 m @ load (a + 1) 1 m @ load (a + 2) 2 m @ load (a + 4) 2 m @ load (a + 6) 2 m"
    by (simp add: load_def upt_rec numeral_eq_Suc)
  ultimately show ?thesis using load_add [of a 8 "n - 8" m] by simp
qed

lemma write_reply_bytes:
  fixes m :: ram
  assumes L: "8 \<le> unat msg_length" and apart: "icmp + unat msg_length \<le> r \<or> r + unat msg_length \<le> icmp"
  defines "D \<equiv> load (icmp + 4) (unat msg_length - 4) m"
  shows "load r (unat msg_length) (write_reply r icmp msg_length m) = icmp_bytes 0 (fold_once (wsum (icmp_bytes 0 0 D))) D"
    and "x < r \<or> r + unat msg_length < x \<Longrightarrow> write_reply r icmp msg_length m x = m x"
proof -
  let ?L = "unat msg_length"
  define m3 where "m3 = store (r + 2) (HTON16 0) (store (r + 1) [0] (store r [0] m))"
  define m5 where "m5 = store (r + 6) (load (icmp + 6) 2 m) (store (r + 4) (load (icmp + 4) 2 m) m3)"
  define m6 where "m6 = copy_bytes (r + 8) (icmp + 8) (?L - 8) m5"
  have D: "D = load (icmp + 4) 2 m @ load (icmp + 6) 2 m @ load (icmp + 8) (?L - 8) m"
  proof -
    have e: "?L - 4 = 2 + (2 + (?L - 8))" using L by simp
    show ?thesis unfolding D_def e load_add by (simp add: add.commute)
  qed
  have cp: "load (r + 8) (?L - 8) m6 = load (icmp + 8) (?L - 8) m5" "\<And>x. x < r + 8 \<or> r + ?L \<le> x \<Longrightarrow> m6 x = m5 x"
    using load_copy_bytes [of "r + 8" "?L - 8" "icmp + 8" m5] L apart by (auto simp: m6_def)
  have low: "load a k m6 = load a k m5" if "a + k \<le> r + 8" for a k
    by (rule load_cong) (use that cp(2) in auto)
  have src: "load (icmp + 8) (?L - 8) m5 = load (icmp + 8) (?L - 8) m"
    using L apart by (auto simp: m5_def m3_def load_store_other)
  have m6: "load r ?L m6 = icmp_bytes 0 0 D"
    using L by (simp add: load_message low cp src D icmp_bytes_def) (simp add: m5_def m3_def load_store)
  have fin: "write_reply r icmp msg_length m = store (r + 2) (HTON16 (fold_once (wsum (icmp_bytes 0 0 D)))) (if odd ?L then m6(r + ?L := 0) else m6)"
  proof -
    have "load (icmp + 4) 2 m3 = load (icmp + 4) 2 m" using L apart by (auto simp: m3_def load_store_other)
    moreover have "load (icmp + 6) 2 (store (r + 4) (load (icmp + 4) 2 m) m3) = load (icmp + 6) 2 m"
      using L apart by (auto simp: m3_def load_store_other)
    moreover have "?L \<le> 65536" using unsigned_less[of msg_length, where 'a = nat] by simp
    moreover from calculation have m5': "m5 = store (r + 6) (load (icmp + 6) 2 (store (r + 4) (load (icmp + 4) 2 m3) m3)) (store (r + 4) (load (icmp + 4) 2 m3) m3)"
      by (simp only: m5_def)
    have "write_reply r icmp msg_length m = (let (c, m7) = net_ip_checksum r ?L m6 in store (r + 2) (HTON16 c) m7)"
      by (simp only: write_reply_def Let_def m6_def m5' m3_def)
    ultimately show ?thesis by (simp add: ip_checksum_fold m6)
  qed
  show "load r ?L (write_reply r icmp msg_length m) = icmp_bytes 0 (fold_once (wsum (icmp_bytes 0 0 D))) D"
  proof -
    let ?m7 = "if odd ?L then m6(r + ?L := 0) else m6" and ?c = "HTON16 (fold_once (wsum (icmp_bytes 0 0 D)))"
    have "load r ?L ?m7 = icmp_bytes 0 0 D" using m6 by (simp add: load_upd_other)
    then have "load r 1 ?m7 = [0]" "load (r + 1) 1 ?m7 = [0]"
      "load (r + 4) 2 ?m7 @ load (r + 6) 2 ?m7 @ load (r + 8) (?L - 8) ?m7 = D"
      using L by (simp_all add: load_message icmp_bytes_def append_eq_append_conv load_1 del: One_nat_def)
    then show ?thesis
      unfolding fin using L by (simp add: load_message load_store icmp_bytes_def del: One_nat_def)
  qed
  show "write_reply r icmp msg_length m x = m x" if "x < r \<or> r + ?L < x"
    using that L cp(2) [of x] unfolding fin by (auto simp: store_other m5_def m3_def)
qed

text \<open>The frame that answers an echo request, and the frame found in memory.\<close>

definition echo_frame :: "hw_addr \<Rightarrow> hw_addr \<Rightarrow> u16 \<Rightarrow> u8 list \<Rightarrow> u8 list \<Rightarrow> u8 list \<Rightarrow> u8 list" where
  "echo_frame dst_mac src_mac ident src dst rest =
     (let len = HTON16 (of_nat (length rest + 24));
          hdr = (\<lambda>cks. ip_bytes 0 len ident IP_PROTOCOL_ICMP cks src dst);
          msg = (\<lambda>cks. icmp_bytes 0 cks rest)
      in eth_bytes dst_mac src_mac ETH_TYPE_IP @ hdr (fold_once (wsum (hdr 0))) @ msg (fold_once (wsum (msg 0))))"

lemma icmp_reply_frame:
  fixes n :: "'d net"
  assumes root: "Root (buffers n resp) = root" "mb_Offset root = 0" "mb_Buffer root = f"
    and cfg: "net_ip_get_config adapter n = Some config"
    and L: "8 \<le> unat msg_length" and fits: "unat msg_length + 34 \<le> unat (MaxFrameSize (adapters n adapter))"
    and mac: "length (AdMAC (adapters n adapter)) = 6"
    and req: "ram n icmp = 8" and place: "eth + 14 \<le> ip" "ip + 20 \<le> icmp"
    and apart: "icmp + unat msg_length \<le> f \<or> f + 35 + unat msg_length \<le> eth"
  obtains n' where "icmp_reply drv adapter eth ip icmp msg_length resp n = SendOutputBuffer (drv (Driver (adapters n adapter))) adapter resp n'"
    "load f (unat msg_length + 34) (ram n') = echo_frame (load (eth + 6) 6 (ram n)) (AdMAC (adapters n adapter)) (ucast (packet_id n))
        (le_bytes32 (IP config)) (load (ip + 12) 4 (ram n)) (load (icmp + 4) (unat msg_length - 4) (ram n))"
    "buffer_pool n' = buffer_pool n" "adapters n' = adapters n" "mb_Length (Root (buffers n' resp)) = int (unat msg_length + 34)"
    "BAdapter (buffers n' resp) = BAdapter (buffers n resp)"
proof -
  let ?L = "unat msg_length" and ?ep = "\<lparr>EpMAC = load (eth + 6) 6 (ram n), DiffServ = 0, EpIP = ip_value (ip + 12) (ram n)\<rparr>"
  let ?b = "(buffers n)(resp := (buffers n resp)\<lparr>Root := root\<lparr>mb_Length := sint (ucast msg_length + 20 + 14 :: u32)\<rparr>\<rparr>)"
  have u: "unat (ucast msg_length + 20 + 14 :: u32) = ?L + 34"
    using unsigned_less[of msg_length, where 'a = nat] by (simp add: unat_word_ariths unsigned_ucast_eq take_bit_nat_eq_self)
  have le: "(ucast msg_length + 20 + 14 :: u32) \<le> ucast (MaxFrameSize (adapters n adapter))"
    unfolding word_le_nat_alt u using fits unsigned_less[of "MaxFrameSize (adapters n adapter)", where 'a = nat]
    by (simp add: unsigned_ucast_eq take_bit_nat_eq_self)
  obtain m where m: "net_ip_output adapter resp (ucast msg_length) ?ep IP_PROTOCOL_ICMP n =
      Inr (Some (f + 34), n\<lparr>ram := m, packet_id := packet_id n + 1, buffers := ?b\<rparr>)"
    "load f 14 m = eth_bytes (load (eth + 6) 6 (ram n)) (AdMAC (adapters n adapter)) ETH_TYPE_IP"
    "load (f + 14) 20 m = ip_bytes 0 (load (f + 16) 2 (ram n)) (ucast (packet_id n)) IP_PROTOCOL_ICMP 0 (le_bytes32 (IP config)) (load (ip + 12) 4 (ram n))"
    "\<And>x. x < f \<or> f + 34 \<le> x \<Longrightarrow> m x = ram n x"
    by (rule net_ip_output_frame [OF root cfg le mac, of ?ep IP_PROTOCOL_ICMP]) simp_all
  define w where "w = write_reply (f + 34) icmp msg_length m"
  let ?D = "load (icmp + 4) (?L - 4) (ram n)"
  have D: "load (icmp + 4) (?L - 4) m = ?D" by (rule load_cong) (use m(4) apart place L in auto)
  have wr: "load (f + 34) ?L w = icmp_bytes 0 (fold_once (wsum (icmp_bytes 0 0 ?D))) ?D"
    and wo: "\<And>x. x < f + 34 \<or> f + 34 + ?L < x \<Longrightarrow> w x = m x"
    using write_reply_bytes [where m = m and icmp = icmp and r = "f + 34", OF L] apart place unfolding w_def D by auto
  have w14: "load f 14 w = load f 14 m" "load (f + 14) 20 w = load (f + 14) 20 m"
    by (rule load_cong, use wo in auto)+
  let ?n2 = "n\<lparr>packet_id := packet_id n + 1, buffers := ?b, ram := w\<rparr>"
  let ?len = "HTON16 (msg_length + 20)"
  let ?hdr = "\<lambda>cks. ip_bytes 0 ?len (ucast (packet_id n)) IP_PROTOCOL_ICMP cks (le_bytes32 (IP config)) (load (ip + 12) 4 (ram n))"
  obtain m' where m': "net_ip_send_output drv adapter resp (ucast msg_length) ?n2 = SendOutputBuffer (drv (Driver (adapters n adapter))) adapter resp (?n2\<lparr>ram := m'\<rparr>)"
    "load (f + 14) 20 m' = ?hdr (fold_once (wsum (?hdr 0)))" "\<And>x. x < f + 14 \<or> f + 34 \<le> x \<Longrightarrow> m' x = w x"
    by (rule net_ip_send_output_frame [of ?n2 resp "root\<lparr>mb_Length := sint (ucast msg_length + 20 + 14 :: u32)\<rparr>" f 0 "load (f + 16) 2 (ram n)"
          "ucast (packet_id n)" IP_PROTOCOL_ICMP "le_bytes32 (IP config)" "load (ip + 12) 4 (ram n)" drv adapter "ucast msg_length"])
       (use root w14 m(3) in \<open>simp_all add: ucast_total\<close>)
  have "icmp_reply drv adapter eth ip icmp msg_length resp n = SendOutputBuffer (drv (Driver (adapters n adapter))) adapter resp (?n2\<lparr>ram := m'\<rparr>)"
    using m(1) m'(1) req by (simp add: icmp_reply_def Let_def w_def)
  moreover have "load f (?L + 34) m' = echo_frame (load (eth + 6) 6 (ram n)) (AdMAC (adapters n adapter)) (ucast (packet_id n))
        (le_bytes32 (IP config)) (load (ip + 12) 4 (ram n)) ?D"
  proof -
    have "load f (14 + (20 + ?L)) m' = load f 14 m' @ load (f + 14) 20 m' @ load (f + 34) ?L m'"
      unfolding load_add by (simp add: add.commute)
    moreover have "load f 14 m' = load f 14 w" "load (f + 34) ?L m' = load (f + 34) ?L w"
      by (rule load_cong, use m'(3) in auto)+
    moreover have len: "(of_nat (length ?D + 24) :: u16) = msg_length + 20" using L by (simp add: of_nat_diff)
    ultimately show ?thesis unfolding echo_frame_def len Let_def by (simp add: m'(2) w14 m(2) wr add.commute add.left_commute)
  qed
  moreover have "sint (ucast msg_length + 20 + 14 :: u32) = int (?L + 34)"
    using u unsigned_less[of msg_length, where 'a = nat] by (subst sint_small) simp_all
  ultimately show thesis by (intro that [of "?n2\<lparr>ram := m'\<rparr>"]) simp_all
qed

lemma alloc_buffer_some:
  assumes "buffer_pool n = buf # rest" "MaxFrameSize (adapters n adapter) \<noteq> 0" "MaxFrameSize (adapters n adapter) \<le> BUFFER_MAX_FRAME_SIZE"
  shows "net_adapter_alloc_buffer adapter n = Inr (Some buf, n\<lparr>buffer_pool := rest, buffers := (buffers n)(buf :=
    \<lparr>BAdapter = Some adapter, Root = \<lparr>mb_id = buf, mb_Buffer = buf + sizeof_net_buffer, mb_Offset = 0, mb_Length = uint (MaxFrameSize (adapters n adapter))\<rparr>\<rparr>)\<rparr>)"
  using assms by (simp add: net_adapter_alloc_buffer_def pool_allocate_def net_mbuf_init_def Let_def)

text \<open>An echo request makes the frame of the reply in a buffer of the pool and hands it to the driver.\<close>

lemma icmp_input_replies:
  fixes n :: "'d net"
  assumes "net_ip_get_config adapter n = Some config" and "buffer_pool n = buf # rest" and "buf \<notin> set rest"
    and "net_ip_get_payload ip (ram n) = (icmp, msg_length)" and "8 \<le> unat msg_length"
    and "unat msg_length + 34 \<le> unat (MaxFrameSize (adapters n adapter))" and "MaxFrameSize (adapters n adapter) \<le> BUFFER_MAX_FRAME_SIZE"
    and "length (AdMAC (adapters n adapter)) = 6" and "eth + 14 \<le> ip" and "20 \<le> header_length ip (ram n)"
    and "fst (net_ip_checksum icmp (unat msg_length) (ram n)) = 0" and "ram n icmp = 8"
    and "icmp + unat msg_length < buf + sizeof_net_buffer \<or> buf + sizeof_net_buffer + 35 + unat msg_length \<le> eth"
  shows "\<exists>n'. load (buf + sizeof_net_buffer) (unat msg_length + 34) (ram n') =
        echo_frame (load (eth + 6) 6 (ram n)) (AdMAC (adapters n adapter)) (ucast (packet_id n))
          (le_bytes32 (IP config)) (load (ip + 12) 4 (ram n)) (load (icmp + 4) (unat msg_length - 4) (ram n))
      \<and> mb_Length (Root (buffers n' buf)) = int (unat msg_length + 34) \<and> buffer_pool n' = rest
      \<and> adapters n' = adapters n \<and> BAdapter (buffers n' buf) = Some adapter
      \<and> net_icmp_input drv adapter eth ip n = rbind (SendOutputBuffer (drv (Driver (adapters n adapter))) adapter buf n')
          (\<lambda>(sent, n3). if sent then Inr (False, n3) else rbind (net_adapter_free_buffer drv buf n3) (\<lambda>n4. Inr (False, n4)))"
proof -
  let ?f = "buf + sizeof_net_buffer" and ?L = "unat msg_length"
  define m1 where "m1 = snd (net_ip_checksum icmp ?L (ram n))"
  let ?n1 = "n\<lparr>ram := m1\<rparr>"
  define n2 where "n2 = ?n1\<lparr>buffer_pool := rest, buffers := (buffers n)(buf :=
    \<lparr>BAdapter = Some adapter, Root = \<lparr>mb_id = buf, mb_Buffer = ?f, mb_Offset = 0, mb_Length = uint (MaxFrameSize (adapters n adapter))\<rparr>\<rparr>)\<rparr>"
  have L: "?L \<le> 65536" using unsigned_less[of msg_length, where 'a = nat] by simp
  have icmp: "icmp = ip + header_length ip (ram n)" using assms(4) by (simp add: net_ip_get_payload_def)
  have m1: "m1 x = ram n x" if "x \<noteq> icmp + ?L" for x using L that by (simp add: m1_def ip_checksum_fold)
  have ld: "load a k m1 = load a k (ram n)" if "a + k \<le> icmp + ?L" for a k by (rule load_cong) (use m1 that in auto)
  have nz: "MaxFrameSize (adapters n adapter) \<noteq> 0" using assms(6) by auto
  have al: "net_adapter_alloc_buffer adapter ?n1 = Inr (Some buf, n2)"
    using alloc_buffer_some [of ?n1 buf rest adapter] assms(2,7) nz by (simp add: n2_def)
  have r2: "ram n2 = m1" "adapters n2 = adapters n" "packet_id n2 = packet_id n" "buffer_pool n2 = rest" by (simp_all add: n2_def)
  obtain n' where n': "icmp_reply drv adapter eth ip icmp msg_length buf n2 = SendOutputBuffer (drv (Driver (adapters n adapter))) adapter buf n'"
    "load ?f (?L + 34) (ram n') = echo_frame (load (eth + 6) 6 (ram n2)) (AdMAC (adapters n2 adapter)) (ucast (packet_id n2))
        (le_bytes32 (IP config)) (load (ip + 12) 4 (ram n2)) (load (icmp + 4) (?L - 4) (ram n2))"
    "buffer_pool n' = buffer_pool n2" "mb_Length (Root (buffers n' buf)) = int (?L + 34)" "adapters n' = adapters n2"
    "BAdapter (buffers n' buf) = BAdapter (buffers n2 buf)"
  proof (rule icmp_reply_frame [of n2 buf _ ?f adapter config msg_length icmp eth ip drv])
    show "net_ip_get_config adapter n2 = Some config"
      using assms(1) by (simp add: n2_def net_ip_get_config_def net_service_get_config_def)
    show "ram n2 icmp = 8" using assms(5,12) m1 [of icmp] by (simp add: r2)
  qed (use assms icmp r2 in \<open>auto simp: n2_def\<close>)
  have "net_icmp_input drv adapter eth ip n = rbind (SendOutputBuffer (drv (Driver (adapters n adapter))) adapter buf n')
      (\<lambda>(sent, n3). if sent then Inr (False, n3) else rbind (net_adapter_free_buffer drv buf n3) (\<lambda>n4. Inr (False, n4)))"
    using assms(4,11) al n'(1) by (simp add: net_icmp_input_def Let_def case_prod_beta m1_def)
  moreover have "load ?f (?L + 34) (ram n') = echo_frame (load (eth + 6) 6 (ram n)) (AdMAC (adapters n adapter)) (ucast (packet_id n))
        (le_bytes32 (IP config)) (load (ip + 12) 4 (ram n)) (load (icmp + 4) (?L - 4) (ram n))"
    using n'(2) assms(5,9,10) icmp by (simp add: r2 ld)
  ultimately show ?thesis using n'(3-6) by (intro exI [of _ n']) (simp add: r2 n2_def)
qed

text \<open>Recording the sender of a packet always succeeds and leaves the rest of the stack alone.\<close>

lemma arp_set_hw_addr_returns:
  assumes "kernel_wf (net_kernel n)"
  shows "\<exists>b a' k'. net_arp_set_hw_addr ip mac n = Inr (b, n\<lparr>arp := a', net_kernel := k'\<rparr>)"
proof (cases "arp_target ip (arp_time (arp n) + 1) 0 (table (arp n)) None (- 1)")
  case None
  then show ?thesis
    by (intro exI [of _ False] exI [of _ "(arp n)\<lparr>arp_time := arp_time (arp n) + 1\<rparr>"] exI [of _ "net_kernel n"])
      (simp add: net_arp_set_hw_addr_def net_arp_tables_set_entry_def)
next
  case (Some i)
  let ?pe = "if AState (table (arp n) ! i) = ARP_ENTRY_PENDING then AEvent (table (arp n) ! i) else None"
  obtain k' where "when_event exos_event_set ?pe (net_kernel n) = Inr k'" using when_event_set [OF assms, of ?pe] by blast
  then show ?thesis by (auto simp: net_arp_set_hw_addr_def net_arp_tables_set_entry_def Some Let_def)
qed

lemma adapter_free_pool:
  assumes "BAdapter (buffers n buf) = Some adapter" "FreeBuffer (drv (Driver (adapters n adapter))) = None" "buf \<notin> set (buffer_pool n)"
  shows "net_adapter_free_buffer drv buf n = Inr (n\<lparr>buffer_pool := buf # buffer_pool n\<rparr>)"
  using assms by (simp add: net_adapter_free_buffer_def pool_free_def)

text \<open>C17: an echo request received in an IP packet for the adapter (with correct checksums, its destination the address of the
  adapter or a broadcast) is answered when there is a free buffer: the frame handed to the driver is the echo reply to
  the sender of the request, with its identifier, sequence number and data, in the first buffer of the pool.  When the
  driver takes the frame the buffer is the driver's; when the driver refuses it and leaves the buffer and the pool alone,
  the pool afterwards is the pool before the request.
\<close>

theorem icmp_echo_reply:
  fixes n :: "'d net"
  assumes "kernel_wf (net_kernel n)" and "net_ip_get_config adapter n = Some config" and "buffer_pool n = buf # rest" and "buf \<notin> set rest"
    and "fst (net_ip_checksum ip (header_length ip (ram n)) (ram n)) = 0" and "20 \<le> header_length ip (ram n)"
    and "ip_value (ip + 16) (ram n) \<in> {IP config, IP config OR NOT (IpMask config), 0xffffffff}" and "ram n (ip + 9) = IP_PROTOCOL_ICMP"
    and "net_ip_get_payload ip (ram n) = (icmp, msg_length)" and "8 \<le> unat msg_length"
    and "unat msg_length + 34 \<le> unat (MaxFrameSize (adapters n adapter))" and "MaxFrameSize (adapters n adapter) \<le> BUFFER_MAX_FRAME_SIZE"
    and "length (AdMAC (adapters n adapter)) = 6" and "eth + 14 \<le> ip"
    and "fst (net_ip_checksum icmp (unat msg_length) (ram n)) = 0" and "ram n icmp = 8"
    and "icmp + unat msg_length < buf + sizeof_net_buffer \<or> buf + sizeof_net_buffer + 35 + unat msg_length \<le> eth"
    and "FreeBuffer (drv (Driver (adapters n adapter))) = None"
  shows "\<exists>n'. load (buf + sizeof_net_buffer) (unat msg_length + 34) (ram n') =
        echo_frame (load (eth + 6) 6 (ram n)) (AdMAC (adapters n adapter)) (ucast (packet_id n))
          (le_bytes32 (IP config)) (load (ip + 12) 4 (ram n)) (load (icmp + 4) (unat msg_length - 4) (ram n))
      \<and> mb_Length (Root (buffers n' buf)) = int (unat msg_length + 34) \<and> buffer_pool n' = rest
      \<and> adapters n' = adapters n \<and> BAdapter (buffers n' buf) = Some adapter
      \<and> (case SendOutputBuffer (drv (Driver (adapters n adapter))) adapter buf n' of
           Inl e \<Rightarrow> net_ip_input drv adapter eth ip n = Inl e
         | Inr (True, n3) \<Rightarrow> net_ip_input drv adapter eth ip n = Inr (False, n3)
         | Inr (False, n3) \<Rightarrow>
             adapters n3 = adapters n \<longrightarrow> BAdapter (buffers n3 buf) = Some adapter \<longrightarrow> buffer_pool n3 = rest \<longrightarrow>
             net_ip_input drv adapter eth ip n = Inr (False, n3\<lparr>buffer_pool := buffer_pool n\<rparr>))"
proof -
  have m: "net_ip_checksum ip (header_length ip (ram n)) (ram n) = (0, ram n)"
  proof -
    have "header_length ip (ram n) \<le> 65536" "even (header_length ip (ram n))"
      using unsigned_less[of "take_bit 4 (ram n ip)", where 'a = nat] by (simp_all add: header_length_def)
    then show ?thesis using assms(5) by (simp add: ip_checksum_fold)
  qed
  obtain b a' k' where set: "net_arp_set_hw_addr (ip_value (ip + 12) (ram n)) (load (eth + 6) 6 (ram n)) n = Inr (b, n\<lparr>arp := a', net_kernel := k'\<rparr>)"
    using arp_set_hw_addr_returns [OF assms(1)] by blast
  let ?n = "n\<lparr>arp := a', net_kernel := k'\<rparr>" and ?S = "SendOutputBuffer (drv (Driver (adapters n adapter))) adapter buf"
  have "net_ip_get_config adapter ?n = Some config" using assms(2) by (simp add: net_ip_get_config_def net_service_get_config_def)
  from icmp_input_replies [OF this, of buf rest ip icmp msg_length eth drv] assms obtain n' where n':
    "load (buf + sizeof_net_buffer) (unat msg_length + 34) (ram n') =
        echo_frame (load (eth + 6) 6 (ram n)) (AdMAC (adapters n adapter)) (ucast (packet_id n))
          (le_bytes32 (IP config)) (load (ip + 12) 4 (ram n)) (load (icmp + 4) (unat msg_length - 4) (ram n))"
    "mb_Length (Root (buffers n' buf)) = int (unat msg_length + 34)" "buffer_pool n' = rest" "adapters n' = adapters n"
    "BAdapter (buffers n' buf) = Some adapter"
    "net_icmp_input drv adapter eth ip ?n = rbind (?S n')
          (\<lambda>(sent, n3). if sent then Inr (False, n3) else rbind (net_adapter_free_buffer drv buf n3) (\<lambda>n4. Inr (False, n4)))"
    by auto
  have inp: "net_ip_input drv adapter eth ip n = net_icmp_input drv adapter eth ip ?n"
    using assms(2,7,8) m set by (auto simp: net_ip_input_def Let_def)
  have "case ?S n' of
           Inl e \<Rightarrow> net_ip_input drv adapter eth ip n = Inl e
         | Inr (True, n3) \<Rightarrow> net_ip_input drv adapter eth ip n = Inr (False, n3)
         | Inr (False, n3) \<Rightarrow>
             adapters n3 = adapters n \<longrightarrow> BAdapter (buffers n3 buf) = Some adapter \<longrightarrow> buffer_pool n3 = rest \<longrightarrow>
             net_ip_input drv adapter eth ip n = Inr (False, n3\<lparr>buffer_pool := buffer_pool n\<rparr>)"
    using adapter_free_pool [of _ buf adapter drv] assms(3,4,18) unfolding inp n'(6)
    by (auto split: sum.splits bool.splits)
  then show ?thesis using n'(1-5) by blast
qed

definition sample_drivers :: "unit drivers" where
  "sample_drivers = (\<lambda>_. \<lparr>Initialize = (\<lambda>a u n. Inr (True, n)), Start = None, GetInputBuffer = (\<lambda>a n. Inr (None, n)),
     SendOutputBuffer = (\<lambda>a b n. Inr (True, n)), FreeBuffer = None, Flush = None\<rparr>)"

definition sample_request :: "u8 list" where
  "sample_request = [2, 0, 0, 0, 0, 1] @ [2, 0, 0, 0, 0, 9] @ [8, 0]
     @ [0x45, 0, 0, 28, 0, 7, 0, 0, 64, 1, 0x66, 0xD1, 10, 0, 0, 9, 10, 0, 0, 1] @ [8, 0, 0xF7, 0xFC, 0, 1, 0, 2]"

definition sample_net :: "unit net" where
  "sample_net = \<lparr>adapters = (\<lambda>_. \<lparr>AdMAC = [2, 0, 0, 0, 0, 1], Speed = 100, MaxFrameSize = 1514, Driver = 0,
       NetData = Some [\<lparr>Protocol = 0x0800, IP = le32 [10, 0, 0, 1], IpMask = le32 [255, 255, 255, 0]\<rparr>]\<rparr>),
     adapter_list = [0], buffer_pool = [5000], buffers = (\<lambda>_. \<lparr>BAdapter = None, Root = \<lparr>mb_id = 0, mb_Buffer = 0, mb_Offset = 0, mb_Length = 0\<rparr>\<rparr>),
     ram = store 1000 sample_request (\<lambda>_. 0), arp = \<lparr>table = [], arp_time = 0\<rparr>, packet_id = 3, flush_event = Ev 0,
     net_kernel = sample_kernel, driver_data = ()\<rparr>"

text \<open>A driver that refuses every frame.\<close>

definition refusing_drivers :: "unit drivers" where
  "refusing_drivers = (\<lambda>_. (sample_drivers 0)\<lparr>SendOutputBuffer := (\<lambda>a b n. Inr (False, n))\<rparr>)"

theorem icmp_echo_reply_witness:
  "\<exists>n'. net_ip_input sample_drivers 0 1000 1014 sample_net = Inr (False, n')
      \<and> load 5036 42 (ram n') = echo_frame [2, 0, 0, 0, 0, 9] [2, 0, 0, 0, 0, 1] 3 [10, 0, 0, 1] [10, 0, 0, 9] [0, 1, 0, 2] \<and> buffer_pool n' = []
   \<and> (\<exists>n''. net_ip_input refusing_drivers 0 1000 1014 sample_net = Inr (False, n'') \<and> buffer_pool n'' = [5000])"
proof -
  have b: "ram sample_net x = (if 1000 \<le> x \<and> x < 1042 then sample_request ! (x - 1000) else 0)" for x
    by (simp add: sample_net_def store_def sample_request_def)
  have pay: "net_ip_get_payload 1014 (ram sample_net) = (1034, 8)" "header_length 1014 (ram sample_net) = 20"
    by (simp_all add: net_ip_get_payload_def header_length_def net16_def NTOH16_def b sample_request_def take_bit_eq_mod push_bit_eq_mult)
  have w: "wsum (load 1034 8 (ram sample_net)) = 65535" "wsum (load 1014 20 (ram sample_net)) = 65535"
    by (simp_all add: load_def b upt_rec sample_request_def)
  have ck: "fst (net_ip_checksum 1034 (unat (8 :: u16)) (ram sample_net)) = 0"
    "fst (net_ip_checksum 1014 (header_length 1014 (ram sample_net)) (ram sample_net)) = 0"
    by (simp_all add: ip_checksum_fold w fold_once_def pay)
  have ld: "load (1000 + 6) 6 (ram sample_net) = [2, 0, 0, 0, 0, 9]" "load (1014 + 12) 4 (ram sample_net) = [10, 0, 0, 9]"
    "load (1034 + 4) 4 (ram sample_net) = [0, 1, 0, 2]" "ram sample_net 1034 = 8" "ram sample_net (1014 + 9) = 1"
    "load (1014 + 16) 4 (ram sample_net) = [10, 0, 0, 1]"
    by (simp_all add: load_def b upt_rec sample_request_def)
  have dst: "ip_value (1014 + 16) (ram sample_net) = le32 [10, 0, 0, 1]" using ld(6) by (simp add: ip_value_def)
  have cfg: "net_ip_get_config 0 sample_net = Some \<lparr>Protocol = 0x0800, IP = le32 [10, 0, 0, 1], IpMask = le32 [255, 255, 255, 0]\<rparr>"
    by (simp add: net_ip_get_config_def net_service_get_config_def sample_net_def)
  have wf: "kernel_wf (net_kernel sample_net)" using sample_kernel_wf by (simp add: sample_net_def)
  have pool: "buffer_pool sample_net = [5000]" "MaxFrameSize (adapters sample_net 0) = 1514" "AdMAC (adapters sample_net 0) = [2, 0, 0, 0, 0, 1]"
    "packet_id sample_net = 3"
    by (simp_all add: sample_net_def)
  note e = icmp_echo_reply [OF wf cfg pool(1) _ ck(2) _ _ _ pay(1), of 1000, simplified pool dst pay ck ld, simplified ld]
  have "\<exists>n'. net_ip_input sample_drivers 0 1000 1014 sample_net = Inr (False, n')
      \<and> load 5036 42 (ram n') = echo_frame [2, 0, 0, 0, 0, 9] [2, 0, 0, 0, 0, 1] 3 [10, 0, 0, 1] [10, 0, 0, 9] [0, 1, 0, 2] \<and> buffer_pool n' = []"
    using e [of sample_drivers] ck(1) ld by (auto simp: sample_drivers_def sizeof_net_buffer_def sizeof_node_def le_bytes32_le32)
  moreover have "\<exists>n''. net_ip_input refusing_drivers 0 1000 1014 sample_net = Inr (False, n'') \<and> buffer_pool n'' = [5000]"
    using e [of refusing_drivers] ck(1) ld by (auto simp: refusing_drivers_def sample_drivers_def sizeof_net_buffer_def sizeof_node_def)
  ultimately show ?thesis by blast
qed

section \<open>Answers to address requests\<close>

lemma net16_HTON16: "load x 2 m = HTON16 v \<Longrightarrow> net16 x m = v"
proof -
  assume "load x 2 m = HTON16 v"
  moreover have "net16 x m = NTOH16 (load x 2 m ! 0) (load x 2 m ! 1)" by (simp add: net16_def)
  ultimately show ?thesis by (simp only: NTOH16_HTON16)
qed

definition arp_bytes :: "u16 \<Rightarrow> hw_addr \<Rightarrow> u8 list \<Rightarrow> hw_addr \<Rightarrow> u8 list \<Rightarrow> u8 list" where
  "arp_bytes oper sha spa tha tpa = HTON16 1 @ HTON16 0x0800 @ [6] @ [4] @ HTON16 oper @ sha @ spa @ tha @ tpa"

lemma load_28: "load a 28 m = load a 2 m @ load (a + 2) 2 m @ load (a + 4) 1 m @ load (a + 5) 1 m @ load (a + 6) 2 m
    @ load (a + 8) 6 m @ load (a + 14) 4 m @ load (a + 18) 6 m @ load (a + 24) 4 m"
  by (simp add: load_def upt_rec numeral_eq_Suc)

lemma equal_bytes_all: "equal_bytes i n a b \<longleftrightarrow> (\<forall>j. i \<le> j \<and> j < i + n \<longrightarrow> a ! j = b ! j)"
proof (induction n arbitrary: i)
  case (Suc n)
  have "(\<forall>j. i \<le> j \<and> j < i + Suc n \<longrightarrow> a ! j = b ! j) \<longleftrightarrow> a ! i = b ! i \<and> (\<forall>j. i + 1 \<le> j \<and> j < i + 1 + n \<longrightarrow> a ! j = b ! j)"
    by (auto simp: Suc_le_eq) (metis le_neq_implies_less)
  with Suc show ?case by simp
qed auto

lemma net_equal_hw_addr_eq: "length a = 6 \<Longrightarrow> length b = 6 \<Longrightarrow> net_equal_hw_addr a b \<longleftrightarrow> a = b"
  by (auto simp: net_equal_hw_addr_def equal_bytes_all list_eq_iff_nth_eq)

lemma arp_reply_frame:
  fixes n :: "'d net"
  assumes root: "Root (buffers n resp) = root" "mb_Offset root = 0" "mb_Buffer root = f"
    and cfg: "net_ip_get_config adapter n = Some config"
    and fits: "42 \<le> MaxFrameSize (adapters n adapter)" and mac: "length (AdMAC (adapters n adapter)) = 6"
    and apart: "a + 28 \<le> f \<or> f + 42 \<le> a"
  obtains n' where "arp_reply drv adapter a config resp n = rbind (SendOutputBuffer (drv (Driver (adapters n adapter))) adapter resp n')
        (\<lambda>(sent, n2). if sent then Inr n2 else net_adapter_free_buffer drv resp n2)"
    "load f 42 (ram n') = eth_bytes (load (a + 8) 6 (ram n)) (AdMAC (adapters n adapter)) ETH_TYPE_ARP
        @ arp_bytes 2 (AdMAC (adapters n adapter)) (le_bytes32 (IP config)) (load (a + 8) 6 (ram n)) (load (a + 14) 4 (ram n))"
    "buffer_pool n' = buffer_pool n" "mb_Length (Root (buffers n' resp)) = 42"
proof -
  let ?mac = "AdMAC (adapters n adapter)" and ?ip = "le_bytes32 (IP config)" and ?r = "f + 14"
  let ?sha = "load (a + 8) 6 (ram n)" and ?spa = "load (a + 14) 4 (ram n)"
  have le: "(28 :: u32) + 14 \<le> ucast (MaxFrameSize (adapters n adapter))"
    using fits unsigned_less[of "MaxFrameSize (adapters n adapter)", where 'a = nat]
    by (simp add: word_le_nat_alt unsigned_ucast_eq take_bit_nat_eq_self)
  obtain m where m: "net_output adapter resp 28 ?sha ETH_TYPE_ARP n = Inr (?r, n\<lparr>ram := m, buffers := (buffers n)(resp :=
      (buffers n resp)\<lparr>Root := root\<lparr>mb_Length := sint (28 + 14 :: u32)\<rparr>\<rparr>)\<rparr>)"
    "load f 14 m = eth_bytes ?sha ?mac ETH_TYPE_ARP" "\<And>x. x < f \<or> f + 14 \<le> x \<Longrightarrow> m x = ram n x"
    by (rule net_output_frame [OF root le mac, of ?sha ETH_TYPE_ARP]) simp_all
  have src: "load (a + 8) 6 m = ?sha" "load (a + 14) 4 m = ?spa"
    by (rule load_cong, use m(3) apart in auto)+
  define m6 where "m6 = store (?r + 5) [4] (store (?r + 2) (HTON16 0x0800) (store (?r + 4) [6] (store ?r (HTON16 1)
     (store (?r + 14) ?ip (store (?r + 8) ?mac m)))))"
  define w where "w = store (?r + 24) ?spa (store (?r + 18) ?sha (store (?r + 14) ?ip (store (?r + 6) (HTON16 2) m6)))"
  have "load (a + 8) 6 (store (?r + 14) ?ip (store (?r + 6) (HTON16 2) m6)) = ?sha"
    "load (a + 14) 4 (store (?r + 18) ?sha (store (?r + 14) ?ip (store (?r + 6) (HTON16 2) m6))) = ?spa"
    using apart src mac unfolding m6_def by (auto simp: load_store_other)
  then have "arp_reply drv adapter a config resp n = rbind (SendOutputBuffer (drv (Driver (adapters n adapter))) adapter resp
      (n\<lparr>buffers := (buffers n)(resp := (buffers n resp)\<lparr>Root := root\<lparr>mb_Length := sint (28 + 14 :: u32)\<rparr>\<rparr>), ram := w\<rparr>))
        (\<lambda>(sent, n2). if sent then Inr n2 else net_adapter_free_buffer drv resp n2)"
    using m(1) by (simp add: arp_reply_def net_arp_output_def cfg Let_def net_adapter_send_output_def w_def m6_def)
  moreover have "load f (14 + 28) w = load f 14 w @ load (f + 14) 28 w" by (rule load_add)
  moreover have "load f 14 w = eth_bytes ?sha ?mac ETH_TYPE_ARP"
    using m(2) mac by (simp add: w_def m6_def load_store_other)
  moreover have "load ?r 28 w = arp_bytes 2 ?mac ?ip ?sha ?spa"
    using mac unfolding load_28 by (simp add: w_def m6_def load_store arp_bytes_def)
  ultimately show thesis
    by (intro that [of "n\<lparr>buffers := (buffers n)(resp := (buffers n resp)\<lparr>Root := root\<lparr>mb_Length := sint (28 + 14 :: u32)\<rparr>\<rparr>), ram := w\<rparr>"]) simp_all
qed

text \<open>C19: A request for the address of a configured adapter (with no target hardware address, or with its
  own) is answered to its sender with the hardware address of the adapter.
\<close>

theorem arp_request_answered:
  fixes n :: "'d net"
  assumes "net_ip_get_config adapter n = Some config" and "buffer_pool n = buf # rest"
    and "42 \<le> MaxFrameSize (adapters n adapter)" and "MaxFrameSize (adapters n adapter) \<le> BUFFER_MAX_FRAME_SIZE"
    and "length (AdMAC (adapters n adapter)) = 6" and "length sha = 6" and "length spa = 4"
    and "tha = replicate 6 0 \<or> tha = AdMAC (adapters n adapter)"
    and "load a 28 (ram n) = arp_bytes 1 sha spa tha (le_bytes32 (IP config))"
    and "a + 28 \<le> buf + sizeof_net_buffer \<or> buf + sizeof_net_buffer + 42 \<le> a"
  shows "\<exists>n'. load (buf + sizeof_net_buffer) 42 (ram n') = eth_bytes sha (AdMAC (adapters n adapter)) ETH_TYPE_ARP
        @ arp_bytes 2 (AdMAC (adapters n adapter)) (le_bytes32 (IP config)) sha spa
      \<and> mb_Length (Root (buffers n' buf)) = 42 \<and> buffer_pool n' = rest
      \<and> net_arp_input drv adapter a n = rbind (SendOutputBuffer (drv (Driver (adapters n adapter))) adapter buf n')
          (\<lambda>(sent, n2). rbind (if sent then Inr n2 else net_adapter_free_buffer drv buf n2) (\<lambda>n3. Inr (False, n3)))"
proof -
  let ?m = "ram n" and ?f = "buf + sizeof_net_buffer"
  have tl: "length tha = 6" using assms(5,8) by auto
  have fields: "load (a + 2) 2 ?m = HTON16 0x0800" "?m (a + 4) = 6" "?m (a + 5) = 4" "load (a + 6) 2 ?m = HTON16 1"
    "load (a + 8) 6 ?m = sha" "load (a + 14) 4 ?m = spa" "load (a + 18) 6 ?m = tha" "load (a + 24) 4 ?m = le_bytes32 (IP config)"
    using assms(9) unfolding load_28 arp_bytes_def load_1 using assms(6,7) tl by (simp_all add: append_eq_append_conv)
  have tpa: "ip_value (a + 24) ?m = IP config" by (simp add: ip_value_def fields le32_le_bytes32)
  have nz: "MaxFrameSize (adapters n adapter) \<noteq> 0" using assms(3) by auto
  define n1 where "n1 = n\<lparr>buffer_pool := rest, buffers := (buffers n)(buf :=
    \<lparr>BAdapter = Some adapter, Root = \<lparr>mb_id = buf, mb_Buffer = ?f, mb_Offset = 0, mb_Length = uint (MaxFrameSize (adapters n adapter))\<rparr>\<rparr>)\<rparr>"
  have al: "net_adapter_alloc_buffer adapter n = Inr (Some buf, n1)"
    using alloc_buffer_some [OF assms(2) nz assms(4)] by (simp add: n1_def)
  have r1: "ram n1 = ram n" "adapters n1 = adapters n" "buffer_pool n1 = rest" by (simp_all add: n1_def)
  have cfg: "net_ip_get_config adapter n1 = Some config"
    using assms(1) by (simp add: n1_def net_ip_get_config_def net_service_get_config_def)
  obtain n' where n': "arp_reply drv adapter a config buf n1 = rbind (SendOutputBuffer (drv (Driver (adapters n1 adapter))) adapter buf n')
        (\<lambda>(sent, n2). if sent then Inr n2 else net_adapter_free_buffer drv buf n2)"
    "load ?f 42 (ram n') = eth_bytes (load (a + 8) 6 (ram n1)) (AdMAC (adapters n1 adapter)) ETH_TYPE_ARP
        @ arp_bytes 2 (AdMAC (adapters n1 adapter)) (le_bytes32 (IP config)) (load (a + 8) 6 (ram n1)) (load (a + 14) 4 (ram n1))"
    "buffer_pool n' = buffer_pool n1" "mb_Length (Root (buffers n' buf)) = 42"
    by (rule arp_reply_frame [of n1 buf _ ?f adapter config a drv, OF _ _ _ cfg]) (use assms in \<open>auto simp: n1_def\<close>)
  have "net_arp_input drv adapter a n = rbind (arp_reply drv adapter a config buf n1) (\<lambda>n3. Inr (False, n3))"
    using assms(1,5,8) tl fields al
    by (auto simp: net_arp_input_def Let_def net16_HTON16 tpa net_equal_hw_addr_eq)
  then show ?thesis
    using n' by (intro exI [of _ n']) (simp add: r1 fields rbind_def split: sum.splits prod.splits)
qed

theorem arp_request_answered_witness:
  "\<exists>n'. net_arp_input sample_drivers 0 2000 (sample_net\<lparr>ram := store 2000 (arp_bytes 1 [2, 0, 0, 0, 0, 9] [10, 0, 0, 9] (replicate 6 0) [10, 0, 0, 1]) (\<lambda>_. 0)\<rparr>)
         = Inr (False, n')
      \<and> load 5036 42 (ram n') = eth_bytes [2, 0, 0, 0, 0, 9] [2, 0, 0, 0, 0, 1] 0x0806
          @ arp_bytes 2 [2, 0, 0, 0, 0, 1] [10, 0, 0, 1] [2, 0, 0, 0, 0, 9] [10, 0, 0, 9]"
proof -
  let ?n = "sample_net\<lparr>ram := store 2000 (arp_bytes 1 [2, 0, 0, 0, 0, 9] [10, 0, 0, 9] (replicate 6 0) [10, 0, 0, 1]) (\<lambda>_. 0)\<rparr>"
  have cfg: "net_ip_get_config 0 ?n = Some \<lparr>Protocol = 0x0800, IP = le32 [10, 0, 0, 1], IpMask = le32 [255, 255, 255, 0]\<rparr>"
    by (simp add: net_ip_get_config_def net_service_get_config_def sample_net_def)
  have ld: "load 2000 28 (ram ?n) = arp_bytes 1 [2, 0, 0, 0, 0, 9] [10, 0, 0, 9] (replicate 6 0) [10, 0, 0, 1]"
    by (simp add: load_store_same arp_bytes_def)
  show ?thesis
    using arp_request_answered [OF cfg, of 5000 "[]" "[2, 0, 0, 0, 0, 9]" "[10, 0, 0, 9]" "replicate 6 0" 2000 sample_drivers] ld
    by (simp add: sample_net_def sample_drivers_def sizeof_net_buffer_def sizeof_node_def le_bytes32_le32) blast
qed

text \<open>A reply addressed to the adapter is remembered: afterwards the address of its sender resolves to the hardware address of the sender.
\<close>

theorem arp_reply_learned:
  fixes n :: "'d net"
  assumes "kernel_wf (net_kernel n)" and "arp_entries_ok (table (arp n))" and "net_ip_get_config adapter n = Some config"
    and "length sha = 6" and "length spa = 4" and "length tpa = 4" and "length (AdMAC (adapters n adapter)) = 6"
    and "load a 28 (ram n) = arp_bytes 2 sha spa (AdMAC (adapters n adapter)) tpa"
    and "arp_target (le32 spa) (arp_time (arp n) + 1) 0 (table (arp n)) None (- 1) \<noteq> None"
  shows "\<exists>n'. net_arp_input drv adapter a n = Inr (False, n')
    \<and> net_arp_tables_get_hw_addr (le32 spa) (arp n') = Some sha \<and> arp_entries_ok (table (arp n'))
    \<and> ram n' = ram n \<and> buffer_pool n' = buffer_pool n"
proof -
  let ?m = "ram n"
  have fields: "load (a + 2) 2 ?m = HTON16 0x0800" "?m (a + 4) = 6" "?m (a + 5) = 4" "load (a + 6) 2 ?m = HTON16 2"
    "load (a + 8) 6 ?m = sha" "load (a + 14) 4 ?m = spa" "load (a + 18) 6 ?m = AdMAC (adapters n adapter)"
    using assms(8) unfolding load_28 arp_bytes_def load_1 using assms(4-7) by (simp_all add: append_eq_append_conv)
  obtain i where i: "arp_target (le32 spa) (arp_time (arp n) + 1) 0 (table (arp n)) None (- 1) = Some i" using assms(9) by blast
  let ?pe = "if AState (table (arp n) ! i) = ARP_ENTRY_PENDING then AEvent (table (arp n) ! i) else None"
  obtain k' where "when_event exos_event_set ?pe (net_kernel n) = Inr k'" using when_event_set [OF assms(1), of ?pe] by blast
  then obtain a' where set: "net_arp_tables_set_entry (le32 spa) sha ARP_ENTRY_VALID None (arp n) (net_kernel n) = Inr (Some i, a', k')"
    by (simp add: net_arp_tables_set_entry_def Let_def i)
  have "net_arp_input drv adapter a n = Inr (False, n\<lparr>arp := a', net_kernel := k'\<rparr>)"
    using assms(3,7) fields set
    by (simp add: net_arp_input_def Let_def net16_HTON16 net_equal_hw_addr_eq ip_value_def net_arp_set_hw_addr_def)
  moreover note arp_set_entry_lookup [OF assms(1,2) _ set]
  ultimately show ?thesis by simp
qed

theorem arp_reply_learned_witness:
  "let n = sample_net\<lparr>arp := sample_arp, ram := store 2000 (arp_bytes 2 [2, 0, 0, 0, 0, 9] [10, 0, 0, 9] [2, 0, 0, 0, 0, 1] [10, 0, 0, 1]) (\<lambda>_. 0)\<rparr>
   in \<exists>n'. net_arp_input sample_drivers 0 2000 n = Inr (False, n')
        \<and> net_arp_tables_get_hw_addr (le32 [10, 0, 0, 9]) (arp n') = Some [2, 0, 0, 0, 0, 9]"
proof -
  let ?n = "sample_net\<lparr>arp := sample_arp, ram := store 2000 (arp_bytes 2 [2, 0, 0, 0, 0, 9] [10, 0, 0, 9] [2, 0, 0, 0, 0, 1] [10, 0, 0, 1]) (\<lambda>_. 0)\<rparr>"
  let ?cfg = "\<lparr>Protocol = 0x0800, IP = le32 [10, 0, 0, 1], IpMask = le32 [255, 255, 255, 0]\<rparr>"
  have cfg: "net_ip_get_config 0 ?n = Some ?cfg"
    by (simp add: net_ip_get_config_def net_service_get_config_def sample_net_def)
  have ld: "load 2000 28 (ram ?n) = arp_bytes 2 [2, 0, 0, 0, 0, 9] [10, 0, 0, 9] (AdMAC (adapters ?n 0)) [10, 0, 0, 1]"
    by (simp add: load_store_same arp_bytes_def sample_net_def)
  have ok: "arp_entries_ok (table (arp ?n))" using sample_arp_ok by simp
  have target: "arp_target (le32 [10, 0, 0, 9]) (arp_time (arp ?n) + 1) 0 (table (arp ?n)) None (- 1) \<noteq> None"
    by (simp add: sample_arp_def sample_arp_entry_def Let_def)
  have wf: "kernel_wf (net_kernel ?n)" using sample_kernel_wf by (simp add: sample_net_def)
  from arp_reply_learned [OF wf ok cfg _ _ _ _ ld target, of sample_drivers] show ?thesis
    by (simp add: sample_net_def) blast
qed

end
