(* ===== verification/Tcp.thy ===== *)
theory Tcp
  imports NetStack DeviceIo
begin

text \<open>
  The transport protocol (\<^verbatim>\<open>exos/kernel/driver/net/tcp.c\<close>, \<^verbatim>\<open>tcp_service.c\<close>,
  \<^verbatim>\<open>tcp_io.c\<close>): connection entries, the state machine that input segments, the calls of the
  application and the service thread drive, and the checksum over buffer chains.  The value of
  \<^verbatim>\<open>exos_timer_time()\<close> is the argument \<open>now\<close>; \<^verbatim>\<open>exos_signal_set\<close>, which the sources only
  call, is counted in \<open>wakeups\<close>.  The union of an entry that holds either the stream or the queue of
  incoming connections is modelled by both members.
\<close>

unbundle bit_operations_syntax

section \<open>State\<close>

record TCP_FLAGS =
  FIN :: bool
  SYN :: bool
  RST :: bool
  PSH :: bool
  ACK :: bool

definition no_flags :: TCP_FLAGS where
  "no_flags = \<lparr>FIN = False, SYN = False, RST = False, PSH = False, ACK = False\<rparr>"

datatype TCP_STATE =
    TCP_STATE_CLOSED
  | TCP_STATE_LISTEN
  | TCP_STATE_SYN_SENT
  | TCP_STATE_SYN_RECEIVED
  | TCP_STATE_ESTABLISHED
  | TCP_STATE_CLOSE_WAIT
  | TCP_STATE_LAST_ACK
  | TCP_STATE_FIN_WAIT_1
  | TCP_STATE_FIN_WAIT_2
  | TCP_STATE_CLOSING
  | TCP_STATE_TIME_WAIT

record TCP_IO_ENTRY =
  TcpState :: TCP_STATE
  LocalPort :: u16
  RemotePort :: u16
  RemoteIP :: u32
  RcvNext :: u32
  RcvBuffer :: io_buffer_t
  SndSeq :: u32
  SndBuffer :: io_buffer_t
  SndFlags :: TCP_FLAGS
  AcceptQueue :: fifo_t
  ServiceWait :: u16
  ServiceRetry :: u16
  ServiceTime :: u32
  TcpInputEvent :: eid
  TcpOutputEvent :: eid
  CloseEvent :: eid

record TCP_INCOMING_CONN =
  ConnRemoteIP :: u32
  ConnRemotePort :: u16
  ConnLocalPort :: u16
  ConnSequence :: u32

text \<open>The fields of a segment that was handed to the datagram layer, the length announced for it and its data.\<close>

record tcp_segment =
  SgSequence :: u32
  SgAck :: u32
  SgFlags :: TCP_FLAGS
  SgWindow :: u16
  SgLength :: int
  SgData :: "u8 list"

record tcp =
  entries :: "nat \<Rightarrow> TCP_IO_ENTRY"
  bound :: "nat list"                  \<comment> \<open>\<^verbatim>\<open>_entries\<close>\<close>
  free_conns :: fifo_t                 \<comment> \<open>\<^verbatim>\<open>_free_incoming_connections\<close>\<close>
  conns :: "nat \<Rightarrow> TCP_INCOMING_CONN"
  port_hack :: u16
  wakeups :: nat
  segments :: "(nat \<times> tcp_segment) list"
  tcp_kernel :: kernel

definition upd_entry :: "nat \<Rightarrow> (TCP_IO_ENTRY \<Rightarrow> TCP_IO_ENTRY) \<Rightarrow> tcp \<Rightarrow> tcp" where
  "upd_entry io f s = s\<lparr>entries := (entries s)(io := f (entries s io))\<rparr>"

definition with_kernel :: "(kernel \<Rightarrow> kernel res) \<Rightarrow> tcp \<Rightarrow> tcp res" where
  "with_kernel f s = rbind (f (tcp_kernel s)) (\<lambda>k. Inr (s\<lparr>tcp_kernel := k\<rparr>))"

section \<open>Binding, listening, closing\<close>

text \<open>\<^verbatim>\<open>net_tcp_service_start\<close>: \<open>connections\<close> are the addresses of the static descriptors.\<close>

fun queue_all :: "nat list \<Rightarrow> fifo_t \<Rightarrow> kernel \<Rightarrow> (fifo_t \<times> kernel) res" where
  "queue_all [] f k = Inr (f, k)"
| "queue_all (c # cs) f k = rbind (exos_fifo_queue c f k) (\<lambda>(f1, k1). queue_all cs f1 k1)"

definition net_tcp_service_start :: "nat list \<Rightarrow> tcp \<Rightarrow> tcp res" where
  "net_tcp_service_start connections s =
     rbind (queue_all connections (exos_fifo_create None) (tcp_kernel s))
       (\<lambda>(f, k). Inr (s\<lparr>bound := [], free_conns := f, tcp_kernel := k\<rparr>))"

definition tcp_io_find_io :: "u16 \<Rightarrow> u32 \<Rightarrow> u16 \<Rightarrow> tcp \<Rightarrow> nat option" where
  "tcp_io_find_io local_port remote_ip remote_port s =
     find (\<lambda>io. LocalPort (entries s io) = local_port \<and> RemoteIP (entries s io) = remote_ip
                \<and> RemotePort (entries s io) = remote_port) (bound s)"

definition net_tcp_service :: "u32 \<Rightarrow> nat \<Rightarrow> int \<Rightarrow> tcp \<Rightarrow> tcp" where
  "net_tcp_service now io wait s =
     (upd_entry io (\<lambda>e. e\<lparr>ServiceTime := now, ServiceWait := of_int wait, ServiceRetry := 0\<rparr>) s)\<lparr>wakeups := wakeups s + 1\<rparr>"

definition tcp_bind :: "nat \<Rightarrow> TCP_STATE \<Rightarrow> tcp \<Rightarrow> (bool \<times> tcp) res" where
  "tcp_bind io init_state s =
     (let e = entries s io;
          existing = tcp_io_find_io (LocalPort e) (RemoteIP e) (RemotePort e) s;
          ok = (existing = None \<or> existing = Some io);
          s1 = (if ok then upd_entry io (\<lambda>x. x\<lparr>TcpState := init_state\<rparr>)
                  (if existing = None then s\<lparr>bound := bound s @ [io]\<rparr> else s) else s)
      in rbind (with_kernel (exos_event_reset (CloseEvent e)) s1) (\<lambda>s2. Inr (ok, s2)))"

definition net_tcp_listen :: "nat \<Rightarrow> u16 \<Rightarrow> tcp \<Rightarrow> (bool \<times> tcp) res" where
  "net_tcp_listen io local_port s =
     (if TcpState (entries s io) = TCP_STATE_CLOSED
      then tcp_bind io TCP_STATE_LISTEN
             (upd_entry io (\<lambda>e. e\<lparr>LocalPort := local_port, RemotePort := 0, RemoteIP := 0,
                AcceptQueue := exos_fifo_create (Some (TcpInputEvent e))\<rparr>) s)
      else Inr (False, s))"

text \<open>\<^verbatim>\<open>net_tcp_accept\<close> up to the wait for \<^verbatim>\<open>OutputEvent\<close>; the result tells whether the call waits.\<close>

definition net_tcp_accept_begin :: "u32 \<Rightarrow> nat \<Rightarrow> u8 list \<Rightarrow> u16 \<Rightarrow> u8 list \<Rightarrow> u16 \<Rightarrow> nat \<Rightarrow> tcp \<Rightarrow> (bool \<times> tcp) res" where
  "net_tcp_accept_begin now io rcv_mem rcv_size snd_mem snd_size conn s =
     (let e = entries s io; c = conns s conn in
      if TcpState e = TCP_STATE_CLOSED
      then rbind (exos_io_buffer_create rcv_mem rcv_size (Some (TcpInputEvent e)) None) (\<lambda>rb.
             rbind (exos_io_buffer_create snd_mem snd_size None (Some (TcpOutputEvent e))) (\<lambda>sb.
               rbind (tcp_bind io TCP_STATE_SYN_RECEIVED
                       (upd_entry io (\<lambda>x. x\<lparr>RcvBuffer := rb, SndBuffer := sb, LocalPort := ConnLocalPort c,
                          RemotePort := ConnRemotePort c, RemoteIP := ConnRemoteIP c, RcvNext := ConnSequence c + 1,
                          SndSeq := 0, SndFlags := no_flags\<lparr>SYN := True, ACK := True\<rparr>\<rparr>) s)) (\<lambda>(ok, s1).
                 rbind (exos_fifo_queue conn (free_conns s1) (tcp_kernel s1)) (\<lambda>(f, k).
                   let s2 = s1\<lparr>free_conns := f, tcp_kernel := k\<rparr>
                   in Inr (ok, if ok then net_tcp_service now io 0 s2 else s2)))))
      else Inr (False, s))"

text \<open>\<^verbatim>\<open>ip.c\<close>: resolving an address is not implemented.\<close>

definition net_ip_resolve :: "u32 \<Rightarrow> bool res" where
  "net_ip_resolve ep = Inl (Panic KERNEL_ERROR_NOT_IMPLEMENTED)"

definition net_ip_get_adapter_and_resolve :: "u32 \<Rightarrow> bool res" where
  "net_ip_get_adapter_and_resolve ep = Inl (Panic KERNEL_ERROR_NOT_IMPLEMENTED)"

definition net_tcp_connect_begin :: "u32 \<Rightarrow> nat \<Rightarrow> u8 list \<Rightarrow> u16 \<Rightarrow> u8 list \<Rightarrow> u16 \<Rightarrow> u32 \<Rightarrow> u16 \<Rightarrow> tcp \<Rightarrow> (bool \<times> tcp) res" where
  "net_tcp_connect_begin now io rcv_mem rcv_size snd_mem snd_size address port s =
     (let e = entries s io in
      if TcpState e = TCP_STATE_CLOSED
      then rbind (with_kernel (exos_event_reset (CloseEvent e)) s) (\<lambda>s1.
        let ph = (port_hack s1 + 1) mod 1000;
            s2 = upd_entry io (\<lambda>x. x\<lparr>LocalPort := 10000 + ph, RemotePort := port, RemoteIP := address\<rparr>) (s1\<lparr>port_hack := ph\<rparr>)
        in rbind (net_ip_get_adapter_and_resolve address) (\<lambda>found.
             if found
             then rbind (exos_io_buffer_create rcv_mem rcv_size (Some (TcpInputEvent e)) None) (\<lambda>rb.
                    rbind (exos_io_buffer_create snd_mem snd_size None (Some (TcpOutputEvent e))) (\<lambda>sb.
                      rbind (tcp_bind io TCP_STATE_SYN_SENT
                              (upd_entry io (\<lambda>x. x\<lparr>RcvBuffer := rb, SndBuffer := sb, RcvNext := 0, SndSeq := 0,
                                 SndFlags := no_flags\<lparr>SYN := True\<rparr>\<rparr>) s2)) (\<lambda>(ok, s3).
                        Inr (ok, if ok then net_tcp_service now io 0 s3 else s3))))
             else Inr (False, s2)))
      else Inr (False, s))"

text \<open>\<^verbatim>\<open>net_tcp_close\<close>: pending connections are given back; the call then waits for \<^verbatim>\<open>CloseEvent\<close>.\<close>

fun recycle_conns :: "nat \<Rightarrow> nat \<Rightarrow> tcp \<Rightarrow> tcp res" where
  "recycle_conns 0 io s = Inl OutOfFuel"
| "recycle_conns (Suc fuel) io s =
     rbind (exos_fifo_dequeue (AcceptQueue (entries s io)) (tcp_kernel s)) (\<lambda>(conn, q, k).
       let s1 = (upd_entry io (\<lambda>e. e\<lparr>AcceptQueue := q\<rparr>) s)\<lparr>tcp_kernel := k\<rparr> in
       case conn of
         None \<Rightarrow> Inr s1
       | Some c \<Rightarrow> rbind (exos_fifo_queue c (free_conns s1) (tcp_kernel s1)) (\<lambda>(f, k1).
           recycle_conns fuel io (s1\<lparr>free_conns := f, tcp_kernel := k1\<rparr>)))"

definition net_tcp_close_begin :: "u32 \<Rightarrow> nat \<Rightarrow> tcp \<Rightarrow> tcp res" where
  "net_tcp_close_begin now io s =
     (let st = TcpState (entries s io) in
      if st = TCP_STATE_LISTEN
      then rbind (recycle_conns (Suc (length (Items (AcceptQueue (entries s io))))) io s) (\<lambda>s1.
             with_kernel (exos_event_set (CloseEvent (entries s io)))
               (upd_entry io (\<lambda>e. e\<lparr>TcpState := TCP_STATE_CLOSED\<rparr>) (s1\<lparr>bound := filter (\<lambda>x. x \<noteq> io) (bound s1)\<rparr>)))
      else if st \<noteq> TCP_STATE_CLOSED
      then Inr (net_tcp_service now io 0
             (if st = TCP_STATE_CLOSE_WAIT
              then upd_entry io (\<lambda>e. e\<lparr>SndFlags := no_flags\<lparr>FIN := True, ACK := True\<rparr>, TcpState := TCP_STATE_LAST_ACK\<rparr>) s
              else if st = TCP_STATE_SYN_RECEIVED \<or> st = TCP_STATE_ESTABLISHED
              then upd_entry io (\<lambda>e. e\<lparr>SndFlags := no_flags\<lparr>FIN := True, ACK := True\<rparr>, TcpState := TCP_STATE_FIN_WAIT_1\<rparr>) s
              else s))
      else Inr s)"

definition net_tcp_close_end :: "nat \<Rightarrow> tcp \<Rightarrow> unit res" where
  "net_tcp_close_end io s = (if TcpState (entries s io) \<noteq> TCP_STATE_CLOSED then Inl (Panic KERNEL_ERROR_UNKNOWN) else Inr ())"

section \<open>Reading and writing\<close>

definition tcp_read :: "nat \<Rightarrow> nat \<Rightarrow> tcp \<Rightarrow> (int \<times> u8 list \<times> tcp) res" where
  "tcp_read io len s =
     rbind (exos_io_buffer_read len (RcvBuffer (entries s io)) (tcp_kernel s)) (\<lambda>(out, b, k).
       let s1 = (upd_entry io (\<lambda>e. e\<lparr>RcvBuffer := b\<rparr>) s)\<lparr>tcp_kernel := k\<rparr>
       in Inr (if out = [] \<and> TcpState (entries s io) \<noteq> TCP_STATE_ESTABLISHED then - 1 else int (length out), out, s1))"

definition tcp_write :: "u32 \<Rightarrow> nat \<Rightarrow> u8 list \<Rightarrow> tcp \<Rightarrow> (int \<times> tcp) res" where
  "tcp_write now io xs s =
     rbind (if TcpState (entries s io) \<noteq> TCP_STATE_ESTABLISHED then Inr (- 1, s)
            else rbind (exos_io_buffer_write xs (SndBuffer (entries s io)) (tcp_kernel s)) (\<lambda>(n, b, k).
                   Inr (int n, (upd_entry io (\<lambda>e. e\<lparr>SndBuffer := b\<rparr>) s)\<lparr>tcp_kernel := k\<rparr>)))
       (\<lambda>(r, s1). Inr (r, net_tcp_service now io 0 (upd_entry io (\<lambda>e. e\<lparr>SndFlags := (SndFlags e)\<lparr>PSH := True\<rparr>\<rparr>) s1)))"

section \<open>Sending\<close>

definition buffer_run :: "io_buffer_t \<Rightarrow> nat \<Rightarrow> nat option \<Rightarrow> u8 list" where
  "buffer_run b n i = (case i of None \<Rightarrow> [] | Some j \<Rightarrow> take n (drop j (Buffer b)))"

text \<open>
  The payload of a segment: one or two runs of the send buffer, cut to \<open>max_payload\<close>; the number is
  the payload length the code goes on with.
\<close>

definition tcp_payload :: "nat \<Rightarrow> io_buffer_t \<Rightarrow> nat \<times> u8 list" where
  "tcp_payload max_payload b =
     (let (payload, buffer) = exos_io_buffer_peek 0 b in
      if payload \<noteq> 0
      then if payload > max_payload then (max_payload, buffer_run b max_payload buffer)
           else let (payload2, buffer2) = exos_io_buffer_peek payload b in
                if payload2 \<noteq> 0
                then let total = payload + payload2;
                         cut = (if total > max_payload then payload2 - (total - max_payload) else payload2)
                     in (total, buffer_run b payload buffer @ buffer_run b cut buffer2)
                else (payload, buffer_run b payload buffer)
      else (0, []))"

text \<open>
  \<^verbatim>\<open>_send\<close>: \<open>out_ok\<close> tells whether \<^verbatim>\<open>net_ip_output\<close> returned a header, which lies 34 bytes
  behind the start of the frame.
\<close>

definition tcp_send :: "bool \<Rightarrow> nat \<Rightarrow> tcp \<Rightarrow> int \<times> tcp" where
  "tcp_send out_ok io s =
     (if out_ok
      then let e = entries s io;
               (payload, bytes) = tcp_payload (1500 - 34) (SndBuffer e);
               rcv_free = of_int (int (unat (Size (RcvBuffer e))) - 1 - int (exos_io_buffer_avail (RcvBuffer e)));
               seg = \<lparr>SgSequence = SndSeq e, SgAck = (if ACK (SndFlags e) then RcvNext e else 0), SgFlags = SndFlags e,
                      SgWindow = rcv_free, SgLength = 20 + int payload, SgData = bytes\<rparr>
           in (if SYN (SndFlags e) \<or> FIN (SndFlags e) then int payload + 1 else int payload,
               s\<lparr>segments := segments s @ [(io, seg)]\<rparr>)
      else (- 1, s))"

section \<open>The service thread\<close>

definition tcp_handle :: "u32 \<Rightarrow> bool \<Rightarrow> nat \<Rightarrow> tcp \<Rightarrow> tcp res" where
  "tcp_handle now out_ok io s =
     (let e = entries s io; retry = ServiceRetry e;
          close = upd_entry io (\<lambda>x. x\<lparr>TcpState := TCP_STATE_CLOSED\<rparr>);
          wait = (\<lambda>w. upd_entry io (\<lambda>x. x\<lparr>ServiceWait := w\<rparr>)) in
      rbind (case TcpState e of
               TCP_STATE_SYN_SENT \<Rightarrow> Inr (if retry < 3 then wait 1000 s else close s)
             | TCP_STATE_ESTABLISHED \<Rightarrow>
                 Inr (if PSH (SndFlags e)
                      then wait 100 (upd_entry io (\<lambda>x. x\<lparr>SndFlags := (SndFlags x)\<lparr>ACK := True\<rparr>\<rparr>) s)
                      else wait 30000 s)
             | TCP_STATE_CLOSE_WAIT \<Rightarrow>
                 rbind (with_kernel (exos_event_set (TcpInputEvent e)) (wait 1000 s)) (with_kernel (exos_event_set (TcpOutputEvent e)))
             | TCP_STATE_TIME_WAIT \<Rightarrow> Inr (if ACK (SndFlags e) \<and> retry = 0 then wait 2000 s else close s)
             | TCP_STATE_LAST_ACK \<Rightarrow> Inr (if retry < 3 then wait 1000 s else close s)
             | TCP_STATE_FIN_WAIT_1 \<Rightarrow> Inr (wait 30000 (if retry < 1 then wait 5000 s else close s))
             | TCP_STATE_FIN_WAIT_2 \<Rightarrow> Inr (wait 30000 (if retry < 1 then wait 5000 s else close s))
             | _ \<Rightarrow> Inr (wait 30000 s))
        (\<lambda>s1. let e1 = entries s1 io; fl = SndFlags e1;
                   s2 = (if TcpState e1 \<noteq> TCP_STATE_CLOSED
                         then let s' = upd_entry io (\<lambda>x. x\<lparr>ServiceTime := now\<rparr>) s1
                              in if PSH fl \<or> SYN fl \<or> FIN fl \<or> ACK fl then snd (tcp_send out_ok io s') else s'
                         else s1)
               in Inr (upd_entry io (\<lambda>x. x\<lparr>ServiceRetry := ServiceRetry x + 1\<rparr>) s2)))"

text \<open>
  One pass of \<^verbatim>\<open>_service\<close> over the entries.  \<^verbatim>\<open>rem\<close> is signed; it is compared with the unsigned
  minimum after a conversion.
\<close>

definition service_one :: "u32 \<Rightarrow> bool \<Rightarrow> nat \<Rightarrow> u32 \<Rightarrow> tcp \<Rightarrow> (u32 \<times> tcp) res" where
  "service_one now out_ok io rem_min s =
     (let rem = ucast (ServiceWait (entries s io)) - (now - ServiceTime (entries s io)) in
      rbind (if sint rem \<le> 0 then tcp_handle now out_ok io s else Inr s) (\<lambda>s1.
        let rem1 = (if sint rem \<le> 0 then ucast (ServiceWait (entries s1 io)) else rem)
        in Inr (if rem1 < rem_min then rem1 else rem_min, s1)))"

definition service_closed :: "nat \<Rightarrow> tcp \<Rightarrow> tcp res" where
  "service_closed io s =
     rbind (with_kernel (exos_event_set (TcpOutputEvent (entries s io))) (s\<lparr>bound := filter (\<lambda>x. x \<noteq> io) (bound s)\<rparr>))
       (with_kernel (exos_event_set (CloseEvent (entries s io))))"

fun service_pass :: "u32 \<Rightarrow> bool \<Rightarrow> nat list \<Rightarrow> u32 \<Rightarrow> tcp \<Rightarrow> (u32 \<times> tcp) res" where
  "service_pass now out_ok [] rem_min s = Inr (rem_min, s)"
| "service_pass now out_ok (io # ios) rem_min s =
     (if TcpState (entries s io) = TCP_STATE_LISTEN then service_pass now out_ok ios rem_min s
      else rbind (if TcpState (entries s io) \<noteq> TCP_STATE_CLOSED then service_one now out_ok io rem_min s else Inr (rem_min, s))
             (\<lambda>(rem_min1, s1).
                rbind (if TcpState (entries s1 io) = TCP_STATE_CLOSED then service_closed io s1 else Inr s1)
                  (\<lambda>s2. service_pass now out_ok ios rem_min1 s2)))"

definition tcp_service :: "u32 \<Rightarrow> bool \<Rightarrow> tcp \<Rightarrow> (u32 \<times> tcp) res" where
  "tcp_service now out_ok s = service_pass now out_ok (bound s) 0x7fffffff s"

section \<open>Input\<close>

record TCP_HEADER =
  SourcePort :: u16
  DestinationPort :: u16
  Sequence :: u32
  AckNumber :: u32
  DataOffset :: nat
  Flags :: TCP_FLAGS

definition NTOH32 :: "nat \<Rightarrow> ram \<Rightarrow> u32" where
  "NTOH32 a m = ucast (m (a + 3)) OR push_bit 8 (ucast (m (a + 2))) OR push_bit 16 (ucast (m (a + 1))) OR push_bit 24 (ucast (m a))"

definition tcp_header :: "nat \<Rightarrow> ram \<Rightarrow> TCP_HEADER" where
  "tcp_header a m =
     \<lparr>SourcePort = net16 a m, DestinationPort = net16 (a + 2) m, Sequence = NTOH32 (a + 4) m, AckNumber = NTOH32 (a + 8) m,
      DataOffset = unat (drop_bit 4 (m (a + 12))),
      Flags = \<lparr>FIN = bit (m (a + 13)) 0, SYN = bit (m (a + 13)) 1, RST = bit (m (a + 13)) 2, PSH = bit (m (a + 13)) 3, ACK = bit (m (a + 13)) 4\<rparr>\<rparr>"

text \<open>The parts of \<^verbatim>\<open>_handle_input\<close>: the acknowledgement, the data, and the end of the stream.\<close>

definition input_ack :: "nat \<Rightarrow> TCP_HEADER \<Rightarrow> tcp \<Rightarrow> tcp res" where
  "input_ack io tcp s =
     (let e = entries s io; offset = sint (AckNumber tcp - SndSeq e) in
      if ACK (Flags tcp) \<and> offset > 0
      then rbind (exos_io_buffer_discard (nat offset) (SndBuffer e) (tcp_kernel s)) (\<lambda>(n, b, k).
             let s1 = (upd_entry io (\<lambda>x. x\<lparr>SndSeq := SndSeq x + of_nat n, SndBuffer := b\<rparr>) s)\<lparr>tcp_kernel := k\<rparr>
             in Inr (if exos_io_buffer_avail b = 0
                     then upd_entry io (\<lambda>x. x\<lparr>SndFlags := (SndFlags x)\<lparr>PSH := False\<rparr>\<rparr>) s1 else s1))
      else Inr s)"

definition input_data :: "nat \<Rightarrow> u8 list \<Rightarrow> tcp \<Rightarrow> (int \<times> tcp) res" where
  "input_data io payload s =
     (if payload \<noteq> []
      then rbind (exos_io_buffer_write payload (RcvBuffer (entries s io)) (tcp_kernel s)) (\<lambda>(n, b, k).
             Inr (10, (upd_entry io (\<lambda>x. x\<lparr>RcvBuffer := b, RcvNext := RcvNext x + of_nat n,
                SndFlags := (SndFlags x)\<lparr>ACK := True\<rparr>\<rparr>) s)\<lparr>tcp_kernel := k\<rparr>))
      else Inr (- 1, upd_entry io (\<lambda>x. x\<lparr>SndFlags := (SndFlags x)\<lparr>ACK := False\<rparr>\<rparr>) s))"

definition input_fin :: "nat \<Rightarrow> tcp \<Rightarrow> tcp" where
  "input_fin io s = upd_entry io (\<lambda>x. x\<lparr>RcvNext := RcvNext x + 1, SndFlags := (SndFlags x)\<lparr>ACK := True\<rparr>,
     TcpState := TCP_STATE_CLOSE_WAIT\<rparr>) s"

definition handle_input :: "u32 \<Rightarrow> nat \<Rightarrow> TCP_HEADER \<Rightarrow> u8 list \<Rightarrow> tcp \<Rightarrow> tcp res" where
  "handle_input now io tcp payload s =
     (if Sequence tcp \<noteq> RcvNext (entries s io) then Inr s
      else rbind (input_ack io tcp s) (\<lambda>s1.
        if RST (Flags tcp)
        then Inr (net_tcp_service now io 0 (upd_entry io (\<lambda>x. x\<lparr>TcpState := TCP_STATE_CLOSED\<rparr>) s1))
        else rbind (input_data io payload s1) (\<lambda>(service_delay, s2).
          if FIN (Flags tcp) then Inr (net_tcp_service now io 0 (input_fin io s2))
          else Inr (if service_delay \<ge> 0 then net_tcp_service now io service_delay s2 else s2))))"

text \<open>A segment for a bound entry, by the state of the entry.\<close>

definition input_entry :: "u32 \<Rightarrow> u32 \<Rightarrow> nat \<Rightarrow> TCP_HEADER \<Rightarrow> u16 \<Rightarrow> u8 list \<Rightarrow> tcp \<Rightarrow> tcp res" where
  "input_entry now source_ip io tcp data_length payload s =
     (let e = entries s io; fl = Flags tcp; in_order = (Sequence tcp = RcvNext e); st = TcpState e in
      if st = TCP_STATE_SYN_SENT
      then if SYN fl \<and> ACK fl \<and> AckNumber tcp = SndSeq e + 1
           then with_kernel (exos_event_set (TcpOutputEvent e)) (net_tcp_service now io 0
                  (upd_entry io (\<lambda>x. x\<lparr>RcvNext := Sequence tcp + 1, SndSeq := SndSeq x + 1,
                     SndFlags := no_flags\<lparr>ACK := True\<rparr>, TcpState := TCP_STATE_ESTABLISHED\<rparr>) s))
           else Inr s
      else if st = TCP_STATE_LISTEN
      then if SYN fl \<and> \<not> ACK fl
           then rbind (exos_fifo_dequeue (free_conns s) (tcp_kernel s)) (\<lambda>(conn, f, k).
                  let s1 = s\<lparr>free_conns := f, tcp_kernel := k\<rparr> in
                  case conn of
                    None \<Rightarrow> Inr s1
                  | Some c \<Rightarrow>
                      let s2 = s1\<lparr>conns := (conns s1)(c := \<lparr>ConnRemoteIP = source_ip, ConnRemotePort = SourcePort tcp,
                                 ConnLocalPort = LocalPort e, ConnSequence = Sequence tcp\<rparr>)\<rparr>
                      in rbind (net_ip_resolve source_ip) (\<lambda>found.
                           if found then rbind (exos_fifo_queue c (AcceptQueue e) (tcp_kernel s2)) (\<lambda>(q, k1).
                                Inr ((upd_entry io (\<lambda>x. x\<lparr>AcceptQueue := q\<rparr>) s2)\<lparr>tcp_kernel := k1\<rparr>))
                           else Inl (Panic KERNEL_ERROR_UNKNOWN)))
           else Inr s
      else if st = TCP_STATE_SYN_RECEIVED
      then if \<not> SYN fl \<and> ACK fl \<and> in_order
           then with_kernel (exos_event_set (TcpOutputEvent e))
                  (upd_entry io (\<lambda>x. x\<lparr>SndSeq := AckNumber tcp, SndFlags := no_flags, TcpState := TCP_STATE_ESTABLISHED\<rparr>) s)
           else Inr s
      else if st = TCP_STATE_ESTABLISHED then handle_input now io tcp payload s
      else if st = TCP_STATE_FIN_WAIT_1
      then if in_order
           then let s1 = (if ACK fl
                          then if FIN fl
                               then upd_entry io (\<lambda>x. x\<lparr>SndSeq := AckNumber tcp, RcvNext := RcvNext x + 1,
                                      SndFlags := no_flags\<lparr>ACK := True\<rparr>, TcpState := TCP_STATE_CLOSING\<rparr>) s
                               else upd_entry io (\<lambda>x. x\<lparr>SndSeq := AckNumber tcp, SndFlags := no_flags,
                                      TcpState := TCP_STATE_FIN_WAIT_2\<rparr>) s
                          else s)
                in Inr (net_tcp_service now io 0 (upd_entry io (\<lambda>x. x\<lparr>RcvNext := RcvNext x + ucast data_length\<rparr>) s1))
           else Inr s
      else if st = TCP_STATE_FIN_WAIT_2
      then if in_order
           then let s1 = (if FIN fl
                          then upd_entry io (\<lambda>x. x\<lparr>RcvNext := RcvNext x + 1, SndFlags := no_flags\<lparr>ACK := True\<rparr>,
                                 TcpState := TCP_STATE_TIME_WAIT\<rparr>) s
                          else s)
                in Inr (net_tcp_service now io 0 (upd_entry io (\<lambda>x. x\<lparr>RcvNext := RcvNext x + ucast data_length\<rparr>) s1))
           else Inr s
      else if st = TCP_STATE_CLOSING
      then if ACK fl \<and> in_order
           then Inr (net_tcp_service now io 10 (upd_entry io (\<lambda>x. x\<lparr>SndSeq := AckNumber tcp, TcpState := TCP_STATE_TIME_WAIT\<rparr>) s))
           else Inr s
      else if st = TCP_STATE_LAST_ACK
      then if ACK fl \<and> in_order
           then Inr (net_tcp_service now io 10 (upd_entry io (\<lambda>x. x\<lparr>SndSeq := AckNumber tcp, TcpState := TCP_STATE_CLOSED\<rparr>) s))
           else Inr s
      else Inr s)"

section \<open>The checksum over a chain\<close>

fun chain_sum :: "mbuf list \<Rightarrow> int \<Rightarrow> ram \<Rightarrow> int \<Rightarrow> u32 \<Rightarrow> int \<times> u32" where
  "chain_sum [] offset m cnt acc = (cnt, acc)"
| "chain_sum (b # bs) offset m cnt acc =
     (let len = mb_Length b - (mb_Offset b + offset);
          data = nat (int (mb_Buffer b) + mb_Offset b + offset);
          sum1 = sum16 (nat (len div 2)) data m acc;
          cnt1 = cnt + len
      in if odd len
         then let padded = (push_bit 8 (ucast (m (data + nat (len - 1)))) :: u16)
              in (case bs of
                    [] \<Rightarrow> chain_sum bs 1 m cnt1 (sum1 + ucast padded)
                  | c # _ \<Rightarrow> chain_sum bs 1 m (cnt1 + 1)
                      (sum1 + ucast (padded OR ucast (m (nat (int (mb_Buffer c) + mb_Offset c))))))
         else chain_sum bs 0 m cnt1 sum1)"

text \<open>The words of the pseudo header: both addresses, the protocol and the length.\<close>

definition pseudo_bytes :: "u32 \<Rightarrow> u32 \<Rightarrow> u8 \<Rightarrow> int \<Rightarrow> u8 list" where
  "pseudo_bytes source_ip dest_ip proto cnt = le_bytes32 source_ip @ le_bytes32 dest_ip @ [0, proto] @ HTON16 (of_int cnt)"

definition net_tcp_checksum :: "u32 \<Rightarrow> u32 \<Rightarrow> mbuf list \<Rightarrow> int \<Rightarrow> ram \<Rightarrow> u16" where
  "net_tcp_checksum source_ip dest_ip mbuf offset m =
     (let chain = (if mbuf \<noteq> [] \<and> offset \<noteq> 0 then (case net_mbuf_seek mbuf offset of None \<Rightarrow> [] | Some c \<Rightarrow> c) else mbuf);
          (cnt, acc) = chain_sum chain 0 m 0 0;
          sum1 = sum16 6 0 (store 0 (pseudo_bytes source_ip dest_ip 6 cnt) (\<lambda>_. 0)) acc;
          sum2 = (sum1 AND 0xFFFF) + drop_bit 16 sum1;
          sum3 = sum2 + drop_bit 16 sum2
      in ucast (NOT sum3))"

text \<open>\<^verbatim>\<open>net_tcp_input\<close>: the address of the datagram is \<open>ip\<close>.\<close>

definition net_tcp_input :: "u32 \<Rightarrow> nat \<Rightarrow> ram \<Rightarrow> tcp \<Rightarrow> tcp res" where
  "net_tcp_input now ip m s =
     (let (a, msg_length) = net_ip_get_payload ip m;
          source_ip = ip_value (ip + 12) m;
          msg = net_mbuf_init 0 a 0 (uint msg_length)
      in if net_tcp_checksum source_ip (ip_value (ip + 16) m) msg 0 m = 0
         then let tcp = tcp_header a m;
                  io = (case tcp_io_find_io (DestinationPort tcp) source_ip (SourcePort tcp) s of
                          Some i \<Rightarrow> Some i | None \<Rightarrow> tcp_io_find_io (DestinationPort tcp) 0 0 s)
              in (case io of
                    None \<Rightarrow> Inr s
                  | Some i \<Rightarrow>
                      let data = a + 4 * DataOffset tcp; data_length = msg_length - of_nat (4 * DataOffset tcp)
                      in input_entry now source_ip i tcp data_length (load data (unat data_length) m) s)
         else Inr s)"

section \<open>Transitions\<close>

lemma upd_entry_sel [simp]:
  "entries (upd_entry io f s) x = (if x = io then f (entries s io) else entries s x)"
  "bound (upd_entry io f s) = bound s" "tcp_kernel (upd_entry io f s) = tcp_kernel s"
  "free_conns (upd_entry io f s) = free_conns s" "conns (upd_entry io f s) = conns s"
  "segments (upd_entry io f s) = segments s" "wakeups (upd_entry io f s) = wakeups s"
  by (simp_all add: upd_entry_def)

lemma net_tcp_service_sel [simp]:
  "entries (net_tcp_service now io w s) x =
     (if x = io then (entries s io)\<lparr>ServiceTime := now, ServiceWait := of_int w, ServiceRetry := 0\<rparr> else entries s x)"
  "bound (net_tcp_service now io w s) = bound s" "tcp_kernel (net_tcp_service now io w s) = tcp_kernel s"
  by (simp_all add: net_tcp_service_def)

lemma with_kernel_Inr:
  "with_kernel f s = Inr s' \<longleftrightarrow> (\<exists>k. f (tcp_kernel s) = Inr k \<and> s' = s\<lparr>tcp_kernel := k\<rparr>)"
  by (auto simp: with_kernel_def rbind_eq_Inr)

lemma entries_upd_other [simp]: "x \<noteq> io \<Longrightarrow> entries (upd_entry io f s) x = entries s x"
  by simp

fun tcp_edge :: "TCP_STATE \<Rightarrow> TCP_STATE \<Rightarrow> bool" where
  "tcp_edge TCP_STATE_CLOSED s = (s \<in> {TCP_STATE_CLOSED, TCP_STATE_LISTEN, TCP_STATE_SYN_SENT, TCP_STATE_SYN_RECEIVED})"
| "tcp_edge TCP_STATE_LISTEN s = (s \<in> {TCP_STATE_LISTEN, TCP_STATE_CLOSED})"
| "tcp_edge TCP_STATE_SYN_SENT s = (s \<in> {TCP_STATE_SYN_SENT, TCP_STATE_ESTABLISHED, TCP_STATE_CLOSED})"
| "tcp_edge TCP_STATE_SYN_RECEIVED s = (s \<in> {TCP_STATE_SYN_RECEIVED, TCP_STATE_ESTABLISHED, TCP_STATE_FIN_WAIT_1})"
| "tcp_edge TCP_STATE_ESTABLISHED s = (s \<in> {TCP_STATE_ESTABLISHED, TCP_STATE_CLOSE_WAIT, TCP_STATE_FIN_WAIT_1, TCP_STATE_CLOSED})"
| "tcp_edge TCP_STATE_CLOSE_WAIT s = (s \<in> {TCP_STATE_CLOSE_WAIT, TCP_STATE_LAST_ACK})"
| "tcp_edge TCP_STATE_LAST_ACK s = (s \<in> {TCP_STATE_LAST_ACK, TCP_STATE_CLOSED})"
| "tcp_edge TCP_STATE_FIN_WAIT_1 s = (s \<in> {TCP_STATE_FIN_WAIT_1, TCP_STATE_FIN_WAIT_2, TCP_STATE_CLOSING, TCP_STATE_CLOSED})"
| "tcp_edge TCP_STATE_FIN_WAIT_2 s = (s \<in> {TCP_STATE_FIN_WAIT_2, TCP_STATE_TIME_WAIT, TCP_STATE_CLOSED})"
| "tcp_edge TCP_STATE_CLOSING s = (s \<in> {TCP_STATE_CLOSING, TCP_STATE_TIME_WAIT})"
| "tcp_edge TCP_STATE_TIME_WAIT s = (s \<in> {TCP_STATE_TIME_WAIT, TCP_STATE_CLOSED})"

lemma tcp_edge_refl [simp]: "tcp_edge st st"
  by (cases st) auto

text \<open>What a step may change: the states along the edges, and the bound entries stay distinct.\<close>

definition moves :: "tcp \<Rightarrow> tcp \<Rightarrow> bool" where
  "moves s s' = ((\<forall>io. tcp_edge (TcpState (entries s io)) (TcpState (entries s' io))) \<and> (distinct (bound s) \<longrightarrow> distinct (bound s')))"

lemma moves_one:
  assumes "tcp_edge (TcpState (entries s io)) (TcpState (entries s' io))" "\<And>x. x \<noteq> io \<Longrightarrow> TcpState (entries s' x) = TcpState (entries s x)"
    and "distinct (bound s) \<Longrightarrow> distinct (bound s')"
  shows "moves s s'"
  using assms by (auto simp: moves_def) (metis tcp_edge_refl)

lemma moves_refl [simp]: "moves s s"
  by (simp add: moves_def)

lemma tcp_bind_moves:
  assumes "tcp_bind io st s = Inr (ok, s')" "TcpState (entries s io) = TCP_STATE_CLOSED" "tcp_edge TCP_STATE_CLOSED st"
  shows "moves s s'" "TcpState (entries s' io) = (if ok then st else TCP_STATE_CLOSED)"
proof -
  let ?e = "entries s io"
  have new: "io \<notin> set (bound s)" if "tcp_io_find_io (LocalPort ?e) (RemoteIP ?e) (RemotePort ?e) s = None"
    using that by (auto simp: tcp_io_find_io_def find_None_iff)
  show "moves s s'"
    by (rule moves_one [where io = io]) (use assms new in \<open>auto simp: tcp_bind_def Let_def rbind_eq_Inr with_kernel_Inr split: if_splits\<close>)
  show "TcpState (entries s' io) = (if ok then st else TCP_STATE_CLOSED)"
    using assms by (auto simp: tcp_bind_def Let_def rbind_eq_Inr with_kernel_Inr split: if_splits)
qed

lemma moves_entry_upd:
  assumes "moves (upd_entry io f s) s'" "TcpState (f (entries s io)) = TcpState (entries s io)"
  shows "moves s s'"
  using assms unfolding moves_def by (metis upd_entry_sel(1,2))

lemma listen_moves: "net_tcp_listen io port s = Inr (ok, s') \<Longrightarrow> moves s s'"
  using tcp_bind_moves(1)
  by (fastforce simp: net_tcp_listen_def split: if_splits intro: moves_entry_upd)

lemma moves_same:
  assumes "moves s s1" "\<And>x. TcpState (entries s' x) = TcpState (entries s1 x)" "bound s' = bound s1"
  shows "moves s s'"
  using assms by (auto simp: moves_def)

lemma accept_moves:
  assumes "net_tcp_accept_begin now io rm rs sm ss conn s = Inr (ok, s')"
  shows "moves s s'"
proof (cases "TcpState (entries s io) = TCP_STATE_CLOSED")
  case True
  with assms obtain f s1 fr k where b: "tcp_bind io TCP_STATE_SYN_RECEIVED (upd_entry io f s) = Inr (ok, s1)"
    and f: "TcpState (f (entries s io)) = TCP_STATE_CLOSED"
    and s': "s' = (if ok then net_tcp_service now io 0 (s1\<lparr>free_conns := fr, tcp_kernel := k\<rparr>) else s1\<lparr>free_conns := fr, tcp_kernel := k\<rparr>)"
    by (auto simp: net_tcp_accept_begin_def Let_def rbind_eq_Inr)
  have "moves s s1"
    by (rule moves_entry_upd [OF tcp_bind_moves(1) [OF b]]) (use True f in auto)
  then show ?thesis by (rule moves_same) (auto simp: s')
next
  case False
  with assms show ?thesis by (simp add: net_tcp_accept_begin_def Let_def)
qed

lemma connect_panics: "TcpState (entries s io) = TCP_STATE_CLOSED \<Longrightarrow> net_tcp_connect_begin now io rm rs sm ss a p s \<noteq> Inr r"
  by (auto simp: net_tcp_connect_begin_def Let_def rbind_eq_Inr net_ip_get_adapter_and_resolve_def)

text \<open>An acknowledgement only changes the send side, data only the receive side.\<close>

lemma input_ack_frame:
  assumes "input_ack io tcp s = Inr s'"
  shows "TcpState (entries s' x) = TcpState (entries s x)" "RcvNext (entries s' x) = RcvNext (entries s x)"
    "RcvBuffer (entries s' x) = RcvBuffer (entries s x)" "bound s' = bound s"
  using assms by (auto simp: input_ack_def Let_def rbind_eq_Inr split: if_splits)

lemma input_data_frame:
  assumes "input_data io payload s = Inr (d, s')"
  shows "TcpState (entries s' x) = TcpState (entries s x)" "bound s' = bound s"
  using assms by (auto simp: input_data_def rbind_eq_Inr split: if_splits)

lemma handle_input_moves:
  assumes "handle_input now io tcp payload s = Inr s'" "TcpState (entries s io) = TCP_STATE_ESTABLISHED"
  shows "moves s s'"
proof (cases "Sequence tcp = RcvNext (entries s io)")
  case True
  with assms(1) obtain s1 where s1: "input_ack io tcp s = Inr s1"
    and rest: "(if RST (Flags tcp)
        then Inr (net_tcp_service now io 0 (upd_entry io (\<lambda>x. x\<lparr>TcpState := TCP_STATE_CLOSED\<rparr>) s1))
        else rbind (input_data io payload s1) (\<lambda>(service_delay, s2).
          if FIN (Flags tcp) then Inr (net_tcp_service now io 0 (input_fin io s2))
          else Inr (if service_delay \<ge> 0 then net_tcp_service now io service_delay s2 else s2))) = Inr s'"
    by (auto simp: handle_input_def rbind_eq_Inr)
  note f = input_ack_frame [OF s1]
  show ?thesis
  proof (cases "RST (Flags tcp)")
    case True
    then show ?thesis using rest f assms(2) by (intro moves_one [where io = io]) auto
  next
    case False
    with rest obtain p where p: "input_data io payload s1 = Inr p" by (cases "input_data io payload s1") auto
    obtain d s2 where ds: "p = (d, s2)" by (cases p)
    have s2: "input_data io payload s1 = Inr (d, s2)"
      and s': "s' = (if FIN (Flags tcp) then net_tcp_service now io 0 (input_fin io s2) else if d \<ge> 0 then net_tcp_service now io d s2 else s2)"
      using p ds rest False by (auto split: if_splits)
    show ?thesis
      using input_data_frame [OF s2] f assms(2) unfolding s'
      by (intro moves_one [where io = io]) (auto simp: input_fin_def)
  qed
qed (use assms in \<open>simp add: handle_input_def\<close>)

lemma input_entry_moves:
  assumes "input_entry now src io tcp len payload s = Inr s'"
  shows "moves s s'"
proof (cases "TcpState (entries s io)")
  case TCP_STATE_LISTEN
  then show ?thesis
    using assms by (auto simp: input_entry_def Let_def rbind_eq_Inr net_ip_resolve_def moves_def split: if_splits option.splits)
next
  case TCP_STATE_ESTABLISHED
  with assms have "handle_input now io tcp payload s = Inr s'" by (simp add: input_entry_def Let_def)
  from handle_input_moves [OF this TCP_STATE_ESTABLISHED] show ?thesis .
qed (use assms in \<open>intro moves_one [where io = io]; auto simp: input_entry_def Let_def with_kernel_Inr split: if_splits\<close>)+

lemma tcp_input_moves: "net_tcp_input now ip m s = Inr s' \<Longrightarrow> moves s s'"
  by (auto simp: net_tcp_input_def Let_def intro: input_entry_moves split: prod.splits option.splits if_splits)

lemma recycle_frame:
  "recycle_conns fuel io s = Inr s' \<Longrightarrow> (\<forall>x. TcpState (entries s' x) = TcpState (entries s x)) \<and> bound s' = bound s"
proof (induction fuel arbitrary: s)
  case (Suc fuel)
  then show ?case by (fastforce simp: rbind_eq_Inr Let_def split: option.splits)
qed simp

lemma close_moves:
  assumes "net_tcp_close_begin now io s = Inr s'"
  shows "moves s s'"
proof (cases "TcpState (entries s io) = TCP_STATE_LISTEN")
  case True
  with assms obtain s1 k where s1: "recycle_conns (Suc (length (Items (AcceptQueue (entries s io))))) io s = Inr s1"
    and s': "s' = (upd_entry io (\<lambda>e. e\<lparr>TcpState := TCP_STATE_CLOSED\<rparr>) (s1\<lparr>bound := filter (\<lambda>x. x \<noteq> io) (bound s1)\<rparr>))\<lparr>tcp_kernel := k\<rparr>"
    by (auto simp: net_tcp_close_begin_def Let_def rbind_eq_Inr with_kernel_Inr simp del: recycle_conns.simps)
  show ?thesis using recycle_frame [OF s1] True unfolding s' by (intro moves_one [where io = io]) auto
next
  case False
  with assms show ?thesis
    by (intro moves_one [where io = io]) (auto simp: net_tcp_close_begin_def Let_def split: if_splits)
qed

lemma tcp_send_frame [simp]: "entries (snd (tcp_send ok io s)) = entries s" "bound (snd (tcp_send ok io s)) = bound s"
  by (simp_all add: tcp_send_def Let_def case_prod_beta)

text \<open>The new state, waiting time and retry count of an entry the service thread handles.\<close>

fun after_handle :: "TCP_IO_ENTRY \<Rightarrow> TCP_STATE" where
  "after_handle e =
     (case TcpState e of
        TCP_STATE_SYN_SENT \<Rightarrow> if ServiceRetry e < 3 then TCP_STATE_SYN_SENT else TCP_STATE_CLOSED
      | TCP_STATE_TIME_WAIT \<Rightarrow> if ACK (SndFlags e) \<and> ServiceRetry e = 0 then TCP_STATE_TIME_WAIT else TCP_STATE_CLOSED
      | TCP_STATE_LAST_ACK \<Rightarrow> if ServiceRetry e < 3 then TCP_STATE_LAST_ACK else TCP_STATE_CLOSED
      | TCP_STATE_FIN_WAIT_1 \<Rightarrow> if ServiceRetry e < 1 then TCP_STATE_FIN_WAIT_1 else TCP_STATE_CLOSED
      | TCP_STATE_FIN_WAIT_2 \<Rightarrow> if ServiceRetry e < 1 then TCP_STATE_FIN_WAIT_2 else TCP_STATE_CLOSED
      | st \<Rightarrow> st)"

lemma tcp_handle_entry:
  assumes "tcp_handle now ok io s = Inr s'"
  shows "TcpState (entries s' io) = after_handle (entries s io)" "ServiceRetry (entries s' io) = ServiceRetry (entries s io) + 1"
    "\<And>x. x \<noteq> io \<Longrightarrow> entries s' x = entries s x" "bound s' = bound s"
proof -
  have "TcpState (entries s' io) = after_handle (entries s io) \<and> ServiceRetry (entries s' io) = ServiceRetry (entries s io) + 1
      \<and> (\<forall>x. x \<noteq> io \<longrightarrow> entries s' x = entries s x) \<and> bound s' = bound s"
    using assms
    by (cases "TcpState (entries s io)"; simp add: tcp_handle_def Let_def rbind_eq_Inr with_kernel_Inr split: if_splits) auto
  then show "TcpState (entries s' io) = after_handle (entries s io)" "ServiceRetry (entries s' io) = ServiceRetry (entries s io) + 1"
    "\<And>x. x \<noteq> io \<Longrightarrow> entries s' x = entries s x" "bound s' = bound s" by auto
qed

lemma after_handle_edge: "tcp_edge (TcpState e) (after_handle e)"
  by (cases "TcpState e") auto

lemma service_pass_moves:
  "service_pass now ok ios rm s = Inr (r, s') \<Longrightarrow> distinct ios \<Longrightarrow>
   (\<forall>x. x \<notin> set ios \<longrightarrow> entries s' x = entries s x) \<and> (\<forall>x. tcp_edge (TcpState (entries s x)) (TcpState (entries s' x)))
   \<and> bound s' = filter (\<lambda>x. x \<notin> set ios \<or> TcpState (entries s' x) \<noteq> TCP_STATE_CLOSED) (bound s)"
proof (induction ios arbitrary: rm s)
  case (Cons io ios)
  let ?e = "entries s io"
  show ?case
  proof (cases "TcpState ?e = TCP_STATE_LISTEN")
    case True
    then have "service_pass now ok ios rm s = Inr (r, s')" using Cons.prems(1) by simp
    from Cons.IH [OF this] Cons.prems(2) True show ?thesis by (auto intro: filter_cong)
  next
    case False
    then obtain p where p: "(if TcpState ?e \<noteq> TCP_STATE_CLOSED then service_one now ok io rm s else Inr (rm, s)) = Inr p"
      and rest: "(case p of (rm1, s1) \<Rightarrow> rbind (if TcpState (entries s1 io) = TCP_STATE_CLOSED then service_closed io s1 else Inr s1)
          (\<lambda>s2. service_pass now ok ios rm1 s2)) = Inr (r, s')"
      using Cons.prems(1) by (auto simp: rbind_eq_Inr)
    obtain rm1 s1 where pair: "p = (rm1, s1)" by (cases p)
    have one: "s1 = s \<or> tcp_handle now ok io s = Inr s1"
      using p pair by (auto simp: service_one_def Let_def rbind_eq_Inr split: if_splits)
    have h: "tcp_edge (TcpState ?e) (TcpState (entries s1 io))" "\<And>x. x \<noteq> io \<Longrightarrow> entries s1 x = entries s x" "bound s1 = bound s"
      using one tcp_handle_entry [of now ok io s s1] after_handle_edge [of ?e] by auto
    obtain s2 where s2: "service_pass now ok ios rm1 s2 = Inr (r, s')" "entries s2 = entries s1"
      "bound s2 = (if TcpState (entries s1 io) = TCP_STATE_CLOSED then filter (\<lambda>x. x \<noteq> io) (bound s1) else bound s1)"
      using rest pair by (auto simp: rbind_eq_Inr service_closed_def with_kernel_Inr split: if_splits)
    from Cons.IH [OF s2(1)] Cons.prems(2)
    have IH: "\<forall>x. x \<notin> set ios \<longrightarrow> entries s' x = entries s1 x" "\<forall>x. tcp_edge (TcpState (entries s1 x)) (TcpState (entries s' x))"
      "bound s' = filter (\<lambda>x. x \<notin> set ios \<or> TcpState (entries s' x) \<noteq> TCP_STATE_CLOSED) (bound s2)"
      by (auto simp: s2)
    have io: "entries s' io = entries s1 io" using IH(1) Cons.prems(2) by simp
    have "bound s' = filter (\<lambda>x. x \<notin> set (io # ios) \<or> TcpState (entries s' x) \<noteq> TCP_STATE_CLOSED) (bound s)"
      using IH(3) h(3) io Cons.prems(2) by (auto simp: s2 intro: filter_cong)
    moreover have "tcp_edge (TcpState (entries s x)) (TcpState (entries s' x))" for x
      using IH(2) h io by (cases "x = io") (auto, metis)
    ultimately show ?thesis using IH(1) h by auto
  qed
qed simp

section \<open>Steps of the protocol\<close>

text \<open>
  A step: an input datagram, a call of the application (up to the point where it waits), or a pass of the service thread.
\<close>

inductive tcp_step :: "tcp \<Rightarrow> tcp \<Rightarrow> bool" where
  by_input: "net_tcp_input now ip m s = Inr s' \<Longrightarrow> tcp_step s s'"
| by_listen: "net_tcp_listen io port s = Inr (ok, s') \<Longrightarrow> tcp_step s s'"
| by_accept: "net_tcp_accept_begin now io rm rs sm ss conn s = Inr (ok, s') \<Longrightarrow> tcp_step s s'"
| by_connect: "net_tcp_connect_begin now io rm rs sm ss a p s = Inr (ok, s') \<Longrightarrow> tcp_step s s'"
| by_close: "net_tcp_close_begin now io s = Inr s' \<Longrightarrow> tcp_step s s'"
| by_read: "tcp_read io n s = Inr (r, xs, s') \<Longrightarrow> tcp_step s s'"
| by_write: "tcp_write now io ys s = Inr (r, s') \<Longrightarrow> tcp_step s s'"
| by_service: "tcp_service now ok s = Inr (r, s') \<Longrightarrow> tcp_step s s'"

inductive tcp_reach :: "tcp \<Rightarrow> tcp \<Rightarrow> bool" for s0 where
  start: "tcp_reach s0 s0"
| step: "tcp_reach s0 s \<Longrightarrow> tcp_step s s' \<Longrightarrow> tcp_reach s0 s'"

lemma tcp_step_moves: "tcp_step s s' \<Longrightarrow> distinct (bound s) \<Longrightarrow> moves s s'"
proof (induction rule: tcp_step.induct)
  case (by_connect now io rm rs sm ss a p s ok s')
  then show ?case using connect_panics [of s io now rm rs sm ss a p] by (auto simp: net_tcp_connect_begin_def Let_def split: if_splits)
next
  case (by_read io n s r xs s')
  then show ?case by (auto simp: tcp_read_def rbind_eq_Inr Let_def moves_def)
next
  case (by_write now io ys s r s')
  then show ?case by (auto simp: tcp_write_def rbind_eq_Inr moves_def split: if_splits)
next
  case (by_service now ok s r s')
  then show ?case using service_pass_moves [of now ok "bound s"] by (auto simp: tcp_service_def moves_def)
qed (auto intro: tcp_input_moves listen_moves accept_moves close_moves)

lemma tcp_reach_distinct: "tcp_reach s0 s \<Longrightarrow> distinct (bound s0) \<Longrightarrow> distinct (bound s)"
  by (induction rule: tcp_reach.induct) (auto dest: tcp_step_moves simp: moves_def)

text \<open>C14: On every run of the protocol (datagrams, calls of the application and passes of the service thread in any
  order) the state of every connection only changes along the edges of the state diagram, and no connection is
  bound twice.
\<close>

theorem tcp_transitions:
  assumes "distinct (bound s0)" and "tcp_reach s0 s" and "tcp_step s s'"
  shows "distinct (bound s') \<and> (\<forall>io. tcp_edge (TcpState (entries s io)) (TcpState (entries s' io)))"
  using tcp_step_moves [OF assms(3) tcp_reach_distinct [OF assms(2,1)]] tcp_reach_distinct [OF assms(2,1)]
  by (auto simp: moves_def)

definition sample_entry_of :: "TCP_STATE \<Rightarrow> TCP_IO_ENTRY" where
  "sample_entry_of st = \<lparr>TcpState = st, LocalPort = 80, RemotePort = 4000, RemoteIP = 7, RcvNext = 100, RcvBuffer = sample_buffer,
     SndSeq = 200, SndBuffer = sample_buffer, SndFlags = no_flags, AcceptQueue = exos_fifo_create None, ServiceWait = 0, ServiceRetry = 0,
     ServiceTime = 0, TcpInputEvent = Ev 0, TcpOutputEvent = Ev 1, CloseEvent = Ev 2\<rparr>"

definition sample_tcp :: "TCP_STATE \<Rightarrow> tcp" where
  "sample_tcp st = \<lparr>entries = (\<lambda>_. sample_entry_of st), bound = [1], free_conns = exos_fifo_create None,
     conns = (\<lambda>_. \<lparr>ConnRemoteIP = 0, ConnRemotePort = 0, ConnLocalPort = 0, ConnSequence = 0\<rparr>), port_hack = 0, wakeups = 0,
     segments = [], tcp_kernel = sample_kernel\<rparr>"

theorem tcp_transitions_witness:
  "\<exists>s'. net_tcp_close_begin 5 1 (sample_tcp TCP_STATE_ESTABLISHED) = Inr s' \<and> TcpState (entries s' 1) = TCP_STATE_FIN_WAIT_1
     \<and> tcp_edge TCP_STATE_ESTABLISHED (TcpState (entries s' 1))"
proof -
  let ?s = "sample_tcp TCP_STATE_ESTABLISHED"
  obtain s' where s': "net_tcp_close_begin 5 1 ?s = Inr s'" "TcpState (entries s' 1) = TCP_STATE_FIN_WAIT_1"
    by (simp add: net_tcp_close_begin_def sample_tcp_def sample_entry_of_def Let_def)
  have "distinct (bound ?s)" by (simp add: sample_tcp_def)
  from tcp_transitions [OF this start by_close [OF s'(1)]] s' show ?thesis
    by (auto simp: sample_tcp_def sample_entry_of_def)
qed

section \<open>Time-outs\<close>

text \<open>Handling an entry repeatedly, without input in between.\<close>

fun handle_all :: "(u32 \<times> bool) list \<Rightarrow> nat \<Rightarrow> tcp \<Rightarrow> tcp res" where
  "handle_all [] io s = Inr s"
| "handle_all ((now, ok) # hs) io s = rbind (tcp_handle now ok io s) (\<lambda>s1. handle_all hs io s1)"

lemma tcp_handle_returns:
  assumes "TcpState (entries s io) \<noteq> TCP_STATE_CLOSE_WAIT"
  obtains s' where "tcp_handle now ok io s = Inr s'"
  using assms by (cases "TcpState (entries s io)") (auto simp: tcp_handle_def Let_def)

definition retried :: "TCP_STATE set" where
  "retried = {TCP_STATE_SYN_SENT, TCP_STATE_LAST_ACK, TCP_STATE_FIN_WAIT_1, TCP_STATE_FIN_WAIT_2, TCP_STATE_TIME_WAIT}"

lemma handle_gives_up:
  "TcpState (entries s io) = TCP_STATE_CLOSED
     \<or> TcpState (entries s io) \<in> retried \<and> unat (ServiceRetry (entries s io)) \<le> 3 \<and> 4 \<le> unat (ServiceRetry (entries s io)) + length hs \<Longrightarrow>
   \<exists>s'. handle_all hs io s = Inr s' \<and> TcpState (entries s' io) = TCP_STATE_CLOSED"
proof (induction hs arbitrary: s)
  case (Cons h hs)
  let ?e = "entries s io"
  obtain now ok where h: "h = (now, ok)" by (cases h)
  have "TcpState ?e \<noteq> TCP_STATE_CLOSE_WAIT" using Cons.prems by (auto simp: retried_def)
  then obtain s1 where s1: "tcp_handle now ok io s = Inr s1" by (rule tcp_handle_returns)
  note e1 = tcp_handle_entry(1,2) [OF s1]
  have "unat (ServiceRetry ?e + 1) = unat (ServiceRetry ?e) + 1" if "unat (ServiceRetry ?e) \<le> 3"
    using that by (simp add: unat_word_ariths)
  then have "TcpState (entries s1 io) = TCP_STATE_CLOSED
     \<or> TcpState (entries s1 io) \<in> retried \<and> unat (ServiceRetry (entries s1 io)) \<le> 3 \<and> 4 \<le> unat (ServiceRetry (entries s1 io)) + length hs"
    using Cons.prems by (auto simp: e1 retried_def word_less_nat_alt split: if_splits)
  from Cons.IH [OF this] show ?case by (simp add: h s1)
qed (auto simp: retried_def)

lemma handle_stuck:
  "TcpState (entries s io) \<in> {TCP_STATE_CLOSING, TCP_STATE_SYN_RECEIVED, TCP_STATE_ESTABLISHED} \<Longrightarrow>
   \<exists>s'. handle_all hs io s = Inr s' \<and> TcpState (entries s' io) = TcpState (entries s io)"
proof (induction hs arbitrary: s)
  case (Cons h hs)
  obtain now ok where h: "h = (now, ok)" by (cases h)
  obtain s1 where s1: "tcp_handle now ok io s = Inr s1" by (rule tcp_handle_returns [of s io]) (use Cons.prems in auto)
  have st: "TcpState (entries s1 io) = TcpState (entries s io)" using tcp_handle_entry(1) [OF s1] Cons.prems by auto
  show ?case using Cons.IH [of s1] Cons.prems st by (simp add: h s1)
qed simp

text \<open>C15: Without an answer of the peer the service thread gives a connection up: whatever the times and the fate of
  its segments, four time-outs close an entry that waits for the answer to its SYN or FIN.  A connection in
  \<^verbatim>\<open>CLOSING\<close> or \<^verbatim>\<open>SYN_RECEIVED\<close> has no such limit and stays there for ever.
\<close>

theorem tcp_gives_up:
  "(TcpState (entries s io) \<in> retried \<longrightarrow> ServiceRetry (entries s io) = 0 \<longrightarrow> 4 \<le> length hs \<longrightarrow>
      (\<exists>s'. handle_all hs io s = Inr s' \<and> TcpState (entries s' io) = TCP_STATE_CLOSED))
   \<and> (TcpState (entries s io) \<in> {TCP_STATE_CLOSING, TCP_STATE_SYN_RECEIVED} \<longrightarrow>
      (\<exists>s'. handle_all hs io s = Inr s' \<and> TcpState (entries s' io) = TcpState (entries s io)))"
  using handle_gives_up [of s io hs] handle_stuck [of s io hs] by auto

theorem tcp_gives_up_witness:
  "\<exists>s'. handle_all [(1000, True), (2000, False), (3000, True), (4000, True)] 1 (sample_tcp TCP_STATE_SYN_SENT) = Inr s'
     \<and> TcpState (entries s' 1) = TCP_STATE_CLOSED"
  using tcp_gives_up [of "sample_tcp TCP_STATE_SYN_SENT" 1 "[(1000, True), (2000, False), (3000, True), (4000, True)]"]
  by (simp add: sample_tcp_def sample_entry_of_def retried_def del: handle_all.simps)

section \<open>The received stream\<close>

lemma io_write_contents:
  assumes "kernel_wf k" "iob_ok b"
  obtains n b' k' where "exos_io_buffer_write xs b k = Inr (n, b', k')" "n \<le> length xs" "iob_ok b'" "kernel_wf k'"
    "contents b' = contents b @ take n xs"
proof -
  obtain b' k' where w: "exos_io_buffer_write xs b k = Inr (min (length xs) (room b), b', k')" "kernel_wf k'" "b' = fold push (take (room b) xs) b"
    using io_buffer_write_spec [OF assms, of xs] by blast
  with fold_push [OF assms(2), of "take (room b) xs"] show thesis by (intro that [OF w(1)]) (simp_all add: take_min_length)
qed

lemma io_read_contents:
  assumes "kernel_wf k" "iob_ok b"
  obtains b' k' where "exos_io_buffer_read n b k = Inr (take n (contents b), b', k')" "iob_ok b'" "kernel_wf k'" "contents b' = drop n (contents b)"
proof -
  obtain b' k' where r: "exos_io_buffer_read n b k = Inr (take n (contents b), b', k')" "kernel_wf k'" "b' = (pull ^^ min n (exos_io_buffer_avail b)) b"
    using io_buffer_read_spec [OF assms, of n] by blast
  have "drop (min n (length (contents b))) (contents b) = drop n (contents b)" by (simp add: min_def)
  with r pull_n [OF assms(2), of "min n (exos_io_buffer_avail b)"] show thesis by (intro that [OF r(1)]) simp_all
qed

text \<open>A segment of the peer: its data is the part of the stream that its sequence number says.\<close>

definition genuine :: "u32 \<Rightarrow> u8 list \<Rightarrow> TCP_HEADER \<Rightarrow> u8 list \<Rightarrow> bool" where
  "genuine isn sent tcp payload =
     (let at = unat (Sequence tcp - isn) in at + length payload \<le> length sent \<and> payload = take (length payload) (drop at sent))"

text \<open>
  A connection in use: segments of the peer in any order, repeated or missing, and calls of the application.
  The first component is what the application has read.
\<close>

inductive stream_use :: "nat \<Rightarrow> u32 \<Rightarrow> u8 list \<Rightarrow> tcp \<Rightarrow> u8 list \<Rightarrow> tcp \<Rightarrow> bool" for io isn sent s0 where
  opened: "stream_use io isn sent s0 [] s0"
| segment: "stream_use io isn sent s0 got s \<Longrightarrow> TcpState (entries s io) = TCP_STATE_ESTABLISHED \<Longrightarrow> genuine isn sent tcp payload \<Longrightarrow>
    handle_input now io tcp payload s = Inr s' \<Longrightarrow> stream_use io isn sent s0 got s'"
| reads: "stream_use io isn sent s0 got s \<Longrightarrow> tcp_read io n s = Inr (r, xs, s') \<Longrightarrow> stream_use io isn sent s0 (got @ xs) s'"
| writes: "stream_use io isn sent s0 got s \<Longrightarrow> tcp_write now io ys s = Inr (r, s') \<Longrightarrow> stream_use io isn sent s0 got s'"
| handled: "stream_use io isn sent s0 got s \<Longrightarrow> TcpState (entries s io) = TCP_STATE_ESTABLISHED \<Longrightarrow>
    tcp_handle now ok io s = Inr s' \<Longrightarrow> stream_use io isn sent s0 got s'"

definition entry_ok :: "nat \<Rightarrow> tcp \<Rightarrow> bool" where
  "entry_ok io s = (kernel_wf (tcp_kernel s) \<and> iob_ok (RcvBuffer (entries s io)) \<and> iob_ok (SndBuffer (entries s io)))"

definition received :: "nat \<Rightarrow> u32 \<Rightarrow> u8 list \<Rightarrow> u8 list \<Rightarrow> tcp \<Rightarrow> bool" where
  "received io isn sent got s = (\<exists>k\<le>length sent. got @ contents (RcvBuffer (entries s io)) = take k sent
     \<and> (TcpState (entries s io) = TCP_STATE_ESTABLISHED \<longrightarrow> RcvNext (entries s io) = isn + of_nat k))"

lemma receivedE:
  assumes "received io isn sent got s"
  obtains k where "k \<le> length sent" "got @ contents (RcvBuffer (entries s io)) = take k sent"
    "TcpState (entries s io) = TCP_STATE_ESTABLISHED \<Longrightarrow> RcvNext (entries s io) = isn + of_nat k"
  using assms by (auto simp: received_def)

lemma input_ack_ok:
  assumes "entry_ok io s"
  obtains s' where "input_ack io tcp s = Inr s'" "entry_ok io s'"
proof (cases "ACK (Flags tcp) \<and> sint (AckNumber tcp - SndSeq (entries s io)) > 0")
  case True
  let ?n = "nat (sint (AckNumber tcp - SndSeq (entries s io)))"
  obtain n b' k' where "exos_io_buffer_discard ?n (SndBuffer (entries s io)) (tcp_kernel s) = Inr (n, b', k')" "iob_ok b'" "kernel_wf k'"
    using io_buffer_discard_spec [of "SndBuffer (entries s io)" "tcp_kernel s" ?n] assms by (auto simp: entry_ok_def)
  with True assms have "\<exists>s'. input_ack io tcp s = Inr s' \<and> entry_ok io s'" by (auto simp: input_ack_def Let_def entry_ok_def)
  then show thesis using that by blast
next
  case False
  with assms show thesis by (intro that [of s]) (auto simp: input_ack_def Let_def)
qed

lemma input_data_ok:
  assumes "entry_ok io s"
  obtains n d s' where "input_data io payload s = Inr (d, s')" "entry_ok io s'" "n \<le> length payload"
    "contents (RcvBuffer (entries s' io)) = contents (RcvBuffer (entries s io)) @ take n payload"
    "RcvNext (entries s' io) = RcvNext (entries s io) + of_nat n"
proof (cases "payload = []")
  case True
  show thesis by (rule that [where n = 0 and d = "- 1" and s' = "upd_entry io (\<lambda>x. x\<lparr>SndFlags := (SndFlags x)\<lparr>ACK := False\<rparr>\<rparr>) s"]) (use True assms in \<open>auto simp: input_data_def entry_ok_def\<close>)
next
  case False
  obtain n b k where w: "exos_io_buffer_write payload (RcvBuffer (entries s io)) (tcp_kernel s) = Inr (n, b, k)" "n \<le> length payload" "iob_ok b" "kernel_wf k"
    "contents b = contents (RcvBuffer (entries s io)) @ take n payload"
    using assms by (auto simp: entry_ok_def intro: io_write_contents)
  show thesis by (rule that [where n = n and d = 10 and s' = "(upd_entry io (\<lambda>x. x\<lparr>RcvBuffer := b, RcvNext := RcvNext x + of_nat n, SndFlags := (SndFlags x)\<lparr>ACK := True\<rparr>\<rparr>) s)\<lparr>tcp_kernel := k\<rparr>"]) (use w False assms in \<open>auto simp: input_data_def entry_ok_def\<close>)
qed

lemma take_more: "k + n \<le> length xs \<Longrightarrow> ys = take m (drop k xs) \<Longrightarrow> n \<le> m \<Longrightarrow> take k xs @ take n ys = take (k + n) xs"
  by (simp add: take_add min_def)

lemma segment_received:
  assumes ok: "entry_ok io s" and rc: "received io isn sent got s" and est: "TcpState (entries s io) = TCP_STATE_ESTABLISHED"
    and g: "genuine isn sent tcp payload" and short: "length sent < 2 ^ 32"
  shows "\<exists>s'. handle_input now io tcp payload s = Inr s' \<and> entry_ok io s' \<and> received io isn sent got s'"
proof (cases "Sequence tcp = RcvNext (entries s io)")
  case True
  obtain k where k: "k \<le> length sent" "got @ contents (RcvBuffer (entries s io)) = take k sent" "RcvNext (entries s io) = isn + of_nat k"
    using receivedE [OF rc] est by metis
  have "unat (Sequence tcp - isn) = k"
    using True k(1,3) short by (simp add: unsigned_of_nat take_bit_nat_eq_self)
  then have pay: "k + length payload \<le> length sent" "payload = take (length payload) (drop k sent)"
    using g by (auto simp: genuine_def Let_def)
  obtain s1 where s1: "input_ack io tcp s = Inr s1" "entry_ok io s1" by (rule input_ack_ok [OF ok])
  note f = input_ack_frame [OF s1(1)]
  show ?thesis
  proof (cases "RST (Flags tcp)")
    case rst: True
    then have "handle_input now io tcp payload s = Inr (net_tcp_service now io 0 (upd_entry io (\<lambda>x. x\<lparr>TcpState := TCP_STATE_CLOSED\<rparr>) s1))"
      using True s1 by (simp add: handle_input_def)
    then show ?thesis using s1(2) k f by (auto simp: entry_ok_def received_def)
  next
    case no_rst: False
    obtain n d s2 where s2: "input_data io payload s1 = Inr (d, s2)" "entry_ok io s2" "n \<le> length payload"
      "contents (RcvBuffer (entries s2 io)) = contents (RcvBuffer (entries s1 io)) @ take n payload"
      "RcvNext (entries s2 io) = RcvNext (entries s1 io) + of_nat n"
      by (rule input_data_ok [OF s1(2)])
    have kn: "k + n \<le> length sent" using pay(1) s2(3) by simp
    have all: "got @ contents (RcvBuffer (entries s2 io)) = take (k + n) sent"
      using take_more [OF kn pay(2) s2(3)] k(2) f s2(4) by (simp flip: append_assoc)
    have st2: "TcpState (entries s2 io) = TCP_STATE_ESTABLISHED" "RcvNext (entries s2 io) = isn + of_nat (k + n)"
      using input_data_frame [OF s2(1)] f est k(3) s2(5) by simp_all
    have "handle_input now io tcp payload s = Inr (if FIN (Flags tcp) then net_tcp_service now io 0 (input_fin io s2)
        else if d \<ge> 0 then net_tcp_service now io d s2 else s2)"
      using True s1(1) s2(1) no_rst by (simp add: handle_input_def)
    then show ?thesis
      using s2(2) kn all st2 by (auto simp: entry_ok_def received_def input_fin_def)
  qed
qed (use assms in \<open>simp add: handle_input_def\<close>)

lemma tcp_read_received:
  assumes "entry_ok io s" "received io isn sent got s" "tcp_read io n s = Inr (r, xs, s')"
  shows "entry_ok io s' \<and> received io isn sent (got @ xs) s'"
proof -
  let ?b = "RcvBuffer (entries s io)"
  obtain b' k' where rd: "exos_io_buffer_read n ?b (tcp_kernel s) = Inr (take n (contents ?b), b', k')" "iob_ok b'" "kernel_wf k'" "contents b' = drop n (contents ?b)"
    using assms(1) by (auto simp: entry_ok_def intro: io_read_contents)
  then have s': "s' = (upd_entry io (\<lambda>e. e\<lparr>RcvBuffer := b'\<rparr>) s)\<lparr>tcp_kernel := k'\<rparr>" and xs: "xs = take n (contents ?b)"
    using assms(3) by (auto simp: tcp_read_def Let_def)
  show ?thesis using assms(1,2) rd by (auto simp: s' xs entry_ok_def received_def)
qed

lemma tcp_write_received:
  assumes "entry_ok io s" "received io isn sent got s" "tcp_write now io ys s = Inr (r, s')"
  shows "entry_ok io s' \<and> received io isn sent got s'"
proof (cases "TcpState (entries s io) = TCP_STATE_ESTABLISHED")
  case True
  obtain n b k where w: "exos_io_buffer_write ys (SndBuffer (entries s io)) (tcp_kernel s) = Inr (n, b, k)" "iob_ok b" "kernel_wf k"
    using assms(1) by (auto simp: entry_ok_def intro: io_write_contents)
  then have "s' = net_tcp_service now io 0 (upd_entry io (\<lambda>e. e\<lparr>SndFlags := (SndFlags e)\<lparr>PSH := True\<rparr>\<rparr>)
      ((upd_entry io (\<lambda>e. e\<lparr>SndBuffer := b\<rparr>) s)\<lparr>tcp_kernel := k\<rparr>))"
    using assms(3) True by (simp add: tcp_write_def)
  with assms(1,2) w show ?thesis by (auto simp: entry_ok_def received_def)
next
  case False
  with assms show ?thesis by (auto simp: tcp_write_def entry_ok_def received_def)
qed

lemma tcp_send_kernel [simp]: "tcp_kernel (snd (tcp_send ok io s)) = tcp_kernel s"
  by (simp add: tcp_send_def Let_def case_prod_beta)

lemma tcp_handle_received:
  assumes "entry_ok io s" "received io isn sent got s" "TcpState (entries s io) = TCP_STATE_ESTABLISHED" "tcp_handle now ok io s = Inr s'"
  shows "entry_ok io s' \<and> received io isn sent got s'"
  using assms by (auto simp: tcp_handle_def Let_def entry_ok_def received_def split: if_splits)

lemma stream_use_received:
  assumes "stream_use io isn sent s0 got s" "entry_ok io s0" "received io isn sent [] s0" "length sent < 2 ^ 32"
  shows "entry_ok io s \<and> received io isn sent got s"
  using assms(1)
proof (induction rule: stream_use.induct)
  case (segment got s tcp payload now s')
  then show ?case using segment_received [of io s isn sent got tcp payload now] assms(4) by auto
next
  case opened
  then show ?case using assms by blast
next
  case (reads got s n r xs s')
  then show ?case using tcp_read_received by blast
next
  case (writes got s now ys r s')
  then show ?case using tcp_write_received by blast
next
  case (handled got s now ok s')
  then show ?case using tcp_handle_received by blast
qed

text \<open>C13: Whatever segments of the peer arrive, in any order, repeated or not at all, and however the application reads
  and writes, what it has read followed by what is buffered is a prefix of the stream the peer sends; while the
  connection is established, the next sequence number is that of the first byte that is missing, so nothing is
  acknowledged that was not received.
\<close>

theorem tcp_stream_prefix:
  assumes "entry_ok io s0" and "contents (RcvBuffer (entries s0 io)) = []" and "RcvNext (entries s0 io) = isn"
    and "length sent < 2 ^ 32" and "stream_use io isn sent s0 got s"
  shows "\<exists>k\<le>length sent. got @ contents (RcvBuffer (entries s io)) = take k sent
    \<and> (TcpState (entries s io) = TCP_STATE_ESTABLISHED \<longrightarrow> RcvNext (entries s io) = isn + of_nat k)"
proof -
  have "received io isn sent [] s0" unfolding received_def using assms(2,3) by (intro exI [of _ 0]) simp
  from stream_use_received [OF assms(5,1) this assms(4)] show ?thesis by (simp add: received_def)
qed

theorem tcp_stream_prefix_witness:
  "let s0 = upd_entry 1 (\<lambda>e. e\<lparr>RcvBuffer := sample_buffer\<lparr>ProduceIndex := ConsumeIndex sample_buffer\<rparr>\<rparr>) (sample_tcp TCP_STATE_ESTABLISHED);
       h = \<lparr>SourcePort = 4000, DestinationPort = 80, Sequence = 100, AckNumber = 200, DataOffset = 5, Flags = no_flags\<rparr>
   in \<exists>s' k. handle_input 9 1 h [7, 8] s0 = Inr s' \<and> k \<le> length [7, 8, 9 :: u8] \<and> contents (RcvBuffer (entries s' 1)) = take k [7, 8, 9]"
proof -
  let ?s0 = "upd_entry 1 (\<lambda>e. e\<lparr>RcvBuffer := sample_buffer\<lparr>ProduceIndex := ConsumeIndex sample_buffer\<rparr>\<rparr>) (sample_tcp TCP_STATE_ESTABLISHED)"
  let ?h = "\<lparr>SourcePort = 4000, DestinationPort = 80, Sequence = 100, AckNumber = 200, DataOffset = 5, Flags = no_flags\<rparr>"
  have ok: "entry_ok 1 ?s0" "contents (RcvBuffer (entries ?s0 1)) = []" "RcvNext (entries ?s0 1) = 100" "TcpState (entries ?s0 1) = TCP_STATE_ESTABLISHED"
    using sample_kernel_wf
    by (simp_all add: entry_ok_def sample_tcp_def sample_entry_of_def sample_buffer_def iob_ok_def contents_def exos_io_buffer_avail_def)
  have g: "genuine 100 [7, 8, 9] ?h [7, 8]" by (simp add: genuine_def)
  have "received 1 100 [7, 8, 9] [] ?s0" unfolding received_def using ok by (intro exI [of _ 0]) simp
  from segment_received [OF ok(1) this ok(4) g, of 9] obtain s' where s': "handle_input 9 1 ?h [7, 8] ?s0 = Inr s'" by auto
  have "length [7, 8, 9 :: u8] < 2 ^ 32" by simp
  from tcp_stream_prefix [OF ok(1,2,3) this segment [OF opened ok(4) g s']] s' show ?thesis unfolding Let_def by (metis append_Nil)
qed

section \<open>The checksum of a chain\<close>

text \<open>Here the length of a buffer counts from its start; the bytes from the offset on belong to the message.\<close>

definition mbuf_bytes :: "ram \<Rightarrow> mbuf \<Rightarrow> u8 list" where
  "mbuf_bytes m b = load (nat (int (mb_Buffer b) + mb_Offset b)) (nat (mb_Length b - mb_Offset b)) m"

definition chain_bytes :: "ram \<Rightarrow> mbuf list \<Rightarrow> u8 list" where
  "chain_bytes m bs = concat (map (mbuf_bytes m) bs)"

definition chain_ok :: "mbuf list \<Rightarrow> bool" where
  "chain_ok bs = list_all (\<lambda>b. 0 \<le> mb_Offset b \<and> mb_Offset b < mb_Length b) bs"

lemma chain_simps [simp]:
  "chain_bytes m [] = []" "chain_bytes m (b # bs) = mbuf_bytes m b @ chain_bytes m bs"
  "chain_ok [] = True" "chain_ok (b # bs) = (0 \<le> mb_Offset b \<and> mb_Offset b < mb_Length b \<and> chain_ok bs)"
  by (simp_all add: chain_bytes_def chain_ok_def)

lemma ucast_halves:
  "(ucast (push_bit 8 (ucast (x :: u8)) :: u16) :: u32) = of_nat (256 * unat x)"
  "(ucast (push_bit 8 (ucast (x :: u8)) OR ucast (y :: u8) :: u16) :: u32) = of_nat (256 * unat x + unat y)"
proof -
  have "push_bit 8 (ucast x) OR ucast y = NTOH16 x y" "push_bit 8 (ucast x) = NTOH16 x 0"
    by (simp_all add: NTOH16_def or.commute)
  then show "(ucast (push_bit 8 (ucast x) :: u16) :: u32) = of_nat (256 * unat x)"
    "(ucast (push_bit 8 (ucast x) OR ucast y :: u16) :: u32) = of_nat (256 * unat x + unat y)"
    by (simp_all only: ucast_of_nat unat_NTOH16) simp_all
qed

lemma mbuf_bytes_drop:
  assumes "0 \<le> mb_Offset b" "mb_Offset b < mb_Length b" "off \<le> 1"
  defines "len \<equiv> mb_Length b - (mb_Offset b + int off)" and "data \<equiv> nat (int (mb_Buffer b) + mb_Offset b + int off)"
  shows "drop off (mbuf_bytes m b) = load data (nat len) m" "0 \<le> len" "off \<le> length (mbuf_bytes m b)"
proof -
  let ?p = "nat (int (mb_Buffer b) + mb_Offset b)" and ?n = "nat (mb_Length b - mb_Offset b)"
  have e: "?n = off + nat len" "data = ?p + off" using assms by (auto simp: nat_eq_iff le_Suc_eq)
  show "drop off (mbuf_bytes m b) = load data (nat len) m"
    unfolding mbuf_bytes_def e(1) load_add by (simp add: e(2))
  show "0 \<le> len" "off \<le> length (mbuf_bytes m b)" using assms by (auto simp: mbuf_bytes_def le_Suc_eq)
qed

lemma chain_sum_bytes:
  "chain_ok bs \<Longrightarrow> off \<le> 1 \<Longrightarrow>
   chain_sum bs (int off) m cnt acc = (cnt + int (length (drop off (chain_bytes m bs))), acc + of_nat (wsum (drop off (chain_bytes m bs))))"
proof (induction bs arbitrary: off cnt acc)
  case (Cons b bs)
  define len where "len = mb_Length b - (mb_Offset b + int off)"
  define data where "data = nat (int (mb_Buffer b) + mb_Offset b + int off)"
  let ?D = "load data (nat len) m" and ?R = "chain_bytes m bs"
  have D: "drop off (chain_bytes m (b # bs)) = ?D @ ?R" "0 \<le> len"
    using mbuf_bytes_drop(1) [of b off m] mbuf_bytes_drop(2) [of b off] mbuf_bytes_drop(3) [of b off m] Cons.prems by (simp_all add: len_def data_def)
  show ?case
  proof (cases "odd len")
    case False
    then have n: "2 * nat (len div 2) = nat len" "even (nat len)" using D(2) by (auto simp: nat_mult_distrib even_nat_iff elim!: evenE)
    have "chain_sum (b # bs) (int off) m cnt acc = chain_sum bs (int 0) m (cnt + len) (sum16 (nat (len div 2)) data m acc)"
      using False by (simp add: Let_def len_def data_def)
    also have "\<dots> = (cnt + len + int (length ?R), acc + of_nat (wsum ?D) + of_nat (wsum ?R))"
      using Cons.IH [of 0] Cons.prems by (simp add: sum16_wsum n)
    finally show ?thesis using D n(2) by (simp add: wsum_append)
  next
    case True
    then obtain h where h: "nat len = 2 * h + 1" "nat (len div 2) = h" "nat (len - 1) = 2 * h"
      using D(2) by (auto elim!: oddE simp: nat_add_distrib nat_mult_distrib)
    let ?E = "load data (2 * h) m" and ?x = "m (data + 2 * h)"
    have E: "?D = ?E @ [?x]" unfolding h(1) load_add by (simp add: load_1 [unfolded One_nat_def])
    have ev: "even (length ?E)" by simp
    show ?thesis
    proof (cases bs)
      case Nil
      have "chain_sum (b # bs) (int off) m cnt acc = (cnt + len, acc + of_nat (wsum ?E) + of_nat (256 * unat ?x))"
        using True by (simp add: Nil Let_def len_def [symmetric] data_def [symmetric] sum16_wsum h ucast_halves(1))
      moreover have "len = 2 * int h + 1" using h(1) D(2) by linarith
      ultimately show ?thesis using D E ev Nil by (simp add: wsum_append add.assoc del: chain_sum.simps)
    next
      case (Cons c cs)
      let ?y = "m (nat (int (mb_Buffer c) + mb_Offset c))"
      have "mbuf_bytes m c \<noteq> []" using Cons.prems by (auto simp: Cons mbuf_bytes_def load_def)
      then have R: "?R = ?y # drop 1 ?R"
        by (cases "mbuf_bytes m c") (auto simp: Cons mbuf_bytes_def load_def upt_conv_Cons split: if_splits)
      have "chain_sum (b # bs) (int off) m cnt acc
          = chain_sum bs (int 1) m (cnt + len + 1) (acc + of_nat (wsum ?E) + of_nat (256 * unat ?x + unat ?y))"
        using True by (subst chain_sum.simps)
          (simp add: Cons Let_def len_def [symmetric] data_def [symmetric] sum16_wsum h ucast_halves(2) del: chain_sum.simps)
      also have "\<dots> = (cnt + len + 1 + int (length (drop 1 ?R)), acc + of_nat (wsum ?E) + of_nat (256 * unat ?x + unat ?y) + of_nat (wsum (drop 1 ?R)))"
        by (rule "Cons.IH") (use Cons.prems in auto)
      finally have cs: "chain_sum (b # bs) (int off) m cnt acc = \<dots>" .
      have "wsum (?D @ ?R) = wsum ?E + (256 * unat ?x + unat ?y) + wsum (drop 1 ?R)"
        unfolding E by (subst R) (simp add: wsum_append)
      moreover have "int (length (?D @ ?R)) = len + 1 + int (length (drop 1 ?R))" using D(2) by (subst R) simp
      ultimately show ?thesis unfolding cs D(1) by (simp only: of_nat_add add.assoc)
    qed
  qed
qed simp

lemma unat_u32_of_nat: "n < 2 ^ 32 \<Longrightarrow> unat (of_nat n :: u32) = n"
  by (simp add: unsigned_of_nat take_bit_nat_eq_self)

text \<open>Folding the carries twice is enough for every 32-bit sum.\<close>

lemma fold_twice:
  assumes "s < 2 ^ 32"
  defines "w \<equiv> (of_nat s :: u32)"
  defines "v \<equiv> (w AND 0xFFFF) + drop_bit 16 w"
  shows "unat (ucast (NOT (v + drop_bit 16 v)) :: u16) = 65535 - ones_sum s"
proof -
  define h l where "h = s div 65536" and "l = s mod 65536"
  have hl: "l < 65536" "h < 65536" "s = 65536 * h + l" using assms(1) by (simp_all add: h_def l_def)
  have "unat (drop_bit 16 w) = h"
    using unat_u32_of_nat [OF assms(1)] by (simp add: w_def drop_bit_eq_div unat_div h_def)
  moreover have "w AND 0xFFFF = take_bit 16 w" by (simp add: take_bit_eq_mask mask_eq_exp_minus_1)
  moreover have "unat (take_bit 16 w) = l"
    using unat_u32_of_nat [OF assms(1)] by (simp add: w_def take_bit_eq_mod unat_mod l_def)
  ultimately have v: "v = of_nat (l + h)" unfolding v_def by (metis of_nat_add of_nat_unat ucast_id)
  have "unat (ucast (NOT (v + drop_bit 16 v)) :: u16) = unat (fold_once (l + h))"
    using ucast_not_of_nat [of "l + h"] hl by (simp add: v)
  also have "\<dots> = 65535 - ones_sum s"
  proof (cases "l + h < 65536")
    case True
    then have "unat (fold_once s) = 65535 - ones_sum s" using fold_once_rfc [OF hl(1,2)] hl(3) by simp
    moreover have "unat (fold_once (l + h)) = unat (fold_once s)"
      using True fold_once_halves [of "l + h" 0] fold_once_halves [OF hl(1,2)] hl(3) by simp
    ultimately show ?thesis by simp
  next
    case False
    then obtain r where r: "l + h = 65536 + r" "r < 65535" using hl by (auto dest!: le_Suc_ex simp: not_less)
    have "s - 1 = 65535 * h + (65535 + r)" using hl(3) r by simp
    then have "ones_sum s = r + 1" using r False hl by (simp add: ones_sum_def mod_add_eq [symmetric])
    moreover have "unat (fold_once (65536 * 1 + r)) = 65535 - (r + 1)" using fold_once_halves [of r 1] r by simp
    ultimately show ?thesis using r by simp
  qed
  finally show ?thesis .
qed

text \<open>C16: The checksum of a segment, computed buffer by buffer over a chain that may be cut at odd positions, is the
  RFC 1071 checksum of the bytes of the chain and the pseudo header.
\<close>

theorem tcp_checksum_correct:
  assumes "chain_ok chain" and "length (chain_bytes m chain) \<le> 65535"
  shows "unat (net_tcp_checksum src dst chain 0 m) =
    65535 - ones_sum (wsum (chain_bytes m chain) + wsum (pseudo_bytes src dst 6 (int (length (chain_bytes m chain)))))"
proof -
  let ?c = "chain_bytes m chain"
  let ?p = "pseudo_bytes src dst 6 (int (length ?c))"
  have p: "length ?p = 12" by (simp add: pseudo_bytes_def)
  have "sum16 6 0 (store 0 ?p (\<lambda>_. 0)) (of_nat (wsum ?c)) = of_nat (wsum ?c + wsum ?p)"
    by (simp add: sum16_wsum load_store_same p)
  moreover have "wsum ?c + wsum ?p < 2 ^ 32"
    using wsum_bound [of ?c] wsum_bound [of ?p] assms(2) p by simp
  ultimately show ?thesis
    using chain_sum_bytes [OF assms(1), of 0 m 0 0] fold_twice [of "wsum ?c + wsum ?p"] by (simp add: net_tcp_checksum_def Let_def)
qed

definition odd_chain :: "mbuf list" where
  "odd_chain = snd (net_mbuf_append (net_mbuf_init 0 0 0 3) (net_mbuf_init 1 8 1 2))"

definition odd_ram :: ram where
  "odd_ram = store 0 [1, 2, 3, 4, 5, 6, 7, 8, 9, 10] (\<lambda>_. 0)"

theorem tcp_checksum_correct_witness:
  "unat (net_tcp_checksum 1 2 odd_chain 0 odd_ram) = 65535 - ones_sum (wsum [1, 2, 3, 10] + wsum (pseudo_bytes 1 2 6 4))"
proof -
  have b: "chain_bytes odd_ram odd_chain = [1, 2, 3, 10]"
    by (simp add: odd_chain_def odd_ram_def net_mbuf_init_def mbuf_bytes_def load_def store_def upt_rec)
  have "chain_ok odd_chain" by (simp add: odd_chain_def net_mbuf_init_def)
  then show ?thesis using tcp_checksum_correct [of odd_chain odd_ram 1 2] by (simp add: b)
qed

end
