(* ===== verification/Dispatch.thy ===== *)
theory Dispatch
  imports Kernel_Steps
begin

text \<open>
  Dispatchers (\<^verbatim>\<open>exos/kernel/dispatch.c\<close>): one thread serves many events and time-outs by
  calling \<^verbatim>\<open>exos_dispatch\<close> in a loop.  The members of a dispatcher that are objects of the kernel
  (\<^verbatim>\<open>EventHandle\<close>, \<^verbatim>\<open>Timer\<close>, \<^verbatim>\<open>TimerHandle\<close>) and the lock and the event of a
  context are named by numbers.  The list of a context is only used under its lock, so every pass over it is one
  step; \<^verbatim>\<open>exos_dispatch\<close> is split at its wait.
\<close>

unbundle bit_operations_syntax

section \<open>State\<close>

type_synonym did = nat
type_synonym cid = nat

datatype dispatcher_state =
    DISPATCHER_UNKNOWN | DISPATCHER_CREATED | DISPATCHER_WAITING | DISPATCHER_IMMEDIATE
  | DISPATCHER_DONE | DISPATCHER_TIMEOUT | DISPATCHER_REMOVED

record dispatcher_t =
  DState :: dispatcher_state
  HasTimeout :: bool           \<comment> \<open>\<^verbatim>\<open>Flags & DISPATCHERF_HAS_TIMEOUT\<close>\<close>
  Context :: "cid option"
  DEvent :: "eid option"
  EventHandle :: hid
  DTimer :: tmid
  TimerHandle :: hid
  Callback :: nat
  CallbackState :: nat

record dispatcher_context_t =
  Lock :: mid
  Dispatchers :: "did list"
  WakeEvent :: eid

record dispatch =
  dispatchers :: "did \<Rightarrow> dispatcher_t"
  contexts :: "cid \<Rightarrow> dispatcher_context_t"
  disp_kernel :: kernel

definition upd_dispatcher :: "did \<Rightarrow> (dispatcher_t \<Rightarrow> dispatcher_t) \<Rightarrow> dispatch \<Rightarrow> dispatch" where
  "upd_dispatcher d f s = s\<lparr>dispatchers := (dispatchers s)(d := f (dispatchers s d))\<rparr>"

definition upd_context :: "cid \<Rightarrow> (did list \<Rightarrow> did list) \<Rightarrow> dispatch \<Rightarrow> dispatch" where
  "upd_context c f s = s\<lparr>contexts := (contexts s)(c := (contexts s c)\<lparr>Dispatchers := f (Dispatchers (contexts s c))\<rparr>)\<rparr>"

section \<open>Operations\<close>

definition exos_dispatcher_context_create :: "cid \<Rightarrow> dispatch \<Rightarrow> dispatch" where
  "exos_dispatcher_context_create c s =
     (let x = contexts s c in
      (upd_context c (\<lambda>_. []) s)\<lparr>disp_kernel := exos_event_create (WakeEvent x) False (exos_mutex_create (Lock x) (disp_kernel s))\<rparr>)"

definition exos_dispatcher_create :: "did \<Rightarrow> eid option \<Rightarrow> nat \<Rightarrow> nat \<Rightarrow> dispatch \<Rightarrow> dispatch" where
  "exos_dispatcher_create d event callback state s =
     (let x = dispatchers s d in
      (upd_dispatcher d (\<lambda>x. x\<lparr>DState := DISPATCHER_CREATED, HasTimeout := False, Context := None, DEvent := event,
          Callback := callback, CallbackState := state\<rparr>) s)
        \<lparr>disp_kernel := exos_thread_create_wait_handle (TimerHandle x) (exos_thread_create_wait_handle (EventHandle x) (disp_kernel s))\<rparr>)"

text \<open>\<^verbatim>\<open>_remove\<close>: the handles are disposed of, the timer is stopped and the node unlinked.\<close>

definition dispatcher_release :: "nat \<Rightarrow> u32 \<Rightarrow> dispatcher_t \<Rightarrow> kernel \<Rightarrow> kernel res" where
  "dispatcher_release fuel elapsed x k =
     rbind (if HasTimeout x
            then rbind (exos_thread_dispose_wait_handle (TimerHandle x) k) (exos_timer_dispose fuel elapsed (DTimer x))
            else Inr k)
       (\<lambda>k1. if DEvent x \<noteq> None then exos_thread_dispose_wait_handle (EventHandle x) k1 else Inr k1)"

definition dispatcher_unlink :: "nat \<Rightarrow> u32 \<Rightarrow> cid \<Rightarrow> did \<Rightarrow> dispatch \<Rightarrow> dispatch res" where
  "dispatcher_unlink fuel elapsed c d s =
     (let x = dispatchers s d in
      if Context x = None then Inr s
      else ASSERT (Context x = Some c) KERNEL_ERROR_KERNEL_PANIC
        (rbind (dispatcher_release fuel elapsed x (disp_kernel s)) (\<lambda>k.
           Inr (upd_dispatcher d (\<lambda>x. x\<lparr>Context := None\<rparr>) (upd_context c (filter (\<lambda>y. y \<noteq> d)) (s\<lparr>disp_kernel := k\<rparr>))))))"

definition exos_dispatcher_add :: "nat \<Rightarrow> u32 \<Rightarrow> u32 \<Rightarrow> cid \<Rightarrow> did \<Rightarrow> u32 \<Rightarrow> dispatch \<Rightarrow> dispatch res" where
  "exos_dispatcher_add fuel elapsed elapsed2 c d timeout s =
     ASSERT (DState (dispatchers s d) \<noteq> DISPATCHER_UNKNOWN) KERNEL_ERROR_KERNEL_PANIC
       (rbind (dispatcher_unlink fuel elapsed c d s) (\<lambda>s1.
          rbind (if timeout \<noteq> 0 then exos_timer_create fuel elapsed2 (DTimer (dispatchers s1 d)) timeout 0 (disp_kernel s1)
                 else Inr (disp_kernel s1)) (\<lambda>k.
            let s2 = upd_context c (\<lambda>ds. ds @ [d])
                  (upd_dispatcher d (\<lambda>x. x\<lparr>HasTimeout := timeout \<noteq> 0, DState := DISPATCHER_WAITING, Context := Some c\<rparr>) s1)
            in rbind (exos_event_reset (WakeEvent (contexts s2 c)) k) (\<lambda>k2. Inr (s2\<lparr>disp_kernel := k2\<rparr>)))))"

definition exos_dispatcher_remove :: "nat \<Rightarrow> u32 \<Rightarrow> cid \<Rightarrow> did \<Rightarrow> dispatch \<Rightarrow> dispatch res" where
  "exos_dispatcher_remove fuel elapsed c d s =
     rbind (dispatcher_unlink fuel elapsed c d s) (\<lambda>s1. Inr (upd_dispatcher d (\<lambda>x. x\<lparr>DState := DISPATCHER_REMOVED\<rparr>) s1))"

text \<open>
  The body of the first loop of \<^verbatim>\<open>exos_dispatch\<close>: queue the handles of a dispatcher.  It is
  selected, with the state that tells why, when one of them need not wait or when it has none; otherwise the
  masks of its handles are collected.
\<close>

definition poll_timer :: "dispatcher_t \<Rightarrow> u32 \<Rightarrow> kernel \<Rightarrow> (dispatcher_state option \<times> u32 \<times> kernel) res" where
  "poll_timer x m1 k1 =
     rbind (if HasTimeout x
            then rbind (exos_event_add_handle (TimerEvent (DTimer x)) (TimerHandle x) k1) (\<lambda>(m, k2).
              Inr (if m = 0 then Some DISPATCHER_TIMEOUT else None, m, k2))
            else Inr (None, 0, k1))
       (\<lambda>(sel, m2, k2).
          if sel \<noteq> None then Inr (sel, 0, k2)
          else if m1 OR m2 = 0 then Inr (Some DISPATCHER_IMMEDIATE, 0, k2)
          else Inr (None, m1 OR m2, k2))"

definition poll :: "dispatcher_t \<Rightarrow> kernel \<Rightarrow> (dispatcher_state option \<times> u32 \<times> kernel) res" where
  "poll x k =
     (case DEvent x of
        None \<Rightarrow> poll_timer x 0 k
      | Some e \<Rightarrow> rbind (exos_event_add_handle e (EventHandle x) k) (\<lambda>(m, k1).
          if m = 0 then Inr (Some DISPATCHER_DONE, 0, k1) else poll_timer x m k1))"

fun poll_all :: "did list \<Rightarrow> u32 \<Rightarrow> dispatch \<Rightarrow> (did option \<times> u32 \<times> dispatch) res" where
  "poll_all [] msk s = Inr (None, msk, s)"
| "poll_all (d # ds) msk s =
     rbind (poll (dispatchers s d) (disp_kernel s)) (\<lambda>(sel, m, k).
       case sel of
         Some st \<Rightarrow> Inr (Some d, msk, upd_dispatcher d (\<lambda>x. x\<lparr>DState := st\<rparr>) (s\<lparr>disp_kernel := k\<rparr>))
       | None \<Rightarrow> poll_all ds (msk OR m) (s\<lparr>disp_kernel := k\<rparr>))"

text \<open>
  \<^verbatim>\<open>exos_dispatch\<close> up to its wait.  \<open>ch\<close>, \<open>tm\<close> and \<open>th\<close> are its local handle, timer and timer handle.
  It returns the selected dispatcher, or \<open>None\<close> when the thread waits.
\<close>

definition exos_dispatch_begin ::
  "nat \<Rightarrow> u32 \<Rightarrow> hid \<Rightarrow> tmid \<Rightarrow> hid \<Rightarrow> cid \<Rightarrow> u32 \<Rightarrow> dispatch \<Rightarrow> (did option \<times> dispatch) res" where
  "exos_dispatch_begin fuel elapsed ch tm th c timeout s =
     rbind (poll_all (Dispatchers (contexts s c)) 0 s) (\<lambda>(sel, msk, s1).
       case sel of
         Some d \<Rightarrow> rbind (dispatcher_unlink fuel elapsed c d s1) (\<lambda>s2. Inr (Some d, s2))
       | None \<Rightarrow>
           rbind (exos_event_add_handle (WakeEvent (contexts s1 c)) ch (exos_thread_create_wait_handle ch (disp_kernel s1))) (\<lambda>(m, k1).
             rbind (if timeout \<noteq> 0
                    then rbind (exos_timer_create fuel elapsed tm timeout 0 k1) (\<lambda>k2.
                           rbind (exos_event_add_handle (TimerEvent tm) th (exos_thread_create_wait_handle th k2)) (\<lambda>(m2, k3).
                             Inr (msk OR m OR m2, k3)))
                    else Inr (msk OR m, k1))
               (\<lambda>(msk2, k4). rbind (exos_thread_wait msk2 k4) (\<lambda>k5. Inr (None, s1\<lparr>disp_kernel := k5\<rparr>)))))"

text \<open>The rest of \<^verbatim>\<open>exos_dispatch\<close>, once the thread runs again.\<close>

definition finished :: "kernel \<Rightarrow> dispatcher_t \<Rightarrow> dispatcher_state option" where
  "finished k x =
     (if DEvent x \<noteq> None \<and> HState (handles k (EventHandle x)) = WAIT_HANDLE_DONE then Some DISPATCHER_DONE
      else if HasTimeout x \<and> HState (handles k (TimerHandle x)) = WAIT_HANDLE_DONE then Some DISPATCHER_TIMEOUT
      else None)"

definition exos_dispatch_resume ::
  "nat \<Rightarrow> u32 \<Rightarrow> u32 \<Rightarrow> hid \<Rightarrow> tmid \<Rightarrow> hid \<Rightarrow> cid \<Rightarrow> u32 \<Rightarrow> dispatch \<Rightarrow> (did option \<times> dispatch) res" where
  "exos_dispatch_resume fuel elapsed elapsed2 ch tm th c timeout s =
     rbind (if timeout \<noteq> 0
            then rbind (exos_thread_dispose_wait_handle th (disp_kernel s)) (exos_timer_dispose fuel elapsed tm)
            else Inr (disp_kernel s)) (\<lambda>k1.
       rbind (exos_thread_dispose_wait_handle ch k1) (\<lambda>k2.
         let s1 = s\<lparr>disp_kernel := k2\<rparr> in
         case find (\<lambda>d. finished k2 (dispatchers s d) \<noteq> None) (Dispatchers (contexts s c)) of
           None \<Rightarrow> Inr (None, s1)
         | Some d \<Rightarrow>
             rbind (dispatcher_unlink fuel elapsed2 c d (upd_dispatcher d (\<lambda>x. x\<lparr>DState := the (finished k2 x)\<rparr>) s1))
               (\<lambda>s2. Inr (Some d, s2))))"

text \<open>The call of the selected dispatcher: \<open>call\<close> stands for the code of the callbacks.\<close>

definition exos_dispatch_end ::
  "(nat \<Rightarrow> cid \<Rightarrow> did \<Rightarrow> dispatch \<Rightarrow> dispatch res) \<Rightarrow> cid \<Rightarrow> did option \<Rightarrow> dispatch \<Rightarrow> (bool \<times> dispatch) res" where
  "exos_dispatch_end call c sel s =
     (case sel of
        None \<Rightarrow> Inr (False, s)
      | Some d \<Rightarrow> rbind (call (Callback (dispatchers s d)) c d s) (\<lambda>s1. Inr (True, s1)))"

section \<open>Handles of a dispatcher\<close>

text \<open>
  A handle of a dispatcher that thread \<open>r\<close> serves is unused, queued at its event, or completed.
\<close>

definition slot_ok :: "tid \<Rightarrow> kernel \<Rightarrow> hid \<Rightarrow> eid \<Rightarrow> bool" where
  "slot_ok r k h e \<longleftrightarrow>
     handles k h = \<lparr>HState = WAIT_HANDLE_DETACHED, Owner = None, Mask = 0\<rparr> \<or>
     Owner (handles k h) = Some r \<and>
       (HState (handles k h) = WAIT_HANDLE_WAITING \<and> h \<in> set (wlists k (EventHandles e)) \<or>
        HState (handles k h) = WAIT_HANDLE_DONE)"

definition slots :: "dispatcher_t \<Rightarrow> (hid \<times> eid) list" where
  "slots x = (case DEvent x of None \<Rightarrow> [] | Some e \<Rightarrow> [(EventHandle x, e)]) @
     (if HasTimeout x then [(TimerHandle x, TimerEvent (DTimer x))] else [])"

definition context_ok :: "tid \<Rightarrow> cid \<Rightarrow> dispatch \<Rightarrow> bool" where
  "context_ok r c s \<longleftrightarrow>
     (let ds = Dispatchers (contexts s c); all = concat (map (\<lambda>d. slots (dispatchers s d)) ds) in
      kernel_wf (disp_kernel s) \<and> distinct ds \<and> (\<forall>d\<in>set ds. Context (dispatchers s d) = Some c) \<and>
      distinct (map fst all) \<and> (\<forall>(h, e)\<in>set all. slot_ok r (disp_kernel s) h e))"

text \<open>What queueing a handle leaves alone.\<close>

definition others_kept :: "hid set \<Rightarrow> kernel \<Rightarrow> kernel \<Rightarrow> bool" where
  "others_kept H k k' \<longleftrightarrow>
     running k' = running k \<and> (\<forall>h. h \<notin> H \<longrightarrow> handles k' h = handles k h) \<and>
     (\<forall>l. set (wlists k l) - H \<subseteq> set (wlists k' l)) \<and> (\<forall>t. State (threads k' t) = State (threads k t)) \<and>
     timers k' = timers k \<and> timer_list k' = timer_list k \<and>
     (\<forall>e. AutoReset (events k' e) = AutoReset (events k e))"

lemma others_kept_trans: "others_kept H k k1 \<Longrightarrow> others_kept H k1 k2 \<Longrightarrow> others_kept H k k2"
  unfolding others_kept_def by fastforce

lemma others_kept_mono: "others_kept H k k1 \<Longrightarrow> H \<subseteq> H' \<Longrightarrow> others_kept H' k k1"
  unfolding others_kept_def by blast

lemma others_kept_refl [simp]: "others_kept H k k"
  by (simp add: others_kept_def)

lemma slot_ok_kept: "others_kept H k k' \<Longrightarrow> h \<notin> H \<Longrightarrow> slot_ok r k h e \<Longrightarrow> slot_ok r k' h e"
  unfolding others_kept_def slot_ok_def by auto

lemma slot_ok_resumed:
  assumes "resumed L k k'" and "kernel_wf k" and "slot_ok r k h e"
  shows "slot_ok r k' h e"
proof -
  have hs: "handles k' = done_handles (\<Union>l\<in>L. set (wlists k l)) k" using assms(1) by (simp add: resumed_def)
  have lo: "lists_ok k" using assms(2) by (simp add: kernel_wf_def kernel_core_def)
  have "handles k h = \<lparr>HState = WAIT_HANDLE_DETACHED, Owner = None, Mask = 0\<rparr> \<Longrightarrow> h \<notin> (\<Union>l\<in>L. set (wlists k l))"
    using lo unfolding lists_ok_def by fastforce
  moreover have "h \<in> set (wlists k' (EventHandles e))"
    if "h \<in> set (wlists k (EventHandles e))" "h \<notin> (\<Union>l\<in>L. set (wlists k l))"
    using assms(1) that unfolding resumed_def by (metis UN_I wait_list.distinct(5))
  ultimately show ?thesis using assms(3) unfolding slot_ok_def hs done_handles_def by auto
qed

text \<open>What other code may do to the handles \<open>H\<close> of a thread: leave them where they are, or complete them.\<close>

definition slots_kept :: "hid set \<Rightarrow> kernel \<Rightarrow> kernel \<Rightarrow> bool" where
  "slots_kept H k k' \<longleftrightarrow> kernel_wf k' \<and>
     (\<forall>h\<in>H. handles k' h = handles k h \<and> (\<forall>e. h \<in> set (wlists k (EventHandles e)) \<longrightarrow> h \<in> set (wlists k' (EventHandles e))) \<or>
        HState (handles k h) = WAIT_HANDLE_WAITING \<and> handles k' h = (handles k h)\<lparr>HState := WAIT_HANDLE_DONE\<rparr>)"

lemma slots_kept_refl: "kernel_wf k \<Longrightarrow> slots_kept H k k"
  by (simp add: slots_kept_def)

lemma slots_kept_trans: "slots_kept H k k1 \<Longrightarrow> slots_kept H k1 k2 \<Longrightarrow> slots_kept H k k2"
  unfolding slots_kept_def by fastforce

lemma slots_kept_others: "others_kept H' k k' \<Longrightarrow> kernel_wf k' \<Longrightarrow> H \<inter> H' = {} \<Longrightarrow> slots_kept H k k'"
  unfolding slots_kept_def others_kept_def by blast

lemma slots_kept_resumed:
  assumes "resumed L k k'" and "kernel_wf k"
  shows "slots_kept H k k'"
proof -
  let ?D = "\<Union>l\<in>L. set (wlists k l)"
  have hs: "handles k' = done_handles ?D k" and wf': "kernel_wf k'" using assms(1) by (simp_all add: resumed_def)
  have lo: "lists_ok k" and ho: "handles_ok k" using assms(2) by (simp_all add: kernel_wf_def kernel_core_def)
  have "HState (handles k h) = WAIT_HANDLE_WAITING" if D: "h \<in> ?D" for h
  proof -
    have "\<forall>l\<in>L. \<nexists>u. l = Pending u" using assms(1) by (simp add: resumed_def)
    then obtain l where l: "l \<in> L" "h \<in> set (wlists k l)" "\<nexists>u. l = Pending u" using D by blast
    have nd: "HState (handles k h) \<noteq> WAIT_HANDLE_DETACHED" using lo l(2) by (auto simp: lists_ok_def)
    then obtain t where "Owner (handles k h) = Some t" using ho by (auto simp: handles_ok_def handle_ok_def)
    then have "HState (handles k h) \<noteq> WAIT_HANDLE_DONE" using lo l(2,3) unfolding lists_ok_def by blast
    then show ?thesis using nd by (cases "HState (handles k h)") auto
  qed
  moreover have "h \<in> set (wlists k' (EventHandles e))" if "h \<in> set (wlists k (EventHandles e))" "h \<notin> ?D" for h e
    using assms(1) that unfolding resumed_def by (metis UN_I wait_list.distinct(5))
  ultimately show ?thesis using wf' unfolding slots_kept_def hs done_handles_def by auto
qed

lemma slot_ok_slots_kept: "slots_kept H k k' \<Longrightarrow> h \<in> H \<Longrightarrow> slot_ok r k h e \<Longrightarrow> slot_ok r k' h e"
  unfolding slots_kept_def slot_ok_def by fastforce

text \<open>A list stays empty when the handles that may have been queued belong to other events.\<close>

lemma others_kept_empty:
  assumes kp: "others_kept H k k'" and wf: "kernel_wf k" "kernel_wf k'" and e: "wlists k (EventHandles e) = []"
    and sl: "\<And>h. h \<in> H \<Longrightarrow> \<exists>e'. e' \<noteq> e \<and> slot_ok r k' h e'"
  shows "wlists k' (EventHandles e) = []"
proof (rule ccontr)
  assume "wlists k' (EventHandles e) \<noteq> []"
  then obtain h where h: "h \<in> set (wlists k' (EventHandles e))" by (cases "wlists k' (EventHandles e)") auto
  have lo: "lists_ok k" "lists_ok k'" using wf by (simp_all add: kernel_wf_def kernel_core_def)
  have uniq: "l = EventHandles e" if "h \<in> set (wlists k' l)" for l using lo(2) that h unfolding lists_ok_def by blast
  have nd: "HState (handles k' h) \<noteq> WAIT_HANDLE_DETACHED" using lo(2) h by (auto simp: lists_ok_def)
  show False
  proof (cases "h \<in> H")
    case True
    then obtain e' where "e' \<noteq> e" "slot_ok r k' h e'" using sl by blast
    then have "h \<in> set (wlists k' (EventHandles e')) \<or> h \<in> set (wlists k' (Pending r))"
      using nd lo(2) by (auto simp: slot_ok_def lists_ok_def)
    then show False using uniq \<open>e' \<noteq> e\<close> by blast
  next
    case False
    then have "HState (handles k h) \<noteq> WAIT_HANDLE_DETACHED" using kp nd by (simp add: others_kept_def)
    then obtain l where l: "h \<in> set (wlists k l)" using lo(1) by (auto simp: lists_ok_def)
    then have "h \<in> set (wlists k' l)" using kp False by (auto simp: others_kept_def)
    then show False using uniq l e by auto
  qed
qed

text \<open>Free bits in the mask of the running thread: every queued handle takes one.\<close>

definition free_bits :: "kernel \<Rightarrow> nat" where
  "free_bits k = card {i. i < 32 \<and> \<not> bit (MaskUsed (threads k (running k))) i}"

lemma free_bits_full: "0 < free_bits k \<Longrightarrow> MaskUsed (threads k (running k)) \<noteq> - 1"
  by (auto simp: free_bits_def card_gt_0_iff)

lemma free_bits_cong: "threads k' (running k') = threads k (running k) \<Longrightarrow> free_bits k' = free_bits k"
  by (simp add: free_bits_def)

lemma alloc_mask_single:
  assumes "alloc_mask k = Inr (msk, k')"
  shows "\<exists>j. msk = 2 ^ j"
  using assms alloc_scan_spec[of 0 32 "NOT (MaskUsed (threads k (running k)))"]
  by (auto simp: alloc_mask_def res_elims)

lemma event_add_single:
  assumes "exos_event_add_handle e h k = Inr (m, added_handle h m l k)" "HState (handles k h) = WAIT_HANDLE_DETACHED"
    "\<not> EvState (events k e)"
  shows "\<exists>j. m = 2 ^ j"
proof -
  obtain a k1 where a: "alloc_mask k = Inr (a, k1)"
    "upd_list (EventHandles e) (\<lambda>xs. xs @ [h]) (upd_handle h (\<lambda>x. \<lparr>HState = WAIT_HANDLE_WAITING, Owner = Some (running k1), Mask = a\<rparr>) k1)
       = added_handle h m l k"
    using assms by (auto simp: exos_event_add_handle_def exos_thread_add_wait_handle_def k_add_handle_def event_cond_def res_elims)
  from arg_cong[OF a(2), of "\<lambda>s. Mask (handles s h)"] have "a = m"
    by (simp add: upd_list_def upd_handle_def added_handle_def)
  then show ?thesis using alloc_mask_single a(1) by blast
qed

lemma free_bits_added: "free_bits k \<le> Suc (free_bits (added_handle h (2 ^ j) l k))"
proof -
  let ?U = "MaskUsed (threads k (running k))"
  have "{i. i < 32 \<and> \<not> bit ?U i} - {j} \<subseteq> {i. i < 32 \<and> \<not> bit (?U OR 2 ^ j) i}"
    by (auto simp: bit_simps)
  then have "card ({i. i < 32 \<and> \<not> bit ?U i} - {j}) \<le> card {i. i < 32 \<and> \<not> bit (?U OR 2 ^ j) i}"
    by (rule card_mono[rotated]) simp
  moreover have "card {i. i < 32 \<and> \<not> bit ?U i} - 1 \<le> card ({i. i < 32 \<and> \<not> bit ?U i} - {j})"
    by (simp add: card_Diff_singleton_if)
  ultimately show ?thesis by (simp add: free_bits_def added_handle_def)
qed

text \<open>Queueing the handle of a slot: nothing happens when it is queued already.\<close>

lemma event_add_slot:
  assumes wf: "kernel_wf k" and rd: "State (threads k (running k)) = EXOS_THREAD_READY"
    and sl: "slot_ok (running k) k h e" and fb: "0 < free_bits k"
  shows "\<exists>m k'. exos_event_add_handle e h k = Inr (m, k') \<and> kernel_wf k' \<and> others_kept {h} k k' \<and>
    free_bits k \<le> Suc (free_bits k') \<and> slot_ok (running k) k' h e \<and>
    (m = 0 \<longleftrightarrow> HState (handles k h) = WAIT_HANDLE_DETACHED \<and> EvState (events k e)) \<and>
    (m \<noteq> 0 \<longrightarrow> events k' = events k \<and> Mask (handles k' h) = m \<and> HState (handles k' h) \<noteq> WAIT_HANDLE_DETACHED)"
proof (cases "HState (handles k h) = WAIT_HANDLE_DETACHED")
  case False
  then have "handle_ok k h" using wf by (simp add: kernel_wf_def kernel_core_def handles_ok_def)
  then have "Mask (handles k h) \<noteq> 0" by (auto simp: handle_ok_def)
  then show ?thesis
    using False wf sl by (simp add: exos_event_add_handle_def exos_thread_add_wait_handle_def)
next
  case True
  then have fr: "handles k h = \<lparr>HState = WAIT_HANDLE_DETACHED, Owner = None, Mask = 0\<rparr>"
    using sl by (auto simp: slot_ok_def)
  note cases = event.add_handle_cases[OF wf TrueI fr rd, of e, folded exos_event_add_handle_def]
  show ?thesis
  proof (cases "EvState (events k e)")
    case set: True
    then obtain k1 where k1: "event_cond e k = Inr (None, k1)" "exos_event_add_handle e h k = Inr (0, k1)" "kernel_wf k1"
      using cases free_bits_full[OF fb] by (auto simp: event_cond_def)
    have "others_kept {h} k k1 \<and> free_bits k1 = free_bits k \<and> handles k1 = handles k"
      using k1(1) set by (auto simp: event_cond_def others_kept_def free_bits_def upd_event_def split: if_splits)
    then show ?thesis using k1 set True sl fr by (auto simp: slot_ok_def)
  next
    case unset: False
    then obtain m where m: "exos_event_add_handle e h k = Inr (m, added_handle h m (EventHandles e) k)" "m \<noteq> 0"
      "kernel_wf (added_handle h m (EventHandles e) k)"
      using cases free_bits_full[OF fb] by (auto simp: event_cond_def)
    obtain j where "m = 2 ^ j" using event_add_single[OF m(1) True unset] by blast
    then have "free_bits k \<le> Suc (free_bits (added_handle h m (EventHandles e) k))" using free_bits_added by simp
    then show ?thesis
      using m unset by (intro exI[of _ m] exI[of _ "added_handle h m (EventHandles e) k"])
        (auto simp: others_kept_def added_handle_def slot_ok_def)
  qed
qed

section \<open>Polling a list of dispatchers\<close>

text \<open>Why a dispatcher is served at once, if it is.\<close>

definition due :: "kernel \<Rightarrow> dispatcher_t \<Rightarrow> dispatcher_state option" where
  "due k x =
     (let now = (\<lambda>h e. HState (handles k h) = WAIT_HANDLE_DETACHED \<and> EvState (events k e)) in
      if (\<exists>e. DEvent x = Some e \<and> now (EventHandle x) e) then Some DISPATCHER_DONE
      else if HasTimeout x \<and> now (TimerHandle x) (TimerEvent (DTimer x)) then Some DISPATCHER_TIMEOUT
      else if DEvent x = None \<and> \<not> HasTimeout x then Some DISPATCHER_IMMEDIATE
      else None)"

definition armed :: "kernel \<Rightarrow> u32 \<Rightarrow> dispatcher_t \<Rightarrow> bool" where
  "armed k msk x \<longleftrightarrow>
     (\<forall>(h, e)\<in>set (slots x). HState (handles k h) \<noteq> WAIT_HANDLE_DETACHED \<and> sub_mask (Mask (handles k h)) msk)"

abbreviation slots_ok :: "tid \<Rightarrow> kernel \<Rightarrow> dispatcher_t \<Rightarrow> bool" where
  "slots_ok r k x \<equiv> \<forall>(h, e)\<in>set (slots x). slot_ok r k h e"

abbreviation handles_of :: "dispatcher_t \<Rightarrow> hid set" where
  "handles_of x \<equiv> fst ` set (slots x)"

lemma or_mask_zero: "a OR b = 0 \<longleftrightarrow> a = 0 \<and> b = (0 :: u32)"
  by (rule or_eq_0_iff)

lemma poll_timer_ok:
  assumes wf: "kernel_wf k" and rd: "State (threads k (running k)) = EXOS_THREAD_READY" and fb: "0 < free_bits k"
    and sl: "HasTimeout x \<Longrightarrow> slot_ok (running k) k (TimerHandle x) (TimerEvent (DTimer x))"
  defines "tm \<equiv> HasTimeout x \<and> HState (handles k (TimerHandle x)) = WAIT_HANDLE_DETACHED \<and> EvState (events k (TimerEvent (DTimer x)))"
  shows "\<exists>m k'. poll_timer x m1 k = Inr (if tm then Some DISPATCHER_TIMEOUT else if m1 = 0 \<and> \<not> HasTimeout x then Some DISPATCHER_IMMEDIATE else None, m, k') \<and>
    kernel_wf k' \<and> others_kept {TimerHandle x} k k' \<and> free_bits k \<le> Suc (free_bits k') \<and>
    (HasTimeout x \<longrightarrow> slot_ok (running k) k' (TimerHandle x) (TimerEvent (DTimer x))) \<and> (\<not> HasTimeout x \<longrightarrow> k' = k) \<and>
    (\<not> tm \<and> (m1 \<noteq> 0 \<or> HasTimeout x) \<longrightarrow> events k' = events k \<and> sub_mask m1 m \<and> m \<noteq> 0 \<and>
       (HasTimeout x \<longrightarrow> HState (handles k' (TimerHandle x)) \<noteq> WAIT_HANDLE_DETACHED \<and> sub_mask (Mask (handles k' (TimerHandle x))) m))"
proof (cases "HasTimeout x")
  case True
  obtain m k' where "exos_event_add_handle (TimerEvent (DTimer x)) (TimerHandle x) k = Inr (m, k')" "kernel_wf k'"
    "others_kept {TimerHandle x} k k'" "free_bits k \<le> Suc (free_bits k')" "slot_ok (running k) k' (TimerHandle x) (TimerEvent (DTimer x))"
    "m = 0 \<longleftrightarrow> tm" "m \<noteq> 0 \<Longrightarrow> events k' = events k \<and> Mask (handles k' (TimerHandle x)) = m \<and> HState (handles k' (TimerHandle x)) \<noteq> WAIT_HANDLE_DETACHED"
    using event_add_slot[OF wf rd sl[OF True] fb] True unfolding tm_def by blast
  then show ?thesis
    using True by (intro exI[of _ "if m = 0 then 0 else m1 OR m"] exI[of _ k'])
      (auto simp: poll_timer_def or_mask_zero sub_mask_or2 sub_mask_or[OF sub_mask_or2[of m1 0], of m, simplified])
next
  case False
  then show ?thesis
    using wf sub_mask_or2[of m1 0] by (intro exI[of _ "m1"] exI[of _ k]) (auto simp: poll_timer_def tm_def)
qed

lemma poll_ok:
  assumes wf: "kernel_wf k" and rd: "State (threads k (running k)) = EXOS_THREAD_READY" and fb: "2 \<le> free_bits k"
    and sl: "slots_ok (running k) k x" and d: "distinct (map fst (slots x))"
  shows "\<exists>m k'. poll x k = Inr (due k x, m, k') \<and> kernel_wf k' \<and> others_kept (handles_of x) k k' \<and>
    free_bits k \<le> free_bits k' + 2 \<and> slots_ok (running k) k' x \<and>
    (due k x = None \<longrightarrow> events k' = events k \<and> armed k' m x)"
proof (cases "DEvent x")
  case None
  let ?tm = "HasTimeout x \<and> HState (handles k (TimerHandle x)) = WAIT_HANDLE_DETACHED \<and> EvState (events k (TimerEvent (DTimer x)))"
  have due: "due k x = (if ?tm then Some DISPATCHER_TIMEOUT else if \<not> HasTimeout x then Some DISPATCHER_IMMEDIATE else None)"
    using None by (auto simp: due_def Let_def)
  have ts: "HasTimeout x \<Longrightarrow> slot_ok (running k) k (TimerHandle x) (TimerEvent (DTimer x))" using sl by (simp add: slots_def)
  have "0 < free_bits k" using fb by simp
  from poll_timer_ok[OF wf rd this ts, of 0] obtain m k' where k': "poll_timer x 0 k = Inr (due k x, m, k')" "kernel_wf k'" "others_kept {TimerHandle x} k k'"
    "free_bits k \<le> Suc (free_bits k')" "HasTimeout x \<longrightarrow> slot_ok (running k) k' (TimerHandle x) (TimerEvent (DTimer x))"
    "\<not> HasTimeout x \<longrightarrow> k' = k" "\<not> ?tm \<and> (0 \<noteq> (0 :: u32) \<or> HasTimeout x) \<longrightarrow> events k' = events k \<and> sub_mask 0 m \<and> m \<noteq> 0 \<and>
       (HasTimeout x \<longrightarrow> HState (handles k' (TimerHandle x)) \<noteq> WAIT_HANDLE_DETACHED \<and> sub_mask (Mask (handles k' (TimerHandle x))) m)"
    unfolding due by (simp only: simp_thms) fast
  have "others_kept (handles_of x) k k'" using k'(3,6) None by (cases "HasTimeout x") (auto simp: slots_def)
  moreover have "\<not> ?tm \<and> HasTimeout x" if "due k x = None" using that due by (auto split: if_splits)
  ultimately show ?thesis using k' None by (intro exI[of _ m] exI[of _ k']) (simp add: poll_def slots_def armed_def)
next
  case (Some e)
  have "slot_ok (running k) k (EventHandle x) e" using sl Some by (simp add: slots_def)
  with event_add_slot[OF wf rd this] fb obtain m1 k1 where k1: "exos_event_add_handle e (EventHandle x) k = Inr (m1, k1)"
    "kernel_wf k1" "others_kept {EventHandle x} k k1" "free_bits k \<le> Suc (free_bits k1)" "slot_ok (running k) k1 (EventHandle x) e"
    "m1 = 0 \<longleftrightarrow> HState (handles k (EventHandle x)) = WAIT_HANDLE_DETACHED \<and> EvState (events k e)"
    "m1 \<noteq> 0 \<longrightarrow> events k1 = events k \<and> Mask (handles k1 (EventHandle x)) = m1 \<and> HState (handles k1 (EventHandle x)) \<noteq> WAIT_HANDLE_DETACHED"
    by force
  have r1: "running k1 = running k" "State (threads k1 (running k1)) = EXOS_THREAD_READY"
    using k1(3) rd by (simp_all add: others_kept_def)
  have ne: "HasTimeout x \<Longrightarrow> TimerHandle x \<noteq> EventHandle x" using d Some by (simp add: slots_def)
  have tsl: "slot_ok (running k) k1 (TimerHandle x) (TimerEvent (DTimer x))" if "HasTimeout x"
    using slot_ok_kept[OF k1(3)] ne sl that by (auto simp: slots_def)
  show ?thesis
  proof (cases "m1 = 0")
    case True
    then have "due k x = Some DISPATCHER_DONE" using k1(6) Some by (simp add: due_def)
    then show ?thesis
      using k1 True Some tsl others_kept_mono[OF k1(3), of "handles_of x"]
      by (intro exI[of _ 0] exI[of _ k1]) (auto simp: poll_def slots_def)
  next
    case False
    let ?tm = "HasTimeout x \<and> HState (handles k1 (TimerHandle x)) = WAIT_HANDLE_DETACHED \<and> EvState (events k1 (TimerEvent (DTimer x)))"
    have due: "due k x = (if ?tm then Some DISPATCHER_TIMEOUT else None)"
      using False k1(3,6,7) ne Some by (auto simp: due_def Let_def others_kept_def)
    obtain m k' where k': "poll_timer x m1 k1 = Inr (if ?tm then Some DISPATCHER_TIMEOUT else if m1 = 0 \<and> \<not> HasTimeout x then Some DISPATCHER_IMMEDIATE else None, m, k')"
      "kernel_wf k'" "others_kept {TimerHandle x} k1 k'" "free_bits k1 \<le> Suc (free_bits k')"
      "HasTimeout x \<longrightarrow> slot_ok (running k1) k' (TimerHandle x) (TimerEvent (DTimer x))" "\<not> HasTimeout x \<longrightarrow> k' = k1"
      "\<not> ?tm \<and> (m1 \<noteq> 0 \<or> HasTimeout x) \<longrightarrow> events k' = events k1 \<and> sub_mask m1 m \<and> m \<noteq> 0 \<and>
       (HasTimeout x \<longrightarrow> HState (handles k' (TimerHandle x)) \<noteq> WAIT_HANDLE_DETACHED \<and> sub_mask (Mask (handles k' (TimerHandle x))) m)"
      using poll_timer_ok[OF k1(2) r1(2), of x m1] tsl fb k1(4) unfolding r1(1) by fastforce
    have kept: "others_kept (handles_of x) k1 k'" "others_kept (handles_of x) k k1"
      using k'(3,6) k1(3) Some by (auto simp: slots_def intro: others_kept_mono)
    have ev: "slot_ok (running k) k' (EventHandle x) e" "handles k' (EventHandle x) = handles k1 (EventHandle x)"
      using k'(3,6) k1(5) ne slot_ok_kept[OF k'(3)] by (cases "HasTimeout x"; auto simp: others_kept_def)+
    show ?thesis
      using False k'(1,2,4,5,7) k1(1,4,7) Some ev others_kept_trans[OF kept(2,1)] r1(1) due
      by (intro exI[of _ m] exI[of _ k']) (auto simp: poll_def slots_def armed_def)
  qed
qed

lemma sub_mask_trans: "sub_mask a b \<Longrightarrow> sub_mask b c \<Longrightarrow> sub_mask a c"
  by (simp add: sub_mask_bits)

lemma armed_mono: "armed k m x \<Longrightarrow> sub_mask m m' \<Longrightarrow> armed k m' x"
  by (auto simp: armed_def intro: sub_mask_trans)

lemma kept_handle: "others_kept H k k' \<Longrightarrow> handles_of x \<inter> H = {} \<Longrightarrow> p \<in> set (slots x) \<Longrightarrow> fst p \<notin> H \<and> handles k' (fst p) = handles k (fst p)"
  using imageI[of p "set (slots x)" fst] by (auto simp: others_kept_def)

lemma armed_kept: "others_kept H k k' \<Longrightarrow> handles_of x \<inter> H = {} \<Longrightarrow> armed k m x \<Longrightarrow> armed k' m x"
  unfolding armed_def using kept_handle[of H k k' x] by (simp add: case_prod_beta)

lemma slots_ok_kept: "others_kept H k k' \<Longrightarrow> handles_of x \<inter> H = {} \<Longrightarrow> slots_ok r k x \<Longrightarrow> slots_ok r k' x"
  using kept_handle[of H k k' x] slot_ok_kept[of H k k'] by (simp add: case_prod_beta)

lemma kept_members:
  assumes "others_kept H k k'" "handles_of x \<inter> H = {}"
  shows "DEvent x \<noteq> None \<Longrightarrow> handles k' (EventHandle x) = handles k (EventHandle x)"
    "HasTimeout x \<Longrightarrow> handles k' (TimerHandle x) = handles k (TimerHandle x)"
  using kept_handle[OF assms, of "(EventHandle x, the (DEvent x))"] kept_handle[OF assms, of "(TimerHandle x, TimerEvent (DTimer x))"]
  by (auto simp: slots_def)

lemma due_kept: "others_kept H k k' \<Longrightarrow> handles_of x \<inter> H = {} \<Longrightarrow> events k' = events k \<Longrightarrow> due k' x = due k x"
  using kept_members[of H k k' x] by (auto simp: due_def Let_def)

lemma finished_kept: "others_kept H k k' \<Longrightarrow> handles_of x \<inter> H = {} \<Longrightarrow> finished k' x = finished k x"
  using kept_members[of H k k' x] by (auto simp: finished_def)

lemma slots_kept_members:
  assumes "slots_kept H k k'" "handles_of x \<subseteq> H"
  shows "armed k m x \<Longrightarrow> armed k' m x" "slots_ok r k x \<Longrightarrow> slots_ok r k' x"
proof -
  have H: "h \<in> H" if "(h, e) \<in> set (slots x)" for h e using assms(2) imageI[OF that, of fst] by auto
  then show "slots_ok r k x \<Longrightarrow> slots_ok r k' x" using slot_ok_slots_kept[OF assms(1)] by blast
  have "HState (handles k' h) \<noteq> WAIT_HANDLE_DETACHED \<and> Mask (handles k' h) = Mask (handles k h)"
    if "h \<in> H" "HState (handles k h) \<noteq> WAIT_HANDLE_DETACHED" for h
    using assms(1) that unfolding slots_kept_def by fastforce
  then show "armed k m x \<Longrightarrow> armed k' m x" using H unfolding armed_def by fastforce
qed

definition marked :: "kernel \<Rightarrow> did option \<Rightarrow> dispatch \<Rightarrow> dispatch" where
  "marked k sel s = (case sel of None \<Rightarrow> s | Some d \<Rightarrow> upd_dispatcher d (\<lambda>x. x\<lparr>DState := the (due k x)\<rparr>) s)"

text \<open>
  The first loop of \<^verbatim>\<open>exos_dispatch\<close> selects the first dispatcher that is due, and when there is none it
  leaves all of them armed.
\<close>

lemma poll_all_ok:
  assumes "kernel_wf (disp_kernel s)" and "State (threads (disp_kernel s) (running (disp_kernel s))) = EXOS_THREAD_READY"
    and "2 * length ds \<le> free_bits (disp_kernel s)" and "\<forall>d\<in>set ds. slots_ok (running (disp_kernel s)) (disp_kernel s) (dispatchers s d)"
    and "distinct (map fst (concat (map (\<lambda>d. slots (dispatchers s d)) ds)))"
  defines "H \<equiv> \<Union>d\<in>set ds. handles_of (dispatchers s d)"
  defines "sel \<equiv> find (\<lambda>d. due (disp_kernel s) (dispatchers s d) \<noteq> None) ds"
  shows "\<exists>m k'. poll_all ds msk s = Inr (sel, m, marked (disp_kernel s) sel (s\<lparr>disp_kernel := k'\<rparr>)) \<and>
     kernel_wf k' \<and> others_kept H (disp_kernel s) k' \<and> free_bits (disp_kernel s) \<le> free_bits k' + 2 * length ds \<and>
     (\<forall>d\<in>set ds. slots_ok (running (disp_kernel s)) k' (dispatchers s d)) \<and> sub_mask msk m \<and>
     (sel = None \<longrightarrow> events k' = events (disp_kernel s) \<and> (\<forall>d\<in>set ds. armed k' m (dispatchers s d)))"
  using assms(1-5) unfolding H_def sel_def
proof (induction ds arbitrary: msk s)
  case Nil
  then show ?case by (intro exI[of _ msk] exI[of _ "disp_kernel s"]) (simp add: sub_mask_bits marked_def)
next
  case (Cons d ds)
  let ?k = "disp_kernel s" and ?x = "dispatchers s d"
  obtain m k1 where k1: "poll ?x ?k = Inr (due ?k ?x, m, k1)" "kernel_wf k1" "others_kept (handles_of ?x) ?k k1"
    "free_bits ?k \<le> free_bits k1 + 2" "slots_ok (running ?k) k1 ?x" "due ?k ?x = None \<longrightarrow> events k1 = events ?k \<and> armed k1 m ?x"
    using poll_ok[OF Cons.prems(1,2), of ?x] Cons.prems(3-5) by auto
  have dj: "handles_of (dispatchers s d') \<inter> handles_of ?x = {}" if "d' \<in> set ds" for d'
  proof -
    have "handles_of ?x \<inter> fst ` set (concat (map (\<lambda>d. slots (dispatchers s d)) ds)) = {}" using Cons.prems(5) by simp
    moreover have "handles_of (dispatchers s d') \<subseteq> fst ` set (concat (map (\<lambda>d. slots (dispatchers s d)) ds))"
      using that by (intro image_mono) auto
    ultimately show ?thesis by blast
  qed
  have sl: "\<forall>d'\<in>set ds. slots_ok (running ?k) k1 (dispatchers s d')"
    using Cons.prems(4) slots_ok_kept[OF k1(3) dj] by (metis list.set_intros(2))
  show ?case
  proof (cases "due ?k ?x")
    case (Some st)
    have "others_kept (\<Union>d\<in>set (d # ds). handles_of (dispatchers s d)) ?k k1"
      by (rule others_kept_mono[OF k1(3)]) auto
    then show ?thesis
      using Some k1(1,2,4,5) sl by (intro exI[of _ msk] exI[of _ k1]) (auto simp: marked_def upd_dispatcher_def sub_mask_bits)
  next
    case None
    let ?s1 = "s\<lparr>disp_kernel := k1\<rparr>"
    have r: "running k1 = running ?k" "State (threads k1 (running k1)) = EXOS_THREAD_READY"
      using k1(3) Cons.prems(2) by (simp_all add: others_kept_def)
    have fnd: "find (\<lambda>d'. due k1 (dispatchers s d') \<noteq> None) ds = find (\<lambda>d'. due ?k (dispatchers s d') \<noteq> None) ds"
      using due_kept[OF k1(3) dj] k1(6) None by (intro find_cong) auto
    let ?sel = "find (\<lambda>d'. due ?k (dispatchers s d') \<noteq> None) ds"
    obtain m' k' where k': "poll_all ds (msk OR m) ?s1 = Inr (?sel, m', marked k1 ?sel (s\<lparr>disp_kernel := k'\<rparr>))"
      "kernel_wf k'" "others_kept (\<Union>d\<in>set ds. handles_of (dispatchers s d)) k1 k'" "free_bits k1 \<le> free_bits k' + 2 * length ds"
      "\<forall>d\<in>set ds. slots_ok (running ?k) k' (dispatchers s d)" "sub_mask (msk OR m) m'"
      "?sel = None \<longrightarrow> events k' = events k1 \<and> (\<forall>d\<in>set ds. armed k' m' (dispatchers s d))"
      using Cons.IH[of ?s1 "msk OR m"] k1(2,4) r sl Cons.prems(3,5) unfolding fnd [symmetric] by auto
    have du: "due k1 (dispatchers s d') = due ?k (dispatchers s d')" if "?sel = Some d'" for d'
      using that due_kept[OF k1(3) dj] k1(6) None by (auto simp: find_Some_iff)
    have x: "slots_ok (running ?k) k' ?x" "armed k1 m ?x \<Longrightarrow> armed k' m ?x"
      using slots_ok_kept[OF k'(3) _ k1(5)] armed_kept[OF k'(3)] dj by blast+
    have "sub_mask msk m'" "sub_mask m m'" using k'(6) by (auto simp: sub_mask_bits bit_simps)
    moreover have "others_kept (\<Union>d\<in>set (d # ds). handles_of (dispatchers s d)) ?k k'"
      by (rule others_kept_trans[OF others_kept_mono[OF k1(3)] others_kept_mono[OF k'(3)]]) auto
    moreover have "poll_all (d # ds) msk s = Inr (?sel, m', marked ?k ?sel (s\<lparr>disp_kernel := k'\<rparr>))"
      using None k1(1) k'(1) du by (cases ?sel) (simp_all add: marked_def upd_dispatcher_def)
    moreover have "?sel = None \<longrightarrow> events k' = events ?k \<and> (\<forall>d\<in>set (d # ds). armed k' m' (dispatchers s d))"
      using k'(7) k1(6) None x(2) armed_mono[of k' m ?x m'] \<open>sub_mask m m'\<close> by simp
    moreover have "\<forall>d\<in>set (d # ds). slots_ok (running ?k) k' (dispatchers s d)" using k'(5) x(1) by simp
    moreover have "free_bits ?k \<le> free_bits k' + 2 * length (d # ds)" using k'(4) k1(4) by simp
    ultimately show ?thesis using None k'(2) by (intro exI[of _ m'] exI[of _ k']) (simp only: find.simps if_False simp_thms)
  qed
qed

section \<open>Releasing a dispatcher\<close>

definition timers_ready :: "nat \<Rightarrow> kernel \<Rightarrow> bool" where
  "timers_ready fuel k \<longleftrightarrow> timers_sorted k \<and> one_shot (timer_list k) k \<and> length (timer_list k) \<le> fuel"

lemma timers_ready_kept: "others_kept H k k' \<Longrightarrow> timers_ready fuel k \<Longrightarrow> timers_ready fuel k'"
  by (simp add: timers_ready_def timers_sorted_def one_shot_def others_kept_def)

lemma tick_handler_resumed:
  assumes "kernel_wf k" and tr: "timers_ready fuel k"
  shows "\<exists>w k' L. tick_handler fuel elapsed k = Inr (w, k') \<and> resumed L k k' \<and> timers_ready fuel k' \<and>
    (\<forall>t. (t \<in> set (timer_list k) \<longrightarrow> elapsed < time_of k t) \<longrightarrow> events k' (TimerEvent t) = events k (TimerEvent t))"
proof -
  have pre: "timers_sorted k" "one_shot (timer_list k) k" "length (timer_list k) \<le> fuel" using tr by (simp_all add: timers_ready_def)
  obtain w k' where k': "tick_handler fuel elapsed k = Inr (w, k')" "timers_sorted k'" "ticked elapsed (timer_list k) k k'"
    "timer_list k' = filter (\<lambda>t. elapsed < time_of k t) (timer_list k)"
    using tick_handler_ticked[OF assms(1) pre] by blast
  have "length (timer_list k') \<le> fuel" using k'(4) pre(3) length_filter_le le_trans by metis
  moreover have "one_shot (timer_list k') k'"
    using pre(2) k'(3,4) by (auto simp: one_shot_def ticked_def ticked_timer_def expired_def)
  moreover have "events k' (TimerEvent t) = events k (TimerEvent t)" if "t \<in> set (timer_list k) \<longrightarrow> elapsed < time_of k t" for t
  proof -
    have "t \<notin> set (expired elapsed k (timer_list k))" using that by (auto simp: expired_def)
    then show ?thesis using k'(3) by (auto simp: ticked_def)
  qed
  ultimately show ?thesis using k' by (auto simp: timers_ready_def ticked_def)
qed

lemma timer_dispose_resumed:
  assumes wf: "kernel_wf k" and tr: "timers_ready fuel k"
  shows "\<exists>k' L. exos_timer_dispose fuel elapsed t k = Inr k' \<and> resumed L k k' \<and> timers_ready fuel k'"
proof (cases "t \<in> set (timer_list k)")
  case True
  let ?k = "k\<lparr>timer_list := filter (\<lambda>x. x \<noteq> t) (timer_list k)\<rparr>"
  have "kernel_wf ?k = kernel_wf k" by (rule kernel_wf_cong) simp_all
  moreover have "length (filter (\<lambda>x. x \<noteq> t) (timer_list k)) \<le> fuel" using tr length_filter_le le_trans unfolding timers_ready_def by blast
  then have "timers_ready fuel ?k" using tr by (auto simp: timers_ready_def one_shot_def timers_sorted_def intro: sorted_filter)
  ultimately obtain w k' L where k': "tick_handler fuel elapsed ?k = Inr (w, k')" "resumed L ?k k'" "timers_ready fuel k'"
    using tick_handler_resumed[of ?k fuel elapsed] wf by blast
  have "resumed L k k'" using k'(2) resumed_cong[of ?k k L k'] by simp
  then show ?thesis using k'(1,3) True by (auto simp: exos_timer_dispose_def)
next
  case False
  then show ?thesis using resumed_refl[OF wf] tr by (auto simp: exos_timer_dispose_def)
qed

text \<open>A new one-shot timer: the tick of its section may complete handles, but its own event is not set.\<close>

lemma timer_create_resumed:
  assumes wf: "kernel_wf k" and tr: "timers_ready fuel k" and tm: "tm \<notin> set (timer_list k)"
    and l: "wlists k (EventHandles (TimerEvent tm)) = []" and t0: "timeout \<noteq> 0" and ov: "unat timeout + unat elapsed < 2 ^ 32"
    and fuel: "length (timer_list k) < fuel"
  shows "\<exists>k' L. exos_timer_create fuel elapsed tm timeout 0 k = Inr k' \<and> resumed L k k' \<and> resume_mono k k' \<and>
    timers_ready fuel k' \<and> \<not> EvState (events k' (TimerEvent tm))"
proof -
  let ?k0 = "exos_event_create (TimerEvent tm) False (upd_timer tm (\<lambda>x. x\<lparr>Time := timeout, Period := 0\<rparr>) k)"
  let ?k1 = "upd_timer tm (\<lambda>x. x\<lparr>TState := EXOS_TIMER_RUNNING, Time := Time x + elapsed\<rparr>) ?k0"
  have wl: "(wlists k)(EventHandles (TimerEvent tm) := []) = wlists k" using l by (auto simp: fun_eq_iff)
  have k0: "threads ?k0 = threads k" "handles ?k0 = handles k" "wlists ?k0 = wlists k" "ready ?k0 = ready k" "waiting ?k0 = waiting k"
    "running ?k0 = running k" "mutexes ?k0 = mutexes k" "timer_list ?k0 = timer_list k" "timers ?k0 = (timers k)(tm := (timers k tm)\<lparr>Time := timeout, Period := 0\<rparr>)"
    "events ?k0 = (events k)(TimerEvent tm := \<lparr>EvState = False, AutoReset = False\<rparr>)"
    by (simp_all add: exos_event_create_def upd_event_def upd_list_def upd_timer_def wl)
  have wf0: "kernel_wf ?k0" using wf kernel_wf_cong(1)[OF k0(1,2,4,5,3)] by simp
  obtain b k2 where e: "timer_enqueue tm ?k1 = (b, k2)" by fastforce
  have tm1: "tm \<notin> set (timer_list ?k1)" using tm k0(8) by simp
  have "time_of ?k1 t = time_of k t" if "t \<in> set (timer_list k)" for t using that tm k0(9) by auto
  then have "map (time_of ?k1) (timer_list ?k1) = map (time_of k) (timer_list k)" using k0(8) by simp
  moreover have "timer_list ?k1 = timer_list k" using k0(8) by simp
  ultimately have so1: "timers_sorted ?k1" using tr unfolding timers_ready_def timers_sorted_def by metis
  note enq = timer_enqueue_sorted[OF so1 tm1 e]
  have k2: "threads k2 = threads k" "handles k2 = handles k" "wlists k2 = wlists k" "ready k2 = ready k" "waiting k2 = waiting k"
    "running k2 = running k" "mutexes k2 = mutexes k" "events k2 = events ?k0"
    using e k0 by (auto simp: timer_enqueue_def split: option.splits)
  have tms: "timers k2 = (timers k)(tm := \<lparr>TState = EXOS_TIMER_RUNNING, Period = 0, Time = timeout + elapsed\<rparr>)"
    using enq(3) k0(9) by (simp add: fun_eq_iff)
  have "card (set (timer_list k2)) = Suc (card (set (timer_list k)))" using enq(2) k0(8) tm by simp
  then have "length (timer_list k2) = Suc (length (timer_list k))"
    using enq(1) tr by (metis distinct_card timers_ready_def timers_sorted_def)
  then have tr2: "timers_ready fuel k2"
    using enq(1,2) fuel tr tm by (auto simp: timers_ready_def one_shot_def tms k2(8) k0(8,10))
  have wf2: "kernel_wf k2" using wf kernel_wf_cong(1)[OF k2(1,2,4,5,3)] by simp
  have late: "elapsed < timeout + elapsed"
  proof -
    have "unat (timeout + elapsed) = unat timeout + unat elapsed" using ov by (subst unat_add_lem[THEN iffD1]) simp_all
    moreover have "unat timeout \<noteq> 0" using t0 by (simp add: unat_eq_zero)
    ultimately show ?thesis by (simp add: word_less_nat_alt)
  qed
  have cr: "exos_timer_create fuel elapsed tm timeout 0 k =
    (if b then rbind (tick_handler fuel elapsed k2) (\<lambda>(_, s3). Inr s3) else Inr k2)"
    using t0 e by (simp add: exos_timer_create_def k_add_timer_def Let_def)
  have "\<exists>k' L. exos_timer_create fuel elapsed tm timeout 0 k = Inr k' \<and> resumed L k2 k' \<and> timers_ready fuel k' \<and>
      \<not> EvState (events k' (TimerEvent tm))"
  proof (cases b)
    case True
    obtain w k' L where "tick_handler fuel elapsed k2 = Inr (w, k')" "resumed L k2 k'" "timers_ready fuel k'"
      "events k' (TimerEvent tm) = events k2 (TimerEvent tm)"
      using tick_handler_resumed[OF wf2 tr2, of elapsed] late tms by auto
    then show ?thesis using cr True k2(8) k0(10) by auto
  next
    case False
    then show ?thesis using cr resumed_refl[OF wf2] tr2 k2(8) k0(10) by auto
  qed
  then obtain k' L where k': "exos_timer_create fuel elapsed tm timeout 0 k = Inr k'" "resumed L k2 k'" "timers_ready fuel k'"
    "\<not> EvState (events k' (TimerEvent tm))" by blast
  have "resumed L k k'" using k'(2) resumed_cong[of k2 k L k'] k2 by simp
  moreover have "resume_mono ?k0 k'" using add_timer_mono[OF wf0] k'(1) t0 by (simp add: exos_timer_create_def)
  then have "resume_mono k k'" using resume_mono_pre[OF k0(1,2)] by simp
  ultimately show ?thesis using k' by blast
qed

lemma dispose_slot:
  assumes wf: "kernel_wf k"
  shows "\<exists>k'. exos_thread_dispose_wait_handle h k = Inr k' \<and> kernel_wf k' \<and> others_kept {h} k k' \<and> events k' = events k \<and>
    HState (handles k' h) = WAIT_HANDLE_DETACHED \<and> ready k' = ready k"
proof (cases "HState (handles k h) = WAIT_HANDLE_DETACHED")
  case True
  then show ?thesis using wf by (simp add: exos_thread_dispose_wait_handle_def)
next
  case False
  then obtain t where "k_dispose_handle h k = Inr (disposed_handle h t k)" "kernel_wf (disposed_handle h t k)"
    using dispose_handle_wf[OF wf] by blast
  then show ?thesis
    using False by (auto simp: exos_thread_dispose_wait_handle_def disposed_handle_def others_kept_def)
qed

lemma resumed_detached:
  assumes "resumed L k k'" "kernel_wf k" "HState (handles k h) = WAIT_HANDLE_DETACHED"
  shows "handles k' h = handles k h"
proof -
  have "h \<notin> (\<Union>l\<in>L. set (wlists k l))" using assms(2,3) by (auto simp: kernel_wf_def kernel_core_def lists_ok_def)
  then show ?thesis using assms(1) by (simp add: resumed_def done_handles_def)
qed

lemma release_ok:
  assumes wf: "kernel_wf k" and tr: "timers_ready fuel k"
  shows "\<exists>k'. dispatcher_release fuel elapsed x k = Inr k' \<and> kernel_wf k' \<and> running k' = running k \<and>
    (\<forall>r h e. h \<notin> handles_of x \<longrightarrow> slot_ok r k h e \<longrightarrow> slot_ok r k' h e) \<and>
    (\<forall>h\<in>handles_of x. HState (handles k' h) = WAIT_HANDLE_DETACHED)"
proof -
  obtain k1 where k1: "(if HasTimeout x
      then rbind (exos_thread_dispose_wait_handle (TimerHandle x) k) (exos_timer_dispose fuel elapsed (DTimer x))
      else Inr k) = Inr k1" "kernel_wf k1" "running k1 = running k"
    "\<forall>r h e. h \<notin> handles_of x \<longrightarrow> slot_ok r k h e \<longrightarrow> slot_ok r k1 h e"
    "HasTimeout x \<longrightarrow> HState (handles k1 (TimerHandle x)) = WAIT_HANDLE_DETACHED"
  proof (cases "HasTimeout x")
    case True
    obtain k0 where k0: "exos_thread_dispose_wait_handle (TimerHandle x) k = Inr k0" "kernel_wf k0" "others_kept {TimerHandle x} k k0"
      "HState (handles k0 (TimerHandle x)) = WAIT_HANDLE_DETACHED"
      using dispose_slot[OF wf] by blast
    obtain k1 L where k1: "exos_timer_dispose fuel elapsed (DTimer x) k0 = Inr k1" "resumed L k0 k1"
      using timer_dispose_resumed[OF k0(2) timers_ready_kept[OF k0(3) tr]] by blast
    have "slot_ok r k1 h e" if "h \<notin> handles_of x" "slot_ok r k h e" for r h e
      using slot_ok_resumed[OF k1(2) k0(2)] slot_ok_kept[OF k0(3)] that True by (auto simp: slots_def)
    then show ?thesis
      using that[of k1] k0 k1 True resumed_detached[OF k1(2) k0(2,4)] by (simp add: resumed_def others_kept_def)
  qed (use that[of k] wf in simp)
  show ?thesis
  proof (cases "DEvent x")
    case None
    then show ?thesis using k1 by (auto simp: dispatcher_release_def slots_def)
  next
    case (Some e)
    obtain k2 where k2: "exos_thread_dispose_wait_handle (EventHandle x) k1 = Inr k2" "kernel_wf k2" "others_kept {EventHandle x} k1 k2"
      "HState (handles k2 (EventHandle x)) = WAIT_HANDLE_DETACHED"
      using dispose_slot[OF k1(2)] by blast
    have "slot_ok r k2 h e'" if "h \<notin> handles_of x" "slot_ok r k h e'" for r h e'
      using slot_ok_kept[OF k2(3)] k1(4) that Some by (auto simp: slots_def)
    moreover have "HState (handles k2 (TimerHandle x)) = WAIT_HANDLE_DETACHED" if "HasTimeout x"
      using k1(5) k2(3,4) that unfolding others_kept_def by (cases "TimerHandle x = EventHandle x") simp_all
    ultimately show ?thesis
      using k1(1,3) k2 Some unfolding dispatcher_release_def k1(1) by (simp add: slots_def others_kept_def)
  qed
qed

lemma distinct_concat_filter: "distinct (map fst (concat (map f xs))) \<Longrightarrow> distinct (map fst (concat (map f (filter P xs))))"
  by (induction xs) auto

lemma distinct_slots_disjoint:
  assumes "distinct (map fst (concat (map f xs)))" "x \<in> set xs" "y \<in> set xs" "x \<noteq> y"
  shows "fst ` set (f x) \<inter> fst ` set (f y) = {}"
  using assms
proof (induction xs)
  case (Cons a xs)
  have a: "fst ` set (f a) \<inter> fst ` set (f z) = {}" if "z \<in> set xs" for z
  proof -
    have "fst ` set (f a) \<inter> fst ` set (concat (map f xs)) = {}" using Cons.prems(1) by simp
    moreover have "fst ` set (f z) \<subseteq> fst ` set (concat (map f xs))" using that by (intro image_mono) auto
    ultimately show ?thesis by blast
  qed
  consider "x = a" "y \<in> set xs" | "y = a" "x \<in> set xs" | "x \<in> set xs" "y \<in> set xs" using Cons.prems(2-4) by auto
  then show ?case using Cons.IH Cons.prems(1,4) a[of x] a[of y] by cases auto
qed simp

lemma slots_upd [simp]: "slots (x\<lparr>Context := a\<rparr>) = slots x" "slots (x\<lparr>DState := st\<rparr>) = slots x"
  by (simp_all add: slots_def split: option.split)

lemma unlink_ok:
  assumes ok: "context_ok r c s" and d: "d \<in> set (Dispatchers (contexts s c))" and tr: "timers_ready fuel (disp_kernel s)"
  shows "\<exists>s'. dispatcher_unlink fuel elapsed c d s = Inr s' \<and> context_ok r c s' \<and>
    Dispatchers (contexts s' c) = filter (\<lambda>y. y \<noteq> d) (Dispatchers (contexts s c)) \<and>
    dispatchers s' = (dispatchers s)(d := (dispatchers s d)\<lparr>Context := None\<rparr>) \<and>
    (\<forall>h\<in>handles_of (dispatchers s d). HState (handles (disp_kernel s') h) = WAIT_HANDLE_DETACHED)"
proof -
  let ?x = "dispatchers s d" and ?ds = "Dispatchers (contexts s c)"
  have wf: "kernel_wf (disp_kernel s)" and cx: "Context ?x = Some c" using ok d by (simp_all add: context_ok_def Let_def)
  obtain k' where k': "dispatcher_release fuel elapsed ?x (disp_kernel s) = Inr k'" "kernel_wf k'"
    "\<forall>r h e. h \<notin> handles_of ?x \<longrightarrow> slot_ok r (disp_kernel s) h e \<longrightarrow> slot_ok r k' h e"
    "\<forall>h\<in>handles_of ?x. HState (handles k' h) = WAIT_HANDLE_DETACHED"
    using release_ok[OF wf tr] by blast
  let ?s = "upd_dispatcher d (\<lambda>x. x\<lparr>Context := None\<rparr>) (upd_context c (filter (\<lambda>y. y \<noteq> d)) (s\<lparr>disp_kernel := k'\<rparr>))"
  have ds: "Dispatchers (contexts ?s c) = filter (\<lambda>y. y \<noteq> d) ?ds" "disp_kernel ?s = k'"
    "dispatchers ?s = (dispatchers s)(d := ?x\<lparr>Context := None\<rparr>)"
    by (simp_all add: upd_dispatcher_def upd_context_def)
  have all: "(\<lambda>y. slots (dispatchers ?s y)) = (\<lambda>y. slots (dispatchers s y))" by (auto simp: ds(3))
  have sl: "slot_ok r k' h e" if "y \<in> set ?ds" "y \<noteq> d" "(h, e) \<in> set (slots (dispatchers s y))" for y h e
  proof -
    have "h \<notin> handles_of ?x"
      using distinct_slots_disjoint[of "\<lambda>y. slots (dispatchers s y)" ?ds y d] ok that d imageI[OF that(3), of fst]
      by (auto simp: context_ok_def Let_def)
    moreover have "slot_ok r (disp_kernel s) h e" using ok that by (fastforce simp: context_ok_def Let_def)
    ultimately show ?thesis using k'(3) by blast
  qed
  have "context_ok r c ?s"
    using ok k'(2) sl distinct_concat_filter[of "\<lambda>y. slots (dispatchers s y)" ?ds "\<lambda>y. y \<noteq> d"]
    unfolding context_ok_def Let_def all ds(1,2) by (auto simp: ds(3))
  moreover have "dispatcher_unlink fuel elapsed c d s = Inr ?s" using k'(1) cx by (simp add: dispatcher_unlink_def)
  ultimately show ?thesis using ds k'(4) by (intro exI[of _ ?s]) simp
qed

section \<open>Serving and waiting\<close>

lemma context_ok_slots:
  assumes "context_ok r c s"
  shows "\<forall>d\<in>set (Dispatchers (contexts s c)). slots_ok r (disp_kernel s) (dispatchers s d)"
    "distinct (map fst (concat (map (\<lambda>d. slots (dispatchers s d)) (Dispatchers (contexts s c)))))"
    "kernel_wf (disp_kernel s)"
  using assms unfolding context_ok_def Let_def by (fastforce, blast, blast)

text \<open>Changes of the kernel alone.\<close>

lemma context_ok_kernel:
  assumes "context_ok r c s" "kernel_wf k" "\<forall>d\<in>set (Dispatchers (contexts s c)). slots_ok r k (dispatchers s d)"
  shows "context_ok r c (s\<lparr>disp_kernel := k\<rparr>)"
  using assms by (auto simp: context_ok_def Let_def)

lemma context_ok_state:
  "context_ok r c (upd_dispatcher d (\<lambda>x. x\<lparr>DState := f x\<rparr>) s) = context_ok r c s"
proof -
  have "slots (dispatchers (upd_dispatcher d (\<lambda>x. x\<lparr>DState := f x\<rparr>) s) y) = slots (dispatchers s y)"
    "Context (dispatchers (upd_dispatcher d (\<lambda>x. x\<lparr>DState := f x\<rparr>) s) y) = Context (dispatchers s y)" for y
    by (simp_all add: upd_dispatcher_def)
  then show ?thesis by (simp add: context_ok_def upd_dispatcher_def)
qed

text \<open>A thread inside \<^verbatim>\<open>exos_dispatch\<close>: either a handle is completed already, or it waits for all of them.\<close>

definition waits_for_all :: "tid \<Rightarrow> cid \<Rightarrow> dispatch \<Rightarrow> bool" where
  "waits_for_all r c s \<longleftrightarrow>
     (let k = disp_kernel s in State (threads k r) = EXOS_THREAD_WAIT \<and>
        (\<forall>d\<in>set (Dispatchers (contexts s c)). armed k (MaskWait (threads k r)) (dispatchers s d)))"

lemma k_wait_mask:
  assumes "k_wait msk k = Inr k'" "State (threads k' (running k)) = EXOS_THREAD_WAIT"
  shows "MaskWait (threads k' (running k)) = msk"
  using assms by (auto simp: k_wait_def Let_def res_elims kupd_defs split: option.splits if_splits)

definition dispatch_ready :: "hid \<Rightarrow> cid \<Rightarrow> dispatch \<Rightarrow> bool" where
  "dispatch_ready ch c s \<longleftrightarrow>
     (let k = disp_kernel s; ds = Dispatchers (contexts s c) in
      context_ok (running k) c s \<and> State (threads k (running k)) = EXOS_THREAD_READY \<and>
      2 * length ds < free_bits k \<and> HState (handles k ch) = WAIT_HANDLE_DETACHED \<and>
      (\<forall>d\<in>set ds. ch \<notin> handles_of (dispatchers s d)) \<and> \<not> EvState (events k (WakeEvent (contexts s c))))"

lemma create_handle_kept:
  assumes "HState (handles k h) = WAIT_HANDLE_DETACHED"
  shows "others_kept {h} k (exos_thread_create_wait_handle h k)" "free_bits (exos_thread_create_wait_handle h k) = free_bits k"
  by (simp_all add: others_kept_def free_bits_def exos_thread_create_wait_handle_def upd_handle_def)

text \<open>The local timer and the handles of a call with a time-out are new objects, and the time-out does not overflow.\<close>

definition timed_ready :: "nat \<Rightarrow> u32 \<Rightarrow> hid \<Rightarrow> tmid \<Rightarrow> hid \<Rightarrow> cid \<Rightarrow> u32 \<Rightarrow> dispatch \<Rightarrow> bool" where
  "timed_ready fuel elapsed ch tm th c timeout s \<longleftrightarrow>
     (let k = disp_kernel s; ds = Dispatchers (contexts s c) in timeout \<noteq> 0 \<longrightarrow>
        2 * length ds + 1 < free_bits k \<and> HState (handles k th) = WAIT_HANDLE_DETACHED \<and> th \<noteq> ch \<and>
        (\<forall>d\<in>set ds. th \<notin> handles_of (dispatchers s d) \<and> TimerEvent tm \<notin> snd ` set (slots (dispatchers s d))) \<and>
        WakeEvent (contexts s c) \<noteq> TimerEvent tm \<and> tm \<notin> set (timer_list k) \<and> wlists k (EventHandles (TimerEvent tm)) = [] \<and>
        unat timeout + unat elapsed < 2 ^ 32 \<and> length (timer_list k) < fuel)"

text \<open>The thread queues the handle of the context, and with a time-out the handle of its timer.\<close>

lemma queue_fresh:
  assumes wf: "kernel_wf k" and rd: "State (threads k (running k)) = EXOS_THREAD_READY" and fb: "0 < free_bits k"
    and h: "HState (handles k h) = WAIT_HANDLE_DETACHED" and ev: "\<not> EvState (events k e)"
  shows "\<exists>m k'. exos_event_add_handle e h (exos_thread_create_wait_handle h k) = Inr (m, k') \<and> kernel_wf k' \<and> others_kept {h} k k' \<and>
    m \<noteq> 0 \<and> slot_ok (running k) k' h e \<and> free_bits k \<le> Suc (free_bits k')"
proof -
  let ?k0 = "exos_thread_create_wait_handle h k"
  have k0: "kernel_wf ?k0" "slot_ok (running ?k0) ?k0 h e" using create_wait_handle_wf[OF wf h] by (simp_all add: slot_ok_def)
  then obtain m k1 where k1: "exos_event_add_handle e h ?k0 = Inr (m, k1)" "kernel_wf k1" "others_kept {h} ?k0 k1" "m \<noteq> 0"
    "slot_ok (running k) k1 h e" "free_bits k \<le> Suc (free_bits k1)"
    using event_add_slot[OF k0(1) _ k0(2)] rd fb ev create_handle_kept(2)[OF h] by auto
  then show ?thesis using others_kept_trans[OF create_handle_kept(1)[OF h] k1(3)] by blast
qed

lemma timed_arm:
  assumes wf: "kernel_wf k" and rd: "State (threads k (running k)) = EXOS_THREAD_READY" and tr: "timers_ready fuel k"
    and timed: "timeout \<noteq> 0 \<Longrightarrow> 0 < free_bits k \<and> HState (handles k th) = WAIT_HANDLE_DETACHED \<and> th \<notin> H \<and> tm \<notin> set (timer_list k) \<and>
       wlists k (EventHandles (TimerEvent tm)) = [] \<and> unat timeout + unat elapsed < 2 ^ 32 \<and> length (timer_list k) < fuel"
  shows "\<exists>m' k'. (if timeout \<noteq> 0
      then rbind (exos_timer_create fuel elapsed tm timeout 0 k) (\<lambda>k2.
             rbind (exos_event_add_handle (TimerEvent tm) th (exos_thread_create_wait_handle th k2)) (\<lambda>(m2, k3). Inr (msk OR m2, k3)))
      else Inr (msk, k)) = Inr (m', k') \<and> slots_kept H k k' \<and> running k' = running k \<and>
    State (threads k' (running k')) = EXOS_THREAD_READY \<and> sub_mask msk m'"
proof (cases "timeout = 0")
  case True
  then show ?thesis using wf rd slots_kept_refl by (auto simp: sub_mask_bits)
next
  case False
  note tc = timed[OF False]
  obtain k1 L where k1: "exos_timer_create fuel elapsed tm timeout 0 k = Inr k1" "resumed L k k1" "resume_mono k k1"
    "\<not> EvState (events k1 (TimerEvent tm))"
    using timer_create_resumed[OF wf tr] False tc by blast
  have r1: "running k1 = running k" "kernel_wf k1" "same_threads k k1" using k1(2) by (simp_all add: resumed_def)
  have st: "State (threads k1 (running k)) = EXOS_THREAD_READY" using k1(3) rd by (simp add: resume_mono_def)
  then have "threads k1 (running k) = threads k (running k)"
    using r1(3)[unfolded same_threads_def] rd by (metis exos_thread_t.surjective exos_thread_t.update_convs(2))
  then have fb: "free_bits k1 = free_bits k" using free_bits_cong[of k1 k] r1(1) by simp
  have h1: "HState (handles k1 th) = WAIT_HANDLE_DETACHED" using resumed_detached[OF k1(2) wf] tc by simp
  obtain m k2 where k2: "exos_event_add_handle (TimerEvent tm) th (exos_thread_create_wait_handle th k1) = Inr (m, k2)" "kernel_wf k2"
    "others_kept {th} k1 k2"
    using queue_fresh[OF r1(2) _ _ h1 k1(4)] st tc fb r1(1) by auto
  have "slots_kept H k1 k2" using slots_kept_others[OF k2(3,2)] tc by auto
  then have "slots_kept H k k2" using slots_kept_trans slots_kept_resumed[OF k1(2) wf] by blast
  moreover have "running k2 = running k" "State (threads k2 (running k2)) = EXOS_THREAD_READY"
    using k2(3) st r1(1) by (simp_all add: others_kept_def)
  moreover have "sub_mask msk (msk OR m)" by (simp add: sub_mask_bits bit_simps)
  ultimately show ?thesis using False k1(1) k2(1) by simp
qed

lemma slot_ok_lists: "handles k' = handles k \<Longrightarrow> wlists k' = wlists k \<Longrightarrow> slot_ok r k' h e = slot_ok r k h e"
  by (simp add: slot_ok_def)

lemma dispatch_begin_cases:
  assumes "dispatch_ready ch c s" and td: "timed_ready fuel elapsed ch tm th c timeout s" and tr: "timers_ready fuel (disp_kernel s)"
  defines "k \<equiv> disp_kernel s" and "ds \<equiv> Dispatchers (contexts s c)"
  defines "sel \<equiv> find (\<lambda>d. due k (dispatchers s d) \<noteq> None) ds"
  shows "\<exists>s'. exos_dispatch_begin fuel elapsed ch tm th c timeout s = Inr (sel, s') \<and> context_ok (running k) c s' \<and>
    (case sel of
       Some d \<Rightarrow> Dispatchers (contexts s' c) = filter (\<lambda>y. y \<noteq> d) ds \<and>
         dispatchers s' = (dispatchers s)(d := (dispatchers s d)\<lparr>DState := the (due k (dispatchers s d)), Context := None\<rparr>)
     | None \<Rightarrow> contexts s' = contexts s \<and> dispatchers s' = dispatchers s \<and>
         (State (threads (disp_kernel s') (running k)) = EXOS_THREAD_WAIT \<longrightarrow> waits_for_all (running k) c s'))"
proof -
  note rdy = assms(1)[unfolded dispatch_ready_def Let_def, folded k_def ds_def]
  have ok: "context_ok (running k) c s" using rdy by simp
  note sl = context_ok_slots[OF ok, folded k_def ds_def]
  have fb: "2 * length ds \<le> free_bits k" using rdy by simp
  let ?H = "\<Union>d\<in>set ds. handles_of (dispatchers s d)"
  obtain m k1 where k1: "poll_all ds 0 s = Inr (sel, m, marked k sel (s\<lparr>disp_kernel := k1\<rparr>))" "kernel_wf k1"
    "others_kept ?H k k1" "free_bits k \<le> free_bits k1 + 2 * length ds"
    "\<forall>d\<in>set ds. slots_ok (running k) k1 (dispatchers s d)"
    "sel = None \<longrightarrow> events k1 = events k \<and> (\<forall>d\<in>set ds. armed k1 m (dispatchers s d))"
    using poll_all_ok[of s ds 0, folded k_def] sl rdy fb unfolding sel_def by (auto simp: k_def)
  have ok1: "context_ok (running k) c (s\<lparr>disp_kernel := k1\<rparr>)"
    using context_ok_kernel[OF ok k1(2)] k1(5) by (simp add: ds_def)
  show ?thesis
  proof (cases sel)
    case (Some d)
    let ?s1 = "upd_dispatcher d (\<lambda>x. x\<lparr>DState := the (due k x)\<rparr>) (s\<lparr>disp_kernel := k1\<rparr>)"
    have "d \<in> set ds" using Some unfolding sel_def by (auto simp: find_Some_iff)
    then have "d \<in> set (Dispatchers (contexts ?s1 c))" "timers_ready fuel (disp_kernel ?s1)"
      using timers_ready_kept[OF k1(3)] tr by (simp_all add: upd_dispatcher_def ds_def k_def)
    moreover have "context_ok (running k) c ?s1" using ok1 unfolding context_ok_state .
    ultimately obtain s' where "dispatcher_unlink fuel elapsed c d ?s1 = Inr s'" "context_ok (running k) c s'"
      "Dispatchers (contexts s' c) = filter (\<lambda>y. y \<noteq> d) (Dispatchers (contexts ?s1 c))"
      "dispatchers s' = (dispatchers ?s1)(d := (dispatchers ?s1 d)\<lparr>Context := None\<rparr>)"
      using unlink_ok[of "running k" c ?s1 d fuel elapsed] by blast
    then show ?thesis
      using k1(1) Some by (intro exI[of _ s']) (simp add: exos_dispatch_begin_def marked_def upd_dispatcher_def ds_def)
  next
    case None
    let ?e = "WakeEvent (contexts s c)"
    have fb1: "0 < free_bits k1" using k1(4) rdy by linarith
    have ch: "ch \<notin> ?H" using rdy by auto
    then have h1: "HState (handles k1 ch) = WAIT_HANDLE_DETACHED" using k1(3) rdy by (simp add: others_kept_def)
    have r1: "\<not> EvState (events k1 ?e)" "State (threads k1 (running k1)) = EXOS_THREAD_READY" "running k1 = running k"
      using k1(3,6) None rdy by (simp_all add: others_kept_def)
    obtain m' k2 where k2: "exos_event_add_handle ?e ch (exos_thread_create_wait_handle ch k1) = Inr (m', k2)" "kernel_wf k2"
      "others_kept {ch} k1 k2" "m' \<noteq> 0" "slot_ok (running k) k2 ch ?e" "free_bits k1 \<le> Suc (free_bits k2)"
      using queue_fresh[OF k1(2) r1(2) fb1 h1 r1(1)] unfolding r1(3) by blast
    have r2: "State (threads k2 (running k2)) = EXOS_THREAD_READY" "running k2 = running k" "timers_ready fuel k2"
      using k2(3) r1 timers_ready_kept[OF k2(3) timers_ready_kept[OF k1(3)]] tr by (simp_all add: others_kept_def k_def)
    have "0 < free_bits k2 \<and> HState (handles k2 th) = WAIT_HANDLE_DETACHED \<and> th \<notin> ?H \<and> tm \<notin> set (timer_list k2) \<and>
       wlists k2 (EventHandles (TimerEvent tm)) = [] \<and> unat timeout + unat elapsed < 2 ^ 32 \<and> length (timer_list k2) < fuel"
      if t: "timeout \<noteq> 0"
    proof -
      have td': "2 * length ds + 1 < free_bits k" "HState (handles k th) = WAIT_HANDLE_DETACHED" "th \<noteq> ch"
        "\<forall>d\<in>set ds. th \<notin> handles_of (dispatchers s d) \<and> TimerEvent tm \<notin> snd ` set (slots (dispatchers s d))"
        "?e \<noteq> TimerEvent tm" "tm \<notin> set (timer_list k)" "wlists k (EventHandles (TimerEvent tm)) = []"
        "unat timeout + unat elapsed < 2 ^ 32" "length (timer_list k) < fuel"
        using td t by (simp_all add: timed_ready_def Let_def k_def ds_def)
      have "\<exists>e'. e' \<noteq> TimerEvent tm \<and> slot_ok (running k) k1 h e'" if "h \<in> ?H" for h
      proof -
        obtain d e' where d: "d \<in> set ds" "(h, e') \<in> set (slots (dispatchers s d))" using \<open>h \<in> ?H\<close> by auto
        then have "e' \<in> snd ` set (slots (dispatchers s d))" by force
        then have "e' \<noteq> TimerEvent tm" using bspec[OF td'(4) d(1)] by metis
        moreover have "slot_ok (running k) k1 h e'" using d k1(5) by auto
        ultimately show ?thesis by blast
      qed
      from others_kept_empty[OF k1(3) sl(3) k1(2) td'(7) this] have "wlists k1 (EventHandles (TimerEvent tm)) = []" by simp
      from others_kept_empty[OF k2(3) k1(2) k2(2) this, of "running k"] k2(5) td'(5)
      have l2: "wlists k2 (EventHandles (TimerEvent tm)) = []" by auto
      have "handles k2 th = handles k1 th" using k2(3) td'(3) by (simp add: others_kept_def)
      moreover have H: "th \<notin> ?H" using td'(4) by auto
      then have "handles k1 th = handles k th" using k1(3) unfolding others_kept_def by blast
      ultimately have "HState (handles k2 th) = WAIT_HANDLE_DETACHED" using td'(2) by simp
      moreover have "timer_list k2 = timer_list k" using k1(3) k2(3) by (simp add: others_kept_def)
      moreover have "0 < free_bits k2" using td'(1) k1(4) k2(6) by linarith
      ultimately show ?thesis using l2 H td'(6,8,9) by simp
    qed
    then obtain m2 k3 where k3: "(if timeout \<noteq> 0
      then rbind (exos_timer_create fuel elapsed tm timeout 0 k2) (\<lambda>k2.
             rbind (exos_event_add_handle (TimerEvent tm) th (exos_thread_create_wait_handle th k2)) (\<lambda>(m2, k3). Inr ((m OR m') OR m2, k3)))
      else Inr (m OR m', k2)) = Inr (m2, k3)" "slots_kept ?H k2 k3" "running k3 = running k"
      "State (threads k3 (running k3)) = EXOS_THREAD_READY" "sub_mask (m OR m') m2"
      using timed_arm[OF k2(2) r2(1,3), of timeout th ?H tm elapsed "m OR m'"] r2(2) by auto
    have "m2 \<noteq> 0" using k3(5) k2(4) by (auto simp: sub_mask_bits word_eq_iff_bits bit_simps)
    moreover have "kernel_wf k3" using k3(2) by (simp add: slots_kept_def)
    ultimately obtain k4 where k4: "exos_thread_wait m2 k3 = Inr k4" "kernel_wf k4" "wlists k4 = wlists k3" "handles k4 = handles k3"
      using k_wait_wf[OF _ k3(4), of m2] by (auto simp: exos_thread_wait_def)
    have mw: "State (threads k4 (running k)) = EXOS_THREAD_WAIT \<Longrightarrow> MaskWait (threads k4 (running k)) = m2"
      using k_wait_mask[of m2 k3 k4] k4(1) k3(3) by (simp add: exos_thread_wait_def)
    have dj: "handles_of (dispatchers s d) \<inter> {ch} = {}" "handles_of (dispatchers s d) \<subseteq> ?H" if "d \<in> set ds" for d
      using ch that by auto
    have "slots_ok (running k) k4 (dispatchers s d)" if "d \<in> set ds" for d
    proof -
      have "slots_ok (running k) k3 (dispatchers s d)"
        using slots_ok_kept[OF k2(3) dj(1)[OF that]] k1(5) that slots_kept_members(2)[OF k3(2) dj(2)[OF that]] by blast
      then show ?thesis using slot_ok_lists[OF k4(4,3)] by simp
    qed
    then have "context_ok (running k) c (s\<lparr>disp_kernel := k4\<rparr>)" using context_ok_kernel[OF ok k4(2)] by (simp add: ds_def)
    moreover have "armed k4 m2 (dispatchers s d)" if "d \<in> set ds" for d
    proof -
      have "armed k3 m (dispatchers s d)"
        using armed_kept[OF k2(3) dj(1)[OF that]] k1(6) None that slots_kept_members(1)[OF k3(2) dj(2)[OF that]] by blast
      moreover have "sub_mask m m2" using k3(5) by (simp add: sub_mask_bits bit_simps)
      ultimately have "armed k3 m2 (dispatchers s d)" by (rule armed_mono)
      then show ?thesis by (simp add: armed_def k4(4))
    qed
    then have "State (threads k4 (running k)) = EXOS_THREAD_WAIT \<longrightarrow> waits_for_all (running k) c (s\<lparr>disp_kernel := k4\<rparr>)"
      using mw by (simp add: waits_for_all_def Let_def ds_def)
    moreover have "exos_dispatch_begin fuel elapsed ch tm th c timeout s = Inr (sel, s\<lparr>disp_kernel := k4\<rparr>)"
      using k1(1) k2(1) k3(1)[unfolded or.assoc] k4(1) None unfolding exos_dispatch_begin_def ds_def[symmetric]
      by (simp add: marked_def split: if_splits)
    ultimately show ?thesis using None by (intro exI[of _ "s\<lparr>disp_kernel := k4\<rparr>"]) simp
  qed
qed

lemma finished_slots:
  "finished k x \<noteq> None \<longleftrightarrow> (\<exists>(h, e)\<in>set (slots x). HState (handles k h) = WAIT_HANDLE_DONE)"
  by (auto simp: finished_def slots_def split: option.splits)

text \<open>No handle is completed while the thread waits for all of them.\<close>

lemma waiting_not_done:
  assumes ok: "context_ok r c s" and w: "waits_for_all r c s" and d: "d \<in> set (Dispatchers (contexts s c))"
    and h: "(h, e) \<in> set (slots (dispatchers s d))"
  shows "HState (handles (disp_kernel s) h) = WAIT_HANDLE_WAITING" "h \<in> set (wlists (disp_kernel s) (EventHandles e))"
    "Owner (handles (disp_kernel s) h) = Some r" "MaskWait (threads (disp_kernel s) r) AND Mask (handles (disp_kernel s) h) \<noteq> 0"
proof -
  let ?k = "disp_kernel s"
  have wf: "kernel_wf ?k" and sl: "slot_ok r ?k h e" using context_ok_slots[OF ok] d h by auto
  have nd: "HState (handles ?k h) \<noteq> WAIT_HANDLE_DETACHED" and sm: "sub_mask (Mask (handles ?k h)) (MaskWait (threads ?k r))"
    and st: "State (threads ?k r) = EXOS_THREAD_WAIT"
    using w d h by (auto simp: waits_for_all_def Let_def armed_def)
  have ow: "Owner (handles ?k h) = Some r" using sl nd by (auto simp: slot_ok_def)
  have "Mask (handles ?k h) \<noteq> 0" using wf nd by (auto simp: kernel_wf_def kernel_core_def handles_ok_def handle_ok_def)
  then have ne: "MaskWait (threads ?k r) AND Mask (handles ?k h) \<noteq> 0" using sub_mask_nonzero[OF sm] by simp
  have "HState (handles ?k h) \<noteq> WAIT_HANDLE_DONE"
  proof
    assume "HState (handles ?k h) = WAIT_HANDLE_DONE"
    then have "h \<in> set (wlists ?k (Pending r))" using wf ow by (simp add: kernel_wf_def kernel_core_def lists_ok_def)
    then show False using wf st ne by (auto simp: kernel_wf_def kernel_core_def wake_ok_def)
  qed
  then show "HState (handles ?k h) = WAIT_HANDLE_WAITING" "h \<in> set (wlists ?k (EventHandles e))"
    using sl nd by (auto simp: slot_ok_def)
  show "Owner (handles ?k h) = Some r" "MaskWait (threads ?k r) AND Mask (handles ?k h) \<noteq> 0" by fact+
qed

lemma find_before:
  "find P xs = Some y \<Longrightarrow> d \<in> set xs \<Longrightarrow> P d \<Longrightarrow> y \<in> set (takeWhile (\<lambda>z. z \<noteq> d) xs @ [d])"
  by (induction xs) (auto split: if_splits)

lemma finished_mono:
  assumes "slots_kept H k k'" "handles_of x \<subseteq> H" "finished k x \<noteq> None"
  shows "finished k' x \<noteq> None"
proof -
  obtain h e where h: "(h, e) \<in> set (slots x)" "HState (handles k h) = WAIT_HANDLE_DONE"
    using assms(3) unfolding finished_slots by blast
  have "h \<in> H" using assms(2) imageI[OF h(1), of fst] by auto
  then have "HState (handles k' h) = WAIT_HANDLE_DONE" using assms(1) h(2) unfolding slots_kept_def by fastforce
  then show ?thesis using h(1) unfolding finished_slots by blast
qed

text \<open>
  The rest of the call, when the dispatcher \<open>d\<close> has a completed handle: it serves \<open>d\<close>, or one that comes earlier in the list
  and has a completed handle too; with a time-out that handle may have completed while the local timer was removed.
\<close>

lemma resume_selects:
  assumes ok: "context_ok r c s" and tr: "timers_ready fuel (disp_kernel s)"
    and loc: "\<forall>d\<in>set (Dispatchers (contexts s c)). ch \<notin> handles_of (dispatchers s d) \<and> (timeout \<noteq> 0 \<longrightarrow> th \<notin> handles_of (dispatchers s d))"
    and d: "d \<in> set (Dispatchers (contexts s c))" "finished (disp_kernel s) (dispatchers s d) \<noteq> None"
  shows "\<exists>d' s'. exos_dispatch_resume fuel elapsed elapsed2 ch tm th c timeout s = Inr (Some d', s') \<and> context_ok r c s' \<and>
    Dispatchers (contexts s' c) = filter (\<lambda>y. y \<noteq> d') (Dispatchers (contexts s c)) \<and>
    DState (dispatchers s' d') \<in> {DISPATCHER_DONE, DISPATCHER_TIMEOUT} \<and> Context (dispatchers s' d') = None \<and>
    d' \<in> set (takeWhile (\<lambda>y. y \<noteq> d) (Dispatchers (contexts s c)) @ [d]) \<and>
    (timeout = 0 \<longrightarrow> find (\<lambda>y. finished (disp_kernel s) (dispatchers s y) \<noteq> None) (Dispatchers (contexts s c)) = Some d')"
proof -
  let ?k = "disp_kernel s" and ?ds = "Dispatchers (contexts s c)"
  let ?H = "\<Union>y\<in>set ?ds. handles_of (dispatchers s y)"
  have wf: "kernel_wf ?k" using context_ok_slots(3)[OF ok] .
  have sub: "handles_of (dispatchers s y) \<subseteq> ?H" if "y \<in> set ?ds" for y using that by blast
  obtain k1 where k1: "(if timeout \<noteq> 0 then rbind (exos_thread_dispose_wait_handle th ?k) (exos_timer_dispose fuel elapsed tm) else Inr ?k) = Inr k1"
    "slots_kept ?H ?k k1" "timers_ready fuel k1" "timeout = 0 \<longrightarrow> k1 = ?k"
  proof (cases "timeout = 0")
    case False
    obtain k0 where k0: "exos_thread_dispose_wait_handle th ?k = Inr k0" "kernel_wf k0" "others_kept {th} ?k k0"
      using dispose_slot[OF wf] by blast
    obtain k1 L where k1: "exos_timer_dispose fuel elapsed tm k0 = Inr k1" "resumed L k0 k1" "timers_ready fuel k1"
      using timer_dispose_resumed[OF k0(2) timers_ready_kept[OF k0(3) tr]] by blast
    have "?H \<inter> {th} = {}" using loc False by auto
    then have "slots_kept ?H ?k k0" by (rule slots_kept_others[OF k0(3,2)])
    then have "slots_kept ?H ?k k1" using slots_kept_trans slots_kept_resumed[OF k1(2) k0(2)] by blast
    then show ?thesis using that[of k1] k0(1) k1(1,3) False by simp
  qed (use that[of ?k] tr wf slots_kept_refl in simp)
  have wf1: "kernel_wf k1" using k1(2) by (simp add: slots_kept_def)
  obtain k2 where k2: "exos_thread_dispose_wait_handle ch k1 = Inr k2" "kernel_wf k2" "others_kept {ch} k1 k2"
    using dispose_slot[OF wf1] by blast
  have "?H \<inter> {ch} = {}" using loc by auto
  then have "slots_kept ?H k1 k2" by (rule slots_kept_others[OF k2(3,2)])
  then have kept: "slots_kept ?H ?k k2" using slots_kept_trans k1(2) by blast
  let ?P = "\<lambda>y. finished k2 (dispatchers s y) \<noteq> None"
  have Pd: "?P d" using finished_mono[OF kept sub[OF d(1)] d(2)] .
  then obtain d' where d': "find ?P ?ds = Some d'" using d(1) by (cases "find ?P ?ds") (auto simp: find_None_iff)
  have dd: "d' \<in> set ?ds" "?P d'" using d' by (auto simp: find_Some_iff)
  let ?s1 = "upd_dispatcher d' (\<lambda>x. x\<lparr>DState := the (finished k2 x)\<rparr>) (s\<lparr>disp_kernel := k2\<rparr>)"
  have "\<forall>y\<in>set ?ds. slots_ok r k2 (dispatchers s y)"
    using slots_kept_members(2)[OF kept sub] context_ok_slots(1)[OF ok] by blast
  then have ok1: "context_ok r c ?s1" using context_ok_kernel[OF ok k2(2)] unfolding context_ok_state by simp
  have "d' \<in> set (Dispatchers (contexts ?s1 c))" "timers_ready fuel (disp_kernel ?s1)"
    using dd(1) timers_ready_kept[OF k2(3) k1(3)] by (simp_all add: upd_dispatcher_def)
  from unlink_ok[OF ok1 this] obtain s' where s': "dispatcher_unlink fuel elapsed2 c d' ?s1 = Inr s'" "context_ok r c s'"
    "Dispatchers (contexts s' c) = filter (\<lambda>y. y \<noteq> d') (Dispatchers (contexts ?s1 c))"
    "dispatchers s' = (dispatchers ?s1)(d' := (dispatchers ?s1 d')\<lparr>Context := None\<rparr>)" by blast
  have "the (finished k2 (dispatchers s d')) \<in> {DISPATCHER_DONE, DISPATCHER_TIMEOUT}"
    using dd(2) by (auto simp: finished_def split: if_splits)
  moreover have "exos_dispatch_resume fuel elapsed elapsed2 ch tm th c timeout s = Inr (Some d', s')"
    using k1(1) k2(1) d' s'(1) unfolding exos_dispatch_resume_def k1(1) by (simp add: Let_def)
  moreover have "find (\<lambda>y. finished ?k (dispatchers s y) \<noteq> None) ?ds = Some d'" if "timeout = 0"
  proof -
    have "finished k2 (dispatchers s y) = finished ?k (dispatchers s y)" if "y \<in> set ?ds" for y
      using finished_kept[OF k2(3)] k1(4) \<open>timeout = 0\<close> loc that by (metis disjoint_insert(2) inf_bot_right)
    then show ?thesis using d' by (metis (mono_tags, lifting) find_cong)
  qed
  ultimately show ?thesis
    using s'(2,3,4) find_before[OF d' d(1) Pd] by (intro exI[of _ d'] exI[of _ s']) (simp add: upd_dispatcher_def)
qed

text \<open>\<^verbatim>\<open>exos_dispatch\<close> never panics on a well-formed context.  It serves the first dispatcher of the list that is
  due (its event is set, its time-out is over, or it waits for nothing), removes it from the list and records the
  reason; when none is due, the thread waits for all of them at once or finds one that was completed meanwhile.
\<close>

theorem dispatch_serves_first:
  assumes "dispatch_ready ch c s" and "timed_ready fuel elapsed ch tm th c timeout s" and "timers_ready fuel (disp_kernel s)"
  shows "\<exists>s'. exos_dispatch_begin fuel elapsed ch tm th c timeout s =
       Inr (find (\<lambda>d. due (disp_kernel s) (dispatchers s d) \<noteq> None) (Dispatchers (contexts s c)), s') \<and>
    context_ok (running (disp_kernel s)) c s' \<and>
    (case find (\<lambda>d. due (disp_kernel s) (dispatchers s d) \<noteq> None) (Dispatchers (contexts s c)) of
       Some d \<Rightarrow> Dispatchers (contexts s' c) = filter (\<lambda>y. y \<noteq> d) (Dispatchers (contexts s c)) \<and>
         DState (dispatchers s' d) = the (due (disp_kernel s) (dispatchers s d)) \<and> Context (dispatchers s' d) = None
     | None \<Rightarrow> Dispatchers (contexts s' c) = Dispatchers (contexts s c) \<and>
         (State (threads (disp_kernel s') (running (disp_kernel s))) = EXOS_THREAD_WAIT \<longrightarrow> waits_for_all (running (disp_kernel s)) c s'))"
proof -
  let ?sel = "find (\<lambda>d. due (disp_kernel s) (dispatchers s d) \<noteq> None) (Dispatchers (contexts s c))"
  from dispatch_begin_cases[OF assms] obtain s' where
    "exos_dispatch_begin fuel elapsed ch tm th c timeout s = Inr (?sel, s')" "context_ok (running (disp_kernel s)) c s'"
    "case ?sel of Some d \<Rightarrow> Dispatchers (contexts s' c) = filter (\<lambda>y. y \<noteq> d) (Dispatchers (contexts s c)) \<and>
         dispatchers s' = (dispatchers s)(d := (dispatchers s d)\<lparr>DState := the (due (disp_kernel s) (dispatchers s d)), Context := None\<rparr>)
     | None \<Rightarrow> contexts s' = contexts s \<and> dispatchers s' = dispatchers s \<and>
         (State (threads (disp_kernel s') (running (disp_kernel s))) = EXOS_THREAD_WAIT \<longrightarrow> waits_for_all (running (disp_kernel s)) c s')"
    by blast
  then show ?thesis by (intro exI[of _ s']) (cases ?sel; simp)
qed

text \<open>
  What may happen while thread \<open>r\<close> waits with the handles \<open>H\<close>: any code that does not touch the handles but to
  complete them.  In particular other events may be set or reset and timers may expire.
\<close>

definition undisturbed :: "hid set \<Rightarrow> tid \<Rightarrow> kernel \<Rightarrow> kernel \<Rightarrow> bool" where
  "undisturbed H r k k' \<longleftrightarrow> slots_kept H k k' \<and> MaskWait (threads k' r) = MaskWait (threads k r)"

lemma undisturbed_refl: "kernel_wf k \<Longrightarrow> undisturbed H r k k"
  by (simp add: undisturbed_def slots_kept_refl)

lemma undisturbed_resumed: "resumed L k k' \<Longrightarrow> kernel_wf k \<Longrightarrow> undisturbed H r k k'"
  using slots_kept_resumed same_threads_MaskWait by (auto simp: undisturbed_def resumed_def)

lemma undisturbed_waits:
  assumes "waits_for_all r c s" "undisturbed (\<Union>y\<in>set (Dispatchers (contexts s c)). handles_of (dispatchers s y)) r (disp_kernel s) k"
    "State (threads k r) = EXOS_THREAD_WAIT"
  shows "waits_for_all r c (s\<lparr>disp_kernel := k\<rparr>)"
proof -
  let ?H = "\<Union>y\<in>set (Dispatchers (contexts s c)). handles_of (dispatchers s y)"
  have kp: "slots_kept ?H (disp_kernel s) k" "MaskWait (threads k r) = MaskWait (threads (disp_kernel s) r)"
    using assms(2) by (simp_all add: undisturbed_def)
  have "armed k (MaskWait (threads k r)) (dispatchers s d)" if "d \<in> set (Dispatchers (contexts s c))" for d
  proof -
    have "handles_of (dispatchers s d) \<subseteq> ?H" using that by blast
    from slots_kept_members(1)[OF kp(1) this] show ?thesis using assms(1) kp(2) that by (simp add: waits_for_all_def Let_def)
  qed
  then show ?thesis using assms(3) by (simp add: waits_for_all_def)
qed

lemma undisturbed_context:
  assumes "context_ok r c s" "undisturbed (\<Union>y\<in>set (Dispatchers (contexts s c)). handles_of (dispatchers s y)) r (disp_kernel s) k"
  shows "context_ok r c (s\<lparr>disp_kernel := k\<rparr>)"
proof -
  let ?H = "\<Union>y\<in>set (Dispatchers (contexts s c)). handles_of (dispatchers s y)"
  have kp: "slots_kept ?H (disp_kernel s) k" "kernel_wf k" using assms(2) by (simp_all add: undisturbed_def slots_kept_def)
  have "slots_ok r k (dispatchers s d)" if "d \<in> set (Dispatchers (contexts s c))" for d
  proof -
    have "handles_of (dispatchers s d) \<subseteq> ?H" using that by blast
    from slots_kept_members(2)[OF kp(1) this] show ?thesis using context_ok_slots(1)[OF assms(1)] that by blast
  qed
  then show ?thesis using context_ok_kernel[OF assms(1) kp(2)] by blast
qed

text \<open>Setting an event while the thread waits completes the handles of exactly the dispatchers that wait for it.\<close>

lemma set_finishes:
  assumes ok: "context_ok r c s" and w: "waits_for_all r c s" and k: "resumed {EventHandles e} (disp_kernel s) k"
    and y: "y \<in> set (Dispatchers (contexts s c))"
  shows "finished k (dispatchers s y) \<noteq> None \<longleftrightarrow> e \<in> snd ` set (slots (dispatchers s y))"
proof -
  note wait = waiting_not_done[OF ok w y]
  have wf: "kernel_wf (disp_kernel s)" using context_ok_slots(3)[OF ok] .
  have hs: "handles k = done_handles (set (wlists (disp_kernel s) (EventHandles e))) (disp_kernel s)" using k by (simp add: resumed_def)
  have "HState (handles k h) = WAIT_HANDLE_DONE \<longleftrightarrow> e' = e" if "(h, e') \<in> set (slots (dispatchers s y))" for h e'
  proof -
    have "h \<in> set (wlists (disp_kernel s) (EventHandles e)) \<longleftrightarrow> e' = e"
      using wait(2)[OF that] wf by (auto simp: kernel_wf_def kernel_core_def lists_ok_def)
    then show ?thesis using wait(1)[OF that] by (simp add: hs done_handles_def)
  qed
  then show ?thesis unfolding finished_slots by force
qed

text \<open>C8: no wake-up is lost: while a thread waits in \<^verbatim>\<open>exos_dispatch\<close>, with or without a time-out, and whatever completed or
  not in the meantime, setting the event of a dispatcher of the context makes it ready; when it runs again, after other code
  perhaps completed more handles, the call serves the first dispatcher that waits for that event or one that comes
  earlier in the list, removes it from the list and records why.  It is that first one when the call has no time-out and
  nothing happened in between.
\<close>

theorem dispatch_wakes:
  fixes s :: dispatch and c :: cid
  defines "r \<equiv> running (disp_kernel s)" and "ds \<equiv> Dispatchers (contexts s c)"
  defines "H \<equiv> \<Union>y\<in>set ds. handles_of (dispatchers s y)"
  assumes "dispatch_ready ch c s" and "timed_ready fuel elapsed ch tm th c timeout s" and "timers_ready fuel (disp_kernel s)"
    and "exos_dispatch_begin fuel elapsed ch tm th c timeout s = Inr (None, s1)"
    and "State (threads (disp_kernel s1) r) = EXOS_THREAD_WAIT"
    and "undisturbed H r (disp_kernel s1) k1" and "State (threads k1 r) = EXOS_THREAD_WAIT"
    and "find (\<lambda>d. e \<in> snd ` set (slots (dispatchers s d))) ds = Some d"
  shows "\<exists>k. exos_event_set e k1 = Inr k \<and> r \<in> set (ready k) \<and>
    (\<forall>k2. undisturbed H r k k2 \<longrightarrow> timers_ready fuel k2 \<longrightarrow>
       (\<exists>d' s2. exos_dispatch_resume fuel elapsed2 elapsed3 ch tm th c timeout (s1\<lparr>disp_kernel := k2\<rparr>) = Inr (Some d', s2) \<and>
          d' \<in> set (takeWhile (\<lambda>y. y \<noteq> d) ds @ [d]) \<and> (timeout = 0 \<longrightarrow> k2 = k \<longrightarrow> d' = d) \<and>
          Dispatchers (contexts s2 c) = filter (\<lambda>y. y \<noteq> d') ds \<and> Context (dispatchers s2 d') = None \<and>
          DState (dispatchers s2 d') \<in> {DISPATCHER_DONE, DISPATCHER_TIMEOUT}))"
proof -
  have s1: "context_ok r c s1" "contexts s1 = contexts s" "dispatchers s1 = dispatchers s" "waits_for_all r c s1"
    using dispatch_begin_cases[OF assms(4-6)] assms(7,8) unfolding r_def by (auto split: option.splits)
  let ?s = "s1\<lparr>disp_kernel := k1\<rparr>"
  have H: "(\<Union>y\<in>set (Dispatchers (contexts s1 c)). handles_of (dispatchers s1 y)) = H" by (simp add: H_def ds_def s1)
  have k1: "context_ok r c ?s" "waits_for_all r c ?s"
    using undisturbed_context[OF s1(1)] undisturbed_waits[OF s1(4)] assms(9,10) unfolding H by blast+
  have wf1: "kernel_wf k1" using context_ok_slots(3)[OF k1(1)] by simp
  obtain k where k: "exos_event_set e k1 = Inr k" "resumed {EventHandles e} k1 k" using event_set_spec[OF wf1, of e] by blast
  have fin: "finished k (dispatchers s y) \<noteq> None \<longleftrightarrow> e \<in> snd ` set (slots (dispatchers s y))" if "y \<in> set ds" for y
    using set_finishes[OF k1, of e k y] k(2) that by (simp add: s1 ds_def)
  have d: "d \<in> set ds" "e \<in> snd ` set (slots (dispatchers s d))" using assms(11) by (auto simp: find_Some_iff)
  have fnd: "find (\<lambda>y. finished k (dispatchers s y) \<noteq> None) ds = Some d"
    using assms(11) fin by (metis (mono_tags, lifting) find_cong)
  obtain h where h: "(h, e) \<in> set (slots (dispatchers s d))" using d(2) by auto
  have "woken (EventHandles e) k1 k" using resumed_woken[OF k(2)] by simp
  then have "r \<in> set (ready k)" using waiting_not_done[OF k1, of d h e] d(1) h by (auto simp: woken_def s1 ds_def)
  moreover have "\<exists>d' s2. exos_dispatch_resume fuel elapsed2 elapsed3 ch tm th c timeout (s1\<lparr>disp_kernel := k2\<rparr>) = Inr (Some d', s2) \<and>
      d' \<in> set (takeWhile (\<lambda>y. y \<noteq> d) ds @ [d]) \<and> (timeout = 0 \<longrightarrow> k2 = k \<longrightarrow> d' = d) \<and>
      Dispatchers (contexts s2 c) = filter (\<lambda>y. y \<noteq> d') ds \<and> Context (dispatchers s2 d') = None \<and>
      DState (dispatchers s2 d') \<in> {DISPATCHER_DONE, DISPATCHER_TIMEOUT}"
    if k2: "undisturbed H r k k2" "timers_ready fuel k2" for k2
  proof -
    let ?s2 = "s1\<lparr>disp_kernel := k2\<rparr>"
    have "context_ok r c (?s\<lparr>disp_kernel := k\<rparr>)"
      using undisturbed_context[OF k1(1)] undisturbed_resumed[OF k(2) wf1] by simp
    then have ok2: "context_ok r c ?s2" using undisturbed_context[of r c "s1\<lparr>disp_kernel := k\<rparr>" k2] k2(1) H by simp
    have kp: "slots_kept H k k2" using k2(1) by (simp add: undisturbed_def)
    have "handles_of (dispatchers s d) \<subseteq> H" using d(1) by (auto simp: H_def)
    from finished_mono[OF kp this] have f2: "finished k2 (dispatchers s d) \<noteq> None" using fin[OF d(1)] d(2) by blast
    have loc: "\<forall>y\<in>set ds. ch \<notin> handles_of (dispatchers s y) \<and> (timeout \<noteq> 0 \<longrightarrow> th \<notin> handles_of (dispatchers s y))"
      using assms(4,5) by (simp add: dispatch_ready_def timed_ready_def Let_def ds_def)
    from resume_selects[OF ok2, of fuel ch timeout th d elapsed2 elapsed3 tm] show ?thesis
      using k2(2) loc d(1) f2 fnd by (auto simp: s1 ds_def)
  qed
  ultimately show ?thesis using k(1) by blast
qed

section \<open>A sample context\<close>

text \<open>Two dispatchers, for the events 0 and 1, the second with a time-out on timer 5.\<close>

definition sample_dispatch :: "eid set \<Rightarrow> dispatch" where
  "sample_dispatch S =
     \<lparr>dispatchers = (\<lambda>d. \<lparr>DState = DISPATCHER_WAITING, HasTimeout = (d = 1), Context = Some 0, DEvent = Some (Ev d),
        EventHandle = 20 + d, DTimer = 5, TimerHandle = 30, Callback = d, CallbackState = 0\<rparr>),
      contexts = (\<lambda>_. \<lparr>Lock = 9, Dispatchers = [0, 1], WakeEvent = Ev 9\<rparr>),
      disp_kernel = sample_kernel\<lparr>events := (\<lambda>e. \<lparr>EvState = (e \<in> S), AutoReset = False\<rparr>)\<rparr>\<rparr>"

lemma sample_dispatch_ready:
  assumes "Ev 9 \<notin> S"
  shows "dispatch_ready 8 0 (sample_dispatch S)" "timed_ready 3 0 8 6 9 0 1000 (sample_dispatch S)"
    "timers_ready 3 (disp_kernel (sample_dispatch S))"
proof -
  have "kernel_wf (disp_kernel (sample_dispatch S)) = kernel_wf sample_kernel" by (rule kernel_wf_cong) (simp_all add: sample_dispatch_def)
  then show "dispatch_ready 8 0 (sample_dispatch S)"
    using assms sample_kernel_wf
    by (simp add: dispatch_ready_def context_ok_def free_bits_def sample_dispatch_def sample_kernel_def sample_thread_def slots_def slot_ok_def)
  show "timed_ready 3 0 8 6 9 0 1000 (sample_dispatch S)"
    by (simp add: timed_ready_def free_bits_def sample_dispatch_def sample_kernel_def sample_thread_def slots_def)
  show "timers_ready 3 (disp_kernel (sample_dispatch S))"
    by (simp add: timers_ready_def timers_sorted_def one_shot_def sample_dispatch_def sample_kernel_def)
qed

lemma sample_dispatch_sel:
  "Dispatchers (contexts (sample_dispatch S) 0) = [0, 1]" "running (disp_kernel (sample_dispatch S)) = 1"
  "due (disp_kernel (sample_dispatch S)) (dispatchers (sample_dispatch S) 0) = (if Ev 0 \<in> S then Some DISPATCHER_DONE else None)"
  "Ev 1 \<in> S \<Longrightarrow> due (disp_kernel (sample_dispatch S)) (dispatchers (sample_dispatch S) 1) = Some DISPATCHER_DONE"
  by (simp_all add: sample_dispatch_def sample_kernel_def due_def)

theorem dispatch_serves_first_witness:
  "\<exists>s'. exos_dispatch_begin 3 0 8 6 9 0 1000 (sample_dispatch {Ev 1}) = Inr (Some 1, s') \<and>
     Dispatchers (contexts s' 0) = [0] \<and> DState (dispatchers s' 1) = DISPATCHER_DONE"
  using dispatch_serves_first[OF sample_dispatch_ready, of "{Ev 1}"] by (auto simp: sample_dispatch_sel sample_dispatch_sel(4)[unfolded One_nat_def])

definition sample_wait :: dispatch where
  "sample_wait = snd (projr (exos_dispatch_begin 3 0 8 6 9 0 1000 (sample_dispatch {})))"

lemmas dispatch_eval = exos_dispatch_begin_def poll_def poll_timer_def exos_event_add_handle_def exos_thread_add_wait_handle_def
  k_add_handle_def event_cond_def alloc_mask_def exos_thread_wait_def k_wait_def exos_thread_create_wait_handle_def kupd_defs pri_def
  exos_timer_create_def k_add_timer_def timer_enqueue_def exos_event_create_def upd_event_def upd_timer_def

lemma alloc_scan_numeral:
  "alloc_scan (numeral v) free msk =
     (if msk AND free \<noteq> 0 then Inr msk
      else let msk' = push_bit 1 msk in if msk' \<noteq> 0 then alloc_scan (pred_numeral v) free msk' else Inl Halt)"
  by (simp add: numeral_eq_Suc)

lemma sample_wait_state:
  "exos_dispatch_begin 3 0 8 6 9 0 1000 (sample_dispatch {}) = Inr (None, sample_wait)"
  "State (threads (disp_kernel sample_wait) 1) = EXOS_THREAD_WAIT" "timers_ready 3 (disp_kernel sample_wait)"
  by (simp_all add: sample_wait_def sample_dispatch_def sample_kernel_def sample_thread_def dispatch_eval Let_def alloc_scan_numeral
      timers_ready_def timers_sorted_def one_shot_def)

text \<open>A call with a time-out of 1000 ticks: event 1 is set while the thread waits, and its dispatcher or an earlier one is served.\<close>

theorem dispatch_wakes_witness:
  "\<exists>k d' s2. exos_event_set (Ev 1) (disp_kernel sample_wait) = Inr k \<and> 1 \<in> set (ready k) \<and>
     exos_dispatch_resume 3 0 0 8 6 9 0 1000 (sample_wait\<lparr>disp_kernel := k\<rparr>) = Inr (Some d', s2) \<and> d' \<in> {0, 1} \<and>
     Dispatchers (contexts s2 0) = filter (\<lambda>y. y \<noteq> d') [0, 1]"
proof -
  let ?s = "sample_dispatch {}" and ?k = "disp_kernel sample_wait"
  have f: "find (\<lambda>d. Ev 1 \<in> snd ` set (slots (dispatchers ?s d))) (Dispatchers (contexts ?s 0)) = Some 1"
    by (simp add: sample_dispatch_def slots_def)
  have rdy: "dispatch_ready 8 0 ?s" "timed_ready 3 0 8 6 9 0 1000 ?s" "timers_ready 3 (disp_kernel ?s)"
    using sample_dispatch_ready[of "{}"] by simp_all
  have st: "State (threads ?k (running (disp_kernel ?s))) = EXOS_THREAD_WAIT" using sample_wait_state(2) by (simp add: sample_dispatch_sel)
  have wf: "kernel_wf ?k"
    using dispatch_begin_cases[OF rdy] sample_wait_state(1) by (auto simp: context_ok_def Let_def)
  obtain k where k: "exos_event_set (Ev 1) ?k = Inr k" "resumed {EventHandles (Ev 1)} ?k k" "same_timers ?k k"
    "AutoReset (events k (Ev 1)) = AutoReset (events ?k (Ev 1))" "\<forall>e'. e' \<noteq> Ev 1 \<longrightarrow> events k e' = events ?k e'"
    using event_set_spec[OF wf, of "Ev 1"] by blast
  have tr: "timers_ready 3 k"
    using sample_wait_state(3) k(3,5) by (simp add: timers_ready_def timers_sorted_def one_shot_def same_timers_def)
  have "kernel_wf k" using k(2) by (simp add: resumed_def)
  from dispatch_wakes[OF rdy sample_wait_state(1) st undisturbed_refl[OF wf] st f, of 0 0] k(1) tr undisturbed_refl[OF this]
  obtain d' s2 where "1 \<in> set (ready k)" "exos_dispatch_resume 3 0 0 8 6 9 0 1000 (sample_wait\<lparr>disp_kernel := k\<rparr>) = Inr (Some d', s2)"
    "d' \<in> set (takeWhile (\<lambda>y. y \<noteq> 1) (Dispatchers (contexts ?s 0)) @ [1])"
    "Dispatchers (contexts s2 0) = filter (\<lambda>y. y \<noteq> d') (Dispatchers (contexts ?s 0))"
    unfolding sample_dispatch_sel(2) by (metis Inr_inject)
  then show ?thesis using k(1) unfolding sample_dispatch_sel(1) by (intro exI[of _ k] exI[of _ d'] exI[of _ s2]) simp
qed

end
