(* ===== verification/UsbConfig.thy ===== *)
theory UsbConfig
  imports Ram
begin

text \<open>
  The configurations of a USB device (\<^verbatim>\<open>exos/kernel/driver/usb/configuration.c\<close>): the registry of
  configurations, interfaces and strings, and the descriptors sent to the host.  Addresses are offsets from
  \<^verbatim>\<open>_desc_buffer\<close>; the bytes from \<^verbatim>\<open>USB_CONF_BUFFER_SIZE\<close> on belong to other variables.
  The functions of a driver are arguments that read the registry and write at the address they are given.
\<close>

unbundle bit_operations_syntax

section \<open>Descriptors\<close>

definition USB16TOH :: "nat \<Rightarrow> ram \<Rightarrow> u32" where
  "USB16TOH a m = push_bit 8 (ucast (m (a + 1))) OR ucast (m a)"

definition HTOUSB16 :: "u32 \<Rightarrow> u8 list" where
  "HTOUSB16 h = [ucast (h AND 0xFF), ucast (drop_bit 8 h)]"

definition USB_DESCRIPTOR_TYPE_ANY :: u8 where "USB_DESCRIPTOR_TYPE_ANY = 0"
definition USB_DESCRIPTOR_TYPE_DEVICE :: u8 where "USB_DESCRIPTOR_TYPE_DEVICE = 1"
definition USB_DESCRIPTOR_TYPE_CONFIGURATION :: u8 where "USB_DESCRIPTOR_TYPE_CONFIGURATION = 2"
definition USB_DESCRIPTOR_TYPE_STRING :: u8 where "USB_DESCRIPTOR_TYPE_STRING = 3"
definition USB_DESCRIPTOR_TYPE_INTERFACE :: u8 where "USB_DESCRIPTOR_TYPE_INTERFACE = 4"
definition USB_DESCRIPTOR_TYPE_ENDPOINT :: u8 where "USB_DESCRIPTOR_TYPE_ENDPOINT = 5"
definition USB_DESCRIPTOR_TYPE_DEVICE_QUALIFIER :: u8 where "USB_DESCRIPTOR_TYPE_DEVICE_QUALIFIER = 6"
definition USB_DESCRIPTOR_TYPE_INTERFACE_ASSOCIATION :: u8 where "USB_DESCRIPTOR_TYPE_INTERFACE_ASSOCIATION = 11"

lemmas usb_types = USB_DESCRIPTOR_TYPE_ANY_def USB_DESCRIPTOR_TYPE_DEVICE_def USB_DESCRIPTOR_TYPE_CONFIGURATION_def
  USB_DESCRIPTOR_TYPE_STRING_def USB_DESCRIPTOR_TYPE_INTERFACE_def USB_DESCRIPTOR_TYPE_ENDPOINT_def
  USB_DESCRIPTOR_TYPE_DEVICE_QUALIFIER_def USB_DESCRIPTOR_TYPE_INTERFACE_ASSOCIATION_def

definition USB_REQTYPE_CLASS :: u8 where "USB_REQTYPE_CLASS = 0x20"
definition USB_REQTYPE_VENDOR :: u8 where "USB_REQTYPE_VENDOR = 0x40"

abbreviation USB_CONF_BUFFER_SIZE :: u32 where "USB_CONF_BUFFER_SIZE \<equiv> 255"

section \<open>State\<close>

text \<open>
  Objects of the program: an interface is one of the application or the second interface that the context of a CDC-NCM
  device holds; a string node is one of this file, the name in an interface or the hardware address in such a context.
\<close>

type_synonym cfid = nat

datatype ifid = Iface nat | SecondaryDataInterface nat

datatype sid = ManufacturerNode | ProductNode | SerialNumberNode | IfName ifid | EthernetMac nat

datatype usb_if_status = USB_IFSTA_STOPPED | USB_IFSTA_STARTING | USB_IFSTA_STARTED | USB_IFSTA_STOPPING

record usb_device_string_t =
  StrIndex :: u8
  StrText :: "u8 list"          \<comment> \<open>the characters before the terminating zero\<close>

record usb_device_configuration_t =
  CfDriver :: "nat option"
  Interfaces :: "ifid list"
  CfValue :: u8
  CfIndex :: u8

record usb_device_interface_t =
  IfConfiguration :: "cfid option"
  IfDriver :: "nat option"
  DriverContext :: nat
  IfStatus :: usb_if_status
  IfIndex :: u8
  AlternateSettings :: u8

record usb_config =
  configs :: "cfid list"
  conf :: "cfid \<Rightarrow> usb_device_configuration_t"
  iface :: "ifid \<Rightarrow> usb_device_interface_t"
  strings :: "sid list"
  string_node :: "sid \<Rightarrow> usb_device_string_t"
  manufacturer_str :: u8
  product_str :: u8
  serialnumber_str :: u8
  desc_buffer :: ram

definition upd_conf :: "cfid \<Rightarrow> (usb_device_configuration_t \<Rightarrow> usb_device_configuration_t) \<Rightarrow> usb_config \<Rightarrow> usb_config" where
  "upd_conf c f s = s\<lparr>conf := (conf s)(c := f (conf s c))\<rparr>"

definition upd_iface :: "ifid \<Rightarrow> (usb_device_interface_t \<Rightarrow> usb_device_interface_t) \<Rightarrow> usb_config \<Rightarrow> usb_config" where
  "upd_iface i f s = s\<lparr>iface := (iface s)(i := f (iface s i))\<rparr>"

text \<open>
  A function that fills a descriptor gets the address and the room there, and returns the size it has written.
\<close>

type_synonym fill = "nat \<Rightarrow> u32 \<Rightarrow> ram \<Rightarrow> (u32 \<times> ram) res"

record usb_configuration_fill =
  FillConfigurationDescriptor :: "(u32 \<Rightarrow> fill) option"

record usb_interface_fill =
  Initialize :: "(ifid \<Rightarrow> nat \<Rightarrow> usb_config \<Rightarrow> (bool \<times> usb_config) res) option"
  FillInterfaceAssociationDescriptor :: "(usb_config \<Rightarrow> ifid \<Rightarrow> fill) option"
  FillInterfaceDescriptor :: "(usb_config \<Rightarrow> ifid \<Rightarrow> fill) option"
  FillClassDescriptor :: "(usb_config \<Rightarrow> ifid \<Rightarrow> fill) option"
  FillEndpointDescriptor :: "(usb_config \<Rightarrow> ifid \<Rightarrow> u32 \<Rightarrow> fill) option"

section \<open>Strings\<close>

definition usb_device_config_add_string :: "sid \<Rightarrow> u8 list \<Rightarrow> usb_config \<Rightarrow> u32 \<times> usb_config" where
  "usb_device_config_add_string str value s =
     (let count = of_nat (length (strings s)) + 1 in
      (count, s\<lparr>strings := strings s @ [str], string_node := (string_node s)(str := \<lparr>StrIndex = ucast count, StrText = value\<rparr>)\<rparr>))"

fun find_string :: "int \<Rightarrow> usb_device_string_t list \<Rightarrow> u8 list option" where
  "find_string index [] = None"
| "find_string index (x # xs) = (if uint (StrIndex x) = index then Some (StrText x) else find_string index xs)"

definition usb_device_config_get_string :: "int \<Rightarrow> usb_config \<Rightarrow> u8 list option" where
  "usb_device_config_get_string index s = find_string index (map (string_node s) (strings s))"

section \<open>Configurations and interfaces\<close>

fun conf_at :: "cfid list \<Rightarrow> u32 \<Rightarrow> cfid option" where
  "conf_at [] index = None"
| "conf_at (c # cs) index = (if index = 0 then Some c else conf_at cs (index - 1))"

definition usb_device_config_get :: "u32 \<Rightarrow> usb_config \<Rightarrow> cfid option" where
  "usb_device_config_get index s = conf_at (configs s) index"

definition usb_device_config_get_count :: "usb_config \<Rightarrow> u32" where
  "usb_device_config_get_count s = of_nat (length (configs s))"

text \<open>
  \<^verbatim>\<open>usb_device_config_initialize\<close>: \<open>man\<close>, \<open>pro\<close> and \<open>ser\<close> are the strings of the build options
  \<^verbatim>\<open>USB_USER_DEVICE_*\<close>, and \<open>add\<close> is the \<^verbatim>\<open>usb_device_add_configurations\<close> of the application.
\<close>

definition add_user_string :: "sid \<Rightarrow> u8 list option \<Rightarrow> u8 \<Rightarrow> usb_config \<Rightarrow> u8 \<times> usb_config" where
  "add_user_string str x old s =
     (case x of None \<Rightarrow> (old, s)
      | Some v \<Rightarrow> let (n, s1) = usb_device_config_add_string str v s in (ucast n, s1))"

definition usb_device_config_initialize ::
  "u8 list option \<Rightarrow> u8 list option \<Rightarrow> u8 list option \<Rightarrow> (usb_config \<Rightarrow> usb_config res) \<Rightarrow> usb_config \<Rightarrow> usb_config res" where
  "usb_device_config_initialize man pro ser add s =
     (let s0 = s\<lparr>configs := [], strings := []\<rparr>;
          (a, s1) = add_user_string ManufacturerNode man (manufacturer_str s0) s0; s1 = s1\<lparr>manufacturer_str := a\<rparr>;
          (b, s2) = add_user_string ProductNode pro (product_str s1) s1; s2 = s2\<lparr>product_str := b\<rparr>;
          (c, s3) = add_user_string SerialNumberNode ser (serialnumber_str s2) s2; s3 = s3\<lparr>serialnumber_str := c\<rparr>
      in rbind (add s3) (\<lambda>s4. ASSERT (usb_device_config_get 0 s4 \<noteq> None) KERNEL_ERROR_KERNEL_PANIC (Inr s4)))"

definition usb_device_config_create :: "cfid \<Rightarrow> u8 \<Rightarrow> nat option \<Rightarrow> usb_config \<Rightarrow> usb_config" where
  "usb_device_config_create c value driver s =
     upd_conf c (\<lambda>_. \<lparr>CfDriver = driver, Interfaces = [], CfValue = value, CfIndex = - 1\<rparr>) s"

definition usb_device_config_register :: "cfid \<Rightarrow> usb_config \<Rightarrow> usb_config res" where
  "usb_device_config_register c s =
     (if CfDriver (conf s c) = None then Inl (Panic KERNEL_ERROR_NULL_POINTER)
      else if c \<in> set (configs s) then Inl (Panic KERNEL_ERROR_LIST_ALREADY_CONTAINS_NODE)
      else Inr (upd_conf c (\<lambda>x. x\<lparr>CfIndex := of_nat (length (configs s))\<rparr>) (s\<lparr>configs := configs s @ [c]\<rparr>)))"

definition usb_device_interface_create :: "ifid \<Rightarrow> nat option \<Rightarrow> usb_config \<Rightarrow> usb_config" where
  "usb_device_interface_create i driver s =
     (upd_iface i (\<lambda>_. \<lparr>IfConfiguration = None, IfDriver = driver, DriverContext = 0,
       IfStatus = USB_IFSTA_STOPPED, IfIndex = - 1, AlternateSettings = 0\<rparr>) s)
       \<lparr>string_node := (string_node s)(IfName i := \<lparr>StrIndex = 0, StrText = []\<rparr>)\<rparr>"

definition usb_device_config_add_interface ::
  "(nat \<Rightarrow> usb_interface_fill) \<Rightarrow> cfid \<Rightarrow> ifid \<Rightarrow> nat \<Rightarrow> usb_config \<Rightarrow> usb_config res" where
  "usb_device_config_add_interface D c i instance_data s =
     (case IfDriver (iface s i) of
        None \<Rightarrow> Inl (Panic KERNEL_ERROR_NULL_POINTER)
      | Some d \<Rightarrow>
          if i \<in> set (Interfaces (conf s c)) then Inl (Panic KERNEL_ERROR_LIST_ALREADY_CONTAINS_NODE)
          else
            let s1 = upd_iface i (\<lambda>x. x\<lparr>IfIndex := of_nat (length (Interfaces (conf s c))), IfConfiguration := Some c\<rparr>)
                       (upd_conf c (\<lambda>x. x\<lparr>Interfaces := Interfaces x @ [i]\<rparr>) s)
            in case Initialize (D d) of
                 None \<Rightarrow> Inr s1
               | Some f \<Rightarrow> rbind (f i instance_data s1) (\<lambda>(done, s2).
                   if done then Inr s2 else Inl (Panic KERNEL_ERROR_NOT_ENOUGH_MEMORY)))"

section \<open>The configuration descriptor\<close>

text \<open>
  \<^verbatim>\<open>_fill_config\<close>, loop by loop, innermost first.  \<^verbatim>\<open>ptr\<close> is \<^verbatim>\<open>desc + total\<close> wherever
  the code uses it.  The loop over the endpoints reads the number of endpoints from the interface descriptor at
  \<open>if_desc\<close> in every round; it is a byte, so 256 rounds are enough.
\<close>

fun fill_endpoints :: "nat \<Rightarrow> (u32 \<Rightarrow> fill) \<Rightarrow> nat \<Rightarrow> u32 \<Rightarrow> u32 \<Rightarrow> ram \<Rightarrow> (u32 \<times> ram) res" where
  "fill_endpoints 0 f if_desc ep_index tot m = Inl OutOfFuel"
| "fill_endpoints (Suc fuel) f if_desc ep_index tot m =
     (if ep_index < ucast (m (if_desc + 4))
      then ASSERT (tot < USB_CONF_BUFFER_SIZE) KERNEL_ERROR_KERNEL_PANIC
        (rbind (f ep_index (unat tot) (USB_CONF_BUFFER_SIZE - tot) m) (\<lambda>(size, m1).
           if size = 0 then Inr (tot, m1)
           else fill_endpoints fuel f if_desc (ep_index + 1) (tot + size)
                  (store (unat tot) [ucast size, USB_DESCRIPTOR_TYPE_ENDPOINT] m1)))
      else Inr (tot, m))"

definition fill_class :: "fill option \<Rightarrow> u32 \<Rightarrow> ram \<Rightarrow> (u32 \<times> ram) res" where
  "fill_class f tot m =
     (case f of
        None \<Rightarrow> Inr (tot, m)
      | Some g \<Rightarrow> rbind (g (unat tot) (USB_CONF_BUFFER_SIZE - tot) m) (\<lambda>(size, m1).
          if size = 0 then Inr (tot, m1)
          else ASSERT (2 \<le> m1 (unat tot)) KERNEL_ERROR_KERNEL_PANIC
            (ASSERT (ucast (m1 (unat tot)) \<le> size) KERNEL_ERROR_KERNEL_PANIC (Inr (tot + size, m1)))))"

definition fill_setting :: "usb_interface_fill \<Rightarrow> usb_config \<Rightarrow> ifid \<Rightarrow> nat \<Rightarrow> u32 \<Rightarrow> ram \<Rightarrow> (u32 \<times> ram) res" where
  "fill_setting d s i alt_setting tot m =
     (let p = unat tot; m1 = store p [0, 0, IfIndex (iface s i), of_nat alt_setting, 0, 0, 0, 0, 0] m in
      rbind (the (FillInterfaceDescriptor d) s i p (USB_CONF_BUFFER_SIZE - tot) m1) (\<lambda>(size, m2).
        ASSERT (size \<noteq> 0 \<and> 9 \<le> size) KERNEL_ERROR_KERNEL_PANIC
          (ASSERT (tot + size \<le> USB_CONF_BUFFER_SIZE) KERNEL_ERROR_KERNEL_PANIC
            (rbind (fill_class (map_option (\<lambda>f. f s i) (FillClassDescriptor d)) (tot + size)
                     (store p [ucast size, USB_DESCRIPTOR_TYPE_INTERFACE] m2)) (\<lambda>(tot2, m3).
               fill_endpoints 256 (the (FillEndpointDescriptor d) s i) p 0 tot2 m3)))))"

fun fill_settings :: "nat list \<Rightarrow> usb_interface_fill \<Rightarrow> usb_config \<Rightarrow> ifid \<Rightarrow> u32 \<Rightarrow> ram \<Rightarrow> (u32 \<times> ram) res" where
  "fill_settings [] d s i tot m = Inr (tot, m)"
| "fill_settings (k # ks) d s i tot m =
     rbind (fill_setting d s i k tot m) (\<lambda>(tot1, m1). fill_settings ks d s i tot1 m1)"

definition fill_association :: "fill option \<Rightarrow> u32 \<Rightarrow> ram \<Rightarrow> (u32 \<times> ram) res" where
  "fill_association f tot m =
     (case f of
        None \<Rightarrow> Inr (tot, m)
      | Some g \<Rightarrow> rbind (g (unat tot) (USB_CONF_BUFFER_SIZE - tot) m) (\<lambda>(size, m1).
          if size = 0 then Inr (tot, m1)
          else ASSERT (tot + size \<le> USB_CONF_BUFFER_SIZE) KERNEL_ERROR_KERNEL_PANIC (Inr (tot + size, m1))))"

definition fill_interface :: "(nat \<Rightarrow> usb_interface_fill) \<Rightarrow> usb_config \<Rightarrow> ifid \<Rightarrow> u32 \<Rightarrow> ram \<Rightarrow> (u32 \<times> ram) res" where
  "fill_interface D s i tot m =
     (case IfDriver (iface s i) of
        None \<Rightarrow> Inl (Panic KERNEL_ERROR_NULL_POINTER)
      | Some n \<Rightarrow> let d = D n in
          ASSERT (FillInterfaceDescriptor d \<noteq> None \<and> FillEndpointDescriptor d \<noteq> None) KERNEL_ERROR_NULL_POINTER
            (rbind (fill_association (map_option (\<lambda>f. f s i) (FillInterfaceAssociationDescriptor d)) tot m) (\<lambda>(tot1, m1).
               fill_settings [0..<Suc (unat (AlternateSettings (iface s i)))] d s i tot1 m1)))"

fun fill_interfaces :: "(nat \<Rightarrow> usb_interface_fill) \<Rightarrow> usb_config \<Rightarrow> ifid list \<Rightarrow> u32 \<Rightarrow> ram \<Rightarrow> (u32 \<times> ram) res" where
  "fill_interfaces D s [] tot m = Inr (tot, m)"
| "fill_interfaces D s (i # is) tot m =
     rbind (fill_interface D s i tot m) (\<lambda>(tot1, m1). fill_interfaces D s is tot1 m1)"

text \<open>
  \<^verbatim>\<open>_fill_config\<close> returns the size of the first descriptor, the new value of \<^verbatim>\<open>*plength\<close> and the
  buffer.  The fields of the configuration descriptor are \<^verbatim>\<open>TotalLength\<close> (2, 3),
  \<^verbatim>\<open>NumInterfaces\<close> (4), \<^verbatim>\<open>ConfigurationValue\<close> (5), \<^verbatim>\<open>ConfigurationIndex\<close> (6),
  \<^verbatim>\<open>Attributes\<close> (7) and \<^verbatim>\<open>MaxPower\<close> (8).
\<close>

definition fill_config ::
  "(nat \<Rightarrow> usb_configuration_fill) \<Rightarrow> (nat \<Rightarrow> usb_interface_fill) \<Rightarrow> u8 \<Rightarrow> u32 \<Rightarrow> usb_config \<Rightarrow> (u32 \<times> u32 \<times> ram) res" where
  "fill_config CD D index plength s =
     (case usb_device_config_get (ucast index) s of
        None \<Rightarrow> Inr (0, plength, desc_buffer s)
      | Some c \<Rightarrow>
          (case Option.bind (CfDriver (conf s c)) (\<lambda>n. FillConfigurationDescriptor (CD n)) of
             None \<Rightarrow> Inl (Panic KERNEL_ERROR_NULL_POINTER)
           | Some f \<Rightarrow>
               rbind (f (ucast index) 0 USB_CONF_BUFFER_SIZE (store 5 [CfValue (conf s c), index] (desc_buffer s))) (\<lambda>(tot, m1).
                 ASSERT (9 \<le> tot) KERNEL_ERROR_KERNEL_PANIC
                   (let m2 = (if m1 8 \<noteq> 0 then m1(7 := m1 7 OR 0x80) else m1) in
                    ASSERT (tot \<le> USB_CONF_BUFFER_SIZE) KERNEL_ERROR_KERNEL_PANIC
                      (rbind (fill_interfaces D s (Interfaces (conf s c)) tot m2) (\<lambda>(tot1, m3).
                         Inr (9, tot1, store 2 (HTOUSB16 tot1 @ [of_nat (length (Interfaces (conf s c)))]) m3)))))))"

section \<open>String and device descriptors\<close>

text \<open>\<^verbatim>\<open>_fill_string\<close>: at most 255 characters, two bytes each, behind the header.\<close>

fun fill_chars :: "nat \<Rightarrow> u8 list \<Rightarrow> nat \<Rightarrow> ram \<Rightarrow> nat \<times> ram" where
  "fill_chars (Suc n) (c # cs) len m =
     (if c = 0 then (len, m) else fill_chars n cs (len + 1) (store (2 + 2 * len) (HTOUSB16 (ucast c)) m))"
| "fill_chars n cs len m = (len, m)"

definition fill_string :: "u8 \<Rightarrow> usb_config \<Rightarrow> u32 \<times> ram" where
  "fill_string index s =
     (let (len, m) =
        (if index = 0 then (1, store 2 (HTOUSB16 0x0409) (desc_buffer s))
         else case usb_device_config_get_string (uint index) s of
                None \<Rightarrow> (0, desc_buffer s)
              | Some str \<Rightarrow> fill_chars 255 str 0 (desc_buffer s))
      in (2 + of_nat (2 * len), m))"

text \<open>The build options of \<^verbatim>\<open>usb_device_fill_device_descriptor\<close>.\<close>

record usb_user_device =
  DEVICE_CLASS :: u8
  DEVICE_SUBCLASS :: u8
  DEVICE_PROTOCOL :: u8
  MAX_PACKET0 :: u8
  DEVICE_IDS :: "(u16 \<times> u16) option"
  DEVICE_VERSION :: u16

definition usb_device_fill_device_descriptor :: "usb_user_device \<Rightarrow> usb_config \<Rightarrow> u32 \<times> ram" where
  "usb_device_fill_device_descriptor u s =
     (let m1 = store 2 (HTOUSB16 0x0200 @ [DEVICE_CLASS u, DEVICE_SUBCLASS u, DEVICE_PROTOCOL u, MAX_PACKET0 u]) (desc_buffer s);
          m2 = (case DEVICE_IDS u of None \<Rightarrow> m1 | Some (v, p) \<Rightarrow> store 8 (HTOUSB16 (ucast v) @ HTOUSB16 (ucast p)) m1)
      in (18, store 12 (HTOUSB16 (ucast (DEVICE_VERSION u)) @
            [manufacturer_str s, product_str s, serialnumber_str s, ucast (usb_device_config_get_count s)]) m2))"

text \<open>The functions an application may replace: by default a debug build panics.\<close>

definition usb_device_fill_class_descriptor :: "u16 \<Rightarrow> u16 \<Rightarrow> u32 \<Rightarrow> ram \<Rightarrow> (u32 \<times> ram) res" where
  "usb_device_fill_class_descriptor req_value req_index max_length m = Inl (Panic KERNEL_ERROR_NOT_IMPLEMENTED)"

definition usb_device_fill_vendor_descriptor :: "u16 \<Rightarrow> u16 \<Rightarrow> u32 \<Rightarrow> ram \<Rightarrow> (u32 \<times> ram) res" where
  "usb_device_fill_vendor_descriptor req_value req_index max_length m = Inl (Panic KERNEL_ERROR_NOT_IMPLEMENTED)"

section \<open>Requests for descriptors\<close>

text \<open>
  \<^verbatim>\<open>usb_device_config_get_descriptor\<close>: whether it returns the buffer (and not NULL), the new value of
  \<^verbatim>\<open>*plength\<close>, and the state.
\<close>

definition usb_device_config_get_descriptor ::
  "usb_user_device \<Rightarrow> (nat \<Rightarrow> usb_configuration_fill) \<Rightarrow> (nat \<Rightarrow> usb_interface_fill) \<Rightarrow> u16 \<Rightarrow> u16 \<Rightarrow> u32 \<Rightarrow> usb_config
    \<Rightarrow> (bool \<times> u32 \<times> usb_config) res" where
  "usb_device_config_get_descriptor u CD D req_value req_index plength s =
     (let desc_type = ucast (drop_bit 8 req_value) :: u8; desc_index = ucast (req_value AND 0xFF) :: u8 in
      rbind (if desc_type = USB_DESCRIPTOR_TYPE_DEVICE
             then let (len, m) = usb_device_fill_device_descriptor u s in Inr (len, len, m)
             else if desc_type = USB_DESCRIPTOR_TYPE_CONFIGURATION
             then fill_config CD D desc_index plength s
             else if desc_type = USB_DESCRIPTOR_TYPE_STRING
             then let (len, m) = fill_string desc_index s in Inr (len, len, m)
             else if desc_type = USB_DESCRIPTOR_TYPE_DEVICE_QUALIFIER
             then Inr (0, plength, desc_buffer s)
             else if desc_type AND 0x3f = USB_REQTYPE_CLASS
             then rbind (usb_device_fill_class_descriptor req_value req_index plength (desc_buffer s)) (\<lambda>(len, m). Inr (len, len, m))
             else if desc_type AND 0x3f = USB_REQTYPE_VENDOR
             then rbind (usb_device_fill_vendor_descriptor req_value req_index plength (desc_buffer s)) (\<lambda>(len, m). Inr (len, len, m))
             else Inr (0, plength, desc_buffer s))
        (\<lambda>(len, plength1, m).
           if len \<noteq> 0 then Inr (True, plength1, s\<lparr>desc_buffer := store 0 [ucast len, desc_type] m\<rparr>)
           else Inr (False, plength1, s\<lparr>desc_buffer := m\<rparr>)))"

end
