(* ===== verification/UsbParse.thy ===== *)
theory UsbParse
  imports UsbConfig
begin

text \<open>
  Walking the descriptors of a configuration (\<^verbatim>\<open>exos/kernel/driver/usb/usb.c\<close> and the searches of
  \<^verbatim>\<open>enumerate.c\<close>).  Pointers are addresses of a byte memory.  The loops follow the length bytes; they
  carry fuel because a length of zero keeps them in place for ever.
\<close>

unbundle bit_operations_syntax

section \<open>Operations\<close>

definition next_descriptor :: "ram \<Rightarrow> nat \<Rightarrow> nat" where
  "next_descriptor m desc = desc + unat (m desc)"

definition conf_end :: "ram \<Rightarrow> nat \<Rightarrow> nat" where
  "conf_end m conf_desc = conf_desc + unat (USB16TOH (conf_desc + 2) m)"

text \<open>\<^verbatim>\<open>usb_parse_conf\<close>: the descriptor found (returning 1) or \<open>None\<close> (returning 0).\<close>

fun parse_loop :: "nat \<Rightarrow> ram \<Rightarrow> nat \<Rightarrow> u8 \<Rightarrow> nat \<Rightarrow> nat option res" where
  "parse_loop 0 m conf_desc desc_type desc = Inl OutOfFuel"
| "parse_loop (Suc fuel) m conf_desc desc_type desc =
     (let desc1 = next_descriptor m desc in
      if conf_end m conf_desc \<le> desc1 then Inr None
      else if m (desc1 + 1) = desc_type \<or> desc_type = USB_DESCRIPTOR_TYPE_ANY then Inr (Some desc1)
      else parse_loop fuel m conf_desc desc_type desc1)"

definition usb_parse_conf :: "nat \<Rightarrow> ram \<Rightarrow> nat \<Rightarrow> u8 \<Rightarrow> nat option \<Rightarrow> nat option res" where
  "usb_parse_conf fuel m conf_desc desc_type current =
     (case current of None \<Rightarrow> Inr None | Some desc \<Rightarrow> parse_loop fuel m conf_desc desc_type desc)"

text \<open>\<^verbatim>\<open>usb_desc2str\<close>: the bytes written to \<^verbatim>\<open>dest\<close>; their number is the result.\<close>

fun desc2str_loop :: "nat \<Rightarrow> ram \<Rightarrow> nat \<Rightarrow> nat \<Rightarrow> nat \<Rightarrow> u8 list" where
  "desc2str_loop 0 m data off len = []"
| "desc2str_loop (Suc room) m data off len =
     (if off < len then m (data + off) # desc2str_loop room m data (off + 2) len else [])"

definition usb_desc2str :: "ram \<Rightarrow> nat \<Rightarrow> nat \<Rightarrow> u8 list" where
  "usb_desc2str m str_desc max_length =
     (if m (str_desc + 1) = USB_DESCRIPTOR_TYPE_STRING
      then let cs = desc2str_loop max_length m str_desc 2 (unat (m str_desc))
           in if length cs < max_length then cs @ [0] else cs
      else [])"

datatype usb_transfer_type = USB_TT_CONTROL | USB_TT_ISO | USB_TT_BULK | USB_TT_INTERRUPT

datatype usb_direction = USB_HOST_TO_DEVICE | USB_DEVICE_TO_HOST

text \<open>The bit fields of an endpoint descriptor: \<^verbatim>\<open>Address\<close> at 2, \<^verbatim>\<open>Attributes\<close> at 3.\<close>

definition TransferType :: "u8 \<Rightarrow> usb_transfer_type" where
  "TransferType attributes =
     (let t = attributes AND 3 in
      if t = 0 then USB_TT_CONTROL else if t = 1 then USB_TT_ISO else if t = 2 then USB_TT_BULK else USB_TT_INTERRUPT)"

definition Input :: "u8 \<Rightarrow> usb_direction" where
  "Input address = (if bit address 7 then USB_DEVICE_TO_HOST else USB_HOST_TO_DEVICE)"

definition EndpointNumber :: "u8 \<Rightarrow> u8" where
  "EndpointNumber address = address AND 0xF"

fun find_endpoint_loop :: "nat \<Rightarrow> ram \<Rightarrow> nat \<Rightarrow> nat \<Rightarrow> usb_transfer_type \<Rightarrow> usb_direction \<Rightarrow> int \<Rightarrow> nat option res" where
  "find_endpoint_loop 0 m buffer fin ep_type ep_dir index = Inl OutOfFuel"
| "find_endpoint_loop (Suc fuel) m buffer fin ep_type ep_dir index =
     (if buffer < fin
      then if m (buffer + 1) = USB_DESCRIPTOR_TYPE_INTERFACE then Inr None
        else if m (buffer + 1) = USB_DESCRIPTOR_TYPE_ENDPOINT \<and>
                TransferType (m (buffer + 3)) = ep_type \<and> Input (m (buffer + 2)) = ep_dir
        then if index \<noteq> 0 then find_endpoint_loop fuel m (next_descriptor m buffer) fin ep_type ep_dir (index - 1)
             else Inr (Some buffer)
        else find_endpoint_loop fuel m (next_descriptor m buffer) fin ep_type ep_dir index
      else Inr None)"

definition usb_enumerate_find_endpoint_descriptor ::
  "nat \<Rightarrow> ram \<Rightarrow> nat \<Rightarrow> nat \<Rightarrow> usb_transfer_type \<Rightarrow> usb_direction \<Rightarrow> int \<Rightarrow> nat option res" where
  "usb_enumerate_find_endpoint_descriptor fuel m conf_desc if_desc ep_type ep_dir index =
     (let buffer = next_descriptor m if_desc in
      if conf_desc < buffer then find_endpoint_loop fuel m buffer (conf_end m conf_desc) ep_type ep_dir index else Inr None)"

fun find_class_loop :: "nat \<Rightarrow> ram \<Rightarrow> nat \<Rightarrow> nat \<Rightarrow> u8 \<Rightarrow> u8 \<Rightarrow> nat option res" where
  "find_class_loop 0 m buffer fin descriptor_type index = Inl OutOfFuel"
| "find_class_loop (Suc fuel) m buffer fin descriptor_type index =
     (if buffer < fin
      then if m (buffer + 1) = USB_DESCRIPTOR_TYPE_INTERFACE then Inr None
        else if m (buffer + 1) = descriptor_type
        then if index \<noteq> 0 then find_class_loop fuel m (next_descriptor m buffer) fin descriptor_type (index - 1)
             else Inr (Some buffer)
        else find_class_loop fuel m (next_descriptor m buffer) fin descriptor_type index
      else Inr None)"

definition usb_enumerate_find_class_descriptor :: "nat \<Rightarrow> ram \<Rightarrow> nat \<Rightarrow> nat \<Rightarrow> u8 \<Rightarrow> u8 \<Rightarrow> nat option res" where
  "usb_enumerate_find_class_descriptor fuel m conf_desc if_desc descriptor_type index =
     (let buffer = next_descriptor m if_desc in
      if conf_desc < buffer then find_class_loop fuel m buffer (conf_end m conf_desc) descriptor_type index else Inr None)"

section \<open>Chains of descriptors\<close>

definition desc_ok :: "u8 list \<Rightarrow> bool" where
  "desc_ok b \<longleftrightarrow> 2 \<le> length b \<and> length b < 256 \<and> b ! 0 = of_nat (length b)"

text \<open>The memory holds the descriptors \<open>ds\<close> from address \<open>a\<close> on.\<close>

definition chain :: "ram \<Rightarrow> nat \<Rightarrow> u8 list list \<Rightarrow> bool" where
  "chain m a ds \<longleftrightarrow> load a (length (concat ds)) m = concat ds \<and> (\<forall>b\<in>set ds. desc_ok b)"

definition desc_at :: "nat \<Rightarrow> u8 list list \<Rightarrow> nat \<Rightarrow> nat" where
  "desc_at a ds j = a + length (concat (take j ds))"

lemma desc_at_0 [simp]: "desc_at a ds 0 = a"
  by (simp add: desc_at_def)

lemma desc_at_all: "length ds \<le> j \<Longrightarrow> desc_at a ds j = a + length (concat ds)"
  by (simp add: desc_at_def)

lemma desc_at_Suc: "j < length ds \<Longrightarrow> desc_at a ds (Suc j) = desc_at a ds j + length (ds ! j)"
  by (simp add: desc_at_def take_Suc_conv_app_nth)

lemma chain_byte:
  assumes "chain m a ds" and "j < length ds" and "i < length (ds ! j)"
  shows "m (desc_at a ds j + i) = ds ! j ! i"
proof -
  have split: "concat ds = concat (take j ds) @ ds ! j @ concat (drop (Suc j) ds)"
    using assms(2) by (metis concat.simps(2) concat_append id_take_nth_drop)
  then have "m (a + (length (concat (take j ds)) + i)) = concat ds ! (length (concat (take j ds)) + i)"
    using assms unfolding chain_def by (intro store_load) simp_all
  also have "\<dots> = ds ! j ! i" using assms(3) by (subst split) (simp add: nth_append)
  finally show ?thesis by (simp add: desc_at_def add.assoc)
qed

lemma chain_head:
  assumes "chain m a ds" and "j < length ds"
  shows "unat (m (desc_at a ds j)) = length (ds ! j)" "m (desc_at a ds j + 1) = ds ! j ! 1"
    "next_descriptor m (desc_at a ds j) = desc_at a ds (Suc j)" "desc_ok (ds ! j)"
proof -
  show ok: "desc_ok (ds ! j)" using assms by (simp add: chain_def)
  then have len: "unat (of_nat (length (ds ! j)) :: u8) = length (ds ! j)"
    by (simp add: desc_ok_def unsigned_of_nat take_bit_nat_eq_self)
  show l: "unat (m (desc_at a ds j)) = length (ds ! j)"
    using chain_byte [OF assms, of 0] ok len by (cases "ds ! j") (simp_all add: desc_ok_def)
  show "m (desc_at a ds j + 1) = ds ! j ! 1" using chain_byte [OF assms, of 1] ok by (simp add: desc_ok_def)
  show "next_descriptor m (desc_at a ds j) = desc_at a ds (Suc j)"
    using assms(2) by (simp add: next_descriptor_def l desc_at_Suc)
qed

lemma desc_at_less: "chain m a ds \<Longrightarrow> desc_at a ds j < a + length (concat ds) \<longleftrightarrow> j < length ds"
proof
  assume c: "chain m a ds" and j: "j < length ds"
  have "concat ds = concat (take j ds) @ ds ! j @ concat (drop (Suc j) ds)"
    using j by (metis concat.simps(2) concat_append id_take_nth_drop)
  then have "length (concat ds) = length (concat (take j ds)) + length (ds ! j) + length (concat (drop (Suc j) ds))"
    by (metis length_append add.assoc)
  then show "desc_at a ds j < a + length (concat ds)" using chain_head(4) [OF c j] unfolding desc_at_def desc_ok_def by linarith
qed (use desc_at_all in \<open>fastforce simp: not_le\<close>)

section \<open>The walks\<close>

lemma parse_loop_finds:
  assumes "chain m a ds" and "conf_end m a = a + length (concat ds)" and "j < length ds" and "length ds \<le> j + fuel"
  shows "parse_loop fuel m a ty (desc_at a ds j) =
    Inr (map_option (desc_at a ds) (find (\<lambda>n. ds ! n ! 1 = ty \<or> ty = USB_DESCRIPTOR_TYPE_ANY) [Suc j..<length ds]))"
  using assms(3,4)
proof (induction fuel arbitrary: j)
  case (Suc fuel)
  note head = chain_head [OF assms(1)]
  show ?case
  proof (cases "Suc j < length ds")
    case True
    then show ?thesis
      using Suc head desc_at_less [OF assms(1), of "Suc j"] assms(2)
      by (simp add: upt_conv_Cons [of "Suc j"] not_le [symmetric] Let_def)
  next
    case False
    then show ?thesis
      using Suc.prems head(3) desc_at_less [OF assms(1), of "Suc j"] assms(2) by (simp add: not_less Let_def)
  qed
qed simp

text \<open>
  The searches look at the descriptors from \<open>j\<close> up to the next interface, skipping \<open>index\<close> matches.
\<close>

definition before_interface :: "u8 list list \<Rightarrow> nat \<Rightarrow> nat list" where
  "before_interface ds j = takeWhile (\<lambda>n. ds ! n ! 1 \<noteq> USB_DESCRIPTOR_TYPE_INTERFACE) [j..<length ds]"

definition nth_match :: "(u8 list \<Rightarrow> bool) \<Rightarrow> u8 list list \<Rightarrow> nat \<Rightarrow> nat \<Rightarrow> nat option" where
  "nth_match P ds j index =
     (let ns = filter (\<lambda>n. P (ds ! n)) (before_interface ds j) in if index < length ns then Some (ns ! index) else None)"

definition is_endpoint :: "usb_transfer_type \<Rightarrow> usb_direction \<Rightarrow> u8 list \<Rightarrow> bool" where
  "is_endpoint ep_type ep_dir b \<longleftrightarrow>
     b ! 1 = USB_DESCRIPTOR_TYPE_ENDPOINT \<and> TransferType (b ! 3) = ep_type \<and> Input (b ! 2) = ep_dir"

lemma nth_match_end: "length ds \<le> j \<Longrightarrow> nth_match P ds j index = None"
  by (simp add: nth_match_def before_interface_def)

lemma nth_match_step:
  assumes "j < length ds"
  shows "nth_match P ds j index =
    (if ds ! j ! 1 = USB_DESCRIPTOR_TYPE_INTERFACE then None
     else if P (ds ! j) then if index = 0 then Some j else nth_match P ds (Suc j) (index - 1)
     else nth_match P ds (Suc j) index)"
  using assms by (cases index) (simp_all add: nth_match_def before_interface_def upt_conv_Cons Let_def)

lemma find_endpoint_loop_finds:
  assumes "chain m a ds" and "\<forall>b\<in>set ds. b ! 1 = USB_DESCRIPTOR_TYPE_ENDPOINT \<longrightarrow> 4 \<le> length b"
    and "j \<le> length ds" and "length ds < j + fuel"
  shows "find_endpoint_loop fuel m (desc_at a ds j) (a + length (concat ds)) ep_type ep_dir (int index) =
    Inr (map_option (desc_at a ds) (nth_match (is_endpoint ep_type ep_dir) ds j index))"
  using assms(3,4)
proof (induction fuel arbitrary: j index)
  case (Suc fuel)
  note head = chain_head [OF assms(1)]
  show ?case
  proof (cases "j < length ds")
    case True
    have "4 \<le> length (ds ! j)" if "ds ! j ! 1 = USB_DESCRIPTOR_TYPE_ENDPOINT" using assms(2) True that nth_mem by blast
    then have ep: "m (desc_at a ds j + 1) = USB_DESCRIPTOR_TYPE_ENDPOINT \<and> TransferType (m (desc_at a ds j + 3)) = ep_type \<and>
        Input (m (desc_at a ds j + 2)) = ep_dir \<longleftrightarrow> is_endpoint ep_type ep_dir (ds ! j)"
      using head(2) [OF True] chain_byte [OF assms(1) True, of 2] chain_byte [OF assms(1) True, of 3]
      by (auto simp: is_endpoint_def)
    have i: "int index - 1 = int (index - 1)" if "index \<noteq> 0" using that by simp
    show ?thesis
      using True Suc.prems Suc.IH [of "Suc j" index] Suc.IH [of "Suc j" "index - 1"] head(2,3) [OF True] ep
        desc_at_less [OF assms(1), of j]
      by (simp add: nth_match_step [OF True] i del: of_nat_diff)
  next
    case False
    then show ?thesis using desc_at_less [OF assms(1), of j] by (simp add: nth_match_end)
  qed
qed simp

lemma find_class_loop_finds:
  assumes "chain m a ds" and "j \<le> length ds" and "length ds < j + fuel" and "index < 256"
  shows "find_class_loop fuel m (desc_at a ds j) (a + length (concat ds)) ty (of_nat index) =
    Inr (map_option (desc_at a ds) (nth_match (\<lambda>b. b ! 1 = ty) ds j index))"
  using assms(2-)
proof (induction fuel arbitrary: j index)
  case (Suc fuel)
  have z: "of_nat index = (0 :: u8) \<longleftrightarrow> index = 0"
    using Suc.prems(3) by (simp add: word_unat_eq_iff unsigned_of_nat take_bit_nat_eq_self)
  have i: "of_nat index - 1 = (of_nat (index - 1) :: u8)" if "index \<noteq> 0" using that by simp
  show ?case
  proof (cases "j < length ds")
    case True
    then show ?thesis
      using Suc.prems Suc.IH [of "Suc j" index] Suc.IH [of "Suc j" "index - 1"] chain_head(2,3) [OF assms(1) True]
        desc_at_less [OF assms(1), of j]
      by (simp add: nth_match_step [OF True] z i del: of_nat_diff)
  next
    case False
    then show ?thesis using desc_at_less [OF assms(1), of j] by (simp add: nth_match_end)
  qed
qed simp

end
