(* ===== verification/UsbDescriptors.thy ===== *)
theory UsbDescriptors
  imports UsbParse
begin

text \<open>
  What the configuration descriptor is: the sequence of the descriptors of the configuration and of its interfaces.  The
  locale \<open>interface_driver\<close> is the contract of an interface driver, from which
  \<^verbatim>\<open>_fill_config\<close> is shown to write exactly that sequence.
\<close>

unbundle bit_operations_syntax

section \<open>Specification\<close>

text \<open>
  The descriptors of an interface: the association descriptors in front of it; for every alternate setting the interface
  descriptor from the number of endpoints on; the class descriptors that follow it, and the endpoint descriptors without
  their headers.
\<close>

record interface_spec =
  Association :: "u8 list list"
  Setting :: "nat \<Rightarrow> u8 list"
  Class :: "u8 list list"
  Endpoint :: "nat \<Rightarrow> u8 list"

definition endpoint_desc :: "interface_spec \<Rightarrow> nat \<Rightarrow> u8 list" where
  "endpoint_desc sp e = [of_nat (2 + length (Endpoint sp e)), USB_DESCRIPTOR_TYPE_ENDPOINT] @ Endpoint sp e"

definition interface_desc :: "usb_device_interface_t \<Rightarrow> interface_spec \<Rightarrow> nat \<Rightarrow> u8 list" where
  "interface_desc x sp k =
     [of_nat (4 + length (Setting sp k)), USB_DESCRIPTOR_TYPE_INTERFACE, IfIndex x, of_nat k] @ Setting sp k"

definition num_endpoints :: "interface_spec \<Rightarrow> nat \<Rightarrow> nat" where
  "num_endpoints sp k = unat (Setting sp k ! 0)"

definition setting_descs :: "usb_device_interface_t \<Rightarrow> interface_spec \<Rightarrow> nat \<Rightarrow> u8 list list" where
  "setting_descs x sp k = interface_desc x sp k # Class sp @ map (endpoint_desc sp) [0..<num_endpoints sp k]"

definition interface_descs :: "usb_device_interface_t \<Rightarrow> interface_spec \<Rightarrow> u8 list list" where
  "interface_descs x sp = Association sp @ concat (map (setting_descs x sp) [0..<Suc (unat (AlternateSettings x))])"

text \<open>A filling function writes the bytes \<open>bs\<close> when they fit.\<close>

definition fills :: "fill \<Rightarrow> u8 list \<Rightarrow> bool" where
  "fills f bs \<longleftrightarrow> (\<forall>a n m. length bs \<le> unat n \<longrightarrow> f a n m = Inr (of_nat (length bs), store a bs m))"

section \<open>The contract of an interface driver\<close>

locale interface_driver =
  fixes d :: usb_interface_fill and s :: usb_config and i :: ifid and sp :: interface_spec
  assumes association: "case FillInterfaceAssociationDescriptor d of
      None \<Rightarrow> Association sp = [] | Some f \<Rightarrow> fills (f s i) (concat (Association sp))"
    and interface: "\<exists>f. FillInterfaceDescriptor d = Some f \<and>
      (\<forall>k a n m. k \<le> unat (AlternateSettings (iface s i)) \<longrightarrow> m (a + 3) = of_nat k \<longrightarrow> 4 + length (Setting sp k) \<le> unat n \<longrightarrow>
         (\<exists>h. length h = 2 \<and>
            f s i a n m = Inr (of_nat (4 + length (Setting sp k)), store a (h @ [m (a + 2), m (a + 3)] @ Setting sp k) m)))"
    and classes: "case FillClassDescriptor d of None \<Rightarrow> Class sp = [] | Some f \<Rightarrow> fills (f s i) (concat (Class sp))"
    and endpoints: "\<exists>f. FillEndpointDescriptor d = Some f \<and>
      (\<forall>k e a n m. k \<le> unat (AlternateSettings (iface s i)) \<longrightarrow> e < num_endpoints sp k \<longrightarrow> 2 + length (Endpoint sp e) \<le> unat n \<longrightarrow>
         (\<exists>h. length h = 2 \<and> f s i (of_nat e) a n m = Inr (of_nat (2 + length (Endpoint sp e)), store a (h @ Endpoint sp e) m)))"
    and setting_size: "k \<le> unat (AlternateSettings (iface s i)) \<Longrightarrow> 5 \<le> length (Setting sp k)"
    and descs_ok: "b \<in> set (Association sp @ Class sp) \<Longrightarrow> desc_ok b"

section \<open>Sizes\<close>

lemma unat_small [simp]: "t \<le> 255 \<Longrightarrow> unat (of_nat t :: u32) = t"
  by (simp add: unsigned_of_nat take_bit_nat_eq_self)

lemma unat_room [simp]: "t \<le> 255 \<Longrightarrow> unat (255 - of_nat t :: u32) = 255 - t"
  by (subst unat_sub) (simp_all add: word_le_nat_alt)

lemma small_le: "t \<le> 255 \<Longrightarrow> of_nat t \<le> (255 :: u32)"
  by (simp add: word_le_nat_alt)

lemma small_less: "t < 255 \<Longrightarrow> of_nat t < (255 :: u32)"
  by (simp add: word_less_nat_alt)

lemma small_0: "t \<le> 255 \<Longrightarrow> of_nat t = (0 :: u32) \<longleftrightarrow> t = 0"
  by (rule of_nat_u32_eq_0) simp

lemma ucast_small: "t \<le> 255 \<Longrightarrow> ucast (of_nat t :: u32) = (of_nat t :: u8)"
  by (simp add: unsigned_of_nat take_bit_nat_eq_self)

lemma ucast_of_nat8: "t < 2 ^ 32 \<Longrightarrow> ucast (of_nat t :: u32) = (of_nat t :: u8)"
  by (simp add: unsigned_of_nat take_bit_nat_eq_self)

lemma unat_ucast8 [simp]: "unat (ucast b :: u32) = unat b" for b :: u8
  using unsigned_less [of b, where ?'a = nat] by (simp add: unsigned_ucast_eq take_bit_nat_eq_self)

lemma fills_eq: "fills f bs \<Longrightarrow> t \<le> 255 \<Longrightarrow> t + length bs \<le> 255 \<Longrightarrow>
    f t (255 - of_nat t) m = Inr (of_nat (length bs), store t bs m)"
  by (simp add: fills_def)

section \<open>The loops\<close>

context interface_driver
begin

lemma endpoint_filled:
  assumes "FillEndpointDescriptor d = Some f" "k \<le> unat (AlternateSettings (iface s i))" "e < num_endpoints sp k"
    "t + (2 + length (Endpoint sp e)) \<le> 255"
  obtains h where "length h = 2"
    "f s i (of_nat e) t (255 - of_nat t) m = Inr (of_nat (2 + length (Endpoint sp e)), store t (h @ Endpoint sp e) m)"
proof -
  have "2 + length (Endpoint sp e) \<le> unat (255 - of_nat t :: u32)" using assms(4) by simp
  then show thesis using endpoints assms(1-3) that by (metis (no_types, lifting) option.inject)
qed

lemma interface_filled:
  assumes "FillInterfaceDescriptor d = Some f" "k \<le> unat (AlternateSettings (iface s i))" "m (t + 3) = of_nat k"
    "t + (4 + length (Setting sp k)) \<le> 255"
  obtains h where "length h = 2"
    "f s i t (255 - of_nat t) m = Inr (of_nat (4 + length (Setting sp k)), store t (h @ [m (t + 2), m (t + 3)] @ Setting sp k) m)"
proof -
  have "4 + length (Setting sp k) \<le> unat (255 - of_nat t :: u32)" using assms(4) by simp
  then show thesis using interface assms(1-3) that by (metis (no_types, lifting) option.inject)
qed

lemma endpoints_filled:
  assumes "FillEndpointDescriptor d = Some f" and k: "k \<le> unat (AlternateSettings (iface s i))"
    and "e \<le> num_endpoints sp k" and "num_endpoints sp k - e < fuel"
    and "unat (m (p + 4)) = num_endpoints sp k" and "p + 5 \<le> t"
    and "t + length (concat (map (endpoint_desc sp) [e..<num_endpoints sp k])) \<le> 255"
  shows "fill_endpoints fuel (f s i) p (of_nat e) (of_nat t) m =
    Inr (of_nat (t + length (concat (map (endpoint_desc sp) [e..<num_endpoints sp k]))),
         store t (concat (map (endpoint_desc sp) [e..<num_endpoints sp k])) m)"
  using assms(3-)
proof (induction fuel arbitrary: e t m)
  case (Suc fuel)
  let ?n = "num_endpoints sp k"
  have n: "?n \<le> 255" using unsigned_less [of "m (p + 4)", where ?'a = nat] Suc.prems(3) by simp
  have more: "of_nat e < (ucast (m (p + 4)) :: u32) \<longleftrightarrow> e < ?n"
    using Suc.prems(1,3) n by (simp add: word_less_nat_alt)
  show ?case
  proof (cases "e < ?n")
    case True
    let ?l = "2 + length (Endpoint sp e)"
    have split: "concat (map (endpoint_desc sp) [e..<?n]) = endpoint_desc sp e @ concat (map (endpoint_desc sp) [Suc e..<?n])"
      using True by (simp add: upt_conv_Cons)
    have len: "length (endpoint_desc sp e) = ?l" by (simp add: endpoint_desc_def)
    have room: "t + ?l \<le> 255" using Suc.prems(5) unfolding split by (simp add: len)
    obtain h where h: "length h = 2"
      "f s i (of_nat e) t (255 - of_nat t) m = Inr (of_nat ?l, store t (h @ Endpoint sp e) m)"
      using endpoint_filled [OF assms(1) k True room] by blast
    let ?m1 = "store t [ucast (of_nat ?l :: u32), USB_DESCRIPTOR_TYPE_ENDPOINT] (store t (h @ Endpoint sp e) m)"
    have u: "ucast (of_nat ?l :: u32) = (of_nat ?l :: u8)" "(of_nat ?l :: u32) \<noteq> 0"
      using room ucast_small [of ?l] small_0 [of ?l] by (simp_all del: of_nat_add)
    have m1: "?m1 = store t (endpoint_desc sp e) m"
      unfolding u(1) endpoint_desc_def using h(1) by (simp add: store_prefix)
    have kept: "?m1 (p + 4) = m (p + 4)" using Suc.prems(4) unfolding m1 by (simp add: store_other)
    have "fill_endpoints (Suc fuel) (f s i) p (of_nat e) (of_nat t) m = fill_endpoints fuel (f s i) p (of_nat (Suc e)) (of_nat (t + ?l)) ?m1"
      using True more room h(2) u(2) by (simp add: small_less add.commute add.left_commute)
    also have "\<dots> = Inr (of_nat (t + ?l + length (concat (map (endpoint_desc sp) [Suc e..<?n]))),
         store (t + ?l) (concat (map (endpoint_desc sp) [Suc e..<?n])) ?m1)"
      by (rule Suc.IH) (use True Suc.prems kept split len in \<open>simp_all\<close>)
    also have "\<dots> = Inr (of_nat (t + length (concat (map (endpoint_desc sp) [e..<?n]))), store t (concat (map (endpoint_desc sp) [e..<?n])) m)"
      unfolding m1 split by (simp add: len store_append [of t "endpoint_desc sp e", unfolded len, simplified] add.assoc)
    finally show ?thesis .
  qed (use more in simp)
qed simp


lemma class_filled:
  assumes "t + length (concat (Class sp)) \<le> 255"
  shows "fill_class (map_option (\<lambda>f. f s i) (FillClassDescriptor d)) (of_nat t) m =
    Inr (of_nat (t + length (concat (Class sp))), store t (concat (Class sp)) m)"
proof (cases "FillClassDescriptor d")
  case None
  then show ?thesis using classes by (simp add: fill_class_def)
next
  case (Some f)
  let ?bs = "concat (Class sp)"
  have f: "f s i t (255 - of_nat t) m = Inr (of_nat (length ?bs), store t ?bs m)"
    using classes Some assms fills_eq [of "f s i" ?bs t m] by simp
  show ?thesis
  proof (cases "Class sp")
    case Nil
    then show ?thesis using f Some assms by (simp add: fill_class_def)
  next
    case (Cons b cs)
    then have b: "2 \<le> length b" "length b < 256" "b ! 0 = of_nat (length b)" using descs_ok [of b] by (auto simp: desc_ok_def)
    have len: "length ?bs = length b + length (concat cs)" using Cons by simp
    have first: "store t ?bs m t = of_nat (length b)" using b Cons by (subst store_first) (auto simp: nth_append)
    have ge: "2 \<le> (of_nat (length b) :: u8)" using b by (simp add: word_le_nat_alt unsigned_of_nat take_bit_nat_eq_self)
    have le: "ucast (of_nat (length b) :: u8) \<le> (of_nat (length ?bs) :: u32)"
      using b assms len by (simp add: word_le_nat_alt unsigned_of_nat take_bit_nat_eq_self del: of_nat_add)
    have "(of_nat (length ?bs) :: u32) \<noteq> 0" using b(1) len assms by (subst small_0) linarith+
    then show ?thesis using Some f first ge le assms by (simp add: fill_class_def)
  qed
qed

lemma interface_desc_filled:
  assumes "FillInterfaceDescriptor d = Some f" and k: "k \<le> unat (AlternateSettings (iface s i))"
    and room: "t + (4 + length (Setting sp k)) \<le> 255"
  obtains m2 where
    "f s i t (255 - of_nat t) (store t [0, 0, IfIndex (iface s i), of_nat k, 0, 0, 0, 0, 0] m) = Inr (of_nat (4 + length (Setting sp k)), m2)"
    "store t [ucast (of_nat (4 + length (Setting sp k)) :: u32), USB_DESCRIPTOR_TYPE_INTERFACE] m2 = store t (interface_desc (iface s i) sp k) m"
proof -
  let ?l = "4 + length (Setting sp k)"
  define m1 where "m1 = store t [0, 0, IfIndex (iface s i), of_nat k, 0, 0, 0, 0, 0] m"
  have m1_bytes: "m1 (t + 2) = IfIndex (iface s i)" "m1 (t + 3) = of_nat k" by (simp_all add: m1_def store_def)
  obtain h where h: "length h = 2"
    "f s i t (255 - of_nat t) m1 = Inr (of_nat ?l, store t (h @ [IfIndex (iface s i), of_nat k] @ Setting sp k) m1)"
    using interface_filled [of f k m1 t, OF assms(1) k m1_bytes(2) room] m1_bytes by metis
  have u: "ucast (of_nat ?l :: u32) = (of_nat ?l :: u8)" using room ucast_small [of ?l] by (simp del: of_nat_add)
  have "store t [of_nat ?l, USB_DESCRIPTOR_TYPE_INTERFACE] (store t (h @ [IfIndex (iface s i), of_nat k] @ Setting sp k) m1) =
      store t (interface_desc (iface s i) sp k) m1"
    unfolding interface_desc_def using h(1) by (simp add: store_prefix)
  also have "\<dots> = store t (interface_desc (iface s i) sp k) m"
    using setting_size [OF k] unfolding m1_def by (auto simp: store_def interface_desc_def fun_eq_iff)
  finally show thesis using that [OF h(2) [unfolded m1_def]] unfolding u m1_def by blast
qed

lemma setting_filled:
  assumes k: "k \<le> unat (AlternateSettings (iface s i))" and room: "t + length (concat (setting_descs (iface s i) sp k)) \<le> 255"
  shows "fill_setting d s i k (of_nat t) m =
    Inr (of_nat (t + length (concat (setting_descs (iface s i) sp k))), store t (concat (setting_descs (iface s i) sp k)) m)"
proof -
  obtain f g where fg: "FillInterfaceDescriptor d = Some f" "FillEndpointDescriptor d = Some g"
    using interface endpoints by blast
  let ?i = "interface_desc (iface s i) sp k" and ?l = "4 + length (Setting sp k)" and ?c = "concat (Class sp)" and ?n = "num_endpoints sp k"
  let ?e = "concat (map (endpoint_desc sp) [0..<?n])"
  have parts: "concat (setting_descs (iface s i) sp k) = ?i @ ?c @ ?e" by (simp add: setting_descs_def)
  have li: "length ?i = ?l" by (simp add: interface_desc_def)
  have rooms: "t + ?l \<le> 255" "t + ?l + length ?c \<le> 255" "t + ?l + length ?c + length ?e \<le> 255"
    using room unfolding parts by (simp_all add: li)
  have size: "5 \<le> length (Setting sp k)" by (rule setting_size [OF k])
  have u: "(of_nat ?l :: u32) \<noteq> 0" "9 \<le> (of_nat ?l :: u32)" "of_nat (t + ?l) \<le> (255 :: u32)"
    using rooms(1) size small_0 [of ?l] small_le [of "t + ?l"] by (simp_all add: word_le_nat_alt del: of_nat_add)
  let ?m2 = "store t ?i m" and ?m3 = "store t (?i @ ?c) m"
  have np: "?m3 (t + 4) = Setting sp k ! 0"
    using size by (cases "Setting sp k") (simp_all add: store_def interface_desc_def)
  have cls: "fill_class (map_option (\<lambda>f. f s i) (FillClassDescriptor d)) (of_nat (t + ?l)) ?m2 = Inr (of_nat (t + ?l + length ?c), ?m3)"
    unfolding class_filled [OF rooms(2)] using store_append [of t ?i ?c m] by (simp add: li)
  have eps: "fill_endpoints 256 (g s i) t (of_nat 0) (of_nat (t + ?l + length ?c)) ?m3 =
      Inr (of_nat (t + ?l + length ?c + length ?e), store (t + ?l + length ?c) ?e ?m3)"
  proof (rule endpoints_filled [OF fg(2) k])
    show "?n - 0 < 256" using unsigned_less [of "Setting sp k ! 0", where ?'a = nat] by (simp add: num_endpoints_def)
    show "unat (?m3 (t + 4)) = ?n" unfolding np by (simp add: num_endpoints_def)
    show "t + 5 \<le> t + ?l + length ?c" using size by simp
  qed (use rooms in simp_all)
  have all: "store (t + ?l + length ?c) ?e ?m3 = store t (concat (setting_descs (iface s i) sp k)) m"
    unfolding parts using store_append [of t "?i @ ?c" ?e m] by (simp add: li add.assoc)
  obtain m1 where m1:
    "f s i t (255 - of_nat t) (store t [0, 0, IfIndex (iface s i), of_nat k, 0, 0, 0, 0, 0] m) = Inr (of_nat ?l, m1)"
    "store t [ucast (of_nat ?l :: u32), USB_DESCRIPTOR_TYPE_INTERFACE] m1 = ?m2"
    using interface_desc_filled [OF fg(1) k rooms(1)] by blast
  have "fill_setting d s i k (of_nat t) m = fill_endpoints 256 (g s i) t (of_nat 0) (of_nat (t + ?l + length ?c)) ?m3"
    unfolding fill_setting_def using m1 u cls fg rooms(1) by (simp del: of_nat_add add: of_nat_add [symmetric])
  then show ?thesis unfolding eps all unfolding parts by (simp add: li add.assoc)
qed

lemma settings_filled:
  assumes "set ks \<subseteq> {..unat (AlternateSettings (iface s i))}" "t + length (concat (concat (map (setting_descs (iface s i) sp) ks))) \<le> 255"
  shows "fill_settings ks d s i (of_nat t) m =
    Inr (of_nat (t + length (concat (concat (map (setting_descs (iface s i) sp) ks)))), store t (concat (concat (map (setting_descs (iface s i) sp) ks))) m)"
  using assms
proof (induction ks arbitrary: t m)
  case (Cons k ks)
  let ?b = "concat (setting_descs (iface s i) sp k)"
  have k: "fill_setting d s i k (of_nat t) m = Inr (of_nat (t + length ?b), store t ?b m)"
    by (rule setting_filled) (use Cons.prems in simp_all)
  show ?case
    using Cons.prems by (simp add: k Cons.IH [of "t + length ?b", simplified] store_append add.assoc)
qed simp

lemma association_filled:
  assumes "t + length (concat (Association sp)) \<le> 255"
  shows "fill_association (map_option (\<lambda>f. f s i) (FillInterfaceAssociationDescriptor d)) (of_nat t) m =
    Inr (of_nat (t + length (concat (Association sp))), store t (concat (Association sp)) m)"
proof (cases "FillInterfaceAssociationDescriptor d")
  case None
  then show ?thesis using association by (simp add: fill_association_def)
next
  case (Some f)
  let ?bs = "concat (Association sp)"
  have f: "f s i t (255 - of_nat t) m = Inr (of_nat (length ?bs), store t ?bs m)"
    using association Some assms fills_eq [of "f s i" ?bs t m] by simp
  obtain bs where bs: "?bs = bs" by blast
  show ?thesis
    using Some f assms small_0 [of "length bs"] small_le [OF assms] unfolding bs
    by (cases "bs = []") (simp_all add: fill_association_def)
qed

lemma interface_written:
  assumes "D n = d" and "IfDriver (iface s i) = Some n" and room: "t + length (concat (interface_descs (iface s i) sp)) \<le> 255"
  shows "fill_interface D s i (of_nat t) m =
    Inr (of_nat (t + length (concat (interface_descs (iface s i) sp))), store t (concat (interface_descs (iface s i) sp)) m)"
proof -
  let ?ks = "[0..<Suc (unat (AlternateSettings (iface s i)))]" and ?a = "concat (Association sp)"
  have "fill_association (map_option (\<lambda>f. f s i) (FillInterfaceAssociationDescriptor d)) (of_nat t) m =
      Inr (of_nat (t + length ?a), store t ?a m)"
    by (rule association_filled) (use room in \<open>simp add: interface_descs_def\<close>)
  moreover have "fill_settings ?ks d s i (of_nat (t + length ?a)) (store t ?a m) =
      Inr (of_nat (t + length ?a + length (concat (concat (map (setting_descs (iface s i) sp) ?ks)))),
        store (t + length ?a) (concat (concat (map (setting_descs (iface s i) sp) ?ks))) (store t ?a m))"
    by (rule settings_filled) (use room in \<open>auto simp: interface_descs_def simp del: upt_Suc\<close>)
  moreover obtain f g where "FillInterfaceDescriptor d = Some f" "FillEndpointDescriptor d = Some g"
    using interface endpoints by blast
  ultimately show ?thesis
    using assms(1,2) by (simp add: fill_interface_def interface_descs_def store_append add.assoc del: upt_Suc)
qed

end

section \<open>All interfaces of a configuration\<close>

lemma interfaces_written:
  assumes "list_all2 (\<lambda>i sp. \<exists>n. IfDriver (iface s i) = Some n \<and> interface_driver (D n) s i sp) is sps"
    and "t + length (concat (concat (map2 (\<lambda>i. interface_descs (iface s i)) is sps))) \<le> 255"
  shows "fill_interfaces D s is (of_nat t) m =
    Inr (of_nat (t + length (concat (concat (map2 (\<lambda>i. interface_descs (iface s i)) is sps)))),
      store t (concat (concat (map2 (\<lambda>i. interface_descs (iface s i)) is sps))) m)"
  using assms
proof (induction "is" sps arbitrary: t m rule: list_all2_induct)
  case (Cons i "is" sp sps)
  let ?b = "concat (interface_descs (iface s i) sp)"
  from Cons.hyps obtain n where n: "IfDriver (iface s i) = Some n" "interface_driver (D n) s i sp" by blast
  have "fill_interface D s i (of_nat t) m = Inr (of_nat (t + length ?b), store t ?b m)"
    by (rule interface_driver.interface_written [where D = D, OF n(2) refl n(1)]) (use Cons.prems in simp)
  then show ?case
    using Cons.prems by (simp add: Cons.IH [of "t + length ?b", simplified] store_append add.assoc)
qed simp

section \<open>The configuration descriptor\<close>

text \<open>The contract of a configuration driver: it fills in the attributes and the power of configuration \<open>index\<close>.\<close>

locale configuration_driver =
  fixes f :: "u32 \<Rightarrow> fill" and index :: u32 and attributes :: u8 and max_power :: u8
  assumes fills_attributes: "f index 0 255 m = Inr (9, store 7 [attributes, max_power] m)"

definition config_desc :: "nat \<Rightarrow> nat \<Rightarrow> u8 \<Rightarrow> u8 \<Rightarrow> u8 \<Rightarrow> u8 \<Rightarrow> u8 list" where
  "config_desc tot num value index attributes max_power =
     [9, USB_DESCRIPTOR_TYPE_CONFIGURATION] @ HTOUSB16 (of_nat tot) @
     [of_nat num, value, index, if max_power \<noteq> 0 then attributes OR 0x80 else attributes, max_power]"

definition config_descs :: "usb_config \<Rightarrow> cfid \<Rightarrow> u8 \<Rightarrow> u8 \<Rightarrow> u8 \<Rightarrow> interface_spec list \<Rightarrow> u8 list list" where
  "config_descs s c index attributes max_power sps =
     (let is = Interfaces (conf s c); body = concat (map2 (\<lambda>i. interface_descs (iface s i)) is sps) in
      config_desc (9 + length (concat body)) (length is) (CfValue (conf s c)) index attributes max_power # body)"

lemma length_HTOUSB16 [simp]: "length (HTOUSB16 h) = 2"
  by (simp add: HTOUSB16_def)

lemma config_header_written:
  assumes "m1 = store 7 [a, p] (store 5 [v, i] m)" and "m2 = (if m1 8 \<noteq> 0 then m1(7 := m1 7 OR 0x80) else m1)" and "length h = 2"
  shows "store 0 [9, 2] (store 2 (h @ [n]) (store 9 bs m2)) =
    store 0 (([9, 2] @ h @ [n, v, i, if p \<noteq> 0 then a OR 0x80 else a, p]) @ bs) m"
proof -
  from assms(3) obtain h0 h1 where h: "h = [h0, h1]" by (auto simp: length_Suc_conv numeral_2_eq_2)
  have m2: "m2 = store 5 [v, i, if p \<noteq> 0 then a OR 0x80 else a, p] m"
    unfolding assms(1,2) by (auto simp: store_def fun_eq_iff nth_Cons split: nat.splits)
  show ?thesis unfolding m2 h by (auto simp: store_def fun_eq_iff nth_append nth_Cons split: nat.splits)
qed

text \<open>The value of a request: the type of the descriptor and its index.\<close>

definition descriptor_value :: "u8 \<Rightarrow> u8 \<Rightarrow> u16" where
  "descriptor_value desc_type desc_index = push_bit 8 (ucast desc_type) OR ucast desc_index"

lemma request_split [simp]:
  "ucast (drop_bit 8 (descriptor_value t i)) = (t :: u8)" "ucast (descriptor_value t i AND 0xFF) = (i :: u8)"
proof -
  have m: "(0xFF :: u16) = mask 8" by (simp add: mask_eq_exp_minus_1)
  show "ucast (drop_bit 8 (descriptor_value t i)) = t" "ucast (descriptor_value t i AND 0xFF) = i"
    unfolding descriptor_value_def m by (rule bit_word_eqI; auto simp: bit_simps dest: bit_imp_le_length)+
qed

definition interfaces_ok :: "(nat \<Rightarrow> usb_interface_fill) \<Rightarrow> usb_config \<Rightarrow> cfid \<Rightarrow> interface_spec list \<Rightarrow> bool" where
  "interfaces_ok D s c sps \<longleftrightarrow>
     list_all2 (\<lambda>i sp. \<exists>n. IfDriver (iface s i) = Some n \<and> interface_driver (D n) s i sp) (Interfaces (conf s c)) sps"

definition configuration_ok :: "(nat \<Rightarrow> usb_configuration_fill) \<Rightarrow> usb_config \<Rightarrow> cfid \<Rightarrow> u8 \<Rightarrow> u8 \<Rightarrow> u8 \<Rightarrow> bool" where
  "configuration_ok CD s c index attributes max_power \<longleftrightarrow>
     usb_device_config_get (ucast index) s = Some c \<and>
     (\<exists>n f. CfDriver (conf s c) = Some n \<and> FillConfigurationDescriptor (CD n) = Some f \<and>
        configuration_driver f (ucast index) attributes max_power)"

lemma config_built:
  assumes "configuration_ok CD s c index attributes max_power" and "interfaces_ok D s c sps"
    and room: "length (concat (config_descs s c index attributes max_power sps)) \<le> 255"
  shows "usb_device_config_get_descriptor u CD D (descriptor_value USB_DESCRIPTOR_TYPE_CONFIGURATION index) ri plength s =
    Inr (True, of_nat (length (concat (config_descs s c index attributes max_power sps))),
      s\<lparr>desc_buffer := store 0 (concat (config_descs s c index attributes max_power sps)) (desc_buffer s)\<rparr>)"
proof -
  let ?is = "Interfaces (conf s c)"
  let ?bs = "concat (concat (map2 (\<lambda>i. interface_descs (iface s i)) ?is sps))"
  from assms(1) obtain n f where f: "usb_device_config_get (ucast index) s = Some c" "CfDriver (conf s c) = Some n"
    "FillConfigurationDescriptor (CD n) = Some f" "configuration_driver f (ucast index) attributes max_power"
    unfolding configuration_ok_def by blast
  let ?v = "CfValue (conf s c)" and ?num = "of_nat (length (Interfaces (conf s c))) :: u8"
  define m1 where "m1 = store 7 [attributes, max_power] (store 5 [?v, index] (desc_buffer s))"
  define m2 where "m2 = (if m1 8 \<noteq> 0 then m1(7 := m1 7 OR 0x80) else m1)"
  have fm: "f (ucast index) 0 255 (store 5 [?v, index] (desc_buffer s)) = Inr (9, m1)"
    unfolding m1_def by (rule configuration_driver.fills_attributes [OF f(4)])
  have len: "length (concat (config_descs s c index attributes max_power sps)) = 9 + length ?bs"
    by (simp add: config_descs_def config_desc_def Let_def)
  have ifs: "fill_interfaces D s ?is (of_nat 9) m2 = Inr (of_nat (9 + length ?bs), store 9 ?bs m2)"
    by (rule interfaces_written) (use assms(2) room len in \<open>simp_all add: interfaces_ok_def\<close>)
  have all: "store 0 [9, 2] (store 2 (HTOUSB16 (of_nat (9 + length ?bs)) @ [?num]) (store 9 ?bs m2)) =
      store 0 (concat (config_descs s c index attributes max_power sps)) (desc_buffer s)"
    unfolding config_header_written [OF m1_def m2_def length_HTOUSB16]
    by (simp add: config_descs_def config_desc_def Let_def USB_DESCRIPTOR_TYPE_CONFIGURATION_def)
  have "fill_config CD D index plength s =
      Inr (9, of_nat (9 + length ?bs), store 2 (HTOUSB16 (of_nat (9 + length ?bs)) @ [?num]) (store 9 ?bs m2))"
    unfolding fill_config_def using f(1-3) fm ifs by (simp add: Let_def m2_def [symmetric])
  then show ?thesis
    unfolding usb_device_config_get_descriptor_def len all [symmetric] by (simp add: usb_types Let_def)
qed

section \<open>The configuration is a chain\<close>

lemma USB16TOH_HTOUSB16:
  assumes "m a = HTOUSB16 h ! 0" and "m (a + 1) = HTOUSB16 h ! 1"
  shows "USB16TOH a m = take_bit 16 h"
proof -
  have m: "(0xFF :: u32) = mask 8" by (simp add: mask_eq_exp_minus_1)
  show ?thesis
    unfolding USB16TOH_def assms HTOUSB16_def m by (rule bit_word_eqI) (auto simp: bit_simps not_less)
qed

context interface_driver
begin

lemma interface_descs_ok:
  assumes "b \<in> set (interface_descs (iface s i) sp)"
  shows "2 \<le> length b \<and> b ! 0 = of_nat (length b)"
  using assms descs_ok by (fastforce simp: interface_descs_def setting_descs_def interface_desc_def endpoint_desc_def desc_ok_def)

end

lemma config_descs_ok:
  assumes "interfaces_ok D s c sps" and "length (concat (config_descs s c index attributes max_power sps)) \<le> 255"
    and "b \<in> set (config_descs s c index attributes max_power sps)"
  shows "desc_ok b"
proof -
  have "length b \<le> length (concat (config_descs s c index attributes max_power sps))"
    using split_list [OF assms(3)] by auto
  moreover have "2 \<le> length b \<and> b ! 0 = of_nat (length b)"
  proof (cases "b = config_desc (9 + length (concat (tl (config_descs s c index attributes max_power sps))))
      (length (Interfaces (conf s c))) (CfValue (conf s c)) index attributes max_power")
    case True
    then show ?thesis by (simp add: config_desc_def)
  next
    case False
    then obtain i sp where "(i, sp) \<in> set (zip (Interfaces (conf s c)) sps)" "b \<in> set (interface_descs (iface s i) sp)"
      using assms(3) by (auto simp: config_descs_def Let_def)
    moreover then have "\<exists>n. interface_driver (D n) s i sp"
      using assms(1) by (auto simp: interfaces_ok_def list_all2_iff)
    ultimately show ?thesis using interface_driver.interface_descs_ok by blast
  qed
  ultimately show ?thesis using assms(2) by (simp add: desc_ok_def)
qed

lemma config_chain:
  assumes "interfaces_ok D s c sps" and "ds = config_descs s c index attributes max_power sps" and "length (concat ds) \<le> 255"
  shows "chain (store 0 (concat ds) m) 0 ds" "conf_end (store 0 (concat ds) m) 0 = length (concat ds)"
proof -
  let ?m = "store 0 (concat ds) m"
  show chain: "chain ?m 0 ds"
    using config_descs_ok [OF assms(1)] assms(2,3) by (auto simp: chain_def load_store_same)
  define body where "body = tl ds"
  have ds: "ds = config_desc (9 + length (concat body)) (length (Interfaces (conf s c))) (CfValue (conf s c)) index attributes max_power # body"
    by (simp add: body_def assms(2) config_descs_def Let_def)
  let ?n = "9 + length (concat body)"
  have n: "length (concat ds) = ?n" and l0: "0 < length ds" unfolding ds by (simp_all add: config_desc_def)
  have d0: "ds ! 0 = config_desc ?n (length (Interfaces (conf s c))) (CfValue (conf s c)) index attributes max_power"
    by (subst ds) simp
  have "?m 2 = HTOUSB16 (of_nat ?n) ! 0" "?m (2 + 1) = HTOUSB16 (of_nat ?n) ! 1"
    using chain_byte [OF chain l0, of 2] chain_byte [OF chain l0, of 3] unfolding d0 desc_at_0
    by (simp_all add: config_desc_def HTOUSB16_def del: add_2_eq_Suc')
  then have "USB16TOH 2 ?m = take_bit 16 (of_nat ?n)" by (rule USB16TOH_HTOUSB16)
  also have "\<dots> = of_nat ?n" using assms(3) n by (simp add: take_bit_of_nat take_bit_nat_eq_self del: of_nat_add)
  finally show "conf_end ?m 0 = length (concat ds)" using assms(3) n by (simp add: conf_end_def del: of_nat_add add_2_eq_Suc')
qed

end
