(* ===== verification/UsbStrings.thy ===== *)
theory UsbStrings
  imports UsbDescriptors
begin

text \<open>
  The strings of a device: registering a string, sending its descriptor (\<^verbatim>\<open>configuration.c\<close>) and
  reading it on the side of the host (\<^verbatim>\<open>usb_desc2str\<close>).
\<close>

unbundle bit_operations_syntax

section \<open>The registry of strings\<close>

text \<open>The strings are numbered from 1 in the order they were added.\<close>

definition strings_ok :: "usb_config \<Rightarrow> bool" where
  "strings_ok s \<longleftrightarrow> distinct (strings s) \<and> length (strings s) < 256 \<and>
     (\<forall>k<length (strings s). StrIndex (string_node s (strings s ! k)) = of_nat (Suc k))"

lemma find_string_numbered:
  assumes "\<forall>k<length xs. StrIndex (xs ! k) = of_nat (Suc (n + k))" and "n + length xs < 256" and "n < j"
  shows "find_string (int j) xs = (if j - n \<le> length xs then Some (StrText (xs ! (j - n - 1))) else None)"
  using assms
proof (induction xs arbitrary: n)
  case (Cons x xs)
  have x: "uint (StrIndex x) = int (Suc n)"
    using Cons.prems(1) [rule_format, of 0] Cons.prems(2) by (simp add: unsigned_of_nat take_bit_nat_eq_self del: of_nat_Suc)
  show ?case
  proof (cases "j = Suc n")
    case False
    have "find_string (int j) xs = (if j - Suc n \<le> length xs then Some (StrText (xs ! (j - Suc n - 1))) else None)"
      by (rule Cons.IH) (use Cons.prems False in \<open>auto simp: nth_Cons'\<close>)
    moreover have "j - n - 1 = Suc (j - Suc n - 1)" "j - n \<le> Suc (length xs) \<longleftrightarrow> j - Suc n \<le> length xs" using False Cons.prems(3) by auto
    ultimately show ?thesis using x False by simp
  qed (use x in simp)
qed simp

lemma get_string_ok:
  assumes "strings_ok s" and "0 < j"
  shows "usb_device_config_get_string (int j) s =
    (if j \<le> length (strings s) then Some (StrText (string_node s (strings s ! (j - 1)))) else None)"
  using find_string_numbered [of "map (string_node s) (strings s)" 0 j] assms
  by (auto simp: usb_device_config_get_string_def strings_ok_def)

lemma add_string_ok:
  assumes "strings_ok s" and "str \<notin> set (strings s)" and "length (strings s) < 255"
    and "usb_device_config_add_string str value s = (n, s')"
  shows "strings_ok s'" "n = of_nat (Suc (length (strings s)))" "strings s' = strings s @ [str]"
    "string_node s' = (string_node s)(str := \<lparr>StrIndex = of_nat (Suc (length (strings s))), StrText = value\<rparr>)"
proof -
  let ?n = "length (strings s)"
  have c: "of_nat ?n + 1 = (of_nat (Suc ?n) :: u32)" by simp
  have u: "ucast (of_nat (Suc ?n) :: u32) = (of_nat (Suc ?n) :: u8)" "unat (of_nat (Suc ?n) :: u32) = Suc ?n"
    using assms(3) ucast_small [of "Suc ?n"] unat_small [of "Suc ?n"] by (simp_all del: of_nat_Suc)
  have s': "n = of_nat (Suc ?n)" "s' = s\<lparr>strings := strings s @ [str],
      string_node := (string_node s)(str := \<lparr>StrIndex = of_nat (Suc ?n), StrText = value\<rparr>)\<rparr>"
    using assms(4) unfolding usb_device_config_add_string_def Let_def c u by auto
  show "n = of_nat (Suc ?n)" "strings s' = strings s @ [str]"
    "string_node s' = (string_node s)(str := \<lparr>StrIndex = of_nat (Suc ?n), StrText = value\<rparr>)"
    unfolding s' u by simp_all
  have "strings s ! k \<noteq> str" if "k < ?n" for k using assms(2) that nth_mem by blast
  then show "strings_ok s'"
    using assms(1-3) unfolding s' strings_ok_def by (auto simp: nth_append less_Suc_eq)
qed

section \<open>The string descriptor\<close>

text \<open>The characters as 16-bit units.\<close>

definition units :: "u8 list \<Rightarrow> u8 list" where
  "units cs = concat (map (\<lambda>c. [c, 0]) cs)"

lemma length_units [simp]: "length (units cs) = 2 * length cs"
  by (induction cs) (simp_all add: units_def)

lemma units_nth: "i < length cs \<Longrightarrow> units cs ! (2 * i) = cs ! i" "i < length cs \<Longrightarrow> units cs ! Suc (2 * i) = 0"
  by (induction cs arbitrary: i; case_tac i; simp add: units_def)+

lemma HTOUSB16_char: "HTOUSB16 (ucast c) = [c, 0]" for c :: u8
proof -
  have m: "(0xFF :: u32) = mask 8" by (simp add: mask_eq_exp_minus_1)
  have "\<not> bit c (8 + n)" for n using bit_imp_le_length [of c "8 + n"] by auto
  then show ?thesis unfolding HTOUSB16_def m by (auto intro!: bit_word_eqI simp: bit_simps)
qed

lemma fill_chars_units:
  "fill_chars n cs len m =
     (let us = take n (takeWhile (\<lambda>c. c \<noteq> 0) cs) in (len + length us, store (2 + 2 * len) (units us) m))"
proof (induction n cs len m rule: fill_chars.induct)
  case (1 n c cs len m)
  let ?us = "take n (takeWhile (\<lambda>c. c \<noteq> 0) cs)"
  show ?case
    using 1 store_append [of "2 + 2 * len" "[c, 0]" "units ?us" m] by (simp add: Let_def HTOUSB16_char units_def)
qed (simp_all add: Let_def units_def)

lemma desc2str_loop_map:
  "desc2str_loop room m data off len = map (\<lambda>i. m (data + off + 2 * i)) [0..<min room (Suc (len - off) div 2)]"
proof (induction room m data off len rule: desc2str_loop.induct)
  case (2 room m data off len)
  show ?case
  proof (cases "off < len")
    case True
    then obtain e where e: "len = Suc (off + e)" using less_iff_Suc_add by blast
    then have "min (Suc room) (Suc (len - off) div 2) = Suc (min room (Suc (len - (off + 2)) div 2))" by (cases e) simp_all
    then show ?thesis using True 2 by (simp add: upt_conv_Cons map_Suc_upt [symmetric] comp_def add.assoc del: upt_Suc)
  qed simp
qed simp

lemma store_header: "store 0 [x, y] (store 2 bs m) = store 0 (x # y # bs) m"
  using store_front [of 0 "[x, y]" bs m] by (simp add: numeral_2_eq_2)

lemma unat_of_nat8: "unat (of_nat n :: u8) = n mod 256"
  by (simp add: unsigned_of_nat take_bit_eq_mod)

lemma string_written:
  assumes "strings_ok s" and "k < length (strings s)" and "StrText (string_node s (strings s ! k)) = value"
    and "0 \<notin> set value" and "length value \<le> 255"
  shows "usb_device_config_get_descriptor u CD D (descriptor_value USB_DESCRIPTOR_TYPE_STRING (of_nat (Suc k))) ri plength s =
    Inr (True, of_nat (2 + 2 * length value),
      s\<lparr>desc_buffer := store 0 ([of_nat (2 + 2 * length value), USB_DESCRIPTOR_TYPE_STRING] @ units value) (desc_buffer s)\<rparr>)"
proof -
  have k: "Suc k < 256" using assms(1,2) by (simp add: strings_ok_def)
  then have u: "unat (of_nat (Suc k) :: u8) = Suc k" by (simp add: unsigned_of_nat take_bit_nat_eq_self del: of_nat_Suc)
  then have i: "of_nat (Suc k) \<noteq> (0 :: u8)" "uint (of_nat (Suc k) :: u8) = int (Suc k)"
    by (metis unsigned_0 nat.distinct(1), metis unsigned_of_nat of_nat_unat k uint_nat)
  have tw: "takeWhile (\<lambda>c. c \<noteq> 0) value = value" using assms(4) by (induction "value") auto
  have f: "fill_string (of_nat (Suc k)) s = (2 + of_nat (2 * length value), store 2 (units value) (desc_buffer s))"
    using assms(3,5) i get_string_ok [OF assms(1), of "Suc k"] assms(2)
    by (simp add: fill_string_def fill_chars_units Let_def tw del: of_nat_Suc)
  have w: "2 + of_nat (2 * length value) = (of_nat (2 + 2 * length value) :: u32)" by simp
  have n: "(of_nat (2 + 2 * length value) :: u32) \<noteq> 0"
    using assms(5) by (subst of_nat_u32_eq_0) simp_all
  have c: "ucast (of_nat (2 + 2 * length value) :: u32) = (of_nat (2 + 2 * length value) :: u8)"
    using assms(5) by (intro ucast_of_nat8) simp
  show ?thesis
    unfolding usb_device_config_get_descriptor_def
    using f [unfolded w] n c by (simp add: usb_types Let_def store_header)
qed

section \<open>Properties\<close>

text \<open>C39: A string of at most 126 characters that is added to the device is read back by the host: its descriptor holds the
  string and stays within the buffer, \<^verbatim>\<open>usb_desc2str\<close> returns its characters and the terminating zero,
  and the strings stay numbered in the order they were added.
\<close>

theorem usb_string_roundtrip:
  assumes "strings_ok s" and "str \<notin> set (strings s)" and "length (strings s) < 255"
    and "usb_device_config_add_string str value s = (n, s1)"
    and "0 \<notin> set value" and "length value \<le> 126" and "length value < max_length"
  shows "strings_ok s1 \<and> (\<exists>s2. usb_device_config_get_descriptor u CD D (descriptor_value USB_DESCRIPTOR_TYPE_STRING (ucast n)) ri plength s1 =
      Inr (True, of_nat (2 + 2 * length value), s2) \<and>
    usb_desc2str (desc_buffer s2) 0 max_length = value @ [0] \<and> (\<forall>x\<ge>255. desc_buffer s2 x = desc_buffer s1 x))"
proof -
  let ?l = "length (strings s)"
  note s1 = add_string_ok [OF assms(1-4)]
  have n: "ucast n = (of_nat (Suc ?l) :: u8)" unfolding s1(2) using assms(3) by (intro ucast_of_nat8) simp
  let ?m = "store 0 ([of_nat (2 + 2 * length value), USB_DESCRIPTOR_TYPE_STRING] @ units value) (desc_buffer s1)"
  have get: "usb_device_config_get_descriptor u CD D (descriptor_value USB_DESCRIPTOR_TYPE_STRING (ucast n)) ri plength s1 =
      Inr (True, of_nat (2 + 2 * length value), s1\<lparr>desc_buffer := ?m\<rparr>)"
    unfolding n by (rule string_written) (use s1 assms in \<open>simp_all add: nth_append\<close>)
  have len: "unat (?m 0) = 2 + 2 * length value"
    using assms(6) unat_of_nat8 [of "2 + 2 * length value"] by (simp add: store_def)
  have ch: "?m (2 + 2 * i) = value ! i" if "i < length value" for i
    using that units_nth(1) [of i "value"] by (simp add: store_def)
  have "desc2str_loop max_length ?m 0 2 (unat (?m 0)) = value"
    unfolding len desc2str_loop_map using assms(7) ch by (intro nth_equalityI) simp_all
  then have "usb_desc2str ?m 0 max_length = value @ [0]"
    using assms(7) by (simp add: usb_desc2str_def Let_def store_def)
  then show ?thesis using get s1(1) assms(6) by (auto simp: store_other)
qed

text \<open>A string of 127 to 254 characters overruns the buffer: the byte behind it is set to zero, and the length in the
  descriptor wraps around at 256.
\<close>

theorem usb_string_overruns:
  assumes "strings_ok s" and "k < length (strings s)" and "StrText (string_node s (strings s ! k)) = value"
    and "0 \<notin> set value" and "127 \<le> length value" and "length value \<le> 254"
  shows "\<exists>s'. usb_device_config_get_descriptor u CD D (descriptor_value USB_DESCRIPTOR_TYPE_STRING (of_nat (Suc k))) ri plength s =
      Inr (True, of_nat (2 + 2 * length value), s') \<and>
    desc_buffer s' 255 = 0 \<and> unat (desc_buffer s' 0) = 2 * length value - 254"
proof -
  let ?m = "store 0 ([of_nat (2 + 2 * length value), USB_DESCRIPTOR_TYPE_STRING] @ units value) (desc_buffer s)"
  have "?m 255 = 0" using assms(5) units_nth(2) [of 126 "value"] by (simp add: store_def)
  moreover have "unat (?m 0) = (2 + 2 * length value) mod 256"
    using unat_of_nat8 [of "2 + 2 * length value"] by (simp add: store_def)
  moreover have "(2 + 2 * length value) mod 256 = 2 * length value - 254"
    using assms(5,6) by (simp add: mod_if)
  ultimately show ?thesis using assms(6) string_written [OF assms(1-4), of u CD D ri plength] by auto
qed

definition sample_registry :: "u8 list \<Rightarrow> usb_config" where
  "sample_registry value = \<lparr>configs = [], conf = (\<lambda>_. \<lparr>CfDriver = None, Interfaces = [], CfValue = 0, CfIndex = 0\<rparr>),
     iface = (\<lambda>_. \<lparr>IfConfiguration = None, IfDriver = None, DriverContext = 0, IfStatus = USB_IFSTA_STOPPED, IfIndex = 0,
       AlternateSettings = 0\<rparr>),
     strings = [ManufacturerNode], string_node = (\<lambda>_. \<lparr>StrIndex = 1, StrText = value\<rparr>), manufacturer_str = 1, product_str = 0,
     serialnumber_str = 0, desc_buffer = (\<lambda>_. 7)\<rparr>"

definition no_driver :: usb_interface_fill where
  "no_driver = \<lparr>Initialize = None, FillInterfaceAssociationDescriptor = None, FillInterfaceDescriptor = None,
     FillClassDescriptor = None, FillEndpointDescriptor = None\<rparr>"

definition sample_user :: usb_user_device where
  "sample_user = \<lparr>DEVICE_CLASS = 0, DEVICE_SUBCLASS = 0, DEVICE_PROTOCOL = 0, MAX_PACKET0 = 64, DEVICE_IDS = None, DEVICE_VERSION = 0\<rparr>"

theorem usb_string_roundtrip_witness:
  "\<exists>s1 s2. usb_device_config_add_string ProductNode [0x45, 0x78, 0x4F, 0x53] (sample_registry [0x6D]) = (2, s1) \<and>
     usb_device_config_get_descriptor sample_user (\<lambda>_. \<lparr>FillConfigurationDescriptor = None\<rparr>) (\<lambda>_. no_driver)
       (descriptor_value USB_DESCRIPTOR_TYPE_STRING 2) 0x0409 255 s1 = Inr (True, 10, s2) \<and>
     usb_desc2str (desc_buffer s2) 0 32 = [0x45, 0x78, 0x4F, 0x53, 0]"
proof -
  obtain n s1 where a: "usb_device_config_add_string ProductNode [0x45, 0x78, 0x4F, 0x53] (sample_registry [0x6D]) = (n, s1)"
    by fastforce
  then have n: "n = 2" by (auto simp: usb_device_config_add_string_def sample_registry_def Let_def)
  have ok: "strings_ok (sample_registry [0x6D])" "ProductNode \<notin> set (strings (sample_registry [0x6D]))"
    "length (strings (sample_registry [0x6D])) < 255"
    by (simp_all add: strings_ok_def sample_registry_def)
  have v: "0 \<notin> set [0x45, 0x78, 0x4F, 0x53 :: u8]" "length [0x45, 0x78, 0x4F, 0x53 :: u8] \<le> 126"
    "length [0x45, 0x78, 0x4F, 0x53 :: u8] < 32" by simp_all
  show ?thesis
    using usb_string_roundtrip [OF ok a v, of sample_user "\<lambda>_. \<lparr>FillConfigurationDescriptor = None\<rparr>" "\<lambda>_. no_driver" "0x0409" 255] a
    unfolding n by auto
qed

theorem usb_string_overruns_witness:
  "\<exists>s'. usb_device_config_get_descriptor sample_user (\<lambda>_. \<lparr>FillConfigurationDescriptor = None\<rparr>) (\<lambda>_. no_driver)
      (descriptor_value USB_DESCRIPTOR_TYPE_STRING 1) 0x0409 255 (sample_registry (replicate 130 0x61)) = Inr (True, 262, s') \<and>
    desc_buffer s' 255 = 0 \<and> unat (desc_buffer s' 0) = 6 \<and> desc_buffer (sample_registry (replicate 130 0x61)) 255 = 7"
proof -
  have "strings_ok (sample_registry (replicate 130 0x61))" by (simp add: strings_ok_def sample_registry_def)
  then show ?thesis
    using usb_string_overruns [of "sample_registry (replicate 130 0x61)" 0 "replicate 130 0x61" sample_user
        "\<lambda>_. \<lparr>FillConfigurationDescriptor = None\<rparr>" "\<lambda>_. no_driver" "0x0409" 255]
    by (simp add: sample_registry_def)
qed

end
