(* ===== verification/HidReport.thy ===== *)
theory HidReport
  imports Ram UsbConfig
begin

text \<open>
  HID report descriptors and reports (the parser and the field reader of \<^verbatim>\<open>exos/support/usb/driver/hid.c\<close>,
  constants of \<^verbatim>\<open>usb/classes/hid.h\<close>).  A descriptor is a run of items in a byte memory; the parser moves
  through it and keeps the global items, and stops at the items a driver looks at.
\<close>

unbundle bit_operations_syntax

section \<open>State\<close>

record hid_report_parser_t =
  Ptr :: nat
  Offset :: u16
  ParserLength :: u16

record hid_report_parser_global_state_t =
  InputOffset :: u8
  NextInputOffset :: u8
  OutputOffset :: u8
  NextOutputOffset :: u8
  UsagePage :: u8
  ReportId :: u8
  ReportSize :: u8
  ReportCount :: u8
  Min :: u8
  Max :: u8

text \<open>\<open>ItemValue\<close> is the union of \<^verbatim>\<open>Value\<close> and \<^verbatim>\<open>Data\<close>.\<close>

record hid_report_parser_item_t =
  ItemType :: u8
  ItemTag :: u8
  ItemLength :: u8
  ItemValue :: u32

datatype hid_parse_found = HID_PARSE_FOUND_END | HID_PARSE_FOUND_LOCAL | HID_PARSE_FOUND_INPUT | HID_PARSE_FOUND_OUTPUT

abbreviation (input) USB_HID_ITEM_TYPE_MAIN :: u8 where "USB_HID_ITEM_TYPE_MAIN \<equiv> 0"
abbreviation (input) USB_HID_ITEM_TYPE_GLOBAL :: u8 where "USB_HID_ITEM_TYPE_GLOBAL \<equiv> 1"
abbreviation (input) USB_HID_ITEM_TYPE_LOCAL :: u8 where "USB_HID_ITEM_TYPE_LOCAL \<equiv> 2"
abbreviation (input) USB_HID_ITEM_TAG_INPUT :: u8 where "USB_HID_ITEM_TAG_INPUT \<equiv> 8"
abbreviation (input) USB_HID_ITEM_TAG_OUTPUT :: u8 where "USB_HID_ITEM_TAG_OUTPUT \<equiv> 9"
abbreviation (input) USB_HID_ITEM_TAG_COLLECTION :: u8 where "USB_HID_ITEM_TAG_COLLECTION \<equiv> 10"
abbreviation (input) USB_HID_ITEM_TAG_END_COLLECTION :: u8 where "USB_HID_ITEM_TAG_END_COLLECTION \<equiv> 12"

section \<open>Operations\<close>

definition parse_item_global :: "u8 \<Rightarrow> u32 \<Rightarrow> hid_report_parser_global_state_t \<Rightarrow> hid_report_parser_global_state_t" where
  "parse_item_global tag v g =
     (if tag = 0 then g\<lparr>UsagePage := ucast v\<rparr>
      else if tag = 7 then g\<lparr>ReportSize := ucast v\<rparr>
      else if tag = 8 then g\<lparr>ReportId := ucast v, NextOutputOffset := 0, NextInputOffset := 0\<rparr>
      else if tag = 9 then g\<lparr>ReportCount := ucast v\<rparr>
      else if tag = 1 then g\<lparr>Min := ucast v\<rparr>
      else if tag = 2 then g\<lparr>Max := ucast v\<rparr>
      else g)"

definition short_item_length :: "u8 \<Rightarrow> u8" where
  "short_item_length sz = (if sz = 3 then 4 else sz)"

text \<open>The value of an item of one to four bytes; of any other length the address of its data is kept.\<close>

definition item_value :: "ram \<Rightarrow> nat \<Rightarrow> u8 \<Rightarrow> u32" where
  "item_value m data len =
     (if len = 1 then ucast (m data)
      else if len = 2 then ucast (m data) OR push_bit 8 (ucast (m (data + 1)))
      else if len = 3 then ucast (m data) OR push_bit 8 (ucast (m (data + 1))) OR push_bit 16 (ucast (m (data + 2)))
      else if len = 4 then ucast (m data) OR push_bit 8 (ucast (m (data + 1))) OR push_bit 16 (ucast (m (data + 2)))
        OR push_bit 24 (ucast (m (data + 3)))
      else of_nat data)"

definition parse_item :: "ram \<Rightarrow> hid_report_parser_t \<Rightarrow> (hid_report_parser_item_t \<times> hid_report_parser_t) option" where
  "parse_item m parser =
     (if ParserLength parser \<le> Offset parser then None
      else let hdr = Ptr parser + unat (Offset parser); key = m hdr in
        if drop_bit 4 key \<noteq> 15
        then let len = short_item_length (key AND 3); data = hdr + 1 in
          Some (\<lparr>ItemType = drop_bit 2 key AND 3, ItemTag = drop_bit 4 key, ItemLength = len, ItemValue = item_value m data len\<rparr>,
                parser\<lparr>Offset := Offset parser + (1 + ucast len)\<rparr>)
        else let len = m (hdr + 1); data = hdr + 3 in
          Some (\<lparr>ItemType = drop_bit 2 key AND 3, ItemTag = m (hdr + 2), ItemLength = len, ItemValue = item_value m data len\<rparr>,
                parser\<lparr>Offset := Offset parser + (3 + ucast len)\<rparr>))"

text \<open>One item of \<^verbatim>\<open>usb_hid_parse_report_descriptor\<close>: what it finds, if anything.\<close>

definition parse_main_item ::
  "hid_report_parser_item_t \<Rightarrow> hid_report_parser_global_state_t \<Rightarrow> hid_parse_found option \<times> hid_report_parser_global_state_t" where
  "parse_main_item item g =
     (if ItemTag item = USB_HID_ITEM_TAG_INPUT
      then if ReportSize g \<noteq> 0
        then (if bit (ItemValue item) 0 then None else Some HID_PARSE_FOUND_INPUT,
              g\<lparr>InputOffset := NextInputOffset g, NextInputOffset := NextInputOffset g + ReportSize g * ReportCount g\<rparr>)
        else (None, g)
      else if ItemTag item = USB_HID_ITEM_TAG_OUTPUT
      then if ReportSize g \<noteq> 0
        then (Some HID_PARSE_FOUND_OUTPUT,
              g\<lparr>OutputOffset := NextOutputOffset g, NextOutputOffset := NextOutputOffset g + ReportSize g * ReportCount g\<rparr>)
        else (None, g)
      else if ItemTag item = USB_HID_ITEM_TAG_END_COLLECTION then (Some HID_PARSE_FOUND_END, g)
      else (None, g))"

definition parse_found ::
  "hid_report_parser_item_t \<Rightarrow> hid_report_parser_global_state_t \<Rightarrow> hid_parse_found option \<times> hid_report_parser_global_state_t" where
  "parse_found item g =
     (if ItemType item = USB_HID_ITEM_TYPE_GLOBAL then (None, parse_item_global (ItemTag item) (ItemValue item) g)
      else if ItemType item = USB_HID_ITEM_TYPE_LOCAL then (Some HID_PARSE_FOUND_LOCAL, g)
      else if ItemType item = USB_HID_ITEM_TYPE_MAIN then parse_main_item item g
      else (None, g))"

type_synonym report_parser = "hid_report_parser_t \<times> hid_report_parser_global_state_t"

fun usb_hid_parse_report_descriptor ::
  "nat \<Rightarrow> ram \<Rightarrow> report_parser \<Rightarrow> ((hid_report_parser_item_t \<times> hid_parse_found) option \<times> report_parser) res" where
  "usb_hid_parse_report_descriptor 0 m (parser, g) = Inl OutOfFuel"
| "usb_hid_parse_report_descriptor (Suc fuel) m (parser, g) =
     (case parse_item m parser of
        None \<Rightarrow> Inr (None, parser, g)
      | Some (item, parser1) \<Rightarrow>
          (case parse_found item g of
             (Some found, g1) \<Rightarrow> Inr (Some (item, found), parser1, g1)
           | (None, g1) \<Rightarrow> usb_hid_parse_report_descriptor fuel m (parser1, g1)))"

text \<open>The parser behind the collection, or \<open>None\<close> when there is none.\<close>

fun usb_hid_parse_find_collection :: "nat \<Rightarrow> ram \<Rightarrow> u8 \<Rightarrow> hid_report_parser_t \<Rightarrow> hid_report_parser_t option res" where
  "usb_hid_parse_find_collection 0 m collection_type copy = Inl OutOfFuel"
| "usb_hid_parse_find_collection (Suc fuel) m collection_type copy =
     (case parse_item m copy of
        None \<Rightarrow> Inr None
      | Some (item, copy1) \<Rightarrow>
          if ItemType item = USB_HID_ITEM_TYPE_MAIN \<and> ItemTag item = USB_HID_ITEM_TAG_COLLECTION \<and>
             ItemValue item = ucast collection_type
          then Inr (Some copy1)
          else usb_hid_parse_find_collection fuel m collection_type copy1)"

text \<open>The usages are kept as a triple: usage, minimum and maximum.\<close>

definition usb_hid_parse_local_item :: "hid_report_parser_item_t \<Rightarrow> u32 \<times> u32 \<times> u32 \<Rightarrow> (u32 \<times> u32 \<times> u32) res" where
  "usb_hid_parse_local_item item us =
     ASSERT (ItemType item = USB_HID_ITEM_TYPE_LOCAL) KERNEL_ERROR_KERNEL_PANIC
       (case us of (usage, usage_min, usage_max) \<Rightarrow>
          Inr (if ItemTag item = 0 then (ItemValue item, usage_min, usage_max)
               else if ItemTag item = 1 then (usage, ItemValue item, usage_max)
               else if ItemTag item = 2 then (usage, usage_min, ItemValue item)
               else us))"

text \<open>
  \<^verbatim>\<open>usb_hid_read_field\<close>: the bytes written to \<^verbatim>\<open>data\<close>, whose number is the result.
  The loop ends because the length shrinks by eight in every round.
\<close>

function read_field_loop :: "ram \<Rightarrow> nat \<Rightarrow> nat \<Rightarrow> u32 \<Rightarrow> nat \<Rightarrow> u8 list \<times> u32 \<times> nat" where
  "read_field_loop report skip offset acc bit_length =
     (if 8 - skip < bit_length
      then let acc1 = acc OR push_bit 8 (ucast (report offset)); b = ucast (drop_bit skip acc1) in
        if bit_length < 8 then ([b], acc1, bit_length)
        else (case read_field_loop report skip (offset + 1) (drop_bit 8 acc1) (bit_length - 8) of
                (bs, acc2, n) \<Rightarrow> (b # bs, acc2, n))
      else ([], acc, bit_length))"
  by pat_completeness auto
termination
  by (relation "measure (\<lambda>(_, _, _, _, n). n)") auto

definition usb_hid_read_field :: "u32 \<Rightarrow> u32 \<Rightarrow> ram \<Rightarrow> u8 list" where
  "usb_hid_read_field bit_offset bit_length report =
     (if bit_length \<noteq> 0
      then let offset = unat (drop_bit 3 bit_offset); skip = unat (bit_offset AND 7) in
        (case read_field_loop report skip (offset + 1) (ucast (report offset)) (unat bit_length) of
           (bs, acc, n) \<Rightarrow> if n \<noteq> 0 then bs @ [ucast (drop_bit skip acc AND (push_bit n 1 - 1))] else bs)
      else [])"

section \<open>The descriptor of a keyboard\<close>

text \<open>
  \<^verbatim>\<open>_parse_report_descriptor\<close> of \<^verbatim>\<open>usbkb.c\<close>: whether there is an input report of
  keys, and the greatest report number.  \<open>k\<close> is the fuel of a single search.
\<close>

fun kb_parse_loop ::
  "nat \<Rightarrow> nat \<Rightarrow> ram \<Rightarrow> report_parser \<Rightarrow> u32 \<times> u32 \<times> u32 \<Rightarrow> u8 \<Rightarrow> bool \<Rightarrow> (bool \<times> u8 \<times> report_parser) res" where
  "kb_parse_loop 0 k m p us max_id usage_ok = Inl OutOfFuel"
| "kb_parse_loop (Suc fuel) k m p us max_id usage_ok =
     rbind (usb_hid_parse_report_descriptor k m p) (\<lambda>(r, p1).
       case r of
         None \<Rightarrow> Inr (usage_ok, max_id, p1)
       | Some (item, found) \<Rightarrow>
           let max_id1 = (if max_id < ReportId (snd p1) then ReportId (snd p1) else max_id) in
           (case found of
              HID_PARSE_FOUND_LOCAL \<Rightarrow>
                rbind (usb_hid_parse_local_item item us) (\<lambda>us1. kb_parse_loop fuel k m p1 us1 max_id1 usage_ok)
            | HID_PARSE_FOUND_INPUT \<Rightarrow>
                kb_parse_loop fuel k m p1 us max_id1 (if UsagePage (snd p1) = 7 then True else usage_ok)
            | _ \<Rightarrow> kb_parse_loop fuel k m p1 us max_id1 usage_ok))"

definition kb_parse_report_descriptor :: "nat \<Rightarrow> ram \<Rightarrow> report_parser \<Rightarrow> u8 \<Rightarrow> (bool \<times> u8 \<times> report_parser) res" where
  "kb_parse_report_descriptor fuel m p max_id = kb_parse_loop fuel fuel m p (0, 0, 0) max_id False"

end
