(* ===== verification/HidItems.thy ===== *)
theory HidItems
  imports HidReport
begin

text \<open>
  What the parser of report descriptors and the field reader do: encoded items are parsed to what they encode, the search of
  the keyboard driver sees every item once, and a field is read bit by bit.
\<close>

unbundle bit_operations_syntax

section \<open>Fields of a report\<close>

text \<open>Bit \<open>k\<close> of a report.\<close>

definition report_bit :: "ram \<Rightarrow> nat \<Rightarrow> bool" where
  "report_bit report k = bit (report (k div 8)) (k mod 8)"

text \<open>The bytes written at the end of the loop.\<close>

definition read_field_end :: "nat \<Rightarrow> u8 list \<times> u32 \<times> nat \<Rightarrow> u8 list" where
  "read_field_end skip r = (case r of (bs, acc, n) \<Rightarrow> if n \<noteq> 0 then bs @ [ucast (drop_bit skip acc AND (push_bit n 1 - 1))] else bs)"

definition two_bytes :: "ram \<Rightarrow> nat \<Rightarrow> u32" where
  "two_bytes report b = ucast (report b) OR push_bit 8 (ucast (report (Suc b)))"

lemma drop_two_bytes: "drop_bit 8 (two_bytes report b) = ucast (report (Suc b))"
  unfolding two_bytes_def by (rule bit_word_eqI) (auto simp: bit_simps dest: bit_imp_le_length)

lemma report_bit_first: "k < 8 \<Longrightarrow> report_bit report (8 * b + k) \<longleftrightarrow> bit (report b) k"
  by (simp add: report_bit_def)

lemma report_bit_second: "8 \<le> k \<Longrightarrow> k < 16 \<Longrightarrow> report_bit report (8 * b + k) \<longleftrightarrow> bit (report (Suc b)) (k - 8)"
  using report_bit_first [of "k - 8" report "Suc b"] by (simp add: algebra_simps)

lemma bit_two_bytes:
  assumes "sk < 8" and "j < 8"
  shows "bit (ucast (drop_bit sk (two_bytes report b)) :: u8) j \<longleftrightarrow> report_bit report (8 * b + sk + j)"
proof (cases "sk + j < 8")
  case True
  then show ?thesis using assms report_bit_first [of "sk + j" report b] by (simp add: two_bytes_def bit_simps add.assoc)
next
  case False
  then have "\<not> bit (report b) (sk + j)" by (auto dest: bit_imp_le_length)
  then show ?thesis using False assms report_bit_second [of "sk + j" report b] by (auto simp: two_bytes_def bit_simps add.assoc)
qed

lemma bit_one_byte:
  assumes "n + sk \<le> 8" and "j < 8"
  shows "bit (ucast (drop_bit sk (ucast (report b) :: u32) AND (push_bit n 1 - 1)) :: u8) j \<longleftrightarrow> j < n \<and> report_bit report (8 * b + sk + j)"
proof -
  have "push_bit n 1 - 1 = (mask n :: u32)" by (simp add: mask_eq_exp_minus_1)
  then show ?thesis using assms report_bit_first [of "sk + j" report b] by (auto simp: bit_simps add.assoc)
qed

declare read_field_loop.simps [simp del]

lemma read_field_end_Cons: "read_field_end sk (case r of (bs, y) \<Rightarrow> (x # bs, y)) = x # read_field_end sk r"
  by (simp add: read_field_end_def split: prod.split)

lemma read_field_step:
  assumes "8 - sk < n" "8 \<le> n"
  shows "read_field_end sk (read_field_loop report sk (Suc b) (ucast (report b)) n) =
    ucast (drop_bit sk (two_bytes report b)) #
      read_field_end sk (read_field_loop report sk (Suc (Suc b)) (ucast (report (Suc b))) (n - 8))"
  using assms
  by (subst read_field_loop.simps) (simp add: two_bytes_def [symmetric] drop_two_bytes read_field_end_Cons Let_def del: drop_bit_or)

lemma read_field_bits:
  assumes "sk < 8" and "n mod 8 + sk \<le> 8"
  shows "length (read_field_end sk (read_field_loop report sk (Suc b) (ucast (report b)) n)) = (n + 7) div 8 \<and>
    (\<forall>i < 8 * ((n + 7) div 8). bit (read_field_end sk (read_field_loop report sk (Suc b) (ucast (report b)) n) ! (i div 8)) (i mod 8) \<longleftrightarrow>
       i < n \<and> report_bit report (8 * b + sk + i))"
  using assms(2)
proof (induction n arbitrary: b rule: less_induct)
  case (less n)
  show ?case
  proof (cases "8 - sk < n")
    case True
    then have n: "8 \<le> n" using less.prems by (cases "n < 8") auto
    have IH: "length (read_field_end sk (read_field_loop report sk (Suc (Suc b)) (ucast (report (Suc b))) (n - 8))) = (n - 8 + 7) div 8 \<and>
    (\<forall>i < 8 * ((n - 8 + 7) div 8). bit (read_field_end sk (read_field_loop report sk (Suc (Suc b)) (ucast (report (Suc b))) (n - 8)) ! (i div 8)) (i mod 8) \<longleftrightarrow>
       i < n - 8 \<and> report_bit report (8 * Suc b + sk + i))"
      using n less.prems by (intro less.IH) (simp_all add: le_mod_geq)
    have len: "(n + 7) div 8 = Suc ((n - 8 + 7) div 8)" using n by (simp add: div_if)
    have "bit ((ucast (drop_bit sk (two_bytes report b)) # R) ! (i div 8)) (i mod 8) \<longleftrightarrow> i < n \<and> report_bit report (8 * b + sk + i)"
      if i: "i < 8 * ((n + 7) div 8)" and R: "R = read_field_end sk (read_field_loop report sk (Suc (Suc b)) (ucast (report (Suc b))) (n - 8))" for i R
    proof (cases "i < 8")
      case True
      then show ?thesis using n assms(1) by (simp add: bit_two_bytes)
    next
      case False
      then have "i div 8 = Suc ((i - 8) div 8)" "i mod 8 = (i - 8) mod 8" by (simp_all add: div_if mod_if)
      moreover have "i - 8 < 8 * ((n - 8 + 7) div 8)" using i len False by simp
      moreover have "i - 8 < n - 8 \<longleftrightarrow> i < n" using n False by arith
      ultimately show ?thesis using IH R False by (simp add: algebra_simps)
    qed
    then show ?thesis using IH len by (simp add: read_field_step [OF True n])
  next
    case False
    then have "n = 0 \<or> n \<noteq> 0 \<and> (n + 7) div 8 = 1" by (auto simp: div_if)
    then show ?thesis using False bit_one_byte [of n sk _ report b] by (subst (1 2) read_field_loop.simps) (auto simp: read_field_end_def)
  qed
qed

lemma read_field_long:
  assumes "sk < 8" and "8 < n mod 8 + sk"
  shows "length (read_field_end sk (read_field_loop report sk (Suc b) (ucast (report b)) n)) = (n + 7) div 8 + 1"
  using assms(2)
proof (induction n arbitrary: b rule: less_induct)
  case (less n)
  show ?case
  proof (cases "8 \<le> n")
    case True
    then have "(n + 7) div 8 = Suc ((n - 8 + 7) div 8)" by (simp add: div_if)
    then show ?thesis
      using True less.IH [of "n - 8" "Suc b"] less.prems by (subst read_field_step) (simp_all add: le_mod_geq)
  next
    case False
    then show ?thesis using less.prems assms(1) by (subst read_field_loop.simps) (auto simp: read_field_end_def div_if Let_def)
  qed
qed

lemma read_field_eq:
  "usb_hid_read_field bo bl report =
     read_field_end (unat bo mod 8) (read_field_loop report (unat bo mod 8) (Suc (unat bo div 8)) (ucast (report (unat bo div 8))) (unat bl))"
proof -
  have "unat (drop_bit 3 bo) = unat bo div 8" "unat (bo AND 7) = unat bo mod 8"
    using take_bit_eq_mod [of 3 "unat bo"] by (simp_all add: unat_drop_bit_eq drop_bit_eq_div unsigned_and_eq take_bit_eq_mask mask_eq_exp_minus_1 unat_div_distrib)
  then show ?thesis 
    by (cases "bl = 0") (simp_all add: usb_hid_read_field_def read_field_end_def Let_def read_field_loop.simps [of report _ _ _ 0])
qed

text \<open>A field whose last partial byte does not cross a byte boundary of the report is read exactly: one byte for every eight
  bits, and every bit of the result is the bit of the report at that distance from the offset, those behind the field being 0.
\<close>

theorem hid_read_field_reads:
  assumes "unat bl mod 8 + unat bo mod 8 \<le> 8"
  shows "length (usb_hid_read_field bo bl report) = (unat bl + 7) div 8 \<and>
    (\<forall>i < 8 * ((unat bl + 7) div 8).
       bit (usb_hid_read_field bo bl report ! (i div 8)) (i mod 8) \<longleftrightarrow> i < unat bl \<and> report_bit report (unat bo + i))"
proof -
  have "8 * (unat bo div 8) + unat bo mod 8 = unat bo" by simp
  then show ?thesis using read_field_bits [OF _ assms, of report "unat bo div 8"] by (simp add: read_field_eq)
qed

theorem hid_read_field_reads_witness:
  "length (usb_hid_read_field 3 13 (store 0 [0xF8, 0xFF] (\<lambda>_. 0))) = 2 \<and>
    (bit (usb_hid_read_field 3 13 (store 0 [0xF8, 0xFF] (\<lambda>_. 0)) ! 1) 4 \<longleftrightarrow> report_bit (store 0 [0xF8, 0xFF] (\<lambda>_. 0)) 15)"
  using hid_read_field_reads [of 13 3 "store 0 [0xF8, 0xFF] (\<lambda>_. 0)"] by (auto dest!: spec [of _ 12])

text \<open>A field whose last partial byte crosses a byte boundary of the report is written with one byte more than it has.
\<close>

theorem hid_read_field_straddles:
  assumes "8 < unat bl mod 8 + unat bo mod 8"
  shows "length (usb_hid_read_field bo bl report) = (unat bl + 7) div 8 + 1"
  using read_field_long [OF _ assms, of report "unat bo div 8"] by (simp add: read_field_eq)

theorem hid_read_field_straddles_witness: "length (usb_hid_read_field 4 6 (\<lambda>_. 0xFF)) = 2"
  using hid_read_field_straddles [of 6 4 "\<lambda>_. 0xFF"] by simp

section \<open>Items\<close>

text \<open>The items of a report descriptor and their encoding, with the type, the tag and the data of each.\<close>

datatype hid_item = ShortItem u8 u8 "u8 list" | LongItem u8 u8 "u8 list"

definition item_ok :: "hid_item \<Rightarrow> bool" where
  "item_ok it = (case it of
      ShortItem ty tag bs \<Rightarrow> ty < 4 \<and> tag < 15 \<and> length bs \<in> {0, 1, 2, 4}
    | LongItem ty tag bs \<Rightarrow> ty < 4 \<and> length bs < 256)"

definition encode_item :: "hid_item \<Rightarrow> u8 list" where
  "encode_item it = (case it of
      ShortItem ty tag bs \<Rightarrow> (push_bit 4 tag OR push_bit 2 ty OR (if length bs = 4 then 3 else of_nat (length bs))) # bs
    | LongItem ty tag bs \<Rightarrow> [push_bit 4 15 OR push_bit 2 ty OR 2, of_nat (length bs), tag] @ bs)"

definition le_value :: "u8 list \<Rightarrow> u32" where
  "le_value bs = foldr (\<lambda>b v. ucast b OR push_bit 8 v) bs 0"

text \<open>What the parser makes of an item at address \<open>a\<close>.\<close>

definition parsed_item :: "nat \<Rightarrow> hid_item \<Rightarrow> hid_report_parser_item_t" where
  "parsed_item a it = (case it of
      ShortItem ty tag bs \<Rightarrow> \<lparr>ItemType = ty, ItemTag = tag, ItemLength = of_nat (length bs),
        ItemValue = if bs = [] then of_nat (a + 1) else le_value bs\<rparr>
    | LongItem ty tag bs \<Rightarrow> \<lparr>ItemType = ty, ItemTag = tag, ItemLength = of_nat (length bs),
        ItemValue = if bs = [] \<or> 4 < length bs then of_nat (a + 3) else le_value bs\<rparr>)"

lemma bit_below: "bit v n \<Longrightarrow> v < 2 ^ k \<Longrightarrow> n < k" for v :: u8
  using less_mask_eq [of v k] by (metis bit_mask_iff bit_and_iff)

lemma key_fields:
  fixes ty tag sz :: u8
  assumes "ty < 4" and "tag \<le> 15" and "sz < 4"
  shows "drop_bit 4 (push_bit 4 tag OR push_bit 2 ty OR sz) = tag"
    "drop_bit 2 (push_bit 4 tag OR push_bit 2 ty OR sz) AND 3 = ty"
    "(push_bit 4 tag OR push_bit 2 ty OR sz) AND 3 = sz"
proof -
  have tag: "tag < 16" using assms(2) by (simp add: word_le_nat_alt word_less_nat_alt)
  have tag_bits: "bit tag n \<Longrightarrow> n < 4" for n using bit_below [of tag n 4] tag by simp
  have ty_bits: "bit ty n \<Longrightarrow> n < 2" for n using bit_below [of ty n 2] assms(1) by simp
  have sz_bits: "bit sz n \<Longrightarrow> n < 2" for n using bit_below [of sz n 2] assms(3) by simp
  have m3: "(3 :: u8) = mask 2" by (simp add: mask_eq_exp_minus_1)
  show "drop_bit 4 (push_bit 4 tag OR push_bit 2 ty OR sz) = tag"
    by (rule bit_word_eqI) (auto simp: bit_simps dest: tag_bits ty_bits sz_bits)
  show "drop_bit 2 (push_bit 4 tag OR push_bit 2 ty OR sz) AND 3 = ty"
    unfolding m3 by (rule bit_word_eqI) (auto simp: bit_simps dest: tag_bits ty_bits sz_bits)
  show "(push_bit 4 tag OR push_bit 2 ty OR sz) AND 3 = sz"
    unfolding m3 by (rule bit_word_eqI) (auto simp: bit_simps dest: tag_bits ty_bits sz_bits)
qed

lemma load_few:
  "load a 1 m = [m a]" "load a 2 m = [m a, m (a + 1)]" "load a 3 m = [m a, m (a + 1), m (a + 2)]"
  "load a 4 m = [m a, m (a + 1), m (a + 2), m (a + 3)]"
  by (simp_all add: numeral_eq_Suc load_Suc)

lemma item_value_le:
  assumes "load a (length bs) m = bs" and "1 \<le> length bs" and "length bs \<le> 4"
  shows "item_value m a (of_nat (length bs)) = le_value bs"
proof -
  consider "length bs = 1" | "length bs = 2" | "length bs = 3" | "length bs = 4" using assms(2,3) by linarith
  then have "item_value m a (of_nat (length bs)) = le_value (load a (length bs) m)"
    by cases (simp_all add: item_value_def le_value_def load_few load_few(1) [unfolded One_nat_def] push_bit_or or.assoc)
  then show ?thesis unfolding assms(1) .
qed

lemma item_value_address:
  assumes "n < 256" and "n = 0 \<or> 4 < n"
  shows "item_value m a (of_nat n) = of_nat a"
proof -
  have "of_nat n \<noteq> (1 :: u8) \<and> of_nat n \<noteq> (2 :: u8) \<and> of_nat n \<noteq> (3 :: u8) \<and> of_nat n \<noteq> (4 :: u8)"
    using assms by (auto simp: word_unat_eq_iff unsigned_of_nat take_bit_nat_eq_self)
  then show ?thesis by (simp add: item_value_def)
qed

lemma short_sizes:
  assumes "length bs \<in> {0, 1, 2, 4}"
  defines "sz \<equiv> if length bs = 4 then 3 else of_nat (length bs) :: u8"
  shows "sz < 4" "short_item_length sz = of_nat (length bs)" "ucast (of_nat (length bs) :: u8) = (of_nat (length bs) :: u16)"
  using assms by (auto simp: short_item_length_def)

lemma load_append:
  assumes "load a (length (bs @ cs)) m = bs @ cs"
  shows "load a (length bs) m = bs" "load (a + length bs) (length cs) m = cs"
  using assms by (simp_all add: load_add)

lemma parse_item_encoded:
  assumes ok: "item_ok it" and mem: "load a (length (encode_item it)) m = encode_item it"
    and a: "a = Ptr p + unat (Offset p)" and fits: "Offset p < ParserLength p"
  shows "parse_item m p = Some (parsed_item a it, p\<lparr>Offset := Offset p + of_nat (length (encode_item it))\<rparr>)"
proof (cases it)
  case (ShortItem ty tag bs)
  let ?sz = "if length bs = 4 then 3 else of_nat (length bs) :: u8" and ?key = "push_bit 4 tag OR push_bit 2 ty OR (if length bs = 4 then 3 else of_nat (length bs) :: u8)"
  have k: "ty < 4" "tag < 15" "length bs \<in> {0, 1, 2, 4}" using ok ShortItem by (simp_all add: item_ok_def)
  have bytes: "m a = ?key" "load (a + 1) (length bs) m = bs"
    using mem load_append [of a "[?key]" bs m] unfolding ShortItem encode_item_def by (simp_all add: load_Suc)
  note key = key_fields [of ty tag ?sz, OF k(1) less_imp_le short_sizes(1) [OF k(3)]]
  have tag: "tag \<le> 15" "tag \<noteq> 15" using k(2) by auto
  have v: "item_value m (a + 1) (of_nat (length bs)) = (if bs = [] then of_nat (a + 1) else le_value bs)"
    using k(3) bytes(2) item_value_le [of "a + 1" bs m] item_value_address [of 0 m "a + 1"] by (auto simp: Suc_le_eq)
  show ?thesis
    unfolding parse_item_def a [symmetric] bytes(1) Let_def ShortItem
    using fits tag key_fields [OF k(1) tag(1) short_sizes(1) [OF k(3)]] short_sizes(2,3) [OF k(3)] v
    by (simp add: parsed_item_def encode_item_def)
next
  case (LongItem ty tag bs)
  let ?key = "push_bit 4 15 OR push_bit 2 ty OR (2 :: u8)"
  have k: "ty < 4" "length bs < 256" using ok LongItem by (simp_all add: item_ok_def)
  have bytes: "m a = ?key" "m (a + 1) = of_nat (length bs)" "m (a + 2) = tag" "load (a + 3) (length bs) m = bs"
    using mem load_append [of a "[?key, of_nat (length bs), tag]" bs m] unfolding LongItem encode_item_def
    by (simp_all add: load_Suc numeral_3_eq_3)
  have v: "item_value m (a + 3) (of_nat (length bs)) = (if bs = [] \<or> 4 < length bs then of_nat (a + 3) else le_value bs)"
    using k(2) bytes(4) item_value_le [of "a + 3" bs m] item_value_address [of "length bs" m "a + 3"] by (auto simp: Suc_le_eq)
  have u: "ucast (of_nat (length bs) :: u8) = (of_nat (length bs) :: u16)"
    using k(2) by (simp add: word_unat_eq_iff unsigned_of_nat unsigned_ucast_eq take_bit_nat_eq_self)
  show ?thesis
    unfolding parse_item_def a [symmetric] bytes(1) Let_def LongItem
    using fits key_fields [OF k(1), of 15 2] v u bytes(2,3)
    by (simp add: parsed_item_def encode_item_def)
qed

section \<open>Runs of items\<close>

definition remaining :: "ram \<Rightarrow> hid_report_parser_t \<Rightarrow> hid_item list \<Rightarrow> bool" where
  "remaining m p its \<longleftrightarrow>
     load (Ptr p + unat (Offset p)) (length (concat (map encode_item its))) m = concat (map encode_item its) \<and>
     unat (Offset p) + length (concat (map encode_item its)) = unat (ParserLength p) \<and> (\<forall>it\<in>set its. item_ok it)"

fun parsed_items :: "nat \<Rightarrow> hid_item list \<Rightarrow> hid_report_parser_item_t list" where
  "parsed_items a [] = []"
| "parsed_items a (it # its) = parsed_item a it # parsed_items (a + length (encode_item it)) its"

lemma remaining_Nil: "remaining m p [] \<Longrightarrow> parse_item m p = None"
  by (simp add: remaining_def parse_item_def word_le_nat_alt)

lemma encode_item_size: "0 < length (encode_item it)"
  by (cases it) (simp_all add: encode_item_def)

lemma remaining_Cons:
  assumes "remaining m p (it # its)"
  obtains p1 where "parse_item m p = Some (parsed_item (Ptr p + unat (Offset p)) it, p1)" "remaining m p1 its"
    "Ptr p1 + unat (Offset p1) = Ptr p + unat (Offset p) + length (encode_item it)"
proof -
  let ?a = "Ptr p + unat (Offset p)" and ?n = "length (encode_item it)" and ?cs = "concat (map encode_item its)"
  have r: "load ?a (length (encode_item it @ ?cs)) m = encode_item it @ ?cs"
    "unat (Offset p) + ?n + length ?cs = unat (ParserLength p)" "item_ok it" "\<forall>it\<in>set its. item_ok it"
    using assms by (simp_all add: remaining_def)
  have "unat (Offset p) + ?n < 2 ^ 16" using r(2) unsigned_less [of "ParserLength p", where ?'a = nat] by simp
  then have o: "unat (Offset p + of_nat ?n) = unat (Offset p) + ?n"
    by (simp add: unat_word_ariths(1) unsigned_of_nat take_bit_nat_eq_self)
  have "Offset p < ParserLength p" unfolding word_less_nat_alt using r(2) encode_item_size [of it] by linarith
  then have "parse_item m p = Some (parsed_item ?a it, p\<lparr>Offset := Offset p + of_nat ?n\<rparr>)"
    by (intro parse_item_encoded [OF r(3) load_append(1) [OF r(1)] refl])
  moreover have "remaining m (p\<lparr>Offset := Offset p + of_nat ?n\<rparr>) its"
    using r load_append(2) [OF r(1)] by (simp add: remaining_def o add.assoc)
  ultimately show thesis using that o by simp
qed

text \<open>The search stops behind the first item it reports; \<open>search_items\<close> is the search on the list.\<close>

fun search_items ::
  "hid_report_parser_item_t list \<Rightarrow> hid_report_parser_global_state_t
    \<Rightarrow> (hid_report_parser_item_t \<times> hid_parse_found) option \<times> nat \<times> hid_report_parser_global_state_t" where
  "search_items [] g = (None, 0, g)"
| "search_items (x # xs) g = (case parse_found x g of
      (Some found, g1) \<Rightarrow> (Some (x, found), 1, g1)
    | (None, g1) \<Rightarrow> (case search_items xs g1 of (r, n, g2) \<Rightarrow> (r, Suc n, g2)))"

lemma search_remaining:
  assumes "remaining m p its" and "length its < fuel"
  shows "\<exists>r n g1 p1. search_items (parsed_items (Ptr p + unat (Offset p)) its) g = (r, n, g1) \<and> n \<le> length its \<and>
    usb_hid_parse_report_descriptor fuel m (p, g) = Inr (r, p1, g1) \<and> remaining m p1 (drop n its) \<and>
    parsed_items (Ptr p1 + unat (Offset p1)) (drop n its) = drop n (parsed_items (Ptr p + unat (Offset p)) its) \<and>
    (r \<noteq> None \<longrightarrow> 0 < n) \<and> (r = None \<longrightarrow> n = length its)"
  using assms
proof (induction fuel arbitrary: p its g)
  case (Suc fuel)
  show ?case
  proof (cases its)
    case Nil
    then show ?thesis using Suc.prems remaining_Nil by simp
  next
    case (Cons it its1)
    obtain p1 where p1: "parse_item m p = Some (parsed_item (Ptr p + unat (Offset p)) it, p1)" "remaining m p1 its1"
      "Ptr p1 + unat (Offset p1) = Ptr p + unat (Offset p) + length (encode_item it)"
      using remaining_Cons Suc.prems(1) Cons by blast
    obtain f g1 where fg: "parse_found (parsed_item (Ptr p + unat (Offset p)) it) g = (f, g1)" by fastforce
    show ?thesis
    proof (cases f)
      case (Some found)
      then show ?thesis using p1 fg Cons by simp
    next
      case None
      with Suc.IH [OF p1(2), of g1] Suc.prems(2) Cons show ?thesis by (fastforce simp: p1 fg)
    qed
  qed
qed simp

section \<open>The keyboard\<close>

text \<open>An input item that holds data, and the last value given to a global item.\<close>

definition data_input :: "hid_report_parser_item_t \<Rightarrow> bool" where
  "data_input x \<longleftrightarrow> ItemType x = USB_HID_ITEM_TYPE_MAIN \<and> ItemTag x = USB_HID_ITEM_TAG_INPUT \<and> \<not> bit (ItemValue x) 0"

fun last_global :: "u8 \<Rightarrow> u8 \<Rightarrow> hid_report_parser_item_t list \<Rightarrow> u8" where
  "last_global tag v [] = v"
| "last_global tag v (x # xs) =
     last_global tag (if ItemType x = USB_HID_ITEM_TYPE_GLOBAL \<and> ItemTag x = tag then ucast (ItemValue x) else v) xs"

text \<open>Some input item holds data of the page of keys.\<close>

definition has_keys :: "hid_report_parser_item_t list \<Rightarrow> hid_report_parser_global_state_t \<Rightarrow> bool" where
  "has_keys xs g \<longleftrightarrow> (\<exists>i<length xs. data_input (xs ! i) \<and>
     last_global 7 (ReportSize g) (take i xs) \<noteq> 0 \<and> last_global 0 (UsagePage g) (take i xs) = 7)"

lemma parse_found_globals:
  assumes "parse_found x g = (f, g1)"
  shows "UsagePage g1 = last_global 0 (UsagePage g) [x]" "ReportSize g1 = last_global 7 (ReportSize g) [x]"
    "f = Some HID_PARSE_FOUND_INPUT \<longleftrightarrow> data_input x \<and> ReportSize g \<noteq> 0" "f = Some HID_PARSE_FOUND_LOCAL \<longleftrightarrow> ItemType x = USB_HID_ITEM_TYPE_LOCAL"
  using assms by (auto simp: parse_found_def parse_main_item_def parse_item_global_def data_input_def split: if_splits)

lemma data_input_global: "data_input x \<Longrightarrow> last_global tag v [x] = v"
  by (simp add: data_input_def)

lemma has_keys_Nil [simp]: "\<not> has_keys [] g"
  by (simp add: has_keys_def)

lemma has_keys_Cons:
  assumes "parse_found x g = (f, g1)"
  shows "has_keys (x # xs) g \<longleftrightarrow> f = Some HID_PARSE_FOUND_INPUT \<and> UsagePage g1 = 7 \<or> has_keys xs g1"
  using parse_found_globals [OF assms] data_input_global [of x 0 "UsagePage g"]
  by (auto simp: has_keys_def Ex_less_Suc2)

lemma search_keys:
  "search_items xs g = (r, n, g1) \<Longrightarrow> has_keys xs g \<longleftrightarrow>
     (case r of None \<Rightarrow> False | Some (x, f) \<Rightarrow> f = HID_PARSE_FOUND_INPUT \<and> UsagePage g1 = 7 \<or> has_keys (drop n xs) g1)"
proof (induction xs arbitrary: g r n g1)
  case (Cons y ys)
  obtain f g2 where f: "parse_found y g = (f, g2)" by fastforce
  obtain r2 n2 g3 where s2: "search_items ys g2 = (r2, n2, g3)" by (cases "search_items ys g2")
  show ?case using Cons.prems Cons.IH [OF s2] by (cases f) (auto simp: has_keys_Cons [OF f] f s2 split: option.splits)
qed auto

lemma search_local:
  "search_items xs g = (Some (x, HID_PARSE_FOUND_LOCAL), n, g1) \<Longrightarrow> ItemType x = USB_HID_ITEM_TYPE_LOCAL"
proof (induction xs arbitrary: g n g1)
  case (Cons y ys)
  obtain f g2 where f: "parse_found y g = (f, g2)" by fastforce
  obtain r2 n2 g3 where s2: "search_items ys g2 = (r2, n2, g3)" by (cases "search_items ys g2")
  show ?case using Cons.prems Cons.IH [of g2 n2 g3] s2 parse_found_globals(4) [OF f] by (cases f) (auto simp: f)
qed auto

lemma kb_parse_loop_finds:
  assumes "remaining m p its" and "length its < fuel" and "length its < k"
  shows "\<exists>mx1 p1. kb_parse_loop fuel k m (p, g) us mx ok =
    Inr (ok \<or> has_keys (parsed_items (Ptr p + unat (Offset p)) its) g, mx1, p1)"
  using assms
proof (induction fuel arbitrary: p its g us mx ok)
  case (Suc fuel)
  obtain r n g1 p1 where s: "search_items (parsed_items (Ptr p + unat (Offset p)) its) g = (r, n, g1)"
    "usb_hid_parse_report_descriptor k m (p, g) = Inr (r, p1, g1)" "remaining m p1 (drop n its)"
    "parsed_items (Ptr p1 + unat (Offset p1)) (drop n its) = drop n (parsed_items (Ptr p + unat (Offset p)) its)"
    "r \<noteq> None \<longrightarrow> 0 < n" "n \<le> length its"
    using search_remaining [OF Suc.prems(1,3), of g] by blast
  show ?case
  proof (cases r)
    case None
    then show ?thesis using s search_keys [OF s(1)] by simp
  next
    case (Some xf)
    obtain x f where xf: "r = Some (x, f)" using Some by (cases xf) simp
    have l: "length (drop n its) < fuel" "length (drop n its) < k" using Suc.prems s(5,6) Some by auto
    have "\<exists>us1. usb_hid_parse_local_item x us = Inr us1" if "f = HID_PARSE_FOUND_LOCAL"
      using search_local [of _ g x n g1] s(1) xf that by (cases us) (simp add: usb_hid_parse_local_item_def)
    then obtain us1 where us1: "f = HID_PARSE_FOUND_LOCAL \<Longrightarrow> usb_hid_parse_local_item x us = Inr us1"
      "f \<noteq> HID_PARSE_FOUND_LOCAL \<Longrightarrow> us1 = us" by (cases "f = HID_PARSE_FOUND_LOCAL") auto
    let ?mx = "if mx < ReportId g1 then ReportId g1 else mx"
    have "kb_parse_loop (Suc fuel) k m (p, g) us mx ok =
        kb_parse_loop fuel k m (p1, g1) us1 ?mx (ok \<or> f = HID_PARSE_FOUND_INPUT \<and> UsagePage g1 = 7)"
      using us1 by (cases f) (simp_all add: s(2) xf Let_def)
    then show ?thesis using Suc.IH [OF s(3) l, of g1 us1 ?mx "ok \<or> f = HID_PARSE_FOUND_INPUT \<and> UsagePage g1 = 7"] search_keys [OF s(1)] xf s(4)
      by (simp add: disj_assoc del: kb_parse_loop.simps)
  qed
qed simp

text \<open>C40: The search of the keyboard driver through an encoded report descriptor ends, sees every item once, and answers whether
  there is an input item that holds data while the usage page is that of the keys and the report size is not zero.
\<close>

theorem kb_finds_keys:
  assumes "\<forall>it\<in>set its. item_ok it" and "bs = concat (map encode_item its)" and "load a (length bs) m = bs"
    and "length bs < 2 ^ 16" and "length its < fuel"
  shows "\<exists>max_id1 p1. kb_parse_report_descriptor fuel m (\<lparr>Ptr = a, Offset = 0, ParserLength = of_nat (length bs)\<rparr>, g) max_id =
    Inr (has_keys (parsed_items a its) g, max_id1, p1)"
proof -
  let ?p = "\<lparr>Ptr = a, Offset = 0, ParserLength = of_nat (length bs)\<rparr> :: hid_report_parser_t"
  have "remaining m ?p its" using assms(1,3,4) by (simp add: remaining_def assms(2) [symmetric] unsigned_of_nat take_bit_nat_eq_self)
  then show ?thesis
    using kb_parse_loop_finds [of m ?p its fuel fuel g "(0, 0, 0)" max_id False] assms(5) by (simp add: kb_parse_report_descriptor_def)
qed

definition no_globals :: hid_report_parser_global_state_t where
  "no_globals = \<lparr>InputOffset = 0, NextInputOffset = 0, OutputOffset = 0, NextOutputOffset = 0, UsagePage = 0, ReportId = 0,
     ReportSize = 0, ReportCount = 0, Min = 0, Max = 0\<rparr>"

text \<open>The usage page of the keys, eight fields of one bit, and an input item for them.\<close>

theorem kb_finds_keys_witness:
  "\<exists>max_id1 p1. kb_parse_report_descriptor 5 (store 0 [5, 7, 0x75, 1, 0x95, 8, 0x81, 2] (\<lambda>_. 0))
      (\<lparr>Ptr = 0, Offset = 0, ParserLength = 8\<rparr>, no_globals) 0 = Inr (True, max_id1, p1)"
proof -
  let ?its = "[ShortItem 1 0 [7], ShortItem 1 7 [1], ShortItem 1 9 [8], ShortItem 0 8 [2]]"
  have bs: "concat (map encode_item ?its) = [5, 7, 0x75, 1, 0x95, 8, 0x81, 2]" by (simp add: encode_item_def)
  have "has_keys (parsed_items 0 ?its) no_globals"
    unfolding has_keys_def by (rule exI [of _ 3]) (simp add: data_input_def parsed_item_def le_value_def encode_item_def numeral_3_eq_3)
  then show ?thesis
    using kb_finds_keys [OF _ bs [symmetric], of 0 "store 0 [5, 7, 0x75, 1, 0x95, 8, 0x81, 2] (\<lambda>_. 0)" 5 no_globals 0]
    by (simp add: item_ok_def load_store_same)
qed

end
