(* ===== verification/UsbDrivers.thy ===== *)
theory UsbDrivers
  imports UsbDescriptors
begin

text \<open>
  The descriptor functions of the interface drivers of the repository, the Apple accessory interface
  (\<^verbatim>\<open>exos/support/apple/iap2/iap2_device.c\<close>), the serial converter
  (\<^verbatim>\<open>exos/support/usb/device/ftdi.c\<close>) and the two interfaces of the network device
  (\<^verbatim>\<open>cdc_ncm.c\<close>), and the configuration of the boot loader
  (\<^verbatim>\<open>projects/bootloader/usb_config.c\<close>) that is made of them.  They meet the contract of
  UsbDescriptors.
\<close>

unbundle bit_operations_syntax

section \<open>Drivers\<close>

abbreviation name_index :: "usb_config \<Rightarrow> ifid \<Rightarrow> u8" where
  "name_index s i \<equiv> StrIndex (string_node s (IfName i))"

definition iap2_fill_if_desc :: "usb_config \<Rightarrow> ifid \<Rightarrow> fill" where
  "iap2_fill_if_desc s i if_desc buffer_size m =
     (if 9 \<le> buffer_size then Inr (9, store (if_desc + 4) [2, 0xFF, 0xF0, 0, name_index s i] m) else Inr (0, m))"

definition iap2_fill_ep_desc :: "usb_config \<Rightarrow> ifid \<Rightarrow> u32 \<Rightarrow> fill" where
  "iap2_fill_ep_desc s i ep_index ep_desc buffer_size m =
     (if buffer_size < 7 then Inr (0, m)
      else if ep_index = 0 then Inr (7, store (ep_desc + 2) ([0x80 OR 1, 2] @ HTOUSB16 64 @ [0]) m)
      else if ep_index = 1 then Inr (7, store (ep_desc + 2) ([1, 2] @ HTOUSB16 64 @ [0]) m)
      else Inr (0, m))"

definition ftdi_fill_if_desc :: "usb_config \<Rightarrow> ifid \<Rightarrow> fill" where
  "ftdi_fill_if_desc s i if_desc buffer_size m =
     (if 9 \<le> buffer_size then Inr (9, store (if_desc + 4) [2, 0xFF, 0xFF, 0xFF, name_index s i] m) else Inr (0, m))"

definition ftdi_fill_ep_desc :: "usb_config \<Rightarrow> ifid \<Rightarrow> u32 \<Rightarrow> fill" where
  "ftdi_fill_ep_desc s i ep_index ep_desc buffer_size m =
     (if buffer_size < 7 then Inr (0, m)
      else if ep_index = 0 then Inr (7, store (ep_desc + 2) ([0x80 OR 2, 2] @ HTOUSB16 64 @ [0]) m)
      else if ep_index = 1 then Inr (7, store (ep_desc + 2) ([2, 2] @ HTOUSB16 64 @ [0]) m)
      else Inr (0, m))"

definition ncm_fill_ia_desc :: "usb_config \<Rightarrow> ifid \<Rightarrow> fill" where
  "ncm_fill_ia_desc s i iad buffer_size m =
     ASSERT (8 \<le> buffer_size) KERNEL_ERROR_KERNEL_PANIC
       (Inr (8, store iad [8, USB_DESCRIPTOR_TYPE_INTERFACE_ASSOCIATION, IfIndex (iface s i), 2, 2, 0xD, 0, name_index s i] m))"

definition ncm_fill_if_desc :: "usb_config \<Rightarrow> ifid \<Rightarrow> fill" where
  "ncm_fill_if_desc s i if_desc buffer_size m =
     ASSERT (9 \<le> buffer_size) KERNEL_ERROR_KERNEL_PANIC
       (Inr (9, store (if_desc + 4) [1, 2, 0xD, 0, name_index s i] m))"

text \<open>
  \<^verbatim>\<open>_fill_class_desc\<close>: the header, union, ethernet and NCM functional descriptors.  It does not look at
  \<^verbatim>\<open>buffer_size\<close>.
\<close>

definition ncm_class_descs :: "usb_config \<Rightarrow> ifid \<Rightarrow> u8 list list" where
  "ncm_class_descs s i =
     (let ty = USB_REQTYPE_CLASS OR USB_DESCRIPTOR_TYPE_INTERFACE; ncm_dev = DriverContext (iface s i) in
      [[5, ty, 0] @ HTOUSB16 0x0120,
       [5, ty, 6, IfIndex (iface s i), IfIndex (iface s (SecondaryDataInterface ncm_dev))],
       [13, ty, 0xF, StrIndex (string_node s (EthernetMac ncm_dev)), 0, 0, 0, 0] @ HTOUSB16 1514 @ HTOUSB16 0 @ [0],
       [6, ty, 0x1A] @ HTOUSB16 0x0100 @ [0x12]])"

definition ncm_fill_class_desc :: "usb_config \<Rightarrow> ifid \<Rightarrow> fill" where
  "ncm_fill_class_desc s i class_desc buffer_size m =
     Inr (5 + 5 + 13 + 6, store class_desc (concat (ncm_class_descs s i)) m)"

definition ncm_fill_ep_desc :: "usb_config \<Rightarrow> ifid \<Rightarrow> u32 \<Rightarrow> fill" where
  "ncm_fill_ep_desc s i ep_index ep_desc buffer_size m =
     ASSERT (7 \<le> buffer_size) KERNEL_ERROR_KERNEL_PANIC
       (if ep_index = 0 then Inr (7, store (ep_desc + 2) ([0x80 OR 3, 3] @ HTOUSB16 64 @ [0]) m) else Inr (0, m))"

definition ncm_fill_if_desc2 :: "usb_config \<Rightarrow> ifid \<Rightarrow> fill" where
  "ncm_fill_if_desc2 s i if_desc buffer_size m =
     ASSERT (9 \<le> buffer_size) KERNEL_ERROR_KERNEL_PANIC
       (if m (if_desc + 3) = 0 then Inr (9, store (if_desc + 4) [0, 10, 0, 1, name_index s i] m)
        else if m (if_desc + 3) = 1 then Inr (9, store (if_desc + 4) [2, 10, 0, 1, name_index s i] m)
        else Inl (Panic KERNEL_ERROR_KERNEL_PANIC))"

definition ncm_fill_ep_desc2 :: "usb_config \<Rightarrow> ifid \<Rightarrow> u32 \<Rightarrow> fill" where
  "ncm_fill_ep_desc2 s i ep_index ep_desc buffer_size m =
     ASSERT (7 \<le> buffer_size) KERNEL_ERROR_KERNEL_PANIC
       (if ep_index = 0 then Inr (7, store (ep_desc + 2) ([0x80 OR 2, 2] @ HTOUSB16 64 @ [0]) m)
        else if ep_index = 1 then Inr (7, store (ep_desc + 2) ([2, 2] @ HTOUSB16 64 @ [0]) m)
        else Inr (0, m))"

text \<open>
  The functions called when an interface is added, as far as they change the registry.  The block that
  \<^verbatim>\<open>exos_mem_alloc\<close> returns, if it does, and the text of the hardware address are arguments.
\<close>

definition text_bytes :: "string \<Rightarrow> u8 list" where
  "text_bytes = map of_char"

definition iap2_initialize :: "nat option \<Rightarrow> ifid \<Rightarrow> nat \<Rightarrow> usb_config \<Rightarrow> (bool \<times> usb_config) res" where
  "iap2_initialize mem i instance_data s =
     (let s1 = snd (usb_device_config_add_string (IfName i) (text_bytes ''iAP Interface'') s) in
      case mem of
        None \<Rightarrow> Inr (False, s1)
      | Some iap2dev \<Rightarrow> Inr (True, upd_iface i (\<lambda>x. x\<lparr>DriverContext := iap2dev\<rparr>) s1))"

definition ncm_init2 :: "ifid \<Rightarrow> nat \<Rightarrow> usb_config \<Rightarrow> (bool \<times> usb_config) res" where
  "ncm_init2 i instance_data s =
     (let s1 = snd (usb_device_config_add_string (IfName i) (text_bytes ''CDC-NCM Data Interface'') s) in
      Inr (True, upd_iface i (\<lambda>x. x\<lparr>DriverContext := instance_data, AlternateSettings := 1\<rparr>) s1))"

definition ncm_driver2 :: usb_interface_fill where
  "ncm_driver2 = \<lparr>Initialize = Some ncm_init2, FillInterfaceAssociationDescriptor = None,
     FillInterfaceDescriptor = Some ncm_fill_if_desc2, FillClassDescriptor = None, FillEndpointDescriptor = Some ncm_fill_ep_desc2\<rparr>"

definition IAP2 :: nat where "IAP2 = 0"
definition NCM :: nat where "NCM = 1"
definition NCM2 :: nat where "NCM2 = 2"
definition FTDI :: nat where "FTDI = 3"

definition ncm_init1 :: "nat option \<Rightarrow> u8 list \<Rightarrow> ifid \<Rightarrow> nat \<Rightarrow> usb_config \<Rightarrow> (bool \<times> usb_config) res" where
  "ncm_init1 mem mac i instance_data s =
     (let s1 = snd (usb_device_config_add_string (IfName i) (text_bytes ''CDC-NCM Comm Interface'') s) in
      case mem of
        None \<Rightarrow> Inr (False, s1)
      | Some ncm_dev \<Rightarrow>
          let s2 = snd (usb_device_config_add_string (EthernetMac ncm_dev) mac s1);
              s3 = upd_iface i (\<lambda>x. x\<lparr>DriverContext := ncm_dev\<rparr>) s2;
              s4 = usb_device_interface_create (SecondaryDataInterface ncm_dev) (Some NCM2) s3
          in rbind (usb_device_config_add_interface (\<lambda>_. ncm_driver2) (the (IfConfiguration (iface s4 i)))
                     (SecondaryDataInterface ncm_dev) ncm_dev s4) (\<lambda>s5. Inr (True, s5)))"

definition iap2_driver :: "nat option \<Rightarrow> usb_interface_fill" where
  "iap2_driver mem = \<lparr>Initialize = Some (iap2_initialize mem), FillInterfaceAssociationDescriptor = None,
     FillInterfaceDescriptor = Some iap2_fill_if_desc, FillClassDescriptor = None, FillEndpointDescriptor = Some iap2_fill_ep_desc\<rparr>"

definition ncm_driver :: "nat option \<Rightarrow> u8 list \<Rightarrow> usb_interface_fill" where
  "ncm_driver mem mac = \<lparr>Initialize = Some (ncm_init1 mem mac), FillInterfaceAssociationDescriptor = Some ncm_fill_ia_desc,
     FillInterfaceDescriptor = Some ncm_fill_if_desc, FillClassDescriptor = Some ncm_fill_class_desc,
     FillEndpointDescriptor = Some ncm_fill_ep_desc\<rparr>"

text \<open>The set-up of the serial driver, which fills an image of an EEPROM, is an argument.\<close>

definition ftdi_driver :: "(ifid \<Rightarrow> nat \<Rightarrow> usb_config \<Rightarrow> (bool \<times> usb_config) res) \<Rightarrow> usb_interface_fill" where
  "ftdi_driver init = \<lparr>Initialize = Some init, FillInterfaceAssociationDescriptor = None,
     FillInterfaceDescriptor = Some ftdi_fill_if_desc, FillClassDescriptor = None, FillEndpointDescriptor = Some ftdi_fill_ep_desc\<rparr>"

section \<open>The contract holds\<close>

definition iap2_spec :: "usb_config \<Rightarrow> ifid \<Rightarrow> interface_spec" where
  "iap2_spec s i = \<lparr>Association = [], Setting = (\<lambda>_. [2, 0xFF, 0xF0, 0, name_index s i]), Class = [],
     Endpoint = (\<lambda>e. [if e = 0 then 0x81 else 1, 2, 64, 0, 0])\<rparr>"

definition ftdi_spec :: "usb_config \<Rightarrow> ifid \<Rightarrow> interface_spec" where
  "ftdi_spec s i = \<lparr>Association = [], Setting = (\<lambda>_. [2, 0xFF, 0xFF, 0xFF, name_index s i]), Class = [],
     Endpoint = (\<lambda>e. [if e = 0 then 0x82 else 2, 2, 64, 0, 0])\<rparr>"

definition ncm_spec :: "usb_config \<Rightarrow> ifid \<Rightarrow> interface_spec" where
  "ncm_spec s i = \<lparr>Association = [[8, 11, IfIndex (iface s i), 2, 2, 0xD, 0, name_index s i]],
     Setting = (\<lambda>_. [1, 2, 0xD, 0, name_index s i]), Class = ncm_class_descs s i, Endpoint = (\<lambda>_. [0x83, 3, 64, 0, 0])\<rparr>"

definition ncm_spec2 :: "usb_config \<Rightarrow> ifid \<Rightarrow> interface_spec" where
  "ncm_spec2 s i = \<lparr>Association = [], Setting = (\<lambda>k. [if k = 0 then 0 else 2, 10, 0, 1, name_index s i]), Class = [],
     Endpoint = (\<lambda>e. [if e = 0 then 0x82 else 2, 2, 64, 0, 0])\<rparr>"

text \<open>A function that writes behind a header it does not touch.\<close>

lemma behind2: "\<exists>h. length h = 2 \<and> store (Suc (Suc a)) bs m = store a (h @ bs) m"
  using store_behind [of a 2 bs m] by (intro exI [of _ "load a 2 m"]) simp

lemma behind4: "m (a + 3) = v \<Longrightarrow> \<exists>h. length h = 2 \<and> store (a + 4) bs m = store a (h @ m (Suc (Suc a)) # v # bs) m"
proof (intro exI [of _ "load a 2 m"] conjI)
  have "load a 4 m = load a 2 m @ [m (a + 2), m (a + 3)]" by (rule nth_equalityI) (auto simp: less_Suc_eq numeral_eq_Suc nth_append)
  then show "m (a + 3) = v \<Longrightarrow> store (a + 4) bs m = store a (load a 2 m @ m (Suc (Suc a)) # v # bs) m"
    using store_behind [of a 4 bs m] by simp
qed simp

lemma HTOUSB16_64: "HTOUSB16 64 = [64, 0]"
  by (simp add: HTOUSB16_def)

lemma less_2_cases': "e < (2 :: nat) \<Longrightarrow> e = 0 \<or> e = 1"
  by auto

interpretation iap2: interface_driver "iap2_driver mem" s i "iap2_spec s i" for mem s i
proof (unfold_locales, goal_cases)
  case 2
  show ?case by (auto simp: iap2_driver_def iap2_spec_def iap2_fill_if_desc_def word_le_nat_alt intro!: behind4)
next
  case 4
  show ?case
    by (auto simp: iap2_driver_def iap2_spec_def num_endpoints_def iap2_fill_ep_desc_def word_less_nat_alt HTOUSB16_64
        dest!: less_2_cases' intro!: behind2)
qed (simp_all add: iap2_driver_def iap2_spec_def)

interpretation ftdi: interface_driver "ftdi_driver init" s i "ftdi_spec s i" for init s i
proof (unfold_locales, goal_cases)
  case 2
  show ?case by (auto simp: ftdi_driver_def ftdi_spec_def ftdi_fill_if_desc_def word_le_nat_alt intro!: behind4)
next
  case 4
  show ?case
    by (auto simp: ftdi_driver_def ftdi_spec_def num_endpoints_def ftdi_fill_ep_desc_def word_less_nat_alt HTOUSB16_64
        dest!: less_2_cases' intro!: behind2)
qed (simp_all add: ftdi_driver_def ftdi_spec_def)

lemma ncm_class_ok: "b \<in> set (ncm_class_descs s i) \<Longrightarrow> desc_ok b" "length (concat (ncm_class_descs s i)) = 29"
  by (auto simp: ncm_class_descs_def desc_ok_def Let_def)

interpretation ncm: interface_driver "ncm_driver mem mac" s i "ncm_spec s i" for mem mac s i
proof (unfold_locales, goal_cases)
  case 1
  show ?case by (simp add: ncm_driver_def ncm_spec_def fills_def ncm_fill_ia_desc_def word_le_nat_alt usb_types)
next
  case 2
  show ?case by (auto simp: ncm_driver_def ncm_spec_def ncm_fill_if_desc_def word_le_nat_alt intro!: behind4)
next
  case 3
  show ?case by (simp add: ncm_driver_def ncm_spec_def fills_def ncm_fill_class_desc_def ncm_class_ok)
next
  case 4
  show ?case
    by (auto simp: ncm_driver_def ncm_spec_def num_endpoints_def ncm_fill_ep_desc_def word_le_nat_alt HTOUSB16_64 intro!: behind2)
next
  case (6 b)
  then show ?case using ncm_class_ok(1) by (auto simp: ncm_spec_def desc_ok_def)
qed (simp_all add: ncm_spec_def)

lemma ncm_data_driver:
  assumes "AlternateSettings (iface s i) = 1"
  shows "interface_driver ncm_driver2 s i (ncm_spec2 s i)"
proof (unfold_locales, goal_cases)
  case 2
  show ?case using assms by (auto simp: ncm_driver2_def ncm_spec2_def ncm_fill_if_desc2_def word_le_nat_alt le_Suc_eq intro!: behind4)
next
  case 4
  show ?case
    by (auto simp: ncm_driver2_def ncm_spec2_def num_endpoints_def ncm_fill_ep_desc2_def word_le_nat_alt HTOUSB16_64
        dest!: less_2_cases' intro!: behind2 split: if_splits)
qed (simp_all add: ncm_driver2_def ncm_spec2_def)

section \<open>The boot loader\<close>

text \<open>\<^verbatim>\<open>usb_config.c\<close>: configuration 0 with the accessory interface and the network device.\<close>

definition boot_fill_conf_desc :: "u32 \<Rightarrow> fill" where
  "boot_fill_conf_desc conf_index conf_desc buffer_size m =
     (if buffer_size < 9 then Inr (0, m)
      else if conf_index = 0 then Inr (9, store (conf_desc + 7) [0x40, 50 div 2] m)
      else Inr (0, m))"

definition boot_conf_driver :: "nat \<Rightarrow> usb_configuration_fill" where
  "boot_conf_driver _ = \<lparr>FillConfigurationDescriptor = Some boot_fill_conf_desc\<rparr>"

definition boot_drivers :: "nat option \<Rightarrow> nat option \<Rightarrow> u8 list \<Rightarrow> nat \<Rightarrow> usb_interface_fill" where
  "boot_drivers mem1 mem2 mac n = (if n = IAP2 then iap2_driver mem1 else if n = NCM then ncm_driver mem2 mac else ncm_driver2)"

definition usb_device_add_configurations :: "nat option \<Rightarrow> nat option \<Rightarrow> u8 list \<Rightarrow> nat \<Rightarrow> usb_config \<Rightarrow> usb_config res" where
  "usb_device_add_configurations mem1 mem2 mac adapter s =
     (let D = boot_drivers mem1 mem2 mac;
          s1 = usb_device_interface_create (Iface 1) (Some IAP2) (usb_device_config_create 0 0x11 (Some 0) s)
      in rbind (usb_device_config_add_interface D 0 (Iface 1) 0 s1) (\<lambda>s2.
           rbind (usb_device_config_add_interface D 0 (Iface 2) adapter (usb_device_interface_create (Iface 2) (Some NCM) s2))
             (usb_device_config_register 0)))"

interpretation boot: configuration_driver boot_fill_conf_desc 0 "0x40" 25
  by unfold_locales (simp add: boot_fill_conf_desc_def)

text \<open>After the start-up the registry holds the three interfaces, and their drivers meet the contract.\<close>

definition boot_interfaces :: "nat \<Rightarrow> ifid list" where
  "boot_interfaces ncm_dev = [Iface 1, Iface 2, SecondaryDataInterface ncm_dev]"

definition boot_specs :: "usb_config \<Rightarrow> nat \<Rightarrow> interface_spec list" where
  "boot_specs s ncm_dev = [iap2_spec s (Iface 1), ncm_spec s (Iface 2), ncm_spec2 s (SecondaryDataInterface ncm_dev)]"

lemmas boot_defs = usb_device_add_configurations_def usb_device_interface_create_def usb_device_config_create_def
  usb_device_config_add_interface_def usb_device_config_register_def boot_drivers_def iap2_driver_def ncm_driver_def ncm_driver2_def
  iap2_initialize_def ncm_init1_def ncm_init2_def usb_device_config_add_string_def upd_conf_def upd_iface_def IAP2_def NCM_def NCM2_def

lemma boot_registry:
  assumes "configs s = []"
  obtains s' where "usb_device_add_configurations (Some m1) (Some m2) mac adapter s = Inr s'"
    "configs s' = [0]" "Interfaces (conf s' 0) = boot_interfaces m2" "CfDriver (conf s' 0) = Some 0" "CfValue (conf s' 0) = 0x11"
    "IfDriver (iface s' (Iface 1)) = Some IAP2" "IfDriver (iface s' (Iface 2)) = Some NCM"
    "IfDriver (iface s' (SecondaryDataInterface m2)) = Some NCM2"
    "AlternateSettings (iface s' (Iface 1)) = 0" "AlternateSettings (iface s' (Iface 2)) = 0"
    "AlternateSettings (iface s' (SecondaryDataInterface m2)) = 1"
  using assms by (auto simp: boot_defs boot_interfaces_def Let_def)

lemma boot_config_ok:
  assumes "configs s = []" and "usb_device_add_configurations (Some m1) (Some m2) mac adapter s = Inr s'"
  shows "configuration_ok boot_conf_driver s' 0 0 0x40 25"
    "interfaces_ok (boot_drivers (Some m1) (Some m2) mac) s' 0 (boot_specs s' m2)"
    "length (concat (config_descs s' 0 0 0x40 25 (boot_specs s' m2))) = 117"
proof -
  from boot_registry [OF assms(1), of m1 m2 mac adapter] assms(2) have r:
    "configs s' = [0]" "Interfaces (conf s' 0) = boot_interfaces m2" "CfDriver (conf s' 0) = Some 0"
    "IfDriver (iface s' (Iface 1)) = Some IAP2" "IfDriver (iface s' (Iface 2)) = Some NCM"
    "IfDriver (iface s' (SecondaryDataInterface m2)) = Some NCM2"
    "AlternateSettings (iface s' (Iface 1)) = 0" "AlternateSettings (iface s' (Iface 2)) = 0"
    "AlternateSettings (iface s' (SecondaryDataInterface m2)) = 1"
    by (metis sum.inject(2))+
  show "configuration_ok boot_conf_driver s' 0 0 0x40 25"
    using r boot.configuration_driver_axioms by (simp add: configuration_ok_def usb_device_config_get_def boot_conf_driver_def)
  show "interfaces_ok (boot_drivers (Some m1) (Some m2) mac) s' 0 (boot_specs s' m2)"
    using r iap2.interface_driver_axioms ncm.interface_driver_axioms ncm_data_driver
    by (simp add: interfaces_ok_def boot_interfaces_def boot_specs_def boot_drivers_def IAP2_def NCM_def NCM2_def)
  show "length (concat (config_descs s' 0 0 0x40 25 (boot_specs s' m2))) = 117"
    using r ncm_class_ok(2) [of s' "Iface 2"] upt_rec [of 0 2] upt_rec [of 1 2]
    by (simp add: config_descs_def config_desc_def boot_interfaces_def boot_specs_def interface_descs_def setting_descs_def
        iap2_spec_def ncm_spec_def ncm_spec2_def interface_desc_def endpoint_desc_def num_endpoints_def Let_def)
qed

text \<open>C25: When a host asks for a configuration whose drivers keep their contract and whose descriptors fit in the buffer, it gets
  the configuration descriptor followed by the descriptors of all interfaces, settings and endpoints, in order, with the
  right total length; nothing is written outside the buffer, and \<^verbatim>\<open>usb_parse_conf\<close> walks
  from any of these descriptors to the next one of the wanted type.
\<close>

theorem config_descriptor_walks:
  assumes "configuration_ok CD s c index attributes max_power" and "interfaces_ok D s c sps"
    and "ds = config_descs s c index attributes max_power sps" and "length (concat ds) \<le> 255"
  shows "\<exists>s'. usb_device_config_get_descriptor u CD D (descriptor_value USB_DESCRIPTOR_TYPE_CONFIGURATION index) ri plength s =
      Inr (True, of_nat (length (concat ds)), s') \<and>
    load 0 (length (concat ds)) (desc_buffer s') = concat ds \<and>
    (\<forall>x\<ge>255. desc_buffer s' x = desc_buffer s x) \<and>
    (\<forall>j<length ds. \<forall>ty. usb_parse_conf (length ds) (desc_buffer s') 0 ty (Some (desc_at 0 ds j)) =
       Inr (map_option (desc_at 0 ds) (find (\<lambda>n. ds ! n ! 1 = ty \<or> ty = USB_DESCRIPTOR_TYPE_ANY) [Suc j..<length ds])))"
proof -
  let ?m = "store 0 (concat ds) (desc_buffer s)"
  note chain = config_chain [OF assms(2-4), of "desc_buffer s"]
  have "usb_parse_conf (length ds) ?m 0 ty (Some (desc_at 0 ds j)) =
      Inr (map_option (desc_at 0 ds) (find (\<lambda>n. ds ! n ! 1 = ty \<or> ty = USB_DESCRIPTOR_TYPE_ANY) [Suc j..<length ds]))"
    if "j < length ds" for j ty
    unfolding usb_parse_conf_def option.case by (rule parse_loop_finds) (use chain that in simp_all)
  then show ?thesis
    using config_built [OF assms(1,2), of u ri plength] assms(3,4)
    by (intro exI [of _ "s\<lparr>desc_buffer := ?m\<rparr>"]) (simp add: load_store_same store_other)
qed

definition empty_registry :: usb_config where
  "empty_registry = \<lparr>configs = [], conf = (\<lambda>_. \<lparr>CfDriver = None, Interfaces = [], CfValue = 0, CfIndex = 0\<rparr>),
     iface = (\<lambda>_. \<lparr>IfConfiguration = None, IfDriver = None, DriverContext = 0, IfStatus = USB_IFSTA_STOPPED, IfIndex = 0,
       AlternateSettings = 0\<rparr>),
     strings = [], string_node = (\<lambda>_. \<lparr>StrIndex = 0, StrText = []\<rparr>), manufacturer_str = 0, product_str = 0,
     serialnumber_str = 0, desc_buffer = (\<lambda>_. 0)\<rparr>"

definition boot_state :: usb_config where
  "boot_state = projr (usb_device_add_configurations (Some 7) (Some 8) (text_bytes ''0050C2000001'') 0 empty_registry)"

lemma boot_state_ok:
  "configuration_ok boot_conf_driver boot_state 0 0 0x40 25"
  "interfaces_ok (boot_drivers (Some 7) (Some 8) (text_bytes ''0050C2000001'')) boot_state 0 (boot_specs boot_state 8)"
  "length (concat (config_descs boot_state 0 0 0x40 25 (boot_specs boot_state 8))) = 117"
proof -
  have e: "configs empty_registry = []" by (simp add: empty_registry_def)
  have b: "usb_device_add_configurations (Some 7) (Some 8) (text_bytes ''0050C2000001'') 0 empty_registry = Inr boot_state"
    using boot_registry [OF e, of 7 8 "text_bytes ''0050C2000001''" 0] by (metis boot_state_def sum.sel(2))
  show "configuration_ok boot_conf_driver boot_state 0 0 0x40 25"
    "interfaces_ok (boot_drivers (Some 7) (Some 8) (text_bytes ''0050C2000001'')) boot_state 0 (boot_specs boot_state 8)"
    "length (concat (config_descs boot_state 0 0 0x40 25 (boot_specs boot_state 8))) = 117"
    by (rule boot_config_ok [OF e b])+
qed

definition sample_device :: usb_user_device where
  "sample_device = \<lparr>DEVICE_CLASS = 0, DEVICE_SUBCLASS = 0, DEVICE_PROTOCOL = 0, MAX_PACKET0 = 64, DEVICE_IDS = Some (0x05AC, 0x1234),
     DEVICE_VERSION = 0\<rparr>"

theorem config_descriptor_walks_witness:
  "\<exists>s'. usb_device_config_get_descriptor sample_device boot_conf_driver (boot_drivers (Some 7) (Some 8) (text_bytes ''0050C2000001''))
      (descriptor_value USB_DESCRIPTOR_TYPE_CONFIGURATION 0) 0 64 boot_state = Inr (True, 117, s') \<and>
    load 0 117 (desc_buffer s') = concat (config_descs boot_state 0 0 0x40 25 (boot_specs boot_state 8))"
  using config_descriptor_walks [OF boot_state_ok(1,2) refl, of sample_device 0 64] boot_state_ok(3) by auto

end
