(* ===== verification/UsbDevice.thy ===== *)
theory UsbDevice
  imports UsbDrivers
begin

text \<open>
  The USB device service (\<^verbatim>\<open>exos/kernel/driver/usb/device.c\<close>): control requests, the choice of a
  configuration and the start and stop of its interfaces.  The calls of the controller layer
  (\<^verbatim>\<open>support/usb/device_hal.h\<close>) are recorded in order; the outcome of a transfer, which the handler
  waits for, is an argument.  The functions of the drivers are arguments that may change the state.  The handler runs under
  \<^verbatim>\<open>_device_lock\<close> in one thread.
\<close>

unbundle bit_operations_syntax

section \<open>State\<close>

record usb_request_t =
  RequestType :: u8
  RequestCode :: u8
  Value :: u16
  Index :: u16
  Length :: u16

datatype usb_io_status =
    USB_IOSTA_UNKNOWN | USB_IOSTA_OUT_WAIT | USB_IOSTA_IN_WAIT | USB_IOSTA_IN_COMPLETE | USB_IOSTA_IN_STALL
  | USB_IOSTA_DONE | USB_IOSTA_ERROR

text \<open>Calls of the controller layer; an IN transfer is recorded with the bytes it sends.\<close>

datatype hal_call =
    hal_usbd_connect bool
  | hal_usbd_set_address u8
  | hal_usbd_set_address_early u8
  | hal_usbd_configure bool
  | hal_usbd_prepare_setup_ep
  | hal_usbd_enable_out_ep u8 usb_transfer_type u16
  | hal_usbd_enable_in_ep u8 usb_transfer_type u16
  | hal_usbd_prepare_out_ep u32 u16
  | hal_usbd_prepare_in_ep u32 "u8 list"
  | hal_usbd_stall_out_ep u32 bool
  | hal_usbd_stall_in_ep u32 bool

text \<open>Where the data of a reply is: \<^verbatim>\<open>_control_data\<close>, \<^verbatim>\<open>_desc_buffer\<close>,
  \<^verbatim>\<open>_device_status\<close> or data of a driver.\<close>

datatype usb_data = ControlData | DescBuffer | DeviceStatus | DriverData "u8 list" | NullData

record usb_device =
  cfg :: usb_config
  configuration :: "cfid option"
  address :: u8
  hal_addr :: u8
  configuration_value :: u8
  alternate_setting :: u8
  device_status :: u32
  error_flag :: bool
  control_data :: ram
  rx_max_packet :: "u8 \<Rightarrow> u16"
  tx_max_packet :: "u8 \<Rightarrow> u16"
  instances :: "nat list"      \<comment> \<open>the contexts in the \<^verbatim>\<open>_instance_list\<close> of the drivers\<close>
  hal :: "hal_call list"

type_synonym request_fun = "usb_request_t \<Rightarrow> usb_data \<times> u32 \<Rightarrow> usb_device \<Rightarrow> (bool \<times> (usb_data \<times> u32) \<times> usb_device) res"

record usb_interface_ops =
  Start :: "ifid \<Rightarrow> u8 \<Rightarrow> usb_device \<Rightarrow> (bool \<times> usb_device) res"
  Stop :: "(ifid \<Rightarrow> usb_device \<Rightarrow> usb_device res) option"
  SetInterface :: "(ifid \<Rightarrow> u16 \<Rightarrow> usb_device \<Rightarrow> (bool \<times> usb_device) res) option"
  VendorRequest :: "(ifid \<Rightarrow> request_fun) option"
  InterfaceRequest :: "(ifid \<Rightarrow> request_fun) option"
  ClassRequest :: "(ifid \<Rightarrow> request_fun) option"

record usb_configuration_ops =
  Configured :: "(u32 \<Rightarrow> bool \<Rightarrow> usb_device \<Rightarrow> usb_device res) option"
  DeviceClassRequest :: "request_fun option"
  DeviceVendorRequest :: "request_fun option"

text \<open>The drivers of a device: the descriptor functions and the others, by the number of the driver.\<close>

record usb_drivers =
  UserDevice :: usb_user_device
  ConfFill :: "nat \<Rightarrow> usb_configuration_fill"
  IfFill :: "nat \<Rightarrow> usb_interface_fill"
  ConfOps :: "nat \<Rightarrow> usb_configuration_ops"
  IfOps :: "nat \<Rightarrow> usb_interface_ops"
  IsHalted :: "u32 \<Rightarrow> usb_device \<Rightarrow> bool"      \<comment> \<open>\<^verbatim>\<open>hal_usbd_is_halted\<close>\<close>

definition hal_call :: "hal_call \<Rightarrow> usb_device \<Rightarrow> usb_device" where
  "hal_call c s = s\<lparr>hal := hal s @ [c]\<rparr>"

definition set_status :: "ifid \<Rightarrow> usb_if_status \<Rightarrow> usb_device \<Rightarrow> usb_device" where
  "set_status i st s = s\<lparr>cfg := upd_iface i (\<lambda>x. x\<lparr>IfStatus := st\<rparr>) (cfg s)\<rparr>"

section \<open>Configurations\<close>

fun stop_interfaces :: "usb_drivers \<Rightarrow> ifid list \<Rightarrow> usb_device \<Rightarrow> usb_device res" where
  "stop_interfaces E [] s = Inr s"
| "stop_interfaces E (i # is) s =
     (case IfDriver (iface (cfg s) i) of
        None \<Rightarrow> Inl (Panic KERNEL_ERROR_NULL_POINTER)
      | Some d \<Rightarrow>
          rbind (if IfStatus (iface (cfg s) i) = USB_IFSTA_STARTED
                 then rbind (case Stop (IfOps E d) of
                               None \<Rightarrow> Inr s
                             | Some f \<Rightarrow> f i (set_status i USB_IFSTA_STOPPING s))
                        (\<lambda>s1. Inr (set_status i USB_IFSTA_STOPPED s1))
                 else Inr s)
            (stop_interfaces E is))"

definition stop_configuration :: "usb_drivers \<Rightarrow> cfid \<Rightarrow> usb_device \<Rightarrow> usb_device res" where
  "stop_configuration E c s =
     (case CfDriver (conf (cfg s) c) of
        None \<Rightarrow> Inl (Panic KERNEL_ERROR_NULL_POINTER)
      | Some d \<Rightarrow>
          rbind (stop_interfaces E (Interfaces (conf (cfg s) c)) s) (\<lambda>s1.
            rbind (case Configured (ConfOps E d) of
                     None \<Rightarrow> Inr s1 | Some f \<Rightarrow> f (ucast (CfIndex (conf (cfg s1) c))) False s1) (\<lambda>s2.
              Inr (hal_call (hal_usbd_configure False) (s2\<lparr>configuration_value := 0, configuration := None\<rparr>)))))"

text \<open>
  The loop over the endpoints of an interface; \<open>m\<close> is the local descriptor, kept from one round to the next.  It ends when
  the driver returns no descriptor.
\<close>

definition enable_endpoint :: "ram \<Rightarrow> usb_device \<Rightarrow> usb_device" where
  "enable_endpoint m s =
     (let ep = EndpointNumber (m 2); tt = TransferType (m 3); size = ucast (USB16TOH 4 m) in
      if Input (m 2) = USB_DEVICE_TO_HOST
      then hal_call (hal_usbd_enable_in_ep ep tt size) (s\<lparr>tx_max_packet := (tx_max_packet s)(ep := size)\<rparr>)
      else hal_call (hal_usbd_enable_out_ep ep tt size) (s\<lparr>rx_max_packet := (rx_max_packet s)(ep := size)\<rparr>))"

fun enable_endpoints :: "nat \<Rightarrow> usb_drivers \<Rightarrow> nat \<Rightarrow> nat \<Rightarrow> ifid \<Rightarrow> u32 \<Rightarrow> ram \<Rightarrow> usb_device \<Rightarrow> usb_device res" where
  "enable_endpoints 0 E cd d i ep_index m s = Inl OutOfFuel"
| "enable_endpoints (Suc fuel) E cd d i ep_index m s =
     ASSERT (FillConfigurationDescriptor (ConfFill E cd) \<noteq> None) KERNEL_ERROR_NULL_POINTER
       (rbind (the (FillEndpointDescriptor (IfFill E d)) (cfg s) i ep_index 0 7 m) (\<lambda>(size, m1).
          if size = 0 then Inr s
          else enable_endpoints fuel E cd d i (ep_index + 1) m1 (enable_endpoint m1 s)))"

fun start_interfaces :: "nat \<Rightarrow> usb_drivers \<Rightarrow> ram \<Rightarrow> nat \<Rightarrow> ifid list \<Rightarrow> nat \<Rightarrow> usb_device \<Rightarrow> (nat \<times> usb_device) res" where
  "start_interfaces fuel E stack cd [] if_configured s = Inr (if_configured, s)"
| "start_interfaces fuel E stack cd (i # is) if_configured s =
     (case IfDriver (iface (cfg s) i) of
        None \<Rightarrow> Inl (Panic KERNEL_ERROR_NULL_POINTER)
      | Some d \<Rightarrow>
          rbind (enable_endpoints fuel E cd d i 0 stack s) (\<lambda>s1.
            rbind (Start (IfOps E d) i (alternate_setting s1) (set_status i USB_IFSTA_STARTING s1)) (\<lambda>(ok, s2).
              if ok then start_interfaces fuel E stack cd is (if_configured + 1) (set_status i USB_IFSTA_STARTED s2)
              else start_interfaces fuel E stack cd is if_configured s2)))"

text \<open>\<^verbatim>\<open>_set_configuration\<close>: the first configuration of that value of which an interface starts.\<close>

fun set_configuration_loop :: "nat \<Rightarrow> nat \<Rightarrow> usb_drivers \<Rightarrow> ram \<Rightarrow> u8 \<Rightarrow> u32 \<Rightarrow> usb_device \<Rightarrow> usb_device res" where
  "set_configuration_loop 0 fuel E stack conf_value conf_index s = Inl OutOfFuel"
| "set_configuration_loop (Suc n) fuel E stack conf_value conf_index s =
     (case usb_device_config_get conf_index (cfg s) of
        None \<Rightarrow> Inr s
      | Some c \<Rightarrow>
          if CfValue (conf (cfg s) c) = conf_value
          then case CfDriver (conf (cfg s) c) of
              None \<Rightarrow> Inl (Panic KERNEL_ERROR_NULL_POINTER)
            | Some cd \<Rightarrow>
                rbind (start_interfaces fuel E stack cd (Interfaces (conf (cfg s) c)) 0 s) (\<lambda>(if_configured, s1).
                  if if_configured \<noteq> 0
                  then let s2 = hal_call (hal_usbd_configure True) (s1\<lparr>configuration_value := conf_value, configuration := Some c\<rparr>)
                    in case Configured (ConfOps E cd) of None \<Rightarrow> Inr s2 | Some f \<Rightarrow> f conf_index True s2
                  else set_configuration_loop n fuel E stack conf_value (conf_index + 1) s1)
          else set_configuration_loop n fuel E stack conf_value (conf_index + 1) s)"

definition set_configuration :: "nat \<Rightarrow> usb_drivers \<Rightarrow> ram \<Rightarrow> u8 \<Rightarrow> usb_device \<Rightarrow> usb_device res" where
  "set_configuration fuel E stack conf_value s =
     set_configuration_loop (Suc (length (configs (cfg s)))) fuel E stack conf_value 0 s"

section \<open>Requests\<close>

definition get_conf_interface :: "usb_config \<Rightarrow> cfid \<Rightarrow> u32 \<Rightarrow> ifid option" where
  "get_conf_interface s c index = find (\<lambda>i. ucast (IfIndex (iface s i)) = index) (Interfaces (conf s c))"

text \<open>\<^verbatim>\<open>_get_interface\<close> with the test of its result that follows every call.\<close>

definition get_interface :: "u16 \<Rightarrow> usb_device \<Rightarrow> ifid res" where
  "get_interface index s =
     (case configuration s of
        None \<Rightarrow> Inl (Panic KERNEL_ERROR_KERNEL_PANIC)
      | Some c \<Rightarrow> (case get_conf_interface (cfg s) c (ucast index) of
          None \<Rightarrow> Inl (Panic KERNEL_ERROR_KERNEL_PANIC) | Some i \<Rightarrow> Inr i))"

definition interface_driver_of :: "ifid \<Rightarrow> usb_device \<Rightarrow> nat res" where
  "interface_driver_of i s =
     (case IfDriver (iface (cfg s) i) of None \<Rightarrow> Inl (Panic KERNEL_ERROR_NULL_POINTER) | Some d \<Rightarrow> Inr d)"

definition setup_std_device :: "nat \<Rightarrow> usb_drivers \<Rightarrow> ram \<Rightarrow> request_fun" where
  "setup_std_device fuel E stack req dl s =
     (if RequestCode req = 6
      then rbind (usb_device_config_get_descriptor (UserDevice E) (ConfFill E) (IfFill E) (Value req) (Index req) (snd dl) (cfg s))
        (\<lambda>(ok, plength, c). Inr (ok, (if ok then DescBuffer else NullData, plength), s\<lparr>cfg := c\<rparr>))
      else if RequestCode req = 5
      then let a = ucast (Value req AND 0x7f) in Inr (True, dl, hal_call (hal_usbd_set_address_early a) (s\<lparr>address := a\<rparr>))
      else if RequestCode req = 9
      then rbind (set_configuration fuel E stack (ucast (Value req AND 0xff)) s) (\<lambda>s1. Inr (True, dl, s1))
      else if RequestCode req = 0
      then Inr (True, (DeviceStatus, 2), s)
      else Inl (Panic KERNEL_ERROR_NOT_IMPLEMENTED))"

definition setup_std_interface :: "usb_drivers \<Rightarrow> request_fun" where
  "setup_std_interface E req dl s =
     rbind (get_interface (Index req) s) (\<lambda>i.
       rbind (interface_driver_of i s) (\<lambda>d.
         if RequestCode req = 11
         then (case SetInterface (IfOps E d) of
             None \<Rightarrow> Inr (True, dl, s)
           | Some f \<Rightarrow> rbind (f i (Value req) s) (\<lambda>(_, s1). Inr (True, dl, s1)))
         else (case InterfaceRequest (IfOps E d) of None \<Rightarrow> Inr (False, dl, s) | Some f \<Rightarrow> f i req dl s)))"

definition setup_std_endpoint :: "usb_drivers \<Rightarrow> request_fun" where
  "setup_std_endpoint E req dl s =
     (let ep_num = ucast (Index req AND 0x3f) in
      if RequestCode req = 1
      then Inr (True, dl,
        if Value req = 0
        then if Index req AND 0x80 \<noteq> 0 then hal_call (hal_usbd_stall_in_ep ep_num False) s
             else hal_call (hal_usbd_stall_out_ep ep_num False) s
        else s)
      else if RequestCode req = 0
      then if snd dl = 2
           then Inr (True, dl, s\<lparr>control_data := store 0 (if IsHalted E (ucast (Index req)) s then HTOUSB16 1 else HTOUSB16 0) (control_data s)\<rparr>)
           else Inr (False, dl, s)
      else Inl (Panic KERNEL_ERROR_NOT_IMPLEMENTED))"

definition setup_std_req :: "nat \<Rightarrow> usb_drivers \<Rightarrow> ram \<Rightarrow> request_fun" where
  "setup_std_req fuel E stack req dl s =
     (let recipient = RequestType req AND 0x1F in
      if recipient = 0 then setup_std_device fuel E stack req dl s
      else if recipient = 1 then setup_std_interface E req dl s
      else if recipient = 2 then setup_std_endpoint E req dl s
      else Inr (False, dl, s))"

text \<open>
  \<^verbatim>\<open>_setup_class_req\<close> and \<^verbatim>\<open>_setup_vendor_req\<close> differ in the functions they call:
  \<open>cf\<close> selects that of the configuration driver, \<open>f\<close> that of the interface driver.
\<close>

definition setup_driver_req ::
  "(usb_configuration_ops \<Rightarrow> request_fun option) \<Rightarrow> (usb_interface_ops \<Rightarrow> (ifid \<Rightarrow> request_fun) option) \<Rightarrow> usb_drivers \<Rightarrow> request_fun" where
  "setup_driver_req cf f E req dl s =
     (let recipient = RequestType req AND 0x1F in
      if recipient = 0
      then (case configuration s of
          None \<Rightarrow> Inr (False, dl, s)
        | Some c \<Rightarrow> (case CfDriver (conf (cfg s) c) of
            None \<Rightarrow> Inl (Panic KERNEL_ERROR_NULL_POINTER)
          | Some d \<Rightarrow> (case cf (ConfOps E d) of None \<Rightarrow> Inr (False, dl, s) | Some g \<Rightarrow> g req dl s)))
      else if recipient = 1
      then rbind (get_interface (Index req) s) (\<lambda>i. rbind (interface_driver_of i s) (\<lambda>d.
          case f (IfOps E d) of None \<Rightarrow> Inr (False, dl, s) | Some g \<Rightarrow> g i req dl s))
      else Inr (False, dl, s))"

definition setup_class_req :: "usb_drivers \<Rightarrow> request_fun" where
  "setup_class_req = setup_driver_req DeviceClassRequest ClassRequest"

definition setup_vendor_req :: "usb_drivers \<Rightarrow> request_fun" where
  "setup_vendor_req = setup_driver_req DeviceVendorRequest VendorRequest"

definition setup_req :: "nat \<Rightarrow> usb_drivers \<Rightarrow> ram \<Rightarrow> request_fun" where
  "setup_req fuel E stack req dl s =
     (let t = RequestType req AND 0x60 in
      rbind (if t = 0 then setup_std_req fuel E stack req dl s
             else if t = 0x20 then setup_class_req E req dl s
             else if t = 0x40 then setup_vendor_req E req dl s
             else Inr (False, dl, s))
        (\<lambda>(ok, (data, len), s1). Inr (ok, (data, if ok then len else snd dl), s1)))"

section \<open>The handler of control transfers\<close>

definition decode_setup :: "u8 list \<Rightarrow> usb_request_t" where
  "decode_setup b = \<lparr>RequestType = b ! 0, RequestCode = b ! 1, Value = ucast (b ! 2) OR push_bit 8 (ucast (b ! 3)),
     Index = ucast (b ! 4) OR push_bit 8 (ucast (b ! 5)), Length = ucast (b ! 6) OR push_bit 8 (ucast (b ! 7))\<rparr>"

abbreviation device_to_host :: "usb_request_t \<Rightarrow> bool" where
  "device_to_host req \<equiv> RequestType req AND 0x80 \<noteq> 0"

text \<open>The data stage of a request to the device: its outcome is a status and the bytes received.\<close>

definition setup_out :: "usb_request_t \<Rightarrow> usb_io_status \<times> u8 list \<Rightarrow> usb_device \<Rightarrow> usb_device" where
  "setup_out req out_io s =
     (if \<not> device_to_host req \<and> Length req \<noteq> 0
      then let s1 = (hal_call (hal_usbd_prepare_out_ep 0 (Length req)) s)
                      \<lparr>control_data := store 0 (take (unat (Length req)) (snd out_io)) (control_data s)\<rparr>
        in if fst out_io \<noteq> USB_IOSTA_DONE then s1\<lparr>error_flag := True\<rparr> else s1
      else s)"

definition data_bytes :: "usb_device \<Rightarrow> usb_data \<Rightarrow> nat \<Rightarrow> u8 list" where
  "data_bytes s data n =
     (case data of
        ControlData \<Rightarrow> load 0 n (control_data s)
      | DescBuffer \<Rightarrow> load 0 n (desc_buffer (cfg s))
      | DeviceStatus \<Rightarrow> take n [ucast (device_status s), ucast (drop_bit 8 (device_status s)),
          ucast (drop_bit 16 (device_status s)), ucast (drop_bit 24 (device_status s))]
      | DriverData bs \<Rightarrow> take n bs
      | NullData \<Rightarrow> [])"

text \<open>The reply, or the status stage of a request to the device; \<open>in_io\<close> is the outcome of the transfer.\<close>

definition setup_in :: "usb_request_t \<Rightarrow> usb_io_status \<Rightarrow> bool \<Rightarrow> usb_data \<Rightarrow> u32 \<Rightarrow> usb_device \<Rightarrow> usb_device" where
  "setup_in req in_io ok data len s =
     (if ok
      then let n = (if device_to_host req then min (unat len) (unat (Length req)) else 0);
               s1 = hal_call (hal_usbd_prepare_in_ep 0 (data_bytes s (if device_to_host req then data else ControlData) n)) s
        in if in_io \<noteq> USB_IOSTA_DONE then s1\<lparr>error_flag := True\<rparr> else s1
      else if device_to_host req then hal_call (hal_usbd_stall_in_ep 0 True) s
      else hal_call (hal_usbd_stall_out_ep 0 True) s)"

definition set_hal_address :: "usb_device \<Rightarrow> usb_device" where
  "set_hal_address s =
     (if address s \<noteq> hal_addr s then (hal_call (hal_usbd_set_address (address s)) s)\<lparr>hal_addr := address s\<rparr> else s)"

text \<open>
  \<^verbatim>\<open>_setup_handler\<close>.  At its end the handler adds its dispatcher again (theory Dispatch), which does
  not concern this state.
\<close>

definition setup_handler ::
  "nat \<Rightarrow> usb_drivers \<Rightarrow> ram \<Rightarrow> usb_io_status \<Rightarrow> u8 list \<Rightarrow> usb_io_status \<times> u8 list \<Rightarrow> usb_io_status \<Rightarrow> usb_device \<Rightarrow> usb_device res" where
  "setup_handler fuel E stack setup_status setup_data out_io in_io s =
     (if setup_status = USB_IOSTA_DONE
      then let req = decode_setup setup_data; s1 = setup_out req out_io (hal_call hal_usbd_prepare_setup_ep s) in
        if error_flag s1 then Inr s1
        else rbind (setup_req fuel E stack req (ControlData, ucast (Length req)) s1) (\<lambda>(ok, (data, len), s2).
          Inr (set_hal_address (setup_in req in_io ok data len s2)))
      else if setup_status = USB_IOSTA_ERROR then Inr (s\<lparr>error_flag := True\<rparr>)
      else Inr s)"

section \<open>The service loop\<close>

text \<open>One round of the loop of \<^verbatim>\<open>_service\<close> before and after it dispatches.\<close>

definition service_connect :: "usb_device \<Rightarrow> usb_device" where
  "service_connect s =
     hal_call (hal_usbd_connect True) (hal_call hal_usbd_prepare_setup_ep
       (s\<lparr>address := 0, hal_addr := 0, configuration := None, configuration_value := 0, alternate_setting := 0, error_flag := False\<rparr>))"

definition service_disconnect :: "usb_drivers \<Rightarrow> usb_device \<Rightarrow> usb_device res" where
  "service_disconnect E s = (case configuration s of None \<Rightarrow> Inr s | Some c \<Rightarrow> stop_configuration E c s)"

section \<open>Endpoints of the drivers\<close>

text \<open>\<open>autoreset\<close> is the flag of the event of the buffer, \<open>len\<close> and \<open>bs\<close> its length and contents.\<close>

definition usb_set_rx_buffer :: "u32 \<Rightarrow> bool \<Rightarrow> u16 \<Rightarrow> usb_device \<Rightarrow> usb_device res" where
  "usb_set_rx_buffer ep_num autoreset len s =
     ASSERT autoreset KERNEL_ERROR_KERNEL_PANIC (ASSERT (ep_num < 16) KERNEL_ERROR_KERNEL_PANIC
       (Inr (if ep_num \<noteq> 0 then hal_call (hal_usbd_prepare_out_ep ep_num len) s else s)))"

definition usb_set_tx_buffer :: "u32 \<Rightarrow> bool \<Rightarrow> u8 list \<Rightarrow> usb_device \<Rightarrow> usb_device res" where
  "usb_set_tx_buffer ep_num autoreset bs s =
     ASSERT autoreset KERNEL_ERROR_KERNEL_PANIC (ASSERT (ep_num < 16) KERNEL_ERROR_KERNEL_PANIC
       (Inr (if ep_num \<noteq> 0 then hal_call (hal_usbd_prepare_in_ep ep_num bs) s else s)))"

definition usb_device_stall :: "u32 \<Rightarrow> usb_device \<Rightarrow> usb_device res" where
  "usb_device_stall ep_num s =
     ASSERT (ep_num < 16) KERNEL_ERROR_KERNEL_PANIC
       (Inr (if ep_num \<noteq> 0 then hal_call (hal_usbd_stall_in_ep ep_num True) s else s))"

section \<open>Starting and stopping the drivers of the repository\<close>

text \<open>
  \<^verbatim>\<open>_start\<close> and \<^verbatim>\<open>_stop\<close> of \<^verbatim>\<open>iap2_device.c\<close>,
  \<^verbatim>\<open>ftdi.c\<close> and \<^verbatim>\<open>cdc_ncm.c\<close> as far as they concern the service: the list of started
  instances and the buffers handed to the controller.  Their dispatchers, events and protocol state are not part of this state.
  \<open>len\<close> is the size of the receive buffer.
\<close>

definition enlist :: "ifid \<Rightarrow> usb_device \<Rightarrow> usb_device res" where
  "enlist i s =
     (let k = DriverContext (iface (cfg s) i) in
      ASSERT (k \<notin> set (instances s)) KERNEL_ERROR_KERNEL_PANIC (Inr (s\<lparr>instances := instances s @ [k]\<rparr>)))"

definition delist :: "ifid \<Rightarrow> usb_device \<Rightarrow> usb_device res" where
  "delist i s =
     (let k = DriverContext (iface (cfg s) i) in
      ASSERT (k \<in> set (instances s)) KERNEL_ERROR_KERNEL_PANIC (Inr (s\<lparr>instances := filter (\<lambda>x. x \<noteq> k) (instances s)\<rparr>)))"

definition iap2_start :: "u16 \<Rightarrow> ifid \<Rightarrow> u8 \<Rightarrow> usb_device \<Rightarrow> (bool \<times> usb_device) res" where
  "iap2_start len i alt s = rbind (enlist i s) (\<lambda>s1. rbind (usb_set_rx_buffer 1 True len s1) (\<lambda>s2. Inr (True, s2)))"

definition ftdi_start :: "ifid \<Rightarrow> u8 \<Rightarrow> usb_device \<Rightarrow> (bool \<times> usb_device) res" where
  "ftdi_start i alt s = rbind (enlist i s) (\<lambda>s1. rbind (usb_set_rx_buffer 2 True 64 s1) (\<lambda>s2. Inr (True, s2)))"

definition ncm_start :: "ifid \<Rightarrow> u8 \<Rightarrow> usb_device \<Rightarrow> (bool \<times> usb_device) res" where
  "ncm_start i alt s = rbind (enlist i s) (\<lambda>s1. Inr (True, s1))"

definition ncm_enable_data_if :: "bool \<Rightarrow> usb_device \<Rightarrow> usb_device res" where
  "ncm_enable_data_if enable s = (if enable then usb_set_rx_buffer 2 True 2048 s else Inr s)"

definition ncm_start2 :: "ifid \<Rightarrow> u8 \<Rightarrow> usb_device \<Rightarrow> (bool \<times> usb_device) res" where
  "ncm_start2 i alt s =
     ASSERT (DriverContext (iface (cfg s) i) \<in> set (instances s)) KERNEL_ERROR_KERNEL_PANIC
       (rbind (ncm_enable_data_if (alt \<noteq> 0) s) (\<lambda>s1. Inr (True, s1)))"

definition ncm_set_if2 :: "ifid \<Rightarrow> u16 \<Rightarrow> usb_device \<Rightarrow> (bool \<times> usb_device) res" where
  "ncm_set_if2 i alt s =
     ASSERT (DriverContext (iface (cfg s) i) \<in> set (instances s)) KERNEL_ERROR_KERNEL_PANIC
       (rbind (ncm_enable_data_if (alt \<noteq> 0) s) (\<lambda>s1. Inr (True, s1)))"

definition ncm_stop2 :: "ifid \<Rightarrow> usb_device \<Rightarrow> usb_device res" where
  "ncm_stop2 i s = ncm_enable_data_if False s"

text \<open>The drivers of the boot loader; \<open>creq\<close> stands for the class requests of the network device.\<close>

definition boot_if_ops :: "u16 \<Rightarrow> (ifid \<Rightarrow> request_fun) option \<Rightarrow> nat \<Rightarrow> usb_interface_ops" where
  "boot_if_ops len creq n =
     (if n = IAP2 then \<lparr>Start = iap2_start len, Stop = Some delist, SetInterface = None, VendorRequest = None,
        InterfaceRequest = None, ClassRequest = None\<rparr>
      else if n = NCM then \<lparr>Start = ncm_start, Stop = Some delist, SetInterface = None, VendorRequest = None,
        InterfaceRequest = None, ClassRequest = creq\<rparr>
      else \<lparr>Start = ncm_start2, Stop = Some ncm_stop2, SetInterface = Some ncm_set_if2, VendorRequest = None,
        InterfaceRequest = None, ClassRequest = None\<rparr>)"

definition boot_conf_ops :: "nat \<Rightarrow> usb_configuration_ops" where
  "boot_conf_ops n = \<lparr>Configured = None, DeviceClassRequest = None, DeviceVendorRequest = None\<rparr>"

end
