(* ===== verification/UsbHost.thy ===== *)
theory UsbHost
  imports UsbDevice UsbParse
begin

text \<open>
  The USB host stack (\<^verbatim>\<open>exos/kernel/driver/usb/host.c\<close> and \<^verbatim>\<open>enumerate.c\<close>):
  devices, transfers, control requests, and the enumeration of the configurations of a device.  The transfer functions of the
  host controller driver act on the bus, a state of type \<open>'w\<close>; those that attach and detach a device, and the functions
  of the function drivers, may change the whole state, of which \<open>'f\<close> is the part of the function drivers.  The memory
  \<open>usb_ram\<close> holds the buffers of the section \<^verbatim>\<open>__usb\<close>; the buffer of the enumeration,
  \<^verbatim>\<open>_buffer\<close>, takes its addresses from 0 to 2047.
\<close>

unbundle bit_operations_syntax

section \<open>State\<close>

type_synonym hdid = nat
type_synonym fnid = nat

datatype usb_host_device_state = USB_HOST_DEVICE_CREATED | USB_HOST_DEVICE_ATTACHED | USB_HOST_DEVICE_DETACHED

datatype usb_host_device_speed = USB_HOST_DEVICE_LOW_SPEED | USB_HOST_DEVICE_FULL_SPEED | USB_HOST_DEVICE_HIGH_SPEED

datatype urb_status = URB_STATUS_EMPTY | URB_STATUS_ISSUED | URB_STATUS_FAILED | URB_STATUS_DONE | USB_STATUS_CANCELLED

record usb_host_pipe_t =
  PipeDevice :: hdid
  EndpointType :: usb_transfer_type
  Direction :: usb_direction
  MaxPacketSize :: u8
  PipeEndpoint :: u8
  InterruptInterval :: u8

record usb_request_buffer_t =
  UrbPipe :: usb_host_pipe_t
  UrbData :: nat
  UrbStatus :: urb_status

record usb_host_device_t =
  Functions :: "fnid list"
  ControlPipe :: usb_host_pipe_t
  ControlBuffer :: usb_request_t
  Port :: u8
  Speed :: usb_host_device_speed
  HostAddress :: u8
  Vendor :: u16
  Product :: u16
  HostState :: usb_host_device_state

record usb_host_function_t =
  FnDevice :: hdid
  FnDriver :: nat

record ('f, 'w) usb_host =
  host_drivers :: "nat list"                 \<comment> \<open>\<^verbatim>\<open>_drivers\<close>\<close>
  host_devices :: "hdid \<Rightarrow> usb_host_device_t"
  host_functions :: "fnid \<Rightarrow> usb_host_function_t"
  usb_ram :: ram
  RootHubPorts :: u8
  fn_state :: 'f
  bus :: 'w

text \<open>
  \<open>CtrlSetupRead\<close> returns whether it succeeded and the bytes it has written to the buffer, \<open>EndTransfer\<close> the
  number of bytes or an error and the bytes it has written.
\<close>

record ('f, 'w) usb_host_controller_driver =
  CtrlSetupRead :: "usb_request_t \<Rightarrow> u32 \<Rightarrow> 'w \<Rightarrow> (bool \<times> u8 list \<times> 'w) res"
  CtrlSetupWrite :: "usb_request_t \<Rightarrow> u8 list \<Rightarrow> 'w \<Rightarrow> (bool \<times> 'w) res"
  StartPipe :: "usb_host_pipe_t \<Rightarrow> 'w \<Rightarrow> bool \<times> 'w"
  StopPipe :: "usb_host_pipe_t \<Rightarrow> 'w \<Rightarrow> bool \<times> 'w"
  BeginTransfer :: "usb_request_buffer_t \<Rightarrow> nat \<Rightarrow> u32 \<Rightarrow> 'w \<Rightarrow> bool \<times> usb_request_buffer_t \<times> 'w"
  EndTransfer :: "usb_request_buffer_t \<Rightarrow> u32 \<Rightarrow> 'w \<Rightarrow> int \<times> u8 list \<times> usb_request_buffer_t \<times> 'w"
  CreateDevice :: "hdid \<Rightarrow> u32 \<Rightarrow> usb_host_device_speed \<Rightarrow> ('f, 'w) usb_host \<Rightarrow> (bool \<times> ('f, 'w) usb_host) res"
  DestroyDevice :: "hdid \<Rightarrow> ('f, 'w) usb_host \<Rightarrow> ('f, 'w) usb_host res"
  BeginRoleSwitch :: "(('f, 'w) usb_host \<Rightarrow> bool \<times> ('f, 'w) usb_host) option"

record ('f, 'w) usb_host_function_driver =
  CheckInterface :: "hdid \<Rightarrow> nat \<Rightarrow> nat \<Rightarrow> ('f, 'w) usb_host \<Rightarrow> (fnid option \<times> ('f, 'w) usb_host) res"
  FnStart :: "fnid \<Rightarrow> nat \<Rightarrow> nat \<Rightarrow> ('f, 'w) usb_host \<Rightarrow> ('f, 'w) usb_host res"
  FnStop :: "fnid \<Rightarrow> ('f, 'w) usb_host \<Rightarrow> ('f, 'w) usb_host res"

type_synonym ('f, 'w) fn_drivers = "nat \<Rightarrow> ('f, 'w) usb_host_function_driver"

definition upd_device :: "hdid \<Rightarrow> (usb_host_device_t \<Rightarrow> usb_host_device_t) \<Rightarrow> ('f, 'w) usb_host \<Rightarrow> ('f, 'w) usb_host" where
  "upd_device d f s = s\<lparr>host_devices := (host_devices s)(d := f (host_devices s d))\<rparr>"

section \<open>Drivers and devices\<close>

definition usb_host_controller_create :: "u32 \<Rightarrow> ('f, 'w) usb_host \<Rightarrow> ('f, 'w) usb_host res" where
  "usb_host_controller_create port_count s =
     ASSERT (port_count \<noteq> 0) KERNEL_ERROR_KERNEL_PANIC (Inr (s\<lparr>RootHubPorts := ucast port_count\<rparr>))"

definition usb_host_begin_role_switch ::
  "('f, 'w) usb_host_controller_driver \<Rightarrow> ('f, 'w) usb_host \<Rightarrow> bool \<times> ('f, 'w) usb_host" where
  "usb_host_begin_role_switch hcd s = (case BeginRoleSwitch hcd of None \<Rightarrow> (False, s) | Some f \<Rightarrow> f s)"

text \<open>A node of the list of drivers stands for the driver it points to.\<close>

definition usb_host_driver_register :: "nat \<Rightarrow> ('f, 'w) usb_host \<Rightarrow> ('f, 'w) usb_host res" where
  "usb_host_driver_register driver_node s =
     (if driver_node \<in> set (host_drivers s) then Inl (Panic KERNEL_ERROR_LIST_ALREADY_CONTAINS_NODE)
      else Inr (s\<lparr>host_drivers := host_drivers s @ [driver_node]\<rparr>))"

text \<open>
  \<^verbatim>\<open>usb_host_driver_enumerate\<close> with the callback \<^verbatim>\<open>_check_interface\<close>: the
  function of the first driver that takes the descriptor.
\<close>

fun usb_host_driver_enumerate ::
  "('f, 'w) fn_drivers \<Rightarrow> nat list \<Rightarrow> hdid \<Rightarrow> nat \<Rightarrow> nat \<Rightarrow> ('f, 'w) usb_host \<Rightarrow> (fnid option \<times> ('f, 'w) usb_host) res" where
  "usb_host_driver_enumerate FD [] d conf_desc fn_desc s = Inr (None, s)"
| "usb_host_driver_enumerate FD (n # ns) d conf_desc fn_desc s =
     rbind (CheckInterface (FD n) d conf_desc fn_desc s) (\<lambda>(func, s1).
       case func of Some f \<Rightarrow> Inr (Some f, s1) | None \<Rightarrow> usb_host_driver_enumerate FD ns d conf_desc fn_desc s1)"

definition create_device :: "hdid \<Rightarrow> u32 \<Rightarrow> usb_host_device_speed \<Rightarrow> ('f, 'w) usb_host \<Rightarrow> ('f, 'w) usb_host" where
  "create_device d port speed =
     upd_device d (\<lambda>x. x\<lparr>Functions := [], Port := ucast port, Speed := speed, HostAddress := 0, Vendor := 0, Product := 0,
       HostState := USB_HOST_DEVICE_CREATED,
       ControlPipe := \<lparr>PipeDevice = d, EndpointType = USB_TT_CONTROL, Direction = USB_HOST_TO_DEVICE, MaxPacketSize = 8,
         PipeEndpoint = 0, InterruptInterval = 0\<rparr>\<rparr>)"

text \<open>The device of a port of the root hub is the one of that number.\<close>

definition usb_host_create_root_device ::
  "('f, 'w) usb_host_controller_driver \<Rightarrow> u32 \<Rightarrow> usb_host_device_speed \<Rightarrow> ('f, 'w) usb_host
    \<Rightarrow> (hdid option \<times> ('f, 'w) usb_host) res" where
  "usb_host_create_root_device hcd port speed s =
     ASSERT (port < ucast (RootHubPorts s)) KERNEL_ERROR_KERNEL_PANIC
       (rbind (CreateDevice hcd (unat port) port speed (create_device (unat port) port speed s)) (\<lambda>(ok, s1).
          Inr (if ok then Some (unat port) else None, s1)))"

definition usb_host_create_child_device ::
  "('f, 'w) usb_host_controller_driver \<Rightarrow> hdid \<Rightarrow> u32 \<Rightarrow> usb_host_device_speed \<Rightarrow> ('f, 'w) usb_host
    \<Rightarrow> (bool \<times> ('f, 'w) usb_host) res" where
  "usb_host_create_child_device hcd child port speed s = CreateDevice hcd child port speed (create_device child port speed s)"

definition usb_host_destroy_function :: "('f, 'w) fn_drivers \<Rightarrow> fnid \<Rightarrow> ('f, 'w) usb_host \<Rightarrow> ('f, 'w) usb_host res" where
  "usb_host_destroy_function FD f s = FnStop (FD (FnDriver (host_functions s f))) f s"

fun destroy_device :: "('f, 'w) fn_drivers \<Rightarrow> fnid list \<Rightarrow> ('f, 'w) usb_host \<Rightarrow> ('f, 'w) usb_host res" where
  "destroy_device FD [] s = Inr s"
| "destroy_device FD (f # fs) s = rbind (usb_host_destroy_function FD f s) (destroy_device FD fs)"

definition usb_host_destroy_device ::
  "('f, 'w) usb_host_controller_driver \<Rightarrow> ('f, 'w) fn_drivers \<Rightarrow> hdid \<Rightarrow> ('f, 'w) usb_host \<Rightarrow> ('f, 'w) usb_host res" where
  "usb_host_destroy_device hcd FD d s =
     (if HostState (host_devices s d) \<noteq> USB_HOST_DEVICE_CREATED
      then rbind (DestroyDevice hcd d s) (\<lambda>s1. destroy_device FD (Functions (host_devices s1 d)) s1)
      else Inr s)"

definition usb_host_create_function :: "fnid \<Rightarrow> hdid \<Rightarrow> nat \<Rightarrow> ('f, 'w) usb_host \<Rightarrow> ('f, 'w) usb_host" where
  "usb_host_create_function f d driver s = s\<lparr>host_functions := (host_functions s)(f := \<lparr>FnDevice = d, FnDriver = driver\<rparr>)\<rparr>"

section \<open>Pipes and transfers\<close>

definition usb_host_init_pipe_from_descriptor :: "hdid \<Rightarrow> ram \<Rightarrow> nat \<Rightarrow> usb_host_pipe_t" where
  "usb_host_init_pipe_from_descriptor d m ep_desc =
     \<lparr>PipeDevice = d, EndpointType = TransferType (m (ep_desc + 3)), Direction = Input (m (ep_desc + 2)),
      MaxPacketSize = ucast (USB16TOH (ep_desc + 4) m), PipeEndpoint = EndpointNumber (m (ep_desc + 2)),
      InterruptInterval = m (ep_desc + 6)\<rparr>"

definition usb_host_start_pipe ::
  "('f, 'w) usb_host_controller_driver \<Rightarrow> usb_host_pipe_t \<Rightarrow> ('f, 'w) usb_host \<Rightarrow> bool \<times> ('f, 'w) usb_host" where
  "usb_host_start_pipe hcd pipe s = (let (ok, w) = StartPipe hcd pipe (bus s) in (ok, s\<lparr>bus := w\<rparr>))"

definition usb_host_stop_pipe ::
  "('f, 'w) usb_host_controller_driver \<Rightarrow> usb_host_pipe_t \<Rightarrow> ('f, 'w) usb_host \<Rightarrow> bool \<times> ('f, 'w) usb_host" where
  "usb_host_stop_pipe hcd pipe s = (let (ok, w) = StopPipe hcd pipe (bus s) in (ok, s\<lparr>bus := w\<rparr>))"

definition usb_host_urb_create :: "usb_host_pipe_t \<Rightarrow> usb_request_buffer_t \<Rightarrow> usb_request_buffer_t" where
  "usb_host_urb_create pipe urb = urb\<lparr>UrbPipe := pipe, UrbStatus := URB_STATUS_EMPTY\<rparr>"

definition usb_host_begin_transfer ::
  "('f, 'w) usb_host_controller_driver \<Rightarrow> usb_request_buffer_t \<Rightarrow> nat \<Rightarrow> u32 \<Rightarrow> ('f, 'w) usb_host
    \<Rightarrow> bool \<times> usb_request_buffer_t \<times> ('f, 'w) usb_host" where
  "usb_host_begin_transfer hcd urb data len s =
     (let (ok, urb1, w) = BeginTransfer hcd urb data len (bus s) in (ok, urb1, s\<lparr>bus := w\<rparr>))"

definition usb_host_end_transfer ::
  "('f, 'w) usb_host_controller_driver \<Rightarrow> usb_request_buffer_t \<Rightarrow> u32 \<Rightarrow> ('f, 'w) usb_host
    \<Rightarrow> int \<times> usb_request_buffer_t \<times> ('f, 'w) usb_host" where
  "usb_host_end_transfer hcd urb timeout s =
     (let (n, bs, urb1, w) = EndTransfer hcd urb timeout (bus s)
      in (n, urb1, s\<lparr>usb_ram := store (UrbData urb) bs (usb_ram s), bus := w\<rparr>))"

text \<open>\<open>urb\<close> is the uninitialised local.\<close>

definition usb_host_do_transfer ::
  "('f, 'w) usb_host_controller_driver \<Rightarrow> usb_request_buffer_t \<Rightarrow> usb_host_pipe_t \<Rightarrow> nat \<Rightarrow> u32 \<Rightarrow> u32 \<Rightarrow> ('f, 'w) usb_host
    \<Rightarrow> int \<times> ('f, 'w) usb_host" where
  "usb_host_do_transfer hcd urb pipe data len timeout s =
     (let (ok, urb1, s1) = usb_host_begin_transfer hcd (usb_host_urb_create pipe urb) data len s in
      if ok then let (n, urb2, s2) = usb_host_end_transfer hcd urb1 timeout s1 in (n, s2) else (0, s1))"

section \<open>Control requests\<close>

text \<open>\<^verbatim>\<open>usb_host_ctrl_setup\<close>: \<open>data\<close> is an address of \<open>usb_ram\<close>.\<close>

definition usb_host_ctrl_setup ::
  "('f, 'w) usb_host_controller_driver \<Rightarrow> hdid \<Rightarrow> usb_request_t \<Rightarrow> nat \<Rightarrow> u32 \<Rightarrow> ('f, 'w) usb_host
    \<Rightarrow> (bool \<times> ('f, 'w) usb_host) res" where
  "usb_host_ctrl_setup hcd d req data len s =
     (if HostState (host_devices s d) \<noteq> USB_HOST_DEVICE_ATTACHED then Inr (False, s)
      else
        let s1 = upd_device d (\<lambda>x. x\<lparr>ControlBuffer := req\<rparr>) s in
        if len \<noteq> 0 \<and> RequestType req AND 0x80 = 0x80
        then rbind (CtrlSetupRead hcd req len (bus s1)) (\<lambda>(ok, bs, w).
          Inr (ok, s1\<lparr>usb_ram := store data (take (unat len) bs) (usb_ram s1), bus := w\<rparr>))
        else rbind (CtrlSetupWrite hcd req (load data (unat len) (usb_ram s1)) (bus s1)) (\<lambda>(ok, w). Inr (ok, s1\<lparr>bus := w\<rparr>)))"

definition usb_host_read_device_descriptor ::
  "('f, 'w) usb_host_controller_driver \<Rightarrow> hdid \<Rightarrow> u8 \<Rightarrow> u8 \<Rightarrow> nat \<Rightarrow> u16 \<Rightarrow> ('f, 'w) usb_host
    \<Rightarrow> (bool \<times> ('f, 'w) usb_host) res" where
  "usb_host_read_device_descriptor hcd d desc_type desc_index data len =
     usb_host_ctrl_setup hcd d \<lparr>RequestType = 0x80, RequestCode = 6,
       Value = push_bit 8 (ucast desc_type) OR ucast desc_index, Index = 0, Length = len\<rparr> data (ucast len)"

definition usb_host_read_string_descriptor ::
  "('f, 'w) usb_host_controller_driver \<Rightarrow> hdid \<Rightarrow> u16 \<Rightarrow> u8 \<Rightarrow> nat \<Rightarrow> u16 \<Rightarrow> ('f, 'w) usb_host
    \<Rightarrow> (bool \<times> ('f, 'w) usb_host) res" where
  "usb_host_read_string_descriptor hcd d lang_id str_index data len =
     usb_host_ctrl_setup hcd d \<lparr>RequestType = 0x80, RequestCode = 6,
       Value = push_bit 8 (ucast USB_DESCRIPTOR_TYPE_STRING) OR ucast str_index, Index = lang_id, Length = len\<rparr> data (ucast len)"

definition usb_host_read_if_descriptor ::
  "('f, 'w) usb_host_controller_driver \<Rightarrow> hdid \<Rightarrow> u16 \<Rightarrow> u8 \<Rightarrow> u8 \<Rightarrow> nat \<Rightarrow> u16 \<Rightarrow> ('f, 'w) usb_host
    \<Rightarrow> (bool \<times> ('f, 'w) usb_host) res" where
  "usb_host_read_if_descriptor hcd d interface desc_type desc_index data len =
     usb_host_ctrl_setup hcd d \<lparr>RequestType = 0x81, RequestCode = 6,
       Value = push_bit 8 (ucast desc_type) OR ucast desc_index, Index = interface, Length = len\<rparr> data (ucast len)"

definition usb_host_set_address ::
  "('f, 'w) usb_host_controller_driver \<Rightarrow> hdid \<Rightarrow> u8 \<Rightarrow> ('f, 'w) usb_host \<Rightarrow> (bool \<times> ('f, 'w) usb_host) res" where
  "usb_host_set_address hcd d addr =
     usb_host_ctrl_setup hcd d \<lparr>RequestType = 0, RequestCode = 5, Value = ucast addr, Index = 0, Length = 0\<rparr> 0 0"

definition usb_host_set_interface ::
  "('f, 'w) usb_host_controller_driver \<Rightarrow> hdid \<Rightarrow> u16 \<Rightarrow> u16 \<Rightarrow> ('f, 'w) usb_host \<Rightarrow> (bool \<times> ('f, 'w) usb_host) res" where
  "usb_host_set_interface hcd d interface alt =
     usb_host_ctrl_setup hcd d \<lparr>RequestType = 1, RequestCode = 11, Value = alt, Index = interface, Length = 0\<rparr> 0 0"

section \<open>Enumeration\<close>

definition host_set_configuration ::
  "('f, 'w) usb_host_controller_driver \<Rightarrow> hdid \<Rightarrow> nat \<Rightarrow> ('f, 'w) usb_host \<Rightarrow> (bool \<times> ('f, 'w) usb_host) res" where
  "host_set_configuration hcd d conf_desc s =
     usb_host_ctrl_setup hcd d \<lparr>RequestType = 0, RequestCode = 9, Value = ucast (usb_ram s (conf_desc + 5)), Index = 0, Length = 0\<rparr> 0 0 s"

text \<open>
  What \<^verbatim>\<open>_enum_interfaces\<close> does with a descriptor a driver was found for: \<open>None\<close> when the
  configuration cannot be set.
\<close>

definition enum_start ::
  "('f, 'w) usb_host_controller_driver \<Rightarrow> ('f, 'w) fn_drivers \<Rightarrow> hdid \<Rightarrow> nat \<Rightarrow> nat \<Rightarrow> nat \<Rightarrow> fnid \<Rightarrow> ('f, 'w) usb_host
    \<Rightarrow> (nat option \<times> ('f, 'w) usb_host) res" where
  "enum_start hcd FD d conf_desc fn_desc done func s =
     rbind (if done = 0 then host_set_configuration hcd d conf_desc s else Inr (True, s)) (\<lambda>(ok, s1).
       if \<not> ok then Inr (None, s1)
       else rbind (FnStart (FD (FnDriver (host_functions s1 func))) func conf_desc fn_desc s1) (\<lambda>s2.
         Inr (Some (done + 1), upd_device d (\<lambda>x. x\<lparr>Functions := Functions x @ [func]\<rparr>) s2)))"

definition enum_descriptor ::
  "('f, 'w) usb_host_controller_driver \<Rightarrow> ('f, 'w) fn_drivers \<Rightarrow> hdid \<Rightarrow> nat \<Rightarrow> nat \<Rightarrow> nat \<Rightarrow> ('f, 'w) usb_host
    \<Rightarrow> (nat option \<times> ('f, 'w) usb_host) res" where
  "enum_descriptor hcd FD d conf_desc fn_desc done s =
     (if usb_ram s (fn_desc + 1) = USB_DESCRIPTOR_TYPE_INTERFACE \<or> usb_ram s (fn_desc + 1) = USB_DESCRIPTOR_TYPE_INTERFACE_ASSOCIATION
      then rbind (usb_host_driver_enumerate FD (host_drivers s) d conf_desc fn_desc s) (\<lambda>(func, s1).
        case func of None \<Rightarrow> Inr (Some done, s1) | Some f \<Rightarrow> enum_start hcd FD d conf_desc fn_desc done f s1)
      else Inr (Some done, s))"

fun enum_loop ::
  "nat \<Rightarrow> ('f, 'w) usb_host_controller_driver \<Rightarrow> ('f, 'w) fn_drivers \<Rightarrow> hdid \<Rightarrow> nat \<Rightarrow> nat \<Rightarrow> nat \<Rightarrow> ('f, 'w) usb_host
    \<Rightarrow> (nat \<times> ('f, 'w) usb_host) res" where
  "enum_loop 0 hcd FD d conf_desc offset done s = Inl OutOfFuel"
| "enum_loop (Suc fuel) hcd FD d conf_desc offset done s =
     (if offset < unat (USB16TOH (conf_desc + 2) (usb_ram s))
      then rbind (enum_descriptor hcd FD d conf_desc (conf_desc + offset) done s) (\<lambda>(r, s1).
        case r of
          None \<Rightarrow> Inr (done, s1)
        | Some done1 \<Rightarrow> enum_loop fuel hcd FD d conf_desc (offset + unat (usb_ram s1 (conf_desc + offset))) done1 s1)
      else Inr (done, s))"

definition enum_interfaces ::
  "nat \<Rightarrow> ('f, 'w) usb_host_controller_driver \<Rightarrow> ('f, 'w) fn_drivers \<Rightarrow> hdid \<Rightarrow> nat \<Rightarrow> ('f, 'w) usb_host
    \<Rightarrow> (nat \<times> ('f, 'w) usb_host) res" where
  "enum_interfaces fuel hcd FD d conf_desc s = enum_loop fuel hcd FD d conf_desc (unat (usb_ram s conf_desc)) 0 s"

text \<open>\<^verbatim>\<open>_parse_configuration\<close>; a configuration that is too big counts as parsed.\<close>

definition parse_configuration ::
  "nat \<Rightarrow> ('f, 'w) usb_host_controller_driver \<Rightarrow> ('f, 'w) fn_drivers \<Rightarrow> hdid \<Rightarrow> u8 \<Rightarrow> ('f, 'w) usb_host
    \<Rightarrow> (bool \<times> ('f, 'w) usb_host) res" where
  "parse_configuration fuel hcd FD d conf_index s =
     rbind (usb_host_read_device_descriptor hcd d USB_DESCRIPTOR_TYPE_CONFIGURATION conf_index 0 9 s) (\<lambda>(ok, s1).
       if \<not> ok then Inr (False, s1)
       else let total_length = USB16TOH 2 (usb_ram s1) in
         if total_length \<le> 2048
         then rbind (usb_host_read_device_descriptor hcd d USB_DESCRIPTOR_TYPE_CONFIGURATION conf_index 0 (ucast total_length) s1) (\<lambda>(ok1, s2).
           if \<not> ok1 then Inr (False, s2)
           else rbind (enum_interfaces fuel hcd FD d 0 s2) (\<lambda>(n, s3). Inr (n \<noteq> 0, s3)))
         else Inr (True, s1))"

text \<open>\<^verbatim>\<open>usb_host_enumerate\<close>; the device descriptor is the memory \<open>dev\<close> at 0.\<close>

fun try_configurations ::
  "nat list \<Rightarrow> nat \<Rightarrow> ('f, 'w) usb_host_controller_driver \<Rightarrow> ('f, 'w) fn_drivers \<Rightarrow> hdid \<Rightarrow> ('f, 'w) usb_host
    \<Rightarrow> (bool \<times> ('f, 'w) usb_host) res" where
  "try_configurations [] fuel hcd FD d s = Inr (False, s)"
| "try_configurations (k # ks) fuel hcd FD d s =
     rbind (parse_configuration fuel hcd FD d (of_nat k) s) (\<lambda>(ok, s1).
       if ok then Inr (True, s1) else try_configurations ks fuel hcd FD d s1)"

definition usb_host_enumerate ::
  "nat \<Rightarrow> ('f, 'w) usb_host_controller_driver \<Rightarrow> ('f, 'w) fn_drivers \<Rightarrow> hdid \<Rightarrow> ram \<Rightarrow> ('f, 'w) usb_host
    \<Rightarrow> (bool \<times> ('f, 'w) usb_host) res" where
  "usb_host_enumerate fuel hcd FD d dev s =
     try_configurations [0..<unat (dev 17)] fuel hcd FD d
       (upd_device d (\<lambda>x. x\<lparr>Vendor := ucast (USB16TOH 8 dev), Product := ucast (USB16TOH 10 dev)\<rparr>) s)"

end
