(* ===== verification/UsbHid.thy ===== *)
theory UsbHid
  imports UsbHost HidReport Pools
begin

text \<open>
  The drivers of input devices of the USB host: the function driver for the HID class
  (\<^verbatim>\<open>exos/support/usb/driver/hid.c\<close>) and the keyboard driver that uses it (\<^verbatim>\<open>usbkb.c\<close>).
  The functions \<^verbatim>\<open>_function[i]\<close> are the host's functions of these numbers.  In \<open>usb_ram\<close> the report
  buffer is behind the enumeration buffer, and the input and output buffers of the functions follow.  The dispatcher of a
  function is represented by its membership in \<open>dispatched\<close>.
\<close>

unbundle bit_operations_syntax

section \<open>State\<close>

record hid_function_t =
  InputPipe :: usb_host_pipe_t
  InterfaceSubClass :: u8
  HidProtocol :: u8
  HidInterface :: u8
  Handler :: "nat option"
  ExitFlag :: u8
  InstanceIndex :: u8
  Request :: usb_request_buffer_t

record hid_function_handler_t =
  HdDriver :: "nat option"
  HdFunction :: "fnid option"

record 'k hid_state =
  hid_functions :: "fnid \<Rightarrow> hid_function_t"
  function_busy :: "nat \<Rightarrow> u8"
  manager_list :: "nat list"
  handlers :: "nat \<Rightarrow> hid_function_handler_t"
  dispatched :: "fnid list"
  kbs :: 'k                                  \<comment> \<open>the state of the HID drivers\<close>

type_synonym ('k, 'w) hid_host = "('k hid_state, 'w) usb_host"

record ('k, 'w) hid_driver_t =
  MatchDevice :: "hdid \<Rightarrow> nat \<Rightarrow> nat \<Rightarrow> nat \<Rightarrow> ('k, 'w) hid_host \<Rightarrow> (nat option \<times> ('k, 'w) hid_host) res"
  HidStart :: "nat \<Rightarrow> report_parser \<Rightarrow> ('k, 'w) hid_host \<Rightarrow> (bool \<times> ('k, 'w) hid_host) res"
  HidStop :: "nat \<Rightarrow> ('k, 'w) hid_host \<Rightarrow> ('k, 'w) hid_host res"
  Notify :: "nat \<Rightarrow> nat \<Rightarrow> u32 \<Rightarrow> ('k, 'w) hid_host \<Rightarrow> ('k, 'w) hid_host res"

text \<open>The host controller driver, the HID drivers, the number of instances and of this driver, and the fuel of the searches.\<close>

record ('k, 'w) hid_env =
  Hcd :: "('k hid_state, 'w) usb_host_controller_driver"
  HidDrivers :: "nat \<Rightarrow> ('k, 'w) hid_driver_t"
  HID_MAX_INSTANCES :: nat
  hid_driver :: nat
  hid_fuel :: nat

definition report_buffer :: nat where "report_buffer = 2048"
definition input_buffer :: "fnid \<Rightarrow> nat" where "input_buffer f = 2176 + 128 * f"
definition output_buffer :: "fnid \<Rightarrow> nat" where "output_buffer f = 2240 + 128 * f"

definition upd_hid :: "('k hid_state \<Rightarrow> 'k hid_state) \<Rightarrow> ('k, 'w) hid_host \<Rightarrow> ('k, 'w) hid_host" where
  "upd_hid g s = s\<lparr>fn_state := g (fn_state s)\<rparr>"

definition upd_func :: "fnid \<Rightarrow> (hid_function_t \<Rightarrow> hid_function_t) \<Rightarrow> ('k, 'w) hid_host \<Rightarrow> ('k, 'w) hid_host" where
  "upd_func f g = upd_hid (\<lambda>h. h\<lparr>hid_functions := (hid_functions h)(f := g (hid_functions h f))\<rparr>)"

definition upd_handler :: "nat \<Rightarrow> (hid_function_handler_t \<Rightarrow> hid_function_handler_t) \<Rightarrow> ('k, 'w) hid_host \<Rightarrow> ('k, 'w) hid_host" where
  "upd_handler k g = upd_hid (\<lambda>h. h\<lparr>handlers := (handlers h)(k := g (handlers h k))\<rparr>)"

abbreviation func :: "('k, 'w) hid_host \<Rightarrow> fnid \<Rightarrow> hid_function_t" where
  "func s f \<equiv> hid_functions (fn_state s) f"

section \<open>Set-up\<close>

text \<open>A cleared function; its pointers are null, which no user of the function reads.\<close>

definition cleared_pipe :: usb_host_pipe_t where
  "cleared_pipe = \<lparr>PipeDevice = 0, EndpointType = USB_TT_CONTROL, Direction = USB_HOST_TO_DEVICE, MaxPacketSize = 0,
     PipeEndpoint = 0, InterruptInterval = 0\<rparr>"

definition cleared_function :: hid_function_t where
  "cleared_function = \<lparr>InputPipe = cleared_pipe, InterfaceSubClass = 0, HidProtocol = 0, HidInterface = 0, Handler = None,
     ExitFlag = 0, InstanceIndex = 0, Request = \<lparr>UrbPipe = cleared_pipe, UrbData = 0, UrbStatus = URB_STATUS_EMPTY\<rparr>\<rparr>"

definition usb_hid_initialize :: "('k, 'w) hid_env \<Rightarrow> ('k, 'w) hid_host \<Rightarrow> ('k, 'w) hid_host res" where
  "usb_hid_initialize E s =
     usb_host_driver_register (hid_driver E)
       (upd_hid (\<lambda>h. h\<lparr>hid_functions := (\<lambda>i. if i < HID_MAX_INSTANCES E then cleared_function else hid_functions h i),
          manager_list := []\<rparr>) s)"

definition usb_hid_add_driver :: "nat \<Rightarrow> ('k, 'w) hid_host \<Rightarrow> ('k, 'w) hid_host" where
  "usb_hid_add_driver node = upd_hid (\<lambda>h. h\<lparr>manager_list := manager_list h @ [node]\<rparr>)"

section \<open>Attaching a function\<close>

text \<open>The first driver of the list that matches, which is noted in the handler it returns.\<close>

fun match_drivers ::
  "('k, 'w) hid_env \<Rightarrow> nat list \<Rightarrow> hdid \<Rightarrow> nat \<Rightarrow> nat \<Rightarrow> nat \<Rightarrow> ('k, 'w) hid_host \<Rightarrow> (nat option \<times> ('k, 'w) hid_host) res" where
  "match_drivers E [] d conf_desc if_desc hid_desc s = Inr (None, s)"
| "match_drivers E (n # ns) d conf_desc if_desc hid_desc s =
     rbind (MatchDevice (HidDrivers E n) d conf_desc if_desc hid_desc s) (\<lambda>(handler, s1).
       case handler of
         Some k \<Rightarrow> Inr (Some k, upd_handler k (\<lambda>x. x\<lparr>HdDriver := Some n\<rparr>) s1)
       | None \<Rightarrow> match_drivers E ns d conf_desc if_desc hid_desc s1)"

text \<open>The search for the HID descriptor of an interface with a report descriptor.\<close>

definition find_hid_desc :: "('k, 'w) hid_env \<Rightarrow> ram \<Rightarrow> nat \<Rightarrow> nat \<Rightarrow> nat option res" where
  "find_hid_desc E m conf_desc if_desc =
     rbind (usb_enumerate_find_class_descriptor (hid_fuel E) m conf_desc if_desc 0x21 0) (\<lambda>r.
       Inr (case r of None \<Rightarrow> None | Some a \<Rightarrow> if 1 \<le> m (a + 5) \<and> m (a + 6) = 0x22 then Some a else None))"

definition attach_function ::
  "('k, 'w) hid_env \<Rightarrow> hdid \<Rightarrow> nat \<Rightarrow> nat \<Rightarrow> nat \<Rightarrow> fnid \<Rightarrow> ('k, 'w) hid_host \<Rightarrow> (fnid option \<times> ('k, 'w) hid_host) res" where
  "attach_function E d conf_desc if_desc handler f s =
     (let m = usb_ram s;
          s1 = usb_host_create_function f d (hid_driver E) (upd_func f (\<lambda>x. x\<lparr>InstanceIndex := of_nat f\<rparr>) s);
          s2 = upd_func f (\<lambda>x. x\<lparr>HidInterface := m (if_desc + 2), InterfaceSubClass := m (if_desc + 6), HidProtocol := m (if_desc + 7)\<rparr>) s1
      in rbind (usb_enumerate_find_endpoint_descriptor (hid_fuel E) m conf_desc if_desc USB_TT_INTERRUPT USB_DEVICE_TO_HOST 0) (\<lambda>ep.
           case ep of
             None \<Rightarrow> Inr (None, s2)
           | Some ep_desc \<Rightarrow>
               Inr (Some f, upd_func f (\<lambda>x. x\<lparr>InputPipe := usb_host_init_pipe_from_descriptor d m ep_desc, Handler := Some handler, ExitFlag := 0\<rparr>)
                              (upd_handler handler (\<lambda>x. x\<lparr>HdFunction := Some f\<rparr>) s2))))"

definition hid_check_interface ::
  "('k, 'w) hid_env \<Rightarrow> hdid \<Rightarrow> nat \<Rightarrow> nat \<Rightarrow> ('k, 'w) hid_host \<Rightarrow> (fnid option \<times> ('k, 'w) hid_host) res" where
  "hid_check_interface E d conf_desc fn_desc s =
     (if usb_ram s (fn_desc + 1) = USB_DESCRIPTOR_TYPE_INTERFACE \<and> usb_ram s (fn_desc + 5) = 3
      then rbind (find_hid_desc E (usb_ram s) conf_desc fn_desc) (\<lambda>r.
        case r of
          None \<Rightarrow> Inr (None, s)
        | Some hid_desc \<Rightarrow>
            rbind (match_drivers E (manager_list (fn_state s)) d conf_desc fn_desc hid_desc s) (\<lambda>(handler, s1).
              case handler of
                None \<Rightarrow> Inr (None, s1)
              | Some k \<Rightarrow>
                  (case find (\<lambda>i. Handler (func s1 i) = None) [0..<HID_MAX_INSTANCES E] of
                     None \<Rightarrow> Inr (None, s1)
                   | Some f \<Rightarrow> attach_function E d conf_desc fn_desc k f s1)))
      else Inr (None, s))"

section \<open>Starting and stopping\<close>

definition handler_driver :: "nat \<Rightarrow> ('k, 'w) hid_host \<Rightarrow> nat res" where
  "handler_driver k s =
     (case HdDriver (handlers (fn_state s) k) of None \<Rightarrow> Inl (Panic KERNEL_ERROR_NULL_POINTER) | Some n \<Rightarrow> Inr n)"

text \<open>\<^verbatim>\<open>_start\<close> once the report descriptor is in the buffer.\<close>

definition start_handler :: "('k, 'w) hid_env \<Rightarrow> fnid \<Rightarrow> nat \<Rightarrow> u16 \<Rightarrow> ('k, 'w) hid_host \<Rightarrow> ('k, 'w) hid_host res" where
  "start_handler E f handler desc_length s =
     rbind (handler_driver handler s) (\<lambda>n.
       rbind (HidStart (HidDrivers E n) handler
                (\<lparr>Ptr = report_buffer, Offset = 0, ParserLength = desc_length\<rparr>,
                 \<lparr>InputOffset = 0, NextInputOffset = 0, OutputOffset = 0, NextOutputOffset = 0, UsagePage = 0, ReportId = 0,
                  ReportSize = 0, ReportCount = 0, Min = 0, Max = 0\<rparr>) s) (\<lambda>(ok, s1).
         rbind (if ok
                then let (done, s2) = usb_host_start_pipe (Hcd E) (InputPipe (func s1 f)) s1 in
                  ASSERT done KERNEL_ERROR_KERNEL_PANIC
                    (Inr (upd_hid (\<lambda>h. h\<lparr>dispatched := dispatched h @ [f]\<rparr>)
                           (upd_func f (\<lambda>x. x\<lparr>Request := usb_host_urb_create (InputPipe x) (Request x)\<rparr>) s2)))
                else Inr (upd_func f (\<lambda>x. x\<lparr>Handler := None\<rparr>) s1)) (\<lambda>s3.
           Inr (upd_hid (\<lambda>h. h\<lparr>function_busy := (function_busy h)(unat (InstanceIndex (hid_functions h f)) := 1)\<rparr>) s3))))"

definition hid_start :: "('k, 'w) hid_env \<Rightarrow> fnid \<Rightarrow> nat \<Rightarrow> nat \<Rightarrow> ('k, 'w) hid_host \<Rightarrow> ('k, 'w) hid_host res" where
  "hid_start E f conf_desc fn_desc s =
     (case Handler (func s f) of
        None \<Rightarrow> Inl (Panic KERNEL_ERROR_KERNEL_PANIC)
      | Some handler \<Rightarrow>
          ASSERT (HdFunction (handlers (fn_state s) handler) = Some f) KERNEL_ERROR_KERNEL_PANIC
          (ASSERT (unat (InstanceIndex (func s f)) < HID_MAX_INSTANCES E) KERNEL_ERROR_KERNEL_PANIC
          (ASSERT (function_busy (fn_state s) (unat (InstanceIndex (func s f))) = 0) KERNEL_ERROR_KERNEL_PANIC
            (rbind (find_hid_desc E (usb_ram s) conf_desc fn_desc) (\<lambda>r.
              case r of
                None \<Rightarrow> Inr s
              | Some hid_desc \<Rightarrow>
                  let desc_length = USB16TOH (hid_desc + 7) (usb_ram s) in
                  if desc_length \<le> 128
                  then rbind (usb_host_read_if_descriptor (Hcd E) (FnDevice (host_functions s f)) (ucast (HidInterface (func s f)))
                         0x22 0 report_buffer (ucast desc_length) s) (\<lambda>(ok, s1).
                    if ok then start_handler E f handler (ucast desc_length) s1 else Inr s1)
                  else Inr s)))))"

definition hid_stop :: "('k, 'w) hid_env \<Rightarrow> fnid \<Rightarrow> ('k, 'w) hid_host \<Rightarrow> ('k, 'w) hid_host res" where
  "hid_stop E f s =
     (let (_, s1) = usb_host_stop_pipe (Hcd E) (InputPipe (func s f)) (upd_func f (\<lambda>x. x\<lparr>ExitFlag := 1\<rparr>) s) in
      rbind (case Handler (func s1 f) of
               None \<Rightarrow> Inr s1
             | Some handler \<Rightarrow>
                 ASSERT (UrbStatus (Request (func s1 f)) \<noteq> URB_STATUS_ISSUED) KERNEL_ERROR_KERNEL_PANIC
                   (let s2 = upd_hid (\<lambda>h. h\<lparr>dispatched := removeAll f (dispatched h)\<rparr>) s1 in
                    rbind (handler_driver handler s2) (\<lambda>n.
                      rbind (HidStop (HidDrivers E n) handler s2) (\<lambda>s3. Inr (upd_func f (\<lambda>x. x\<lparr>Handler := None\<rparr>) s3))))) (\<lambda>s4.
        Inr (upd_hid (\<lambda>h. h\<lparr>function_busy := (function_busy h)(unat (InstanceIndex (hid_functions h f)) := 0)\<rparr>) s4)))"

text \<open>\<^verbatim>\<open>_driver\<close>\<close>

definition hid_function_driver :: "('k, 'w) hid_env \<Rightarrow> ('k hid_state, 'w) usb_host_function_driver" where
  "hid_function_driver E = \<lparr>CheckInterface = hid_check_interface E, FnStart = hid_start E, FnStop = hid_stop E\<rparr>"

section \<open>Reports\<close>

text \<open>
  \<^verbatim>\<open>_dispatch\<close>: the end of the last transfer, if there was one, and the begin of the next;
  \<open>timeout\<close> tells that the dispatcher timed out.
\<close>

definition end_report :: "('k, 'w) hid_env \<Rightarrow> fnid \<Rightarrow> ('k, 'w) hid_host \<Rightarrow> ('k, 'w) hid_host res" where
  "end_report E f s =
     (if UrbStatus (Request (func s f)) = URB_STATUS_EMPTY then Inr s
      else let (done, urb, s1) = usb_host_end_transfer (Hcd E) (Request (func s f)) 0 s;
               s2 = upd_func f (\<lambda>x. x\<lparr>Request := urb\<rparr>) s1
        in if done \<ge> 0
           then (case Handler (func s2 f) of
               None \<Rightarrow> Inl (Panic KERNEL_ERROR_NULL_POINTER)
             | Some handler \<Rightarrow> rbind (handler_driver handler s2) (\<lambda>n. Notify (HidDrivers E n) handler (input_buffer f) (of_int done) s2))
           else Inr (upd_func f (\<lambda>x. x\<lparr>ExitFlag := 2\<rparr>) s2))"

definition begin_report :: "('k, 'w) hid_env \<Rightarrow> fnid \<Rightarrow> ('k, 'w) hid_host \<Rightarrow> ('k, 'w) hid_host" where
  "begin_report E f s =
     (if ExitFlag (func s f) = 0
      then let (ok, urb, s1) = usb_host_begin_transfer (Hcd E) (Request (func s f)) (input_buffer f)
                 (ucast (MaxPacketSize (InputPipe (func s f)))) s;
               s2 = upd_func f (\<lambda>x. x\<lparr>Request := urb\<rparr>) s1
        in if ok then upd_hid (\<lambda>h. h\<lparr>dispatched := dispatched h @ [f]\<rparr>) s2 else upd_func f (\<lambda>x. x\<lparr>ExitFlag := 3\<rparr>) s2
      else s)"

definition hid_dispatch :: "('k, 'w) hid_env \<Rightarrow> bool \<Rightarrow> fnid \<Rightarrow> ('k, 'w) hid_host \<Rightarrow> ('k, 'w) hid_host res" where
  "hid_dispatch E timeout f s =
     (if timeout then Inr (upd_hid (\<lambda>h. h\<lparr>dispatched := dispatched h @ [f]\<rparr>) s)
      else rbind (end_report E f s) (\<lambda>s1. Inr (begin_report E f s1)))"

definition usb_hid_set_idle ::
  "('k hid_state, 'w) usb_host_controller_driver \<Rightarrow> fnid \<Rightarrow> u8 \<Rightarrow> u8 \<Rightarrow> ('k, 'w) hid_host \<Rightarrow> (bool \<times> ('k, 'w) hid_host) res" where
  "usb_hid_set_idle hcd f report_id idle s =
     usb_host_ctrl_setup hcd (FnDevice (host_functions s f))
       \<lparr>RequestType = 0x21, RequestCode = 0xA, Value = push_bit 8 (ucast idle) OR ucast report_id,
        Index = ucast (HidInterface (func s f)), Length = 0\<rparr> 0 0 s"

text \<open>\<open>bs\<close> are the bytes at \<^verbatim>\<open>data\<close>.\<close>

definition usb_hid_set_report ::
  "('k hid_state, 'w) usb_host_controller_driver \<Rightarrow> fnid \<Rightarrow> u8 \<Rightarrow> u8 \<Rightarrow> u8 list \<Rightarrow> ('k, 'w) hid_host \<Rightarrow> (bool \<times> ('k, 'w) hid_host) res" where
  "usb_hid_set_report hcd f report_type report_id bs s =
     usb_host_ctrl_setup hcd (FnDevice (host_functions s f))
       \<lparr>RequestType = 0x21, RequestCode = 9, Value = push_bit 8 (ucast report_type) OR ucast report_id,
        Index = ucast (HidInterface (func s f)), Length = of_nat (length bs)\<rparr>
       (output_buffer f) (of_nat (length bs)) (s\<lparr>usb_ram := store (output_buffer f) bs (usb_ram s)\<rparr>)"

section \<open>Keyboards\<close>

text \<open>
  The handlers of keyboards come from a pool.  \<open>key_log\<close> records the calls of \<^verbatim>\<open>usbkb_connected\<close> and
  \<^verbatim>\<open>usbkb_translate\<close>, which a program defines.
\<close>

datatype kb_event = usbkb_connected nat bool | usbkb_translate nat u8 "u8 list"

record kb_state =
  handler_pool :: "nat list"
  MaxReportId :: "nat \<Rightarrow> u8"
  key_log :: "kb_event list"

type_synonym 'w kb_host = "(kb_state, 'w) hid_host"

definition upd_kb :: "(kb_state \<Rightarrow> kb_state) \<Rightarrow> 'w kb_host \<Rightarrow> 'w kb_host" where
  "upd_kb g = upd_hid (\<lambda>h. h\<lparr>kbs := g (kbs h)\<rparr>)"

definition kb_event :: "kb_event \<Rightarrow> 'w kb_host \<Rightarrow> 'w kb_host" where
  "kb_event e = upd_kb (\<lambda>k. k\<lparr>key_log := key_log k @ [e]\<rparr>)"

text \<open>\<open>heap\<close> and \<open>sz\<close> are the address of the handlers and the size of one.\<close>

definition usbkb_initialize :: "nat \<Rightarrow> nat \<Rightarrow> nat \<Rightarrow> nat \<Rightarrow> 'w kb_host \<Rightarrow> 'w kb_host res" where
  "usbkb_initialize heap sz max_instances node s =
     rbind (pool_create heap sz max_instances) (\<lambda>p. Inr (usb_hid_add_driver node (upd_kb (\<lambda>k. k\<lparr>handler_pool := p\<rparr>) s)))"

definition kb_match_device :: "hdid \<Rightarrow> nat \<Rightarrow> nat \<Rightarrow> nat \<Rightarrow> 'w kb_host \<Rightarrow> (nat option \<times> 'w kb_host) res" where
  "kb_match_device d conf_desc if_desc hid_desc s =
     (if usb_ram s (if_desc + 6) = 1 \<and> usb_ram s (if_desc + 7) = 1
      then let (r, p) = pool_allocate (handler_pool (kbs (fn_state s))) in Inr (r, upd_kb (\<lambda>k. k\<lparr>handler_pool := p\<rparr>) s)
      else Inr (None, s))"

definition kb_start ::
  "(kb_state hid_state, 'w) usb_host_controller_driver \<Rightarrow> nat \<Rightarrow> nat \<Rightarrow> report_parser \<Rightarrow> 'w kb_host \<Rightarrow> (bool \<times> 'w kb_host) res" where
  "kb_start hcd fuel handler parser s =
     rbind (kb_parse_report_descriptor fuel (usb_ram s) parser (MaxReportId (kbs (fn_state s)) handler)) (\<lambda>(usage_ok, max_id, p1).
       let s1 = upd_kb (\<lambda>k. k\<lparr>MaxReportId := (MaxReportId k)(handler := max_id)\<rparr>) s in
       (case HdFunction (handlers (fn_state s1) handler) of
          None \<Rightarrow> Inl (Panic KERNEL_ERROR_NULL_POINTER)
        | Some f \<Rightarrow>
            rbind (usb_hid_set_idle hcd f 0 0 s1) (\<lambda>(ok, s2).
              if ok
              then rbind (usb_hid_set_report hcd f 2 0 [0x0F] s2) (\<lambda>(_, s3). Inr (True, kb_event (usbkb_connected handler True) s3))
              else Inr (False, s2))))"

definition kb_stop :: "nat \<Rightarrow> 'w kb_host \<Rightarrow> 'w kb_host res" where
  "kb_stop handler s =
     (let s1 = kb_event (usbkb_connected handler False) s in
      rbind (pool_free handler (handler_pool (kbs (fn_state s1)))) (\<lambda>p. Inr (upd_kb (\<lambda>k. k\<lparr>handler_pool := p\<rparr>) s1)))"

text \<open>The keys of a report are those up to the first that is zero.\<close>

definition kb_notify :: "nat \<Rightarrow> nat \<Rightarrow> u32 \<Rightarrow> 'w kb_host \<Rightarrow> 'w kb_host res" where
  "kb_notify handler data len s =
     (if len \<ge> 2
      then let keys = takeWhile (\<lambda>b. b \<noteq> 0) (load (data + 2) (unat len - 2) (usb_ram s)) in
        Inr (kb_event (usbkb_translate handler (usb_ram s (data + 1)) (take (length keys mod 256) keys)) s)
      else Inr s)"

definition kb_driver :: "(kb_state hid_state, 'w) usb_host_controller_driver \<Rightarrow> nat \<Rightarrow> (kb_state, 'w) hid_driver_t" where
  "kb_driver hcd fuel = \<lparr>MatchDevice = kb_match_device, HidStart = kb_start hcd fuel, HidStop = kb_stop, Notify = kb_notify\<rparr>"

text \<open>A host with the keyboard driver, and \<open>n\<close> HID functions.\<close>

definition kb_env :: "(kb_state hid_state, 'w) usb_host_controller_driver \<Rightarrow> nat \<Rightarrow> nat \<Rightarrow> (kb_state, 'w) hid_env" where
  "kb_env hcd fuel n = \<lparr>Hcd = hcd, HidDrivers = (\<lambda>_. kb_driver hcd fuel), HID_MAX_INSTANCES = n, hid_driver = 0, hid_fuel = fuel\<rparr>"

end
