(* ===== verification/UsbEnum.thy ===== *)
theory UsbEnum
  imports UsbHid
begin

text \<open>
  The enumeration of a configuration visits its function descriptors.  The locale \<open>function_drivers\<close> is the contract
  of the function drivers; the HID driver with the keyboard driver keeps it.
\<close>

section \<open>Reference\<close>

definition is_function :: "u8 list \<Rightarrow> bool" where
  "is_function b \<longleftrightarrow> b ! 1 = USB_DESCRIPTOR_TYPE_INTERFACE \<or> b ! 1 = USB_DESCRIPTOR_TYPE_INTERFACE_ASSOCIATION"

text \<open>Offering the descriptors at a list of addresses to the drivers, and starting the functions they return.\<close>

fun enum_functions ::
  "('f, 'w) usb_host_controller_driver \<Rightarrow> ('f, 'w) fn_drivers \<Rightarrow> hdid \<Rightarrow> nat list \<Rightarrow> nat \<Rightarrow> ('f, 'w) usb_host
    \<Rightarrow> (nat \<times> ('f, 'w) usb_host) res" where
  "enum_functions hcd FD d [] n s = Inr (n, s)"
| "enum_functions hcd FD d (a # as) n s =
     rbind (usb_host_driver_enumerate FD (host_drivers s) d 0 a s) (\<lambda>(func, s1).
       case func of
         None \<Rightarrow> enum_functions hcd FD d as n s1
       | Some f \<Rightarrow> rbind (enum_start hcd FD d 0 a n f s1) (\<lambda>(r, s2).
           case r of None \<Rightarrow> Inr (n, s2) | Some n1 \<Rightarrow> enum_functions hcd FD d as n1 s2))"

definition function_addresses :: "u8 list list \<Rightarrow> nat \<Rightarrow> nat list" where
  "function_addresses ds j = map (desc_at 0 ds) (filter (\<lambda>n. is_function (ds ! n)) [j..<length ds])"

section \<open>The contract\<close>

text \<open>A step leaves the enumeration buffer and the functions of every device alone.\<close>

definition keeps_buffer :: "('f, 'w) usb_host \<Rightarrow> ('f, 'w) usb_host \<Rightarrow> bool" where
  "keeps_buffer s s' \<longleftrightarrow> (\<forall>x<2048. usb_ram s' x = usb_ram s x) \<and> (\<forall>d. Functions (host_devices s' d) = Functions (host_devices s d))"

lemma keeps_buffer_refl [simp, intro]: "keeps_buffer s s"
  by (simp add: keeps_buffer_def)

lemma keeps_buffer_trans: "keeps_buffer s s1 \<Longrightarrow> keeps_buffer s1 s2 \<Longrightarrow> keeps_buffer s s2"
  by (simp add: keeps_buffer_def)

locale function_drivers =
  fixes FD :: "('f, 'w) fn_drivers"
  assumes check_keeps: "CheckInterface (FD n) d c a s = Inr (r, s') \<Longrightarrow> keeps_buffer s s'"
    and start_keeps: "FnStart (FD n) f c a s = Inr s' \<Longrightarrow> keeps_buffer s s'"

lemma ctrl_setup_keeps:
  assumes "usb_host_ctrl_setup hcd d req data len s = Inr (ok, s')" and "2048 \<le> data \<or> len = 0"
  shows "keeps_buffer s s'"
proof -
  have k: "keeps_buffer s (upd_device d (\<lambda>x. x\<lparr>ControlBuffer := req\<rparr>) s)" by (simp add: keeps_buffer_def upd_device_def)
  have st: "keeps_buffer t (t\<lparr>usb_ram := store data bs (usb_ram t), bus := w\<rparr>)" if "2048 \<le> data" for t :: "('a, 'b) usb_host" and bs w
    using that by (simp add: keeps_buffer_def store_other)
  have w: "keeps_buffer t (t\<lparr>bus := w\<rparr>)" for t :: "('a, 'b) usb_host" and w by (simp add: keeps_buffer_def)
  show ?thesis
    using assms unfolding usb_host_ctrl_setup_def Let_def
    by (auto simp: rbind_eq_Inr split: if_splits intro: keeps_buffer_trans [OF k] st w)
qed

context function_drivers
begin

lemma enumerate_keeps: "usb_host_driver_enumerate FD ns d c a s = Inr (r, s') \<Longrightarrow> keeps_buffer s s'"
proof (induction ns arbitrary: s)
  case (Cons n ns)
  obtain q s1 where "CheckInterface (FD n) d c a s = Inr (q, s1)"
    "(case q of Some f \<Rightarrow> Inr (Some f, s1) | None \<Rightarrow> usb_host_driver_enumerate FD ns d c a s1) = Inr (r, s')"
    using Cons.prems by (auto simp: rbind_eq_Inr)
  then show ?case using Cons.IH [of s1] check_keeps keeps_buffer_trans by (cases q) (auto, blast+)
qed auto

text \<open>Starting a function adds it to the list of the device and nothing else.\<close>

lemma enum_start_keeps:
  assumes "enum_start hcd FD d c a n f s = Inr (r, s')"
  shows "\<forall>x<2048. usb_ram s' x = usb_ram s x"
    "Functions (host_devices s' d) = Functions (host_devices s d) @ (case r of None \<Rightarrow> [] | Some _ \<Rightarrow> [f])"
    "r = None \<or> r = Some (Suc n)"
proof -
  obtain ok s1 where s1: "(if n = 0 then host_set_configuration hcd d c s else Inr (True, s)) = Inr (ok, s1)"
    "(if \<not> ok then Inr (None, s1) else rbind (FnStart (FD (FnDriver (host_functions s1 f))) f c a s1) (\<lambda>s2.
         Inr (Some (n + 1), upd_device d (\<lambda>x. x\<lparr>Functions := Functions x @ [f]\<rparr>) s2))) = Inr (r, s')"
    using assms by (auto simp: enum_start_def rbind_eq_Inr)
  have k1: "keeps_buffer s s1" using s1(1) by (auto simp: host_set_configuration_def dest: ctrl_setup_keeps split: if_splits)
  { assume ok
    then obtain s2 where "FnStart (FD (FnDriver (host_functions s1 f))) f c a s1 = Inr s2"
      "s' = upd_device d (\<lambda>x. x\<lparr>Functions := Functions x @ [f]\<rparr>) s2" "r = Some (Suc n)"
      using s1(2) by (auto simp: rbind_eq_Inr)
    moreover from this(1) have "keeps_buffer s s2" using k1 start_keeps keeps_buffer_trans by blast
    ultimately have "(\<forall>x<2048. usb_ram s' x = usb_ram s x) \<and>
      Functions (host_devices s' d) = Functions (host_devices s d) @ (case r of None \<Rightarrow> [] | Some _ \<Rightarrow> [f]) \<and> r = Some (Suc n)"
      by (simp add: keeps_buffer_def upd_device_def) }
  then show "\<forall>x<2048. usb_ram s' x = usb_ram s x"
    "Functions (host_devices s' d) = Functions (host_devices s d) @ (case r of None \<Rightarrow> [] | Some _ \<Rightarrow> [f])" "r = None \<or> r = Some (Suc n)"
    using s1(2) k1 by (cases ok; simp add: keeps_buffer_def)+
qed

end

section \<open>The loop\<close>

definition conf_in :: "ram \<Rightarrow> u8 list list \<Rightarrow> bool" where
  "conf_in m ds \<longleftrightarrow> chain m 0 ds \<and> unat (USB16TOH 2 m) = length (concat ds) \<and> length (concat ds) \<le> 2048"

lemma conf_in_kept:
  assumes "conf_in m ds" and "\<forall>x<2048. m' x = m x"
  shows "conf_in m' ds"
proof -
  have "load 0 (length (concat ds)) m' = load 0 (length (concat ds)) m"
    using assms by (intro nth_equalityI) (simp_all add: conf_in_def)
  moreover have "USB16TOH 2 m' = USB16TOH 2 m" using assms(2) by (simp add: USB16TOH_def)
  ultimately show ?thesis using assms(1) by (simp add: conf_in_def chain_def)
qed

lemma function_addresses_step:
  "j < length ds \<Longrightarrow> function_addresses ds j =
     (if is_function (ds ! j) then desc_at 0 ds j # function_addresses ds (Suc j) else function_addresses ds (Suc j))"
  by (simp add: function_addresses_def upt_conv_Cons)

lemma conf_in_at:
  assumes "conf_in m ds" and "j < length ds"
  shows "desc_at 0 ds j < unat (USB16TOH (0 + 2) m)" "desc_at 0 ds j + unat (m (0 + desc_at 0 ds j)) = desc_at 0 ds (Suc j)"
    "(m (0 + desc_at 0 ds j + 1) = USB_DESCRIPTOR_TYPE_INTERFACE \<or>
      m (0 + desc_at 0 ds j + 1) = USB_DESCRIPTOR_TYPE_INTERFACE_ASSOCIATION) \<longleftrightarrow> is_function (ds ! j)"
proof -
  have c: "chain m 0 ds" using assms by (simp add: conf_in_def)
  show "desc_at 0 ds j < unat (USB16TOH (0 + 2) m)" using desc_at_less [OF c, of j] assms unfolding add_0 by (simp add: conf_in_def)
  show "desc_at 0 ds j + unat (m (0 + desc_at 0 ds j)) = desc_at 0 ds (Suc j)"
    using chain_head(1) [OF c assms(2)] desc_at_Suc [OF assms(2)] by simp
  show "(m (0 + desc_at 0 ds j + 1) = USB_DESCRIPTOR_TYPE_INTERFACE \<or>
      m (0 + desc_at 0 ds j + 1) = USB_DESCRIPTOR_TYPE_INTERFACE_ASSOCIATION) \<longleftrightarrow> is_function (ds ! j)"
    using chain_head(2) [OF c assms(2)] by (simp add: is_function_def)
qed

context function_drivers
begin

lemma enum_loop_visits:
  assumes "conf_in (usb_ram s) ds" and "j \<le> length ds" and "length ds < j + fuel"
  shows "enum_loop fuel hcd FD d 0 (desc_at 0 ds j) n s = enum_functions hcd FD d (function_addresses ds j) n s"
  using assms
proof (induction fuel arbitrary: j n s)
  case (Suc fuel)
  show ?case
  proof (cases "j < length ds")
    case True
    note at = conf_in_at [OF _ True]
    have IH: "enum_loop fuel hcd FD d 0 (desc_at 0 ds j + unat (usb_ram s1 (0 + desc_at 0 ds j))) k s1 =
        enum_functions hcd FD d (function_addresses ds (Suc j)) k s1" if "\<forall>x<2048. usb_ram s1 x = usb_ram s x" for s1 k
      unfolding at(2) [OF conf_in_kept [OF Suc.prems(1) that]]
      by (rule Suc.IH) (use Suc.prems True conf_in_kept [OF Suc.prems(1) that] in simp_all)
    show ?thesis
    proof (cases "is_function (ds ! j)")
      case fn: True
      show ?thesis
      proof (cases "usb_host_driver_enumerate FD (host_drivers s) d 0 (desc_at 0 ds j) s")
        case (Inr p)
        obtain q s1 where p: "p = (q, s1)" by fastforce
        have k1: "\<forall>x<2048. usb_ram s1 x = usb_ram s x" using enumerate_keeps Inr p by (fastforce simp: keeps_buffer_def)
        show ?thesis
        proof (cases q)
          case None
          then show ?thesis using Inr p fn True at(1,3) [OF Suc.prems(1)] IH [OF k1, of n]
            by (simp add: enum_descriptor_def function_addresses_step)
        next
          case (Some f)
          show ?thesis
          proof (cases "enum_start hcd FD d 0 (desc_at 0 ds j) n f s1")
            case Inl
            then show ?thesis using Inr p Some fn True at(1,3) [OF Suc.prems(1)]
              by (simp add: enum_descriptor_def function_addresses_step)
          next
            case r: (Inr rs)
            obtain r2 s2 where rs: "rs = (r2, s2)" by fastforce
            have "\<forall>x<2048. usb_ram s2 x = usb_ram s x" using enum_start_keeps(1) r rs k1 by fastforce
            then show ?thesis using Inr p Some fn True at(1,3) [OF Suc.prems(1)] r rs IH [of s2]
              by (cases r2) (simp_all add: enum_descriptor_def function_addresses_step)
          qed
        qed
      qed (use fn True at(1,3) [OF Suc.prems(1)] in \<open>simp add: enum_descriptor_def function_addresses_step\<close>)
    next
      case False
      then show ?thesis using True at(1,3) [OF Suc.prems(1)] IH [of s n] by (simp add: enum_descriptor_def function_addresses_step)
    qed
  next
    case False
    then have "j = length ds" using Suc.prems(2) by simp
    then have "\<not> desc_at 0 ds j < unat (USB16TOH (0 + 2) (usb_ram s))" using Suc.prems(1) unfolding add_0 by (simp add: conf_in_def desc_at_def)
    then show ?thesis using \<open>j = length ds\<close> by (simp add: function_addresses_def)
  qed
qed simp

lemma enum_functions_adds:
  assumes "enum_functions hcd FD d as n s = Inr (n', s')"
  obtains fs where "Functions (host_devices s' d) = Functions (host_devices s d) @ fs" "n' = n + length fs"
  using assms
proof (induction as arbitrary: n s thesis)
  case (Cons a as)
  obtain q s1 where s1: "usb_host_driver_enumerate FD (host_drivers s) d 0 a s = Inr (q, s1)" using Cons.prems(2) by (auto simp: rbind_eq_Inr)
  have k: "Functions (host_devices s1 d) = Functions (host_devices s d)" using enumerate_keeps [OF s1] by (simp add: keeps_buffer_def)
  show ?case
  proof (cases q)
    case None
    then have "enum_functions hcd FD d as n s1 = Inr (n', s')" using Cons.prems(2) s1 by simp
    from Cons.IH [OF _ this] show ?thesis using Cons.prems(1) k by metis
  next
    case (Some f)
    then obtain r s2 where r: "enum_start hcd FD d 0 a n f s1 = Inr (r, s2)" using Cons.prems(2) s1 by (auto simp: rbind_eq_Inr)
    note st = enum_start_keeps [OF r]
    show ?thesis
    proof (cases r)
      case None
      then show ?thesis using Cons.prems s1 Some r st k by (intro Cons.prems(1) [of "[]"]) auto
    next
      case (Some n1)
      then have "enum_functions hcd FD d as (Suc n) s2 = Inr (n', s')" using Cons.prems(2) s1 \<open>q = Some f\<close> r st(3) by simp
      from Cons.IH [OF _ this] obtain fs where "Functions (host_devices s' d) = Functions (host_devices s2 d) @ fs" "n' = Suc n + length fs" by metis
      then show ?thesis using st(2) Some k by (intro Cons.prems(1) [of "f # fs"]) simp_all
    qed
  qed
qed simp

end

section \<open>The HID driver keeps the contract\<close>

lemma keeps_upd: "keeps_buffer s (upd_hid g s)" "keeps_buffer s (upd_func f h s)" "keeps_buffer s (upd_handler k h' s)"
    "keeps_buffer s' (upd_kb h'' s')" "keeps_buffer s (usb_host_create_function f d n s)"
  by (simp_all add: keeps_buffer_def upd_hid_def upd_func_def upd_handler_def upd_kb_def usb_host_create_function_def)

lemma keeps_upd_iff [simp]: "keeps_buffer s (upd_hid g t) \<longleftrightarrow> keeps_buffer s t" "keeps_buffer s (upd_func f h t) \<longleftrightarrow> keeps_buffer s t"
  by (simp_all add: keeps_buffer_def upd_hid_def upd_func_def)

lemma keeps_start_pipe: "usb_host_start_pipe hcd p s = (ok, s') \<Longrightarrow> keeps_buffer s s'"
  by (auto simp: usb_host_start_pipe_def keeps_buffer_def split: prod.splits)

lemma kb_match_keeps: "kb_match_device d c i h s = Inr (r, s') \<Longrightarrow> keeps_buffer s s'"
  by (auto simp: kb_match_device_def keeps_upd split: if_splits prod.splits)

lemma set_report_keeps: "usb_hid_set_report hcd f ty i bs s = Inr (ok, s') \<Longrightarrow> keeps_buffer s s'"
proof -
  assume a: "usb_hid_set_report hcd f ty i bs s = Inr (ok, s')"
  have "keeps_buffer s (s\<lparr>usb_ram := store (output_buffer f) bs (usb_ram s)\<rparr>)"
    by (simp add: keeps_buffer_def output_buffer_def store_other)
  then show ?thesis using ctrl_setup_keeps [OF a [unfolded usb_hid_set_report_def]] keeps_buffer_trans by (auto simp: output_buffer_def)
qed

lemma kb_start_keeps:
  assumes "kb_start hcd fuel k p s = Inr (ok, s')"
  shows "keeps_buffer s s'"
proof -
  let ?s1 = "\<lambda>max_id. upd_kb (\<lambda>k'. k'\<lparr>MaxReportId := (MaxReportId k')(k := max_id)\<rparr>) s"
  obtain max_id f ok2 s2 where s2: "usb_hid_set_idle hcd f 0 0 (?s1 max_id) = Inr (ok2, s2)"
    "(if ok2 then rbind (usb_hid_set_report hcd f 2 0 [0x0F] s2) (\<lambda>(_, s3). Inr (True, kb_event (usbkb_connected k True) s3))
      else Inr (False, s2)) = Inr (ok, s')"
    using assms unfolding kb_start_def Let_def by (auto simp: rbind_eq_Inr split: option.splits)
  have "keeps_buffer (?s1 max_id) s2" using s2(1) unfolding usb_hid_set_idle_def by (rule ctrl_setup_keeps) simp
  then have k2: "keeps_buffer s s2" using keeps_upd(4) keeps_buffer_trans by blast
  have "keeps_buffer s2 s'" using s2(2)
    by (auto simp: rbind_eq_Inr kb_event_def split: if_splits dest!: set_report_keeps intro: keeps_buffer_trans [OF _ keeps_upd(4)])
  then show ?thesis using k2 keeps_buffer_trans by blast
qed

lemma kb_env_driver [simp]: "HidDrivers (kb_env hcd fuel n) k = kb_driver hcd fuel" "Hcd (kb_env hcd fuel n) = hcd"
    "MatchDevice (kb_driver hcd fuel) = kb_match_device" "HidStart (kb_driver hcd fuel) = kb_start hcd fuel"
  by (simp_all add: kb_env_def kb_driver_def)

lemma match_drivers_keeps:
  "match_drivers (kb_env hcd fuel n) ns d c i h s = Inr (r, s') \<Longrightarrow> keeps_buffer s s'"
proof (induction ns arbitrary: s)
  case (Cons k ns)
  obtain q s1 where q: "kb_match_device d c i h s = Inr (q, s1)"
    "(case q of Some j \<Rightarrow> Inr (Some j, upd_handler j (\<lambda>x. x\<lparr>HdDriver := Some k\<rparr>) s1)
      | None \<Rightarrow> match_drivers (kb_env hcd fuel n) ns d c i h s1) = Inr (r, s')"
    using Cons.prems by (auto simp: rbind_eq_Inr kb_env_driver)
  then have "keeps_buffer s1 s'" using Cons.IH [of s1] keeps_upd(3) by (cases q) auto
  then show ?case using kb_match_keeps [OF q(1)] keeps_buffer_trans by blast
qed auto

lemma attach_keeps:
  assumes "attach_function E d c a k f s = Inr (r, s')"
  shows "keeps_buffer s s'"
  using assms unfolding attach_function_def Let_def
  by (auto simp: rbind_eq_Inr split: option.splits intro!: keeps_buffer_trans [OF _ keeps_upd(2)] keeps_buffer_trans [OF _ keeps_upd(3)]
      keeps_buffer_trans [OF _ keeps_upd(5)] keeps_upd(2))

text \<open>A computation from \<open>s\<close> whose resulting state, if there is one, \<open>p\<close> selects.\<close>

abbreviation keeps_run :: "('f, 'w) usb_host \<Rightarrow> ('a \<Rightarrow> ('f, 'w) usb_host) \<Rightarrow> 'a res \<Rightarrow> bool" where
  "keeps_run s p \<equiv> yields (\<lambda>x. keeps_buffer s (p x))"

lemma keeps_run_later: "keeps_buffer s s1 \<Longrightarrow> keeps_run s1 p m \<Longrightarrow> keeps_run s p m"
  by (erule yields_mono) (rule keeps_buffer_trans)

lemma keeps_run_pair: "(\<And>r s'. m = Inr (r, s') \<Longrightarrow> keeps_buffer s s') \<Longrightarrow> keeps_run s snd m"
  by (auto simp: yields_def)

lemma hid_check_keeps: "keeps_run s snd (hid_check_interface (kb_env hcd fuel n) d c a s)"
proof -
  let ?E = "kb_env hcd fuel n"
  have m: "keeps_run s snd (match_drivers ?E (manager_list (fn_state s)) d c a h s)" for h
    by (rule keeps_run_pair) (rule match_drivers_keeps)
  have t: "keeps_run t snd (attach_function ?E d c a k f t)" for k f t by (rule keeps_run_pair) (rule attach_keeps)
  show ?thesis
    unfolding hid_check_interface_def
    by (auto intro!: yields_pure [where m = "find_hid_desc _ _ _ _"] yields_rbind [OF m] keeps_run_later [OF _ t] split: option.split)
qed

lemma start_handler_keeps: "keeps_run s (\<lambda>x. x) (start_handler (kb_env hcd fuel n) f k len s)"
proof -
  have st: "keeps_run s snd (kb_start hcd fuel k p s)" for p by (rule keeps_run_pair) (rule kb_start_keeps)
  have "keeps_run s1 (\<lambda>x. x) (if ok then let (done, s2) = usb_host_start_pipe hcd (InputPipe (func s1 f)) s1 in
                  ASSERT done KERNEL_ERROR_KERNEL_PANIC
                    (Inr (upd_hid (\<lambda>h. h\<lparr>dispatched := dispatched h @ [f]\<rparr>)
                           (upd_func f (\<lambda>x. x\<lparr>Request := usb_host_urb_create (InputPipe x) (Request x)\<rparr>) s2)))
                else Inr (upd_func f (\<lambda>x. x\<lparr>Handler := None\<rparr>) s1))" for ok s1
    using keeps_start_pipe [of hcd "InputPipe (func s1 f)" s1]
    by (auto intro!: yields_ASSERT split: prod.split)
  then show ?thesis
    unfolding start_handler_def kb_env_driver
    by (intro yields_pure [where m = "handler_driver _ _"] yields_rbind [OF st])
      (auto intro!: yields_rbind [where Q = "keeps_buffer _"] intro: keeps_run_later)
qed

lemma hid_start_keeps: "keeps_run s (\<lambda>x. x) (hid_start (kb_env hcd fuel n) f c a s)"
proof -
  have rd: "keeps_run s snd (usb_host_read_if_descriptor hcd e i ty j report_buffer len s)" for e i ty j len
    unfolding usb_host_read_if_descriptor_def by (rule keeps_run_pair, erule ctrl_setup_keeps) (simp add: report_buffer_def)
  show ?thesis
    unfolding hid_start_def Let_def kb_env_driver
    by (auto intro!: yields_ASSERT yields_pure [where m = "find_hid_desc _ _ _ _"] yields_rbind [OF rd]
        keeps_run_later [OF _ start_handler_keeps] split: option.split)
qed

text \<open>Drivers all of which are the HID driver.\<close>

interpretation hid: function_drivers "\<lambda>_. hid_function_driver (kb_env hcd fuel n)" for hcd fuel n
  using hid_check_keeps hid_start_keeps by unfold_locales (auto simp: hid_function_driver_def yields_def, fastforce+)

section \<open>Handlers of keyboards\<close>

text \<open>Only attaching and stopping a keyboard touches the pool of handlers.\<close>

abbreviation pool_of :: "'w kb_host \<Rightarrow> nat list" where
  "pool_of s \<equiv> handler_pool (kbs (fn_state s))"

lemma ctrl_setup_fn_state: "yields (\<lambda>(ok, s'). fn_state s' = fn_state s) (usb_host_ctrl_setup hcd d req data len s)"
  unfolding usb_host_ctrl_setup_def Let_def by (auto simp: upd_device_def intro!: yields_pure)

lemma pool_of_upd [simp]: "pool_of (upd_func f g s) = pool_of s" "pool_of (kb_event e s) = pool_of s"
    "pool_of (upd_kb (\<lambda>k. k\<lparr>MaxReportId := h k\<rparr>) s) = pool_of s"
  by (simp_all add: upd_func_def upd_hid_def kb_event_def upd_kb_def)

lemma kb_start_pool: "yields (\<lambda>(ok, s'). pool_of s' = pool_of s) (kb_start hcd fuel k p s)"
proof -
  have idle: "yields (\<lambda>(ok, s'). fn_state s' = fn_state t) (usb_hid_set_idle hcd f i j t)" for f i j t
    unfolding usb_hid_set_idle_def by (rule ctrl_setup_fn_state)
  have rep: "yields (\<lambda>(ok, s'). fn_state s' = fn_state t) (usb_hid_set_report hcd f i j bs t)" for f i j bs t
    unfolding usb_hid_set_report_def using ctrl_setup_fn_state by (rule yields_mono) auto
  show ?thesis
    unfolding kb_start_def Let_def
    by (auto intro!: yields_pure [where m = "kb_parse_report_descriptor _ _ _ _"] yields_rbind [OF idle] yields_rbind [OF rep]
        split: option.split)
qed

lemma start_handler_pool: "yields (\<lambda>s'. pool_of s' = pool_of s) (start_handler (kb_env hcd fuel n) f k len s)"
proof -
  have "yields (\<lambda>s'. pool_of s' = pool_of s1) (if ok then let (done, s2) = usb_host_start_pipe hcd (InputPipe (func s1 f)) s1 in
                  ASSERT done KERNEL_ERROR_KERNEL_PANIC
                    (Inr (upd_hid (\<lambda>h. h\<lparr>dispatched := dispatched h @ [f]\<rparr>)
                           (upd_func f (\<lambda>x. x\<lparr>Request := usb_host_urb_create (InputPipe x) (Request x)\<rparr>) s2)))
                else Inr (upd_func f (\<lambda>x. x\<lparr>Handler := None\<rparr>) s1))" for ok s1
    by (auto simp: upd_hid_def upd_func_def usb_host_start_pipe_def intro!: yields_ASSERT split: prod.split)
  then show ?thesis
    unfolding start_handler_def kb_env_driver
    by (intro yields_pure [where m = "handler_driver _ _"] yields_rbind [OF kb_start_pool])
      (auto simp: upd_hid_def intro!: yields_rbind [where Q = "\<lambda>s'. pool_of s' = pool_of _"])
qed

lemma hid_start_pool: "yields (\<lambda>s'. pool_of s' = pool_of s) (hid_start (kb_env hcd fuel n) f c a s)"
proof -
  have rd: "yields (\<lambda>(ok, s'). fn_state s' = fn_state s) (usb_host_read_if_descriptor hcd e i ty j data len s)" for e i ty j data len
    unfolding usb_host_read_if_descriptor_def by (rule ctrl_setup_fn_state)
  show ?thesis
    unfolding hid_start_def Let_def kb_env_driver
    by (auto intro!: yields_ASSERT yields_pure [where m = "find_hid_desc _ _ _ _"] yields_rbind [OF rd]
        yields_mono [OF start_handler_pool] split: option.split)
qed

text \<open>A handler whose keyboard does not start is lost: after \<^verbatim>\<open>_start\<close> has cleared the handler of the
  function, stopping the function does not panic, but the pool is what it was before the start, without the handler.
\<close>

theorem kb_handler_lost:
  assumes "hid_start (kb_env hcd fuel n) f c a s = Inr s1" and "Handler (func s1 f) = None"
  shows "\<exists>s2. hid_stop (kb_env hcd fuel n) f s1 = Inr s2 \<and> handler_pool (kbs (fn_state s2)) = handler_pool (kbs (fn_state s))"
  using assms(2) yieldsD [OF hid_start_pool assms(1)]
  by (auto simp: hid_stop_def usb_host_stop_pipe_def upd_func_def upd_hid_def split: prod.split)

section \<open>Enumerating\<close>

text \<open>C27: With the descriptors of a configuration in the buffer and drivers that keep their contract, the enumeration of the host
  ends after as many rounds as there are descriptors and is the plain run through the interface and association descriptors,
  in order and each once; the functions it starts are added to the device, and their number is the result.
\<close>

theorem enum_interfaces_visits:
  assumes "function_drivers FD" and "conf_in (usb_ram s) ds" and "ds \<noteq> []" and "length ds \<le> fuel"
  shows "enum_interfaces fuel hcd FD d 0 s = enum_functions hcd FD d (function_addresses ds 1) 0 s \<and>
    (\<forall>n s'. enum_interfaces fuel hcd FD d 0 s = Inr (n, s') \<longrightarrow>
       (\<exists>fs. Functions (host_devices s' d) = Functions (host_devices s d) @ fs \<and> n = length fs))"
proof -
  have "unat (usb_ram s 0) = desc_at 0 ds 1" using conf_in_at(2) [OF assms(2), of 0] assms(3) by simp
  then have e: "enum_interfaces fuel hcd FD d 0 s = enum_functions hcd FD d (function_addresses ds 1) 0 s"
    unfolding enum_interfaces_def
    using function_drivers.enum_loop_visits [OF assms(1,2), of 1 fuel hcd d 0] assms(3,4) by (cases ds) simp_all
  then show ?thesis using function_drivers.enum_functions_adds [OF assms(1)] by (metis add_0)
qed

text \<open>A configuration with the interface of a boot keyboard.\<close>

definition keyboard_descs :: "u8 list list" where
  "keyboard_descs = [[9, 2, 34, 0, 1, 1, 0, 0xA0, 50], [9, 4, 0, 0, 1, 3, 1, 1, 0], [9, 0x21, 0x11, 1, 0, 1, 0x22, 8, 0],
     [7, 5, 0x81, 3, 8, 0, 10]]"

definition silent_hcd :: "(kb_state hid_state, unit) usb_host_controller_driver" where
  "silent_hcd = \<lparr>CtrlSetupRead = (\<lambda>req len w. Inr (False, [], w)), CtrlSetupWrite = (\<lambda>req bs w. Inr (True, w)), StartPipe = (\<lambda>p w. (True, w)),
     StopPipe = (\<lambda>p w. (True, w)), BeginTransfer = (\<lambda>urb a len w. (True, urb, w)), EndTransfer = (\<lambda>urb t w. (0, [], urb, w)),
     CreateDevice = (\<lambda>d port speed s. Inr (True, s)), DestroyDevice = (\<lambda>d s. Inr s), BeginRoleSwitch = None\<rparr>"

definition sample_host :: "'w \<Rightarrow> (kb_state hid_state, 'w) usb_host" where
  "sample_host w = \<lparr>host_drivers = [0],
     host_devices = (\<lambda>_. \<lparr>Functions = [], ControlPipe = cleared_pipe,
       ControlBuffer = \<lparr>RequestType = 0, RequestCode = 0, Value = 0, Index = 0, Length = 0\<rparr>, Port = 0, Speed = USB_HOST_DEVICE_FULL_SPEED,
       HostAddress = 0, Vendor = 0, Product = 0, HostState = USB_HOST_DEVICE_ATTACHED\<rparr>),
     host_functions = (\<lambda>_. \<lparr>FnDevice = 0, FnDriver = 0\<rparr>), usb_ram = (\<lambda>_. 0), RootHubPorts = 1,
     fn_state = \<lparr>hid_functions = (\<lambda>_. cleared_function), function_busy = (\<lambda>_. 0), manager_list = [0],
       handlers = (\<lambda>_. \<lparr>HdDriver = None, HdFunction = None\<rparr>), dispatched = [],
       kbs = \<lparr>handler_pool = [5], MaxReportId = (\<lambda>_. 0), key_log = []\<rparr>\<rparr>, bus = w\<rparr>"

theorem enum_interfaces_visits_witness:
  "enum_interfaces 4 silent_hcd (\<lambda>_. hid_function_driver (kb_env silent_hcd 4 1)) 0 0
      ((sample_host ())\<lparr>usb_ram := store 0 (concat keyboard_descs) (\<lambda>_. 0)\<rparr>) =
    enum_functions silent_hcd (\<lambda>_. hid_function_driver (kb_env silent_hcd 4 1)) 0 [9] 0
      ((sample_host ())\<lparr>usb_ram := store 0 (concat keyboard_descs) (\<lambda>_. 0)\<rparr>)"
proof -
  let ?m = "store 0 (concat keyboard_descs) (\<lambda>_. 0)"
  have "conf_in ?m keyboard_descs"
    by (simp add: conf_in_def chain_def load_store_same USB16TOH_def) (simp add: keyboard_descs_def desc_ok_def store_def)
  moreover have "function_addresses keyboard_descs 1 = [9]"
    by (simp add: function_addresses_def keyboard_descs_def is_function_def usb_types desc_at_def upt_rec)
  ultimately show ?thesis
    using enum_interfaces_visits [OF hid.function_drivers_axioms [of silent_hcd 4 1],
        of "(sample_host ())\<lparr>usb_ram := ?m\<rparr>" keyboard_descs 4 silent_hcd 0]
    by (simp add: keyboard_descs_def)
qed

text \<open>A keyboard that answers with a report descriptor and refuses the first class request.\<close>

definition refusing_hcd :: "(kb_state hid_state, unit) usb_host_controller_driver" where
  "refusing_hcd = silent_hcd\<lparr>CtrlSetupRead := (\<lambda>req len w. Inr (True, [5, 7, 0x75, 1, 0x95, 8, 0x81, 2], w)),
     CtrlSetupWrite := (\<lambda>req bs w. Inr (False, w))\<rparr>"

definition attached_keyboard :: "(kb_state hid_state, unit) usb_host" where
  "attached_keyboard = snd (projr (hid_check_interface (kb_env refusing_hcd 5 1) 0 0 9
     ((sample_host ())\<lparr>usb_ram := store 0 (concat keyboard_descs) (\<lambda>_. 0)\<rparr>)))"

theorem kb_handler_lost_witness:
  "\<exists>s1 s2. hid_start (kb_env refusing_hcd 5 1) 0 0 9 attached_keyboard = Inr s1 \<and>
     hid_stop (kb_env refusing_hcd 5 1) 0 s1 = Inr s2 \<and> handler_pool (kbs (fn_state s2)) = []"
proof -
  have "case hid_start (kb_env refusing_hcd 5 1) 0 0 9 attached_keyboard of
      Inr s1 \<Rightarrow> Handler (func s1 0) = None | Inl e \<Rightarrow> False" by code_simp
  moreover have "handler_pool (kbs (fn_state attached_keyboard)) = []" by code_simp
  ultimately show ?thesis
    using kb_handler_lost [of refusing_hcd 5 1 0 0 9 attached_keyboard] by (auto split: sum.splits)
qed

end
