(* ===== verification/UsbDevice_Inv.thy ===== *)
theory UsbDevice_Inv
  imports UsbDevice
begin

text \<open>
  Properties of the device service: what SET_CONFIGURATION does, and the invariant that every request keeps.  The locale
  \<open>device_drivers\<close> is the contract of the drivers of a device: they leave the control state of the service
  alone.
\<close>

unbundle bit_operations_syntax

section \<open>The contract of the drivers\<close>

text \<open>The state that belongs to the service, and the registry without the status of the interfaces.\<close>

definition same_registry :: "usb_config \<Rightarrow> usb_config \<Rightarrow> bool" where
  "same_registry c c' \<longleftrightarrow> configs c' = configs c \<and> conf c' = conf c \<and>
     (\<forall>i. (iface c' i)\<lparr>IfStatus := USB_IFSTA_STOPPED\<rparr> = (iface c i)\<lparr>IfStatus := USB_IFSTA_STOPPED\<rparr>)"

definition same_control :: "usb_device \<Rightarrow> usb_device \<Rightarrow> bool" where
  "same_control s s' \<longleftrightarrow> same_registry (cfg s) (cfg s') \<and>
     configuration s' = configuration s \<and> configuration_value s' = configuration_value s \<and>
     address s' = address s \<and> hal_addr s' = hal_addr s \<and> alternate_setting s' = alternate_setting s \<and> error_flag s' = error_flag s"

text \<open>A driver function changes neither these nor the status of an interface.\<close>

definition kept :: "usb_device \<Rightarrow> usb_device \<Rightarrow> bool" where
  "kept s s' \<longleftrightarrow> same_control s s' \<and> iface (cfg s') = iface (cfg s)"

text \<open>The driver describes the endpoints \<open>eps\<close> (without their headers) and no more.\<close>

definition lists_endpoints :: "usb_interface_fill \<Rightarrow> ifid \<Rightarrow> u8 list list \<Rightarrow> bool" where
  "lists_endpoints d i eps \<longleftrightarrow>
     (\<exists>f. FillEndpointDescriptor d = Some f \<and>
        (\<forall>s m e. e < length eps \<longrightarrow> (\<exists>m1. f s i (of_nat e) 0 7 m = Inr (7, m1) \<and> load 2 5 m1 = eps ! e)) \<and>
        (\<forall>s m. f s i (of_nat (length eps)) 0 7 m = Inr (0, m)))"

text \<open>
  \<open>eps\<close> are the endpoints of an interface, and \<open>starts\<close> tells whether it starts.  The interfaces \<open>is\<close> can be
  started in this order when \<open>ready is\<close> holds of the started instances.
\<close>

locale device_drivers =
  fixes E :: usb_drivers and eps :: "ifid \<Rightarrow> u8 list list" and starts :: "ifid \<Rightarrow> bool"
    and ready :: "ifid list \<Rightarrow> nat list \<Rightarrow> bool" and reg :: usb_config
  assumes conf_driver: "c \<in> set (configs reg) \<Longrightarrow> \<exists>cd. CfDriver (conf reg c) = Some cd \<and> FillConfigurationDescriptor (ConfFill E cd) \<noteq> None"
    and if_driver: "c \<in> set (configs reg) \<Longrightarrow> i \<in> set (Interfaces (conf reg c)) \<Longrightarrow>
      \<exists>d. IfDriver (iface reg i) = Some d \<and> lists_endpoints (IfFill E d) i (eps i) \<and>
        (\<forall>alt s is. same_registry reg (cfg s) \<longrightarrow> ready (i # is) (instances s) \<longrightarrow>
           (\<exists>s'. Start (IfOps E d) i alt s = Inr (starts i, s') \<and> kept s s' \<and> ready is (instances s')))"
    and configured: "Configured (ConfOps E cd) = Some f \<Longrightarrow> \<exists>s'. f idx b s = Inr s' \<and> kept s s'"
    and few: "length (configs reg) < 2 ^ 32"

text \<open>A configuration can be selected by a value, and its interfaces are started.\<close>

definition selectable :: "(ifid \<Rightarrow> bool) \<Rightarrow> usb_config \<Rightarrow> u8 \<Rightarrow> cfid \<Rightarrow> bool" where
  "selectable starts reg v c \<longleftrightarrow> CfValue (conf reg c) = v \<and> (\<exists>i\<in>set (Interfaces (conf reg c)). starts i)"

definition started :: "(ifid \<Rightarrow> bool) \<Rightarrow> usb_config \<Rightarrow> cfid \<Rightarrow> usb_device \<Rightarrow> bool" where
  "started starts reg c s \<longleftrightarrow> (\<forall>i\<in>set (Interfaces (conf reg c)).
     IfStatus (iface (cfg s) i) = (if starts i then USB_IFSTA_STARTED else USB_IFSTA_STARTING))"

section \<open>Frames\<close>

lemma same_registry_refl [simp]: "same_registry c c"
  by (simp add: same_registry_def)

lemma same_registry_trans: "same_registry a b \<Longrightarrow> same_registry b c \<Longrightarrow> same_registry a c"
  by (simp add: same_registry_def)

lemma same_registry_driver: "same_registry c c' \<Longrightarrow> IfDriver (iface c' i) = IfDriver (iface c i)"
  unfolding same_registry_def by (metis usb_device_interface_t.select_convs(2) usb_device_interface_t.surjective
      usb_device_interface_t.update_convs(4))

lemma same_registry_context: "same_registry c c' \<Longrightarrow> DriverContext (iface c' i) = DriverContext (iface c i)"
  unfolding same_registry_def by (metis usb_device_interface_t.select_convs(3) usb_device_interface_t.surjective
      usb_device_interface_t.update_convs(4))

lemma same_control_refl [simp]: "same_control s s"
  by (simp add: same_control_def)

lemma same_control_trans: "same_control a b \<Longrightarrow> same_control b c \<Longrightarrow> same_control a c"
  unfolding same_control_def by (auto intro: same_registry_trans)

lemma set_status_same [simp]: "same_control s (set_status i st s)"
  by (simp add: same_control_def same_registry_def set_status_def upd_iface_def)

lemma set_status_status: "IfStatus (iface (cfg (set_status i st s)) j) = (if j = i then st else IfStatus (iface (cfg s) j))"
  by (simp add: set_status_def upd_iface_def)

lemma enable_endpoint_kept: "kept s (enable_endpoint m s)" "instances (enable_endpoint m s) = instances s"
  by (simp_all add: kept_def same_control_def enable_endpoint_def hal_call_def Let_def)

lemma set_status_instances [simp]: "instances (set_status i st s) = instances s"
  by (simp add: set_status_def)

lemma kept_same: "kept s s' \<Longrightarrow> same_control s s'"
  by (simp add: kept_def)

lemma kept_trans: "kept a b \<Longrightarrow> kept b c \<Longrightarrow> kept a c"
  unfolding kept_def by (auto intro: same_control_trans)

section \<open>Starting the interfaces\<close>

lemma enable_endpoints_ok:
  assumes "lists_endpoints (IfFill E d) i es" and "FillConfigurationDescriptor (ConfFill E cd) \<noteq> None"
    and "e \<le> length es" and "length es - e < fuel"
  shows "\<exists>s'. enable_endpoints fuel E cd d i (of_nat e) m s = Inr s' \<and> kept s s' \<and> instances s' = instances s"
  using assms(3,4)
proof (induction fuel arbitrary: e m s)
  case (Suc fuel)
  from assms(1) obtain f where f: "FillEndpointDescriptor (IfFill E d) = Some f"
    "\<And>s m e. e < length es \<Longrightarrow> \<exists>m1. f s i (of_nat e) 0 7 m = Inr (7, m1) \<and> load 2 5 m1 = es ! e"
    "\<And>s m. f s i (of_nat (length es)) 0 7 m = Inr (0, m)"
    unfolding lists_endpoints_def by blast
  show ?case
  proof (cases "e < length es")
    case True
    obtain m1 where m1: "f (cfg s) i (of_nat e) 0 7 m = Inr (7, m1)" using f(2) [OF True] by blast
    have e: "of_nat e + 1 = (of_nat (Suc e) :: u32)" by simp
    have "length es - Suc e < fuel" using Suc.prems True by linarith
    then obtain s' where "enable_endpoints fuel E cd d i (of_nat (Suc e)) m1 (enable_endpoint m1 s) = Inr s'" "kept (enable_endpoint m1 s) s'"
      "instances s' = instances s"
      using Suc.IH [of "Suc e" m1 "enable_endpoint m1 s"] Suc.prems True Suc_leI [OF True] by (auto simp: enable_endpoint_kept(2) simp del: of_nat_Suc)
    then show ?thesis using f(1) m1 assms(2) kept_trans [OF enable_endpoint_kept(1)] by (auto simp add: e simp del: of_nat_Suc)
  next
    case False
    then show ?thesis using f(1,3) Suc.prems assms(2) by (simp add: kept_def)
  qed
qed simp

context device_drivers
begin

lemma start_interfaces_ok:
  assumes "c \<in> set (configs reg)" and "set is \<subseteq> set (Interfaces (conf reg c))" and "distinct is"
    and "same_registry reg (cfg s)" and "\<forall>i\<in>set is. length (eps i) < fuel"
    and "ready is (instances s)" and "FillConfigurationDescriptor (ConfFill E cd) \<noteq> None"
  shows "\<exists>s'. start_interfaces fuel E stack cd is n s = Inr (n + length (filter starts is), s') \<and> same_control s s' \<and>
    (\<forall>i. IfStatus (iface (cfg s') i) =
       (if i \<in> set is then if starts i then USB_IFSTA_STARTED else USB_IFSTA_STARTING else IfStatus (iface (cfg s) i)))"
  using assms(2-6)
proof (induction "is" arbitrary: n s)
  case (Cons i "is")
  from if_driver [OF assms(1), of i] Cons.prems(1) obtain d where d: "IfDriver (iface reg i) = Some d"
    "lists_endpoints (IfFill E d) i (eps i)" "\<And>alt s is. same_registry reg (cfg s) \<Longrightarrow> ready (i # is) (instances s) \<Longrightarrow>
        \<exists>s'. Start (IfOps E d) i alt s = Inr (starts i, s') \<and> kept s s' \<and> ready is (instances s')"
    by auto
  have drv: "IfDriver (iface (cfg s) i) = Some d" using same_registry_driver [OF Cons.prems(3)] d(1) by simp
  obtain s1 where s1: "enable_endpoints fuel E cd d i 0 stack s = Inr s1" "kept s s1" "instances s1 = instances s"
    using enable_endpoints_ok [OF d(2) assms(7), of 0 fuel stack s] Cons.prems(4) by auto
  have reg1: "same_registry reg (cfg (set_status i USB_IFSTA_STARTING s1))"
    using same_registry_trans [OF Cons.prems(3)] s1(2) set_status_same same_registry_trans by (metis kept_def same_control_def)
  obtain s2 where s2: "Start (IfOps E d) i (alternate_setting s1) (set_status i USB_IFSTA_STARTING s1) = Inr (starts i, s2)"
    "kept (set_status i USB_IFSTA_STARTING s1) s2" "ready is (instances s2)"
    using d(3) [OF reg1, of "is"] Cons.prems(5) s1(3) by auto
  define s3 where "s3 = (if starts i then set_status i USB_IFSTA_STARTED s2 else s2)"
  let ?n = "if starts i then n + 1 else n"
  have same: "same_control s s3"
    unfolding s3_def using kept_same [OF s1(2)] kept_same [OF s2(2)] same_control_trans set_status_same by (metis (full_types))
  have st: "IfStatus (iface (cfg s3) j) =
      (if j = i then if starts i then USB_IFSTA_STARTED else USB_IFSTA_STARTING else IfStatus (iface (cfg s) j))" for j
    unfolding s3_def using s1(2) s2(2) by (simp add: kept_def set_status_status)
  have reg: "same_registry reg (cfg s3)"
    using same_registry_trans [OF Cons.prems(3)] same by (simp add: same_control_def)
  have rd: "ready is (instances s3)" using s2(3) by (simp add: s3_def)
  obtain s' where s': "start_interfaces fuel E stack cd is ?n s3 = Inr (?n + length (filter starts is), s')" "same_control s3 s'"
    "\<forall>j. IfStatus (iface (cfg s') j) =
       (if j \<in> set is then if starts j then USB_IFSTA_STARTED else USB_IFSTA_STARTING else IfStatus (iface (cfg s3) j))"
    using Cons.IH [of s3 ?n] reg Cons.prems rd by fastforce
  have "start_interfaces fuel E stack cd (i # is) n s = Inr (n + length (filter starts (i # is)), s')"
    using drv s1(1) s2(1) s'(1) unfolding s3_def by (cases "starts i") simp_all
  moreover have "same_control s s'" using same_control_trans [OF same s'(2)] .
  moreover have "\<forall>j. IfStatus (iface (cfg s') j) = (if j \<in> set (i # is) then if starts j then USB_IFSTA_STARTED else USB_IFSTA_STARTING
      else IfStatus (iface (cfg s) j))"
    using s'(3) st Cons.prems(2) by simp
  ultimately show ?case by blast
qed simp

lemma conf_at_nth: "k \<le> length cs \<Longrightarrow> length cs < 2 ^ 32 \<Longrightarrow> conf_at cs (of_nat k) = (if k < length cs then Some (cs ! k) else None)"
proof (induction cs arbitrary: k)
  case (Cons c cs)
  show ?case
  proof (cases k)
    case (Suc k')
    have "of_nat k \<noteq> (0 :: u32)" using of_nat_u32_eq_0 [of k] Suc Cons.prems by simp
    then show ?thesis using Cons Suc by simp
  qed simp
qed simp

lemma configuration_started:
  assumes "c \<in> set (configs reg)" and "distinct (Interfaces (conf reg c))" and "\<forall>i\<in>set (Interfaces (conf reg c)). length (eps i) < fuel"
    and "same_registry reg (cfg s)" and "ready (Interfaces (conf reg c)) (instances s)" and "selectable starts reg v c" and "CfDriver (conf reg c) = Some cd"
  shows "\<exists>n s1 s'. start_interfaces fuel E stack cd (Interfaces (conf reg c)) 0 s = Inr (n, s1) \<and> n \<noteq> 0 \<and>
    (case Configured (ConfOps E cd) of
       None \<Rightarrow> Inr (hal_call (hal_usbd_configure True) (s1\<lparr>configuration_value := v, configuration := Some c\<rparr>))
     | Some f \<Rightarrow> f idx True (hal_call (hal_usbd_configure True) (s1\<lparr>configuration_value := v, configuration := Some c\<rparr>))) = Inr s' \<and>
    same_control (s\<lparr>configuration_value := v, configuration := Some c\<rparr>) s' \<and> started starts reg c s'"
proof -
  have fc: "FillConfigurationDescriptor (ConfFill E cd) \<noteq> None" using conf_driver [OF assms(1)] assms(7) by simp
  obtain s1 where s1: "start_interfaces fuel E stack cd (Interfaces (conf reg c)) 0 s = Inr (length (filter starts (Interfaces (conf reg c))), s1)"
    "same_control s s1" "started starts reg c s1"
    using start_interfaces_ok [OF assms(1) subset_refl assms(2,4,3,5) fc, of stack 0] by (auto simp: started_def)
  let ?s2 = "hal_call (hal_usbd_configure True) (s1\<lparr>configuration_value := v, configuration := Some c\<rparr>)"
  have n: "length (filter starts (Interfaces (conf reg c))) \<noteq> 0" using assms(6) by (auto simp: selectable_def filter_empty_conv)
  have s2: "same_control (s\<lparr>configuration_value := v, configuration := Some c\<rparr>) ?s2" "started starts reg c ?s2"
    using s1(2,3) by (auto simp: same_control_def hal_call_def started_def)
  obtain s' where "(case Configured (ConfOps E cd) of None \<Rightarrow> Inr ?s2 | Some f \<Rightarrow> f idx True ?s2) = Inr s'" "kept ?s2 s'"
    using configured [of cd _ idx True ?s2] by (cases "Configured (ConfOps E cd)") (auto simp: kept_def)
  moreover then have "started starts reg c s'" "same_control (s\<lparr>configuration_value := v, configuration := Some c\<rparr>) s'"
    using s2 same_control_trans by (auto simp: kept_def started_def)
  ultimately show ?thesis using s1(1) n by blast
qed

lemma set_configuration_loop_ok:
  assumes "\<forall>c\<in>set (configs reg). distinct (Interfaces (conf reg c)) \<and> (\<forall>i\<in>set (Interfaces (conf reg c)). length (eps i) < fuel)"
    and "distinct (map (\<lambda>c. CfValue (conf reg c)) (configs reg))"
    and "\<forall>c\<in>set (drop k (configs reg)). CfValue (conf reg c) = v \<longrightarrow> ready (Interfaces (conf reg c)) (instances s)"
    and "same_registry reg (cfg s)" and "k \<le> length (configs reg)" and "length (configs reg) - k < n"
  shows "\<exists>s'. set_configuration_loop n fuel E stack v (of_nat k) s = Inr s' \<and>
    (case find (selectable starts reg v) (drop k (configs reg)) of
       None \<Rightarrow> same_control s s'
     | Some c \<Rightarrow> same_control (s\<lparr>configuration_value := v, configuration := Some c\<rparr>) s' \<and> started starts reg c s')"
  using assms(3-)
proof (induction n arbitrary: k s)
  case (Suc n)
  have cs: "configs (cfg s) = configs reg" "conf (cfg s) = conf reg" using Suc.prems(2) by (simp_all add: same_registry_def)
  have get: "usb_device_config_get (of_nat k) (cfg s) = (if k < length (configs reg) then Some (configs reg ! k) else None)"
    using conf_at_nth [OF Suc.prems(3) few] by (simp add: usb_device_config_get_def cs)
  show ?case
  proof (cases "k < length (configs reg)")
    case True
    let ?c = "configs reg ! k"
    have c: "?c \<in> set (configs reg)" using True by simp
    then obtain cd where cd: "CfDriver (conf reg ?c) = Some cd" "FillConfigurationDescriptor (ConfFill E cd) \<noteq> None" using conf_driver by blast
    have dr: "drop k (configs reg) = ?c # drop (Suc k) (configs reg)" using True by (rule Cons_nth_drop_Suc [symmetric])
    have k: "of_nat k + 1 = (of_nat (Suc k) :: u32)" by simp
    have less: "length (configs reg) - Suc k < n" using Suc.prems(4) True by linarith
    note IH = Suc.IH [OF _ _ Suc_leI [OF True] less]
    have rdy: "CfValue (conf reg ?c) = v \<Longrightarrow> ready (Interfaces (conf reg ?c)) (instances s)" using Suc.prems(1) dr by simp
    have others: "CfValue (conf reg c) \<noteq> CfValue (conf reg ?c)" if "c \<in> set (drop (Suc k) (configs reg))" for c
    proof -
      have "CfValue (conf reg ?c) \<notin> (\<lambda>c. CfValue (conf reg c)) ` set (drop (Suc k) (configs reg))"
        using distinct_drop [OF assms(2), of k] unfolding drop_map dr by simp
      then show ?thesis using that by (metis (no_types, lifting) imageI)
    qed
    show ?thesis
    proof (cases "selectable starts reg v ?c")
      case sel: True
      then have val: "CfValue (conf reg ?c) = v" by (simp add: selectable_def)
      show ?thesis
        using configuration_started [OF c _ _ Suc.prems(2) rdy [OF val] sel cd(1), of fuel stack "of_nat k"] assms(1) c get True val cd(1) dr sel cs
        by (fastforce simp: Let_def)
    next
      case False
      show ?thesis
      proof (cases "CfValue (conf reg ?c) = v")
        case val: True
        then have none: "filter starts (Interfaces (conf reg ?c)) = []" using False by (auto simp: selectable_def filter_empty_conv)
        obtain s1 where s1: "start_interfaces fuel E stack cd (Interfaces (conf reg ?c)) 0 s = Inr (0, s1)" "same_control s s1"
          using start_interfaces_ok [OF c subset_refl _ Suc.prems(2) _ rdy [OF val] cd(2), of fuel stack 0] assms(1) c none by auto
        have "same_registry reg (cfg s1)" using same_registry_trans [OF Suc.prems(2)] s1(2) by (simp add: same_control_def)
        moreover have "\<forall>c\<in>set (drop (Suc k) (configs reg)). CfValue (conf reg c) = v \<longrightarrow> ready (Interfaces (conf reg c)) (instances s1)"
          using others val by auto
        ultimately obtain s' where s': "set_configuration_loop n fuel E stack v (of_nat (Suc k)) s1 = Inr s'"
          "case find (selectable starts reg v) (drop (Suc k) (configs reg)) of None \<Rightarrow> same_control s1 s'
            | Some c \<Rightarrow> same_control (s1\<lparr>configuration_value := v, configuration := Some c\<rparr>) s' \<and> started starts reg c s'"
          using IH [of s1] by blast
        have "same_control (s\<lparr>configuration_value := v, configuration := x\<rparr>) (s1\<lparr>configuration_value := v, configuration := x\<rparr>)" for x
          using s1(2) by (simp add: same_control_def)
        then have "case find (selectable starts reg v) (drop k (configs reg)) of None \<Rightarrow> same_control s s'
            | Some c \<Rightarrow> same_control (s\<lparr>configuration_value := v, configuration := Some c\<rparr>) s' \<and> started starts reg c s'"
          using s'(2) False same_control_trans s1(2) unfolding dr by (auto split: option.splits)
        then show ?thesis using get True val cd(1) s1(1) s'(1) cs by (simp add: k del: of_nat_Suc)
      next
        case val: False
        then show ?thesis using IH [of s] Suc.prems(1,2) get True False cs unfolding dr by (simp add: k del: of_nat_Suc)
      qed
    qed
  next
    case False
    then show ?thesis using get by simp
  qed
qed simp

end

section \<open>The boot loader\<close>

definition boot_env :: "u16 \<Rightarrow> (ifid \<Rightarrow> request_fun) option \<Rightarrow> (u32 \<Rightarrow> usb_device \<Rightarrow> bool) \<Rightarrow> usb_drivers" where
  "boot_env len creq halted = \<lparr>UserDevice = sample_device, ConfFill = boot_conf_driver,
     IfFill = boot_drivers (Some 7) (Some 8) (text_bytes ''0050C2000001''), ConfOps = boot_conf_ops, IfOps = boot_if_ops len creq,
     IsHalted = halted\<rparr>"

definition boot_endpoints :: "ifid \<Rightarrow> u8 list list" where
  "boot_endpoints i =
     (if i = Iface 1 then [[0x81, 2, 64, 0, 0], [1, 2, 64, 0, 0]] else if i = Iface 2 then [[0x83, 3, 64, 0, 0]]
      else [[0x82, 2, 64, 0, 0], [2, 2, 64, 0, 0]])"

text \<open>An instance is started once, and the data interface of the network device after its other interface.\<close>

fun boot_ready :: "usb_config \<Rightarrow> ifid list \<Rightarrow> nat list \<Rightarrow> bool" where
  "boot_ready reg [] inst \<longleftrightarrow> True"
| "boot_ready reg (i # is) inst \<longleftrightarrow>
     (let k = DriverContext (iface reg i) in
      if IfDriver (iface reg i) = Some NCM2 then k \<in> set inst \<and> boot_ready reg is inst
      else k \<notin> set inst \<and> boot_ready reg is (inst @ [k]))"

lemma boot_state_fields:
  "configs boot_state = [0]" "Interfaces (conf boot_state 0) = [Iface 1, Iface 2, SecondaryDataInterface 8]"
  "CfDriver (conf boot_state 0) = Some 0" "CfValue (conf boot_state 0) = 0x11"
  "IfDriver (iface boot_state (Iface 1)) = Some IAP2" "IfDriver (iface boot_state (Iface 2)) = Some NCM"
  "IfDriver (iface boot_state (SecondaryDataInterface 8)) = Some NCM2"
  "DriverContext (iface boot_state (Iface 1)) = 7" "DriverContext (iface boot_state (Iface 2)) = 8"
  "DriverContext (iface boot_state (SecondaryDataInterface 8)) = 8"
  by (simp_all add: boot_state_def boot_defs empty_registry_def Let_def)

lemma endpoint_bytes: "load x 5 (store x [a, b, c, d, e] m) = [a, b, c, d, e]"
  by (rule load_store_same) simp

lemma boot_lists:
  "lists_endpoints (iap2_driver mem) i [[0x81, 2, 64, 0, 0], [1, 2, 64, 0, 0]]"
  "lists_endpoints (ncm_driver mem mac) i [[0x83, 3, 64, 0, 0]]"
  "lists_endpoints ncm_driver2 i [[0x82, 2, 64, 0, 0], [2, 2, 64, 0, 0]]"
  by (auto simp: lists_endpoints_def iap2_driver_def ncm_driver_def ncm_driver2_def iap2_fill_ep_desc_def ncm_fill_ep_desc_def
      ncm_fill_ep_desc2_def HTOUSB16_64 endpoint_bytes less_Suc_eq nth_Cons' numeral_2_eq_2)

lemma boot_starts:
  assumes "same_registry boot_state (cfg s)" and "IfDriver (iface boot_state i) = Some d" and "boot_ready boot_state (i # is) (instances s)"
    and "d = IAP2 \<or> d = NCM \<or> d = NCM2"
  shows "\<exists>s'. Start (boot_if_ops len creq d) i alt s = Inr (True, s') \<and> kept s s' \<and> boot_ready boot_state is (instances s')"
  using assms(2-4) same_registry_context [OF assms(1), of i]
  by (auto simp: boot_if_ops_def iap2_start_def ncm_start_def ncm_start2_def ncm_enable_data_if_def enlist_def usb_set_rx_buffer_def
      hal_call_def kept_def same_control_def IAP2_def NCM_def NCM2_def Let_def)

interpretation boot_device: device_drivers "boot_env len creq halted" boot_endpoints "\<lambda>_. True" "boot_ready boot_state" boot_state
  for len creq halted
proof (unfold_locales, goal_cases)
  case (1 c)
  then show ?case by (simp add: boot_state_fields boot_env_def boot_conf_driver_def)
next
  case (2 c i)
  then consider "i = Iface 1" | "i = Iface 2" | "i = SecondaryDataInterface 8" by (auto simp: boot_state_fields)
  then obtain d where d: "IfDriver (iface boot_state i) = Some d" "d = IAP2 \<or> d = NCM \<or> d = NCM2"
    "lists_endpoints (boot_drivers (Some 7) (Some 8) (text_bytes ''0050C2000001'') d) i (boot_endpoints i)"
    by cases (auto simp: boot_state_fields boot_state_fields [unfolded One_nat_def] boot_drivers_def boot_endpoints_def IAP2_def NCM_def NCM2_def intro: boot_lists)
  then show ?case using boot_starts [OF _ d(1) _ d(2), of _ _ len creq] by (auto simp: boot_env_def)
next
  case (3 cd f)
  then show ?case by (simp add: boot_env_def boot_conf_ops_def)
qed (simp add: boot_state_fields)

section \<open>SET_CONFIGURATION\<close>


text \<open>The boot loader's drivers cannot be started twice.\<close>

lemma enable_endpoints_frame: "enable_endpoints fuel E cd d i e m s = Inr s' \<Longrightarrow> cfg s' = cfg s \<and> instances s' = instances s"
proof (induction fuel arbitrary: e m s)
  case (Suc fuel)
  have "cfg (enable_endpoint m1 s) = cfg s" for m1 by (simp add: enable_endpoint_def hal_call_def Let_def)
  then show ?case using Suc by (fastforce simp: res_elims enable_endpoint_kept(2) split: if_splits)
qed simp

lemma boot_start_enlists:
  assumes "Start (boot_if_ops len creq d) i alt s = Inr (b, s')"
  shows "set (instances s) \<subseteq> set (instances s')" "d = IAP2 \<Longrightarrow> DriverContext (iface (cfg s) i) \<in> set (instances s')"
  using assms by (auto simp: boot_if_ops_def iap2_start_def ncm_start_def ncm_start2_def ncm_enable_data_if_def enlist_def
      usb_set_rx_buffer_def hal_call_def Let_def res_elims IAP2_def split: if_splits)

lemma boot_start_step:
  assumes "start_interfaces fuel (boot_env len creq halted) stack cd (i # is) n s = Inr (k, s')"
  obtains d s2 s3 n' where "IfDriver (iface (cfg s) i) = Some d" "set (instances s) \<subseteq> set (instances s3)"
    "d = IAP2 \<Longrightarrow> DriverContext (iface (cfg s) i) \<in> set (instances s3)"
    "start_interfaces fuel (boot_env len creq halted) stack cd is n' s3 = Inr (k, s')"
proof -
  let ?E = "boot_env len creq halted"
  from assms obtain d s1 ok s2 where s: "IfDriver (iface (cfg s) i) = Some d" "enable_endpoints fuel ?E cd d i 0 stack s = Inr s1"
    "Start (IfOps ?E d) i (alternate_setting s1) (set_status i USB_IFSTA_STARTING s1) = Inr (ok, s2)"
    "start_interfaces fuel ?E stack cd is (if ok then n + 1 else n) (if ok then set_status i USB_IFSTA_STARTED s2 else s2) = Inr (k, s')"
    by (auto simp: res_elims split: option.splits if_splits)
  have start: "Start (boot_if_ops len creq d) i (alternate_setting s1) (set_status i USB_IFSTA_STARTING s1) = Inr (ok, s2)"
    using s(3) by (simp add: boot_env_def)
  have c: "DriverContext (iface (cfg (set_status i USB_IFSTA_STARTING s1)) i) = DriverContext (iface (cfg s) i)"
    using enable_endpoints_frame [OF s(2)] by (simp add: set_status_def upd_iface_def)
  show thesis
    using that [OF s(1) _ _ s(4)] boot_start_enlists [OF start] enable_endpoints_frame [OF s(2)] unfolding c by simp
qed

lemma boot_start_interfaces_mono:
  "start_interfaces fuel (boot_env len creq halted) stack cd is n s = Inr (k, s') \<Longrightarrow> set (instances s) \<subseteq> set (instances s')"
proof (induction "is" arbitrary: n s)
  case (Cons i "is")
  from boot_start_step [OF Cons.prems] show ?case by (metis Cons.IH order_trans)
qed simp

lemma boot_restart_panics:
  assumes "same_registry boot_state (cfg s)" and "7 \<in> set (instances s)" and "2 < fuel"
  shows "set_configuration fuel (boot_env len creq halted) stack 0x11 s = Inl (Panic KERNEL_ERROR_KERNEL_PANIC)"
proof -
  let ?E = "boot_env len creq halted" and ?i = "Iface 1"
  have reg: "configs (cfg s) = [0]" "conf (cfg s) = conf boot_state" "IfDriver (iface (cfg s) ?i) = Some IAP2"
    "DriverContext (iface (cfg s) ?i) = 7"
    using assms(1) same_registry_driver [OF assms(1)] same_registry_context [OF assms(1)] boot_state_fields
    by (simp_all add: same_registry_def)
  have le: "lists_endpoints (IfFill ?E IAP2) ?i (boot_endpoints ?i)"
    using boot_lists(1) by (simp add: boot_env_def boot_drivers_def boot_endpoints_def)
  have n: "length (boot_endpoints ?i) < fuel" using assms(3) by (simp add: boot_endpoints_def)
  have fc: "FillConfigurationDescriptor (ConfFill ?E 0) \<noteq> None" by (simp add: boot_env_def boot_conf_driver_def)
  have "0 \<le> length (boot_endpoints ?i)" "length (boot_endpoints ?i) - 0 < fuel" using n by simp_all
  from enable_endpoints_ok [OF le fc this, of stack s]
  obtain s1 where "enable_endpoints fuel ?E 0 IAP2 ?i (of_nat 0) stack s = Inr s1" by (elim exE conjE)
  then have e: "enable_endpoints fuel ?E 0 IAP2 ?i 0 stack s = Inr s1" by (simp only: semiring_1_class.of_nat_0)
  note s1 = e conjunct1 [OF enable_endpoints_frame [OF e]] conjunct2 [OF enable_endpoints_frame [OF e]]
  have "Start (IfOps ?E IAP2) ?i (alternate_setting s1) (set_status ?i USB_IFSTA_STARTING s1) = Inl (Panic KERNEL_ERROR_KERNEL_PANIC)"
    using s1(2,3) reg(4) assms(2)
    by (simp add: boot_env_def boot_if_ops_def iap2_start_def enlist_def Let_def set_status_def upd_iface_def)
  then show ?thesis
    using reg s1(1) boot_state_fields(2-4) by (simp add: set_configuration_def usb_device_config_get_def del: One_nat_def)
qed

text \<open>C38: on the device that the boot loader registers (its configuration with the iAP2 and NCM interfaces), a first
  SET_CONFIGURATION starts the drivers and a second one with the same value panics: the service does not stop the active configuration
  before it starts it again, and the driver of the first interface asserts that its context is not in use.
\<close>

theorem reconfiguration_panics:
  assumes "cfg s = boot_state" and "instances s = []" and "2 < fuel"
  shows "\<exists>s1. set_configuration fuel (boot_env len creq halted) stack 0x11 s = Inr s1 \<and> configuration s1 = Some 0 \<and>
    set_configuration fuel (boot_env len creq halted) stack' 0x11 s1 = Inl (Panic KERNEL_ERROR_KERNEL_PANIC)"
proof -
  let ?E = "boot_env len creq halted" and ?is = "Interfaces (conf boot_state 0)"
  have fc: "FillConfigurationDescriptor (ConfFill ?E 0) \<noteq> None" by (simp add: boot_env_def boot_conf_driver_def)
  have rdy: "boot_ready boot_state ?is (instances s)"
    using assms(2) by (simp add: boot_state_fields boot_state_fields [unfolded One_nat_def] IAP2_def NCM_def NCM2_def)
  have sub: "\<forall>i\<in>set ?is. length (boot_endpoints i) < fuel" "distinct ?is" "0 \<in> set (configs boot_state)" "same_registry boot_state (cfg s)"
    using assms by (simp_all add: boot_state_fields boot_endpoints_def)
  from boot_device.start_interfaces_ok [OF sub(3) subset_refl sub(2,4,1) rdy fc, of stack 0]
  obtain s1 where s1: "start_interfaces fuel ?E stack 0 ?is 0 s = Inr (3, s1)" "same_control s s1"
    by (auto simp: boot_state_fields)
  have seven: "7 \<in> set (instances s1)"
    using boot_start_step [OF s1(1) [unfolded boot_state_fields(2)]] boot_start_interfaces_mono assms(1) boot_state_fields(5,8)
    by (metis option.inject subsetD)
  let ?s2 = "hal_call (hal_usbd_configure True) (s1\<lparr>configuration_value := 0x11, configuration := Some 0\<rparr>)"
  have "set_configuration fuel ?E stack 0x11 s = Inr ?s2"
    using s1(1) assms(1) boot_state_fields(1-4)
    by (simp add: set_configuration_def usb_device_config_get_def boot_env_def boot_conf_ops_def Let_def del: One_nat_def)
  moreover have "set_configuration fuel ?E stack' 0x11 ?s2 = Inl (Panic KERNEL_ERROR_KERNEL_PANIC)"
    by (rule boot_restart_panics) (use s1(2) seven assms in \<open>simp_all add: same_control_def hal_call_def\<close>)
  ultimately show ?thesis by (intro exI [of _ ?s2]) (simp add: hal_call_def)
qed

definition boot_device :: usb_device where
  "boot_device = \<lparr>cfg = boot_state, configuration = None, address = 0, hal_addr = 0, configuration_value = 0, alternate_setting = 0,
     device_status = 1, error_flag = False, control_data = (\<lambda>_. 0), rx_max_packet = (\<lambda>_. 0), tx_max_packet = (\<lambda>_. 0),
     instances = [], hal = []\<rparr>"


theorem reconfiguration_panics_witness:
  "\<exists>s1. set_configuration 3 (boot_env 64 None (\<lambda>_ _. False)) (\<lambda>_. 0) 0x11 boot_device = Inr s1 \<and> configuration s1 = Some 0 \<and>
    set_configuration 3 (boot_env 64 None (\<lambda>_ _. False)) (\<lambda>_. 0) 0x11 s1 = Inl (Panic KERNEL_ERROR_KERNEL_PANIC)"
  by (rule reconfiguration_panics) (simp_all add: boot_device_def)

end
