(* ===== verification/UsbLink.thy ===== *)
theory UsbLink
  imports UsbEnum UsbDevice_Inv
begin

text \<open>
  The host and the device stack together: the bus is a device, and a control read of the host runs the handler of the device.
\<close>

unbundle bit_operations_syntax

section \<open>The wire\<close>

definition setup_bytes :: "usb_request_t \<Rightarrow> u8 list" where
  "setup_bytes req = [RequestType req, RequestCode req, ucast (Value req), ucast (drop_bit 8 (Value req)),
     ucast (Index req), ucast (drop_bit 8 (Index req)), ucast (Length req), ucast (drop_bit 8 (Length req))]"

lemma join_bytes: "ucast (ucast v :: u8) OR push_bit 8 (ucast (ucast (drop_bit 8 v) :: u8)) = v" for v :: u16
proof (rule bit_word_eqI)
  fix k
  assume "k < LENGTH(16)"
  then show "bit (ucast (ucast v :: u8) OR push_bit 8 (ucast (ucast (drop_bit 8 v) :: u8)) :: u16) k = bit v k"
    by (auto simp: bit_simps not_less)
qed

lemma decode_setup_bytes [simp]: "decode_setup (setup_bytes req) = req"
  by (simp add: decode_setup_def setup_bytes_def join_bytes)

text \<open>The bytes of the first transfer from endpoint 0 among the calls of the controller layer.\<close>

fun in_reply :: "hal_call list \<Rightarrow> u8 list option" where
  "in_reply [] = None"
| "in_reply (c # cs) = (case c of hal_usbd_prepare_in_ep ep bs \<Rightarrow> if ep = 0 then Some bs else in_reply cs | _ \<Rightarrow> in_reply cs)"

definition wire_read :: "nat \<Rightarrow> usb_drivers \<Rightarrow> ram \<Rightarrow> usb_request_t \<Rightarrow> u32 \<Rightarrow> usb_device \<Rightarrow> (bool \<times> u8 list \<times> usb_device) res" where
  "wire_read fuel E stack req len w =
     rbind (setup_handler fuel E stack USB_IOSTA_DONE (setup_bytes req) (USB_IOSTA_DONE, []) USB_IOSTA_DONE w) (\<lambda>w1.
       Inr (case in_reply (drop (length (hal w)) (hal w1)) of
              None \<Rightarrow> (False, [], w1) | Some bs \<Rightarrow> (True, take (unat len) bs, w1)))"

text \<open>The device offers the configuration, whatever its buffer holds.\<close>

definition serves :: "usb_drivers \<Rightarrow> usb_device \<Rightarrow> cfid \<Rightarrow> u8 \<Rightarrow> u8 \<Rightarrow> u8 \<Rightarrow> interface_spec list \<Rightarrow> bool" where
  "serves E w c index attributes max_power sps \<longleftrightarrow> \<not> error_flag w \<and>
     (\<forall>m. configuration_ok (ConfFill E) (cfg w\<lparr>desc_buffer := m\<rparr>) c index attributes max_power \<and>
          interfaces_ok (IfFill E) (cfg w\<lparr>desc_buffer := m\<rparr>) c sps)"

lemma config_descs_buffer [simp]:
  "config_descs (s\<lparr>desc_buffer := m\<rparr>) c index attributes max_power sps = config_descs s c index attributes max_power sps"
  by (simp add: config_descs_def)

lemma buffer_same: "s\<lparr>desc_buffer := desc_buffer s\<rparr> = (s :: usb_config)"
  by simp

definition config_request :: "u8 \<Rightarrow> u16 \<Rightarrow> usb_request_t" where
  "config_request index n = \<lparr>RequestType = 0x80, RequestCode = 6, Value = descriptor_value USB_DESCRIPTOR_TYPE_CONFIGURATION index, Index = 0, Length = n\<rparr>"

lemma wire_reads_configuration:
  assumes "serves E w c index attributes max_power sps"
    and ds: "ds = config_descs (cfg w) c index attributes max_power sps" and room: "length (concat ds) \<le> 255"
  obtains w1 where "wire_read fuel E stack (config_request index n) len w = Inr (True, take (unat len) (take (unat n) (concat ds)), w1)"
    "serves E w1 c index attributes max_power sps" "config_descs (cfg w1) c index attributes max_power sps = ds"
proof -
  let ?m = "store 0 (concat ds) (desc_buffer (cfg w))" and ?req = "config_request index n"
  let ?k = "min (length (concat ds)) (unat n)"
  define w0 where "w0 = (hal_call hal_usbd_prepare_setup_ep w)\<lparr>cfg := cfg w\<lparr>desc_buffer := ?m\<rparr>\<rparr>"
  have ok: "configuration_ok (ConfFill E) (cfg w) c index attributes max_power" "interfaces_ok (IfFill E) (cfg w) c sps"
    using assms(1) unfolding serves_def by (auto dest: spec [of _ "desc_buffer (cfg w)"] simp: buffer_same)
  have "setup_std_device fuel E stack ?req (ControlData, ucast n) (hal_call hal_usbd_prepare_setup_ep w) =
      Inr (True, (DescBuffer, of_nat (length (concat ds))), w0)"
    using config_built [OF ok] room ds
    by (simp add: setup_std_device_def config_request_def w0_def hal_call_def)
  then have req: "setup_req fuel E stack ?req (ControlData, ucast n) (hal_call hal_usbd_prepare_setup_ep w) =
      Inr (True, (DescBuffer, of_nat (length (concat ds))), w0)"
    by (simp add: setup_req_def setup_std_req_def config_request_def)
  have bytes: "data_bytes w0 DescBuffer ?k = take (unat n) (concat ds)"
    by (rule nth_equalityI) (simp_all add: data_bytes_def w0_def store_nth [of _ _ 0, simplified])
  define w1 where "w1 = set_hal_address (hal_call (hal_usbd_prepare_in_ep 0 (take (unat n) (concat ds))) w0)"
  have "setup_handler fuel E stack USB_IOSTA_DONE (setup_bytes ?req) (USB_IOSTA_DONE, []) USB_IOSTA_DONE w = Inr w1"
    using assms(1) req bytes room unfolding setup_handler_def decode_setup_bytes Let_def
    by (simp add: setup_out_def setup_in_def config_request_def serves_def hal_call_def w1_def Let_def)
  moreover have "in_reply (drop (length (hal w)) (hal w1)) = Some (take (unat n) (concat ds))"
    by (simp add: w1_def w0_def set_hal_address_def hal_call_def)
  ultimately have "wire_read fuel E stack ?req len w = Inr (True, take (unat len) (take (unat n) (concat ds)), w1)"
    by (simp add: wire_read_def)
  moreover have "cfg w1 = cfg w\<lparr>desc_buffer := ?m\<rparr>" "error_flag w1 = error_flag w"
    by (simp_all add: w1_def w0_def set_hal_address_def hal_call_def)
  ultimately show thesis using that assms(1) ds by (simp add: serves_def)
qed

section \<open>Reading a configuration\<close>

lemma host_reads:
  assumes "CtrlSetupRead hcd = wire_read k E stack" and "HostState (host_devices s d) = USB_HOST_DEVICE_ATTACHED"
    and "serves E (bus s) c index attributes max_power sps"
    and ds: "ds = config_descs (cfg (bus s)) c index attributes max_power sps" and room: "length (concat ds) \<le> 255" and n: "n \<noteq> 0"
  obtains s1 where "usb_host_read_device_descriptor hcd d USB_DESCRIPTOR_TYPE_CONFIGURATION index 0 n s = Inr (True, s1)"
    "usb_ram s1 = store 0 (take (unat n) (concat ds)) (usb_ram s)"
    "serves E (bus s1) c index attributes max_power sps" "config_descs (cfg (bus s1)) c index attributes max_power sps = ds"
    "HostState (host_devices s1 d) = USB_HOST_DEVICE_ATTACHED" "host_drivers s1 = host_drivers s"
    "\<forall>e. Functions (host_devices s1 e) = Functions (host_devices s e)"
proof -
  obtain w1 where w1: "wire_read k E stack (config_request index n) (ucast n) (bus s) =
      Inr (True, take (unat (ucast n :: u32)) (take (unat n) (concat ds)), w1)"
    "serves E w1 c index attributes max_power sps" "config_descs (cfg w1) c index attributes max_power sps = ds"
    by (rule wire_reads_configuration [OF assms(3) ds room])
  have u: "unat (ucast n :: u32) = unat n"
    using unsigned_less [of n, where ?'a = nat] by (simp add: unsigned_ucast_eq take_bit_nat_eq_self)
  then have nz: "(ucast n :: u32) \<noteq> 0" using n by (metis unat_eq_zero unsigned_0)
  let ?s1 = "(upd_device d (\<lambda>x. x\<lparr>ControlBuffer := config_request index n\<rparr>) s)
      \<lparr>usb_ram := store 0 (take (unat n) (concat ds)) (usb_ram s), bus := w1\<rparr>"
  have "usb_host_read_device_descriptor hcd d USB_DESCRIPTOR_TYPE_CONFIGURATION index 0 n s = Inr (True, ?s1)"
    unfolding usb_host_read_device_descriptor_def usb_host_ctrl_setup_def
      config_request_def [unfolded descriptor_value_def, symmetric]
    using assms(1,2) w1(1) nz u by (simp add: upd_device_def Let_def config_request_def)
  then show thesis by (rule that) (use w1 assms(2) in \<open>simp_all add: upd_device_def\<close>)
qed

lemma config_descs_size: "9 \<le> length (concat (config_descs s c index attributes max_power sps))"
  by (simp add: config_descs_def config_desc_def Let_def)

lemma total_length_read:
  assumes "9 \<le> length bs" and "9 \<le> n"
  shows "USB16TOH 2 (store 0 (take n bs) m) = USB16TOH 2 (store 0 bs m)"
  using assms by (simp add: USB16TOH_def store_def)

text \<open>C26: When the device of the bus offers a configuration, the host reads its total length and then the whole of it, its buffer
  then holds the descriptors of the device, and it offers the interface and association descriptors, each once and in order,
  to its function drivers.
\<close>

theorem host_enumerates_device:
  assumes "function_drivers FD" and "CtrlSetupRead hcd = wire_read k E stack"
    and "HostState (host_devices s d) = USB_HOST_DEVICE_ATTACHED"
    and "serves E (bus s) c index attributes max_power sps"
    and "ds = config_descs (cfg (bus s)) c index attributes max_power sps" and "length (concat ds) \<le> 255" and "length ds \<le> fuel"
  shows "\<exists>s2. parse_configuration fuel hcd FD d index s =
      rbind (enum_functions hcd FD d (function_addresses ds 1) 0 s2) (\<lambda>(n, s3). Inr (n \<noteq> 0, s3)) \<and>
    conf_in (usb_ram s2) ds \<and> host_drivers s2 = host_drivers s \<and> Functions (host_devices s2 d) = Functions (host_devices s d)"
proof -
  let ?n = "length (concat ds)" and ?dc = USB_DESCRIPTOR_TYPE_CONFIGURATION
  have nine: "(9 :: u16) \<noteq> 0" by simp
  have n9: "9 \<le> ?n" using config_descs_size assms(5) by simp
  obtain s1 where s1: "usb_host_read_device_descriptor hcd d ?dc index 0 9 s = Inr (True, s1)"
    "usb_ram s1 = store 0 (take (unat (9 :: u16)) (concat ds)) (usb_ram s)" "serves E (bus s1) c index attributes max_power sps"
    "config_descs (cfg (bus s1)) c index attributes max_power sps = ds" "HostState (host_devices s1 d) = USB_HOST_DEVICE_ATTACHED"
    "host_drivers s1 = host_drivers s" "\<forall>e. Functions (host_devices s1 e) = Functions (host_devices s e)"
    by (rule host_reads [OF assms(2-6) nine])
  have ok: "interfaces_ok (IfFill E) (cfg (bus s)) c sps"
    using assms(4) unfolding serves_def by (auto dest: spec [of _ "desc_buffer (cfg (bus s))"] simp: buffer_same)
  note chain = config_chain [OF ok assms(5,6)]
  have full: "unat (USB16TOH 2 (store 0 (concat ds) m)) = ?n" for m using chain(2) [of m] by (simp add: conf_end_def del: add_2_eq_Suc')
  then have len: "unat (USB16TOH 2 (usb_ram s1)) = ?n" using n9 by (simp add: s1(2) total_length_read)
  have le: "USB16TOH 2 (usb_ram s1) \<le> 2048" using len assms(6) by (simp add: word_le_nat_alt)
  have u: "unat (ucast (USB16TOH 2 (usb_ram s1)) :: u16) = ?n" using len assms(6) by (simp add: unsigned_ucast_eq take_bit_nat_eq_self)
  then have nz: "(ucast (USB16TOH 2 (usb_ram s1)) :: u16) \<noteq> 0" using n9 by (metis not_numeral_le_zero unsigned_0)
  obtain s2 where s2: "usb_host_read_device_descriptor hcd d ?dc index 0 (ucast (USB16TOH 2 (usb_ram s1))) s1 = Inr (True, s2)"
    "usb_ram s2 = store 0 (take (unat (ucast (USB16TOH 2 (usb_ram s1)) :: u16)) (concat ds)) (usb_ram s1)" "host_drivers s2 = host_drivers s1"
    "\<forall>e. Functions (host_devices s2 e) = Functions (host_devices s1 e)"
    by (rule host_reads [OF assms(2) s1(5,3) s1(4) [symmetric] assms(6) nz])
  have conf: "conf_in (usb_ram s2) ds" using chain(1) full assms(6) s2(2) u by (simp add: conf_in_def)
  have l0: "0 < length ds" using assms(5) by (simp add: config_descs_def Let_def)
  have "unat (usb_ram s2 0) = desc_at 0 ds 1" using conf_in_at(2) [OF conf l0] by simp
  then have "enum_interfaces fuel hcd FD d 0 s2 = enum_functions hcd FD d (function_addresses ds 1) 0 s2"
    unfolding enum_interfaces_def
    using function_drivers.enum_loop_visits [OF assms(1) conf, of 1 fuel hcd d 0] l0 assms(7) by simp
  then show ?thesis
    using s1(1,6,7) s2 le conf by (intro exI [of _ s2]) (simp add: parse_configuration_def Let_def)
qed

section \<open>A host and the boot loader\<close>

lemma boot_serves: "serves (boot_env len creq halted) boot_device 0 0 0x40 25 (boot_specs boot_state 8)"
proof -
  have "configs empty_registry = []" by (simp add: empty_registry_def)
  then have alt: "AlternateSettings (iface boot_state (SecondaryDataInterface 8)) = 1"
    using boot_registry [of empty_registry 7 8 "text_bytes ''0050C2000001''" 0] by (metis boot_state_def sum.sel(2))
  have "configuration_ok boot_conf_driver (boot_state\<lparr>desc_buffer := m\<rparr>) 0 0 0x40 25" for m
    using boot_state_fields boot.configuration_driver_axioms
    by (simp add: configuration_ok_def usb_device_config_get_def boot_conf_driver_def)
  moreover have "interfaces_ok (boot_drivers (Some 7) (Some 8) (text_bytes ''0050C2000001'')) (boot_state\<lparr>desc_buffer := m\<rparr>) 0 (boot_specs boot_state 8)" for m
  proof -
    let ?s = "boot_state\<lparr>desc_buffer := m\<rparr>"
    have sp: "boot_specs ?s 8 = boot_specs boot_state 8"
      by (simp add: boot_specs_def iap2_spec_def ncm_spec_def ncm_spec2_def ncm_class_descs_def)
    have "interfaces_ok (boot_drivers (Some 7) (Some 8) (text_bytes ''0050C2000001'')) ?s 0 (boot_specs ?s 8)"
      using boot_state_fields iap2.interface_driver_axioms ncm.interface_driver_axioms ncm_data_driver [of ?s "SecondaryDataInterface 8"] alt
      by (simp add: interfaces_ok_def boot_specs_def boot_drivers_def IAP2_def NCM_def NCM2_def)
    then show ?thesis unfolding sp .
  qed
  ultimately show ?thesis by (simp add: serves_def boot_env_def boot_device_def)
qed

definition wire_hcd :: "usb_drivers \<Rightarrow> (kb_state hid_state, usb_device) usb_host_controller_driver" where
  "wire_hcd E = \<lparr>CtrlSetupRead = wire_read 3 E (\<lambda>_. 0), CtrlSetupWrite = (\<lambda>req bs w. Inr (True, w)), StartPipe = (\<lambda>p w. (True, w)),
     StopPipe = (\<lambda>p w. (True, w)), BeginTransfer = (\<lambda>urb a len w. (True, urb, w)), EndTransfer = (\<lambda>urb t w. (0, [], urb, w)),
     CreateDevice = (\<lambda>d port speed s. Inr (True, s)), DestroyDevice = (\<lambda>d s. Inr s), BeginRoleSwitch = None\<rparr>"

lemma length_descs: "(\<And>b. b \<in> set ds \<Longrightarrow> desc_ok b) \<Longrightarrow> length ds \<le> length (concat ds)"
  by (induction ds) (force simp: desc_ok_def)+

theorem host_enumerates_device_witness:
  "\<exists>s2. parse_configuration 117 (wire_hcd (boot_env 64 None (\<lambda>_ _. False)))
        (\<lambda>_. hid_function_driver (kb_env (wire_hcd (boot_env 64 None (\<lambda>_ _. False))) 117 1)) 0 0 (sample_host boot_device) =
      rbind (enum_functions (wire_hcd (boot_env 64 None (\<lambda>_ _. False)))
        (\<lambda>_. hid_function_driver (kb_env (wire_hcd (boot_env 64 None (\<lambda>_ _. False))) 117 1)) 0
        (function_addresses (config_descs boot_state 0 0 0x40 25 (boot_specs boot_state 8)) 1) 0 s2) (\<lambda>(n, s3). Inr (n \<noteq> 0, s3)) \<and>
    conf_in (usb_ram s2) (config_descs boot_state 0 0 0x40 25 (boot_specs boot_state 8))"
proof -
  let ?E = "boot_env 64 None (\<lambda>_ _. False)" and ?s = "sample_host boot_device"
  let ?ds = "config_descs (cfg (bus ?s)) 0 0 0x40 25 (boot_specs boot_state 8)"
  have b: "bus ?s = boot_device" "cfg boot_device = boot_state" by (simp_all add: sample_host_def boot_device_def)
  have "desc_ok x" if "x \<in> set ?ds" for x
    using config_descs_ok [OF boot_state_ok(2), of 0 "0x40" 25 x] boot_state_ok(3) that b by simp
  then have "length ?ds \<le> 117" using length_descs [of ?ds] boot_state_ok(3) b by simp
  moreover have "CtrlSetupRead (wire_hcd ?E) = wire_read 3 ?E (\<lambda>_. 0)" by (simp add: wire_hcd_def)
  moreover have "HostState (host_devices ?s 0) = USB_HOST_DEVICE_ATTACHED" by (simp add: sample_host_def)
  moreover have "serves ?E (bus ?s) 0 0 0x40 25 (boot_specs boot_state 8)" using boot_serves b by simp
  moreover have "length (concat ?ds) \<le> 255" using boot_state_ok(3) b by simp
  ultimately show ?thesis
    using host_enumerates_device [OF hid.function_drivers_axioms [of "wire_hcd ?E" 117 1], of "wire_hcd ?E" 3 ?E "\<lambda>_. 0" ?s 0
        0 0 "0x40" 25 "boot_specs boot_state 8" ?ds 117] b by auto
qed

end
