(* ===== verification/NcmBlock.thy ===== *)
theory NcmBlock
  imports UsbDescriptors NetBase
begin

text \<open>
  The transfer blocks of the network function of a USB device (\<^verbatim>\<open>exos/support/usb/device/cdc_ncm.c\<close>): a
  block has a header, which points to a chain of datagram pointers, each with a table of datagrams in the block.  This theory
  holds the code that writes the table and data of one packet and the code that takes a received block apart, both on the
  bytes of the block.  Addresses in a block are offsets from its header.
\<close>

unbundle bit_operations_syntax

section \<open>Fields\<close>

definition USB32TOH :: "nat \<Rightarrow> ram \<Rightarrow> u32" where
  "USB32TOH a m = push_bit 24 (ucast (m (a + 3))) OR push_bit 16 (ucast (m (a + 2))) OR push_bit 8 (ucast (m (a + 1))) OR ucast (m a)"

definition HTOUSB32 :: "u32 \<Rightarrow> u8 list" where
  "HTOUSB32 h = [ucast (h AND 0xFF), ucast (drop_bit 8 h), ucast (drop_bit 16 h), ucast (drop_bit 24 h)]"

definition NCMSIG :: "u32 \<Rightarrow> u32 \<Rightarrow> u32 \<Rightarrow> u32 \<Rightarrow> u32" where
  "NCMSIG a b c d = push_bit 24 d OR push_bit 16 c OR push_bit 8 b OR a"

definition SIG_NTH16 :: u32 where "SIG_NTH16 = NCMSIG 0x4E 0x43 0x4D 0x48"
definition SIG_NDP16 :: u32 where "SIG_NDP16 = NCMSIG 0x4E 0x43 0x4D 0x30"

abbreviation (input) NCM_MAX_NTB_SIZE :: u32 where "NCM_MAX_NTB_SIZE \<equiv> 2048"

section \<open>Writing a packet\<close>

text \<open>The test of the loops over the buffers of a packet: there is no further buffer with data.\<close>

fun no_segment :: "mbuf list \<Rightarrow> bool" where
  "no_segment [] = True"
| "no_segment (b # bs) = (mb_Buffer b = 0 \<or> mb_Length b = 0)"

fun mbuf_count :: "mbuf list \<Rightarrow> nat" where
  "mbuf_count [] = 0"
| "mbuf_count (b # bs) = (if no_segment (b # bs) then 0 else Suc (mbuf_count bs))"

text \<open>
  The inner loop of \<^verbatim>\<open>_assemble\<close>: an entry of the table at \<open>ndp\<close> and the data of one buffer per round.  It
  returns the number of entries and the end of the data.
\<close>

fun write_segments :: "nat \<Rightarrow> nat \<Rightarrow> mbuf list \<Rightarrow> ram \<Rightarrow> nat \<Rightarrow> u32 \<Rightarrow> ram \<Rightarrow> nat \<times> u32 \<times> ram" where
  "write_segments ndp seg_cnt [] src seg_done data_offset m = (seg_done, data_offset, m)"
| "write_segments ndp seg_cnt (b # bs) src seg_done data_offset m =
     (let m1 = store (ndp + 8 + 4 * seg_done) (HTOUSB16 data_offset @ HTOUSB16 (of_int (mb_Length b))) m;
          word_count = of_int ((mb_Length b + 3) div 4)
      in if NCM_MAX_NTB_SIZE < data_offset + push_bit 2 word_count then (seg_done, data_offset, m1)
         else let m2 = store (unat data_offset) (load (mb_ptr b) (unat (of_int (mb_Length b) :: u32)) src) m1;
                  data_offset1 = data_offset + push_bit 2 word_count
           in if no_segment bs \<or> \<not> seg_done + 1 < seg_cnt then (seg_done + 1, data_offset1, m2)
              else write_segments ndp seg_cnt bs src (seg_done + 1) data_offset1 m2)"

text \<open>
  The rest of the round of \<^verbatim>\<open>_assemble\<close> for one packet: \<open>offset\<close> is the end of the block so far and \<open>prev\<close>
  the place of the link in the last datagram pointer.  It returns whether the loop goes on.
\<close>

definition write_packet :: "mbuf list \<Rightarrow> ram \<Rightarrow> u32 \<Rightarrow> nat option \<Rightarrow> ram \<Rightarrow> (bool \<times> u32 \<times> nat option \<times> ram) res" where
  "write_packet mbufs src offset prev m =
     (let seg_cnt = mbuf_count mbufs in
      ASSERT (seg_cnt \<noteq> 0) KERNEL_ERROR_KERNEL_PANIC
        (let ndp16 = unat offset; ndp_length = 8 + (of_nat seg_cnt + 1) * 4; data_offset = offset + ndp_length in
         ASSERT (data_offset AND 3 = 0) KERNEL_ERROR_KERNEL_PANIC
           (let (seg_done, data_offset1, prev1, m1) =
              (if data_offset < NCM_MAX_NTB_SIZE
               then let ma = (case prev of None \<Rightarrow> m | Some a \<Rightarrow> store a (HTOUSB16 offset) m);
                        mb = store ndp16 (HTOUSB32 SIG_NDP16) ma;
                        mc = store (ndp16 + 4) (HTOUSB16 ndp_length) mb;
                        md = store (ndp16 + 6) (HTOUSB16 0) mc;
                        (d, off, me) = write_segments ndp16 seg_cnt mbufs src 0 data_offset md
                 in (d, off, Some (ndp16 + 6), me)
               else (0, data_offset, prev, m));
              m2 = store (ndp16 + 8 + 4 * seg_done) [0, 0, 0, 0] m1
            in Inr (if seg_cnt \<noteq> seg_done then (False, offset, prev1, m2) else (True, data_offset1, prev1, m2)))))"

text \<open>The header, written before the first packet; the length of the block is written at the end.\<close>

definition write_block_header :: "u16 \<Rightarrow> ram \<Rightarrow> ram" where
  "write_block_header seq m =
     (let ma = store 0 (HTOUSB32 SIG_NTH16) m;
          mb = store 4 (HTOUSB16 12) ma;
          mc = store 6 (HTOUSB16 (ucast seq)) mb
      in store 10 (HTOUSB16 12) mc)"

section \<open>Taking a block apart\<close>

text \<open>\<^verbatim>\<open>struct dissect_state\<close>: the datagram pointer and the entry of its table; the header is the argument \<open>nth16\<close>.\<close>

record dissect_state =
  ndp_ptr :: nat
  dindex :: u16

definition validate_ndp :: "nat \<Rightarrow> ram \<Rightarrow> bool" where
  "validate_ndp a m =
     (let sig = USB32TOH a m; hdr_len = USB16TOH (a + 4) m
      in if sig \<noteq> SIG_NDP16 then False
         else if hdr_len AND 3 \<noteq> 0 \<or> drop_bit 2 hdr_len < 2 then False else True)"

definition dissect_start :: "nat \<Rightarrow> u32 \<Rightarrow> ram \<Rightarrow> dissect_state option" where
  "dissect_start nth16 data_length m =
     (let sig = USB32TOH nth16 m; hdr_len = USB16TOH (nth16 + 4) m; len = USB16TOH (nth16 + 8) m; ndp_offset = USB16TOH (nth16 + 10) m
      in if sig \<noteq> SIG_NTH16 then None
         else if hdr_len \<noteq> 12 then None
         else if len < hdr_len \<or> data_length < len then None
         else if ndp_offset < hdr_len \<or> len < ndp_offset + 8 then None
         else if validate_ndp (nth16 + unat ndp_offset) m then Some \<lparr>ndp_ptr = nth16 + unat ndp_offset, dindex = 0\<rparr>
         else None)"

text \<open>\<^verbatim>\<open>_dissect\<close>: the address and length of the nxt datagram, or \<open>None\<close> for the null pointer.\<close>

definition dissect :: "nat \<Rightarrow> ram \<Rightarrow> dissect_state \<Rightarrow> ((nat \<times> u32) option \<times> dissect_state) res" where
  "dissect nth16 m st =
     (let ndp_len = USB16TOH (ndp_ptr st + 4) m
      in ASSERT (8 \<le> ndp_len) KERNEL_ERROR_KERNEL_PANIC
        (let count = drop_bit 2 (ndp_len - 8)
         in if ucast (dindex st) < count
            then let e = ndp_ptr st + 8 + 4 * unat (dindex st); offset = USB16TOH e m; len = USB16TOH (e + 2) m;
                     st1 = st\<lparr>dindex := dindex st + 1\<rparr>;
                     nxt = USB16TOH (ndp_ptr st + 6) m;
                     st2 = (if ucast (dindex st1) = count \<and> nxt \<noteq> 0 \<and> validate_ndp (nth16 + unat nxt) m
                            then \<lparr>ndp_ptr = nth16 + unat nxt, dindex = 0\<rparr> else st1)
                 in Inr (if len \<noteq> 0 then Some (nth16 + unat offset, len) else None, st2)
            else Inr (None, st)))"

end
