(* ===== verification/UsbNcm.thy ===== *)
theory UsbNcm
  imports NcmBlock NetStack Fifo UsbDevice
begin

text \<open>
  The network function of a USB device (\<^verbatim>\<open>exos/support/usb/device/cdc_ncm.c\<close>), between the adapters of
  NetStack and the device service of UsbDevice: starting and stopping, notifications, class requests, and the transfer of
  frames in both directions.  The handlers return the time-out with which they add their dispatcher again, if they do.
\<close>

unbundle bit_operations_syntax

section \<open>State\<close>

text \<open>
  \<^verbatim>\<open>ncm_device_context_t\<close>, with the states of the network stack (which holds the kernel) and of the device service.
  The arrays \<^verbatim>\<open>TxData\<close>, \<^verbatim>\<open>RxData\<close> and \<^verbatim>\<open>NotifyData\<close> of
  the context are one memory, so that a write behind the end of one reaches the next.  \<open>MoreMbufs\<close> are the buffers linked
  behind the first one of a packet.
\<close>

record 'd ncm =
  ncm_net :: "'d net"
  ncm_usb :: usb_device
  MoreMbufs :: "nat \<Rightarrow> mbuf list"
  NContext :: nat                    \<comment> \<open>the node of the context\<close>
  NInterface :: ifid
  NReady :: bool
  NIdle :: bool
  NConnected :: bool
  NEnabled :: bool
  NSpeedMbps :: u16
  BoundAdapter :: nat
  NotifyConnected :: bool            \<comment> \<open>\<^verbatim>\<open>NotifyState\<close>\<close>
  NotifySpeedMbps :: u16
  NotifyStatus :: usb_io_status      \<comment> \<open>the status of \<^verbatim>\<open>NotifyIo\<close>\<close>
  TxStatus :: usb_io_status
  RxStatus :: usb_io_status
  RxDone :: u16
  NotifyEvent :: eid
  TxEvent :: eid
  RxEvent :: eid
  TxFifo :: fifo_t
  TxSequence :: u16
  ncm_data :: ram

abbreviation (input) TxData :: nat where "TxData \<equiv> 0"
abbreviation (input) RxData :: nat where "RxData \<equiv> 2048"
abbreviation (input) NotifyData :: nat where "NotifyData \<equiv> 4096"

abbreviation (input) NCM_BULK_EP :: u32 where "NCM_BULK_EP \<equiv> 2"
abbreviation (input) NCM_INT_EP :: u32 where "NCM_INT_EP \<equiv> 3"
abbreviation (input) TIMEOUT_NEVER :: u32 where "TIMEOUT_NEVER \<equiv> 0"

definition upd_kernel :: "(kernel \<Rightarrow> kernel) \<Rightarrow> 'd ncm \<Rightarrow> 'd ncm" where
  "upd_kernel f s = s\<lparr>ncm_net := (ncm_net s)\<lparr>net_kernel := f (net_kernel (ncm_net s))\<rparr>\<rparr>"

section \<open>Starting and stopping\<close>

text \<open>The effects on the device service are those of UsbDevice; the dispatchers are not part of this state.\<close>

definition ncm_comm_start :: "u8 \<Rightarrow> 'd ncm \<Rightarrow> (bool \<times> 'd ncm) res" where
  "ncm_comm_start alt s =
     rbind (ncm_start (NInterface s) alt (ncm_usb s)) (\<lambda>(ok, u).
       Inr (ok, (upd_kernel (exos_event_create (NotifyEvent s) True) s)
         \<lparr>ncm_usb := u, NotifyStatus := USB_IOSTA_UNKNOWN, NotifyConnected := False, NotifySpeedMbps := 0,
          NConnected := True, NEnabled := False, NSpeedMbps := 100, NReady := True\<rparr>))"

definition ncm_comm_stop :: "'d ncm \<Rightarrow> 'd ncm res" where
  "ncm_comm_stop s = rbind (delist (NInterface s) (ncm_usb s)) (\<lambda>u. Inr (s\<lparr>ncm_usb := u, NReady := False\<rparr>))"

definition ncm_data_enable :: "bool \<Rightarrow> 'd ncm \<Rightarrow> 'd ncm res" where
  "ncm_data_enable enable s =
     (if \<not> enable then Inr (s\<lparr>NEnabled := False\<rparr>)
      else rbind (ncm_enable_data_if True (ncm_usb s)) (\<lambda>u.
        Inr ((upd_kernel (\<lambda>k. exos_event_create (TxEvent s) True (exos_event_create (RxEvent s) True k)) s)
          \<lparr>ncm_usb := u, RxStatus := USB_IOSTA_UNKNOWN, RxDone := 0, TxStatus := USB_IOSTA_UNKNOWN, NIdle := True, NEnabled := True\<rparr>)))"

section \<open>Notifications\<close>

definition notify_header :: "u8 \<Rightarrow> u16 \<Rightarrow> u16 \<Rightarrow> u16 \<Rightarrow> u8 list" where
  "notify_header code val index len = [0xA1, code] @ concat (map (\<lambda>v. [ucast v, ucast (drop_bit 8 v)]) [val, index, len])"

definition notify_dispatch :: "'d ncm \<Rightarrow> (u32 \<times> 'd ncm) res" where
  "notify_dispatch s =
     ASSERT (NContext s \<in> set (instances (ncm_usb s))) KERNEL_ERROR_KERNEL_PANIC
       (if NotifyStatus s = USB_IOSTA_DONE \<or> NotifyStatus s = USB_IOSTA_UNKNOWN
        then let index = ucast (IfIndex (iface (cfg (ncm_usb s)) (NInterface s)));
                 (size, s1) =
                   (if NotifyConnected s \<noteq> NConnected s
                    then (8, s\<lparr>NotifyConnected := NConnected s,
                           ncm_data := store NotifyData (notify_header 0 (if NConnected s then 1 else 0) index 0) (ncm_data s)\<rparr>)
                    else if NotifySpeedMbps s \<noteq> NSpeedMbps s
                    then let rate = HTOUSB32 (ucast (NSpeedMbps s) * 1000000) in
                      (16, s\<lparr>NotifySpeedMbps := NSpeedMbps s,
                            ncm_data := store NotifyData (notify_header 0x2a 0 index 8 @ rate @ rate) (ncm_data s)\<rparr>)
                    else (0 :: nat, s\<lparr>ncm_data := store NotifyData (notify_header 0 0 index 0) (ncm_data s)\<rparr>))
             in rbind (if size \<noteq> 0 \<and> NReady s1
                       then usb_set_tx_buffer NCM_INT_EP True (load NotifyData size (ncm_data s1)) (ncm_usb s1)
                       else Inr (ncm_usb s1))
                  (\<lambda>u. Inr (TIMEOUT_NEVER, s1\<lparr>ncm_usb := u\<rparr>))
        else Inr (TIMEOUT_NEVER, s))"

text \<open>After the start the host is told that the network is connected, then its speed, and nothing more.\<close>

lemma notify_announces:
  assumes "NContext s \<in> set (instances (ncm_usb s))" and "NotifyStatus s = USB_IOSTA_DONE \<or> NotifyStatus s = USB_IOSTA_UNKNOWN"
    and "NReady s" and "NConnected s" and "\<not> NotifyConnected s" and "NotifySpeedMbps s \<noteq> NSpeedMbps s"
    and "index = ucast (IfIndex (iface (cfg (ncm_usb s)) (NInterface s)))" and "rate = HTOUSB32 (ucast (NSpeedMbps s) * 1000000)"
  shows "\<exists>s1 s2 s3. notify_dispatch s = Inr (0, s1) \<and> notify_dispatch s1 = Inr (0, s2) \<and> notify_dispatch s2 = Inr (0, s3) \<and>
    hal (ncm_usb s3) = hal (ncm_usb s) @
      [hal_usbd_prepare_in_ep 3 (notify_header 0 1 index 0), hal_usbd_prepare_in_ep 3 (notify_header 0x2a 0 index 8 @ rate @ rate)]"
proof -
  have l: "length (notify_header c v i n) = 8" "length rate = 4" for c v i n by (simp_all add: notify_header_def assms(8) HTOUSB32_def)
  have "load 4096 8 (store 4096 (notify_header c v i n) m) = notify_header c v i n"
    "load 4096 16 (store 4096 (notify_header c v i n @ rate @ rate) m) = notify_header c v i n @ rate @ rate" for c v i n m
    by (simp_all add: load_store_same l)
  then show ?thesis
    using assms by (simp add: notify_dispatch_def usb_set_tx_buffer_def hal_call_def Let_def)
qed

section \<open>From the network to the host\<close>

text \<open>
  \<^verbatim>\<open>_fwdtx_dispatch\<close>: the frames the adapter has received are queued; \<open>fuel\<close> bounds their number.
\<close>

fun fwdtx_loop :: "nat \<Rightarrow> 'd drivers \<Rightarrow> nat \<Rightarrow> 'd ncm \<Rightarrow> (nat \<times> 'd ncm) res" where
  "fwdtx_loop 0 drv count s = Inl OutOfFuel"
| "fwdtx_loop (Suc fuel) drv count s =
     rbind (net_adapter_get_input drv (BoundAdapter s) (ncm_net s)) (\<lambda>(buf, n).
       case buf of
         None \<Rightarrow> Inr (count, s\<lparr>ncm_net := n\<rparr>)
       | Some b \<Rightarrow>
           if NEnabled s
           then rbind (exos_fifo_queue b (TxFifo s) (net_kernel n)) (\<lambda>(f, k).
                  fwdtx_loop fuel drv (count + 1) (s\<lparr>TxFifo := f, ncm_net := n\<lparr>net_kernel := k\<rparr>\<rparr>))
           else fwdtx_loop fuel drv count (s\<lparr>ncm_net := n\<rparr>))"

definition fwdtx_dispatch :: "nat \<Rightarrow> 'd drivers \<Rightarrow> 'd ncm \<Rightarrow> (u32 \<times> 'd ncm) res" where
  "fwdtx_dispatch fuel drv s =
     rbind (fwdtx_loop fuel drv 0 s) (\<lambda>(count, s1).
       rbind (if count \<noteq> 0 then exos_event_set (TxEvent s1) (net_kernel (ncm_net s1)) else Inr (net_kernel (ncm_net s1))) (\<lambda>k.
         Inr (TIMEOUT_NEVER, upd_kernel (\<lambda>_. k) s1)))"

text \<open>
  \<^verbatim>\<open>_assemble\<close>.  The body of its loop for the packet \<open>buf\<close>, with the writes of NcmBlock; \<open>offset\<close> is 0
  before the first packet.  It returns whether the loop goes on.
\<close>

definition packet_mbufs :: "'d ncm \<Rightarrow> nat \<Rightarrow> mbuf list" where
  "packet_mbufs s buf = Root (buffers (ncm_net s) buf) # MoreMbufs s buf"

definition assemble_packet :: "'d drivers \<Rightarrow> nat \<Rightarrow> u32 \<Rightarrow> nat option \<Rightarrow> 'd ncm \<Rightarrow> (bool \<times> u32 \<times> nat option \<times> 'd ncm) res" where
  "assemble_packet drv buf offset prev s =
     (let (offset1, s1) = (if offset = 0
                           then (12, s\<lparr>ncm_data := write_block_header (TxSequence s) (ncm_data s), TxSequence := TxSequence s + 1\<rparr>)
                           else (offset, s))
      in rbind (write_packet (packet_mbufs s1 buf) (ram (ncm_net s1)) offset1 prev (ncm_data s1)) (\<lambda>(more, off, prev1, m).
           rbind (net_adapter_free_buffer drv buf (ncm_net s1)) (\<lambda>n.
             Inr (more, off, prev1, s1\<lparr>ncm_data := m, ncm_net := n\<rparr>))))"

fun assemble_loop :: "nat \<Rightarrow> 'd drivers \<Rightarrow> u32 \<Rightarrow> nat option \<Rightarrow> 'd ncm \<Rightarrow> (u32 \<times> 'd ncm) res" where
  "assemble_loop 0 drv offset prev s = Inl OutOfFuel"
| "assemble_loop (Suc fuel) drv offset prev s =
     rbind (exos_fifo_dequeue (TxFifo s) (net_kernel (ncm_net s))) (\<lambda>(buf, f, k).
       let s1 = (upd_kernel (\<lambda>_. k) s)\<lparr>TxFifo := f\<rparr> in
       case buf of
         None \<Rightarrow> Inr (offset, s1)
       | Some b \<Rightarrow>
           rbind (assemble_packet drv b offset prev s1) (\<lambda>(more, off, prev1, s2).
             if more then assemble_loop fuel drv off prev1 s2 else Inr (off, s2)))"

definition assemble :: "'d drivers \<Rightarrow> 'd ncm \<Rightarrow> (u32 \<times> 'd ncm) res" where
  "assemble drv s =
     rbind (assemble_loop (Suc (length (Items (TxFifo s)))) drv 0 None s) (\<lambda>(offset, s1).
       Inr (offset, s1\<lparr>ncm_data := store 8 (HTOUSB16 offset) (ncm_data s1)\<rparr>))"

definition tx_dispatch :: "'d drivers \<Rightarrow> 'd ncm \<Rightarrow> (u32 option \<times> 'd ncm) res" where
  "tx_dispatch drv s =
     (if TxStatus s = USB_IOSTA_IN_WAIT \<or> TxStatus s = USB_IOSTA_IN_COMPLETE
      then if NReady s then Inr (Some 1000, s\<lparr>NIdle := False\<rparr>) else Inr (None, s\<lparr>TxStatus := USB_IOSTA_UNKNOWN\<rparr>)
      else if TxStatus s = USB_IOSTA_ERROR then Inr (None, s\<lparr>TxStatus := USB_IOSTA_UNKNOWN\<rparr>)
      else rbind (assemble drv s) (\<lambda>(done, s1).
        if done \<noteq> 0
        then rbind (usb_set_tx_buffer NCM_BULK_EP True (load TxData (unat (ucast done :: u16)) (ncm_data s1)) (ncm_usb s1)) (\<lambda>u.
               Inr (Some 100, s1\<lparr>ncm_usb := u, NIdle := False\<rparr>))
        else Inr (Some TIMEOUT_NEVER, s1\<lparr>NIdle := True\<rparr>)))"

section \<open>From the host to the network\<close>

text \<open>One datagram of the block: it is copied to a buffer of the adapter and handed over, or dropped.\<close>

definition deliver :: "'d drivers \<Rightarrow> nat \<Rightarrow> u32 \<Rightarrow> 'd ncm \<Rightarrow> 'd ncm res" where
  "deliver drv data len s =
     rbind (net_adapter_alloc_buffer (BoundAdapter s) (ncm_net s)) (\<lambda>(buf, n).
       case buf of
         None \<Rightarrow> Inr (s\<lparr>ncm_net := n\<rparr>)
       | Some b \<Rightarrow>
           let root = Root (buffers n b) in
           rbind (if len \<le> of_int (mb_Length root)
                  then net_adapter_send_output drv (BoundAdapter s) b
                         (n\<lparr>ram := store (mb_ptr root) (load data (unat len) (ncm_data s)) (ram n),
                            buffers := (buffers n)(b := (buffers n b)\<lparr>Root := root\<lparr>mb_Length := sint len\<rparr>\<rparr>)\<rparr>)
                  else Inr (False, n))
             (\<lambda>(sent, n1). if sent then Inr (s\<lparr>ncm_net := n1\<rparr>)
                else rbind (net_adapter_free_buffer drv b n1) (\<lambda>n2. Inr (s\<lparr>ncm_net := n2\<rparr>))))"

fun rx_loop :: "nat \<Rightarrow> 'd drivers \<Rightarrow> dissect_state \<Rightarrow> 'd ncm \<Rightarrow> 'd ncm res" where
  "rx_loop 0 drv dis s = Inl OutOfFuel"
| "rx_loop (Suc fuel) drv dis s =
     rbind (dissect RxData (ncm_data s) dis) (\<lambda>(d, dis1).
       case d of
         None \<Rightarrow> Inr s
       | Some (data, len) \<Rightarrow>
           ASSERT (len \<noteq> 0) KERNEL_ERROR_KERNEL_PANIC (rbind (deliver drv data len s) (rx_loop fuel drv dis1)))"

definition rx_dispatch :: "nat \<Rightarrow> 'd drivers \<Rightarrow> 'd ncm \<Rightarrow> (u32 option \<times> 'd ncm) res" where
  "rx_dispatch fuel drv s =
     (if RxStatus s = USB_IOSTA_DONE
      then rbind (case dissect_start RxData (ucast (RxDone s)) (ncm_data s) of
                    None \<Rightarrow> Inr s | Some dis \<Rightarrow> rx_loop fuel drv dis s) (\<lambda>s1.
        rbind (usb_set_rx_buffer NCM_BULK_EP True 2048 (ncm_usb s1)) (\<lambda>u. Inr (Some TIMEOUT_NEVER, s1\<lparr>ncm_usb := u\<rparr>)))
      else Inr (None, s))"

section \<open>Class requests\<close>

definition init_parameters :: "u8 list" where
  "init_parameters = HTOUSB16 28 @ HTOUSB16 1 @ HTOUSB32 NCM_MAX_NTB_SIZE @ HTOUSB16 4 @ HTOUSB16 0 @ HTOUSB16 4 @ HTOUSB16 0 @
     HTOUSB32 NCM_MAX_NTB_SIZE @ HTOUSB16 4 @ HTOUSB16 0 @ HTOUSB16 4 @ HTOUSB16 0"

text \<open>
  \<^verbatim>\<open>_ncm_request\<close>.  The value that SET_CRC_MODE stores is never read: GET_CRC_MODE sets it to zero first.
\<close>

definition ncm_request :: "ifid \<Rightarrow> request_fun" where
  "ncm_request i req dl s =
     (if RequestCode req = 0x80 then Inr (True, (DriverData init_parameters, 28), s)
      else if RequestCode req = 0x89 then Inr (True, (DriverData [0, 0], snd dl), s)
      else if RequestCode req = 0x8A then Inr (True, dl, s)
      else Inr (False, dl, s))"

definition eth_request :: "ifid \<Rightarrow> request_fun" where
  "eth_request i req dl s = Inr (False, dl, s)"

definition ncm_class_request :: "ifid \<Rightarrow> request_fun" where
  "ncm_class_request i req dl s =
     (if RequestCode req AND 0xf0 = 0x40 then eth_request i req dl s
      else if RequestCode req AND 0xf0 = 0x80 then ncm_request i req dl s
      else Inr (False, dl, s))"

end
