(* ===== verification/NcmFormat.thy ===== *)
theory NcmFormat
  imports NcmBlock
begin

text \<open>
  What a transfer block describes, stated on its bytes (\<open>ntb_at\<close>): the header, the chain of datagram pointers, their tables and
  the data.  The code that writes a packet establishes it, and the code that takes a block apart reads it back.
\<close>

unbundle bit_operations_syntax

section \<open>Fields\<close>

lemma USB16TOH_cong: "m' a = m a \<Longrightarrow> m' (a + 1) = m (a + 1) \<Longrightarrow> USB16TOH a m' = USB16TOH a m"
  by (simp add: USB16TOH_def)

lemma USB32TOH_cong: "(\<And>i. i < 4 \<Longrightarrow> m' (a + i) = m (a + i)) \<Longrightarrow> USB32TOH a m' = USB32TOH a m"
proof -
  assume "\<And>i. i < 4 \<Longrightarrow> m' (a + i) = m (a + i)"
  from this [of 0] this [of 1] this [of 2] this [of 3] show ?thesis by (simp add: USB32TOH_def)
qed

lemma USB16TOH_written:
  assumes "load a 2 m = HTOUSB16 (of_nat v)" and "v < 2 ^ 16"
  shows "USB16TOH a m = of_nat v"
proof -
  have "m a = HTOUSB16 (of_nat v) ! 0" "m (a + 1) = HTOUSB16 (of_nat v) ! 1"
    using assms(1) nth_load [of 0 2 a m] nth_load [of 1 2 a m] by simp_all
  from USB16TOH_HTOUSB16 [OF this] show ?thesis
    using assms(2) by (simp add: take_bit_of_nat take_bit_nat_eq_self)
qed

section \<open>Writing the segments of a packet\<close>

text \<open>Data is padded to a multiple of four bytes.\<close>

definition pad4 :: "nat \<Rightarrow> nat" where
  "pad4 n = 4 * ((n + 3) div 4)"

definition pads :: "u8 list list \<Rightarrow> nat" where
  "pads segs = sum_list (map (pad4 \<circ> length) segs)"

lemma pads_simps [simp]: "pads [] = 0" "pads (r # rs) = pad4 (length r) + pads rs"
  by (simp_all add: pads_def)

lemma pad4_ge: "n \<le> pad4 n"
  unfolding pad4_def by linarith

lemma pad4_word: "push_bit 2 (of_int ((int n + 3) div 4) :: u32) = of_nat (pad4 n)"
proof -
  have "(int n + 3) div 4 = int ((n + 3) div 4)" by (simp add: zdiv_int)
  then show ?thesis by (simp add: push_bit_eq_mult pad4_def)
qed

text \<open>The segments of a packet are the bytes of its buffers up to the first one without data.\<close>

definition has_data :: "mbuf \<Rightarrow> bool" where
  "has_data b \<longleftrightarrow> mb_Buffer b \<noteq> 0 \<and> mb_Length b \<noteq> 0"

definition segments :: "ram \<Rightarrow> mbuf list \<Rightarrow> u8 list list" where
  "segments src mbufs = map (\<lambda>b. load (mb_ptr b) (nat (mb_Length b)) src) (takeWhile has_data mbufs)"

lemma segments_simps:
  "segments src [] = []"
  "segments src (b # bs) = (if has_data b then load (mb_ptr b) (nat (mb_Length b)) src # segments src bs else [])"
  by (simp_all add: segments_def)

lemma segments_none: "no_segment bs \<longleftrightarrow> segments src bs = []"
  by (cases bs) (simp_all add: segments_def has_data_def)

lemma mbuf_count_segments: "mbuf_count bs = length (segments src bs)"
  by (induction bs) (simp_all add: segments_simps has_data_def)

lemma load_same: "(\<And>i. i < n \<Longrightarrow> m' (a + i) = m (a + i)) \<Longrightarrow> load a n m' = load a n m"
  by (rule nth_equalityI) simp_all

lemma write_segment_step:
  assumes "mb_Length b = int n" and "ndp + 12 + 4 * k \<le> a" and "a + pad4 n \<le> 2048"
  obtains m2 where "\<And>bs. write_segments ndp seg_cnt (b # bs) src k (of_nat a) m =
      (if no_segment bs \<or> \<not> k + 1 < seg_cnt then (k + 1, of_nat (a + pad4 n), m2)
       else write_segments ndp seg_cnt bs src (k + 1) (of_nat (a + pad4 n)) m2)"
    and "\<And>x. x < ndp + 8 + 4 * k \<or> ndp + 12 + 4 * k \<le> x \<and> x < a \<or> a + n \<le> x \<Longrightarrow> m2 x = m x"
    and "USB16TOH (ndp + 8 + 4 * k) m2 = of_nat a" and "USB16TOH (ndp + 10 + 4 * k) m2 = of_nat n"
    and "load a n m2 = load (mb_ptr b) n src"
proof
  let ?e = "ndp + 8 + 4 * k" and ?r = "load (mb_ptr b) n src"
  let ?m1 = "store ?e (HTOUSB16 (of_nat a) @ HTOUSB16 (of_nat n)) m"
  let ?m2 = "store a ?r ?m1"
  have le: "n \<le> 2048" "a \<le> 2048" using assms(3) pad4_ge [of n] by simp_all
  then have un: "unat (of_nat a :: u32) = a" "unat (of_nat n :: u32) = n" by (simp_all add: unsigned_of_nat take_bit_nat_eq_self)
  have "\<not> (2048 :: u32) < of_nat a + of_nat (pad4 n)"
    using assms(3) by (simp add: word_less_nat_alt unsigned_of_nat take_bit_nat_eq_self flip: of_nat_add)
  then show "write_segments ndp seg_cnt (b # bs) src k (of_nat a) m =
      (if no_segment bs \<or> \<not> k + 1 < seg_cnt then (k + 1, of_nat (a + pad4 n), ?m2)
       else write_segments ndp seg_cnt bs src (k + 1) (of_nat (a + pad4 n)) ?m2)" for bs
    by (simp add: Let_def assms(1) pad4_word un)
  show "?m2 x = m x" if "x < ?e \<or> ndp + 12 + 4 * k \<le> x \<and> x < a \<or> a + n \<le> x" for x
    using that assms(2) by (auto simp: store_def)
  have "load ?e 2 ?m2 = HTOUSB16 (of_nat a)" "load (ndp + 10 + 4 * k) 2 ?m2 = HTOUSB16 (of_nat n)"
    using assms(2) load_add [of ?e 2 2 "?m2"] by (simp_all add: load_store_same load_store_other add.commute add.left_commute)
  with le show "USB16TOH ?e ?m2 = of_nat a" "USB16TOH (ndp + 10 + 4 * k) ?m2 = of_nat n"
    by (auto intro!: USB16TOH_written)
qed (rule load_store_same, simp)

text \<open>The entries and data of the segments \<open>rs\<close> from entry \<open>k\<close> of the table and address \<open>a\<close> on.\<close>

definition entries_at :: "ram \<Rightarrow> nat \<Rightarrow> nat \<Rightarrow> nat \<Rightarrow> u8 list list \<Rightarrow> bool" where
  "entries_at m ndp k a rs \<longleftrightarrow> (\<forall>i<length rs. USB16TOH (ndp + 8 + 4 * (k + i)) m = of_nat (a + pads (take i rs)) \<and>
     USB16TOH (ndp + 10 + 4 * (k + i)) m = of_nat (length (rs ! i)) \<and>
     load (a + pads (take i rs)) (length (rs ! i)) m = rs ! i)"

lemma entries_at_simps [simp]:
  "entries_at m ndp k a []"
  "entries_at m ndp k a (r # rs) \<longleftrightarrow> USB16TOH (ndp + 8 + 4 * k) m = of_nat a \<and> USB16TOH (ndp + 10 + 4 * k) m = of_nat (length r) \<and>
     load a (length r) m = r \<and> entries_at m ndp (k + 1) (a + pad4 (length r)) rs"
  by (auto simp: entries_at_def less_Suc_eq_0_disj add.assoc)

lemma write_segments_ok:
  assumes "segments src mbufs = rs" and "rs \<noteq> []" and "\<forall>b\<in>set mbufs. 0 \<le> mb_Length b"
    and "seg_cnt = k + length rs" and "ndp + 8 + 4 * seg_cnt \<le> a" and "a + pads rs \<le> 2048"
  shows "\<exists>m'. write_segments ndp seg_cnt mbufs src k (of_nat a) m = (seg_cnt, of_nat (a + pads rs), m') \<and>
    (\<forall>x. x < ndp + 8 + 4 * k \<or> (ndp + 8 + 4 * seg_cnt \<le> x \<and> x < a) \<or> a + pads rs \<le> x \<longrightarrow> m' x = m x) \<and> entries_at m' ndp k a rs"
  using assms
proof (induction mbufs arbitrary: rs k a m)
  case (Cons b bs)
  obtain n where n: "mb_Length b = int n" using Cons.prems(3) by (metis list.set_intros(1) nonneg_int_cases)
  define r where "r = load (mb_ptr b) n src"
  let ?rs = "segments src bs"
  have rs: "rs = r # ?rs" "length r = n" using Cons.prems(1,2) by (auto simp: segments_simps n r_def split: if_splits)
  have room: "ndp + 12 + 4 * k \<le> a" "a + pad4 n \<le> 2048" using Cons.prems(4-6) rs by simp_all
  obtain m2 where step: "write_segments ndp seg_cnt (b # bs) src k (of_nat a) m =
      (if no_segment bs \<or> \<not> k + 1 < seg_cnt then (k + 1, of_nat (a + pad4 n), m2)
       else write_segments ndp seg_cnt bs src (k + 1) (of_nat (a + pad4 n)) m2)"
    and fr: "\<And>x. x < ndp + 8 + 4 * k \<or> ndp + 12 + 4 * k \<le> x \<and> x < a \<or> a + n \<le> x \<Longrightarrow> m2 x = m x"
    and rd: "USB16TOH (ndp + 8 + 4 * k) m2 = of_nat a" "USB16TOH (ndp + 10 + 4 * k) m2 = of_nat n" "load a n m2 = r"
    using write_segment_step [OF n room] r_def by metis
  show ?case
  proof (cases "no_segment bs")
    case True
    then have "?rs = []" using segments_none by metis
    then show ?thesis using step fr rd True Cons.prems(4) pad4_ge [of n] rs
      by (intro exI [of _ m2]) (auto simp del: write_segments.simps)
  next
    case False
    then have ne: "?rs \<noteq> []" using segments_none by metis
    have lt: "k + 1 < seg_cnt" using Cons.prems(4) ne rs(1) by simp
    obtain m' where w: "write_segments ndp seg_cnt bs src (k + 1) (of_nat (a + pad4 n)) m2 = (seg_cnt, of_nat (a + pad4 n + pads ?rs), m')"
      and f: "\<And>x. x < ndp + 8 + 4 * (k + 1) \<or> (ndp + 8 + 4 * seg_cnt \<le> x \<and> x < a + pad4 n) \<or> a + pad4 n + pads ?rs \<le> x \<Longrightarrow> m' x = m2 x"
      and d: "entries_at m' ndp (k + 1) (a + pad4 n) ?rs"
      using Cons.IH [of ?rs "k + 1" "a + pad4 n" m2] Cons.prems rs ne by (auto simp: add.assoc)
    have "USB16TOH (ndp + 8 + 4 * k) m' = of_nat a" "USB16TOH (ndp + 10 + 4 * k) m' = of_nat n" "load a n m' = r"
      unfolding rd [symmetric] by (auto intro!: USB16TOH_cong load_same f, use Cons.prems(5) pad4_ge [of n] in auto)
    moreover have "m' x = m x" if "x < ndp + 8 + 4 * k \<or> (ndp + 8 + 4 * seg_cnt \<le> x \<and> x < a) \<or> a + pads rs \<le> x" for x
      using f [of x] fr [of x] that lt rs pad4_ge [of n] by auto
    ultimately show ?thesis
      by (intro exI [of _ m']) (use step w d lt False rs in \<open>simp add: add.assoc del: write_segments.simps\<close>)
  qed
qed (simp add: segments_simps)


section \<open>Blocks\<close>

text \<open>The end of the data of a packet whose datagram pointer is at \<open>a\<close>.\<close>

definition data_start :: "nat \<Rightarrow> u8 list list \<Rightarrow> nat" where
  "data_start a segs = a + 12 + 4 * length segs"

definition ndp_end :: "nat \<Rightarrow> u8 list list \<Rightarrow> nat" where
  "ndp_end a segs = data_start a segs + pads segs"

definition ndp_at :: "ram \<Rightarrow> nat \<Rightarrow> nat \<Rightarrow> u8 list list \<Rightarrow> bool" where
  "ndp_at m a nxt segs \<longleftrightarrow> USB32TOH a m = SIG_NDP16 \<and> USB16TOH (a + 4) m = of_nat (12 + 4 * length segs) \<and>
     USB16TOH (a + 6) m = of_nat nxt \<and> entries_at m a 0 (data_start a segs) segs \<and>
     USB16TOH (a + 8 + 4 * length segs) m = 0 \<and> USB16TOH (a + 10 + 4 * length segs) m = 0"

fun ndps_at :: "ram \<Rightarrow> nat \<Rightarrow> u8 list list list \<Rightarrow> bool" where
  "ndps_at m a [] = True"
| "ndps_at m a (p # ps) = (ndp_at m a (if ps = [] then 0 else ndp_end a p) p \<and> ndps_at m (ndp_end a p) ps)"

fun ndps_end :: "nat \<Rightarrow> u8 list list list \<Rightarrow> nat" where
  "ndps_end a [] = a"
| "ndps_end a (p # ps) = ndps_end (ndp_end a p) ps"

lemma pads_mono: "pads (take i rs) + pad4 (length (rs ! i)) \<le> pads rs" if "i < length rs"
proof -
  have "pads rs = pads (take i rs) + pads (drop i rs)" unfolding pads_def by (metis append_take_drop_id map_append sum_list.append)
  also have "drop i rs = rs ! i # drop (Suc i) rs" using that by (rule Cons_nth_drop_Suc [symmetric])
  finally show ?thesis by simp
qed

lemma entries_at_cong:
  assumes "entries_at m ndp k a rs"
    and "\<And>x. ndp + 8 + 4 * k \<le> x \<and> x < ndp + 8 + 4 * (k + length rs) \<or> a \<le> x \<and> x < a + pads rs \<Longrightarrow> m' x = m x"
  shows "entries_at m' ndp k a rs"
  unfolding entries_at_def
proof (intro allI impI)
  fix i assume i: "i < length rs"
  have "USB16TOH (ndp + 8 + 4 * (k + i)) m' = USB16TOH (ndp + 8 + 4 * (k + i)) m"
    "USB16TOH (ndp + 10 + 4 * (k + i)) m' = USB16TOH (ndp + 10 + 4 * (k + i)) m"
    by (auto intro!: USB16TOH_cong assms(2), use i in auto)
  moreover have "load (a + pads (take i rs)) (length (rs ! i)) m' = load (a + pads (take i rs)) (length (rs ! i)) m"
    using pads_mono [OF i] pad4_ge [of "length (rs ! i)"] by (intro load_same assms(2)) simp
  ultimately show "USB16TOH (ndp + 8 + 4 * (k + i)) m' = of_nat (a + pads (take i rs)) \<and>
      USB16TOH (ndp + 10 + 4 * (k + i)) m' = of_nat (length (rs ! i)) \<and> load (a + pads (take i rs)) (length (rs ! i)) m' = rs ! i"
    using assms(1) i unfolding entries_at_def by metis
qed

text \<open>What a datagram pointer describes stays when only its link changes.\<close>

lemma ndp_at_cong:
  assumes "ndp_at m a n segs" and "USB16TOH (a + 6) m' = of_nat n'"
    and "\<And>x. a \<le> x \<Longrightarrow> x < ndp_end a segs \<Longrightarrow> x \<noteq> a + 6 \<Longrightarrow> x \<noteq> a + 7 \<Longrightarrow> m' x = m x"
  shows "ndp_at m' a n' segs"
proof -
  have "USB32TOH a m' = USB32TOH a m" "USB16TOH (a + 4) m' = USB16TOH (a + 4) m"
    "USB16TOH (a + 8 + 4 * length segs) m' = USB16TOH (a + 8 + 4 * length segs) m"
    "USB16TOH (a + 10 + 4 * length segs) m' = USB16TOH (a + 10 + 4 * length segs) m"
    by (auto intro!: USB16TOH_cong USB32TOH_cong assms(3) simp: ndp_end_def data_start_def)
  moreover have "entries_at m' a 0 (data_start a segs) segs"
    by (rule entries_at_cong [of m]) (use assms(1) in \<open>auto simp: ndp_at_def ndp_end_def data_start_def intro!: assms(3)\<close>)
  ultimately show ?thesis using assms(1,2) by (simp add: ndp_at_def)
qed

lemma ndps_end_mono: "a \<le> ndps_end a ps"
proof (induction ps arbitrary: a)
  case (Cons p ps)
  have "a \<le> ndp_end a p" by (simp add: ndp_end_def data_start_def)
  also have "... \<le> ndps_end (ndp_end a p) ps" by (rule Cons.IH)
  finally show ?case by simp
qed simp

lemma ndps_at_cong: "ndps_at m a ps \<Longrightarrow> (\<And>x. a \<le> x \<Longrightarrow> x < ndps_end a ps \<Longrightarrow> m' x = m x) \<Longrightarrow> ndps_at m' a ps"
proof (induction ps arbitrary: a)
  case (Cons p ps)
  let ?e = "ndp_end a p"
  have e: "a + 8 \<le> ?e" "?e \<le> ndps_end ?e ps" using ndps_end_mono [of ?e ps] by (simp_all add: ndp_end_def data_start_def)
  define nx where "nx = (if ps = [] then 0 else ?e)"
  have p: "ndp_at m a nx p" "ndps_at m ?e ps" using Cons.prems(1) by (simp_all add: nx_def)
  have same: "m' x = m x" if "a \<le> x" "x < ndps_end ?e ps" for x using Cons.prems(2) [of x] that by simp
  have "USB16TOH (a + 6) m' = USB16TOH (a + 6) m" by (rule USB16TOH_cong; rule same) (use e in simp_all)
  then have "USB16TOH (a + 6) m' = of_nat nx" using p(1) by (simp add: ndp_at_def)
  then have "ndp_at m' a nx p" by (rule ndp_at_cong [OF p(1)]) (use same e in simp)
  then have "ndp_at m' a (if ps = [] then 0 else ?e) p" by (simp only: nx_def)
  moreover have "ndps_at m' ?e ps" by (rule Cons.IH [OF p(2)]) (use same e in simp)
  ultimately show ?case by simp
qed simp

lemma aligned_word: "4 dvd n \<Longrightarrow> of_nat n AND (3 :: u32) = 0"
proof -
  assume "4 dvd n"
  then obtain k where "n = 4 * k" by blast
  moreover have "(3 :: u32) = mask 2" by (simp add: mask_eq_exp_minus_1)
  ultimately have "of_nat n AND (3 :: u32) = take_bit 2 (of_nat (4 * k))" by (simp only: take_bit_eq_mask)
  moreover have "take_bit 2 (4 * k) = 0" by (simp add: take_bit_eq_mod)
  ultimately show ?thesis by (simp only: take_bit_of_nat) simp
qed

lemma pads_dvd: "4 dvd pads rs"
  by (induction rs) (simp_all add: pad4_def)

lemma ndp_end_dvd: "4 dvd a \<Longrightarrow> 4 dvd ndp_end a rs"
  using pads_dvd [of rs] by (simp add: ndp_end_def data_start_def)

lemma USB32TOH_written:
  assumes "load a 4 m = HTOUSB32 h"
  shows "USB32TOH a m = h"
proof -
  have b: "m a = HTOUSB32 h ! 0" "m (a + 1) = HTOUSB32 h ! 1" "m (a + 2) = HTOUSB32 h ! 2" "m (a + 3) = HTOUSB32 h ! 3"
    using assms nth_load [of 0 4 a m] nth_load [of 1 4 a m] nth_load [of 2 4 a m] nth_load [of 3 4 a m] by simp_all
  have m: "(0xFF :: u32) = mask 8" by (simp add: mask_eq_exp_minus_1)
  show ?thesis
    unfolding USB32TOH_def b HTOUSB32_def m
  proof (rule bit_word_eqI)
    fix n
    show "bit (push_bit 24 (ucast ([ucast (h AND mask 8), ucast (drop_bit 8 h), ucast (drop_bit 16 h), ucast (drop_bit 24 h) :: u8] ! 3)) OR
        push_bit 16 (ucast ([ucast (h AND mask 8), ucast (drop_bit 8 h), ucast (drop_bit 16 h), ucast (drop_bit 24 h) :: u8] ! 2)) OR
        push_bit 8 (ucast ([ucast (h AND mask 8), ucast (drop_bit 8 h), ucast (drop_bit 16 h), ucast (drop_bit 24 h) :: u8] ! 1)) OR
        ucast ([ucast (h AND mask 8), ucast (drop_bit 8 h), ucast (drop_bit 16 h), ucast (drop_bit 24 h) :: u8] ! 0) :: u32) n = bit h n"
      if "n < LENGTH(32)"
      using that by (cases "n < 8"; cases "n < 16"; cases "n < 24") (auto simp: bit_simps)
  qed
qed

lemma HTOUSB32_length [simp]: "length (HTOUSB32 h) = 4"
  by (simp add: HTOUSB32_def)

lemma segments_nonempty: "\<forall>b\<in>set mbufs. 0 \<le> mb_Length b \<Longrightarrow> [] \<notin> set (segments src mbufs)"
  by (induction mbufs) (auto simp: segments_simps has_data_def dest!: arg_cong [of _ _ length])

lemma pads_pos: "rs \<noteq> [] \<Longrightarrow> [] \<notin> set rs \<Longrightarrow> 0 < pads rs"
  by (cases rs) (auto simp: pad4_def div_greater_zero_iff Suc_le_eq)

lemma ndp_written:
  assumes "load a 4 m = HTOUSB32 SIG_NDP16" and "load (a + 4) 2 m = HTOUSB16 (of_nat (12 + 4 * length rs))"
    and "load (a + 6) 2 m = HTOUSB16 (of_nat nxt)" and "entries_at m a 0 (data_start a rs) rs"
    and "load (a + 8 + 4 * length rs) 4 m = [0, 0, 0, 0]" and "length rs < 2048" and "nxt < 2048"
  shows "ndp_at m a nxt rs"
proof -
  have "m (a + 8 + 4 * length rs + i) = 0" if "i < 4" for i
    using arg_cong [OF assms(5), of "\<lambda>l. l ! i"] that by (auto simp: less_Suc_eq numeral_eq_Suc)
  from this [of 0] this [of 1] this [of 2] this [of 3]
  have "USB16TOH (a + 8 + 4 * length rs) m = 0" "USB16TOH (a + 10 + 4 * length rs) m = 0"
    by (simp_all add: USB16TOH_def ac_simps)
  with assms(4) show ?thesis
    using assms(6,7) USB32TOH_written [OF assms(1)] USB16TOH_written [OF assms(2)] USB16TOH_written [OF assms(3)] by (simp add: ndp_at_def)
qed

text \<open>The two bytes of the link that a further packet changes.\<close>

definition at_link :: "nat option \<Rightarrow> nat \<Rightarrow> bool" where
  "at_link prev x \<longleftrightarrow> (\<exists>p. prev = Some p \<and> (x = p \<or> x = p + 1))"

lemma write_packet_ok:
  assumes "segments src mbufs = rs" and "rs \<noteq> []" and "\<forall>b\<in>set mbufs. 0 \<le> mb_Length b"
    and "4 dvd a" and "ndp_end a rs \<le> 2048" and "\<And>p. prev = Some p \<Longrightarrow> p + 2 \<le> a"
  obtains m' where "write_packet mbufs src (of_nat a) prev m = Inr (True, of_nat (ndp_end a rs), Some (a + 6), m')"
    and "ndp_at m' a 0 rs" and "\<forall>p. prev = Some p \<longrightarrow> USB16TOH p m' = of_nat a"
    and "\<forall>x. (x < a \<or> ndp_end a rs \<le> x) \<and> \<not> at_link prev x \<longrightarrow> m' x = m x"
proof -
  let ?d = "data_start a rs" and ?n = "length rs"
  let ?ma = "case prev of None \<Rightarrow> m | Some p \<Rightarrow> store p (HTOUSB16 (of_nat a)) m"
  let ?md = "store (a + 6) (HTOUSB16 0) (store (a + 4) (HTOUSB16 (of_nat (12 + 4 * ?n))) (store a (HTOUSB32 SIG_NDP16) ?ma))"
  have cnt: "mbuf_count mbufs = ?n" using assms(1) mbuf_count_segments by metis
  have "0 < pads rs" using assms(1-3) segments_nonempty pads_pos by metis
  then have le: "?d < 2048" using assms(5) by (simp add: ndp_end_def)
  then have an: "a < 2048" "?n < 2048" by (simp_all add: data_start_def)
  obtain m1 where w: "write_segments a ?n mbufs src 0 (of_nat ?d) ?md = (?n, of_nat (ndp_end a rs), m1)"
    and f: "\<And>x. x < a + 8 \<or> (a + 8 + 4 * ?n \<le> x \<and> x < ?d) \<or> ndp_end a rs \<le> x \<Longrightarrow> m1 x = ?md x"
    and e: "entries_at m1 a 0 ?d rs"
    using write_segments_ok [OF assms(1-3), of ?n 0 a ?d ?md] assms(5) by (auto simp: ndp_end_def data_start_def)
  let ?m' = "store (a + 8 + 4 * ?n) [0, 0, 0, 0] m1"
  have out: "?m' x = ?md x" if "x < a + 8 \<or> ndp_end a rs \<le> x" for x
    using that f [of x] by (auto simp: store_def ndp_end_def data_start_def)
  have w1: "of_nat a + of_nat (12 + 4 * ?n) = (of_nat ?d :: u32)" by (simp add: data_start_def)
  have w2: "8 + (of_nat ?n + 1) * 4 = (of_nat (12 + 4 * ?n) :: u32)" by simp
  have w3: "(of_nat ?d :: u32) < 2048" using le by (simp add: word_less_nat_alt unsigned_of_nat take_bit_nat_eq_self)
  have w4: "(of_nat ?d :: u32) AND 3 = 0" using assms(4) by (intro aligned_word) (simp add: data_start_def)
  have w5: "unat (of_nat a :: u32) = a" using an by (simp add: unsigned_of_nat take_bit_nat_eq_self)
  have "write_packet mbufs src (of_nat a) prev m = Inr (True, of_nat (ndp_end a rs), Some (a + 6), ?m')"
    unfolding write_packet_def Let_def cnt w5 w2 w1 if_P [OF w3] w using assms(2) w4 by simp
  moreover have "ndp_at ?m' a 0 rs"
  proof (rule ndp_written)
    have ld: "load x k ?m' = load x k ?md" if "x + k \<le> a + 8" for x k by (rule load_same, rule out) (use that in simp)
    show "load a 4 ?m' = HTOUSB32 SIG_NDP16" "load (a + 4) 2 ?m' = HTOUSB16 (of_nat (12 + 4 * ?n))" "load (a + 6) 2 ?m' = HTOUSB16 (of_nat 0)"
      by (rule trans [OF ld]; simp add: load_store_same load_store_other del: of_nat_add of_nat_mult)+
    show "entries_at ?m' a 0 ?d rs" by (rule entries_at_cong [OF e]) (auto simp: store_def data_start_def)
  qed (use an in \<open>simp_all add: load_store_same\<close>)
  moreover have "USB16TOH p ?m' = of_nat a" if "prev = Some p" for p
  proof (rule USB16TOH_written)
    have "load p 2 ?m' = load p 2 ?md" by (rule load_same, rule out) (use assms(6) [OF that] in simp)
    then show "load p 2 ?m' = HTOUSB16 (of_nat a)"
      using assms(6) [OF that] that by (simp add: load_store_same load_store_other)
  qed (use an in simp)
  moreover have "?m' x = m x" if "x < a \<or> ndp_end a rs \<le> x" "\<not> at_link prev x" for x
    using out [of x] that by (auto simp: store_other at_link_def ndp_end_def data_start_def store_def split: option.splits)
  ultimately show thesis by (intro that) auto
qed


section \<open>Reading a block\<close>

text \<open>A block that starts at the address \<open>b\<close> of a memory.\<close>

definition view :: "nat \<Rightarrow> ram \<Rightarrow> ram" where
  "view b m = (\<lambda>x. m (b + x))"

lemma view_reads:
  "USB16TOH a (view b m) = USB16TOH (b + a) m" "USB32TOH a (view b m) = USB32TOH (b + a) m" "load a n (view b m) = load (b + a) n m"
  by (simp_all add: view_def USB16TOH_def USB32TOH_def load_def add.assoc)

definition ntb_at :: "ram \<Rightarrow> u8 list list list \<Rightarrow> nat \<Rightarrow> bool" where
  "ntb_at m ps n \<longleftrightarrow> USB32TOH 0 m = SIG_NTH16 \<and> USB16TOH 4 m = 12 \<and> USB16TOH 8 m = of_nat n \<and> USB16TOH 10 m = 12 \<and>
     ndps_at m 12 ps \<and> n = ndps_end 12 ps"

lemma ntb_at_cong: "ntb_at m ps n \<Longrightarrow> (\<And>x. x < n \<Longrightarrow> m' x = m x) \<Longrightarrow> ntb_at m' ps n"
  using ndps_end_mono [of 12 ps] USB32TOH_cong [of m' 0 m]
  by (auto simp: ntb_at_def intro!: ndps_at_cong [of m] trans [OF USB16TOH_cong [of m' _ m]])

lemma small_word: "n < 2 ^ 32 \<Longrightarrow> unat (of_nat n :: u32) = n"
  by (simp add: unsigned_of_nat take_bit_nat_eq_self)

lemma index_word: "n < 2 ^ 16 \<Longrightarrow> ucast (of_nat n :: u16) = (of_nat n :: u32)"
  by (simp add: ucast_of_nat unsigned_of_nat take_bit_nat_eq_self)

lemma quarter_word:
  assumes "k < 2 ^ 16"
  shows "drop_bit 2 (of_nat (4 * k) :: u32) = of_nat k"
proof -
  have "unat (drop_bit 2 (of_nat (4 * k) :: u32)) = drop_bit 2 (4 * k)"
    using assms by (simp only: unat_drop_bit_eq) (simp add: small_word del: of_nat_mult)
  then show ?thesis using assms by (simp add: word_unat_eq_iff small_word drop_bit_eq_div del: of_nat_mult)
qed

lemma ndp_validates:
  assumes "ndp_at (view b m) a n segs" and "segs \<noteq> []" and "length segs < 2048"
  shows "validate_ndp (b + a) m"
proof -
  have l: "USB16TOH (b + a + 4) m = of_nat (12 + 4 * length segs)" "USB32TOH (b + a) m = SIG_NDP16"
    using assms(1) by (simp_all add: ndp_at_def view_reads add.assoc)
  have "drop_bit 2 (of_nat (12 + 4 * length segs) :: u32) = of_nat (3 + length segs)"
    using quarter_word [of "3 + length segs"] assms(3) by (simp add: algebra_simps)
  moreover have "\<not> of_nat (3 + length segs) < (2 :: u32)"
    using assms(3) by (simp add: word_less_nat_alt small_word del: of_nat_add)
  moreover have "of_nat (12 + 4 * length segs) AND (3 :: u32) = 0" by (rule aligned_word) simp
  ultimately show ?thesis unfolding validate_ndp_def Let_def l by simp
qed

text \<open>The entries of a table are read in order, and the end of the table is reported before the next one is reached.\<close>

lemma dissect_entry:
  assumes "ndp_at (view b m) a n segs" and "[] \<notin> set segs" and "i \<le> length segs" and "ndp_end a segs \<le> 2048"
  shows "\<exists>st. dissect b m \<lparr>ndp_ptr = b + a, dindex = of_nat i\<rparr> =
      Inr (if i < length segs then (Some (b + (data_start a segs + pads (take i segs)), of_nat (length (segs ! i))),
             \<lparr>ndp_ptr = b + a, dindex = of_nat (Suc i)\<rparr>) else (None, st))"
proof -
  have k: "length segs < 2048" using assms(4) by (simp add: ndp_end_def data_start_def)
  have len: "USB16TOH (b + a + 4) m = of_nat (12 + 4 * length segs)" using assms(1) by (simp add: ndp_at_def view_reads add.assoc)
  have c: "drop_bit 2 (of_nat (12 + 4 * length segs) - 8 :: u32) = of_nat (Suc (length segs))"
    using quarter_word [of "Suc (length segs)"] k by (simp add: algebra_simps)
  have i: "unat (of_nat i :: u16) = i" using assms(3) k by (simp add: unsigned_of_nat take_bit_nat_eq_self)
  have g: "ucast (of_nat i :: u16) < (of_nat (Suc (length segs)) :: u32)"
    using assms(3) k by (simp add: index_word word_less_nat_alt small_word del: of_nat_Suc)
  have "ucast (of_nat (Suc i) :: u16) = (of_nat (Suc (length segs)) :: u32) \<longleftrightarrow> i = length segs"
    using assms(3) k by (simp add: index_word word_unat_eq_iff small_word del: of_nat_Suc)
  then have e: "ucast (of_nat i + 1 :: u16) = (of_nat (Suc (length segs)) :: u32) \<longleftrightarrow> i = length segs" by (simp add: add.commute)
  have a8: "8 \<le> (of_nat (12 + 4 * length segs) :: u32)" using k by (simp add: word_le_nat_alt small_word del: of_nat_add of_nat_mult)
  show ?thesis
  proof (cases "i < length segs")
    case True
    then have "USB16TOH (b + a + 8 + 4 * i) m = of_nat (data_start a segs + pads (take i segs))"
      "USB16TOH (b + a + 8 + 4 * i + 2) m = of_nat (length (segs ! i))"
      using assms(1) by (simp_all add: ndp_at_def entries_at_def view_reads ac_simps)
    moreover have "of_nat (length (segs ! i)) \<noteq> (0 :: u32)"
      using True assms(2,4) pads_mono [OF True] pad4_ge [of "length (segs ! i)"]
      by (auto simp: word_unat_eq_iff small_word ndp_end_def dest: nth_mem)
    moreover have "unat (of_nat (data_start a segs + pads (take i segs)) :: u32) = data_start a segs + pads (take i segs)"
      using pads_mono [OF True] assms(4) by (intro small_word) (simp add: ndp_end_def)
    ultimately show ?thesis
      using True e g i a8 c by (simp add: dissect_def Let_def len del: of_nat_add of_nat_mult)
  next
    case False
    then have "i = length segs" using assms(3) by simp
    moreover have "USB16TOH (b + a + 8 + 4 * length segs + 2) m = 0" using assms(1) by (simp add: ndp_at_def view_reads ac_simps)
    ultimately show ?thesis
      using e g i a8 c by (simp add: dissect_def Let_def len del: of_nat_add of_nat_mult)
  qed
qed

lemma first_ndp:
  assumes "ntb_at m (p # ps) n" and "n \<le> 2048"
  shows "ndp_end 12 p \<le> n" and "length p < 2048" and "\<exists>nxt. ndp_at m 12 nxt p"
  using assms ndps_end_mono [of "ndp_end 12 p" ps] by (auto simp: ntb_at_def ndp_end_def data_start_def)

lemma dissect_start_ok:
  assumes "ntb_at (view b m) (p # ps) n" and "p \<noteq> []" and "n \<le> 2048" and "n \<le> unat len"
  shows "dissect_start b len m = Some \<lparr>ndp_ptr = b + 12, dindex = 0\<rparr>"
proof -
  have f: "USB32TOH b m = SIG_NTH16" "USB16TOH (b + 4) m = 12" "USB16TOH (b + 8) m = of_nat n" "USB16TOH (b + 10) m = 12"
    using assms(1) view_reads(2) [of 0 b m] by (simp_all add: ntb_at_def view_reads)
  obtain nxt where "ndp_at (view b m) 12 nxt p" using first_ndp(3) [OF assms(1,3)] by blast
  then have v: "validate_ndp (b + 12) m" using ndp_validates assms(2) first_ndp(2) [OF assms(1,3)] by blast
  have n: "24 \<le> n" using first_ndp(1) [OF assms(1,3)] by (simp add: ndp_end_def data_start_def)
  have "\<not> of_nat n < (12 :: u32)" "\<not> len < of_nat n" "\<not> of_nat n < (12 + 8 :: u32)"
    using n assms(3,4) by (simp_all add: word_less_nat_alt small_word)
  then show ?thesis using v by (simp add: dissect_start_def f Let_def)
qed

end
