(* ===== verification/NcmTransfer.thy ===== *)
theory NcmTransfer
  imports UsbNcm NcmFormat
begin

text \<open>
  The transfer of frames through the network function of a USB device: the blocks that \<^verbatim>\<open>_assemble\<close> builds from
  the queued packets, and what \<^verbatim>\<open>_rx_dispatch\<close> delivers when it receives such a block.
\<close>

unbundle bit_operations_syntax

section \<open>Assembling a block\<close>

definition packet :: "'d ncm \<Rightarrow> nat \<Rightarrow> u8 list list" where
  "packet s buf = segments (ram (ncm_net s)) (packet_mbufs s buf)"

text \<open>
  Packets that wait for transmission: their buffers are not in the pool, and their adapters leave it to the pool to take them
  back.
\<close>

definition returns_to_pool :: "'d drivers \<Rightarrow> 'd net \<Rightarrow> nat \<Rightarrow> bool" where
  "returns_to_pool drv n buf \<longleftrightarrow>
     (\<forall>ad. BAdapter (buffers n buf) = Some ad \<longrightarrow> FreeBuffer (drv (Driver (adapters n ad))) = None)"

definition queued :: "'d drivers \<Rightarrow> nat list \<Rightarrow> 'd ncm \<Rightarrow> bool" where
  "queued drv bufs s \<longleftrightarrow> TxFifo s = \<lparr>FCount = of_nat (length bufs), Items = bufs, FEvent = None\<rparr> \<and> length bufs < 2 ^ 32 \<and>
     distinct bufs \<and> set bufs \<inter> set (buffer_pool (ncm_net s)) = {} \<and>
     (\<forall>b\<in>set bufs. (\<forall>mb\<in>set (packet_mbufs s b). 0 \<le> mb_Length mb) \<and> packet s b \<noteq> [] \<and> returns_to_pool drv (ncm_net s) b)"

text \<open>The state after the packets \<open>bufs\<close> are taken from the queue and written to the memory.\<close>

definition sent :: "nat list \<Rightarrow> nat list \<Rightarrow> ram \<Rightarrow> 'd ncm \<Rightarrow> 'd ncm" where
  "sent bufs rest m s = s\<lparr>TxFifo := \<lparr>FCount = of_nat (length rest), Items = rest, FEvent = None\<rparr>, ncm_data := m,
     ncm_net := (ncm_net s)\<lparr>buffer_pool := rev bufs @ buffer_pool (ncm_net s)\<rparr>\<rparr>"

lemma free_buffer_pool:
  assumes "returns_to_pool drv n buf" and "buf \<notin> set (buffer_pool n)"
  shows "net_adapter_free_buffer drv buf n = Inr (n\<lparr>buffer_pool := buf # buffer_pool n\<rparr>)"
  using assms by (auto simp: net_adapter_free_buffer_def returns_to_pool_def pool_free_def ASSERT_def split: option.splits)

lemma dequeue_first:
  assumes "length (b # bs) < 2 ^ 32"
  shows "exos_fifo_dequeue \<lparr>FCount = of_nat (length (b # bs)), Items = b # bs, FEvent = None\<rparr> k =
    Inr (Some b, \<lparr>FCount = of_nat (length bs), Items = bs, FEvent = None\<rparr>, k)"
proof -
  have "of_nat (Suc (length bs)) \<noteq> (0 :: u32)" using assms by (simp add: word_unat_eq_iff small_word del: of_nat_Suc)
  then show ?thesis by (simp add: exos_fifo_dequeue_def Let_def when_event_def)
qed

lemma assemble_packet_ok:
  assumes "queued drv (b # bs) s" and "a \<noteq> 0" and "4 dvd a" and "ndp_end a (packet s b) \<le> 2048" and "\<And>p. prev = Some p \<Longrightarrow> p + 2 \<le> a"
  obtains m' where "\<And>fuel. assemble_loop (Suc fuel) drv (of_nat a) prev s =
      assemble_loop fuel drv (of_nat (ndp_end a (packet s b))) (Some (a + 6)) (sent [b] bs m' s)"
    and "ndp_at m' a 0 (packet s b)" and "\<forall>p. prev = Some p \<longrightarrow> USB16TOH p m' = of_nat a"
    and "\<forall>x. (x < a \<or> ndp_end a (packet s b) \<le> x) \<and> \<not> at_link prev x \<longrightarrow> m' x = ncm_data s x"
proof -
  have q: "\<forall>mb\<in>set (packet_mbufs s b). 0 \<le> mb_Length mb" "packet s b \<noteq> []" "returns_to_pool drv (ncm_net s) b"
    "b \<notin> set (buffer_pool (ncm_net s))" "length (b # bs) < 2 ^ 32"
    using assms(1) by (auto simp: queued_def)
  obtain m' where w: "write_packet (packet_mbufs s b) (ram (ncm_net s)) (of_nat a) prev (ncm_data s) =
      Inr (True, of_nat (ndp_end a (packet s b)), Some (a + 6), m')"
    and "ndp_at m' a 0 (packet s b)" "\<forall>p. prev = Some p \<longrightarrow> USB16TOH p m' = of_nat a"
    "\<forall>x. (x < a \<or> ndp_end a (packet s b) \<le> x) \<and> \<not> at_link prev x \<longrightarrow> m' x = ncm_data s x"
    using write_packet_ok [OF packet_def [symmetric] q(2) q(1) assms(3-5), where m = "ncm_data s"] by blast
  moreover have "(of_nat a :: u32) \<noteq> 0" using assms(2,4) by (simp add: word_unat_eq_iff small_word ndp_end_def data_start_def)
  then have "assemble_loop (Suc fuel) drv (of_nat a) prev s =
      assemble_loop fuel drv (of_nat (ndp_end a (packet s b))) (Some (a + 6)) (sent [b] bs m' s)" for fuel
    using w assms(1) free_buffer_pool [OF q(3,4)] dequeue_first [OF q(5)]
    by (simp add: queued_def upd_kernel_def assemble_packet_def packet_mbufs_def sent_def del: of_nat_Suc length_Cons)
  ultimately show thesis by (blast intro: that)
qed

lemma queued_sent: "queued drv (b # bs) s \<Longrightarrow> queued drv bs (sent [b] bs m s)"
  by (auto simp: queued_def sent_def packet_def packet_mbufs_def returns_to_pool_def)

lemma packet_sent [simp]: "packet (sent bs rest m s) = packet s"
  by (rule ext) (simp add: sent_def packet_def packet_mbufs_def)

lemma sent_sent: "sent cs rest' m' (sent bs rest m s) = sent (bs @ cs) rest' m' s" "ncm_data (sent bs rest m s) = m"
  by (simp_all add: sent_def)

lemma assemble_loop_ok:
  assumes "queued drv bufs s" and "length bufs < fuel" and "a \<noteq> 0" and "4 dvd a" and "ndps_end a (map (packet s) bufs) \<le> 2048"
    and "\<And>p. prev = Some p \<Longrightarrow> p + 2 \<le> a"
  shows "\<exists>m'. assemble_loop fuel drv (of_nat a) prev s = Inr (of_nat (ndps_end a (map (packet s) bufs)), sent bufs [] m' s) \<and>
    ndps_at m' a (map (packet s) bufs) \<and> (bufs \<noteq> [] \<longrightarrow> (\<forall>p. prev = Some p \<longrightarrow> USB16TOH p m' = of_nat a)) \<and>
    (\<forall>x. (x < a \<or> ndps_end a (map (packet s) bufs) \<le> x) \<longrightarrow> \<not> at_link prev x \<longrightarrow> m' x = ncm_data s x) \<and> (bufs = [] \<longrightarrow> m' = ncm_data s)"
  using assms
proof (induction bufs arbitrary: fuel a prev s)
  case Nil
  then obtain f where "fuel = Suc f" by (cases fuel) auto
  with Nil show ?case
    by (intro exI [of _ "ncm_data s"]) (simp add: queued_def exos_fifo_dequeue_def when_event_def upd_kernel_def sent_def)
next
  case (Cons b bs)
  let ?p = "packet s b" and ?ps = "map (packet s) bs"
  let ?a1 = "ndp_end a ?p"
  obtain f where f: "fuel = Suc f" "length bs < f" using Cons.prems(2) by (cases fuel) auto
  have le: "?a1 \<le> 2048" using Cons.prems(5) ndps_end_mono [of ?a1 ?ps] by simp
  obtain m1 where w: "\<And>fuel. assemble_loop (Suc fuel) drv (of_nat a) prev s = assemble_loop fuel drv (of_nat ?a1) (Some (a + 6)) (sent [b] bs m1 s)"
    and n1: "ndp_at m1 a 0 ?p" and l1: "\<forall>p. prev = Some p \<longrightarrow> USB16TOH p m1 = of_nat a"
    and f1: "\<forall>x. (x < a \<or> ?a1 \<le> x) \<and> \<not> at_link prev x \<longrightarrow> m1 x = ncm_data s x"
    using assemble_packet_ok [OF Cons.prems(1,3,4) le Cons.prems(6)] by blast
  have a1: "a + 8 \<le> ?a1" "?a1 \<noteq> 0" "4 dvd ?a1" using ndp_end_dvd [OF Cons.prems(4)] by (simp_all add: ndp_end_def data_start_def)
  obtain m' where IH: "assemble_loop f drv (of_nat ?a1) (Some (a + 6)) (sent [b] bs m1 s) = Inr (of_nat (ndps_end ?a1 ?ps), sent bs [] m' (sent [b] bs m1 s))"
    "ndps_at m' ?a1 ?ps" "bs \<noteq> [] \<Longrightarrow> USB16TOH (a + 6) m' = of_nat ?a1" "bs = [] \<Longrightarrow> m' = m1"
    and f2: "\<And>x. x < ?a1 \<or> ndps_end ?a1 ?ps \<le> x \<Longrightarrow> \<not> at_link (Some (a + 6)) x \<Longrightarrow> m' x = m1 x"
    using Cons.IH [OF queued_sent [OF Cons.prems(1)] f(2) a1(2,3), of m1 "Some (a + 6)"] Cons.prems(5) a1(1) by (auto simp: sent_sent)
  have "ndp_at m' a (if ?ps = [] then 0 else ?a1) ?p"
    by (rule ndp_at_cong [OF n1]) (use IH(3,4) n1 f2 in \<open>auto simp: at_link_def ndp_at_def\<close>)
  moreover have "USB16TOH p m' = of_nat a" if "prev = Some p" for p
    using l1 that Cons.prems(6) [OF that] a1(1) by (subst USB16TOH_cong [of m' p m1]) (auto intro!: f2 simp: at_link_def)
  moreover have "m' x = ncm_data s x" if "x < a \<or> ndps_end ?a1 ?ps \<le> x" "\<not> at_link prev x" for x
    using that f1 f2 [of x] a1(1) ndps_end_mono [of ?a1 ?ps] by (auto simp: at_link_def)
  ultimately show ?case
    using w [of f] IH(1,2) by (intro exI [of _ m']) (simp add: f(1) sent_sent)
qed

section \<open>Complete blocks\<close>

text \<open>The state in which the header is written.\<close>

definition started_block :: "'d ncm \<Rightarrow> 'd ncm" where
  "started_block s = s\<lparr>ncm_data := write_block_header (TxSequence s) (ncm_data s), TxSequence := TxSequence s + 1\<rparr>"

lemma assemble_packet_first: "assemble_packet drv b 0 None s = assemble_packet drv b 12 None (started_block s)"
  by (simp add: assemble_packet_def started_block_def)

lemma assemble_first:
  assumes "queued drv bufs s" and "bufs \<noteq> []"
  shows "assemble_loop (Suc f) drv 0 None s = assemble_loop (Suc f) drv 12 None (started_block s)"
proof -
  obtain b bs where b: "bufs = b # bs" using assms(2) by (cases bufs) auto
  have "exos_fifo_dequeue (TxFifo s) k = Inr (Some b, \<lparr>FCount = of_nat (length bs), Items = bs, FEvent = None\<rparr>, k)" for k
    using assms(1) dequeue_first [of b bs] unfolding b queued_def by presburger
  moreover have "TxFifo (started_block s) = TxFifo s" "net_kernel (ncm_net (started_block s)) = net_kernel (ncm_net s)"
    "upd_kernel g (started_block s)\<lparr>TxFifo := f\<rparr> = started_block (upd_kernel g s\<lparr>TxFifo := f\<rparr>)" for g f
    by (simp_all add: started_block_def upd_kernel_def)
  ultimately show ?thesis by (simp add: assemble_packet_first)
qed

lemma block_header:
  "USB32TOH 0 (write_block_header q m) = SIG_NTH16" "USB16TOH 4 (write_block_header q m) = of_nat 12"
  "USB16TOH 6 (write_block_header q m) = of_nat (unat q)" "USB16TOH 10 (write_block_header q m) = of_nat 12"
proof -
  let ?m = "write_block_header q m"
  have l: "load 0 4 ?m = HTOUSB32 SIG_NTH16" "load 4 2 ?m = HTOUSB16 (of_nat 12)" "load 6 2 ?m = HTOUSB16 (of_nat (unat q))"
    "load 10 2 ?m = HTOUSB16 (of_nat 12)"
    by (simp_all add: write_block_header_def Let_def load_store_same load_store_other)
  show "USB32TOH 0 ?m = SIG_NTH16" using l(1) by (rule USB32TOH_written)
  show "USB16TOH 4 ?m = of_nat 12" "USB16TOH 10 ?m = of_nat 12" by (rule USB16TOH_written [OF l(2)] USB16TOH_written [OF l(4)]; simp)+
  show "USB16TOH 6 ?m = of_nat (unat q)" using l(3) unsigned_less [of q, where ?'a = nat] by (intro USB16TOH_written) simp_all
qed

section \<open>Receiving a block\<close>

text \<open>A frame handed to the adapter, in a buffer of the pool: what one round of the loop does with a datagram.\<close>

definition hand_over :: "'d drivers \<Rightarrow> nat \<Rightarrow> u8 list \<Rightarrow> 'd net \<Rightarrow> 'd net res" where
  "hand_over drv ad frame n =
     rbind (net_adapter_alloc_buffer ad n) (\<lambda>(buf, n1).
       case buf of
         None \<Rightarrow> Inr n1
       | Some b \<Rightarrow>
           let root = Root (buffers n1 b) in
           rbind (if of_nat (length frame) \<le> (of_int (mb_Length root) :: u32)
                  then net_adapter_send_output drv ad b
                         (n1\<lparr>ram := store (mb_ptr root) frame (ram n1),
                             buffers := (buffers n1)(b := (buffers n1 b)\<lparr>Root := root\<lparr>mb_Length := int (length frame)\<rparr>\<rparr>)\<rparr>)
                  else Inr (False, n1))
             (\<lambda>(ok, n2). if ok then Inr n2 else net_adapter_free_buffer drv b n2))"

fun hand_all :: "'d drivers \<Rightarrow> nat \<Rightarrow> u8 list list \<Rightarrow> 'd net \<Rightarrow> 'd net res" where
  "hand_all drv ad [] n = Inr n"
| "hand_all drv ad (f # fs) n = rbind (hand_over drv ad f n) (hand_all drv ad fs)"

lemma deliver_hand_over:
  assumes "load data (length f) (ncm_data s) = f" and "length f \<le> 2048"
  shows "deliver drv data (of_nat (length f)) s = rbind (hand_over drv (BoundAdapter s) f (ncm_net s)) (\<lambda>n. Inr (s\<lparr>ncm_net := n\<rparr>))"
proof -
  have u: "unat (of_nat (length f) :: u32) = length f" using assms(2) by (simp add: small_word)
  then have "sint (of_nat (length f) :: u32) = int (length f)" using assms(2) by (subst sint_small) simp_all
  then show ?thesis
    unfolding deliver_def hand_over_def rbind_assoc using assms(1) u
    by (auto intro!: rbind_cong simp: Let_def rbind_assoc split: option.splits prod.splits)
qed

lemma rx_loop_ok:
  assumes "ndp_at (view 2048 (ncm_data s)) a nxt segs" and "[] \<notin> set segs" and "ndp_end a segs \<le> 2048"
    and "i \<le> length segs" and "length segs - i < fuel"
  shows "rx_loop fuel drv \<lparr>ndp_ptr = 2048 + a, dindex = of_nat i\<rparr> s =
    rbind (hand_all drv (BoundAdapter s) (drop i segs) (ncm_net s)) (\<lambda>n. Inr (s\<lparr>ncm_net := n\<rparr>))"
  using assms
proof (induction fuel arbitrary: i s)
  case (Suc fuel)
  obtain st where d: "dissect 2048 (ncm_data s) \<lparr>ndp_ptr = 2048 + a, dindex = of_nat i\<rparr> =
      Inr (if i < length segs then (Some (2048 + (data_start a segs + pads (take i segs)), of_nat (length (segs ! i))),
             \<lparr>ndp_ptr = 2048 + a, dindex = of_nat (Suc i)\<rparr>) else (None, st))"
    using dissect_entry [OF Suc.prems(1,2,4,3)] by blast
  show ?case
  proof (cases "i < length segs")
    case True
    let ?f = "segs ! i"
    have ld: "load (2048 + (data_start a segs + pads (take i segs))) (length ?f) (ncm_data s) = ?f" "length ?f \<le> 2048" "?f \<noteq> []"
      using True Suc.prems(1-3) pads_mono [OF True] pad4_ge [of "length ?f"]
      by (auto simp: ndp_at_def entries_at_def view_reads ndp_end_def dest: nth_mem)
    then have nz: "of_nat (length ?f) \<noteq> (0 :: u32)" by (auto simp: word_unat_eq_iff small_word)
    have rest: "rx_loop fuel drv \<lparr>ndp_ptr = 2048 + a, dindex = of_nat (Suc i)\<rparr> (s\<lparr>ncm_net := n\<rparr>) =
        rbind (hand_all drv (BoundAdapter s) (drop (Suc i) segs) n) (\<lambda>n. Inr (s\<lparr>ncm_net := n\<rparr>))" for n
      using Suc.IH [of "s\<lparr>ncm_net := n\<rparr>" "Suc i"] Suc.prems True by simp
    have "drop i segs = ?f # drop (Suc i) segs" using True by (rule Cons_nth_drop_Suc [symmetric])
    then show ?thesis using d True nz deliver_hand_over [OF ld(1,2)] by (simp add: rbind_assoc rest del: of_nat_Suc)
  qed (use d Suc.prems(4) in simp)
qed simp

lemma ncm_assembled:
  assumes "queued drv bufs s" and "bufs \<noteq> []" and "n = ndps_end 12 (map (packet s) bufs)" and "n \<le> 2048"
  shows "\<exists>s'. assemble drv s = Inr (of_nat n, s') \<and> ntb_at (ncm_data s') (map (packet s) bufs) n \<and>
    USB16TOH 6 (ncm_data s') = ucast (TxSequence s) \<and> TxSequence s' = TxSequence s + 1 \<and>
    Items (TxFifo s') = [] \<and> buffer_pool (ncm_net s') = rev bufs @ buffer_pool (ncm_net s) \<and>
    (\<forall>x\<ge>n. ncm_data s' x = ncm_data s x)"
proof -
  let ?s = "started_block s" and ?ps = "map (packet s) bufs"
  have p: "packet ?s = packet s" by (rule ext) (simp add: started_block_def packet_def packet_mbufs_def)
  have q: "queued drv bufs ?s"
    using assms(1) by (auto simp: queued_def p returns_to_pool_def) (auto simp: started_block_def packet_mbufs_def)
  obtain m' where l: "assemble_loop (Suc (length bufs)) drv 12 None ?s = Inr (of_nat n, sent bufs [] m' ?s)" "ndps_at m' 12 ?ps"
    "\<And>x. x < 12 \<or> n \<le> x \<Longrightarrow> m' x = ncm_data ?s x"
    using assemble_loop_ok [OF q, of "Suc (length bufs)" 12 None] assms(3,4) by (auto simp: p at_link_def)
  let ?m = "store 8 (HTOUSB16 (of_nat n)) m'" and ?h = "write_block_header (TxSequence s) (ncm_data s)"
  have n: "12 \<le> n" using assms(3) ndps_end_mono by simp
  have h: "?m x = ?h x" if "x < 8 \<or> x = 10 \<or> x = 11 \<or> n \<le> x" for x
    using that n l(3) [of x] by (auto simp: store_def started_block_def)
  have "ntb_at ?m ?ps n"
  proof -
    have "USB32TOH 0 ?m = USB32TOH 0 ?h" "USB16TOH 4 ?m = USB16TOH 4 ?h" "USB16TOH 10 ?m = USB16TOH 10 ?h"
      by (rule USB32TOH_cong USB16TOH_cong; use h in simp)+
    moreover have "USB16TOH 8 ?m = of_nat n" using assms(4) by (intro USB16TOH_written) (simp_all add: load_store_same)
    moreover have "ndps_at ?m 12 ?ps" by (rule ndps_at_cong [OF l(2)]) (simp add: store_def)
    ultimately show ?thesis by (simp add: ntb_at_def block_header assms(3))
  qed
  moreover have "USB16TOH 6 ?m = ucast (TxSequence s)"
  proof -
    have "USB16TOH 6 ?m = USB16TOH 6 ?h" by (rule USB16TOH_cong; use h in simp)
    then show ?thesis unfolding block_header(3) by (simp only: ucast_of_nat)
  qed
  moreover have "?m x = ncm_data s x" if "n \<le> x" for x
    using h [of x] that n by (simp add: write_block_header_def store_def)
  moreover have "assemble drv s = Inr (of_nat n, (sent bufs [] m' ?s)\<lparr>ncm_data := ?m\<rparr>)"
  proof -
    have "Items (TxFifo s) = bufs" using assms(1) by (simp add: queued_def)
    then show ?thesis using assemble_first [OF assms(1,2)] l(1) by (simp add: assemble_def sent_def del: assemble_loop.simps)
  qed
  ultimately show ?thesis by (auto simp: sent_def started_block_def)
qed


section \<open>Blocks of a hostile host\<close>

text \<open>
  The position and length of a datagram are not compared with the length of the block: the 28 bytes of \<open>stray_block\<close> make the
  device read 40000 bytes behind its buffer.
\<close>

definition stray_block :: "u8 list" where
  "stray_block = HTOUSB32 SIG_NTH16 @ HTOUSB16 12 @ HTOUSB16 0 @ HTOUSB16 28 @ HTOUSB16 12 @
     HTOUSB32 SIG_NDP16 @ HTOUSB16 16 @ HTOUSB16 0 @ HTOUSB16 3000 @ HTOUSB16 40000 @ [0, 0, 0, 0]"

lemma dissect_unchecked:
  "dissect_start 2048 28 (store 2048 stray_block (\<lambda>_. 0)) = Some \<lparr>ndp_ptr = 2060, dindex = 0\<rparr>"
  "dissect 2048 (store 2048 stray_block (\<lambda>_. 0)) \<lparr>ndp_ptr = 2060, dindex = 0\<rparr> = Inr (Some (5048, 40000), \<lparr>ndp_ptr = 2060, dindex = 1\<rparr>)"
  by code_simp+

text \<open>A datagram pointer that links to itself and has no end makes the loop of \<^verbatim>\<open>_rx_dispatch\<close> run for ever.\<close>

definition ring_block :: "u8 list" where
  "ring_block = HTOUSB32 SIG_NTH16 @ HTOUSB16 12 @ HTOUSB16 0 @ HTOUSB16 24 @ HTOUSB16 12 @
     HTOUSB32 SIG_NDP16 @ HTOUSB16 12 @ HTOUSB16 12 @ HTOUSB16 0 @ HTOUSB16 4"

lemma dissect_ring:
  "dissect_start 2048 24 (store 2048 ring_block (\<lambda>_. 0)) = Some \<lparr>ndp_ptr = 2060, dindex = 0\<rparr>"
  "dissect 2048 (store 2048 ring_block (\<lambda>_. 0)) \<lparr>ndp_ptr = 2060, dindex = 0\<rparr> = Inr (Some (2048, 4), \<lparr>ndp_ptr = 2060, dindex = 0\<rparr>)"
  by code_simp+

section \<open>Properties\<close>

text \<open>C28: The packets that wait for transmission and fit in one block are all written to it: the block has a header with its length
  and the next sequence number, and a chain of datagram pointers that describe the bytes of every buffer of every packet, in
  order.  The queue is empty then, the buffers are back in the pool, and nothing behind the block is changed.
\<close>

theorem ncm_assembles_block:
  assumes "queued drv bufs s" and "bufs \<noteq> []" and "n = ndps_end 12 (map (packet s) bufs)" and "n \<le> 2048"
  shows "\<exists>s'. assemble drv s = Inr (of_nat n, s') \<and> ntb_at (ncm_data s') (map (packet s) bufs) n \<and>
    USB16TOH 6 (ncm_data s') = ucast (TxSequence s) \<and> TxSequence s' = TxSequence s + 1 \<and>
    Items (TxFifo s') = [] \<and> buffer_pool (ncm_net s') = rev bufs @ buffer_pool (ncm_net s) \<and>
    (\<forall>x\<ge>n. ncm_data s' x = ncm_data s x)"
  using ncm_assembled [OF assms] .

text \<open>C29: When a device receives a block as \<^verbatim>\<open>_assemble\<close> builds it, it hands the datagrams of the first packet
  to its adapter, in order, and receives the next block.  The entry that ends the table of the first packet also ends the loop,
  so that the packets behind it are lost.
\<close>

theorem ncm_delivers_first:
  assumes "queued drv (b # bs) s" and "ndps_end 12 (map (packet s) (b # bs)) \<le> 2048" and "assemble drv s = Inr (n, s')"
    and "RxStatus r = USB_IOSTA_DONE" and "RxDone r = ucast n" and "load RxData (unat n) (ncm_data r) = load TxData (unat n) (ncm_data s')"
    and "length (packet s b) < fuel"
  shows "rx_dispatch fuel drv' r = rbind (hand_all drv' (BoundAdapter r) (packet s b) (ncm_net r)) (\<lambda>n'.
    Inr (Some TIMEOUT_NEVER, r\<lparr>ncm_net := n', ncm_usb := hal_call (hal_usbd_prepare_out_ep NCM_BULK_EP 2048) (ncm_usb r)\<rparr>))"
proof -
  let ?p = "packet s b" and ?ps = "map (packet s) (b # bs)"
  let ?n = "ndps_end 12 ?ps"
  have n: "n = of_nat ?n" "ntb_at (ncm_data s') ?ps ?n"
    using ncm_assembled [OF assms(1) _ refl assms(2)] assms(3) by auto
  then have un: "unat n = ?n" using assms(2) by (simp add: small_word)
  have "ncm_data r (2048 + x) = ncm_data s' x" if "x < ?n" for x
    using arg_cong [OF assms(6), of "\<lambda>l. l ! x"] that un by simp
  then have ntb: "ntb_at (view 2048 (ncm_data r)) (?p # map (packet s) bs) ?n"
    using ntb_at_cong [OF n(2), of "view 2048 (ncm_data r)"] by (simp add: view_def)
  have q: "?p \<noteq> []" "[] \<notin> set ?p"
    using assms(1) segments_nonempty [of "packet_mbufs s b"] by (auto simp: queued_def packet_def)
  have rxd: "?n \<le> unat (ucast (RxDone r) :: u32)"
    using assms(2,5) n(1) by (simp add: unsigned_ucast_eq unsigned_of_nat take_bit_nat_eq_self)
  obtain nxt where ndp: "ndp_at (view 2048 (ncm_data r)) 12 nxt ?p" using first_ndp(3) [OF ntb] assms(2) by auto
  have "ndp_end 12 ?p \<le> 2048" using first_ndp(1) [OF ntb] assms(2) by simp
  from rx_loop_ok [OF ndp q(2) this, of 0 fuel drv'] assms(7)
  have "rx_loop fuel drv' \<lparr>ndp_ptr = 2048 + 12, dindex = 0\<rparr> r = rbind (hand_all drv' (BoundAdapter r) ?p (ncm_net r)) (\<lambda>n. Inr (r\<lparr>ncm_net := n\<rparr>))"
    by simp
  then show ?thesis
    using dissect_start_ok [OF ntb q(1) assms(2) rxd] assms(4)
    by (simp add: rx_dispatch_def rbind_assoc usb_set_rx_buffer_def)
qed

text \<open>A packet for which the block has no room left is dropped, and when the block is filled to within eight bytes of its end, the
  four bytes that end its table are written behind the block, into the buffer of the other direction.
\<close>

theorem ncm_block_overruns:
  assumes "4 dvd a" and "2040 \<le> a" and "a \<le> 2048" and "0 < mbuf_count mbufs" and "mbuf_count mbufs < 2 ^ 16"
  shows "write_packet mbufs src (of_nat a) prev m = Inr (False, of_nat a, prev, store (a + 8) [0, 0, 0, 0] m)"
proof -
  let ?d = "a + (12 + 4 * mbuf_count mbufs)"
  have w2: "8 + (of_nat (mbuf_count mbufs) + 1) * 4 = (of_nat (12 + 4 * mbuf_count mbufs) :: u32)" by simp
  have w1: "of_nat a + of_nat (12 + 4 * mbuf_count mbufs) = (of_nat ?d :: u32)" by simp
  have w3: "\<not> (of_nat ?d :: u32) < 2048" using assms by (simp add: word_less_nat_alt small_word del: of_nat_add of_nat_mult)
  have w4: "(of_nat ?d :: u32) AND 3 = 0" using assms(1) by (intro aligned_word) simp
  have w5: "unat (of_nat a :: u32) = a" using assms(3) by (simp add: small_word)
  show ?thesis unfolding write_packet_def Let_def w5 w2 w1 if_not_P [OF w3] using assms(4) w4 by simp
qed

theorem ncm_block_overruns_witness:
  "\<exists>m. write_packet [\<lparr>mb_id = 0, mb_Buffer = 100, mb_Offset = 0, mb_Length = 60\<rparr>] (\<lambda>_. 0) 2044 None (\<lambda>_. 7) = Inr (False, 2044, None, m) \<and>
     m (RxData + 4) = 0"
  using ncm_block_overruns [of 2044 "[\<lparr>mb_id = 0, mb_Buffer = 100, mb_Offset = 0, mb_Length = 60\<rparr>]" "\<lambda>_. 0" None "\<lambda>_. 7"]
  by (simp add: store_def)

section \<open>A concrete transfer\<close>

text \<open>Two packets, of three and of five bytes.\<close>

definition sample_ncm :: "unit ncm" where
  "sample_ncm = \<lparr>
     ncm_net = sample_net\<lparr>buffers := (\<lambda>b. \<lparr>BAdapter = Some 0, Root = \<lparr>mb_id = b, mb_Buffer = 1000 + b, mb_Offset = 0, mb_Length = (if b = 0 then 3 else 5)\<rparr>\<rparr>)\<rparr>,
     ncm_usb = \<lparr>cfg = empty_registry, configuration = None, address = 0, hal_addr = 0, configuration_value = 0, alternate_setting = 0,
       device_status = 1, error_flag = False, control_data = (\<lambda>_. 0), rx_max_packet = (\<lambda>_. 0), tx_max_packet = (\<lambda>_. 0),
       instances = [], hal = []\<rparr>,
     MoreMbufs = (\<lambda>_. []), NContext = 1, NInterface = Iface 0, NReady = True, NIdle = True, NConnected = True, NEnabled = True,
     NSpeedMbps = 100, BoundAdapter = 0, NotifyConnected = False, NotifySpeedMbps = 0, NotifyStatus = USB_IOSTA_UNKNOWN,
     TxStatus = USB_IOSTA_UNKNOWN, RxStatus = USB_IOSTA_UNKNOWN, RxDone = 0, NotifyEvent = Ev 1, TxEvent = Ev 2, RxEvent = Ev 3,
     TxFifo = \<lparr>FCount = 2, Items = [0, 14], FEvent = None\<rparr>, TxSequence = 9, ncm_data = (\<lambda>_. 0)\<rparr>"

lemma sample_packets: "map (packet sample_ncm) [0, 14] = [[[2, 0, 0]], [[0x45, 0, 0, 28, 0]]]"
  by (simp add: packet_def packet_mbufs_def sample_ncm_def sample_net_def sample_request_def segments_def has_data_def mb_ptr_def load_def store_def upt_rec)

lemma sample_queued: "queued sample_drivers [0, 14] sample_ncm" "ndps_end 12 (map (packet sample_ncm) [0, 14]) = 56"
proof -
  show "ndps_end 12 (map (packet sample_ncm) [0, 14]) = 56"
    unfolding sample_packets by (simp add: ndp_end_def data_start_def pad4_def)
  have p: "packet sample_ncm 0 \<noteq> []" "packet sample_ncm 14 \<noteq> []" using sample_packets by auto
  show "queued sample_drivers [0, 14] sample_ncm"
    using p by (simp add: queued_def returns_to_pool_def packet_mbufs_def) (simp add: sample_ncm_def sample_net_def sample_drivers_def)
qed

theorem ncm_assembles_block_witness:
  "\<exists>s'. assemble sample_drivers sample_ncm = Inr (56, s') \<and> ntb_at (ncm_data s') [[[2, 0, 0]], [[0x45, 0, 0, 28, 0]]] 56 \<and>
     buffer_pool (ncm_net s') = [14, 0, 5000]"
  using ncm_assembles_block [OF sample_queued(1) _ sample_queued(2) [symmetric]]
  unfolding sample_packets by (auto simp: sample_ncm_def sample_net_def)

definition receiver :: "ram \<Rightarrow> unit ncm" where
  "receiver m = sample_ncm\<lparr>RxStatus := USB_IOSTA_DONE, RxDone := 56, ncm_data := (\<lambda>x. m (x - 2048))\<rparr>"

theorem ncm_delivers_first_witness:
  "\<exists>s'. assemble sample_drivers sample_ncm = Inr (56, s') \<and>
     rx_dispatch 2 sample_drivers (receiver (ncm_data s')) =
       rbind (hand_all sample_drivers 0 [[2, 0, 0]] (ncm_net sample_ncm)) (\<lambda>n'.
         Inr (Some TIMEOUT_NEVER, receiver (ncm_data s')\<lparr>ncm_net := n', ncm_usb := hal_call (hal_usbd_prepare_out_ep 2 2048) (ncm_usb sample_ncm)\<rparr>))"
proof -
  obtain s' where s': "assemble sample_drivers sample_ncm = Inr (56, s')"
    using ncm_assembled [OF sample_queued(1) _ sample_queued(2) [symmetric]] by auto
  have "packet sample_ncm 0 = [[2, 0, 0]]" using sample_packets by simp
  then show ?thesis
    using ncm_delivers_first [OF sample_queued(1) _ s', of "receiver (ncm_data s')" 2 sample_drivers] s' sample_queued(2)
    by (intro exI [of _ s']) (simp add: receiver_def load_def, simp add: sample_ncm_def)
qed

end
