(* ===== verification/Iap2Packet.thy ===== *)
theory Iap2Packet
  imports Ram
begin

text \<open>
  The packets of the accessory protocol (\<^verbatim>\<open>exos/support/apple/iap2/iap2.c\<close>, \<^verbatim>\<open>iap2.h\<close> and
  \<^verbatim>\<open>iap2_helper.c\<close>): the header with its checksum, the payload with its checksum, and the messages of the control
  session with their parameters, all on the bytes of a buffer.  What is written is read back, and a packet with a damaged
  byte is refused.
\<close>

unbundle bit_operations_syntax

section \<open>Packets\<close>

text \<open>\<^verbatim>\<open>iap2_short_t\<close> has the high byte first.\<close>

definition IAP2SHTOH :: "nat \<Rightarrow> ram \<Rightarrow> u16" where
  "IAP2SHTOH a m = push_bit 8 (ucast (m a)) OR ucast (m (a + 1))"

definition HTOIAP2S :: "u16 \<Rightarrow> u8 list" where
  "HTOIAP2S s = [ucast (drop_bit 8 s), ucast (s AND 0xFF)]"

text \<open>\<^verbatim>\<open>iap2_buffer_t\<close>; the header is at the start of \<open>BBuffer\<close>.\<close>

record iap2_buffer =
  BPayload :: u16
  BLength :: u16
  BBuffer :: ram

abbreviation (input) IAP2_BUFFER_SIZE :: nat where "IAP2_BUFFER_SIZE \<equiv> 4096"
abbreviation (input) sizeof_iap2_header :: nat where "sizeof_iap2_header \<equiv> 9"
abbreviation (input) IAP2_CONTROLF_SYN :: u8 where "IAP2_CONTROLF_SYN \<equiv> 0x80"
abbreviation (input) IAP2_CONTROLF_ACK :: u8 where "IAP2_CONTROLF_ACK \<equiv> 0x40"

abbreviation (input) hdr_Control :: "ram \<Rightarrow> u8" where "hdr_Control m \<equiv> m 4"
abbreviation (input) hdr_SequenceNumber :: "ram \<Rightarrow> u8" where "hdr_SequenceNumber m \<equiv> m 5"
abbreviation (input) hdr_AckNumber :: "ram \<Rightarrow> u8" where "hdr_AckNumber m \<equiv> m 6"
abbreviation (input) hdr_SessionId :: "ram \<Rightarrow> u8" where "hdr_SessionId m \<equiv> m 7"

definition checksum :: "nat \<Rightarrow> nat \<Rightarrow> ram \<Rightarrow> u8" where
  "checksum a len m = (let sum = foldl (+) 0 (load a len m) in ucast (0x100 - ucast sum :: u32))"

text \<open>\<^verbatim>\<open>_parse_buffer\<close>: the place and length of the payload of an accepted packet.\<close>

definition parse_buffer :: "iap2_buffer \<Rightarrow> (u16 \<times> u16) option" where
  "parse_buffer buf =
     (if BLength buf < 9 then None
      else let m = BBuffer buf; sop = IAP2SHTOH 0 m; pkt_len = IAP2SHTOH 2 m
        in if sop \<noteq> 0xFF5A \<or> BLength buf < pkt_len then None
           else if checksum 0 (sizeof_iap2_header - 1) m \<noteq> m 8 then None
           else if sizeof_iap2_header + 2 \<le> unat pkt_len
           then let payload_offset = 9; payload_len = pkt_len - payload_offset - 1
             in if checksum (unat payload_offset) (unat payload_len) m = m (unat payload_offset + unat payload_len)
                then Some (payload_offset, payload_len) else None
           else Some (0, 0))"

text \<open>The part of \<^verbatim>\<open>_init_packet\<close> that fills an allocated buffer.\<close>

definition init_header :: "u8 \<Rightarrow> u8 \<Rightarrow> u8 \<Rightarrow> u8 \<Rightarrow> iap2_buffer \<Rightarrow> iap2_buffer" where
  "init_header seq ack control sess_id buf =
     buf\<lparr>BPayload := 9, BLength := 9,
         BBuffer := store 0 (HTOIAP2S 0xFF5A @ HTOIAP2S 9 @ [control, seq, ack, sess_id, 0]) (BBuffer buf)\<rparr>"

text \<open>The statements that end every payload: its checksum is written behind it.\<close>

definition end_payload :: "iap2_buffer \<Rightarrow> iap2_buffer" where
  "end_payload buf =
     buf\<lparr>BLength := BLength buf + 1,
         BBuffer := store (unat (BLength buf))
           [checksum 9 (unat (ucast (BLength buf) - 9 :: u32)) (BBuffer buf)] (BBuffer buf)\<rparr>"

text \<open>The part of \<^verbatim>\<open>_send_packet\<close> that completes the header.\<close>

definition end_header :: "iap2_buffer \<Rightarrow> iap2_buffer" where
  "end_header buf =
     (let m1 = store 2 (HTOIAP2S (BLength buf)) (BBuffer buf)
      in buf\<lparr>BBuffer := store 8 [checksum 0 (sizeof_iap2_header - 1) m1] m1\<rparr>)"

section \<open>Messages of the control session\<close>

abbreviation (input) sizeof_ctrl_msg :: nat where "sizeof_ctrl_msg \<equiv> 6"
abbreviation (input) sizeof_param :: nat where "sizeof_param \<equiv> 4"

text \<open>
  \<^verbatim>\<open>_find_param\<close>: \<open>c\<close> is the address of the message.  A parameter of length 0 is met again and again, so the
  loop has fuel.  The offset stays below 131072 and does not wrap.
\<close>

fun find_param_loop :: "nat \<Rightarrow> nat \<Rightarrow> nat \<Rightarrow> u16 \<Rightarrow> nat \<Rightarrow> ram \<Rightarrow> nat option res" where
  "find_param_loop 0 c msg_len i offset m = Inl OutOfFuel"
| "find_param_loop (Suc fuel) c msg_len i offset m =
     (if offset < msg_len
      then let p = c + offset
        in if IAP2SHTOH (p + 2) m = i then Inr (Some p)
           else find_param_loop fuel c msg_len i (offset + unat (IAP2SHTOH p m)) m
      else Inr None)"

definition find_param :: "nat \<Rightarrow> nat \<Rightarrow> u16 \<Rightarrow> ram \<Rightarrow> nat option res" where
  "find_param fuel c i m = find_param_loop fuel c (unat (IAP2SHTOH (c + 2) m)) i sizeof_ctrl_msg m"

definition init_control_msg :: "nat \<Rightarrow> u16 \<Rightarrow> ram \<Rightarrow> ram" where
  "init_control_msg c msgid m = store c (HTOIAP2S 0x4040 @ HTOIAP2S 6 @ HTOIAP2S msgid) m"

text \<open>\<^verbatim>\<open>_add_parameter\<close> returns the place of the data.\<close>

definition add_parameter :: "nat \<Rightarrow> u16 \<Rightarrow> u16 \<Rightarrow> ram \<Rightarrow> nat \<times> ram" where
  "add_parameter c i len m =
     (let msg_length = IAP2SHTOH (c + 2) m;
          ptr = c + unat msg_length;
          param_length = 4 + len;
          m1 = store ptr (HTOIAP2S param_length) m;
          m2 = store (ptr + 2) (HTOIAP2S i) m1;
          m3 = store (c + 2) (HTOIAP2S (msg_length + param_length)) m2
      in (ptr + sizeof_param, m3))"

text \<open>A parameter with its data, as all callers add it; a C string is stored with its final zero.\<close>

definition add_param_bytes :: "nat \<Rightarrow> u16 \<Rightarrow> u8 list \<Rightarrow> ram \<Rightarrow> ram" where
  "add_param_bytes c i bs m = (let (payload, m1) = add_parameter c i (of_nat (length bs)) m in store payload bs m1)"

definition add_param_string :: "nat \<Rightarrow> u16 \<Rightarrow> u8 list \<Rightarrow> ram \<Rightarrow> ram" where
  "add_param_string c i str m =
     (let (payload, m1) = add_parameter c i (of_nat (length str + 1)) m in store payload (str @ [0]) m1)"

section \<open>Parameter groups\<close>

text \<open>
  \<^verbatim>\<open>iap2_control_parameters_t\<close> and \<^verbatim>\<open>iap2_helper.c\<close>: parameters in a buffer of their own.  The header of a
  parameter is written before the length is checked.
\<close>

record iap2_control_parameters =
  MaxLength :: u16
  PLength :: u16
  PBuffer :: ram

definition iap2_helper_init_parameters :: "ram \<Rightarrow> u16 \<Rightarrow> iap2_control_parameters" where
  "iap2_helper_init_parameters buffer len = \<lparr>MaxLength = len, PLength = 0, PBuffer = buffer\<rparr>"

definition iap2_helper_add_parameter :: "u16 \<Rightarrow> u16 \<Rightarrow> iap2_control_parameters \<Rightarrow> (nat \<times> iap2_control_parameters) res" where
  "iap2_helper_add_parameter i len params =
     (let ptr = unat (PLength params);
          param_length = 4 + len;
          p1 = params\<lparr>PBuffer := store ptr (HTOIAP2S param_length @ HTOIAP2S i) (PBuffer params), PLength := PLength params + param_length\<rparr>
      in ASSERT (PLength p1 \<le> MaxLength p1) KERNEL_ERROR_KERNEL_PANIC (Inr (ptr + sizeof_param, p1)))"

definition iap2_helper_add_param_bytes :: "u16 \<Rightarrow> u8 list \<Rightarrow> iap2_control_parameters \<Rightarrow> iap2_control_parameters res" where
  "iap2_helper_add_param_bytes i bs params =
     rbind (iap2_helper_add_parameter i (of_nat (length bs)) params) (\<lambda>(payload, p1).
       Inr (p1\<lparr>PBuffer := store payload bs (PBuffer p1)\<rparr>))"

definition iap2_helper_add_param_string :: "u16 \<Rightarrow> u8 list \<Rightarrow> iap2_control_parameters \<Rightarrow> iap2_control_parameters res" where
  "iap2_helper_add_param_string i str params =
     rbind (iap2_helper_add_parameter i (of_nat (length str + 1)) params) (\<lambda>(payload, p1).
       Inr (p1\<lparr>PBuffer := store payload (str @ [0]) (PBuffer p1)\<rparr>))"

section \<open>Fields and checksums\<close>

declare add_2_eq_Suc [simp del] add_2_eq_Suc' [simp del]

lemma length_HTOIAP2S [simp]: "length (HTOIAP2S s) = 2"
  by (simp add: HTOIAP2S_def)

lemma bit_low_byte: "bit (0xFF :: int) n \<longleftrightarrow> n < 8" "bit (0xFF :: nat) n \<longleftrightarrow> n < 8"
proof -
  have "(0xFF :: int) = mask 8" "(0xFF :: nat) = mask 8" by (simp_all add: mask_eq_exp_minus_1)
  then show "bit (0xFF :: int) n \<longleftrightarrow> n < 8" "bit (0xFF :: nat) n \<longleftrightarrow> n < 8" by (simp_all only: bit_mask_iff) auto
qed

lemma IAP2SHTOH_load:
  assumes "load a 2 m = HTOIAP2S s"
  shows "IAP2SHTOH a m = s"
proof -
  have "m a = ucast (drop_bit 8 s)" "m (a + 1) = ucast (s AND 0xFF)"
    using assms by (auto simp: load_def HTOIAP2S_def upt_rec numeral_2_eq_2)
  moreover have "push_bit 8 (ucast (ucast (drop_bit 8 s) :: u8)) OR ucast (ucast (s AND 0xFF) :: u8) = s"
    by (rule bit_word_eqI) (auto simp: bit_simps bit_low_byte not_less)
  ultimately show ?thesis by (simp add: IAP2SHTOH_def)
qed

lemma IAP2SHTOH_store [simp]: "IAP2SHTOH a (store a (HTOIAP2S s) m) = s"
  by (rule IAP2SHTOH_load) (simp add: load_store_same)

lemma IAP2SHTOH_store_other: "a + 2 \<le> b \<or> b + length bs \<le> a \<Longrightarrow> IAP2SHTOH a (store b bs m) = IAP2SHTOH a m"
  by (auto simp: IAP2SHTOH_def store_other)

lemma foldl_plus_sum: "foldl (+) (x :: u8) bs = x + sum_list bs"
  by (induction bs arbitrary: x) (simp_all add: add.assoc)

lemma checksum_sum: "checksum a len m = - sum_list (load a len m)"
proof -
  have "ucast (0x100 - ucast s :: u32) = - (s :: u8)" for s
    by transfer (simp add: take_bit_eq_mod,
      metis mod_minus_eq)
  then show ?thesis by (simp add: checksum_def foldl_plus_sum Let_def)
qed

section \<open>A packet is accepted as it was sent\<close>

lemma unat_u16_of_nat: "n < 65536 \<Longrightarrow> unat (of_nat n :: u16) = n"
  by (rule of_nat_inverse) auto

text \<open>The bytes of a complete packet with the payload \<open>bs\<close>.\<close>

definition header_bytes :: "nat \<Rightarrow> u8 \<Rightarrow> u8 \<Rightarrow> u8 \<Rightarrow> u8 \<Rightarrow> u8 list" where
  "header_bytes len control seq ack sess_id =
     (let hdr = HTOIAP2S 0xFF5A @ HTOIAP2S (of_nat len) @ [control, seq, ack, sess_id] in hdr @ [- sum_list hdr])"

definition packet_bytes :: "u8 \<Rightarrow> u8 \<Rightarrow> u8 \<Rightarrow> u8 \<Rightarrow> u8 list \<Rightarrow> u8 list" where
  "packet_bytes control seq ack sess_id bs =
     (if bs = [] then header_bytes 9 control seq ack sess_id
      else header_bytes (10 + length bs) control seq ack sess_id @ bs @ [- sum_list bs])"

lemma length_header_bytes [simp]: "length (header_bytes len control seq ack sess_id) = 9"
  by (simp add: header_bytes_def Let_def)

lemma length_packet_bytes: "length (packet_bytes control seq ack sess_id bs) = (if bs = [] then 9 else 10 + length bs)"
  by (simp add: packet_bytes_def)

text \<open>Completing a buffer as the senders do yields these bytes.\<close>

definition header_set :: "u8 \<Rightarrow> u8 \<Rightarrow> u8 \<Rightarrow> u8 \<Rightarrow> ram \<Rightarrow> bool" where
  "header_set control seq ack sess_id m \<longleftrightarrow> load 0 2 m = HTOIAP2S 0xFF5A \<and> load 4 4 m = [control, seq, ack, sess_id]"

lemma load_split: "k \<le> n \<Longrightarrow> load a n m = load a k m @ load (a + k) (n - k) m"
  using load_add [of a k "n - k" m] by simp

lemma load_append_iff: "load a (length xs + length ys) m = xs @ ys \<longleftrightarrow> load a (length xs) m = xs \<and> load (a + length xs) (length ys) m = ys"
  by (auto simp: load_add append_eq_append_conv)

lemma header_set_store: "header_set control seq ack sess_id m \<Longrightarrow> 8 \<le> a \<Longrightarrow> header_set control seq ack sess_id (store a bs m)"
  by (simp add: header_set_def load_store_other)

lemma header_set_init: "header_set control seq ack sess_id (BBuffer (init_header seq ack control sess_id buf))"
  by (simp add: header_set_def init_header_def load_def store_def HTOIAP2S_def upt_rec numeral_eq_Suc)

lemma end_header_bytes:
  assumes "header_set control seq ack sess_id (BBuffer buf)" and "BLength buf = of_nat len"
  shows "load 0 9 (BBuffer (end_header buf)) = header_bytes len control seq ack sess_id"
proof -
  let ?m1 = "store 2 (HTOIAP2S (BLength buf)) (BBuffer buf)"
  have "load 0 8 ?m1 = load 0 2 ?m1 @ load 2 2 ?m1 @ load 4 4 ?m1"
    using load_split [of 2 8 0 ?m1] load_split [of 2 6 2 ?m1] by simp
  then have h: "load 0 8 ?m1 = HTOIAP2S 0xFF5A @ HTOIAP2S (of_nat len) @ [control, seq, ack, sess_id]"
    using assms by (simp add: load_store_other load_store_same header_set_def)
  have "load 0 9 (BBuffer (end_header buf)) = load 0 8 (BBuffer (end_header buf)) @ load 8 1 (BBuffer (end_header buf))"
    using load_split [of 8 9 0 "BBuffer (end_header buf)"] by simp
  then show ?thesis
    using h by (simp add: end_header_def Let_def load_store_other load_store_same checksum_sum header_bytes_def)
qed

lemma packet_built:
  assumes h: "header_set control seq ack sess_id (BBuffer buf)" and l: "BLength buf = of_nat (9 + length bs)"
    and p: "load 9 (length bs) (BBuffer buf) = bs" and n: "length bs < 65000"
  shows "BLength (end_header (end_payload buf)) = of_nat (10 + length bs)"
    and "load 0 (10 + length bs) (BBuffer (end_header (end_payload buf)))
      = header_bytes (10 + length bs) control seq ack sess_id @ bs @ [- sum_list bs]"
proof -
  let ?b = "end_payload buf" and ?n = "length bs"
  have u: "unat (BLength buf) = 9 + ?n" unfolding l by (rule unat_u16_of_nat) (use n in simp)
  have "ucast (BLength buf) = (of_nat (9 + ?n) :: u32)" unfolding ucast_of_nat u ..
  then have v: "unat (ucast (BLength buf) - 9 :: u32) = ?n" using n by (simp add: unat_of_nat)
  have len: "BLength ?b = of_nat (10 + ?n)" by (simp add: end_payload_def l)
  show "BLength (end_header ?b) = of_nat (10 + ?n)" using len by (simp add: end_header_def Let_def)
  have hb: "header_set control seq ack sess_id (BBuffer ?b)" using h by (simp add: end_payload_def u header_set_store)
  have eq: "load a k (BBuffer (end_header ?b)) = load a k (BBuffer ?b)" if "9 \<le> a" for a k
    using that by (simp add: end_header_def Let_def load_store_other)
  have "load 9 ?n (BBuffer ?b) = bs" "load (9 + ?n) 1 (BBuffer ?b) = [- sum_list bs]"
    using p by (simp_all add: end_payload_def u v load_store_other load_store_same checksum_sum)
  then show "load 0 (10 + ?n) (BBuffer (end_header ?b)) = header_bytes (10 + ?n) control seq ack sess_id @ bs @ [- sum_list bs]"
    using load_split [of 9 "10 + ?n" 0 "BBuffer (end_header ?b)"] load_split [of ?n "?n + 1" 9 "BBuffer (end_header ?b)"]
      end_header_bytes [OF hb len] eq by simp
qed

text \<open>A buffer that starts with the bytes of a packet is accepted, whatever follows them.\<close>

lemma header_fields:
  assumes "load 0 9 m = header_bytes len control seq ack sess_id" and "len < 65536"
  shows "IAP2SHTOH 0 m = 0xFF5A" and "IAP2SHTOH 2 m = of_nat len" and "checksum 0 8 m = m 8"
    and "hdr_Control m = control" and "hdr_SequenceNumber m = seq" and "hdr_AckNumber m = ack" and "hdr_SessionId m = sess_id"
proof -
  let ?h = "HTOIAP2S 0xFF5A @ HTOIAP2S (of_nat len) @ [control, seq, ack, sess_id]"
  have "load 0 8 m @ load 8 1 m = ?h @ [- sum_list ?h]"
    using assms(1) load_split [of 8 9 0 m] unfolding header_bytes_def Let_def by simp
  then have h: "load 0 8 m = ?h" "load 8 1 m = [- sum_list ?h]" by (simp_all add: append_eq_append_conv del: append_assoc)
  have "load 0 8 m = load 0 2 m @ load 2 2 m @ load 4 4 m"
    using load_split [of 2 8 0 m] load_split [of 2 6 2 m] by simp
  then have "load 0 2 m @ load 2 2 m @ load 4 4 m = ?h" using h(1) by simp
  then have b: "load 0 2 m = HTOIAP2S 0xFF5A" "load 2 2 m = HTOIAP2S (of_nat len)" "load 4 4 m = [control, seq, ack, sess_id]"
    by (simp_all add: append_eq_append_conv)
  then show "IAP2SHTOH 0 m = 0xFF5A" "IAP2SHTOH 2 m = of_nat len" "checksum 0 8 m = m 8"
    using h by (simp_all add: IAP2SHTOH_load checksum_sum load_def)
  show "hdr_Control m = control" "hdr_SequenceNumber m = seq" "hdr_AckNumber m = ack" "hdr_SessionId m = sess_id"
    using b(3) by (simp_all add: load_def upt_rec numeral_eq_Suc)
qed

lemma packet_parsed:
  assumes m: "load 0 (length ps) (BBuffer buf) = ps" "ps = packet_bytes control seq ack sess_id bs"
    and l: "length ps \<le> unat (BLength buf)"
  shows "parse_buffer buf = Some (if bs = [] then (0, 0) else (9, of_nat (length bs)))"
    and "hdr_Control (BBuffer buf) = control" and "hdr_SequenceNumber (BBuffer buf) = seq"
    and "hdr_AckNumber (BBuffer buf) = ack" and "hdr_SessionId (BBuffer buf) = sess_id"
    and "load 9 (length bs) (BBuffer buf) = bs"
proof -
  let ?m = "BBuffer buf" and ?n = "length bs"
  have lt: "length ps < 65536" by (rule le_less_trans [OF l order_less_le_trans [OF unsigned_less]]) simp
  have len: "length ps = (if bs = [] then 9 else 10 + ?n)" by (simp add: m(2) length_packet_bytes)
  have s: "load 0 9 ?m @ load 9 (length ps - 9) ?m = ps" using m(1) load_split [of 9 "length ps" 0 ?m] len by (simp split: if_splits)
  then have h: "load 0 9 ?m = header_bytes (length ps) control seq ack sess_id" and
    p: "load 9 (length ps - 9) ?m = (if bs = [] then [] else bs @ [- sum_list bs])"
    using len unfolding m(2) packet_bytes_def by (auto split: if_splits simp: append_eq_append_conv)
  note f = header_fields [OF h lt]
  show "hdr_Control ?m = control" "hdr_SequenceNumber ?m = seq" "hdr_AckNumber ?m = ack" "hdr_SessionId ?m = sess_id"
    using f by simp_all
  have u: "unat (of_nat (length ps) :: u16) = length ps" using lt by (rule unat_u16_of_nat)
  then have le: "of_nat (length ps) \<le> BLength buf" "9 \<le> BLength buf" using l len by (simp_all add: word_le_nat_alt split: if_splits)
  have q: "load 9 ?n ?m = bs \<and> (bs \<noteq> [] \<longrightarrow> ?m (9 + ?n) = - sum_list bs)"
    using p len load_append_iff [of 9 bs "[- sum_list bs]" ?m] by (cases "bs = []") (auto simp: load_def)
  then show "load 9 ?n ?m = bs" by simp
  show "parse_buffer buf = Some (if bs = [] then (0, 0) else (9, of_nat ?n))"
  proof (cases "bs = []")
    case True
    then show ?thesis using f le u len by (simp add: parse_buffer_def Let_def not_less)
  next
    case False
    then have "of_nat (length ps) - 9 - 1 = (of_nat ?n :: u16)" "unat (of_nat ?n :: u16) = ?n" "11 \<le> length ps"
      using len lt by (simp_all add: unat_u16_of_nat Suc_le_eq)
    then show ?thesis using False f le u q by (simp add: parse_buffer_def Let_def not_less checksum_sum)
  qed
qed

text \<open>One damaged byte makes the sum wrong that covers it.\<close>

lemma checksum_detects:
  assumes "a \<le> x" and "x < a + len" and "m x \<noteq> v"
  shows "checksum a len (m(x := v)) \<noteq> checksum a len m"
proof -
  have s: "load a len f = load a (x - a) f @ f x # load (x + 1) (a + len - x - 1) f" for f
  proof -
    have "len = (x - a) + Suc (a + len - x - 1)" using assms by simp
    then have "load a len f = load a ((x - a) + Suc (a + len - x - 1)) f" by simp
    also have "\<dots> = load a (x - a) f @ load x (Suc (a + len - x - 1)) f" by (simp only: load_add le_add_diff_inverse [OF assms(1)])
    finally show ?thesis by (simp add: load_Suc)
  qed
  have "load a (x - a) (m(x := v)) = load a (x - a) m" "load (x + 1) k (m(x := v)) = load (x + 1) k m" for k
    using assms(1) by (simp_all add: load_upd_other)
  then show ?thesis using assms(3) by (simp add: checksum_sum s [of "m(x := v)"] s [of m])
qed

lemma checksum_kept: "x < a \<or> a + len \<le> x \<Longrightarrow> checksum a len (m(x := v)) = checksum a len m"
  by (simp add: checksum_def load_upd_other)

lemma parse_buffer_damaged:
  assumes "parse_buffer buf = Some (offset, len)" and "x < 9 \<or> 9 \<le> x \<and> x \<le> 9 + unat len \<and> len \<noteq> 0" and "BBuffer buf x \<noteq> v"
  shows "parse_buffer (buf\<lparr>BBuffer := (BBuffer buf)(x := v)\<rparr>) = None"
proof (cases "x < 9")
  case True
  have "checksum 0 8 (BBuffer buf) = BBuffer buf 8"
    using assms(1) by (auto simp: parse_buffer_def Let_def split: if_splits)
  then have "checksum 0 8 ((BBuffer buf)(x := v)) \<noteq> ((BBuffer buf)(x := v)) 8"
    using checksum_detects [of 0 x 8 "BBuffer buf" v] assms(3) True by (cases "x = 8") (auto simp: checksum_kept)
  then show ?thesis by (simp add: parse_buffer_def Let_def)
next
  case False
  let ?m = "(BBuffer buf)(x := v)"
  have x: "9 \<le> x" "x \<le> 9 + unat len" "len \<noteq> 0" using False assms(2) by auto
  have h: "IAP2SHTOH 0 ?m = IAP2SHTOH 0 (BBuffer buf)" "IAP2SHTOH 2 ?m = IAP2SHTOH 2 (BBuffer buf)" using x by (simp_all add: IAP2SHTOH_def)
  have p: "sizeof_iap2_header + 2 \<le> unat (IAP2SHTOH 2 (BBuffer buf))" "len = IAP2SHTOH 2 (BBuffer buf) - 9 - 1"
    "checksum 9 (unat len) (BBuffer buf) = BBuffer buf (9 + unat len)"
    using assms(1) x(3) by (auto simp: parse_buffer_def Let_def split: if_splits)
  have "checksum 9 (unat len) ?m \<noteq> ?m (9 + unat len)"
    using checksum_detects [of 9 x "unat len" "BBuffer buf" v] assms(3) x p(3)
    by (cases "x = 9 + unat len") (auto simp: checksum_kept)
  then show ?thesis using p(1,2) by (simp add: parse_buffer_def Let_def h del: fun_upd_apply)
qed

section \<open>Parameters are found again\<close>

definition param_bytes :: "u16 \<times> u8 list \<Rightarrow> u8 list" where
  "param_bytes p = HTOIAP2S (of_nat (4 + length (snd p))) @ HTOIAP2S (fst p) @ snd p"

definition message_bytes :: "u16 \<Rightarrow> (u16 \<times> u8 list) list \<Rightarrow> u8 list" where
  "message_bytes msgid ps =
     (let body = concat (map param_bytes ps)
      in HTOIAP2S 0x4040 @ HTOIAP2S (of_nat (6 + length body)) @ HTOIAP2S msgid @ body)"

definition message_at :: "nat \<Rightarrow> u16 \<Rightarrow> (u16 \<times> u8 list) list \<Rightarrow> ram \<Rightarrow> bool" where
  "message_at c msgid ps m \<longleftrightarrow> load c (length (message_bytes msgid ps)) m = message_bytes msgid ps"

lemma length_param_bytes [simp]: "length (param_bytes p) = 4 + length (snd p)"
  by (simp add: param_bytes_def)

lemma length_message_bytes: "length (message_bytes msgid ps) = 6 + length (concat (map param_bytes ps))"
  by (simp add: message_bytes_def Let_def)

lemma message_at_parts:
  "message_at c msgid ps m \<longleftrightarrow>
     load c 2 m = HTOIAP2S 0x4040 \<and> load (c + 2) 2 m = HTOIAP2S (of_nat (length (message_bytes msgid ps))) \<and>
     load (c + 4) 2 m = HTOIAP2S msgid \<and>
     load (c + 6) (length (concat (map param_bytes ps))) m = concat (map param_bytes ps)"
proof -
  let ?b = "concat (map param_bytes ps)" and ?l = "HTOIAP2S (of_nat (6 + length (concat (map param_bytes ps))))"
  have "message_at c msgid ps m \<longleftrightarrow> load c (length (HTOIAP2S 0x4040) + length (?l @ HTOIAP2S msgid @ ?b)) m = HTOIAP2S 0x4040 @ ?l @ HTOIAP2S msgid @ ?b"
    by (simp add: message_at_def message_bytes_def Let_def)
  also have "\<dots> \<longleftrightarrow> load c 2 m = HTOIAP2S 0x4040 \<and> load (c + 2) (length ?l + length (HTOIAP2S msgid @ ?b)) m = ?l @ HTOIAP2S msgid @ ?b"
    by (subst load_append_iff) simp
  also have "\<dots> \<longleftrightarrow> load c 2 m = HTOIAP2S 0x4040 \<and> load (c + 2) 2 m = ?l \<and>
      load (c + 4) (length (HTOIAP2S msgid) + length ?b) m = HTOIAP2S msgid @ ?b"
    by (subst load_append_iff) (simp add: add.assoc)
  also have "\<dots> \<longleftrightarrow> load c 2 m = HTOIAP2S 0x4040 \<and> load (c + 2) 2 m = ?l \<and> load (c + 4) 2 m = HTOIAP2S msgid \<and>
      load (c + 6) (length ?b) m = ?b"
    by (subst load_append_iff) (simp add: add.assoc)
  finally show ?thesis by (simp add: length_message_bytes)
qed

lemma message_at_init: "message_at c msgid [] (init_control_msg c msgid m)"
proof -
  have "message_bytes msgid [] = HTOIAP2S 0x4040 @ HTOIAP2S 6 @ HTOIAP2S msgid" by (simp add: message_bytes_def)
  then show ?thesis by (simp add: message_at_def init_control_msg_def load_store_same)
qed

lemma message_at_add:
  assumes m: "message_at c msgid ps m" and l: "length (message_bytes msgid ps) + 4 + length bs < 65536"
  shows "message_at c msgid (ps @ [(i, bs)]) (add_param_bytes c i bs m)"
    and "b + n \<le> c + 2 \<or> c + length (message_bytes msgid ps) + 4 + length bs \<le> b \<Longrightarrow> load b n (add_param_bytes c i bs m) = load b n m"
proof -
  let ?n = "length (message_bytes msgid ps)" and ?p = "HTOIAP2S (of_nat (4 + length bs)) @ HTOIAP2S i"
  have len: "IAP2SHTOH (c + 2) m = of_nat ?n" using m IAP2SHTOH_load by (auto simp: message_at_parts)
  have u: "unat (of_nat ?n :: u16) = ?n" using l by (intro unat_u16_of_nat) simp
  have n6: "6 \<le> ?n" by (simp add: length_message_bytes)
  have eq: "add_param_bytes c i bs m = store (c + ?n + 4) bs (store (c + 2) (HTOIAP2S (of_nat (?n + 4 + length bs)))
      (store (c + ?n + 2) (HTOIAP2S i) (store (c + ?n) (HTOIAP2S (of_nat (4 + length bs))) m)))"
    by (simp add: add_param_bytes_def add_parameter_def Let_def len u add.assoc)
  show "b + n \<le> c + 2 \<or> c + ?n + 4 + length bs \<le> b \<Longrightarrow> load b n (add_param_bytes c i bs m) = load b n m"
    using n6 by (auto simp: eq load_store_other)
  have k: "length (message_bytes msgid (ps @ [(i, bs)])) = ?n + 4 + length bs" by (simp add: length_message_bytes)
  have e: "c + 6 + length (concat (map param_bytes ps)) = c + ?n" by (simp add: length_message_bytes)
  have "load (c + ?n) (length (param_bytes (i, bs))) (add_param_bytes c i bs m)
      = load (c + ?n) 2 (add_param_bytes c i bs m) @ load (c + ?n + 2) 2 (add_param_bytes c i bs m)
        @ load (c + ?n + 4) (length bs) (add_param_bytes c i bs m)"
    using load_add [of "c + ?n" 2 "2 + length bs"] load_add [of "c + ?n + 2" 2 "length bs"]
    by (simp add: add.assoc)
  also have "\<dots> = param_bytes (i, bs)" using n6 by (simp add: eq load_store_same load_store_other param_bytes_def)
  finally have p: "load (c + ?n) (length (param_bytes (i, bs))) (add_param_bytes c i bs m) = param_bytes (i, bs)" .
  have old: "load (c + 6) (length (concat (map param_bytes ps))) (add_param_bytes c i bs m) = concat (map param_bytes ps)"
    using m e by (simp add: eq load_store_other message_at_parts)
  have "load (c + 6) (length (concat (map param_bytes ps)) + length (param_bytes (i, bs))) (add_param_bytes c i bs m)
      = concat (map param_bytes ps) @ param_bytes (i, bs)"
    unfolding load_append_iff e using old p by simp
  then show "message_at c msgid (ps @ [(i, bs)]) (add_param_bytes c i bs m)"
    using m n6 unfolding message_at_parts k
    by (simp add: eq load_store_same load_store_other del: length_param_bytes)
qed

text \<open>The search meets the parameters in order.\<close>

lemma find_param_loop_steps:
  assumes "load (c + offset) (length (concat (map param_bytes ps))) m = concat (map param_bytes ps)"
    and "offset + length (concat (map param_bytes ps)) = msg_len" and "msg_len < 65536" and "length ps < fuel"
  shows "case find (\<lambda>p. fst p = i) ps of
      None \<Rightarrow> find_param_loop fuel c msg_len i offset m = Inr None
    | Some (_, bs) \<Rightarrow> \<exists>p. find_param_loop fuel c msg_len i offset m = Inr (Some p) \<and>
        IAP2SHTOH p m = of_nat (4 + length bs) \<and> load (p + 4) (length bs) m = bs"
  using assms
proof (induction ps arbitrary: offset fuel)
  case Nil
  then show ?case by (cases fuel) simp_all
next
  case (Cons q ps)
  obtain j bs where q: "q = (j, bs)" by (cases q)
  obtain f where f: "fuel = Suc f" using Cons.prems(4) by (cases fuel) simp_all
  let ?p = "c + offset"
  have split: "load ?p (length (param_bytes q)) m = param_bytes q"
    "load (c + (offset + length (param_bytes q))) (length (concat (map param_bytes ps))) m = concat (map param_bytes ps)"
    using Cons.prems(1) load_append_iff [of ?p "param_bytes q" "concat (map param_bytes ps)" m] by (simp_all add: add.assoc)
  have "load ?p (length (HTOIAP2S (of_nat (4 + length bs))) + (length (HTOIAP2S j) + length bs)) m
      = HTOIAP2S (of_nat (4 + length bs)) @ HTOIAP2S j @ bs"
    using split(1) by (simp add: q param_bytes_def)
  then have b: "load ?p 2 m = HTOIAP2S (of_nat (4 + length bs))" "load (?p + 2) 2 m = HTOIAP2S j" "load (?p + 4) (length bs) m = bs"
    using load_append_iff [of ?p "HTOIAP2S (of_nat (4 + length bs))" "HTOIAP2S j @ bs" m] load_append_iff [of "?p + 2" "HTOIAP2S j" bs m]
    by (auto simp: add.assoc)
  have lt: "offset < msg_len" and u: "unat (of_nat (4 + length bs) :: u16) = length (param_bytes q)"
    using Cons.prems(2,3) by (auto simp: q unat_u16_of_nat simp del: of_nat_add)
  have r: "IAP2SHTOH ?p m = of_nat (4 + length bs)" "IAP2SHTOH (?p + 2) m = j" using b by (simp_all add: IAP2SHTOH_load)
  show ?case
  proof (cases "j = i")
    case True
    then show ?thesis using b(3) r lt by (simp add: q f)
  next
    case False
    have eq: "find_param_loop fuel c msg_len i offset m = find_param_loop f c msg_len i (offset + length (param_bytes q)) m"
      using False lt r u by (simp add: f Let_def)
    have fd: "find (\<lambda>p. fst p = i) (q # ps) = find (\<lambda>p. fst p = i) ps" using False by (simp add: q)
    show ?thesis
      unfolding eq fd by (rule Cons.IH [OF split(2)]) (use Cons.prems(2-4) in \<open>simp_all add: f add.assoc\<close>)
  qed
qed

text \<open>A message built from its parameters, as the senders do.\<close>

definition build_message :: "nat \<Rightarrow> u16 \<Rightarrow> (u16 \<times> u8 list) list \<Rightarrow> ram \<Rightarrow> ram" where
  "build_message c msgid ps m = foldl (\<lambda>m (i, bs). add_param_bytes c i bs m) (init_control_msg c msgid m) ps"

lemma message_at_build:
  "length (message_bytes msgid ps) < 65536 \<Longrightarrow> message_at c msgid ps (build_message c msgid ps m)"
proof (induction ps rule: rev_induct)
  case Nil
  then show ?case by (simp add: build_message_def message_at_init)
next
  case (snoc p ps)
  obtain i bs where p: "p = (i, bs)" by (cases p)
  have "length (message_bytes msgid ps) + 4 + length bs < 65536" using snoc.prems by (simp add: length_message_bytes p)
  then show ?case using snoc.IH message_at_add(1) by (simp add: build_message_def p)
qed

text \<open>C34: A control message that is built with the message functions holds its parameters: the search for an id returns the
  first parameter added with it, with its length and its data, and reports none when there is none; it needs no more rounds than
  the message has parameters.
\<close>

theorem iap2_params_found:
  assumes "length (message_bytes msgid ps) < 65536" and "length ps < fuel"
  shows "let m1 = build_message c msgid ps m in
    case find (\<lambda>p. fst p = i) ps of
      None \<Rightarrow> find_param fuel c i m1 = Inr None
    | Some (_, bs) \<Rightarrow> \<exists>p. find_param fuel c i m1 = Inr (Some p) \<and> IAP2SHTOH p m1 = of_nat (4 + length bs) \<and> load (p + 4) (length bs) m1 = bs"
proof -
  let ?m = "build_message c msgid ps m"
  have m: "message_at c msgid ps ?m" using assms(1) by (rule message_at_build)
  then have l: "unat (IAP2SHTOH (c + 2) ?m) = length (message_bytes msgid ps)"
    using assms(1) IAP2SHTOH_load by (auto simp: message_at_parts unat_u16_of_nat)
  have "load (c + 6) (length (concat (map param_bytes ps))) ?m = concat (map param_bytes ps)" using m by (simp add: message_at_parts)
  then show ?thesis
    unfolding find_param_def Let_def l
    by (rule find_param_loop_steps) (use assms in \<open>simp_all add: length_message_bytes\<close>)
qed

theorem iap2_params_found_witness:
  "\<exists>p. find_param 3 9 1 (build_message 9 0xEA00 [(0, [0xA0]), (1, [0, 7])] (\<lambda>_. 0)) = Inr (Some p)
     \<and> load (p + 4) 2 (build_message 9 0xEA00 [(0, [0xA0]), (1, [0, 7])] (\<lambda>_. 0)) = [0, 7]"
proof -
  have "length (message_bytes 0xEA00 [(0, [0xA0]), (1, [0, 7])]) < 65536" by (simp add: length_message_bytes)
  from iap2_params_found [OF this, of 3 9 "\<lambda>_. 0" 1] show ?thesis by (auto simp: Let_def numeral_2_eq_2)
qed

text \<open>The search does not end when the first parameter of a message has length 0 and another id: whatever the fuel, it runs
  out of it.
\<close>

theorem iap2_find_param_hangs:
  assumes "sizeof_ctrl_msg < unat (IAP2SHTOH (c + 2) m)" and "IAP2SHTOH (c + 6) m = 0" and "IAP2SHTOH (c + 8) m \<noteq> i"
  shows "find_param fuel c i m = Inl OutOfFuel"
proof -
  have "find_param_loop fuel c (unat (IAP2SHTOH (c + 2) m)) i 6 m = Inl OutOfFuel"
    using assms by (induction fuel) (simp_all add: add.assoc)
  then show ?thesis by (simp add: find_param_def)
qed

theorem iap2_find_param_hangs_witness:
  "find_param 1000 0 1 (store 0 ([0x40, 0x40, 0, 10, 0xEA, 0] @ [0, 0, 0, 0]) (\<lambda>_. 0)) = Inl OutOfFuel"
  by (rule iap2_find_param_hangs) (simp_all add: store_def IAP2SHTOH_def)

text \<open>C32: A packet is accepted exactly as it was sent: when a buffer with the header of \<^verbatim>\<open>_init_packet\<close> and a payload is
  completed by its two checksums, and the receiver gets these bytes, with or without bytes behind them, it accepts the packet with
  the same control bits, numbers, session and payload; and it refuses the packet when any single byte of it has changed on the way.
\<close>

theorem iap2_packet_roundtrip:
  assumes "header_set control seq ack sess_id (BBuffer out)" and "BLength out = of_nat (9 + length bs)"
    and "load 9 (length bs) (BBuffer out) = bs" and "bs \<noteq> []" and "length bs < 65000"
    and "sent = load 0 (unat (BLength (end_header (end_payload out)))) (BBuffer (end_header (end_payload out)))"
    and "load 0 (length sent) (BBuffer inp) = sent" and "length sent \<le> unat (BLength inp)"
    and "x < length sent" and "v \<noteq> BBuffer inp x"
  shows "parse_buffer inp = Some (9, of_nat (length bs)) \<and> load 9 (length bs) (BBuffer inp) = bs \<and>
    (hdr_Control (BBuffer inp), hdr_SequenceNumber (BBuffer inp), hdr_AckNumber (BBuffer inp), hdr_SessionId (BBuffer inp))
      = (control, seq, ack, sess_id) \<and>
    parse_buffer (inp\<lparr>BBuffer := (BBuffer inp)(x := v)\<rparr>) = None"
proof -
  note b = packet_built [OF assms(1-3,5)]
  have "unat (BLength (end_header (end_payload out))) = 10 + length bs"
    unfolding b(1) using assms(5) by (intro unat_u16_of_nat) simp
  then have s: "sent = packet_bytes control seq ack sess_id bs" using b(2) assms(4,6) by (simp add: packet_bytes_def)
  note p = packet_parsed [OF assms(7) s assms(8)]
  have "parse_buffer (inp\<lparr>BBuffer := (BBuffer inp)(x := v)\<rparr>) = None"
  proof (rule parse_buffer_damaged)
    show "parse_buffer inp = Some (9, of_nat (length bs))" using p(1) assms(4) by simp
    have "unat (of_nat (length bs) :: u16) = length bs" using assms(5) by (intro unat_u16_of_nat) simp
    moreover from this have "(of_nat (length bs) :: u16) \<noteq> 0" using assms(4) by (metis length_0_conv unat_0)
    ultimately show "x < 9 \<or> 9 \<le> x \<and> x \<le> 9 + unat (of_nat (length bs) :: u16) \<and> (of_nat (length bs) :: u16) \<noteq> 0"
      using assms(4,9) s by (auto simp: length_packet_bytes)
    show "BBuffer inp x \<noteq> v" using assms(10) by simp
  qed
  then show ?thesis using p assms(4) by simp
qed

definition sample_packet :: iap2_buffer where
  "sample_packet =
     (let b = init_header 0x2B 7 0x40 10 \<lparr>BPayload = 0, BLength = 0, BBuffer = \<lambda>_. 0\<rparr>
      in b\<lparr>BLength := 12, BBuffer := store 9 [1, 2, 3] (BBuffer b)\<rparr>)"

definition sample_received :: iap2_buffer where
  "sample_received = \<lparr>BPayload = 0, BLength = 62, BBuffer = BBuffer (end_header (end_payload sample_packet))\<rparr>"

theorem iap2_packet_roundtrip_witness:
  "parse_buffer sample_received = Some (9, 3) \<and> load 9 3 (BBuffer sample_received) = [1, 2, 3] \<and>
   parse_buffer (sample_received\<lparr>BBuffer := (BBuffer sample_received)(10 := 9)\<rparr>) = None"
proof -
  have b: "BBuffer sample_packet = store 9 [1, 2, 3] (BBuffer (init_header 0x2B 7 0x40 10 \<lparr>BPayload = 0, BLength = 0, BBuffer = \<lambda>_. 0\<rparr>))"
    by (simp add: sample_packet_def Let_def)
  have h: "header_set 0x40 0x2B 7 10 (BBuffer sample_packet)"
    unfolding b by (rule header_set_store [OF header_set_init]) simp
  have l: "BLength sample_packet = of_nat (9 + length [1 :: u8, 2, 3])" by (simp add: sample_packet_def Let_def)
  have p: "load 9 (length [1 :: u8, 2, 3]) (BBuffer sample_packet) = [1, 2, 3]" unfolding b by (rule load_store_same) simp
  have u: "unat (BLength (end_header (end_payload sample_packet))) = 13"
    by (simp add: end_header_def end_payload_def sample_packet_def Let_def)
  have v: "(9 :: u8) \<noteq> BBuffer sample_received 10" by code_simp
  show ?thesis
    using iap2_packet_roundtrip [OF h l p, of "load 0 13 (BBuffer sample_received)" sample_received 10 9] u v
    by (simp add: sample_received_def numeral_3_eq_3)
qed

end
