(* ===== verification/Iap2Hid.thy ===== *)
theory Iap2Hid
  imports Iap2Packet UsbHid
begin

text \<open>
  The accessory protocol over input devices (\<^verbatim>\<open>exos/support/apple/iap2/iap2_hid.c\<close>): packets are cut into output
  reports of the sizes the device offers, and input reports are put together to packets.  The byte behind the report
  id tells whether a report continues a packet and whether more follows.
\<close>

unbundle bit_operations_syntax

section \<open>State\<close>

text \<open>
  \<^verbatim>\<open>iap2_hid_handler_t\<close>: the reports with their ids and lengths and the packet that is being received.
\<close>

record iap2_hid =
  Reports :: "(u8 \<times> u8) list"
  HInputOffset :: u16
  HInputBuffer :: ram

abbreviation (input) IAP2_MAX_REPORTS :: nat where "IAP2_MAX_REPORTS \<equiv> 5"
abbreviation (input) IAP2_LCB_START :: u8 where "IAP2_LCB_START \<equiv> 0"
abbreviation (input) IAP2_LCB_CONTINUATION :: u8 where "IAP2_LCB_CONTINUATION \<equiv> 1"
abbreviation (input) IAP2_LCB_MORE_TO_FOLLOW :: u8 where "IAP2_LCB_MORE_TO_FOLLOW \<equiv> 2"

section \<open>Matching and reports\<close>

text \<open>\<^verbatim>\<open>_match_device\<close>: \<open>used\<close> tells whether the function of the single instance is set.\<close>

definition iap2_match_device :: "u16 \<Rightarrow> u16 \<Rightarrow> bool \<Rightarrow> iap2_hid \<Rightarrow> bool \<times> iap2_hid" where
  "iap2_match_device vendor product used h =
     (if vendor = 0x05AC \<and> product AND 0xFF00 = 0x1200
      then if \<not> used then (True, h\<lparr>Reports := []\<rparr>) else (False, h)
      else (False, h))"

fun iap2_parse_reports :: "nat \<Rightarrow> nat \<Rightarrow> ram \<Rightarrow> report_parser \<Rightarrow> iap2_hid \<Rightarrow> (bool \<times> iap2_hid) res" where
  "iap2_parse_reports 0 k m p h = Inl OutOfFuel"
| "iap2_parse_reports (Suc fuel) k m p h =
     rbind (usb_hid_parse_report_descriptor k m p) (\<lambda>(r, p1).
       case r of
         None \<Rightarrow> Inr (Reports h \<noteq> [], h)
       | Some (item, found) \<Rightarrow>
           iap2_parse_reports fuel k m p1
             (if found = HID_PARSE_FOUND_OUTPUT \<and> length (Reports h) < IAP2_MAX_REPORTS
              then h\<lparr>Reports := Reports h @
                [(ReportId (snd p1), ucast (drop_bit 3 (ucast (ReportCount (snd p1)) * ucast (ReportSize (snd p1)) + 7 :: u32)))]\<rparr>
              else h))"

section \<open>Receiving\<close>

text \<open>\<^verbatim>\<open>_notify\<close>: the packet that is handed to \<^verbatim>\<open>iap2_input\<close>, if the report completes one.\<close>

definition iap2_notify :: "u8 list \<Rightarrow> iap2_hid \<Rightarrow> u8 list option \<times> iap2_hid" where
  "iap2_notify data h =
     (if 2 < length data
      then let lcb = data ! 1;
               h1 = (if lcb AND IAP2_LCB_CONTINUATION = 0 then h\<lparr>HInputOffset := 0\<rparr> else h);
               fit = length data - 2
        in if unat (HInputOffset h1) + fit \<le> IAP2_BUFFER_SIZE
           then let h2 = h1\<lparr>HInputBuffer := store (unat (HInputOffset h1)) (drop 2 data) (HInputBuffer h1)\<rparr>;
                    input_length = unat (HInputOffset h1) + fit
             in if lcb AND IAP2_LCB_MORE_TO_FOLLOW \<noteq> 0 then (None, h2\<lparr>HInputOffset := of_nat input_length\<rparr>)
                else (Some (load 0 input_length (HInputBuffer h2)), h2\<lparr>HInputOffset := of_nat IAP2_BUFFER_SIZE\<rparr>)
           else (None, h1\<lparr>HInputOffset := of_nat IAP2_BUFFER_SIZE\<rparr>)
      else (None, h))"

section \<open>Sending\<close>

fun best_smaller :: "(u8 \<times> u8) list \<Rightarrow> nat \<Rightarrow> (u8 \<times> u8) option \<Rightarrow> nat \<Rightarrow> (u8 \<times> u8) option" where
  "best_smaller [] sz best best_size = best"
| "best_smaller (r # rs) sz best best_size =
     (let report_size = unat (snd r)
      in if report_size \<le> sz \<and> best_size < report_size
         then if report_size = sz then Some r else best_smaller rs sz (Some r) report_size
         else best_smaller rs sz best best_size)"

definition get_best_smaller_report :: "(u8 \<times> u8) list \<Rightarrow> nat \<Rightarrow> (u8 \<times> u8) option" where
  "get_best_smaller_report reports sz = best_smaller reports sz None 0"

fun best_bigger :: "(u8 \<times> u8) list \<Rightarrow> nat \<Rightarrow> (u8 \<times> u8) option \<Rightarrow> nat \<Rightarrow> (u8 \<times> u8) option" where
  "best_bigger [] sz best best_size = best"
| "best_bigger (r # rs) sz best best_size =
     (let report_size = unat (snd r)
      in if sz \<le> report_size \<and> report_size < best_size
         then if report_size = sz then Some r else best_bigger rs sz (Some r) report_size
         else best_bigger rs sz best best_size)"

definition get_best_bigger_report :: "(u8 \<times> u8) list \<Rightarrow> nat \<Rightarrow> (u8 \<times> u8) option" where
  "get_best_bigger_report reports sz = best_bigger reports sz None 65"

text \<open>Differences of unsigned integers.\<close>

definition sub32 :: "nat \<Rightarrow> nat \<Rightarrow> nat" where
  "sub32 a b = (a + 2 ^ 32 - b) mod 2 ^ 32"

text \<open>
  The loop of \<^verbatim>\<open>_iap2_send\<close>: \<open>set_report\<close> is the call that transmits a report, and \<open>buffer\<close> the local array.  The
  first component of the result tells whether the function has returned false.
\<close>

primrec hid_send_loop ::
  "nat \<Rightarrow> (u8 \<Rightarrow> u8 list \<Rightarrow> 's \<Rightarrow> (bool \<times> 's) res) \<Rightarrow> (u8 \<times> u8) list \<Rightarrow> u8 list \<Rightarrow> ram \<Rightarrow> nat \<Rightarrow> nat \<Rightarrow> nat \<Rightarrow> 's \<Rightarrow>
     (bool \<times> ram \<times> nat \<times> nat \<times> 's) res" where
  "hid_send_loop 0 set_report reports data buffer offset payload_offset payload s = Inl OutOfFuel"
| "hid_send_loop (Suc fuel) set_report reports data buffer offset payload_offset payload s =
     (if 0 < payload
      then let fit0 = sub32 64 offset;
               fit1 = (if payload < fit0 then payload else fit0)
        in case get_best_smaller_report reports (offset + fit1) of
             None \<Rightarrow> Inr (False, buffer, offset, payload_offset, s)
           | Some r \<Rightarrow>
               let report_size = unat (snd r) + 1;
                   fit = (if report_size < offset + fit1 then sub32 report_size offset else fit1);
                   b1 = store offset (take fit (drop payload_offset data)) buffer;
                   offset1 = offset + fit
               in if offset1 = report_size
                  then let b2 = store 0 [fst r, b1 1 OR IAP2_LCB_MORE_TO_FOLLOW] b1
                    in rbind (set_report (fst r) (load 0 offset1 b2) s) (\<lambda>(ok, s1).
                         if \<not> ok then Inr (True, b2, offset1, payload_offset + fit, s1)
                         else hid_send_loop fuel set_report reports data (store 1 [IAP2_LCB_CONTINUATION] b2) 2
                           (payload_offset + fit) (sub32 payload fit) s1)
                  else hid_send_loop fuel set_report reports data b1 offset1 (payload_offset + fit) (sub32 payload fit) s
      else Inr (False, buffer, offset, payload_offset, s))"

text \<open>The end of \<^verbatim>\<open>_iap2_send\<close>: the last report is padded with zeros.\<close>

definition hid_send_last ::
  "(u8 \<Rightarrow> u8 list \<Rightarrow> 's \<Rightarrow> (bool \<times> 's) res) \<Rightarrow> (u8 \<times> u8) list \<Rightarrow> u8 list \<Rightarrow> bool \<times> ram \<times> nat \<times> nat \<times> 's \<Rightarrow> (bool \<times> 's) res" where
  "hid_send_last set_report reports data = (\<lambda>(failed, buffer, offset, payload_offset, s).
     if failed then Inr (False, s)
     else case get_best_bigger_report reports offset of
            None \<Rightarrow> Inr (False, s)
          | Some r \<Rightarrow>
              let report_size = unat (snd r) + 1;
                  b1 = store 0 [fst r] buffer;
                  b2 = store offset (drop payload_offset data) b1;
                  offset1 = offset + length (drop payload_offset data)
              in ASSERT (offset1 \<le> 64) KERNEL_ERROR_UNKNOWN
                   (set_report (fst r) (load 0 report_size (store offset1 (replicate (report_size - offset1) 0) b2)) s))"

definition hid_send ::
  "nat \<Rightarrow> (u8 \<Rightarrow> u8 list \<Rightarrow> 's \<Rightarrow> (bool \<times> 's) res) \<Rightarrow> (u8 \<times> u8) list \<Rightarrow> u8 list \<Rightarrow> ram \<Rightarrow> 's \<Rightarrow> (bool \<times> 's) res" where
  "hid_send fuel set_report reports data buffer s =
     ASSERT (data \<noteq> []) KERNEL_ERROR_NOT_SUPPORTED
       (rbind (hid_send_loop fuel set_report reports data (store 1 [IAP2_LCB_START] buffer) 2 0 (length data) s)
         (hid_send_last set_report reports data))"

text \<open>The driver transmits with \<^verbatim>\<open>usb_hid_set_report\<close> on the function of its instance.\<close>

definition iap2_send ::
  "nat \<Rightarrow> ('k hid_state, 'w) usb_host_controller_driver \<Rightarrow> fnid \<Rightarrow> iap2_hid \<Rightarrow> u8 list \<Rightarrow> ram \<Rightarrow> ('k, 'w) hid_host \<Rightarrow> (bool \<times> ('k, 'w) hid_host) res" where
  "iap2_send fuel hcd f h data buffer s = hid_send fuel (usb_hid_set_report hcd f 2) (Reports h) data buffer s"

end
