(* ===== verification/Iap2Reports.thy ===== *)
theory Iap2Reports
  imports Iap2Hid
begin

text \<open>
  Packets of the accessory protocol in reports: what \<^verbatim>\<open>_iap2_send\<close> of Iap2Hid cuts a packet into is put together again by
  \<^verbatim>\<open>_notify\<close>, and the report sizes for which sending does not end.
\<close>

unbundle bit_operations_syntax

declare add_2_eq_Suc [simp del] add_2_eq_Suc' [simp del]

section \<open>Putting reports together\<close>

text \<open>
  A packet cut into reports: \<open>c\<close> is the control byte of the first of them (0 for the start of a packet).
\<close>

fun fragments :: "u8 \<Rightarrow> u8 list list \<Rightarrow> u8 list \<Rightarrow> bool" where
  "fragments c [] bs \<longleftrightarrow> False"
| "fragments c [r] bs \<longleftrightarrow> 2 < length r \<and> r ! 1 = c \<and> drop 2 r = bs"
| "fragments c (r # r' # rs) bs \<longleftrightarrow>
     2 < length r \<and> r ! 1 = c OR IAP2_LCB_MORE_TO_FOLLOW \<and> take (length r - 2) bs = drop 2 r \<and> fragments 1 (r' # rs) (drop (length r - 2) bs)"

primrec feed :: "u8 list list \<Rightarrow> iap2_hid \<Rightarrow> u8 list option list \<times> iap2_hid" where
  "feed [] h = ([], h)"
| "feed (r # rs) h = (let (p, h1) = iap2_notify r h; (ps, h2) = feed rs h1 in (p # ps, h2))"

lemma load_store_tail: "load 0 (length pre) m = pre \<Longrightarrow> load 0 (length pre + length d) (store (length pre) d m) = pre @ d"
  by (simp add: load_append_iff load_store_same load_store_other)

lemma lcb_bits:
  "(0 :: u8) AND 1 = 0" "(0 :: u8) AND 2 = 0" "(1 :: u8) AND 1 \<noteq> 0" "(1 :: u8) AND 2 = 0"
  "((0 :: u8) OR 2) AND 1 = 0" "((0 :: u8) OR 2) AND 2 \<noteq> 0" "((1 :: u8) OR 2) AND 1 \<noteq> 0" "((1 :: u8) OR 2) AND 2 \<noteq> 0"
  by simp_all

text \<open>The reports of a packet yield the packet, with the last of them, and nothing before.\<close>

lemma feed_fragments:
  assumes "fragments c rs bs" and "c = 0 \<and> pre = [] \<or> c = 1 \<and> unat (HInputOffset h) = length pre \<and> load 0 (length pre) (HInputBuffer h) = pre"
    and "length pre + length bs \<le> IAP2_BUFFER_SIZE"
  shows "fst (feed rs h) = replicate (length rs - 1) None @ [Some (pre @ bs)]"
  using assms
proof (induction c rs bs arbitrary: pre h rule: fragments.induct)
  case (1 c bs)
  then show ?case by simp
next
  case (2 c r bs)
  let ?h = "if c = 0 then h\<lparr>HInputOffset := 0\<rparr> else h"
  have o: "unat (HInputOffset ?h) = length pre" "load 0 (length pre) (HInputBuffer ?h) = pre" using 2(2) by auto
  have b: "bs = drop 2 r" "2 < length r" "r ! 1 = c" using 2(1) by simp_all
  have "load 0 (length pre + length bs) (store (length pre) bs (HInputBuffer h)) = pre @ bs"
    using o(2) load_store_tail [of pre "HInputBuffer h" bs] by (cases "c = 0") simp_all
  then show ?case
    using 2(2,3) b o by (auto simp: iap2_notify_def Let_def lcb_bits)
next
  case (3 c r r' rs bs)
  let ?o = "if c = 0 then h\<lparr>HInputOffset := 0\<rparr> else h" and ?d = "drop 2 r"
  have f: "2 < length r" "r ! 1 = c OR 2" "take (length r - 2) bs = ?d" "fragments 1 (r' # rs) (drop (length r - 2) bs)"
    using 3(2) by simp_all
  have bs: "bs = ?d @ drop (length r - 2) bs" using f(3) by (metis append_take_drop_id)
  have o: "unat (HInputOffset ?o) = length pre" "load 0 (length pre) (HInputBuffer ?o) = pre" using 3(3) by auto
  have le: "length pre + length ?d \<le> 4096" "length (pre @ ?d) + length (drop (length r - 2) bs) \<le> 4096"
    using 3(4) arg_cong [OF f(3), of length] by auto
  let ?h = "?o\<lparr>HInputBuffer := store (length pre) ?d (HInputBuffer h), HInputOffset := of_nat (length pre + length ?d)\<rparr>"
  have "HInputOffset ?o = of_nat (length pre)" using o(1) by (metis ucast_of_nat ucast_id)
  then have n: "iap2_notify r h = (None, ?h)"
    using 3(3) f(1,2) le(1) o by (auto simp: iap2_notify_def Let_def lcb_bits)
  have "load 0 (length (pre @ ?d)) (HInputBuffer ?h) = pre @ ?d"
    using o(2) load_store_tail [of pre "HInputBuffer h" ?d] by (cases "c = 0") simp_all
  moreover have "unat (HInputOffset ?h) = length (pre @ ?d)" using le(1) by (simp add: unat_u16_of_nat del: of_nat_add)
  ultimately have "fst (feed (r' # rs) ?h) = replicate (length (r' # rs) - 1) None @ [Some ((pre @ ?d) @ drop (length r - 2) bs)]"
    using 3(1) [OF f(4), of "pre @ ?d" ?h] le(2) by simp
  then show ?case using n bs by (simp add: case_prod_beta Let_def)
qed

section \<open>Choosing reports\<close>

lemma best_smaller_Some: "best_smaller rs sz best n = Some r \<Longrightarrow> best = Some r \<or> r \<in> set rs \<and> unat (snd r) \<le> sz"
  by (induction rs sz best n rule: best_smaller.induct) (auto simp: Let_def split: if_splits)

lemma best_smaller_None: "best_smaller rs sz best n = None \<Longrightarrow> best = None \<and> (\<forall>r\<in>set rs. sz < unat (snd r) \<or> unat (snd r) \<le> n)"
  by (induction rs sz best n rule: best_smaller.induct) (auto simp: Let_def split: if_splits)

lemma best_bigger_Some: "best_bigger rs sz best n = Some r \<Longrightarrow> best = Some r \<or> r \<in> set rs \<and> sz \<le> unat (snd r)"
  by (induction rs sz best n rule: best_bigger.induct) (auto simp: Let_def split: if_splits)

lemma best_bigger_None: "best_bigger rs sz best n = None \<Longrightarrow> best = None \<and> (\<forall>r\<in>set rs. unat (snd r) < sz \<or> n \<le> unat (snd r))"
  by (induction rs sz best n rule: best_bigger.induct) (auto simp: Let_def split: if_splits)

text \<open>Reports that the loop can use: with the id they fit in the array and have room for data.\<close>

definition reports_ok :: "(u8 \<times> u8) list \<Rightarrow> bool" where
  "reports_ok reports \<longleftrightarrow> reports \<noteq> [] \<and> (\<forall>r\<in>set reports. 2 \<le> unat (snd r) \<and> unat (snd r) \<le> 63)"

lemma smaller_Some:
  "get_best_smaller_report reports sz = Some r \<Longrightarrow> reports_ok reports \<Longrightarrow> r \<in> set reports \<and> 2 \<le> unat (snd r) \<and> unat (snd r) \<le> min 63 sz"
  unfolding get_best_smaller_report_def reports_ok_def by (auto dest: best_smaller_Some)

lemma smaller_None:
  "get_best_smaller_report reports sz = None \<Longrightarrow> reports_ok reports \<Longrightarrow> r \<in> set reports \<Longrightarrow> sz < unat (snd r)"
  unfolding get_best_smaller_report_def reports_ok_def by (fastforce dest!: best_smaller_None)

lemma bigger_ex:
  assumes "reports_ok reports" and "r \<in> set reports" and "sz \<le> unat (snd r)"
  obtains q where "get_best_bigger_report reports sz = Some q" and "q \<in> set reports" and "sz \<le> unat (snd q)" and "unat (snd q) \<le> 63"
proof (cases "get_best_bigger_report reports sz")
  case None
  then show ?thesis using assms unfolding get_best_bigger_report_def reports_ok_def by (fastforce dest!: best_bigger_None)
next
  case (Some q)
  then show ?thesis using assms that unfolding get_best_bigger_report_def reports_ok_def by (auto dest!: best_bigger_Some)
qed

section \<open>Cutting packets\<close>

text \<open>A device that accepts every report; \<open>rs\<close> are the reports it has got.\<close>

definition record_report :: "u8 \<Rightarrow> u8 list \<Rightarrow> u8 list list \<Rightarrow> (bool \<times> u8 list list) res" where
  "record_report i bs rs = Inr (True, rs @ [bs])"

lemma sub32_le: "b \<le> a \<Longrightarrow> a < 2 ^ 32 \<Longrightarrow> sub32 a b = a - b"
proof -
  assume "b \<le> a" "a < 2 ^ 32"
  then have "a + 2 ^ 32 - b = 2 ^ 32 + (a - b)" "a - b < 2 ^ 32" by simp_all
  then show ?thesis unfolding sub32_def by (metis mod_add_self1 mod_less)
qed

text \<open>What the last report holds: \<open>done\<close> is what the array already has of it.\<close>

lemma last_report:
  assumes "reports_ok reports" and "get_best_bigger_report reports offset = Some q" and "q \<in> set reports"
    and "offset + length (drop po data) \<le> unat (snd q)" and "2 \<le> offset" and "b 1 = c"
  shows "\<exists>r. hid_send_last record_report reports data (False, b, offset, po, rs) = Inr (True, rs @ [r]) \<and>
    fragments c [r] (load 2 (offset - 2) b @ drop po data @ replicate (unat (snd q) + 1 - offset - length (drop po data)) 0) \<and> length r \<le> 64"
proof -
  let ?d = "drop po data" and ?n = "unat (snd q) + 1"
  let ?z = "replicate (?n - (offset + length ?d)) 0"
  let ?b = "store (offset + length ?d) ?z (store offset ?d (store 0 [fst q] b))" and ?r = "load 0 ?n (store (offset + length ?d) (replicate (?n - (offset + length ?d)) 0) (store offset ?d (store 0 [fst q] b)))"
  have q: "unat (snd q) \<le> 63" using assms(1,3) by (auto simp: reports_ok_def)
  have "?b = store offset (?d @ ?z) (store 0 [fst q] b)" by (rule store_append)
  moreover have "load offset (length (?d @ ?z)) (store offset (?d @ ?z) m) = ?d @ ?z" for m by (rule load_store_same) simp
  moreover have "load 2 (offset - 2) (store offset (?d @ ?z) (store 0 [fst q] b)) = load 2 (offset - 2) b"
    using assms(5) by (simp add: load_store_other)
  moreover have "load 2 (?n - 2) m = load 2 (offset - 2) m @ load offset (length (?d @ ?z)) m" for m
    using load_split [of "offset - 2" "?n - 2" 2 m] assms(4,5) by simp
  moreover have "drop 2 ?r = load 2 (?n - 2) ?b" using load_split [of 2 ?n 0 ?b] assms(4,5) by simp
  ultimately have "drop 2 ?r = load 2 (offset - 2) b @ ?d @ ?z" by simp
  moreover have "?r ! 1 = c" using assms(4,5,6) by (simp add: store_other)
  ultimately show ?thesis
    using assms(2,4,5) q unfolding hid_send_last_def record_report_def by (auto simp: Let_def)
qed

lemma hid_send_step:
  assumes "0 < p" and "(if p < sub32 64 2 then p else sub32 64 2) = fit" and "get_best_smaller_report reports (2 + fit) = Some r"
    and "(if unat (snd r) + 1 < 2 + fit then sub32 (unat (snd r) + 1) 2 else fit) = n" and "2 + n = unat (snd r) + 1" and "sub32 p n = p - n"
  shows "hid_send_loop (Suc f) record_report reports data b 2 po p rs =
    (let b1 = store 2 (take n (drop po data)) b; b2 = store 0 [fst r, b1 1 OR 2] b1
     in hid_send_loop f record_report reports data (store 1 [1] b2) 2 (po + n) (p - n) (rs @ [load 0 (unat (snd r) + 1) b2]))"
  by (simp only: hid_send_loop.simps Let_def if_P [OF assms(1)] assms(2) assms(3) option.case assms(4))
     (simp add: assms record_report_def)

lemma hid_send_fragments:
  assumes "reports_ok reports" and "length data < 2 ^ 32" and "po \<le> length data" and "length data - po < fuel" and "b 1 = c" and "c \<in> {0, 1}"
  shows "\<exists>new k. rbind (hid_send_loop fuel record_report reports data b 2 po (length data - po) rs) (hid_send_last record_report reports data)
      = Inr (True, rs @ new) \<and> fragments c new (drop po data @ replicate k 0) \<and> k \<le> 62 \<and> (\<forall>r\<in>set new. length r \<le> 64)"
  using assms(3-6)
proof (induction "length data - po" arbitrary: po fuel b c rs rule: less_induct)
  case less
  obtain f where f: "fuel = Suc f" using less.prems(2) by (cases fuel) simp_all
  obtain r0 where r0: "r0 \<in> set reports" "2 \<le> unat (snd r0)" "unat (snd r0) \<le> 63"
    using assms(1) by (fastforce simp: reports_ok_def neq_Nil_conv)
  show ?case
  proof (cases "length data = po")
    case True
    obtain q where q: "get_best_bigger_report reports 2 = Some q" "q \<in> set reports" "2 \<le> unat (snd q)" "unat (snd q) \<le> 63"
      using bigger_ex [OF assms(1) r0(1,2)] by blast
    obtain r where "hid_send_last record_report reports data (False, b, 2, po, rs) = Inr (True, rs @ [r])"
      "fragments c [r] (load 2 (2 - 2) b @ drop po data @ replicate (unat (snd q) + 1 - 2 - length (drop po data)) 0)" "length r \<le> 64"
      using last_report [OF assms(1) q(1,2), of po data b c rs] q True less.prems(3) by auto
    then show ?thesis using True q by (intro exI [of _ "[r]"] exI [of _ "unat (snd q) - 1"]) (simp add: f)
  next
    case False
    let ?p = "length data - po"
    let ?fit = "min ?p 62"
    have p: "0 < ?p" using False less.prems(1) by simp
    have fit1: "(if ?p < sub32 64 2 then ?p else sub32 64 2) = ?fit" by (simp add: sub32_le)
    show ?thesis
    proof (cases "get_best_smaller_report reports (2 + ?fit)")
      case None
      have all: "2 + ?p < unat (snd r)" if "r \<in> set reports" for r
        using smaller_None [OF None assms(1) that] that assms(1) by (fastforce simp: reports_ok_def min_def split: if_splits)
      obtain q where q: "get_best_bigger_report reports 2 = Some q" "q \<in> set reports" "unat (snd q) \<le> 63"
        using bigger_ex [OF assms(1) r0(1,2)] by blast
      obtain r where "hid_send_last record_report reports data (False, b, 2, po, rs) = Inr (True, rs @ [r])"
        "fragments c [r] (load 2 (2 - 2) b @ drop po data @ replicate (unat (snd q) + 1 - 2 - length (drop po data)) 0)" "length r \<le> 64"
        using last_report [OF assms(1) q(1,2), of po data b c rs] all [OF q(2)] less.prems(3) by auto
      then show ?thesis using None p q fit1
        by (intro exI [of _ "[r]"] exI [of _ "unat (snd q) + 1 - 2 - length (drop po data)"]) (simp add: f Let_def)
    next
      case (Some r)
      have r: "r \<in> set reports" "2 \<le> unat (snd r)" "unat (snd r) \<le> 63" "unat (snd r) \<le> 2 + ?fit" using smaller_Some [OF Some assms(1)] by auto
      show ?thesis
      proof (cases "unat (snd r) = 2 + ?fit")
        case True
        then have all: "?fit = ?p" "unat (snd r) = 2 + ?p" "?p < 62" using r(3) by auto
        let ?b = "store 2 (drop po data) b"
        obtain g where g: "f = Suc g" using less.prems(2) p f by (cases f) simp_all
        have loop: "hid_send_loop fuel record_report reports data b 2 po ?p rs = Inr (False, ?b, unat (snd r), length data, rs)"
          using Some p all less.prems(1) assms(2) fit1 by (simp add: f g Let_def sub32_le)
        obtain q where q: "get_best_bigger_report reports (unat (snd r)) = Some q" "q \<in> set reports" "unat (snd r) \<le> unat (snd q)" "unat (snd q) \<le> 63"
          using bigger_ex [OF assms(1) r(1)] by blast
        have "load 2 (unat (snd r) - 2) ?b = drop po data" using all by (simp add: load_store_same)
        then obtain x where "hid_send_last record_report reports data (False, ?b, unat (snd r), length data, rs) = Inr (True, rs @ [x])"
          "fragments c [x] (drop po data @ replicate (unat (snd q) + 1 - unat (snd r)) 0)" "length x \<le> 64"
          using last_report [OF assms(1) q(1,2), of "length data" data ?b c rs] q(3) r(2) less.prems(3) by (auto simp: store_other)
        then show ?thesis using r(2) q(4)
          by (intro exI [of _ "[x]"] exI [of _ "unat (snd q) + 1 - unat (snd r)"]) (simp add: loop)
      next
        case False
        let ?n = "unat (snd r) - 1"
        have n: "1 \<le> ?n" "?n \<le> ?fit" "?n \<le> ?p" using r(2,4) False by auto
        have fit2: "(if unat (snd r) + 1 < 2 + ?fit then sub32 (unat (snd r) + 1) 2 else ?fit) = ?n"
          using n r(2,3) by (auto simp: sub32_le)
        let ?b1 = "store 2 (take ?n (drop po data)) b"
        let ?b2 = "store 0 [fst r, ?b1 1 OR 2] ?b1"
        let ?x = "load 0 (unat (snd r) + 1) ?b2"
        have len: "length (take ?n (drop po data)) = ?n" using n by simp
        have eq: "hid_send_loop fuel record_report reports data b 2 po ?p rs =
            hid_send_loop f record_report reports data (store 1 [1] ?b2) 2 (po + ?n) (length data - (po + ?n)) (rs @ [?x])"
          using hid_send_step [OF p fit1 Some fit2, of f data b po rs] n r(2) assms(2) by (simp add: f Let_def sub32_le diff_diff_add)
        have "length data - (po + ?n) < ?p" "po + ?n \<le> length data" "length data - (po + ?n) < f" "store 1 [1] ?b2 1 = 1" "(1 :: u8) \<in> {0, 1}"
          using n less.prems(1,2) f by (auto simp: store_first)
        from less.hyps [of "po + ?n" f "store 1 [1] ?b2" 1 "rs @ [?x]", OF this]
        obtain new k where new: "rbind (hid_send_loop f record_report reports data (store 1 [1] ?b2) 2 (po + ?n) (length data - (po + ?n)) (rs @ [?x]))
              (hid_send_last record_report reports data) = Inr (True, (rs @ [?x]) @ new)"
            "fragments 1 new (drop (po + ?n) data @ replicate k 0)" "k \<le> 62" "\<forall>r\<in>set new. length r \<le> 64"
          by blast
        have "drop 2 ?x = load 2 ?n ?b2" using load_split [of 2 "unat (snd r) + 1" 0 ?b2] r(2) by simp
        also have "\<dots> = take ?n (drop po data)" using len by (simp add: load_store_other load_store_same)
        finally have d: "drop 2 ?x = take ?n (drop po data)" .
        have "?x ! 1 = c OR 2" using less.prems(3) r(2) by (simp add: store_def)
        moreover obtain y ys where "new = y # ys" using new(2) by (cases new) auto
        moreover have "take ?n (drop po data @ replicate k 0) = take ?n (drop po data)"
          "drop ?n (drop po data @ replicate k 0) = drop (po + ?n) data @ replicate k 0" using n(3) by (simp_all add: add.commute)
        moreover have "length ?x - 2 = ?n" "2 < length ?x" using r(2) by simp_all
        ultimately have "fragments c (?x # new) (drop po data @ replicate k 0)"
          using d new(2) by (simp only: fragments.simps simp_thms)
        then show ?thesis
          using new r(3) by (intro exI [of _ "?x # new"] exI [of _ k]) (simp add: eq)
      qed
    qed
  qed
qed
text \<open>The calls of \<^verbatim>\<open>_iap2_send\<close> on a device that takes every report.\<close>

lemma hid_send_cuts:
  assumes "reports_ok reports" and "data \<noteq> []" and "length data < 2 ^ 32" and "length data < fuel"
  shows "\<exists>rs k. hid_send fuel record_report reports data buffer [] = Inr (True, rs) \<and> fragments 0 rs (data @ replicate k 0) \<and>
    k \<le> 62 \<and> (\<forall>r\<in>set rs. length r \<le> 64)"
  using hid_send_fragments [OF assms(1,3), of 0 fuel "store 1 [0] buffer" 0 "[]"] assms(2,4)
  by (simp add: hid_send_def store_first)

text \<open>A packet of up to 4034 bytes goes through the reports of a device unchanged: whatever report sizes between 2 and 63
  bytes the device offers, sending ends, no report is longer than the array it is built in, and the reassembly of the same driver,
  whatever it has received before, hands over the packet with the last report and nothing before, followed by at most 62 zeros.
\<close>

theorem iap2_reports_roundtrip:
  assumes "reports_ok reports" and "data \<noteq> []" and "length data \<le> 4034" and "length data < fuel"
  shows "\<exists>rs k. hid_send fuel record_report reports data buffer [] = Inr (True, rs) \<and> (\<forall>r\<in>set rs. length r \<le> 64) \<and>
    fst (feed rs h) = replicate (length rs - 1) None @ [Some (data @ replicate k 0)] \<and> k \<le> 62"
proof -
  obtain rs k where "hid_send fuel record_report reports data buffer [] = Inr (True, rs)" "fragments 0 rs (data @ replicate k 0)"
    "k \<le> 62" "\<forall>r\<in>set rs. length r \<le> 64"
    using hid_send_cuts [OF assms(1,2) _ assms(4)] assms(3) by fastforce
  then show ?thesis using feed_fragments [of 0 rs "data @ replicate k 0" "[]" h] assms(3) by auto
qed

theorem iap2_reports_roundtrip_witness:
  "\<exists>rs k. hid_send 101 record_report [(9, 5), (10, 13)] (replicate 100 7) (\<lambda>_. 0) [] = Inr (True, rs) \<and>
    fst (feed rs \<lparr>Reports = [], HInputOffset = 77, HInputBuffer = \<lambda>_. 1\<rparr>)
      = replicate (length rs - 1) None @ [Some (replicate 100 7 @ replicate k 0)]"
proof -
  have ok: "reports_ok [(9, 5), (10, 13)]" by (simp add: reports_ok_def)
  have "replicate 100 (7 :: u8) \<noteq> []" "length (replicate 100 (7 :: u8)) \<le> 4034" "length (replicate 100 (7 :: u8)) < 101" by simp_all
  from iap2_reports_roundtrip [OF ok this, of "\<lambda>_. 0" "\<lparr>Reports = [], HInputOffset = 77, HInputBuffer = \<lambda>_. 1\<rparr>"]
  show ?thesis by blast
qed

section \<open>Reports that are too long\<close>

lemma best_smaller_exact:
  "(i, l) \<in> set rs \<Longrightarrow> unat l = sz \<Longrightarrow> n < sz \<Longrightarrow> \<exists>r. best_smaller rs sz best n = Some r \<and> unat (snd r) = sz"
  by (induction rs sz best n rule: best_smaller.induct) (auto simp: Let_def)

lemma hid_send_stuck:
  assumes "(i, 64) \<in> set reports" and "0 < payload" and "payload < 2 ^ 32"
  shows "hid_send_loop fuel set_report reports data b 64 po payload s = Inl OutOfFuel"
proof (induction fuel)
  case (Suc fuel)
  obtain r where "get_best_smaller_report reports 64 = Some r" "unat (snd r) = 64"
    using best_smaller_exact [OF assms(1), of 64 0 None] by (auto simp: get_best_smaller_report_def)
  then show ?case using Suc assms(2,3) by (simp add: Let_def sub32_le)
qed simp

text \<open>
  A report of 64 bytes makes sending run for ever: a packet of more than 62 bytes fills the array without a report being sent, and
  the loop then makes no progress, whatever the fuel.
\<close>

theorem hid_send_hangs:
  assumes "(i, 64) \<in> set reports" and "62 < length data" and "length data < 2 ^ 32"
  shows "hid_send fuel set_report reports data buffer s = Inl OutOfFuel"
proof (cases fuel)
  case 0
  then show ?thesis using assms(2) by (cases data) (simp_all add: hid_send_def)
next
  case (Suc f)
  obtain r where "get_best_smaller_report reports 64 = Some r" "unat (snd r) = 64"
    using best_smaller_exact [OF assms(1), of 64 0 None] by (auto simp: get_best_smaller_report_def)
  then show ?thesis
    using assms(2,3) by (auto simp: hid_send_def Suc Let_def sub32_le hid_send_stuck [OF assms(1)])
qed

end
