(* ===== verification/Cp30.thy ===== *)
theory Cp30
  imports Prelude
begin

text \<open>
  The authentication coprocessor of an accessory (\<^verbatim>\<open>exos/support/apple/cp30.c\<close>), on an I2C bus.  The two transfers
  of the bus driver are arguments: they work on a state of the bus and the chip and tell whether the chip has answered; a read also
  yields the bytes of the buffer.  The pauses between attempts only let time pass.
\<close>

unbundle bit_operations_syntax

section \<open>Registers\<close>

record 'w i2c =
  i2c_write :: "u8 list \<Rightarrow> 'w \<Rightarrow> bool \<times> 'w"          \<comment> \<open>the register, if any, and the bytes\<close>
  i2c_read :: "nat \<Rightarrow> 'w \<Rightarrow> bool \<times> (nat \<Rightarrow> u8) \<times> 'w"

text \<open>\<^verbatim>\<open>_read\<close>: up to ten reads for each of up to three selections of the register.\<close>

primrec cp_read_retry :: "nat \<Rightarrow> 'w i2c \<Rightarrow> nat \<Rightarrow> 'w \<Rightarrow> u8 list option \<times> 'w" where
  "cp_read_retry 0 bus len w = (None, w)"
| "cp_read_retry (Suc retry2) bus len w =
     (let (ok, bs, w1) = i2c_read bus len w in if ok then (Some (map bs [0..<len]), w1) else cp_read_retry retry2 bus len w1)"

primrec cp_select :: "nat \<Rightarrow> 'w i2c \<Rightarrow> u8 \<Rightarrow> nat \<Rightarrow> 'w \<Rightarrow> u8 list option \<times> 'w" where
  "cp_select 0 bus reg len w = (None, w)"
| "cp_select (Suc retry) bus reg len w =
     (let (ok, w1) = i2c_write bus [reg] w;
          (r, w2) = (if ok then cp_read_retry 10 bus len w1 else (None, w1))
      in if r \<noteq> None then (r, w2) else cp_select retry bus reg len w2)"

definition cp_read :: "'w i2c \<Rightarrow> u8 \<Rightarrow> u8 \<Rightarrow> 'w \<Rightarrow> u8 list option \<times> 'w" where
  "cp_read bus reg len w = cp_select 3 bus reg (unat len) w"

primrec cp_write_retry :: "nat \<Rightarrow> 'w i2c \<Rightarrow> u8 list \<Rightarrow> 'w \<Rightarrow> bool \<times> 'w" where
  "cp_write_retry 0 bus bs w = (False, w)"
| "cp_write_retry (Suc retry) bus bs w =
     (let (ok, w1) = i2c_write bus bs w in if ok then (True, w1) else cp_write_retry retry bus bs w1)"

definition cp_write :: "'w i2c \<Rightarrow> u8 \<Rightarrow> u8 list \<Rightarrow> 'w \<Rightarrow> bool \<times> 'w" where
  "cp_write bus reg bs w = cp_write_retry 10 bus (reg # bs) w"

section \<open>Operations\<close>

definition apple_cp30_read_device_id :: "'w i2c \<Rightarrow> 'w \<Rightarrow> u32 option \<times> 'w" where
  "apple_cp30_read_device_id bus w =
     (case cp_read bus 4 4 w of
        (Some b, w1) \<Rightarrow> (Some (push_bit 24 (ucast (b ! 0)) OR push_bit 16 (ucast (b ! 1)) OR push_bit 8 (ucast (b ! 2)) OR ucast (b ! 3)), w1)
      | (None, w1) \<Rightarrow> (None, w1))"

text \<open>\<^verbatim>\<open>apple_cp30_initialize\<close>: \<open>bus i\<close> is the bus with the chip at address 0x10 + i; the address that answered is the
  second component.\<close>

definition apple_cp30_initialize :: "(nat \<Rightarrow> 'w i2c) \<Rightarrow> 'w \<Rightarrow> bool \<times> nat \<times> 'w" where
  "apple_cp30_initialize bus w =
     (let (r, w1) = apple_cp30_read_device_id (bus 0) w
      in if r = Some 0x300 then (True, 0, w1)
         else let (r', w2) = apple_cp30_read_device_id (bus 1) w1 in (r' = Some 0x300, 1, w2))"

definition cp_length :: "u8 list \<Rightarrow> u16" where
  "cp_length b = push_bit 8 (ucast (b ! 0)) OR ucast (b ! 1)"

definition apple_cp30_read_acc_cert_length :: "'w i2c \<Rightarrow> 'w \<Rightarrow> u16 option \<times> 'w" where
  "apple_cp30_read_acc_cert_length bus w = (let (r, w1) = cp_read bus 0x30 2 w in (map_option cp_length r, w1))"

text \<open>
  \<^verbatim>\<open>apple_cp30_read_acc_cert\<close>: the certificate is read in blocks of 128 bytes from consecutive registers; \<open>fuel\<close> bounds the
  blocks (512 are enough for any 16-bit length).  The bytes that were read are returned also when a block fails.
\<close>

primrec cert_loop :: "nat \<Rightarrow> 'w i2c \<Rightarrow> u8 \<Rightarrow> nat \<Rightarrow> u8 list \<Rightarrow> 'w \<Rightarrow> u8 list \<times> 'w" where
  "cert_loop 0 bus reg len got w = (got, w)"
| "cert_loop (Suc fuel) bus reg len got w =
     (if length got < len
      then case cp_read bus reg (of_nat (min 128 (len - length got))) w of
             (Some bs, w1) \<Rightarrow> cert_loop fuel bus (reg + 1) len (got @ bs) w1
           | (None, w1) \<Rightarrow> (got, w1)
      else (got, w))"

definition apple_cp30_read_acc_cert :: "'w i2c \<Rightarrow> u16 \<Rightarrow> 'w \<Rightarrow> bool \<times> u8 list \<times> 'w" where
  "apple_cp30_read_acc_cert bus len w =
     (let (bs, w1) = cert_loop 513 bus 0x31 (unat len) [] w in (length bs = unat len, bs, w1))"

text \<open>The wait for the result of a challenge: the chip is asked until it answers.\<close>

primrec challenge_wait :: "nat \<Rightarrow> 'w i2c \<Rightarrow> 'w \<Rightarrow> (bool \<times> 'w) res" where
  "challenge_wait 0 bus w = Inl OutOfFuel"
| "challenge_wait (Suc fuel) bus w =
     (case cp_read bus 0x10 1 w of
        (Some b, w1) \<Rightarrow> let acas = b ! 0 in Inr (acas AND 0x80 = 0 \<and> drop_bit 4 (acas AND 0x70) = 1, w1)
      | (None, w1) \<Rightarrow> challenge_wait fuel bus w1)"

definition apple_cp30_begin_challenge :: "nat \<Rightarrow> 'w i2c \<Rightarrow> u8 list \<Rightarrow> 'w \<Rightarrow> (u16 option \<times> 'w) res" where
  "apple_cp30_begin_challenge fuel bus challenge w =
     (if length challenge \<noteq> 32 then Inr (None, w)
      else let (ok, w1) = cp_write bus 0x21 challenge w
        in if \<not> ok then Inr (None, w1)
           else let (b, w2) = cp_read bus 0x20 2 w1
             in if b \<noteq> None \<and> the b ! 0 = 0 \<and> the b ! 1 = 32
                then let (_, w3) = cp_write bus 0x10 [1] w2
                  in rbind (challenge_wait fuel bus w3) (\<lambda>(done, w4).
                       if done then Inr (let (r, w5) = cp_read bus 0x11 2 w4 in (map_option cp_length r, w5))
                       else Inr (None, w4))
                else Inr (None, w2))"

text \<open>The length of the response is cut to 8 bits by the call of \<^verbatim>\<open>_read\<close>.\<close>

definition apple_cp30_read_challenge_resp :: "'w i2c \<Rightarrow> u16 \<Rightarrow> 'w \<Rightarrow> u8 list option \<times> 'w" where
  "apple_cp30_read_challenge_resp bus len w = cp_read bus 0x12 (ucast len) w"

section \<open>Reading the certificate\<close>

text \<open>A chip that answers every read of a certificate register with the bytes of its block.\<close>

definition serves_certificate :: "'w i2c \<Rightarrow> u8 list \<Rightarrow> ('w \<Rightarrow> bool) \<Rightarrow> bool" where
  "serves_certificate bus cert good \<longleftrightarrow>
     (\<forall>w i. good w \<longrightarrow> 128 * i < length cert \<longrightarrow>
        (\<exists>w1. cp_read bus (0x31 + of_nat i) (of_nat (min 128 (length cert - 128 * i))) w = (Some (take 128 (drop (128 * i) cert)), w1) \<and> good w1))"

lemma cert_loop_reads:
  assumes "serves_certificate bus cert good" and "good w" and "got = take (128 * i) cert" and "128 * i \<le> length cert + 127"
    and "length cert < 128 * (i + fuel)"
  shows "\<exists>w1. cert_loop fuel bus (0x31 + of_nat i) (length cert) got w = (cert, w1)"
  using assms(2-5)
proof (induction fuel arbitrary: i got w)
  case 0
  then show ?case by simp
next
  case (Suc fuel)
  show ?case
  proof (cases "128 * i < length cert")
    case True
    then have g: "length got = 128 * i" using Suc.prems(2) by simp
    obtain w1 where w1: "cp_read bus (0x31 + of_nat i) (of_nat (min 128 (length cert - 128 * i))) w = (Some (take 128 (drop (128 * i) cert)), w1)" "good w1"
      using assms(1) Suc.prems(1) True unfolding serves_certificate_def by blast
    have "got @ take 128 (drop (128 * i) cert) = take (128 * (i + 1)) cert"
      using Suc.prems(2) by (simp add: take_add [symmetric] algebra_simps)
    then show ?thesis using Suc.IH [OF w1(2), of _ "i + 1"] Suc.prems(4) True g w1(1) by (simp add: add.assoc add.commute)
  next
    case False
    then show ?thesis using Suc.prems(2) by simp
  qed
qed

lemma read_acc_cert_reads:
  assumes "serves_certificate bus cert good" and "good w" and "length cert < 65536"
  shows "\<exists>w1. apple_cp30_read_acc_cert bus (of_nat (length cert)) w = (True, cert, w1)"
proof -
  have "unat (of_nat (length cert) :: u16) = length cert" using assms(3) by (intro of_nat_inverse) auto
  then show ?thesis
    using cert_loop_reads [OF assms(1,2), of "[]" 0 513] assms(3) by (auto simp: apple_cp30_read_acc_cert_def Let_def)
qed

end
