(* ===== verification/Iap2Link.thy ===== *)
theory Iap2Link
  imports Iap2Packet Cp30 DeviceIo Fifo Pools
begin

text \<open>
  The link and the sessions of the accessory protocol (\<^verbatim>\<open>exos/support/apple/iap2/iap2.c\<close>): the buffers, the
  synchronisation of the link, the messages of the control session (authentication, identification, external accessory sessions)
  and the data of external accessory sessions, which go to and come from devices.  The service thread serves dispatchers; a
  handler returns the time-out with which it adds its dispatcher again, if it does, and the dispatchers of the protocols are
  represented by the list of the protocols that have one.
\<close>

unbundle bit_operations_syntax

section \<open>State\<close>

record iap2_link_session =
  SId :: u8
  SType :: u8
  SVer :: u8

record iap2_link_params =
  MaxRcvPacketLength :: u16
  RetransmitTimeout :: u16
  CumulativeAckTimeout :: u16
  MaxNumOutstandingPackets :: u8
  MaxRetransmits :: u8
  MaxCumulativeAcks :: u8

record iap2_protocol =
  HasContext :: bool                \<comment> \<open>\<^verbatim>\<open>Context\<close> is not null\<close>
  PEntry :: io_entry                \<comment> \<open>\<^verbatim>\<open>IoEntry\<close>\<close>
  CurrentSessionId :: u16
  ProtocolId :: u8
  Url :: cstring
  Filename :: cstring

text \<open>
  The static variables, the context and the transport.  Buffers and protocols are named by their addresses.  \<open>'w\<close> is the
  state of the transport, of the devices and of the coprocessor.
\<close>

record 'w iap2 =
  iap2_kernel :: kernel
  iap2_world :: 'w
  iap2_buffers :: "nat \<Rightarrow> iap2_buffer"
  input_pool :: "nat list"
  output_pool :: "nat list"
  input_fifo :: fifo_t
  protocols :: "nat list"
  protocol :: "nat \<Rightarrow> iap2_protocol"
  Seq :: u8
  Ack :: u8
  SyncDone :: bool
  SyncFifo :: fifo_t
  Sessions :: "iap2_link_session list"
  LinkParams :: iap2_link_params
  ea_dispatched :: "nat list"

text \<open>
  The code the service calls: the functions of the transport driver, the devices, the coprocessor, and the rest of a
  device call that waits; \<open>env_fuel\<close> is the fuel of the loops that may not end.
\<close>

record 'w iap2_env =
  Send :: "u8 list \<Rightarrow> 'w \<Rightarrow> kernel \<Rightarrow> (bool \<times> 'w \<times> kernel) res"
  Identify :: "iap2_control_parameters \<Rightarrow> 'w \<Rightarrow> (u16 \<times> iap2_control_parameters \<times> 'w) res"
  IoDrivers :: "did \<Rightarrow> 'w io_driver"
  IoTree :: tree
  IoDevices :: devices
  IoRest :: "io_entry \<Rightarrow> io_call \<Rightarrow> u8 list \<Rightarrow> 'w \<Rightarrow> kernel \<Rightarrow> (int \<times> u8 list \<times> 'w \<times> kernel) res"
  EaElapsed :: u32                  \<comment> \<open>the arguments of the waits of the service thread\<close>
  EaWait :: "hid \<times> hid \<times> tmid"
  CpBus :: "'w i2c"
  ProductPlanUID :: cstring         \<comment> \<open>\<^verbatim>\<open>IAP2_PRODUCT_PLAN_UID\<close>, which a program defines\<close>
  env_fuel :: nat

abbreviation (input) IAP2_BUFFERS :: nat where "IAP2_BUFFERS \<equiv> 5"
abbreviation (input) IAP2_MAX_PROTOCOL_COUNT :: nat where "IAP2_MAX_PROTOCOL_COUNT \<equiv> 4"
abbreviation (input) IAP2_SESSION_TYPE_CONTROL :: u8 where "IAP2_SESSION_TYPE_CONTROL \<equiv> 0"
abbreviation (input) IAP2_SESSION_TYPE_EXTERNAL_ACCESSORY :: u8 where "IAP2_SESSION_TYPE_EXTERNAL_ACCESSORY \<equiv> 2"

abbreviation sess0 :: "'w iap2 \<Rightarrow> iap2_link_session" where "sess0 s \<equiv> Sessions s ! 0"
abbreviation sess1 :: "'w iap2 \<Rightarrow> iap2_link_session" where "sess1 s \<equiv> Sessions s ! 1"

definition upd_buffer :: "nat \<Rightarrow> (iap2_buffer \<Rightarrow> iap2_buffer) \<Rightarrow> 'w iap2 \<Rightarrow> 'w iap2" where
  "upd_buffer b f s = s\<lparr>iap2_buffers := (iap2_buffers s)(b := f (iap2_buffers s b))\<rparr>"

definition upd_bytes :: "nat \<Rightarrow> (ram \<Rightarrow> ram) \<Rightarrow> 'w iap2 \<Rightarrow> 'w iap2" where
  "upd_bytes b f = upd_buffer b (\<lambda>x. x\<lparr>BBuffer := f (BBuffer x)\<rparr>)"

definition upd_protocol :: "nat \<Rightarrow> (iap2_protocol \<Rightarrow> iap2_protocol) \<Rightarrow> 'w iap2 \<Rightarrow> 'w iap2" where
  "upd_protocol p f s = s\<lparr>protocol := (protocol s)(p := f (protocol s p))\<rparr>"

section \<open>Set-up\<close>

definition iap2_protocol_create :: "nat \<Rightarrow> io_entry \<Rightarrow> cstring \<Rightarrow> cstring \<Rightarrow> 'w iap2 \<Rightarrow> (bool \<times> 'w iap2) res" where
  "iap2_protocol_create p entry url filename s =
     (if p \<in> set (protocols s) then Inl (Panic KERNEL_ERROR_LIST_ALREADY_CONTAINS_NODE)
      else if length (protocols s) < IAP2_MAX_PROTOCOL_COUNT
      then Inr (True, (upd_protocol p (\<lambda>_. \<lparr>HasContext = False, PEntry = entry\<lparr>Driver := None\<rparr>, CurrentSessionId = 0, ProtocolId = 0,
             Url = url, Filename = filename\<rparr>) s)\<lparr>protocols := protocols s @ [p]\<rparr>)
      else Inr (False, s))"

text \<open>
  The part of \<^verbatim>\<open>iap2_start\<close> before the thread is created: \<open>inp\<close> and \<open>outp\<close> are the addresses of the two arrays of
  buffers, of 4116 bytes each, and \<open>e\<close> is \<^verbatim>\<open>_input_event\<close>.
\<close>

definition iap2_start_link :: "nat \<Rightarrow> nat \<Rightarrow> eid \<Rightarrow> 'w iap2 \<Rightarrow> 'w iap2 res" where
  "iap2_start_link inp outp e s =
     rbind (pool_create inp 4116 IAP2_BUFFERS) (\<lambda>ip.
       rbind (pool_create outp 4116 IAP2_BUFFERS) (\<lambda>op.
         Inr (s\<lparr>input_pool := ip, output_pool := op, iap2_kernel := exos_event_create e True (iap2_kernel s),
               input_fifo := exos_fifo_create (Some e)\<rparr>)))"

text \<open>The start of \<^verbatim>\<open>_service\<close>: the context and its two sessions; \<open>e\<close> is its \<^verbatim>\<open>SyncEvent\<close>.\<close>

definition service_context :: "eid \<Rightarrow> 'w iap2 \<Rightarrow> 'w iap2" where
  "service_context e s =
     s\<lparr>Seq := 0x2B, Ack := 0, SyncDone := False, iap2_kernel := exos_event_create e True (iap2_kernel s),
       SyncFifo := exos_fifo_create (Some e),
       Sessions := [\<lparr>SId = 10, SType = IAP2_SESSION_TYPE_CONTROL, SVer = 1\<rparr>, \<lparr>SId = 11, SType = IAP2_SESSION_TYPE_EXTERNAL_ACCESSORY, SVer = 1\<rparr>]\<rparr>"

text \<open>The start of \<^verbatim>\<open>_loop\<close>: the parameters of the link that the transport does not set.\<close>

definition loop_params :: "'w iap2 \<Rightarrow> 'w iap2 res" where
  "loop_params s =
     ASSERT (RetransmitTimeout (LinkParams s) \<noteq> 0) KERNEL_ERROR_KERNEL_PANIC
      (ASSERT (CumulativeAckTimeout (LinkParams s) \<noteq> 0) KERNEL_ERROR_KERNEL_PANIC
        (Inr (s\<lparr>LinkParams := (LinkParams s)\<lparr>MaxRcvPacketLength := of_nat IAP2_BUFFER_SIZE, MaxNumOutstandingPackets := of_nat IAP2_BUFFERS\<rparr>\<rparr>)))"

section \<open>Buffers and packets\<close>

definition iap2_input :: "u8 list \<Rightarrow> 'w iap2 \<Rightarrow> (bool \<times> 'w iap2) res" where
  "iap2_input packet s =
     (case pool_allocate (input_pool s) of
        (None, _) \<Rightarrow> Inr (False, s)
      | (Some b, free) \<Rightarrow>
          ASSERT (length packet < IAP2_BUFFER_SIZE) KERNEL_ERROR_KERNEL_PANIC
            (let s1 = upd_buffer b (\<lambda>x. x\<lparr>BBuffer := store 0 packet (BBuffer x), BLength := of_nat (length packet)\<rparr>) (s\<lparr>input_pool := free\<rparr>)
             in rbind (exos_fifo_queue b (input_fifo s1) (iap2_kernel s1)) (\<lambda>(f, k).
                  Inr (True, s1\<lparr>input_fifo := f, iap2_kernel := k\<rparr>))))"

definition free_input :: "nat \<Rightarrow> 'w iap2 \<Rightarrow> 'w iap2 res" where
  "free_input b s = rbind (pool_free b (input_pool s)) (\<lambda>p. Inr (s\<lparr>input_pool := p\<rparr>))"

definition free_output :: "nat \<Rightarrow> 'w iap2 \<Rightarrow> 'w iap2 res" where
  "free_output b s = rbind (pool_free b (output_pool s)) (\<lambda>p. Inr (s\<lparr>output_pool := p\<rparr>))"

definition init_packet :: "u8 \<Rightarrow> u8 \<Rightarrow> 'w iap2 \<Rightarrow> nat option \<times> 'w iap2" where
  "init_packet control sess_id s =
     (case pool_allocate (output_pool s) of
        (None, _) \<Rightarrow> (None, s)
      | (Some b, free) \<Rightarrow> (Some b, upd_buffer b (init_header (Seq s) (Ack s) control sess_id) (s\<lparr>output_pool := free\<rparr>)))"

definition send_packet :: "'w iap2_env \<Rightarrow> nat \<Rightarrow> 'w iap2 \<Rightarrow> (bool \<times> 'w iap2) res" where
  "send_packet E b s =
     (let s1 = upd_buffer b end_header s; buf = iap2_buffers s1 b
      in rbind (Send E (load 0 (unat (BLength buf)) (BBuffer buf)) (iap2_world s1) (iap2_kernel s1)) (\<lambda>(ok, w, k).
           Inr (ok, s1\<lparr>iap2_world := w, iap2_kernel := k\<rparr>)))"

text \<open>The end of all senders: the packet is sent and its buffer given back.\<close>

definition send_and_free :: "'w iap2_env \<Rightarrow> nat \<Rightarrow> 'w iap2 \<Rightarrow> 'w iap2 res" where
  "send_and_free E b s = rbind (send_packet E b s) (\<lambda>(_, s1). free_output b s1)"

definition send_ack :: "'w iap2_env \<Rightarrow> 'w iap2 \<Rightarrow> 'w iap2 res" where
  "send_ack E s =
     (case init_packet IAP2_CONTROLF_ACK 0 s of
        (None, s1) \<Rightarrow> Inr s1
      | (Some b, s1) \<Rightarrow> send_and_free E b s1)"

text \<open>The statements that close a message at \<open>BBuffer + Payload\<close>: the length, the checksum, and the packet.\<close>

definition send_message :: "'w iap2_env \<Rightarrow> nat \<Rightarrow> 'w iap2 \<Rightarrow> 'w iap2 res" where
  "send_message E b s =
     send_and_free E b (upd_buffer b (\<lambda>x. end_payload (x\<lparr>BLength := BLength x + IAP2SHTOH (unat (BPayload x) + 2) (BBuffer x)\<rparr>)) s)"

section \<open>Synchronisation\<close>

text \<open>\<^verbatim>\<open>iap2_link_sync_payload1_t\<close> with the sessions.\<close>

definition sync_payload :: "iap2_link_params \<Rightarrow> iap2_link_session list \<Rightarrow> u8 list" where
  "sync_payload link sessions =
     [1, MaxNumOutstandingPackets link] @ HTOIAP2S (MaxRcvPacketLength link) @ HTOIAP2S (RetransmitTimeout link) @
     HTOIAP2S (CumulativeAckTimeout link) @ [MaxRetransmits link, MaxCumulativeAcks link] @
     concat (map (\<lambda>x. [SId x, SType x, SVer x]) sessions)"

text \<open>What the answer of \<^verbatim>\<open>_sync_callback\<close> to a received packet is.  The length of the packet is not looked at.\<close>

definition sync_control :: "iap2_link_params \<Rightarrow> iap2_buffer \<Rightarrow> u8" where
  "sync_control link input =
     (let m = BBuffer input; a = unat (BPayload input)
      in if m a = 1
         then let ctrl = (if MaxNumOutstandingPackets link \<le> m (a + 1) \<and> ucast (MaxNumOutstandingPackets link) \<le> IAP2SHTOH (a + 2) m
                          then 0 else IAP2_CONTROLF_SYN)
           in ctrl OR IAP2_CONTROLF_ACK
         else IAP2_CONTROLF_SYN)"

text \<open>A payload behind the header, with its checksum.\<close>

definition write_payload :: "u8 list \<Rightarrow> iap2_buffer \<Rightarrow> iap2_buffer" where
  "write_payload bs x =
     end_payload (x\<lparr>BBuffer := store (unat (BLength x)) bs (BBuffer x), BLength := BLength x + of_nat (length bs)\<rparr>)"

text \<open>The answer: a packet with the control bits \<open>ctrl\<close>, which repeats the parameters of the link as long as there is no agreement.\<close>

definition sync_answer :: "'w iap2_env \<Rightarrow> u8 \<Rightarrow> 'w iap2 \<Rightarrow> (u32 option \<times> 'w iap2) res" where
  "sync_answer E ctrl s =
     rbind (case init_packet ctrl 0 s of
              (None, s1) \<Rightarrow> Inr s1
            | (Some b, s1) \<Rightarrow>
                let payload = sync_payload (LinkParams s1) (Sessions s1)
                in send_and_free E b
                     (if ctrl AND IAP2_CONTROLF_SYN \<noteq> 0 then upd_buffer b (write_payload payload) s1 else s1))
       (\<lambda>s2. Inr (if ctrl AND IAP2_CONTROLF_SYN \<noteq> 0 then (Some 0, s2) else (None, s2\<lparr>SyncDone := True\<rparr>)))"

definition sync_callback :: "'w iap2_env \<Rightarrow> 'w iap2 \<Rightarrow> (u32 option \<times> 'w iap2) res" where
  "sync_callback E s =
     rbind (exos_fifo_dequeue (SyncFifo s) (iap2_kernel s)) (\<lambda>(input, f, k).
       let s1 = s\<lparr>SyncFifo := f, iap2_kernel := k\<rparr> in
       case input of
         None \<Rightarrow> sync_answer E IAP2_CONTROLF_SYN s1
       | Some i \<Rightarrow> rbind (free_input i s1) (sync_answer E (sync_control (LinkParams s1) (iap2_buffers s1 i))))"

section \<open>Authentication\<close>

definition send_auth_certificate :: "'w iap2_env \<Rightarrow> 'w iap2 \<Rightarrow> 'w iap2 res" where
  "send_auth_certificate E s =
     ASSERT (SType (sess0 s) = IAP2_SESSION_TYPE_CONTROL) KERNEL_ERROR_KERNEL_PANIC
       (case init_packet IAP2_CONTROLF_ACK (SId (sess0 s)) s of
          (None, s1) \<Rightarrow> Inr s1
        | (Some b, s1) \<Rightarrow>
            let s2 = upd_bytes b (init_control_msg 9 0xAA01) s1;
                (size, w) = apple_cp30_read_acc_cert_length (CpBus E) (iap2_world s2);
                s3 = s2\<lparr>iap2_world := w\<rparr>
            in (case size of
                  None \<Rightarrow> free_output b s3
                | Some cert_size \<Rightarrow>
                    ASSERT (cert_size < 800) KERNEL_ERROR_KERNEL_PANIC
                      (let (payload, m) = add_parameter 9 0 cert_size (BBuffer (iap2_buffers s3 b));
                           (ok, cert, w1) = apple_cp30_read_acc_cert (CpBus E) cert_size w;
                           s4 = upd_bytes b (\<lambda>_. store payload cert m) (s3\<lparr>iap2_world := w1\<rparr>)
                       in if ok then send_message E b s4 else free_output b s4)))"

text \<open>\<open>c\<close> is the address of the message in \<open>m\<close>.\<close>

definition send_auth_challenge_resp :: "'w iap2_env \<Rightarrow> nat \<Rightarrow> ram \<Rightarrow> 'w iap2 \<Rightarrow> 'w iap2 res" where
  "send_auth_challenge_resp E c m s =
     ASSERT (SType (sess0 s) = IAP2_SESSION_TYPE_CONTROL) KERNEL_ERROR_KERNEL_PANIC
       (rbind (find_param (env_fuel E) c 0 m) (\<lambda>r.
          case r of
            None \<Rightarrow> Inr s
          | Some ch \<Rightarrow>
              if IAP2SHTOH ch m = 36
              then (case init_packet IAP2_CONTROLF_ACK (SId (sess0 s)) s of
                      (None, s1) \<Rightarrow> Inr s1
                    | (Some b, s1) \<Rightarrow>
                        let s2 = upd_bytes b (init_control_msg 9 0xAA03) s1
                        in rbind (apple_cp30_begin_challenge (env_fuel E) (CpBus E) (load (ch + 4) 32 m) (iap2_world s2)) (\<lambda>(resp, w).
                             let s3 = s2\<lparr>iap2_world := w\<rparr>
                             in (case resp of
                                   None \<Rightarrow> free_output b s3
                                 | Some resp_size \<Rightarrow>
                                     let (payload, m1) = add_parameter 9 0 resp_size (BBuffer (iap2_buffers s3 b));
                                         (bs, w1) = apple_cp30_read_challenge_resp (CpBus E) resp_size w;
                                         s4 = s3\<lparr>iap2_world := w1\<rparr>
                                     in (case bs of
                                           None \<Rightarrow> free_output b (upd_bytes b (\<lambda>_. m1) s4)
                                         | Some d \<Rightarrow> send_message E b (upd_bytes b (\<lambda>_. store payload d m1) s4)))))
              else Inr s))"

section \<open>Identification\<close>

definition text_string :: "string \<Rightarrow> u8 list" where
  "text_string = map of_char"

text \<open>\<^verbatim>\<open>_get_protocol_definition\<close> on the local buffer of 64 bytes.\<close>

definition get_protocol_definition :: "nat \<Rightarrow> ram \<Rightarrow> 'w iap2 \<Rightarrow> (u16 \<times> ram \<times> 'w iap2) res" where
  "get_protocol_definition index buf s =
     (let params = iap2_helper_init_parameters buf 64
      in ASSERT (index < IAP2_MAX_PROTOCOL_COUNT) KERNEL_ERROR_KERNEL_PANIC
           (if index < length (protocols s)
            then let p = protocols s ! index;
                     s1 = upd_protocol p (\<lambda>x. x\<lparr>ProtocolId := of_nat index + 0xA0\<rparr>) s
              in rbind (iap2_helper_add_param_bytes 0 [ProtocolId (protocol s1 p)] params) (\<lambda>p1.
                   rbind (iap2_helper_add_param_string 1 (Url (protocol s1 p)) p1) (\<lambda>p2.
                     rbind (iap2_helper_add_param_bytes 2 [2] p2) (\<lambda>p3. Inr (PLength p3, PBuffer p3, s1))))
            else Inr (PLength params, PBuffer params, s)))"

text \<open>The loop over the protocols: \<open>n\<close> are left.\<close>

primrec add_protocols :: "nat \<Rightarrow> nat \<Rightarrow> nat \<Rightarrow> ram \<Rightarrow> 'w iap2 \<Rightarrow> (ram \<times> 'w iap2) res" where
  "add_protocols 0 b pi buf s = Inr (buf, s)"
| "add_protocols (Suc n) b pi buf s =
     rbind (get_protocol_definition pi buf s) (\<lambda>(eap_len, buf1, s1).
       if eap_len \<noteq> 0
       then let (eap, m) = add_parameter 9 10 eap_len (BBuffer (iap2_buffers s1 b))
         in add_protocols n b (pi + 1) buf1 (upd_bytes b (\<lambda>_. store eap (load 0 (unat eap_len) buf1) m) s1)
       else Inr (buf1, s1))"

definition get_transport_component_id :: "'w iap2_env \<Rightarrow> ram \<Rightarrow> 'w iap2 \<Rightarrow> (u16 \<times> u16 \<times> ram \<times> 'w iap2) res" where
  "get_transport_component_id E buf s =
     rbind (Identify E (iap2_helper_init_parameters buf 64) (iap2_world s)) (\<lambda>(cid, params, w).
       Inr (if cid \<noteq> 0 then PLength params else 0, cid, PBuffer params, s\<lparr>iap2_world := w\<rparr>))"

text \<open>The parameters before and behind the protocols, with the texts that the source defines.\<close>

definition accessory_params :: "(u16 \<times> u8 list) list" where
  "accessory_params =
     [(0, text_string ''MIO Labs Test Accesory'' @ [0]), (1, text_string ''undefined'' @ [0]), (2, text_string ''MIO Research Labs'' @ [0]),
      (3, text_string ''00000'' @ [0]), (4, text_string ''1.0'' @ [0]), (5, text_string ''prototype'' @ [0]),
      (6, []), (7, HTOIAP2S 0xEA00 @ HTOIAP2S 0xEA01), (8, [0]), (9, HTOIAP2S 0)]"

definition language_params :: "(u16 \<times> u8 list) list" where
  "language_params = [(12, text_string ''en'' @ [0]), (13, text_string ''en'' @ [0])]"

definition add_params :: "nat \<Rightarrow> (u16 \<times> u8 list) list \<Rightarrow> ram \<Rightarrow> ram" where
  "add_params c ps m = foldl (\<lambda>m (i, bs). add_param_bytes c i bs m) m ps"

definition send_identification :: "'w iap2_env \<Rightarrow> ram \<Rightarrow> 'w iap2 \<Rightarrow> 'w iap2 res" where
  "send_identification E buf s =
     ASSERT (SType (sess0 s) = IAP2_SESSION_TYPE_CONTROL) KERNEL_ERROR_KERNEL_PANIC
       (case init_packet IAP2_CONTROLF_ACK (SId (sess0 s)) s of
          (None, s1) \<Rightarrow> Inr s1
        | (Some b, s1) \<Rightarrow>
            let s2 = upd_bytes b (\<lambda>m. add_params 9 accessory_params (init_control_msg 9 0x1D01 m)) s1
            in rbind (add_protocols IAP2_MAX_PROTOCOL_COUNT b 0 buf s2) (\<lambda>(buf1, s3).
                 let s4 = upd_bytes b (add_params 9 language_params) s3
                 in rbind (get_transport_component_id E buf1 s4) (\<lambda>(tgc_len, tgc_iiid, buf2, s5).
                      ASSERT (tgc_len \<noteq> 0) KERNEL_ERROR_KERNEL_PANIC
                       (ASSERT (tgc_iiid \<noteq> 0) KERNEL_ERROR_KERNEL_PANIC
                         (let (tgc, m) = add_parameter 9 tgc_iiid tgc_len (BBuffer (iap2_buffers s5 b));
                              s6 = upd_bytes b (\<lambda>_. add_param_string 9 34 (ProductPlanUID E) (store tgc (load 0 (unat tgc_len) buf2) m)) s5
                          in send_message E b s6)))))"

text \<open>\<^verbatim>\<open>_debug_params\<close>, called in debug builds, prints the parameters of a message: at most 25 bytes of each, for which
  its array is large enough, so that what matters is whether it returns.\<close>

primrec debug_params_loop :: "nat \<Rightarrow> nat \<Rightarrow> nat \<Rightarrow> nat \<Rightarrow> ram \<Rightarrow> unit res" where
  "debug_params_loop 0 c msg_len offset m = Inl OutOfFuel"
| "debug_params_loop (Suc fuel) c msg_len offset m =
     (if offset < msg_len then debug_params_loop fuel c msg_len (offset + unat (IAP2SHTOH (c + offset) m)) m else Inr ())"

section \<open>External accessory sessions\<close>

definition io_write :: "'w iap2_env \<Rightarrow> io_entry \<Rightarrow> u8 list \<Rightarrow> 'w \<Rightarrow> kernel \<Rightarrow> (int \<times> 'w \<times> kernel) res" where
  "io_write E io bs w k =
     (let (h, th, tm) = EaWait E
      in rbind (exos_io_write_begin (IoDrivers E) (env_fuel E) (EaElapsed E) h th tm io bs w k) (\<lambda>(call, w1, k1).
           case call of
             IoDone r \<Rightarrow> Inr (r, w1, k1)
           | IoWait _ _ \<Rightarrow> rbind (IoRest E io call bs w1 k1) (\<lambda>(r, _, w2, k2). Inr (r, w2, k2))))"

definition io_read :: "'w iap2_env \<Rightarrow> io_entry \<Rightarrow> nat \<Rightarrow> 'w \<Rightarrow> kernel \<Rightarrow> (int \<times> u8 list \<times> 'w \<times> kernel) res" where
  "io_read E io len w k =
     (let (h, th, tm) = EaWait E
      in rbind (exos_io_read_begin (IoDrivers E) (env_fuel E) (EaElapsed E) h th tm io len w k) (\<lambda>(call, bs, w1, k1).
           case call of
             IoDone r \<Rightarrow> Inr (r, bs, w1, k1)
           | IoWait _ _ \<Rightarrow> IoRest E io call bs w1 k1))"

text \<open>
  The inner loop of \<^verbatim>\<open>_ea_dispatch\<close>: data are read to \<open>Data[offset]\<close>, behind the session id at 9.  The result of the read
  is kept in an unsigned variable.
\<close>

primrec ea_read_loop :: "nat \<Rightarrow> 'w iap2_env \<Rightarrow> nat \<Rightarrow> nat \<Rightarrow> u32 \<Rightarrow> u32 \<Rightarrow> 'w iap2 \<Rightarrow> (u32 \<times> 'w iap2) res" where
  "ea_read_loop 0 E p b offset rem s = Inl OutOfFuel"
| "ea_read_loop (Suc fuel) E p b offset rem s =
     (if rem \<noteq> 0
      then rbind (io_read E (PEntry (protocol s p)) (unat rem) (iap2_world s) (iap2_kernel s)) (\<lambda>(r, bs, w, k).
             let done = word_of_int r;
                 s1 = upd_bytes b (store (unat (11 + offset)) bs) (s\<lparr>iap2_world := w, iap2_kernel := k\<rparr>)
             in if done \<le> 0 then Inr (offset, s1) else ea_read_loop fuel E p b (offset + done) (rem - done) s1)
      else Inr (offset, s))"

definition ea_dispatch :: "nat \<Rightarrow> 'w iap2_env \<Rightarrow> nat \<Rightarrow> 'w iap2 \<Rightarrow> (u32 \<times> 'w iap2) res" where
  "ea_dispatch fuel E p s =
     ASSERT (HasContext (protocol s p)) KERNEL_ERROR_NULL_POINTER
      (ASSERT (SType (sess1 s) = IAP2_SESSION_TYPE_EXTERNAL_ACCESSORY) KERNEL_ERROR_KERNEL_PANIC
        (rbind (case init_packet IAP2_CONTROLF_ACK (SId (sess1 s)) s of
                  (None, s1) \<Rightarrow> Inr s1
                | (Some b, s1) \<Rightarrow>
                    rbind (ea_read_loop fuel E p b 0 256 (upd_bytes b (store 9 (HTOIAP2S (CurrentSessionId (protocol s p)))) s1)) (\<lambda>(offset, s2).
                      send_and_free E b (upd_buffer b (\<lambda>x. end_payload (x\<lparr>BLength := BLength x + (2 + ucast offset)\<rparr>)) s2)))
          (\<lambda>s3. Inr (0, s3))))"

definition start_ea_session :: "'w iap2_env \<Rightarrow> u16 \<Rightarrow> u8 \<Rightarrow> 'w iap2 \<Rightarrow> (bool \<times> 'w iap2) res" where
  "start_ea_session E sess_id proto_id s =
     ASSERT (length (protocols s) \<le> IAP2_MAX_PROTOCOL_COUNT) KERNEL_ERROR_KERNEL_PANIC
       (case find (\<lambda>p. ProtocolId (protocol s p) = proto_id) (protocols s) of
          None \<Rightarrow> Inr (False, s)
        | Some p \<Rightarrow>
            if CurrentSessionId (protocol s p) = 0
            then let io0 = PEntry (protocol s p)
              in rbind (exos_io_open_path (IoDrivers E) (InputEvent io0) (OutputEvent io0) io0 (Filename (protocol s p)) 0x10
                         (IoTree E) (IoDevices E) (iap2_world s) (iap2_kernel s)) (\<lambda>(err, io, w, k).
                   let s1 = upd_protocol p (\<lambda>x. x\<lparr>PEntry := io\<rparr>) (s\<lparr>iap2_world := w, iap2_kernel := k\<rparr>)
                   in if err = IO_OK
                      then ASSERT (sess_id \<noteq> 0) KERNEL_ERROR_KERNEL_PANIC
                        (Inr (False, (upd_protocol p (\<lambda>x. x\<lparr>CurrentSessionId := sess_id, HasContext := True\<rparr>) s1)
                          \<lparr>ea_dispatched := ea_dispatched s1 @ [p]\<rparr>))
                      else Inr (False, s1))
            else Inr (False, s))"

definition find_ea_sess_protocol :: "u16 \<Rightarrow> 'w iap2 \<Rightarrow> nat option res" where
  "find_ea_sess_protocol sess_id s =
     ASSERT (length (protocols s) \<le> IAP2_MAX_PROTOCOL_COUNT) KERNEL_ERROR_KERNEL_PANIC
       (Inr (find (\<lambda>p. CurrentSessionId (protocol s p) = sess_id) (protocols s)))"

definition stop_ea_session :: "'w iap2_env \<Rightarrow> u16 \<Rightarrow> 'w iap2 \<Rightarrow> 'w iap2 res" where
  "stop_ea_session E sess_id s =
     ASSERT (sess_id \<noteq> 0) KERNEL_ERROR_KERNEL_PANIC
       (rbind (find_ea_sess_protocol sess_id s) (\<lambda>r.
          case r of
            None \<Rightarrow> Inr s
          | Some p \<Rightarrow>
              ASSERT (HasContext (protocol s p)) KERNEL_ERROR_KERNEL_PANIC
                (rbind (exos_io_close (IoDrivers E) (PEntry (protocol s p)) (iap2_world s) (iap2_kernel s)) (\<lambda>(io, w, k).
                   Inr ((upd_protocol p (\<lambda>x. x\<lparr>CurrentSessionId := 0, HasContext := False, PEntry := io\<rparr>)
                     (s\<lparr>iap2_world := w, iap2_kernel := k\<rparr>))\<lparr>ea_dispatched := filter (\<lambda>q. q \<noteq> p) (ea_dispatched s)\<rparr>)))))"

section \<open>Received packets\<close>

text \<open>\<^verbatim>\<open>_parse_control\<close>: the message is at \<open>c\<close> in the bytes \<open>m\<close> of the received buffer; \<open>buf\<close> is the local array of
  \<^verbatim>\<open>_send_identification\<close>.\<close>

definition parse_control :: "'w iap2_env \<Rightarrow> ram \<Rightarrow> nat \<Rightarrow> ram \<Rightarrow> 'w iap2 \<Rightarrow> 'w iap2 res" where
  "parse_control E buf c m s =
     (let msg_id = IAP2SHTOH (c + 4) m; msg_len = unat (IAP2SHTOH (c + 2) m); payload = int msg_len - 6
      in if msg_id = 0xAA00 then send_auth_certificate E s
         else if msg_id = 0xAA02 then (if 0 < payload then send_auth_challenge_resp E c m s else Inr s)
         else if msg_id = 0xAA04 then send_ack E s
         else if msg_id = 0xAA05 then Inr s
         else if msg_id = 0x1D00 then send_identification E buf s
         else if msg_id = 0x1D03 then rbind (debug_params_loop (env_fuel E) c msg_len 6 m) (\<lambda>_. send_ack E s)
         else if msg_id = 0x1D02 then send_ack E s
         else if msg_id = 0xEA00
         then rbind (find_param (env_fuel E) c 0 m) (\<lambda>p0.
                rbind (find_param (env_fuel E) c 1 m) (\<lambda>p1.
                  let proto = (case p0 of Some p \<Rightarrow> m (p + 4) | None \<Rightarrow> 0xFF);
                      session = (case p1 of Some p \<Rightarrow> IAP2SHTOH (p + 4) m | None \<Rightarrow> 0xFFFF)
                  in rbind (start_ea_session E session proto s) (\<lambda>(_, s1). send_ack E s1)))
         else if msg_id = 0xEA01
         then rbind (find_param (env_fuel E) c 0 m) (\<lambda>p0.
                let session = (case p0 of Some p \<Rightarrow> IAP2SHTOH (p + 4) m | None \<Rightarrow> 0xFFFF)
                in rbind (stop_ea_session E session s) (send_ack E))
         else Inr s)"

text \<open>The data of an external accessory session are written to its device.\<close>

definition relay_ea :: "'w iap2_env \<Rightarrow> nat \<Rightarrow> u16 \<Rightarrow> ram \<Rightarrow> 'w iap2 \<Rightarrow> 'w iap2 res" where
  "relay_ea E c payload_len m s =
     (if 2 \<le> payload_len
      then rbind (find_ea_sess_protocol (IAP2SHTOH c m) s) (\<lambda>r.
             case r of
               None \<Rightarrow> Inr s
             | Some p \<Rightarrow> rbind (io_write E (PEntry (protocol s p)) (load (c + 2) (unat payload_len - 2) m) (iap2_world s) (iap2_kernel s))
                 (\<lambda>(_, w, k). Inr (s\<lparr>iap2_world := w, iap2_kernel := k\<rparr>)))
      else Inr s)"

text \<open>The handling of the packet in buffer \<open>b\<close> for a session other than 0.\<close>

definition session_packet :: "'w iap2_env \<Rightarrow> ram \<Rightarrow> nat \<Rightarrow> u16 \<Rightarrow> 'w iap2 \<Rightarrow> 'w iap2 res" where
  "session_packet E buf b payload_len s =
     ASSERT (SType (sess0 s) = IAP2_SESSION_TYPE_CONTROL) KERNEL_ERROR_KERNEL_PANIC
      (ASSERT (SType (sess1 s) = IAP2_SESSION_TYPE_EXTERNAL_ACCESSORY) KERNEL_ERROR_KERNEL_PANIC
        (let m = BBuffer (iap2_buffers s b); c = unat (BPayload (iap2_buffers s b)); s1 = s\<lparr>Ack := hdr_SequenceNumber m\<rparr>
         in if hdr_SessionId m = SId (sess0 s)
            then let msg_len = IAP2SHTOH (c + 2) m
              in if msg_len \<le> BLength (iap2_buffers s b) \<and> 6 \<le> msg_len then parse_control E buf c m s1 else Inr s1
            else if hdr_SessionId m = SId (sess1 s)
            then rbind (relay_ea E c payload_len m s1) (send_ack E)
            else send_ack E s1))"

definition rx_packet :: "'w iap2_env \<Rightarrow> ram \<Rightarrow> nat \<Rightarrow> 'w iap2 \<Rightarrow> 'w iap2 res" where
  "rx_packet E buf b s =
     (case parse_buffer (iap2_buffers s b) of
        None \<Rightarrow> free_input b s
      | Some (payload_offset, payload_len) \<Rightarrow>
          let m = BBuffer (iap2_buffers s b);
              s1 = (if hdr_Control m AND IAP2_CONTROLF_ACK \<noteq> 0 \<and> hdr_AckNumber m = Seq s then s\<lparr>Seq := Seq s + 1\<rparr> else s);
              s2 = upd_buffer b (\<lambda>x. x\<lparr>BPayload := payload_offset, BLength := payload_len\<rparr>) s1
          in if hdr_SessionId m = 0
             then let s3 = s2\<lparr>Ack := hdr_SequenceNumber m\<rparr>
               in if \<not> SyncDone s3
                  then rbind (exos_fifo_queue b (SyncFifo s3) (iap2_kernel s3)) (\<lambda>(f, k). Inr (s3\<lparr>SyncFifo := f, iap2_kernel := k\<rparr>))
                  else free_input b s3
             else rbind (session_packet E buf b payload_len s2) (free_input b))"

primrec iap2_rx_loop :: "nat \<Rightarrow> 'w iap2_env \<Rightarrow> ram \<Rightarrow> 'w iap2 \<Rightarrow> 'w iap2 res" where
  "iap2_rx_loop 0 E buf s = Inl OutOfFuel"
| "iap2_rx_loop (Suc fuel) E buf s =
     rbind (exos_fifo_dequeue (input_fifo s) (iap2_kernel s)) (\<lambda>(b, f, k).
       let s1 = s\<lparr>input_fifo := f, iap2_kernel := k\<rparr> in
       case b of None \<Rightarrow> Inr s1 | Some i \<Rightarrow> rbind (rx_packet E buf i s1) (iap2_rx_loop fuel E buf))"

definition rx_callback :: "nat \<Rightarrow> 'w iap2_env \<Rightarrow> ram \<Rightarrow> 'w iap2 \<Rightarrow> (u32 \<times> 'w iap2) res" where
  "rx_callback fuel E buf s = rbind (iap2_rx_loop fuel E buf s) (\<lambda>s1. Inr (0, s1))"

section \<open>The first contact\<close>

text \<open>
  \<^verbatim>\<open>_initialize\<close>: \<open>wait\<close> is the call of \<^verbatim>\<open>exos_fifo_wait\<close> on the input queue, with what other threads do meanwhile.
\<close>

definition hello :: "u8 list" where
  "hello = [0xFF, 0x55, 0x02, 0x00, 0xEE, 0x10]"

primrec initialize_loop :: "nat \<Rightarrow> 'w iap2_env \<Rightarrow> ('w iap2 \<Rightarrow> (nat option \<times> 'w iap2) res) \<Rightarrow> 'w iap2 \<Rightarrow> (bool \<times> 'w iap2) res" where
  "initialize_loop 0 E wait s = Inr (False, s)"
| "initialize_loop (Suc n) E wait s =
     rbind (Send E hello (iap2_world s) (iap2_kernel s)) (\<lambda>(ok, w, k).
       if ok
       then rbind (wait (s\<lparr>iap2_world := w, iap2_kernel := k\<rparr>)) (\<lambda>(r, s1).
              case r of
                None \<Rightarrow> initialize_loop n E wait s1
              | Some b \<Rightarrow> rbind (free_input b s1) (\<lambda>s2. Inr (load 0 (length hello) (BBuffer (iap2_buffers s1 b)) = hello, s2)))
       else Inr (False, s\<lparr>iap2_world := w, iap2_kernel := k\<rparr>))"

definition iap2_hello :: "'w iap2_env \<Rightarrow> ('w iap2 \<Rightarrow> (nat option \<times> 'w iap2) res) \<Rightarrow> 'w iap2 \<Rightarrow> (bool \<times> 'w iap2) res" where
  "iap2_hello E wait s = initialize_loop 30 E wait s"

end
