(* ===== verification/Iap2Session.thy ===== *)
theory Iap2Session
  imports Iap2Link
begin

text \<open>
  What the handlers of Iap2Link guarantee: no buffer is lost or given out twice, whatever packets arrive and whatever fails; the
  synchronisation of the link; and the messages with which a device can stop the service.
\<close>

unbundle bit_operations_syntax

section \<open>What the senders leave alone\<close>

definition buffers_same :: "'w iap2 \<Rightarrow> 'w iap2 \<Rightarrow> bool" where
  "buffers_same s s' \<longleftrightarrow>
     input_pool s' = input_pool s \<and> output_pool s' = output_pool s \<and> input_fifo s' = input_fifo s \<and> SyncFifo s' = SyncFifo s"

text \<open>The states between taking output buffer \<open>b\<close> and giving it back.\<close>

definition holds_output :: "nat \<Rightarrow> 'w iap2 \<Rightarrow> 'w iap2 \<Rightarrow> bool" where
  "holds_output b s s' \<longleftrightarrow>
     input_pool s' = input_pool s \<and> b # output_pool s' = output_pool s \<and> input_fifo s' = input_fifo s \<and> SyncFifo s' = SyncFifo s"

lemma buffers_same_refl [simp]: "buffers_same s s"
  by (simp add: buffers_same_def)

lemma buffers_same_trans: "buffers_same s s1 \<Longrightarrow> buffers_same s1 s2 \<Longrightarrow> buffers_same s s2"
  by (simp add: buffers_same_def)

lemma buffers_same_upd [simp]:
  "buffers_same s (upd_buffer b f s') \<longleftrightarrow> buffers_same s s'" "buffers_same s (upd_bytes b g s') \<longleftrightarrow> buffers_same s s'"
  "buffers_same s (upd_protocol p h s') \<longleftrightarrow> buffers_same s s'"
  "holds_output c s (upd_buffer b f s') \<longleftrightarrow> holds_output c s s'" "holds_output c s (upd_bytes b g s') \<longleftrightarrow> holds_output c s s'"
  "holds_output c s (upd_protocol p h s') \<longleftrightarrow> holds_output c s s'"
  by (simp_all add: buffers_same_def holds_output_def upd_bytes_def upd_buffer_def upd_protocol_def)

lemma buffers_same_fields [simp]:
  "buffers_same s (s'\<lparr>iap2_world := w\<rparr>) \<longleftrightarrow> buffers_same s s'" "buffers_same s (s'\<lparr>iap2_kernel := k\<rparr>) \<longleftrightarrow> buffers_same s s'"
  "buffers_same s (s'\<lparr>Ack := a\<rparr>) \<longleftrightarrow> buffers_same s s'" "buffers_same s (s'\<lparr>Seq := q\<rparr>) \<longleftrightarrow> buffers_same s s'"
  "buffers_same s (s'\<lparr>ea_dispatched := d\<rparr>) \<longleftrightarrow> buffers_same s s'"
  "holds_output b s (s'\<lparr>iap2_world := w\<rparr>) \<longleftrightarrow> holds_output b s s'" "holds_output b s (s'\<lparr>iap2_kernel := k\<rparr>) \<longleftrightarrow> holds_output b s s'"
  by (simp_all add: buffers_same_def holds_output_def)

lemma init_packet_holds:
  "init_packet control sess_id s = (Some b, s') \<Longrightarrow> holds_output b s s'"
  "init_packet control sess_id s = (None, s') \<Longrightarrow> s' = s"
  by (auto simp: init_packet_def pool_allocate_def holds_output_def upd_buffer_def split: list.splits)

lemma free_output_same: "holds_output b s s' \<Longrightarrow> yields (buffers_same s) (free_output b s')"
  by (auto simp: free_output_def pool_free_def ASSERT_def holds_output_def buffers_same_def)

lemma send_and_free_same: "holds_output b s s' \<Longrightarrow> yields (buffers_same s) (send_and_free E b s')"
  unfolding send_and_free_def send_packet_def Let_def rbind_assoc
  by (rule yields_pure) (simp add: free_output_same split: prod.split)

lemma send_message_same: "holds_output b s s' \<Longrightarrow> yields (buffers_same s) (send_message E b s')"
  unfolding send_message_def by (rule send_and_free_same) simp

lemma with_packet_same:
  assumes "\<And>b s1. holds_output b s s1 \<Longrightarrow> yields (buffers_same s) (f b s1)"
  shows "yields (buffers_same s) (case init_packet control sess_id s of (None, s1) \<Rightarrow> Inr s1 | (Some b, s1) \<Rightarrow> f b s1)"
  using assms by (auto dest: init_packet_holds split: prod.split option.split)

lemma send_ack_same: "yields (buffers_same s) (send_ack E s)"
  unfolding send_ack_def by (rule with_packet_same) (rule send_and_free_same)

lemma send_auth_certificate_same: "yields (buffers_same s) (send_auth_certificate E s)"
  unfolding send_auth_certificate_def
  by (intro yields_ASSERT with_packet_same)
     (auto simp: Let_def intro!: yields_ASSERT free_output_same send_message_same split: prod.split option.split)

lemma send_auth_challenge_resp_same: "yields (buffers_same s) (send_auth_challenge_resp E c m s)"
  unfolding send_auth_challenge_resp_def
  apply (intro yields_ASSERT yields_pure)
  apply (simp split: option.split)
  apply (intro allI impI with_packet_same)
  by (auto simp: Let_def intro!: yields_pure free_output_same send_message_same split: prod.split option.split)

lemma get_protocol_definition_holds:
  "holds_output b s s1 \<Longrightarrow> yields (\<lambda>(_, _, s2). holds_output b s s2) (get_protocol_definition i buf s1)"
  unfolding get_protocol_definition_def by (auto simp: Let_def intro!: yields_ASSERT yields_pure)

lemma add_protocols_holds: "holds_output b s s1 \<Longrightarrow> yields (\<lambda>(_, s2). holds_output b s s2) (add_protocols n b i buf s1)"
proof (induction n arbitrary: i buf s1)
  case (Suc n)
  show ?case
    unfolding add_protocols.simps
    by (rule yields_rbind [OF get_protocol_definition_holds [OF Suc.prems]]) (auto intro!: Suc.IH split: prod.split)
qed simp

lemma get_transport_component_id_holds:
  "holds_output b s s1 \<Longrightarrow> yields (\<lambda>(_, _, _, s2). holds_output b s s2) (get_transport_component_id E buf s1)"
  unfolding get_transport_component_id_def by (rule yields_pure) (simp split: prod.split)

lemma send_identification_same:
  fixes s :: "'w iap2"
  shows "yields (buffers_same s) (send_identification E buf s)"
  unfolding send_identification_def
proof (intro yields_ASSERT with_packet_same, unfold Let_def)
  fix b and s1 :: "'w iap2"
  let ?s2 = "upd_bytes b (\<lambda>m. add_params 9 accessory_params (init_control_msg 9 0x1D01 m)) s1"
  assume "holds_output b s s1"
  then have h: "holds_output b s ?s2" by simp
  show "yields (buffers_same s) (rbind (add_protocols 4 b 0 buf ?s2) (\<lambda>(buf1, s3).
      rbind (get_transport_component_id E buf1 (upd_bytes b (add_params 9 language_params) s3)) (\<lambda>(tgc_len, tgc_iiid, buf2, s5).
        ASSERT (tgc_len \<noteq> 0) KERNEL_ERROR_KERNEL_PANIC (ASSERT (tgc_iiid \<noteq> 0) KERNEL_ERROR_KERNEL_PANIC
          (case add_parameter 9 tgc_iiid tgc_len (BBuffer (iap2_buffers s5 b)) of (tgc, m) \<Rightarrow>
             send_message E b (upd_bytes b (\<lambda>_. add_param_string 9 34 (ProductPlanUID E) (store tgc (load 0 (unat tgc_len) buf2) m)) s5))))))"
  proof (rule yields_rbind [OF add_protocols_holds [OF h]], clarify)
    fix buf1 and s3 :: "'w iap2"
    let ?s4 = "upd_bytes b (add_params 9 language_params) s3"
    assume "holds_output b s s3"
    then have "holds_output b s ?s4" by simp
    from get_transport_component_id_holds [OF this]
    show "yields (buffers_same s) (rbind (get_transport_component_id E buf1 ?s4) (\<lambda>(tgc_len, tgc_iiid, buf2, s5).
        ASSERT (tgc_len \<noteq> 0) KERNEL_ERROR_KERNEL_PANIC (ASSERT (tgc_iiid \<noteq> 0) KERNEL_ERROR_KERNEL_PANIC
          (case add_parameter 9 tgc_iiid tgc_len (BBuffer (iap2_buffers s5 b)) of (tgc, m) \<Rightarrow>
             send_message E b (upd_bytes b (\<lambda>_. add_param_string 9 34 (ProductPlanUID E) (store tgc (load 0 (unat tgc_len) buf2) m)) s5)))))"
      by (rule yields_rbind) (auto intro!: yields_ASSERT send_message_same split: prod.split)
  qed
qed

lemma start_ea_session_same: "yields (\<lambda>(_, s'). buffers_same s s') (start_ea_session E sess_id proto s)"
  unfolding start_ea_session_def by (auto simp: Let_def intro!: yields_ASSERT yields_pure split: option.split)

lemma stop_ea_session_same: "yields (buffers_same s) (stop_ea_session E sess_id s)"
  unfolding stop_ea_session_def by (auto intro!: yields_ASSERT yields_pure split: option.split)

lemma then_ack: "yields (buffers_same s) f \<Longrightarrow> yields (buffers_same s) (rbind f (send_ack E))"
  by (erule yields_rbind) (metis send_ack_same yields_mono buffers_same_trans)

lemma parse_control_same: "yields (buffers_same s) (parse_control E buf c m s)"
proof -
  have start: "yields (buffers_same s) (rbind (start_ea_session E a b s) (\<lambda>(_, s1). send_ack E s1))" for a b
    by (rule yields_rbind [OF start_ea_session_same]) (auto intro: yields_mono [OF send_ack_same] buffers_same_trans)
  show ?thesis
    unfolding parse_control_def Let_def
    by (auto intro!: yields_pure start then_ack stop_ea_session_same send_ack_same send_auth_certificate_same
      send_auth_challenge_resp_same send_identification_same)
qed

lemma relay_ea_same: "yields (buffers_same s) (relay_ea E c len m s)"
  unfolding relay_ea_def by (auto intro!: yields_pure split: option.split)

lemma session_packet_same: "yields (buffers_same s) (session_packet E buf b len s)"
proof -
  have a: "yields (buffers_same s) (f (s\<lparr>Ack := q\<rparr>))" if "\<And>s. yields (buffers_same s) (f s)" for f q
    using that [of "s\<lparr>Ack := q\<rparr>"] by (rule yields_mono) (simp add: buffers_same_def)
  show ?thesis
    unfolding session_packet_def Let_def
    by (intro yields_ASSERT) (auto intro!: a parse_control_same then_ack relay_ea_same send_ack_same)
qed

section \<open>No buffer is lost\<close>

text \<open>The input buffers \<open>B\<close> are in the pool, queued for the service or queued for the synchronisation; \<open>hs\<close> are being handled.\<close>

definition inputs_ok :: "nat set \<Rightarrow> nat list \<Rightarrow> 'w iap2 \<Rightarrow> bool" where
  "inputs_ok B hs s \<longleftrightarrow>
     (let all = hs @ input_pool s @ Items (input_fifo s) @ Items (SyncFifo s) in distinct all \<and> set all = B)"

lemma inputs_ok_same: "buffers_same s s' \<Longrightarrow> inputs_ok B hs s \<Longrightarrow> inputs_ok B hs s'"
  by (simp add: inputs_ok_def buffers_same_def)

lemma free_input_ok:
  "inputs_ok B (b # hs) s \<Longrightarrow> yields (\<lambda>s'. inputs_ok B hs s' \<and> output_pool s' = output_pool s \<and> input_fifo s' = input_fifo s) (free_input b s)"
  by (auto simp: free_input_def pool_free_def ASSERT_def inputs_ok_def Let_def)

lemma queue_ok: "exos_fifo_queue n f k = Inr (f', k') \<Longrightarrow> Items f' = Items f @ [n]"
  by (auto simp: exos_fifo_queue_def rbind_eq_Inr Let_def split: if_splits)

lemma dequeue_ok:
  "exos_fifo_dequeue f k = Inr (r, f', k') \<Longrightarrow>
     Items f = (case r of None \<Rightarrow> [] | Some b \<Rightarrow> [b]) @ Items f' \<and> (r = None \<longrightarrow> Items f' = [])"
  by (auto simp: exos_fifo_dequeue_def rbind_eq_Inr Let_def split: if_splits list.splits)

lemma rx_packet_ok:
  assumes "inputs_ok B [b] s"
  shows "yields (\<lambda>s'. inputs_ok B [] s' \<and> output_pool s' = output_pool s \<and> input_fifo s' = input_fifo s) (rx_packet E buf b s)"
proof (cases "parse_buffer (iap2_buffers s b)")
  case None
  then show ?thesis using free_input_ok [OF assms] by (simp add: rx_packet_def)
next
  case (Some r)
  obtain po pl where r: "r = (po, pl)" by (cases r)
  let ?m = "BBuffer (iap2_buffers s b)"
  define s1 where "s1 = (if hdr_Control ?m AND IAP2_CONTROLF_ACK \<noteq> 0 \<and> hdr_AckNumber ?m = Seq s then s\<lparr>Seq := Seq s + 1\<rparr> else s)"
  define s2 where "s2 = upd_buffer b (\<lambda>x. x\<lparr>BPayload := po, BLength := pl\<rparr>) s1"
  have same: "buffers_same s s2" by (simp add: s2_def s1_def)
  have out: "output_pool s2 = output_pool s" "input_fifo s2 = input_fifo s" using same by (simp_all add: buffers_same_def)
  have ok2: "inputs_ok B [b] s2" "inputs_ok B [b] (s2\<lparr>Ack := a\<rparr>)" for a
    using inputs_ok_same [OF same assms] by (simp_all add: inputs_ok_def)
  have sess: "yields (\<lambda>s'. inputs_ok B [] s' \<and> output_pool s' = output_pool s \<and> input_fifo s' = input_fifo s)
      (rbind (session_packet E buf b pl s2) (free_input b))"
  proof (rule yields_rbind [OF session_packet_same])
    fix x
    assume x: "buffers_same s2 x"
    from free_input_ok [OF inputs_ok_same [OF x ok2(1)]]
    show "yields (\<lambda>s'. inputs_ok B [] s' \<and> output_pool s' = output_pool s \<and> input_fifo s' = input_fifo s) (free_input b x)"
      by (rule yields_mono) (use x out in \<open>simp add: buffers_same_def\<close>)
  qed
  have free: "yields (\<lambda>s'. inputs_ok B [] s' \<and> output_pool s' = output_pool s \<and> input_fifo s' = input_fifo s) (free_input b (s2\<lparr>Ack := a\<rparr>))" for a
    using free_input_ok [OF ok2(2)] out by simp
  have q: "yields (\<lambda>s'. inputs_ok B [] s' \<and> output_pool s' = output_pool s \<and> input_fifo s' = input_fifo s)
      (rbind (exos_fifo_queue b (SyncFifo s2) (iap2_kernel s2)) (\<lambda>(f, k). Inr (s2\<lparr>Ack := a, SyncFifo := f, iap2_kernel := k\<rparr>)))" for a
    using ok2(1) out by (auto simp: yields_def inputs_ok_def Let_def rbind_eq_Inr split: sum.splits dest!: queue_ok)
  show ?thesis
    unfolding rx_packet_def Some r option.case prod.case Let_def s1_def [symmetric] s2_def [symmetric]
    using sess free q by simp
qed

lemma iap2_rx_loop_ok:
  "inputs_ok B [] s \<Longrightarrow> yields (\<lambda>s'. inputs_ok B [] s' \<and> output_pool s' = output_pool s \<and> Items (input_fifo s') = []) (iap2_rx_loop fuel E buf s)"
proof (induction fuel arbitrary: s)
  case (Suc fuel)
  have d: "yields (\<lambda>(r, f, k). Items (input_fifo s) = (case r of None \<Rightarrow> [] | Some b \<Rightarrow> [b]) @ Items f \<and> (r = None \<longrightarrow> Items f = [])) (exos_fifo_dequeue (input_fifo s) (iap2_kernel s))"
    by (auto simp: yields_def dest: dequeue_ok split: sum.split)
  show ?case
    unfolding iap2_rx_loop.simps
  proof (rule yields_rbind [OF d], clarify)
    fix r f k
    let ?s = "s\<lparr>input_fifo := f, iap2_kernel := k\<rparr>"
    assume it: "Items (input_fifo s) = (case r of None \<Rightarrow> [] | Some b \<Rightarrow> [b]) @ Items f" and none: "r = None \<longrightarrow> Items f = []"
    show "yields (\<lambda>s'. inputs_ok B [] s' \<and> output_pool s' = output_pool s \<and> Items (input_fifo s') = [])
        (let s1 = ?s in case r of None \<Rightarrow> Inr s1 | Some i \<Rightarrow> rbind (rx_packet E buf i s1) (iap2_rx_loop fuel E buf))"
    proof (cases r)
      case None
      then show ?thesis using Suc.prems it none by (simp add: inputs_ok_def)
    next
      case (Some b)
      then have "inputs_ok B [b] ?s" using Suc.prems it by (auto simp: inputs_ok_def Let_def)
      from rx_packet_ok [OF this]
      have "yields (\<lambda>s'. inputs_ok B [] s' \<and> output_pool s' = output_pool s \<and> Items (input_fifo s') = []) (rbind (rx_packet E buf b ?s) (iap2_rx_loop fuel E buf))"
        by (rule yields_rbind) (use Suc.IH in fastforce)
      then show ?thesis by (simp add: Some)
    qed
  qed
qed simp

lemma iap2_input_ok:
  assumes "inputs_ok B [] s"
  shows "yields (\<lambda>(_, s'). inputs_ok B [] s' \<and> output_pool s' = output_pool s) (iap2_input packet s)"
proof (cases "input_pool s")
  case Nil
  then show ?thesis using assms by (simp add: iap2_input_def pool_allocate_def)
next
  case (Cons b free)
  then show ?thesis
    using assms unfolding iap2_input_def pool_allocate_def Let_def
    by (auto simp: yields_def inputs_ok_def Let_def ASSERT_eq_Inr rbind_eq_Inr upd_buffer_def dest!: queue_ok)
qed

lemma sync_answer_same: "yields (\<lambda>(_, s'). buffers_same s s') (sync_answer E ctrl s)"
proof -
  have "yields (buffers_same s) (case init_packet ctrl 0 s of (None, s1) \<Rightarrow> Inr s1
      | (Some b, s1) \<Rightarrow> let payload = p s1 in send_and_free E b (if c then upd_buffer b (g payload) s1 else s1))" for c p g
    by (rule with_packet_same) (simp add: Let_def send_and_free_same)
  then show ?thesis
    unfolding sync_answer_def by (rule yields_rbind) (simp add: buffers_same_def)
qed

lemma sync_answer_ok:
  "inputs_ok B [] s \<Longrightarrow> yields (\<lambda>(_, s'). inputs_ok B [] s' \<and> output_pool s' = output_pool s) (sync_answer E ctrl s)"
  by (rule yields_mono [OF sync_answer_same]) (auto simp: inputs_ok_def buffers_same_def)

lemma sync_callback_ok:
  assumes "inputs_ok B [] s"
  shows "yields (\<lambda>(_, s'). inputs_ok B [] s' \<and> output_pool s' = output_pool s) (sync_callback E s)"
proof -
  have d: "yields (\<lambda>(r, f, k). Items (SyncFifo s) = (case r of None \<Rightarrow> [] | Some b \<Rightarrow> [b]) @ Items f) (exos_fifo_dequeue (SyncFifo s) (iap2_kernel s))"
    by (auto simp: yields_def dest: dequeue_ok split: sum.split)
  show ?thesis
    unfolding sync_callback_def
  proof (rule yields_rbind [OF d], clarify)
    fix input f k
    let ?s1 = "s\<lparr>SyncFifo := f, iap2_kernel := k\<rparr>"
    assume it: "Items (SyncFifo s) = (case input of None \<Rightarrow> [] | Some b \<Rightarrow> [b]) @ Items f"
    show "yields (\<lambda>(_, s'). inputs_ok B [] s' \<and> output_pool s' = output_pool s)
      (let s1 = ?s1 in case input of None \<Rightarrow> sync_answer E IAP2_CONTROLF_SYN s1
         | Some i \<Rightarrow> rbind (free_input i s1) (sync_answer E (sync_control (LinkParams s1) (iap2_buffers s1 i))))"
    proof (cases input)
      case None
      then have "inputs_ok B [] ?s1" using assms it by (simp add: inputs_ok_def)
      from sync_answer_ok [OF this] show ?thesis using None by simp
    next
      case (Some i)
      then have "inputs_ok B [i] ?s1" using assms it by (auto simp: inputs_ok_def Let_def)
      from free_input_ok [OF this]
      have "yields (\<lambda>(_, s'). inputs_ok B [] s' \<and> output_pool s' = output_pool s)
        (rbind (free_input i ?s1) (sync_answer E (sync_control (LinkParams ?s1) (iap2_buffers ?s1 i))))"
        by (rule yields_rbind) (use sync_answer_ok in fastforce)
      then show ?thesis by (simp add: Some)
    qed
  qed
qed

lemma ea_read_loop_holds:
  "holds_output b s s1 \<Longrightarrow> yields (\<lambda>(_, s2). holds_output b s s2) (ea_read_loop fuel E p b offset rem s1)"
proof (induction fuel arbitrary: offset rem s1)
  case (Suc fuel)
  then show ?case by (auto simp: Let_def intro!: yields_pure)
qed simp

lemma ea_dispatch_same: "yields (\<lambda>(_, s'). buffers_same s s') (ea_dispatch fuel E p s)"
proof -
  have "yields (buffers_same s) (rbind (ea_read_loop fuel E p b 0 256 (upd_bytes b g s1)) (\<lambda>(offset, s2).
      send_and_free E b (upd_buffer b (f offset) s2)))" if "holds_output b s s1" for b s1 g f
    by (rule yields_rbind [OF ea_read_loop_holds, of b s]) (use that in \<open>auto intro!: send_and_free_same\<close>)
  then show ?thesis
    unfolding ea_dispatch_def by (intro yields_ASSERT yields_rbind [OF with_packet_same]) auto
qed

text \<open>The steps of the service: packets arrive from the transport, and the dispatchers are served, in any order.\<close>

inductive iap2_step :: "'w iap2_env \<Rightarrow> 'w iap2 \<Rightarrow> 'w iap2 \<Rightarrow> bool" for E where
  packet: "iap2_input bs s = Inr (ok, s') \<Longrightarrow> iap2_step E s s'"
| rx: "rx_callback fuel E buf s = Inr (t, s') \<Longrightarrow> iap2_step E s s'"
| sync: "sync_callback E s = Inr (t', s') \<Longrightarrow> iap2_step E s s'"
| ea: "p \<in> set (ea_dispatched s) \<Longrightarrow> ea_dispatch fuel E p s = Inr (t, s') \<Longrightarrow> iap2_step E s s'"

lemma iap2_step_ok: "iap2_step E s s' \<Longrightarrow> inputs_ok B [] s \<Longrightarrow> inputs_ok B [] s' \<and> output_pool s' = output_pool s"
proof (induction rule: iap2_step.induct)
  case (packet bs s ok s')
  then show ?case using iap2_input_ok [of B s bs] by (auto simp: yields_def)
next
  case (rx fuel buf s t s')
  then show ?case using iap2_rx_loop_ok [of B s fuel E buf] by (auto simp: rx_callback_def rbind_eq_Inr yields_def)
next
  case (sync s t' s')
  then show ?case using sync_callback_ok [of B s E] by (auto simp: yields_def)
next
  case (ea p s fuel t s')
  then have "buffers_same s s'" using ea_dispatch_same [of s fuel E p] by (auto simp: yields_def)
  then show ?case using ea.prems by (simp add: buffers_same_def inputs_ok_def)
qed

text \<open>C31: However packets arrive and the handlers run, and whatever the transport, the coprocessor and the devices answer, no buffer of
  the accessory service is lost or held twice: every input buffer is in the pool or in exactly one queue, once, and between two
  handlers all output buffers are in their pool.
\<close>

theorem iap2_buffers_conserved:
  assumes "iap2_start_link inp outp e s0 = Inr s1" and "(iap2_step E)\<^sup>*\<^sup>* (service_context e' s1) s"
  shows "distinct (input_pool s @ Items (input_fifo s) @ Items (SyncFifo s)) \<and>
    set (input_pool s @ Items (input_fifo s) @ Items (SyncFifo s)) = set (input_pool s1) \<and> output_pool s = output_pool s1"
proof -
  let ?c = "service_context e' s1"
  have "pool_create inp 4116 5 = Inr (input_pool s1)" "Items (input_fifo s1) = []"
    using assms(1) by (auto simp: iap2_start_link_def rbind_eq_Inr exos_fifo_create_def)
  then have "distinct (input_pool s1)"
    using pool_items_distinct [of 4116 inp 5] by (auto simp: pool_create_def ASSERT_def sizeof_node_def split: if_splits)
  with \<open>Items (input_fifo s1) = []\<close> have start: "inputs_ok (set (input_pool s1)) [] ?c" "output_pool ?c = output_pool s1"
    by (simp_all add: inputs_ok_def service_context_def exos_fifo_create_def)
  from assms(2) have "inputs_ok (set (input_pool s1)) [] s \<and> output_pool s = output_pool s1"
    by (induction rule: rtranclp_induct) (use start iap2_step_ok in fastforce)+
  then show ?thesis by (simp add: inputs_ok_def Let_def)
qed

section \<open>Synchronisation of the link\<close>

lemma send_and_free_sends:
  assumes "Send E (load 0 (unat (BLength x)) (BBuffer x)) (iap2_world s) (iap2_kernel s) = Inr (ok, w, k)" and "x = end_header (iap2_buffers s b)"
    and "b \<notin> set (output_pool s)"
  shows "send_and_free E b s = Inr ((upd_buffer b end_header s)\<lparr>iap2_world := w, iap2_kernel := k, output_pool := b # output_pool s\<rparr>)"
  using assms by (simp add: send_and_free_def send_packet_def free_output_def pool_free_def upd_buffer_def Let_def)

lemma write_payload_bytes:
  assumes h: "header_set control seq ack sess_id (BBuffer x)" and l: "BLength x = of_nat 9" and n: "length bs < 65000" and ne: "bs \<noteq> []"
  shows "load 0 (unat (BLength (end_header (write_payload bs x)))) (BBuffer (end_header (write_payload bs x)))
    = packet_bytes control seq ack sess_id bs"
proof -
  let ?y = "x\<lparr>BBuffer := store (unat (BLength x)) bs (BBuffer x), BLength := BLength x + of_nat (length bs)\<rparr>"
  have y: "BBuffer ?y = store 9 bs (BBuffer x)" "BLength ?y = of_nat (9 + length bs)" using l by simp_all
  have "header_set control seq ack sess_id (BBuffer ?y)" unfolding y(1) by (rule header_set_store [OF h]) simp
  moreover have "load 9 (length bs) (BBuffer ?y) = bs" unfolding y(1) by (rule load_store_same) simp
  ultimately have b: "BLength (end_header (end_payload ?y)) = of_nat (10 + length bs)"
    "load 0 (10 + length bs) (BBuffer (end_header (end_payload ?y))) = header_bytes (10 + length bs) control seq ack sess_id @ bs @ [- sum_list bs]"
    using packet_built [OF _ y(2) _ n] by blast+
  have "unat (BLength (end_header (end_payload ?y))) = 10 + length bs" unfolding b(1) by (rule unat_u16_of_nat) (use n in simp)
  then show ?thesis using b(2) ne by (simp add: write_payload_def packet_bytes_def)
qed

lemma sync_answer_sends:
  assumes out: "output_pool s = b # free" "b \<notin> set free" and snd_ok: "\<And>bs. Send E bs (iap2_world s) (iap2_kernel s) = Inr (True, sent bs, k)"
    and few: "length (Sessions s) < 1000"
  shows "\<exists>s'. sync_answer E ctrl s = Inr (if ctrl AND IAP2_CONTROLF_SYN = 0 then None else Some 0, s') \<and>
    iap2_world s' = sent (packet_bytes ctrl (Seq s) (Ack s) 0 (if ctrl AND IAP2_CONTROLF_SYN = 0 then [] else sync_payload (LinkParams s) (Sessions s))) \<and>
    SyncDone s' = (ctrl AND IAP2_CONTROLF_SYN = 0 \<or> SyncDone s) \<and> input_pool s' = input_pool s \<and> output_pool s' = output_pool s"
proof -
  let ?x = "init_header (Seq s) (Ack s) ctrl 0 (iap2_buffers s b)" and ?p = "sync_payload (LinkParams s) (Sessions s)"
  let ?s1 = "upd_buffer b (init_header (Seq s) (Ack s) ctrl 0) (s\<lparr>output_pool := free\<rparr>)"
  have i: "init_packet ctrl 0 s = (Some b, ?s1)" using out by (simp add: init_packet_def pool_allocate_def)
  have h: "header_set ctrl (Seq s) (Ack s) 0 (BBuffer ?x)" by (rule header_set_init)
  have l9: "BLength ?x = of_nat 9" by (simp add: init_header_def)
  show ?thesis
  proof (cases "ctrl AND IAP2_CONTROLF_SYN = 0")
    case True
    have "load 0 9 (BBuffer (end_header ?x)) = packet_bytes ctrl (Seq s) (Ack s) 0 []"
      using end_header_bytes [OF h l9] by (simp add: packet_bytes_def)
    moreover have "BLength (end_header ?x) = 9" using l9 by (simp add: end_header_def Let_def)
    ultimately have "send_and_free E b ?s1 = Inr ((upd_buffer b end_header ?s1)
        \<lparr>iap2_world := sent (packet_bytes ctrl (Seq s) (Ack s) 0 []), iap2_kernel := k, output_pool := b # output_pool ?s1\<rparr>)"
      using snd_ok out(2) by (intro send_and_free_sends) (simp_all add: upd_buffer_def)
    then show ?thesis using True out by (simp add: sync_answer_def i Let_def upd_buffer_def)
  next
    case False
    have "length ?p = 10 + 3 * length (Sessions s)" by (simp add: sync_payload_def length_concat comp_def sum_list_triv)
    then have "load 0 (unat (BLength (end_header (write_payload ?p ?x)))) (BBuffer (end_header (write_payload ?p ?x))) = packet_bytes ctrl (Seq s) (Ack s) 0 ?p"
      using few by (intro write_payload_bytes [OF h l9]) auto
    then have "send_and_free E b (upd_buffer b (write_payload ?p) ?s1) = Inr ((upd_buffer b end_header (upd_buffer b (write_payload ?p) ?s1))
          \<lparr>iap2_world := sent (packet_bytes ctrl (Seq s) (Ack s) 0 ?p), iap2_kernel := k, output_pool := b # output_pool (upd_buffer b (write_payload ?p) ?s1)\<rparr>)"
      using snd_ok out(2) by (intro send_and_free_sends [where ok = True]) (simp_all add: upd_buffer_def)
    then show ?thesis using False out by (simp add: sync_answer_def i Let_def upd_buffer_def)
  qed
qed

lemma unat_IAP2SHTOH: "unat (IAP2SHTOH a m) = 256 * unat (m a) + unat (m (a + 1))"
proof -
  have "push_bit 8 (ucast (m a)) AND ucast (m (a + 1)) = (0 :: u16)"
    by (rule bit_word_eqI) (auto simp: bit_simps dest: bit_imp_le_length)
  then have "IAP2SHTOH a m = push_bit 8 (ucast (m a)) + ucast (m (a + 1))" by (simp only: IAP2SHTOH_def disjunctive_add_eq_or)
  moreover have "unat (m a) < 256" "unat (m (a + 1)) < 256"
    using unsigned_less[of "m a", where 'a = nat] unsigned_less[of "m (a + 1)", where 'a = nat] by simp_all
  ultimately show ?thesis
    by (simp add: push_bit_eq_mult unat_word_ariths unsigned_ucast_eq take_bit_eq_mod)
qed

lemma HTOIAP2S_bytes: "HTOIAP2S v = [of_nat (unat v div 256), of_nat (unat v mod 256)]"
proof -
  have "ucast (drop_bit 8 v) = (of_nat (unat v div 256) :: u8)"
    by (rule bit_word_eqI) (simp add: bit_simps drop_bit_eq_div[of 8 "unat v", symmetric, simplified])
  moreover have mask_255: "v AND 0xFF = take_bit 8 v" by (simp add: take_bit_eq_mask mask_eq_exp_minus_1)
  moreover have "ucast (v AND 0xFF) = (of_nat (unat v mod 256) :: u8)"
    by (rule word_unat_eq_iff [THEN iffD2])
      (simp only: mask_255 unsigned_ucast_eq unsigned_take_bit_eq unsigned_of_nat, simp add: take_bit_eq_mod)
  ultimately show ?thesis by (simp add: HTOIAP2S_def)
qed

text \<open>C35: the answer to a packet of the synchronisation.  It is accepted when its link version is 1, the number of outstanding packets
  in it is at least that of the link, and its packet length is at least that same number (the code compares the length with the
  number of outstanding packets, not with the packet length of the link).  Then the device gets an acknowledgement without payload
  and the link is synchronised; otherwise it gets the parameters of the link, byte for byte, with the ids, types and versions of the two
  sessions (as an acknowledgement too, if the version is 1) and the synchronisation goes on.  The packets sent carry correct
  lengths and checksums, and both buffers are given back.
\<close>

theorem iap2_sync_answers:
  assumes "kernel_wf (iap2_kernel s)" and "fifo_ok (SyncFifo s)" and "Items (SyncFifo s) = i # rest" and "i \<notin> set (input_pool s)"
    and "output_pool s = b # free" and "b \<notin> set free" and "\<And>bs k. Send E bs (iap2_world s) k = Inr (True, sent bs, g k)"
    and "Sessions s = [x, y]" and "LinkParams s = par" and "m = BBuffer (iap2_buffers s i)" and "a = unat (BPayload (iap2_buffers s i))"
    and "accepted \<longleftrightarrow> m a = 1 \<and> unat (MaxNumOutstandingPackets par) \<le> unat (m (a + 1)) \<and>
      unat (MaxNumOutstandingPackets par) \<le> 256 * unat (m (a + 2)) + unat (m (a + 3))"
  shows "\<exists>s'. sync_callback E s = Inr (if accepted then None else Some 0, s') \<and> SyncDone s' = (accepted \<or> SyncDone s) \<and>
    iap2_world s' = sent
      (if accepted then packet_bytes 0x40 (Seq s) (Ack s) 0 []
       else packet_bytes (if m a = 1 then 0xC0 else 0x80) (Seq s) (Ack s) 0
         [1, MaxNumOutstandingPackets par,
          of_nat (unat (MaxRcvPacketLength par) div 256), of_nat (unat (MaxRcvPacketLength par) mod 256),
          of_nat (unat (RetransmitTimeout par) div 256), of_nat (unat (RetransmitTimeout par) mod 256),
          of_nat (unat (CumulativeAckTimeout par) div 256), of_nat (unat (CumulativeAckTimeout par) mod 256),
          MaxRetransmits par, MaxCumulativeAcks par, SId x, SType x, SVer x, SId y, SType y, SVer y]) \<and>
    input_pool s' = i # input_pool s \<and> output_pool s' = output_pool s"
proof -
  obtain f k where d: "exos_fifo_dequeue (SyncFifo s) (iap2_kernel s) = Inr (Some i, f, k)"
    using fifo_dequeue_spec [OF assms(2,1)] assms(3) by auto
  let ?s1 = "s\<lparr>SyncFifo := f, iap2_kernel := k\<rparr>"
  let ?s2 = "?s1\<lparr>input_pool := i # input_pool s\<rparr>" and ?c = "sync_control (LinkParams s) (iap2_buffers s i)"
  have le: "MaxNumOutstandingPackets par \<le> m (a + 1) \<longleftrightarrow> unat (MaxNumOutstandingPackets par) \<le> unat (m (a + 1))"
    "ucast (MaxNumOutstandingPackets par) \<le> IAP2SHTOH (a + 2) m \<longleftrightarrow>
       unat (MaxNumOutstandingPackets par) \<le> 256 * unat (m (a + 2)) + unat (m (a + 3))"
    using unsigned_less[of "MaxNumOutstandingPackets par", where 'a = nat]
    by (simp_all add: word_le_nat_alt unat_IAP2SHTOH unsigned_ucast_eq take_bit_nat_eq_self numeral_3_eq_3)
  have c: "?c = (if accepted then 0x40 else if m a = 1 then 0xC0 else 0x80)"
    unfolding sync_control_def Let_def assms(9,10,11) [symmetric] using assms(12) le by (simp add: assms(9))
  have pay: "sync_payload (LinkParams s) (Sessions s) = [1, MaxNumOutstandingPackets par,
          of_nat (unat (MaxRcvPacketLength par) div 256), of_nat (unat (MaxRcvPacketLength par) mod 256),
          of_nat (unat (RetransmitTimeout par) div 256), of_nat (unat (RetransmitTimeout par) mod 256),
          of_nat (unat (CumulativeAckTimeout par) div 256), of_nat (unat (CumulativeAckTimeout par) mod 256),
          MaxRetransmits par, MaxCumulativeAcks par, SId x, SType x, SVer x, SId y, SType y, SVer y]"
    by (simp add: sync_payload_def assms(8,9) HTOIAP2S_bytes)
  have "sync_callback E s = sync_answer E ?c ?s2"
    using assms(4) by (simp add: sync_callback_def d Let_def free_input_def pool_free_def)
  moreover have "\<exists>s'. sync_answer E ?c ?s2 = Inr (if ?c AND IAP2_CONTROLF_SYN = 0 then None else Some 0, s') \<and>
      iap2_world s' = sent (packet_bytes ?c (Seq ?s2) (Ack ?s2) 0 (if ?c AND IAP2_CONTROLF_SYN = 0 then [] else sync_payload (LinkParams ?s2) (Sessions ?s2))) \<and>
      SyncDone s' = (?c AND IAP2_CONTROLF_SYN = 0 \<or> SyncDone ?s2) \<and> input_pool s' = input_pool ?s2 \<and> output_pool s' = output_pool ?s2"
    by (rule sync_answer_sends [of _ b free]) (use assms(5-8) in simp_all)
  ultimately show ?thesis unfolding c pay [symmetric] by (cases accepted; cases "m a = 1") auto
qed

section \<open>Messages that stop the service\<close>

text \<open>C36: the session id 0 of a packet of the external accessory session is not refused: the data are taken for the first protocol
  without a session and written to its device.  When no device was ever opened for that protocol the write
  panics; otherwise the packet is acknowledged after the write, although the protocol has no session.
\<close>

theorem iap2_session_zero_panics:
  assumes "find (\<lambda>p. CurrentSessionId (protocol s p) = 0) (protocols s) = Some q" and "length (protocols s) \<le> IAP2_MAX_PROTOCOL_COUNT"
    and "SType (sess0 s) = 0" and "SType (sess1 s) = 2" and "SId (sess1 s) \<noteq> SId (sess0 s)" and "SId (sess1 s) \<noteq> 0"
    and "load 0 (length ps) (BBuffer (iap2_buffers s b)) = ps" and "ps = packet_bytes control seq ack (SId (sess1 s)) ([0, 0] @ data)"
    and "length ps \<le> unat (BLength (iap2_buffers s b))"
  shows "(Driver (PEntry (protocol s q)) = None \<longrightarrow> rx_packet E buf b s = Inl (Panic KERNEL_ERROR_NULL_POINTER)) \<and>
    (case io_write E (PEntry (protocol s q)) data (iap2_world s) (iap2_kernel s) of
       Inl e \<Rightarrow> rx_packet E buf b s = Inl e
     | Inr (r, w, k) \<Rightarrow> \<exists>s'. iap2_world s' = w \<and> iap2_kernel s' = k \<and> rx_packet E buf b s = rbind (send_ack E s') (free_input b))"
proof -
  let ?m = "BBuffer (iap2_buffers s b)" and ?n = "of_nat (length ([0, 0] @ data)) :: u16"
  note pk = packet_parsed [OF assms(7-9)]
  have "length ps < 65536" by (rule le_less_trans [OF assms(9) order_less_le_trans [OF unsigned_less]]) simp
  then have n: "unat ?n = 2 + length data" using assms(8) by (simp add: length_packet_bytes unat_u16_of_nat del: of_nat_add of_nat_Suc)
  have parse: "parse_buffer (iap2_buffers s b) = Some (9, ?n)" and sid: "?m 7 = SId (sess1 s)"
    using pk by simp_all
  have "load 9 2 ?m = [0, 0]" "load 11 (length data) ?m = data"
    using pk(6) load_append_iff [of 9 "[0, 0]" data ?m] by (simp_all add: numeral_2_eq_2)
  then have z: "IAP2SHTOH 9 ?m = 0" and d: "load 11 (unat ?n - 2) ?m = data"
    using IAP2SHTOH_load [of 9 ?m 0] n by (simp_all add: HTOIAP2S_def)
  have le: "2 \<le> ?n" using n by (simp add: word_le_nat_alt)
  define s1 where "s1 = (if hdr_Control ?m AND IAP2_CONTROLF_ACK \<noteq> 0 \<and> hdr_AckNumber ?m = Seq s then s\<lparr>Seq := Seq s + 1\<rparr> else s)"
  define s2 where "s2 = upd_buffer b (\<lambda>x. x\<lparr>BPayload := 9, BLength := ?n\<rparr>) s1\<lparr>Ack := hdr_SequenceNumber ?m\<rparr>"
  have same: "protocol s2 = protocol s" "protocols s2 = protocols s" "iap2_world s2 = iap2_world s" "iap2_kernel s2 = iap2_kernel s"
    by (simp_all add: s2_def s1_def upd_buffer_def)
  have rx: "rx_packet E buf b s = rbind (rbind (rbind (io_write E (PEntry (protocol s q)) data (iap2_world s) (iap2_kernel s))
      (\<lambda>(_, w, k). Inr (s2\<lparr>iap2_world := w, iap2_kernel := k\<rparr>))) (send_ack E)) (free_input b)"
    unfolding rx_packet_def parse option.case prod.case Let_def
    using assms(1-6) sid z d le same
    by (simp add: session_packet_def relay_ea_def find_ea_sess_protocol_def upd_buffer_def s1_def s2_def Let_def)
  have "io_write E (PEntry (protocol s q)) data (iap2_world s) (iap2_kernel s) = Inl (Panic KERNEL_ERROR_NULL_POINTER)"
    if "Driver (PEntry (protocol s q)) = None"
    using that by (simp add: io_write_def exos_io_write_begin_def driver_fun_def Let_def split: prod.split)
  then show ?thesis unfolding rx by (auto split: sum.split intro!: exI [of _ "s2\<lparr>iap2_world := _, iap2_kernel := _\<rparr>"])
qed

text \<open>
  A device that reports an error keeps the service busy: the result is kept unsigned, so the test for an error fails, the offset runs
  backwards through the buffer, and the loop ends only when the count of the missing bytes has wrapped around.
\<close>

theorem ea_read_error_spins:
  assumes "\<And>len w k. io_read E (PEntry (protocol s p)) len w k = Inr (- 1, [], w, k)" and "fuel \<le> 4294967040"
  shows "ea_read_loop fuel E p b 0 256 s = Inl OutOfFuel"
proof -
  have "ea_read_loop fuel E p b offset rem s' = Inl OutOfFuel"
    if "unat rem + fuel \<le> 4294967296" "rem \<noteq> 0" "protocol s' p = protocol s p" for offset rem s'
    using that
  proof (induction fuel arbitrary: offset rem s')
    case (Suc fuel)
    let ?s = "upd_bytes b (store (unat (11 + offset)) []) (s'\<lparr>iap2_world := iap2_world s', iap2_kernel := iap2_kernel s'\<rparr>)"
    have eq: "ea_read_loop (Suc fuel) E p b offset rem s' = ea_read_loop fuel E p b (offset - 1) (rem + 1) ?s"
      using Suc.prems(2,3) assms(1) by (simp add: Let_def)
    show ?case
    proof (cases fuel)
      case (Suc n)
      then have "unat (rem + 1) = unat rem + 1" using Suc.prems(1) by (simp add: unat_word_ariths)
      moreover from this have "rem + 1 \<noteq> 0" by (metis add_is_0 unat_0 zero_neq_one)
      moreover have "protocol ?s p = protocol s p" using Suc.prems(3) by (simp add: upd_bytes_def upd_buffer_def)
      ultimately show ?thesis unfolding eq using Suc.prems(1) by (intro Suc.IH) simp_all
    next
      case 0
      show ?thesis using eq by (simp only: 0 ea_read_loop.simps(1))
    qed
  qed simp
  then show ?thesis using assms(2) by simp
qed

section \<open>Samples\<close>

definition sample_params :: iap2_link_params where
  "sample_params = \<lparr>MaxRcvPacketLength = 4096, RetransmitTimeout = 2000, CumulativeAckTimeout = 22, MaxNumOutstandingPackets = 5,
     MaxRetransmits = 30, MaxCumulativeAcks = 3\<rparr>"

definition sample_env :: "u8 list list iap2_env" where
  "sample_env = \<lparr>Send = (\<lambda>bs w k. Inr (True, w @ [bs], k)), Identify = (\<lambda>p w. Inr (0, p, w)),
     IoDrivers = (\<lambda>_. \<lparr>Open = None, Close = None, Read = None, Write = None, Sync = None\<rparr>), IoTree = undefined, IoDevices = undefined,
     IoRest = (\<lambda>_ _ _ w k. Inr (0, [], w, k)), EaElapsed = 0, EaWait = (0, 0, 0),
     CpBus = \<lparr>i2c_write = (\<lambda>_ w. (False, w)), i2c_read = (\<lambda>_ w. (False, \<lambda>_. 0, w))\<rparr>, ProductPlanUID = [], env_fuel = 100\<rparr>"

definition sample_link :: "(nat \<Rightarrow> iap2_buffer) \<Rightarrow> u8 list list iap2" where
  "sample_link bufs = \<lparr>iap2_kernel = sample_kernel, iap2_world = [], iap2_buffers = bufs, input_pool = [], output_pool = [8192, 12308],
     input_fifo = exos_fifo_create None, protocols = [20], protocol = (\<lambda>_. \<lparr>HasContext = False,
       PEntry = \<lparr>IoEntry = False, Driver = None, DriverContext = 0, Port = 0, InputEvent = Ev 0, OutputEvent = Ev 1, Timeout = 0\<rparr>,
       CurrentSessionId = 0, ProtocolId = 0, Url = [], Filename = []\<rparr>),
     Seq = 0x2B, Ack = 9, SyncDone = False, SyncFifo = \<lparr>FCount = 1, Items = [4096], FEvent = None\<rparr>,
     Sessions = [\<lparr>SId = 10, SType = 0, SVer = 1\<rparr>, \<lparr>SId = 11, SType = 2, SVer = 1\<rparr>], LinkParams = sample_params, ea_dispatched = []\<rparr>"

definition sample_sync :: "u8 \<Rightarrow> u8 list list iap2" where
  "sample_sync n = sample_link (\<lambda>_. \<lparr>BPayload = 9, BLength = 16, BBuffer = (\<lambda>_. 0)(9 := 1, 10 := n, 11 := 16)\<rparr>)"

text \<open>The device offers five outstanding packets, as many as the link asks for, or four, one too few.\<close>

theorem iap2_sync_answers_witness:
  "(\<exists>s'. sync_callback sample_env (sample_sync 5) = Inr (None, s') \<and> SyncDone s' \<and> iap2_world s' = [packet_bytes 0x40 0x2B 9 0 []]) \<and>
   (\<exists>s'. sync_callback sample_env (sample_sync 4) = Inr (Some 0, s') \<and> \<not> SyncDone s' \<and>
     iap2_world s' = [packet_bytes 0xC0 0x2B 9 0 [1, 5, 16, 0, 7, 208, 0, 22, 30, 3, 10, 0, 1, 11, 2, 1]])"
proof -
  have k: "kernel_wf (iap2_kernel (sample_sync n))" for n by (simp add: sample_sync_def sample_link_def sample_kernel_wf)
  have f: "fifo_ok (SyncFifo (sample_sync n))" for n by (simp add: sample_sync_def sample_link_def fifo_ok_def is_node_def)
  have fs: "Items (SyncFifo (sample_sync n)) = 4096 # []" "4096 \<notin> set (input_pool (sample_sync n))"
    "output_pool (sample_sync n) = 8192 # [12308]" "8192 \<notin> set [12308 :: nat]"
    "Sessions (sample_sync n) = [\<lparr>SId = 10, SType = 0, SVer = 1\<rparr>, \<lparr>SId = 11, SType = 2, SVer = 1\<rparr>]" "LinkParams (sample_sync n) = sample_params"
    "(\<lambda>_. 0)(9 := 1, 10 := n, 11 := 16) = BBuffer (iap2_buffers (sample_sync n) 4096)" "9 = unat (BPayload (iap2_buffers (sample_sync n) 4096))"
    and st: "Seq (sample_sync n) = 0x2B" "Ack (sample_sync n) = 9" "SyncDone (sample_sync n) = False" for n
    by (simp_all add: sample_sync_def sample_link_def)
  have snd_ok: "Send sample_env bs (iap2_world (sample_sync n)) k = Inr (True, [bs], k)" for bs k n
    by (simp add: sample_env_def sample_sync_def sample_link_def)
  have yes: "True \<longleftrightarrow> ((\<lambda>_. 0)(9 := 1, 10 := 5, 11 := 16) :: ram) 9 = 1 \<and>
      unat (MaxNumOutstandingPackets sample_params) \<le> unat (((\<lambda>_. 0)(9 := 1, 10 := 5, 11 := 16) :: ram) (9 + 1)) \<and>
      unat (MaxNumOutstandingPackets sample_params) \<le>
        256 * unat (((\<lambda>_. 0)(9 := 1, 10 := 5, 11 := 16) :: ram) (9 + 2)) + unat (((\<lambda>_. 0)(9 := 1, 10 := 5, 11 := 16) :: ram) (9 + 3))"
    and no: "False \<longleftrightarrow> ((\<lambda>_. 0)(9 := 1, 10 := 4, 11 := 16) :: ram) 9 = 1 \<and>
      unat (MaxNumOutstandingPackets sample_params) \<le> unat (((\<lambda>_. 0)(9 := 1, 10 := 4, 11 := 16) :: ram) (9 + 1)) \<and>
      unat (MaxNumOutstandingPackets sample_params) \<le>
        256 * unat (((\<lambda>_. 0)(9 := 1, 10 := 4, 11 := 16) :: ram) (9 + 2)) + unat (((\<lambda>_. 0)(9 := 1, 10 := 4, 11 := 16) :: ram) (9 + 3))"
    by (simp_all add: sample_params_def)
  note answer = iap2_sync_answers [OF k f fs(1-4) snd_ok fs(5-8)]
  from answer [OF yes] have "\<exists>s'. sync_callback sample_env (sample_sync 5) = Inr (None, s') \<and> SyncDone s' \<and>
      iap2_world s' = [packet_bytes 0x40 0x2B 9 0 []]" unfolding if_True st by blast
  moreover from answer [OF no] have "\<exists>s'. sync_callback sample_env (sample_sync 4) = Inr (Some 0, s') \<and> \<not> SyncDone s' \<and>
      iap2_world s' = [packet_bytes 0xC0 0x2B 9 0 [1, 5, 16, 0, 7, 208, 0, 22, 30, 3, 10, 0, 1, 11, 2, 1]]"
    unfolding if_False st by (simp add: sample_params_def) blast
  ultimately show ?thesis by blast
qed

definition sample_zero :: "nat \<Rightarrow> iap2_buffer" where
  "sample_zero = (\<lambda>_. \<lparr>BPayload = 0, BLength = 13, BBuffer = store 0 (packet_bytes 0x40 1 1 11 ([0, 0] @ [7])) (\<lambda>_. 0)\<rparr>)"

theorem iap2_session_zero_panics_witness:
  "rx_packet sample_env (\<lambda>_. 0) 4096 (sample_link sample_zero) = Inl (Panic KERNEL_ERROR_NULL_POINTER)"
proof -
  let ?s = "sample_link sample_zero" and ?ps = "packet_bytes 0x40 1 1 11 ([0, 0] @ [7])"
  have q: "find (\<lambda>p. CurrentSessionId (protocol ?s p) = 0) (protocols ?s) = Some 20" "length (protocols ?s) \<le> IAP2_MAX_PROTOCOL_COUNT"
    "SType (sess0 ?s) = 0" "SType (sess1 ?s) = 2" "SId (sess1 ?s) \<noteq> SId (sess0 ?s)" "SId (sess1 ?s) \<noteq> 0"
    by (simp_all add: sample_link_def)
  have "load 0 (length ?ps) (BBuffer (iap2_buffers ?s 4096)) = ?ps" by (simp add: sample_link_def sample_zero_def load_store_same)
  moreover have "?ps = packet_bytes 0x40 1 1 (SId (sess1 ?s)) ([0, 0] @ [7])" by (simp add: sample_link_def)
  moreover have "length ?ps \<le> unat (BLength (iap2_buffers ?s 4096))" by (simp add: sample_link_def sample_zero_def length_packet_bytes)
  moreover have "Driver (PEntry (protocol ?s 20)) = None" by (simp add: sample_link_def)
  ultimately show ?thesis using iap2_session_zero_panics [OF q] by blast
qed

text \<open>A packet arrives after the start and is queued for the service.\<close>

definition sample_arrived :: "u8 list list iap2 res" where
  "sample_arrived =
     rbind (iap2_start_link 4096 32768 (Ev 3) (sample_link (\<lambda>_. \<lparr>BPayload = 0, BLength = 0, BBuffer = \<lambda>_. 0\<rparr>))) (\<lambda>s1.
       rbind (iap2_input [1, 2, 3] (service_context (Ev 4) s1)) (\<lambda>(_, s). Inr s))"

theorem iap2_buffers_conserved_witness:
  "\<exists>s. sample_arrived = Inr s \<and> Items (input_fifo s) = [4096] \<and> distinct (input_pool s @ Items (input_fifo s) @ Items (SyncFifo s)) \<and>
     output_pool s = [32768, 36884, 41000, 45116, 49232]"
proof -
  let ?s0 = "sample_link (\<lambda>_. \<lparr>BPayload = 0, BLength = 0, BBuffer = \<lambda>_. 0\<rparr>)"
  obtain s1 where s1: "iap2_start_link 4096 32768 (Ev 3) ?s0 = Inr s1" "output_pool s1 = [32768, 36884, 41000, 45116, 49232]"
      "input_pool s1 = [4096, 8212, 12328, 16444, 20560]" "iap2_kernel s1 = exos_event_create (Ev 3) True sample_kernel" "input_fifo s1 = exos_fifo_create (Some (Ev 3))"
    by (simp add: iap2_start_link_def pool_create_def sizeof_node_def upt_rec sample_link_def)
  let ?c = "service_context (Ev 4) s1"
  have k: "kernel_wf (iap2_kernel ?c)"
  proof -
    have l: "wlists sample_kernel (EventHandles (Ev n)) = []" for n by (simp add: sample_kernel_def)
    then have "kernel_wf (exos_event_create (Ev 3) True sample_kernel)" by (intro event_create_wf sample_kernel_wf)
    moreover have "wlists (exos_event_create (Ev 3) True sample_kernel) (EventHandles (Ev 4)) = []"
      using l by (simp add: exos_event_create_def upd_event_def upd_list_def)
    ultimately show ?thesis using s1(4) by (simp add: service_context_def event_create_wf)
  qed
  obtain f k' where "exos_fifo_queue 4096 (input_fifo ?c) (iap2_kernel ?c) = Inr (f, k')" "Items f = [4096]"
    using fifo_queue_spec [OF _ k, of "input_fifo ?c" 4096] s1(5)
    by (auto simp: service_context_def fifo_ok_def exos_fifo_create_def is_node_def)
  then obtain ok s where s: "iap2_input [1, 2, 3] ?c = Inr (ok, s)" and i: "Items (input_fifo s) = [4096]"
    using s1(3) by (simp add: iap2_input_def pool_allocate_def service_context_def upd_buffer_def)
  have "(iap2_step sample_env)\<^sup>*\<^sup>* ?c s" using iap2_step.packet [OF s] by blast
  from iap2_buffers_conserved [OF s1(1) this] show ?thesis using s1 s i by (auto simp: sample_arrived_def)
qed

end
