(* ===== verification/Iap2Device.thy ===== *)
theory Iap2Device
  imports Iap2Link UsbDevice
begin

text \<open>
  The accessory protocol over a USB device interface (\<^verbatim>\<open>exos/support/apple/iap2/iap2_device.c\<close>): the bytes the service sends go
  to an output buffer, from which the interface fills its transfers, and what the host sends goes to the service.  The handlers
  return the time-out with which they add their dispatcher again, if they do.
\<close>

unbundle bit_operations_syntax

section \<open>State\<close>

text \<open>\<^verbatim>\<open>iap2_device_context_t\<close>, with the device service; the memory of the context is cleared when it is allocated.
  The service runs at most once (\<^verbatim>\<open>iap2_start\<close> asserts it), so the buffers and states are those of the one running instance.\<close>

record iap2_device =
  dev_usb :: usb_device
  DevInterface :: "nat \<Rightarrow> ifid"           \<comment> \<open>the interface of an instance\<close>
  DevOutput :: io_buffer_t
  DevTxEvent :: eid
  DevTxStatus :: usb_io_status
  DevRxStatus :: usb_io_status
  DevRxData :: ram
  DevRxDone :: u16
  DevReady :: bool
  DevIdle :: bool

abbreviation (input) IAP2_BULK_EP :: u32 where "IAP2_BULK_EP \<equiv> 1"

text \<open>\<^verbatim>\<open>_get_context\<close>: the first instance of the list whose interface has the number.\<close>

primrec get_context_loop :: "iap2_device \<Rightarrow> nat list \<Rightarrow> u8 \<Rightarrow> nat option res" where
  "get_context_loop d [] if_num = Inr None"
| "get_context_loop d (n # ns) if_num =
     (let i = iface (cfg (dev_usb d)) (DevInterface d n)
      in ASSERT (IfStatus i = USB_IFSTA_STARTED) KERNEL_ERROR_KERNEL_PANIC
           (if IfIndex i = if_num then Inr (Some n) else get_context_loop d ns if_num))"

definition get_context :: "u8 \<Rightarrow> iap2_device \<Rightarrow> nat option res" where
  "get_context if_num d = get_context_loop d (instances (dev_usb d)) if_num"

section \<open>The transport\<close>

definition device_start_transport :: "iap2_link_params" where
  "device_start_transport = \<lparr>MaxRcvPacketLength = 0, RetransmitTimeout = 2000, CumulativeAckTimeout = 22, MaxNumOutstandingPackets = 0,
     MaxRetransmits = 30, MaxCumulativeAcks = 3\<rparr>"

definition device_send :: "u8 \<Rightarrow> u8 list \<Rightarrow> iap2_device \<Rightarrow> kernel \<Rightarrow> (bool \<times> iap2_device \<times> kernel) res" where
  "device_send unit bs d k =
     rbind (get_context unit d) (\<lambda>c.
       ASSERT (c \<noteq> None) KERNEL_ERROR_NULL_POINTER
         (rbind (exos_io_buffer_write bs (DevOutput d) k) (\<lambda>(n, out, k1).
            rbind (exos_event_set (DevTxEvent d) k1) (\<lambda>k2. Inr (n = length bs, d\<lparr>DevOutput := out\<rparr>, k2)))))"

definition device_identify :: "u16 \<Rightarrow> iap2_control_parameters \<Rightarrow> (u16 \<times> iap2_control_parameters) res" where
  "device_identify component params =
     rbind (iap2_helper_add_param_bytes 0 (HTOIAP2S component) params) (\<lambda>p1.
       rbind (iap2_helper_add_param_string 1 (text_string ''HostMode'') p1) (\<lambda>p2.
         rbind (iap2_helper_add_parameter 2 0 p2) (\<lambda>(_, p3). Inr (16, p3))))"

text \<open>The function of the same name in \<^verbatim>\<open>iap2_hid.c\<close>.\<close>

definition hid_identify :: "u16 \<Rightarrow> iap2_control_parameters \<Rightarrow> (u16 \<times> iap2_control_parameters) res" where
  "hid_identify component params =
     rbind (iap2_helper_add_param_bytes 0 (HTOIAP2S component) params) (\<lambda>p1.
       rbind (iap2_helper_add_param_string 1 (text_string ''DeviceMode (HID)'') p1) (\<lambda>p2.
         rbind (iap2_helper_add_parameter 2 0 p2) (\<lambda>(_, p3). Inr (15, p3))))"

section \<open>Transfers\<close>

definition device_tx_dispatch :: "iap2_device \<Rightarrow> kernel \<Rightarrow> (u32 option \<times> iap2_device \<times> kernel) res" where
  "device_tx_dispatch d k =
     (if DevTxStatus d = USB_IOSTA_IN_WAIT \<or> DevTxStatus d = USB_IOSTA_IN_COMPLETE
      then if DevReady d then Inr (Some 1000, d\<lparr>DevIdle := False\<rparr>, k)
           else Inr (None, d\<lparr>DevTxStatus := USB_IOSTA_UNKNOWN\<rparr>, k)
      else if DevTxStatus d = USB_IOSTA_ERROR then Inr (None, d\<lparr>DevTxStatus := USB_IOSTA_UNKNOWN\<rparr>, k)
      else rbind (exos_io_buffer_read 64 (DevOutput d) k) (\<lambda>(bs, out, k1).
             let d1 = d\<lparr>DevOutput := out\<rparr>
             in if bs \<noteq> []
                then rbind (usb_set_tx_buffer IAP2_BULK_EP True bs (dev_usb d1)) (\<lambda>u. Inr (Some 100, d1\<lparr>dev_usb := u, DevIdle := False\<rparr>, k1))
                else Inr (Some 0, d1\<lparr>DevIdle := True\<rparr>, k1)))"

definition device_rx_dispatch :: "'w iap2 \<Rightarrow> iap2_device \<Rightarrow> (u32 option \<times> 'w iap2 \<times> iap2_device) res" where
  "device_rx_dispatch s d =
     (if DevRxStatus d = USB_IOSTA_DONE
      then rbind (if DevRxDone d \<noteq> 0 then rbind (iap2_input (load 0 (unat (DevRxDone d)) (DevRxData d)) s) (\<lambda>(_, s1). Inr s1) else Inr s) (\<lambda>s1.
             rbind (usb_set_rx_buffer IAP2_BULK_EP True (of_nat IAP2_BUFFER_SIZE) (dev_usb d)) (\<lambda>u. Inr (Some 0, s1, d\<lparr>dev_usb := u\<rparr>)))
      else Inr (None, s, d))"

definition device_stop :: "ifid \<Rightarrow> iap2_device \<Rightarrow> iap2_device res" where
  "device_stop i d =
     (let c = DriverContext (iface (cfg (dev_usb d)) i)
      in ASSERT (DevInterface d c = i) KERNEL_ERROR_NULL_POINTER
           (rbind (delist i (dev_usb d)) (\<lambda>u. Inr (d\<lparr>dev_usb := u, DevReady := False\<rparr>))))"

section \<open>What is transmitted\<close>

text \<open>Everything the service has sent and the buffer has accepted is transmitted in order, at most 64 bytes at a time.\<close>

lemma device_tx_takes:
  assumes "kernel_wf k" and "iob_ok (DevOutput d)" and "DevTxStatus d \<notin> {USB_IOSTA_IN_WAIT, USB_IOSTA_IN_COMPLETE, USB_IOSTA_ERROR}"
    and "contents (DevOutput d) \<noteq> []"
  shows "\<exists>d' k'. device_tx_dispatch d k = Inr (Some 100, d', k') \<and>
    hal (dev_usb d') = hal (dev_usb d) @ [hal_usbd_prepare_in_ep 1 (take 64 (contents (DevOutput d)))] \<and>
    contents (DevOutput d') = drop 64 (contents (DevOutput d))"
proof -
  obtain b k' where r: "exos_io_buffer_read 64 (DevOutput d) k = Inr (take 64 (contents (DevOutput d)), b, k')"
    "b = (pull ^^ min 64 (exos_io_buffer_avail (DevOutput d))) (DevOutput d)"
    using io_buffer_read_spec [OF assms(1,2)] by blast
  have "contents b = drop 64 (contents (DevOutput d))"
    using pull_n [OF assms(2), of "min 64 (exos_io_buffer_avail (DevOutput d))"] r(2) by (auto simp: min_def split: if_splits)
  then show ?thesis
    using assms(3,4) r(1) by (auto simp: device_tx_dispatch_def Let_def usb_set_tx_buffer_def hal_call_def)
qed

text \<open>
  No function sets \<^verbatim>\<open>Ready\<close>, so the first transfer that the host has not fetched when the dispatcher times out stops the
  transmission: the dispatcher is not added again.
\<close>

theorem device_tx_stops:
  assumes "\<not> DevReady d" and "DevTxStatus d = USB_IOSTA_IN_WAIT"
  shows "device_tx_dispatch d k = Inr (None, d\<lparr>DevTxStatus := USB_IOSTA_UNKNOWN\<rparr>, k)"
  using assms by (simp add: device_tx_dispatch_def)

end
