(* ===== verification/Iap2Identify.thy ===== *)
theory Iap2Identify
  imports Iap2Session Iap2Device
begin

text \<open>
  The identification of an accessory.  What the service relies on of a transport when it identifies the accessory is the locale
  \<open>iap2_transport\<close>, interpreted on the two transports of \<^verbatim>\<open>iap2_hid.c\<close> and \<^verbatim>\<open>iap2_device.c\<close>: the transport adds the parameters of
  its component to an empty group of 64 bytes.  With such a transport the service answers the request with one packet that describes
  the accessory, all its protocols and the transport.
\<close>

unbundle bit_operations_syntax

section \<open>Parameter groups\<close>

text \<open>A group holds the parameters \<open>ps\<close>.\<close>

definition group_bytes :: "(u16 \<times> u8 list) list \<Rightarrow> u8 list" where
  "group_bytes ps = concat (map param_bytes ps)"

definition group_at :: "(u16 \<times> u8 list) list \<Rightarrow> iap2_control_parameters \<Rightarrow> bool" where
  "group_at ps p \<longleftrightarrow>
     PLength p = of_nat (length (group_bytes ps)) \<and> load 0 (length (group_bytes ps)) (PBuffer p) = group_bytes ps"

lemma group_bytes_simps [simp]:
  "group_bytes [] = []" "group_bytes (ps @ qs) = group_bytes ps @ group_bytes qs" "group_bytes [p] = param_bytes p"
  by (simp_all add: group_bytes_def)

lemma group_at_init [simp]: "group_at [] (iap2_helper_init_parameters buf n)" "MaxLength (iap2_helper_init_parameters buf n) = n"
  by (simp_all add: group_at_def iap2_helper_init_parameters_def)

lemma group_add:
  assumes g: "group_at ps p" and n: "length (group_bytes ps) + 4 + length bs \<le> unat (MaxLength p)"
  shows "\<exists>p'. iap2_helper_add_param_bytes i bs p = Inr p' \<and> group_at (ps @ [(i, bs)]) p' \<and> MaxLength p' = MaxLength p"
proof -
  let ?n = "length (group_bytes ps)"
  let ?b = "store (?n + 4) bs (store ?n (HTOIAP2S (4 + of_nat (length bs)) @ HTOIAP2S i) (PBuffer p))"
  let ?p = "p\<lparr>PBuffer := ?b, PLength := of_nat (?n + 4 + length bs)\<rparr>"
  have "unat (MaxLength p) < 65536" by (rule order_less_le_trans [OF unsigned_less]) simp
  then have u: "unat (of_nat ?n :: u16) = ?n" "unat (of_nat (?n + 4 + length bs) :: u16) = ?n + 4 + length bs"
    using n by (simp_all add: unat_u16_of_nat del: of_nat_add)
  have l: "PLength p = of_nat ?n" using g by (simp add: group_at_def)
  have le: "PLength p + (4 + of_nat (length bs)) = of_nat (?n + 4 + length bs)" by (simp add: l)
  have "of_nat (?n + 4 + length bs) \<le> MaxLength p" using n u(2) by (simp only: word_le_nat_alt)
  then have "iap2_helper_add_param_bytes i bs p = Inr ?p"
    unfolding iap2_helper_add_param_bytes_def iap2_helper_add_parameter_def Let_def le
    by (simp add: l u(1) del: of_nat_add)
  moreover have "store ?n (HTOIAP2S (4 + of_nat (length bs)) @ HTOIAP2S i @ bs) (PBuffer p) = ?b"
    using store_append [of ?n "HTOIAP2S (4 + of_nat (length bs)) @ HTOIAP2S i" bs] by simp
  then have b: "?b = store ?n (param_bytes (i, bs)) (PBuffer p)" by (simp add: param_bytes_def)
  have "load 0 (?n + length (param_bytes (i, bs))) ?b = group_bytes ps @ param_bytes (i, bs)"
    using g unfolding b load_append_iff by (simp add: load_store_same load_store_other group_at_def)
  then have "group_at (ps @ [(i, bs)]) ?p" by (simp add: group_at_def add.assoc)
  ultimately show ?thesis by auto
qed

lemma group_add_string: "iap2_helper_add_param_string i str p = iap2_helper_add_param_bytes i (str @ [0]) p"
  by (simp add: iap2_helper_add_param_string_def iap2_helper_add_param_bytes_def)

lemma group_add_empty:
  "iap2_helper_add_param_bytes i [] p = Inr p' \<Longrightarrow> \<exists>a. iap2_helper_add_parameter i 0 p = Inr (a, p')"
  by (auto simp: iap2_helper_add_param_bytes_def rbind_eq_Inr)

lemma of_nat_u16_neq_0: "0 < n \<Longrightarrow> n < 65536 \<Longrightarrow> (of_nat n :: u16) \<noteq> 0"
  using unat_u16_of_nat [of n] by (metis unsigned_0 less_irrefl)

section \<open>The contract of a transport\<close>

text \<open>Adding several parameters in a row, as the callers do.\<close>

fun add_group :: "(u16 \<times> u8 list) list \<Rightarrow> iap2_control_parameters \<Rightarrow> iap2_control_parameters res" where
  "add_group [] p = Inr p"
| "add_group ((i, bs) # qs) p = rbind (iap2_helper_add_param_bytes i bs p) (add_group qs)"

lemma add_group_ok:
  "group_at ps p \<Longrightarrow> length (group_bytes (ps @ qs)) \<le> unat (MaxLength p) \<Longrightarrow> \<exists>p'. add_group qs p = Inr p' \<and> group_at (ps @ qs) p'"
proof (induction qs arbitrary: ps p)
  case (Cons q qs)
  obtain i bs where q: "q = (i, bs)" by (cases q)
  have "length (group_bytes ps) + 4 + length bs \<le> unat (MaxLength p)"
    using Cons.prems(2) by (simp add: q group_bytes_def)
  from group_add [OF Cons.prems(1) this] obtain p1
    where "iap2_helper_add_param_bytes i bs p = Inr p1" "group_at (ps @ [(i, bs)]) p1" "MaxLength p1 = MaxLength p" by blast
  then show ?case using Cons.IH [of "ps @ [(i, bs)]" p1] Cons.prems(2) by (simp add: q)
qed simp

locale iap2_transport =
  fixes identify :: "iap2_control_parameters \<Rightarrow> (u16 \<times> iap2_control_parameters) res"
    and component :: u16
    and group :: "(u16 \<times> u8 list) list"
  assumes component_set: "component \<noteq> 0"
    and group_set: "group_bytes group \<noteq> []" "length (group_bytes group) \<le> 64"
    and identifies: "group_at [] p \<Longrightarrow> MaxLength p = 64 \<Longrightarrow> \<exists>p'. identify p = Inr (component, p') \<and> group_at group p'"
begin

lemma transport_component:
  assumes "Identify E = (\<lambda>p w. rbind (identify p) (\<lambda>(c, p'). Inr (c, p', w)))"
  shows "\<exists>buf'. get_transport_component_id E buf s = Inr (of_nat (length (group_bytes group)), component, buf', s) \<and>
    load 0 (length (group_bytes group)) buf' = group_bytes group"
proof -
  obtain p' where "identify (iap2_helper_init_parameters buf 64) = Inr (component, p')" "group_at group p'"
    using identifies [OF group_at_init] by blast
  then show ?thesis using component_set by (simp add: get_transport_component_id_def assms group_at_def)
qed

end

text \<open>The two transports keep it.\<close>

definition transport_group :: "u16 \<Rightarrow> string \<Rightarrow> (u16 \<times> u8 list) list" where
  "transport_group component name = [(0, HTOIAP2S component), (1, text_string name @ [0]), (2, [])]"

lemma add_transport_group:
  assumes "group_at [] p" and "MaxLength p = 64" and "length name \<le> 49"
  shows "\<exists>p'. rbind (iap2_helper_add_param_bytes 0 (HTOIAP2S c) p) (\<lambda>p1.
      rbind (iap2_helper_add_param_string 1 (text_string name) p1) (\<lambda>p2.
        rbind (iap2_helper_add_parameter 2 0 p2) (\<lambda>(_, p3). Inr (cid, p3)))) = Inr (cid, p') \<and> group_at (transport_group c name) p'"
proof -
  have "length (group_bytes ([] @ transport_group c name)) \<le> unat (MaxLength p)"
    using assms(2,3) by (simp add: transport_group_def group_bytes_def text_string_def)
  from add_group_ok [OF assms(1) this] obtain p'
    where p: "add_group (transport_group c name) p = Inr p'" "group_at (transport_group c name) p'" by auto
  then show ?thesis
    by (auto simp: transport_group_def rbind_eq_Inr group_add_string dest!: group_add_empty)
qed

interpretation hid: iap2_transport "hid_identify c" 15 "transport_group c ''DeviceMode (HID)''" for c
  by unfold_locales
     (use add_transport_group [of _ "''DeviceMode (HID)''" c 15] in
       \<open>simp_all add: hid_identify_def transport_group_def group_bytes_def text_string_def param_bytes_def HTOIAP2S_def\<close>)

interpretation dev: iap2_transport "device_identify c" 16 "transport_group c ''HostMode''" for c
  by unfold_locales
     (use add_transport_group [of _ "''HostMode''" c 16] in
       \<open>simp_all add: device_identify_def transport_group_def group_bytes_def text_string_def param_bytes_def HTOIAP2S_def\<close>)

section \<open>The protocols of an accessory\<close>

definition protocol_group :: "nat \<Rightarrow> cstring \<Rightarrow> (u16 \<times> u8 list) list" where
  "protocol_group i url = [(0, [of_nat i + 0xA0]), (1, url @ [0]), (2, [2])]"

fun protocol_params :: "nat \<Rightarrow> cstring list \<Rightarrow> (u16 \<times> u8 list) list" where
  "protocol_params i [] = []"
| "protocol_params i (url # urls) = (10, group_bytes (protocol_group i url)) # protocol_params (Suc i) urls"

lemma length_protocol_group: "length (group_bytes (protocol_group i url)) = 15 + length url"
  by (simp add: protocol_group_def group_bytes_def)

lemma protocol_definition_ok:
  assumes i: "i < length (protocols s)" "i < 4" and u: "length (Url (protocol s (protocols s ! i))) \<le> 49"
  shows "\<exists>buf'. get_protocol_definition i buf s
      = Inr (of_nat (15 + length (Url (protocol s (protocols s ! i)))), buf', upd_protocol (protocols s ! i) (\<lambda>x. x\<lparr>ProtocolId := of_nat i + 0xA0\<rparr>) s)
    \<and> load 0 (15 + length (Url (protocol s (protocols s ! i)))) buf' = group_bytes (protocol_group i (Url (protocol s (protocols s ! i))))"
proof -
  let ?u = "Url (protocol s (protocols s ! i))"
  have "length (group_bytes ([] @ protocol_group i ?u)) \<le> unat (MaxLength (iap2_helper_init_parameters buf 64))"
    using u by (simp add: length_protocol_group)
  from add_group_ok [OF group_at_init(1) this] obtain p'
    where "add_group (protocol_group i ?u) (iap2_helper_init_parameters buf 64) = Inr p'" "group_at (protocol_group i ?u) p'" by auto
  then show ?thesis
    using i unfolding group_at_def length_protocol_group
    by (auto simp: get_protocol_definition_def protocol_group_def rbind_eq_Inr group_add_string upd_protocol_def Let_def)
qed

lemma add_params_simps [simp]:
  "add_params c [] m = m" "add_params c ((i, bs) # ps) m = add_params c ps (add_param_bytes c i bs m)"
  "add_params c (ps @ qs) m = add_params c qs (add_params c ps m)"
  by (simp_all add: add_params_def)

lemma add_loaded:
  "load 0 n buf = bs \<Longrightarrow> length bs = n \<Longrightarrow> n < 65536 \<Longrightarrow>
    (case add_parameter c i (of_nat n) m of (a, m1) \<Rightarrow> store a (load 0 (unat (of_nat n :: u16)) buf) m1) = add_param_bytes c i bs m"
  by (simp add: add_param_bytes_def unat_u16_of_nat)

text \<open>The loop over the protocols adds one group for every protocol and gives each the id of its place.\<close>

lemma add_protocols_ok:
  fixes s :: "'w iap2"
  assumes "length (protocols s) \<le> i + n" and "i + n \<le> 4" and "distinct (protocols s)"
    and "\<forall>p\<in>set (protocols s). length (Url (protocol s p)) \<le> 49"
  shows "\<exists>buf' f. add_protocols n b i buf s
      = Inr (buf', (upd_bytes b (add_params 9 (protocol_params i (map (\<lambda>p. Url (protocol s p)) (drop i (protocols s))))) s)\<lparr>protocol := f\<rparr>)
    \<and> (\<forall>j. i \<le> j \<longrightarrow> j < length (protocols s) \<longrightarrow> ProtocolId (f (protocols s ! j)) = of_nat j + 0xA0)
    \<and> (\<forall>p. p \<notin> set (drop i (protocols s)) \<longrightarrow> f p = protocol s p)"
  using assms
proof (induction n arbitrary: i buf s)
  case 0
  then show ?case by (auto simp: upd_bytes_def upd_buffer_def intro!: exI [of _ "protocol s"])
next
  case (Suc n)
  show ?case
  proof (cases "i < length (protocols s)")
    case False
    then have "get_protocol_definition i buf s = Inr (0, buf, s)"
      using Suc.prems(2) by (simp add: get_protocol_definition_def iap2_helper_init_parameters_def Let_def)
    then show ?thesis using False by (auto simp: upd_bytes_def upd_buffer_def intro!: exI [of _ "protocol s"])
  next
    case True
    let ?p = "protocols s ! i" and ?g = "\<lambda>x. x\<lparr>ProtocolId := of_nat i + 0xA0\<rparr>"
    let ?u = "Url (protocol s ?p)"
    have u: "length ?u \<le> 49" using Suc.prems(4) True by simp
    obtain buf1 where d: "get_protocol_definition i buf s = Inr (of_nat (15 + length ?u), buf1, upd_protocol ?p ?g s)"
        "load 0 (15 + length ?u) buf1 = group_bytes (protocol_group i ?u)"
      using protocol_definition_ok [OF True _ u] Suc.prems(2) by auto
    let ?bs = "group_bytes (protocol_group i ?u)"
    let ?s1 = "upd_bytes b (add_param_bytes 9 10 ?bs) (upd_protocol ?p ?g s)"
    have n: "unat (of_nat (15 + length ?u) :: u16) = 15 + length ?u" using u by (intro unat_u16_of_nat) simp
    have ne: "(of_nat (15 + length ?u) :: u16) \<noteq> 0" using u by (intro of_nat_u16_neq_0) simp_all
    obtain a m1 where a: "add_parameter 9 10 (of_nat (15 + length ?u)) (BBuffer (iap2_buffers s b)) = (a, m1)" by fastforce
    have "store a (load 0 (15 + length ?u) buf1) m1 = add_param_bytes 9 10 ?bs (BBuffer (iap2_buffers s b))"
      by (simp only: add_param_bytes_def length_protocol_group a d(2) prod.case Let_def)
    then have st: "upd_bytes b (\<lambda>_. store a (load 0 (15 + length ?u) buf1) m1) (upd_protocol ?p ?g s) = ?s1"
      by (simp add: upd_bytes_def upd_buffer_def upd_protocol_def)
    have b: "iap2_buffers (upd_protocol ?p ?g s) b = iap2_buffers s b" by (simp add: upd_protocol_def)
    have step: "add_protocols (Suc n) b i buf s = add_protocols n b (i + 1) buf1 ?s1"
      by (simp only: add_protocols.simps d(1) rbind_Inr prod.case if_not_P [OF ne] ne not_False_eq_True if_True b a Let_def n st)
    have p1: "protocols ?s1 = protocols s" "Url (protocol ?s1 q) = Url (protocol s q)" for q
      by (simp_all add: upd_bytes_def upd_buffer_def upd_protocol_def)
    have "length (protocols ?s1) \<le> i + 1 + n" "i + 1 + n \<le> 4" "distinct (protocols ?s1)"
      "\<forall>p\<in>set (protocols ?s1). length (Url (protocol ?s1 p)) \<le> 49"
      using Suc.prems unfolding p1 by simp_all
    from Suc.IH [OF this, of buf1, unfolded p1]
    obtain buf' f where f: "add_protocols n b (i + 1) buf1 ?s1
        = Inr (buf', (upd_bytes b (add_params 9 (protocol_params (i + 1) (map (\<lambda>p. Url (protocol s p)) (drop (i + 1) (protocols s))))) ?s1)\<lparr>protocol := f\<rparr>)"
      "\<And>j. i + 1 \<le> j \<Longrightarrow> j < length (protocols s) \<Longrightarrow> ProtocolId (f (protocols s ! j)) = of_nat j + 0xA0"
      "\<And>p. p \<notin> set (drop (i + 1) (protocols s)) \<Longrightarrow> f p = protocol ?s1 p"
      by auto
    have dr: "drop i (protocols s) = ?p # drop (i + 1) (protocols s)" using True by (simp add: Cons_nth_drop_Suc)
    have "?p \<notin> set (drop (i + 1) (protocols s))" using distinct_drop [OF Suc.prems(3), of i] unfolding dr by simp
    then have id: "ProtocolId (f ?p) = of_nat i + 0xA0" using f(3) by (simp add: upd_bytes_def upd_buffer_def upd_protocol_def)
    have ids: "ProtocolId (f (protocols s ! j)) = of_nat j + 0xA0" if "i \<le> j" "j < length (protocols s)" for j
      using f(2) [of j] id that by (cases "j = i") auto
    have fr: "f p = protocol s p" if "p \<notin> set (drop i (protocols s))" for p
      using f(3) [of p] that unfolding dr by (simp add: upd_bytes_def upd_buffer_def upd_protocol_def)
    have eq: "upd_bytes b (add_params 9 (protocol_params (i + 1) us)) ?s1\<lparr>protocol := f\<rparr>
        = upd_bytes b (add_params 9 (protocol_params i (?u # us))) s\<lparr>protocol := f\<rparr>" for us
      by (simp add: upd_bytes_def upd_buffer_def upd_protocol_def)
    from f(1) show ?thesis unfolding step eq dr list.map using ids fr unfolding dr by blast
  qed
qed

section \<open>The answer to the request\<close>

definition identification_params :: "cstring list \<Rightarrow> u16 \<Rightarrow> (u16 \<times> u8 list) list \<Rightarrow> cstring \<Rightarrow> (u16 \<times> u8 list) list" where
  "identification_params urls component params uid =
     accessory_params @ protocol_params 0 urls @ language_params @ [(component, group_bytes params), (34, uid @ [0])]"

lemma add_param_string_bytes: "add_param_string c i str m = add_param_bytes c i (str @ [0]) m"
  by (simp add: add_param_string_def add_param_bytes_def)

lemma build_message_params: "build_message c msgid ps m = add_params c ps (init_control_msg c msgid m)"
  by (simp add: build_message_def add_params_def)

lemma add_param_bytes_below: "x < c \<Longrightarrow> add_param_bytes c i bs m x = m x"
  by (simp add: add_param_bytes_def add_parameter_def Let_def store_other)

lemma add_params_below: "x < c \<Longrightarrow> add_params c ps m x = m x"
  by (induction ps arbitrary: m) (auto simp: add_param_bytes_below)

lemma header_set_build:
  "header_set control seq ack sess_id m \<Longrightarrow> header_set control seq ack sess_id (build_message 9 msgid ps m)"
proof -
  have "load a n (build_message 9 msgid ps m) = load a n m" if "a + n \<le> 9" for a n
    using that by (intro nth_equalityI) (simp_all add: build_message_params add_params_below init_control_msg_def store_other)
  then show "header_set control seq ack sess_id m \<Longrightarrow> header_set control seq ack sess_id (build_message 9 msgid ps m)"
    by (simp add: header_set_def)
qed

text \<open>A message is sent as one packet and its buffer given back.\<close>

lemma send_message_sends:
  assumes x: "iap2_buffers s b = x" "header_set control seq ack sess_id (BBuffer x)" "BLength x = 9" "BPayload x = 9"
    and m: "message_at 9 msgid ps (BBuffer x)" and n: "length (message_bytes msgid ps) \<le> 4086"
    and snd_ok: "\<And>bs. Send E bs (iap2_world s) (iap2_kernel s) = Inr (ok, sent bs, k)" and b: "b \<notin> set (output_pool s)"
  shows "\<exists>s'. send_message E b s = Inr s' \<and> iap2_world s' = sent (packet_bytes control seq ack sess_id (message_bytes msgid ps)) \<and>
    output_pool s' = b # output_pool s \<and> protocol s' = protocol s"
proof -
  let ?bs = "message_bytes msgid ps" and ?y = "x\<lparr>BLength := BLength x + IAP2SHTOH (unat (BPayload x) + 2) (BBuffer x)\<rparr>"
  have "IAP2SHTOH (9 + 2) (BBuffer x) = of_nat (length ?bs)" using m unfolding message_at_parts by (intro IAP2SHTOH_load) simp
  then have l: "BLength ?y = of_nat (9 + length ?bs)" using x(3,4) by simp
  have p: "load 9 (length ?bs) (BBuffer ?y) = ?bs" using m by (simp add: message_at_def)
  have h: "header_set control seq ack sess_id (BBuffer ?y)" using x(2) by simp
  have n65: "length ?bs < 65000" using n by simp
  note pb = packet_built [OF h l p n65]
  have "unat (BLength (end_header (end_payload ?y))) = 10 + length ?bs" unfolding pb(1) by (rule unat_u16_of_nat) (use n in simp)
  moreover have "?bs \<noteq> []" using length_message_bytes [of msgid ps] by auto
  ultimately have ld: "load 0 (unat (BLength (end_header (end_payload ?y)))) (BBuffer (end_header (end_payload ?y)))
      = packet_bytes control seq ack sess_id ?bs"
    using pb(2) by (simp add: packet_bytes_def)
  let ?s = "upd_buffer b (\<lambda>x. end_payload (x\<lparr>BLength := BLength x + IAP2SHTOH (unat (BPayload x) + 2) (BBuffer x)\<rparr>)) s"
  have y: "iap2_buffers ?s b = end_payload ?y" using x(1) by (simp add: upd_buffer_def)
  have "send_and_free E b ?s = Inr ((upd_buffer b end_header ?s)\<lparr>iap2_world := sent (packet_bytes control seq ack sess_id ?bs),
      iap2_kernel := k, output_pool := b # output_pool ?s\<rparr>)"
    by (rule send_and_free_sends [where ok = ok, OF _ refl]) (unfold y ld, use snd_ok b in \<open>simp_all add: upd_buffer_def\<close>)
  then show ?thesis by (simp add: send_message_def upd_buffer_def)
qed

context iap2_transport
begin

lemma identification_sent:
  assumes E: "Identify E = (\<lambda>p w. rbind (identify p) (\<lambda>(c, p'). Inr (c, p', w)))"
    and s: "SType (sess0 s) = 0" "output_pool s = b # free" "b \<notin> set free"
    and ps: "length (protocols s) \<le> 4" "distinct (protocols s)" "\<forall>p\<in>set (protocols s). length (Url (protocol s p)) \<le> 49"
    and snd_ok: "\<And>bs. Send E bs (iap2_world s) (iap2_kernel s) = Inr (ok, sent bs, k)"
    and msg: "msg = message_bytes 0x1D01
      (identification_params (map (\<lambda>p. Url (protocol s p)) (protocols s)) component group (ProductPlanUID E))" "length msg \<le> 4086"
  shows "\<exists>s'. send_identification E buf s = Inr s' \<and> iap2_world s' = sent (packet_bytes 0x40 (Seq s) (Ack s) (SId (sess0 s)) msg) \<and>
    output_pool s' = output_pool s \<and>
    (\<forall>j. j < length (protocols s) \<longrightarrow> ProtocolId (protocol s' (protocols s ! j)) = of_nat j + 0xA0)"
proof -
  let ?urls = "map (\<lambda>p. Url (protocol s p)) (protocols s)"
  let ?ps = "identification_params ?urls component group (ProductPlanUID E)"
  let ?x = "init_header (Seq s) (Ack s) 0x40 (SId (sess0 s)) (iap2_buffers s b)"
  let ?s1 = "upd_buffer b (init_header (Seq s) (Ack s) 0x40 (SId (sess0 s))) (s\<lparr>output_pool := free\<rparr>)"
  let ?s2 = "upd_bytes b (\<lambda>m. add_params 9 accessory_params (init_control_msg 9 0x1D01 m)) ?s1"
  have i: "init_packet 0x40 (SId (sess0 s)) s = (Some b, ?s1)" using s by (simp add: init_packet_def pool_allocate_def)
  have p2: "protocols ?s2 = protocols s" "protocol ?s2 = protocol s" by (simp_all add: upd_bytes_def upd_buffer_def)
  obtain buf1 f where a: "add_protocols 4 b 0 buf ?s2 = Inr (buf1, (upd_bytes b (add_params 9 (protocol_params 0 ?urls)) ?s2)\<lparr>protocol := f\<rparr>)"
    and ids: "\<forall>j. j < length (protocols s) \<longrightarrow> ProtocolId (f (protocols s ! j)) = of_nat j + 0xA0"
    using add_protocols_ok [of ?s2 0 4 b buf] ps unfolding p2 by auto
  let ?s4 = "upd_bytes b (add_params 9 language_params) ((upd_bytes b (add_params 9 (protocol_params 0 ?urls)) ?s2)\<lparr>protocol := f\<rparr>)"
  obtain buf2 where t: "get_transport_component_id E buf1 ?s4 = Inr (of_nat (length (group_bytes group)), component, buf2, ?s4)"
      "load 0 (length (group_bytes group)) buf2 = group_bytes group"
    using transport_component [OF E] by blast
  have n: "unat (of_nat (length (group_bytes group)) :: u16) = length (group_bytes group)" using group_set(2) by (intro unat_u16_of_nat) simp
  have ne: "(of_nat (length (group_bytes group)) :: u16) \<noteq> 0" using group_set by (intro of_nat_u16_neq_0) simp_all
  obtain c m1 where c: "add_parameter 9 component (of_nat (length (group_bytes group))) (BBuffer (iap2_buffers ?s4 b)) = (c, m1)" by fastforce
  have "store c (group_bytes group) m1 = add_param_bytes 9 component (group_bytes group) (BBuffer (iap2_buffers ?s4 b))"
    by (simp only: add_param_bytes_def c prod.case Let_def)
  then have m: "add_param_string 9 34 (ProductPlanUID E) (store c (group_bytes group) m1) = build_message 9 0x1D01 ?ps (BBuffer ?x)"
    by (simp add: add_param_string_bytes build_message_params identification_params_def upd_bytes_def upd_buffer_def)
  let ?s6 = "upd_bytes b (\<lambda>_. build_message 9 0x1D01 ?ps (BBuffer ?x)) ?s4"
  have r: "send_identification E buf s = send_message E b ?s6"
    unfolding send_identification_def
    by (simp only: s(1) ASSERT_True i prod.case option.case Let_def a rbind_Inr t ne component_set not_False_eq_True c n m)
  have x6: "iap2_buffers ?s6 b = ?x\<lparr>BBuffer := build_message 9 0x1D01 ?ps (BBuffer ?x)\<rparr>" by (simp add: upd_bytes_def upd_buffer_def)
  have h: "header_set 0x40 (Seq s) (Ack s) (SId (sess0 s)) (build_message 9 0x1D01 ?ps (BBuffer ?x))"
    by (intro header_set_build header_set_init)
  have at: "message_at 9 0x1D01 ?ps (build_message 9 0x1D01 ?ps (BBuffer ?x))" using msg by (intro message_at_build) simp
  have fs: "BLength ?x = 9" "BPayload ?x = 9" "output_pool ?s6 = free" "iap2_world ?s6 = iap2_world s" "iap2_kernel ?s6 = iap2_kernel s" "protocol ?s6 = f"
    by (simp_all add: init_header_def upd_bytes_def upd_buffer_def)
  obtain s' where "send_message E b ?s6 = Inr s'" "iap2_world s' = sent (packet_bytes 0x40 (Seq s) (Ack s) (SId (sess0 s)) msg)"
      "output_pool s' = b # free" "protocol s' = f"
    using send_message_sends [OF x6, of "0x40" "Seq s" "Ack s" "SId (sess0 s)" "0x1D01" ?ps E ok sent k] h at msg fs snd_ok s(3) by auto
  then show ?thesis unfolding r s(2) using ids by auto
qed

end

text \<open>C33: the request for the identification is answered over both transports: one packet leaves the service whose control message
  lists the texts of the accessory, one group for every protocol with its id and its name, the languages, the component of the
  transport and the plan of the product, in this order and with correct lengths and checksums; every protocol has the id that the
  message announces for it, and the buffer is given back.
\<close>

theorem iap2_identification_complete:
  assumes "(identify, component, params) \<in>
      {(hid_identify c, 15, transport_group c ''DeviceMode (HID)''), (device_identify c, 16, transport_group c ''HostMode'')}"
    and "Identify E = (\<lambda>p w. rbind (identify p) (\<lambda>(i, p'). Inr (i, p', w)))"
    and "SType (sess0 s) = 0" and "output_pool s = b # free" and "b \<notin> set free"
    and "length (protocols s) \<le> 4" and "distinct (protocols s)" and "\<forall>p\<in>set (protocols s). length (Url (protocol s p)) \<le> 49"
    and "\<And>bs. Send E bs (iap2_world s) (iap2_kernel s) = Inr (ok, sent bs, k)"
    and "msg = message_bytes 0x1D01 (identification_params (map (\<lambda>p. Url (protocol s p)) (protocols s)) component params (ProductPlanUID E))"
    and "length msg \<le> 4086"
  shows "\<exists>s'. send_identification E buf s = Inr s' \<and> iap2_world s' = sent (packet_bytes 0x40 (Seq s) (Ack s) (SId (sess0 s)) msg) \<and>
    output_pool s' = output_pool s \<and>
    (\<forall>j. j < length (protocols s) \<longrightarrow> ProtocolId (protocol s' (protocols s ! j)) = of_nat j + 0xA0)"
  using assms(1)
proof (elim insertE emptyE)
  assume "(identify, component, params) = (hid_identify c, 15, transport_group c ''DeviceMode (HID)'')"
  then have "identify = hid_identify c" "component = 15" "params = transport_group c ''DeviceMode (HID)''" by simp_all
  with assms(2-11) show ?thesis by (intro hid.identification_sent) auto
next
  assume "(identify, component, params) = (device_identify c, 16, transport_group c ''HostMode'')"
  then have "identify = device_identify c" "component = 16" "params = transport_group c ''HostMode''" by simp_all
  with assms(2-11) show ?thesis by (intro dev.identification_sent) auto
qed

definition sample_accessory :: "u8 list list iap2" where
  "sample_accessory = (let s = sample_link (\<lambda>_. \<lparr>BPayload = 0, BLength = 0, BBuffer = \<lambda>_. 0\<rparr>)
     in s\<lparr>protocol := (\<lambda>p. (protocol s p)\<lparr>Url := text_string ''com.exos.data''\<rparr>)\<rparr>)"

theorem iap2_identification_complete_witness:
  "\<exists>s'. send_identification (sample_env\<lparr>Identify := \<lambda>p w. rbind (device_identify 7 p) (\<lambda>(i, p'). Inr (i, p', w))\<rparr>) (\<lambda>_. 0) sample_accessory = Inr s' \<and>
    iap2_world s' = [packet_bytes 0x40 0x2B 9 10 (message_bytes 0x1D01
      (identification_params [text_string ''com.exos.data''] 16 (transport_group 7 ''HostMode'') (ProductPlanUID sample_env)))] \<and>
    ProtocolId (protocol s' 20) = 0xA0"
proof -
  let ?E = "sample_env\<lparr>Identify := \<lambda>p w. rbind (device_identify 7 p) (\<lambda>(i, p'). Inr (i, p', w))\<rparr>" and ?s = sample_accessory
  let ?msg = "message_bytes 0x1D01 (identification_params [text_string ''com.exos.data''] 16 (transport_group 7 ''HostMode'') (ProductPlanUID sample_env))"
  have E: "Identify ?E = (\<lambda>p w. rbind (device_identify 7 p) (\<lambda>(i, p'). Inr (i, p', w)))" by simp
  have fs: "SType (sess0 ?s) = 0" "output_pool ?s = 8192 # [12308]" "8192 \<notin> set [12308 :: nat]" "length (protocols ?s) \<le> 4" "distinct (protocols ?s)"
    "\<forall>p\<in>set (protocols ?s). length (Url (protocol ?s p)) \<le> 49" "protocols ?s = [20]" "Seq ?s = 0x2B" "Ack ?s = 9" "SId (sess0 ?s) = 10"
    by (simp_all add: sample_accessory_def sample_link_def text_string_def Let_def)
  have snd_ok: "Send ?E bs (iap2_world ?s) (iap2_kernel ?s) = Inr (True, [bs], sample_kernel)" for bs
    by (simp add: sample_env_def sample_accessory_def sample_link_def Let_def)
  have msg: "?msg = message_bytes 0x1D01 (identification_params (map (\<lambda>p. Url (protocol ?s p)) (protocols ?s)) 16 (transport_group 7 ''HostMode'') (ProductPlanUID ?E))"
    by (simp add: sample_accessory_def sample_link_def Let_def)
  have len: "length ?msg \<le> 4086"
    by (simp add: length_message_bytes identification_params_def accessory_params_def language_params_def group_bytes_def protocol_group_def
      transport_group_def text_string_def sample_env_def)
  from iap2_identification_complete [of "device_identify 7" 16 "transport_group 7 ''HostMode''" 7, OF _ E fs(1-6) snd_ok msg len, of "\<lambda>_. 0"]
  show ?thesis unfolding fs(7-10) by auto
qed

end
