(* ===== verification/Spec2Isabelle.thy ===== *)
theory Spec2Isabelle
  imports Kernel_Steps IoBuffer Fifo Hal Memory_Inv DevTree DeviceIo Datetime Posix Format NetBase NetStack Tcp Dispatch UsbStrings HidItems UsbLink NcmTransfer Iap2Transfer Iap2Identify
begin

text \<open>
  \<^bold>\<open>A model of the ExOS kernel and of its network and USB stacks.\<close>

  ExOS is a small preemptive operating system for microcontrollers.  Its kernel
  (\<^verbatim>\<open>src/exos/kernel\<close>) schedules threads by priority and lets them wait for events, mutexes,
  timers and the end of other threads; byte buffers, node queues, message ports, the memory allocator, the
  device tree and device input and output are built on it, and the network stack
  (\<^verbatim>\<open>src/exos/kernel/driver/net\<close>) and the USB device and host stacks
  (\<^verbatim>\<open>src/exos/kernel/driver/usb\<close>) on those.  The class drivers of \<^verbatim>\<open>src/exos/support/usb\<close> are clients
  of the USB stacks, and the accessory protocol of \<^verbatim>\<open>src/exos/support/apple\<close> runs over both of them.

  \<^bold>\<open>What the theories model.\<close>  Every definition keeps the name of the C function, without
  leading underscores where HOL needs that.

  \<^item> Prelude: machine integers, panic codes (\<^verbatim>\<open>panic.h\<close>, \<^verbatim>\<open>panic.c\<close>) and the result
    type: \<open>Inl\<close> is a panic, a halt or the end of the fuel, \<open>Inr\<close> a returned value.
  \<^item> KList: the intrusive lists of \<^verbatim>\<open>list.c\<close> on a memory of words.  Every operation is shown to
    implement an operation on sequences, and the other theories use sequences in place of the links.
  \<^item> Threads, Threads_Inv: \<^verbatim>\<open>thread.c\<close>; the record \<open>kernel\<close> is the state of the kernel with all
    threads, wait handles, events, mutexes and timers.  \<open>kernel_wf\<close> is its invariant: the ready and wait lists
    agree with the states of the threads and are ordered by priority, every wait handle is in one list, masks of one
    thread are disjoint, and no thread waits although a completed handle of it matches (no lost wake-up).
  \<^item> Waits: the interface between the scheduler and the objects a thread can wait for (the locale
    \<open>wait_source\<close>), interpreted by joining a thread, by Events (\<^verbatim>\<open>event.c\<close>) and by Mutexes
    (\<^verbatim>\<open>mutex.c\<close>).
  \<^item> Timers, Timers_Inv: \<^verbatim>\<open>timer.c\<close> and the waits with a time-out.
  \<^item> Kernel_Steps: the kernel as a transition system whose steps are the kernel sections (of threads, single handles, events,
    mutexes and timers), the writes to events and new objects outside of them, context switches and ticks; invariance of
    \<open>kernel_inv\<close> on every run, mutual exclusion, absence of spurious wake-ups, the exact effect of a tick, the results of joins.
    The steps require that no object is created again while it is in use, that only queued handles are resumed and that a thread
    that ends has disposed of its handles; the runs of the theorems do not nest a mutex \<open>2 ^ 32\<close> times.
  \<^item> Dispatch: \<^verbatim>\<open>dispatch.c\<close>, the loop that serves events and time-outs by callbacks, on the events and
    timers of the kernel.  Its wake-ups are shown for calls with and without a time-out, while other code completes handles or sets
    events; what other code must leave alone is the relation \<open>undisturbed\<close>.
  \<^item> Queues: the contracts of a bounded byte stream and of a node queue as locales, interpreted by IoBuffer
    (\<^verbatim>\<open>iobuffer.c\<close>) and Fifo (\<^verbatim>\<open>fifo.c\<close>, and the ports of \<^verbatim>\<open>port.c\<close>).
  \<^item> Memory, Memory_Inv: \<^verbatim>\<open>memory.c\<close>.  The abstract heap is the sequence of blocks that tile a region.
  \<^item> Hal: strings, memory blocks and number formats of \<^verbatim>\<open>machine/hal.c\<close>; Posix and Format: the
    string, number, address and formatting functions of \<^verbatim>\<open>posix/\<close> and the checksums of
    \<^verbatim>\<open>support/misc/crc16.c\<close>; Datetime: \<^verbatim>\<open>datetime.c\<close>.
  \<^item> DevTree and DeviceIo: \<^verbatim>\<open>tree.c\<close> and \<^verbatim>\<open>io.c\<close>.
  \<^item> Ram: memory as a function from addresses to bytes, with blocks stored and loaded.  Pools: item pools
    (\<^verbatim>\<open>support/misc/pools.c\<close>).
  \<^item> NetBase: addresses, buffer chains and the ARP table (\<^verbatim>\<open>net.c\<close>, \<^verbatim>\<open>mbuf.c\<close>,
    \<^verbatim>\<open>arp_tables.c\<close>).  NetStack: adapters, frames, ARP, IP and ICMP
    (\<^verbatim>\<open>adapter.c\<close>, \<^verbatim>\<open>net_service.c\<close>, \<^verbatim>\<open>arp.c\<close>, \<^verbatim>\<open>ip.c\<close>, \<^verbatim>\<open>icmp.c\<close>).
    Tcp: \<^verbatim>\<open>tcp.c\<close>, \<^verbatim>\<open>tcp_service.c\<close> and the stream calls of \<^verbatim>\<open>tcp_io.c\<close>.
  \<^item> UsbConfig: the registry of strings, configurations and interfaces of a device and the descriptors built from
    it (\<^verbatim>\<open>configuration.c\<close>); UsbParse: walking the descriptors (\<^verbatim>\<open>usb.c\<close> and the searches of
    \<^verbatim>\<open>enumerate.c\<close>).  UsbDescriptors states what an interface driver promises about its descriptors as
    the locale \<open>interface_driver\<close>; UsbDrivers interprets it on the drivers of \<^verbatim>\<open>ftdi.c\<close>,
    \<^verbatim>\<open>cdc_ncm.c\<close> and \<^verbatim>\<open>iap2_device.c\<close> as the boot loader registers them.  UsbStrings holds the
    theorems on string descriptors.
  \<^item> UsbDevice: requests, configurations and endpoints of the device service (\<^verbatim>\<open>device.c\<close>);
    UsbDevice_Inv: the contract of the drivers it starts (locale \<open>device_drivers\<close>) and the selection of a configuration.
  \<^item> NcmBlock, UsbNcm: the network function of a USB device (\<^verbatim>\<open>cdc_ncm.c\<close>), between the device service and the adapters of the
    network stack; NcmFormat states what its transfer blocks describe, and NcmTransfer what is sent and delivered.
  \<^item> UsbHost: \<^verbatim>\<open>host.c\<close> and \<^verbatim>\<open>enumerate.c\<close>.  HidReport and HidItems: the parser of report
    descriptors and report fields of \<^verbatim>\<open>hid.c\<close>; UsbHid: the driver \<^verbatim>\<open>hid.c\<close> with its keyboard
    handler \<^verbatim>\<open>usbkb.c\<close>.  UsbEnum: the contract of the function drivers of the host (locale
    \<open>function_drivers\<close>), interpreted on the HID driver, and enumeration.  UsbLink: the host of UsbHost connected to the
    device of UsbDevice.
  \<^item> Iap2Packet: packets, control messages and parameter groups of the accessory protocol (\<^verbatim>\<open>iap2.c\<close>,
    \<^verbatim>\<open>iap2_helper.c\<close>); Cp30: the coprocessor that authenticates an accessory (\<^verbatim>\<open>cp30.c\<close>); Iap2Link: the state of the service
    and all its handlers (\<^verbatim>\<open>iap2.c\<close>), on the fifos, the pools and the device calls of the kernel.  Iap2Session: the service as a
    transition system, the conservation of its buffers and the synchronisation.  Iap2Hid, Iap2Reports: the transport over the
    reports of an input device (\<^verbatim>\<open>iap2_hid.c\<close>); Iap2Device: the transport over a device interface (\<^verbatim>\<open>iap2_device.c\<close>).
    Iap2Transfer: a packet on its way through transport and service.  Iap2Identify: what the service relies on of a transport (the locale
    \<open>iap2_transport\<close>), interpreted on both, and the identification of the accessory.

  \<^bold>\<open>Conventions.\<close>  The model is that of the debug build: a failed \<^verbatim>\<open>ASSERT\<close> is a panic.  Integers have
  the width of the 32-bit targets, which are little-endian with an unsigned \<^verbatim>\<open>char\<close>; where a C \<^verbatim>\<open>int\<close> cannot
  overflow it is an \<open>int\<close>.  Objects are named by numbers in the place of addresses, and tests for null pointers
  are discharged by the types.  A kernel section (\<^verbatim>\<open>__kernel_do\<close>) is one step.  Code between the lock and the
  unlock of a mutex that guards its data is one step of the components above the kernel, which mutual exclusion
  (Kernel_Steps) justifies.  A call that blocks is split at the wait into \<open>_begin\<close> and \<open>_end\<close> or \<open>_resume\<close>.
  Values of the machine layer (elapsed ticks, the clock), the functions of device and network drivers and the effect of
  stack set-up are arguments.

  \<^bold>\<open>Loops and fuel.\<close>  Loops are structural recursions where the data bounds them.  The scans of the linked
  lists, the loop over expired timers, the resume loop, the flush and the input loop of an adapter and the recycling of
  incoming connections take fuel; the theorems show that fuel of the length of the list (plus one) is enough, so that the end
  of the fuel is never the result on well-formed states.  The USB code walks bytes that a peer sent: there the fuel of a walk is
  the number of descriptors of the chain, that of starting a configuration one more than the number of endpoints of an
  interface, that of receiving a transfer block one more than the number of its datagrams, and that of the search in a report descriptor one more than the number of its items.  A descriptor of length zero
  makes the walk of the code run for ever, and the model then ends with the end of its fuel, whatever the fuel.  The same holds for the parameters of
  an accessory message, where one more than the number of parameters is enough; sending a packet through reports needs one more than
  its length.

  \<^bold>\<open>What the theorems show.\<close>  For the kernel: invariants on all interleavings, mutual exclusion, no lost and
  no spurious wake-ups, exact timer ticks.  For the containers: refinement of sequences, streams and queues, the panic of a node queued twice included.  For the
  allocator: well-formedness, coalescing and round trips of allocation.  For the formats: round trips and the equality with
  reference definitions (decimal numbers, addresses, checksums, the CRC as the remainder of a polynomial division).  For the network: answers to echo and ARP requests,
  checksums against RFC 1071, the state diagram and the retry limits of TCP, and that the bytes delivered are a prefix of
  the bytes sent.  For USB: the configuration a device sends is the chain of the descriptors of its interfaces, a host
  connected to it offers exactly these interfaces to its drivers, strings survive the round trip, requests end, network packets are packed into transfer blocks without loss, and the reports
  of keyboards are read bit by bit.  For the accessory protocol: packets and parameters survive the round trip and damaged packets are refused, packets cross the
  reports of a device unchanged, no buffer is lost on any run, the answers of the synchronisation are known byte for byte, and the
  identification lists the accessory, its protocols and its transport.  Several theorems state precisely where the code departs from what it means to do.

  \<^bold>\<open>Not modelled.\<close>  Register-level drivers and the machine layers (\<^verbatim>\<open>exos/support\<close>,
  \<^verbatim>\<open>exos/kernel/machine\<close>), whose effects are those of the hardware; the data transfer of the USB serial interface and the
  host drivers for hubs, modems and printers; the first version of the accessory protocol (\<^verbatim>\<open>iap.c\<close>, \<^verbatim>\<open>iap_core.c\<close>, \<^verbatim>\<open>cp20.c\<close>) and
  the creation and the end of the service thread of the second; UDP, DHCP and the socket layer, which are written for an earlier interface of the
  network stack that the sources no longer have; traces and start-up; the posix wrappers of files and threads; the optional modules (\<^verbatim>\<open>exos/modules\<close>), backups
  and examples.
\<close>

end
